(* ===== verification/GovppPrelude.thy ===== *)
theory GovppPrelude
  imports Main "HOL-Library.Word" "HOL-Library.Monad_Syntax"
begin

text \<open>
  Shared vocabulary of the development: Go's fixed-width integers as words, run-time panics as
  \<open>None\<close>, Go errors as values of \<open>gerr\<close>, byte orders of the \<open>encoding/binary\<close> package, and
  the generic facts on lists, words and maps the components use.

  Conventions. A Go function that may panic returns an \<open>option\<close>; one that returns an error returns
  a sum whose left side is the error. Unsigned and signed integers of a width share the word type
  of that width (a Go conversion between them keeps the bits); \<open>sint\<close> reads the signed value.
  \<open>float64\<close> values are kept as their IEEE bit pattern.
\<close>

unbundle bit_operations_syntax

named_theorems panic_simps "when an operation panics and what it returns otherwise"
named_theorems byte_simps "encoders and decoders of machine integers"
named_theorems inv_intros "preservation of component invariants"

type_synonym byte = "8 word"
type_synonym u16 = "16 word"
type_synonym u32 = "32 word"
type_synonym u64 = "64 word"
type_synonym float64 = "64 word"

section \<open>Error values\<close>

text \<open>
  \<open>ErrMsg\<close> stands for \<open>errors.New\<close> and \<open>fmt.Errorf\<close> without \<open>%w\<close> (the constant part of the
  message), \<open>ErrWrap\<close> for \<open>fmt.Errorf\<close> with \<open>%w\<close>; the other constructors are the exported
  sentinel errors and error types of the repository.
\<close>

datatype gerr =
    ErrMsg string
  | ErrWrap string gerr
  | ErrNotConnected
  | ErrProbeTimeout
  | ErrReplyTimeout
  | ErrInvalidRequestCtx
  | UnknownMsgError string string
  | VPPApiError u32
  | CompatibilityError "string list" "string list"
  | ErrStatsDataBusy
  | ErrStatsDirStale
  | ErrStatsDisconnected
  | ErrStatsAccessFailed
  | ErrStatDataLenIncorrect
  | ErrEOF
  | ErrUnexpectedEOF
  | ErrTimeout
  | ErrClosed
  | ErrContextDone

text \<open>\<open>errors.Is (err, target)\<close>: unwraps \<open>%w\<close>-wrapped errors.\<close>

fun errors_is :: "gerr \<Rightarrow> gerr \<Rightarrow> bool" where
  "errors_is (ErrWrap s e) t = (ErrWrap s e = t \<or> errors_is e t)"
| "errors_is e t = (e = t)"

lemma errors_is_refl [simp]: "errors_is e e"
  by (cases e) auto

section \<open>Strings\<close>

text \<open>Functions of the package \<open>strings\<close>.\<close>

definition HasSuffix :: "string \<Rightarrow> string \<Rightarrow> bool" where
  "HasSuffix s suf \<longleftrightarrow> length suf \<le> length s \<and> drop (length s - length suf) s = suf"

definition TrimSuffix :: "string \<Rightarrow> string \<Rightarrow> string" where
  "TrimSuffix s suf = (if HasSuffix s suf then take (length s - length suf) s else s)"

definition TrimPrefix :: "string \<Rightarrow> string \<Rightarrow> string" where
  "TrimPrefix s pre = (if take (length pre) s = pre then drop (length pre) s else s)"

fun Contains :: "string \<Rightarrow> string \<Rightarrow> bool" where
  "Contains [] sub = (sub = [])"
| "Contains (ch # s) sub = (take (length sub) (ch # s) = sub \<or> Contains s sub)"

section \<open>Slices\<close>

text \<open>
  The part of a Go slice expression that a program can observe: \<open>s[lo:hi]\<close> on contents \<open>xs\<close>
  (up to the capacity) panics unless \<open>0 \<le> lo \<le> hi \<le> cap\<close>; an index \<open>s[i]\<close> panics unless
  \<open>i < len\<close>.
\<close>

definition slice_of :: "'a list \<Rightarrow> int \<Rightarrow> int \<Rightarrow> 'a list option" where
  "slice_of xs lo hi =
     (if 0 \<le> lo \<and> lo \<le> hi \<and> hi \<le> int (length xs)
      then Some (take (nat hi - nat lo) (drop (nat lo) xs)) else None)"

definition index_of :: "'a list \<Rightarrow> int \<Rightarrow> 'a option" where
  "index_of xs i = (if 0 \<le> i \<and> i < int (length xs) then Some (xs ! nat i) else None)"

text \<open>\<open>copy(dst, src)\<close>: overwrites a prefix of \<open>dst\<close>; the result is the new contents of \<open>dst\<close>.\<close>

definition copy_into :: "'a list \<Rightarrow> 'a list \<Rightarrow> 'a list" where
  "copy_into dst src = take (length dst) src @ drop (length src) dst"

text \<open>Overwrite \<open>xs\<close> from position \<open>p\<close> on with \<open>ys\<close> (used where the bounds were checked).\<close>

definition put_at :: "nat \<Rightarrow> 'a list \<Rightarrow> 'a list \<Rightarrow> 'a list" where
  "put_at p ys xs = take p xs @ ys @ drop (p + length ys) xs"

lemma length_copy_into [simp]: "length (copy_into dst src) = length dst"
  by (simp add: copy_into_def)

lemma copy_into_full: "length src = length dst \<Longrightarrow> copy_into dst src = src"
  by (simp add: copy_into_def)

lemma length_put_at [simp]: "p + length ys \<le> length xs \<Longrightarrow> length (put_at p ys xs) = length xs"
  by (simp add: put_at_def)

lemma take_put_at [simp]: "p \<le> length xs \<Longrightarrow> take p (put_at p ys xs) = take p xs"
  by (simp add: put_at_def)

lemma drop_put_at [simp]:
  "p \<le> length xs \<Longrightarrow> drop (p + length ys) (put_at p ys xs) = drop (p + length ys) xs"
  by (simp add: put_at_def)

lemma read_put_at [simp]:
  "p + length ys \<le> length xs \<Longrightarrow> take (length ys) (drop p (put_at p ys xs)) = ys"
  by (simp add: put_at_def)

lemma drop_put_at_same: "p \<le> length xs \<Longrightarrow> drop p (put_at p ys xs) = ys @ drop (p + length ys) xs"
  by (simp add: put_at_def)

lemma nth_put_at_before: "i < p \<Longrightarrow> p \<le> length xs \<Longrightarrow> put_at p ys xs ! i = xs ! i"
  by (simp add: put_at_def nth_append)

lemma nth_put_at_in: "i < length ys \<Longrightarrow> p \<le> length xs \<Longrightarrow> put_at p ys xs ! (p + i) = ys ! i"
  by (simp add: put_at_def nth_append)

lemma nth_put_at_after:
  "p + length ys \<le> i \<Longrightarrow> i < length xs \<Longrightarrow> put_at p ys xs ! i = xs ! i"
  by (auto simp: put_at_def nth_append)

lemma slice_of_Some: "slice_of xs lo hi = Some ys \<Longrightarrow>
    0 \<le> lo \<and> lo \<le> hi \<and> hi \<le> int (length xs) \<and> ys = take (nat hi - nat lo) (drop (nat lo) xs)"
  by (simp add: slice_of_def split: if_splits)

lemma slice_of_nat [panic_simps]:
  "slice_of xs (int p) (int p + int n) = (if p + n \<le> length xs then Some (take n (drop p xs)) else None)"
  by (auto simp: slice_of_def nat_add_distrib nat_int_add)

lemma index_of_nat [panic_simps]:
  "index_of xs (int i) = (if i < length xs then Some (xs ! i) else None)"
  by (simp add: index_of_def)

section \<open>Byte order\<close>

text \<open>
  \<open>binary.LittleEndian\<close> and \<open>binary.BigEndian\<close>: \<open>le_bytes n w\<close> are the \<open>n\<close> low bytes of \<open>w\<close>,
  least significant first (\<open>byte(v)\<close>, \<open>byte(v >> 8)\<close>, ...); \<open>le_word\<close> assembles them by shifts
  and \<open>OR\<close>. Big endian is the reverse.
\<close>

fun le_bytes :: "nat \<Rightarrow> 'a::len word \<Rightarrow> byte list" where
  "le_bytes 0 w = []"
| "le_bytes (Suc n) w = ucast w # le_bytes n (drop_bit 8 w)"

fun le_word :: "byte list \<Rightarrow> 'a::len word" where
  "le_word [] = 0"
| "le_word (b # bs) = ucast b OR push_bit 8 (le_word bs)"

definition be_bytes :: "nat \<Rightarrow> 'a::len word \<Rightarrow> byte list" where
  "be_bytes n w = rev (le_bytes n w)"

definition be_word :: "byte list \<Rightarrow> 'a::len word" where
  "be_word bs = le_word (rev bs)"

lemma length_le_bytes [simp]: "length (le_bytes n w) = n"
  by (induction n w rule: le_bytes.induct) auto

lemma length_be_bytes [simp]: "length (be_bytes n w) = n"
  by (simp add: be_bytes_def)

lemma le_word_le_bytes: "le_word (le_bytes n w) = take_bit (8 * n) w"
proof (induction n w rule: le_bytes.induct)
  case (1 w)
  then show ?case by simp
next
  case (2 n w)
  then show ?case
    by (auto intro!: bit_word_eqI simp: bit_or_iff bit_push_bit_iff bit_take_bit_iff bit_drop_bit_eq
        bit_ucast_iff)
qed

lemma le_roundtrip [byte_simps]:
  fixes w :: "'a::len word"
  assumes "LENGTH('a) \<le> 8 * n"
  shows "le_word (le_bytes n w) = w"
  using assms by (simp add: le_word_le_bytes take_bit_word_eq_self)

lemma be_roundtrip [byte_simps]:
  fixes w :: "'a::len word"
  assumes "LENGTH('a) \<le> 8 * n"
  shows "be_word (be_bytes n w) = w"
  using assms by (simp add: be_word_def be_bytes_def le_roundtrip)

end
