(* ===== verification/CodecBuffer.thy ===== *)
theory CodecBuffer
  imports GovppPrelude
begin

text \<open>
  The wire buffer of \<open>codec/buffer.go\<close>: a byte slice and a position, with one encoder and one
  decoder per wire type. A slice expression of the code is bounded by the capacity of the slice
  and an index by its length, so the buffer keeps the bytes up to the capacity (\<open>mem\<close>) and the
  length (\<open>blen\<close>). A run-time panic is \<open>None\<close>.

  The locale \<open>wire_codec\<close> is the contract every encoder/decoder pair meets: the encoder writes
  the serialisation of the value at the position and advances past it, the decoder reads it back.
  Its round trips, for one value and for sequences of values, are proved once in the locale and
  used for every wire type through its interpretations.
\<close>

section \<open>State and operations\<close>

record buffer =
  mem :: "byte list"
  blen :: nat
  pos :: nat

definition NewBuffer :: "byte list \<Rightarrow> byte list \<Rightarrow> buffer" where
  \<comment> \<open>the visible bytes of the slice and the spare bytes between its length and its capacity\<close>
  "NewBuffer b spare = \<lparr>mem = b @ spare, blen = length b, pos = 0\<rparr>"

definition wf_buffer :: "buffer \<Rightarrow> bool" where
  "wf_buffer b \<longleftrightarrow> blen b \<le> length (mem b) \<and> pos b \<le> length (mem b)"

text \<open>\<open>b.buf[b.pos:b.pos+n]\<close>, and the write of a byte sequence into that slice.\<close>

definition buf_slice :: "buffer \<Rightarrow> int \<Rightarrow> byte list option" where
  "buf_slice b n = slice_of (mem b) (int (pos b)) (int (pos b) + n)"

definition buf_fill :: "buffer \<Rightarrow> byte list \<Rightarrow> buffer" where
  "buf_fill b bs = b\<lparr>mem := put_at (pos b) bs (mem b), pos := pos b + length bs\<rparr>"

definition Bytes :: "buffer \<Rightarrow> byte list option" where
  "Bytes b = slice_of (mem b) 0 (int (pos b))"

definition EncodeBytes :: "byte list \<Rightarrow> int \<Rightarrow> buffer \<Rightarrow> buffer option" where
  "EncodeBytes v len0 b =
     (let n = (if len0 = 0 then int (length v) else len0) in
      case buf_slice b n of None \<Rightarrow> None
      | Some dst \<Rightarrow> Some (buf_fill b (copy_into dst v)))"

definition DecodeBytes :: "int \<Rightarrow> buffer \<Rightarrow> (byte list \<times> buffer) option" where
  "DecodeBytes n b =
     (case buf_slice b n of None \<Rightarrow> None
      | Some v \<Rightarrow> Some (v, b\<lparr>pos := pos b + nat n\<rparr>))"

text \<open>\<open>b.buf[b.pos] = x; b.pos += 1\<close> and the corresponding read.\<close>

definition put_byte :: "byte \<Rightarrow> buffer \<Rightarrow> buffer option" where
  "put_byte x b = (if pos b < blen b then Some (buf_fill b [x]) else None)"

definition get_byte :: "buffer \<Rightarrow> (byte \<times> buffer) option" where
  "get_byte b = (if pos b < blen b then Some (mem b ! pos b, b\<lparr>pos := pos b + 1\<rparr>) else None)"

definition EncodeBool :: "bool \<Rightarrow> buffer \<Rightarrow> buffer option" where
  "EncodeBool v b = put_byte (if v then 1 else 0) b"

definition DecodeBool :: "buffer \<Rightarrow> (bool \<times> buffer) option" where
  "DecodeBool b = do { (x, b') \<leftarrow> get_byte b; Some (x \<noteq> 0, b') }"

definition EncodeUint8 :: "byte \<Rightarrow> buffer \<Rightarrow> buffer option" where
  "EncodeUint8 v b = put_byte v b"

definition DecodeUint8 :: "buffer \<Rightarrow> (byte \<times> buffer) option" where
  "DecodeUint8 b = get_byte b"

definition EncodeUint16 :: "u16 \<Rightarrow> buffer \<Rightarrow> buffer option" where
  "EncodeUint16 v b = do { _ \<leftarrow> buf_slice b 2; Some (buf_fill b (be_bytes 2 v)) }"

definition DecodeUint16 :: "buffer \<Rightarrow> (u16 \<times> buffer) option" where
  "DecodeUint16 b = do { s \<leftarrow> buf_slice b 2; Some (be_word s, b\<lparr>pos := pos b + 2\<rparr>) }"

definition EncodeUint32 :: "u32 \<Rightarrow> buffer \<Rightarrow> buffer option" where
  "EncodeUint32 v b = do { _ \<leftarrow> buf_slice b 4; Some (buf_fill b (be_bytes 4 v)) }"

definition DecodeUint32 :: "buffer \<Rightarrow> (u32 \<times> buffer) option" where
  "DecodeUint32 b = do { s \<leftarrow> buf_slice b 4; Some (be_word s, b\<lparr>pos := pos b + 4\<rparr>) }"

definition EncodeUint64 :: "u64 \<Rightarrow> buffer \<Rightarrow> buffer option" where
  "EncodeUint64 v b = do { _ \<leftarrow> buf_slice b 8; Some (buf_fill b (be_bytes 8 v)) }"

definition DecodeUint64 :: "buffer \<Rightarrow> (u64 \<times> buffer) option" where
  "DecodeUint64 b = do { s \<leftarrow> buf_slice b 8; Some (be_word s, b\<lparr>pos := pos b + 8\<rparr>) }"

text \<open>Signed integers: the code converts to the unsigned type of the width, which keeps the bits.\<close>

definition EncodeInt8 :: "8 word \<Rightarrow> buffer \<Rightarrow> buffer option" where
  "EncodeInt8 v b = put_byte v b"

definition DecodeInt8 :: "buffer \<Rightarrow> (8 word \<times> buffer) option" where
  "DecodeInt8 b = get_byte b"

definition EncodeInt16 :: "16 word \<Rightarrow> buffer \<Rightarrow> buffer option" where
  "EncodeInt16 v b = do { _ \<leftarrow> buf_slice b 2; Some (buf_fill b (be_bytes 2 v)) }"

definition DecodeInt16 :: "buffer \<Rightarrow> (16 word \<times> buffer) option" where
  "DecodeInt16 b = do { s \<leftarrow> buf_slice b 2; Some (be_word s, b\<lparr>pos := pos b + 2\<rparr>) }"

definition EncodeInt32 :: "32 word \<Rightarrow> buffer \<Rightarrow> buffer option" where
  "EncodeInt32 v b = do { _ \<leftarrow> buf_slice b 4; Some (buf_fill b (be_bytes 4 v)) }"

definition DecodeInt32 :: "buffer \<Rightarrow> (32 word \<times> buffer) option" where
  "DecodeInt32 b = do { s \<leftarrow> buf_slice b 4; Some (be_word s, b\<lparr>pos := pos b + 4\<rparr>) }"

definition EncodeInt64 :: "64 word \<Rightarrow> buffer \<Rightarrow> buffer option" where
  "EncodeInt64 v b = do { _ \<leftarrow> buf_slice b 8; Some (buf_fill b (be_bytes 8 v)) }"

definition DecodeInt64 :: "buffer \<Rightarrow> (64 word \<times> buffer) option" where
  "DecodeInt64 b = do { s \<leftarrow> buf_slice b 8; Some (be_word s, b\<lparr>pos := pos b + 8\<rparr>) }"

text \<open>Floats are the one little-endian type of the wire.\<close>

definition EncodeFloat64 :: "float64 \<Rightarrow> buffer \<Rightarrow> buffer option" where
  "EncodeFloat64 v b = do { _ \<leftarrow> buf_slice b 8; Some (buf_fill b (le_bytes 8 v)) }"

definition DecodeFloat64 :: "buffer \<Rightarrow> (float64 \<times> buffer) option" where
  "DecodeFloat64 b = do { s \<leftarrow> buf_slice b 8; Some (le_word s, b\<lparr>pos := pos b + 8\<rparr>) }"

text \<open>
  Strings: length 0 means a variable-length string behind a \<open>uint32\<close> count; any other length is a
  fixed field, which the decoder cuts at the first NUL.
\<close>

definition EncodeString :: "byte list \<Rightarrow> int \<Rightarrow> buffer \<Rightarrow> buffer option" where
  "EncodeString v len0 b =
     (if len0 = 0
      then do { b1 \<leftarrow> EncodeUint32 (word_of_nat (length v)) b;
                dst \<leftarrow> buf_slice b1 (int (length v));
                Some (buf_fill b1 (copy_into dst v)) }
      else do { dst \<leftarrow> buf_slice b len0; Some (buf_fill b (copy_into dst v)) })"

definition cut_nul :: "byte list \<Rightarrow> byte list" where
  "cut_nul v = takeWhile (\<lambda>x. x \<noteq> 0) v"

definition DecodeString :: "int \<Rightarrow> buffer \<Rightarrow> (byte list \<times> buffer) option" where
  "DecodeString len0 b =
     (if len0 = 0
      then do { (n, b1) \<leftarrow> DecodeUint32 b;
                v \<leftarrow> buf_slice b1 (uint n);
                Some (v, b1\<lparr>pos := pos b1 + unat n\<rparr>) }
      else do { v \<leftarrow> buf_slice b len0; Some (cut_nul v, b\<lparr>pos := pos b + nat len0\<rparr>) })"

section \<open>Basic facts\<close>

lemma buf_slice_nat [panic_simps]:
  "buf_slice b (int n) = (if pos b + n \<le> length (mem b) then Some (take n (drop (pos b) (mem b))) else None)"
  by (simp add: buf_slice_def slice_of_nat)

lemma buf_slice_numeral [panic_simps]:
  "buf_slice b (numeral k) =
     (if pos b + numeral k \<le> length (mem b) then Some (take (numeral k) (drop (pos b) (mem b))) else None)"
  using buf_slice_nat [of b "numeral k"] by simp

lemma pos_buf_fill [simp]: "pos (buf_fill b bs) = pos b + length bs"
  and blen_buf_fill [simp]: "blen (buf_fill b bs) = blen b"
  and mem_buf_fill [simp]: "mem (buf_fill b bs) = put_at (pos b) bs (mem b)"
  by (simp_all add: buf_fill_def)

lemma wf_buf_fill [inv_intros]:
  "wf_buffer b \<Longrightarrow> pos b + length bs \<le> length (mem b) \<Longrightarrow> wf_buffer (buf_fill b bs)"
  by (simp add: wf_buffer_def)

lemma wf_advance [inv_intros]:
  "wf_buffer b \<Longrightarrow> pos b + n \<le> length (mem b) \<Longrightarrow> wf_buffer (b\<lparr>pos := pos b + n\<rparr>)"
  by (simp add: wf_buffer_def)

lemma wf_NewBuffer [simp]: "wf_buffer (NewBuffer b spare)"
  by (simp add: wf_buffer_def NewBuffer_def)

lemma put_byte_Some: "put_byte x b = Some b' \<Longrightarrow> pos b < blen b \<and> b' = buf_fill b [x]"
  by (simp add: put_byte_def split: if_splits)

lemma get_byte_Some: "get_byte b = Some (x, b') \<Longrightarrow> pos b < blen b \<and> x = mem b ! pos b \<and> b' = b\<lparr>pos := pos b + 1\<rparr>"
  by (simp add: get_byte_def split: if_splits)

section \<open>The contract of an encoder and its decoder\<close>

text \<open>\<open>holds_at b bs\<close>: the bytes \<open>bs\<close> stand at the position of \<open>b\<close>.\<close>

definition holds_at :: "buffer \<Rightarrow> byte list \<Rightarrow> bool" where
  "holds_at b bs \<longleftrightarrow> take (length bs) (drop (pos b) (mem b)) = bs"

lemma holds_at_iff: "holds_at b bs \<longleftrightarrow> (\<exists>rest. drop (pos b) (mem b) = bs @ rest)"
  unfolding holds_at_def by (metis append_eq_conv_conj append_take_drop_id)

lemma holds_at_append:
  "holds_at b (xs @ ys) \<longleftrightarrow> holds_at b xs \<and> holds_at (b\<lparr>pos := pos b + length xs\<rparr>) ys"
proof -
  have d: "holds_at (b\<lparr>pos := pos b + length xs\<rparr>) ys \<longleftrightarrow>
      (\<exists>rest. drop (length xs) (drop (pos b) (mem b)) = ys @ rest)"
    by (simp add: holds_at_iff add.commute)
  show ?thesis
    unfolding d unfolding holds_at_iff by (auto simp del: drop_drop)
qed

lemma holds_at_room: "holds_at b bs \<Longrightarrow> bs = [] \<or> pos b + length bs \<le> length (mem b)"
  unfolding holds_at_def by (metis add.commute length_drop length_take le_diff_conv2 min.cobounded1
      min_def nat_le_linear drop_all take_Nil)

lemma holds_at_fill:
  "pos b + length bs \<le> length (mem b) \<Longrightarrow> holds_at (buf_fill b bs\<lparr>pos := pos b\<rparr>) bs"
  by (simp add: holds_at_def)

lemma put_at_put_at:
  "p + length xs + length ys \<le> length zs \<Longrightarrow>
   put_at (p + length xs) ys (put_at p xs zs) = put_at p (xs @ ys) zs"
  by (simp add: put_at_def add_ac)

lemma buf_fill_buf_fill:
  "pos b + length xs + length ys \<le> length (mem b) \<Longrightarrow>
   buf_fill (buf_fill b xs) ys = buf_fill b (xs @ ys)"
  by (simp add: buf_fill_def put_at_put_at)

lemma buf_fill_Nil [simp]: "buf_fill b [] = b"
  by (simp add: buf_fill_def put_at_def)

text \<open>
  \<open>ser v\<close> is what the encoder writes. The laws ask for room in the visible part of the slice; under
  them the encoder does not panic, writes exactly \<open>ser v\<close> and advances past it, and the decoder
  reads \<open>v\<close> back from any buffer that holds \<open>ser v\<close> at its position.
\<close>

fun enc_all :: "('v \<Rightarrow> buffer \<Rightarrow> buffer option) \<Rightarrow> 'v list \<Rightarrow> buffer \<Rightarrow> buffer option" where
  "enc_all enc [] b = Some b"
| "enc_all enc (v # vs) b = do { b' \<leftarrow> enc v b; enc_all enc vs b' }"

fun dec_all :: "(buffer \<Rightarrow> ('v \<times> buffer) option) \<Rightarrow> nat \<Rightarrow> buffer \<Rightarrow> ('v list \<times> buffer) option" where
  "dec_all dec 0 b = Some ([], b)"
| "dec_all dec (Suc n) b =
     do { (v, b') \<leftarrow> dec b; (vs, b'') \<leftarrow> dec_all dec n b'; Some (v # vs, b'') }"

locale wire_codec =
  fixes enc :: "'v \<Rightarrow> buffer \<Rightarrow> buffer option"
    and dec :: "buffer \<Rightarrow> ('v \<times> buffer) option"
    and ser :: "'v \<Rightarrow> byte list"
    and valid :: "'v \<Rightarrow> bool"
  assumes enc_ser: "wf_buffer b \<Longrightarrow> valid v \<Longrightarrow> pos b + length (ser v) \<le> blen b \<Longrightarrow>
      enc v b = Some (buf_fill b (ser v))"
    and dec_ser: "wf_buffer b \<Longrightarrow> valid v \<Longrightarrow> pos b + length (ser v) \<le> blen b \<Longrightarrow>
      holds_at b (ser v) \<Longrightarrow> dec b = Some (v, b\<lparr>pos := pos b + length (ser v)\<rparr>)"

begin

lemma roundtrip:
  assumes wf: "wf_buffer b" and v: "valid v" and room: "pos b + length (ser v) \<le> blen b"
  shows "\<exists>b'. enc v b = Some b' \<and> wf_buffer b' \<and> pos b' = pos b + length (ser v) \<and>
           dec (b'\<lparr>pos := pos b\<rparr>) = Some (v, b')"
proof -
  let ?b' = "buf_fill b (ser v)"
  have room': "pos b + length (ser v) \<le> length (mem b)"
    using wf room by (simp add: wf_buffer_def)
  then have wf': "wf_buffer (?b'\<lparr>pos := pos b\<rparr>)"
    using wf by (simp add: wf_buffer_def)
  have "dec (?b'\<lparr>pos := pos b\<rparr>) = Some (v, ?b'\<lparr>pos := pos b\<rparr>\<lparr>pos := pos b + length (ser v)\<rparr>)"
    using dec_ser [OF wf' v] room holds_at_fill [OF room'] by simp
  also have "?b'\<lparr>pos := pos b\<rparr>\<lparr>pos := pos b + length (ser v)\<rparr> = ?b'"
    by (simp add: buf_fill_def)
  finally show ?thesis
    using enc_ser [OF wf v room] wf_buf_fill [OF wf room'] by auto
qed

lemma enc_all_ser:
  "wf_buffer b \<Longrightarrow> list_all valid vs \<Longrightarrow> pos b + length (concat (map ser vs)) \<le> blen b \<Longrightarrow>
   enc_all enc vs b = Some (buf_fill b (concat (map ser vs)))"
proof (induction vs arbitrary: b)
  case Nil
  then show ?case by simp
next
  case (Cons v vs)
  have room: "pos b + length (ser v) + length (concat (map ser vs)) \<le> length (mem b)"
    using Cons.prems by (simp add: wf_buffer_def)
  have "enc v b = Some (buf_fill b (ser v))"
    using Cons.prems by (intro enc_ser) auto
  moreover have "enc_all enc vs (buf_fill b (ser v)) =
      Some (buf_fill (buf_fill b (ser v)) (concat (map ser vs)))"
    using Cons.prems room by (intro Cons.IH wf_buf_fill) auto
  ultimately show ?case
    using room by (simp add: buf_fill_buf_fill)
qed

lemma dec_all_ser:
  "wf_buffer b \<Longrightarrow> list_all valid vs \<Longrightarrow> pos b + length (concat (map ser vs)) \<le> blen b \<Longrightarrow>
   holds_at b (concat (map ser vs)) \<Longrightarrow>
   dec_all dec (length vs) b = Some (vs, b\<lparr>pos := pos b + length (concat (map ser vs))\<rparr>)"
proof (induction vs arbitrary: b)
  case Nil
  then show ?case by simp
next
  case (Cons v vs)
  let ?b1 = "b\<lparr>pos := pos b + length (ser v)\<rparr>"
  have room: "pos b + length (ser v) + length (concat (map ser vs)) \<le> length (mem b)"
    using Cons.prems by (simp add: wf_buffer_def)
  have "dec b = Some (v, ?b1)"
    using Cons.prems by (intro dec_ser) (auto simp: holds_at_append)
  moreover have "dec_all dec (length vs) ?b1 =
      Some (vs, ?b1\<lparr>pos := pos ?b1 + length (concat (map ser vs))\<rparr>)"
    using Cons.prems room by (intro Cons.IH wf_advance) (auto simp: holds_at_append)
  ultimately show ?case
    by (simp add: add.assoc)
qed

lemma roundtrip_all:
  assumes wf: "wf_buffer b" and v: "list_all valid vs"
    and room: "pos b + length (concat (map ser vs)) \<le> blen b"
  shows "\<exists>b'. enc_all enc vs b = Some b' \<and>
           dec_all dec (length vs) (b'\<lparr>pos := pos b\<rparr>) = Some (vs, b')"
proof -
  let ?bs = "concat (map ser vs)"
  let ?b' = "buf_fill b ?bs"
  have room': "pos b + length ?bs \<le> length (mem b)"
    using wf room by (simp add: wf_buffer_def)
  then have wf': "wf_buffer (?b'\<lparr>pos := pos b\<rparr>)"
    using wf by (simp add: wf_buffer_def)
  have "dec_all dec (length vs) (?b'\<lparr>pos := pos b\<rparr>) = Some (vs, ?b')"
    using dec_all_ser [OF wf' v] room holds_at_fill [OF room'] by (simp add: buf_fill_def)
  then show ?thesis
    using enc_all_ser [OF wf v room] by auto
qed

end

text \<open>Two fields in a row: the codec of a message is composed from the codecs of its fields.\<close>

definition enc_pair ::
  "('a \<Rightarrow> buffer \<Rightarrow> buffer option) \<Rightarrow> ('b \<Rightarrow> buffer \<Rightarrow> buffer option) \<Rightarrow> 'a \<times> 'b \<Rightarrow> buffer \<Rightarrow> buffer option"
  where "enc_pair e1 e2 v b = do { b1 \<leftarrow> e1 (fst v) b; e2 (snd v) b1 }"

definition dec_pair ::
  "(buffer \<Rightarrow> ('a \<times> buffer) option) \<Rightarrow> (buffer \<Rightarrow> ('b \<times> buffer) option) \<Rightarrow> buffer \<Rightarrow> (('a \<times> 'b) \<times> buffer) option"
  where "dec_pair d1 d2 b = do { (x, b1) \<leftarrow> d1 b; (y, b2) \<leftarrow> d2 b1; Some ((x, y), b2) }"

lemma wire_codec_pair [inv_intros]:
  assumes c1: "wire_codec e1 d1 s1 v1" and c2: "wire_codec e2 d2 s2 v2"
  shows "wire_codec (enc_pair e1 e2) (dec_pair d1 d2) (\<lambda>v. s1 (fst v) @ s2 (snd v)) (\<lambda>v. v1 (fst v) \<and> v2 (snd v))"
proof (unfold_locales, goal_cases)
  case (1 b v)
  have room: "pos b + length (s1 (fst v)) + length (s2 (snd v)) \<le> length (mem b)"
    using 1 by (simp add: wf_buffer_def)
  have "e1 (fst v) b = Some (buf_fill b (s1 (fst v)))"
    using 1 by (intro wire_codec.enc_ser [OF c1]) auto
  moreover have "e2 (snd v) (buf_fill b (s1 (fst v))) = Some (buf_fill (buf_fill b (s1 (fst v))) (s2 (snd v)))"
    using 1 room by (intro wire_codec.enc_ser [OF c2] wf_buf_fill) auto
  ultimately show ?case
    using room by (simp add: enc_pair_def buf_fill_buf_fill)
next
  case (2 b v)
  let ?b1 = "b\<lparr>pos := pos b + length (s1 (fst v))\<rparr>"
  have room: "pos b + length (s1 (fst v)) + length (s2 (snd v)) \<le> length (mem b)"
    using 2 by (simp add: wf_buffer_def)
  have "d1 b = Some (fst v, ?b1)"
    using 2 by (intro wire_codec.dec_ser [OF c1]) (auto simp: holds_at_append)
  moreover have "d2 ?b1 = Some (snd v, ?b1\<lparr>pos := pos ?b1 + length (s2 (snd v))\<rparr>)"
    using 2 room by (intro wire_codec.dec_ser [OF c2] wf_advance) (auto simp: holds_at_append)
  ultimately show ?case
    by (simp add: dec_pair_def add.assoc)
qed

section \<open>Every wire type meets the contract\<close>

lemma wire_codec_be:
  fixes enc :: "'a::len word \<Rightarrow> buffer \<Rightarrow> buffer option"
  assumes "LENGTH('a) \<le> 8 * n"
    and "\<And>v b. enc v b = do { _ \<leftarrow> buf_slice b (int n); Some (buf_fill b (be_bytes n v)) }"
    and "\<And>b. dec b = do { s \<leftarrow> buf_slice b (int n); Some (be_word s, b\<lparr>pos := pos b + n\<rparr>) }"
  shows "wire_codec enc dec (be_bytes n) (\<lambda>_. True)"
  by unfold_locales (auto simp: assms(2,3) buf_slice_nat wf_buffer_def holds_at_def be_roundtrip [OF assms(1)])

interpretation w_u16: wire_codec EncodeUint16 DecodeUint16 "be_bytes 2" "\<lambda>_. True"
  by (rule wire_codec_be) (simp_all add: EncodeUint16_def DecodeUint16_def)

interpretation w_u32: wire_codec EncodeUint32 DecodeUint32 "be_bytes 4" "\<lambda>_. True"
  by (rule wire_codec_be) (simp_all add: EncodeUint32_def DecodeUint32_def)

interpretation w_u64: wire_codec EncodeUint64 DecodeUint64 "be_bytes 8" "\<lambda>_. True"
  by (rule wire_codec_be) (simp_all add: EncodeUint64_def DecodeUint64_def)

interpretation w_i16: wire_codec EncodeInt16 DecodeInt16 "be_bytes 2" "\<lambda>_. True"
  by (rule wire_codec_be) (simp_all add: EncodeInt16_def DecodeInt16_def)

interpretation w_i32: wire_codec EncodeInt32 DecodeInt32 "be_bytes 4" "\<lambda>_. True"
  by (rule wire_codec_be) (simp_all add: EncodeInt32_def DecodeInt32_def)

interpretation w_i64: wire_codec EncodeInt64 DecodeInt64 "be_bytes 8" "\<lambda>_. True"
  by (rule wire_codec_be) (simp_all add: EncodeInt64_def DecodeInt64_def)

interpretation w_f64: wire_codec EncodeFloat64 DecodeFloat64 "le_bytes 8" "\<lambda>_. True"
  by unfold_locales
    (auto simp: EncodeFloat64_def DecodeFloat64_def buf_slice_numeral wf_buffer_def holds_at_def le_roundtrip)

lemma holds_at_single: "pos b < length (mem b) \<Longrightarrow> holds_at b [x] \<longleftrightarrow> mem b ! pos b = x"
  by (simp add: holds_at_def take_Suc_conv_app_nth hd_drop_conv_nth take_Suc)

interpretation w_u8: wire_codec EncodeUint8 DecodeUint8 "\<lambda>v. [v]" "\<lambda>_. True"
  by unfold_locales
    (auto simp: EncodeUint8_def DecodeUint8_def put_byte_def get_byte_def wf_buffer_def holds_at_single)

interpretation w_i8: wire_codec EncodeInt8 DecodeInt8 "\<lambda>v. [v]" "\<lambda>_. True"
  by unfold_locales
    (auto simp: EncodeInt8_def DecodeInt8_def put_byte_def get_byte_def wf_buffer_def holds_at_single)

interpretation w_bool: wire_codec EncodeBool DecodeBool "\<lambda>v. [if v then 1 else 0]" "\<lambda>_. True"
  by unfold_locales
    (auto simp: EncodeBool_def DecodeBool_def put_byte_def get_byte_def wf_buffer_def holds_at_single)

text \<open>A byte array of the exact length, and a variable-length string that fits its count.\<close>

interpretation w_bytes: wire_codec "\<lambda>v. EncodeBytes v (int n)" "DecodeBytes (int n)" "\<lambda>v. v"
    "\<lambda>v. length v = n" for n
  by unfold_locales
    (use buf_slice_nat [of _ 0] in \<open>auto simp: EncodeBytes_def DecodeBytes_def buf_slice_nat
      wf_buffer_def holds_at_def copy_into_full\<close>)

interpretation w_string: wire_codec "\<lambda>v. EncodeString v 0" "DecodeString 0"
    "\<lambda>v. be_bytes 4 (word_of_nat (length v) :: u32) @ v" "\<lambda>v. length v < 2 ^ 32"
proof (unfold_locales, goal_cases)
  case (1 b v)
  let ?n = "word_of_nat (length v) :: u32"
  have room: "pos b + 4 + length v \<le> length (mem b)"
    using 1 by (simp add: wf_buffer_def)
  have "EncodeUint32 ?n b = Some (buf_fill b (be_bytes 4 ?n))"
    using 1 by (intro w_u32.enc_ser) auto
  then show ?case
    using room by (simp add: EncodeString_def buf_slice_nat copy_into_full buf_fill_buf_fill)
next
  case (2 b v)
  let ?n = "word_of_nat (length v) :: u32"
  have n: "unat ?n = length v"
    using 2 by (simp add: unat_of_nat)
  then have n': "uint ?n = int (length v)"
    by (metis uint_nat)
  have "DecodeUint32 b = Some (?n, b\<lparr>pos := pos b + 4\<rparr>)"
    using 2 w_u32.dec_ser [of b ?n] by (simp add: holds_at_append)
  moreover have "holds_at (b\<lparr>pos := pos b + 4\<rparr>) v"
    using 2 by (simp add: holds_at_append)
  then have "take (length v) (drop (pos b + 4) (mem b)) = v"
    by (simp add: holds_at_def)
  ultimately show ?case
    using 2 by (simp add: DecodeString_def n n' buf_slice_nat wf_buffer_def add.assoc)
qed

section \<open>Fixed-width strings\<close>

text \<open>
  The encoder of a fixed string copies as many bytes as fit and leaves the rest of the field as it
  was, so what the decoder finds also depends on the old contents of the field.
\<close>

lemma cut_nul_append: "0 \<notin> set v \<Longrightarrow> cut_nul (v @ zs) = v @ cut_nul zs"
  unfolding cut_nul_def by (induction v) auto

lemma cut_nul_replicate [simp]: "cut_nul (replicate n 0) = []"
  unfolding cut_nul_def by (induction n) auto

lemma EncodeString_fixed:
  assumes "0 < n" and "pos b + n \<le> length (mem b)"
  shows "EncodeString v (int n) b =
     Some (buf_fill b (copy_into (take n (drop (pos b) (mem b))) v))"
  using assms by (simp add: EncodeString_def buf_slice_nat)

lemma DecodeString_fixed:
  assumes "0 < n" and "pos b + n \<le> length (mem b)"
  shows "DecodeString (int n) b = Some (cut_nul (take n (drop (pos b) (mem b))), b\<lparr>pos := pos b + n\<rparr>)"
  using assms by (simp add: DecodeString_def buf_slice_nat)

lemma string_fixed_reread:
  assumes "0 < n" and "pos b + n \<le> length (mem b)"
  shows "\<exists>b'. EncodeString v (int n) b = Some b' \<and>
     DecodeString (int n) (b'\<lparr>pos := pos b\<rparr>) =
       Some (cut_nul (take n v @ drop (length v) (take n (drop (pos b) (mem b)))), b')"
proof -
  let ?f = "copy_into (take n (drop (pos b) (mem b))) v"
  have len: "length ?f = n"
    using assms by simp
  have f: "?f = take n v @ drop (length v) (take n (drop (pos b) (mem b)))"
    using assms by (simp add: copy_into_def)
  have "take n (drop (pos b) (put_at (pos b) ?f (mem b))) = ?f"
    using read_put_at [of "pos b" ?f "mem b"] len assms by simp
  then show ?thesis
    using assms len by (simp add: EncodeString_fixed DecodeString_fixed buf_fill_def flip: f)
qed

text \<open>A fixed string on a zeroed field: the encoder writes the string and NUL padding.\<close>

lemma EncodeString_fixed_zeroed:
  assumes "0 < n" "length v \<le> n" "pos b + n \<le> length (mem b)"
    and "take n (drop (pos b) (mem b)) = replicate n 0"
  shows "EncodeString v (int n) b = Some (buf_fill b (v @ replicate (n - length v) 0))"
  using assms by (simp add: EncodeString_fixed copy_into_def)

lemma DecodeString_padded:
  assumes "0 < n" "length v \<le> n" "0 \<notin> set v" "pos b + n \<le> length (mem b)"
    and "holds_at b (v @ replicate (n - length v) 0)"
  shows "DecodeString (int n) b = Some (v, b\<lparr>pos := pos b + n\<rparr>)"
  using assms by (simp add: DecodeString_fixed holds_at_def cut_nul_append)

section \<open>Encoders that rely on a zeroed buffer\<close>

text \<open>
  The message codec hands every encoder freshly allocated memory, so a fixed string field needs no
  explicit padding. \<open>zeroed_codec\<close> is the weaker contract that asks for zeroes at the position; it
  follows from \<open>wire_codec\<close>, and also covers fixed strings.
\<close>

definition zeros_at :: "buffer \<Rightarrow> nat \<Rightarrow> bool" where
  "zeros_at b n \<longleftrightarrow> holds_at b (replicate n 0)"

lemma zeros_at_add:
  "zeros_at b (m + n) \<longleftrightarrow> zeros_at b m \<and> zeros_at (b\<lparr>pos := pos b + m\<rparr>) n"
  by (simp add: zeros_at_def replicate_add holds_at_append)

lemma zeros_at_after_fill:
  assumes "zeros_at b (length s + n)" and "pos b + length s + n \<le> length (mem b)"
  shows "zeros_at (buf_fill b s) n"
  using assms unfolding zeros_at_add
  by (simp add: zeros_at_def holds_at_def)

locale zeroed_codec =
  fixes enc :: "'v \<Rightarrow> buffer \<Rightarrow> buffer option"
    and dec :: "buffer \<Rightarrow> ('v \<times> buffer) option"
    and ser :: "'v \<Rightarrow> byte list"
    and valid :: "'v \<Rightarrow> bool"
  assumes zenc_ser: "wf_buffer b \<Longrightarrow> valid v \<Longrightarrow> pos b + length (ser v) \<le> blen b \<Longrightarrow>
      zeros_at b (length (ser v)) \<Longrightarrow> enc v b = Some (buf_fill b (ser v))"
    and zdec_ser: "wf_buffer b \<Longrightarrow> valid v \<Longrightarrow> pos b + length (ser v) \<le> blen b \<Longrightarrow>
      holds_at b (ser v) \<Longrightarrow> dec b = Some (v, b\<lparr>pos := pos b + length (ser v)\<rparr>)"

begin

lemma zenc_all_ser:
  "wf_buffer b \<Longrightarrow> list_all valid vs \<Longrightarrow> pos b + length (concat (map ser vs)) \<le> blen b \<Longrightarrow>
   zeros_at b (length (concat (map ser vs))) \<Longrightarrow>
   enc_all enc vs b = Some (buf_fill b (concat (map ser vs)))"
proof (induction vs arbitrary: b)
  case Nil
  then show ?case by simp
next
  case (Cons v vs)
  let ?s = "ser v" and ?r = "concat (map ser vs)"
  have room: "pos b + length ?s + length ?r \<le> length (mem b)"
    using Cons.prems by (simp add: wf_buffer_def)
  have z: "zeros_at b (length ?s + length ?r)"
    using Cons.prems by simp
  have "enc v b = Some (buf_fill b ?s)"
    using Cons.prems z by (intro zenc_ser) (auto simp: zeros_at_add)
  moreover have "enc_all enc vs (buf_fill b ?s) = Some (buf_fill (buf_fill b ?s) ?r)"
    using Cons.prems room zeros_at_after_fill [OF z] by (intro Cons.IH wf_buf_fill) auto
  ultimately show ?case
    using room by (simp add: buf_fill_buf_fill)
qed

lemma zdec_all_ser:
  "wf_buffer b \<Longrightarrow> list_all valid vs \<Longrightarrow> pos b + length (concat (map ser vs)) \<le> blen b \<Longrightarrow>
   holds_at b (concat (map ser vs)) \<Longrightarrow>
   dec_all dec (length vs) b = Some (vs, b\<lparr>pos := pos b + length (concat (map ser vs))\<rparr>)"
proof (induction vs arbitrary: b)
  case Nil
  then show ?case by simp
next
  case (Cons v vs)
  let ?b1 = "b\<lparr>pos := pos b + length (ser v)\<rparr>"
  have "dec b = Some (v, ?b1)"
    using Cons.prems by (intro zdec_ser) (auto simp: holds_at_append)
  moreover have "dec_all dec (length vs) ?b1 =
      Some (vs, ?b1\<lparr>pos := pos ?b1 + length (concat (map ser vs))\<rparr>)"
    using Cons.prems by (intro Cons.IH wf_advance) (auto simp: holds_at_append wf_buffer_def)
  ultimately show ?case
    by (simp add: add.assoc)
qed

end

sublocale wire_codec \<subseteq> zeroed_codec
  by unfold_locales (auto intro: enc_ser dec_ser)

lemma zeroed_codec_pair:
  assumes c1: "zeroed_codec e1 d1 s1 P1" and c2: "zeroed_codec e2 d2 s2 P2"
  shows "zeroed_codec (enc_pair e1 e2) (dec_pair d1 d2) (\<lambda>v. s1 (fst v) @ s2 (snd v))
     (\<lambda>v. P1 (fst v) \<and> P2 (snd v))"
proof (unfold_locales, goal_cases)
  case (1 b v)
  have room: "pos b + length (s1 (fst v)) + length (s2 (snd v)) \<le> length (mem b)"
    using 1 by (simp add: wf_buffer_def)
  have z: "zeros_at b (length (s1 (fst v)) + length (s2 (snd v)))"
    using 1 by simp
  have "e1 (fst v) b = Some (buf_fill b (s1 (fst v)))"
    using 1 z by (intro zeroed_codec.zenc_ser [OF c1]) (auto simp: zeros_at_add)
  moreover have "e2 (snd v) (buf_fill b (s1 (fst v))) = Some (buf_fill (buf_fill b (s1 (fst v))) (s2 (snd v)))"
    using 1 room zeros_at_after_fill [OF z] by (intro zeroed_codec.zenc_ser [OF c2] wf_buf_fill) auto
  ultimately show ?case
    using room by (simp add: enc_pair_def buf_fill_buf_fill)
next
  case (2 b v)
  let ?b1 = "b\<lparr>pos := pos b + length (s1 (fst v))\<rparr>"
  have room: "pos b + length (s1 (fst v)) + length (s2 (snd v)) \<le> length (mem b)"
    using 2 by (simp add: wf_buffer_def)
  have "d1 b = Some (fst v, ?b1)"
    using 2 by (intro zeroed_codec.zdec_ser [OF c1]) (auto simp: holds_at_append)
  moreover have "d2 ?b1 = Some (snd v, ?b1\<lparr>pos := pos ?b1 + length (s2 (snd v))\<rparr>)"
    using 2 room by (intro zeroed_codec.zdec_ser [OF c2] wf_advance) (auto simp: holds_at_append)
  ultimately show ?case
    by (simp add: dec_pair_def add.assoc)
qed

text \<open>A record or message is coded as the tuple of its fields.\<close>

lemma zeroed_codec_map:
  assumes c: "zeroed_codec e d s P" and "\<And>v. g (f v) = v"
    and "\<And>v b. enc v b = e (f v) b" and "\<And>b. dec b = map_option (apfst g) (d b)"
  shows "zeroed_codec enc dec (\<lambda>v. s (f v)) (\<lambda>v. P (f v))"
  by unfold_locales
    (simp_all add: assms(2-4) zeroed_codec.zenc_ser [OF c] zeroed_codec.zdec_ser [OF c])

lemma take_drop_zeros: "zeros_at b n \<Longrightarrow> take n (drop (pos b) (mem b)) = replicate n 0"
  by (simp add: zeros_at_def holds_at_def)

lemma zeroed_fixed_string:
  assumes "0 < n"
  shows "zeroed_codec (\<lambda>v. EncodeString v (int n)) (DecodeString (int n))
    (\<lambda>v. v @ replicate (n - length v) 0) (\<lambda>v. length v \<le> n \<and> 0 \<notin> set v)"
  using assms
  by unfold_locales
    (auto simp: wf_buffer_def take_drop_zeros intro!: EncodeString_fixed_zeroed DecodeString_padded)

interpretation z_string64: zeroed_codec "\<lambda>v. EncodeString v 64" "DecodeString 64"
    "\<lambda>v. v @ replicate (64 - length v) 0" "\<lambda>v. length v \<le> 64 \<and> 0 \<notin> set v"
  using zeroed_fixed_string [of 64] by simp

section \<open>Properties of the buffer\<close>

text \<open>
  A variable-length string written at the position of a buffer with room for it is
  read back unchanged, the two operations advance the position alike, and no byte outside the
  written field changes.
\<close>

theorem string_roundtrip:
  assumes "wf_buffer b" and "length v < 2 ^ 32" and "pos b + 4 + length v \<le> blen b"
  shows "\<exists>b'. EncodeString v 0 b = Some b' \<and> DecodeString 0 (b'\<lparr>pos := pos b\<rparr>) = Some (v, b') \<and>
     pos b' = pos b + 4 + length v \<and>
     (\<forall>i < length (mem b). (i < pos b \<or> pos b' \<le> i) \<longrightarrow> mem b' ! i = mem b ! i)"
proof -
  let ?s = "be_bytes 4 (word_of_nat (length v) :: u32) @ v"
  have room: "pos b + length ?s \<le> blen b"
    using assms by simp
  have "EncodeString v 0 b = Some (buf_fill b ?s)"
    using assms(1,2) room by (intro w_string.enc_ser) auto
  moreover have "\<exists>b'. EncodeString v 0 b = Some b' \<and> DecodeString 0 (b'\<lparr>pos := pos b\<rparr>) = Some (v, b')"
    using w_string.roundtrip [OF assms(1,2) room] by blast
  ultimately show ?thesis
    using assms by (auto simp: nth_put_at_before nth_put_at_after wf_buffer_def)
qed

theorem string_roundtrip_witness:
  "\<exists>b'. EncodeString [104, 105] 0 (NewBuffer (replicate 7 0) []) = Some b' \<and>
     DecodeString 0 (b'\<lparr>pos := pos (NewBuffer (replicate 7 0) [])\<rparr>) = Some ([104, 105], b')"
  using string_roundtrip [of "NewBuffer (replicate 7 0) []" "[104, 105]"]
  by (auto simp: NewBuffer_def wf_buffer_def)

text \<open>
  What a fixed-width string field decodes to after it was encoded: the bytes of the
  string that fit, followed by what the field held before, cut at the first NUL. The string itself
  comes back exactly when the field was zeroed and the string fits and holds no NUL byte; on a
  field that was not zeroed, old bytes can follow it.
\<close>

theorem string_fixed_field:
  assumes "0 < n" and "pos b + n \<le> length (mem b)"
  shows "\<exists>b'. EncodeString v (int n) b = Some b' \<and>
     DecodeString (int n) (b'\<lparr>pos := pos b\<rparr>) =
       Some (cut_nul (take n v @ drop (length v) (take n (drop (pos b) (mem b)))), b') \<and>
     (length v \<le> n \<and> 0 \<notin> set v \<and> take n (drop (pos b) (mem b)) = replicate n 0 \<longrightarrow>
        DecodeString (int n) (b'\<lparr>pos := pos b\<rparr>) = Some (v, b'))"
  using string_fixed_reread [OF assms, of v] by (auto simp: cut_nul_append)

theorem string_fixed_field_witness:
  "\<exists>b'. EncodeString [104, 105] 4 (NewBuffer [7, 7, 7, 0] []) = Some b' \<and>
     DecodeString 4 (b'\<lparr>pos := 0\<rparr>) = Some ([104, 105, 7], b')"
  using string_fixed_field [of 4 "NewBuffer [7, 7, 7, 0] []" "[104, 105]"]
  by (auto simp: NewBuffer_def cut_nul_def)

text \<open>
  The multi-byte decoders are guarded by the capacity of the slice, the single-byte
  ones by its length: past the visible bytes but within the capacity \<open>DecodeUint32\<close> still returns
  the spare bytes of the backing array, while \<open>DecodeUint8\<close> panics.
\<close>

theorem decode_past_length:
  assumes "length spare \<ge> 4" and "pos b = blen b" and "mem b = vis @ spare" and "length vis = blen b"
  shows "DecodeUint32 b = Some (be_word (take 4 spare), b\<lparr>pos := pos b + 4\<rparr>) \<and> DecodeUint8 b = None"
  using assms by (simp add: DecodeUint32_def DecodeUint8_def get_byte_def buf_slice_numeral)

theorem decode_past_length_witness:
  "\<exists>b'. DecodeUint32 (NewBuffer [] [0, 0, 1, 2]) = Some (258, b') \<and>
        DecodeUint8 (NewBuffer [] [0, 0, 1, 2]) = None"
  using decode_past_length [of "[0, 0, 1, 2]" "NewBuffer [] [0, 0, 1, 2]" "[]"]
  by (simp add: NewBuffer_def be_word_def)

end
