(* ===== verification/MsgCodec.thy ===== *)
theory MsgCodec
  imports CodecBuffer
begin

text \<open>
  The message codec of \<open>codec/codec.go\<close> and \<open>codec/marshaler.go\<close>. A message type is a type
  variable with a record of the methods the code calls on it (\<open>api.Message\<close>, \<open>Marshaler\<close>,
  \<open>Unmarshaler\<close>). The struc package is not part of the repository: its three functions are fields
  of the same record. A panic inside a method is \<open>None\<close>; \<open>EncodeMsg\<close> and \<open>DecodeMsg\<close> recover it
  into an error, \<open>DecodeMsgContext\<close> does not recover.

  The locale \<open>message_codec\<close> states what a family of messages must provide (sizes that agree with
  the bytes written, marshalling that can be undone); the round trip through \<open>EncodeMsg\<close>, a header
  rewritten by the transport, and \<open>DecodeMsg\<close> is proved in it.
\<close>

datatype message_type = RequestMessage | ReplyMessage | EventMessage | OtherMessage

text \<open>
  A slice handed to \<open>Marshal\<close> has length = capacity (it is cut from \<open>make\<close>); \<open>Marshal\<close> returns the
  bytes and the error of the method and the new contents of its argument. \<open>Unmarshal\<close> gets the visible and the spare
  bytes of its argument and the old value of the message, and returns the new value. The last
  fields are what the code reads by reflection: a zero message of the same Go type, the package
  path of that type (its directory), and the field named \<open>Retval\<close>, if there is one.
\<close>

datatype reflect_field = NoField | IntField "64 word" | UintField u64 | OtherField

record 'm msg_iface =
  GetMessageName :: "'m \<Rightarrow> string"
  GetCrcString :: "'m \<Rightarrow> string"
  GetMessageType :: "'m \<Rightarrow> message_type"
  is_Marshaler :: "'m \<Rightarrow> bool"
  is_Unmarshaler :: "'m \<Rightarrow> bool"
  msg_Size :: "'m \<Rightarrow> int"
  msg_Marshal :: "'m \<Rightarrow> byte list option \<Rightarrow> ((gerr + byte list) \<times> byte list) option"
  msg_Unmarshal :: "'m \<Rightarrow> byte list \<Rightarrow> byte list \<Rightarrow> (gerr + 'm) option"
  NumField :: "'m \<Rightarrow> nat"
  struc_Sizeof :: "'m \<Rightarrow> gerr + int"
  struc_Pack :: "'m \<Rightarrow> (gerr + byte list) option"
  struc_Unpack :: "byte list \<Rightarrow> 'm \<Rightarrow> (gerr + 'm) option"
  msg_New :: "'m \<Rightarrow> 'm"
  msg_PkgPath :: "'m \<Rightarrow> string"
  msg_Retval :: "'m \<Rightarrow> reflect_field"

section \<open>The wrapper for messages without methods of their own\<close>

definition Wrapper_Size :: "'m msg_iface \<Rightarrow> 'm \<Rightarrow> int" where
  "Wrapper_Size mi m = (case struc_Sizeof mi m of Inl _ \<Rightarrow> 0 | Inr n \<Rightarrow> n)"

definition Wrapper_Marshal ::
  "'m msg_iface \<Rightarrow> 'm \<Rightarrow> byte list option \<Rightarrow> ((gerr + byte list) \<times> byte list) option" where
  "Wrapper_Marshal mi m b =
     do { packed \<leftarrow> (if NumField mi m > 0 then struc_Pack mi m else Some (Inr []));
          Some (case packed of
              Inl err \<Rightarrow> (Inl err, case b of None \<Rightarrow> [] | Some d \<Rightarrow> d)
            | Inr bytes \<Rightarrow> (Inr bytes, case b of None \<Rightarrow> [] | Some d \<Rightarrow> copy_into d bytes)) }"

definition Wrapper_Unmarshal ::
  "'m msg_iface \<Rightarrow> 'm \<Rightarrow> byte list \<Rightarrow> byte list \<Rightarrow> (gerr + 'm) option" where
  "Wrapper_Unmarshal mi m data spare = struc_Unpack mi data m"

section \<open>The codec\<close>

definition getOffset :: "'m msg_iface \<Rightarrow> 'm \<Rightarrow> nat" where
  "getOffset mi m =
     (case GetMessageType mi m of RequestMessage \<Rightarrow> 10 | ReplyMessage \<Rightarrow> 6 | EventMessage \<Rightarrow> 6 | OtherMessage \<Rightarrow> 2)"

definition make_bytes :: "int \<Rightarrow> byte list option" where
  "make_bytes n = (if 0 \<le> n then Some (replicate (nat n) 0) else None)"

definition set_index :: "'a list \<Rightarrow> nat \<Rightarrow> 'a \<Rightarrow> 'a list option" where
  "set_index xs i x = (if i < length xs then Some (xs[i := x]) else None)"

text \<open>The body of \<open>EncodeMsg\<close> below its deferred \<open>recover\<close>: \<open>None\<close> is a panic on its way there.\<close>

definition EncodeMsg_body :: "'m msg_iface \<Rightarrow> 'm \<Rightarrow> u16 \<Rightarrow> (gerr + byte list) option" where
  "EncodeMsg_body mi msg msgID =
     do { let sz = (if is_Marshaler mi msg then msg_Size mi msg else Wrapper_Size mi msg);
          let offset = getOffset mi msg;
          b0 \<leftarrow> make_bytes (sz + int offset);
          b1 \<leftarrow> set_index b0 0 (ucast (drop_bit 8 msgID));
          b2 \<leftarrow> set_index b1 1 (ucast msgID);
          tail \<leftarrow> slice_of b2 (int offset) (int (length b2));
          (res, tail') \<leftarrow> (if is_Marshaler mi msg then msg_Marshal mi msg (Some tail)
                            else Wrapper_Marshal mi msg (Some tail));
          Some (case res of Inl err \<Rightarrow> Inl err | Inr _ \<Rightarrow> Inr (take offset b2 @ tail')) }"

definition EncodeMsg :: "'m msg_iface \<Rightarrow> 'm option \<Rightarrow> u16 \<Rightarrow> gerr + byte list" where
  "EncodeMsg mi msg msgID =
     (case msg of
        None \<Rightarrow> Inl (ErrMsg ''nil message passed in'')
      | Some m \<Rightarrow> (case EncodeMsg_body mi m msgID of
            None \<Rightarrow> Inl (ErrMsg (''panic occurred during encoding message '' @ GetMessageName mi m))
          | Some r \<Rightarrow> r))"

definition DecodeMsg_body :: "'m msg_iface \<Rightarrow> byte list \<Rightarrow> byte list \<Rightarrow> 'm \<Rightarrow> (gerr + 'm) option" where
  "DecodeMsg_body mi data spare msg =
     do { let offset = getOffset mi msg;
          body \<leftarrow> slice_of data (int offset) (int (length data));
          if is_Unmarshaler mi msg then msg_Unmarshal mi msg body spare
          else Wrapper_Unmarshal mi msg body spare }"

definition DecodeMsg :: "'m msg_iface \<Rightarrow> byte list \<Rightarrow> byte list \<Rightarrow> 'm option \<Rightarrow> gerr + 'm" where
  "DecodeMsg mi data spare msg =
     (case msg of
        None \<Rightarrow> Inl (ErrMsg ''nil message passed in'')
      | Some m \<Rightarrow> (case DecodeMsg_body mi data spare m of
            None \<Rightarrow> Inl (ErrMsg (''panic occurred during decoding message '' @ GetMessageName mi m))
          | Some r \<Rightarrow> r))"

definition DecodeMsgContext :: "byte list \<Rightarrow> byte list \<Rightarrow> message_type \<Rightarrow> u32 option" where
  "DecodeMsgContext data spare msgType =
     (case msgType of
        RequestMessage \<Rightarrow> map_option be_word (slice_of (data @ spare) 6 10)
      | ReplyMessage \<Rightarrow> map_option be_word (slice_of (data @ spare) 2 6)
      | _ \<Rightarrow> Some 0)"

section \<open>Basic facts\<close>

lemma getOffset_ge_2: "2 \<le> getOffset mi m"
  by (simp add: getOffset_def split: message_type.split)

lemma slice_of_tail: "k \<le> length xs \<Longrightarrow> slice_of xs (int k) (int (length xs)) = Some (drop k xs)"
  by (simp add: slice_of_def)

text \<open>The header written into a zeroed message of \<open>n + offset\<close> bytes.\<close>

lemma zeroed_header:
  fixes id :: u16
  assumes "2 \<le> k"
  shows "(replicate (n + k) 0)[0 := ucast (drop_bit 8 id), Suc 0 := ucast id] =
    be_bytes 2 id @ replicate (k - 2) 0 @ replicate n 0"
proof -
  have "be_bytes 2 id = [ucast (drop_bit 8 id), ucast id :: byte]"
    by (simp add: be_bytes_def numeral_2_eq_2)
  moreover obtain k' where "k = Suc (Suc k')"
    using assms by (metis add_2_eq_Suc le_Suc_ex)
  ultimately show ?thesis
    by (simp add: replicate_add [symmetric] add.commute)
qed

lemma EncodeMsg_body_eq:
  assumes "is_Marshaler mi m" and "msg_Size mi m = int n"
  shows "EncodeMsg_body mi m msgID =
     (case msg_Marshal mi m (Some (replicate n 0)) of
        None \<Rightarrow> None
      | Some (Inl err, _) \<Rightarrow> Some (Inl err)
      | Some (Inr _, tail) \<Rightarrow> Some (Inr (be_bytes 2 msgID @ replicate (getOffset mi m - 2) 0 @ tail)))"
proof -
  let ?k = "getOffset mi m"
  define h where "h = be_bytes 2 msgID @ replicate (?k - 2) 0"
  have k: "2 \<le> ?k"
    by (rule getOffset_ge_2)
  have b: "(replicate (n + ?k) 0)[0 := ucast (drop_bit 8 msgID), Suc 0 := ucast msgID] = h @ replicate n 0"
    using zeroed_header [OF k] by (simp add: h_def)
  have lh: "length h = ?k"
    using k by (simp add: h_def)
  have mk: "make_bytes (int n + int ?k) = Some (replicate (n + ?k) 0)"
    by (simp add: make_bytes_def nat_add_distrib)
  have s0: "set_index (replicate (n + ?k) 0) 0 x = Some ((replicate (n + ?k) 0)[0 := x])" for x :: byte
    using k by (simp add: set_index_def)
  have s1: "set_index ((replicate (n + ?k) 0)[0 := x]) 1 y = Some ((replicate (n + ?k) 0)[0 := x, Suc 0 := y])"
    for x y :: byte
    using k by (simp add: set_index_def)
  have t: "slice_of (h @ replicate n 0) (int ?k) (int (length (h @ replicate n 0))) = Some (replicate n 0)"
    using slice_of_tail [of ?k "h @ replicate n 0"] lh by simp
  have tk: "take ?k (h @ replicate n 0) = h"
    using lh by simp
  have "EncodeMsg_body mi m msgID =
      do { (res, tail') \<leftarrow> msg_Marshal mi m (Some (replicate n 0));
           Some (case res of Inl err \<Rightarrow> Inl err | Inr _ \<Rightarrow> Inr (h @ tail')) }"
    unfolding EncodeMsg_body_def Let_def
    by (simp only: assms if_True mk s0 s1 b t tk Option.bind.simps)
  then show ?thesis
    by (simp add: h_def split: option.splits sum.splits)
qed

lemma DecodeMsg_body_eq:
  assumes "is_Unmarshaler mi m" and "getOffset mi m \<le> length data"
  shows "DecodeMsg_body mi data spare m = msg_Unmarshal mi m (drop (getOffset mi m) data) spare"
  using assms by (simp add: DecodeMsg_body_def slice_of_tail)

lemma EncodeMsg_nil [simp]: "EncodeMsg mi None i = Inl (ErrMsg ''nil message passed in'')"
  by (simp add: EncodeMsg_def)

lemma DecodeMsg_nil [simp]: "DecodeMsg mi d s None = Inl (ErrMsg ''nil message passed in'')"
  by (simp add: DecodeMsg_def)

lemma DecodeMsg_short:
  "length data < getOffset mi m \<Longrightarrow>
   DecodeMsg mi data spare (Some m) =
     Inl (ErrMsg (''panic occurred during decoding message '' @ GetMessageName mi m))"
  by (simp add: DecodeMsg_def DecodeMsg_body_def slice_of_def)

lemma DecodeMsgContext_reply:
  "6 \<le> length data \<Longrightarrow> DecodeMsgContext data spare ReplyMessage = Some (be_word (take 4 (drop 2 data)))"
  by (simp add: DecodeMsgContext_def slice_of_def)

lemma DecodeMsgContext_request:
  "10 \<le> length data \<Longrightarrow> DecodeMsgContext data spare RequestMessage = Some (be_word (take 4 (drop 6 data)))"
  by (simp add: DecodeMsgContext_def slice_of_def)

section \<open>Message families\<close>

text \<open>
  \<open>body m\<close> is what a valid message marshals to in zeroed memory of its size; unmarshalling it into
  any message of the same Go type (\<open>same_type\<close>) gives the message back. A transport may rewrite the
  header bytes behind the message id, and the slice it decodes from may have spare capacity.
\<close>

locale message_codec =
  fixes mi :: "'m msg_iface"
    and body :: "'m \<Rightarrow> byte list"
    and valid :: "'m \<Rightarrow> bool"
    and same_type :: "'m \<Rightarrow> 'm \<Rightarrow> bool"
  assumes marshaler: "valid m \<Longrightarrow> is_Marshaler mi m"
    and unmarshaler: "valid m \<Longrightarrow> same_type m t \<Longrightarrow> is_Unmarshaler mi t"
    and size: "valid m \<Longrightarrow> msg_Size mi m = int (length (body m))"
    and marshal: "valid m \<Longrightarrow>
      \<exists>r. msg_Marshal mi m (Some (replicate (length (body m)) 0)) = Some (Inr r, body m)"
    and unmarshal: "valid m \<Longrightarrow> same_type m t \<Longrightarrow> msg_Unmarshal mi t (body m) spare = Some (Inr m)"
    and same_offset: "same_type m t \<Longrightarrow> GetMessageType mi t = GetMessageType mi m"

begin

lemma encode:
  assumes "valid m"
  shows "EncodeMsg mi (Some m) msgID =
    Inr (be_bytes 2 msgID @ replicate (getOffset mi m - 2) 0 @ body m)"
  using marshal [OF assms] EncodeMsg_body_eq [OF marshaler size, OF assms assms, of msgID]
  by (auto simp: EncodeMsg_def)

lemma decode:
  assumes "valid m" and "same_type m t" and "length hdr = getOffset mi m"
  shows "DecodeMsg mi (hdr @ body m) spare (Some t) = Inr m"
proof -
  have "getOffset mi t = length hdr"
    using same_offset [OF assms(2)] assms(3) by (simp add: getOffset_def)
  then show ?thesis
    using DecodeMsg_body_eq [of mi t "hdr @ body m" spare] unmarshaler [OF assms(1,2)]
      unmarshal [OF assms(1,2)] by (simp add: DecodeMsg_def)
qed

lemma encode_length:
  assumes "valid m"
  shows "\<exists>data. EncodeMsg mi (Some m) msgID = Inr data \<and> length data = getOffset mi m + length (body m) \<and>
    be_word (take 2 data) = msgID"
  using encode [OF assms, of msgID] getOffset_ge_2 [of mi m] by (auto simp: be_roundtrip)

lemma transport_roundtrip:
  assumes "valid m" and "same_type m t" and "2 + length ctx \<le> getOffset mi m"
  shows "\<exists>data. EncodeMsg mi (Some m) msgID = Inr data \<and>
    DecodeMsg mi (put_at (getOffset mi m - length ctx) ctx data) spare (Some t) = Inr m"
proof -
  let ?k = "getOffset mi m"
  let ?data = "be_bytes 2 msgID @ replicate (?k - 2) 0 @ body m"
  let ?hdr = "take (?k - length ctx) ?data @ ctx"
  have "put_at (?k - length ctx) ctx ?data = ?hdr @ body m"
    using assms(3) by (simp add: put_at_def)
  moreover have "length ?hdr = ?k"
    using assms(3) by simp
  ultimately show ?thesis
    using encode [OF assms(1), of msgID] decode [OF assms(1,2), of ?hdr] by auto
qed

end

end
