(* ===== verification/MemClnt.thy ===== *)
theory MemClnt
  imports MsgCodec
begin

text \<open>
  The memory-client messages of \<open>binapi/memclnt/memclnt.ba.go\<close> that the client itself sends and
  reads (control ping, socket client create and delete), with their generated \<open>Size\<close>, \<open>Marshal\<close>
  and \<open>Unmarshal\<close> methods on the wire buffer, and the \<open>message_codec\<close> contract discharged for them.
  They are the concrete messages of the witnesses of the other theories.
\<close>

record MessageTableEntry =
  entry_Index :: u16
  entry_Name :: "byte list"

datatype memclnt_msg =
    ControlPing
  | ControlPingReply "32 word" u32 u32
  | SockclntCreate "byte list"
  | SockclntCreateReply "32 word" u32 u16 "MessageTableEntry list"
  | SockclntDelete u32
  | SockclntDeleteReply "32 word"

text \<open>Every generated \<open>Marshal\<close>: allocate when the argument is nil, encode, return the written bytes.\<close>

definition marshal_with ::
  "(buffer \<Rightarrow> buffer option) \<Rightarrow> nat \<Rightarrow> byte list option \<Rightarrow> ((gerr + byte list) \<times> byte list) option" where
  "marshal_with enc n b =
     do { let vis = (case b of None \<Rightarrow> replicate n 0 | Some d \<Rightarrow> d);
          buf \<leftarrow> enc (NewBuffer vis []);
          bs \<leftarrow> Bytes buf;
          Some (Inr bs, mem buf) }"

section \<open>Generated methods\<close>

definition ControlPing_enc :: "buffer \<Rightarrow> buffer option" where
  "ControlPing_enc b = Some b"

definition ControlPingReply_enc :: "32 word \<Rightarrow> u32 \<Rightarrow> u32 \<Rightarrow> buffer \<Rightarrow> buffer option" where
  "ControlPingReply_enc retval ci pid b =
     do { b \<leftarrow> EncodeInt32 retval b; b \<leftarrow> EncodeUint32 ci b; EncodeUint32 pid b }"

definition ControlPingReply_dec :: "buffer \<Rightarrow> (memclnt_msg \<times> buffer) option" where
  "ControlPingReply_dec b =
     do { (retval, b) \<leftarrow> DecodeInt32 b; (ci, b) \<leftarrow> DecodeUint32 b; (pid, b) \<leftarrow> DecodeUint32 b;
          Some (ControlPingReply retval ci pid, b) }"

definition SockclntCreate_enc :: "byte list \<Rightarrow> buffer \<Rightarrow> buffer option" where
  "SockclntCreate_enc nm b = EncodeString nm 64 b"

definition SockclntCreate_dec :: "buffer \<Rightarrow> (memclnt_msg \<times> buffer) option" where
  "SockclntCreate_dec b = do { (nm, b) \<leftarrow> DecodeString 64 b; Some (SockclntCreate nm, b) }"

definition MessageTableEntry_enc :: "MessageTableEntry \<Rightarrow> buffer \<Rightarrow> buffer option" where
  "MessageTableEntry_enc v b = do { b \<leftarrow> EncodeUint16 (entry_Index v) b; EncodeString (entry_Name v) 64 b }"

definition MessageTableEntry_dec :: "buffer \<Rightarrow> (MessageTableEntry \<times> buffer) option" where
  "MessageTableEntry_dec b =
     do { (i, b) \<leftarrow> DecodeUint16 b; (nm, b) \<leftarrow> DecodeString 64 b;
          Some (\<lparr>entry_Index = i, entry_Name = nm\<rparr>, b) }"

text \<open>The count on the wire is the length of the table converted to 16 bits, not the \<open>Count\<close> field.\<close>

definition SockclntCreateReply_enc ::
  "32 word \<Rightarrow> u32 \<Rightarrow> MessageTableEntry list \<Rightarrow> buffer \<Rightarrow> buffer option" where
  "SockclntCreateReply_enc resp idx table b =
     do { b \<leftarrow> EncodeInt32 resp b; b \<leftarrow> EncodeUint32 idx b;
          b \<leftarrow> EncodeUint16 (word_of_nat (length table)) b;
          enc_all MessageTableEntry_enc table b }"

definition SockclntCreateReply_dec :: "buffer \<Rightarrow> (memclnt_msg \<times> buffer) option" where
  "SockclntCreateReply_dec b =
     do { (resp, b) \<leftarrow> DecodeInt32 b; (idx, b) \<leftarrow> DecodeUint32 b; (cnt, b) \<leftarrow> DecodeUint16 b;
          (table, b) \<leftarrow> dec_all MessageTableEntry_dec (unat cnt) b;
          Some (SockclntCreateReply resp idx cnt table, b) }"

definition SockclntDelete_enc :: "u32 \<Rightarrow> buffer \<Rightarrow> buffer option" where
  "SockclntDelete_enc idx b = EncodeUint32 idx b"

definition SockclntDelete_dec :: "buffer \<Rightarrow> (memclnt_msg \<times> buffer) option" where
  "SockclntDelete_dec b = do { (idx, b) \<leftarrow> DecodeUint32 b; Some (SockclntDelete idx, b) }"

definition SockclntDeleteReply_enc :: "32 word \<Rightarrow> buffer \<Rightarrow> buffer option" where
  "SockclntDeleteReply_enc resp b = EncodeInt32 resp b"

definition SockclntDeleteReply_dec :: "buffer \<Rightarrow> (memclnt_msg \<times> buffer) option" where
  "SockclntDeleteReply_dec b = do { (resp, b) \<leftarrow> DecodeInt32 b; Some (SockclntDeleteReply resp, b) }"

definition SockclntCreateReply_Size :: "MessageTableEntry list \<Rightarrow> nat" where
  "SockclntCreateReply_Size table = foldl (\<lambda>n _. n + 2 + 64) (4 + 4 + 2) table"

fun mc_Size :: "memclnt_msg \<Rightarrow> nat" where
  "mc_Size ControlPing = 0"
| "mc_Size (ControlPingReply _ _ _) = 4 + 4 + 4"
| "mc_Size (SockclntCreate _) = 64"
| "mc_Size (SockclntCreateReply _ _ _ table) = SockclntCreateReply_Size table"
| "mc_Size (SockclntDelete _) = 4"
| "mc_Size (SockclntDeleteReply _) = 4"

fun mc_enc :: "memclnt_msg \<Rightarrow> buffer \<Rightarrow> buffer option" where
  "mc_enc ControlPing = ControlPing_enc"
| "mc_enc (ControlPingReply r c p) = ControlPingReply_enc r c p"
| "mc_enc (SockclntCreate nm) = SockclntCreate_enc nm"
| "mc_enc (SockclntCreateReply r i _ table) = SockclntCreateReply_enc r i table"
| "mc_enc (SockclntDelete i) = SockclntDelete_enc i"
| "mc_enc (SockclntDeleteReply r) = SockclntDeleteReply_enc r"

fun mc_dec :: "memclnt_msg \<Rightarrow> buffer \<Rightarrow> (memclnt_msg \<times> buffer) option" where
  "mc_dec ControlPing b = Some (ControlPing, b)"
| "mc_dec (ControlPingReply _ _ _) b = ControlPingReply_dec b"
| "mc_dec (SockclntCreate _) b = SockclntCreate_dec b"
| "mc_dec (SockclntCreateReply _ _ _ _) b = SockclntCreateReply_dec b"
| "mc_dec (SockclntDelete _) b = SockclntDelete_dec b"
| "mc_dec (SockclntDeleteReply _) b = SockclntDeleteReply_dec b"

fun mc_name :: "memclnt_msg \<Rightarrow> string" where
  "mc_name ControlPing = ''control_ping''"
| "mc_name (ControlPingReply _ _ _) = ''control_ping_reply''"
| "mc_name (SockclntCreate _) = ''sockclnt_create''"
| "mc_name (SockclntCreateReply _ _ _ _) = ''sockclnt_create_reply''"
| "mc_name (SockclntDelete _) = ''sockclnt_delete''"
| "mc_name (SockclntDeleteReply _) = ''sockclnt_delete_reply''"

fun mc_crc :: "memclnt_msg \<Rightarrow> string" where
  "mc_crc ControlPing = ''51077d14''"
| "mc_crc (ControlPingReply _ _ _) = ''f6b0b8ca''"
| "mc_crc (SockclntCreate _) = ''455fb9c4''"
| "mc_crc (SockclntCreateReply _ _ _ _) = ''35166268''"
| "mc_crc (SockclntDelete _) = ''8ac76db6''"
| "mc_crc (SockclntDeleteReply _) = ''8f38b1ee''"

text \<open>
  The socket client messages carry their client index behind the message id in an order that makes
  the generator classify the create pair the other way round.
\<close>

fun mc_type :: "memclnt_msg \<Rightarrow> message_type" where
  "mc_type ControlPing = RequestMessage"
| "mc_type (ControlPingReply _ _ _) = ReplyMessage"
| "mc_type (SockclntCreate _) = ReplyMessage"
| "mc_type (SockclntCreateReply _ _ _ _) = RequestMessage"
| "mc_type (SockclntDelete _) = RequestMessage"
| "mc_type (SockclntDeleteReply _) = ReplyMessage"

text \<open>\<open>reflect.New (reflect.TypeOf (msg).Elem ())\<close>: a zero message of the same Go type.\<close>

fun mc_New :: "memclnt_msg \<Rightarrow> memclnt_msg" where
  "mc_New ControlPing = ControlPing"
| "mc_New (ControlPingReply _ _ _) = ControlPingReply 0 0 0"
| "mc_New (SockclntCreate _) = SockclntCreate []"
| "mc_New (SockclntCreateReply _ _ _ _) = SockclntCreateReply 0 0 0 []"
| "mc_New (SockclntDelete _) = SockclntDelete 0"
| "mc_New (SockclntDeleteReply _) = SockclntDeleteReply 0"

fun mc_Retval :: "memclnt_msg \<Rightarrow> reflect_field" where
  "mc_Retval (ControlPingReply r _ _) = IntField (scast r)"
| "mc_Retval _ = NoField"

definition mc_Marshal :: "memclnt_msg \<Rightarrow> byte list option \<Rightarrow> ((gerr + byte list) \<times> byte list) option" where
  "mc_Marshal m b = marshal_with (mc_enc m) (mc_Size m) b"

definition mc_Unmarshal :: "memclnt_msg \<Rightarrow> byte list \<Rightarrow> byte list \<Rightarrow> (gerr + memclnt_msg) option" where
  "mc_Unmarshal m vis spare = do { (m', _) \<leftarrow> mc_dec m (NewBuffer vis spare); Some (Inr m') }"

definition memclnt :: "memclnt_msg msg_iface" where
  "memclnt = \<lparr>GetMessageName = mc_name, GetCrcString = mc_crc, GetMessageType = mc_type,
     is_Marshaler = (\<lambda>_. True), is_Unmarshaler = (\<lambda>_. True), msg_Size = (\<lambda>m. int (mc_Size m)),
     msg_Marshal = mc_Marshal, msg_Unmarshal = mc_Unmarshal, NumField = (\<lambda>_. 0),
     struc_Sizeof = (\<lambda>_. Inr 0), struc_Pack = (\<lambda>_. Some (Inr [])), struc_Unpack = (\<lambda>_ m. Some (Inr m)),
     msg_New = mc_New, msg_PkgPath = (\<lambda>_. ''go.fd.io/govpp/binapi''), msg_Retval = mc_Retval\<rparr>"

lemma memclnt_sel [simp]:
  "GetMessageName memclnt = mc_name" "GetCrcString memclnt = mc_crc" "GetMessageType memclnt = mc_type"
  "is_Marshaler memclnt m" "is_Unmarshaler memclnt m" "msg_Size memclnt m = int (mc_Size m)"
  "msg_Marshal memclnt = mc_Marshal" "msg_Unmarshal memclnt = mc_Unmarshal" "msg_New memclnt = mc_New"
  "msg_Retval memclnt = mc_Retval"
  by (simp_all add: memclnt_def)

section \<open>What the messages serialise to\<close>

definition pad64 :: "byte list \<Rightarrow> byte list" where
  "pad64 v = v @ replicate (64 - length v) 0"

definition valid_name :: "byte list \<Rightarrow> bool" where
  "valid_name v \<longleftrightarrow> length v \<le> 64 \<and> 0 \<notin> set v"

definition entry_bytes :: "MessageTableEntry \<Rightarrow> byte list" where
  "entry_bytes e = be_bytes 2 (entry_Index e) @ pad64 (entry_Name e)"

fun mc_body :: "memclnt_msg \<Rightarrow> byte list" where
  "mc_body ControlPing = []"
| "mc_body (ControlPingReply r c p) = be_bytes 4 r @ be_bytes 4 c @ be_bytes 4 p"
| "mc_body (SockclntCreate nm) = pad64 nm"
| "mc_body (SockclntCreateReply r i c table) =
     be_bytes 4 r @ be_bytes 4 i @ be_bytes 2 c @ concat (map entry_bytes table)"
| "mc_body (SockclntDelete i) = be_bytes 4 i"
| "mc_body (SockclntDeleteReply r) = be_bytes 4 r"

fun mc_valid :: "memclnt_msg \<Rightarrow> bool" where
  "mc_valid (SockclntCreate nm) = valid_name nm"
| "mc_valid (SockclntCreateReply r i c table) =
     (length table < 2 ^ 16 \<and> c = word_of_nat (length table) \<and> list_all (valid_name \<circ> entry_Name) table)"
| "mc_valid _ = True"

definition mc_same_type :: "memclnt_msg \<Rightarrow> memclnt_msg \<Rightarrow> bool" where
  "mc_same_type m t \<longleftrightarrow> mc_New m = mc_New t"

lemma length_pad64: "valid_name v \<Longrightarrow> length (pad64 v) = 64"
  by (simp add: pad64_def valid_name_def)

interpretation z_entry: zeroed_codec MessageTableEntry_enc MessageTableEntry_dec entry_bytes
    "\<lambda>e. valid_name (entry_Name e)"
proof -
  have p: "zeroed_codec (enc_pair EncodeUint16 (\<lambda>v. EncodeString v 64)) (dec_pair DecodeUint16 (DecodeString 64))
      (\<lambda>v. be_bytes 2 (fst v) @ pad64 (snd v)) (\<lambda>v. valid_name (snd v))"
    using zeroed_codec_pair [OF w_u16.zeroed_codec_axioms z_string64.zeroed_codec_axioms]
    by (simp add: pad64_def valid_name_def)
  let ?f = "\<lambda>e. (entry_Index e, entry_Name e)" and ?g = "\<lambda>(i, n). \<lparr>entry_Index = i, entry_Name = n\<rparr>"
  have "zeroed_codec MessageTableEntry_enc MessageTableEntry_dec
      (\<lambda>v. be_bytes 2 (fst (?f v)) @ pad64 (snd (?f v))) (\<lambda>v. valid_name (snd (?f v)))"
    by (rule zeroed_codec_map [OF p, of ?g])
      (auto simp: MessageTableEntry_enc_def enc_pair_def MessageTableEntry_dec_def dec_pair_def
        map_option_case apfst_def split: Option.bind_splits prod.splits)
  then show "zeroed_codec MessageTableEntry_enc MessageTableEntry_dec entry_bytes (\<lambda>e. valid_name (entry_Name e))"
    by (simp add: entry_bytes_def [abs_def])
qed

interpretation z_head3: zeroed_codec "enc_pair (enc_pair EncodeInt32 EncodeUint32) EncodeUint16"
    "dec_pair (dec_pair DecodeInt32 DecodeUint32) DecodeUint16"
    "\<lambda>v. (be_bytes 4 (fst (fst v)) @ be_bytes 4 (snd (fst v))) @ be_bytes 2 (snd v)" "\<lambda>_. True"
  using zeroed_codec_pair [OF zeroed_codec_pair [OF w_i32.zeroed_codec_axioms w_u32.zeroed_codec_axioms]
      w_u16.zeroed_codec_axioms] by simp

interpretation z_ping3: zeroed_codec "enc_pair (enc_pair EncodeInt32 EncodeUint32) EncodeUint32"
    "dec_pair (dec_pair DecodeInt32 DecodeUint32) DecodeUint32"
    "\<lambda>v. (be_bytes 4 (fst (fst v)) @ be_bytes 4 (snd (fst v))) @ be_bytes 4 (snd v)" "\<lambda>_. True"
  using zeroed_codec_pair [OF zeroed_codec_pair [OF w_i32.zeroed_codec_axioms w_u32.zeroed_codec_axioms]
      w_u32.zeroed_codec_axioms] by simp

lemma SockclntCreateReply_enc_ser:
  assumes "wf_buffer b" and v: "mc_valid (SockclntCreateReply r i c table)"
    and room: "pos b + length (mc_body (SockclntCreateReply r i c table)) \<le> blen b"
    and z: "zeros_at b (length (mc_body (SockclntCreateReply r i c table)))"
  shows "SockclntCreateReply_enc r i table b = Some (buf_fill b (mc_body (SockclntCreateReply r i c table)))"
proof -
  let ?h = "be_bytes 4 r @ be_bytes 4 i @ be_bytes 2 c" and ?t = "concat (map entry_bytes table)"
  have z': "zeros_at b (length ?h + length ?t)" and rm: "pos b + length ?h + length ?t \<le> length (mem b)"
    and rb: "pos b + length ?h + length ?t \<le> blen b"
    using z room assms(1) by (auto simp: wf_buffer_def add.assoc)
  have "enc_pair (enc_pair EncodeInt32 EncodeUint32) EncodeUint16 ((r, i), c) b = Some (buf_fill b ?h)"
    using z_head3.zenc_ser [of b "((r, i), c)"] assms(1) rb z' [unfolded zeros_at_add] by simp
  moreover have "enc_all MessageTableEntry_enc table (buf_fill b ?h) = Some (buf_fill (buf_fill b ?h) ?t)"
    using zeros_at_after_fill [OF z' rm] rb rm assms(1) v
    by (intro z_entry.zenc_all_ser wf_buf_fill) (auto simp: o_def list_all_iff)
  ultimately show ?thesis
    using v rm by (auto simp: SockclntCreateReply_enc_def enc_pair_def buf_fill_buf_fill
        split: Option.bind_splits)
qed

lemma SockclntCreateReply_dec_ser:
  assumes "wf_buffer b" and v: "mc_valid (SockclntCreateReply r i c table)"
    and room: "pos b + length (mc_body (SockclntCreateReply r i c table)) \<le> blen b"
    and h: "holds_at b (mc_body (SockclntCreateReply r i c table))"
  shows "SockclntCreateReply_dec b = Some (SockclntCreateReply r i c table,
     b\<lparr>pos := pos b + length (mc_body (SockclntCreateReply r i c table))\<rparr>)"
proof -
  let ?h = "be_bytes 4 r @ be_bytes 4 i @ be_bytes 2 c" and ?t = "concat (map entry_bytes table)"
  let ?b1 = "b\<lparr>pos := pos b + length ?h\<rparr>"
  have body: "mc_body (SockclntCreateReply r i c table) = ?h @ ?t"
    by simp
  have h1: "holds_at b ?h" and h2: "holds_at ?b1 ?t"
    using h unfolding body holds_at_append by auto
  have c: "unat c = length table"
    using v by (simp add: unat_of_nat)
  have "dec_pair (dec_pair DecodeInt32 DecodeUint32) DecodeUint16 b = Some (((r, i), c), ?b1)"
    using z_head3.zdec_ser [of b "((r, i), c)"] assms(1) room h1 by simp
  moreover have "dec_all MessageTableEntry_dec (length table) ?b1 =
      Some (table, ?b1\<lparr>pos := pos ?b1 + length ?t\<rparr>)"
    using h2 room assms(1) v
    by (intro z_entry.zdec_all_ser wf_advance) (auto simp: o_def list_all_iff wf_buffer_def)
  ultimately show ?thesis
    by (auto simp: SockclntCreateReply_dec_def dec_pair_def c add_ac split: Option.bind_splits)
qed

lemma mc_enc_ser:
  assumes "wf_buffer b" "mc_valid m" "pos b + length (mc_body m) \<le> blen b" "zeros_at b (length (mc_body m))"
  shows "mc_enc m b = Some (buf_fill b (mc_body m))"
proof (cases m)
  case (ControlPingReply r c p)
  then show ?thesis
    using z_ping3.zenc_ser [of b "((r, c), p)"] assms
    by (simp add: ControlPingReply_enc_def enc_pair_def)
next
  case (SockclntCreate nm)
  then show ?thesis
    using z_string64.zenc_ser [of b nm] assms by (simp add: SockclntCreate_enc_def pad64_def valid_name_def)
next
  case (SockclntCreateReply r i c table)
  then show ?thesis
    using SockclntCreateReply_enc_ser [of b r i c table] assms by simp
qed (use assms w_u32.zenc_ser [of b] w_i32.zenc_ser [of b] in
    \<open>auto simp: ControlPing_enc_def SockclntDelete_enc_def SockclntDeleteReply_enc_def\<close>)

lemma mc_dec_ser:
  assumes "wf_buffer b" "mc_valid m" "pos b + length (mc_body m) \<le> blen b" "holds_at b (mc_body m)"
    and "mc_same_type m t"
  shows "mc_dec t b = Some (m, b\<lparr>pos := pos b + length (mc_body m)\<rparr>)"
proof (cases m)
  case ControlPing
  then show ?thesis
    using assms by (cases t) (auto simp: mc_same_type_def)
next
  case (ControlPingReply r c p)
  then obtain r' c' p' where "t = ControlPingReply r' c' p'"
    using assms(5) by (cases t) (auto simp: mc_same_type_def)
  then show ?thesis
    using z_ping3.zdec_ser [of b "((r, c), p)"] assms ControlPingReply
    by (auto simp: ControlPingReply_dec_def dec_pair_def split: Option.bind_splits)
next
  case (SockclntCreate nm)
  then obtain nm' where "t = SockclntCreate nm'"
    using assms(5) by (cases t) (auto simp: mc_same_type_def)
  then show ?thesis
    using z_string64.zdec_ser [of b nm] assms SockclntCreate
    by (simp add: SockclntCreate_dec_def pad64_def valid_name_def)
next
  case (SockclntCreateReply r i c table)
  then obtain r' i' c' t' where "t = SockclntCreateReply r' i' c' t'"
    using assms(5) by (cases t) (auto simp: mc_same_type_def)
  then show ?thesis
    using SockclntCreateReply_dec_ser [of b r i c table] assms SockclntCreateReply by simp
next
  case (SockclntDelete i)
  then obtain i' where "t = SockclntDelete i'"
    using assms(5) by (cases t) (auto simp: mc_same_type_def)
  then show ?thesis
    using w_u32.zdec_ser [of b i] assms SockclntDelete by (simp add: SockclntDelete_dec_def)
next
  case (SockclntDeleteReply i)
  then obtain i' where "t = SockclntDeleteReply i'"
    using assms(5) by (cases t) (auto simp: mc_same_type_def)
  then show ?thesis
    using w_i32.zdec_ser [of b i] assms SockclntDeleteReply by (simp add: SockclntDeleteReply_dec_def)
qed

lemma SockclntCreateReply_Size_eq: "SockclntCreateReply_Size table = 10 + 66 * length table"
proof -
  have "foldl (\<lambda>n _. n + 2 + 64) k xs = k + 66 * length xs" for k and xs :: "MessageTableEntry list"
    by (induction xs arbitrary: k) auto
  then show ?thesis
    by (simp add: SockclntCreateReply_Size_def)
qed

lemma length_entries: "list_all (valid_name \<circ> entry_Name) es \<Longrightarrow> length (concat (map entry_bytes es)) = 66 * length es"
  by (induction es) (auto simp: entry_bytes_def length_pad64)

lemma mc_Size_body: "mc_valid m \<Longrightarrow> mc_Size m = length (mc_body m)"
  by (cases m) (auto simp: SockclntCreateReply_Size_eq length_pad64 length_entries)

section \<open>The messages meet the codec's contract\<close>

interpretation mc: message_codec memclnt mc_body mc_valid mc_same_type
proof (unfold_locales, goal_cases)
  case (4 m)
  let ?b = "NewBuffer (replicate (length (mc_body m)) 0) []"
  have "mc_enc m ?b = Some (buf_fill ?b (mc_body m))"
    using 4 by (intro mc_enc_ser) (simp_all add: NewBuffer_def wf_buffer_def zeros_at_def holds_at_def)
  moreover have "put_at 0 (mc_body m) (replicate (length (mc_body m)) 0) = mc_body m"
    by (simp add: put_at_def)
  ultimately show ?case
    by (simp add: mc_Marshal_def marshal_with_def NewBuffer_def Bytes_def slice_of_def)
next
  case (5 m t spare)
  have "mc_dec t (NewBuffer (mc_body m) spare) =
      Some (m, NewBuffer (mc_body m) spare\<lparr>pos := length (mc_body m)\<rparr>)"
    using 5 mc_dec_ser [of "NewBuffer (mc_body m) spare" m t]
    by (simp add: NewBuffer_def wf_buffer_def holds_at_def)
  then show ?case
    by (simp add: mc_Unmarshal_def)
next
  case (6 m t)
  then show ?case
    by (cases m; cases t) (simp_all add: mc_same_type_def)
qed (simp_all add: mc_Size_body)

section \<open>Properties of the message codec\<close>

text \<open>
  C19 (roundtrip). A well-formed memory-client message encoded by \<open>EncodeMsg\<close> carries the message id
  in its first two bytes and is decoded by \<open>DecodeMsg\<close> to the same message, into any target of the
  same Go type, also after the transport rewrote the last bytes of the header (client index and
  context), and whatever spare capacity the received slice has.
\<close>

theorem memclnt_roundtrip:
  assumes "mc_valid m" and "mc_same_type m t" and "2 + length ctx \<le> getOffset memclnt m"
  shows "\<exists>data. EncodeMsg memclnt (Some m) msgID = Inr data \<and>
     length data = getOffset memclnt m + mc_Size m \<and> be_word (take 2 data) = msgID \<and>
     DecodeMsg memclnt (put_at (getOffset memclnt m - length ctx) ctx data) spare (Some t) = Inr m"
  using mc.transport_roundtrip [OF assms, of msgID spare] mc.encode_length [OF assms(1), of msgID]
    mc_Size_body [OF assms(1)] by auto

theorem memclnt_roundtrip_witness:
  "\<exists>data. EncodeMsg memclnt (Some (ControlPingReply 5 6 7)) 30 = Inr data \<and> length data = 18 \<and>
     be_word (take 2 data) = (30 :: u16) \<and>
     DecodeMsg memclnt (put_at 2 [0, 1, 0, 2] data) [9] (Some (ControlPingReply 0 0 0)) =
       Inr (ControlPingReply 5 6 7)"
  using memclnt_roundtrip [of "ControlPingReply 5 6 7" "ControlPingReply 0 0 0" "[0, 1, 0, 2]" 30 "[9]"]
  by (simp add: mc_same_type_def getOffset_def)

text \<open>
  On data shorter than the header of the message type, \<open>DecodeMsg\<close> reports an error (it
  recovers the panic), while \<open>DecodeMsgContext\<close> of a request or reply panics, unless the backing
  array happens to have spare bytes; with the full header it returns the context the transport
  wrote.
\<close>

theorem decode_short_data:
  assumes "length data < getOffset mi m" and "GetMessageType mi m \<in> {RequestMessage, ReplyMessage}"
  shows "DecodeMsg mi data spare (Some m) =
       Inl (ErrMsg (''panic occurred during decoding message '' @ GetMessageName mi m)) \<and>
     DecodeMsgContext data [] (GetMessageType mi m) = None \<and>
     DecodeMsgContext (put_at (getOffset mi m - 4) (be_bytes 4 (ctx :: u32)) (replicate (getOffset mi m) 0)) spare
        (GetMessageType mi m) = Some ctx"
  using assms by (auto simp: DecodeMsg_short DecodeMsgContext_def slice_of_def getOffset_def put_at_def be_roundtrip)

theorem decode_short_data_witness:
  "DecodeMsgContext [0, 30, 0, 0] [] ReplyMessage = None \<and>
   DecodeMsg memclnt [0, 30, 0, 0] [] (Some (ControlPingReply 0 0 0)) =
     Inl (ErrMsg ''panic occurred during decoding message control_ping_reply'')"
  using decode_short_data [of "[0, 30, 0, 0]" memclnt "ControlPingReply 0 0 0" "[]" 0]
  by (simp add: getOffset_def)

end
