(* ===== verification/ReqContext.thy ===== *)
theory ReqContext
  imports GovppPrelude
begin

text \<open>
  The 32-bit request context of \<open>core/request_handler.go\<close> (15 bits channel id, 1 bit multipart flag,
  16 bits sequence number), the comparison of cycling sequence numbers, and the two context
  operations of the mock adapter, which rewrite one field of a context.
\<close>

definition packRequestContext :: "u16 \<Rightarrow> bool \<Rightarrow> u16 \<Rightarrow> u32" where
  "packRequestContext chanID isMultipart seqNum =
     (let context = push_bit 17 (ucast chanID);
          context = (if isMultipart then context OR push_bit 16 1 else context)
      in context OR ucast seqNum)"

definition unpackRequestContext :: "u32 \<Rightarrow> u16 \<times> bool \<times> u16" where
  "unpackRequestContext context =
     (ucast (drop_bit 17 context), drop_bit 16 context AND 1 \<noteq> 0, ucast (context AND 0xffff))"

definition compareSeqNumbers :: "u16 \<Rightarrow> u16 \<Rightarrow> int" where
  "compareSeqNumbers seqNum1 seqNum2 =
     (let dist = (if seqNum1 \<le> seqNum2 then seqNum2 - seqNum1 else 0xffff - (seqNum1 - seqNum2 - 1))
      in if dist = 0 then 0 else if dist \<le> 0x8000 then -1 else 1)"

definition setSeqNum :: "u32 \<Rightarrow> u16 \<Rightarrow> u32" where
  "setSeqNum context seqNum = (context AND 0xffff0000) OR ucast seqNum"

definition setMultipart :: "u32 \<Rightarrow> bool \<Rightarrow> u32" where
  "setMultipart context isMultipart =
     (let context = context AND 0xfffeffff
      in if isMultipart then context OR push_bit 16 1 else context)"

section \<open>The fields of a context\<close>

text \<open>The bits of the masks, for reasoning bit by bit.\<close>

lemma bit_ffff: "bit (0xffff :: int) n \<longleftrightarrow> n < 16"
proof -
  have "(0xffff :: int) = mask 16"
    by (simp add: mask_eq_exp_minus_1)
  then show ?thesis
    by (simp only: bit_mask_iff) simp
qed

lemma bit_10000: "bit (0x10000 :: int) n \<longleftrightarrow> n = 16"
proof -
  have "(0x10000 :: int) = push_bit 16 1"
    by simp
  then show ?thesis
    by (simp only: bit_push_bit_iff bit_1_iff) auto
qed

lemma bit_ffff0000: "bit (0xffff0000 :: int) n \<longleftrightarrow> 16 \<le> n \<and> n < 32"
proof -
  have "(0xffff0000 :: int) = push_bit 16 0xffff"
    by simp
  then show ?thesis
    by (simp only: bit_push_bit_iff bit_ffff) auto
qed

lemma bit_fffeffff: "bit (0xfffeffff :: int) n \<longleftrightarrow> n < 32 \<and> n \<noteq> 16"
proof -
  have "(0xfffeffff :: int) = 0xffff OR push_bit 17 (mask 15)"
    by (simp add: mask_eq_exp_minus_1)
  then show ?thesis
    by (simp only: bit_or_iff bit_push_bit_iff bit_ffff bit_mask_iff) auto
qed

lemmas mask_bits = bit_ffff bit_10000 bit_ffff0000 bit_fffeffff

lemma and_1_ne_0: "(w :: u32) AND 1 \<noteq> 0 \<longleftrightarrow> bit w 0"
  by (simp add: and_one_eq odd_iff_mod_2_eq_one bit_0)

lemma bit_pack:
  "bit (packRequestContext c m s) n \<longleftrightarrow>
     n < 32 \<and> (if n < 16 then bit s n else if n = 16 then m else bit c (n - 17))"
  by (auto simp: packRequestContext_def Let_def bit_or_iff bit_push_bit_iff bit_ucast_iff mask_bits
      dest: bit_imp_le_length)

lemma unpack_fields:
  "unpackRequestContext w = (c, m, s) \<longleftrightarrow>
     c = ucast (drop_bit 17 w) \<and> m = bit w 16 \<and> s = ucast w"
proof -
  have "ucast (w AND 0xffff) = (ucast w :: u16)"
    by (rule bit_word_eqI) (auto simp: bit_ucast_iff bit_and_iff mask_bits)
  then show ?thesis
    by (auto simp: unpackRequestContext_def and_1_ne_0 bit_drop_bit_eq)
qed

lemma ucast_pack_seq: "ucast (packRequestContext c m s) = s"
  by (rule bit_word_eqI) (auto simp: bit_ucast_iff bit_pack)

lemma chan_bits:
  assumes "c < 0x8000"
  shows "\<not> bit (c :: u16) 15"
proof
  assume "bit c 15"
  then have "odd (unat c div 2 ^ 15)"
    using bit_unsigned_iff [of c 15, where 'a = nat] by (simp add: bit_iff_odd)
  moreover have "unat c < 2 ^ 15"
    using assms by (simp add: word_less_nat_alt)
  ultimately show False
    by simp
qed

lemma ucast_pack_chan:
  assumes "c < 0x8000"
  shows "ucast (drop_bit 17 (packRequestContext c m s)) = c"
proof (rule bit_word_eqI)
  fix n assume n: "n < LENGTH(16)"
  then have "n < 15 \<or> n = 15" by auto
  then show "bit (ucast (drop_bit 17 (packRequestContext c m s)) :: u16) n = bit c n"
    using assms n by (auto simp: bit_ucast_iff bit_drop_bit_eq bit_pack chan_bits)
qed

lemma unpack_pack:
  "chanID < 0x8000 \<Longrightarrow> unpackRequestContext (packRequestContext chanID m s) = (chanID, m, s)"
  by (simp add: unpack_fields ucast_pack_chan ucast_pack_seq bit_pack)

text \<open>
  For a channel id the id pool can give out (below \<open>2^15\<close>), unpacking a packed
  context gives back the channel id, the multipart flag and the sequence number.
\<close>

theorem context_roundtrip:
  assumes "chanID < 0x8000"
  shows "unpackRequestContext (packRequestContext chanID multi seqNum) = (chanID, multi, seqNum)"
  using assms by (rule unpack_pack)

theorem context_roundtrip_witness:
  "unpackRequestContext (packRequestContext 0x7fff True 0xfffe) = (0x7fff, True, 0xfffe)"
  using context_roundtrip [where chanID = "0x7fff" and multi = True and seqNum = "0xfffe"] by simp

text \<open>
  The mock's two rewriting operations change exactly the field they name: on a packed
  context they give the context packed with the new sequence number or the new multipart flag.
\<close>

theorem mock_context_ops:
  "setSeqNum (packRequestContext c m s) s' = packRequestContext c m s' \<and>
   setMultipart (packRequestContext c m s) m' = packRequestContext c m' s"
proof
  show "setSeqNum (packRequestContext c m s) s' = packRequestContext c m s'"
    by (rule bit_word_eqI)
      (auto simp: setSeqNum_def bit_or_iff bit_and_iff mask_bits bit_pack bit_ucast_iff
        dest: bit_imp_le_length)
  show "setMultipart (packRequestContext c m s) m' = packRequestContext c m' s"
    by (rule bit_word_eqI)
      (auto simp: setMultipart_def Let_def bit_or_iff bit_and_iff mask_bits bit_pack)
qed

lemma context_nonzero:
  assumes "0 < chanID" "chanID < 0x8000"
  shows "packRequestContext chanID m s \<noteq> 0"
proof
  assume "packRequestContext chanID m s = 0"
  then have "chanID = 0"
    using ucast_pack_chan [OF assms(2), of m s] by simp
  then show False
    using assms(1) by simp
qed

lemma context_inj:
  assumes "c < 0x8000" "c' < 0x8000" "packRequestContext c m s = packRequestContext c' m' s'"
  shows "c = c' \<and> m = m' \<and> s = s'"
proof -
  have "(c, m, s) = (c', m', s')"
    unfolding unpack_pack [OF assms(1), symmetric] unpack_pack [OF assms(2), symmetric] assms(3) ..
  then show ?thesis by blast
qed

section \<open>Cycling sequence numbers\<close>

lemma compareSeqNumbers_diff:
  "compareSeqNumbers a b = (if b - a = 0 then 0 else if b - a \<le> 0x8000 then -1 else 1)"
proof -
  have "(0xffff :: u16) = - 1"
    by simp
  then have "0xffff - (a - b - 1) = - 1 - (a - b - 1)"
    by (rule arg_cong)
  also have "\<dots> = b - a"
    by simp
  finally have "0xffff - (a - b - 1) = b - a" .
  then show ?thesis
    unfolding compareSeqNumbers_def Let_def by (simp only: if_cancel)
qed

lemma compareSeqNumbers_eq_0 [simp]: "compareSeqNumbers a b = 0 \<longleftrightarrow> a = b"
  by (auto simp: compareSeqNumbers_diff)

lemma compareSeqNumbers_range: "compareSeqNumbers a b \<in> {-1, 0, 1}"
  by (simp add: compareSeqNumbers_diff)

lemma compareSeqNumbers_shift: "compareSeqNumbers (a + k) (b + k) = compareSeqNumbers a b"
  by (simp add: compareSeqNumbers_diff)

lemma compareSeqNumbers_step:
  fixes a :: u16
  assumes "0 < k" and "k \<le> 0x8000"
  shows "compareSeqNumbers a (a + word_of_nat k) = -1"
proof -
  have "unat (word_of_nat k :: u16) = k"
    using assms by (simp add: unat_of_nat)
  then have "word_of_nat k \<noteq> (0 :: u16)" "word_of_nat k \<le> (0x8000 :: u16)"
    using assms by (auto simp: word_le_nat_alt)
  then show ?thesis
    by (simp add: compareSeqNumbers_diff)
qed

lemma unat_minus':
  fixes w :: u16
  assumes "w \<noteq> 0"
  shows "unat (- w) = 65536 - unat w"
proof -
  have "unat w < 65536" "0 < unat w"
    using unsigned_less [of w, where 'a = nat] assms by (auto simp: unat_gt_0)
  then have "(- w) = word_of_nat (65536 - unat w)"
    by (simp add: of_nat_diff)
  then show ?thesis
    using \<open>0 < unat w\<close> by (simp add: unat_of_nat)
qed

lemma compareSeqNumbers_step_back:
  fixes a :: u16
  assumes "0 < k" and "k < 0x8000"
  shows "compareSeqNumbers (a + word_of_nat k) a = 1"
proof -
  have u: "unat (word_of_nat k :: u16) = k"
    using assms by (simp add: unat_of_nat)
  then have "word_of_nat k \<noteq> (0 :: u16)"
    using assms by auto
  moreover have "unat (- word_of_nat k :: u16) = 65536 - k"
    using assms u unat_minus' [OF \<open>word_of_nat k \<noteq> 0\<close>] by simp
  then have "\<not> - word_of_nat k \<le> (0x8000 :: u16)"
    using assms by (simp add: word_le_nat_alt)
  ultimately show ?thesis
    by (simp add: compareSeqNumbers_diff)
qed

text \<open>
  Sequence numbers are compared in the order in which they were issued, across the
  wrap-around at \<open>2^16\<close>, as long as fewer than \<open>2^15\<close> requests lie between them: the earlier one
  precedes, the later one succeeds, and only equal numbers compare equal. At distance exactly
  \<open>2^15\<close> each number precedes the other.
\<close>

theorem compareSeqNumbers_order:
  fixes a :: u16
  assumes "k < 0x8000"
  shows "compareSeqNumbers a (a + word_of_nat k) = (if k = 0 then 0 else -1) \<and>
     compareSeqNumbers (a + word_of_nat k) a = (if k = 0 then 0 else 1) \<and>
     compareSeqNumbers a (a + 0x8000) = -1 \<and> compareSeqNumbers (a + 0x8000) a = -1"
  using assms compareSeqNumbers_step [of k a] compareSeqNumbers_step_back [of k a]
  by (auto simp: compareSeqNumbers_diff)

theorem compareSeqNumbers_order_witness:
  "compareSeqNumbers 0xffff 2 = -1 \<and> compareSeqNumbers 2 0xffff = 1"
proof -
  have e: "(0xffff :: u16) + word_of_nat 3 = 2"
    by simp
  show ?thesis
    using compareSeqNumbers_order [of 3 "0xffff"] unfolding e by simp
qed

end
