(* ===== verification/GoChan.thy ===== *)
theory GoChan
  imports GovppPrelude
begin

text \<open>
  Go's buffered channels as values: a capacity, the queue of buffered elements and whether the
  channel was closed; a nil channel is \<open>None\<close>. Each operation says whether it completes, blocks
  or panics, so that \<open>select\<close> with a \<open>default\<close> case takes the default exactly on \<open>blocks\<close>.
\<close>

record 'a gochan =
  gc_cap :: nat
  gc_queue :: "'a list"
  gc_closed :: bool

definition make_chan :: "nat \<Rightarrow> 'a gochan option" where
  "make_chan n = Some \<lparr>gc_cap = n, gc_queue = [], gc_closed = False\<rparr>"

definition chan_cap :: "'a gochan option \<Rightarrow> nat" where
  "chan_cap c = (case c of None \<Rightarrow> 0 | Some g \<Rightarrow> gc_cap g)"

definition chan_len :: "'a gochan option \<Rightarrow> nat" where
  "chan_len c = (case c of None \<Rightarrow> 0 | Some g \<Rightarrow> length (gc_queue g))"

datatype 'a send_result = Sent "'a gochan" | SendBlocks | SendPanics

definition chan_send :: "'a gochan option \<Rightarrow> 'a \<Rightarrow> 'a send_result" where
  "chan_send c x =
     (case c of None \<Rightarrow> SendBlocks
      | Some g \<Rightarrow> if gc_closed g then SendPanics
                 else if length (gc_queue g) < gc_cap g then Sent (g\<lparr>gc_queue := gc_queue g @ [x]\<rparr>)
                 else SendBlocks)"

datatype 'a recv_result = Received 'a "'a gochan" | RecvClosed | RecvBlocks

definition chan_recv :: "'a gochan option \<Rightarrow> 'a recv_result" where
  "chan_recv c =
     (case c of None \<Rightarrow> RecvBlocks
      | Some g \<Rightarrow> (case gc_queue g of
            x # q \<Rightarrow> Received x (g\<lparr>gc_queue := q\<rparr>)
          | [] \<Rightarrow> if gc_closed g then RecvClosed else RecvBlocks))"

text \<open>\<open>close\<close> panics on a nil and on a closed channel.\<close>

definition chan_close :: "'a gochan option \<Rightarrow> 'a gochan option option" where
  "chan_close c =
     (case c of None \<Rightarrow> None
      | Some g \<Rightarrow> if gc_closed g then None else Some (Some (g\<lparr>gc_closed := True\<rparr>)))"

lemma chan_cap_make [simp]: "chan_cap (make_chan n) = n"
  by (simp add: make_chan_def chan_cap_def)

lemma chan_send_nil [simp]: "chan_send None x = SendBlocks"
  by (simp add: chan_send_def)

lemma chan_recv_nil [simp]: "chan_recv None = RecvBlocks"
  by (simp add: chan_recv_def)

lemma chan_send_Sent:
  "chan_send c x = Sent g' \<longleftrightarrow> (\<exists>g. c = Some g \<and> \<not> gc_closed g \<and> length (gc_queue g) < gc_cap g \<and>
     g' = g\<lparr>gc_queue := gc_queue g @ [x]\<rparr>)"
  by (auto simp: chan_send_def split: option.splits if_splits)

lemma chan_send_blocks:
  "chan_send c x = SendBlocks \<longleftrightarrow>
     (case c of None \<Rightarrow> True | Some g \<Rightarrow> \<not> gc_closed g \<and> gc_cap g \<le> length (gc_queue g))"
  by (auto simp: chan_send_def split: option.splits)

lemma chan_recv_Received:
  "chan_recv c = Received x g' \<longleftrightarrow> (\<exists>g q. c = Some g \<and> gc_queue g = x # q \<and> g' = g\<lparr>gc_queue := q\<rparr>)"
  by (auto simp: chan_recv_def split: option.splits list.splits)

text \<open>Elements come out in the order in which they went in.\<close>

lemma chan_fifo:
  assumes "chan_send c x = Sent g" and "chan_recv c = Received y g1"
  shows "\<exists>g2. chan_recv (Some g) = Received y g2 \<and> chan_send (Some g1) x = Sent g2"
  using assms by (auto simp: chan_send_Sent chan_recv_Received)

definition wf_chan :: "'a gochan option \<Rightarrow> bool" where
  "wf_chan c \<longleftrightarrow> (case c of None \<Rightarrow> True | Some g \<Rightarrow> length (gc_queue g) \<le> gc_cap g)"

lemma wf_chan_send [inv_intros]: "chan_send c x = Sent g \<Longrightarrow> wf_chan (Some g)"
  by (auto simp: chan_send_Sent wf_chan_def)

lemma wf_chan_recv [inv_intros]: "wf_chan c \<Longrightarrow> chan_recv c = Received x g \<Longrightarrow> wf_chan (Some g)"
  by (auto simp: chan_recv_Received wf_chan_def)

lemma wf_chan_make [simp]: "wf_chan (make_chan n)"
  by (simp add: make_chan_def wf_chan_def)

end
