(* ===== verification/CoreChannel.thy ===== *)
theory CoreChannel
  imports MemClnt ReqContext GoChan
begin

text \<open>
  The API channel of \<open>core/channel.go\<close>: numbering of requests, sending, and the receive loop that
  matches replies to requests by sequence number. The \<open>select\<close> of the receive loop is driven by an
  explicit sequence of events (a reply arrives, the slow timer fires, the timeout fires); when the
  sequence ends before the loop returns, the call is still blocked and the result is \<open>None\<close>.

  A message passed by reference and filled by the callee is returned as the new message. When
  decoding fails the model returns the message as it was; the code may have filled part of it.
\<close>

section \<open>Requests, replies and the channel\<close>

record 'm vppRequest =
  req_seqNum :: u16
  req_msg :: 'm
  req_multi :: bool

record vppReply =
  rep_seqNum :: u16
  rep_msgID :: u16
  rep_data :: "byte list"
  rep_spare :: "byte list"
  rep_lastReceived :: bool
  rep_err :: "gerr option"

record 'm Channel =
  ch_id :: u16
  reqChan :: "'m vppRequest gochan option"
  replyChan :: "vppReply gochan option"
  lastSeqNum :: u16
  delayedReply :: "vppReply option"
  replyTimeout :: int
  receiveReplyTimeout :: int

text \<open>The \<open>MessageIdentifier\<close> interface, which the connection implements.\<close>

record 'm msgIdentifier =
  id_GetMessageID :: "'m \<Rightarrow> gerr + u16"
  id_GetMessagePath :: "'m \<Rightarrow> string"
  id_LookupByID :: "string \<Rightarrow> u16 \<Rightarrow> gerr + 'm"

definition nextSeqNum :: "'m Channel \<Rightarrow> u16 \<times> 'm Channel" where
  "nextSeqNum ch = (lastSeqNum ch + 1, ch\<lparr>lastSeqNum := lastSeqNum ch + 1\<rparr>)"

definition newRequest :: "'m Channel \<Rightarrow> 'm \<Rightarrow> bool \<Rightarrow> 'm vppRequest \<times> 'm Channel" where
  "newRequest ch msg multi =
     (let (n, ch') = nextSeqNum ch in (\<lparr>req_seqNum = n, req_msg = msg, req_multi = multi\<rparr>, ch'))"

datatype send_outcome = ReqSent | ReqBlocks | ReqPanics

text \<open>
  \<open>SendRequest\<close> and \<open>SendMultiRequest\<close> number the request, then write it to the request channel; the
  result is the sequence number kept in the request context.
\<close>

definition sendReq :: "'m Channel \<Rightarrow> 'm \<Rightarrow> bool \<Rightarrow> send_outcome \<times> u16 \<times> 'm Channel" where
  "sendReq ch msg multi =
     (let (req, ch') = newRequest ch msg multi in
      case chan_send (reqChan ch') req of
        Sent g \<Rightarrow> (ReqSent, req_seqNum req, ch'\<lparr>reqChan := Some g\<rparr>)
      | SendBlocks \<Rightarrow> (ReqBlocks, req_seqNum req, ch')
      | SendPanics \<Rightarrow> (ReqPanics, req_seqNum req, ch'))"

definition SendRequest :: "'m Channel \<Rightarrow> 'm \<Rightarrow> send_outcome \<times> u16 \<times> 'm Channel" where
  "SendRequest ch msg = sendReq ch msg False"

definition SendMultiRequest :: "'m Channel \<Rightarrow> 'm \<Rightarrow> send_outcome \<times> u16 \<times> 'm Channel" where
  "SendMultiRequest ch msg = sendReq ch msg True"

definition Channel_Close :: "'m Channel \<Rightarrow> 'm Channel option" where
  "Channel_Close ch = map_option (\<lambda>c. ch\<lparr>reqChan := c\<rparr>) (chan_close (reqChan ch))"

definition SetReplyTimeout :: "int \<Rightarrow> 'm Channel \<Rightarrow> 'm Channel" where
  "SetReplyTimeout t ch = ch\<lparr>replyTimeout := t\<rparr>"

section \<open>Compatibility check\<close>

definition getMsgID :: "string \<Rightarrow> string \<Rightarrow> string" where
  "getMsgID nm crc = nm @ ''_'' @ crc"

definition getMsgNameWithCrc :: "'m msg_iface \<Rightarrow> 'm \<Rightarrow> string" where
  "getMsgNameWithCrc mi m = getMsgID (GetMessageName mi m) (GetCrcString mi m)"

text \<open>The lists collected so far are accumulators; any other error ends the check at once.\<close>

fun checkCompat_loop ::
  "'m msg_iface \<Rightarrow> 'm msgIdentifier \<Rightarrow> 'm list \<Rightarrow> string list \<Rightarrow> string list \<Rightarrow> gerr option" where
  "checkCompat_loop mi mid [] good bad =
     (if bad = [] then None else Some (CompatibilityError good bad))"
| "checkCompat_loop mi mid (m # ms) good bad =
     (case id_GetMessageID mid m of
        Inl (UnknownMsgError nm crc) \<Rightarrow> checkCompat_loop mi mid ms good (bad @ [getMsgID nm crc])
      | Inl err \<Rightarrow> Some err
      | Inr _ \<Rightarrow> checkCompat_loop mi mid ms (good @ [getMsgNameWithCrc mi m]) bad)"

definition CheckCompatiblity :: "'m msg_iface \<Rightarrow> 'm msgIdentifier \<Rightarrow> 'm list \<Rightarrow> gerr option" where
  "CheckCompatiblity mi mid msgs = checkCompat_loop mi mid msgs [] []"

section \<open>Processing one reply\<close>

definition RetvalToVPPApiError :: "32 word \<Rightarrow> gerr option" where
  "RetvalToVPPApiError retval = (if retval = 0 then None else Some (VPPApiError retval))"

text \<open>The error of a decoded reply: its \<open>Retval\<close> field, truncated to 32 bits.\<close>

definition reply_error :: "'m msg_iface \<Rightarrow> 'm \<Rightarrow> gerr option" where
  "reply_error mi m =
     (if HasSuffix (GetMessageName mi m) ''_reply'' then
        (case msg_Retval mi m of
           NoField \<Rightarrow> None
         | IntField v \<Rightarrow> RetvalToVPPApiError (ucast v)
         | UintField v \<Rightarrow> RetvalToVPPApiError (ucast v)
         | OtherField \<Rightarrow> RetvalToVPPApiError 0)
      else None)"

record 'm reply_result =
  rr_ignore :: bool
  rr_last :: bool
  rr_err :: "gerr option"
  rr_msg :: 'm

definition processReply ::
  "'m msg_iface \<Rightarrow> 'm msgIdentifier \<Rightarrow> 'm Channel \<Rightarrow> vppReply \<Rightarrow> u16 \<Rightarrow> 'm \<Rightarrow> 'm reply_result \<times> 'm Channel" where
  "processReply mi mid ch reply expSeqNum msg =
     (let cmp = compareSeqNumbers (rep_seqNum reply) expSeqNum;
          res = (\<lambda>ign last err m. \<lparr>rr_ignore = ign, rr_last = last, rr_err = err, rr_msg = m\<rparr>) in
      if cmp = -1 then (res True False None msg, ch)
      else if cmp = 1 then
        (res False False (Some (ErrMsg ''missing binary API reply with sequence number'')) msg,
         ch\<lparr>delayedReply := Some reply\<rparr>)
      else if rep_err reply \<noteq> None then (res False False (rep_err reply) msg, ch)
      else if rep_lastReceived reply then (res False True None msg, ch)
      else case id_GetMessageID mid msg of
        Inl _ \<Rightarrow> (res False False (Some (ErrMsg (''message '' @ GetMessageName mi msg @
            '' is not compatible with the VPP we are connected to''))) msg, ch)
      | Inr expMsgID \<Rightarrow>
          if rep_msgID reply \<noteq> expMsgID then
            (res False False (Some (ErrMsg (''received unexpected message, expected '' @
              GetMessageName mi msg))) msg, ch)
          else (case DecodeMsg mi (rep_data reply) (rep_spare reply) (Some msg) of
              Inl err \<Rightarrow> (res False False (Some err) msg, ch)
            | Inr m \<Rightarrow> (res False False (reply_error mi m) m, ch)))"

section \<open>The receive loop\<close>

datatype recv_event = ReplyArrives vppReply | SlowTick | TimeoutFires

text \<open>The result: last reply received, error, message, then the channel and the events left.\<close>

fun receive_loop ::
  "'m msg_iface \<Rightarrow> 'm msgIdentifier \<Rightarrow> u16 \<Rightarrow> 'm \<Rightarrow> 'm Channel \<Rightarrow> recv_event list \<Rightarrow>
     ((bool \<times> gerr option \<times> 'm) \<times> 'm Channel \<times> recv_event list) option" where
  "receive_loop mi mid expSeqNum msg ch [] = None"
| "receive_loop mi mid expSeqNum msg ch (ReplyArrives reply # evs) =
     (let (r, ch') = processReply mi mid ch reply expSeqNum msg in
      if rr_ignore r then receive_loop mi mid expSeqNum (rr_msg r) ch' evs
      else Some ((rr_last r, rr_err r, rr_msg r), ch', evs))"
| "receive_loop mi mid expSeqNum msg ch (SlowTick # evs) = receive_loop mi mid expSeqNum msg ch evs"
| "receive_loop mi mid expSeqNum msg ch (TimeoutFires # evs) =
     Some ((False, Some (ErrWrap '''' ErrReplyTimeout), msg), ch, evs)"

definition receiveReplyInternal ::
  "'m msg_iface \<Rightarrow> 'm msgIdentifier \<Rightarrow> 'm option \<Rightarrow> u16 \<Rightarrow> 'm Channel \<Rightarrow> recv_event list \<Rightarrow>
     ((bool \<times> gerr option \<times> 'm option) \<times> 'm Channel \<times> recv_event list) option" where
  "receiveReplyInternal mi mid msg expSeqNum ch evs =
     (case msg of
        None \<Rightarrow> Some ((False, Some (ErrMsg ''nil message passed in''), None), ch, evs)
      | Some m \<Rightarrow>
          let wrap = map_option (\<lambda>((l, e, m'), s). ((l, e, Some m'), s)) in
          (case delayedReply ch of
             None \<Rightarrow> wrap (receive_loop mi mid expSeqNum m ch evs)
           | Some reply \<Rightarrow>
               let (r, ch') = processReply mi mid (ch\<lparr>delayedReply := None\<rparr>) reply expSeqNum m in
               if rr_ignore r then wrap (receive_loop mi mid expSeqNum (rr_msg r) ch' evs)
               else Some ((rr_last r, rr_err r, Some (rr_msg r)), ch', evs)))"

text \<open>A request context is a channel and the sequence number of its request; it may be nil.\<close>

definition requestCtx_ReceiveReply ::
  "'m msg_iface \<Rightarrow> 'm msgIdentifier \<Rightarrow> ('m Channel \<times> u16) option \<Rightarrow> 'm option \<Rightarrow> recv_event list \<Rightarrow>
     (gerr option \<times> 'm option \<times> 'm Channel option \<times> recv_event list) option" where
  "requestCtx_ReceiveReply mi mid req msg evs =
     (case req of
        None \<Rightarrow> Some (Some ErrInvalidRequestCtx, msg, None, evs)
      | Some (ch, seqNum) \<Rightarrow>
          map_option (\<lambda>((lastReplyReceived, err, m), ch', evs').
              (case err of
                 Some e \<Rightarrow> (Some e, m, Some ch', evs')
               | None \<Rightarrow> if lastReplyReceived
                   then (Some (ErrMsg ''multipart reply recieved while a single reply expected''), m, Some ch', evs')
                   else (None, m, Some ch', evs')))
            (receiveReplyInternal mi mid msg seqNum ch evs))"

definition multiRequestCtx_ReceiveReply ::
  "'m msg_iface \<Rightarrow> 'm msgIdentifier \<Rightarrow> ('m Channel \<times> u16) option \<Rightarrow> 'm option \<Rightarrow> recv_event list \<Rightarrow>
     ((bool \<times> gerr option \<times> 'm option) \<times> 'm Channel option \<times> recv_event list) option" where
  "multiRequestCtx_ReceiveReply mi mid req msg evs =
     (case req of
        None \<Rightarrow> Some ((False, Some ErrInvalidRequestCtx, msg), None, evs)
      | Some (ch, seqNum) \<Rightarrow>
          map_option (\<lambda>(r, ch', evs'). (r, Some ch', evs')) (receiveReplyInternal mi mid msg seqNum ch evs))"

section \<open>Facts on a single reply\<close>

definition stale :: "u16 \<Rightarrow> vppReply \<Rightarrow> bool" where
  "stale expSeqNum r \<longleftrightarrow> compareSeqNumbers (rep_seqNum r) expSeqNum = -1"

definition ahead :: "u16 \<Rightarrow> vppReply \<Rightarrow> bool" where
  "ahead expSeqNum r \<longleftrightarrow> compareSeqNumbers (rep_seqNum r) expSeqNum = 1"

lemma reply_cases: "stale n r \<or> ahead n r \<or> rep_seqNum r = n"
  using compareSeqNumbers_range [of "rep_seqNum r" n] by (auto simp: stale_def ahead_def)

lemma not_stale_self: "rep_seqNum r = n \<Longrightarrow> \<not> stale n r \<and> \<not> ahead n r"
  using compareSeqNumbers_eq_0 [of n n] by (simp add: stale_def ahead_def del: compareSeqNumbers_eq_0)

lemma processReply_stale:
  "stale n r \<Longrightarrow> processReply mi mid ch r n m = (\<lparr>rr_ignore = True, rr_last = False, rr_err = None, rr_msg = m\<rparr>, ch)"
  by (simp add: processReply_def stale_def)

lemma processReply_ahead:
  "ahead n r \<Longrightarrow> processReply mi mid ch r n m =
     (\<lparr>rr_ignore = False, rr_last = False,
       rr_err = Some (ErrMsg ''missing binary API reply with sequence number''), rr_msg = m\<rparr>,
      ch\<lparr>delayedReply := Some r\<rparr>)"
  by (simp add: processReply_def ahead_def)

text \<open>The message a matching reply carries, when it is accepted.\<close>

definition carries :: "'m msg_iface \<Rightarrow> 'm msgIdentifier \<Rightarrow> vppReply \<Rightarrow> 'm \<Rightarrow> 'm \<Rightarrow> bool" where
  "carries mi mid r m m' \<longleftrightarrow> rep_err r = None \<and> \<not> rep_lastReceived r \<and>
     id_GetMessageID mid m = Inr (rep_msgID r) \<and>
     DecodeMsg mi (rep_data r) (rep_spare r) (Some m) = Inr m'"

lemma processReply_carries:
  "rep_seqNum r = n \<Longrightarrow> carries mi mid r m m' \<Longrightarrow> processReply mi mid ch r n m =
     (\<lparr>rr_ignore = False, rr_last = False, rr_err = reply_error mi m', rr_msg = m'\<rparr>, ch)"
  by (simp add: processReply_def carries_def compareSeqNumbers_diff)

lemma processReply_ignore: "rr_ignore (fst (processReply mi mid ch r n m)) \<longleftrightarrow> stale n r"
  by (auto simp: processReply_def stale_def Let_def split: sum.splits if_splits)

lemma processReply_last:
  "rr_last (fst (processReply mi mid ch r n m)) \<Longrightarrow>
   rep_seqNum r = n \<and> rep_err r = None \<and> rep_lastReceived r \<and> rr_err (fst (processReply mi mid ch r n m)) = None"
  using compareSeqNumbers_range [of "rep_seqNum r" n]
  by (auto simp: processReply_def Let_def split: sum.splits if_splits)

lemma processReply_ok:
  assumes "processReply mi mid ch r n m = (x, ch')" "\<not> rr_ignore x" "rr_err x = None"
  shows "rep_seqNum r = n \<and> rep_err r = None \<and> ch' = ch \<and>
    (if rr_last x then rep_lastReceived r \<and> rr_msg x = m
     else carries mi mid r m (rr_msg x) \<and> reply_error mi (rr_msg x) = None)"
  using assms compareSeqNumbers_range [of "rep_seqNum r" n]
  by (auto simp: processReply_def Let_def carries_def split: sum.splits if_splits)

text \<open>Events during which the receive loop goes on waiting.\<close>

fun waits :: "u16 \<Rightarrow> recv_event \<Rightarrow> bool" where
  "waits n (ReplyArrives r) = stale n r"
| "waits n SlowTick = True"
| "waits n TimeoutFires = False"

lemma receive_loop_waits:
  "list_all (waits n) pre \<Longrightarrow> receive_loop mi mid n m ch (pre @ evs) = receive_loop mi mid n m ch evs"
proof (induction pre)
  case (Cons e pre)
  then show ?case
    by (cases e) (auto simp: processReply_stale)
qed simp

lemma receive_loop_None_iff:
  "receive_loop mi mid n m ch evs = None \<longleftrightarrow> list_all (waits n) evs"
proof (induction evs)
  case (Cons e evs)
  show ?case
  proof (cases e)
    case (ReplyArrives r)
    then show ?thesis
      using Cons processReply_ignore [of mi mid ch r n m] processReply_stale [of n r mi mid ch m]
      by (cases "processReply mi mid ch r n m") auto
  qed (use Cons in auto)
qed simp

lemma receive_loop_ok:
  assumes "receive_loop mi mid n m ch evs = Some ((l, None, m'), ch', rest)"
  shows "\<exists>r. ReplyArrives r \<in> set evs \<and> rep_seqNum r = n \<and> rep_err r = None \<and> ch' = ch \<and>
    (if l then rep_lastReceived r \<and> m' = m else carries mi mid r m m' \<and> reply_error mi m' = None)"
  using assms
proof (induction evs)
  case (Cons e evs)
  show ?case
  proof (cases e)
    case (ReplyArrives r)
    obtain x c where p: "processReply mi mid ch r n m = (x, c)"
      by (cases "processReply mi mid ch r n m")
    show ?thesis
    proof (cases "rr_ignore x")
      case True
      then have "stale n r"
        using processReply_ignore [of mi mid ch r n m] p by simp
      then show ?thesis
        using Cons ReplyArrives by (auto simp: processReply_stale)
    next
      case False
      then show ?thesis
        using Cons.prems ReplyArrives p processReply_ok [OF p False] by (auto split: if_splits)
    qed
  qed (use Cons in auto)
qed simp

lemma receiveReplyInternal_no_delay:
  "delayedReply ch = None \<Longrightarrow> receiveReplyInternal mi mid (Some m) n ch evs =
     map_option (\<lambda>((l, e, m'), s). ((l, e, Some m'), s)) (receive_loop mi mid n m ch evs)"
  by (simp add: receiveReplyInternal_def Let_def)

lemma receiveReplyInternal_delayed:
  "delayedReply ch = Some r \<Longrightarrow> \<not> stale n r \<Longrightarrow>
   receiveReplyInternal mi mid (Some m) n ch evs =
     (let (x, ch') = processReply mi mid (ch\<lparr>delayedReply := None\<rparr>) r n m in
      Some ((rr_last x, rr_err x, Some (rr_msg x)), ch', evs))"
  using processReply_ignore [of mi mid "ch\<lparr>delayedReply := None\<rparr>" r n m]
  by (cases "processReply mi mid (ch\<lparr>delayedReply := None\<rparr>) r n m") (simp add: receiveReplyInternal_def)

lemma receiveReplyInternal_delayed_stale:
  "delayedReply ch = Some r \<Longrightarrow> stale n r \<Longrightarrow>
   receiveReplyInternal mi mid (Some m) n ch evs =
   receiveReplyInternal mi mid (Some m) n (ch\<lparr>delayedReply := None\<rparr>) evs"
  by (simp add: receiveReplyInternal_def processReply_stale)

lemma receiveReplyInternal_waits:
  "delayedReply ch = None \<Longrightarrow> list_all (waits n) pre \<Longrightarrow>
   receiveReplyInternal mi mid (Some m) n ch (pre @ evs) = receiveReplyInternal mi mid (Some m) n ch evs"
  by (simp add: receiveReplyInternal_no_delay receive_loop_waits)

lemma no_delay_update [simp]: "delayedReply ch = None \<Longrightarrow> ch\<lparr>delayedReply := None\<rparr> = ch"
  by simp

text \<open>Concrete values for the witnesses: a channel, an identifier table, and control ping replies.\<close>

definition ex_ids :: "memclnt_msg msgIdentifier" where
  "ex_ids = \<lparr>id_GetMessageID = (\<lambda>m. case m of ControlPingReply _ _ _ \<Rightarrow> Inr 31 | ControlPing \<Rightarrow> Inr 30
       | _ \<Rightarrow> Inl (UnknownMsgError (mc_name m) (mc_crc m))),
     id_GetMessagePath = (\<lambda>_. ''binapi''), id_LookupByID = (\<lambda>_ _. Inl ErrClosed)\<rparr>"

definition ex_ch :: "memclnt_msg Channel" where
  "ex_ch = \<lparr>ch_id = 1, reqChan = make_chan 100, replyChan = make_chan 100, lastSeqNum = 5,
     delayedReply = None, replyTimeout = 0, receiveReplyTimeout = 100\<rparr>"

definition ex_reply :: "u16 \<Rightarrow> vppReply" where
  "ex_reply n = \<lparr>rep_seqNum = n, rep_msgID = 31,
     rep_data = [0, 31, 0, 0, 0, 0] @ mc_body (ControlPingReply 0 7 9), rep_spare = [],
     rep_lastReceived = False, rep_err = None\<rparr>"

lemma ex_reply_seq [simp]: "rep_seqNum (ex_reply n) = n"
  by (simp add: ex_reply_def)

lemma ex_ch_no_delay [simp]: "delayedReply ex_ch = None"
  by (simp add: ex_ch_def)

lemma ex_carries: "carries memclnt ex_ids (ex_reply n) (ControlPingReply 0 0 0) (ControlPingReply 0 7 9)"
proof -
  have "DecodeMsg memclnt ([0, 31, 0, 0, 0, 0] @ mc_body (ControlPingReply 0 7 9)) [] (Some (ControlPingReply 0 0 0)) =
      Inr (ControlPingReply 0 7 9)"
    by (rule mc.decode) (simp_all add: mc_same_type_def getOffset_def)
  then show ?thesis
    by (simp add: carries_def ex_reply_def ex_ids_def)
qed

lemma ex_no_error: "reply_error memclnt (ControlPingReply 0 7 9) = None"
  by (simp add: reply_error_def RetvalToVPPApiError_def HasSuffix_def)

section \<open>Properties of sending and receiving\<close>

lemma ReceiveReply_matching':
  assumes "delayedReply ch = None" and "list_all (waits n) pre"
    and "rep_seqNum r = n" and "carries mi mid r m m'"
  shows "requestCtx_ReceiveReply mi mid (Some (ch, n)) (Some m) (pre @ ReplyArrives r # rest) =
     Some (reply_error mi m', Some m', Some ch, rest)"
proof -
  have "receiveReplyInternal mi mid (Some m) n ch (ReplyArrives r # rest) =
      Some ((False, reply_error mi m', Some m'), ch, rest)"
    using assms by (simp add: receiveReplyInternal_no_delay processReply_carries)
  then show ?thesis
    using assms(1,2) by (simp add: requestCtx_ReceiveReply_def receiveReplyInternal_waits split: option.split)
qed

text \<open>
  While a request waits for its reply, replies to earlier requests and ticks of the slow
  timer are skipped; the reply with the request's sequence number is decoded into the caller's
  message, the error returned is the one of its \<open>Retval\<close>, later events are not consumed and the
  channel is unchanged.
\<close>

theorem ReceiveReply_matching:
  assumes "delayedReply ch = None" and "list_all (waits n) pre"
    and "rep_seqNum r = n" and "carries mi mid r m m'"
  shows "requestCtx_ReceiveReply mi mid (Some (ch, n)) (Some m) (pre @ ReplyArrives r # rest) =
     Some (reply_error mi m', Some m', Some ch, rest)"
  using assms by (rule ReceiveReply_matching')

theorem ReceiveReply_matching_witness:
  "requestCtx_ReceiveReply memclnt ex_ids (Some (ex_ch, 6)) (Some (ControlPingReply 0 0 0))
     [ReplyArrives (ex_reply 4), SlowTick, ReplyArrives (ex_reply 6), TimeoutFires] =
   Some (None, Some (ControlPingReply 0 7 9), Some ex_ch, [TimeoutFires])"
  using ReceiveReply_matching [of ex_ch 6 "[ReplyArrives (ex_reply 4), SlowTick]" "ex_reply 6" memclnt ex_ids
      "ControlPingReply 0 0 0" "ControlPingReply 0 7 9" "[TimeoutFires]"] ex_carries [of 6] ex_no_error
  by (simp add: stale_def compareSeqNumbers_diff)

text \<open>
  C5 (safety). Whenever \<open>ReceiveReply\<close> of a single request returns no error, the message it filled was
  decoded from a reply whose sequence number is the one of this request and whose message id is
  the one of the message type asked for, that reply reported no error, and it was the buffered
  reply or arrived during the call. Replies are never mixed up between requests.
\<close>

theorem ReceiveReply_safe:
  assumes "requestCtx_ReceiveReply mi mid (Some (ch, n)) (Some m) evs = Some (None, m', ch', rest)"
  shows "\<exists>r m2. (delayedReply ch = Some r \<or> ReplyArrives r \<in> set evs) \<and> rep_seqNum r = n \<and>
     m' = Some m2 \<and> carries mi mid r m m2 \<and> reply_error mi m2 = None"
proof -
  obtain ch2 where i: "receiveReplyInternal mi mid (Some m) n ch evs = Some ((False, None, m'), ch2, rest)"
    using assms by (auto simp: requestCtx_ReceiveReply_def split: option.splits if_splits)
  have loop: "\<exists>r m2. ReplyArrives r \<in> set evs \<and> rep_seqNum r = n \<and> m' = Some m2 \<and> carries mi mid r m m2 \<and>
      reply_error mi m2 = None"
    if "delayedReply c = None" "receiveReplyInternal mi mid (Some m) n c evs = Some ((False, None, m'), ch2, rest)" for c
    using that by (auto simp: receiveReplyInternal_no_delay dest!: receive_loop_ok)
  show ?thesis
  proof (cases "delayedReply ch")
    case None
    then show ?thesis
      using loop [OF None i] by blast
  next
    case (Some r)
    show ?thesis
    proof (cases "stale n r")
      case True
      then show ?thesis
        using loop [of "ch\<lparr>delayedReply := None\<rparr>"] i receiveReplyInternal_delayed_stale [OF Some True] by auto
    next
      case False
      then show ?thesis
        using i Some receiveReplyInternal_delayed [OF Some False, of mi mid m evs]
          processReply_ignore [of mi mid "ch\<lparr>delayedReply := None\<rparr>" r n m]
          processReply_ok [of mi mid "ch\<lparr>delayedReply := None\<rparr>" r n m]
        by (cases "processReply mi mid (ch\<lparr>delayedReply := None\<rparr>) r n m") (auto simp: Let_def)
    qed
  qed
qed

theorem ReceiveReply_safe_witness:
  "\<exists>r m2. ReplyArrives r \<in> {ReplyArrives (ex_reply 4), ReplyArrives (ex_reply 6)} \<and> rep_seqNum r = 6 \<and>
     carries memclnt ex_ids r (ControlPingReply 0 0 0) m2"
proof -
  have "requestCtx_ReceiveReply memclnt ex_ids (Some (ex_ch, 6)) (Some (ControlPingReply 0 0 0))
      [ReplyArrives (ex_reply 4), ReplyArrives (ex_reply 6)] =
      Some (None, Some (ControlPingReply 0 7 9), Some ex_ch, [])"
    using ex_carries [of 6] ex_no_error
    by (simp add: requestCtx_ReceiveReply_def receiveReplyInternal_no_delay processReply_carries
        processReply_stale stale_def compareSeqNumbers_diff)
  from ReceiveReply_safe [OF this] show ?thesis
    by auto
qed

text \<open>
  C13 (functional). When replies were lost, a reply to a later request (fewer than \<open>2^15\<close> ahead) is not
  thrown away: the waiting call returns the error that its reply is missing and buffers it, every
  request in between gets the same error at once, and the request it belongs to receives it
  without waiting.
\<close>

theorem lost_reply_redelivered:
  assumes "delayedReply ch = None" and "list_all (waits n) pre"
    and "rep_seqNum r = n + word_of_nat k" and "0 < k" and "k < 0x8000" and "carries mi mid r m2 m'"
  defines "missing \<equiv> Some (ErrMsg ''missing binary API reply with sequence number'')"
  shows "\<exists>ch1. receiveReplyInternal mi mid (Some m) n ch (pre @ ReplyArrives r # rest) =
         Some ((False, missing, Some m), ch1, rest) \<and>
     (\<forall>j evs x. 0 < j \<and> j < k \<longrightarrow>
        receiveReplyInternal mi mid (Some x) (n + word_of_nat j) ch1 evs = Some ((False, missing, Some x), ch1, evs)) \<and>
     receiveReplyInternal mi mid (Some m2) (n + word_of_nat k) ch1 rest =
         Some ((False, reply_error mi m', Some m'), ch, rest)"
proof -
  let ?ch1 = "ch\<lparr>delayedReply := Some r\<rparr>"
  have ahead: "ahead (n + word_of_nat j) r" if "j < k" for j
  proof -
    have "n + word_of_nat k = (n + word_of_nat j) + word_of_nat (k - j)"
      using that by (simp add: of_nat_diff)
    then show ?thesis
      using compareSeqNumbers_step_back [of "k - j" "n + word_of_nat j"] that assms(3,5) by (simp add: ahead_def)
  qed
  then have ns: "\<not> stale (n + word_of_nat j) r" if "j < k" for j
    using that by (auto simp: ahead_def stale_def)
  have a0: "ahead n r"
    using ahead [OF assms(4)] by simp
  have c: "?ch1\<lparr>delayedReply := None\<rparr> = ch"
    using assms(1) by simp
  have "receiveReplyInternal mi mid (Some m) n ch (ReplyArrives r # rest) = Some ((False, missing, Some m), ?ch1, rest)"
    using assms(1) by (simp add: receiveReplyInternal_no_delay processReply_ahead [OF a0] missing_def)
  moreover have "receiveReplyInternal mi mid (Some x) (n + word_of_nat j) ?ch1 evs = Some ((False, missing, Some x), ?ch1, evs)"
    if "j < k" for j evs x
    using receiveReplyInternal_delayed [OF _ ns [OF that], of ?ch1 mi mid x evs]
    by (simp add: processReply_ahead [OF ahead [OF that]] missing_def)
  moreover have "receiveReplyInternal mi mid (Some m2) (n + word_of_nat k) ?ch1 rest =
      Some ((False, reply_error mi m', Some m'), ch, rest)"
    using receiveReplyInternal_delayed [of ?ch1 r "n + word_of_nat k" mi mid m2 rest]
      not_stale_self [OF assms(3)] processReply_carries [OF assms(3,6)] assms(1) by simp
  ultimately show ?thesis
    using assms(1,2) by (auto simp: receiveReplyInternal_waits)
qed

theorem lost_reply_redelivered_witness:
  "\<exists>ch1. receiveReplyInternal memclnt ex_ids (Some ControlPing) 6 ex_ch [ReplyArrives (ex_reply 8)] =
         Some ((False, Some (ErrMsg ''missing binary API reply with sequence number''), Some ControlPing), ch1, []) \<and>
     receiveReplyInternal memclnt ex_ids (Some (ControlPingReply 0 0 0)) 8 ch1 [] =
         Some ((False, None, Some (ControlPingReply 0 7 9)), ex_ch, [])"
  using lost_reply_redelivered [of ex_ch 6 "[]" "ex_reply 8" 2 memclnt ex_ids "ControlPingReply 0 0 0"
      "ControlPingReply 0 7 9" ControlPing "[]"] ex_carries [of 8] ex_no_error
  by auto

text \<open>
  C18 (liveness). A receive call blocks exactly as long as everything it has seen are replies to earlier
  requests and slow ticks; when the timeout fires in that situation it returns the timeout error,
  so a call with a reply timeout always returns.
\<close>

theorem receive_blocks_iff:
  "(receiveReplyInternal mi mid (Some m) n ch evs = None \<longleftrightarrow>
      (\<forall>r. delayedReply ch = Some r \<longrightarrow> stale n r) \<and> list_all (waits n) evs) \<and>
   ((\<forall>r. delayedReply ch = Some r \<longrightarrow> stale n r) \<and> list_all (waits n) pre \<longrightarrow>
      receiveReplyInternal mi mid (Some m) n ch (pre @ TimeoutFires # rest) =
        Some ((False, Some (ErrWrap '''' ErrReplyTimeout), Some m), ch\<lparr>delayedReply := None\<rparr>, rest))"
proof (cases "delayedReply ch")
  case None
  then show ?thesis
    by (simp add: receiveReplyInternal_no_delay receive_loop_None_iff receive_loop_waits)
next
  case (Some r)
  show ?thesis
  proof (cases "stale n r")
    case True
    then show ?thesis
      using receiveReplyInternal_delayed_stale [OF Some True] Some
      by (simp add: receiveReplyInternal_no_delay receive_loop_None_iff receive_loop_waits)
  next
    case False
    then show ?thesis
      using receiveReplyInternal_delayed [OF Some False] Some
      by (auto simp: Let_def split: prod.splits)
  qed
qed

theorem receive_blocks_iff_witness:
  "receiveReplyInternal memclnt ex_ids (Some ControlPing) 6 ex_ch [SlowTick, ReplyArrives (ex_reply 5)] = None \<and>
   receiveReplyInternal memclnt ex_ids (Some ControlPing) 6 ex_ch [SlowTick, TimeoutFires] =
     Some ((False, Some (ErrWrap '''' ErrReplyTimeout), Some ControlPing), ex_ch, [])"
  using receive_blocks_iff [of memclnt ex_ids ControlPing 6 ex_ch "[SlowTick, ReplyArrives (ex_reply 5)]"
      "[SlowTick]" "[]"]
  by (simp add: stale_def compareSeqNumbers_diff)

section \<open>Numbering of requests and the compatibility check\<close>

text \<open>The sequence numbers of a run of requests, each a message and its multipart flag.\<close>

fun request_run :: "'m Channel \<Rightarrow> ('m \<times> bool) list \<Rightarrow> 'm vppRequest list \<times> 'm Channel" where
  "request_run ch [] = ([], ch)"
| "request_run ch ((m, multi) # ms) =
     (let (r, ch1) = newRequest ch m multi; (rs, ch2) = request_run ch1 ms in (r # rs, ch2))"

definition request_context :: "u16 \<Rightarrow> 'm vppRequest \<Rightarrow> u32" where
  "request_context chanID r = packRequestContext chanID (req_multi r) (req_seqNum r)"

lemma request_run_length: "length (fst (request_run ch ms)) = length ms"
  by (induction ch ms rule: request_run.induct) (auto split: prod.splits)

lemma request_run_nth:
  "i < length ms \<Longrightarrow> req_seqNum (fst (request_run ch ms) ! i) = lastSeqNum ch + word_of_nat (Suc i) \<and>
     req_msg (fst (request_run ch ms) ! i) = fst (ms ! i) \<and> req_multi (fst (request_run ch ms) ! i) = snd (ms ! i)"
proof (induction ch ms arbitrary: i rule: request_run.induct)
  case (2 ch m multi ms)
  show ?case
  proof (cases i)
    case 0
    then show ?thesis
      by (simp add: newRequest_def nextSeqNum_def split: prod.splits)
  next
    case (Suc j)
    let ?ch1 = "ch\<lparr>lastSeqNum := lastSeqNum ch + 1\<rparr>"
    obtain rs ch2 where r: "request_run ?ch1 ms = (rs, ch2)"
      by (cases "request_run ?ch1 ms")
    have n: "newRequest ch m multi = (\<lparr>req_seqNum = lastSeqNum ch + 1, req_msg = m, req_multi = multi\<rparr>, ?ch1)"
      by (simp add: newRequest_def nextSeqNum_def)
    show ?thesis
      using 2(1) [OF n [symmetric] refl, of j] 2(2) Suc r by (simp add: n algebra_simps)
  qed
qed simp

lemma request_context_inj:
  assumes "c < 0x8000" "c' < 0x8000" "request_context c r = request_context c' r'"
  shows "c = c' \<and> req_seqNum r = req_seqNum r'"
  using context_inj [OF assms(1,2)] assms(3) by (auto simp: request_context_def)

text \<open>
  C24 (safety). The contexts of the requests of one channel are pairwise different over any \<open>2^16\<close>
  consecutive requests, they differ from those of every other channel id the pool can give out,
  and none of them is 0, the value the receiving side takes for a notification.
\<close>

theorem request_contexts_distinct:
  assumes "0 < c" and "c < 0x8000" and "c' < 0x8000" and "i < length ms" and "j < length ms"
    and "i < j" and "j - i < 2 ^ 16"
  shows "request_context c (fst (request_run ch ms) ! i) \<noteq> request_context c (fst (request_run ch ms) ! j) \<and>
     (c' \<noteq> c \<longrightarrow> request_context c (fst (request_run ch ms) ! i) \<noteq> request_context c' r) \<and>
     request_context c (fst (request_run ch ms) ! i) \<noteq> 0"
proof -
  have "lastSeqNum ch + word_of_nat (Suc i) \<noteq> lastSeqNum ch + word_of_nat (Suc j)"
  proof
    assume "lastSeqNum ch + word_of_nat (Suc i) = lastSeqNum ch + word_of_nat (Suc j)"
    then have "(word_of_nat (Suc j) :: u16) = word_of_nat (Suc i)"
      by simp
    then have "(word_of_nat (j - i) :: u16) = 0"
      using assms(6) by (simp add: of_nat_diff)
    then have "unat (word_of_nat (j - i) :: u16) = 0"
      by (simp only: unsigned_0)
    then have "j - i = 0"
      using assms(7) by (simp add: unat_of_nat del: of_nat_diff)
    then show False
      using assms(6) by simp
  qed
  then have "req_seqNum (fst (request_run ch ms) ! i) \<noteq> req_seqNum (fst (request_run ch ms) ! j)"
    using assms request_run_nth [of i ms ch] request_run_nth [of j ms ch] by simp
  then show ?thesis
    using request_context_inj [OF assms(2,2)] request_context_inj [OF assms(2,3)]
      context_nonzero [OF assms(1,2)] by (auto simp: request_context_def)
qed

theorem request_contexts_distinct_witness:
  "request_context 7 (fst (request_run ex_ch [(ControlPing, False), (ControlPing, True)]) ! 0) \<noteq>
   request_context 7 (fst (request_run ex_ch [(ControlPing, False), (ControlPing, True)]) ! 1)"
  using request_contexts_distinct [of 7 8 0 "[(ControlPing, False), (ControlPing, True)]" 1 ex_ch
      "\<lparr>req_seqNum = 0, req_msg = ControlPing, req_multi = False\<rparr>"]
  by simp

text \<open>The message ids known to the identifier, and the errors it reports for the others.\<close>

definition known :: "'m msgIdentifier \<Rightarrow> 'm \<Rightarrow> bool" where
  "known mid m \<longleftrightarrow> (\<exists>i. id_GetMessageID mid m = Inr i)"

definition reports_unknown :: "'m msg_iface \<Rightarrow> 'm msgIdentifier \<Rightarrow> 'm \<Rightarrow> bool" where
  "reports_unknown mi mid m \<longleftrightarrow> known mid m \<or>
     id_GetMessageID mid m = Inl (UnknownMsgError (GetMessageName mi m) (GetCrcString mi m))"

lemma checkCompat_loop_eq:
  "list_all (reports_unknown mi mid) ms \<Longrightarrow>
   checkCompat_loop mi mid ms good bad =
     (let good' = good @ map (getMsgNameWithCrc mi) (filter (known mid) ms);
          bad' = bad @ map (getMsgNameWithCrc mi) (filter (Not \<circ> known mid) ms)
      in if bad' = [] then None else Some (CompatibilityError good' bad'))"
proof (induction ms arbitrary: good bad)
  case (Cons m ms)
  then show ?case
    by (cases "id_GetMessageID mid m") (auto simp: reports_unknown_def known_def getMsgNameWithCrc_def Let_def)
qed simp

lemma checkCompat_other_error:
  "id_GetMessageID mid m = Inl e \<Longrightarrow> (\<forall>a b. e \<noteq> UnknownMsgError a b) \<Longrightarrow> list_all (reports_unknown mi mid) ms \<Longrightarrow>
   checkCompat_loop mi mid (ms @ m # rest) good bad = Some e"
proof (induction ms arbitrary: good bad)
  case Nil
  then show ?case
    by (cases e) auto
next
  case (Cons x xs)
  then show ?case
    by (cases "id_GetMessageID mid x") (auto simp: reports_unknown_def known_def)
qed

text \<open>
  \<open>CheckCompatiblity\<close> succeeds exactly when the adapter knows every message; otherwise
  the error lists, in the order given, the compatible and the incompatible messages by name and
  checksum. An error of another kind ends the check and is returned as it is.
\<close>

theorem CheckCompatiblity_result:
  assumes "list_all (reports_unknown mi mid) msgs"
  shows "CheckCompatiblity mi mid msgs =
       (if list_all (known mid) msgs then None
        else Some (CompatibilityError (map (getMsgNameWithCrc mi) (filter (known mid) msgs))
                     (map (getMsgNameWithCrc mi) (filter (Not \<circ> known mid) msgs)))) \<and>
     (id_GetMessageID mid m = Inl e \<and> (\<forall>a b. e \<noteq> UnknownMsgError a b) \<longrightarrow>
        CheckCompatiblity mi mid (msgs @ m # rest) = Some e)"
  using checkCompat_loop_eq [OF assms, of "[]" "[]"] checkCompat_other_error [OF _ _ assms]
  by (auto simp: CheckCompatiblity_def filter_empty_conv list_all_iff)

theorem CheckCompatiblity_result_witness:
  "CheckCompatiblity memclnt ex_ids [ControlPing, SockclntDelete 3] =
     Some (CompatibilityError [''control_ping_51077d14''] [''sockclnt_delete_8ac76db6''])"
  using CheckCompatiblity_result [of memclnt ex_ids "[ControlPing, SockclntDelete 3]" ControlPing ErrClosed "[]"]
  by (simp add: reports_unknown_def known_def ex_ids_def getMsgNameWithCrc_def getMsgID_def)

end
