(* ===== verification/CoreTrace.thy ===== *)
theory CoreTrace
  imports GoChan "HOL-Library.Multiset"
begin

text \<open>
  The API tracer of \<open>core/trace.go\<close>: records are announced (\<open>registerNew\<close> adds to the wait
  group), sent into a buffered Go channel, and stored by a consumer goroutine, which then releases
  the wait group; \<open>GetRecords\<close> waits for the group and returns the stored records by time. The
  consumer is a step of its own, so every interleaving is a sequence of operations. A sender on a
  full buffer waits for the consumer to take a record. \<open>sort.Slice\<close> leaves the order of equal
  timestamps open; the model keeps theirs.
\<close>

record 'm Record =
  tr_Message :: "'m option"
  tr_Timestamp :: int
  tr_IsReceived :: bool
  tr_ChannelID :: u16
  tr_Succeeded :: bool

record 'm Trace =
  t_wg :: int
  t_records :: "'m Record option list"
  t_buffer :: "'m Record gochan"
  t_index :: nat

definition bufferSize :: nat where
  "bufferSize = 100"

definition NewTrace :: "nat \<Rightarrow> 'm Trace" where
  "NewTrace sz = \<lparr>t_wg = 0, t_records = replicate sz None,
     t_buffer = \<lparr>gc_cap = bufferSize, gc_queue = [], gc_closed = False\<rparr>, t_index = 0\<rparr>"

text \<open>One round of the consumer goroutine; \<open>None\<close> when it has nothing to take.\<close>

definition trace_consume :: "'m Trace \<Rightarrow> 'm Trace option" where
  "trace_consume t =
     (case chan_recv (Some (t_buffer t)) of
        Received r g \<Rightarrow>
          (let t1 = t\<lparr>t_buffer := g\<rparr>;
               t2 = (if t_index t1 < length (t_records t1)
                     then t1\<lparr>t_records := (t_records t1)[t_index t1 := Some r], t_index := t_index t1 + 1\<rparr>
                     else t1)
           in Some (t2\<lparr>t_wg := t_wg t2 - 1\<rparr>))
      | _ \<Rightarrow> None)"

definition trace_registerNew :: "'m Trace option \<Rightarrow> 'm Trace option" where
  "trace_registerNew t = map_option (\<lambda>t. t\<lparr>t_wg := t_wg t + 1\<rparr>) t"

definition trace_push :: "'m Record \<Rightarrow> 'm Trace \<Rightarrow> 'm Trace" where
  "trace_push r t =
     (case chan_send (Some (t_buffer t)) r of
        Sent g \<Rightarrow> t\<lparr>t_buffer := g\<rparr>
      | _ \<Rightarrow> t)"

definition trace_send :: "'m Record \<Rightarrow> 'm Trace option \<Rightarrow> 'm Trace option" where
  "trace_send r t = map_option (\<lambda>t.
     trace_push r (if length (gc_queue (t_buffer t)) < gc_cap (t_buffer t) then t
                   else case trace_consume t of Some t' \<Rightarrow> t' | None \<Rightarrow> t)) t"

text \<open>\<open>None\<close>: the call is blocked in \<open>wg.Wait\<close>.\<close>

definition GetRecords :: "'m Trace \<Rightarrow> 'm Record list option" where
  "GetRecords t =
     (if t_wg t = 0
      then Some (sort_key tr_Timestamp (map the (take (t_index t) (t_records t)))) else None)"

definition GetRecordsForChannel :: "u16 \<Rightarrow> 'm Trace \<Rightarrow> 'm Record list option" where
  "GetRecordsForChannel chId t = map_option (filter (\<lambda>r. tr_ChannelID r = chId)) (GetRecords t)"

definition trace_Clear :: "'m Trace \<Rightarrow> 'm Trace" where
  "trace_Clear t = t\<lparr>t_records := replicate (length (t_records t)) None, t_index := 0\<rparr>"

section \<open>Reachable traces\<close>

text \<open>
  The state of a trace with two ghost components: how many records were announced and not yet sent,
  and the records sent since the trace was created or cleared. A \<open>Clear\<close> also forgets records
  still in the buffer as far as the ghost list goes back.
\<close>

record 'm trace_state =
  ts_trace :: "'m Trace"
  ts_unsent :: nat
  ts_sent :: "'m Record list"

inductive trace_step :: "'m trace_state \<Rightarrow> 'm trace_state \<Rightarrow> bool" where
  ts_register: "trace_registerNew (Some (ts_trace s)) = Some t \<Longrightarrow>
    trace_step s (s\<lparr>ts_trace := t, ts_unsent := ts_unsent s + 1\<rparr>)"
| ts_send: "ts_unsent s = Suc n \<Longrightarrow> trace_send r (Some (ts_trace s)) = Some t \<Longrightarrow>
    trace_step s (s\<lparr>ts_trace := t, ts_unsent := n, ts_sent := ts_sent s @ [r]\<rparr>)"
| ts_consume: "trace_consume (ts_trace s) = Some t \<Longrightarrow> trace_step s (s\<lparr>ts_trace := t\<rparr>)"
| ts_clear: "trace_step s (s\<lparr>ts_trace := trace_Clear (ts_trace s), ts_sent := gc_queue (t_buffer (ts_trace s))\<rparr>)"

inductive_cases trace_stepE: "trace_step s s'"

definition trace_inv :: "'m trace_state \<Rightarrow> bool" where
  "trace_inv s \<longleftrightarrow> (let t = ts_trace s; q = gc_queue (t_buffer t) in
     \<not> gc_closed (t_buffer t) \<and> gc_cap (t_buffer t) = bufferSize \<and> length q \<le> bufferSize \<and>
     t_wg t = int (ts_unsent s) + int (length q) \<and>
     (\<exists>done. ts_sent s = done @ q \<and> t_index t = min (length done) (length (t_records t)) \<and>
        take (t_index t) (t_records t) = map Some (take (t_index t) done)))"

definition trace_start :: "nat \<Rightarrow> 'm trace_state" where
  "trace_start sz = \<lparr>ts_trace = NewTrace sz, ts_unsent = 0, ts_sent = []\<rparr>"

lemma trace_inv_start: "trace_inv (trace_start sz)"
  by (simp add: trace_inv_def trace_start_def NewTrace_def bufferSize_def)

lemma trace_consume_inv:
  assumes "trace_inv s" and "trace_consume (ts_trace s) = Some t"
  shows "trace_inv (s\<lparr>ts_trace := t\<rparr>) \<and> length (gc_queue (t_buffer t)) < length (gc_queue (t_buffer (ts_trace s)))"
proof -
  let ?t = "ts_trace s"
  obtain r q where q: "gc_queue (t_buffer ?t) = r # q"
    using assms(2) by (cases "gc_queue (t_buffer ?t)") (auto simp: trace_consume_def chan_recv_def split: if_splits)
  obtain dn where d: "ts_sent s = dn @ r # q" "t_index ?t = min (length dn) (length (t_records ?t))"
      "take (t_index ?t) (t_records ?t) = map Some (take (t_index ?t) dn)"
    using assms(1) q by (auto simp: trace_inv_def Let_def)
  have t: "t = (let t1 = ?t\<lparr>t_buffer := (t_buffer ?t)\<lparr>gc_queue := q\<rparr>\<rparr>;
      t2 = (if t_index ?t < length (t_records ?t)
            then t1\<lparr>t_records := (t_records ?t)[t_index ?t := Some r], t_index := t_index ?t + 1\<rparr> else t1)
      in t2\<lparr>t_wg := t_wg ?t - 1\<rparr>)"
    using assms(2) q by (auto simp: trace_consume_def chan_recv_def Let_def)
  have "\<exists>d. ts_sent s = d @ q \<and> t_index t = min (length d) (length (t_records t)) \<and>
      take (t_index t) (t_records t) = map Some (take (t_index t) d)"
  proof (intro exI [of _ "dn @ [r]"] conjI)
    show "ts_sent s = (dn @ [r]) @ q"
      using d by simp
    show "t_index t = min (length (dn @ [r])) (length (t_records t))"
      using d(2) by (auto simp: t Let_def)
    show "take (t_index t) (t_records t) = map Some (take (t_index t) (dn @ [r]))"
    proof (cases "t_index ?t < length (t_records ?t)")
      case True
      then show ?thesis
        using d by (simp add: t Let_def take_Suc_conv_app_nth)
    next
      case False
      then show ?thesis
        using d by (simp add: t Let_def)
    qed
  qed
  moreover have "\<not> gc_closed (t_buffer ?t)" "gc_cap (t_buffer ?t) = bufferSize"
      "length (r # q) \<le> bufferSize" "t_wg ?t = int (ts_unsent s) + int (length (r # q))"
    using assms(1) q by (simp_all add: trace_inv_def Let_def)
  moreover have "t_buffer t = (t_buffer ?t)\<lparr>gc_queue := q\<rparr>" "t_wg t = t_wg ?t - 1"
    by (simp_all add: t Let_def)
  ultimately show ?thesis
    using q by (simp add: trace_inv_def)
qed

lemma trace_push_inv:
  assumes "trace_inv s" "length (gc_queue (t_buffer (ts_trace s))) < bufferSize" "ts_unsent s = Suc n"
  shows "trace_inv (s\<lparr>ts_trace := trace_push r (ts_trace s), ts_unsent := n, ts_sent := ts_sent s @ [r]\<rparr>)"
  using assms by (auto simp: trace_inv_def Let_def trace_push_def chan_send_def)

lemma trace_step_inv: "trace_step s s' \<Longrightarrow> trace_inv s \<Longrightarrow> trace_inv s'"
proof (induction rule: trace_step.induct)
  case (ts_register s t)
  then show ?case
    by (auto simp: trace_inv_def Let_def trace_registerNew_def)
next
  case (ts_send s n r t)
  show ?case
  proof (cases "length (gc_queue (t_buffer (ts_trace s))) < bufferSize")
    case True
    then show ?thesis
      using ts_send trace_push_inv [of s n r] by (simp add: trace_send_def trace_inv_def Let_def)
  next
    case False
    have cap: "gc_cap (t_buffer (ts_trace s)) = bufferSize" "length (gc_queue (t_buffer (ts_trace s))) \<le> bufferSize"
      using ts_send.prems by (simp_all add: trace_inv_def Let_def)
    then have "gc_queue (t_buffer (ts_trace s)) \<noteq> []"
      using False by (auto simp: bufferSize_def)
    then obtain t1 where t1: "trace_consume (ts_trace s) = Some t1"
      by (cases "gc_queue (t_buffer (ts_trace s))") (auto simp: trace_consume_def chan_recv_def Let_def)
    have "trace_inv (s\<lparr>ts_trace := t1\<rparr>)" "length (gc_queue (t_buffer t1)) < bufferSize"
      using trace_consume_inv [OF ts_send.prems t1] cap by auto
    then show ?thesis
      using trace_push_inv [of "s\<lparr>ts_trace := t1\<rparr>" n r] ts_send.hyps False cap t1 by (simp add: trace_send_def)
  qed
next
  case (ts_consume s t)
  then show ?case
    using trace_consume_inv by blast
next
  case (ts_clear s)
  then show ?case
    by (auto simp: trace_inv_def Let_def trace_Clear_def intro: exI [of _ "[]"])
qed

lemma trace_reachable_inv: "trace_step\<^sup>*\<^sup>* (trace_start sz) s \<Longrightarrow> trace_inv s"
  by (induction rule: rtranclp_induct) (auto intro: trace_inv_start trace_step_inv)

text \<open>
  In every reachable state of a trace of a given size, \<open>GetRecords\<close> returns exactly
  when every announced record was sent and stored; what it returns is, by increasing timestamp, a
  permutation of the first records sent since the start or the last \<open>Clear\<close>, as many as fit.
\<close>

theorem GetRecords_result:
  assumes "trace_step\<^sup>*\<^sup>* (trace_start sz) s"
  shows "(GetRecords (ts_trace s) = None \<longleftrightarrow> ts_unsent s > 0 \<or> gc_queue (t_buffer (ts_trace s)) \<noteq> []) \<and>
     (\<forall>l. GetRecords (ts_trace s) = Some l \<longrightarrow>
        sorted (map tr_Timestamp l) \<and>
        mset l = mset (take (length (t_records (ts_trace s))) (ts_sent s)))"
proof -
  let ?t = "ts_trace s" and ?n = "length (t_records (ts_trace s))"
  have inv: "trace_inv s"
    by (rule trace_reachable_inv [OF assms])
  have wg: "t_wg ?t = int (ts_unsent s) + int (length (gc_queue (t_buffer ?t)))"
    using inv by (simp add: trace_inv_def Let_def)
  obtain dn where d: "ts_sent s = dn @ gc_queue (t_buffer ?t)" "t_index ?t = min (length dn) ?n"
      "take (t_index ?t) (t_records ?t) = map Some (take (t_index ?t) dn)"
    using inv by (auto simp: trace_inv_def Let_def)
  have "sorted (map tr_Timestamp l) \<and> mset l = mset (take ?n (ts_sent s))"
    if "GetRecords ?t = Some l" for l
  proof -
    have z: "t_wg ?t = 0" and l: "l = sort_key tr_Timestamp (map the (take (t_index ?t) (t_records ?t)))"
      using that by (auto simp: GetRecords_def split: if_splits)
    have "length (gc_queue (t_buffer ?t)) = 0"
      using z wg by linarith
    then have "map the (take (t_index ?t) (t_records ?t)) = take ?n (ts_sent s)"
      using d by (simp add: min_def)
    then show ?thesis
      by (simp add: l)
  qed
  moreover have "t_wg ?t = 0 \<longleftrightarrow> ts_unsent s = 0 \<and> gc_queue (t_buffer ?t) = []"
    unfolding wg by (metis add_is_0 int_ops(1) length_0_conv of_nat_add of_nat_eq_iff)
  ultimately show ?thesis
    by (auto simp: GetRecords_def)
qed

lemma trace_step_register: "trace_step s (s\<lparr>ts_trace := (ts_trace s)\<lparr>t_wg := t_wg (ts_trace s) + 1\<rparr>,
    ts_unsent := ts_unsent s + 1\<rparr>)"
  by (rule ts_register) (simp add: trace_registerNew_def)

theorem GetRecords_result_witness:
  "\<exists>s :: nat trace_state. trace_step\<^sup>*\<^sup>* (trace_start 2) s \<and> ts_unsent s = 1 \<and> GetRecords (ts_trace s) = None"
proof -
  let ?s = "trace_start 2 :: nat trace_state"
  let ?s1 = "?s\<lparr>ts_trace := (ts_trace ?s)\<lparr>t_wg := t_wg (ts_trace ?s) + 1\<rparr>, ts_unsent := ts_unsent ?s + 1\<rparr>"
  have r: "trace_step\<^sup>*\<^sup>* (trace_start 2) ?s1"
    using trace_step_register [of ?s] by (rule r_into_rtranclp)
  have u: "ts_unsent ?s1 = 1"
    by (simp add: trace_start_def)
  show ?thesis
    using GetRecords_result [OF r] r u by (intro exI [of _ ?s1]) simp
qed

inductive other_step :: "nat \<Rightarrow> 'm trace_state \<Rightarrow> 'm trace_state \<Rightarrow> bool" for k where
  "trace_step s s' \<Longrightarrow> k \<le> ts_unsent s' \<Longrightarrow> other_step k s s'"

text \<open>
  An announcement that is never followed by its record (as \<open>msgCallback\<close> does when it
  cannot decode a traced message) blocks \<open>GetRecords\<close> for good: as long as the other users of the
  trace send what they announce, the wait group never drains again.
\<close>

theorem trace_unsent_blocks:
  assumes "trace_step\<^sup>*\<^sup>* (trace_start sz) s" and "0 < k" and "k \<le> ts_unsent s"
    and "(other_step k)\<^sup>*\<^sup>* s s'"
  shows "GetRecords (ts_trace s') = None"
proof -
  have "trace_step\<^sup>*\<^sup>* (trace_start sz) s' \<and> k \<le> ts_unsent s'"
    using assms(4)
  proof (induction rule: rtranclp_induct)
    case base
    then show ?case
      using assms(1,3) by blast
  next
    case (step y z)
    then show ?case
      by (auto elim!: other_step.cases)
  qed
  then show ?thesis
    using trace_reachable_inv [of sz s'] assms(2) by (auto simp: GetRecords_def trace_inv_def Let_def)
qed

theorem trace_unsent_blocks_witness:
  "\<exists>s s' :: nat trace_state. (other_step 1)\<^sup>*\<^sup>* s s' \<and> ts_unsent s' = 2 \<and> GetRecords (ts_trace s') = None"
proof -
  let ?s = "trace_start 2 :: nat trace_state"
  let ?s1 = "?s\<lparr>ts_trace := (ts_trace ?s)\<lparr>t_wg := t_wg (ts_trace ?s) + 1\<rparr>, ts_unsent := ts_unsent ?s + 1\<rparr>"
  let ?s2 = "?s1\<lparr>ts_trace := (ts_trace ?s1)\<lparr>t_wg := t_wg (ts_trace ?s1) + 1\<rparr>, ts_unsent := ts_unsent ?s1 + 1\<rparr>"
  have r: "trace_step\<^sup>*\<^sup>* (trace_start 2) ?s1"
    using trace_step_register [of ?s] by (rule r_into_rtranclp)
  have o1: "(other_step 1)\<^sup>*\<^sup>* ?s1 ?s2"
    by (intro r_into_rtranclp other_step.intros trace_step_register) simp
  have "GetRecords (ts_trace ?s2) = None"
    by (rule trace_unsent_blocks [OF r _ _ o1]) (simp_all add: trace_start_def)
  moreover have "ts_unsent ?s2 = 2"
    by (simp add: trace_start_def)
  ultimately show ?thesis
    using o1 by blast
qed

end
