(* ===== verification/IdPool.thy ===== *)
theory IdPool
  imports GovppPrelude "HOL-Library.Multiset"
begin

text \<open>
  The pool of channel ids of \<open>core/channel.go\<close>: a FIFO of free ids. The locale \<open>id_pool\<close> is what a
  connection relies on: an id handed out was free and is free no longer, an id put back becomes
  free again, and \<open>Get\<close> fails only when nothing is free. That the ids in use and the free ids
  partition \<open>1 .. maxID\<close> is proved from these laws, and holds in every state reachable by
  \<open>Get\<close> and \<open>Put\<close> when only ids in use are put back.
\<close>

type_synonym idPool = "u16 list"

lemma unat_inc_below: "i < n \<Longrightarrow> unat (i + 1) = Suc (unat (i :: u16))"
  using unsigned_less [of n, where 'a = nat] by (simp add: unat_word_ariths(1) word_less_nat_alt)

text \<open>\<open>make([]uint16, maxID)\<close>, filled by a loop over a \<open>uint16\<close> counter.\<close>

function newIDPool_loop :: "u16 \<Rightarrow> u16 \<Rightarrow> u16 list \<Rightarrow> u16 list" where
  "newIDPool_loop maxID i ids =
     (if i < maxID then newIDPool_loop maxID (i + 1) (ids[unat i := i + 1]) else ids)"
  by auto

termination
  by (relation "measure (\<lambda>(maxID, i, ids). unat maxID - unat i)")
    (auto simp: unat_inc_below word_less_nat_alt)

declare newIDPool_loop.simps [simp del]

definition newIDPool :: "u16 \<Rightarrow> idPool" where
  "newIDPool maxID = newIDPool_loop maxID 0 (replicate (unat maxID) 0)"

definition idPool_Get :: "idPool \<Rightarrow> (gerr + u16) \<times> idPool" where
  "idPool_Get p =
     (case p of [] \<Rightarrow> (Inl (ErrMsg ''no more IDs available''), p)
      | x # ids \<Rightarrow> (Inr x, ids))"

definition idPool_Put :: "u16 \<Rightarrow> idPool \<Rightarrow> idPool" where
  "idPool_Put x p = p @ [x]"

section \<open>The contract of an id pool\<close>

locale id_pool =
  fixes get :: "'p \<Rightarrow> (gerr + 'i) \<times> 'p"
    and put :: "'i \<Rightarrow> 'p \<Rightarrow> 'p"
    and free :: "'p \<Rightarrow> 'i multiset"
  assumes get_ok: "get p = (Inr i, p') \<Longrightarrow> free p = add_mset i (free p')"
    and get_fails: "get p = (Inl e, p') \<Longrightarrow> free p = {#} \<and> p' = p"
    and put_free: "free (put i p) = add_mset i (free p)"

begin

lemma get_succeeds: "free p \<noteq> {#} \<Longrightarrow> \<exists>i p'. get p = (Inr i, p') \<and> i \<in># free p"
  by (metis get_fails get_ok sum.exhaust surj_pair union_single_eq_member)

text \<open>The free ids and the ids in use are disjoint and make up the whole range.\<close>

definition partitions :: "'i set \<Rightarrow> 'p \<Rightarrow> 'i set \<Rightarrow> bool" where
  "partitions ids p used \<longleftrightarrow> finite ids \<and> used \<subseteq> ids \<and> free p + mset_set used = mset_set ids"

lemma partitions_free:
  assumes "partitions ids p used"
  shows "free p = mset_set (ids - used)"
proof -
  have "mset_set ids = mset_set (ids - used) + mset_set used"
    using assms by (metis Un_Diff_cancel2 Diff_disjoint Int_commute finite_Diff finite_subset mset_set_Union
        partitions_def sup.absorb1)
  then show ?thesis
    using assms by (simp add: partitions_def)
qed

lemma partitions_get:
  assumes p: "partitions ids p used" and g: "get p = (Inr i, p')"
  shows "i \<in> ids \<and> i \<notin> used \<and> partitions ids p' (insert i used)"
proof -
  have fin: "finite used" "finite ids"
    using p finite_subset by (auto simp: partitions_def)
  have i: "i \<in># mset_set (ids - used)"
    using get_ok [OF g] partitions_free [OF p] by simp
  then have "i \<in> ids - used"
    using fin by simp
  moreover have "free p' + mset_set (insert i used) = mset_set ids"
    using get_ok [OF g] p fin \<open>i \<in> ids - used\<close> by (simp add: partitions_def)
  ultimately show ?thesis
    using p by (simp add: partitions_def)
qed

lemma partitions_put:
  assumes p: "partitions ids p used" and i: "i \<in> used"
  shows "partitions ids (put i p) (used - {i})"
proof -
  have "finite used"
    using p finite_subset by (auto simp: partitions_def)
  then have "mset_set used = add_mset i (mset_set (used - {i}))"
    using i by (simp add: mset_set.remove)
  then show ?thesis
    using p put_free [of i p] by (auto simp: partitions_def)
qed

end

interpretation idp: id_pool idPool_Get idPool_Put mset
  by unfold_locales (auto simp: idPool_Get_def idPool_Put_def split: list.splits)

section \<open>The initial pool\<close>

lemma newIDPool_loop_eq:
  "unat i \<le> unat maxID \<Longrightarrow> length ids = unat maxID \<Longrightarrow>
   newIDPool_loop maxID i ids =
     take (unat i) ids @ map word_of_nat [Suc (unat i)..<Suc (unat maxID)]"
proof (induction maxID i ids rule: newIDPool_loop.induct)
  case (1 maxID i ids)
  show ?case
  proof (cases "i < maxID")
    case True
    then have lt: "unat i < unat maxID"
      by (simp add: word_less_nat_alt)
    have s: "unat (i + 1) = Suc (unat i)"
      by (rule unat_inc_below [OF True])
    have w: "i + 1 = word_of_nat (Suc (unat i))"
      by simp
    have "newIDPool_loop maxID (i + 1) (ids[unat i := i + 1]) =
        take (Suc (unat i)) (ids[unat i := i + 1]) @ map word_of_nat [Suc (Suc (unat i))..<Suc (unat maxID)]"
      using 1 True lt by (simp add: s)
    also have "take (Suc (unat i)) (ids[unat i := i + 1]) = take (unat i) ids @ [i + 1]"
      using lt 1 by (simp add: take_Suc_conv_app_nth)
    moreover have "map word_of_nat [Suc (unat i)..<Suc (unat maxID)] =
        (i + 1) # map word_of_nat [Suc (Suc (unat i))..<Suc (unat maxID)]"
      using lt unfolding w by (subst upt_conv_Cons) auto
    then show ?thesis
      using True calculation by (simp add: newIDPool_loop.simps [of maxID i])
  next
    case False
    then have "unat i = unat maxID"
      using 1 by (simp add: word_less_nat_alt)
    then show ?thesis
      using 1 False by (simp add: newIDPool_loop.simps [of maxID i])
  qed
qed

lemma newIDPool_eq: "newIDPool maxID = map word_of_nat [1..<Suc (unat maxID)]"
  by (simp add: newIDPool_def newIDPool_loop_eq)

lemma newIDPool_set: "set (newIDPool maxID) = {1..maxID}"
proof -
  have "x \<in> {1..maxID} \<longleftrightarrow> x \<in> word_of_nat ` {1..<Suc (unat maxID)}" for x
  proof
    assume "x \<in> {1..maxID}"
    then have "unat x \<in> {1..<Suc (unat maxID)}"
      by (auto simp: word_le_nat_alt)
    then show "x \<in> word_of_nat ` {1..<Suc (unat maxID)}"
      by (intro image_eqI [of _ _ "unat x"]) simp_all
  next
    assume "x \<in> word_of_nat ` {1..<Suc (unat maxID)}"
    then obtain n where "x = word_of_nat n" "1 \<le> n" "n \<le> unat maxID"
      by auto
    then show "x \<in> {1..maxID}"
      using unsigned_less [of maxID, where 'a = nat] by (auto simp: word_le_nat_alt unat_of_nat)
  qed
  then show ?thesis
    unfolding newIDPool_eq set_map set_upt by blast
qed

lemma newIDPool_distinct: "distinct (newIDPool maxID)"
proof -
  have "inj_on (word_of_nat :: nat \<Rightarrow> u16) {1..<Suc (unat maxID)}"
    using unsigned_less [of maxID, where 'a = nat]
    by (auto intro!: inj_onI dest!: arg_cong [where f = unat] simp: unat_of_nat)
  then show ?thesis
    by (simp add: newIDPool_eq distinct_map del: upt_Suc)
qed

lemma newIDPool_partitions: "idp.partitions {1..maxID} (newIDPool maxID) {}"
  using mset_set_set [OF newIDPool_distinct [of maxID]]
  by (simp add: idp.partitions_def newIDPool_set)

section \<open>Reachable pools\<close>

inductive pool_step :: "idPool \<times> u16 set \<Rightarrow> idPool \<times> u16 set \<Rightarrow> bool" where
  pool_get: "idPool_Get p = (Inr i, p') \<Longrightarrow> pool_step (p, used) (p', insert i used)"
| pool_put: "i \<in> used \<Longrightarrow> pool_step (p, used) (idPool_Put i p, used - {i})"

inductive_cases pool_stepE: "pool_step (p, used) s"

lemma pool_step_partitions:
  "pool_step (p, used) (p', used') \<Longrightarrow> idp.partitions ids p used \<Longrightarrow> idp.partitions ids p' used'"
  by (auto elim!: pool_stepE dest: idp.partitions_get intro: idp.partitions_put)

lemma reachable_partitions:
  "pool_step\<^sup>*\<^sup>* (newIDPool maxID, {}) (p, used) \<Longrightarrow> idp.partitions {1..maxID} p used"
proof (induction "(p, used)" arbitrary: p used rule: rtranclp_induct)
  case base
  then show ?case
    by (auto intro: newIDPool_partitions)
next
  case (step s)
  then show ?case
    by (cases s) (auto intro: pool_step_partitions)
qed

text \<open>
  C23 (invariant). In every state reachable from a new pool by \<open>Get\<close> and by \<open>Put\<close> of ids in use, the
  free ids are exactly the ids of \<open>1 .. maxID\<close> that are not in use, each of them once; so no id is
  ever in use twice and id 0 is never handed out.
\<close>

theorem idPool_invariant:
  assumes "pool_step\<^sup>*\<^sup>* (newIDPool maxID, {}) (p, used)"
  shows "distinct p \<and> set p = {1..maxID} - used \<and> used \<subseteq> {1..maxID}"
proof -
  have p: "idp.partitions {1..maxID} p used"
    by (rule reachable_partitions [OF assms])
  then have m: "mset p = mset_set ({1..maxID} - used)"
    by (rule idp.partitions_free)
  then have "set p = {1..maxID} - used"
    by (metis finite_set_mset_mset_set finite set_mset_mset)
  moreover have "distinct p"
    using m by (metis calculation distinct_count_atmost_1 count_mset_set finite)
  ultimately show ?thesis
    using p by (auto simp: idp.partitions_def)
qed

theorem idPool_invariant_witness:
  "pool_step\<^sup>*\<^sup>* (newIDPool 2, {}) ([2], {1}) \<and> distinct [2 :: u16] \<and> set [2 :: u16] = {1..2} - {1}"
proof -
  have n: "newIDPool 2 = [1, 2]"
    by (simp add: newIDPool_eq upt_rec)
  have "pool_step ([1, 2], {}) ([2], {1})"
    using pool_get [of "[1, 2]" 1 "[2]" "{}"] by (simp add: idPool_Get_def)
  then have r: "pool_step\<^sup>*\<^sup>* (newIDPool 2, {}) ([2], {1})"
    unfolding n by blast
  then show ?thesis
    using idPool_invariant [OF r] by simp
qed

text \<open>
  \<open>Get\<close> hands out an id not in use as long as fewer than \<open>maxID\<close> ids are in use, and
  reports an error otherwise, leaving the pool as it is.
\<close>

theorem idPool_Get_available:
  assumes "pool_step\<^sup>*\<^sup>* (newIDPool maxID, {}) (p, used)"
  shows "if used = {1..maxID} then idPool_Get p = (Inl (ErrMsg ''no more IDs available''), p)
         else \<exists>i p'. idPool_Get p = (Inr i, p') \<and> i \<in> {1..maxID} - used"
proof (cases p)
  case Nil
  have "mset p = mset_set ({1..maxID} - used)" "used \<subseteq> {1..maxID}"
    using idp.partitions_free [OF reachable_partitions [OF assms]] reachable_partitions [OF assms]
    by (auto simp: idp.partitions_def)
  then show ?thesis
    using Nil by (auto simp: idPool_Get_def mset_set_empty_iff)
next
  case (Cons i p')
  then have g: "idPool_Get p = (Inr i, p')"
    by (simp add: idPool_Get_def)
  then show ?thesis
    using idp.partitions_get [OF reachable_partitions [OF assms] g] by auto
qed

theorem idPool_Get_available_witness:
  "\<exists>i p'. idPool_Get (newIDPool 0x7fff) = (Inr i, p') \<and> i \<in> {1..0x7fff}"
  using idPool_Get_available [of "0x7fff" "newIDPool 0x7fff" "{}"] by auto

end
