(* ===== verification/CoreConn.thy ===== *)
theory CoreConn
  imports CoreChannel CoreTrace IdPool
begin

text \<open>
  The connection of \<open>core/connection.go\<close> and the request and reply handling of
  \<open>core/request_handler.go\<close>. Channels and subscriptions are shared by pointer, so they live in a
  store and are named by references; Go maps are maps, and where the code ranges over a map the
  order is an argument. The VPP adapter is an interface with a state of its own.

  Nondeterminism of the runtime is made explicit by arguments: what \<open>sync.Pool\<close> hands out, how many
  replies a receiver takes while a sender waits on a full channel, the current time, and the spare
  capacity of a copied slice. A panic is \<open>None\<close>. The goroutine that returns a channel to the pool
  is a step of its own (\<open>run_pool_put\<close>). Logging is left out.
\<close>

type_synonym ref = nat

datatype ConnectionState = Connected | NotResponding | Disconnected | Failed

definition ConnectionState_String :: "ConnectionState \<Rightarrow> string" where
  "ConnectionState_String s =
     (case s of Connected \<Rightarrow> ''Connected'' | NotResponding \<Rightarrow> ''NotResponding''
      | Disconnected \<Rightarrow> ''Disconnected'' | Failed \<Rightarrow> ''Failed'')"

record ConnectionEvent =
  ev_Timestamp :: int
  ev_State :: ConnectionState
  ev_Error :: "gerr option"

record 'a vpp_api =
  api_Connect :: "'a \<Rightarrow> gerr option \<times> 'a"
  api_Disconnect :: "'a \<Rightarrow> gerr option \<times> 'a"
  api_WaitReady :: "'a \<Rightarrow> gerr option \<times> 'a"
  api_GetMsgID :: "'a \<Rightarrow> string \<Rightarrow> string \<Rightarrow> gerr + u16"
  api_SendMsg :: "'a \<Rightarrow> u32 \<Rightarrow> byte list \<Rightarrow> gerr option \<times> 'a"

record 'm subscriptionCtx =
  sub_ref :: ref
  sub_notifChan :: ref
  sub_msgID :: u16
  sub_event :: 'm

record ('m, 'a) Connection =
  vppClient :: 'a
  maxAttempts :: int
  recInterval :: int
  vppConnected :: bool
  connChan :: "ConnectionEvent gochan"
  healthCheckDone :: bool
  backgroundLoopActive :: bool
  async :: bool
  msgMapByPath :: "string \<rightharpoonup> (u16 \<rightharpoonup> 'm)"
  chan_store :: "ref \<rightharpoonup> 'm Channel"
  channels :: "u16 \<rightharpoonup> ref"
  channelPool :: "ref list"
  pool_puts :: "ref list"
  channelIdPool :: idPool
  subscriptions :: "u16 \<rightharpoonup> 'm subscriptionCtx list"
  notif_store :: "ref \<rightharpoonup> 'm gochan"
  next_ref :: ref
  pingReqID :: u16
  pingReplyID :: u16
  lastReply :: int
  msgControlPing :: 'm
  msgControlPingReply :: 'm
  conn_trace :: "'m Trace option"

section \<open>Creating a connection\<close>

definition DefaultMaxReconnectAttempts :: int where "DefaultMaxReconnectAttempts = 3"
definition DefaultReconnectInterval :: int where "DefaultReconnectInterval = 500000000"
definition RequestChanBufSize :: nat where "RequestChanBufSize = 100"
definition ReplyChanBufSize :: nat where "ReplyChanBufSize = 100"
definition NotificationChanBufSize :: nat where "NotificationChanBufSize = 100"
definition DefaultReplyTimeout :: int where "DefaultReplyTimeout = 0"
definition ReplyChannelTimeout :: int where "ReplyChannelTimeout = 100000000"

text \<open>The two ping messages are package variables set by the application.\<close>

definition newConnection ::
  "'m \<Rightarrow> 'm \<Rightarrow> 'a \<Rightarrow> int \<Rightarrow> int \<Rightarrow> bool \<Rightarrow> ('m, 'a) Connection" where
  "newConnection ping pingReply binapi attempts interval async0 =
     \<lparr>vppClient = binapi,
      maxAttempts = (if attempts = 0 then DefaultMaxReconnectAttempts else attempts),
      recInterval = (if interval = 0 then DefaultReconnectInterval else interval),
      vppConnected = False,
      connChan = \<lparr>gc_cap = NotificationChanBufSize, gc_queue = [], gc_closed = False\<rparr>,
      healthCheckDone = False, backgroundLoopActive = False, async = async0,
      msgMapByPath = Map.empty, chan_store = Map.empty, channels = Map.empty,
      channelPool = [], pool_puts = [], channelIdPool = newIDPool 0x7fff,
      subscriptions = Map.empty, notif_store = Map.empty, next_ref = 0,
      pingReqID = 0, pingReplyID = 0, lastReply = 0,
      msgControlPing = ping, msgControlPingReply = pingReply, conn_trace = None\<rparr>"

definition GetMessageID ::
  "'m msg_iface \<Rightarrow> 'a vpp_api \<Rightarrow> ('m, 'a) Connection option \<Rightarrow> 'm \<Rightarrow> gerr + u16" where
  "GetMessageID mi api c msg =
     (case c of None \<Rightarrow> Inl (ErrMsg ''nil connection passed in'')
      | Some c \<Rightarrow> api_GetMsgID api (vppClient c) (GetMessageName mi msg) (GetCrcString mi msg))"

definition LookupByID :: "('m, 'a) Connection option \<Rightarrow> string \<Rightarrow> u16 \<Rightarrow> gerr + 'm" where
  "LookupByID c path msgID =
     (case c of None \<Rightarrow> Inl (ErrMsg ''nil connection passed in'')
      | Some c \<Rightarrow>
         (case Option.bind (msgMapByPath c path) (\<lambda>t. t msgID) of
            Some msg \<Rightarrow> Inr msg
          | None \<Rightarrow> Inl (ErrMsg (''unknown message ID for path '' @ path))))"

definition GetMessagePath :: "'m msg_iface \<Rightarrow> 'm \<Rightarrow> string" where
  "GetMessagePath mi msg = msg_PkgPath mi msg"

text \<open>The connection as the message identifier of its channels.\<close>

definition conn_ids :: "'m msg_iface \<Rightarrow> 'a vpp_api \<Rightarrow> ('m, 'a) Connection \<Rightarrow> 'm msgIdentifier" where
  "conn_ids mi api c = \<lparr>id_GetMessageID = GetMessageID mi api (Some c),
     id_GetMessagePath = GetMessagePath mi, id_LookupByID = LookupByID (Some c)\<rparr>"

text \<open>
  \<open>retrieveMessageIDs\<close>: for each registered package path a fresh table of the messages the adapter
  knows; the messages with the names of the two ping messages set the ping ids and replace them.
\<close>

definition retrieve_one ::
  "'m msg_iface \<Rightarrow> 'a vpp_api \<Rightarrow> string \<Rightarrow> 'm \<Rightarrow> ('m, 'a) Connection \<Rightarrow> ('m, 'a) Connection" where
  "retrieve_one mi api path msg c =
     (case GetMessageID mi api (Some c) msg of
        Inl _ \<Rightarrow> c
      | Inr msgID \<Rightarrow>
         (let t = (case msgMapByPath c path of None \<Rightarrow> Map.empty | Some t \<Rightarrow> t);
              c1 = c\<lparr>msgMapByPath := (msgMapByPath c)(path \<mapsto> t(msgID \<mapsto> msg))\<rparr> in
          if GetMessageName mi msg = GetMessageName mi (msgControlPing c1)
          then c1\<lparr>pingReqID := msgID, msgControlPing := msg_New mi msg\<rparr>
          else if GetMessageName mi msg = GetMessageName mi (msgControlPingReply c1)
          then c1\<lparr>pingReplyID := msgID, msgControlPingReply := msg_New mi msg\<rparr>
          else c1))"

definition retrieve_path ::
  "'m msg_iface \<Rightarrow> 'a vpp_api \<Rightarrow> string \<times> 'm list \<Rightarrow> ('m, 'a) Connection \<Rightarrow> ('m, 'a) Connection" where
  "retrieve_path mi api e c =
     fold (retrieve_one mi api (fst e)) (snd e)
       (c\<lparr>msgMapByPath := (msgMapByPath c)(fst e \<mapsto> Map.empty)\<rparr>)"

definition retrieveMessageIDs ::
  "'m msg_iface \<Rightarrow> 'a vpp_api \<Rightarrow> (string \<times> 'm list) list \<Rightarrow> ('m, 'a) Connection \<Rightarrow>
     gerr option \<times> ('m, 'a) Connection" where
  "retrieveMessageIDs mi api regs c = (None, fold (retrieve_path mi api) regs c)"

definition connectVPP ::
  "'m msg_iface \<Rightarrow> 'a vpp_api \<Rightarrow> (string \<times> 'm list) list \<Rightarrow> ('m, 'a) Connection \<Rightarrow>
     gerr option \<times> ('m, 'a) Connection" where
  "connectVPP mi api regs c =
     (let (err, a) = api_Connect api (vppClient c); c1 = c\<lparr>vppClient := a\<rparr> in
      if err \<noteq> None then (err, c1)
      else (let (err2, c2) = retrieveMessageIDs mi api regs c1 in
        if err2 \<noteq> None
        then (let (_, a2) = api_Disconnect api (vppClient c2) in
              (Some (ErrMsg ''VPP is incompatible''), c2\<lparr>vppClient := a2\<rparr>))
        else (None, c2\<lparr>vppConnected := True\<rparr>)))"

definition Connect ::
  "'m msg_iface \<Rightarrow> 'a vpp_api \<Rightarrow> (string \<times> 'm list) list \<Rightarrow> 'm \<Rightarrow> 'm \<Rightarrow> 'a \<Rightarrow> gerr + ('m, 'a) Connection" where
  "Connect mi api regs ping pingReply binapi =
     (let c = newConnection ping pingReply binapi DefaultMaxReconnectAttempts DefaultReconnectInterval False in
      case connectVPP mi api regs c of
        (Some err, _) \<Rightarrow> Inl err
      | (None, c') \<Rightarrow> Inr c')"

definition disconnectVPP :: "'a vpp_api \<Rightarrow> ('m, 'a) Connection \<Rightarrow> ('m, 'a) Connection" where
  "disconnectVPP api c =
     (if vppConnected c
      then (let (_, a) = api_Disconnect api (vppClient c) in c\<lparr>vppConnected := False, vppClient := a\<rparr>)
      else c)"

text \<open>
  \<open>Disconnect\<close> of an asynchronous connection first closes \<open>healthCheckDone\<close> (guarded by the
  active flag, so that it is closed at most once) and waits for the background loop to exit; the
  wait is the caller's hypothesis here.
\<close>

definition Disconnect :: "'a vpp_api \<Rightarrow> ('m, 'a) Connection \<Rightarrow> ('m, 'a) Connection" where
  "Disconnect api c =
     (let c1 = (if async c \<and> backgroundLoopActive c
                then c\<lparr>backgroundLoopActive := False, healthCheckDone := True\<rparr> else c)
      in disconnectVPP api c1)"

text \<open>The connection state channel drops events when it is full.\<close>

definition sendConnEvent :: "ConnectionEvent \<Rightarrow> ('m, 'a) Connection \<Rightarrow> ('m, 'a) Connection" where
  "sendConnEvent ev c =
     (case chan_send (Some (connChan c)) ev of
        Sent g \<Rightarrow> c\<lparr>connChan := g\<rparr>
      | _ \<Rightarrow> c)"

section \<open>Opening and releasing channels\<close>

definition fresh_channel :: "'m Channel" where
  "fresh_channel = \<lparr>ch_id = 0, reqChan = make_chan RequestChanBufSize, replyChan = make_chan ReplyChanBufSize,
     lastSeqNum = 0, delayedReply = None, replyTimeout = DefaultReplyTimeout,
     receiveReplyTimeout = ReplyChannelTimeout\<rparr>"

text \<open>
  \<open>sync.Pool.Get\<close>: the pool may hand out any channel it holds, or none, and then a new one is made.
  It never hands out nil, so the branch of the caller for that case is left out.
\<close>

definition pool_get :: "nat option \<Rightarrow> ('m, 'a) Connection \<Rightarrow> ref \<times> ('m, 'a) Connection" where
  "pool_get pick c =
     (case pick of
        Some i \<Rightarrow> if i < length (channelPool c)
          then (channelPool c ! i, c\<lparr>channelPool := take i (channelPool c) @ drop (Suc i) (channelPool c)\<rparr>)
          else (next_ref c, c\<lparr>chan_store := (chan_store c)(next_ref c \<mapsto> fresh_channel), next_ref := next_ref c + 1\<rparr>)
      | None \<Rightarrow> (next_ref c, c\<lparr>chan_store := (chan_store c)(next_ref c \<mapsto> fresh_channel), next_ref := next_ref c + 1\<rparr>))"

definition prepare_channel :: "u16 \<Rightarrow> nat \<Rightarrow> nat \<Rightarrow> 'm Channel \<Rightarrow> 'm Channel" where
  "prepare_channel chID reqChanBufSize replyChanBufSize ch =
     (let ch1 = ch\<lparr>ch_id := chID\<rparr>;
          ch2 = (if chan_cap (reqChan ch1) \<noteq> reqChanBufSize then ch1\<lparr>reqChan := make_chan reqChanBufSize\<rparr> else ch1)
      in if chan_cap (replyChan ch2) \<noteq> replyChanBufSize then ch2\<lparr>replyChan := make_chan replyChanBufSize\<rparr> else ch2)"

definition newChannel ::
  "nat option \<Rightarrow> nat \<Rightarrow> nat \<Rightarrow> ('m, 'a) Connection \<Rightarrow> (gerr + ref) \<times> ('m, 'a) Connection" where
  "newChannel pick reqChanBufSize replyChanBufSize c =
     (case idPool_Get (channelIdPool c) of
        (Inl err, p) \<Rightarrow> (Inl err, c\<lparr>channelIdPool := p\<rparr>)
      | (Inr chID, p) \<Rightarrow>
         (let (r, c1) = pool_get pick (c\<lparr>channelIdPool := p\<rparr>) in
          (Inr r, c1\<lparr>chan_store := (chan_store c1)(r := map_option (prepare_channel chID reqChanBufSize replyChanBufSize)
                                                       (chan_store c1 r)),
                     channels := (channels c1)(chID \<mapsto> r)\<rparr>)))"

text \<open>\<open>newAPIChannel\<close> also starts the goroutine \<open>watchRequests\<close>, whose rounds are steps below.\<close>

definition newAPIChannel ::
  "nat option \<Rightarrow> nat \<Rightarrow> nat \<Rightarrow> ('m, 'a) Connection option \<Rightarrow> (gerr + ref) \<times> ('m, 'a) Connection option" where
  "newAPIChannel pick reqSize replySize c =
     (case c of None \<Rightarrow> (Inl (ErrMsg ''nil connection passed in''), None)
      | Some c \<Rightarrow> (let (res, c') = newChannel pick reqSize replySize c in (res, Some c')))"

definition releaseAPIChannel :: "ref \<Rightarrow> ('m, 'a) Connection \<Rightarrow> ('m, 'a) Connection" where
  "releaseAPIChannel r c =
     (case chan_store c r of None \<Rightarrow> c
      | Some ch \<Rightarrow> c\<lparr>channels := (channels c)(ch_id ch := None),
                    channelIdPool := idPool_Put (ch_id ch) (channelIdPool c),
                    pool_puts := pool_puts c @ [r]\<rparr>)"

text \<open>
  \<open>Reset\<close>: the loop takes buffered elements from either channel until both have none; a closed
  channel, once drained, is replaced by nil. Whatever order \<open>select\<close> picks, the result is this.
\<close>

definition drain_chan :: "'b gochan option \<Rightarrow> 'b gochan option" where
  "drain_chan c = (case c of None \<Rightarrow> None
     | Some g \<Rightarrow> if gc_closed g then None else Some (g\<lparr>gc_queue := []\<rparr>))"

definition Channel_Reset :: "'m Channel \<Rightarrow> 'm Channel" where
  "Channel_Reset ch = ch\<lparr>reqChan := drain_chan (reqChan ch), replyChan := drain_chan (replyChan ch)\<rparr>"

definition run_pool_put :: "('m, 'a) Connection \<Rightarrow> ('m, 'a) Connection" where
  "run_pool_put c =
     (case pool_puts c of [] \<Rightarrow> c
      | r # rs \<Rightarrow> c\<lparr>chan_store := (chan_store c)(r := map_option Channel_Reset (chan_store c r)),
                   channelPool := channelPool c @ [r], pool_puts := rs\<rparr>)"

end
