(* ===== verification/CoreHandler.thy ===== *)
theory CoreHandler
  imports CoreConn
begin

text \<open>
  Requests to VPP and messages from VPP (\<open>core/request_handler.go\<close>), and the subscriptions of
  \<open>core/channel.go\<close>. A round of \<open>watchRequests\<close>, the callback of the adapter and the subscription
  operations are functions on the connection; a panic is \<open>None\<close>.
\<close>

section \<open>Replies to a channel\<close>

text \<open>
  \<open>sendReply\<close>: if the reply channel is full and waiting is enabled, the receiver may take \<open>drained\<close>
  replies before the timer fires; then the reply is appended, otherwise it is dropped.
\<close>

definition sendReply :: "nat \<Rightarrow> vppReply \<Rightarrow> 'm Channel \<Rightarrow> 'm Channel option" where
  "sendReply drained reply ch =
     (case chan_send (replyChan ch) reply of
        Sent g \<Rightarrow> Some (ch\<lparr>replyChan := Some g\<rparr>)
      | SendPanics \<Rightarrow> None
      | SendBlocks \<Rightarrow>
          if receiveReplyTimeout ch = 0 then Some ch
          else (let later = map_option (\<lambda>g. g\<lparr>gc_queue := drop drained (gc_queue g)\<rparr>) (replyChan ch) in
            (case chan_send later reply of
               Sent g \<Rightarrow> Some (ch\<lparr>replyChan := Some g\<rparr>)
             | SendPanics \<Rightarrow> None
             | SendBlocks \<Rightarrow> Some (ch\<lparr>replyChan := later\<rparr>))))"

definition with_channel ::
  "ref \<Rightarrow> ('m Channel \<Rightarrow> 'm Channel option) \<Rightarrow> ('m, 'a) Connection \<Rightarrow> ('m, 'a) Connection option" where
  "with_channel r f c =
     (case chan_store c r of None \<Rightarrow> Some c
      | Some ch \<Rightarrow> map_option (\<lambda>ch'. c\<lparr>chan_store := (chan_store c)(r \<mapsto> ch')\<rparr>) (f ch))"

section \<open>Requests\<close>

definition trace_record :: "'m Record \<Rightarrow> ('m, 'a) Connection \<Rightarrow> ('m, 'a) Connection" where
  "trace_record r c = c\<lparr>conn_trace := trace_send r (conn_trace c)\<rparr>"

definition trace_announce :: "('m, 'a) Connection \<Rightarrow> ('m, 'a) Connection" where
  "trace_announce c = c\<lparr>conn_trace := trace_registerNew (conn_trace c)\<rparr>"

definition sent_record :: "'m \<Rightarrow> int \<Rightarrow> u16 \<Rightarrow> bool \<Rightarrow> 'm Record" where
  "sent_record m now chanID ok = \<lparr>tr_Message = Some m, tr_Timestamp = now, tr_IsReceived = False,
     tr_ChannelID = chanID, tr_Succeeded = ok\<rparr>"

text \<open>The control ping sent behind a multipart request marks the end of its replies.\<close>

definition send_ping ::
  "'m msg_iface \<Rightarrow> 'a vpp_api \<Rightarrow> int \<Rightarrow> u16 \<Rightarrow> u32 \<Rightarrow> ('m, 'a) Connection \<Rightarrow> ('m, 'a) Connection" where
  "send_ping mi api now chanID context c =
     (let pingData = (case EncodeMsg mi (Some (msgControlPing c)) (pingReqID c) of Inl _ \<Rightarrow> [] | Inr d \<Rightarrow> d);
          c1 = trace_announce c;
          (err, a) = api_SendMsg api (vppClient c1) context pingData
      in trace_record (sent_record (msgControlPing c1) now chanID (err = None)) (c1\<lparr>vppClient := a\<rparr>))"

definition processRequest ::
  "'m msg_iface \<Rightarrow> 'a vpp_api \<Rightarrow> int \<Rightarrow> u16 \<Rightarrow> 'm vppRequest \<Rightarrow> ('m, 'a) Connection \<Rightarrow>
     gerr option \<times> ('m, 'a) Connection" where
  "processRequest mi api now chanID req c =
     (if \<not> vppConnected c then (Some ErrNotConnected, c)
      else case GetMessageID mi api (Some c) (req_msg req) of
        Inl err \<Rightarrow> (Some err, c)
      | Inr msgID \<Rightarrow>
         (case EncodeMsg mi (Some (req_msg req)) msgID of
            Inl err \<Rightarrow> (Some err, c)
          | Inr data \<Rightarrow>
             (let context = packRequestContext chanID (req_multi req) (req_seqNum req);
                  c1 = trace_announce c;
                  (err, a) = api_SendMsg api (vppClient c1) context data;
                  c2 = trace_record (sent_record (req_msg req) now chanID (err = None)) (c1\<lparr>vppClient := a\<rparr>)
              in if err \<noteq> None then (err, c2)
                 else if req_multi req then (None, send_ping mi api now chanID context c2)
                 else (None, c2))))"

text \<open>One round of the goroutine \<open>watchRequests\<close> of a channel; it ends when it releases the channel.\<close>

datatype watch_status = WatchBlocked | WatchGoesOn | WatchEnds

definition watchRequests_round ::
  "'m msg_iface \<Rightarrow> 'a vpp_api \<Rightarrow> int \<Rightarrow> nat \<Rightarrow> ref \<Rightarrow> ('m, 'a) Connection \<Rightarrow>
     (watch_status \<times> ('m, 'a) Connection) option" where
  "watchRequests_round mi api now drained r c =
     (case chan_store c r of
        None \<Rightarrow> Some (WatchBlocked, c)
      | Some ch \<Rightarrow>
         (case chan_recv (reqChan ch) of
            RecvBlocks \<Rightarrow> Some (WatchBlocked, c)
          | RecvClosed \<Rightarrow> Some (WatchEnds, releaseAPIChannel r c)
          | Received req g \<Rightarrow>
             (let c1 = c\<lparr>chan_store := (chan_store c)(r \<mapsto> ch\<lparr>reqChan := Some g\<rparr>)\<rparr>;
                  (err, c2) = processRequest mi api now (ch_id ch) req c1 in
              (case err of
                 None \<Rightarrow> Some (WatchGoesOn, c2)
               | Some e \<Rightarrow> map_option (Pair WatchGoesOn)
                   (with_channel r (sendReply drained
                      \<lparr>rep_seqNum = req_seqNum req, rep_msgID = 0, rep_data = [], rep_spare = [],
                       rep_lastReceived = False, rep_err = Some (ErrWrap ''unable to process request'' e)\<rparr>) c2)))))"

section \<open>Messages from VPP\<close>

text \<open>The order in which the range over the paths visits them is the argument \<open>paths\<close>.\<close>

fun find_message :: "('m, 'a) Connection \<Rightarrow> u16 \<Rightarrow> string list \<Rightarrow> 'm option" where
  "find_message c msgID [] = None"
| "find_message c msgID (p # ps) =
     (case Option.bind (msgMapByPath c p) (\<lambda>t. t msgID) of Some m \<Rightarrow> Some m | None \<Rightarrow> find_message c msgID ps)"

definition getMessageByID :: "string list \<Rightarrow> u16 \<Rightarrow> ('m, 'a) Connection \<Rightarrow> gerr + 'm" where
  "getMessageByID paths msgID c =
     (case find_message c msgID paths of
        Some m \<Rightarrow> Inr m | None \<Rightarrow> Inl (ErrMsg ''unknown message received''))"

definition isNotificationMessage :: "u16 \<Rightarrow> ('m, 'a) Connection \<Rightarrow> bool" where
  "isNotificationMessage msgID c \<longleftrightarrow> subscriptions c msgID \<noteq> None"

text \<open>One subscriber: decode into a new event, then deliver it if its channel has room.\<close>

definition notify_one ::
  "'m msg_iface \<Rightarrow> byte list \<Rightarrow> byte list \<Rightarrow> 'm subscriptionCtx \<Rightarrow> ('m, 'a) Connection \<Rightarrow>
     ('m, 'a) Connection option" where
  "notify_one mi data spare sub c =
     (case DecodeMsg mi data spare (Some (msg_New mi (sub_event sub))) of
        Inl _ \<Rightarrow> Some c
      | Inr event \<Rightarrow>
         (case chan_send (notif_store c (sub_notifChan sub)) event of
            Sent g \<Rightarrow> Some (c\<lparr>notif_store := (notif_store c)(sub_notifChan sub \<mapsto> g)\<rparr>)
          | SendBlocks \<Rightarrow> Some c
          | SendPanics \<Rightarrow> None))"

fun notify_all ::
  "'m msg_iface \<Rightarrow> byte list \<Rightarrow> byte list \<Rightarrow> 'm subscriptionCtx list \<Rightarrow> ('m, 'a) Connection \<Rightarrow>
     ('m, 'a) Connection option" where
  "notify_all mi data spare [] c = Some c"
| "notify_all mi data spare (s # ss) c = do { c' \<leftarrow> notify_one mi data spare s c; notify_all mi data spare ss c' }"

definition subs_of :: "('m, 'a) Connection \<Rightarrow> u16 \<Rightarrow> 'm subscriptionCtx list" where
  "subs_of c msgID = (case subscriptions c msgID of None \<Rightarrow> [] | Some ss \<Rightarrow> ss)"

definition sendNotifications ::
  "'m msg_iface \<Rightarrow> u16 \<Rightarrow> byte list \<Rightarrow> byte list \<Rightarrow> ('m, 'a) Connection \<Rightarrow> ('m, 'a) Connection option" where
  "sendNotifications mi msgID data spare c = notify_all mi data spare (subs_of c msgID) c"

definition trace_received ::
  "'m msg_iface \<Rightarrow> int \<Rightarrow> u16 \<Rightarrow> 'm \<Rightarrow> byte list \<Rightarrow> byte list \<Rightarrow> ('m, 'a) Connection \<Rightarrow> ('m, 'a) Connection" where
  "trace_received mi now chanID msg data spare c =
     (if conn_trace c = None then c
      else (let c1 = trace_announce c in
        case DecodeMsg mi data spare (Some (msg_New mi msg)) of
          Inl _ \<Rightarrow> c1
        | Inr m \<Rightarrow> trace_record \<lparr>tr_Message = Some m, tr_Timestamp = now, tr_IsReceived = True,
                     tr_ChannelID = chanID, tr_Succeeded = True\<rparr> c1))"

definition msgCallback ::
  "'m msg_iface \<Rightarrow> string list \<Rightarrow> int \<Rightarrow> nat \<Rightarrow> byte list \<Rightarrow> u16 \<Rightarrow> byte list \<Rightarrow> byte list \<Rightarrow>
     ('m, 'a) Connection \<Rightarrow> ('m, 'a) Connection option" where
  "msgCallback mi paths now drained copy_spare msgID data spare c =
     (case getMessageByID paths msgID c of
        Inl _ \<Rightarrow> Some c
      | Inr msg \<Rightarrow>
         (case DecodeMsgContext data spare (GetMessageType mi msg) of
            None \<Rightarrow> None
          | Some context \<Rightarrow>
             (let (chanID, isMulti, seqNum) = unpackRequestContext context;
                  c1 = trace_received mi now chanID msg data spare c in
              if context = 0 \<or> isNotificationMessage msgID c1
              then sendNotifications mi msgID data spare c1
              else (case channels c1 chanID of
                  None \<Rightarrow> Some c1
                | Some r \<Rightarrow> map_option (\<lambda>c2. c2\<lparr>lastReply := now\<rparr>)
                    (with_channel r (sendReply drained
                       \<lparr>rep_seqNum = seqNum, rep_msgID = msgID, rep_data = data, rep_spare = copy_spare,
                        rep_lastReceived = isMulti \<and> msgID = pingReplyID c1, rep_err = None\<rparr>) c1)))))"

section \<open>Subscriptions\<close>

definition add_subscription :: "'m subscriptionCtx \<Rightarrow> ('m, 'a) Connection \<Rightarrow> ('m, 'a) Connection" where
  "add_subscription sub c =
     c\<lparr>subscriptions := (subscriptions c)(sub_msgID sub \<mapsto> subs_of c (sub_msgID sub) @ [sub])\<rparr>"

definition SubscribeNotification ::
  "'m msg_iface \<Rightarrow> 'a vpp_api \<Rightarrow> ref \<Rightarrow> 'm \<Rightarrow> ('m, 'a) Connection \<Rightarrow>
     (gerr + 'm subscriptionCtx) \<times> ('m, 'a) Connection" where
  "SubscribeNotification mi api notifChan event c =
     (case GetMessageID mi api (Some c) event of
        Inl _ \<Rightarrow> (Inl (ErrMsg ''unable to retrieve event message ID''), c)
      | Inr msgID \<Rightarrow>
         (let sub = \<lparr>sub_ref = next_ref c, sub_notifChan = notifChan, sub_msgID = msgID, sub_event = event\<rparr>
          in (Inr sub, add_subscription sub (c\<lparr>next_ref := next_ref c + 1\<rparr>))))"

text \<open>
  \<open>Unsubscribe\<close> closes the notification channel of the first matching entry and removes the entry;
  the list stays in the map even when it becomes empty.
\<close>

fun find_sub :: "ref \<Rightarrow> 'm subscriptionCtx list \<Rightarrow> nat option" where
  "find_sub r [] = None"
| "find_sub r (s # ss) = (if sub_ref s = r then Some 0 else map_option Suc (find_sub r ss))"

definition Unsubscribe ::
  "'m subscriptionCtx \<Rightarrow> ('m, 'a) Connection \<Rightarrow> (gerr option \<times> ('m, 'a) Connection) option" where
  "Unsubscribe sub c =
     (let ss = subs_of c (sub_msgID sub) in
      case find_sub (sub_ref sub) ss of
        None \<Rightarrow> Some (Some (ErrMsg ''subscription not found''), c)
      | Some i \<Rightarrow>
         (case chan_close (notif_store c (sub_notifChan (ss ! i))) of
            None \<Rightarrow> None
          | Some g \<Rightarrow> Some (None,
              c\<lparr>notif_store := (notif_store c)(sub_notifChan (ss ! i) := g),
                subscriptions := (subscriptions c)(sub_msgID sub \<mapsto> take i ss @ drop (Suc i) ss)\<rparr>)))"

end
