(* ===== verification/CoreLifecycle.thy ===== *)
theory CoreLifecycle
  imports CoreHandler
begin

text \<open>
  The life cycle of API channels: opening (with recycling through the pool), requests and replies,
  closing, release by the watching goroutine, and the return to the pool, as a step relation on
  connections. The invariant \<open>conn_inv\<close> holds in every reachable connection; it rests on the
  contract of the id pool.
\<close>

section \<open>The invariant\<close>

definition open_reply :: "'m Channel \<Rightarrow> bool" where
  "open_reply ch \<longleftrightarrow> (\<exists>g. replyChan ch = Some g \<and> \<not> gc_closed g \<and> length (gc_queue g) \<le> gc_cap g)"

definition idle_channel :: "'m Channel \<Rightarrow> bool" where
  "idle_channel ch \<longleftrightarrow>
     (reqChan ch = None \<or> (\<exists>g. reqChan ch = Some g \<and> \<not> gc_closed g \<and> gc_queue g = [])) \<and>
     (\<exists>g. replyChan ch = Some g \<and> \<not> gc_closed g \<and> gc_queue g = [])"

text \<open>The part of a connection the invariant is about.\<close>

definition chan_inv ::
  "(ref \<rightharpoonup> 'm Channel) \<Rightarrow> (u16 \<rightharpoonup> ref) \<Rightarrow> ref list \<Rightarrow> ref list \<Rightarrow> idPool \<Rightarrow> ref \<Rightarrow> bool" where
  "chan_inv store chans pool puts ids nxt \<longleftrightarrow>
     idp.partitions {1..0x7fff} ids (dom chans) \<and>
     (\<forall>i r. chans i = Some r \<longrightarrow> (\<exists>ch. store r = Some ch \<and> ch_id ch = i)) \<and>
     distinct pool \<and> distinct puts \<and> set pool \<inter> set puts = {} \<and>
     (\<forall>i r. chans i = Some r \<longrightarrow> r \<notin> set pool \<and> r \<notin> set puts) \<and>
     (\<forall>r ch. store r = Some ch \<longrightarrow> r < nxt \<and> open_reply ch) \<and>
     (\<forall>r. r \<in> set pool \<longrightarrow> (\<exists>ch. store r = Some ch \<and> idle_channel ch)) \<and>
     (\<forall>r. r \<in> set puts \<longrightarrow> (\<exists>ch. store r = Some ch))"

definition conn_inv :: "('m, 'a) Connection \<Rightarrow> bool" where
  "conn_inv c \<longleftrightarrow> chan_inv (chan_store c) (channels c) (channelPool c) (pool_puts c) (channelIdPool c) (next_ref c)"

lemma chan_inv_ref_unique:
  "chan_inv store chans pool puts ids nxt \<Longrightarrow> chans i = Some r \<Longrightarrow> chans j = Some r \<Longrightarrow> i = j"
  unfolding chan_inv_def by (metis option.inject)

lemma chan_inv_elims:
  assumes "chan_inv store chans pool puts ids nxt"
  shows chan_inv_partitions: "idp.partitions {1..0x7fff} ids (dom chans)"
    and chan_inv_chan: "chans i = Some r \<Longrightarrow> \<exists>ch. store r = Some ch \<and> ch_id ch = i"
    and chan_inv_distinct: "distinct pool \<and> distinct puts \<and> set pool \<inter> set puts = {}"
    and chan_inv_used: "chans i = Some r \<Longrightarrow> r \<notin> set pool \<and> r \<notin> set puts"
    and chan_inv_store: "store r = Some ch \<Longrightarrow> r < nxt \<and> open_reply ch"
    and chan_inv_pool: "r \<in> set pool \<Longrightarrow> \<exists>ch. store r = Some ch \<and> idle_channel ch"
    and chan_inv_puts: "r \<in> set puts \<Longrightarrow> \<exists>ch. store r = Some ch"
  using assms unfolding chan_inv_def by simp_all

lemma chan_invI:
  assumes "idp.partitions {1..0x7fff} ids (dom chans)"
    and "\<And>i r. chans i = Some r \<Longrightarrow> \<exists>ch. store r = Some ch \<and> ch_id ch = i"
    and "distinct pool \<and> distinct puts \<and> set pool \<inter> set puts = {}"
    and "\<And>i r. chans i = Some r \<Longrightarrow> r \<notin> set pool \<and> r \<notin> set puts"
    and "\<And>r ch. store r = Some ch \<Longrightarrow> r < nxt \<and> open_reply ch"
    and "\<And>r. r \<in> set pool \<Longrightarrow> \<exists>ch. store r = Some ch \<and> idle_channel ch"
    and "\<And>r. r \<in> set puts \<Longrightarrow> \<exists>ch. store r = Some ch"
  shows "chan_inv store chans pool puts ids nxt"
  unfolding chan_inv_def using assms by simp

lemma conn_inv_new: "conn_inv (newConnection ping pingReply binapi attempts interval asy)"
  using newIDPool_partitions [of "0x7fff"]
  by (simp add: conn_inv_def chan_inv_def newConnection_def)

text \<open>A change of one channel that is in use keeps the invariant if it keeps the id.\<close>

lemma chan_inv_update [inv_intros]:
  assumes inv: "chan_inv store chans pool puts ids nxt" and r: "store r = Some ch" "r \<notin> set pool"
    and ch': "ch_id ch' = ch_id ch" "open_reply ch'"
  shows "chan_inv (store(r \<mapsto> ch')) chans pool puts ids nxt"
proof (rule chan_invI)
  show "\<exists>ch. (store(r \<mapsto> ch')) q = Some ch \<and> ch_id ch = i" if "chans i = Some q" for i q
    using chan_inv_chan [OF inv that] r ch' by auto
  show "q < nxt \<and> open_reply x" if "(store(r \<mapsto> ch')) q = Some x" for q x
    using that r ch' chan_inv_store [OF inv] by (auto split: if_splits)
  show "\<exists>x. (store(r \<mapsto> ch')) q = Some x \<and> idle_channel x" if "q \<in> set pool" for q
    using that r chan_inv_pool [OF inv that] by auto
  show "\<exists>x. (store(r \<mapsto> ch')) q = Some x" if "q \<in> set puts" for q
    using chan_inv_puts [OF inv that] by auto
qed (use chan_inv_elims(1,3,4) [OF inv] in blast)+

section \<open>Each operation keeps it\<close>

text \<open>A channel out of the pool, or a new one, is nobody else's and is idle.\<close>

lemma fresh_channel_idle: "idle_channel fresh_channel" "open_reply fresh_channel"
  by (simp_all add: idle_channel_def open_reply_def fresh_channel_def make_chan_def)

lemma chan_inv_fresh:
  assumes inv: "chan_inv store chans pool puts ids nxt"
  shows "chan_inv (store(nxt \<mapsto> fresh_channel)) chans pool puts ids (nxt + 1) \<and>
    (\<forall>i. chans i \<noteq> Some nxt) \<and> nxt \<notin> set pool \<and> nxt \<notin> set puts"
proof -
  have n: "store nxt = None"
    using chan_inv_store [OF inv] by (metis less_irrefl not_None_eq)
  have un: "chans i \<noteq> Some nxt" "nxt \<notin> set pool" "nxt \<notin> set puts" for i
    using n chan_inv_chan [OF inv, of i nxt] chan_inv_pool [OF inv, of nxt] chan_inv_puts [OF inv, of nxt] by auto
  have "chan_inv (store(nxt \<mapsto> fresh_channel)) chans pool puts ids (nxt + 1)"
  proof (rule chan_invI)
    show "\<exists>ch. (store(nxt \<mapsto> fresh_channel)) q = Some ch \<and> ch_id ch = i" if "chans i = Some q" for i q
      using that un chan_inv_chan [OF inv that] by auto
    show "q < nxt + 1 \<and> open_reply x" if "(store(nxt \<mapsto> fresh_channel)) q = Some x" for q x
      using that fresh_channel_idle chan_inv_store [OF inv, of q x] by (auto split: if_splits)
    show "\<exists>x. (store(nxt \<mapsto> fresh_channel)) q = Some x \<and> idle_channel x" if "q \<in> set pool" for q
      using that un chan_inv_pool [OF inv that] by auto
    show "\<exists>x. (store(nxt \<mapsto> fresh_channel)) q = Some x" if "q \<in> set puts" for q
      using chan_inv_puts [OF inv that] by auto
  qed (use chan_inv_elims(1,3,4) [OF inv] in blast)+
  then show ?thesis
    using un by blast
qed

lemma chan_inv_take:
  assumes inv: "chan_inv store chans pool puts ids nxt" and i: "i < length pool"
  shows "chan_inv store chans (take i pool @ drop (Suc i) pool) puts ids nxt \<and>
    (\<forall>j. chans j \<noteq> Some (pool ! i)) \<and> pool ! i \<notin> set (take i pool @ drop (Suc i) pool) \<and> pool ! i \<notin> set puts \<and>
    (\<exists>ch. store (pool ! i) = Some ch \<and> idle_channel ch)"
proof -
  define rest where "rest = take i pool @ drop (Suc i) pool"
  have split: "pool = take i pool @ pool ! i # drop (Suc i) pool"
    by (rule id_take_nth_drop [OF i])
  have "set pool = insert (pool ! i) (set rest)"
    unfolding rest_def by (subst split) simp
  moreover have "distinct (pool ! i # rest)"
    using chan_inv_distinct [OF inv] unfolding rest_def by (subst (asm) (1) split) auto
  moreover have "chan_inv store chans rest puts ids nxt"
    using inv calculation chan_inv_elims [OF inv] by (intro chan_invI) auto
  moreover have "chans j \<noteq> Some (pool ! i)" for j
    using chan_inv_used [OF inv, of j "pool ! i"] i by auto
  moreover have "pool ! i \<in> set pool"
    using i by simp
  ultimately show ?thesis
    using chan_inv_elims [OF inv] unfolding rest_def [symmetric] by auto
qed

lemma pool_get_inv:
  assumes inv: "chan_inv (chan_store c) chans (channelPool c) (pool_puts c) ids (next_ref c)"
    and get: "pool_get pick c = (r, c')"
  shows "chan_inv (chan_store c') chans (channelPool c') (pool_puts c') ids (next_ref c') \<and>
    (\<forall>i. chans i \<noteq> Some r) \<and> r \<notin> set (channelPool c') \<and> r \<notin> set (pool_puts c') \<and> channels c' = channels c \<and>
    channelIdPool c' = channelIdPool c \<and> (\<exists>ch. chan_store c' r = Some ch \<and> idle_channel ch)"
  using get chan_inv_fresh [OF inv] chan_inv_take [OF inv] fresh_channel_idle
  by (auto simp: pool_get_def split: option.splits if_splits)

lemma prepare_channel_id [simp]: "ch_id (prepare_channel i a b ch) = i"
  by (simp add: prepare_channel_def Let_def)

lemma prepare_channel_open: "open_reply ch \<Longrightarrow> open_reply (prepare_channel i a b ch)"
  by (auto simp: prepare_channel_def Let_def open_reply_def make_chan_def)

lemma chan_inv_open:
  assumes inv: "chan_inv store chans pool puts ids nxt"
    and p: "idp.partitions {1..0x7fff} ids' (dom (chans(i \<mapsto> r)))" and i: "chans i = None"
    and r: "\<And>j. chans j \<noteq> Some r" "r \<notin> set pool" "r \<notin> set puts" "store r = Some ch"
    and ch': "ch_id ch' = i" "open_reply ch'"
  shows "chan_inv (store(r \<mapsto> ch')) (chans(i \<mapsto> r)) pool puts ids' nxt"
proof (rule chan_invI)
  show "\<exists>ch. (store(r \<mapsto> ch')) q = Some ch \<and> ch_id ch = j" if "(chans(i \<mapsto> r)) j = Some q" for j q
    using that r ch' chan_inv_chan [OF inv, of j q] by (cases "j = i") auto
  show "q \<notin> set pool \<and> q \<notin> set puts" if "(chans(i \<mapsto> r)) j = Some q" for j q
    using that r chan_inv_used [OF inv, of j q] by (cases "j = i") auto
  show "q < nxt \<and> open_reply x" if "(store(r \<mapsto> ch')) q = Some x" for q x
    using that r ch' chan_inv_store [OF inv] by (auto split: if_splits)
  show "\<exists>x. (store(r \<mapsto> ch')) q = Some x \<and> idle_channel x" if "q \<in> set pool" for q
    using that r chan_inv_pool [OF inv that] by auto
  show "\<exists>x. (store(r \<mapsto> ch')) q = Some x" if "q \<in> set puts" for q
    using chan_inv_puts [OF inv that] by auto
qed (use p chan_inv_distinct [OF inv] in blast)+

lemma conn_inv_newChannel:
  assumes inv: "conn_inv c" and new: "newChannel pick a b c = (res, c')"
  shows "conn_inv c'"
proof (cases "idPool_Get (channelIdPool c)")
  case (Pair g p)
  note inv' = inv [unfolded conn_inv_def]
  show ?thesis
  proof (cases g)
    case (Inl e)
    then have "p = channelIdPool c"
      using Pair idp.get_fails by blast
    then show ?thesis
      using inv new Pair Inl by (simp add: newChannel_def conn_inv_def)
  next
    case (Inr i)
    let ?c = "c\<lparr>channelIdPool := p\<rparr>"
    obtain r c1 where pg: "pool_get pick ?c = (r, c1)"
      by (cases "pool_get pick ?c")
    note part = idp.partitions_get [OF chan_inv_partitions [OF inv'] Pair [unfolded Inr]]
    have c1: "chan_inv (chan_store c1) (channels c) (channelPool c1) (pool_puts c1) (channelIdPool c) (next_ref c1)"
        "\<And>j. channels c j \<noteq> Some r" "r \<notin> set (channelPool c1)" "r \<notin> set (pool_puts c1)"
        "channels c1 = channels c" "channelIdPool c1 = p" "\<exists>ch. chan_store c1 r = Some ch \<and> idle_channel ch"
      using pool_get_inv [of ?c "channels c" "channelIdPool c", OF _ pg] inv' by auto
    then obtain ch where ch: "chan_store c1 r = Some ch" "open_reply ch"
      using chan_inv_store by blast
    have c': "c' = c1\<lparr>chan_store := (chan_store c1)(r \<mapsto> prepare_channel i a b ch), channels := (channels c1)(i \<mapsto> r)\<rparr>"
      using new Pair Inr pg ch by (simp add: newChannel_def)
    have "idp.partitions {1..0x7fff} p (dom ((channels c)(i \<mapsto> r)))" "channels c i = None"
      using part by auto
    then have "chan_inv ((chan_store c1)(r \<mapsto> prepare_channel i a b ch)) ((channels c)(i \<mapsto> r)) (channelPool c1)
        (pool_puts c1) p (next_ref c1)"
      using chan_inv_open [OF c1(1) _ _ c1(2-4) ch(1)] prepare_channel_open [OF ch(2)] by simp
    then show ?thesis
      using c1(5,6) unfolding c' conn_inv_def by simp
  qed
qed

lemma conn_inv_release:
  assumes inv: "conn_inv c" and r: "channels c i = Some r"
  shows "conn_inv (releaseAPIChannel r c)"
proof -
  note inv' = inv [unfolded conn_inv_def]
  obtain ch where ch: "chan_store c r = Some ch" "ch_id ch = i"
    using chan_inv_chan [OF inv' r] by auto
  have u: "channels c j = Some r \<Longrightarrow> j = i" for j
    using chan_inv_ref_unique [OF inv' _ r] by blast
  have "idp.partitions {1..0x7fff} (idPool_Put i (channelIdPool c)) (dom ((channels c)(i := None)))"
    using idp.partitions_put [OF chan_inv_partitions [OF inv'], of i] r by auto
  then have "chan_inv (chan_store c) ((channels c)(i := None)) (channelPool c) (pool_puts c @ [r])
      (idPool_Put i (channelIdPool c)) (next_ref c)"
    using chan_inv_used [OF inv' r] chan_inv_elims [OF inv'] u ch
    by (intro chan_invI) (auto split: if_splits)
  then show ?thesis
    using ch by (simp add: releaseAPIChannel_def conn_inv_def)
qed

lemma Channel_Reset_id [simp]: "ch_id (Channel_Reset ch) = ch_id ch"
  by (simp add: Channel_Reset_def)

lemma Channel_Reset_idle: "open_reply ch \<Longrightarrow> idle_channel (Channel_Reset ch) \<and> open_reply (Channel_Reset ch)"
  by (auto simp: Channel_Reset_def idle_channel_def open_reply_def drain_chan_def split: option.splits)

lemma conn_inv_run_pool_put:
  assumes inv: "conn_inv c"
  shows "conn_inv (run_pool_put c)"
proof (cases "pool_puts c")
  case Nil
  then show ?thesis
    using assms by (simp add: run_pool_put_def)
next
  case (Cons r rs)
  note inv' = inv [unfolded conn_inv_def]
  obtain ch where ch: "chan_store c r = Some ch" "open_reply ch"
    using chan_inv_puts [OF inv', of r] chan_inv_store [OF inv'] Cons by auto
  have "r \<notin> set (channelPool c)"
    using chan_inv_distinct [OF inv'] Cons by auto
  then have i2: "chan_inv ((chan_store c)(r \<mapsto> Channel_Reset ch)) (channels c) (channelPool c) (pool_puts c)
      (channelIdPool c) (next_ref c)"
    using chan_inv_update [OF inv' ch(1)] Channel_Reset_idle [OF ch(2)] by simp
  have "chan_inv ((chan_store c)(r \<mapsto> Channel_Reset ch)) (channels c) (channelPool c @ [r]) rs
      (channelIdPool c) (next_ref c)"
  proof (rule chan_invI)
    show "\<exists>x. ((chan_store c)(r \<mapsto> Channel_Reset ch)) q = Some x \<and> idle_channel x"
      if "q \<in> set (channelPool c @ [r])" for q
      using that chan_inv_pool [OF i2, of q] Channel_Reset_idle [OF ch(2)] by (cases "q = r") auto
  qed (use chan_inv_elims [OF i2] Cons in auto)
  then show ?thesis
    using Cons ch by (simp add: run_pool_put_def conn_inv_def)
qed

lemma sendReply_keeps:
  assumes "sendReply d rep ch = Some ch'" and "open_reply ch"
  shows "ch_id ch' = ch_id ch \<and> open_reply ch' \<and> reqChan ch' = reqChan ch"
  using assms unfolding sendReply_def open_reply_def
  by (auto simp: chan_send_def Let_def split: if_splits)

lemma sendReply_total: "open_reply ch \<Longrightarrow> sendReply d rep ch \<noteq> None"
  unfolding sendReply_def open_reply_def by (auto simp: chan_send_def Let_def split: if_splits)

text \<open>Operations that leave channels, pool and ids alone.\<close>

definition same_channels :: "('m, 'a) Connection \<Rightarrow> ('m, 'a) Connection \<Rightarrow> bool" where
  "same_channels c c' \<longleftrightarrow> chan_store c' = chan_store c \<and> channels c' = channels c \<and>
     channelPool c' = channelPool c \<and> pool_puts c' = pool_puts c \<and> channelIdPool c' = channelIdPool c \<and>
     next_ref c' = next_ref c \<and> subscriptions c' = subscriptions c \<and> pingReplyID c' = pingReplyID c"

lemma same_channels_inv: "same_channels c c' \<Longrightarrow> conn_inv c' \<longleftrightarrow> conn_inv c"
  by (simp add: same_channels_def conn_inv_def)

lemma same_channels_refl [simp]: "same_channels c c"
  by (simp add: same_channels_def)

lemma same_channels_trace [simp]:
  "same_channels c (trace_record r c)" "same_channels c (trace_announce c)"
  by (simp_all add: same_channels_def trace_record_def trace_announce_def)

lemma same_channels_processRequest:
  "processRequest mi api now i req c = (err, c') \<Longrightarrow> same_channels c c'"
  by (auto simp: processRequest_def send_ping_def same_channels_def trace_record_def trace_announce_def Let_def
      split: if_splits sum.splits prod.splits)

lemma same_channels_received: "same_channels c (trace_received mi now i m data spare c)"
  by (auto simp: trace_received_def same_channels_def trace_record_def trace_announce_def Let_def split: sum.splits)

lemma same_channels_notify_all:
  "notify_all mi data spare ss c = Some c' \<Longrightarrow> same_channels c c'"
proof (induction ss arbitrary: c)
  case (Cons s ss)
  then obtain c1 where "notify_one mi data spare s c = Some c1" "notify_all mi data spare ss c1 = Some c'"
    by (auto split: Option.bind_splits)
  moreover from this have "same_channels c c1"
    by (auto simp: notify_one_def same_channels_def split: sum.splits send_result.splits)
  ultimately show ?case
    using Cons.IH [of c1] by (simp add: same_channels_def)
qed simp

lemma conn_inv_with_channel:
  assumes inv: "conn_inv c" and w: "with_channel r (sendReply d rep) c = Some c'" and r: "r \<notin> set (channelPool c)"
  shows "conn_inv c' \<and> channels c' = channels c"
proof (cases "chan_store c r")
  case None
  then show ?thesis
    using w inv by (simp add: with_channel_def)
next
  case (Some ch)
  then obtain ch' where ch': "sendReply d rep ch = Some ch'" "c' = c\<lparr>chan_store := (chan_store c)(r \<mapsto> ch')\<rparr>"
    using w by (auto simp: with_channel_def)
  have "open_reply ch"
    using chan_inv_store [OF inv [unfolded conn_inv_def] Some] by blast
  then show ?thesis
    using chan_inv_update [OF inv [unfolded conn_inv_def] Some r] sendReply_keeps [OF ch'(1)] ch'(2)
    by (simp add: conn_inv_def)
qed

lemma conn_inv_used: "conn_inv c \<Longrightarrow> channels c i = Some r \<Longrightarrow> r \<notin> set (channelPool c)"
  using chan_inv_used unfolding conn_inv_def by blast

lemma conn_inv_msgCallback:
  assumes inv: "conn_inv c" and m: "msgCallback mi paths now d cs msgID data spare c = Some c'"
  shows "conn_inv c'"
proof -
  have n: "conn_inv x" if "sendNotifications mi msgID data spare y = Some x" "conn_inv y" for x y
    using that same_channels_notify_all same_channels_inv unfolding sendNotifications_def by metis
  have t: "conn_inv (trace_received mi now i msg data spare c)" for i msg
    by (simp add: same_channels_inv [OF same_channels_received] inv)
  have w: "conn_inv (x\<lparr>lastReply := now\<rparr>)"
    if "with_channel r (sendReply d rep) y = Some x" "conn_inv y" "channels y j = Some r" for x y r rep j
    using conn_inv_with_channel [OF that(2,1) conn_inv_used [OF that(2,3)]] by (auto simp: conn_inv_def)
  show ?thesis
    using m n t inv
    by (auto simp: msgCallback_def Let_def split: sum.splits option.splits prod.splits if_splits)
      (rule w, assumption, rule t, assumption)
qed

lemma conn_inv_watch:
  assumes inv: "conn_inv c" and i: "channels c i = Some r"
    and w: "watchRequests_round mi api now d r c = Some (st, c')"
  shows "conn_inv c'"
proof -
  obtain ch where ch: "chan_store c r = Some ch"
    using chan_inv_chan [OF inv [unfolded conn_inv_def] i] by blast
  show ?thesis
  proof (cases "chan_recv (reqChan ch)")
    case (Received req g)
    let ?c1 = "c\<lparr>chan_store := (chan_store c)(r \<mapsto> ch\<lparr>reqChan := Some g\<rparr>)\<rparr>"
    obtain err c2 where p: "processRequest mi api now (ch_id ch) req ?c1 = (err, c2)"
      by (cases "processRequest mi api now (ch_id ch) req ?c1")
    have "open_reply ch"
      using chan_inv_store [OF inv [unfolded conn_inv_def] ch] by blast
    then have "conn_inv ?c1"
      using chan_inv_update [OF inv [unfolded conn_inv_def] ch conn_inv_used [OF inv i], of "ch\<lparr>reqChan := Some g\<rparr>"]
      by (simp add: conn_inv_def open_reply_def)
    then have c2: "conn_inv c2"
      using same_channels_inv [OF same_channels_processRequest [OF p]] by blast
    have u: "r \<notin> set (channelPool c2)"
      using same_channels_processRequest [OF p] conn_inv_used [OF inv i] by (simp add: same_channels_def)
    show ?thesis
      using w ch Received p c2 conn_inv_with_channel [OF c2 _ u]
      by (auto simp: watchRequests_round_def Let_def split: option.splits)
  qed (use w ch inv conn_inv_release [OF inv i] in \<open>auto simp: watchRequests_round_def\<close>)
qed

section \<open>Reachable connections\<close>

text \<open>
  A user of an open channel sends requests, receives (which takes replies off the reply channel and
  buffers at most one), and closes it; the goroutine that watches the channel releases it.
\<close>

inductive conn_step :: "'m msg_iface \<Rightarrow> 'a vpp_api \<Rightarrow> ('m, 'a) Connection \<Rightarrow> ('m, 'a) Connection \<Rightarrow> bool"
  for mi api where
  cs_connect: "connectVPP mi api regs c = (err, c') \<Longrightarrow> conn_step mi api c c'"
| cs_disconnect: "conn_step mi api c (disconnectVPP api c)"
| cs_new: "newChannel pick reqSize replySize c = (res, c') \<Longrightarrow> conn_step mi api c c'"
| cs_send: "channels c i = Some r \<Longrightarrow> chan_store c r = Some ch \<Longrightarrow> sendReq ch msg multi = (ReqSent, n, ch') \<Longrightarrow>
    conn_step mi api c (c\<lparr>chan_store := (chan_store c)(r \<mapsto> ch')\<rparr>)"
| cs_receive: "channels c i = Some r \<Longrightarrow> chan_store c r = Some ch \<Longrightarrow> chan_recv (replyChan ch) = Received rep g \<Longrightarrow>
    conn_step mi api c (c\<lparr>chan_store := (chan_store c)(r \<mapsto> ch\<lparr>replyChan := Some g, delayedReply := d\<rparr>)\<rparr>)"
| cs_close: "channels c i = Some r \<Longrightarrow> chan_store c r = Some ch \<Longrightarrow> Channel_Close ch = Some ch' \<Longrightarrow>
    conn_step mi api c (c\<lparr>chan_store := (chan_store c)(r \<mapsto> ch')\<rparr>)"
| cs_watch: "channels c i = Some r \<Longrightarrow> watchRequests_round mi api now d r c = Some (st, c') \<Longrightarrow> conn_step mi api c c'"
| cs_release: "channels c i = Some r \<Longrightarrow> conn_step mi api c (releaseAPIChannel r c)"
| cs_put: "conn_step mi api c (run_pool_put c)"
| cs_message: "msgCallback mi paths now d cs msgID data spare c = Some c' \<Longrightarrow> conn_step mi api c c'"

lemma retrieve_keeps:
  "chan_store (fold (retrieve_path mi api) regs c) = chan_store c"
  "channels (fold (retrieve_path mi api) regs c) = channels c"
  "channelPool (fold (retrieve_path mi api) regs c) = channelPool c"
  "pool_puts (fold (retrieve_path mi api) regs c) = pool_puts c"
  "channelIdPool (fold (retrieve_path mi api) regs c) = channelIdPool c"
  "next_ref (fold (retrieve_path mi api) regs c) = next_ref c"
  "vppClient (fold (retrieve_path mi api) regs c) = vppClient c"
proof -
  define k where "k c = (chan_store c, channels c, channelPool c, pool_puts c, channelIdPool c, next_ref c, vppClient c)"
    for c :: "('a, 'b) Connection"
  have one: "k (retrieve_one mi api p m c) = k c" for p m c
    by (auto simp: k_def retrieve_one_def Let_def split: sum.splits)
  have "k (fold (retrieve_one mi api p) ms c) = k c" for p ms c
    by (induction ms arbitrary: c) (simp_all add: one)
  then have "k (retrieve_path mi api e c) = k c" for e c
    by (simp add: retrieve_path_def) (simp add: k_def)
  then have "k (fold (retrieve_path mi api) regs c) = k c"
    by (induction regs arbitrary: c) simp_all
  then show
    "chan_store (fold (retrieve_path mi api) regs c) = chan_store c"
    "channels (fold (retrieve_path mi api) regs c) = channels c"
    "channelPool (fold (retrieve_path mi api) regs c) = channelPool c"
    "pool_puts (fold (retrieve_path mi api) regs c) = pool_puts c"
    "channelIdPool (fold (retrieve_path mi api) regs c) = channelIdPool c"
    "next_ref (fold (retrieve_path mi api) regs c) = next_ref c"
    "vppClient (fold (retrieve_path mi api) regs c) = vppClient c"
    by (simp_all add: k_def)
qed

lemma conn_inv_connect: "connectVPP mi api regs c = (err, c') \<Longrightarrow> conn_inv c \<Longrightarrow> conn_inv c'"
  by (auto simp: connectVPP_def retrieveMessageIDs_def conn_inv_def retrieve_keeps Let_def
      split: prod.splits if_splits)

lemma conn_inv_user:
  assumes inv: "conn_inv c" and r: "channels c i = Some r" "chan_store c r = Some ch"
    and ch': "ch_id ch' = ch_id ch" "open_reply ch \<Longrightarrow> open_reply ch'"
  shows "conn_inv (c\<lparr>chan_store := (chan_store c)(r \<mapsto> ch')\<rparr>)"
  using chan_inv_update [OF inv [unfolded conn_inv_def] r(2) conn_inv_used [OF inv r(1)] ch'(1)]
    chan_inv_store [OF inv [unfolded conn_inv_def] r(2)] ch'(2) by (simp add: conn_inv_def)

lemma sendReq_keeps:
  "sendReq ch msg multi = (out, n, ch') \<Longrightarrow> ch_id ch' = ch_id ch \<and> replyChan ch' = replyChan ch"
  by (auto simp: sendReq_def newRequest_def nextSeqNum_def Let_def split: send_result.splits)

theorem conn_step_inv: "conn_step mi api c c' \<Longrightarrow> conn_inv c \<Longrightarrow> conn_inv c'"
proof (induction rule: conn_step.induct)
  case (cs_disconnect c)
  then show ?case
    by (simp add: disconnectVPP_def conn_inv_def split: prod.splits)
next
  case (cs_send c i r ch msg multi n ch')
  then show ?case
    using sendReq_keeps [OF cs_send.hyps(3)] by (intro conn_inv_user [of c i r ch]) (auto simp: open_reply_def)
next
  case (cs_receive c i r ch rep g d)
  then show ?case
    by (intro conn_inv_user [of c i r ch]) (auto simp: open_reply_def chan_recv_Received)
next
  case (cs_close c i r ch ch')
  then show ?case
    by (intro conn_inv_user [of c i r ch]) (auto simp: open_reply_def Channel_Close_def)
qed (blast intro: conn_inv_connect conn_inv_newChannel conn_inv_watch conn_inv_release conn_inv_run_pool_put
    conn_inv_msgCallback)+

lemma conn_reachable_inv:
  "(conn_step mi api)\<^sup>*\<^sup>* (newConnection ping pingReply binapi attempts interval asy) c \<Longrightarrow> conn_inv c"
  by (induction rule: rtranclp_induct) (auto intro: conn_inv_new conn_step_inv)

end
