(* ===== verification/CoreProps.thy ===== *)
theory CoreProps
  imports CoreLifecycle
begin

text \<open>
  The properties of the core: channels and ids over the life of a connection, the path of a request
  to the adapter and of a reply back to its channel, notifications, and the message table.
\<close>

section \<open>Channels\<close>

text \<open>
  C7 (invariant). In every reachable connection each open channel is registered under its own id, the
  ids are in \<open>1 .. 0x7fff\<close>, no two ids share a channel, no open channel is in the pool or on its
  way to it, and its reply channel is open and within its capacity.
\<close>

theorem channels_unique:
  assumes "(conn_step mi api)\<^sup>*\<^sup>* (newConnection ping pingReply binapi attempts interval asy) c"
    and "channels c i = Some r"
  shows "1 \<le> i \<and> i \<le> 0x7fff \<and> (\<exists>ch. chan_store c r = Some ch \<and> ch_id ch = i \<and> open_reply ch) \<and>
     (\<forall>j. channels c j = Some r \<longrightarrow> j = i) \<and> r \<notin> set (channelPool c) \<and> r \<notin> set (pool_puts c)"
proof -
  have inv: "chan_inv (chan_store c) (channels c) (channelPool c) (pool_puts c) (channelIdPool c) (next_ref c)"
    using conn_reachable_inv [OF assms(1)] by (simp add: conn_inv_def)
  have "dom (channels c) \<subseteq> {1..0x7fff}"
    using chan_inv_partitions [OF inv] by (simp add: idp.partitions_def)
  then have "i \<in> {1..0x7fff}"
    using assms(2) by blast
  then show ?thesis
    using chan_inv_chan [OF inv assms(2)] chan_inv_used [OF inv assms(2)] chan_inv_store [OF inv]
      chan_inv_ref_unique [OF inv _ assms(2)] by auto
qed

definition idle_api :: "unit vpp_api" where
  "idle_api = \<lparr>api_Connect = (\<lambda>a. (None, a)), api_Disconnect = (\<lambda>a. (None, a)), api_WaitReady = (\<lambda>a. (None, a)),
     api_GetMsgID = (\<lambda>_ n crc. if n = ''control_ping'' then Inr 30 else if n = ''control_ping_reply'' then Inr 31
        else Inl (UnknownMsgError n crc)),
     api_SendMsg = (\<lambda>a _ _. (None, a))\<rparr>"

definition ex_conn :: "(memclnt_msg, unit) Connection" where
  "ex_conn = newConnection ControlPing (ControlPingReply 0 0 0) () 0 0 False"

definition ex_opened :: "(memclnt_msg, unit) Connection" where
  "ex_opened = snd (newChannel None 10 10 ex_conn)"

lemma newIDPool_first: "idPool_Get (newIDPool 0x7fff) = (Inr 1, tl (newIDPool 0x7fff))"
proof -
  have "1 < Suc (unat (0x7fff :: u16))"
    by simp
  then have "[1..<Suc (unat (0x7fff :: u16))] = 1 # [Suc 1..<Suc (unat (0x7fff :: u16))]"
    by (rule upt_conv_Cons)
  then have "newIDPool 0x7fff = 1 # map word_of_nat [Suc 1..<Suc (unat (0x7fff :: u16))]"
    unfolding newIDPool_eq by (simp only: list.map of_nat_1)
  then show ?thesis
    by (simp only: idPool_Get_def list.case list.sel)
qed

lemma ex_opened_eq:
  "newChannel None 10 10 ex_conn = (Inr 0, ex_opened) \<and> channels ex_opened 1 = Some 0 \<and>
   chan_store ex_opened 0 = Some (prepare_channel 1 10 10 fresh_channel)"
  by (simp add: ex_opened_def ex_conn_def newConnection_def newChannel_def newIDPool_first pool_get_def)

lemma ex_opened_reach: "(conn_step memclnt idle_api)\<^sup>*\<^sup>* ex_conn ex_opened"
  using ex_opened_eq by (intro r_into_rtranclp cs_new) blast

theorem channels_unique_witness:
  "channels ex_opened 1 = Some 0 \<and> (\<exists>ch. chan_store ex_opened 0 = Some ch \<and> ch_id ch = 1 \<and> open_reply ch)"
  using channels_unique [OF ex_opened_reach [unfolded ex_conn_def], of 1 0] ex_opened_eq by simp

definition open_chan :: "nat \<Rightarrow> 'b gochan option \<Rightarrow> bool" where
  "open_chan n c \<longleftrightarrow> c = Some \<lparr>gc_cap = n, gc_queue = [], gc_closed = False\<rparr>"

lemma idle_prepared:
  assumes "idle_channel ch" and "0 < n"
  shows "open_chan n (reqChan (prepare_channel i n k ch)) \<and> open_chan k (replyChan (prepare_channel i n k ch))"
  using assms by (auto simp: idle_channel_def prepare_channel_def Let_def open_chan_def make_chan_def chan_cap_def
      split: option.splits)

lemma pool_get_others: "pool_get pick c = (r, c') \<Longrightarrow> q \<noteq> r \<Longrightarrow> chan_store c' q = chan_store c q"
  by (auto simp: pool_get_def split: option.splits if_splits)

lemma newChannel_opens:
  assumes inv: "conn_inv c" and "0 < n"
  shows "case newChannel pick n k c of
      (Inl err, c') \<Rightarrow> err = ErrMsg ''no more IDs available'' \<and> c' = c \<and> dom (channels c) = {1..0x7fff}
    | (Inr r, c') \<Rightarrow> \<exists>i ch. channels c i = None \<and> (\<forall>j. channels c j \<noteq> Some r) \<and>
        channels c' = (channels c)(i \<mapsto> r) \<and> chan_store c' r = Some ch \<and> ch_id ch = i \<and>
        open_chan n (reqChan ch) \<and> open_chan k (replyChan ch) \<and>
        (\<forall>q. q \<noteq> r \<longrightarrow> chan_store c' q = chan_store c q)"
proof -
  note inv' = inv [unfolded conn_inv_def]
  obtain g p where gp: "idPool_Get (channelIdPool c) = (g, p)"
    by fastforce
  show ?thesis
  proof (cases g)
    case (Inl e)
    then have p: "channelIdPool c = []" "p = channelIdPool c" "e = ErrMsg ''no more IDs available''"
      using gp by (auto simp: idPool_Get_def split: list.splits)
    then have "mset_set ({1..0x7fff} - dom (channels c)) = {#}"
      using idp.partitions_free [OF chan_inv_partitions [OF inv']] by simp
    then have "{1..0x7fff} - dom (channels c) = {}"
      by (simp add: mset_set_empty_iff)
    then show ?thesis
      using Inl gp p chan_inv_partitions [OF inv'] by (auto simp: newChannel_def idp.partitions_def)
  next
    case (Inr i)
    let ?c = "c\<lparr>channelIdPool := p\<rparr>"
    obtain r c1 where pg: "pool_get pick ?c = (r, c1)"
      by fastforce
    have c1: "\<forall>j. channels c j \<noteq> Some r" "channels c1 = channels c" "\<exists>ch. chan_store c1 r = Some ch \<and> idle_channel ch"
      using pool_get_inv [of ?c "channels c" "channelIdPool c", OF _ pg] inv' by auto
    then obtain ch where ch: "chan_store c1 r = Some ch" "idle_channel ch"
      by blast
    have "channels c i = None"
      using idp.partitions_get [OF chan_inv_partitions [OF inv'] gp [unfolded Inr]] by auto
    then show ?thesis
      using gp Inr pg c1 ch idle_prepared [OF ch(2) assms(2), of i k] pool_get_others [OF pg]
      by (auto simp: newChannel_def)
  qed
qed

text \<open>
  Opening a channel with a positive request buffer fails exactly when all \<open>0x7fff\<close> ids
  are in use. Otherwise the new channel gets an unused id and an object nobody else uses, and,
  recycled or not, both its Go channels are open, empty and of the requested capacities, while
  all other channels stay as they were.
\<close>

theorem newChannel_ready:
  assumes "(conn_step mi api)\<^sup>*\<^sup>* (newConnection ping pingReply binapi attempts interval asy) c" and "0 < n"
  shows "case newChannel pick n k c of
      (Inl err, c') \<Rightarrow> err = ErrMsg ''no more IDs available'' \<and> c' = c \<and> dom (channels c) = {1..0x7fff}
    | (Inr r, c') \<Rightarrow> \<exists>i ch. channels c i = None \<and> (\<forall>j. channels c j \<noteq> Some r) \<and>
        channels c' = (channels c)(i \<mapsto> r) \<and> chan_store c' r = Some ch \<and> ch_id ch = i \<and>
        open_chan n (reqChan ch) \<and> open_chan k (replyChan ch) \<and>
        (\<forall>q. q \<noteq> r \<longrightarrow> chan_store c' q = chan_store c q)"
  by (rule newChannel_opens [OF conn_reachable_inv [OF assms(1)] assms(2)])

theorem newChannel_ready_witness:
  "\<exists>i ch. channels ex_conn i = None \<and> channels ex_opened = (channels ex_conn)(i \<mapsto> 0) \<and>
     chan_store ex_opened 0 = Some ch \<and> open_chan 10 (reqChan ch) \<and> open_chan 10 (replyChan ch)"
proof -
  have "(conn_step memclnt idle_api)\<^sup>*\<^sup>* ex_conn ex_conn"
    by blast
  from newChannel_ready [OF this [unfolded ex_conn_def], where n = 10 and k = 10 and pick = None] show ?thesis
    using ex_opened_eq unfolding ex_conn_def by auto
qed

text \<open>
  The case left out above: when a closed channel comes back from the pool for a request
  buffer of size 0, its request channel is the nil channel that \<open>Reset\<close> left there (a nil channel
  has capacity 0), so every request sent on the new channel blocks for good and closing it panics.
\<close>

theorem recycled_unbuffered_blocks:
  assumes "conn_inv c" and "channels c i = Some r" and "chan_store c r = Some ch"
    and "reqChan ch = Some \<lparr>gc_cap = n, gc_queue = [], gc_closed = True\<rparr>"
    and "channelPool c = []" and "pool_puts c = []"
    and "watchRequests_round mi api now d r c = Some (st, c1)"
    and "newChannel (Some 0) 0 k (run_pool_put c1) = (res, c2)"
  shows "st = WatchEnds \<and> res = Inr r \<and>
     (\<exists>ch2. chan_store c2 r = Some ch2 \<and> fst (SendRequest ch2 msg) = ReqBlocks \<and> Channel_Close ch2 = None)"
proof -
  have c1: "c1 = releaseAPIChannel r c" and st: "st = WatchEnds"
    using assms(3,4,7) by (auto simp: watchRequests_round_def chan_recv_def)
  let ?c = "run_pool_put c1"
  have p: "channelPool ?c = [r]" "chan_store ?c r = Some (Channel_Reset ch)"
      "channelIdPool ?c = channelIdPool c @ [ch_id ch]"
    using assms(3,5,6) by (simp_all add: c1 releaseAPIChannel_def run_pool_put_def idPool_Put_def)
  obtain j q where g: "idPool_Get (channelIdPool ?c) = (Inr j, q)"
    using p(3) by (cases "channelIdPool c") (simp_all add: idPool_Get_def)
  have nil: "reqChan (prepare_channel j 0 k (Channel_Reset ch)) = None"
    using assms(4) by (simp add: prepare_channel_def Let_def Channel_Reset_def drain_chan_def chan_cap_def)
  have "res = Inr r \<and> chan_store c2 r = Some (prepare_channel j 0 k (Channel_Reset ch))"
    using assms(8) g p by (auto simp: newChannel_def pool_get_def)
  then show ?thesis
    using st nil by (auto simp: SendRequest_def sendReq_def newRequest_def nextSeqNum_def Let_def
        Channel_Close_def chan_close_def)
qed

text \<open>A connection whose only channel was closed, for the witness.\<close>

definition ex_closed :: "(memclnt_msg, unit) Connection" where
  "ex_closed = ex_opened\<lparr>chan_store := (chan_store ex_opened)(0 \<mapsto>
     (prepare_channel 1 10 10 fresh_channel)\<lparr>reqChan := Some \<lparr>gc_cap = 10, gc_queue = [], gc_closed = True\<rparr>\<rparr>)\<rparr>"

lemma ex_closed_inv: "conn_inv ex_closed"
proof -
  have "conn_inv ex_opened"
    using conn_reachable_inv [OF ex_opened_reach [unfolded ex_conn_def]] .
  then show ?thesis
    unfolding ex_closed_def using ex_opened_eq by (intro conn_inv_user) (auto simp: open_reply_def)
qed

theorem recycled_unbuffered_blocks_witness:
  "\<exists>c2 ch2. snd (newChannel (Some 0) 0 10 (run_pool_put (releaseAPIChannel 0 ex_closed))) = c2 \<and>
     chan_store c2 0 = Some ch2 \<and> fst (SendRequest ch2 ControlPing) = ReqBlocks \<and> Channel_Close ch2 = None"
proof -
  have c: "channels ex_closed 1 = Some 0" "channelPool ex_closed = []" "pool_puts ex_closed = []"
    by (simp_all add: ex_closed_def ex_opened_eq)
      (simp_all add: ex_opened_def ex_conn_def newConnection_def newChannel_def newIDPool_first pool_get_def)
  have s: "chan_store ex_closed 0 = Some ((prepare_channel 1 10 10 fresh_channel)
      \<lparr>reqChan := Some \<lparr>gc_cap = 10, gc_queue = [], gc_closed = True\<rparr>\<rparr>)"
    by (simp add: ex_closed_def)
  have w: "watchRequests_round memclnt idle_api 0 0 0 ex_closed = Some (WatchEnds, releaseAPIChannel 0 ex_closed)"
    using s by (simp add: watchRequests_round_def chan_recv_def)
  obtain res c2 where n: "newChannel (Some 0) 0 10 (run_pool_put (releaseAPIChannel 0 ex_closed)) = (res, c2)"
    by fastforce
  show ?thesis
    using recycled_unbuffered_blocks [OF ex_closed_inv c(1) s _ c(2,3) w n, of 10 ControlPing] n by simp
qed

section \<open>From VPP to the channel\<close>

definition reply_data :: "u16 \<Rightarrow> u32 \<Rightarrow> byte list \<Rightarrow> byte list" where
  "reply_data msgID context body = be_bytes 2 msgID @ be_bytes 4 context @ body"

lemma reply_data_context: "DecodeMsgContext (reply_data i ctx b) spare ReplyMessage = Some ctx"
  by (simp add: DecodeMsgContext_reply reply_data_def be_roundtrip)

lemma trace_received_keeps:
  "chan_store (trace_received mi now i m data spare c) = chan_store c"
  "channels (trace_received mi now i m data spare c) = channels c"
  "subscriptions (trace_received mi now i m data spare c) = subscriptions c"
  "pingReplyID (trace_received mi now i m data spare c) = pingReplyID c"
  using same_channels_received [of c mi now i m data spare] by (simp_all add: same_channels_def)

lemma trace_received_notif: "notif_store (trace_received mi now i m data spare c) = notif_store c"
  by (simp add: trace_received_def trace_record_def trace_announce_def Let_def split: sum.splits)

lemma sendReply_room:
  "replyChan ch = Some g \<Longrightarrow> \<not> gc_closed g \<Longrightarrow> length (gc_queue g) < gc_cap g \<Longrightarrow>
   sendReply d rep ch = Some (ch\<lparr>replyChan := Some (g\<lparr>gc_queue := gc_queue g @ [rep]\<rparr>)\<rparr>)"
  by (simp add: sendReply_def chan_send_def)

lemma sendReply_full:
  "replyChan ch = Some g \<Longrightarrow> \<not> gc_closed g \<Longrightarrow> gc_cap g \<le> length (gc_queue g) \<Longrightarrow> receiveReplyTimeout ch = 0 \<Longrightarrow>
   sendReply d rep ch = Some ch"
  by (simp add: sendReply_def chan_send_def)

lemma sendReply_open: "replyChan ch = Some g \<Longrightarrow> \<not> gc_closed g \<Longrightarrow> \<exists>ch'. sendReply d rep ch = Some ch'"
  by (cases "length (gc_queue g) < gc_cap g") (simp_all add: sendReply_def chan_send_def Let_def)

text \<open>What a reply to request \<open>n\<close> of channel \<open>i\<close> looks like, and how it is handed to the channel.\<close>

definition expected_reply ::
  "('m, 'a) Connection \<Rightarrow> u16 \<Rightarrow> bool \<Rightarrow> u16 \<Rightarrow> u16 \<Rightarrow> byte list \<Rightarrow> byte list \<Rightarrow> vppReply" where
  "expected_reply c i multi n msgID body cs = \<lparr>rep_seqNum = n, rep_msgID = msgID,
     rep_data = reply_data msgID (packRequestContext i multi n) body, rep_spare = cs,
     rep_lastReceived = multi \<and> msgID = pingReplyID c, rep_err = None\<rparr>"

lemma callback_delivers:
  assumes "channels c i = Some r" and "chan_store c r = Some ch" and "replyChan ch = Some g" and "\<not> gc_closed g"
    and "0 < i" and "i < 0x8000" and "getMessageByID paths msgID c = Inr m"
    and "GetMessageType mi m = ReplyMessage" and "subscriptions c msgID = None"
  shows "\<exists>c'. msgCallback mi paths now d cs msgID (reply_data msgID (packRequestContext i multi n) body) spare c = Some c' \<and>
     (length (gc_queue g) < gc_cap g \<longrightarrow>
        chan_store c' = (chan_store c)(r \<mapsto>
          ch\<lparr>replyChan := Some (g\<lparr>gc_queue := gc_queue g @ [expected_reply c i multi n msgID body cs]\<rparr>)\<rparr>)) \<and>
     (gc_cap g \<le> length (gc_queue g) \<and> receiveReplyTimeout ch = 0 \<longrightarrow> chan_store c' = chan_store c) \<and>
     channels c' = channels c \<and> notif_store c' = notif_store c \<and> lastReply c' = now"
proof -
  let ?data = "reply_data msgID (packRequestContext i multi n) body"
  let ?c1 = "trace_received mi now i m ?data spare c"
  have st: "chan_store ?c1 r = Some ch"
    using assms(2) by (simp add: trace_received_keeps)
  obtain ch' where s: "sendReply d (expected_reply c i multi n msgID body cs) ch = Some ch'"
    using sendReply_open [OF assms(3,4)] by blast
  have "msgCallback mi paths now d cs msgID ?data spare c =
      Some (?c1\<lparr>chan_store := (chan_store c)(r \<mapsto> ch'), lastReply := now\<rparr>)"
    using assms(1,5-9) context_nonzero [OF assms(5,6), of multi n] st s
    by (simp add: msgCallback_def reply_data_context unpack_pack [OF assms(6)] trace_received_keeps
        isNotificationMessage_def with_channel_def expected_reply_def)
  then show ?thesis
    using s assms(2) sendReply_room [OF assms(3,4)] sendReply_full [OF assms(3,4)]
    by (auto simp: trace_received_keeps trace_received_notif)
qed

text \<open>
  A reply from VPP whose context is the one of request \<open>n\<close> on channel \<open>i\<close> is appended to
  the reply channel of that channel with sequence number \<open>n\<close>, marked as the last part exactly when
  the request was multipart and the message is the control ping reply; no other channel and no
  subscriber sees it. If nobody reads and the channel is full, nothing at all is delivered when
  waiting is disabled.
\<close>

theorem reply_delivered:
  assumes "channels c i = Some r" and "chan_store c r = Some ch" and "replyChan ch = Some g" and "\<not> gc_closed g"
    and "0 < i" and "i < 0x8000" and "getMessageByID paths msgID c = Inr m"
    and "GetMessageType mi m = ReplyMessage" and "subscriptions c msgID = None"
  shows "\<exists>c'. msgCallback mi paths now d cs msgID (reply_data msgID (packRequestContext i multi n) body) spare c = Some c' \<and>
     (length (gc_queue g) < gc_cap g \<longrightarrow>
        chan_store c' = (chan_store c)(r \<mapsto>
          ch\<lparr>replyChan := Some (g\<lparr>gc_queue := gc_queue g @ [expected_reply c i multi n msgID body cs]\<rparr>)\<rparr>)) \<and>
     (gc_cap g \<le> length (gc_queue g) \<and> receiveReplyTimeout ch = 0 \<longrightarrow> chan_store c' = chan_store c) \<and>
     channels c' = channels c \<and> notif_store c' = notif_store c \<and> lastReply c' = now"
  using assms by (rule callback_delivers)

text \<open>A connection with an open channel and the message table of the control ping, for witnesses.\<close>

definition ex_ready :: "(memclnt_msg, unit) Connection" where
  "ex_ready = ex_opened\<lparr>msgMapByPath := [''binapi'' \<mapsto> [30 \<mapsto> ControlPing, 31 \<mapsto> ControlPingReply 0 0 0]],
     pingReqID := 30, pingReplyID := 31, vppConnected := True\<rparr>"

definition ex_ready_ch :: "memclnt_msg Channel" where
  "ex_ready_ch = prepare_channel 1 10 10 fresh_channel"

definition ex_empty_queue :: "vppReply gochan" where
  "ex_empty_queue = \<lparr>gc_cap = 10, gc_queue = [], gc_closed = False\<rparr>"

lemma ex_ready_facts [simp]:
  "channels ex_ready 1 = Some 0" "chan_store ex_ready 0 = Some ex_ready_ch"
  "replyChan ex_ready_ch = Some ex_empty_queue" "gc_queue ex_empty_queue = []" "gc_cap ex_empty_queue = 10"
  "\<not> gc_closed ex_empty_queue" "delayedReply ex_ready_ch = None"
  "subscriptions ex_ready i = None" "pingReplyID ex_ready = 31" "next_ref ex_ready = 1"
  "getMessageByID [''binapi''] 31 ex_ready = Inr (ControlPingReply 0 0 0)" "vppConnected ex_ready"
  using ex_opened_eq
  by (simp_all add: ex_ready_def ex_ready_ch_def ex_empty_queue_def prepare_channel_def fresh_channel_def
      chan_cap_def make_chan_def Let_def getMessageByID_def RequestChanBufSize_def ReplyChanBufSize_def)
    (simp_all add: ex_opened_def ex_conn_def newConnection_def newChannel_def newIDPool_first pool_get_def)

theorem reply_delivered_witness:
  "\<exists>c'. msgCallback memclnt [''binapi''] 7 0 [] 31 (reply_data 31 (packRequestContext 1 False 5) (mc_body (ControlPingReply 0 7 9))) [] ex_ready
       = Some c' \<and>
     chan_store c' 0 = Some (ex_ready_ch\<lparr>replyChan := Some (ex_empty_queue\<lparr>gc_queue :=
        [expected_reply ex_ready 1 False 5 31 (mc_body (ControlPingReply 0 7 9)) []]\<rparr>)\<rparr>)"
  using reply_delivered [of ex_ready 1 0 ex_ready_ch ex_empty_queue "[''binapi'']" 31 "ControlPingReply 0 0 0" memclnt
      7 0 "[]" False 5 "mc_body (ControlPingReply 0 7 9)" "[]"]
  by auto

end
