(* ===== verification/CoreFlow.thy ===== *)
theory CoreFlow
  imports CoreProps
begin

text \<open>
  End-to-end properties of the core: a request's reply travels from VPP through the callback and the
  reply channel into the caller's message; multipart replies; notifications and subscriptions; and
  the message table built when a connection is made.
\<close>

section \<open>Request and reply\<close>

lemma expected_reply_sel [simp]:
  "rep_seqNum (expected_reply c i multi n msgID body cs) = n"
  "rep_msgID (expected_reply c i multi n msgID body cs) = msgID"
  "rep_err (expected_reply c i multi n msgID body cs) = None"
  "rep_lastReceived (expected_reply c i multi n msgID body cs) = (multi \<and> msgID = pingReplyID c)"
  by (simp_all add: expected_reply_def)

lemma list_all_waits_queue: "list_all (stale n) q \<Longrightarrow> list_all (waits n) (map ReplyArrives q)"
  by (induction q) auto

text \<open>In any family of messages with the codec's contract, a reply carries the message VPP encoded.\<close>

context message_codec
begin

lemma reply_carries:
  assumes "valid m" and "same_type m t" and "GetMessageType mi m = ReplyMessage"
    and "id_GetMessageID ids t = Inr msgID" and "\<not> (multi \<and> msgID = pingReplyID c)"
  shows "carries mi ids (expected_reply c i multi n msgID (body m) cs) t m"
proof -
  have "DecodeMsg mi ((be_bytes 2 msgID @ be_bytes 4 (packRequestContext i multi n)) @ body m) cs (Some t) = Inr m"
    by (rule decode [OF assms(1,2)]) (simp add: getOffset_def assms(3))
  then show ?thesis
    using assms(4,5) by (simp add: carries_def expected_reply_def reply_data_def)
qed

text \<open>What VPP sends: the encoded message, with the context of the request written into its header.\<close>

lemma vpp_reply:
  assumes "valid m" and "GetMessageType mi m = ReplyMessage"
  shows "\<exists>data. EncodeMsg mi (Some m) msgID = Inr data \<and> put_at 2 (be_bytes 4 ctx) data = reply_data msgID ctx (body m)"
  using encode [OF assms(1), of msgID] assms(2) by (simp add: reply_data_def put_at_def getOffset_def)

text \<open>The path of a reply, end to end.\<close>

lemma reply_end_to_end:
  assumes "channels c i = Some r" and "chan_store c r = Some ch" and "replyChan ch = Some g" and "\<not> gc_closed g"
    and "length (gc_queue g) < gc_cap g" and "list_all (stale n) (gc_queue g)" and "delayedReply ch = None"
    and "0 < i" and "i < 0x8000" and "getMessageByID paths msgID c = Inr m0" and "GetMessageType mi m0 = ReplyMessage"
    and "subscriptions c msgID = None" and "msgID \<noteq> pingReplyID c \<or> \<not> multi"
    and "valid m" and "GetMessageType mi m = ReplyMessage" and "same_type m t" and "id_GetMessageID ids t = Inr msgID"
  shows "\<exists>data c' ch' g'. EncodeMsg mi (Some m) msgID = Inr data \<and>
     msgCallback mi paths now d cs msgID (put_at 2 (be_bytes 4 (packRequestContext i multi n)) data) spare c = Some c' \<and>
     chan_store c' r = Some ch' \<and> replyChan ch' = Some g' \<and>
     requestCtx_ReceiveReply mi ids (Some (ch', n)) (Some t) (map ReplyArrives (gc_queue g')) =
       Some (reply_error mi m, Some m, Some ch', [])"
proof -
  let ?rep = "expected_reply c i multi n msgID (body m) cs"
  let ?g' = "g\<lparr>gc_queue := gc_queue g @ [?rep]\<rparr>"
  let ?ch' = "ch\<lparr>replyChan := Some ?g'\<rparr>"
  obtain data where data: "EncodeMsg mi (Some m) msgID = Inr data"
      "put_at 2 (be_bytes 4 (packRequestContext i multi n)) data = reply_data msgID (packRequestContext i multi n) (body m)"
    using vpp_reply [OF assms(14)] assms(15) by fastforce
  have cb: "\<exists>c'. msgCallback mi paths now d cs msgID
      (reply_data msgID (packRequestContext i multi n) (body m)) spare c = Some c' \<and> chan_store c' r = Some ?ch'"
    using callback_delivers [OF assms(1-4,8-10), of mi now d cs multi n "body m" spare] assms(5,11,12) by auto
  have car: "carries mi ids ?rep t m"
    by (rule reply_carries [OF assms(14,16) _ assms(17)]) (use assms(13,15) in auto)
  have "requestCtx_ReceiveReply mi ids (Some (?ch', n)) (Some t) (map ReplyArrives (gc_queue g) @ [ReplyArrives ?rep]) =
      Some (reply_error mi m, Some m, Some ?ch', [])"
    using ReceiveReply_matching' [of ?ch' n "map ReplyArrives (gc_queue g)" ?rep, OF _ list_all_waits_queue [OF assms(6)] _ car]
      assms(7) by simp
  then show ?thesis
    using data cb by (intro exI [of _ data]) (auto intro!: exI [of _ ?ch'] exI [of _ ?g'])
qed

end

text \<open>
  C1 (refinement). The path of a reply, end to end: VPP encodes a memory-client reply message and writes
  the context of request \<open>n\<close> of channel \<open>i\<close> into it; after the callback ran, \<open>ReceiveReply\<close> of exactly
  that request, reading the channel's queue behind any number of leftovers of earlier requests,
  returns the very message VPP encoded, and the error of its return value.
\<close>

theorem request_reply_end_to_end:
  assumes "channels c i = Some r" and "chan_store c r = Some ch" and "replyChan ch = Some g" and "\<not> gc_closed g"
    and "length (gc_queue g) < gc_cap g" and "list_all (stale n) (gc_queue g)" and "delayedReply ch = None"
    and "0 < i" and "i < 0x8000" and "getMessageByID paths msgID c = Inr m0" and "mc_type m0 = ReplyMessage"
    and "subscriptions c msgID = None" and "msgID \<noteq> pingReplyID c \<or> \<not> multi"
    and "mc_valid m" and "mc_type m = ReplyMessage" and "mc_same_type m t" and "id_GetMessageID ids t = Inr msgID"
  shows "\<exists>data c' ch' g'. EncodeMsg memclnt (Some m) msgID = Inr data \<and>
     msgCallback memclnt paths now d cs msgID (put_at 2 (be_bytes 4 (packRequestContext i multi n)) data) spare c = Some c' \<and>
     chan_store c' r = Some ch' \<and> replyChan ch' = Some g' \<and>
     requestCtx_ReceiveReply memclnt ids (Some (ch', n)) (Some t) (map ReplyArrives (gc_queue g')) =
       Some (reply_error memclnt m, Some m, Some ch', [])"
  using mc.reply_end_to_end [of c i r ch g n paths msgID m0 multi m t ids now d cs spare] assms by simp

theorem request_reply_end_to_end_witness:
  "\<exists>data c' ch' g'. EncodeMsg memclnt (Some (ControlPingReply 0 7 9)) 31 = Inr data \<and>
     msgCallback memclnt [''binapi''] 5 0 [] 31 (put_at 2 (be_bytes 4 (packRequestContext 1 False 6)) data) [] ex_ready = Some c' \<and>
     chan_store c' 0 = Some ch' \<and> replyChan ch' = Some g' \<and>
     requestCtx_ReceiveReply memclnt ex_ids (Some (ch', 6)) (Some (ControlPingReply 0 0 0)) (map ReplyArrives (gc_queue g')) =
       Some (None, Some (ControlPingReply 0 7 9), Some ch', [])"
proof -
  have "id_GetMessageID ex_ids (ControlPingReply 0 0 0) = Inr 31"
    by (simp add: ex_ids_def)
  then show ?thesis
    using request_reply_end_to_end [of ex_ready 1 0 ex_ready_ch ex_empty_queue 6 "[''binapi'']" 31
        "ControlPingReply 0 0 0" False "ControlPingReply 0 7 9" "ControlPingReply 0 0 0" ex_ids 5 0 "[]" "[]"] ex_no_error
    by (auto simp: mc_same_type_def)
qed

section \<open>Multipart replies\<close>

lemma processReply_end:
  "rep_seqNum r = n \<Longrightarrow> rep_err r = None \<Longrightarrow> rep_lastReceived r \<Longrightarrow>
   processReply mi mid ch r n m = (\<lparr>rr_ignore = False, rr_last = True, rr_err = None, rr_msg = m\<rparr>, ch)"
  by (simp add: processReply_def compareSeqNumbers_diff)

text \<open>Receive the parts of a multipart reply one after the other, each into a message of its own.\<close>

fun receive_parts ::
  "'m msg_iface \<Rightarrow> 'm msgIdentifier \<Rightarrow> u16 \<Rightarrow> 'm \<Rightarrow> nat \<Rightarrow> 'm Channel \<Rightarrow> recv_event list \<Rightarrow>
     ('m list \<times> bool \<times> gerr option \<times> recv_event list) option" where
  "receive_parts mi mid n t 0 ch evs = Some ([], False, None, evs)"
| "receive_parts mi mid n t (Suc k) ch evs =
     (case multiRequestCtx_ReceiveReply mi mid (Some (ch, n)) (Some t) evs of
        Some ((l, None, Some m), Some ch', evs') \<Rightarrow>
          if l then Some ([], True, None, evs')
          else map_option (\<lambda>(ms, r). (m # ms, r)) (receive_parts mi mid n t k ch' evs')
      | Some ((l, e, _), _, evs') \<Rightarrow> Some ([], l, e, evs')
      | None \<Rightarrow> None)"

text \<open>
  C20 (functional). A multipart reply is received as its parts in order and then an end mark: if the parts
  arrive with the request's sequence number, then the control ping reply, the successive calls of
  \<open>ReceiveReply\<close> return each part, then that the last reply was received, and read no further.
\<close>

theorem multipart_reply:
  assumes "delayedReply ch = None" and "length parts = length ms"
    and "\<forall>j < length ms. rep_seqNum (parts ! j) = n \<and> carries mi mid (parts ! j) t (ms ! j) \<and> reply_error mi (ms ! j) = None"
    and "rep_seqNum ping = n" and "rep_err ping = None" and "rep_lastReceived ping" and "length ms < k"
  shows "receive_parts mi mid n t k ch (map ReplyArrives parts @ ReplyArrives ping # rest) =
     Some (ms, True, None, rest)"
  using assms
proof (induction ms arbitrary: parts k)
  case Nil
  then obtain k' where "k = Suc k'"
    by (cases k) auto
  then show ?case
    using Nil by (simp add: multiRequestCtx_ReceiveReply_def receiveReplyInternal_no_delay processReply_end)
next
  case (Cons m ms)
  then obtain k' where k: "k = Suc k'"
    by (cases k) auto
  obtain p ps where p: "parts = p # ps"
    using Cons.prems by (cases parts) auto
  have hd: "rep_seqNum p = n" "carries mi mid p t m" "reply_error mi m = None"
    using Cons.prems(3) p by (auto dest: spec [of _ 0])
  have "\<forall>j < length ms. rep_seqNum (ps ! j) = n \<and> carries mi mid (ps ! j) t (ms ! j) \<and> reply_error mi (ms ! j) = None"
    using Cons.prems(3) p by (auto dest: spec [of _ "Suc _"])
  then have "receive_parts mi mid n t k' ch (map ReplyArrives ps @ ReplyArrives ping # rest) = Some (ms, True, None, rest)"
    using Cons.prems p k by (intro Cons.IH) auto
  then show ?case
    using hd Cons.prems(1)
    by (simp add: k p multiRequestCtx_ReceiveReply_def receiveReplyInternal_no_delay processReply_carries)
qed

theorem multipart_reply_witness:
  "receive_parts memclnt ex_ids 6 (ControlPingReply 0 0 0) 5 ex_ch
     [ReplyArrives (ex_reply 6), ReplyArrives (ex_reply 6), ReplyArrives ((ex_reply 6)\<lparr>rep_lastReceived := True\<rparr>), SlowTick] =
   Some ([ControlPingReply 0 7 9, ControlPingReply 0 7 9], True, None, [SlowTick])"
proof -
  have "\<forall>j < 2. rep_seqNum ([ex_reply 6, ex_reply 6] ! j) = 6 \<and>
      carries memclnt ex_ids ([ex_reply 6, ex_reply 6] ! j) (ControlPingReply 0 0 0)
        ([ControlPingReply 0 7 9, ControlPingReply 0 7 9] ! j) \<and>
      reply_error memclnt ([ControlPingReply 0 7 9, ControlPingReply 0 7 9] ! j) = None"
    using ex_carries ex_no_error by (simp add: less_2_cases_iff)
  then show ?thesis
    using multipart_reply [of ex_ch "[ex_reply 6, ex_reply 6]" "[ControlPingReply 0 7 9, ControlPingReply 0 7 9]" 6
        memclnt ex_ids "ControlPingReply 0 0 0" "(ex_reply 6)\<lparr>rep_lastReceived := True\<rparr>" 5 "[SlowTick]"]
    by (simp add: ex_reply_def)
qed

section \<open>Notifications\<close>

text \<open>What a subscriber's channel holds after an event was offered to it.\<close>

definition offered :: "'m gochan option \<Rightarrow> 'm \<Rightarrow> 'm gochan option" where
  "offered g e = (case g of None \<Rightarrow> None
     | Some g \<Rightarrow> Some (if length (gc_queue g) < gc_cap g then g\<lparr>gc_queue := gc_queue g @ [e]\<rparr> else g))"

lemma notify_one_offers:
  assumes "DecodeMsg mi data spare (Some (msg_New mi (sub_event s))) = Inr e"
    and "\<And>g. notif_store c (sub_notifChan s) = Some g \<Longrightarrow> \<not> gc_closed g"
  shows "notify_one mi data spare s c =
     Some (c\<lparr>notif_store := (notif_store c)(sub_notifChan s := offered (notif_store c (sub_notifChan s)) e)\<rparr>)"
  using assms by (cases "notif_store c (sub_notifChan s)")
    (auto simp: notify_one_def chan_send_def offered_def fun_upd_idem)

lemma notify_all_offers:
  assumes "\<forall>s \<in> set ss. DecodeMsg mi data spare (Some (msg_New mi (sub_event s))) = Inr (ev s)"
    and "\<forall>s \<in> set ss. \<forall>g. notif_store c (sub_notifChan s) = Some g \<longrightarrow> \<not> gc_closed g"
    and "distinct (map sub_notifChan ss)"
  shows "\<exists>c'. notify_all mi data spare ss c = Some c' \<and>
     (\<forall>s \<in> set ss. notif_store c' (sub_notifChan s) = offered (notif_store c (sub_notifChan s)) (ev s)) \<and>
     (\<forall>q. q \<notin> sub_notifChan ` set ss \<longrightarrow> notif_store c' q = notif_store c q)"
  using assms
proof (induction ss arbitrary: c)
  case (Cons s ss)
  let ?c1 = "c\<lparr>notif_store := (notif_store c)(sub_notifChan s := offered (notif_store c (sub_notifChan s)) (ev s))\<rparr>"
  have one: "notify_one mi data spare s c = Some ?c1"
    using Cons.prems by (intro notify_one_offers) auto
  have ne: "sub_notifChan x \<noteq> sub_notifChan s" if "x \<in> set ss" for x
    using Cons.prems(3) that by (metis distinct.simps(2) image_eqI list.set_map list.simps(9))
  have prems: "\<forall>x \<in> set ss. DecodeMsg mi data spare (Some (msg_New mi (sub_event x))) = Inr (ev x)"
      "\<forall>x \<in> set ss. \<forall>g. notif_store ?c1 (sub_notifChan x) = Some g \<longrightarrow> \<not> gc_closed g"
      "distinct (map sub_notifChan ss)"
    using Cons.prems ne by simp_all
  obtain c' where c': "notify_all mi data spare ss ?c1 = Some c'"
      "\<forall>x \<in> set ss. notif_store c' (sub_notifChan x) = offered (notif_store ?c1 (sub_notifChan x)) (ev x)"
      "\<forall>q. q \<notin> sub_notifChan ` set ss \<longrightarrow> notif_store c' q = notif_store ?c1 q"
    using Cons.IH [OF prems] by blast
  have "sub_notifChan s \<notin> sub_notifChan ` set ss"
    using Cons.prems(3) by simp
  then show ?case
    using one c' ne by auto
qed auto

text \<open>
  A message with context 0, or with an id somebody subscribed to, goes to every subscriber
  of that id and to nobody else: each subscriber's channel gets one new event appended if it has
  room and is left alone if it is full, no other notification channel changes, and no API channel
  receives the message.
\<close>

theorem notification_delivered:
  assumes "getMessageByID paths msgID c = Inr m" and "DecodeMsgContext data spare (GetMessageType mi m) = Some ctx"
    and "ctx = 0 \<or> subs_of c msgID \<noteq> []"
    and "\<forall>s \<in> set (subs_of c msgID). DecodeMsg mi data spare (Some (msg_New mi (sub_event s))) = Inr (ev s)"
    and "\<forall>s \<in> set (subs_of c msgID). \<forall>g. notif_store c (sub_notifChan s) = Some g \<longrightarrow> \<not> gc_closed g"
    and "distinct (map sub_notifChan (subs_of c msgID))"
  shows "\<exists>c'. msgCallback mi paths now d cs msgID data spare c = Some c' \<and>
     (\<forall>s \<in> set (subs_of c msgID). notif_store c' (sub_notifChan s) = offered (notif_store c (sub_notifChan s)) (ev s)) \<and>
     (\<forall>q. q \<notin> sub_notifChan ` set (subs_of c msgID) \<longrightarrow> notif_store c' q = notif_store c q) \<and>
     chan_store c' = chan_store c"
proof -
  obtain i mu n where u: "unpackRequestContext ctx = (i, mu, n)"
    by (cases "unpackRequestContext ctx")
  let ?c1 = "trace_received mi now i m data spare c"
  have subs: "subs_of ?c1 msgID = subs_of c msgID"
    by (simp add: subs_of_def trace_received_keeps)
  have notif: "ctx = 0 \<or> isNotificationMessage msgID ?c1"
    using assms(3) by (auto simp: isNotificationMessage_def trace_received_keeps subs_of_def split: option.splits)
  have "\<exists>c'. notify_all mi data spare (subs_of c msgID) ?c1 = Some c' \<and>
     (\<forall>s \<in> set (subs_of c msgID). notif_store c' (sub_notifChan s) = offered (notif_store ?c1 (sub_notifChan s)) (ev s)) \<and>
     (\<forall>q. q \<notin> sub_notifChan ` set (subs_of c msgID) \<longrightarrow> notif_store c' q = notif_store ?c1 q)"
    using assms(4-6) by (intro notify_all_offers) (simp_all add: trace_received_notif)
  then obtain c' where c': "notify_all mi data spare (subs_of c msgID) ?c1 = Some c'"
     "\<forall>s \<in> set (subs_of c msgID). notif_store c' (sub_notifChan s) = offered (notif_store c (sub_notifChan s)) (ev s)"
     "\<forall>q. q \<notin> sub_notifChan ` set (subs_of c msgID) \<longrightarrow> notif_store c' q = notif_store c q"
    by (auto simp: trace_received_notif)
  have "chan_store c' = chan_store c"
    using same_channels_notify_all [OF c'(1)] by (simp add: same_channels_def trace_received_keeps)
  moreover have "msgCallback mi paths now d cs msgID data spare c = Some c'"
    using assms(1,2) u notif c'(1) subs by (simp add: msgCallback_def sendNotifications_def)
  ultimately show ?thesis
    using c' by blast
qed

definition ex_sub :: "memclnt_msg subscriptionCtx" where
  "ex_sub = \<lparr>sub_ref = 8, sub_notifChan = 9, sub_msgID = 31, sub_event = ControlPingReply 0 0 0\<rparr>"

definition ex_subscribed :: "(memclnt_msg, unit) Connection" where
  "ex_subscribed = add_subscription ex_sub (ex_ready\<lparr>notif_store := [9 \<mapsto> \<lparr>gc_cap = 1, gc_queue = [], gc_closed = False\<rparr>]\<rparr>)"

lemma ex_subscribed_facts:
  "subs_of ex_subscribed 31 = [ex_sub]" "getMessageByID [''binapi''] 31 ex_subscribed = Inr (ControlPingReply 0 0 0)"
  "notif_store ex_subscribed 9 = Some \<lparr>gc_cap = 1, gc_queue = [], gc_closed = False\<rparr>"
proof -
  have "subs_of (ex_ready\<lparr>notif_store := x\<rparr>) 31 = []" for x
    using ex_ready_facts(8) [of 31] by (simp add: subs_of_def)
  then show "subs_of ex_subscribed 31 = [ex_sub]"
    by (simp add: ex_subscribed_def add_subscription_def ex_sub_def) (simp add: subs_of_def)
  show "getMessageByID [''binapi''] 31 ex_subscribed = Inr (ControlPingReply 0 0 0)"
    by (simp add: ex_subscribed_def add_subscription_def getMessageByID_def ex_ready_def)
  show "notif_store ex_subscribed 9 = Some \<lparr>gc_cap = 1, gc_queue = [], gc_closed = False\<rparr>"
    by (simp add: ex_subscribed_def add_subscription_def)
qed

theorem notification_delivered_witness:
  "\<exists>c'. msgCallback memclnt [''binapi''] 7 0 [] 31 (reply_data 31 0 (mc_body (ControlPingReply 0 7 9))) [] ex_subscribed = Some c' \<and>
     notif_store c' 9 = Some \<lparr>gc_cap = 1, gc_queue = [ControlPingReply 0 7 9], gc_closed = False\<rparr>"
proof -
  have dec: "DecodeMsg memclnt ((be_bytes 2 31 @ be_bytes 4 0) @ mc_body (ControlPingReply 0 7 9)) [] (Some (ControlPingReply 0 0 0)) =
      Inr (ControlPingReply 0 7 9)"
    by (rule mc.decode) (simp_all add: mc_same_type_def getOffset_def)
  then have dec': "DecodeMsg memclnt (reply_data 31 0 (mc_body (ControlPingReply 0 7 9))) [] (Some (ControlPingReply 0 0 0)) =
      Inr (ControlPingReply 0 7 9)"
    by (simp add: reply_data_def)
  show ?thesis
    using notification_delivered [of "[''binapi'']" 31 ex_subscribed "ControlPingReply 0 0 0"
        "reply_data 31 0 (mc_body (ControlPingReply 0 7 9))" "[]" memclnt 0 "\<lambda>_. ControlPingReply 0 7 9" 7 0 "[]"]
      ex_subscribed_facts dec'
    by (auto simp: reply_data_context ex_sub_def offered_def simp del: mc_body.simps)
qed

text \<open>Subscriptions: what \<open>Unsubscribe\<close> does, by the position of the subscription.\<close>

lemma find_sub_append: "sub_ref s \<notin> sub_ref ` set ss \<Longrightarrow> find_sub (sub_ref s) (ss @ s # rest) = Some (length ss)"
  by (induction ss) auto

lemma find_sub_None: "r \<notin> sub_ref ` set ss \<Longrightarrow> find_sub r ss = None"
  by (induction ss) auto

text \<open>
  Unsubscribing removes exactly the subscription that was made and closes its channel, so
  that the subscribers of the message are those from before, also when others subscribed in
  between; unsubscribing once more reports an error and changes nothing.
\<close>

theorem unsubscribe_undoes:
  assumes "subscriptions c (sub_msgID s) = Some (before @ s # later)"
    and "sub_ref s \<notin> sub_ref ` set before" and "sub_ref s \<notin> sub_ref ` set later"
    and "notif_store c (sub_notifChan s) = Some g" and "\<not> gc_closed g"
  shows "\<exists>c'. Unsubscribe s c = Some (None, c') \<and> subscriptions c' = (subscriptions c)(sub_msgID s \<mapsto> before @ later) \<and>
     notif_store c' = (notif_store c)(sub_notifChan s \<mapsto> g\<lparr>gc_closed := True\<rparr>) \<and>
     Unsubscribe s c' = Some (Some (ErrMsg ''subscription not found''), c')"
proof -
  let ?c' = "c\<lparr>notif_store := (notif_store c)(sub_notifChan s \<mapsto> g\<lparr>gc_closed := True\<rparr>),
      subscriptions := (subscriptions c)(sub_msgID s \<mapsto> before @ later)\<rparr>"
  have "find_sub (sub_ref s) (before @ s # later) = Some (length before)"
    by (rule find_sub_append [OF assms(2)])
  then have "Unsubscribe s c = Some (None, ?c')"
    using assms(1,4,5) by (simp add: Unsubscribe_def subs_of_def chan_close_def)
  moreover have "find_sub (sub_ref s) (before @ later) = None"
    using assms(2,3) by (intro find_sub_None) auto
  then have "Unsubscribe s ?c' = Some (Some (ErrMsg ''subscription not found''), ?c')"
    by (simp add: Unsubscribe_def subs_of_def)
  ultimately show ?thesis
    by (intro exI [of _ ?c']) simp
qed

theorem unsubscribe_undoes_witness:
  "\<exists>c'. Unsubscribe ex_sub ex_subscribed = Some (None, c') \<and> subs_of c' 31 = []"
proof -
  have "subscriptions ex_subscribed (sub_msgID ex_sub) = Some ([] @ ex_sub # [])"
    using ex_subscribed_facts(1) by (simp add: subs_of_def ex_sub_def split: option.splits)
  from unsubscribe_undoes [OF this] show ?thesis
    using ex_subscribed_facts(3) by (fastforce simp: ex_sub_def subs_of_def)
qed

section \<open>The message table\<close>

lemma retrieve_one_ids: "GetMessageID mi api (Some (retrieve_one mi api p x c)) m = GetMessageID mi api (Some c) m"
  by (auto simp: retrieve_one_def GetMessageID_def Let_def split: sum.splits)

lemma retrieve_one_other: "q \<noteq> p \<Longrightarrow> msgMapByPath (retrieve_one mi api p x c) q = msgMapByPath c q"
  by (auto simp: retrieve_one_def Let_def split: sum.splits)

lemma fold_retrieve_one_ids:
  "GetMessageID mi api (Some (fold (retrieve_one mi api p) ms c)) m = GetMessageID mi api (Some c) m"
  by (induction ms arbitrary: c) (simp_all add: retrieve_one_ids)

lemma fold_retrieve_one_other: "q \<noteq> p \<Longrightarrow> msgMapByPath (fold (retrieve_one mi api p) ms c) q = msgMapByPath c q"
  by (induction ms arbitrary: c) (simp_all add: retrieve_one_other)

lemma retrieve_one_here:
  assumes "msgMapByPath c p = Some t"
  shows "msgMapByPath (retrieve_one mi api p x c) p =
     Some (case GetMessageID mi api (Some c) x of Inl _ \<Rightarrow> t | Inr i \<Rightarrow> t(i \<mapsto> x))"
  using assms by (auto simp: retrieve_one_def Let_def split: sum.splits)

text \<open>The table of one path holds, for an id, the last registered message with that id.\<close>

lemma fold_retrieve_one_here:
  assumes "msgMapByPath c p = Some t"
  shows "msgMapByPath (fold (retrieve_one mi api p) ms c) p =
     Some (fold (\<lambda>x t. case GetMessageID mi api (Some c) x of Inl _ \<Rightarrow> t | Inr i \<Rightarrow> t(i \<mapsto> x)) ms t)"
  using assms
proof (induction ms arbitrary: c t)
  case (Cons x ms)
  show ?case
    using Cons.IH [OF retrieve_one_here [OF Cons.prems]] by (simp add: retrieve_one_ids)
qed simp

definition id_table :: "('m \<Rightarrow> gerr + u16) \<Rightarrow> 'm list \<Rightarrow> u16 \<rightharpoonup> 'm" where
  "id_table f ms = fold (\<lambda>x t. case f x of Inl _ \<Rightarrow> t | Inr i \<Rightarrow> t(i \<mapsto> x)) ms Map.empty"

lemma fold_table_lookup:
  "fold (\<lambda>x t. case f x of Inl _ \<Rightarrow> t | Inr i \<Rightarrow> t(i \<mapsto> x)) ms t i = Some m \<Longrightarrow>
   (m \<in> set ms \<and> f m = Inr i) \<or> t i = Some m"
proof (induction ms arbitrary: t)
  case (Cons x ms)
  then show ?case
    by (cases "f x") (fastforce split: if_splits)+
qed simp

lemma fold_table_keeps:
  "\<forall>x \<in> set ms. f x = Inr i \<longrightarrow> x = m \<Longrightarrow> t i = Some m \<or> (m \<in> set ms \<and> f m = Inr i) \<Longrightarrow>
   fold (\<lambda>x t. case f x of Inl _ \<Rightarrow> t | Inr i \<Rightarrow> t(i \<mapsto> x)) ms t i = Some m"
proof (induction ms arbitrary: t)
  case (Cons x ms)
  show ?case
    using Cons.prems by (cases "f x") (auto intro!: Cons.IH split: if_splits)
qed simp

lemma id_table_iff:
  assumes "\<forall>x \<in> set ms. \<forall>y \<in> set ms. \<forall>i. f x = Inr i \<and> f y = Inr i \<longrightarrow> x = y"
  shows "id_table f ms i = Some m \<longleftrightarrow> m \<in> set ms \<and> f m = Inr i"
proof
  assume "id_table f ms i = Some m"
  then show "m \<in> set ms \<and> f m = Inr i"
    unfolding id_table_def by (auto dest: fold_table_lookup)
next
  assume "m \<in> set ms \<and> f m = Inr i"
  then show "id_table f ms i = Some m"
    using assms unfolding id_table_def by (intro fold_table_keeps) blast+
qed

lemma retrieve_path_ids: "GetMessageID mi api (Some (retrieve_path mi api e c)) m = GetMessageID mi api (Some c) m"
  by (simp add: retrieve_path_def fold_retrieve_one_ids) (simp add: GetMessageID_def)

lemma retrieve_path_table:
  "msgMapByPath (retrieve_path mi api e c) q =
     (if q = fst e then Some (id_table (GetMessageID mi api (Some c)) (snd e)) else msgMapByPath c q)"
  using fold_retrieve_one_here [of "c\<lparr>msgMapByPath := (msgMapByPath c)(fst e \<mapsto> Map.empty)\<rparr>" "fst e" Map.empty mi api "snd e"]
    fold_retrieve_one_other [of q "fst e" mi api "snd e"]
  by (simp add: retrieve_path_def id_table_def) (simp add: GetMessageID_def)

lemma fold_retrieve_path_table:
  "distinct (map fst regs) \<Longrightarrow>
   msgMapByPath (fold (retrieve_path mi api) regs c) q =
     (case map_of regs q of Some ms \<Rightarrow> Some (id_table (GetMessageID mi api (Some c)) ms) | None \<Rightarrow> msgMapByPath c q)"
proof (induction regs arbitrary: c)
  case (Cons e regs)
  have "map_of regs (fst e) = None"
    using Cons.prems by (simp add: map_of_eq_None_iff)
  moreover have "GetMessageID mi api (Some (retrieve_path mi api e c)) = GetMessageID mi api (Some c)"
    by (rule ext) (rule retrieve_path_ids)
  ultimately show ?case
    using Cons by (auto simp: retrieve_path_table split: option.splits)
qed simp

text \<open>
  After a successful connect the connection is marked connected and its message table
  agrees with the adapter: provided the adapter gives different messages of a package different
  ids, looking up an id under a registered package path finds exactly the registered message of
  that path whose name and checksum the adapter maps to this id.
\<close>

theorem connect_message_table:
  assumes "connectVPP mi api regs c = (None, c')" and "distinct (map fst regs)" and "(p, ms) \<in> set regs"
    and "\<forall>x \<in> set ms. \<forall>y \<in> set ms. \<forall>i. GetMessageID mi api (Some c') x = Inr i \<and> GetMessageID mi api (Some c') y = Inr i \<longrightarrow> x = y"
  shows "vppConnected c' \<and>
     (LookupByID (Some c') p i = Inr m \<longleftrightarrow> m \<in> set ms \<and> GetMessageID mi api (Some c') m = Inr i) \<and>
     (\<exists>a. api_Connect api (vppClient c) = (None, a) \<and> vppClient c' = a)"
proof -
  obtain err a where a: "api_Connect api (vppClient c) = (err, a)"
    by fastforce
  let ?c1 = "c\<lparr>vppClient := a\<rparr>"
  have err: "err = None" and c': "c' = fold (retrieve_path mi api) regs ?c1\<lparr>vppConnected := True\<rparr>"
    using assms(1) a by (auto simp: connectVPP_def retrieveMessageIDs_def Let_def split: if_splits)
  have vc: "vppClient c' = a"
    by (simp add: c' retrieve_keeps)
  then have ids: "GetMessageID mi api (Some c') = GetMessageID mi api (Some ?c1)"
    by (intro ext) (simp add: GetMessageID_def)
  have "msgMapByPath c' p = Some (id_table (GetMessageID mi api (Some c')) ms)"
    using fold_retrieve_path_table [OF assms(2), of mi api ?c1 p] map_of_is_SomeI [OF assms(2,3)]
    by (simp add: c' ids [unfolded c'])
  then have "LookupByID (Some c') p i = Inr m \<longleftrightarrow> m \<in> set ms \<and> GetMessageID mi api (Some c') m = Inr i"
    using id_table_iff [OF assms(4), of i m] by (auto simp: LookupByID_def split: option.splits)
  then show ?thesis
    using a err vc by (simp add: c')
qed

theorem connect_message_table_witness:
  "\<exists>c'. connectVPP memclnt idle_api [(''binapi'', [ControlPing, ControlPingReply 0 0 0, SockclntDelete 0])] ex_conn = (None, c') \<and>
     LookupByID (Some c') ''binapi'' 31 = Inr (ControlPingReply 0 0 0)"
proof -
  let ?regs = "[(''binapi'', [ControlPing, ControlPingReply 0 0 0, SockclntDelete 0])]"
  obtain c' where c': "connectVPP memclnt idle_api ?regs ex_conn = (None, c')"
    by (simp add: connectVPP_def idle_api_def retrieveMessageIDs_def)
  show ?thesis
    using connect_message_table [OF c', of "''binapi''" "[ControlPing, ControlPingReply 0 0 0, SockclntDelete 0]" 31
        "ControlPingReply 0 0 0"] c'
    by (simp add: GetMessageID_def idle_api_def)
qed

end
