(* ===== verification/CoreLoops.thy ===== *)
theory CoreLoops
  imports CoreProps
begin

text \<open>
  The background loops of an asynchronous connection (\<open>core/connection.go\<close>): connecting with a bounded
  number of attempts, and watching the health of the connection. Timers and the shutdown signal
  are arguments: for the connect loop, whether the shutdown signal or the reconnect timer is
  chosen after each failed attempt; for the health check, the sequence of what its \<open>select\<close>
  statements receive. A run whose events end before the loop does is still running: \<open>None\<close>.
\<close>

datatype backgroundLoopStatus = terminate | resume

section \<open>The connect loop\<close>

definition try_connect ::
  "'m msg_iface \<Rightarrow> 'a vpp_api \<Rightarrow> (string \<times> 'm list) list \<Rightarrow> ('m, 'a) Connection \<Rightarrow> gerr option \<times> ('m, 'a) Connection" where
  "try_connect mi api regs c =
     (let (_, a) = api_WaitReady api (vppClient c) in connectVPP mi api regs (c\<lparr>vppClient := a\<rparr>))"

text \<open>\<open>shutdown k\<close>: after the \<open>k\<close>-th failed attempt the shutdown signal is received.\<close>

function connectLoop_from ::
  "'m msg_iface \<Rightarrow> 'a vpp_api \<Rightarrow> (string \<times> 'm list) list \<Rightarrow> (int \<Rightarrow> bool) \<Rightarrow> int \<Rightarrow> int \<Rightarrow> int \<Rightarrow>
     ('m, 'a) Connection \<Rightarrow> backgroundLoopStatus \<times> ('m, 'a) Connection" where
  "connectLoop_from mi api regs shutdown now maxAtt reconnectAttempts c =
     (let (err, c1) = try_connect mi api regs c in
      if err = None then (resume, sendConnEvent \<lparr>ev_Timestamp = now, ev_State = Connected, ev_Error = None\<rparr> c1)
      else if reconnectAttempts < maxAtt then
        (if shutdown (reconnectAttempts + 1) then (terminate, c1)
         else connectLoop_from mi api regs shutdown now maxAtt (reconnectAttempts + 1) c1)
      else (terminate, sendConnEvent \<lparr>ev_Timestamp = now, ev_State = Failed, ev_Error = err\<rparr> c1))"
  by pat_completeness auto
termination
  by (relation "measure (\<lambda>(mi, api, regs, shutdown, now, maxAtt, att, c). nat (maxAtt - att))") auto

declare connectLoop_from.simps [simp del]

definition connectLoop ::
  "'m msg_iface \<Rightarrow> 'a vpp_api \<Rightarrow> (string \<times> 'm list) list \<Rightarrow> (int \<Rightarrow> bool) \<Rightarrow> int \<Rightarrow>
     ('m, 'a) Connection \<Rightarrow> backgroundLoopStatus \<times> ('m, 'a) Connection" where
  "connectLoop mi api regs shutdown now c = connectLoop_from mi api regs shutdown now (maxAttempts c) 0 c"

section \<open>The health check loop\<close>

definition HealthCheckReplyTimeout :: int where "HealthCheckReplyTimeout = 250000000"
definition HealthCheckThreshold :: nat where "HealthCheckThreshold = 2"

text \<open>
  While a probe is out, its reply arrives (with the error it carries) or the reply timer fires; the
  timer finds how long ago any reply was received.
\<close>

datatype probe_event = ProbeReply "gerr option" | ProbeTimer int

fun probe_wait :: "probe_event list \<Rightarrow> gerr option option" where
  "probe_wait [] = None"
| "probe_wait (ProbeReply err # evs) = Some err"
| "probe_wait (ProbeTimer sinceLastReply # evs) =
     (if sinceLastReply < HealthCheckReplyTimeout then probe_wait evs else Some (Some ErrProbeTimeout))"

datatype health_event = HealthDone | HealthTick "probe_event list"

text \<open>What one probe does to the loop: go on with a new count of failed checks, or report a state.\<close>

datatype health_outcome = HealthOn nat | HealthReport ConnectionState "gerr option"

definition health_verdict :: "nat \<Rightarrow> gerr option \<Rightarrow> health_outcome" where
  "health_verdict failedChecks err =
     (case err of
        Some e \<Rightarrow>
          if errors_is e ErrProbeTimeout
          then (if failedChecks + 1 > HealthCheckThreshold then HealthReport NotResponding None
                else HealthOn (failedChecks + 1))
          else HealthReport Disconnected (Some e)
      | None \<Rightarrow> HealthOn 0)"

fun health_from ::
  "'a vpp_api \<Rightarrow> int \<Rightarrow> nat \<Rightarrow> health_event list \<Rightarrow> ('m, 'a) Connection \<Rightarrow>
     (backgroundLoopStatus \<times> ('m, 'a) Connection) option" where
  "health_from api now failedChecks [] c = None"
| "health_from api now failedChecks (HealthDone # evs) c = Some (terminate, c)"
| "health_from api now failedChecks (HealthTick probe # evs) c =
     (case probe_wait probe of
        None \<Rightarrow> None
      | Some err \<Rightarrow>
         (case health_verdict failedChecks err of
            HealthOn n \<Rightarrow> health_from api now n evs c
          | HealthReport st e \<Rightarrow>
              Some (resume, disconnectVPP api
                (sendConnEvent \<lparr>ev_Timestamp = now, ev_State = st, ev_Error = e\<rparr> c))))"

text \<open>The loop opens an API channel for its probes and closes it when it returns.\<close>

definition healthCheckLoop ::
  "'a vpp_api \<Rightarrow> int \<Rightarrow> nat option \<Rightarrow> health_event list \<Rightarrow> ('m, 'a) Connection \<Rightarrow>
     (backgroundLoopStatus \<times> ('m, 'a) Connection) option" where
  "healthCheckLoop api now pick evs c =
     (case newAPIChannel pick 1 1 (Some c) of
        (Inr r, Some c1) \<Rightarrow>
          do { (st, c2) \<leftarrow> health_from api now 0 evs c1;
               c3 \<leftarrow> with_channel r Channel_Close c2;
               Some (st, c3) }
      | (_, Some c1) \<Rightarrow> Some (terminate, c1)
      | (_, None) \<Rightarrow> Some (terminate, c))"

record background_round =
  br_shutdown :: "int \<Rightarrow> bool"
  br_pick :: "nat option"
  br_events :: "health_event list"
  br_now :: int

text \<open>\<open>backgroudConnectionLoop\<close>: alternate the two loops until one of them terminates.\<close>

fun backgroudConnectionLoop ::
  "'m msg_iface \<Rightarrow> 'a vpp_api \<Rightarrow> (string \<times> 'm list) list \<Rightarrow> background_round list \<Rightarrow>
     ('m, 'a) Connection \<Rightarrow> ('m, 'a) Connection option" where
  "backgroudConnectionLoop mi api regs [] c = None"
| "backgroudConnectionLoop mi api regs (b # bs) c =
     (case connectLoop mi api regs (br_shutdown b) (br_now b) c of
        (terminate, c1) \<Rightarrow> Some c1
      | (resume, c1) \<Rightarrow>
         (case healthCheckLoop api (br_now b) (br_pick b) (br_events b) c1 of
            None \<Rightarrow> None
          | Some (terminate, c2) \<Rightarrow> Some c2
          | Some (resume, c2) \<Rightarrow> backgroudConnectionLoop mi api regs bs c2))"

section \<open>Properties of the connect loop\<close>

text \<open>The connection after \<open>k\<close> attempts, and whether the next attempt succeeds.\<close>

fun after_attempts ::
  "'m msg_iface \<Rightarrow> 'a vpp_api \<Rightarrow> (string \<times> 'm list) list \<Rightarrow> nat \<Rightarrow> ('m, 'a) Connection \<Rightarrow> ('m, 'a) Connection" where
  "after_attempts mi api regs 0 c = c"
| "after_attempts mi api regs (Suc k) c = after_attempts mi api regs k (snd (try_connect mi api regs c))"

definition attempt_error ::
  "'m msg_iface \<Rightarrow> 'a vpp_api \<Rightarrow> (string \<times> 'm list) list \<Rightarrow> nat \<Rightarrow> ('m, 'a) Connection \<Rightarrow> gerr option" where
  "attempt_error mi api regs k c = fst (try_connect mi api regs (after_attempts mi api regs k c))"

lemma attempt_error_Suc:
  "attempt_error mi api regs (Suc k) c = attempt_error mi api regs k (snd (try_connect mi api regs c))"
  by (simp add: attempt_error_def)

lemma connectLoop_success:
  assumes "\<forall>j < k. attempt_error mi api regs j c \<noteq> None" and "attempt_error mi api regs k c = None"
    and "int k \<le> m - a" and "\<forall>j. a < j \<and> j \<le> a + int k \<longrightarrow> \<not> shutdown j"
  shows "connectLoop_from mi api regs shutdown now m a c =
    (resume, sendConnEvent \<lparr>ev_Timestamp = now, ev_State = Connected, ev_Error = None\<rparr>
       (after_attempts mi api regs (Suc k) c))"
  using assms
proof (induction k arbitrary: a c)
  case 0
  then show ?case
    by (cases "try_connect mi api regs c") (simp add: connectLoop_from.simps [of _ _ _ _ _ _ a] attempt_error_def)
next
  case (Suc k)
  obtain e c1 where t: "try_connect mi api regs c = (e, c1)"
    by fastforce
  then obtain x where "e = Some x"
    using Suc.prems(1) by (auto simp: attempt_error_def dest: spec [of _ 0])
  moreover have "connectLoop_from mi api regs shutdown now m (a + 1) c1 =
      (resume, sendConnEvent \<lparr>ev_Timestamp = now, ev_State = Connected, ev_Error = None\<rparr>
         (after_attempts mi api regs (Suc k) c1))"
    using Suc.prems t attempt_error_Suc [of mi api regs _ c]
    by (intro Suc.IH) (auto dest: spec [of _ "Suc _"])
  ultimately show ?case
    using t Suc.prems(3,4) by (simp add: connectLoop_from.simps [of _ _ _ _ _ _ a])
qed

lemma connectLoop_failure:
  assumes "\<forall>j \<le> k. attempt_error mi api regs j c \<noteq> None" and "m - a \<le> int k" and "int k \<le> max 0 (m - a)"
    and "\<forall>j. a < j \<and> j \<le> a + int k \<longrightarrow> \<not> shutdown j"
  shows "connectLoop_from mi api regs shutdown now m a c =
    (terminate, sendConnEvent \<lparr>ev_Timestamp = now, ev_State = Failed, ev_Error = attempt_error mi api regs k c\<rparr>
       (after_attempts mi api regs (Suc k) c))"
  using assms
proof (induction k arbitrary: a c)
  case 0
  then show ?case
    by (cases "try_connect mi api regs c") (auto simp: connectLoop_from.simps [of _ _ _ _ _ _ a] attempt_error_def)
next
  case (Suc k)
  obtain e c1 where t: "try_connect mi api regs c = (e, c1)"
    by fastforce
  then obtain x where "e = Some x"
    using Suc.prems(1) by (auto simp: attempt_error_def dest: spec [of _ 0])
  moreover have "connectLoop_from mi api regs shutdown now m (a + 1) c1 =
      (terminate, sendConnEvent \<lparr>ev_Timestamp = now, ev_State = Failed, ev_Error = attempt_error mi api regs k c1\<rparr>
         (after_attempts mi api regs (Suc k) c1))"
    using Suc.prems t attempt_error_Suc [of mi api regs _ c]
    by (intro Suc.IH) (auto dest: spec [of _ "Suc _"])
  ultimately show ?case
    using t Suc.prems(2-4) attempt_error_Suc [of mi api regs k c]
    by (simp add: connectLoop_from.simps [of _ _ _ _ _ _ a])
qed

text \<open>
  C29 (termination). The connect loop of a connection that allows \<open>m\<close> reconnect attempts makes at most
  \<open>m + 1\<close> attempts: it resumes with a Connected event at the first attempt that succeeds, and if
  the first \<open>m + 1\<close> attempts fail it terminates with a Failed event carrying the last error.
\<close>

theorem connectLoop_attempts:
  assumes "maxAttempts c = int m" and "\<forall>j. \<not> shutdown j"
  shows "(\<forall>k \<le> m. (\<forall>j < k. attempt_error mi api regs j c \<noteq> None) \<and> attempt_error mi api regs k c = None \<longrightarrow>
      connectLoop mi api regs shutdown now c =
        (resume, sendConnEvent \<lparr>ev_Timestamp = now, ev_State = Connected, ev_Error = None\<rparr> (after_attempts mi api regs (Suc k) c))) \<and>
    ((\<forall>j \<le> m. attempt_error mi api regs j c \<noteq> None) \<longrightarrow>
      connectLoop mi api regs shutdown now c =
        (terminate, sendConnEvent \<lparr>ev_Timestamp = now, ev_State = Failed, ev_Error = attempt_error mi api regs m c\<rparr>
          (after_attempts mi api regs (Suc m) c)))"
  using assms connectLoop_success [of _ mi api regs c "int m" 0 shutdown now]
    connectLoop_failure [of m mi api regs c "int m" 0 shutdown now]
  by (auto simp: connectLoop_def)

lemma failing_attempts:
  assumes "\<And>a. api_Connect api a = (Some e, a)" and "\<And>a. api_WaitReady api a = (None, a)"
  shows "attempt_error mi api regs k c = Some e \<and> after_attempts mi api regs k c = c"
proof -
  have t: "try_connect mi api regs c = (Some e, c)" for c
    using assms by (simp add: try_connect_def connectVPP_def)
  then have "after_attempts mi api regs k c = c"
    by (induction k) simp_all
  then show ?thesis
    using t by (simp add: attempt_error_def)
qed

theorem connectLoop_attempts_witness:
  "fst (connectLoop memclnt (idle_api\<lparr>api_Connect := \<lambda>a. (Some ErrClosed, a)\<rparr>) [] (\<lambda>_. False) 5 ex_conn) = terminate \<and>
   fst (connectLoop memclnt idle_api [] (\<lambda>_. False) 5 ex_conn) = resume"
proof -
  have m: "maxAttempts ex_conn = int 3"
    by (simp add: ex_conn_def newConnection_def DefaultMaxReconnectAttempts_def)
  have f: "attempt_error memclnt (idle_api\<lparr>api_Connect := \<lambda>a. (Some ErrClosed, a)\<rparr>) [] j ex_conn = Some ErrClosed" for j
    using failing_attempts [of "idle_api\<lparr>api_Connect := \<lambda>a. (Some ErrClosed, a)\<rparr>" ErrClosed memclnt "[]" j ex_conn]
    by (simp add: idle_api_def)
  have s: "attempt_error memclnt idle_api [] 0 ex_conn = None"
    by (simp add: attempt_error_def try_connect_def connectVPP_def retrieveMessageIDs_def idle_api_def)
  show ?thesis
    using connectLoop_attempts [OF m, of "\<lambda>_. False" memclnt "idle_api\<lparr>api_Connect := \<lambda>a. (Some ErrClosed, a)\<rparr>" "[]" 5]
      connectLoop_attempts [OF m, of "\<lambda>_. False" memclnt idle_api "[]" 5] f s by auto
qed

section \<open>Properties of the health check\<close>

text \<open>A probe that ends in a timeout, and one that is answered without error.\<close>

definition probe_times_out :: "probe_event list \<Rightarrow> bool" where
  "probe_times_out p \<longleftrightarrow> (\<exists>e. probe_wait p = Some (Some e) \<and> errors_is e ErrProbeTimeout)"

definition probe_ok :: "probe_event list \<Rightarrow> bool" where
  "probe_ok p \<longleftrightarrow> probe_wait p = Some None"

text \<open>Somewhere three probes in a row time out.\<close>

fun three_timeouts :: "probe_event list list \<Rightarrow> bool" where
  "three_timeouts (a # b # c # ps) =
     ((probe_times_out a \<and> probe_times_out b \<and> probe_times_out c) \<or> three_timeouts (b # c # ps))"
| "three_timeouts _ = False"

text \<open>The counter of the loop: \<open>k\<close> timeouts came right before.\<close>

fun timeout_run :: "nat \<Rightarrow> probe_event list list \<Rightarrow> bool" where
  "timeout_run k [] = False"
| "timeout_run k (p # ps) =
     (if probe_times_out p then k + 1 > HealthCheckThreshold \<or> timeout_run (k + 1) ps else timeout_run 0 ps)"

lemma timeout_run_three:
  "timeout_run 0 ps = three_timeouts ps \<and>
   timeout_run 1 ps = (three_timeouts ps \<or> (\<exists>a b r. ps = a # b # r \<and> probe_times_out a \<and> probe_times_out b)) \<and>
   timeout_run 2 ps = (three_timeouts ps \<or> (\<exists>a r. ps = a # r \<and> probe_times_out a))"
proof (induction ps rule: three_timeouts.induct)
  case (1 a b c ps)
  then show ?case
    by (auto simp: HealthCheckThreshold_def numeral_2_eq_2)
qed (auto simp: HealthCheckThreshold_def)

lemma health_from_run:
  assumes "list_all (\<lambda>p. probe_times_out p \<or> probe_ok p) ps"
  shows "health_from api now k (map HealthTick ps) c =
    (if timeout_run k ps
     then Some (resume, disconnectVPP api (sendConnEvent \<lparr>ev_Timestamp = now, ev_State = NotResponding, ev_Error = None\<rparr> c))
     else None)"
  using assms
proof (induction ps arbitrary: k)
  case (Cons p ps)
  then show ?case
    by (auto simp: probe_times_out_def probe_ok_def health_verdict_def)
qed simp

text \<open>
  C30 (functional). As long as every probe is either answered or timed out, the health check keeps running
  until three probes in a row timed out (more than the threshold of two); then, and not before,
  it reports NotResponding once, disconnects from VPP and hands over to the connect loop. An
  answered probe resets the count. The comment of \<open>HealthCheckThreshold\<close> calls it the number of failed
  checks until the error is reported; the code compares with \<open>>\<close>, so as many failed checks as the threshold says
  are not reported, and the error comes with the next one.
\<close>

theorem health_check_threshold:
  assumes "list_all (\<lambda>p. probe_times_out p \<or> probe_ok p) ps"
  shows "health_from api now 0 (map HealthTick ps) c =
    (if three_timeouts ps
     then Some (resume, disconnectVPP api (sendConnEvent \<lparr>ev_Timestamp = now, ev_State = NotResponding, ev_Error = None\<rparr> c))
     else None) \<and>
    (length ps = HealthCheckThreshold \<longrightarrow> health_from api now 0 (map HealthTick ps) c = None)"
  using health_from_run [OF assms, of api now 0 c] timeout_run_three [of ps] by (auto simp: HealthCheckThreshold_def length_Suc_conv numeral_2_eq_2)

theorem health_check_threshold_witness:
  "health_from idle_api 5 0 (map HealthTick [[ProbeTimer 300000000], [ProbeReply None], [ProbeTimer 300000000]]) ex_conn = None \<and>
   fst (the (health_from idle_api 5 0 (map HealthTick (replicate 3 [ProbeTimer 10, ProbeTimer 300000000])) ex_conn)) = resume"
  using health_check_threshold [of "[[ProbeTimer 300000000], [ProbeReply None], [ProbeTimer 300000000]]" idle_api 5 ex_conn]
    health_check_threshold [of "replicate 3 [ProbeTimer 10, ProbeTimer 300000000]" idle_api 5 ex_conn]
  by (simp add: probe_times_out_def probe_ok_def HealthCheckReplyTimeout_def numeral_3_eq_3)

text \<open>
  A probe whose reply carries an error other than the probe timeout ends the health check at
  once: it reports Disconnected with this error, disconnects and hands over to the connect loop.
  The shutdown signal ends it without an event.
\<close>

theorem health_check_error:
  assumes "probe_wait p = Some (Some e)" and "\<not> errors_is e ErrProbeTimeout"
  shows "health_from api now k (HealthTick p # evs) c =
      Some (resume, disconnectVPP api (sendConnEvent \<lparr>ev_Timestamp = now, ev_State = Disconnected, ev_Error = Some e\<rparr> c)) \<and>
    health_from api now k (HealthDone # evs) c = Some (terminate, c)"
  using assms by (simp add: health_verdict_def)

theorem health_check_error_witness:
  "\<exists>c. health_from idle_api 5 2 [HealthTick [ProbeReply (Some (ErrWrap ''unable to process request'' ErrNotConnected))]] ex_conn =
     Some (resume, c)"
  using health_check_error [of "[ProbeReply (Some (ErrWrap ''unable to process request'' ErrNotConnected))]"
      "ErrWrap ''unable to process request'' ErrNotConnected" idle_api 5 2 "[]" ex_conn]
  by simp

end
