(* ===== verification/CoreStream.thy ===== *)
theory CoreStream
  imports CoreFlow
begin

text \<open>
  The stream API of \<open>core/stream.go\<close>: a stream owns a channel without a watching goroutine and sends
  its requests directly; \<open>Invoke\<close> is one request and one reply on a stream of its own; a watcher
  forwards the events of a subscription. What a \<open>select\<close> receives is an argument, and a call whose
  choice cannot proceed is blocked (\<open>None\<close>).
\<close>

record Stream =
  st_open :: bool
  st_channel :: ref
  st_replyTimeout :: int
  st_pkgPath :: string

datatype stream_option = WithRequestSize nat | WithReplySize nat | WithReplyTimeout int

record stream_opts =
  so_requestSize :: nat
  so_replySize :: nat
  so_replyTimeout :: int

fun apply_option :: "stream_option \<Rightarrow> stream_opts \<Rightarrow> stream_opts" where
  "apply_option (WithRequestSize n) o1 = o1\<lparr>so_requestSize := n\<rparr>"
| "apply_option (WithReplySize n) o1 = o1\<lparr>so_replySize := n\<rparr>"
| "apply_option (WithReplyTimeout t) o1 = o1\<lparr>so_replyTimeout := t\<rparr>"

definition NewStream ::
  "nat option \<Rightarrow> stream_option list \<Rightarrow> ('m, 'a) Connection option \<Rightarrow> (gerr + Stream) \<times> ('m, 'a) Connection option" where
  "NewStream pick options c =
     (case c of None \<Rightarrow> (Inl (ErrMsg ''nil connection passed in''), None)
      | Some c \<Rightarrow>
         (let s = fold apply_option options \<lparr>so_requestSize = RequestChanBufSize, so_replySize = ReplyChanBufSize,
                    so_replyTimeout = DefaultReplyTimeout\<rparr> in
          case newChannel pick (so_requestSize s) (so_replySize s) c of
            (Inl err, c1) \<Rightarrow> (Inl err, Some c1)
          | (Inr r, c1) \<Rightarrow>
              (Inr \<lparr>st_open = True, st_channel = r, st_replyTimeout = so_replyTimeout s, st_pkgPath = []\<rparr>,
               Some (c1\<lparr>chan_store := (chan_store c1)(r := map_option (SetReplyTimeout (so_replyTimeout s)) (chan_store c1 r))\<rparr>))))"

definition Stream_Close :: "Stream \<Rightarrow> ('m, 'a) Connection \<Rightarrow> gerr option \<times> Stream \<times> ('m, 'a) Connection" where
  "Stream_Close s c =
     (if \<not> st_open s then (Some (ErrMsg ''stream closed''), s, c)
      else (None, s\<lparr>st_open := False\<rparr>, releaseAPIChannel (st_channel s) c))"

definition Stream_SendMsg ::
  "'m msg_iface \<Rightarrow> 'a vpp_api \<Rightarrow> int \<Rightarrow> 'm \<Rightarrow> Stream \<Rightarrow> ('m, 'a) Connection \<Rightarrow> gerr option \<times> Stream \<times> ('m, 'a) Connection" where
  "Stream_SendMsg mi api now msg s c =
     (if \<not> st_open s then (Some (ErrMsg ''stream closed''), s, c)
      else case chan_store c (st_channel s) of
        None \<Rightarrow> (Some ErrClosed, s, c)
      | Some ch \<Rightarrow>
         (let (req, ch') = newRequest ch msg False;
              (err, c1) = processRequest mi api now (ch_id ch) req (c\<lparr>chan_store := (chan_store c)(st_channel s \<mapsto> ch')\<rparr>)
          in if err \<noteq> None then (err, s, c1)
             else (None, s\<lparr>st_pkgPath := GetMessagePath mi msg\<rparr>, c1)))"

text \<open>The \<open>select\<close> of \<open>recvReply\<close>: take a reply, the timeout, or the end of the context (with its error).\<close>

datatype recv_choice = TakeReply | ReplyTimer | CtxDone gerr

definition recvReply ::
  "recv_choice \<Rightarrow> Stream \<Rightarrow> ('m, 'a) Connection \<Rightarrow> ((gerr + vppReply) \<times> ('m, 'a) Connection) option" where
  "recvReply choice s c =
     (if \<not> st_open s then Some (Inl (ErrMsg ''stream closed''), c)
      else case choice of
        CtxDone e \<Rightarrow> Some (Inl e, c)
      | ReplyTimer \<Rightarrow> if st_replyTimeout s > 0 then Some (Inl (ErrWrap '''' ErrReplyTimeout), c) else None
      | TakeReply \<Rightarrow>
         (case chan_store c (st_channel s) of
            None \<Rightarrow> None
          | Some ch \<Rightarrow>
             (case chan_recv (replyChan ch) of
                RecvBlocks \<Rightarrow> None
              | RecvClosed \<Rightarrow> Some (Inl (ErrMsg ''reply channel closed''), c)
              | Received reply g \<Rightarrow>
                 (let c1 = c\<lparr>chan_store := (chan_store c)(st_channel s \<mapsto> ch\<lparr>replyChan := Some g\<rparr>)\<rparr> in
                  case rep_err reply of Some e \<Rightarrow> Some (Inl e, c1) | None \<Rightarrow> Some (Inr reply, c1)))))"

definition Stream_RecvMsg ::
  "'m msg_iface \<Rightarrow> recv_choice \<Rightarrow> Stream \<Rightarrow> ('m, 'a) Connection \<Rightarrow> ((gerr + 'm) \<times> ('m, 'a) Connection) option" where
  "Stream_RecvMsg mi choice s c =
     (case recvReply choice s c of
        None \<Rightarrow> None
      | Some (Inl e, c1) \<Rightarrow> Some (Inl e, c1)
      | Some (Inr reply, c1) \<Rightarrow>
         (case LookupByID (Some c1) (st_pkgPath s) (rep_msgID reply) of
            Inl e \<Rightarrow> Some (Inl e, c1)
          | Inr msg \<Rightarrow> Some (DecodeMsg mi (rep_data reply) (rep_spare reply) (Some (msg_New mi msg)), c1)))"

text \<open>
  \<open>Invoke\<close>; \<open>env\<close> is what the other goroutines do to the connection between sending and receiving.
  The deferred \<open>Close\<close> runs on every return after the stream was made.
\<close>

definition Invoke ::
  "'m msg_iface \<Rightarrow> 'a vpp_api \<Rightarrow> int \<Rightarrow> nat option \<Rightarrow> recv_choice \<Rightarrow> (('m, 'a) Connection \<Rightarrow> ('m, 'a) Connection) \<Rightarrow>
     'm \<Rightarrow> 'm \<Rightarrow> ('m, 'a) Connection \<Rightarrow> ((gerr option \<times> 'm) \<times> ('m, 'a) Connection) option" where
  "Invoke mi api now pick choice env req reply c =
     (case NewStream pick [] (Some c) of
        (Inl err, Some c1) \<Rightarrow> Some ((Some err, reply), c1)
      | (Inr s, Some c1) \<Rightarrow>
         (case Stream_SendMsg mi api now req s c1 of
            (Some err, s1, c2) \<Rightarrow> Some ((Some err, reply), snd (snd (Stream_Close s1 c2)))
          | (None, s1, c2) \<Rightarrow>
             (case recvReply choice s1 (env c2) of
                None \<Rightarrow> None
              | Some (Inl err, c3) \<Rightarrow> Some ((Some err, reply), snd (snd (Stream_Close s1 c3)))
              | Some (Inr rep, c3) \<Rightarrow>
                 (case DecodeMsg mi (rep_data rep) (rep_spare rep) (Some reply) of
                    Inl err \<Rightarrow> Some ((Some err, reply), snd (snd (Stream_Close s1 c3)))
                  | Inr m \<Rightarrow> Some ((None, m), snd (snd (Stream_Close s1 c3))))))
      | (_, None) \<Rightarrow> None)"

section \<open>Watchers\<close>

text \<open>
  \<open>WatchEvent\<close> makes a subscription with its own notification channel of 10 events, starts the
  goroutine \<open>watch\<close>, and only then adds the subscription to the map. Adding and the end of the
  goroutine (which unsubscribes) are separate steps, because the goroutine may end first.
\<close>

definition WatchEvent_begin ::
  "'m msg_iface \<Rightarrow> 'a vpp_api \<Rightarrow> 'm \<Rightarrow> ('m, 'a) Connection \<Rightarrow> (gerr + 'm subscriptionCtx) \<times> ('m, 'a) Connection" where
  "WatchEvent_begin mi api event c =
     (case GetMessageID mi api (Some c) event of
        Inl _ \<Rightarrow> (Inl (ErrMsg ''unable to retrieve event message ID''), c)
      | Inr msgID \<Rightarrow>
         (Inr \<lparr>sub_ref = next_ref c, sub_notifChan = next_ref c + 1, sub_msgID = msgID, sub_event = event\<rparr>,
          c\<lparr>next_ref := next_ref c + 2,
            notif_store := (notif_store c)(next_ref c + 1 \<mapsto> \<lparr>gc_cap = 10, gc_queue = [], gc_closed = False\<rparr>)\<rparr>))"

definition WatchEvent_add :: "'m subscriptionCtx \<Rightarrow> ('m, 'a) Connection \<Rightarrow> ('m, 'a) Connection" where
  "WatchEvent_add sub c = add_subscription sub c"

definition watch_exit :: "'m subscriptionCtx \<Rightarrow> ('m, 'a) Connection \<Rightarrow> ('m, 'a) Connection option" where
  "watch_exit sub c = map_option snd (Unsubscribe sub c)"

section \<open>Properties of streams\<close>

text \<open>\<open>owns c i r\<close>: the invariant holds and channel \<open>i\<close> is the object \<open>r\<close>.\<close>

definition owns :: "('m, 'a) Connection \<Rightarrow> u16 \<Rightarrow> ref \<Rightarrow> bool" where
  "owns c i r \<longleftrightarrow> conn_inv c \<and> channels c i = Some r"

lemma newChannel_channels:
  assumes "conn_inv c" and "newChannel pick n k c = (Inr r, c')"
  shows "\<exists>i. channels c i = None \<and> channels c' = (channels c)(i \<mapsto> r)"
proof -
  obtain i p c1 where g: "idPool_Get (channelIdPool c) = (Inr i, p)"
      and pg: "pool_get pick (c\<lparr>channelIdPool := p\<rparr>) = (r, c1)" and c': "channels c' = (channels c1)(i \<mapsto> r)"
    using assms(2) by (auto simp: newChannel_def split: sum.splits prod.splits)
  have "channels c1 = channels c"
    using pg by (auto simp: pool_get_def split: option.splits if_splits)
  moreover have "channels c i = None"
    using idp.partitions_get [OF chan_inv_partitions [OF assms(1) [unfolded conn_inv_def]] g] by auto
  ultimately show ?thesis
    using c' by auto
qed

lemma SetReplyTimeout_keeps [simp]:
  "ch_id (SetReplyTimeout t ch) = ch_id ch" "open_reply (SetReplyTimeout t ch) = open_reply ch"
  by (simp_all add: SetReplyTimeout_def open_reply_def)

lemma NewStream_owns:
  assumes "conn_inv c" and "NewStream pick opts (Some c) = (Inr s, Some c1)"
  shows "st_open s \<and> (\<exists>i. channels c i = None \<and> channels c1 = (channels c)(i \<mapsto> st_channel s) \<and> owns c1 i (st_channel s))"
proof -
  obtain r t c0 n k where n: "newChannel pick n k c = (Inr r, c0)" and s: "st_open s" "st_channel s = r"
      and c1: "c1 = c0\<lparr>chan_store := (chan_store c0)(r := map_option (SetReplyTimeout t) (chan_store c0 r))\<rparr>"
    using assms(2) by (auto simp: NewStream_def Let_def split: sum.splits prod.splits)
  obtain i where i: "channels c i = None" "channels c0 = (channels c)(i \<mapsto> r)"
    using newChannel_channels [OF assms(1) n] by blast
  have inv0: "conn_inv c0"
    by (rule conn_inv_newChannel [OF assms(1) n])
  have ci: "channels c0 i = Some r"
    by (simp add: i)
  then obtain ch where ch: "chan_store c0 r = Some ch"
    using chan_inv_chan [OF inv0 [unfolded conn_inv_def]] by blast
  have "conn_inv c1"
    using conn_inv_user [OF inv0 ci ch, of "SetReplyTimeout t ch"] ch by (simp add: c1)
  then show ?thesis
    using s i by (auto simp: owns_def c1)
qed

lemma Stream_SendMsg_owns:
  assumes o: "owns c i (st_channel s)" and send: "Stream_SendMsg mi api now m s c = (err, s1, c1)"
  shows "owns c1 i (st_channel s1) \<and> channels c1 = channels c \<and> st_open s1 = st_open s \<and> st_channel s1 = st_channel s"
proof (cases "st_open s")
  case False
  then show ?thesis
    using assms by (simp add: Stream_SendMsg_def)
next
  case True
  obtain ch where ch: "chan_store c (st_channel s) = Some ch"
    using chan_inv_chan o unfolding owns_def conn_inv_def by blast
  let ?c = "c\<lparr>chan_store := (chan_store c)(st_channel s \<mapsto> ch\<lparr>lastSeqNum := lastSeqNum ch + 1\<rparr>)\<rparr>"
  obtain e c2 where p: "processRequest mi api now (ch_id ch) \<lparr>req_seqNum = lastSeqNum ch + 1, req_msg = m, req_multi = False\<rparr> ?c = (e, c2)"
    by fastforce
  have "conn_inv ?c"
    using o ch unfolding owns_def by (intro conn_inv_user) (auto simp: open_reply_def)
  then have c2: "conn_inv c2" "channels c2 = channels c"
    using same_channels_inv [OF same_channels_processRequest [OF p]] same_channels_processRequest [OF p]
    by (auto simp: same_channels_def)
  have "c1 = c2 \<and> st_open s1 = st_open s \<and> st_channel s1 = st_channel s"
    using send True ch p by (auto simp: Stream_SendMsg_def newRequest_def nextSeqNum_def Let_def split: if_splits)
  then show ?thesis
    using c2 o by (simp add: owns_def)
qed

lemma recvReply_owns:
  assumes o: "owns c i (st_channel s)" and r: "recvReply choice s c = Some (res, c1)"
  shows "owns c1 i (st_channel s) \<and> channels c1 = channels c"
proof -
  obtain ch where ch: "chan_store c (st_channel s) = Some ch"
    using chan_inv_chan o unfolding owns_def conn_inv_def by blast
  have upd: "owns (c\<lparr>chan_store := (chan_store c)(st_channel s \<mapsto> ch\<lparr>replyChan := Some g\<rparr>)\<rparr>) i (st_channel s)"
    if "chan_recv (replyChan ch) = Received rep g" for rep g
  proof -
    have "conn_inv (c\<lparr>chan_store := (chan_store c)(st_channel s \<mapsto> ch\<lparr>replyChan := Some g\<rparr>)\<rparr>)"
      using o ch that unfolding owns_def by (intro conn_inv_user) (auto simp: open_reply_def chan_recv_Received)
    then show ?thesis
      using o by (simp add: owns_def)
  qed
  show ?thesis
    using r o ch upd
    by (auto simp: recvReply_def Let_def split: if_splits recv_choice.splits recv_result.splits option.splits)
qed

lemma Stream_Close_owns:
  assumes o: "owns c i (st_channel s)" and "st_open s"
  shows "conn_inv (snd (snd (Stream_Close s c))) \<and> channels (snd (snd (Stream_Close s c))) = (channels c)(i := None)"
proof -
  obtain ch where "chan_store c (st_channel s) = Some ch" "ch_id ch = i"
    using chan_inv_chan o unfolding owns_def conn_inv_def by blast
  then show ?thesis
    using assms conn_inv_release unfolding owns_def by (fastforce simp: Stream_Close_def releaseAPIChannel_def)
qed

text \<open>
  \<open>Invoke\<close> never leaks a channel: however it returns (no id left, the request not sent, an
  error, a timeout or a cancelled context, an undecodable or a good reply), the channel it opened
  is closed and its id is back in the pool, so exactly the channels from before are open.
\<close>

theorem Invoke_releases:
  assumes "conn_inv c" and "Invoke mi api now pick choice env req reply c = Some ((err, m), c')"
    and "\<And>x. conn_inv x \<Longrightarrow> conn_inv (env x) \<and> channels (env x) = channels x"
  shows "conn_inv c' \<and> channels c' = channels c"
proof (cases "NewStream pick [] (Some c)")
  case (Pair res co)
  then obtain c1 where co: "co = Some c1"
    by (auto simp: NewStream_def Let_def split: sum.splits prod.splits)
  show ?thesis
  proof (cases res)
    case (Inl e)
    then have "c' = c1"
      using assms(2) Pair co by (simp add: Invoke_def)
    moreover have "newChannel pick RequestChanBufSize ReplyChanBufSize c = (Inl e, c1)"
      using Pair co Inl by (auto simp: NewStream_def Let_def split: sum.splits prod.splits)
    moreover from this have "channels c1 = channels c"
      by (auto simp: newChannel_def split: sum.splits prod.splits)
    ultimately show ?thesis
      using conn_inv_newChannel [OF assms(1)] by blast
  next
    case (Inr s)
    obtain i where i: "st_open s" "channels c i = None" "channels c1 = (channels c)(i \<mapsto> st_channel s)" "owns c1 i (st_channel s)"
      using NewStream_owns [OF assms(1)] Pair co Inr by blast
    have close: "conn_inv (snd (snd (Stream_Close x y))) \<and> channels (snd (snd (Stream_Close x y))) = channels c"
      if "st_open x" "owns y i (st_channel x)" "channels y = channels c1" for x y
      using Stream_Close_owns [OF that(2,1)] that(3) i(2,3) by auto
    obtain e1 s1 c2 where send: "Stream_SendMsg mi api now req s c1 = (e1, s1, c2)"
      by (cases "Stream_SendMsg mi api now req s c1")
    note o2 = Stream_SendMsg_owns [OF i(4) send]
    have o3: "owns (env c2) i (st_channel s1)" "channels (env c2) = channels c1"
      using o2 assms(3) [of c2] by (auto simp: owns_def)
    have o4: "owns c3 i (st_channel s1) \<and> channels c3 = channels c1" if "recvReply choice s1 (env c2) = Some (x, c3)" for x c3
      using recvReply_owns [OF o3(1) that] o3(2) by simp
    show ?thesis
      using assms(2) Pair co Inr send close [of s1] o2 o4 i(1)
      by (auto simp: Invoke_def split: option.splits sum.splits prod.splits)
  qed
qed

theorem Invoke_releases_witness:
  "\<exists>m c'. Invoke memclnt idle_api 0 None (CtxDone ErrContextDone) id ControlPing (ControlPingReply 0 0 0) ex_conn =
      Some ((Some ErrNotConnected, m), c') \<and> conn_inv c' \<and> channels c' = channels ex_conn"
proof -
  have "\<exists>m c'. Invoke memclnt idle_api 0 None (CtxDone ErrContextDone) id ControlPing (ControlPingReply 0 0 0) ex_conn =
      Some ((Some ErrNotConnected, m), c')"
    by (simp add: Invoke_def NewStream_def newChannel_def newIDPool_first pool_get_def ex_conn_def newConnection_def
        Stream_SendMsg_def newRequest_def nextSeqNum_def processRequest_def SetReplyTimeout_def)
  then show ?thesis
    using Invoke_releases [of ex_conn memclnt idle_api 0 None "CtxDone ErrContextDone" id ControlPing "ControlPingReply 0 0 0"]
      conn_inv_new [of ControlPing "ControlPingReply 0 0 0" "()" 0 0 False] by (fastforce simp: ex_conn_def)
qed

section \<open>Replies that come late\<close>

lemma Stream_SendMsg_sent:
  assumes "Stream_SendMsg mi api now m s c = (None, s', c')" "st_open s" "chan_store c (st_channel s) = Some ch"
  shows "s' = s\<lparr>st_pkgPath := GetMessagePath mi m\<rparr> \<and> channels c' = channels c \<and> subscriptions c' = subscriptions c \<and>
    msgMapByPath c' = msgMapByPath c \<and> chan_store c' = (chan_store c)(st_channel s \<mapsto> ch\<lparr>lastSeqNum := lastSeqNum ch + 1\<rparr>) \<and>
    (\<exists>data. api_SendMsg api (vppClient c) (packRequestContext (ch_id ch) False (lastSeqNum ch + 1)) data = (None, vppClient c'))"
  using assms
  by (auto simp: Stream_SendMsg_def newRequest_def nextSeqNum_def processRequest_def trace_record_def trace_announce_def Let_def
      split: if_splits sum.splits prod.splits)

lemma notify_all_table: "notify_all mi data spare ss c = Some c' \<Longrightarrow> msgMapByPath c' = msgMapByPath c"
proof (induction ss arbitrary: c)
  case (Cons s ss)
  then obtain c1 where c1: "notify_one mi data spare s c = Some c1" "notify_all mi data spare ss c1 = Some c'"
    by (auto split: bind_splits)
  then show ?case using Cons.IH [OF c1(2)] by (auto simp: notify_one_def split: sum.splits send_result.splits)
qed simp

lemma msgCallback_table: "msgCallback mi paths now d cs msgID data spare c = Some c' \<Longrightarrow> msgMapByPath c' = msgMapByPath c"
proof -
  have t: "msgMapByPath (trace_received mi now i m data spare c) = msgMapByPath c" for i m
    by (simp add: trace_received_def trace_record_def trace_announce_def Let_def split: sum.splits)
  show "msgCallback mi paths now d cs msgID data spare c = Some c' \<Longrightarrow> msgMapByPath c' = msgMapByPath c"
    by (auto simp: msgCallback_def Let_def sendNotifications_def with_channel_def t dest!: notify_all_table
        split: sum.splits option.splits prod.splits if_splits)
qed

text \<open>
  C40 (safety). A stream pairs replies with requests by arrival only. Two requests are sent on it, the
  first of which timed out; VPP sees them with the contexts of the sequence numbers \<open>n\<close> and \<open>n + 1\<close>.
  When the reply to the first arrives after the second was sent, \<open>RecvMsg\<close> returns it as the answer to
  the second, although its context says that it is not: a channel with the same queue would keep waiting.
\<close>

theorem stream_takes_stale_reply:
  assumes "st_open s" "0 < st_replyTimeout s" "channels c i = Some (st_channel s)" "chan_store c (st_channel s) = Some ch"
    and "ch_id ch = i" "0 < i" "i < 0x8000" "replyChan ch = Some g" "\<not> gc_closed g" "gc_queue g = []" "0 < gc_cap g" "delayedReply ch = None"
    and "Stream_SendMsg mi api now1 req1 s c = (None, s1, c1)" "Stream_SendMsg mi api now2 req2 s1 c1 = (None, s2, c2)"
    and "getMessageByID paths msgID c = Inr m0" "GetMessageType mi m0 = ReplyMessage" "subscriptions c msgID = None"
    and "LookupByID (Some c) (GetMessagePath mi req2) msgID = Inr m1" "n = lastSeqNum ch + 1"
    and "DecodeMsg mi (reply_data msgID (packRequestContext i False n) body) cs (Some (msg_New mi m1)) = Inr rep1"
  shows "(\<exists>data. api_SendMsg api (vppClient c) (packRequestContext i False n) data = (None, vppClient c1)) \<and>
    (\<exists>data. api_SendMsg api (vppClient c1) (packRequestContext i False (n + 1)) data = (None, vppClient c2)) \<and>
    recvReply ReplyTimer s1 c1 = Some (Inl (ErrWrap '''' ErrReplyTimeout), c1) \<and>
    (\<exists>c3 c4 ch3 g3. msgCallback mi paths now3 d cs msgID (reply_data msgID (packRequestContext i False n) body) spare c2 = Some c3 \<and>
       Stream_RecvMsg mi TakeReply s2 c3 = Some (Inr rep1, c4) \<and>
       chan_store c3 (st_channel s) = Some ch3 \<and> replyChan ch3 = Some g3 \<and> gc_queue g3 \<noteq> [] \<and>
       requestCtx_ReceiveReply mi ids (Some (ch3, n + 1)) (Some t) (map ReplyArrives (gc_queue g3)) = None)"
proof -
  note s1 = Stream_SendMsg_sent [OF assms(13,1,4)]
  have ch1: "chan_store c1 (st_channel s1) = Some (ch\<lparr>lastSeqNum := n\<rparr>)" "st_open s1" using s1 assms(1,19) by simp_all
  note s2 = Stream_SendMsg_sent [OF assms(14) ch1(2,1)]
  let ?ch2 = "ch\<lparr>lastSeqNum := n + 1\<rparr>" and ?r = "expected_reply c2 i False n msgID body cs"
  let ?g3 = "g\<lparr>gc_queue := [?r]\<rparr>"
  have c2: "channels c2 i = Some (st_channel s)" "chan_store c2 (st_channel s) = Some ?ch2" "subscriptions c2 msgID = None"
    "msgMapByPath c2 = msgMapByPath c" "st_channel s2 = st_channel s" "st_open s2" "st_pkgPath s2 = GetMessagePath mi req2"
    using s1 s2 assms(1,3,17) by auto
  have find: "find_message c' msgID ps = find_message c msgID ps" if "msgMapByPath c' = msgMapByPath c" for ps and c' :: "('a, 'b) Connection"
    by (induction ps) (simp_all add: that split: option.splits)
  have get: "getMessageByID paths msgID c2 = Inr m0" using assms(15) by (simp add: getMessageByID_def find [OF c2(4)])
  obtain c3 where c3: "msgCallback mi paths now3 d cs msgID (reply_data msgID (packRequestContext i False n) body) spare c2 = Some c3"
      "chan_store c3 = (chan_store c2)(st_channel s \<mapsto> ?ch2\<lparr>replyChan := Some ?g3\<rparr>)"
    using callback_delivers [OF c2(1,2) _ assms(9,6,7) get assms(16) c2(3), of now3 d cs False n body spare] assms(8,10,11) by auto
  have look: "LookupByID (Some c') (GetMessagePath mi req2) msgID = Inr m1" if "msgMapByPath c' = msgMapByPath c" for c' :: "('a, 'b) Connection"
    using assms(18) that by (simp add: LookupByID_def)
  obtain c4 where take: "recvReply TakeReply s2 c3 = Some (Inr ?r, c4)" "msgMapByPath c4 = msgMapByPath c3"
    using c2(5,6) c3(2) assms(9) by (simp add: recvReply_def chan_recv_def)
  have "Stream_RecvMsg mi TakeReply s2 c3 = Some (Inr rep1, c4)"
    using take look [of c4] msgCallback_table [OF c3(1)] c2(4,7) assms(20) by (simp add: Stream_RecvMsg_def expected_reply_def)
  moreover have "requestCtx_ReceiveReply mi ids (Some (?ch2\<lparr>replyChan := Some ?g3\<rparr>, n + 1)) (Some t) [ReplyArrives ?r] = None"
    using receive_blocks_iff [of mi ids t "n + 1" "?ch2\<lparr>replyChan := Some ?g3\<rparr>" "[ReplyArrives ?r]"] assms(12)
    by (simp add: requestCtx_ReceiveReply_def stale_def compareSeqNumbers_diff)
  moreover have "recvReply ReplyTimer s1 c1 = Some (Inl (ErrWrap '''' ErrReplyTimeout), c1)" using ch1(2) s1 assms(2) by (simp add: recvReply_def)
  ultimately show ?thesis using s1 s2 c3 assms(5,19) by auto
qed

definition ex_stream :: Stream where
  "ex_stream = \<lparr>st_open = True, st_channel = 0, st_replyTimeout = 5, st_pkgPath = []\<rparr>"

definition ex_stream_conn :: "(memclnt_msg, unit) Connection" where
  "ex_stream_conn = ex_ready\<lparr>msgMapByPath := [''go.fd.io/govpp/binapi'' \<mapsto> [30 \<mapsto> ControlPing, 31 \<mapsto> ControlPingReply 0 0 0]]\<rparr>"

lemma ex_stream_sends:
  assumes "st_open s" "st_channel s = 0" "vppConnected c" "chan_store c 0 = Some ch"
  shows "\<exists>s' c'. Stream_SendMsg memclnt idle_api now ControlPing s c = (None, s', c') \<and> st_open s' \<and> st_channel s' = 0 \<and> vppConnected c'"
proof -
  have "EncodeMsg memclnt (Some ControlPing) 30 = Inr (be_bytes 2 (30 :: u16) @ replicate 8 0)" by code_simp
  then show ?thesis using assms
    by (simp add: Stream_SendMsg_def newRequest_def nextSeqNum_def processRequest_def GetMessageID_def idle_api_def
        trace_record_def trace_announce_def Let_def)
qed

theorem stream_takes_stale_reply_witness:
  "\<exists>s1 c1 s2 c2 c3 c4. Stream_SendMsg memclnt idle_api 0 ControlPing ex_stream ex_stream_conn = (None, s1, c1) \<and>
     Stream_SendMsg memclnt idle_api 9 ControlPing s1 c1 = (None, s2, c2) \<and>
     msgCallback memclnt [''go.fd.io/govpp/binapi''] 10 0 [] 31
       (reply_data 31 (packRequestContext 1 False 1) (mc_body (ControlPingReply 0 7 9))) [] c2 = Some c3 \<and>
     Stream_RecvMsg memclnt TakeReply s2 c3 = Some (Inr (ControlPingReply 0 7 9), c4)"
proof -
  have c: "channels ex_stream_conn 1 = Some (st_channel ex_stream)" "chan_store ex_stream_conn (st_channel ex_stream) = Some ex_ready_ch"
    "subscriptions ex_stream_conn 31 = None" "vppConnected ex_stream_conn" "st_open ex_stream" "st_channel ex_stream = 0" "0 < st_replyTimeout ex_stream"
    by (simp_all add: ex_stream_conn_def ex_stream_def)
  obtain s1 c1 where s1: "Stream_SendMsg memclnt idle_api 0 ControlPing ex_stream ex_stream_conn = (None, s1, c1)"
      "st_open s1" "st_channel s1 = 0" "vppConnected c1"
    using ex_stream_sends [of ex_stream ex_stream_conn] c by fastforce
  have "chan_store c1 0 = Some (ex_ready_ch\<lparr>lastSeqNum := lastSeqNum ex_ready_ch + 1\<rparr>)"
    using Stream_SendMsg_sent [OF s1(1) c(5,2)] c(6) by simp
  then obtain s2 c2 where s2: "Stream_SendMsg memclnt idle_api 9 ControlPing s1 c1 = (None, s2, c2)"
    using ex_stream_sends [OF s1(2-4)] by blast
  have ch: "ch_id ex_ready_ch = 1" "lastSeqNum ex_ready_ch = 0" by (simp_all add: ex_ready_ch_def prepare_channel_def fresh_channel_def Let_def)
  have table: "getMessageByID [''go.fd.io/govpp/binapi''] 31 ex_stream_conn = Inr (ControlPingReply 0 0 0)"
    "LookupByID (Some ex_stream_conn) (GetMessagePath memclnt ControlPing) 31 = Inr (ControlPingReply 0 0 0)"
    by (simp_all add: getMessageByID_def LookupByID_def GetMessagePath_def ex_stream_conn_def memclnt_def)
  have dec: "DecodeMsg memclnt (reply_data 31 (packRequestContext 1 False 1) (mc_body (ControlPingReply 0 7 9))) []
      (Some (msg_New memclnt (ControlPingReply 0 0 0))) = Inr (ControlPingReply 0 7 9)" by code_simp
  have kind: "GetMessageType memclnt (ControlPingReply 0 0 0) = ReplyMessage" "(0 :: u16) < 1" "(1 :: u16) < 0x8000" by simp_all
  have q: "gc_queue ex_empty_queue = []" "0 < gc_cap ex_empty_queue" "\<not> gc_closed ex_empty_queue" by simp_all
  from stream_takes_stale_reply [OF c(5,7,1,2) ch(1) kind(2,3) ex_ready_facts(3) q(3,1,2) ex_ready_facts(7) s1(1) s2 table(1) kind(1) c(3) table(2) _ dec]
  show ?thesis using s1(1) s2 ch(2) by fastforce
qed

text \<open>
  A watcher whose goroutine ends after the subscription was added leaves the subscribers of
  the message as they were. If it ends before (the context was already cancelled), unsubscribing
  finds nothing and the subscription added afterwards stays in the map with nobody to remove it.
\<close>

theorem watcher_order:
  assumes "WatchEvent_begin mi api event c = (Inr sub, c1)" and "\<forall>s \<in> set (subs_of c (sub_msgID sub)). sub_ref s < next_ref c"
  shows "(\<exists>c2. watch_exit sub (WatchEvent_add sub c1) = Some c2 \<and> subs_of c2 (sub_msgID sub) = subs_of c (sub_msgID sub)) \<and>
    (\<exists>c2. watch_exit sub c1 = Some c2 \<and>
       subs_of (WatchEvent_add sub c2) (sub_msgID sub) = subs_of c (sub_msgID sub) @ [sub])"
proof -
  have b: "sub_ref sub = next_ref c" "sub_notifChan sub = next_ref c + 1"
      "c1 = c\<lparr>next_ref := next_ref c + 2, notif_store := (notif_store c)(next_ref c + 1 \<mapsto>
        \<lparr>gc_cap = 10, gc_queue = [], gc_closed = False\<rparr>)\<rparr>"
    using assms(1) by (auto simp: WatchEvent_begin_def split: sum.splits)
  let ?ss = "subs_of c (sub_msgID sub)"
  have ss1: "subs_of c1 (sub_msgID sub) = ?ss"
    by (simp add: subs_of_def b(3))
  have new: "sub_ref sub \<notin> sub_ref ` set ?ss"
    using assms(2) b(1) by auto
  let ?ca = "WatchEvent_add sub c1"
  have sa: "subs_of ?ca (sub_msgID sub) = ?ss @ [sub]"
    using ss1 by (simp add: WatchEvent_add_def add_subscription_def subs_of_def)
  have na: "notif_store ?ca (sub_notifChan sub) = Some \<lparr>gc_cap = 10, gc_queue = [], gc_closed = False\<rparr>"
    using b by (simp add: WatchEvent_add_def add_subscription_def)
  have f: "find_sub (sub_ref sub) (?ss @ [sub]) = Some (length ?ss)"
    by (rule find_sub_append [OF new])
  have "\<exists>c2. watch_exit sub ?ca = Some c2 \<and> subs_of c2 (sub_msgID sub) = ?ss"
    using f na by (simp add: watch_exit_def Unsubscribe_def sa chan_close_def) (simp add: subs_of_def)
  moreover have "watch_exit sub c1 = Some c1"
    using find_sub_None [OF new] by (simp add: watch_exit_def Unsubscribe_def ss1)
  ultimately show ?thesis
    using sa by blast
qed

theorem watcher_order_witness:
  "\<exists>sub c1 c2. WatchEvent_begin memclnt idle_api (ControlPingReply 0 0 0) ex_conn = (Inr sub, c1) \<and>
     watch_exit sub c1 = Some c2 \<and> subs_of (WatchEvent_add sub c2) 31 = [sub]"
proof -
  obtain sub c1 where w: "WatchEvent_begin memclnt idle_api (ControlPingReply 0 0 0) ex_conn = (Inr sub, c1)" "sub_msgID sub = 31"
    by (simp add: WatchEvent_begin_def GetMessageID_def idle_api_def)
  have e: "subs_of ex_conn 31 = []"
    by (simp add: ex_conn_def newConnection_def subs_of_def)
  show ?thesis
    using watcher_order [OF w(1)] w e by auto
qed

end
