(* ===== verification/StatTypes.thy ===== *)
theory StatTypes
  imports GovppPrelude
begin

text \<open>
  The statistics values of \<open>adapter/stats_api.go\<close>: the kinds of stats, when a stat counts as zero, and
  the reduction of per-worker counters. A slice of slices keeps whether an inner slice is nil
  (\<open>None\<close>); counters are 64-bit and their sums wrap.
\<close>

datatype StatType =
    UnknownStatType | ScalarIndex | SimpleCounterVector | CombinedCounterVector | ErrorIndex | NameVector
  | EmptyType | SymlinkType

datatype Stat =
    ScalarStat float64
  | ErrorStat "u64 list"
  | SimpleCounterStat "u64 list option list"
  | CombinedCounterStat "(u64 \<times> u64) list option list"
  | NameStat "string list"
  | EmptyStat string

record StatEntry =
  se_Index :: u32
  se_Name :: string
  se_Type :: StatType
  se_Data :: "Stat option"
  se_Symlink :: bool

record StatDir =
  sd_Epoch :: int
  sd_Entries :: "StatEntry list"

text \<open>A float is zero when it is \<open>+0\<close> or \<open>-0\<close>.\<close>

definition float_is_zero :: "float64 \<Rightarrow> bool" where
  "float_is_zero f \<longleftrightarrow> take_bit 63 f = 0"

fun CombinedCounterStat_IsZero :: "(u64 \<times> u64) list option list \<Rightarrow> bool" where
  "CombinedCounterStat_IsZero [] = True"
| "CombinedCounterStat_IsZero (None # s) = True"
| "CombinedCounterStat_IsZero (Some ss # s) =
     (if \<exists>sss \<in> set ss. fst sss \<noteq> 0 \<or> snd sss \<noteq> 0 then False else CombinedCounterStat_IsZero s)"

fun Stat_IsZero :: "Stat \<Rightarrow> bool" where
  "Stat_IsZero (ScalarStat f) = float_is_zero f"
| "Stat_IsZero (ErrorStat s) = list_all (\<lambda>v. v = 0) s"
| "Stat_IsZero (SimpleCounterStat s) =
     list_all (\<lambda>ss. case ss of None \<Rightarrow> True | Some ss \<Rightarrow> list_all (\<lambda>v. v = 0) ss) s"
| "Stat_IsZero (CombinedCounterStat s) = CombinedCounterStat_IsZero s"
| "Stat_IsZero (NameStat s) = list_all (\<lambda>ss. ss = []) s"
| "Stat_IsZero (EmptyStat _) = True"

fun Stat_Type :: "Stat \<Rightarrow> StatType" where
  "Stat_Type (ScalarStat _) = ScalarIndex"
| "Stat_Type (ErrorStat _) = ErrorIndex"
| "Stat_Type (SimpleCounterStat _) = SimpleCounterVector"
| "Stat_Type (CombinedCounterStat _) = CombinedCounterVector"
| "Stat_Type (NameStat _) = NameVector"
| "Stat_Type (EmptyStat _) = EmptyType"

text \<open>\<open>w[i]\<close> panics for a nil or shorter worker slice.\<close>

definition worker_at :: "'b list option \<Rightarrow> nat \<Rightarrow> 'b option" where
  "worker_at w i = (case w of None \<Rightarrow> None | Some xs \<Rightarrow> if i < length xs then Some (xs ! i) else None)"

fun reduce_simple_from :: "u64 \<Rightarrow> u64 list option list \<Rightarrow> nat \<Rightarrow> u64 option" where
  "reduce_simple_from val [] i = Some val"
| "reduce_simple_from val (w # ws) i = do { x \<leftarrow> worker_at w i; reduce_simple_from (val + x) ws i }"

definition ReduceSimpleCounterStatIndex :: "u64 list option list \<Rightarrow> nat \<Rightarrow> u64 option" where
  "ReduceSimpleCounterStatIndex s i = reduce_simple_from 0 s i"

fun reduce_combined_from :: "u64 \<times> u64 \<Rightarrow> (u64 \<times> u64) list option list \<Rightarrow> nat \<Rightarrow> (u64 \<times> u64) option" where
  "reduce_combined_from val [] i = Some val"
| "reduce_combined_from val (w # ws) i =
     do { x \<leftarrow> worker_at w i; reduce_combined_from (fst val + fst x, snd val + snd x) ws i }"

definition ReduceCombinedCounterStatIndex :: "(u64 \<times> u64) list option list \<Rightarrow> nat \<Rightarrow> (u64 \<times> u64) option" where
  "ReduceCombinedCounterStatIndex s i = reduce_combined_from (0, 0) s i"

section \<open>What the operations compute\<close>

text \<open>A table with \<open>l\<close> columns in every worker row.\<close>

definition rectangular :: "nat \<Rightarrow> 'b list option list \<Rightarrow> bool" where
  "rectangular l s \<longleftrightarrow> (\<forall>w \<in> set s. \<exists>xs. w = Some xs \<and> length xs = l)"

lemma rectangular_Cons [simp]:
  "rectangular l (w # s) \<longleftrightarrow> (\<exists>xs. w = Some xs \<and> length xs = l) \<and> rectangular l s"
  by (auto simp: rectangular_def)

lemma reduce_simple_from_sum:
  "rectangular l s \<Longrightarrow> i < l \<Longrightarrow> reduce_simple_from v s i = Some (v + sum_list (map (\<lambda>w. the w ! i) s))"
  by (induction s arbitrary: v) (auto simp: worker_at_def add.assoc)

lemma reduce_combined_from_sum:
  "rectangular l s \<Longrightarrow> i < l \<Longrightarrow> reduce_combined_from v s i =
     Some (fst v + sum_list (map (\<lambda>w. fst (the w ! i)) s), snd v + sum_list (map (\<lambda>w. snd (the w ! i)) s))"
  by (induction s arbitrary: v) (auto simp: worker_at_def add.assoc)

lemma ReduceSimple_sum:
  "rectangular l s \<Longrightarrow> i < l \<Longrightarrow> ReduceSimpleCounterStatIndex s i = Some (sum_list (map (\<lambda>w. the w ! i) s))"
  by (simp add: ReduceSimpleCounterStatIndex_def reduce_simple_from_sum)

lemma ReduceCombined_sum:
  "rectangular l s \<Longrightarrow> i < l \<Longrightarrow> ReduceCombinedCounterStatIndex s i =
     Some (sum_list (map (\<lambda>w. fst (the w ! i)) s), sum_list (map (\<lambda>w. snd (the w ! i)) s))"
  by (simp add: ReduceCombinedCounterStatIndex_def reduce_combined_from_sum)

lemma reduce_simple_panics: "w \<in> set s \<Longrightarrow> worker_at w i = None \<Longrightarrow> reduce_simple_from v s i = None"
  by (induction s arbitrary: v) (auto split: Option.bind_splits)

lemma Combined_IsZero_prefix:
  "CombinedCounterStat_IsZero s \<longleftrightarrow>
     (\<forall>w \<in> set (takeWhile (\<lambda>w. w \<noteq> None) s). \<forall>x \<in> set (the w). x = (0, 0))"
  by (induction s rule: CombinedCounterStat_IsZero.induct) (auto simp: prod_eq_iff)

text \<open>
  A combined counter stat is reported as zero exactly when all counters before the first
  nil worker slice are zero: without nil slices that is the documented meaning, but after a nil
  slice non-zero counters of later workers are not looked at, unlike for a simple counter stat.
\<close>

theorem Combined_IsZero:
  "(Stat_IsZero (CombinedCounterStat s) \<longleftrightarrow>
      (\<forall>w \<in> set (takeWhile (\<lambda>w. w \<noteq> None) s). \<forall>x \<in> set (the w). x = (0, 0))) \<and>
   Stat_IsZero (CombinedCounterStat (None # [Some [(1, 1)]])) \<and>
   \<not> Stat_IsZero (SimpleCounterStat (None # [Some [1]]))"
  by (simp add: Combined_IsZero_prefix)

theorem Combined_IsZero_witness:
  "\<not> Stat_IsZero (CombinedCounterStat [Some [(0, 0)], Some [(0, 7)]])"
  using Combined_IsZero [of "[Some [(0, 0)], Some [(0, 7)]]"] by simp

end
