(* ===== verification/CoreStats.thy ===== *)
theory CoreStats
  imports StatTypes CoreConn
begin

text \<open>
  The statistics connection of \<open>core/stats.go\<close>: connecting with retries, watching the heartbeat,
  updating a directory of stats with retries, and filling the API structures of \<open>api/stats.go\<close>
  from its entries. The stats client is an interface with a state of its own. A panic (an index into
  a missing worker row, a send on a closed channel) is \<open>None\<close>.
\<close>

record 's stats_api =
  sa_Connect :: "'s \<Rightarrow> gerr option \<times> 's"
  sa_Disconnect :: "'s \<Rightarrow> gerr option \<times> 's"
  sa_ListStats :: "'s \<Rightarrow> string list \<Rightarrow> gerr option \<times> 's"
  sa_PrepareDir :: "'s \<Rightarrow> string list \<Rightarrow> (gerr + StatDir) \<times> 's"
  sa_UpdateDir :: "'s \<Rightarrow> StatDir \<Rightarrow> (gerr + StatDir) \<times> 's"

record 's StatsConnection =
  statsClient :: 's
  sc_maxAttempts :: int
  sc_recInterval :: int
  sc_connChan :: "ConnectionEvent gochan"
  sc_done :: bool
  errorStatsData :: "StatDir option"
  nodeStatsData :: "StatDir option"
  ifaceStatsData :: "StatDir option"
  sysStatsData :: "StatDir option"
  bufStatsData :: "StatDir option"
  memStatsData :: "StatDir option"

definition newStatsConnection :: "'s \<Rightarrow> int \<Rightarrow> int \<Rightarrow> 's StatsConnection" where
  "newStatsConnection stats attempts interval =
     \<lparr>statsClient = stats,
      sc_maxAttempts = (if attempts = 0 then DefaultMaxReconnectAttempts else attempts),
      sc_recInterval = (if interval = 0 then DefaultReconnectInterval else interval),
      sc_connChan = \<lparr>gc_cap = NotificationChanBufSize, gc_queue = [], gc_closed = False\<rparr>, sc_done = False,
      errorStatsData = None, nodeStatsData = None, ifaceStatsData = None, sysStatsData = None,
      bufStatsData = None, memStatsData = None\<rparr>"

definition ConnectStats :: "'s stats_api \<Rightarrow> 's \<Rightarrow> gerr + 's StatsConnection" where
  "ConnectStats sa stats =
     (let c = newStatsConnection stats DefaultMaxReconnectAttempts DefaultReconnectInterval;
          (err, s) = sa_Connect sa (statsClient c) in
      case err of Some e \<Rightarrow> Inl e | None \<Rightarrow> Inr (c\<lparr>statsClient := s\<rparr>))"

text \<open>Sending on the closed event channel panics, also inside a \<open>select\<close> with a default case.\<close>

definition sendStatsConnEvent :: "ConnectionEvent \<Rightarrow> 's StatsConnection \<Rightarrow> 's StatsConnection option" where
  "sendStatsConnEvent ev c =
     (case chan_send (Some (sc_connChan c)) ev of
        Sent g \<Rightarrow> Some (c\<lparr>sc_connChan := g\<rparr>) | SendBlocks \<Rightarrow> Some c | SendPanics \<Rightarrow> None)"

text \<open>The result says whether the monitor goroutine is started.\<close>

function stats_connectLoop_from ::
  "'s stats_api \<Rightarrow> int \<Rightarrow> int \<Rightarrow> int \<Rightarrow> 's StatsConnection \<Rightarrow> (bool \<times> 's StatsConnection) option" where
  "stats_connectLoop_from sa now maxAtt att c =
     (let (err, s) = sa_Connect sa (statsClient c); c1 = c\<lparr>statsClient := s\<rparr> in
      case err of
        None \<Rightarrow> map_option (Pair True) (sendStatsConnEvent \<lparr>ev_Timestamp = now, ev_State = Connected, ev_Error = None\<rparr> c1)
      | Some e \<Rightarrow>
         if att < maxAtt then stats_connectLoop_from sa now maxAtt (att + 1) c1
         else map_option (Pair False) (sendStatsConnEvent \<lparr>ev_Timestamp = now, ev_State = Failed, ev_Error = Some e\<rparr> c1))"
  by pat_completeness auto
termination
  by (relation "measure (\<lambda>(sa, now, m, att, c). nat (m - att))") auto

declare stats_connectLoop_from.simps [simp del]

definition stats_connectLoop :: "'s stats_api \<Rightarrow> int \<Rightarrow> 's StatsConnection \<Rightarrow> (bool \<times> 's StatsConnection) option" where
  "stats_connectLoop sa now c = stats_connectLoop_from sa now (sc_maxAttempts c) 0 c"

text \<open>\<open>Disconnect\<close> closes the event channel first and the done channel second.\<close>

definition stats_Disconnect :: "'s stats_api \<Rightarrow> 's StatsConnection \<Rightarrow> 's StatsConnection option" where
  "stats_Disconnect sa c =
     (let (_, s) = sa_Disconnect sa (statsClient c); c1 = c\<lparr>statsClient := s\<rparr> in
      if gc_closed (sc_connChan c1) \<or> sc_done c1 then None
      else Some (c1\<lparr>sc_connChan := (sc_connChan c1)\<lparr>gc_closed := True\<rparr>, sc_done := True\<rparr>))"

text \<open>One round of the monitor's \<open>select\<close>: the ticker, or the done channel when it is closed.\<close>

datatype monitor_event = MonTick int | MonDone int

definition heartbeat_state :: "gerr option \<Rightarrow> ConnectionState" where
  "heartbeat_state err =
     (if err = Some ErrStatsDataBusy then NotResponding
      else if err = Some ErrStatsDisconnected then Disconnected
      else if err = Some ErrStatsAccessFailed then Failed else Connected)"

text \<open>The result is the new last state, or \<open>None\<close> when the monitor has returned.\<close>

definition monitor_round ::
  "'s stats_api \<Rightarrow> monitor_event \<Rightarrow> ConnectionState \<Rightarrow> 's StatsConnection \<Rightarrow>
     (ConnectionState option \<times> 's StatsConnection) option" where
  "monitor_round sa ev lastState c =
     (case ev of
        MonTick now \<Rightarrow>
          (let (err, s) = sa_ListStats sa (statsClient c) [''/sys/heartbeat'']; c1 = c\<lparr>statsClient := s\<rparr>;
               st = heartbeat_state err in
           if st = lastState then Some (Some lastState, c1)
           else map_option (Pair (Some st)) (sendStatsConnEvent \<lparr>ev_Timestamp = now, ev_State = st, ev_Error = err\<rparr> c1))
      | MonDone now \<Rightarrow>
          map_option (Pair None) (sendStatsConnEvent \<lparr>ev_Timestamp = now, ev_State = Disconnected, ev_Error = None\<rparr> c))"

section \<open>Updating a directory\<close>

definition RetryUpdateCount :: nat where "RetryUpdateCount = 10"

definition try_update ::
  "'s stats_api \<Rightarrow> string list \<Rightarrow> StatDir option \<Rightarrow> 's \<Rightarrow> gerr option \<times> StatDir option \<times> 's" where
  "try_update sa patterns dir s =
     (case dir of
        None \<Rightarrow> (case sa_PrepareDir sa s patterns of
            (Inl err, s') \<Rightarrow> (Some err, None, s') | (Inr d, s') \<Rightarrow> (None, Some d, s'))
      | Some d \<Rightarrow> (case sa_UpdateDir sa s d of
            (Inl err, s') \<Rightarrow> (Some err, None, s') | (Inr d', s') \<Rightarrow> (None, Some d', s')))"

definition retryable :: "gerr \<Rightarrow> bool" where
  "retryable e \<longleftrightarrow> e = ErrStatsDirStale \<or> e = ErrStatsDataBusy"

text \<open>\<open>n\<close> tries are left; \<open>err\<close> is the error of the last one.\<close>

fun updateStats_loop ::
  "'s stats_api \<Rightarrow> string list \<Rightarrow> nat \<Rightarrow> gerr option \<Rightarrow> StatDir option \<Rightarrow> 's \<Rightarrow> gerr option \<times> StatDir option \<times> 's" where
  "updateStats_loop sa patterns 0 err dir s = (err, dir, s)"
| "updateStats_loop sa patterns (Suc n) err dir s =
     (case try_update sa patterns dir s of
        (None, dir', s') \<Rightarrow> (None, dir', s')
      | (Some e, dir', s') \<Rightarrow>
          if retryable e then updateStats_loop sa patterns n (Some e) dir' s' else (Some e, dir', s'))"

definition updateStats ::
  "'s stats_api \<Rightarrow> string list \<Rightarrow> StatDir option \<Rightarrow> 's \<Rightarrow> gerr option \<times> StatDir option \<times> 's" where
  "updateStats sa patterns dir s = updateStats_loop sa patterns RetryUpdateCount None dir s"

section \<open>Reading values\<close>

text \<open>
  Go's conversion of a float64 to uint64 truncates; what it gives for a negative or too large value
  (or for no number) is left to the platform and is a parameter.
\<close>

definition float_to_u64 :: "(float64 \<Rightarrow> u64) \<Rightarrow> float64 \<Rightarrow> u64" where
  "float_to_u64 platform f =
     (let ex = unat (take_bit 11 (drop_bit 52 f)); m = uint (take_bit 52 f) + 2 ^ 52 in
      if ex < 1023 then 0
      else if bit f 63 \<or> 1087 \<le> ex then platform f
      else if ex < 1075 then word_of_int (m div 2 ^ (1075 - ex)) else word_of_int (m * 2 ^ (ex - 1075)))"

section \<open>System stats\<close>

record SystemStats =
  VectorRate :: u64
  NumWorkerThreads :: u64
  VectorRatePerWorker :: "u64 list"
  InputRate :: u64
  LastUpdate :: u64
  LastStatsClear :: u64
  Heartbeat :: u64

definition scalar_u64 :: "(float64 \<Rightarrow> u64) \<Rightarrow> Stat option \<Rightarrow> u64" where
  "scalar_u64 platform d = (case d of Some (ScalarStat f) \<Rightarrow> float_to_u64 platform f | _ \<Rightarrow> 0)"

text \<open>The first counter of each worker; nil workers are skipped, an empty one panics.\<close>

fun first_per_worker :: "u64 list option list \<Rightarrow> u64 list option" where
  "first_per_worker [] = Some []"
| "first_per_worker (None # ws) = map_option (Cons 0) (first_per_worker ws)"
| "first_per_worker (Some [] # ws) = None"
| "first_per_worker (Some (x # xs) # ws) = map_option (Cons x) (first_per_worker ws)"

definition system_entry :: "(float64 \<Rightarrow> u64) \<Rightarrow> StatEntry \<Rightarrow> SystemStats \<Rightarrow> SystemStats option" where
  "system_entry platform e st =
     (let val = scalar_u64 platform (se_Data e); nm = se_Name e in
      if nm = ''/sys/vector_rate'' then Some (st\<lparr>VectorRate := val\<rparr>)
      else if nm = ''/sys/num_worker_threads'' then Some (st\<lparr>NumWorkerThreads := val\<rparr>)
      else if nm = ''/sys/vector_rate_per_worker'' then
        (case se_Data e of
           Some (SimpleCounterStat ss) \<Rightarrow> map_option (\<lambda>v. st\<lparr>VectorRatePerWorker := v\<rparr>) (first_per_worker ss)
         | _ \<Rightarrow> Some (st\<lparr>VectorRatePerWorker := []\<rparr>))
      else if nm = ''/sys/input_rate'' then Some (st\<lparr>InputRate := val\<rparr>)
      else if nm = ''/sys/last_update'' then Some (st\<lparr>LastUpdate := val\<rparr>)
      else if nm = ''/sys/last_stats_clear'' then Some (st\<lparr>LastStatsClear := val\<rparr>)
      else if nm = ''/sys/heartbeat'' then Some (st\<lparr>Heartbeat := val\<rparr>)
      else Some st)"

fun fold_entries :: "(StatEntry \<Rightarrow> 't \<Rightarrow> 't option) \<Rightarrow> StatEntry list \<Rightarrow> 't \<Rightarrow> 't option" where
  "fold_entries f [] st = Some st"
| "fold_entries f (e # es) st = do { st' \<leftarrow> f e st; fold_entries f es st' }"

text \<open>
  Every getter updates its directory and then runs over the entries; it returns the error of the
  update or the filled structure (\<open>None\<close>: panic).
\<close>

definition dir_entries :: "StatDir option \<Rightarrow> StatEntry list" where
  "dir_entries d = (case d of None \<Rightarrow> [] | Some d \<Rightarrow> sd_Entries d)"

definition GetSystemStats ::
  "'s stats_api \<Rightarrow> (float64 \<Rightarrow> u64) \<Rightarrow> 's StatsConnection \<Rightarrow> SystemStats \<Rightarrow>
     (gerr option \<times> SystemStats \<times> 's StatsConnection) option" where
  "GetSystemStats sa platform c st =
     (let (err, dir, s) = updateStats sa [''/sys/''] (sysStatsData c) (statsClient c);
          c' = c\<lparr>sysStatsData := dir, statsClient := s\<rparr> in
      case err of Some e \<Rightarrow> Some (Some e, st, c')
      | None \<Rightarrow> map_option (\<lambda>st'. (None, st', c')) (fold_entries (system_entry platform) (dir_entries dir) st))"

section \<open>Error stats\<close>

record ErrorCounter =
  CounterName :: string
  ec_Values :: "u64 list"

text \<open>The list of counters is rebuilt, with the names of the entries, only when its length differs.\<close>

definition prep_errors :: "StatEntry list \<Rightarrow> ErrorCounter list \<Rightarrow> ErrorCounter list" where
  "prep_errors es st =
     (if length st \<noteq> length es then map (\<lambda>e. \<lparr>CounterName = se_Name e, ec_Values = []\<rparr>) es else st)"

definition error_values :: "Stat option \<Rightarrow> u64 list option" where
  "error_values d =
     (case d of
        Some (ErrorStat s) \<Rightarrow> Some s
      | Some (SimpleCounterStat s) \<Rightarrow> Some (map (\<lambda>w. case w of None \<Rightarrow> 0 | Some xs \<Rightarrow> sum_list xs) s)
      | _ \<Rightarrow> None)"

definition error_entry :: "StatEntry \<Rightarrow> ErrorCounter \<Rightarrow> ErrorCounter" where
  "error_entry e ec = (case error_values (se_Data e) of None \<Rightarrow> ec | Some v \<Rightarrow> ec\<lparr>ec_Values := v\<rparr>)"

definition GetErrorStats ::
  "'s stats_api \<Rightarrow> 's StatsConnection \<Rightarrow> ErrorCounter list \<Rightarrow> gerr option \<times> ErrorCounter list \<times> 's StatsConnection" where
  "GetErrorStats sa c st =
     (let (err, dir, s) = updateStats sa [''/err/''] (errorStatsData c) (statsClient c);
          c' = c\<lparr>errorStatsData := dir, statsClient := s\<rparr> in
      case err of Some e \<Rightarrow> (Some e, st, c')
      | None \<Rightarrow> (None, map2 error_entry (dir_entries dir) (prep_errors (dir_entries dir) st), c'))"

section \<open>Node and interface stats\<close>

text \<open>
  Both getters fill a list of records, one per column of a counter table. \<open>per_column\<close> is the
  closure \<open>perNode\<close>: it takes the number of columns from the first worker (a panic when there is
  none), rebuilds the list when its length differs, and applies the update with the sum of each
  column.
\<close>

definition prep_records :: "(nat \<Rightarrow> 'r) \<Rightarrow> nat \<Rightarrow> 'r list \<Rightarrow> 'r list" where
  "prep_records new l rs = (if length rs \<noteq> l then map new [0..<l] else rs)"

definition columns :: "'b list option list \<Rightarrow> nat option" where
  "columns s = (case s of [] \<Rightarrow> None | w # _ \<Rightarrow> Some (case w of None \<Rightarrow> 0 | Some xs \<Rightarrow> length xs))"

fun update_columns :: "(nat \<Rightarrow> 'v option) \<Rightarrow> ('v \<Rightarrow> 'r \<Rightarrow> 'r) \<Rightarrow> nat \<Rightarrow> 'r list \<Rightarrow> 'r list option" where
  "update_columns val upd i [] = Some []"
| "update_columns val upd i (r # rs) =
     do { v \<leftarrow> val i; rs' \<leftarrow> update_columns val upd (Suc i) rs; Some (upd v r # rs') }"

definition per_column ::
  "(nat \<Rightarrow> 'r) \<Rightarrow> ('b list option list \<Rightarrow> nat \<Rightarrow> 'v option) \<Rightarrow> 'b list option list \<Rightarrow> ('v \<Rightarrow> 'r \<Rightarrow> 'r) \<Rightarrow>
     'r list \<Rightarrow> 'r list option" where
  "per_column new reduce s upd rs =
     do { l \<leftarrow> columns s; update_columns (reduce s) upd 0 (prep_records new l rs) }"

definition per_name :: "(nat \<Rightarrow> 'r) \<Rightarrow> string list \<Rightarrow> (string \<Rightarrow> 'r \<Rightarrow> 'r) \<Rightarrow> 'r list \<Rightarrow> 'r list" where
  "per_name new names upd rs = map2 upd names (prep_records new (length names) rs)"

record NodeCounters =
  NodeIndex :: u32
  NodeName :: string
  Clocks :: u64
  Vectors :: u64
  Calls :: u64
  Suspends :: u64

definition new_node :: "nat \<Rightarrow> NodeCounters" where
  "new_node i = \<lparr>NodeIndex = word_of_nat i, NodeName = [], Clocks = 0, Vectors = 0, Calls = 0, Suspends = 0\<rparr>"

definition node_field :: "string \<Rightarrow> (u64 \<Rightarrow> NodeCounters \<Rightarrow> NodeCounters) option" where
  "node_field nm =
     (if nm = ''/sys/node/clocks'' then Some (\<lambda>v n. n\<lparr>Clocks := v\<rparr>)
      else if nm = ''/sys/node/vectors'' then Some (\<lambda>v n. n\<lparr>Vectors := v\<rparr>)
      else if nm = ''/sys/node/calls'' then Some (\<lambda>v n. n\<lparr>Calls := v\<rparr>)
      else if nm = ''/sys/node/suspends'' then Some (\<lambda>v n. n\<lparr>Suspends := v\<rparr>)
      else None)"

definition node_entry :: "StatEntry \<Rightarrow> NodeCounters list \<Rightarrow> NodeCounters list option" where
  "node_entry e ns =
     (if se_Name e = ''/sys/node/names'' then
        (case se_Data e of
           Some (NameStat names) \<Rightarrow> Some (per_name new_node names (\<lambda>nm n. n\<lparr>NodeName := nm\<rparr>) ns)
         | _ \<Rightarrow> Some ns)
      else case node_field (se_Name e) of
        Some upd \<Rightarrow>
          (case se_Data e of
             Some (SimpleCounterStat s) \<Rightarrow> per_column new_node ReduceSimpleCounterStatIndex s upd ns
           | _ \<Rightarrow> Some ns)
      | None \<Rightarrow> Some ns)"

definition GetNodeStats ::
  "'s stats_api \<Rightarrow> 's StatsConnection \<Rightarrow> NodeCounters list \<Rightarrow> (gerr option \<times> NodeCounters list \<times> 's StatsConnection) option" where
  "GetNodeStats sa c st =
     (let (err, dir, s) = updateStats sa [''/sys/node/''] (nodeStatsData c) (statsClient c);
          c' = c\<lparr>nodeStatsData := dir, statsClient := s\<rparr> in
      case err of Some e \<Rightarrow> Some (Some e, st, c')
      | None \<Rightarrow> map_option (\<lambda>st'. (None, st', c')) (fold_entries node_entry (dir_entries dir) st))"

record InterfaceCounterCombined =
  ic_Packets :: u64
  ic_Bytes :: u64

record InterfaceCounters =
  InterfaceIndex :: u32
  InterfaceName :: string
  Rx :: InterfaceCounterCombined
  Tx :: InterfaceCounterCombined
  RxErrors :: u64
  TxErrors :: u64
  RxUnicast :: InterfaceCounterCombined
  RxMulticast :: InterfaceCounterCombined
  RxBroadcast :: InterfaceCounterCombined
  TxUnicast :: InterfaceCounterCombined
  TxMulticast :: InterfaceCounterCombined
  TxBroadcast :: InterfaceCounterCombined
  Drops :: u64
  Punts :: u64
  IP4 :: u64
  IP6 :: u64
  RxNoBuf :: u64
  RxMiss :: u64
  Mpls :: u64

definition new_iface :: "nat \<Rightarrow> InterfaceCounters" where
  "new_iface i = \<lparr>InterfaceIndex = word_of_nat i, InterfaceName = [], Rx = \<lparr>ic_Packets = 0, ic_Bytes = 0\<rparr>, Tx = \<lparr>ic_Packets = 0, ic_Bytes = 0\<rparr>, RxErrors = 0,
     TxErrors = 0, RxUnicast = \<lparr>ic_Packets = 0, ic_Bytes = 0\<rparr>, RxMulticast = \<lparr>ic_Packets = 0, ic_Bytes = 0\<rparr>, RxBroadcast = \<lparr>ic_Packets = 0, ic_Bytes = 0\<rparr>, TxUnicast = \<lparr>ic_Packets = 0, ic_Bytes = 0\<rparr>,
     TxMulticast = \<lparr>ic_Packets = 0, ic_Bytes = 0\<rparr>, TxBroadcast = \<lparr>ic_Packets = 0, ic_Bytes = 0\<rparr>, Drops = 0, Punts = 0, IP4 = 0, IP6 = 0, RxNoBuf = 0,
     RxMiss = 0, Mpls = 0\<rparr>"

text \<open>A combined counter arrives as two numbers, packets first.\<close>

definition combined_counter :: "u64 \<times> u64 \<Rightarrow> InterfaceCounterCombined" where
  "combined_counter v = \<lparr>ic_Packets = fst v, ic_Bytes = snd v\<rparr>"

definition iface_simple_fields :: "(string \<times> (u64 \<Rightarrow> InterfaceCounters \<Rightarrow> InterfaceCounters)) list" where
  "iface_simple_fields =
     [(''/if/drops'', \<lambda>v r. r\<lparr>Drops := v\<rparr>), (''/if/punt'', \<lambda>v r. r\<lparr>Punts := v\<rparr>), (''/if/ip4'', \<lambda>v r. r\<lparr>IP4 := v\<rparr>),
      (''/if/ip6'', \<lambda>v r. r\<lparr>IP6 := v\<rparr>), (''/if/rx-no-buf'', \<lambda>v r. r\<lparr>RxNoBuf := v\<rparr>),
      (''/if/rx-miss'', \<lambda>v r. r\<lparr>RxMiss := v\<rparr>), (''/if/rx-error'', \<lambda>v r. r\<lparr>RxErrors := v\<rparr>),
      (''/if/tx-error'', \<lambda>v r. r\<lparr>TxErrors := v\<rparr>), (''/if/mpls'', \<lambda>v r. r\<lparr>Mpls := v\<rparr>)]"

definition iface_combined_fields :: "(string \<times> (u64 \<times> u64 \<Rightarrow> InterfaceCounters \<Rightarrow> InterfaceCounters)) list" where
  "iface_combined_fields =
     [(''/if/rx'', \<lambda>v r. r\<lparr>Rx := combined_counter v\<rparr>), (''/if/rx-unicast'', \<lambda>v r. r\<lparr>RxUnicast := combined_counter v\<rparr>),
      (''/if/rx-multicast'', \<lambda>v r. r\<lparr>RxMulticast := combined_counter v\<rparr>), (''/if/rx-broadcast'', \<lambda>v r. r\<lparr>RxBroadcast := combined_counter v\<rparr>),
      (''/if/tx'', \<lambda>v r. r\<lparr>Tx := combined_counter v\<rparr>), (''/if/tx-unicast-miss'', \<lambda>v r. r\<lparr>TxUnicast := combined_counter v\<rparr>),
      (''/if/tx-unicast'', \<lambda>v r. r\<lparr>TxUnicast := combined_counter v\<rparr>), (''/if/tx-multicast'', \<lambda>v r. r\<lparr>TxMulticast := combined_counter v\<rparr>),
      (''/if/tx-broadcast'', \<lambda>v r. r\<lparr>TxBroadcast := combined_counter v\<rparr>)]"

definition iface_entry :: "StatEntry \<Rightarrow> InterfaceCounters list \<Rightarrow> InterfaceCounters list option" where
  "iface_entry e rs =
     (if se_Name e = ''/if/names'' then
        (case se_Data e of
           Some (NameStat names) \<Rightarrow> Some (per_name new_iface names (\<lambda>nm r. r\<lparr>InterfaceName := nm\<rparr>) rs)
         | _ \<Rightarrow> Some rs)
      else case map_of iface_simple_fields (se_Name e) of
        Some upd \<Rightarrow>
          (case se_Data e of
             Some (SimpleCounterStat s) \<Rightarrow> per_column new_iface ReduceSimpleCounterStatIndex s upd rs
           | _ \<Rightarrow> Some rs)
      | None \<Rightarrow>
         (case map_of iface_combined_fields (se_Name e) of
            Some upd \<Rightarrow>
              (case se_Data e of
                 Some (CombinedCounterStat s) \<Rightarrow> per_column new_iface ReduceCombinedCounterStatIndex s upd rs
               | _ \<Rightarrow> Some rs)
          | None \<Rightarrow> Some rs))"

definition GetInterfaceStats ::
  "'s stats_api \<Rightarrow> 's StatsConnection \<Rightarrow> InterfaceCounters list \<Rightarrow>
     (gerr option \<times> InterfaceCounters list \<times> 's StatsConnection) option" where
  "GetInterfaceStats sa c st =
     (let (err, dir, s) = updateStats sa [''/if/''] (ifaceStatsData c) (statsClient c);
          c' = c\<lparr>ifaceStatsData := dir, statsClient := s\<rparr> in
      case err of Some e \<Rightarrow> Some (Some e, st, c')
      | None \<Rightarrow> map_option (\<lambda>st'. (None, st', c')) (fold_entries iface_entry (dir_entries dir) st))"

section \<open>Buffer and memory stats\<close>

text \<open>\<open>path.Split\<close>: the directory up to and with the last slash, and the rest.\<close>

definition path_Split :: "string \<Rightarrow> string \<times> string" where
  "path_Split p =
     (let f = rev (takeWhile (\<lambda>ch. ch \<noteq> CHR ''/'') (rev p)) in (take (length p - length f) p, f))"

record BufferPool =
  PoolName :: string
  Cached :: float64
  Used :: float64
  Available :: float64

definition scalar_float :: "Stat option \<Rightarrow> float64" where
  "scalar_float d = (case d of Some (ScalarStat f) \<Rightarrow> f | _ \<Rightarrow> 0)"

text \<open>A nil map of pools is replaced by an empty one, so both are the empty map here.\<close>

definition buffer_entry :: "StatEntry \<Rightarrow> (string \<rightharpoonup> BufferPool) \<Rightarrow> (string \<rightharpoonup> BufferPool)" where
  "buffer_entry e bufs =
     (let (d, f) = path_Split (se_Name e);
          nm = TrimPrefix (TrimSuffix d ''/'') ''/buffer-pools/'';
          b = (case bufs nm of Some b \<Rightarrow> b | None \<Rightarrow> \<lparr>PoolName = nm, Cached = 0, Used = 0, Available = 0\<rparr>);
          val = scalar_float (se_Data e);
          b' = (if f = ''cached'' then b\<lparr>Cached := val\<rparr>
                else if f = ''used'' then b\<lparr>Used := val\<rparr>
                else if f = ''available'' then b\<lparr>Available := val\<rparr> else b) in
      bufs(nm \<mapsto> b'))"

definition GetBufferStats ::
  "'s stats_api \<Rightarrow> 's StatsConnection \<Rightarrow> (string \<rightharpoonup> BufferPool) \<Rightarrow>
     gerr option \<times> (string \<rightharpoonup> BufferPool) \<times> 's StatsConnection" where
  "GetBufferStats sa c bufs =
     (let (err, dir, s) = updateStats sa [''/buffer-pools/''] (bufStatsData c) (statsClient c);
          c' = c\<lparr>bufStatsData := dir, statsClient := s\<rparr> in
      case err of Some e \<Rightarrow> (Some e, bufs, c') | None \<Rightarrow> (None, fold buffer_entry (dir_entries dir) bufs, c'))"

record MemoryCounters =
  mc_Total :: u64
  mc_Used :: u64
  mc_Free :: u64
  mc_UsedMMap :: u64
  mc_TotalAlloc :: u64
  mc_FreeChunks :: u64
  mc_Releasable :: u64

record MemoryStats =
  ms_Total :: float64
  ms_Used :: float64
  ms_Stat :: "nat \<rightharpoonup> MemoryCounters"
  ms_Main :: "nat \<rightharpoonup> MemoryCounters"

text \<open>The first seven counters, missing ones being 0.\<close>

definition convertStats :: "u64 list option \<Rightarrow> MemoryCounters" where
  "convertStats stats =
     (let xs = (case stats of None \<Rightarrow> [] | Some xs \<Rightarrow> xs); memUsg = take 7 xs @ replicate (7 - length xs) 0 in
      \<lparr>mc_Total = memUsg ! 0, mc_Used = memUsg ! 1, mc_Free = memUsg ! 2, mc_UsedMMap = memUsg ! 3,
       mc_TotalAlloc = memUsg ! 4, mc_FreeChunks = memUsg ! 5, mc_Releasable = memUsg ! 6\<rparr>)"

definition per_heap :: "u64 list option list \<Rightarrow> (nat \<rightharpoonup> MemoryCounters) \<Rightarrow> (nat \<rightharpoonup> MemoryCounters)" where
  "per_heap s m = fold (\<lambda>(heap, stats) m. m(heap \<mapsto> convertStats stats)) (zip [0..<length s] s) m"

definition memory_entry :: "StatEntry \<Rightarrow> MemoryStats \<Rightarrow> MemoryStats" where
  "memory_entry e st =
     (if Contains (se_Name e) ''/mem/statseg'' then
        (let f = snd (path_Split (se_Name e)); val = scalar_float (se_Data e) in
         if f = ''total'' then st\<lparr>ms_Total := val\<rparr> else if f = ''used'' then st\<lparr>ms_Used := val\<rparr> else st)
      else if se_Name e = ''/mem/stat segment'' then
        (case se_Data e of Some (SimpleCounterStat s) \<Rightarrow> st\<lparr>ms_Stat := per_heap s (ms_Stat st)\<rparr> | _ \<Rightarrow> st)
      else if se_Name e = ''/mem/main heap'' then
        (case se_Data e of Some (SimpleCounterStat s) \<Rightarrow> st\<lparr>ms_Main := per_heap s (ms_Main st)\<rparr> | _ \<Rightarrow> st)
      else st)"

definition GetMemoryStats ::
  "'s stats_api \<Rightarrow> 's StatsConnection \<Rightarrow> MemoryStats \<Rightarrow> gerr option \<times> MemoryStats \<times> 's StatsConnection" where
  "GetMemoryStats sa c st =
     (let (err, dir, s) = updateStats sa [''/mem/statseg'', ''/mem/stat segment'', ''/mem/main heap'']
            (memStatsData c) (statsClient c);
          c' = c\<lparr>memStatsData := dir, statsClient := s\<rparr> in
      case err of Some e \<Rightarrow> (Some e, st, c') | None \<Rightarrow> (None, fold memory_entry (dir_entries dir) st, c'))"

end
