(* ===== verification/CoreStatsProps.thy ===== *)
theory CoreStatsProps
  imports CoreStats
begin

text \<open>
  What the statistics connection guarantees: the retries of an update, the values of the interface,
  node and error getters, and the end of the monitor.
\<close>

section \<open>The end of the monitor\<close>

definition idle_stats :: "unit stats_api" where
  "idle_stats = \<lparr>sa_Connect = Pair None, sa_Disconnect = Pair None, sa_ListStats = (\<lambda>s _. (None, s)),
     sa_PrepareDir = (\<lambda>s _. (Inr \<lparr>sd_Epoch = 1, sd_Entries = []\<rparr>, s)), sa_UpdateDir = (\<lambda>s d. (Inr d, s))\<rparr>"

lemma send_closed: "gc_closed (sc_connChan c) \<Longrightarrow> sendStatsConnEvent ev c = None"
  by (simp add: sendStatsConnEvent_def chan_send_def)

text \<open>
  After a disconnect every event of the monitor panics: the done signal in any state,
  and a tick that observes a change of the connection state, because the event channel is closed
  before the monitor can send the final event.
\<close>

theorem stats_disconnect_panics:
  assumes "stats_Disconnect sa c = Some c'"
  shows "monitor_round sa (MonDone now) st c' = None \<and>
    (heartbeat_state (fst (sa_ListStats sa (statsClient c') [''/sys/heartbeat''])) \<noteq> st \<longrightarrow>
       monitor_round sa (MonTick now) st c' = None)"
  using assms
  by (auto simp: stats_Disconnect_def monitor_round_def send_closed Let_def split: prod.splits if_splits)

theorem stats_disconnect_panics_witness:
  "\<exists>c c' sa. ConnectStats idle_stats () = Inr c \<and> stats_Disconnect idle_stats c = Some c' \<and> sa = idle_stats \<and>
     monitor_round sa (MonDone 5) Connected c' = None"
proof -
  define c where "c = newStatsConnection () DefaultMaxReconnectAttempts DefaultReconnectInterval"
  have c: "ConnectStats idle_stats () = Inr c"
    by (simp add: ConnectStats_def idle_stats_def c_def Let_def)
  obtain c' where d: "stats_Disconnect idle_stats c = Some c'"
    by (simp add: stats_Disconnect_def idle_stats_def c_def newStatsConnection_def Let_def)
  from stats_disconnect_panics [OF d, of 5 Connected] c d show ?thesis by blast
qed

section \<open>Updating with retries\<close>

text \<open>The directory and client state after \<open>n\<close> tries in a row that failed with a retryable error.\<close>

fun retry_run :: "'s stats_api \<Rightarrow> string list \<Rightarrow> nat \<Rightarrow> StatDir option \<times> 's \<Rightarrow> (StatDir option \<times> 's) option" where
  "retry_run sa patterns 0 ds = Some ds"
| "retry_run sa patterns (Suc n) ds =
     (case try_update sa patterns (fst ds) (snd ds) of
        (Some e, dir', s') \<Rightarrow> if retryable e then retry_run sa patterns n (dir', s') else None
      | _ \<Rightarrow> None)"

lemma try_update_error: "try_update sa p dir s = (Some e, dir', s') \<Longrightarrow> dir' = None"
  by (auto simp: try_update_def split: option.splits sum.splits prod.splits)

lemma try_update_ok: "try_update sa p dir s = (None, dir', s') \<Longrightarrow> \<exists>d. dir' = Some d"
  by (auto simp: try_update_def split: option.splits sum.splits prod.splits)

lemma retry_run_dir: "retry_run sa p n ds = Some ds' \<Longrightarrow> n \<noteq> 0 \<Longrightarrow> fst ds' = None"
proof (induction n arbitrary: ds)
  case (Suc n)
  then obtain e dir' s' where "try_update sa p (fst ds) (snd ds) = (Some e, dir', s')"
    and "retry_run sa p n (dir', s') = Some ds'"
    by (auto split: prod.splits option.splits if_splits)
  with Suc.IH show ?case by (cases n) (auto dest: try_update_error)
qed simp

text \<open>How a run of at most \<open>n\<close> tries ends: with an update, a final error, or after \<open>n\<close> failures.\<close>

definition update_outcome ::
  "'s stats_api \<Rightarrow> string list \<Rightarrow> nat \<Rightarrow> StatDir option \<times> 's \<Rightarrow> gerr option \<times> StatDir option \<times> 's \<Rightarrow> bool" where
  "update_outcome sa p n ds r =
     ((\<exists>k<n. \<exists>dir1 s1. retry_run sa p k ds = Some (dir1, s1) \<and> try_update sa p dir1 s1 = r \<and>
         (\<forall>e. fst r = Some e \<longrightarrow> \<not> retryable e)) \<or>
      (\<exists>e. fst r = Some e \<and> retryable e \<and> retry_run sa p n ds = Some (snd r)))"

lemma update_outcome_step:
  assumes "try_update sa p dir s = (Some e, dir', s')" "retryable e" "update_outcome sa p n (dir', s') r"
  shows "update_outcome sa p (Suc n) (dir, s) r"
  using assms(3) unfolding update_outcome_def
proof (elim disjE)
  assume "\<exists>k<n. \<exists>dir1 s1. retry_run sa p k (dir', s') = Some (dir1, s1) \<and> try_update sa p dir1 s1 = r \<and>
         (\<forall>e. fst r = Some e \<longrightarrow> \<not> retryable e)"
  then obtain k dir1 s1 where "k < n" "retry_run sa p k (dir', s') = Some (dir1, s1)" "try_update sa p dir1 s1 = r"
    "\<forall>e. fst r = Some e \<longrightarrow> \<not> retryable e" by blast
  moreover from this(2) have "retry_run sa p (Suc k) (dir, s) = Some (dir1, s1)" using assms(1,2) by simp
  ultimately show "(\<exists>k<Suc n. \<exists>dir1 s1. retry_run sa p k (dir, s) = Some (dir1, s1) \<and> try_update sa p dir1 s1 = r \<and>
         (\<forall>e. fst r = Some e \<longrightarrow> \<not> retryable e)) \<or>
      (\<exists>e. fst r = Some e \<and> retryable e \<and> retry_run sa p (Suc n) (dir, s) = Some (snd r))"
    by (metis Suc_less_eq)
qed (use assms(1,2) in auto)

lemma update_loop_outcome:
  "n \<noteq> 0 \<or> (\<exists>e. err = Some e \<and> retryable e) \<Longrightarrow>
   update_outcome sa p n (dir, s) (updateStats_loop sa p n err dir s)"
proof (induction n arbitrary: err dir s)
  case 0
  then show ?case by (auto simp: update_outcome_def)
next
  case (Suc n)
  obtain err' dir' s' where t: "try_update sa p dir s = (err', dir', s')" by (metis prod_cases3)
  show ?case
  proof (cases "\<exists>e. err' = Some e \<and> retryable e")
    case True
    then obtain e where e: "err' = Some e" "retryable e" by blast
    then have "updateStats_loop sa p (Suc n) err dir s = updateStats_loop sa p n (Some e) dir' s'"
      using t by simp
    with update_outcome_step t e Suc.IH [of "Some e" dir' s'] show ?thesis by simp
  next
    case False
    then have "updateStats_loop sa p (Suc n) err dir s = (err', dir', s')"
      using t by (auto split: option.splits)
    with False t show ?thesis unfolding update_outcome_def
      by (intro disjI1 exI [of _ 0]) auto
  qed
qed

text \<open>
  C28 (functional). An update succeeds with the directory of its first successful try, within ten
  tries of which all earlier ones failed with a retryable error; it fails with the first error that
  is not retryable, or with the last of ten retryable ones. After any failure the directory is
  dropped, so that every retry prepares a fresh one.
\<close>

theorem updateStats_result:
  assumes "updateStats sa p dir s = (err, dir', s')"
  shows "(case err of
      None \<Rightarrow> dir' \<noteq> None \<and>
        (\<exists>k<10. \<exists>dir1 s1. retry_run sa p k (dir, s) = Some (dir1, s1) \<and> (k \<noteq> 0 \<longrightarrow> dir1 = None) \<and>
           try_update sa p dir1 s1 = (None, dir', s'))
    | Some e \<Rightarrow> dir' = None \<and>
        (if retryable e then retry_run sa p 10 (dir, s) = Some (None, s')
         else \<exists>k<10. \<exists>dir1 s1. retry_run sa p k (dir, s) = Some (dir1, s1) \<and>
                try_update sa p dir1 s1 = (Some e, None, s')))"
proof -
  have o: "update_outcome sa p 10 (dir, s) (err, dir', s')"
    using update_loop_outcome [of 10 None sa p dir s] assms by (simp add: updateStats_def RetryUpdateCount_def)
  show ?thesis
  proof (cases err)
    case None
    with o obtain k dir1 s1 where "k < 10" "retry_run sa p k (dir, s) = Some (dir1, s1)"
      "try_update sa p dir1 s1 = (None, dir', s')" by (auto simp: update_outcome_def)
    then have "k < 10" "retry_run sa p k (dir, s) = Some (dir1, s1)" "k \<noteq> 0 \<longrightarrow> dir1 = None"
      "try_update sa p dir1 s1 = (None, dir', s')" "dir' \<noteq> None"
      using retry_run_dir [of sa p k "(dir, s)"] try_update_ok by fastforce+
    with None show ?thesis by auto
  next
    case (Some e)
    show ?thesis
    proof (cases "retryable e")
      case True
      with o Some have "retry_run sa p 10 (dir, s) = Some (dir', s')" by (auto simp: update_outcome_def)
      with retry_run_dir [OF this] Some True show ?thesis by simp
    next
      case False
      with o Some obtain k dir1 s1 where "k < 10" "retry_run sa p k (dir, s) = Some (dir1, s1)"
        "try_update sa p dir1 s1 = (Some e, dir', s')" by (auto simp: update_outcome_def)
      with try_update_error [OF this(3)] Some False show ?thesis by auto
    qed
  qed
qed

text \<open>A client whose directory is stale once.\<close>

definition stale_stats :: "nat stats_api" where
  "stale_stats = \<lparr>sa_Connect = Pair None, sa_Disconnect = Pair None, sa_ListStats = (\<lambda>s _. (None, s)),
     sa_PrepareDir = (\<lambda>s _. (Inr \<lparr>sd_Epoch = 1, sd_Entries = []\<rparr>, s)),
     sa_UpdateDir = (\<lambda>s d. (Inl ErrStatsDirStale, Suc s))\<rparr>"

theorem updateStats_result_witness:
  "\<exists>k<10. \<exists>dir1 s1. retry_run stale_stats [] k (Some \<lparr>sd_Epoch = 0, sd_Entries = []\<rparr>, 0) = Some (dir1, s1) \<and>
     try_update stale_stats [] dir1 s1 = (None, Some \<lparr>sd_Epoch = 1, sd_Entries = []\<rparr>, 1)"
proof -
  have u: "updateStats stale_stats [] (Some \<lparr>sd_Epoch = 0, sd_Entries = []\<rparr>) 0 =
      (None, Some \<lparr>sd_Epoch = 1, sd_Entries = []\<rparr>, 1)"
    by (simp add: updateStats_def RetryUpdateCount_def eval_nat_numeral try_update_def stale_stats_def retryable_def)
  from updateStats_result [OF u] show ?thesis by auto
qed

section \<open>Interface counters\<close>

text \<open>The sum of a column over all workers.\<close>

definition column_sum :: "u64 list option list \<Rightarrow> nat \<Rightarrow> u64" where
  "column_sum s i = sum_list (map (\<lambda>w. the w ! i) s)"

definition combined_sum :: "(u64 \<times> u64) list option list \<Rightarrow> nat \<Rightarrow> u64 \<times> u64" where
  "combined_sum s i = (sum_list (map (\<lambda>w. fst (the w ! i)) s), sum_list (map (\<lambda>w. snd (the w ! i)) s))"

lemma update_columns_map:
  assumes "\<And>k. k < n + length rs \<Longrightarrow> val k = Some (f k)"
  shows "update_columns val upd n rs = Some (map2 (\<lambda>i. upd (f i)) [n..<n + length rs] rs)"
  using assms
proof (induction rs arbitrary: n)
  case (Cons r rs)
  have "[n..<n + length (r # rs)] = n # [Suc n..<Suc n + length rs]" by (simp add: upt_rec)
  with Cons.prems Cons.IH [of "Suc n"] show ?case by (simp add: upt_rec)
qed simp

lemma length_prep_records [simp]: "length (prep_records new l rs) = l"
  by (simp add: prep_records_def)

lemma per_column_map:
  assumes "columns s = Some l" "\<And>k. k < l \<Longrightarrow> reduce s k = Some (f k)"
  shows "per_column new reduce s upd rs = Some (map2 (\<lambda>i. upd (f i)) [0..<l] (prep_records new l rs))"
  using assms update_columns_map [of 0 "prep_records new l rs" "reduce s" f upd] by (simp add: per_column_def)

lemma columns_rectangular: "s \<noteq> [] \<Longrightarrow> rectangular l s \<Longrightarrow> columns s = Some l"
  by (cases s) (auto simp: columns_def)

text \<open>
  An entry of the interface directory fits \<open>l\<close> interfaces: a list of \<open>l\<close> names, or a table with at
  least one worker and \<open>l\<close> columns.
\<close>

definition entry_fits :: "nat \<Rightarrow> StatEntry \<Rightarrow> bool" where
  "entry_fits l e =
     (case se_Data e of
        Some (NameStat names) \<Rightarrow> length names = l
      | Some (SimpleCounterStat s) \<Rightarrow> s \<noteq> [] \<and> rectangular l s
      | Some (CombinedCounterStat s) \<Rightarrow> s \<noteq> [] \<and> rectangular l s
      | _ \<Rightarrow> True)"

text \<open>What an entry does to the record of interface \<open>i\<close>; \<open>None\<close> when it leaves the records alone.\<close>

definition iface_effect :: "StatEntry \<Rightarrow> (nat \<Rightarrow> InterfaceCounters \<Rightarrow> InterfaceCounters) option" where
  "iface_effect e =
     (case se_Data e of
        Some (NameStat names) \<Rightarrow>
          if se_Name e = ''/if/names'' then Some (\<lambda>i r. r\<lparr>InterfaceName := names ! i\<rparr>) else None
      | Some (SimpleCounterStat s) \<Rightarrow>
          map_option (\<lambda>upd i. upd (column_sum s i)) (map_of iface_simple_fields (se_Name e))
      | Some (CombinedCounterStat s) \<Rightarrow>
          map_option (\<lambda>upd i. upd (combined_sum s i)) (map_of iface_combined_fields (se_Name e))
      | _ \<Rightarrow> None)"

lemma iface_names_no_field:
  "map_of iface_simple_fields ''/if/names'' = None" "map_of iface_combined_fields ''/if/names'' = None"
  by (simp_all add: iface_simple_fields_def iface_combined_fields_def)

lemma simple_not_combined: "map_of iface_simple_fields n = Some u \<Longrightarrow> map_of iface_combined_fields n = None"
  by (auto simp: iface_simple_fields_def iface_combined_fields_def split: if_splits)

lemma map2_upt: "map2 f [0..<length xs] xs = map (\<lambda>i. f i (xs ! i)) [0..<length xs]"
  by (rule nth_equalityI) auto

lemma iface_entry_effect:
  assumes "entry_fits l e"
  shows "iface_entry e rs =
    Some (case iface_effect e of None \<Rightarrow> rs | Some g \<Rightarrow> map (\<lambda>i. g i (prep_records new_iface l rs ! i)) [0..<l])"
proof (cases "se_Data e")
  case (Some d)
  show ?thesis
  proof (cases d)
    case (NameStat names)
    then show ?thesis using assms Some
      by (auto simp: entry_fits_def iface_effect_def iface_entry_def per_name_def iface_names_no_field
          intro!: nth_equalityI split: option.splits)
  next
    case (SimpleCounterStat s)
    with assms Some have "s \<noteq> []" "rectangular l s" by (simp_all add: entry_fits_def)
    then have "per_column new_iface ReduceSimpleCounterStatIndex s upd rs =
        Some (map (\<lambda>i. upd (column_sum s i) (prep_records new_iface l rs ! i)) [0..<l])" for upd
      using per_column_map [OF columns_rectangular, of s l ReduceSimpleCounterStatIndex "column_sum s" new_iface upd rs]
        map2_upt [of _ "prep_records new_iface l rs"] by (simp add: ReduceSimple_sum column_sum_def)
    then show ?thesis using Some SimpleCounterStat
      by (auto simp: iface_effect_def iface_entry_def iface_names_no_field split: option.splits)
  next
    case (CombinedCounterStat s)
    with assms Some have "s \<noteq> []" "rectangular l s" by (simp_all add: entry_fits_def)
    then have "per_column new_iface ReduceCombinedCounterStatIndex s upd rs =
        Some (map (\<lambda>i. upd (combined_sum s i) (prep_records new_iface l rs ! i)) [0..<l])" for upd
      using per_column_map [OF columns_rectangular, of s l ReduceCombinedCounterStatIndex "combined_sum s" new_iface upd rs]
        map2_upt [of _ "prep_records new_iface l rs"] by (simp add: ReduceCombined_sum combined_sum_def)
    then show ?thesis using Some CombinedCounterStat
      by (auto simp: iface_effect_def iface_entry_def iface_names_no_field simple_not_combined split: option.splits)
  qed (use Some in \<open>auto simp: iface_effect_def iface_entry_def split: option.splits\<close>)
next
  case None
  then show ?thesis by (auto simp: iface_effect_def iface_entry_def split: option.splits)
qed

lemma simple_fields_commute:
  "list_all (\<lambda>(n, u). list_all (\<lambda>(n', u'). n = n' \<or> (\<forall>v v' r. u v (u' v' r) = u' v' (u v r))) iface_simple_fields) iface_simple_fields"
  by (simp add: iface_simple_fields_def)

text \<open>Two names of one counter: the misspelt one of older versions and the right one.\<close>

definition same_counter :: "string \<Rightarrow> string \<Rightarrow> bool" where
  "same_counter n n' \<longleftrightarrow> (n = ''/if/tx-unicast-miss'' \<and> n' = ''/if/tx-unicast'') \<or> (n = ''/if/tx-unicast'' \<and> n' = ''/if/tx-unicast-miss'')"

lemma combined_fields_commute:
  "list_all (\<lambda>(n, u). list_all (\<lambda>(n', u'). n = n' \<or> same_counter n n' \<or>
     (\<forall>v v' r. u v (u' v' r) = u' v' (u v r))) iface_combined_fields) iface_combined_fields"
  by (simp add: iface_combined_fields_def same_counter_def)

lemma mixed_fields_commute:
  "list_all (\<lambda>(n, u). list_all (\<lambda>(n', u'). \<forall>v v' r. u v (u' v' r) = u' v' (u v r)) iface_combined_fields) iface_simple_fields"
  by (simp add: iface_combined_fields_def iface_simple_fields_def)

lemma simple_field_laws:
  "list_all (\<lambda>(n, u). \<forall>v v' r nm. u v (u v' r) = u v r \<and> InterfaceIndex (u v r) = InterfaceIndex r \<and>
     u v (r\<lparr>InterfaceName := nm\<rparr>) = (u v r)\<lparr>InterfaceName := nm\<rparr>) iface_simple_fields"
  by (simp add: iface_simple_fields_def)

lemma combined_field_laws:
  "list_all (\<lambda>(n, u). \<forall>v v' r nm. u v (u v' r) = u v r \<and> InterfaceIndex (u v r) = InterfaceIndex r \<and>
     u v (r\<lparr>InterfaceName := nm\<rparr>) = (u v r)\<lparr>InterfaceName := nm\<rparr>) iface_combined_fields"
  by (simp add: iface_combined_fields_def)

lemma iface_effect_cases:
  assumes "iface_effect e = Some g"
  obtains (names) names where "se_Data e = Some (NameStat names)" "se_Name e = ''/if/names''"
      "g = (\<lambda>i r. r\<lparr>InterfaceName := names ! i\<rparr>)"
    | (simple) s u where "se_Data e = Some (SimpleCounterStat s)" "(se_Name e, u) \<in> set iface_simple_fields"
      "g = (\<lambda>i. u (column_sum s i))"
    | (combined) s u where "se_Data e = Some (CombinedCounterStat s)" "(se_Name e, u) \<in> set iface_combined_fields"
      "g = (\<lambda>i. u (combined_sum s i))"
  using assms unfolding iface_effect_def
  by (fastforce split: option.splits Stat.splits if_splits dest!: map_of_SomeD)

lemma list_all_pairD: "list_all P xs \<Longrightarrow> (a, b) \<in> set xs \<Longrightarrow> P (a, b)"
  by (auto simp: list_all_iff)

lemma iface_effect_idem: "iface_effect e = Some g \<Longrightarrow> g i (g i r) = g i r"
  by (erule iface_effect_cases)
    (auto dest!: list_all_pairD [OF simple_field_laws] list_all_pairD [OF combined_field_laws])

lemma iface_effect_index: "iface_effect e = Some g \<Longrightarrow> InterfaceIndex (g i r) = InterfaceIndex r"
  by (erule iface_effect_cases)
    (auto dest!: list_all_pairD [OF simple_field_laws] list_all_pairD [OF combined_field_laws])

lemma simple_commute: "(n, u) \<in> set iface_simple_fields \<Longrightarrow> (n', u') \<in> set iface_simple_fields \<Longrightarrow> n \<noteq> n' \<Longrightarrow>
    u v (u' v' r) = u' v' (u v r)"
  using simple_fields_commute unfolding list_all_iff by fastforce

lemma combined_commute: "(n, u) \<in> set iface_combined_fields \<Longrightarrow> (n', u') \<in> set iface_combined_fields \<Longrightarrow> n \<noteq> n' \<Longrightarrow>
    \<not> same_counter n n' \<Longrightarrow> u v (u' v' r) = u' v' (u v r)"
  using combined_fields_commute unfolding list_all_iff by fastforce

lemma mixed_commute: "(n, u) \<in> set iface_simple_fields \<Longrightarrow> (n', u') \<in> set iface_combined_fields \<Longrightarrow>
    u v (u' v' r) = u' v' (u v r)"
  using mixed_fields_commute unfolding list_all_iff by fastforce

lemma combined_name: "(n, u) \<in> set iface_combined_fields \<Longrightarrow>
    u v (r\<lparr>InterfaceName := nm\<rparr>) = (u v r)\<lparr>InterfaceName := nm\<rparr>"
  using list_all_pairD [OF combined_field_laws] by fastforce

lemma iface_effect_commute:
  assumes "iface_effect e = Some g" "iface_effect e' = Some g'" "se_Name e \<noteq> se_Name e'"
    "\<not> same_counter (se_Name e) (se_Name e')"
  shows "g i (g' i r) = g' i (g i r)"
  using assms(1)
proof (cases rule: iface_effect_cases)
  case names
  with assms(2,3) show ?thesis
    by (auto simp: combined_sum_def elim!: iface_effect_cases
        dest!: list_all_pairD [OF simple_field_laws] list_all_pairD [OF combined_field_laws])
next
  case simple
  with assms(2,3) show ?thesis
    by (auto elim!: iface_effect_cases intro: simple_commute mixed_commute
        dest: list_all_pairD [OF simple_field_laws] )
next
  case combined
  with assms(2-) show ?thesis
    by (auto simp: combined_name elim!: iface_effect_cases intro: combined_commute mixed_commute [symmetric])
qed

text \<open>All entries of a directory fit \<open>l\<close> interfaces and stand for different counters.\<close>

definition iface_dir :: "nat \<Rightarrow> StatEntry list \<Rightarrow> bool" where
  "iface_dir l es \<longleftrightarrow> list_all (entry_fits l) es \<and> distinct (map se_Name es) \<and>
     \<not> {''/if/tx-unicast-miss'', ''/if/tx-unicast''} \<subseteq> set (map se_Name es)"

text \<open>Running over further entries keeps the effect of an entry with another name.\<close>

lemma iface_entries_keep:
  assumes "fold_entries iface_entry es rs = Some rs'" "list_all (entry_fits l) es" "length rs = l"
    "iface_effect e = Some g" "se_Name e \<notin> set (map se_Name es)" "\<forall>x \<in> set es. \<not> same_counter (se_Name e) (se_Name x)"
    "\<forall>i<l. g i (rs ! i) = rs ! i"
  shows "length rs' = l \<and> (\<forall>i<l. g i (rs' ! i) = rs' ! i)"
  using assms
proof (induction es arbitrary: rs)
  case (Cons x es)
  from Cons.prems(1,2) iface_entry_effect [of l x rs] obtain rs1 where
    rs1: "rs1 = (case iface_effect x of None \<Rightarrow> rs | Some h \<Rightarrow> map (\<lambda>i. h i (prep_records new_iface l rs ! i)) [0..<l])"
    and rest: "fold_entries iface_entry es rs1 = Some rs'" by (auto split: Option.bind_splits)
  have rs: "prep_records new_iface l rs = rs" using Cons.prems(3) by (simp add: prep_records_def)
  have "length rs1 = l" "\<forall>i<l. g i (rs1 ! i) = rs1 ! i"
    using Cons.prems(3-) rs1 rs iface_effect_commute [of e g x]
    by (auto split: option.splits)
  with Cons.IH [OF rest] Cons.prems show ?case by simp
qed simp

lemma iface_entries_effect:
  assumes "iface_dir l es"
  shows "\<exists>rs'. fold_entries iface_entry es rs = Some rs' \<and>
    (\<forall>e \<in> set es. \<forall>g. iface_effect e = Some g \<longrightarrow> length rs' = l \<and> (\<forall>i<l. g i (rs' ! i) = rs' ! i))"
  using assms
proof (induction es arbitrary: rs)
  case (Cons x es)
  define rs1 where
    rs1: "rs1 = (case iface_effect x of None \<Rightarrow> rs | Some h \<Rightarrow> map (\<lambda>i. h i (prep_records new_iface l rs ! i)) [0..<l])"
  have x: "iface_entry x rs = Some rs1" using Cons.prems iface_entry_effect [of l x rs] by (simp add: iface_dir_def rs1)
  from Cons obtain rs' where rs': "fold_entries iface_entry es rs1 = Some rs'"
    and es: "\<forall>e \<in> set es. \<forall>g. iface_effect e = Some g \<longrightarrow> length rs' = l \<and> (\<forall>i<l. g i (rs' ! i) = rs' ! i)"
    by (fastforce simp: iface_dir_def)
  have "length rs' = l \<and> (\<forall>i<l. g i (rs' ! i) = rs' ! i)" if g: "iface_effect x = Some g" for g
  proof (rule iface_entries_keep [OF rs' _ _ g])
    show "\<forall>i<l. g i (rs1 ! i) = rs1 ! i" using g iface_effect_idem [OF g] by (simp add: rs1)
  qed (use Cons.prems g rs1 in \<open>auto simp: iface_dir_def same_counter_def image_iff\<close>)
  with es x rs' show ?case by auto
qed simp

lemma iface_entries_index:
  assumes "fold_entries iface_entry es rs = Some rs'" "list_all (entry_fits l) es"
    "\<forall>i<length rs. InterfaceIndex (rs ! i) = word_of_nat i"
  shows "\<forall>i<length rs'. InterfaceIndex (rs' ! i) = word_of_nat i"
  using assms
proof (induction es arbitrary: rs)
  case (Cons x es)
  from Cons.prems(1,2) iface_entry_effect [of l x rs] obtain rs1 where
    rs1: "rs1 = (case iface_effect x of None \<Rightarrow> rs | Some h \<Rightarrow> map (\<lambda>i. h i (prep_records new_iface l rs ! i)) [0..<l])"
    and rest: "fold_entries iface_entry es rs1 = Some rs'" by (auto split: Option.bind_splits)
  have "InterfaceIndex (prep_records new_iface l rs ! i) = word_of_nat i" if "i < l" for i
    using Cons.prems(3) that by (auto simp: prep_records_def new_iface_def)
  with rs1 Cons.prems(3) have "\<forall>i<length rs1. InterfaceIndex (rs1 ! i) = word_of_nat i"
    by (auto simp: iface_effect_index split: option.splits)
  with Cons.IH [OF rest] Cons.prems show ?case by simp
qed simp

lemma simple_selectors:
  "list_all (\<lambda>(n, sel). \<exists>upd. map_of iface_simple_fields n = Some upd \<and> (\<forall>v r. sel (upd v r) = v))
     [(''/if/drops'', Drops), (''/if/punt'', Punts), (''/if/ip4'', IP4), (''/if/ip6'', IP6),
        (''/if/rx-no-buf'', RxNoBuf), (''/if/rx-miss'', RxMiss), (''/if/rx-error'', RxErrors), (''/if/tx-error'', TxErrors), (''/if/mpls'', Mpls)]"
  by (simp add: iface_simple_fields_def)

lemma combined_selectors:
  "list_all (\<lambda>(n, sel). \<exists>upd. map_of iface_combined_fields n = Some upd \<and> (\<forall>v r. sel (upd v r) = \<lparr>ic_Packets = fst v, ic_Bytes = snd v\<rparr>))
     [(''/if/rx'', Rx), (''/if/rx-unicast'', RxUnicast), (''/if/rx-multicast'', RxMulticast),
        (''/if/rx-broadcast'', RxBroadcast), (''/if/tx'', Tx), (''/if/tx-unicast'', TxUnicast), (''/if/tx-unicast-miss'', TxUnicast),
        (''/if/tx-multicast'', TxMulticast), (''/if/tx-broadcast'', TxBroadcast)]"
  by (simp add: iface_combined_fields_def combined_counter_def)

lemma map_eq_uptI: "length rs = l \<Longrightarrow> (\<And>i. i < l \<Longrightarrow> f (rs ! i) = g i) \<Longrightarrow> map f rs = map g [0..<l]"
  by (rule nth_equalityI) auto

text \<open>
  C27 (functional). From a directory whose entries fit \<open>l\<close> interfaces and stand for different counters,
  \<open>GetInterfaceStats\<close> fills one record per interface, numbered from 0. The names are those of the entry
  \<open>/if/names\<close>; \<open>Drops\<close> of each interface is the sum, over all workers, of its column in the entry
  \<open>/if/drops\<close>, and so on for every counter under its path in the segment; the combined counters have
  the sums of the first numbers as packets and those of the second as bytes.
\<close>

theorem GetInterfaceStats_sums:
  assumes "updateStats sa [''/if/''] (ifaceStatsData c) (statsClient c) = (None, Some d, s')"
    and "iface_dir l (sd_Entries d)"
    and "\<forall>i<length st. InterfaceIndex (st ! i) = word_of_nat i"
  shows "\<exists>rs c'. GetInterfaceStats sa c st = Some (None, rs, c') \<and> ifaceStatsData c' = Some d \<and>
    (\<forall>i<length rs. InterfaceIndex (rs ! i) = word_of_nat i) \<and>
    (\<forall>e \<in> set (sd_Entries d). \<forall>names. se_Name e = ''/if/names'' \<and> se_Data e = Some (NameStat names) \<longrightarrow>
       map InterfaceName rs = names) \<and>
    (\<forall>(path, counter) \<in> set [(''/if/drops'', Drops), (''/if/punt'', Punts), (''/if/ip4'', IP4), (''/if/ip6'', IP6),
        (''/if/rx-no-buf'', RxNoBuf), (''/if/rx-miss'', RxMiss), (''/if/rx-error'', RxErrors), (''/if/tx-error'', TxErrors), (''/if/mpls'', Mpls)].
       \<forall>e \<in> set (sd_Entries d). \<forall>s. se_Name e = path \<and> se_Data e = Some (SimpleCounterStat s) \<longrightarrow>
         map counter rs = map (\<lambda>i. sum_list (map (\<lambda>w. the w ! i) s)) [0..<l]) \<and>
    (\<forall>(path, counter) \<in> set [(''/if/rx'', Rx), (''/if/rx-unicast'', RxUnicast), (''/if/rx-multicast'', RxMulticast),
        (''/if/rx-broadcast'', RxBroadcast), (''/if/tx'', Tx), (''/if/tx-unicast'', TxUnicast), (''/if/tx-unicast-miss'', TxUnicast),
        (''/if/tx-multicast'', TxMulticast), (''/if/tx-broadcast'', TxBroadcast)].
       \<forall>e \<in> set (sd_Entries d). \<forall>s. se_Name e = path \<and> se_Data e = Some (CombinedCounterStat s) \<longrightarrow>
         map (\<lambda>r. ic_Packets (counter r)) rs = map (\<lambda>i. sum_list (map (\<lambda>w. fst (the w ! i)) s)) [0..<l] \<and>
         map (\<lambda>r. ic_Bytes (counter r)) rs = map (\<lambda>i. sum_list (map (\<lambda>w. snd (the w ! i)) s)) [0..<l])"
proof -
  from iface_entries_effect [OF assms(2), of st] obtain rs where
    rs: "fold_entries iface_entry (sd_Entries d) st = Some rs"
    and eff: "\<And>e g. e \<in> set (sd_Entries d) \<Longrightarrow> iface_effect e = Some g \<Longrightarrow> length rs = l \<and> (\<forall>i<l. g i (rs ! i) = rs ! i)"
    by blast
  have names: "map InterfaceName rs = names"
    if e: "e \<in> set (sd_Entries d)" and n: "se_Name e = ''/if/names''" "se_Data e = Some (NameStat names)" for e names
  proof -
    have l: "length names = l" using e n assms(2) by (auto simp: iface_dir_def list_all_iff entry_fits_def)
    from eff [OF e, of "\<lambda>i r. r\<lparr>InterfaceName := names ! i\<rparr>"] n
    have r: "length rs = l" "\<And>i. i < l \<Longrightarrow> (rs ! i)\<lparr>InterfaceName := names ! i\<rparr> = rs ! i"
      by (auto simp: iface_effect_def)
    have "InterfaceName (rs ! i) = names ! i" if "i < l" for i
      using arg_cong [OF r(2) [OF that], of InterfaceName] by simp
    with r(1) l show ?thesis by (auto intro: nth_equalityI)
  qed
  have simple: "map counter rs = map (\<lambda>i. sum_list (map (\<lambda>w. the w ! i) s)) [0..<l]"
    if n: "(path, counter) \<in> set [(''/if/drops'', Drops), (''/if/punt'', Punts), (''/if/ip4'', IP4), (''/if/ip6'', IP6),
        (''/if/rx-no-buf'', RxNoBuf), (''/if/rx-miss'', RxMiss), (''/if/rx-error'', RxErrors), (''/if/tx-error'', TxErrors), (''/if/mpls'', Mpls)]"
      and e: "e \<in> set (sd_Entries d)" "se_Name e = path" "se_Data e = Some (SimpleCounterStat s)" for path counter e s
  proof -
    obtain upd where upd: "map_of iface_simple_fields path = Some upd" "\<And>v r. counter (upd v r) = v"
      using list_all_pairD [OF simple_selectors n] by auto
    from eff [OF e(1), of "\<lambda>i. upd (column_sum s i)"] e(2,3) upd(1)
    have r: "length rs = l" "\<And>i. i < l \<Longrightarrow> upd (column_sum s i) (rs ! i) = rs ! i" by (auto simp: iface_effect_def)
    have "counter (rs ! i) = column_sum s i" if "i < l" for i using r(2) [OF that] upd(2) by metis
    then show ?thesis by (intro map_eq_uptI [OF r(1)]) (simp add: column_sum_def)
  qed
  have combined: "map (\<lambda>r. ic_Packets (counter r)) rs = map (\<lambda>i. sum_list (map (\<lambda>w. fst (the w ! i)) s)) [0..<l] \<and>
      map (\<lambda>r. ic_Bytes (counter r)) rs = map (\<lambda>i. sum_list (map (\<lambda>w. snd (the w ! i)) s)) [0..<l]"
    if n: "(path, counter) \<in> set [(''/if/rx'', Rx), (''/if/rx-unicast'', RxUnicast), (''/if/rx-multicast'', RxMulticast),
        (''/if/rx-broadcast'', RxBroadcast), (''/if/tx'', Tx), (''/if/tx-unicast'', TxUnicast), (''/if/tx-unicast-miss'', TxUnicast),
        (''/if/tx-multicast'', TxMulticast), (''/if/tx-broadcast'', TxBroadcast)]"
      and e: "e \<in> set (sd_Entries d)" "se_Name e = path" "se_Data e = Some (CombinedCounterStat s)" for path counter e s
  proof -
    obtain upd where upd: "map_of iface_combined_fields path = Some upd" "\<And>v r. counter (upd v r) = \<lparr>ic_Packets = fst v, ic_Bytes = snd v\<rparr>"
      using list_all_pairD [OF combined_selectors n] by auto
    from eff [OF e(1), of "\<lambda>i. upd (combined_sum s i)"] e(2,3) upd(1)
    have r: "length rs = l" "\<And>i. i < l \<Longrightarrow> upd (combined_sum s i) (rs ! i) = rs ! i" by (auto simp: iface_effect_def)
    have "counter (rs ! i) = \<lparr>ic_Packets = fst (combined_sum s i), ic_Bytes = snd (combined_sum s i)\<rparr>" if "i < l" for i
      using r(2) [OF that] upd(2) by metis
    then show ?thesis by (intro conjI map_eq_uptI [OF r(1)]) (simp_all add: combined_sum_def)
  qed
  have index: "\<forall>i<length rs. InterfaceIndex (rs ! i) = word_of_nat i"
    using iface_entries_index [OF rs _ assms(3), of l] assms(2) by (simp add: iface_dir_def)
  have get: "GetInterfaceStats sa c st = Some (None, rs, c\<lparr>ifaceStatsData := Some d, statsClient := s'\<rparr>)"
    using rs assms(1) by (simp add: GetInterfaceStats_def dir_entries_def)
  have "ifaceStatsData (c\<lparr>ifaceStatsData := Some d, statsClient := s'\<rparr>) = Some d" by simp
  with get index names simple combined show ?thesis by blast
qed

text \<open>Two interfaces and two workers.\<close>

definition ex_iface_dir :: StatDir where
  "ex_iface_dir = \<lparr>sd_Epoch = 1, sd_Entries =
     [\<lparr>se_Index = 0, se_Name = ''/if/names'', se_Type = NameVector, se_Data = Some (NameStat [''local0'', ''eth1'']), se_Symlink = False\<rparr>,
      \<lparr>se_Index = 1, se_Name = ''/if/drops'', se_Type = SimpleCounterVector,
        se_Data = Some (SimpleCounterStat [Some [1, 2], Some [3, 4]]), se_Symlink = False\<rparr>,
      \<lparr>se_Index = 2, se_Name = ''/if/rx'', se_Type = CombinedCounterVector,
        se_Data = Some (CombinedCounterStat [Some [(1, 60), (2, 120)], Some [(5, 300), (0, 0)]]), se_Symlink = False\<rparr>]\<rparr>"

definition ex_iface_stats :: "unit stats_api" where
  "ex_iface_stats = idle_stats\<lparr>sa_PrepareDir := (\<lambda>s _. (Inr ex_iface_dir, s))\<rparr>"

theorem GetInterfaceStats_sums_witness:
  "\<exists>rs c'. GetInterfaceStats ex_iface_stats (newStatsConnection () 0 0) [] = Some (None, rs, c') \<and>
     map InterfaceName rs = [''local0'', ''eth1''] \<and> map Drops rs = [4, 6] \<and>
     map (\<lambda>r. ic_Packets (Rx r)) rs = [6, 2] \<and> map (\<lambda>r. ic_Bytes (Rx r)) rs = [360, 120]"
proof -
  let ?c = "newStatsConnection () 0 0"
  have u: "updateStats ex_iface_stats [''/if/''] (ifaceStatsData ?c) (statsClient ?c) = (None, Some ex_iface_dir, ())"
    by (simp add: updateStats_def RetryUpdateCount_def eval_nat_numeral try_update_def ex_iface_stats_def newStatsConnection_def)
  have d: "iface_dir 2 (sd_Entries ex_iface_dir)"
    by (simp add: iface_dir_def ex_iface_dir_def entry_fits_def rectangular_def)
  have two: "[0..<2] = [0, 1]" by (simp add: upt_rec)
  have none: "\<forall>i < length ([] :: InterfaceCounters list). InterfaceIndex ([] ! i) = word_of_nat i" by simp
  have e: "sd_Entries ex_iface_dir ! 1 \<in> set (sd_Entries ex_iface_dir)" "sd_Entries ex_iface_dir ! 2 \<in> set (sd_Entries ex_iface_dir)"
    "se_Name (sd_Entries ex_iface_dir ! 1) = ''/if/drops''" "se_Name (sd_Entries ex_iface_dir ! 2) = ''/if/rx''"
    "se_Data (sd_Entries ex_iface_dir ! 1) = Some (SimpleCounterStat [Some [1, 2], Some [3, 4]])"
    "se_Data (sd_Entries ex_iface_dir ! 2) = Some (CombinedCounterStat [Some [(1, 60), (2, 120)], Some [(5, 300), (0, 0)]])"
    by (simp_all add: ex_iface_dir_def)
  have n: "sd_Entries ex_iface_dir ! 0 \<in> set (sd_Entries ex_iface_dir)" "se_Name (sd_Entries ex_iface_dir ! 0) = ''/if/names''"
    "se_Data (sd_Entries ex_iface_dir ! 0) = Some (NameStat [''local0'', ''eth1''])"
    by (simp_all add: ex_iface_dir_def)
  show ?thesis
    using GetInterfaceStats_sums [OF u d none]
  proof (elim exE conjE, goal_cases)
    case (1 rs c')
    have names: "map InterfaceName rs = [''local0'', ''eth1'']" using 1(4) n by blast
    note drops = bspec [OF 1(5), of "(''/if/drops'', Drops)", OF list.set_intros(1), unfolded prod.case, rule_format, OF e(1) conjI [OF e(3,5)]]
    note rx = bspec [OF 1(6), of "(''/if/rx'', Rx)", OF list.set_intros(1), unfolded prod.case, rule_format, OF e(2) conjI [OF e(4,6)]]
    have "map Drops rs = [4, 6]" "map (\<lambda>r. ic_Packets (Rx r)) rs = [6, 2]" "map (\<lambda>r. ic_Bytes (Rx r)) rs = [360, 120]"
      unfolding drops conjunct1 [OF rx] conjunct2 [OF rx] by (simp_all add: two)
    with names 1(1) show ?case by (intro exI [of _ rs] exI [of _ c'] conjI)
  qed
qed

lemma fold_entries_panics:
  assumes "\<And>st. f e st = None" "e \<in> set es"
  shows "fold_entries f es st = None"
  using assms(2) by (induction es arbitrary: st) (auto simp: assms(1) split: Option.bind_splits)

text \<open>
  When the entry of a counter field carries a table without workers, the getter panics
  whatever the other entries are, instead of leaving the field alone or reporting an error.
\<close>

theorem GetInterfaceStats_no_workers:
  assumes "updateStats sa [''/if/''] (ifaceStatsData c) (statsClient c) = (None, Some d, s')"
    and "e \<in> set (sd_Entries d)"
    and "(se_Name e \<in> fst ` set iface_simple_fields \<and> se_Data e = Some (SimpleCounterStat [])) \<or>
         (se_Name e \<in> fst ` set iface_combined_fields \<and> se_Data e = Some (CombinedCounterStat []))"
  shows "GetInterfaceStats sa c st = None"
proof -
  have ne: "se_Name e \<noteq> ''/if/names''" using assms(3)
    by (auto simp: iface_simple_fields_def iface_combined_fields_def)
  have "iface_entry e rs = None" for rs
  proof (rule disjE [OF assms(3)])
    assume a: "se_Name e \<in> fst ` set iface_simple_fields \<and> se_Data e = Some (SimpleCounterStat [])"
    then obtain u where "map_of iface_simple_fields (se_Name e) = Some u"
      by (metis map_of_eq_None_iff not_None_eq)
    with a ne show ?thesis by (simp add: iface_entry_def per_column_def columns_def)
  next
    assume a: "se_Name e \<in> fst ` set iface_combined_fields \<and> se_Data e = Some (CombinedCounterStat [])"
    then obtain u where u: "map_of iface_combined_fields (se_Name e) = Some u"
      by (metis map_of_eq_None_iff not_None_eq)
    with simple_not_combined have "map_of iface_simple_fields (se_Name e) = None" by fastforce
    with a u ne show ?thesis by (simp add: iface_entry_def per_column_def columns_def)
  qed
  from fold_entries_panics [of iface_entry e, OF this assms(2)] assms(1) show ?thesis by (simp add: GetInterfaceStats_def dir_entries_def)
qed

theorem GetInterfaceStats_no_workers_witness:
  "GetInterfaceStats (idle_stats\<lparr>sa_PrepareDir := (\<lambda>s _. (Inr \<lparr>sd_Epoch = 1, sd_Entries =
      [\<lparr>se_Index = 1, se_Name = ''/if/rx'', se_Type = CombinedCounterVector,
        se_Data = Some (CombinedCounterStat []), se_Symlink = False\<rparr>]\<rparr>, s))\<rparr>) (newStatsConnection () 0 0) [] = None"
  by (rule GetInterfaceStats_no_workers)
    (auto simp: updateStats_def RetryUpdateCount_def eval_nat_numeral try_update_def newStatsConnection_def
      iface_combined_fields_def)

section \<open>Error counters\<close>

text \<open>
  \<open>GetErrorStats\<close> returns one counter per entry with the values of the entry, summed
  over the columns of each worker for a counter table; but the names are those of the entries only
  when their number changed since the last call, and the old names otherwise.
\<close>

theorem GetErrorStats_result:
  assumes "updateStats sa [''/err/''] (errorStatsData c) (statsClient c) = (None, Some d, s')"
  shows "\<exists>rs c'. GetErrorStats sa c st = (None, rs, c') \<and> length rs = length (sd_Entries d) \<and>
    map CounterName rs = (if length st = length (sd_Entries d) then map CounterName st else map se_Name (sd_Entries d)) \<and>
    (\<forall>i<length rs.
       (\<forall>vs. se_Data (sd_Entries d ! i) = Some (ErrorStat vs) \<longrightarrow> ec_Values (rs ! i) = vs) \<and>
       (\<forall>s. se_Data (sd_Entries d ! i) = Some (SimpleCounterStat s) \<longrightarrow>
          ec_Values (rs ! i) = map (\<lambda>w. sum_list (case w of None \<Rightarrow> [] | Some xs \<Rightarrow> xs)) s))"
proof -
  have name: "CounterName (error_entry e ec) = CounterName ec" for e ec
    by (simp add: error_entry_def split: option.split)
  have len: "length (prep_errors (sd_Entries d) st) = length (sd_Entries d)" by (simp add: prep_errors_def)
  let ?rs = "map2 error_entry (sd_Entries d) (prep_errors (sd_Entries d) st)"
  have g: "GetErrorStats sa c st = (None, ?rs, c\<lparr>errorStatsData := Some d, statsClient := s'\<rparr>)"
    using assms by (simp add: GetErrorStats_def dir_entries_def)
  have "map CounterName ?rs = map CounterName (prep_errors (sd_Entries d) st)"
    using len by (auto simp: name intro!: nth_equalityI)
  then have n: "map CounterName ?rs =
      (if length st = length (sd_Entries d) then map CounterName st else map se_Name (sd_Entries d))"
    by (simp add: prep_errors_def o_def)
  have "(case w of None \<Rightarrow> 0 | Some xs \<Rightarrow> sum_list xs) = sum_list (case w of None \<Rightarrow> [] | Some xs \<Rightarrow> xs)"
    for w :: "u64 list option" by (simp split: option.split)
  then have v: "\<forall>i<length ?rs.
       (\<forall>vs. se_Data (sd_Entries d ! i) = Some (ErrorStat vs) \<longrightarrow> ec_Values (?rs ! i) = vs) \<and>
       (\<forall>s. se_Data (sd_Entries d ! i) = Some (SimpleCounterStat s) \<longrightarrow>
          ec_Values (?rs ! i) = map (\<lambda>w. sum_list (case w of None \<Rightarrow> [] | Some xs \<Rightarrow> xs)) s)"
    by (simp add: error_entry_def error_values_def)
  have "length ?rs = length (sd_Entries d)" using len by simp
  with g n v show ?thesis by blast
qed

text \<open>Two calls between which an error counter was replaced by another.\<close>

definition ex_err_dir :: "string \<Rightarrow> u64 \<Rightarrow> StatDir" where
  "ex_err_dir nm v = \<lparr>sd_Epoch = 1, sd_Entries =
     [\<lparr>se_Index = 1, se_Name = nm, se_Type = ErrorIndex, se_Data = Some (ErrorStat [v]), se_Symlink = False\<rparr>]\<rparr>"

theorem GetErrorStats_result_witness:
  "\<exists>rs c'. GetErrorStats (idle_stats\<lparr>sa_PrepareDir := (\<lambda>s _. (Inr (ex_err_dir ''/err/b'' 7), s))\<rparr>)
     (newStatsConnection () 0 0) [\<lparr>CounterName = ''/err/a'', ec_Values = [5]\<rparr>] = (None, rs, c') \<and>
     rs = [\<lparr>CounterName = ''/err/a'', ec_Values = [7]\<rparr>]"
proof -
  let ?sa = "idle_stats\<lparr>sa_PrepareDir := (\<lambda>s _. (Inr (ex_err_dir ''/err/b'' 7), s))\<rparr>"
  let ?c = "newStatsConnection () 0 0" and ?st = "[\<lparr>CounterName = ''/err/a'', ec_Values = [5]\<rparr>]"
  have "updateStats ?sa [''/err/''] (errorStatsData ?c) (statsClient ?c) = (None, Some (ex_err_dir ''/err/b'' 7), ())"
    by (simp add: updateStats_def RetryUpdateCount_def eval_nat_numeral try_update_def newStatsConnection_def)
  from GetErrorStats_result [OF this, of ?st] obtain rs c' where g: "GetErrorStats ?sa ?c ?st = (None, rs, c')"
    and n: "map CounterName rs = [''/err/a'']" and l: "length rs = 1"
    and v: "\<forall>i<length rs. ec_Values (rs ! i) = [7]"
    by (auto simp: ex_err_dir_def)
  from n l v have "rs = [\<lparr>CounterName = ''/err/a'', ec_Values = [7]\<rparr>]" by (cases rs) auto
  with g show ?thesis by blast
qed

end
