(* ===== verification/SocketClient.thy ===== *)
theory SocketClient
  imports MemClnt
begin

text \<open>
  The Unix-socket adapter of \<open>adapter/socketclient/socketclient.go\<close>: framing of messages on the byte
  stream, opening and closing the client registration, and the reader loop.

  The connection is explicit. What VPP will send is a list of chunks, one per read of the buffered
  reader, so a chunk boundary may fall anywhere; \<open>rd_end\<close> is the error once nothing is left. What
  the client has written is a byte list; a broken connection keeps its write error. The buffer of the
  writer is not a part of the state: \<open>writeMsg\<close> flushes it before it returns, under a lock, so after every
  call that succeeds what was written is what was sent. When the connection breaks, the model has the
  error at the first write, while the code may have it at a later one or at the flush; either way
  \<open>writeMsg\<close> returns it, and the writer keeps it for every call that follows. The header pool
  is a \<open>sync.Pool\<close>: a \<open>Get\<close> returns some pooled header or a new one, which an argument decides.
  Waiting for the socket file and logging are left out.
\<close>

record sock_reader =
  rd_chunks :: "byte list list"
  rd_end :: gerr
  rd_deadline_err :: "gerr option"

record sock_writer =
  wr_size :: nat
  wr_sent :: "byte list"
  wr_err :: "gerr option"

record Client =
  clientName :: "byte list"
  sk_reader :: sock_reader
  sk_writer :: sock_writer
  sk_connected :: bool
  clientIndex :: u32
  msgTable :: "byte list \<rightharpoonup> u16"
  sockDelMsgId :: u16
  headerPool :: "byte list list"
  sk_quit :: "bool option"

section \<open>Writing a message\<close>

definition headerPool_Get :: "nat \<Rightarrow> byte list list \<Rightarrow> byte list \<times> byte list list" where
  "headerPool_Get pick p =
     (if pick < length p then (p ! pick, take pick p @ drop (Suc pick) p) else (replicate 16 0, p))"

definition wr_write :: "sock_writer \<Rightarrow> byte list \<Rightarrow> gerr option \<times> sock_writer" where
  "wr_write w bs =
     (case wr_err w of Some e \<Rightarrow> (Some e, w) | None \<Rightarrow> (None, w\<lparr>wr_sent := wr_sent w @ bs\<rparr>))"

text \<open>The header of a frame: four bytes of length at offset 8; the others are not set.\<close>

definition writeMsgHeader :: "sock_writer \<Rightarrow> byte list \<Rightarrow> nat \<Rightarrow> (gerr option \<times> byte list \<times> sock_writer) option" where
  "writeMsgHeader w header dataLen =
     (if length header < 12 then None
      else let header' = put_at 8 (be_bytes 4 (word_of_nat dataLen :: u32)) header;
               (err, w') = wr_write w header' in
           Some (err, header', w'))"

fun writeMsgData_from :: "sock_writer \<Rightarrow> byte list \<Rightarrow> nat \<Rightarrow> nat \<Rightarrow> nat \<Rightarrow> gerr option \<times> sock_writer" where
  "writeMsgData_from w msg writerSize i 0 = (None, w)"
| "writeMsgData_from w msg writerSize i (Suc k) =
     (let x = min (i * writerSize + writerSize) (length msg);
          (err, w') = wr_write w (take (x - i * writerSize) (drop (i * writerSize) msg)) in
      case err of Some e \<Rightarrow> (Some e, w') | None \<Rightarrow> writeMsgData_from w' msg writerSize (Suc i) k)"

definition writeMsgData :: "sock_writer \<Rightarrow> byte list \<Rightarrow> nat \<Rightarrow> gerr option \<times> sock_writer" where
  "writeMsgData w msg writerSize = writeMsgData_from w msg writerSize 0 (Suc (length msg div writerSize))"

definition writeMsg :: "nat \<Rightarrow> Client \<Rightarrow> byte list \<Rightarrow> (gerr option \<times> Client) option" where
  "writeMsg pick c msg =
     (let (header, p) = headerPool_Get pick (headerPool c); c1 = c\<lparr>headerPool := p\<rparr> in
      do { (err, header', w) \<leftarrow> writeMsgHeader (sk_writer c1) header (length msg);
           let c2 = c1\<lparr>sk_writer := w\<rparr>;
           Some (case err of Some e \<Rightarrow> (Some e, c2)
             | None \<Rightarrow>
                 (let c3 = c2\<lparr>headerPool := header' # headerPool c2\<rparr>;
                      (err2, w2) = writeMsgData (sk_writer c3) msg (wr_size (sk_writer c3)) in
                  (err2, c3\<lparr>sk_writer := w2\<rparr>))) })"

text \<open>The client index and the context of a request.\<close>

definition setMsgRequestHeader :: "byte list \<Rightarrow> u32 \<Rightarrow> u32 \<Rightarrow> byte list option" where
  "setMsgRequestHeader data ci ctx =
     (if length data < 10 then None else Some (put_at 6 (be_bytes 4 ctx) (put_at 2 (be_bytes 4 ci) data)))"

definition sk_SendMsg :: "nat \<Rightarrow> Client \<Rightarrow> u32 \<Rightarrow> byte list \<Rightarrow> (gerr option \<times> Client) option" where
  "sk_SendMsg pick c ctx data =
     (if length data < 10 then Some (Some (ErrMsg ''invalid message data, length must be at least 10 bytes''), c)
      else do { data' \<leftarrow> setMsgRequestHeader data (clientIndex c) ctx; writeMsg pick c data' })"

section \<open>Reading a message\<close>

text \<open>\<open>io.ReadAtLeast\<close> with a buffer of \<open>k\<close> bytes that must be filled.\<close>

fun read_full :: "gerr \<Rightarrow> nat \<Rightarrow> byte list \<Rightarrow> byte list list \<Rightarrow> (gerr + byte list) \<times> byte list list" where
  "read_full e 0 acc cs = (Inr acc, cs)"
| "read_full e (Suc k) acc [] = (Inl (if acc \<noteq> [] \<and> e = ErrEOF then ErrUnexpectedEOF else e), [])"
| "read_full e (Suc k) acc (c # cs) =
     (if Suc k < length c then (Inr (acc @ take (Suc k) c), drop (Suc k) c # cs)
      else read_full e (Suc k - length c) (acc @ c) cs)"

text \<open>A header is 16 bytes long; the pool holds no others.\<close>

definition readMsgHeader :: "sock_reader \<Rightarrow> (gerr + byte list \<times> nat) \<times> sock_reader" where
  "readMsgHeader r =
     (case read_full (rd_end r) 16 [] (rd_chunks r) of
        (Inl e, cs) \<Rightarrow> (Inl e, r\<lparr>rd_chunks := cs\<rparr>)
      | (Inr header, cs) \<Rightarrow>
          (Inr (header, unat (be_word (take 4 (drop 8 header)) :: u32)), r\<lparr>rd_chunks := cs\<rparr>))"

text \<open>
  One read of at most \<open>k\<close> bytes. Reading nothing from the buffered reader succeeds while no error is
  pending in it; none can be, because a socket never returns data and an error in the same read, and
  an error without data is returned by the read that finds it.
\<close>

definition rd_read :: "nat \<Rightarrow> sock_reader \<Rightarrow> (gerr + byte list) \<times> sock_reader" where
  "rd_read k r =
     (if k = 0 then (Inr [], r)
      else case rd_chunks r of
        [] \<Rightarrow> (Inl (rd_end r), r)
      | ch # cs \<Rightarrow> (Inr (take k ch), r\<lparr>rd_chunks := (if k < length ch then drop k ch # cs else cs)\<rparr>))"

fun read_remaining :: "gerr \<Rightarrow> nat \<Rightarrow> byte list \<Rightarrow> byte list list \<Rightarrow> (gerr + byte list) \<times> byte list list" where
  "read_remaining e 0 msg cs = (Inr msg, cs)"
| "read_remaining e (Suc r) msg [] = (Inl e, [])"
| "read_remaining e (Suc r) msg (c # cs) =
     (if c = [] then (Inl (ErrMsg ''zero nbytes''), cs)
      else if Suc r < length c then (Inr (msg @ take (Suc r) c), drop (Suc r) c # cs)
      else read_remaining e (Suc r - length c) (msg @ c) cs)"

text \<open>
  Whether the message is placed in the caller's buffer or in a new one does not matter for its
  contents: all of its bytes are overwritten.
\<close>

definition readMsgData :: "sock_reader \<Rightarrow> nat \<Rightarrow> (gerr + byte list) \<times> sock_reader" where
  "readMsgData r dataLen =
     (case rd_read dataLen r of
        (Inl e, r') \<Rightarrow> (Inl e, r')
      | (Inr got, r') \<Rightarrow>
          (case read_remaining (rd_end r') (dataLen - length got) got (rd_chunks r') of
             (res, cs) \<Rightarrow> (res, r'\<lparr>rd_chunks := cs\<rparr>)))"

definition readMsg :: "nat \<Rightarrow> Client \<Rightarrow> (gerr + byte list) \<times> Client" where
  "readMsg pick c =
     (let (_, p) = headerPool_Get pick (headerPool c); c1 = c\<lparr>headerPool := p\<rparr> in
      case readMsgHeader (sk_reader c1) of
        (Inl e, r) \<Rightarrow> (Inl e, c1\<lparr>sk_reader := r\<rparr>)
      | (Inr (header, msgLen), r) \<Rightarrow>
          (case readMsgData r msgLen of
             (res, r') \<Rightarrow> (res, c1\<lparr>headerPool := header # headerPool c1, sk_reader := r'\<rparr>)))"

definition readMsgTimeout :: "nat \<Rightarrow> Client \<Rightarrow> (gerr + byte list) \<times> Client" where
  "readMsgTimeout pick c =
     (case rd_deadline_err (sk_reader c) of Some e \<Rightarrow> (Inl e, c) | None \<Rightarrow> readMsg pick c)"

definition getMsgReplyHeader :: "byte list \<Rightarrow> (u16 \<times> u32) option" where
  "getMsgReplyHeader msg =
     (if length msg < 6 then None else Some (be_word (take 2 msg), be_word (take 4 (drop 2 msg))))"

definition isClosedError :: "gerr \<Rightarrow> bool" where
  "isClosedError e \<longleftrightarrow> errors_is e ErrEOF \<or> e = ErrClosed"

text \<open>One round of the reader loop: it returns, goes on, or calls the callback.\<close>

datatype reader_action = LoopReturns | LoopContinues | Callback u16 "byte list"

definition readerLoop_round :: "nat \<Rightarrow> Client \<Rightarrow> (reader_action \<times> Client) option" where
  "readerLoop_round pick c =
     (if sk_quit c = Some True then Some (LoopReturns, c)
      else case readMsg pick c of
        (Inl e, c') \<Rightarrow> Some (if isClosedError e then LoopReturns else LoopContinues, c')
      | (Inr msg, c') \<Rightarrow> do { (msgID, ctx) \<leftarrow> getMsgReplyHeader msg; Some (Callback msgID msg, c') })"

section \<open>The client registration\<close>

definition sockCreateMsgId :: u16 where "sockCreateMsgId = 15"

definition createMsgContext :: byte where "createMsgContext = 123"

definition deleteMsgContext :: byte where "deleteMsgContext = 124"

definition setMsgTable :: "(byte list \<rightharpoonup> u16) \<Rightarrow> u16 \<Rightarrow> Client \<Rightarrow> Client" where
  "setMsgTable t del c = c\<lparr>msgTable := t, sockDelMsgId := del\<rparr>"

definition string_bytes :: "string \<Rightarrow> byte list" where
  "string_bytes s = map of_char s"

definition sk_GetMsgID :: "Client \<Rightarrow> string \<Rightarrow> string \<Rightarrow> gerr + u16" where
  "sk_GetMsgID c msgName msgCrc =
     (case msgTable c (string_bytes (msgName @ ''_'' @ msgCrc)) of
        Some i \<Rightarrow> Inr i | None \<Rightarrow> Inl (UnknownMsgError msgName msgCrc))"

text \<open>The name of a table entry: up to the first zero byte, less one trailing byte 0x13.\<close>

definition table_name :: "byte list \<Rightarrow> byte list" where
  "table_name nm =
     (let m = takeWhile (\<lambda>b. b \<noteq> 0) nm in
      if m \<noteq> [] \<and> List.last m = 0x13 then butlast m else m)"

text \<open>\<open>sockclnt_delete_\<close>\<close>

definition sockclnt_delete_prefix :: "byte list" where
  "sockclnt_delete_prefix = string_bytes ''sockclnt_delete_''"

definition table_step :: "MessageTableEntry \<Rightarrow> (byte list \<rightharpoonup> u16) \<times> u16 \<Rightarrow> (byte list \<rightharpoonup> u16) \<times> u16" where
  "table_step x td =
     (let n = table_name (entry_Name x) in
      ((fst td)(n \<mapsto> entry_Index x),
       if take (length sockclnt_delete_prefix) n = sockclnt_delete_prefix then entry_Index x else snd td))"

text \<open>
  \<open>open\<close> sends the create request, whose context is set in byte 5, and fills the message table from
  the reply. The arguments \<open>pk\<close> and \<open>pk'\<close> are the choices of the header pool.
\<close>

definition sock_open :: "nat \<Rightarrow> nat \<Rightarrow> Client \<Rightarrow> (gerr option \<times> Client) option" where
  "sock_open pk pk' c =
     (case EncodeMsg memclnt (Some (SockclntCreate (clientName c))) sockCreateMsgId of
        Inl e \<Rightarrow> Some (Some e, c)
      | Inr msg \<Rightarrow>
          do { msg \<leftarrow> set_index msg 5 createMsgContext;
               (err, c1) \<leftarrow> writeMsg pk c msg;
               case err of Some e \<Rightarrow> Some (Some e, c1)
               | None \<Rightarrow>
                   (case readMsgTimeout pk' c1 of
                      (Inl e, c2) \<Rightarrow> Some (Some e, c2)
                    | (Inr msgReply, c2) \<Rightarrow>
                        (case DecodeMsg memclnt msgReply [] (Some (SockclntCreateReply 0 0 0 [])) of
                           Inr (SockclntCreateReply resp idx cnt table) \<Rightarrow>
                             if resp \<noteq> 0 then Some (Some (ErrMsg ''sockclnt_create_reply: response error''), c2)
                             else let (t, del) = fold table_step table (Map.empty, 0) in
                                  Some (None, setMsgTable t del (c2\<lparr>clientIndex := idx\<rparr>))
                         | Inr _ \<Rightarrow> None
                         | Inl e \<Rightarrow> Some (Some e, c2))) })"

text \<open>A reply to the delete request that does not come in time is accepted.\<close>

definition sock_close :: "nat \<Rightarrow> nat \<Rightarrow> Client \<Rightarrow> (gerr option \<times> Client) option" where
  "sock_close pk pk' c =
     (case EncodeMsg memclnt (Some (SockclntDelete (clientIndex c))) (sockDelMsgId c) of
        Inl e \<Rightarrow> Some (Some e, c)
      | Inr msg \<Rightarrow>
          do { msg \<leftarrow> setMsgRequestHeader msg (clientIndex c) (ucast deleteMsgContext);
               (err, c1) \<leftarrow> writeMsg pk c msg;
               case err of Some e \<Rightarrow> Some (Some e, c1)
               | None \<Rightarrow>
                   (case readMsgTimeout pk' c1 of
                      (Inl e, c2) \<Rightarrow> Some (if errors_is e ErrTimeout then None else Some e, c2)
                    | (Inr msgReply, c2) \<Rightarrow>
                        (case DecodeMsg memclnt msgReply [] (Some (SockclntDeleteReply 0)) of
                           Inr (SockclntDeleteReply resp) \<Rightarrow>
                             Some (if resp \<noteq> 0 then Some (ErrMsg ''sockclnt_delete_reply: response error'') else None, c2)
                         | Inr _ \<Rightarrow> None
                         | Inl e \<Rightarrow> Some (Some e, c2))) })"

definition sock_disconnect :: "gerr option \<Rightarrow> Client \<Rightarrow> gerr option \<times> Client" where
  "sock_disconnect closeErr c = (closeErr, setMsgTable Map.empty 0 c)"

text \<open>
  Connecting: what \<open>os.Stat\<close> and \<open>net.DialUnix\<close> give are arguments. \<open>conn\<close> is only set by a
  successful dial and never cleared.
\<close>

definition sock_connect :: "gerr + sock_reader \<times> sock_writer \<Rightarrow> Client \<Rightarrow> gerr option \<times> Client" where
  "sock_connect dial c =
     (case dial of Inl e \<Rightarrow> (Some e, c)
      | Inr (r, w) \<Rightarrow> (None, c\<lparr>sk_connected := True, sk_reader := r, sk_writer := w\<rparr>))"

definition sock_Connect ::
  "gerr option \<Rightarrow> gerr + sock_reader \<times> sock_writer \<Rightarrow> gerr option \<Rightarrow> nat \<Rightarrow> nat \<Rightarrow> Client \<Rightarrow> (gerr option \<times> Client) option" where
  "sock_Connect statErr dial closeErr pk pk' c =
     (case statErr of Some e \<Rightarrow> Some (Some (ErrMsg ''VPP API socket''), c)
      | None \<Rightarrow>
          (case sock_connect dial c of
             (Some e, c1) \<Rightarrow> Some (Some e, c1)
           | (None, c1) \<Rightarrow>
               do { (err, c2) \<leftarrow> sock_open pk pk' c1;
                    Some (case err of
                        Some e \<Rightarrow> (Some e, snd (sock_disconnect closeErr c2))
                      | None \<Rightarrow> (None, c2\<lparr>sk_quit := Some False\<rparr>)) }))"

text \<open>
  Disconnecting closes the quit channel and the read side, waits for the reader loop, unregisters
  and closes the connection; the result of unregistering is only logged. Closing a nil or closed
  channel panics. What can still be read when the reader loop has returned is an argument.
\<close>

definition sock_Disconnect ::
  "sock_reader \<Rightarrow> gerr option \<Rightarrow> nat \<Rightarrow> nat \<Rightarrow> Client \<Rightarrow> (gerr option \<times> Client) option" where
  "sock_Disconnect left closeErr pk pk' c =
     (if \<not> sk_connected c then Some (None, c)
      else if sk_quit c \<noteq> Some False then None
      else do { (err, c2) \<leftarrow> sock_close pk pk' (c\<lparr>sk_quit := Some True, sk_reader := left\<rparr>);
                Some (sock_disconnect closeErr c2) })"

definition NewVppClient :: Client where
  "NewVppClient = \<lparr>clientName = string_bytes ''govppsock'', sk_reader = \<lparr>rd_chunks = [], rd_end = ErrClosed, rd_deadline_err = None\<rparr>,
     sk_writer = \<lparr>wr_size = 4096, wr_sent = [], wr_err = None\<rparr>, sk_connected = False, clientIndex = 0,
     msgTable = Map.empty, sockDelMsgId = 0, headerPool = [], sk_quit = None\<rparr>"

end
