(* ===== verification/MessageStream.thy ===== *)
theory MessageStream
  imports GovppPrelude
begin

text \<open>
  What a transport promises to the layers above it, whatever its framing and whatever the boundaries
  of its reads: the messages put into one end of a byte stream come out of the other end, each once
  and in order. The locale states the contract for one message; the lemma extends it to a sequence.
\<close>

fun put_all :: "(nat \<Rightarrow> 'w \<Rightarrow> 'm \<Rightarrow> 'w option) \<Rightarrow> 'w \<Rightarrow> (nat \<times> 'm) list \<Rightarrow> 'w option" where
  "put_all put w [] = Some w"
| "put_all put w ((pk, m) # pms) = do { w' \<leftarrow> put pk w m; put_all put w' pms }"

fun get_all :: "(nat \<Rightarrow> 'r \<Rightarrow> ('m \<times> 'r) option) \<Rightarrow> 'r \<Rightarrow> nat list \<Rightarrow> ('m list \<times> 'r) option" where
  "get_all get r [] = Some ([], r)"
| "get_all get r (pk # pks) = do { (m, r') \<leftarrow> get pk r; (ms, r'') \<leftarrow> get_all get r' pks; Some (m # ms, r'') }"

locale message_stream =
  fixes put :: "nat \<Rightarrow> 'w \<Rightarrow> 'm \<Rightarrow> 'w option"
    and sent :: "'w \<Rightarrow> byte list"
    and can_put :: "'w \<Rightarrow> bool"
    and get :: "nat \<Rightarrow> 'r \<Rightarrow> ('m \<times> 'r) option"
    and avail :: "'r \<Rightarrow> byte list"
    and can_get :: "'r \<Rightarrow> bool"
    and msg_ok :: "'m \<Rightarrow> bool"
    and framed :: "'m \<Rightarrow> byte list \<Rightarrow> bool"
  assumes put_framed: "can_put w \<Longrightarrow> msg_ok m \<Longrightarrow>
      \<exists>w' f. put pk w m = Some w' \<and> can_put w' \<and> sent w' = sent w @ f \<and> framed m f"
    and get_framed: "can_get r \<Longrightarrow> msg_ok m \<Longrightarrow> framed m f \<Longrightarrow> avail r = f @ rest \<Longrightarrow>
      \<exists>r'. get pk r = Some (m, r') \<and> can_get r' \<and> avail r' = rest"
begin

lemma put_all_framed:
  assumes "can_put w" "list_all (msg_ok \<circ> snd) pms"
  shows "\<exists>w' fs. put_all put w pms = Some w' \<and> can_put w' \<and> sent w' = sent w @ concat fs \<and>
    list_all2 (\<lambda>pm f. framed (snd pm) f) pms fs"
  using assms
proof (induction pms arbitrary: w)
  case (Cons pm pms)
  obtain pk m where pm: "pm = (pk, m)" by force
  from Cons.prems put_framed [of w m pk] obtain w1 f where
    w1: "put pk w m = Some w1" "can_put w1" "sent w1 = sent w @ f" "framed m f" by (auto simp: pm)
  from Cons.IH [OF w1(2)] Cons.prems obtain w2 fs where
    "put_all put w1 pms = Some w2" "can_put w2" "sent w2 = sent w1 @ concat fs"
    "list_all2 (\<lambda>pm f. framed (snd pm) f) pms fs" by auto
  with w1 show ?case by (intro exI [of _ w2] exI [of _ "f # fs"]) (simp add: pm)
qed auto

lemma get_all_framed:
  assumes "can_get r" "list_all2 (\<lambda>m f. msg_ok m \<and> framed m f) ms fs" "avail r = concat fs @ rest"
    "length pks = length ms"
  shows "\<exists>r'. get_all get r pks = Some (ms, r') \<and> can_get r' \<and> avail r' = rest"
  using assms
proof (induction ms arbitrary: r fs pks)
  case (Cons m ms)
  from Cons.prems(2,4) obtain f fs' pk pks' where s: "fs = f # fs'" "pks = pk # pks'"
    by (cases pks) (auto simp: list_all2_Cons1)
  with Cons.prems get_framed [of r m f "concat fs' @ rest" pk] obtain r1 where
    "get pk r = Some (m, r1)" "can_get r1" "avail r1 = concat fs' @ rest" by auto
  with Cons.IH [of r1 fs' pks'] Cons.prems s show ?case by auto
qed auto

text \<open>Whatever was sent arrives, in order, for any way of cutting the stream into reads.\<close>

lemma transport:
  assumes "can_put w" "sent w = []" "list_all (msg_ok \<circ> snd) pms" "length pks = length pms"
  shows "\<exists>w'. put_all put w pms = Some w' \<and>
    (\<forall>r rest. can_get r \<longrightarrow> avail r = sent w' @ rest \<longrightarrow>
       (\<exists>r'. get_all get r pks = Some (map snd pms, r') \<and> can_get r' \<and> avail r' = rest))"
proof -
  from put_all_framed [OF assms(1,3)] obtain w' fs where
    w': "put_all put w pms = Some w'" "sent w' = concat fs"
    "list_all2 (\<lambda>pm f. framed (snd pm) f) pms fs" using assms(2) by auto
  have "list_all2 (\<lambda>m f. msg_ok m \<and> framed m f) (map snd pms) fs"
    using w'(3) assms(3) by (auto simp: list_all2_conv_all_nth list_all_length)
  with get_all_framed [of _ "map snd pms" fs _ pks] w' assms(4) show ?thesis by auto
qed

end

end
