(* ===== verification/SocketProps.thy ===== *)
theory SocketProps
  imports SocketClient MessageStream
begin

text \<open>
  The socket adapter as a message stream: frames written by \<open>writeMsg\<close> are read back by
  \<open>readMsg\<close> for every way the stream is cut into reads. Then the client registration.
\<close>

section \<open>Reading across chunk boundaries\<close>

lemma read_full_concat:
  "k \<le> length (concat cs) \<Longrightarrow>
   \<exists>cs'. read_full e k acc cs = (Inr (acc @ take k (concat cs)), cs') \<and> concat cs' = drop k (concat cs) \<and>
     ([] \<notin> set cs \<longrightarrow> [] \<notin> set cs')"
proof (induction e k acc cs rule: read_full.induct)
  case (3 e k acc c cs)
  show ?case
  proof (cases "Suc k < length c")
    case False
    with 3 have "Suc k - length c \<le> length (concat cs)" by simp
    from 3(1) [OF False this] obtain cs' where
      "read_full e (Suc k - length c) (acc @ c) cs = (Inr ((acc @ c) @ take (Suc k - length c) (concat cs)), cs')"
      "concat cs' = drop (Suc k - length c) (concat cs)" "[] \<notin> set cs \<longrightarrow> [] \<notin> set cs'" by blast
    with False show ?thesis by (simp del: append_assoc add: append_assoc [symmetric])
  qed auto
qed auto

lemma read_remaining_concat:
  "k \<le> length (concat cs) \<Longrightarrow> [] \<notin> set cs \<Longrightarrow>
   \<exists>cs'. read_remaining e k msg cs = (Inr (msg @ take k (concat cs)), cs') \<and> concat cs' = drop k (concat cs) \<and>
     [] \<notin> set cs'"
proof (induction e k msg cs rule: read_remaining.induct)
  case (3 e k msg c cs)
  show ?case
  proof (cases "Suc k < length c")
    case False
    with 3 have "Suc k - length c \<le> length (concat cs)" "[] \<notin> set cs" "c \<noteq> []" by auto
    from 3(1) [OF this(3) False this(1,2)] this(3) False show ?thesis
      by (simp del: append_assoc add: append_assoc [symmetric])
  qed (use 3 in auto)
qed auto

lemma rd_read_concat:
  assumes "k \<le> length (concat (rd_chunks r))" "[] \<notin> set (rd_chunks r)"
  shows "\<exists>j cs'. rd_read k r = (Inr (take j (concat (rd_chunks r))), r\<lparr>rd_chunks := cs'\<rparr>) \<and> j \<le> k \<and>
    j \<le> length (concat (rd_chunks r)) \<and> concat cs' = drop j (concat (rd_chunks r)) \<and> [] \<notin> set cs'"
proof (cases "k = 0")
  case True
  then show ?thesis using assms by (intro exI [of _ 0] exI [of _ "rd_chunks r"]) (simp add: rd_read_def)
next
  case False
  with assms obtain c cs where c: "rd_chunks r = c # cs" by (cases "rd_chunks r") auto
  show ?thesis
  proof (cases "k < length c")
    case True
    with False c assms(2) show ?thesis
      by (intro exI [of _ k] exI [of _ "drop k c # cs"]) (auto simp: rd_read_def)
  next
    case nk: False
    with False c assms(2) show ?thesis
      by (intro exI [of _ "length c"] exI [of _ cs]) (auto simp: rd_read_def)
  qed
qed

lemma readMsgData_concat:
  assumes "n \<le> length (concat (rd_chunks r))" "[] \<notin> set (rd_chunks r)"
  shows "\<exists>cs'. readMsgData r n = (Inr (take n (concat (rd_chunks r))), r\<lparr>rd_chunks := cs'\<rparr>) \<and>
    concat cs' = drop n (concat (rd_chunks r)) \<and> [] \<notin> set cs'"
proof -
  from rd_read_concat [OF assms] obtain j cs1 where
    j: "rd_read n r = (Inr (take j (concat (rd_chunks r))), r\<lparr>rd_chunks := cs1\<rparr>)" "j \<le> n"
    "j \<le> length (concat (rd_chunks r))" "concat cs1 = drop j (concat (rd_chunks r))" "[] \<notin> set cs1" by blast
  have "n - j \<le> length (concat cs1)" using j assms(1) by simp
  from read_remaining_concat [OF this j(5), of "rd_end r" "take j (concat (rd_chunks r))"] obtain cs2 where
    cs2: "read_remaining (rd_end r) (n - j) (take j (concat (rd_chunks r))) cs1 =
      (Inr (take j (concat (rd_chunks r)) @ take (n - j) (concat cs1)), cs2)"
    "concat cs2 = drop (n - j) (concat cs1)" "[] \<notin> set cs2" by blast
  have "take j (concat (rd_chunks r)) @ take (n - j) (concat cs1) = take n (concat (rd_chunks r))"
    unfolding j(4) using j(2) by (metis le_add_diff_inverse take_add)
  moreover have "drop (n - j) (concat cs1) = drop n (concat (rd_chunks r))" using j by simp
  ultimately show ?thesis using cs2 j by (intro exI [of _ cs2]) (simp add: readMsgData_def min_absorb2)
qed

text \<open>A frame: a header of 16 bytes with the length at offset 8, then the message.\<close>

definition framed :: "byte list \<Rightarrow> byte list \<Rightarrow> bool" where
  "framed msg f \<longleftrightarrow> length f = 16 + length msg \<and> be_word (take 4 (drop 8 f)) = (word_of_nat (length msg) :: u32) \<and>
     drop 16 f = msg"

definition msg_ok :: "byte list \<Rightarrow> bool" where
  "msg_ok msg \<longleftrightarrow> length msg < 2 ^ 32"

lemma readMsg_framed:
  assumes "[] \<notin> set (rd_chunks (sk_reader c))" "msg_ok msg" "framed msg f"
    and "concat (rd_chunks (sk_reader c)) = f @ rest"
  shows "\<exists>c'. readMsg pk c = (Inr msg, c') \<and> [] \<notin> set (rd_chunks (sk_reader c')) \<and>
    concat (rd_chunks (sk_reader c')) = rest"
proof -
  obtain p where p: "snd (headerPool_Get pk (headerPool c)) = p" by blast
  let ?r = "sk_reader c"
  have f: "length f = 16 + length msg" "drop 16 f = msg"
    and len: "unat (be_word (take 4 (drop 8 f)) :: u32) = length msg"
    using assms(2,3) by (auto simp: framed_def msg_ok_def unsigned_of_nat take_bit_nat_eq_self)
  have "16 \<le> length (concat (rd_chunks ?r))" using assms(4) f by simp
  from read_full_concat [OF this, of "rd_end ?r" "[]"] obtain cs1 where
    cs1: "read_full (rd_end ?r) 16 [] (rd_chunks ?r) = (Inr (take 16 f), cs1)"
    "concat cs1 = msg @ rest" "[] \<notin> set cs1" using assms(1,4) f by (auto simp: drop_append)
  have h: "take 4 (drop 8 (take 16 f)) = take 4 (drop 8 f)" by (simp add: drop_take)
  have "readMsgHeader ?r = (Inr (take 16 f, length msg), ?r\<lparr>rd_chunks := cs1\<rparr>)"
    using cs1(1) len h by (simp add: readMsgHeader_def)
  moreover from readMsgData_concat [of "length msg" "?r\<lparr>rd_chunks := cs1\<rparr>"] cs1 obtain cs2 where
    "readMsgData (?r\<lparr>rd_chunks := cs1\<rparr>) (length msg) = (Inr msg, ?r\<lparr>rd_chunks := cs2\<rparr>)"
    "concat cs2 = rest" "[] \<notin> set cs2" by auto
  ultimately show ?thesis by (simp add: readMsg_def Let_def split: prod.split)
qed

section \<open>Writing\<close>

lemma writeMsgData_from_ok:
  assumes "wr_err w = None" "0 < ws" "length msg < (i + k) * ws" "i * ws \<le> length msg"
  shows "writeMsgData_from w msg ws i k = (None, w\<lparr>wr_sent := wr_sent w @ drop (i * ws) msg\<rparr>)"
  using assms
proof (induction k arbitrary: i w)
  case (Suc k)
  show ?case
  proof (cases "i * ws + ws \<le> length msg")
    case True
    have "take (i * ws + ws - i * ws) (drop (i * ws) msg) @ drop (Suc i * ws) msg = drop (i * ws) msg"
      by (metis add.commute add_diff_cancel_left' append_take_drop_id drop_drop mult_Suc)
    with True Suc.prems Suc.IH [of "w\<lparr>wr_sent := wr_sent w @ take ws (drop (i * ws) msg)\<rparr>" "Suc i"]
    show ?thesis by (simp add: wr_write_def min_def algebra_simps)
  next
    case False
    with Suc.prems(3) have "k = 0 \<or> True" by simp
    have rest: "writeMsgData_from w' msg ws j n = (None, w')" if "wr_err w' = None" "length msg \<le> j * ws" for w' j n
      using that
    proof (induction n arbitrary: j w')
      case (Suc n)
      have "drop (j * ws) msg = []" using Suc.prems by simp
      moreover have "length msg \<le> Suc j * ws" using Suc.prems by simp
      ultimately show ?case using Suc.prems Suc.IH [of w' "Suc j"] by (simp add: wr_write_def Let_def)
    qed simp
    from False Suc.prems show ?thesis
      using rest [of "w\<lparr>wr_sent := wr_sent w @ drop (i * ws) msg\<rparr>" "Suc i" k]
      by (simp add: wr_write_def min_def Let_def)
  qed
qed simp

lemma writeMsgData_ok:
  assumes "wr_err w = None" "0 < ws"
  shows "writeMsgData w msg ws = (None, w\<lparr>wr_sent := wr_sent w @ msg\<rparr>)"
proof -
  have "length msg < Suc (length msg div ws) * ws"
    using assms(2) by (metis dividend_less_times_div mult.commute mult_Suc_right)
  with writeMsgData_from_ok [of w ws msg 0 "Suc (length msg div ws)"] assms show ?thesis
    by (simp add: writeMsgData_def)
qed

text \<open>A client that can write: no write error, and a pool of 16-byte headers.\<close>

definition can_write :: "Client \<Rightarrow> bool" where
  "can_write c \<longleftrightarrow> wr_err (sk_writer c) = None \<and> 0 < wr_size (sk_writer c) \<and>
     list_all (\<lambda>h. length h = 16) (headerPool c)"

lemma headerPool_Get_ok:
  assumes "list_all (\<lambda>h. length h = 16) p" "headerPool_Get pk p = (h, p')"
  shows "length h = 16 \<and> list_all (\<lambda>h. length h = 16) p'"
proof (cases "pk < length p")
  case True
  with assms have "h = p ! pk" "p' = take pk p @ drop (Suc pk) p" by (simp_all add: headerPool_Get_def)
  moreover have "set (take pk p) \<subseteq> set p" "set (drop (Suc pk) p) \<subseteq> set p" "p ! pk \<in> set p"
    using True by (auto dest: in_set_takeD in_set_dropD)
  ultimately show ?thesis using assms(1) by (auto simp: list_all_iff)
qed (use assms in \<open>auto simp: headerPool_Get_def\<close>)

lemma writeMsg_framed:
  assumes "can_write c"
  shows "\<exists>c' f. writeMsg pk c msg = Some (None, c') \<and> can_write c' \<and> framed msg f \<and>
    wr_sent (sk_writer c') = wr_sent (sk_writer c) @ f \<and> sk_reader c' = sk_reader c \<and>
    clientIndex c' = clientIndex c"
proof -
  obtain h p where g: "headerPool_Get pk (headerPool c) = (h, p)" by force
  have h: "length h = 16" "list_all (\<lambda>h. length h = 16) p"
    using headerPool_Get_ok [OF _ g] assms by (simp_all add: can_write_def)
  let ?h = "put_at 8 (be_bytes 4 (word_of_nat (length msg) :: u32)) h"
  have lh: "length ?h = 16" using h by simp
  have "take 4 (drop 8 (?h @ msg)) = take 4 (drop 8 ?h)" using lh by simp
  also have "\<dots> = be_bytes 4 (word_of_nat (length msg) :: u32)"
    using read_put_at [of 8 "be_bytes 4 (word_of_nat (length msg) :: u32)" h] h by (simp only: length_be_bytes)
  finally have "be_word (take 4 (drop 8 (?h @ msg))) = (word_of_nat (length msg) :: u32)"
    by (simp only:) (rule be_roundtrip, simp)
  with lh have fr: "framed msg (?h @ msg)" by (simp add: framed_def)
  have "writeMsg pk c msg = Some (None, c\<lparr>headerPool := ?h # p,
      sk_writer := (sk_writer c)\<lparr>wr_sent := wr_sent (sk_writer c) @ ?h @ msg\<rparr>\<rparr>)"
    using assms h(1) by (simp add: writeMsg_def g writeMsgHeader_def wr_write_def writeMsgData_ok can_write_def Let_def)
  with fr assms h lh show ?thesis by (auto simp: can_write_def)
qed

section \<open>The socket as a message stream\<close>

text \<open>A request with its context, as handed to \<open>SendMsg\<close>, and the bytes it becomes.\<close>

definition sk_put :: "nat \<Rightarrow> Client \<Rightarrow> u32 \<times> byte list \<Rightarrow> Client option" where
  "sk_put pk c m =
     (case sk_SendMsg pk c (fst m) (snd m) of Some (None, c') \<Rightarrow> Some c' | _ \<Rightarrow> None)"

definition raw_put :: "nat \<Rightarrow> Client \<Rightarrow> byte list \<Rightarrow> Client option" where
  "raw_put pk c m = (case writeMsg pk c m of Some (None, c') \<Rightarrow> Some c' | _ \<Rightarrow> None)"

definition sk_get :: "nat \<Rightarrow> Client \<Rightarrow> (byte list \<times> Client) option" where
  "sk_get pk c = (case readMsg pk c of (Inr m, c') \<Rightarrow> Some (m, c') | _ \<Rightarrow> None)"

definition can_read :: "Client \<Rightarrow> bool" where
  "can_read c \<longleftrightarrow> [] \<notin> set (rd_chunks (sk_reader c))"

definition sk_avail :: "Client \<Rightarrow> byte list" where
  "sk_avail c = concat (rd_chunks (sk_reader c))"

definition sk_sent :: "Client \<Rightarrow> byte list" where
  "sk_sent c = wr_sent (sk_writer c)"

interpretation sk: message_stream raw_put sk_sent can_write sk_get sk_avail can_read msg_ok framed
proof (unfold_locales, goal_cases)
  case (1 c m pk)
  from writeMsg_framed [OF 1(1), of pk m] show ?case by (auto simp: raw_put_def sk_sent_def)
next
  case (2 c m f rest pk)
  from readMsg_framed [of c m f rest pk] 2 show ?case by (auto simp: can_read_def sk_avail_def sk_get_def)
qed

text \<open>The request as it travels: the client index and the context are written over bytes 2 to 9.\<close>

definition stamped :: "u32 \<Rightarrow> u32 \<times> byte list \<Rightarrow> byte list" where
  "stamped ci m = take 2 (snd m) @ be_bytes 4 ci @ be_bytes 4 (fst m) @ drop 10 (snd m)"

lemma setMsgRequestHeader_stamped:
  "10 \<le> length data \<Longrightarrow> setMsgRequestHeader data ci ctx = Some (stamped ci (ctx, data))"
  by (simp add: setMsgRequestHeader_def stamped_def put_at_def)

lemma length_stamped: "10 \<le> length (snd m) \<Longrightarrow> length (stamped ci m) = length (snd m)"
  by (simp add: stamped_def)

lemma sk_put_raw: "10 \<le> length (snd m) \<Longrightarrow> sk_put pk c m = raw_put pk c (stamped (clientIndex c) m)"
  by (simp add: sk_put_def raw_put_def sk_SendMsg_def setMsgRequestHeader_stamped)

lemma raw_put_index: "can_write c \<Longrightarrow> raw_put pk c m = Some c' \<Longrightarrow> clientIndex c' = clientIndex c \<and> can_write c'"
  using writeMsg_framed [of c pk m] by (auto simp: raw_put_def)

lemma put_all_stamped:
  assumes "can_write c" "list_all (\<lambda>pm. 10 \<le> length (snd (snd pm))) pms"
  shows "put_all sk_put c pms = put_all raw_put c (map (apsnd (stamped (clientIndex c))) pms)"
  using assms
proof (induction pms arbitrary: c)
  case (Cons pm pms)
  obtain pk m where pm: "pm = (pk, m)" by (cases pm)
  show ?case
  proof (cases "raw_put pk c (stamped (clientIndex c) m)")
    case None
    with Cons.prems pm show ?thesis by (simp add: sk_put_raw)
  next
    case (Some c')
    with raw_put_index [OF Cons.prems(1)] have "clientIndex c' = clientIndex c" "can_write c'" by blast+
    with Cons.IH [of c'] Cons.prems(2) Some pm show ?thesis by (simp add: sk_put_raw)
  qed
qed simp

text \<open>
  C8 (roundtrip). Requests sent through the socket adapter, with any use of the header pool, arrive at
  the other end complete, in order and once each, with the client index and context in their header
  and otherwise unchanged, for every way in which the byte stream is cut into reads; what follows
  them in the stream is left unread.
\<close>

theorem socket_stream:
  assumes "can_write c" "sk_sent c = []"
    and "list_all (\<lambda>(pk, ctx, data). 10 \<le> length data \<and> length data < 2 ^ 32) pms"
    and "length pks = length pms"
  shows "\<exists>c'. put_all sk_put c pms = Some c' \<and>
    (\<forall>r rest. [] \<notin> set (rd_chunks (sk_reader r)) \<longrightarrow> concat (rd_chunks (sk_reader r)) = sk_sent c' @ rest \<longrightarrow>
       (\<exists>r'. get_all sk_get r pks =
            Some (map (\<lambda>(pk, ctx, data). take 2 data @ be_bytes 4 (clientIndex c) @ be_bytes 4 ctx @ drop 10 data) pms, r') \<and>
          concat (rd_chunks (sk_reader r')) = rest))"
proof -
  let ?pms = "map (apsnd (stamped (clientIndex c))) pms"
  have len: "list_all (\<lambda>pm. 10 \<le> length (snd (snd pm))) pms"
    and ok: "list_all (msg_ok \<circ> snd) ?pms"
    using assms(3) by (auto simp: list_all_iff msg_ok_def length_stamped)
  have msgs: "map snd ?pms =
      map (\<lambda>(pk, ctx, data). take 2 data @ be_bytes 4 (clientIndex c) @ be_bytes 4 ctx @ drop 10 data) pms"
    by (auto simp: stamped_def)
  from sk.transport [OF assms(1,2) ok, of pks] assms(4) obtain c' where
    c': "put_all raw_put c ?pms = Some c'"
    and get: "\<And>r rest. can_read r \<Longrightarrow> sk_avail r = sk_sent c' @ rest \<Longrightarrow>
      \<exists>r'. get_all sk_get r pks = Some (map snd ?pms, r') \<and> can_read r' \<and> sk_avail r' = rest"
    by auto
  show ?thesis
    unfolding put_all_stamped [OF assms(1) len] c'
    using get unfolding can_read_def sk_avail_def msgs by blast
qed

text \<open>Two requests; the reader gets the stream byte by byte.\<close>

theorem socket_stream_witness:
  "\<exists>c'. put_all sk_put (NewVppClient\<lparr>clientIndex := 7\<rparr>)
       [(0, 0x10002, [0, 30, 1, 1, 1, 1, 1, 1, 1, 1]), (5, 0x10003, [0, 31, 0, 0, 0, 0, 0, 0, 0, 0, 9])] = Some c' \<and>
     (\<exists>r'. get_all sk_get (NewVppClient\<lparr>sk_reader := \<lparr>rd_chunks = filter (\<lambda>x. x \<noteq> []) (map (\<lambda>x. [x]) (sk_sent c')), rd_end = ErrEOF,
            rd_deadline_err = None\<rparr>\<rparr>) [1, 2] =
        Some ([[0, 30, 0, 0, 0, 7, 0, 1, 0, 2], [0, 31, 0, 0, 0, 7, 0, 1, 0, 3, 9]], r'))"
proof -
  let ?c = "NewVppClient\<lparr>clientIndex := 7\<rparr>"
  let ?pms = "[(0, 0x10002, [0, 30, 1, 1, 1, 1, 1, 1, 1, 1]), (5, 0x10003, [0, 31, 0, 0, 0, 0, 0, 0, 0, 0, 9])]
    :: (nat \<times> u32 \<times> byte list) list"
  have "can_write ?c" "sk_sent ?c = []" by (simp_all add: can_write_def NewVppClient_def sk_sent_def)
  moreover have "list_all (\<lambda>(pk, ctx, data). 10 \<le> length data \<and> length data < 2 ^ 32) ?pms" by simp
  moreover have "length [1, 2 :: nat] = length ?pms" by simp
  ultimately obtain c' where c': "put_all sk_put ?c ?pms = Some c'"
    and get: "\<And>r rest. [] \<notin> set (rd_chunks (sk_reader r)) \<Longrightarrow> concat (rd_chunks (sk_reader r)) = sk_sent c' @ rest \<Longrightarrow>
       \<exists>r'. get_all sk_get r [1, 2] =
            Some (map (\<lambda>(pk, ctx, data). take 2 data @ be_bytes 4 (clientIndex ?c) @ be_bytes 4 ctx @ drop 10 data) ?pms, r') \<and>
          concat (rd_chunks (sk_reader r')) = rest"
    using socket_stream [of ?c ?pms "[1, 2]"] by blast
  let ?r = "NewVppClient\<lparr>sk_reader := \<lparr>rd_chunks = filter (\<lambda>x. x \<noteq> []) (map (\<lambda>x. [x]) (sk_sent c')), rd_end = ErrEOF,
            rd_deadline_err = None\<rparr>\<rparr>"
  have m_index: "clientIndex ?c = 7" by simp
  have m: "map (\<lambda>(pk, ctx, data). take 2 data @ be_bytes 4 (clientIndex ?c) @ be_bytes 4 ctx @ drop 10 data) ?pms =
    [[0, 30, 0, 0, 0, 7, 0, 1, 0, 2], [0, 31, 0, 0, 0, 7, 0, 1, 0, 3, 9]]"
    by (simp only: m_index) code_simp
  have "concat (filter (\<lambda>x. x \<noteq> []) (map (\<lambda>x. [x]) xs)) = xs" for xs :: "byte list" by (induction xs) auto
  then have "concat (rd_chunks (sk_reader ?r)) = sk_sent c' @ []" by simp
  moreover have "[] \<notin> set (rd_chunks (sk_reader ?r))" by auto
  ultimately obtain r' where "get_all sk_get ?r [1, 2] =
     Some ([[0, 30, 0, 0, 0, 7, 0, 1, 0, 2], [0, 31, 0, 0, 0, 7, 0, 1, 0, 3, 9]], r')"
    using get [of ?r "[]"] unfolding m by blast
  with c' show ?thesis by blast
qed

section \<open>Registration\<close>

lemma fold_table_step_fst:
  "fst (fold table_step table td) = fst td ++ map_of (rev (map (\<lambda>x. (table_name (entry_Name x), entry_Index x)) table))"
  by (induction table arbitrary: td) (auto simp: table_step_def Let_def)

text \<open>The entries taken for the delete request: those whose name starts with its name.\<close>

definition delete_entries :: "MessageTableEntry list \<Rightarrow> MessageTableEntry list" where
  "delete_entries table =
     filter (\<lambda>x. take (length sockclnt_delete_prefix) (table_name (entry_Name x)) = sockclnt_delete_prefix) table"

lemma fold_table_step_snd:
  "snd (fold table_step table td) =
     (case delete_entries table of [] \<Rightarrow> snd td | _ \<Rightarrow> entry_Index (List.last (delete_entries table)))"
  by (induction table arbitrary: td) (auto simp: table_step_def Let_def delete_entries_def split: list.splits)

lemma sk_GetMsgID_Inr: "sk_GetMsgID c nm crc = Inr i \<longleftrightarrow> msgTable c (string_bytes (nm @ ''_'' @ crc)) = Some i"
  by (simp add: sk_GetMsgID_def split: option.split)

lemma encode_create:
  assumes "valid_name nm"
  shows "\<exists>msg. EncodeMsg memclnt (Some (SockclntCreate nm)) i = Inr msg \<and> length msg = 70"
  using mc.encode_length [of "SockclntCreate nm" i] assms by (auto simp: getOffset_def length_pad64)

lemma sock_open_reply:
  assumes c: "can_write c" "valid_name (clientName c)" "rd_deadline_err (sk_reader c) = None"
    and r: "mc_valid (SockclntCreateReply resp idx cnt table)" "length hdr = 10"
    and f: "[] \<notin> set (rd_chunks (sk_reader c))" "concat (rd_chunks (sk_reader c)) = f @ rest"
      "framed (hdr @ mc_body (SockclntCreateReply resp idx cnt table)) f"
      "msg_ok (hdr @ mc_body (SockclntCreateReply resp idx cnt table))"
  shows "\<exists>c2. concat (rd_chunks (sk_reader c2)) = rest \<and> sock_open pk pk' c =
    (if resp \<noteq> 0 then Some (Some (ErrMsg ''sockclnt_create_reply: response error''), c2)
     else Some (None, setMsgTable (fst (fold table_step table (Map.empty, 0))) (snd (fold table_step table (Map.empty, 0)))
            (c2\<lparr>clientIndex := idx\<rparr>)))"
proof -
  from encode_create [OF c(2), of sockCreateMsgId] obtain msg where
    msg: "EncodeMsg memclnt (Some (SockclntCreate (clientName c))) sockCreateMsgId = Inr msg" "length msg = 70" by blast
  have s: "set_index msg 5 createMsgContext = Some (msg[5 := createMsgContext])"
    using msg(2) by (simp add: set_index_def)
  from writeMsg_framed [OF c(1), of pk "msg[5 := createMsgContext]"] obtain c1 where
    w: "writeMsg pk c (msg[5 := createMsgContext]) = Some (None, c1)" "sk_reader c1 = sk_reader c" by blast
  from readMsg_framed [of c1 "hdr @ mc_body (SockclntCreateReply resp idx cnt table)" f rest pk'] f w(2) obtain c2 where
    rd: "readMsg pk' c1 = (Inr (hdr @ mc_body (SockclntCreateReply resp idx cnt table)), c2)"
    "concat (rd_chunks (sk_reader c2)) = rest" by auto
  have "DecodeMsg memclnt (hdr @ mc_body (SockclntCreateReply resp idx cnt table)) [] (Some (SockclntCreateReply 0 0 0 [])) =
      Inr (SockclntCreateReply resp idx cnt table)"
    by (rule mc.decode) (use r in \<open>simp_all add: mc_same_type_def getOffset_def\<close>)
  with msg s w rd c(3) show ?thesis
    by (intro exI [of _ c2])
      (simp add: sock_open_def readMsgTimeout_def split_beta del: mc_body.simps)
qed

text \<open>
  Opening succeeds on a reply without an error: the client gets the index of the
  reply, finds exactly the messages of its table, each under its name without the padding, and leaves
  what follows the reply unread. As the id of the delete request it takes the last entry whose name
  starts with \<open>sockclnt_delete_\<close>, which the name of the delete reply does too.
\<close>

theorem sock_open_table:
  assumes "can_write c" "valid_name (clientName c)" "rd_deadline_err (sk_reader c) = None"
    and "mc_valid (SockclntCreateReply 0 idx cnt table)" "length hdr = 10"
    and "distinct (map (table_name \<circ> entry_Name) table)"
    and "[] \<notin> set (rd_chunks (sk_reader c))" "concat (rd_chunks (sk_reader c)) = f @ rest"
      "framed (hdr @ mc_body (SockclntCreateReply 0 idx cnt table)) f"
      "msg_ok (hdr @ mc_body (SockclntCreateReply 0 idx cnt table))"
  shows "\<exists>c'. sock_open pk pk' c = Some (None, c') \<and> clientIndex c' = idx \<and>
    concat (rd_chunks (sk_reader c')) = rest \<and>
    (\<forall>nm crc i. sk_GetMsgID c' nm crc = Inr i \<longleftrightarrow>
       (\<exists>e \<in> set table. table_name (entry_Name e) = string_bytes (nm @ ''_'' @ crc) \<and> entry_Index e = i)) \<and>
    (delete_entries table \<noteq> [] \<longrightarrow> sockDelMsgId c' = entry_Index (List.last (delete_entries table)))"
proof -
  let ?t = "map (\<lambda>x. (table_name (entry_Name x), entry_Index x)) table"
  from sock_open_reply [OF assms(1-5,7-10), of pk pk'] obtain c2 where c2: "concat (rd_chunks (sk_reader c2)) = rest"
    "sock_open pk pk' c = Some (None, setMsgTable (fst (fold table_step table (Map.empty, 0)))
       (snd (fold table_step table (Map.empty, 0))) (c2\<lparr>clientIndex := idx\<rparr>))" by auto
  have "map fst (rev ?t) = rev (map (table_name \<circ> entry_Name) table)" by (simp add: rev_map o_def)
  with assms(6) have d: "distinct (map fst (rev ?t))" by (simp only: distinct_rev)
  have "map_of (rev ?t) k = Some i \<longleftrightarrow> (\<exists>e \<in> set table. table_name (entry_Name e) = k \<and> entry_Index e = i)" for k i
    using map_of_eq_Some_iff [OF d, of k i] by auto
  then have g: "sk_GetMsgID (setMsgTable (fst (fold table_step table (Map.empty, 0))) del (c2\<lparr>clientIndex := idx\<rparr>)) nm crc = Inr i \<longleftrightarrow>
      (\<exists>e \<in> set table. table_name (entry_Name e) = string_bytes (nm @ ''_'' @ crc) \<and> entry_Index e = i)" for del nm crc i
    by (simp add: sk_GetMsgID_Inr setMsgTable_def fold_table_step_fst)
  show ?thesis
    using c2 g by (intro exI [of _ "setMsgTable (fst (fold table_step table (Map.empty, 0)))
       (snd (fold table_step table (Map.empty, 0))) (c2\<lparr>clientIndex := idx\<rparr>)"])
      (auto simp: setMsgTable_def fold_table_step_snd split: list.split)
qed

text \<open>A table in which the delete reply comes after the delete request, and the client that reads it.\<close>

definition ex_table :: "MessageTableEntry list" where
  "ex_table = [\<lparr>entry_Index = 17, entry_Name = string_bytes ''sockclnt_delete_8ac76db6''\<rparr>,
     \<lparr>entry_Index = 18, entry_Name = string_bytes ''sockclnt_delete_reply_8f38b1ee''\<rparr>]"

definition ex_create_reply :: "byte list" where
  "ex_create_reply = replicate 10 0 @ mc_body (SockclntCreateReply 0 3 2 ex_table)"

definition ex_sock_client :: Client where
  "ex_sock_client = NewVppClient\<lparr>sk_reader := \<lparr>rd_chunks =
     [replicate 8 0 @ be_bytes 4 (152 :: u32) @ replicate 4 0 @ ex_create_reply], rd_end = ErrEOF, rd_deadline_err = None\<rparr>\<rparr>"

lemma ex_table_valid: "mc_valid (SockclntCreateReply 0 3 2 ex_table)"
proof -
  have "list_all (valid_name \<circ> entry_Name) ex_table" by code_simp
  then show ?thesis by (simp add: ex_table_def)
qed

lemma ex_create_reply_length: "length ex_create_reply = 152"
  using ex_table_valid mc_Size_body [OF ex_table_valid]
  by (simp add: ex_create_reply_def SockclntCreateReply_Size_eq ex_table_def)

theorem sock_open_table_witness:
  "\<exists>c'. sock_open 0 0 ex_sock_client = Some (None, c') \<and> clientIndex c' = 3 \<and>
     sk_GetMsgID c' ''sockclnt_delete'' ''8ac76db6'' = Inr 17 \<and> sockDelMsgId c' = 18"
proof -
  let ?f = "replicate 8 0 @ be_bytes 4 (152 :: u32) @ replicate 4 0 @ ex_create_reply"
  have a: "can_write ex_sock_client" "rd_deadline_err (sk_reader ex_sock_client) = None"
    "[] \<notin> set (rd_chunks (sk_reader ex_sock_client))" "concat (rd_chunks (sk_reader ex_sock_client)) = ?f @ []"
    by (simp_all add: can_write_def ex_sock_client_def NewVppClient_def)
  have v: "valid_name (clientName ex_sock_client)" by code_simp
  have d: "distinct (map (table_name \<circ> entry_Name) ex_table)" by code_simp
  have "be_word (take 4 (drop 8 ?f)) = (word_of_nat 152 :: u32)"
    using be_roundtrip [of 4 "152 :: u32"] by simp
  then have fr: "framed ex_create_reply ?f" "msg_ok ex_create_reply"
    by (simp_all add: framed_def msg_ok_def ex_create_reply_length)
  have n: "\<exists>e \<in> set ex_table. table_name (entry_Name e) = string_bytes (''sockclnt_delete'' @ ''_'' @ ''8ac76db6'') \<and> entry_Index e = 17"
    by code_simp
  have l: "delete_entries ex_table \<noteq> []" "entry_Index (List.last (delete_entries ex_table)) = 18" by code_simp+
  from sock_open_table [OF a(1) v a(2) ex_table_valid _ d a(3,4), of "replicate 10 0" 0 0]
    fr n l show ?thesis unfolding ex_create_reply_def by auto
qed

text \<open>
  A client that was disconnected keeps its connection object, so a second \<open>Disconnect\<close>
  closes the quit channel again and panics; so does a \<open>Disconnect\<close> after a first \<open>Connect\<close> whose
  registration failed, where the quit channel was never made.
\<close>

theorem sock_disconnect_twice:
  assumes "(sock_Disconnect left closeErr pk pk' c = Some (err, c') \<and> sk_connected c) \<or>
    (sock_Connect None (Inr (r, w)) closeErr pk pk' c = Some (Some e, c') \<and> sk_quit c = None)"
  shows "sock_Disconnect left' closeErr' pk2 pk2' c' = None"
proof -
  have keep: "sk_connected c2 = sk_connected c1 \<and> sk_quit c2 = sk_quit c1" if "writeMsg p c1 m = Some (x, c2)" for p c1 m x c2
    using that by (auto simp: writeMsg_def Let_def split: prod.splits option.splits Option.bind_splits)
  have keep_r: "sk_connected c2 = sk_connected c1 \<and> sk_quit c2 = sk_quit c1" if "readMsgTimeout p c1 = (x, c2)" for p c1 x c2
    using that by (auto simp: readMsgTimeout_def readMsg_def Let_def split: prod.splits option.splits sum.splits)
  have close: "sk_connected c2 = sk_connected c1 \<and> sk_quit c2 = sk_quit c1" if "sock_close p p' c1 = Some (x, c2)" for p p' c1 x c2
    using that by (auto simp: sock_close_def split: prod.splits option.splits sum.splits Option.bind_splits memclnt_msg.splits
        dest!: keep keep_r)
  have "open": "sk_connected c2 = sk_connected c1 \<and> sk_quit c2 = sk_quit c1" if "sock_open p p' c1 = Some (x, c2)" for p p' c1 x c2
    using that by (auto simp: sock_open_def setMsgTable_def split: prod.splits option.splits sum.splits Option.bind_splits memclnt_msg.splits if_splits
        dest!: keep keep_r)
  have "sk_connected c' \<and> sk_quit c' \<noteq> Some False"
    using assms
    by (auto simp: sock_Disconnect_def sock_Connect_def sock_connect_def sock_disconnect_def setMsgTable_def
        split: prod.splits option.splits Option.bind_splits if_splits dest!: close "open")
  then show ?thesis by (simp add: sock_Disconnect_def)
qed

lemma sock_open_no_reply:
  assumes "can_write c" "valid_name (clientName c)" "rd_chunks (sk_reader c) = []" "rd_deadline_err (sk_reader c) = None"
  shows "\<exists>c'. sock_open pk pk' c = Some (Some (rd_end (sk_reader c)), c') \<or> sock_open pk pk' c = Some (Some ErrUnexpectedEOF, c')"
proof -
  from encode_create [OF assms(2), of sockCreateMsgId] obtain msg where
    msg: "EncodeMsg memclnt (Some (SockclntCreate (clientName c))) sockCreateMsgId = Inr msg" "length msg = 70" by blast
  then have s: "set_index msg 5 createMsgContext = Some (msg[5 := createMsgContext])"
    by (simp add: set_index_def)
  from writeMsg_framed [OF assms(1), of pk "msg[5 := createMsgContext]"] obtain c1 where
    w: "writeMsg pk c (msg[5 := createMsgContext]) = Some (None, c1)" "sk_reader c1 = sk_reader c" by blast
  have "read_full e 16 [] [] = (Inl e, [])" for e by (simp add: eval_nat_numeral)
  then have "\<exists>c2. readMsg pk' c1 = (Inl (rd_end (sk_reader c)), c2)"
    using w assms(3) by (simp add: readMsg_def readMsgHeader_def Let_def split: prod.split)
  with msg s w assms(4) show ?thesis by (auto simp: sock_open_def readMsgTimeout_def)
qed

theorem sock_disconnect_twice_witness:
  "\<exists>e c'. sock_Connect None (Inr (\<lparr>rd_chunks = [], rd_end = ErrTimeout, rd_deadline_err = None\<rparr>,
       \<lparr>wr_size = 4096, wr_sent = [], wr_err = None\<rparr>)) None 0 0 NewVppClient = Some (Some e, c') \<and>
     sock_Disconnect \<lparr>rd_chunks = [], rd_end = ErrEOF, rd_deadline_err = None\<rparr> None 0 0 c' = None"
proof -
  let ?r = "\<lparr>rd_chunks = [], rd_end = ErrTimeout, rd_deadline_err = None\<rparr>"
  let ?w = "\<lparr>wr_size = 4096, wr_sent = [], wr_err = None\<rparr>"
  let ?c = "NewVppClient\<lparr>sk_connected := True, sk_reader := ?r, sk_writer := ?w\<rparr>"
  have "valid_name (clientName NewVppClient)" by code_simp
  then have "\<exists>e c'. sock_open 0 0 ?c = Some (Some e, c')"
    using sock_open_no_reply [of ?c 0 0] by (auto simp: can_write_def NewVppClient_def)
  then obtain e c' where c': "sock_Connect None (Inr (?r, ?w)) None 0 0 NewVppClient = Some (Some e, c')"
    by (auto simp: sock_Connect_def sock_connect_def)
  have "sk_quit NewVppClient = None" by (simp add: NewVppClient_def)
  with sock_disconnect_twice [of undefined None 0 0 NewVppClient None c' ?r ?w e
      "\<lparr>rd_chunks = [], rd_end = ErrEOF, rd_deadline_err = None\<rparr>" None 0 0] c' show ?thesis by blast
qed

text \<open>
  A frame that announces less than the six bytes of a reply header makes the reader loop
  panic, unless it was told to quit; a longer one is handed to the callback as it is, with its id.
\<close>

theorem reader_short_frame:
  assumes "sk_quit c \<noteq> Some True" "[] \<notin> set (rd_chunks (sk_reader c))" "framed msg f" "length msg < 2 ^ 32"
    and "concat (rd_chunks (sk_reader c)) = f @ rest"
  shows "if length msg < 6 then readerLoop_round pk c = None
    else \<exists>c'. readerLoop_round pk c = Some (Callback (be_word (take 2 msg)) msg, c') \<and>
           concat (rd_chunks (sk_reader c')) = rest"
  using readMsg_framed [of c msg f rest pk] assms
  by (auto simp: readerLoop_round_def getMsgReplyHeader_def msg_ok_def)

theorem reader_short_frame_witness:
  "readerLoop_round 0 (NewVppClient\<lparr>sk_reader := \<lparr>rd_chunks = [replicate 16 0], rd_end = ErrEOF, rd_deadline_err = None\<rparr>\<rparr>) = None"
proof -
  let ?c = "NewVppClient\<lparr>sk_reader := \<lparr>rd_chunks = [replicate 16 0], rd_end = ErrEOF, rd_deadline_err = None\<rparr>\<rparr>"
  have "framed [] (replicate 16 0)" by code_simp
  with reader_short_frame [of ?c "[]" "replicate 16 0" "[]" 0] show ?thesis by (simp add: NewVppClient_def)
qed

end
