(* ===== verification/TcpClient.thy ===== *)
theory TcpClient
  imports SocketProps
begin

text \<open>
  The TCP adapter of \<open>adapter/tcpclient/tcpclient.go\<close>. Its client has the fields of the socket
  client, and its frame writing, message table and header functions are the same code, so the
  definitions of \<open>SocketClient\<close> are used for them; reading, opening, closing and the checks of
  \<open>SendMsg\<close> differ and are given here. A connection is the pair of reader and writer; setting TCP
  options and logging are left out.
\<close>

text \<open>A frame without data is returned as a nil message.\<close>

definition tcp_readMsg :: "Client \<Rightarrow> (gerr + byte list option) \<times> Client" where
  "tcp_readMsg c =
     (let r = sk_reader c in
      case read_full (rd_end r) 16 [] (rd_chunks r) of
        (Inl e, cs) \<Rightarrow> (Inl e, c\<lparr>sk_reader := r\<lparr>rd_chunks := cs\<rparr>\<rparr>)
      | (Inr header, cs) \<Rightarrow>
          (let dataLen = unat (be_word (take 4 (drop 8 header)) :: u32) in
           if dataLen > 0 then
             (case read_full (rd_end r) dataLen [] cs of
                (Inl e, cs') \<Rightarrow> (Inl e, c\<lparr>sk_reader := r\<lparr>rd_chunks := cs'\<rparr>\<rparr>)
              | (Inr msg, cs') \<Rightarrow> (Inr (Some msg), c\<lparr>sk_reader := r\<lparr>rd_chunks := cs'\<rparr>\<rparr>))
           else (Inr None, c\<lparr>sk_reader := r\<lparr>rd_chunks := cs\<rparr>\<rparr>)))"

definition tcp_readMsgTimeout :: "Client \<Rightarrow> (gerr + byte list option) \<times> Client" where
  "tcp_readMsgTimeout c =
     (case rd_deadline_err (sk_reader c) of Some e \<Rightarrow> (Inl e, c) | None \<Rightarrow> tcp_readMsg c)"

definition bytes_of :: "byte list option \<Rightarrow> byte list" where
  "bytes_of m = (case m of None \<Rightarrow> [] | Some m \<Rightarrow> m)"

definition tcp_isClosedError :: "gerr \<Rightarrow> bool" where
  "tcp_isClosedError e \<longleftrightarrow> e = ErrEOF \<or> errors_is e ErrClosed"

definition tcp_readerLoop_round :: "Client \<Rightarrow> (reader_action \<times> Client) option" where
  "tcp_readerLoop_round c =
     (if sk_quit c = Some True then Some (LoopReturns, c)
      else case tcp_readMsg c of
        (Inl e, c') \<Rightarrow> Some (if tcp_isClosedError e then LoopReturns else LoopContinues, c')
      | (Inr msg, c') \<Rightarrow>
          do { (msgID, ctx) \<leftarrow> getMsgReplyHeader (bytes_of msg); Some (Callback msgID (bytes_of msg), c') })"

definition tcp_SendMsg :: "nat \<Rightarrow> Client \<Rightarrow> u32 \<Rightarrow> byte list \<Rightarrow> (gerr option \<times> Client) option" where
  "tcp_SendMsg pick c ctx data =
     (if length data < 10 then Some (Some (ErrMsg ''invalid message data, length must be at least 10 bytes''), c)
      else if \<not> sk_connected c then Some (Some (ErrMsg ''not connected''), c)
      else do { data' \<leftarrow> setMsgRequestHeader data (clientIndex c) ctx; writeMsg pick c data' })"

section \<open>Opening and closing\<close>

definition bytes_contain :: "byte list \<Rightarrow> byte list \<Rightarrow> bool" where
  "bytes_contain s sub = list_ex (\<lambda>i. take (length sub) (drop i s) = sub) [0..<Suc (length s)]"

text \<open>\<open>strings.LastIndex\<close> for a one-byte string.\<close>

definition last_index :: "byte \<Rightarrow> byte list \<Rightarrow> nat option" where
  "last_index b s = (if b \<in> set s then Some (length s - Suc (length (takeWhile (\<lambda>x. x \<noteq> b) (rev s)))) else None)"

definition trim_zeros :: "byte list \<Rightarrow> byte list" where
  "trim_zeros s = rev (dropWhile (\<lambda>b. b = 0) (rev s))"

text \<open>An entry is stored when its name has an underscore with something before and after the last one.\<close>

definition tcp_table_step :: "MessageTableEntry \<Rightarrow> (byte list \<rightharpoonup> u16) \<times> u16 \<Rightarrow> (byte list \<rightharpoonup> u16) \<times> u16" where
  "tcp_table_step x td =
     (let nm = trim_zeros (entry_Name x);
          del = (if bytes_contain nm sockclnt_delete_prefix then entry_Index x else snd td) in
      case last_index 0x5F nm of
        None \<Rightarrow> (fst td, del)
      | Some i \<Rightarrow>
          if 0 < i \<and> i < length nm - 1
          then ((fst td)(take i nm @ [0x5F] @ drop (Suc i) nm \<mapsto> entry_Index x), del) else (fst td, del))"

definition tcp_open :: "nat \<Rightarrow> Client \<Rightarrow> (gerr option \<times> Client) option" where
  "tcp_open pk c =
     (case EncodeMsg memclnt (Some (SockclntCreate (clientName c))) sockCreateMsgId of
        Inl e \<Rightarrow> Some (Some e, c)
      | Inr msg \<Rightarrow>
          do { msg \<leftarrow> set_index msg 5 createMsgContext;
               (err, c1) \<leftarrow> writeMsg pk c msg;
               case err of Some e \<Rightarrow> Some (Some e, c1)
               | None \<Rightarrow>
                   (case tcp_readMsgTimeout c1 of
                      (Inl e, c2) \<Rightarrow> Some (Some e, c2)
                    | (Inr msgReply, c2) \<Rightarrow>
                        (case DecodeMsg memclnt (bytes_of msgReply) [] (Some (SockclntCreateReply 0 0 0 [])) of
                           Inr (SockclntCreateReply resp idx cnt table) \<Rightarrow>
                             if resp \<noteq> 0 then Some (Some (ErrMsg ''sockclnt_create_reply: response error''), c2)
                             else let (t, del) = fold tcp_table_step table (Map.empty, sockDelMsgId c2) in
                                  Some (None, setMsgTable t del (c2\<lparr>clientIndex := idx\<rparr>))
                         | Inr _ \<Rightarrow> None
                         | Inl e \<Rightarrow> Some (Some e, c2))) })"

text \<open>
  Closing sets byte 5 of the request; in this message that is the last byte of the client index,
  and the context stays zero. A reply that does not come in time is an error.
\<close>

definition tcp_close :: "nat \<Rightarrow> Client \<Rightarrow> (gerr option \<times> Client) option" where
  "tcp_close pk c =
     (case EncodeMsg memclnt (Some (SockclntDelete (clientIndex c))) (sockDelMsgId c) of
        Inl e \<Rightarrow> Some (Some e, c)
      | Inr msg \<Rightarrow>
          do { msg \<leftarrow> set_index msg 5 deleteMsgContext;
               (err, c1) \<leftarrow> writeMsg pk c msg;
               case err of Some e \<Rightarrow> Some (Some e, c1)
               | None \<Rightarrow>
                   (case tcp_readMsgTimeout c1 of
                      (Inl e, c2) \<Rightarrow> Some (Some e, c2)
                    | (Inr msgReply, c2) \<Rightarrow>
                        (case DecodeMsg memclnt (bytes_of msgReply) [] (Some (SockclntDeleteReply 0)) of
                           Inr (SockclntDeleteReply resp) \<Rightarrow>
                             Some (if resp \<noteq> 0 then Some (ErrMsg ''sockclnt_delete_reply: response error'') else None, c2)
                         | Inr _ \<Rightarrow> None
                         | Inl e \<Rightarrow> Some (Some e, c2))) })"

definition tcp_Connect ::
  "gerr + sock_reader \<times> sock_writer \<Rightarrow> gerr option \<Rightarrow> nat \<Rightarrow> Client \<Rightarrow> (gerr option \<times> Client) option" where
  "tcp_Connect dial closeErr pk c =
     (case sock_connect dial c of
        (Some e, c1) \<Rightarrow> Some (Some e, c1)
      | (None, c1) \<Rightarrow>
          do { (err, c2) \<leftarrow> tcp_open pk c1;
               Some (case err of
                   Some e \<Rightarrow> (Some e, snd (sock_disconnect closeErr c2))
                 | None \<Rightarrow> (None, c2\<lparr>sk_quit := Some False\<rparr>)) })"

definition tcp_Disconnect :: "sock_reader \<Rightarrow> gerr option \<Rightarrow> nat \<Rightarrow> Client \<Rightarrow> (gerr option \<times> Client) option" where
  "tcp_Disconnect left closeErr pk c =
     (if \<not> sk_connected c then Some (None, c)
      else if sk_quit c \<noteq> Some False then None
      else do { (err, c2) \<leftarrow> tcp_close pk (c\<lparr>sk_quit := Some True, sk_reader := left\<rparr>);
                Some (sock_disconnect closeErr c2) })"

text \<open>
  The name and checksum in a message: the length is read as 16 bits and \<open>5 + nameLen\<close> wraps in that
  width, also in the slice expression.
\<close>

definition getMsgNameCrc :: "byte list \<Rightarrow> (byte list \<times> byte list) option" where
  "getMsgNameCrc msg =
     (if length msg < 5 then Some ([], [])
      else let nameLen = be_word (take 2 (drop 3 msg)) :: u16; hi = unat (5 + nameLen) in
        if length msg < hi then Some ([], [])
        else if hi < 5 then None
        else let nm = take (hi - 5) (drop 5 msg); n = length (takeWhile (\<lambda>b. b \<noteq> 0x5F) nm) in
          Some (if 0 < n \<and> n < length nm then (take n nm, drop (Suc n) nm) else (nm, [])))"

section \<open>The TCP connection as a message stream\<close>

definition tcp_get :: "nat \<Rightarrow> Client \<Rightarrow> (byte list \<times> Client) option" where
  "tcp_get pk c = (case tcp_readMsg c of (Inr (Some m), c') \<Rightarrow> Some (m, c') | _ \<Rightarrow> None)"

lemma tcp_readMsg_framed:
  assumes "msg \<noteq> []" "msg_ok msg" "framed msg f" "concat (rd_chunks (sk_reader c)) = f @ rest"
  shows "\<exists>c'. tcp_readMsg c = (Inr (Some msg), c') \<and> concat (rd_chunks (sk_reader c')) = rest"
proof -
  let ?r = "sk_reader c"
  have f: "length f = 16 + length msg" "drop 16 f = msg"
    and len: "unat (be_word (take 4 (drop 8 f)) :: u32) = length msg"
    using assms(2,3) by (auto simp: framed_def msg_ok_def unsigned_of_nat take_bit_nat_eq_self)
  have "16 \<le> length (concat (rd_chunks ?r))" using assms(4) f by simp
  from read_full_concat [OF this, of "rd_end ?r" "[]"] obtain cs1 where
    cs1: "read_full (rd_end ?r) 16 [] (rd_chunks ?r) = (Inr (take 16 f), cs1)"
    "concat cs1 = msg @ rest" using assms(4) f by (auto simp: drop_append)
  then have "length msg \<le> length (concat cs1)" by simp
  from read_full_concat [OF this, of "rd_end ?r" "[]"] cs1 obtain cs2 where
    cs2: "read_full (rd_end ?r) (length msg) [] cs1 = (Inr msg, cs2)" "concat cs2 = rest" by auto
  have h: "take 4 (drop 8 (take 16 f)) = take 4 (drop 8 f)" by (simp add: drop_take)
  show ?thesis using cs1 cs2 len h assms(1) by (simp add: tcp_readMsg_def Let_def)
qed

interpretation tcp: message_stream raw_put sk_sent can_write tcp_get sk_avail "\<lambda>_. True"
  "\<lambda>m. msg_ok m \<and> m \<noteq> []" framed
proof (unfold_locales, goal_cases)
  case (1 c m pk)
  from writeMsg_framed [OF 1(1), of pk m] show ?case by (auto simp: raw_put_def sk_sent_def)
next
  case (2 c m f rest pk)
  from tcp_readMsg_framed [of m f c rest] 2 show ?case by (auto simp: sk_avail_def tcp_get_def)
qed

text \<open>
  C31 (equivalence). The two adapters speak the same framing: messages with at least one byte that are
  written by either are read back by the reader of the TCP adapter and by the reader of the socket
  adapter alike, complete and in order.
\<close>

theorem tcp_reads_socket_frames:
  assumes "can_write c" "sk_sent c = []" "list_all (\<lambda>(pk, m). m \<noteq> [] \<and> length m < 2 ^ 32) pms" "length pks = length pms"
  shows "\<exists>c'. put_all raw_put c pms = Some c' \<and>
    (\<forall>r rest. [] \<notin> set (rd_chunks (sk_reader r)) \<longrightarrow> concat (rd_chunks (sk_reader r)) = sk_sent c' @ rest \<longrightarrow>
       (\<exists>r1 r2. get_all tcp_get r pks = Some (map snd pms, r1) \<and> get_all sk_get r pks = Some (map snd pms, r2) \<and>
          concat (rd_chunks (sk_reader r1)) = rest \<and> concat (rd_chunks (sk_reader r2)) = rest))"
proof -
  have ok: "list_all ((\<lambda>m. msg_ok m \<and> m \<noteq> []) \<circ> snd) pms" "list_all (msg_ok \<circ> snd) pms"
    using assms(3) by (auto simp: list_all_iff msg_ok_def)
  from tcp.transport [OF assms(1,2) ok(1) assms(4)] obtain c' where c': "put_all raw_put c pms = Some c'"
    and t: "\<And>r rest. sk_avail r = sk_sent c' @ rest \<Longrightarrow>
       \<exists>r'. get_all tcp_get r pks = Some (map snd pms, r') \<and> sk_avail r' = rest" by auto
  from sk.transport [OF assms(1,2) ok(2) assms(4)] c'
  have s: "\<And>r rest. can_read r \<Longrightarrow> sk_avail r = sk_sent c' @ rest \<Longrightarrow>
       \<exists>r'. get_all sk_get r pks = Some (map snd pms, r') \<and> sk_avail r' = rest" by auto
  from c' t s show ?thesis unfolding can_read_def sk_avail_def by blast
qed

theorem tcp_reads_socket_frames_witness:
  "\<exists>c'. put_all raw_put NewVppClient [(0, [1, 2]), (0, [3])] = Some c' \<and>
     (\<exists>r1. get_all tcp_get (NewVppClient\<lparr>sk_reader := \<lparr>rd_chunks = map (\<lambda>x. [x]) (sk_sent c'), rd_end = ErrEOF,
        rd_deadline_err = None\<rparr>\<rparr>) [0, 0] = Some ([[1, 2], [3]], r1))"
proof -
  have a: "can_write NewVppClient" "sk_sent NewVppClient = []"
    by (simp_all add: can_write_def NewVppClient_def sk_sent_def)
  let ?pms = "[(0, [1, 2]), (0, [3])] :: (nat \<times> byte list) list"
  have "list_all (\<lambda>(pk, m). m \<noteq> [] \<and> length m < 2 ^ 32) ?pms" by simp
  from tcp_reads_socket_frames [OF a this, of "[0, 0]"] obtain c' where c': "put_all raw_put NewVppClient ?pms = Some c'"
    and g: "\<And>r rest. [] \<notin> set (rd_chunks (sk_reader r)) \<Longrightarrow> concat (rd_chunks (sk_reader r)) = sk_sent c' @ rest \<Longrightarrow>
      \<exists>r1 r2. get_all tcp_get r [0, 0] = Some ([[1, 2], [3]], r1) \<and> get_all sk_get r [0, 0] = Some ([[1, 2], [3]], r2)"
    by auto blast
  let ?r = "NewVppClient\<lparr>sk_reader := \<lparr>rd_chunks = map (\<lambda>x. [x]) (sk_sent c'), rd_end = ErrEOF, rd_deadline_err = None\<rparr>\<rparr>"
  have "concat (map (\<lambda>x. [x]) xs) = xs" for xs :: "byte list" by (induction xs) auto
  then have "concat (rd_chunks (sk_reader ?r)) = sk_sent c' @ []" "[] \<notin> set (rd_chunks (sk_reader ?r))" by auto
  with g [of ?r "[]"] c' show ?thesis by blast
qed

end
