(* ===== verification/SharedRead.thy ===== *)
theory SharedRead
  imports GovppPrelude "HOL-Library.State_Monad"
begin

text \<open>
  Reading memory that another process writes. A history gives the memory at every instant; a read
  happens at one instant and takes one unit of time, so a program that reads is a state
  transformer on the time. A Go panic sets a flag in the state that nothing resets: what would be
  computed after it is dropped by \<open>outcome\<close>.

  An access is local when it depends only on the memory during its own interval; all accesses built
  from reads by the combinators of the state monad are.
\<close>

type_synonym addr = u64
type_synonym memory = "addr \<Rightarrow> byte"
type_synonym history = "nat \<Rightarrow> memory"
type_synonym clock = "nat \<times> bool"
type_synonym 'a access = "(clock, 'a) state"

named_theorems local_intros "accesses that depend on their own interval only"

definition load :: "(memory \<Rightarrow> 'a) \<Rightarrow> history \<Rightarrow> 'a access" where
  "load f H = State (\<lambda>(t, p). (f (H t), (Suc t, p)))"

definition panics :: "'a \<Rightarrow> 'a access" where
  "panics x = State (\<lambda>(t, p). (x, (t, True)))"

definition outcome :: "'a access \<Rightarrow> nat \<Rightarrow> ('a \<times> nat) option" where
  "outcome m t = (case run_state m (t, False) of (x, (t', p)) \<Rightarrow> if p then None else Some (x, t'))"

text \<open>Aligned words of a little-endian machine are read at one instant.\<close>

definition bytes_at :: "addr \<Rightarrow> nat \<Rightarrow> memory \<Rightarrow> byte list" where
  "bytes_at a n m = map (\<lambda>i. m (a + word_of_nat i)) [0..<n]"

definition u64_at :: "addr \<Rightarrow> memory \<Rightarrow> u64" where
  "u64_at a m = le_word (bytes_at a 8 m)"

definition u32_at :: "addr \<Rightarrow> memory \<Rightarrow> u32" where
  "u32_at a m = le_word (bytes_at a 4 m)"

definition u8_at :: "addr \<Rightarrow> memory \<Rightarrow> byte" where
  "u8_at a m = m a"

lemma run_load [simp]: "run_state (load f H) (t, p) = (f (H t), (Suc t, p))"
  by (simp add: load_def)

lemma run_panics [simp]: "run_state (panics x) (t, p) = (x, (t, True))"
  by (simp add: panics_def)

section \<open>Locality\<close>

definition local_access :: "(history \<Rightarrow> 'a access) \<Rightarrow> bool" where
  "local_access f \<longleftrightarrow>
     (\<forall>H t p. \<exists>x n p'. run_state (f H) (t, p) = (x, (t + n, p')) \<and> (p \<longrightarrow> p') \<and>
        (\<forall>H' t'. (\<forall>u<n. H' (t' + u) = H (t + u)) \<longrightarrow> run_state (f H') (t', p) = (x, (t' + n, p'))))"

lemma local_accessE:
  assumes "local_access f"
  obtains x n p' where "run_state (f H) (t, p) = (x, (t + n, p'))" "p \<Longrightarrow> p'"
    "\<And>H' t'. (\<And>u. u < n \<Longrightarrow> H' (t' + u) = H (t + u)) \<Longrightarrow> run_state (f H') (t', p) = (x, (t' + n, p'))"
  using assms unfolding local_access_def by metis

lemma local_accessI:
  assumes "\<And>H t p. \<exists>x n p'. run_state (f H) (t, p) = (x, (t + n, p')) \<and> (p \<longrightarrow> p') \<and>
        (\<forall>H' t'. (\<forall>u<n. H' (t' + u) = H (t + u)) \<longrightarrow> run_state (f H') (t', p) = (x, (t' + n, p')))"
  shows "local_access f"
  using assms unfolding local_access_def by blast

lemma local_accessD_time: "local_access f \<Longrightarrow> run_state (f H) (t, p) = (x, (t', p')) \<Longrightarrow> t \<le> t'"
  by (erule local_accessE [of f H t p]) simp

lemma local_return [local_intros]: "local_access (\<lambda>H. State_Monad.return x)"
  by (rule local_accessI) (auto intro: exI [of _ 0])

lemma local_panics [local_intros]: "local_access (\<lambda>H. panics x)"
  by (rule local_accessI) (auto intro: exI [of _ 0])

lemma local_load [local_intros]: "local_access (\<lambda>H. load f H)"
  by (rule local_accessI, rule exI, rule exI [of _ 1]) auto

lemma local_bind [local_intros]:
  assumes f: "local_access f" and g: "\<And>x. local_access (\<lambda>H. g x H)"
  shows "local_access (\<lambda>H. State_Monad.bind (f H) (\<lambda>x. g x H))"
proof (rule local_accessI)
  fix H t p
  obtain x n1 p1 where r1: "run_state (f H) (t, p) = (x, (t + n1, p1))" "p \<longrightarrow> p1"
    and l1: "\<And>H' t'. (\<And>u. u < n1 \<Longrightarrow> H' (t' + u) = H (t + u)) \<Longrightarrow> run_state (f H') (t', p) = (x, (t' + n1, p1))"
    using local_accessE [OF f, of H t p] by metis
  obtain y n2 p2 where r2: "run_state (g x H) (t + n1, p1) = (y, (t + n1 + n2, p2))" "p1 \<longrightarrow> p2"
    and l2: "\<And>H' t'. (\<And>u. u < n2 \<Longrightarrow> H' (t' + u) = H (t + n1 + u)) \<Longrightarrow> run_state (g x H') (t', p1) = (y, (t' + n2, p2))"
    using local_accessE [OF g, of x H "t + n1" p1] by metis
  have "run_state (State_Monad.bind (f H') (\<lambda>x. g x H')) (t', p) = (y, (t' + (n1 + n2), p2))"
    if same: "\<forall>u<n1 + n2. H' (t' + u) = H (t + u)" for H' t'
  proof -
    have "run_state (f H') (t', p) = (x, (t' + n1, p1))" using same by (intro l1) simp
    moreover have "H' (t' + n1 + u) = H (t + n1 + u)" if "u < n2" for u
      using same [rule_format, of "n1 + u"] that by (simp add: add.assoc)
    then have "run_state (g x H') (t' + n1, p1) = (y, (t' + n1 + n2, p2))" by (rule l2)
    ultimately show ?thesis by (simp add: add.assoc)
  qed
  with r1 r2 show "\<exists>z n p'. run_state (State_Monad.bind (f H) (\<lambda>x. g x H)) (t, p) = (z, (t + n, p')) \<and> (p \<longrightarrow> p') \<and>
      (\<forall>H' t'. (\<forall>u<n. H' (t' + u) = H (t + u)) \<longrightarrow>
         run_state (State_Monad.bind (f H') (\<lambda>x. g x H')) (t', p) = (z, (t' + n, p')))"
    by (intro exI [of _ y] exI [of _ "n1 + n2"] exI [of _ p2]) (simp add: add.assoc)
qed

lemma local_traverse [local_intros]:
  assumes "\<And>x. local_access (\<lambda>H. f x H)"
  shows "local_access (\<lambda>H. State_Monad.traverse_list (\<lambda>x. f x H) xs)"
  by (induction xs) (auto intro!: local_intros assms)

lemma local_if [local_intros]:
  "local_access f \<Longrightarrow> local_access g \<Longrightarrow> local_access (\<lambda>H. if b then f H else g H)"
  by (cases b) simp_all

lemma local_case_option [local_intros]:
  "local_access f \<Longrightarrow> (\<And>x. local_access (\<lambda>H. g x H)) \<Longrightarrow>
   local_access (\<lambda>H. case v of None \<Rightarrow> f H | Some x \<Rightarrow> g x H)"
  by (cases v) simp_all

lemma local_case_prod [local_intros]:
  "(\<And>x y. local_access (\<lambda>H. g x y H)) \<Longrightarrow> local_access (\<lambda>H. case v of (x, y) \<Rightarrow> g x y H)"
  by (cases v) simp

lemma local_case_sum [local_intros]:
  "(\<And>x. local_access (\<lambda>H. f x H)) \<Longrightarrow> (\<And>y. local_access (\<lambda>H. g y H)) \<Longrightarrow>
   local_access (\<lambda>H. case v of Inl x \<Rightarrow> f x H | Inr y \<Rightarrow> g y H)"
  by (cases v) simp_all

lemma local_let [local_intros]:
  "local_access (\<lambda>H. g v H) \<Longrightarrow> local_access (\<lambda>H. let x = v in g x H)"
  by simp

lemma local_cong: "(\<And>H. f H = g H) \<Longrightarrow> local_access (\<lambda>H. g H) \<Longrightarrow> local_access f"
  by (simp add: local_access_def)

text \<open>The result of an access when the memory does not change; \<open>None\<close> when it panics.\<close>

definition on_snapshot :: "(history \<Rightarrow> 'a access) \<Rightarrow> memory \<Rightarrow> 'a option" where
  "on_snapshot f m = map_option fst (outcome (f (\<lambda>_. m)) 0)"

lemma local_snapshot:
  assumes "local_access f" "run_state (f H) (t, False) = (x, (t', False))" "\<And>u. t \<le> u \<Longrightarrow> u < t' \<Longrightarrow> H u = m"
  shows "on_snapshot f m = Some x"
proof -
  obtain y n p' where r: "run_state (f H) (t, False) = (y, (t + n, p'))"
    and l: "\<And>H' t'. (\<And>u. u < n \<Longrightarrow> H' (t' + u) = H (t + u)) \<Longrightarrow> run_state (f H') (t', False) = (y, (t' + n, p'))"
    using local_accessE [OF assms(1), of H t False] by metis
  have "run_state (f (\<lambda>_. m)) (0, False) = (y, (0 + n, p'))"
    by (rule l) (use assms(2,3) r in simp)
  with r assms(2) show ?thesis by (simp add: on_snapshot_def outcome_def)
qed

text \<open>
  On a snapshot the accesses are computations with panics: reading is looking at the memory, and
  sequencing is the bind of the option monad.
\<close>

named_theorems snapshot_simps "what accesses compute on a snapshot"

lemma run_snapshot:
  assumes "local_access f"
  shows "\<exists>n. (\<forall>t. run_state (f (\<lambda>_. m)) (t, False) =
      (fst (run_state (f (\<lambda>_. m)) (0, False)), (t + n, on_snapshot f m = None)))"
proof -
  obtain x n p' where r: "run_state (f (\<lambda>_. m)) (0, False) = (x, (0 + n, p'))"
    and l: "\<And>H' t'. (\<And>u. u < n \<Longrightarrow> H' (t' + u) = m) \<Longrightarrow> run_state (f H') (t', False) = (x, (t' + n, p'))"
    using local_accessE [OF assms, of "\<lambda>_. m" 0 False] by metis
  have "run_state (f (\<lambda>_. m)) (t, False) = (x, (t + n, p'))" for t by (rule l) simp
  with r show ?thesis by (intro exI [of _ n]) (simp add: on_snapshot_def outcome_def)
qed

lemma on_snapshot_return [snapshot_simps]: "on_snapshot (\<lambda>H. State_Monad.return x) m = Some x"
  by (simp add: on_snapshot_def outcome_def)

lemma on_snapshot_panics [snapshot_simps]: "on_snapshot (\<lambda>H. panics x) m = None"
  by (simp add: on_snapshot_def outcome_def)

lemma on_snapshot_load [snapshot_simps]: "on_snapshot (\<lambda>H. load f H) m = Some (f m)"
  by (simp add: on_snapshot_def outcome_def)

lemma on_snapshot_bind [snapshot_simps]:
  assumes f: "local_access f" and g: "\<And>x. local_access (\<lambda>H. g x H)"
  shows "on_snapshot (\<lambda>H. State_Monad.bind (f H) (\<lambda>x. g x H)) m = do { x \<leftarrow> on_snapshot f m; on_snapshot (\<lambda>H. g x H) m }"
proof -
  obtain x n p where x: "run_state (f (\<lambda>_. m)) (0, False) = (x, (n, p))" by (metis surj_pair)
  show ?thesis
  proof (cases p)
    case True
    obtain y n2 where "run_state (g x (\<lambda>_. m)) (n, True) = (y, (n + n2, True))"
      using local_accessE [OF g, of x "\<lambda>_. m" n True] by metis
    with x True show ?thesis by (simp add: on_snapshot_def outcome_def)
  next
    case False
    from run_snapshot [OF g, of x m] obtain n2 where
      "run_state (g x (\<lambda>_. m)) (n, False) = (fst (run_state (g x (\<lambda>_. m)) (0, False)), (n + n2, on_snapshot (g x) m = None))"
      by blast
    with x False show ?thesis
      by (auto simp: on_snapshot_def outcome_def split: prod.splits if_splits)
  qed
qed

fun map_panics :: "('a \<Rightarrow> 'b option) \<Rightarrow> 'a list \<Rightarrow> 'b list option" where
  "map_panics f [] = Some []"
| "map_panics f (x # xs) = do { y \<leftarrow> f x; ys \<leftarrow> map_panics f xs; Some (y # ys) }"

lemma on_snapshot_traverse [snapshot_simps]:
  assumes "\<And>x. local_access (\<lambda>H. f x H)"
  shows "on_snapshot (\<lambda>H. State_Monad.traverse_list (\<lambda>x. f x H) xs) m = map_panics (\<lambda>x. on_snapshot (\<lambda>H. f x H) m) xs"
proof (induction xs)
  case (Cons x xs)
  have "on_snapshot (\<lambda>H. State_Monad.bind (State_Monad.traverse_list (\<lambda>x. f x H) xs) (\<lambda>ys. State_Monad.return (y # ys))) m =
      do { ys \<leftarrow> map_panics (\<lambda>x. on_snapshot (\<lambda>H. f x H) m) xs; Some (y # ys) }" for y
    by (subst on_snapshot_bind [OF local_traverse [OF assms] local_return]) (simp only: Cons.IH on_snapshot_return)
  moreover have "local_access (\<lambda>H. State_Monad.bind (State_Monad.traverse_list (\<lambda>x. f x H) xs) (\<lambda>ys. State_Monad.return (y # ys)))" for y
    by (intro local_intros assms)
  ultimately show ?case
    unfolding State_Monad.traverse_list.simps map_panics.simps by (subst on_snapshot_bind) (simp_all add: assms)
qed (simp add: on_snapshot_return)

lemma map_panics_Some: "(\<And>x. x \<in> set xs \<Longrightarrow> f x = Some (g x)) \<Longrightarrow> map_panics f xs = Some (map g xs)"
  by (induction xs) auto

lemma on_snapshot_if [snapshot_simps]:
  "on_snapshot (\<lambda>H. if b then f H else g H) m = (if b then on_snapshot f m else on_snapshot g m)"
  by simp

lemma on_snapshot_case_option [snapshot_simps]:
  "on_snapshot (\<lambda>H. case v of None \<Rightarrow> f H | Some x \<Rightarrow> g x H) m =
   (case v of None \<Rightarrow> on_snapshot f m | Some x \<Rightarrow> on_snapshot (g x) m)"
  by (cases v) simp_all

lemma on_snapshot_case_prod [snapshot_simps]:
  "on_snapshot (\<lambda>H. case v of (x, y) \<Rightarrow> g x y H) m = (case v of (x, y) \<Rightarrow> on_snapshot (g x y) m)"
  by (cases v) simp

end
