(* ===== verification/StatSegment.thy ===== *)
theory StatSegment
  imports SharedRead StatTypes
begin

text \<open>
  The stats segment of VPP as the stats client reads it (\<open>adapter/statsclient/stat_segment_api.go\<close>
  and \<open>statseg_v2.go\<close>): the interface of a segment, vectors, and version 2 of the layout, where the
  header, the directory and the data are reached through pointers of VPP's address space that are
  moved into the mapping. Addresses are those of the client's process; what lies outside of the
  mapping is whatever the memory function gives there, a fault is not modelled. A slice of shared
  bytes (the name of an entry) is kept as its address and length: its contents can still change.
\<close>

record name_view =
  nv_addr :: addr
  nv_len :: nat

text \<open>The \<open>statSegment\<close> interface; every operation takes the history of the memory.\<close>

record seg_api =
  GetDirectoryVector :: "history \<Rightarrow> addr option access"
  GetStatDirOnIndex :: "addr \<Rightarrow> u32 \<Rightarrow> history \<Rightarrow> (addr \<times> name_view \<times> StatType) access"
  GetEpoch :: "history \<Rightarrow> (u64 \<times> bool) access"
  CopyEntryData :: "addr \<Rightarrow> u32 \<Rightarrow> history \<Rightarrow> Stat option access"
  UpdateEntryData :: "addr \<Rightarrow> Stat \<Rightarrow> history \<Rightarrow> (gerr option \<times> Stat) access"

section \<open>Vectors and entry types\<close>

text \<open>The length of a vector is the low half of the word before it.\<close>

definition vec_len :: "addr \<Rightarrow> history \<Rightarrow> u32 access" where
  "vec_len v H = load (\<lambda>m. ucast (u64_at (v - 8) m)) H"

definition getVersion :: "addr \<Rightarrow> history \<Rightarrow> u64 access" where
  "getVersion b H = load (u64_at b) H"

definition dirTypeMapping :: "u32 \<Rightarrow> StatType option" where
  "dirTypeMapping d =
     (if d = 1 then Some ScalarIndex else if d = 2 then Some SimpleCounterVector
      else if d = 3 then Some CombinedCounterVector else if d = 4 then Some NameVector
      else if d = 5 then Some EmptyType else if d = 6 then Some SymlinkType else None)"

definition dirTypeMappingLegacy :: "u32 \<Rightarrow> StatType option" where
  "dirTypeMappingLegacy d =
     (if d = 1 then Some ScalarIndex else if d = 2 then Some SimpleCounterVector
      else if d = 3 then Some CombinedCounterVector else if d = 4 then Some ErrorIndex
      else if d = 5 then Some NameVector else if d = 6 then Some EmptyType
      else if d = 7 then Some SymlinkType else None)"

definition getStatType :: "u32 \<Rightarrow> bool \<Rightarrow> StatType" where
  "getStatType d legacy =
     (case (if legacy then dirTypeMappingLegacy d else dirTypeMapping d) of Some t \<Rightarrow> t | None \<Rightarrow> UnknownStatType)"

definition no_index :: u32 where "no_index = -1"

text \<open>Go's conversion of a uint64 to a float64: round to nearest, ties to even.\<close>

fun log2_floor :: "nat \<Rightarrow> nat" where
  "log2_floor n = (if n < 2 then 0 else Suc (log2_floor (n div 2)))"

declare log2_floor.simps [simp del]

definition u64_to_float :: "u64 \<Rightarrow> float64" where
  "u64_to_float v =
     (if v = 0 then 0
      else let n = unat v; e = log2_floor n;
               q = (if e \<le> 52 then n * 2 ^ (52 - e)
                    else let d = 2 ^ (e - 52); f = n div d; r = n mod d in
                         if d < 2 * r \<or> (d = 2 * r \<and> odd f) then f + 1 else f) in
           word_of_nat ((1023 + e) * 2 ^ 52 + (q - 2 ^ 52)))"

text \<open>Shared bytes as a Go string; a name ends before the first zero byte.\<close>

definition byte_char :: "byte \<Rightarrow> char" where
  "byte_char b = char_of (unat b)"

fun name_scan :: "addr \<Rightarrow> nat \<Rightarrow> nat \<Rightarrow> history \<Rightarrow> nat option access" where
  "name_scan a n 0 H = State_Monad.return None"
| "name_scan a n (Suc k) H =
     do { b \<leftarrow> load (u8_at (a + word_of_nat n)) H;
          if b = 0 then State_Monad.return (Some n) else name_scan a (Suc n) k H }"

text \<open>A name of 128 bytes without a zero is taken for no name.\<close>

definition dir_name :: "addr \<Rightarrow> history \<Rightarrow> name_view access" where
  "dir_name a H =
     do { r \<leftarrow> name_scan a 0 128 H;
          State_Monad.return (case r of None \<Rightarrow> \<lparr>nv_addr = 0, nv_len = 0\<rparr> | Some n \<Rightarrow> \<lparr>nv_addr = a, nv_len = n\<rparr>) }"

text \<open>Elements of vectors; a combined counter is copied as two words.\<close>

definition simple_elem :: "addr \<Rightarrow> history \<Rightarrow> u64 access" where
  "simple_elem a H = load (u64_at a) H"

definition combined_elem :: "addr \<Rightarrow> history \<Rightarrow> (u64 \<times> u64) access" where
  "combined_elem a H = do { x \<leftarrow> load (u64_at a) H; y \<leftarrow> load (u64_at (a + 8)) H; State_Monad.return (x, y) }"

definition read_name :: "addr \<Rightarrow> u32 \<Rightarrow> history \<Rightarrow> string access" where
  "read_name c l H =
     do { bs \<leftarrow> State_Monad.traverse_list (\<lambda>j. load (u8_at (c + word_of_nat j)) H) [0..<unat l];
          State_Monad.return (map byte_char (filter (\<lambda>b. b \<noteq> 0) bs)) }"

text \<open>Overwriting an old name in place up to the first zero; past its end the index panics.\<close>

fun overwrite_name :: "addr \<Rightarrow> nat \<Rightarrow> nat \<Rightarrow> string \<Rightarrow> history \<Rightarrow> string access" where
  "overwrite_name c j 0 d H = State_Monad.return d"
| "overwrite_name c j (Suc k) d H =
     do { b \<leftarrow> load (u8_at (c + word_of_nat j)) H;
          if b = 0 then State_Monad.return d
          else if j < length d then overwrite_name c (Suc j) k (d[j := byte_char b]) H
          else panics d }"

section \<open>Version 2\<close>

record segment =
  seg_base :: addr
  seg_len :: u64

record sharedHeaderV2 =
  h2_version :: u64
  h2_base :: u64
  h2_epoch :: u64
  h2_inProgress :: u64
  h2_dirVector :: u64
  h2_errorVector :: u64

definition v2_loadSharedHeader :: "segment \<Rightarrow> history \<Rightarrow> sharedHeaderV2 access" where
  "v2_loadSharedHeader ss H =
     do { ver \<leftarrow> load (u64_at (seg_base ss)) H;
          base \<leftarrow> load (u64_at (seg_base ss + 8)) H;
          ep \<leftarrow> load (u64_at (seg_base ss + 16)) H;
          inp \<leftarrow> load (u64_at (seg_base ss + 24)) H;
          dv \<leftarrow> load (u64_at (seg_base ss + 32)) H;
          ev \<leftarrow> load (u64_at (seg_base ss + 40)) H;
          State_Monad.return \<lparr>h2_version = ver, h2_base = base, h2_epoch = ep, h2_inProgress = inp,
            h2_dirVector = dv, h2_errorVector = ev\<rparr> }"

definition adjust_ptr :: "segment \<Rightarrow> sharedHeaderV2 \<Rightarrow> u64 \<Rightarrow> addr option" where
  "adjust_ptr ss h v =
     (let adjusted = seg_base ss + v - h2_base h in
      if seg_base ss + (seg_len ss - 1) \<le> adjusted \<or> adjusted \<le> seg_base ss then None else Some adjusted)"

text \<open>\<open>adjust\<close> takes a pointer to the value: to a local copy, or into the segment.\<close>

definition adjust_val :: "segment \<Rightarrow> u64 \<Rightarrow> history \<Rightarrow> addr option access" where
  "adjust_val ss v H = do { h \<leftarrow> v2_loadSharedHeader ss H; State_Monad.return (adjust_ptr ss h v) }"

definition adjust_at :: "segment \<Rightarrow> addr \<Rightarrow> history \<Rightarrow> addr option access" where
  "adjust_at ss a H =
     do { h \<leftarrow> v2_loadSharedHeader ss H; v \<leftarrow> load (u64_at a) H; State_Monad.return (adjust_ptr ss h v) }"

definition v2_GetDirectoryVector :: "segment \<Rightarrow> history \<Rightarrow> addr option access" where
  "v2_GetDirectoryVector ss H = do { h \<leftarrow> v2_loadSharedHeader ss H; adjust_val ss (h2_dirVector h) H }"

definition v2_getErrorVector :: "segment \<Rightarrow> history \<Rightarrow> addr option access" where
  "v2_getErrorVector ss H = do { h \<leftarrow> v2_loadSharedHeader ss H; adjust_val ss (h2_errorVector h) H }"

definition v2_GetEpoch :: "segment \<Rightarrow> history \<Rightarrow> (u64 \<times> bool) access" where
  "v2_GetEpoch ss H = do { h \<leftarrow> v2_loadSharedHeader ss H; State_Monad.return (h2_epoch h, h2_inProgress h \<noteq> 0) }"

text \<open>A directory entry: type at 0, union at 8, name at 16; 144 bytes.\<close>

definition v2_entry_type :: "segment \<Rightarrow> addr \<Rightarrow> history \<Rightarrow> StatType access" where
  "v2_entry_type ss e H =
     do { d \<leftarrow> load (u32_at e) H; ev \<leftarrow> v2_getErrorVector ss H; State_Monad.return (getStatType d (ev \<noteq> None)) }"

definition v2_GetStatDirOnIndex :: "segment \<Rightarrow> addr \<Rightarrow> u32 \<Rightarrow> history \<Rightarrow> (addr \<times> name_view \<times> StatType) access" where
  "v2_GetStatDirOnIndex ss v index H =
     (let e = v + ucast index * 144 in
      do { nm \<leftarrow> dir_name (e + 16) H; t \<leftarrow> v2_entry_type ss e H; State_Monad.return (e, nm, t) })"

section \<open>Copying and updating the data of an entry\<close>

text \<open>
  The rows of a vector of vectors: the i-th pointer is moved into the mapping; a pointer outside
  gives no row.
\<close>

definition v2_row_ptr :: "segment \<Rightarrow> addr \<Rightarrow> nat \<Rightarrow> history \<Rightarrow> addr option access" where
  "v2_row_ptr ss dv i H = do { p \<leftarrow> load (u64_at (dv + word_of_nat i * 8)) H; adjust_val ss p H }"

definition v2_rows_n ::
  "segment \<Rightarrow> addr \<Rightarrow> nat \<Rightarrow> (addr \<Rightarrow> history \<Rightarrow> 'r access) \<Rightarrow> history \<Rightarrow> 'r option list access" where
  "v2_rows_n ss dv n row H =
     State_Monad.traverse_list (\<lambda>i.
       do { cv \<leftarrow> v2_row_ptr ss dv i H;
            case cv of None \<Rightarrow> State_Monad.return None
            | Some c \<Rightarrow> do { r \<leftarrow> row c H; State_Monad.return (Some r) } }) [0..<n]"

definition v2_rows :: "segment \<Rightarrow> addr \<Rightarrow> (addr \<Rightarrow> history \<Rightarrow> 'r access) \<Rightarrow> history \<Rightarrow> 'r option list access" where
  "v2_rows ss dv row H = do { n \<leftarrow> vec_len dv H; v2_rows_n ss dv (unat n) row H }"

text \<open>A row of counters: all of them, or the one at an index (0 when there is none).\<close>

definition counter_row ::
  "(addr \<Rightarrow> history \<Rightarrow> 'b access) \<Rightarrow> u64 \<Rightarrow> 'b \<Rightarrow> u32 \<Rightarrow> addr \<Rightarrow> history \<Rightarrow> 'b list access" where
  "counter_row elem sz zero index c H =
     do { l \<leftarrow> vec_len c H;
          if index = no_index then State_Monad.traverse_list (\<lambda>j. elem (c + word_of_nat j * sz) H) [0..<unat l]
          else if index < l then do { x \<leftarrow> elem (c + ucast index * sz) H; State_Monad.return [x] }
          else State_Monad.return [zero] }"

text \<open>The counters of an error: one word at the entry's index in every vector within the mapping.\<close>

definition v2_error_values :: "segment \<Rightarrow> addr \<Rightarrow> addr \<Rightarrow> history \<Rightarrow> u64 list access" where
  "v2_error_values ss e ev H =
     do { rs \<leftarrow> v2_rows ss ev (\<lambda>c H. do { u \<leftarrow> load (u64_at (e + 8)) H; load (u64_at (c + u * 8)) H }) H;
          State_Monad.return (map the (filter (\<lambda>r. r \<noteq> None) rs)) }"

definition v2_names :: "segment \<Rightarrow> addr \<Rightarrow> history \<Rightarrow> string list access" where
  "v2_names ss dv H =
     do { n \<leftarrow> vec_len dv H;
          State_Monad.traverse_list (\<lambda>i.
            if dv + word_of_nat (i + 1) * 8 = 0 then State_Monad.return []
            else do { cv \<leftarrow> v2_row_ptr ss dv i H;
                      case cv of None \<Rightarrow> State_Monad.return []
                      | Some c \<Rightarrow> do { l \<leftarrow> vec_len c H; read_name c l H } }) [0..<unat n] }"

definition v2_getSymlinkIndexes :: "addr \<Rightarrow> history \<Rightarrow> (u32 \<times> u32) access" where
  "v2_getSymlinkIndexes e H =
     do { u \<leftarrow> load (u64_at (e + 8)) H;
          let b = le_bytes 8 u;
          let idx = (\<lambda>bs. foldl (\<lambda>s (i, x). s + push_bit (i * 8) (ucast x)) 0 (zip [0..<4] bs));
          State_Monad.return (idx (take 4 b), idx (drop 4 b)) }"

text \<open>
  Copying the data of an entry. A symlink is resolved by its first index, and its second index
  selects one item; a symlink reached with an index is not followed. One whose second index is the
  value for no index is followed like the first, so a chain of them (or a cycle) goes on until the
  stack is exhausted: here, when the fuel is.
\<close>

fun v2_copy_entry :: "nat \<Rightarrow> segment \<Rightarrow> addr \<Rightarrow> u32 \<Rightarrow> history \<Rightarrow> Stat option access" where
  "v2_copy_entry 0 ss e index H = panics None"
| "v2_copy_entry (Suc fuel) ss e index H =
     do { typ \<leftarrow> v2_entry_type ss e H;
          u \<leftarrow> (if typ \<noteq> ScalarIndex \<and> typ \<noteq> EmptyType \<and> typ \<noteq> ErrorIndex then load (u64_at (e + 8)) H
               else State_Monad.return 1);
          if u = 0 then State_Monad.return None
          else if typ = ScalarIndex then
            do { v \<leftarrow> load (u64_at (e + 8)) H; State_Monad.return (Some (ScalarStat (u64_to_float v))) }
          else if typ = ErrorIndex then
            do { ev \<leftarrow> v2_getErrorVector ss H;
                 case ev of None \<Rightarrow> State_Monad.return None
                 | Some v \<Rightarrow> do { vs \<leftarrow> v2_error_values ss e v H; State_Monad.return (Some (ErrorStat vs)) } }
          else if typ = SimpleCounterVector then
            do { dv \<leftarrow> adjust_at ss (e + 8) H;
                 case dv of None \<Rightarrow> State_Monad.return None
                 | Some v \<Rightarrow> do { rs \<leftarrow> v2_rows ss v (counter_row simple_elem 8 0 index) H;
                                 State_Monad.return (Some (SimpleCounterStat rs)) } }
          else if typ = CombinedCounterVector then
            do { dv \<leftarrow> adjust_at ss (e + 8) H;
                 case dv of None \<Rightarrow> State_Monad.return None
                 | Some v \<Rightarrow> do { rs \<leftarrow> v2_rows ss v (counter_row combined_elem 16 (0, 0) index) H;
                                 State_Monad.return (Some (CombinedCounterStat rs)) } }
          else if typ = NameVector then
            do { dv \<leftarrow> adjust_at ss (e + 8) H;
                 case dv of None \<Rightarrow> State_Monad.return None
                 | Some v \<Rightarrow> do { ns \<leftarrow> v2_names ss v H; State_Monad.return (Some (NameStat ns)) } }
          else if typ = EmptyType then State_Monad.return (Some (EmptyStat ''<none>''))
          else if typ = SymlinkType then
            (if index \<noteq> no_index then State_Monad.return None
             else do { (i1, i2) \<leftarrow> v2_getSymlinkIndexes e H;
                       h \<leftarrow> v2_loadSharedHeader ss H;
                       dv \<leftarrow> adjust_val ss (h2_dirVector h) H;
                       v2_copy_entry fuel ss ((case dv of None \<Rightarrow> 0 | Some v \<Rightarrow> v) + ucast i1 * 144) i2 H })
          else State_Monad.return None }"

definition symlink_fuel :: nat where "symlink_fuel = 64"

definition v2_CopyEntryData :: "segment \<Rightarrow> addr \<Rightarrow> u32 \<Rightarrow> history \<Rightarrow> Stat option access" where
  "v2_CopyEntryData ss e index H = v2_copy_entry symlink_fuel ss e index H"

text \<open>
  Updating the data kept by the caller, whose rows are replaced in place: rows without a pointer keep
  their old contents, and on an error the rows before it have been updated.
\<close>

definition keep_rows :: "'r option list \<Rightarrow> 'r option list \<Rightarrow> 'r option list" where
  "keep_rows olds news =
     map2 (\<lambda>old new. case new of None \<Rightarrow> old | Some r \<Rightarrow> Some r) olds news @ drop (length news) olds"

fun v2_update_names :: "segment \<Rightarrow> addr \<Rightarrow> nat \<Rightarrow> string list \<Rightarrow> history \<Rightarrow> (gerr option \<times> string list) access" where
  "v2_update_names ss dv i [] H = State_Monad.return (None, [])"
| "v2_update_names ss dv i (d # ds) H =
     (let rest = (\<lambda>d'. do { (e, ds') \<leftarrow> v2_update_names ss dv (Suc i) ds H; State_Monad.return (e, d' # ds') }) in
      if dv + word_of_nat (i + 1) * 8 = 0 then rest d
      else do { cv \<leftarrow> v2_row_ptr ss dv i H;
                case cv of None \<Rightarrow> rest d
                | Some c \<Rightarrow>
                    do { l \<leftarrow> vec_len c H;
                         if word_of_nat (length d) + 1 \<noteq> l
                         then State_Monad.return (Some ErrStatDataLenIncorrect, d # ds)
                         else do { d' \<leftarrow> overwrite_name c 0 (unat l) d H; rest d' } } })"

definition v2_UpdateEntryData :: "segment \<Rightarrow> addr \<Rightarrow> Stat \<Rightarrow> history \<Rightarrow> (gerr option \<times> Stat) access" where
  "v2_UpdateEntryData ss e stat H =
     (case stat of
        ScalarStat _ \<Rightarrow>
          do { v \<leftarrow> load (u64_at (e + 8)) H; State_Monad.return (None, ScalarStat (u64_to_float v)) }
      | ErrorStat _ \<Rightarrow>
          do { ev \<leftarrow> v2_getErrorVector ss H;
               case ev of None \<Rightarrow> State_Monad.return (None, stat)
               | Some v \<Rightarrow> do { vs \<leftarrow> v2_error_values ss e v H; State_Monad.return (None, ErrorStat vs) } }
      | SimpleCounterStat d \<Rightarrow>
          do { dv \<leftarrow> adjust_at ss (e + 8) H;
               case dv of None \<Rightarrow> State_Monad.return (None, stat)
               | Some v \<Rightarrow>
                   do { n \<leftarrow> vec_len v H;
                        if word_of_nat (length d) \<noteq> n then State_Monad.return (Some ErrStatDataLenIncorrect, stat)
                        else do { rs \<leftarrow> v2_rows_n ss v (unat n) (counter_row simple_elem 8 0 no_index) H;
                                  State_Monad.return (None, SimpleCounterStat (keep_rows d rs)) } } }
      | CombinedCounterStat d \<Rightarrow>
          do { dv \<leftarrow> adjust_at ss (e + 8) H;
               case dv of None \<Rightarrow> State_Monad.return (None, stat)
               | Some v \<Rightarrow>
                   do { n \<leftarrow> vec_len v H;
                        if word_of_nat (length d) \<noteq> n then State_Monad.return (Some ErrStatDataLenIncorrect, stat)
                        else do { rs \<leftarrow> v2_rows_n ss v (unat n) (counter_row combined_elem 16 (0, 0) no_index) H;
                                  State_Monad.return (None, CombinedCounterStat (keep_rows d rs)) } } }
      | NameStat d \<Rightarrow>
          do { dv \<leftarrow> adjust_at ss (e + 8) H;
               case dv of None \<Rightarrow> State_Monad.return (None, stat)
               | Some v \<Rightarrow>
                   do { n \<leftarrow> vec_len v H;
                        if word_of_nat (length d) \<noteq> n then State_Monad.return (Some ErrStatDataLenIncorrect, stat)
                        else do { (err, d') \<leftarrow> v2_update_names ss v 0 (take (unat n) d) H;
                                  State_Monad.return (err, NameStat (d' @ drop (unat n) d)) } } }
      | EmptyStat _ \<Rightarrow> State_Monad.return (None, stat))"

definition statSegmentV2 :: "segment \<Rightarrow> seg_api" where
  "statSegmentV2 ss =
     \<lparr>GetDirectoryVector = v2_GetDirectoryVector ss, GetStatDirOnIndex = v2_GetStatDirOnIndex ss,
      GetEpoch = v2_GetEpoch ss, CopyEntryData = v2_CopyEntryData ss, UpdateEntryData = v2_UpdateEntryData ss\<rparr>"

section \<open>All operations depend on their own interval only\<close>

lemma local_vec_len [local_intros]: "local_access (vec_len v)"
  unfolding vec_len_def by (rule local_load)

lemma local_name_scan [local_intros]: "local_access (name_scan a n k)"
proof (induction k arbitrary: n)
  case 0
  show ?case by (rule local_cong [OF name_scan.simps(1)]) (intro local_intros)
next
  case (Suc k)
  show ?case by (rule local_cong [OF name_scan.simps(2)]) (intro local_intros Suc.IH)
qed

lemma local_dir_name [local_intros]: "local_access (dir_name a)"
  unfolding dir_name_def by (intro local_intros)

lemma local_simple_elem [local_intros]: "local_access (simple_elem a)"
  unfolding simple_elem_def by (rule local_load)

lemma local_combined_elem [local_intros]: "local_access (combined_elem a)"
  unfolding combined_elem_def by (intro local_intros)

lemma local_read_name [local_intros]: "local_access (read_name c l)"
  unfolding read_name_def by (intro local_intros)

lemma local_overwrite_name [local_intros]: "local_access (overwrite_name c j k d)"
proof (induction k arbitrary: j d)
  case 0
  show ?case by (rule local_cong [OF overwrite_name.simps(1)]) (intro local_intros)
next
  case (Suc k)
  show ?case by (rule local_cong [OF overwrite_name.simps(2)]) (intro local_intros Suc.IH)
qed

lemma local_v2_header [local_intros]: "local_access (v2_loadSharedHeader ss)"
  unfolding v2_loadSharedHeader_def by (intro local_intros)

lemma local_adjust_val [local_intros]: "local_access (adjust_val ss v)"
  unfolding adjust_val_def by (intro local_intros)

lemma local_adjust_at [local_intros]: "local_access (adjust_at ss a)"
  unfolding adjust_at_def by (intro local_intros)

lemma local_v2_dir [local_intros]: "local_access (v2_GetDirectoryVector ss)"
  unfolding v2_GetDirectoryVector_def by (intro local_intros)

lemma local_v2_error_vector [local_intros]: "local_access (v2_getErrorVector ss)"
  unfolding v2_getErrorVector_def by (intro local_intros)

lemma local_v2_epoch [local_intros]: "local_access (v2_GetEpoch ss)"
  unfolding v2_GetEpoch_def by (intro local_intros)

lemma local_v2_entry_type [local_intros]: "local_access (v2_entry_type ss e)"
  unfolding v2_entry_type_def by (intro local_intros)

lemma local_v2_stat_dir [local_intros]: "local_access (v2_GetStatDirOnIndex ss v i)"
  unfolding v2_GetStatDirOnIndex_def by (intro local_intros)

lemma local_v2_row_ptr [local_intros]: "local_access (v2_row_ptr ss v i)"
  unfolding v2_row_ptr_def by (intro local_intros)

lemma local_v2_rows_n [local_intros]:
  assumes "\<And>c. local_access (row c)"
  shows "local_access (v2_rows_n ss dv n row)"
  unfolding v2_rows_n_def by (intro local_intros assms)

lemma local_v2_rows [local_intros]:
  assumes "\<And>c. local_access (row c)"
  shows "local_access (v2_rows ss dv row)"
  unfolding v2_rows_def by (intro local_intros assms)

lemma local_counter_row [local_intros]:
  assumes "\<And>a. local_access (elem a)"
  shows "local_access (counter_row elem sz z i c)"
  unfolding counter_row_def by (intro local_intros assms)

lemma local_v2_error_values [local_intros]: "local_access (v2_error_values ss e v)"
  unfolding v2_error_values_def by (intro local_intros)

lemma local_v2_names [local_intros]: "local_access (v2_names ss v)"
  unfolding v2_names_def by (intro local_intros)

lemma local_v2_symlink [local_intros]: "local_access (v2_getSymlinkIndexes e)"
  unfolding v2_getSymlinkIndexes_def Let_def by (intro local_intros)

lemma local_v2_copy_entry [local_intros]: "local_access (v2_copy_entry fuel ss e i)"
proof (induction fuel arbitrary: e i)
  case 0
  show ?case by (rule local_cong [OF v2_copy_entry.simps(1)]) (intro local_intros)
next
  case (Suc fuel)
  show ?case by (rule local_cong [OF v2_copy_entry.simps(2)]) (intro local_intros Suc.IH)
qed

lemma local_v2_copy [local_intros]: "local_access (v2_CopyEntryData ss e i)"
  unfolding v2_CopyEntryData_def by (intro local_intros)

lemma local_v2_update_names [local_intros]: "local_access (v2_update_names ss dv i ds)"
proof (induction ds arbitrary: i)
  case Nil
  show ?case by (rule local_cong [OF v2_update_names.simps(1)]) (intro local_intros)
next
  case (Cons d ds)
  show ?case
    by (rule local_cong [OF v2_update_names.simps(2)]) (unfold Let_def, intro local_intros Cons.IH)
qed

lemma local_v2_update [local_intros]: "local_access (v2_UpdateEntryData ss e s)"
  unfolding v2_UpdateEntryData_def by (cases s) (simp_all only: Stat.case, (intro local_intros)+)

end
