(* ===== verification/StatSegmentV1.thy ===== *)
theory StatSegmentV1
  imports StatSegment
begin

text \<open>
  Version 1 of the stats segment (\<open>adapter/statsclient/statseg_v1.go\<close>), where the header and the
  entries hold offsets into the mapping. Taking the address of a byte of the mapping by its offset
  panics when the offset is not below the length; the vectors reached from there are read without
  a check.
\<close>

record sharedHeaderV1 =
  h1_version :: u64
  h1_epoch :: u64
  h1_inProgress :: u64
  h1_directoryOffset :: u64
  h1_errorOffset :: u64
  h1_statsOffset :: u64

definition v1_loadSharedHeader :: "segment \<Rightarrow> history \<Rightarrow> sharedHeaderV1 access" where
  "v1_loadSharedHeader ss H =
     do { ver \<leftarrow> load (u64_at (seg_base ss)) H;
          ep \<leftarrow> load (u64_at (seg_base ss + 8)) H;
          inp \<leftarrow> load (u64_at (seg_base ss + 16)) H;
          d \<leftarrow> load (u64_at (seg_base ss + 24)) H;
          e \<leftarrow> load (u64_at (seg_base ss + 32)) H;
          s \<leftarrow> load (u64_at (seg_base ss + 40)) H;
          State_Monad.return \<lparr>h1_version = ver, h1_epoch = ep, h1_inProgress = inp, h1_directoryOffset = d,
            h1_errorOffset = e, h1_statsOffset = s\<rparr> }"

definition v1_getOffsets :: "segment \<Rightarrow> history \<Rightarrow> (u64 \<times> u64 \<times> u64) access" where
  "v1_getOffsets ss H =
     do { sh \<leftarrow> v1_loadSharedHeader ss H;
          State_Monad.return (h1_directoryOffset sh, h1_errorOffset sh, h1_statsOffset sh) }"

text \<open>\<open>&ss.sharedHeader[off]\<close>\<close>

definition hdr_at :: "segment \<Rightarrow> u64 \<Rightarrow> addr access" where
  "hdr_at ss off = (if off < seg_len ss then State_Monad.return (seg_base ss + off) else panics 0)"

definition v1_GetDirectoryVector :: "segment \<Rightarrow> history \<Rightarrow> addr option access" where
  "v1_GetDirectoryVector ss H =
     do { (d, _, _) \<leftarrow> v1_getOffsets ss H; a \<leftarrow> hdr_at ss d; State_Monad.return (Some a) }"

text \<open>A directory entry: type at 0, union at 8, offset vector at 16, name at 24; 152 bytes.\<close>

definition v1_GetStatDirOnIndex :: "segment \<Rightarrow> addr \<Rightarrow> u32 \<Rightarrow> history \<Rightarrow> (addr \<times> name_view \<times> StatType) access" where
  "v1_GetStatDirOnIndex ss v index H =
     (let e = v + ucast index * 152 in
      do { nm \<leftarrow> dir_name (e + 24) H; d \<leftarrow> load (u32_at e) H; State_Monad.return (e, nm, getStatType d True) })"

definition v1_GetEpoch :: "segment \<Rightarrow> history \<Rightarrow> (u64 \<times> bool) access" where
  "v1_GetEpoch ss H = do { h \<leftarrow> v1_loadSharedHeader ss H; State_Monad.return (h1_epoch h, h1_inProgress h \<noteq> 0) }"

text \<open>The number of rows is the length before the offset in the union; the row offsets are apart.\<close>

definition v1_rows_len :: "segment \<Rightarrow> addr \<Rightarrow> history \<Rightarrow> u32 access" where
  "v1_rows_len ss e H = do { u \<leftarrow> load (u64_at (e + 8)) H; a \<leftarrow> hdr_at ss u; vec_len a H }"

definition v1_offset_vector :: "segment \<Rightarrow> addr \<Rightarrow> history \<Rightarrow> addr access" where
  "v1_offset_vector ss e H = do { o' \<leftarrow> load (u64_at (e + 16)) H; State_Monad.return (seg_base ss + o') }"

definition v1_row :: "segment \<Rightarrow> addr \<Rightarrow> nat \<Rightarrow> history \<Rightarrow> addr access" where
  "v1_row ss ov i H = do { cb \<leftarrow> load (u64_at (ov + word_of_nat i * 8)) H; hdr_at ss cb }"

definition v1_counter_rows :: "segment \<Rightarrow> addr \<Rightarrow> (addr \<Rightarrow> history \<Rightarrow> 'b access) \<Rightarrow> u64 \<Rightarrow> history \<Rightarrow> 'b list option list access" where
  "v1_counter_rows ss e elem sz H =
     do { n \<leftarrow> v1_rows_len ss e H;
          ov \<leftarrow> v1_offset_vector ss e H;
          State_Monad.traverse_list (\<lambda>i.
            do { c \<leftarrow> v1_row ss ov i H; l \<leftarrow> vec_len c H;
                 r \<leftarrow> State_Monad.traverse_list (\<lambda>j. elem (c + word_of_nat j * sz) H) [0..<unat l];
                 State_Monad.return (Some r) }) [0..<unat n] }"

definition v1_error_values :: "segment \<Rightarrow> addr \<Rightarrow> history \<Rightarrow> u64 list access" where
  "v1_error_values ss e H =
     do { (_, eo, _) \<leftarrow> v1_getOffsets ss H;
          ov \<leftarrow> hdr_at ss eo;
          n \<leftarrow> vec_len ov H;
          State_Monad.traverse_list (\<lambda>i.
            do { cb \<leftarrow> load (u64_at (ov + word_of_nat i * 8)) H;
                 u \<leftarrow> load (u64_at (e + 8)) H;
                 load (u64_at (seg_base ss + (cb + u * 8))) H }) [0..<unat n] }"

definition v1_names :: "segment \<Rightarrow> addr \<Rightarrow> history \<Rightarrow> string list access" where
  "v1_names ss e H =
     do { n \<leftarrow> v1_rows_len ss e H;
          ov \<leftarrow> v1_offset_vector ss e H;
          State_Monad.traverse_list (\<lambda>i.
            do { cb \<leftarrow> load (u64_at (ov + word_of_nat i * 8)) H;
                 if cb = 0 then State_Monad.return []
                 else do { c \<leftarrow> hdr_at ss cb; l \<leftarrow> vec_len c H; read_name c l H } }) [0..<unat n] }"

text \<open>The check of the offset of a vector: not zero, and below the length of the mapping.\<close>

definition v1_offset_ok :: "segment \<Rightarrow> addr \<Rightarrow> history \<Rightarrow> bool access" where
  "v1_offset_ok ss e H =
     do { u \<leftarrow> load (u64_at (e + 8)) H;
          if u = 0 then State_Monad.return False
          else do { u' \<leftarrow> load (u64_at (e + 8)) H; State_Monad.return (u' < seg_len ss) } }"

text \<open>For an error entry only the second check is made, on an index where it means an offset.\<close>

definition v1_CopyEntryData :: "segment \<Rightarrow> addr \<Rightarrow> u32 \<Rightarrow> history \<Rightarrow> Stat option access" where
  "v1_CopyEntryData ss e index H =
     do { d \<leftarrow> load (u32_at e) H;
          let typ = getStatType d True;
          if typ = ScalarIndex then
            do { v \<leftarrow> load (u64_at (e + 8)) H; State_Monad.return (Some (ScalarStat (u64_to_float v))) }
          else if typ = ErrorIndex then
            do { u \<leftarrow> load (u64_at (e + 8)) H;
                 if seg_len ss \<le> u then State_Monad.return None
                 else do { vs \<leftarrow> v1_error_values ss e H; State_Monad.return (Some (ErrorStat vs)) } }
          else if typ = SimpleCounterVector then
            do { ok \<leftarrow> v1_offset_ok ss e H;
                 if \<not> ok then State_Monad.return None
                 else do { rs \<leftarrow> v1_counter_rows ss e simple_elem 8 H; State_Monad.return (Some (SimpleCounterStat rs)) } }
          else if typ = CombinedCounterVector then
            do { ok \<leftarrow> v1_offset_ok ss e H;
                 if \<not> ok then State_Monad.return None
                 else do { rs \<leftarrow> v1_counter_rows ss e combined_elem 16 H; State_Monad.return (Some (CombinedCounterStat rs)) } }
          else if typ = NameVector then
            do { ok \<leftarrow> v1_offset_ok ss e H;
                 if \<not> ok then State_Monad.return None
                 else do { ns \<leftarrow> v1_names ss e H; State_Monad.return (Some (NameStat ns)) } }
          else State_Monad.return None }"

text \<open>
  Updating in place: rows are overwritten only when their length has not changed; the first row that
  has changed stops the update, the rows before it being updated.
\<close>

fun v1_update_rows ::
  "segment \<Rightarrow> addr \<Rightarrow> nat \<Rightarrow> (addr \<Rightarrow> history \<Rightarrow> 'b access) \<Rightarrow> u64 \<Rightarrow> 'b list option list \<Rightarrow> history \<Rightarrow>
     (gerr option \<times> 'b list option list) access" where
  "v1_update_rows ss ov i elem sz [] H = State_Monad.return (None, [])"
| "v1_update_rows ss ov i elem sz (d # ds) H =
     do { c \<leftarrow> v1_row ss ov i H; l \<leftarrow> vec_len c H;
          if word_of_nat (case d of None \<Rightarrow> 0 | Some xs \<Rightarrow> length xs) \<noteq> l
          then State_Monad.return (Some ErrStatDataLenIncorrect, d # ds)
          else do { r \<leftarrow> State_Monad.traverse_list (\<lambda>j. elem (c + word_of_nat j * sz) H) [0..<unat l];
                    (e, ds') \<leftarrow> v1_update_rows ss ov (Suc i) elem sz ds H;
                    State_Monad.return (e, (if d = None then None else Some r) # ds') } }"

fun v1_update_names :: "segment \<Rightarrow> addr \<Rightarrow> nat \<Rightarrow> string list \<Rightarrow> history \<Rightarrow> (gerr option \<times> string list) access" where
  "v1_update_names ss ov i [] H = State_Monad.return (None, [])"
| "v1_update_names ss ov i (d # ds) H =
     do { cb \<leftarrow> load (u64_at (ov + word_of_nat i * 8)) H;
          if cb = 0 then do { (e, ds') \<leftarrow> v1_update_names ss ov (Suc i) ds H; State_Monad.return (e, d # ds') }
          else do { c \<leftarrow> hdr_at ss cb; l \<leftarrow> vec_len c H;
                    if word_of_nat (length d) + 1 \<noteq> l then State_Monad.return (Some ErrStatDataLenIncorrect, d # ds)
                    else do { d' \<leftarrow> overwrite_name c 0 (unat l) d H;
                              (e, ds') \<leftarrow> v1_update_names ss ov (Suc i) ds H;
                              State_Monad.return (e, d' # ds') } } }"

definition v1_UpdateEntryData :: "segment \<Rightarrow> addr \<Rightarrow> Stat \<Rightarrow> history \<Rightarrow> (gerr option \<times> Stat) access" where
  "v1_UpdateEntryData ss e stat H =
     (case stat of
        ScalarStat _ \<Rightarrow>
          do { v \<leftarrow> load (u64_at (e + 8)) H; State_Monad.return (None, ScalarStat (u64_to_float v)) }
      | ErrorStat _ \<Rightarrow>
          do { ok \<leftarrow> v1_offset_ok ss e H;
               if \<not> ok then State_Monad.return (None, stat)
               else do { vs \<leftarrow> v1_error_values ss e H; State_Monad.return (None, ErrorStat vs) } }
      | SimpleCounterStat d \<Rightarrow>
          do { ok \<leftarrow> v1_offset_ok ss e H;
               if \<not> ok then State_Monad.return (None, stat)
               else do { n \<leftarrow> v1_rows_len ss e H; ov \<leftarrow> v1_offset_vector ss e H;
                         if word_of_nat (length d) \<noteq> n then State_Monad.return (Some ErrStatDataLenIncorrect, stat)
                         else do { (err, d') \<leftarrow> v1_update_rows ss ov 0 simple_elem 8 (take (unat n) d) H;
                                   State_Monad.return (err, SimpleCounterStat (d' @ drop (unat n) d)) } } }
      | CombinedCounterStat d \<Rightarrow>
          do { ok \<leftarrow> v1_offset_ok ss e H;
               if \<not> ok then State_Monad.return (None, stat)
               else do { n \<leftarrow> v1_rows_len ss e H; ov \<leftarrow> v1_offset_vector ss e H;
                         if word_of_nat (length d) \<noteq> n then State_Monad.return (Some ErrStatDataLenIncorrect, stat)
                         else do { (err, d') \<leftarrow> v1_update_rows ss ov 0 combined_elem 16 (take (unat n) d) H;
                                   State_Monad.return (err, CombinedCounterStat (d' @ drop (unat n) d)) } } }
      | NameStat d \<Rightarrow>
          do { ok \<leftarrow> v1_offset_ok ss e H;
               if \<not> ok then State_Monad.return (None, stat)
               else do { n \<leftarrow> v1_rows_len ss e H; ov \<leftarrow> v1_offset_vector ss e H;
                         if word_of_nat (length d) \<noteq> n then State_Monad.return (Some ErrStatDataLenIncorrect, stat)
                         else do { (err, d') \<leftarrow> v1_update_names ss ov 0 (take (unat n) d) H;
                                   State_Monad.return (err, NameStat (d' @ drop (unat n) d)) } } }
      | EmptyStat _ \<Rightarrow> State_Monad.return (None, stat))"

definition statSegmentV1 :: "segment \<Rightarrow> seg_api" where
  "statSegmentV1 ss =
     \<lparr>GetDirectoryVector = v1_GetDirectoryVector ss, GetStatDirOnIndex = v1_GetStatDirOnIndex ss,
      GetEpoch = v1_GetEpoch ss, CopyEntryData = v1_CopyEntryData ss, UpdateEntryData = v1_UpdateEntryData ss\<rparr>"

section \<open>All operations depend on their own interval only\<close>

lemma local_hdr_at [local_intros]: "local_access (\<lambda>H. hdr_at ss off)"
  unfolding hdr_at_def by (intro local_intros)

lemma local_v1_header [local_intros]: "local_access (v1_loadSharedHeader ss)"
  unfolding v1_loadSharedHeader_def by (intro local_intros)

lemma local_v1_offsets [local_intros]: "local_access (v1_getOffsets ss)"
  unfolding v1_getOffsets_def by (intro local_intros)

lemma local_v1_dir [local_intros]: "local_access (v1_GetDirectoryVector ss)"
  unfolding v1_GetDirectoryVector_def by (intro local_intros)

lemma local_v1_stat_dir [local_intros]: "local_access (v1_GetStatDirOnIndex ss v i)"
  unfolding v1_GetStatDirOnIndex_def Let_def by (intro local_intros)

lemma local_v1_epoch [local_intros]: "local_access (v1_GetEpoch ss)"
  unfolding v1_GetEpoch_def by (intro local_intros)

lemma local_v1_rows_len [local_intros]: "local_access (v1_rows_len ss e)"
  unfolding v1_rows_len_def by (intro local_intros)

lemma local_v1_offset_vector [local_intros]: "local_access (v1_offset_vector ss e)"
  unfolding v1_offset_vector_def by (intro local_intros)

lemma local_v1_row [local_intros]: "local_access (v1_row ss ov i)"
  unfolding v1_row_def by (intro local_intros)

lemma local_v1_counter_rows [local_intros]:
  assumes "\<And>a. local_access (elem a)"
  shows "local_access (v1_counter_rows ss e elem sz)"
  unfolding v1_counter_rows_def by (intro local_intros assms)

lemma local_v1_error_values [local_intros]: "local_access (v1_error_values ss e)"
  unfolding v1_error_values_def by (intro local_intros)

lemma local_v1_names [local_intros]: "local_access (v1_names ss e)"
  unfolding v1_names_def by (intro local_intros)

lemma local_v1_offset_ok [local_intros]: "local_access (v1_offset_ok ss e)"
  unfolding v1_offset_ok_def by (intro local_intros)

lemma local_v1_copy [local_intros]: "local_access (v1_CopyEntryData ss e i)"
  unfolding v1_CopyEntryData_def Let_def by (intro local_intros)

lemma local_v1_update_rows [local_intros]:
  assumes "\<And>a. local_access (elem a)"
  shows "local_access (v1_update_rows ss ov i elem sz ds)"
proof (induction ds arbitrary: i)
  case Nil
  show ?case by (rule local_cong [OF v1_update_rows.simps(1)]) (intro local_intros)
next
  case (Cons d ds)
  show ?case by (rule local_cong [OF v1_update_rows.simps(2)]) (intro local_intros assms Cons.IH)
qed

lemma local_v1_update_names [local_intros]: "local_access (v1_update_names ss ov i ds)"
proof (induction ds arbitrary: i)
  case Nil
  show ?case by (rule local_cong [OF v1_update_names.simps(1)]) (intro local_intros)
next
  case (Cons d ds)
  show ?case by (rule local_cong [OF v1_update_names.simps(2)]) (intro local_intros Cons.IH)
qed

lemma local_v1_update [local_intros]: "local_access (v1_UpdateEntryData ss e s)"
  unfolding v1_UpdateEntryData_def by (cases s) (simp_all only: Stat.case, (intro local_intros)+)

end
