(* ===== verification/StatsClient.thy ===== *)
theory StatsClient
  imports StatSegmentV1
begin

text \<open>
  The stats client of \<open>adapter/statsclient/statsclient.go\<close>: optimistic reads of the shared segment,
  bracketed by its epoch, and the operations of the stats API on top. Regular expressions are a
  library and a parameter. Time passes with every read; waiting is given by the number of polls
  that fit into the time limit.
\<close>

record client_entry =
  ce_Index :: u32
  ce_Name :: name_view
  ce_Type :: "StatType option"
  ce_Data :: "Stat option"
  ce_Symlink :: bool

record client_dir =
  cd_Epoch :: u64
  cd_Entries :: "client_entry list"

text \<open>The connection: mapped or not, the segment handler, and the monitor of the socket.\<close>

record StatsClient =
  sc_connected :: bool
  sc_headerData :: bool
  sc_segment :: "seg_api option"
  sc_monitored :: bool
  sc_doneClosed :: bool

type_synonym regexps = "string \<Rightarrow> gerr + (byte list \<Rightarrow> bool)"

section \<open>Epochs\<close>

fun accessStart :: "seg_api \<Rightarrow> nat \<Rightarrow> history \<Rightarrow> u64 access" where
  "accessStart api 0 H =
     do { (epoch, inProg) \<leftarrow> GetEpoch api H; State_Monad.return (if inProg then 0 else epoch) }"
| "accessStart api (Suc polls) H =
     do { (epoch, inProg) \<leftarrow> GetEpoch api H;
          if inProg then accessStart api polls H else State_Monad.return epoch }"

definition accessEnd :: "seg_api \<Rightarrow> u64 \<Rightarrow> history \<Rightarrow> bool access" where
  "accessEnd api accessEpoch H =
     do { (epoch, inProgress) \<leftarrow> GetEpoch api H;
          State_Monad.return (\<not> (accessEpoch \<noteq> epoch \<or> inProgress)) }"

definition readErr :: "seg_api \<Rightarrow> u64 \<Rightarrow> gerr \<Rightarrow> history \<Rightarrow> gerr access" where
  "readErr api accessEpoch err H =
     do { ok \<leftarrow> accessEnd api accessEpoch H; State_Monad.return (if \<not> ok then ErrStatsDataBusy else err) }"

text \<open>How every operation ends: an error is mapped, a result must be from the epoch it began in.\<close>

definition finish :: "seg_api \<Rightarrow> u64 \<Rightarrow> gerr + 'a \<Rightarrow> history \<Rightarrow> (gerr + 'a) access" where
  "finish api accessEpoch r H =
     (case r of
        Inl err \<Rightarrow> do { e \<leftarrow> readErr api accessEpoch err H; State_Monad.return (Inl e) }
      | Inr x \<Rightarrow> do { ok \<leftarrow> accessEnd api accessEpoch H;
                     State_Monad.return (if \<not> ok then Inl ErrStatsDataBusy else Inr x) })"

section \<open>Listing and reading entries\<close>

definition read_view :: "name_view \<Rightarrow> history \<Rightarrow> byte list access" where
  "read_view nv H = State_Monad.traverse_list (\<lambda>i. load (u8_at (nv_addr nv + word_of_nat i)) H) [0..<nv_len nv]"

fun name_matches :: "(byte list \<Rightarrow> bool) list \<Rightarrow> name_view \<Rightarrow> history \<Rightarrow> bool access" where
  "name_matches [] nv H = State_Monad.return False"
| "name_matches (r # rs) nv H =
     do { bs \<leftarrow> read_view nv H; if r bs then State_Monad.return True else name_matches rs nv H }"

text \<open>Without a filter all indexes are listed, also those of entries without a name.\<close>

fun listIndexes_from ::
  "seg_api \<Rightarrow> addr \<Rightarrow> (byte list \<Rightarrow> bool) list option \<Rightarrow> nat \<Rightarrow> nat \<Rightarrow> history \<Rightarrow> u32 list access" where
  "listIndexes_from api v f i 0 H = State_Monad.return []"
| "listIndexes_from api v f i (Suc k) H =
     do { (_, nm, _) \<leftarrow> GetStatDirOnIndex api v (word_of_nat i) H;
          keep \<leftarrow> (case f of None \<Rightarrow> State_Monad.return True
                  | Some rs \<Rightarrow> if nv_len nm = 0 then State_Monad.return False else name_matches rs nm H);
          is \<leftarrow> listIndexes_from api v f (Suc i) k H;
          State_Monad.return (if keep then word_of_nat i # is else is) }"

definition listIndexesFunc ::
  "seg_api \<Rightarrow> addr \<Rightarrow> (byte list \<Rightarrow> bool) list option \<Rightarrow> history \<Rightarrow> (gerr + u32 list) access" where
  "listIndexesFunc api v f H =
     do { n \<leftarrow> vec_len v H; is \<leftarrow> listIndexes_from api v f 0 (unat n) H; State_Monad.return (Inr is) }"

fun compile_all :: "regexps \<Rightarrow> string list \<Rightarrow> gerr + (byte list \<Rightarrow> bool) list" where
  "compile_all compile [] = Inr []"
| "compile_all compile (p # ps) =
     (case compile p of
        Inl e \<Rightarrow> Inl (ErrMsg ''compiling regexp failed'')
      | Inr r \<Rightarrow> (case compile_all compile ps of Inl e \<Rightarrow> Inl e | Inr rs \<Rightarrow> Inr (r # rs)))"

definition listIndexes :: "seg_api \<Rightarrow> regexps \<Rightarrow> addr \<Rightarrow> string list \<Rightarrow> history \<Rightarrow> (gerr + u32 list) access" where
  "listIndexes api compile v patterns H =
     (if patterns = [] then listIndexesFunc api v None H
      else case compile_all compile patterns of
        Inl e \<Rightarrow> State_Monad.return (Inl e)
      | Inr rs \<Rightarrow> listIndexesFunc api v (Some rs) H)"

text \<open>An index out of range is an error; an entry without a name ends the list without one.\<close>

fun entries_loop :: "seg_api \<Rightarrow> addr \<Rightarrow> u32 \<Rightarrow> u32 list \<Rightarrow> history \<Rightarrow> (gerr + client_entry list) access" where
  "entries_loop api v dirLen [] H = State_Monad.return (Inr [])"
| "entries_loop api v dirLen (index # is) H =
     (if dirLen \<le> index then State_Monad.return (Inl (ErrMsg ''stat entry index out of dir vector length''))
      else do { (dirPtr, nm, dirType) \<leftarrow> GetStatDirOnIndex api v index H;
                if nv_len nm = 0 then State_Monad.return (Inr [])
                else do { d \<leftarrow> CopyEntryData api dirPtr no_index H;
                          r \<leftarrow> entries_loop api v dirLen is H;
                          State_Monad.return (case r of Inl e \<Rightarrow> Inl e
                            | Inr es \<Rightarrow> Inr (\<lparr>ce_Index = index, ce_Name = nm, ce_Type = map_option Stat_Type d,
                                 ce_Data = d, ce_Symlink = (dirType = SymlinkType)\<rparr> # es)) } })"

definition getStatEntriesOnIndex :: "seg_api \<Rightarrow> addr \<Rightarrow> u32 list \<Rightarrow> history \<Rightarrow> (gerr + client_entry list) access" where
  "getStatEntriesOnIndex api v is H = do { dirLen \<leftarrow> vec_len v H; entries_loop api v dirLen is H }"

fun identifiers_loop :: "seg_api \<Rightarrow> addr \<Rightarrow> u32 \<Rightarrow> u32 list \<Rightarrow> history \<Rightarrow> (gerr + (u32 \<times> name_view) list) access" where
  "identifiers_loop api v dirLen [] H = State_Monad.return (Inr [])"
| "identifiers_loop api v dirLen (index # is) H =
     (if dirLen \<le> index then State_Monad.return (Inl (ErrMsg ''stat entry index out of dir vector length''))
      else do { (_, nm, _) \<leftarrow> GetStatDirOnIndex api v index H;
                if nv_len nm = 0 then State_Monad.return (Inr [])
                else do { r \<leftarrow> identifiers_loop api v dirLen is H;
                          State_Monad.return (case r of Inl e \<Rightarrow> Inl e | Inr es \<Rightarrow> Inr ((index, nm) # es)) } })"

definition getIdentifierEntriesOnIndex :: "seg_api \<Rightarrow> addr \<Rightarrow> u32 list \<Rightarrow> history \<Rightarrow> (gerr + (u32 \<times> name_view) list) access" where
  "getIdentifierEntriesOnIndex api v is H = do { dirLen \<leftarrow> vec_len v H; identifiers_loop api v dirLen is H }"

definition getStatEntries :: "seg_api \<Rightarrow> regexps \<Rightarrow> string list \<Rightarrow> history \<Rightarrow> (gerr + client_entry list) access" where
  "getStatEntries api compile patterns H =
     do { v \<leftarrow> GetDirectoryVector api H;
          case v of None \<Rightarrow> State_Monad.return (Inl (ErrMsg ''failed to get stat entries: directory vector is nil''))
          | Some v \<Rightarrow>
              do { r \<leftarrow> listIndexes api compile v patterns H;
                   case r of Inl e \<Rightarrow> State_Monad.return (Inl e) | Inr is \<Rightarrow> getStatEntriesOnIndex api v is H } }"

definition getIdentifierEntries :: "seg_api \<Rightarrow> regexps \<Rightarrow> string list \<Rightarrow> history \<Rightarrow> (gerr + (u32 \<times> name_view) list) access" where
  "getIdentifierEntries api compile patterns H =
     do { v \<leftarrow> GetDirectoryVector api H;
          case v of None \<Rightarrow> State_Monad.return (Inl (ErrMsg ''failed to get identifier entries: directory vector is nil''))
          | Some v \<Rightarrow>
              do { r \<leftarrow> listIndexes api compile v patterns H;
                   case r of Inl e \<Rightarrow> State_Monad.return (Inl e) | Inr is \<Rightarrow> getIdentifierEntriesOnIndex api v is H } }"

section \<open>The operations\<close>

text \<open>An operation on the segment handler; a nil handler panics.\<close>

definition on_segment :: "StatsClient \<Rightarrow> (seg_api \<Rightarrow> history \<Rightarrow> (gerr + 'a) access) \<Rightarrow> history \<Rightarrow> (gerr + 'a) access" where
  "on_segment sc f H =
     (if \<not> sc_connected sc then State_Monad.return (Inl ErrStatsDisconnected)
      else case sc_segment sc of None \<Rightarrow> panics (Inl ErrStatsDisconnected) | Some api \<Rightarrow> f api H)"

definition bracketed :: "nat \<Rightarrow> (seg_api \<Rightarrow> history \<Rightarrow> (gerr + 'a) access) \<Rightarrow> seg_api \<Rightarrow> history \<Rightarrow> (gerr + u64 \<times> 'a) access" where
  "bracketed polls body api H =
     do { ep \<leftarrow> accessStart api polls H;
          if ep = 0 then State_Monad.return (Inl ErrStatsAccessFailed)
          else do { r \<leftarrow> body api H;
                    finish api ep (case r of Inl e \<Rightarrow> Inl e | Inr x \<Rightarrow> Inr (ep, x)) H } }"

definition sc_ListStats :: "StatsClient \<Rightarrow> regexps \<Rightarrow> nat \<Rightarrow> string list \<Rightarrow> history \<Rightarrow> (gerr + (u32 \<times> name_view) list) access" where
  "sc_ListStats sc compile polls patterns H =
     do { r \<leftarrow> on_segment sc (bracketed polls (\<lambda>api. getIdentifierEntries api compile patterns)) H;
          State_Monad.return (map_sum (\<lambda>e. e) snd r) }"

definition sc_DumpStats :: "StatsClient \<Rightarrow> regexps \<Rightarrow> nat \<Rightarrow> string list \<Rightarrow> history \<Rightarrow> (gerr + client_entry list) access" where
  "sc_DumpStats sc compile polls patterns H =
     do { r \<leftarrow> on_segment sc (bracketed polls (\<lambda>api. getStatEntries api compile patterns)) H;
          State_Monad.return (map_sum (\<lambda>e. e) snd r) }"

definition sc_PrepareDir :: "StatsClient \<Rightarrow> regexps \<Rightarrow> nat \<Rightarrow> string list \<Rightarrow> history \<Rightarrow> (gerr + client_dir) access" where
  "sc_PrepareDir sc compile polls patterns H =
     do { r \<leftarrow> on_segment sc (bracketed polls (\<lambda>api. getStatEntries api compile patterns)) H;
          State_Monad.return (map_sum (\<lambda>e. e) (\<lambda>(ep, es). \<lparr>cd_Epoch = ep, cd_Entries = es\<rparr>) r) }"

text \<open>Here a directory vector out of range is reported as it is, without a look at the epoch.\<close>

definition sc_PrepareDirOnIndex :: "StatsClient \<Rightarrow> nat \<Rightarrow> u32 list \<Rightarrow> history \<Rightarrow> (gerr + client_dir) access" where
  "sc_PrepareDirOnIndex sc polls indexes H =
     on_segment sc (\<lambda>api H.
       do { ep \<leftarrow> accessStart api polls H;
            if ep = 0 then State_Monad.return (Inl ErrStatsAccessFailed)
            else do { v \<leftarrow> GetDirectoryVector api H;
                      case v of None \<Rightarrow> State_Monad.return (Inl (ErrMsg ''failed to prepare dir on index: directory vector is nil''))
                      | Some v \<Rightarrow>
                          do { r \<leftarrow> getStatEntriesOnIndex api v indexes H;
                               finish api ep (map_sum (\<lambda>e. e) (\<lambda>es. \<lparr>cd_Epoch = ep, cd_Entries = es\<rparr>) r) H } } }) H"

text \<open>
  An entry is refreshed when its name and type in the segment are those it was prepared with; the
  name is compared with the shared bytes the entry itself refers to.
\<close>

definition updateStatOnIndex :: "seg_api \<Rightarrow> client_entry \<Rightarrow> addr \<Rightarrow> history \<Rightarrow> (gerr option \<times> client_entry) access" where
  "updateStatOnIndex api e v H =
     do { dirLen \<leftarrow> vec_len v H;
          if dirLen \<le> ce_Index e then State_Monad.return (Some (ErrMsg ''stat entry index out of dir vector length''), e)
          else do { (dirPtr, nm, dirType) \<leftarrow> GetStatDirOnIndex api v (ce_Index e) H;
                    if nv_len nm = 0 then State_Monad.return (None, e)
                    else do { b1 \<leftarrow> read_view nm H; b2 \<leftarrow> read_view (ce_Name e) H;
                              case ce_Data e of
                                Some d \<Rightarrow>
                                  (if b1 \<noteq> b2 \<or> Some dirType \<noteq> ce_Type e then State_Monad.return (None, e)
                                   else do { (err, d') \<leftarrow> UpdateEntryData api dirPtr d H;
                                             State_Monad.return (map_option (\<lambda>_. ErrMsg ''updating stat data failed'') err,
                                               e\<lparr>ce_Data := Some d'\<rparr>) })
                              | None \<Rightarrow> State_Monad.return (None, e) } } }"

fun update_entries :: "seg_api \<Rightarrow> addr \<Rightarrow> client_entry list \<Rightarrow> history \<Rightarrow> (gerr option \<times> client_entry list) access" where
  "update_entries api v [] H = State_Monad.return (None, [])"
| "update_entries api v (e # es) H =
     do { (err, e') \<leftarrow> updateStatOnIndex api e v H;
          case err of Some x \<Rightarrow> State_Monad.return (Some x, e' # es)
          | None \<Rightarrow> do { (err', es') \<leftarrow> update_entries api v es H; State_Monad.return (err', e' # es') } }"

text \<open>The entries are updated in place: the second component is the directory afterwards.\<close>

definition sc_UpdateDir :: "StatsClient \<Rightarrow> nat \<Rightarrow> client_dir \<Rightarrow> history \<Rightarrow> (gerr option \<times> client_dir) access" where
  "sc_UpdateDir sc polls dir H =
     (if \<not> sc_connected sc then State_Monad.return (Some ErrStatsDisconnected, dir)
      else case sc_segment sc of None \<Rightarrow> panics (None, dir)
      | Some api \<Rightarrow>
          do { (epoch, _) \<leftarrow> GetEpoch api H;
               if cd_Epoch dir \<noteq> epoch then State_Monad.return (Some ErrStatsDirStale, dir)
               else do { ep \<leftarrow> accessStart api polls H;
                         if ep = 0 then State_Monad.return (Some ErrStatsAccessFailed, dir)
                         else do { v \<leftarrow> GetDirectoryVector api H;
                                   case v of None \<Rightarrow> State_Monad.return (None, dir)
                                   | Some v \<Rightarrow>
                                       do { (err, es) \<leftarrow> update_entries api v (cd_Entries dir) H;
                                            let dir' = dir\<lparr>cd_Entries := es\<rparr>;
                                            case err of
                                              Some x \<Rightarrow> do { e \<leftarrow> readErr api ep x H; State_Monad.return (Some e, dir') }
                                            | None \<Rightarrow> do { ok \<leftarrow> accessEnd api ep H;
                                                          State_Monad.return (if \<not> ok then Some ErrStatsDataBusy else None, dir') } } } } })"

section \<open>Connecting\<close>

text \<open>
  What the socket gives is an argument: an error, or the version in the mapped header and the mapping.
  An unsupported version is unmapped again, without forgetting the mapping.
\<close>

definition sc_connect :: "gerr + u64 \<times> segment \<Rightarrow> StatsClient \<Rightarrow> (gerr + seg_api) \<times> StatsClient" where
  "sc_connect dial sc =
     (case dial of
        Inl e \<Rightarrow> (Inl e, sc)
      | Inr (version, seg) \<Rightarrow>
          (let sc1 = sc\<lparr>sc_headerData := True\<rparr> in
           if version = 1 then (Inr (statSegmentV1 seg), sc1\<lparr>sc_connected := True\<rparr>)
           else if version = 2 then (Inr (statSegmentV2 seg), sc1\<lparr>sc_connected := True\<rparr>)
           else (Inl (ErrMsg ''stat segment version is not supported''), sc1)))"

definition sc_set_segment :: "(gerr + seg_api) \<times> StatsClient \<Rightarrow> gerr option \<times> StatsClient" where
  "sc_set_segment r =
     (case r of (Inl e, sc) \<Rightarrow> (Some e, sc\<lparr>sc_segment := None\<rparr>) | (Inr api, sc) \<Rightarrow> (None, sc\<lparr>sc_segment := Some api\<rparr>))"

definition sc_Connect :: "gerr option \<Rightarrow> gerr + u64 \<times> segment \<Rightarrow> gerr option \<Rightarrow> StatsClient \<Rightarrow> gerr option \<times> StatsClient" where
  "sc_Connect waitErr dial watchErr sc =
     (case waitErr of Some e \<Rightarrow> (Some e, sc)
      | None \<Rightarrow>
          (case sc_set_segment (sc_connect dial (sc\<lparr>sc_doneClosed := False\<rparr>)) of
             (Some e, sc1) \<Rightarrow> (Some e, sc1)
           | (None, sc1) \<Rightarrow> (None, if watchErr = None then sc1\<lparr>sc_monitored := True\<rparr> else sc1)))"

definition sc_disconnect :: "gerr option \<Rightarrow> StatsClient \<Rightarrow> gerr option \<times> StatsClient" where
  "sc_disconnect munmapErr sc =
     (if \<not> sc_connected sc then (Some (ErrMsg ''stats client is already disconnected''), sc)
      else let sc1 = sc\<lparr>sc_connected := False\<rparr> in
        if \<not> sc_headerData sc1 then (None, sc1)
        else case munmapErr of
          Some e \<Rightarrow> (Some (ErrMsg ''unmapping shared memory failed''), sc1)
        | None \<Rightarrow> (None, sc1\<lparr>sc_headerData := False\<rparr>))"

definition sc_Disconnect :: "gerr option \<Rightarrow> StatsClient \<Rightarrow> gerr option \<times> StatsClient" where
  "sc_Disconnect munmapErr sc =
     (let sc1 = (if sc_monitored sc then sc\<lparr>sc_monitored := False, sc_doneClosed := True\<rparr> else sc) in
      if \<not> sc_connected sc1 then (None, sc1) else sc_disconnect munmapErr sc1)"

definition sc_reconnect :: "gerr option \<Rightarrow> gerr option \<Rightarrow> gerr + u64 \<times> segment \<Rightarrow> StatsClient \<Rightarrow> gerr option \<times> StatsClient" where
  "sc_reconnect munmapErr waitErr dial sc =
     (case sc_disconnect munmapErr sc of
        (Some e, sc1) \<Rightarrow> (Some (ErrMsg ''error disconnecting socket''), sc1)
      | (None, sc1) \<Rightarrow>
          (case waitErr of Some e \<Rightarrow> (Some (ErrMsg ''error while waiting on socket''), sc1)
           | None \<Rightarrow>
               (case sc_set_segment (sc_connect dial sc1) of
                  (Some e, sc2) \<Rightarrow> (Some (ErrMsg ''error connecting socket''), sc2)
                | (None, sc2) \<Rightarrow> (None, sc2))))"

definition NewStatsClient :: StatsClient where
  "NewStatsClient = \<lparr>sc_connected = False, sc_headerData = False, sc_segment = None, sc_monitored = False, sc_doneClosed = False\<rparr>"

end
