(* ===== verification/StatSegmentProps.thy ===== *)
theory StatSegmentProps
  imports StatSegment
begin

text \<open>
  What version 2 of the segment returns on a snapshot, as functions of the memory, and that updating
  data in place agrees with copying them anew.
\<close>

definition header_in :: "segment \<Rightarrow> memory \<Rightarrow> sharedHeaderV2" where
  "header_in ss m = \<lparr>h2_version = u64_at (seg_base ss) m, h2_base = u64_at (seg_base ss + 8) m,
     h2_epoch = u64_at (seg_base ss + 16) m, h2_inProgress = u64_at (seg_base ss + 24) m,
     h2_dirVector = u64_at (seg_base ss + 32) m, h2_errorVector = u64_at (seg_base ss + 40) m\<rparr>"

text \<open>A pointer of VPP's address space, moved into the mapping.\<close>

definition ptr_in :: "segment \<Rightarrow> memory \<Rightarrow> u64 \<Rightarrow> addr option" where
  "ptr_in ss m v = adjust_ptr ss (header_in ss m) v"

definition len_in :: "memory \<Rightarrow> addr \<Rightarrow> nat" where
  "len_in m v = unat (ucast (u64_at (v - 8) m) :: u32)"

definition type_in :: "segment \<Rightarrow> memory \<Rightarrow> addr \<Rightarrow> StatType" where
  "type_in ss m e = getStatType (u32_at e m) (ptr_in ss m (h2_errorVector (header_in ss m)) \<noteq> None)"

definition row_in :: "(memory \<Rightarrow> addr \<Rightarrow> 'b) \<Rightarrow> u64 \<Rightarrow> memory \<Rightarrow> addr \<Rightarrow> 'b list" where
  "row_in elem sz m c = map (\<lambda>j. elem m (c + word_of_nat j * sz)) [0..<len_in m c]"

definition table_in :: "segment \<Rightarrow> (memory \<Rightarrow> addr \<Rightarrow> 'b) \<Rightarrow> u64 \<Rightarrow> memory \<Rightarrow> addr \<Rightarrow> 'b list option list" where
  "table_in ss elem sz m v =
     map (\<lambda>i. map_option (row_in elem sz m) (ptr_in ss m (u64_at (v + word_of_nat i * 8) m))) [0..<len_in m v]"

definition simple_in :: "memory \<Rightarrow> addr \<Rightarrow> u64" where "simple_in m a = u64_at a m"

definition combined_in :: "memory \<Rightarrow> addr \<Rightarrow> u64 \<times> u64" where "combined_in m a = (u64_at a m, u64_at (a + 8) m)"

section \<open>Accesses on a snapshot\<close>

lemma snap_vec_len [snapshot_simps]: "on_snapshot (vec_len v) m = Some (ucast (u64_at (v - 8) m))"
  unfolding vec_len_def by (rule on_snapshot_load)

lemma snap_header [snapshot_simps]: "on_snapshot (v2_loadSharedHeader ss) m = Some (header_in ss m)"
  by (simp add: on_snapshot_def outcome_def v2_loadSharedHeader_def header_in_def)

lemma snap_adjust_val [snapshot_simps]: "on_snapshot (adjust_val ss v) m = Some (ptr_in ss m v)"
  by (simp add: on_snapshot_def outcome_def adjust_val_def v2_loadSharedHeader_def header_in_def ptr_in_def)

lemma snap_adjust_at [snapshot_simps]: "on_snapshot (adjust_at ss a) m = Some (ptr_in ss m (u64_at a m))"
  by (simp add: on_snapshot_def outcome_def adjust_at_def v2_loadSharedHeader_def header_in_def ptr_in_def)

lemma snap_error_vector [snapshot_simps]:
  "on_snapshot (v2_getErrorVector ss) m = Some (ptr_in ss m (h2_errorVector (header_in ss m)))"
  unfolding v2_getErrorVector_def
  by (subst on_snapshot_bind [OF local_v2_header local_adjust_val]) (simp add: snapshot_simps)

lemma snap_entry_type [snapshot_simps]: "on_snapshot (v2_entry_type ss e) m = Some (type_in ss m e)"
  unfolding v2_entry_type_def
  by (simp add: on_snapshot_bind local_intros snapshot_simps type_in_def)

lemma snap_simple [snapshot_simps]: "on_snapshot (simple_elem a) m = Some (simple_in m a)"
  unfolding simple_elem_def simple_in_def by (rule on_snapshot_load)

lemma snap_combined [snapshot_simps]: "on_snapshot (combined_elem a) m = Some (combined_in m a)"
  by (simp add: on_snapshot_def outcome_def combined_elem_def combined_in_def)

lemma snap_row_ptr [snapshot_simps]:
  "on_snapshot (v2_row_ptr ss v i) m = Some (ptr_in ss m (u64_at (v + word_of_nat i * 8) m))"
  unfolding v2_row_ptr_def by (simp add: on_snapshot_bind local_intros snapshot_simps)

lemma snap_counter_row:
  assumes "\<And>a. local_access (elem a)" "\<And>a. on_snapshot (elem a) m = Some (elem_in m a)"
  shows "on_snapshot (counter_row elem sz z no_index c) m = Some (row_in elem_in sz m c)"
  unfolding counter_row_def
  by (simp add: on_snapshot_bind on_snapshot_traverse on_snapshot_if local_intros assms snap_vec_len
      map_panics_Some [where g = "\<lambda>j. elem_in m (c + word_of_nat j * sz)"] row_in_def len_in_def)

lemma snap_rows_n:
  assumes "\<And>c. local_access (row c)" "\<And>c. on_snapshot (row c) m = Some (f c)"
  shows "on_snapshot (v2_rows_n ss v n row) m =
    Some (map (\<lambda>i. map_option f (ptr_in ss m (u64_at (v + word_of_nat i * 8) m))) [0..<n])"
proof -
  have r: "on_snapshot (\<lambda>H. do { cv \<leftarrow> v2_row_ptr ss v i H;
       case cv of None \<Rightarrow> State_Monad.return None
       | Some c \<Rightarrow> do { r \<leftarrow> row c H; State_Monad.return (Some r) } }) m =
     Some (map_option f (ptr_in ss m (u64_at (v + word_of_nat i * 8) m)))" for i
    by (simp add: on_snapshot_bind on_snapshot_case_option on_snapshot_return local_intros assms snap_row_ptr
        split: option.split)
  have l: "local_access (\<lambda>H. do { cv \<leftarrow> v2_row_ptr ss v i H;
       case cv of None \<Rightarrow> State_Monad.return None
       | Some c \<Rightarrow> do { r \<leftarrow> row c H; State_Monad.return (Some r) } })" for i
    by (intro local_intros assms)
  show ?thesis unfolding v2_rows_n_def
    by (subst on_snapshot_traverse [OF l]) (rule map_panics_Some, rule r)
qed

section \<open>Copying and updating agree\<close>

lemma snap_rows:
  assumes "\<And>c. local_access (row c)" "\<And>c. on_snapshot (row c) m = Some (f c)"
  shows "on_snapshot (v2_rows ss v row) m =
    Some (map (\<lambda>i. map_option f (ptr_in ss m (u64_at (v + word_of_nat i * 8) m))) [0..<len_in m v])"
  unfolding v2_rows_def
  by (simp add: on_snapshot_bind local_intros assms snap_vec_len snap_rows_n [OF assms] len_in_def)

definition error_in :: "segment \<Rightarrow> memory \<Rightarrow> addr \<Rightarrow> addr \<Rightarrow> u64 list" where
  "error_in ss m e v =
     map (\<lambda>c. u64_at (c + u64_at (e + 8) m * 8) m)
       (List.map_filter (\<lambda>i. ptr_in ss m (u64_at (v + word_of_nat i * 8) m)) [0..<len_in m v])"

lemma map_the_filter_map_option:
  "map the (filter (\<lambda>r. r \<noteq> None) (map (\<lambda>i. map_option f (g i)) xs)) = map f (List.map_filter g xs)"
  by (induction xs) (auto simp: List.map_filter_simps split: option.split)

lemma snap_error_values [snapshot_simps]: "on_snapshot (v2_error_values ss e v) m = Some (error_in ss m e v)"
proof -
  have l: "local_access (\<lambda>H. State_Monad.bind (load (u64_at (e + 8)) H) (\<lambda>u. load (u64_at (c + u * 8)) H))" for c
    by (intro local_intros)
  have s: "on_snapshot (\<lambda>H. State_Monad.bind (load (u64_at (e + 8)) H) (\<lambda>u. load (u64_at (c + u * 8)) H)) m =
      Some (u64_at (c + u64_at (e + 8) m * 8) m)" for c
    by (simp add: on_snapshot_bind local_intros on_snapshot_load)
  show ?thesis unfolding v2_error_values_def error_in_def
    by (subst on_snapshot_bind [OF local_v2_rows [OF l] local_return])
      (simp add: snap_rows [OF l s] on_snapshot_return map_the_filter_map_option del: not_None_eq)
qed

lemma snap_tables:
  "on_snapshot (v2_rows ss v (counter_row simple_elem 8 0 no_index)) m = Some (table_in ss simple_in 8 m v)"
  "on_snapshot (v2_rows ss v (counter_row combined_elem 16 (0, 0) no_index)) m = Some (table_in ss combined_in 16 m v)"
  "on_snapshot (v2_rows_n ss v (len_in m v) (counter_row simple_elem 8 0 no_index)) m = Some (table_in ss simple_in 8 m v)"
  "on_snapshot (v2_rows_n ss v (len_in m v) (counter_row combined_elem 16 (0, 0) no_index)) m = Some (table_in ss combined_in 16 m v)"
  unfolding table_in_def
  by (rule snap_rows snap_rows_n local_intros snap_counter_row snapshot_simps)+

text \<open>The data of an entry that is neither a symlink nor a vector of names.\<close>

definition data_in :: "segment \<Rightarrow> memory \<Rightarrow> addr \<Rightarrow> Stat option" where
  "data_in ss m e =
     (let u = u64_at (e + 8) m in
      case type_in ss m e of
        ScalarIndex \<Rightarrow> Some (ScalarStat (u64_to_float u))
      | ErrorIndex \<Rightarrow> map_option (\<lambda>v. ErrorStat (error_in ss m e v)) (ptr_in ss m (h2_errorVector (header_in ss m)))
      | SimpleCounterVector \<Rightarrow>
          (if u = 0 then None else map_option (\<lambda>v. SimpleCounterStat (table_in ss simple_in 8 m v)) (ptr_in ss m u))
      | CombinedCounterVector \<Rightarrow>
          (if u = 0 then None else map_option (\<lambda>v. CombinedCounterStat (table_in ss combined_in 16 m v)) (ptr_in ss m u))
      | EmptyType \<Rightarrow> Some (EmptyStat ''<none>'')
      | _ \<Rightarrow> None)"

lemma snap_copy:
  assumes "type_in ss m e \<notin> {NameVector, SymlinkType}"
  shows "on_snapshot (v2_CopyEntryData ss e no_index) m = Some (data_in ss m e)"
proof -
  have "on_snapshot (v2_copy_entry (Suc f) ss e no_index) m = Some (data_in ss m e)" for f
    using assms unfolding data_in_def Let_def
    by (cases "type_in ss m e")
      (simp_all add: v2_copy_entry.simps(2) [abs_def] local_intros snapshot_simps snap_tables split: option.split)
  then show ?thesis unfolding v2_CopyEntryData_def symlink_fuel_def by (metis Suc_numeral numeral_eq_Suc)
qed

text \<open>What an update makes of old data when copying anew gives \<open>new\<close>.\<close>

fun refreshed :: "Stat \<Rightarrow> Stat \<Rightarrow> Stat" where
  "refreshed (SimpleCounterStat d) (SimpleCounterStat n) = SimpleCounterStat (keep_rows d n)"
| "refreshed (CombinedCounterStat d) (CombinedCounterStat n) = CombinedCounterStat (keep_rows d n)"
| "refreshed (EmptyStat s) n = EmptyStat s"
| "refreshed old new = new"

fun same_size :: "Stat \<Rightarrow> Stat \<Rightarrow> bool" where
  "same_size (SimpleCounterStat d) (SimpleCounterStat n) \<longleftrightarrow> length d mod 2 ^ 32 = length n"
| "same_size (CombinedCounterStat d) (CombinedCounterStat n) \<longleftrightarrow> length d mod 2 ^ 32 = length n"
| "same_size old new \<longleftrightarrow> True"

lemma same_len_in:
  "word_of_nat n = (ucast (u64_at (v - 8) m) :: u32) \<longleftrightarrow> n mod 2 ^ 32 = len_in m v"
  unfolding len_in_def word_unat_eq_iff by (simp add: unat_of_nat)

lemma length_table_in [simp]: "length (table_in ss elem sz m v) = len_in m v"
  by (simp add: table_in_def)

text \<open>
  C15 (equivalence). Refreshing an entry in place agrees with copying it anew, on any snapshot of the
  segment: every row within the mapping is replaced by what a copy gives, rows that are not there
  keep their old contents, and data of another size are refused and left alone.
\<close>

theorem update_agrees_with_copy:
  assumes "on_snapshot (v2_CopyEntryData ss e no_index) m = Some (Some new)"
    and "type_in ss m e = Stat_Type old" "Stat_Type old \<noteq> NameVector"
  shows "on_snapshot (v2_UpdateEntryData ss e old) m =
    Some (if same_size old new then (None, refreshed old new) else (Some ErrStatDataLenIncorrect, old))"
proof -
  have "type_in ss m e \<notin> {NameVector, SymlinkType}" using assms(2,3) by (cases old) auto
  from snap_copy [OF this] assms(1) have "data_in ss m e = Some new" by simp
  with assms(2,3) show ?thesis
    by (cases old)
      (auto simp: v2_UpdateEntryData_def [abs_def] data_in_def Let_def local_intros snapshot_simps snap_tables same_len_in
        not_le len_in_def [symmetric] split: if_splits)
qed

definition seg_memory :: memory where
  "seg_memory a =
     (if a = 4105 then 16 else if a = 8192 then 2 else if a = 8201 then 48 else if a = 12280 then 1
      else if a = 12289 then 64 else if a = 16376 then 2 else if a = 16384 then 7 else if a = 16392 then 9 else 0)"

lemma seg_memory_values:
  "u64_at 4096 seg_memory = 0" "u64_at 4104 seg_memory = 4096" "u64_at 4112 seg_memory = 0" "u64_at 4120 seg_memory = 0"
  "u64_at 4128 seg_memory = 0" "u64_at 4136 seg_memory = 0" "u32_at 8192 seg_memory = 2" "u64_at 8200 seg_memory = 12288"
  "u64_at 12280 seg_memory = 1" "u64_at 12288 seg_memory = 16384" "u64_at 16376 seg_memory = 2"
  "u64_at 16384 seg_memory = 7" "u64_at 16392 seg_memory = 9"
  by code_simp+

definition seg_example :: segment where
  "seg_example = \<lparr>seg_base = 4096, seg_len = 65536\<rparr>"

lemma seg_example_data:
  "type_in seg_example seg_memory 8192 = SimpleCounterVector"
  "data_in seg_example seg_memory 8192 = Some (SimpleCounterStat [Some [7, 9]])"
  by (simp_all add: data_in_def table_in_def row_in_def simple_in_def len_in_def type_in_def header_in_def ptr_in_def
      adjust_ptr_def seg_example_def seg_memory_values getStatType_def dirTypeMapping_def upt_rec)

lemma update_agrees_with_copy_witness:
  "on_snapshot (v2_UpdateEntryData seg_example 8192 (SimpleCounterStat [Some [1, 2, 3]])) seg_memory =
     Some (None, SimpleCounterStat [Some [7, 9]])"
proof -
  have "on_snapshot (v2_CopyEntryData seg_example 8192 no_index) seg_memory = Some (Some (SimpleCounterStat [Some [7, 9]]))"
    by (subst snap_copy) (simp_all add: seg_example_data)
  from update_agrees_with_copy [OF this, of "SimpleCounterStat [Some [1, 2, 3]]"] show ?thesis
    by (simp add: seg_example_data keep_rows_def)
qed

end
