(* ===== verification/StatsClientProps.thy ===== *)
theory StatsClientProps
  imports StatsClient StatSegmentProps
begin

text \<open>
  What the optimistic reads of the stats client guarantee. VPP, the writer, marks the segment as
  changing, changes it, moves the epoch on and removes the mark; the relation below is this
  discipline. A locale states what a segment handler promises, both versions are instances of it.
\<close>

section \<open>The writer\<close>

text \<open>
  A state of the writer: the memory, and the epoch at which the running update began. The epoch does
  not wrap.
\<close>

inductive writer_step ::
  "(memory \<Rightarrow> u64) \<Rightarrow> (memory \<Rightarrow> bool) \<Rightarrow> memory \<times> u64 option \<Rightarrow> memory \<times> u64 option \<Rightarrow> bool"
  for ep :: "memory \<Rightarrow> u64" and busy :: "memory \<Rightarrow> bool" where
  lock: "\<not> busy m \<Longrightarrow> busy m' \<Longrightarrow> ep m' = ep m \<Longrightarrow> writer_step ep busy (m, None) (m', Some (ep m))"
| "write": "busy m \<Longrightarrow> busy m' \<Longrightarrow> ep m \<le> ep m' \<Longrightarrow> writer_step ep busy (m, Some e) (m', Some e)"
| unlock: "busy m \<Longrightarrow> \<not> busy m' \<Longrightarrow> ep m \<le> ep m' \<Longrightarrow> e < ep m' \<Longrightarrow> writer_step ep busy (m, Some e) (m', None)"

inductive_cases writer_step_idleE: "writer_step ep busy (m, None) s"
inductive_cases writer_step_busyE: "writer_step ep busy (m, Some e) s"

text \<open>A history in which any number of writer steps happens between two instants.\<close>

definition writer_inv :: "(memory \<Rightarrow> u64) \<Rightarrow> (memory \<Rightarrow> bool) \<Rightarrow> memory \<times> u64 option \<Rightarrow> bool" where
  "writer_inv ep busy s \<longleftrightarrow> (snd s = None \<longleftrightarrow> \<not> busy (fst s)) \<and> (\<forall>e. snd s = Some e \<longrightarrow> e \<le> ep (fst s))"

definition writer_history :: "(memory \<Rightarrow> u64) \<Rightarrow> (memory \<Rightarrow> bool) \<Rightarrow> history \<Rightarrow> bool" where
  "writer_history ep busy H \<longleftrightarrow>
     (\<exists>g. writer_inv ep busy (H 0, g 0) \<and>
        (\<forall>t. (writer_step ep busy)\<^sup>*\<^sup>* (H t, g t) (H (Suc t), g (Suc t))))"

lemma writer_step_inv: "writer_step ep busy s s' \<Longrightarrow> writer_inv ep busy s \<Longrightarrow> writer_inv ep busy s'"
  by (induction rule: writer_step.induct) (auto simp: writer_inv_def)

lemma writer_steps_inv: "(writer_step ep busy)\<^sup>*\<^sup>* s s' \<Longrightarrow> writer_inv ep busy s \<Longrightarrow> writer_inv ep busy s'"
  by (induction rule: rtranclp_induct) (auto intro: writer_step_inv)

text \<open>Once an update has begun, the memory is busy or of a later epoch than before.\<close>

definition moved_on :: "(memory \<Rightarrow> u64) \<Rightarrow> u64 \<Rightarrow> memory \<times> u64 option \<Rightarrow> bool" where
  "moved_on ep e0 s \<longleftrightarrow> (case snd s of None \<Rightarrow> e0 < ep (fst s) | Some e \<Rightarrow> e0 \<le> e \<and> e \<le> ep (fst s))"

lemma moved_on_step: "writer_step ep busy s s' \<Longrightarrow> moved_on ep e0 s \<Longrightarrow> moved_on ep e0 s'"
  by (induction rule: writer_step.induct) (auto simp: moved_on_def)

lemma moved_on_steps: "(writer_step ep busy)\<^sup>*\<^sup>* s s' \<Longrightarrow> moved_on ep e0 s \<Longrightarrow> moved_on ep e0 s'"
  by (induction rule: rtranclp_induct) (auto intro: moved_on_step)

lemma writer_steps_from_rest:
  assumes "(writer_step ep busy)\<^sup>*\<^sup>* (m, None) s"
  shows "s = (m, None) \<or> moved_on ep (ep m) s"
  using assms
proof (induction rule: rtranclp_induct)
  case (step s s')
  from step.IH show ?case
  proof
    assume "s = (m, None)"
    with step.hyps(2) show ?thesis by (auto elim!: writer_step_idleE simp: moved_on_def)
  next
    assume "moved_on ep (ep m) s"
    with step.hyps(2) show ?thesis by (blast intro: moved_on_step)
  qed
qed simp

lemma writer_history_steps:
  assumes "\<forall>t. (writer_step ep busy)\<^sup>*\<^sup>* (H t, g t) (H (Suc t), g (Suc t))" "s \<le> (t :: nat)"
  shows "(writer_step ep busy)\<^sup>*\<^sup>* (H s, g s) (H t, g t)"
  using assms(2)
proof (induction t rule: dec_induct)
  case (step n)
  with assms(1) show ?case by (meson rtranclp_trans)
qed simp

text \<open>Between two instants of rest with the same epoch nothing changed.\<close>

lemma writer_history_rest:
  assumes h: "writer_history ep busy H" and "s \<le> u" "u \<le> t"
    and "\<not> busy (H s)" "\<not> busy (H t)" "ep (H t) = ep (H s)"
  shows "H u = H s"
proof -
  from h obtain g where g: "\<forall>t. (writer_step ep busy)\<^sup>*\<^sup>* (H t, g t) (H (Suc t), g (Suc t))"
    and i0: "writer_inv ep busy (H 0, g 0)"
    unfolding writer_history_def by blast
  have inv: "writer_inv ep busy (H n, g n)" for n
    using writer_steps_inv [OF writer_history_steps [OF g, of 0 n] i0] by simp
  with assms(4,5) have gs: "g s = None" and gt: "g t = None" by (auto simp: writer_inv_def)
  have "\<not> moved_on ep (ep (H s)) (H t, g t)" using gt assms(6) by (simp add: moved_on_def)
  then have "\<not> moved_on ep (ep (H s)) (H u, g u)"
    using moved_on_steps writer_history_steps [OF g assms(3)] by blast
  with writer_steps_from_rest [of ep busy "H s" "(H u, g u)"] writer_history_steps [OF g assms(2)] gs
  show ?thesis by auto
qed

lemma writer_steps_mono: "(writer_step ep busy)\<^sup>*\<^sup>* s s' \<Longrightarrow> ep (fst s) \<le> ep (fst s')"
proof (induction rule: rtranclp_induct)
  case (step y z)
  from step.hyps(2) have "ep (fst y) \<le> ep (fst z)" by (cases rule: writer_step.cases) auto
  with step.IH show ?case by simp
qed simp

lemma writer_history_mono: "writer_history ep busy H \<Longrightarrow> s \<le> t \<Longrightarrow> ep (H s) \<le> ep (H t)"
proof -
  assume h: "writer_history ep busy H" and "s \<le> t"
  from h obtain g where "\<forall>t. (writer_step ep busy)\<^sup>*\<^sup>* (H t, g t) (H (Suc t), g (Suc t))"
    unfolding writer_history_def by blast
  from writer_steps_mono [OF writer_history_steps [OF this \<open>s \<le> t\<close>]] show ?thesis by simp
qed

lemma map_sum_Inr_iff: "map_sum f g r = Inr y \<longleftrightarrow> (\<exists>x. r = Inr x \<and> y = g x)"
  by (cases r) auto

section \<open>Segment handlers\<close>

text \<open>
  A handler whose operations are local and whose \<open>GetEpoch\<close> reads the epoch at its \<open>k\<close>-th instant and
  the mark of an update one instant later.
\<close>

locale stat_segment =
  fixes api :: seg_api and ep :: "memory \<Rightarrow> u64" and busy :: "memory \<Rightarrow> bool" and k d :: nat
  assumes local_vector: "local_access (GetDirectoryVector api)"
    and local_dir: "local_access (GetStatDirOnIndex api v i)"
    and local_copy: "local_access (CopyEntryData api e j)"
    and local_update: "local_access (UpdateEntryData api e st)"
    and GetEpoch_run: "run_state (GetEpoch api H) (t, p) = ((ep (H (t + k)), busy (H (Suc (t + k)))), (t + d, p))"
    and k_less: "Suc k < d"
begin

lemma local_epoch: "local_access (GetEpoch api)"
proof (rule local_accessI)
  fix H t p
  have "run_state (GetEpoch api H') (t', p) = ((ep (H (t + k)), busy (H (Suc (t + k)))), (t' + d, p))"
    if "\<forall>u<d. H' (t' + u) = H (t + u)" for H' t'
    using that [rule_format, of k] that [rule_format, of "Suc k"] k_less by (simp add: GetEpoch_run)
  with GetEpoch_run [of H t p] show "\<exists>x n p'. run_state (GetEpoch api H) (t, p) = (x, (t + n, p')) \<and> (p \<longrightarrow> p') \<and>
      (\<forall>H' t'. (\<forall>u<n. H' (t' + u) = H (t + u)) \<longrightarrow> run_state (GetEpoch api H') (t', p) = (x, (t' + n, p')))"
    by blast
qed

text \<open>A non-zero result of \<open>accessStart\<close> is the epoch of an instant just before a moment of rest.\<close>

lemma accessStart_rest:
  assumes "run_state (accessStart api polls H) (t, p) = (e, (t', p'))" "e \<noteq> 0"
  shows "\<exists>s. t \<le> s \<and> Suc s < t' \<and> e = ep (H s) \<and> \<not> busy (H (Suc s)) \<and> p' = p"
  using assms
proof (induction polls arbitrary: t p)
  case 0
  then show ?case using k_less by (intro exI [of _ "t + k"]) (auto simp: GetEpoch_run split: if_splits)
next
  case (Suc polls)
  show ?case
  proof (cases "busy (H (Suc (t + k)))")
    case True
    with Suc.prems Suc.IH [of "t + d" p] show ?thesis by (auto simp: GetEpoch_run intro: add_leD1)
  next
    case False
    with Suc.prems k_less show ?thesis by (intro exI [of _ "t + k"]) (auto simp: GetEpoch_run)
  qed
qed

lemma finish_Inr:
  assumes "run_state (finish api e r H) (t, p) = (Inr x, (t', p'))"
  shows "r = Inr x \<and> t' = t + d \<and> p' = p \<and> ep (H (t + k)) = e \<and> \<not> busy (H (Suc (t + k)))"
  using assms by (auto simp: finish_def accessEnd_def readErr_def GetEpoch_run split: sum.splits if_splits)

text \<open>
  The heart of the protocol: a result was computed from a single snapshot at rest, provided that no
  update ended between the last two reads.
\<close>

lemma bracketed_snapshot:
  assumes h: "writer_history ep busy H"
    and body: "local_access (body api)"
    and r: "run_state (bracketed polls body api H) (t, False) = (Inr (e, x), (t', False))"
    and race: "ep (H (Suc (t' - d + k))) = ep (H (t' - d + k))"
  shows "\<exists>s. t \<le> s \<and> s < t' \<and> \<not> busy (H s) \<and> ep (H s) = e \<and> on_snapshot (body api) (H s) = Some (Inr x)"
proof -
  obtain e1 t1 p1 where st: "run_state (accessStart api polls H) (t, False) = (e1, (t1, p1))" by (metis surj_pair)
  from r st have e1: "e1 \<noteq> 0" by (auto simp: bracketed_def)
  from accessStart_rest [OF st e1] obtain s where s: "t \<le> s" "Suc s < t1" "e1 = ep (H s)" "\<not> busy (H (Suc s))" "p1 = False"
    by blast
  obtain y t2 p2 where b: "run_state (body api H) (t1, False) = (y, (t2, p2))" by (metis surj_pair)
  from r st e1 b s(5)
  have f: "run_state (finish api e1 (case y of Inl e \<Rightarrow> Inl e | Inr x \<Rightarrow> Inr (e1, x)) H) (t2, p2) = (Inr (e, x), (t', False))"
    by (simp add: bracketed_def)
  from finish_Inr [OF f] have y: "y = Inr x" "e = e1" "t' = t2 + d" "\<not> p2" "ep (H (t2 + k)) = e1"
    "\<not> busy (H (Suc (t2 + k)))" by (auto split: sum.splits)
  have t12: "t1 \<le> t2" by (rule local_accessD_time [OF body b])
  let ?e = "Suc (t2 + k)"
  have epe: "ep (H ?e) = e1" using race y(3,5) by simp
  have mono: "ep (H s) \<le> ep (H (Suc s)) \<and> ep (H (Suc s)) \<le> ep (H ?e)"
    using writer_history_mono [OF h] s(2) t12 by simp
  then have eps: "ep (H ?e) = ep (H (Suc s))" using epe s(3) by (auto intro: order.antisym)
  have same: "H u = H (Suc s)" if "Suc s \<le> u" "u \<le> ?e" for u
    by (rule writer_history_rest [OF h that s(4) y(6) eps])
  have "on_snapshot (body api) (H (Suc s)) = Some (Inr x)"
  proof (rule local_snapshot [OF body])
    show "run_state (body api H) (t1, False) = (Inr x, (t2, False))" using b y(1,4) by simp
    show "H u = H (Suc s)" if "t1 \<le> u" "u < t2" for u by (rule same) (use that s(2) in simp_all)
  qed
  moreover have "t \<le> Suc s" "Suc s < t'"
    using s(1,2) t12 y(3) by linarith+
  moreover have "ep (H (Suc s)) = e"
    using eps epe y(2) by metis
  ultimately show ?thesis using s(4) by blast
qed

text \<open>Listing and reading entries is local.\<close>

lemmas handler_local = local_vector local_dir local_copy local_update local_epoch

lemma local_read_view: "local_access (read_view nv)"
  unfolding read_view_def by (intro local_intros)

lemma local_name_matches: "local_access (name_matches rs nv)"
proof (induction rs)
  case Nil
  show ?case by (rule local_cong [OF name_matches.simps(1)]) (intro local_intros)
next
  case (Cons r rs)
  show ?case by (rule local_cong [OF name_matches.simps(2)]) (intro local_intros local_read_view Cons.IH)
qed

lemma local_listIndexes_from: "local_access (listIndexes_from api v f i n)"
proof (induction n arbitrary: i)
  case 0
  show ?case by (rule local_cong [OF listIndexes_from.simps(1)]) (intro local_intros)
next
  case (Suc n)
  show ?case
    by (rule local_cong [OF listIndexes_from.simps(2)])
      (intro local_intros handler_local local_name_matches Suc.IH)
qed

lemma local_listIndexes: "local_access (listIndexes api compile v ps)"
proof -
  have f: "local_access (listIndexesFunc api v f)" for f
    unfolding listIndexesFunc_def by (intro local_intros local_listIndexes_from)
  show ?thesis unfolding listIndexes_def by (intro local_intros f)
qed

lemma local_entries_loop: "local_access (entries_loop api v n is)"
proof (induction "is")
  case Nil
  show ?case by (rule local_cong [OF entries_loop.simps(1)]) (intro local_intros)
next
  case (Cons x xs)
  show ?case by (rule local_cong [OF entries_loop.simps(2)]) (intro local_intros handler_local Cons.IH)
qed

lemma local_identifiers_loop: "local_access (identifiers_loop api v n is)"
proof (induction "is")
  case Nil
  show ?case by (rule local_cong [OF identifiers_loop.simps(1)]) (intro local_intros)
next
  case (Cons x xs)
  show ?case by (rule local_cong [OF identifiers_loop.simps(2)]) (intro local_intros handler_local Cons.IH)
qed

lemma local_on_index: "local_access (getStatEntriesOnIndex api v is)"
  unfolding getStatEntriesOnIndex_def by (intro local_intros local_entries_loop)

lemma local_ids_on_index: "local_access (getIdentifierEntriesOnIndex api v is)"
  unfolding getIdentifierEntriesOnIndex_def by (intro local_intros local_identifiers_loop)

lemma local_getStatEntries: "local_access (getStatEntries api compile ps)"
  unfolding getStatEntries_def by (intro local_intros handler_local local_listIndexes local_on_index)

lemma local_getIdentifierEntries: "local_access (getIdentifierEntries api compile ps)"
  unfolding getIdentifierEntries_def by (intro local_intros handler_local local_listIndexes local_ids_on_index)

text \<open>The operations of the client on this handler.\<close>

lemma PrepareDir_time:
  assumes "sc_segment sc = Some api" "outcome (sc_PrepareDir sc compile polls ps H) t = Some (Inr dir, t')"
  shows "d \<le> t'"
proof -
  from assms obtain e x where
    r: "run_state (bracketed polls (\<lambda>api. getStatEntries api compile ps) api H) (t, False) = (Inr (e, x), (t', False))"
    by (auto simp: sc_PrepareDir_def on_segment_def outcome_def map_sum_Inr_iff
        split: prod.splits if_splits sum.splits option.splits)
  then show ?thesis
    by (auto simp: bracketed_def split: prod.splits if_splits dest!: finish_Inr)
qed

lemma PrepareDir_snapshot:
  assumes "writer_history ep busy H" "sc_segment sc = Some api"
    and "outcome (sc_PrepareDir sc compile polls ps H) t = Some (Inr dir, t')"
    and "ep (H (Suc (t' - d + k))) = ep (H (t' - d + k))"
  shows "\<exists>s. t \<le> s \<and> s < t' \<and> \<not> busy (H s) \<and> ep (H s) = cd_Epoch dir \<and>
    on_snapshot (getStatEntries api compile ps) (H s) = Some (Inr (cd_Entries dir))"
proof -
  from assms(2,3) obtain e x where
    "run_state (bracketed polls (\<lambda>api. getStatEntries api compile ps) api H) (t, False) = (Inr (e, x), (t', False))"
    "dir = \<lparr>cd_Epoch = e, cd_Entries = x\<rparr>"
    by (auto simp: sc_PrepareDir_def on_segment_def outcome_def map_sum_Inr_iff
        split: prod.splits if_splits sum.splits option.splits)
  with bracketed_snapshot [OF assms(1) local_getStatEntries this(1) assms(4)] show ?thesis by simp
qed

lemma ListStats_snapshot:
  assumes "writer_history ep busy H" "sc_segment sc = Some api"
    and "outcome (sc_ListStats sc compile polls ps H) t = Some (Inr ids, t')"
    and "ep (H (Suc (t' - d + k))) = ep (H (t' - d + k))"
  shows "\<exists>s. t \<le> s \<and> s < t' \<and> \<not> busy (H s) \<and>
    on_snapshot (getIdentifierEntries api compile ps) (H s) = Some (Inr ids)"
proof -
  from assms(2,3) obtain e where
    "run_state (bracketed polls (\<lambda>api. getIdentifierEntries api compile ps) api H) (t, False) = (Inr (e, ids), (t', False))"
    by (auto simp: sc_ListStats_def on_segment_def outcome_def map_sum_Inr_iff
        split: prod.splits if_splits sum.splits option.splits)
  with bracketed_snapshot [OF assms(1) local_getIdentifierEntries this assms(4)] show ?thesis by auto
qed

end

text \<open>Both versions of the segment are handlers; they differ in when the epoch is read.\<close>

definition v2_epoch :: "segment \<Rightarrow> memory \<Rightarrow> u64" where
  "v2_epoch ss m = u64_at (seg_base ss + 16) m"

definition v2_busy :: "segment \<Rightarrow> memory \<Rightarrow> bool" where
  "v2_busy ss m \<longleftrightarrow> u64_at (seg_base ss + 24) m \<noteq> 0"

definition v1_epoch :: "segment \<Rightarrow> memory \<Rightarrow> u64" where
  "v1_epoch ss m = u64_at (seg_base ss + 8) m"

definition v1_busy :: "segment \<Rightarrow> memory \<Rightarrow> bool" where
  "v1_busy ss m \<longleftrightarrow> u64_at (seg_base ss + 16) m \<noteq> 0"

interpretation v2: stat_segment "statSegmentV2 ss" "v2_epoch ss" "v2_busy ss" 2 6 for ss
  by unfold_locales
    (simp_all add: statSegmentV2_def local_intros v2_GetEpoch_def v2_loadSharedHeader_def v2_epoch_def v2_busy_def)

interpretation v1: stat_segment "statSegmentV1 ss" "v1_epoch ss" "v1_busy ss" 1 6 for ss
  by unfold_locales
    (simp_all add: statSegmentV1_def local_intros v1_GetEpoch_def v1_loadSharedHeader_def v1_epoch_def v1_busy_def)

section \<open>What the client guarantees\<close>

text \<open>
  C4 (safety). A directory prepared from a version 2 segment is consistent: under the writer's
  discipline, its entries are what a read of one single snapshot of the segment gives, taken between
  the beginning and the end of the call while no update was in progress, and its epoch is the one of
  that snapshot. The exception is an update that ends between the last two reads of the call, which
  load the epoch first and the mark of the update after it.
\<close>

theorem PrepareDir_consistent:
  assumes "writer_history (v2_epoch ss) (v2_busy ss) H" "sc_segment sc = Some (statSegmentV2 ss)"
    and "outcome (sc_PrepareDir sc compile polls ps H) t = Some (Inr dir, t')"
    and "v2_epoch ss (H (t' - 3)) = v2_epoch ss (H (t' - 4))"
  shows "\<exists>s. t \<le> s \<and> s < t' \<and> \<not> v2_busy ss (H s) \<and> v2_epoch ss (H s) = cd_Epoch dir \<and>
    on_snapshot (getStatEntries (statSegmentV2 ss) compile ps) (H s) = Some (Inr (cd_Entries dir))"
proof -
  have "6 \<le> t'" by (rule v2.PrepareDir_time [OF assms(2,3)])
  then have "Suc (t' - 6 + 2) = t' - 3" "t' - 6 + 2 = t' - 4" by simp_all
  with v2.PrepareDir_snapshot [OF assms(1-3)] assms(4) show ?thesis by simp
qed

text \<open>A segment at rest with one scalar, named x, of value 7.\<close>

definition ex_memory :: memory where
  "ex_memory a =
     (if a = 4096 then 2 else if a = 4105 then 16 else if a = 4112 then 1 else if a = 4129 then 17
      else if a = 4344 then 1 else if a = 4352 then 1 else if a = 4360 then 7 else if a = 4368 then 120 else 0)"

definition ex_stats_client :: StatsClient where
  "ex_stats_client = NewStatsClient\<lparr>sc_connected := True, sc_segment := Some (statSegmentV2 \<lparr>seg_base = 4096, seg_len = 4096\<rparr>)\<rparr>"

lemma ex_memory_values:
  "u64_at 4096 ex_memory = 2" "u64_at 4104 ex_memory = 4096" "u64_at 4112 ex_memory = 1" "u64_at 4120 ex_memory = 0"
  "u64_at 4128 ex_memory = 4352" "u64_at 4136 ex_memory = 0" "u64_at 4344 ex_memory = 1" "u32_at 4352 ex_memory = 1"
  "u64_at 4360 ex_memory = 7" "u8_at 4368 ex_memory = 120" "u8_at 4369 ex_memory = 0"
  by code_simp+

definition ex_dir :: client_dir where
  "ex_dir = \<lparr>cd_Epoch = 1, cd_Entries = [\<lparr>ce_Index = 0, ce_Name = \<lparr>nv_addr = 4368, nv_len = 1\<rparr>,
     ce_Type = Some ScalarIndex, ce_Data = Some (ScalarStat (u64_to_float 7)), ce_Symlink = False\<rparr>]\<rparr>"

lemma ex_header: "run_state (v2_loadSharedHeader \<lparr>seg_base = 4096, seg_len = 4096\<rparr> (\<lambda>_. ex_memory)) (t, p) =
    (\<lparr>h2_version = 2, h2_base = 4096, h2_epoch = 1, h2_inProgress = 0, h2_dirVector = 4352, h2_errorVector = 0\<rparr>, (t + 6, p))"
  by (simp add: v2_loadSharedHeader_def ex_memory_values)

abbreviation ex_api :: seg_api where
  "ex_api \<equiv> statSegmentV2 \<lparr>seg_base = 4096, seg_len = 4096\<rparr>"

lemma ex_type: "run_state (v2_entry_type \<lparr>seg_base = 4096, seg_len = 4096\<rparr> 4352 (\<lambda>_. ex_memory)) (t, p) = (ScalarIndex, (t + 13, p))"
  by (simp add: v2_entry_type_def v2_getErrorVector_def adjust_val_def adjust_ptr_def ex_header ex_memory_values
      getStatType_def dirTypeMapping_def)

lemma ex_name: "run_state (dir_name 4368 (\<lambda>_. ex_memory)) (t, p) = (\<lparr>nv_addr = 4368, nv_len = 1\<rparr>, (t + 2, p))"
proof -
  have n: "128 = Suc (Suc 126)" by simp
  show ?thesis unfolding dir_name_def n name_scan.simps by (simp add: ex_memory_values)
qed

lemma ex_stat_dir: "run_state (GetStatDirOnIndex ex_api 4352 0 (\<lambda>_. ex_memory)) (t, p) =
    ((4352, \<lparr>nv_addr = 4368, nv_len = 1\<rparr>, ScalarIndex), (t + 15, p))"
  by (simp add: statSegmentV2_def v2_GetStatDirOnIndex_def ex_name ex_type)

lemma ex_copy: "run_state (CopyEntryData ex_api 4352 i (\<lambda>_. ex_memory)) (t, p) =
    (Some (ScalarStat (u64_to_float 7)), (t + 14, p))"
proof -
  have n: "symlink_fuel = Suc 63" by (simp add: symlink_fuel_def)
  have "CopyEntryData ex_api = v2_CopyEntryData \<lparr>seg_base = 4096, seg_len = 4096\<rparr>"
    by (simp add: statSegmentV2_def)
  then show ?thesis
    unfolding v2_CopyEntryData_def n v2_copy_entry.simps by (simp add: ex_type ex_memory_values)
qed

lemma ex_epoch: "run_state (GetEpoch ex_api (\<lambda>_. ex_memory)) (t, p) = ((1, False), (t + 6, p))"
  by (simp add: statSegmentV2_def v2_GetEpoch_def ex_header)

lemma ex_vector: "run_state (GetDirectoryVector ex_api (\<lambda>_. ex_memory)) (t, p) = (Some 4352, (t + 12, p))"
  by (simp add: statSegmentV2_def v2_GetDirectoryVector_def adjust_val_def adjust_ptr_def ex_header)

lemma ex_prepare: "\<exists>t'. outcome (sc_PrepareDir ex_stats_client compile 0 [] (\<lambda>_. ex_memory)) 0 = Some (Inr ex_dir, t')"
  by (simp add: sc_PrepareDir_def on_segment_def bracketed_def ex_stats_client_def NewStatsClient_def
      ex_epoch ex_vector outcome_def getStatEntries_def listIndexes_def listIndexesFunc_def vec_len_def ex_memory_values
      ex_stat_dir ex_copy getStatEntriesOnIndex_def finish_def accessEnd_def ex_dir_def)

theorem PrepareDir_consistent_witness:
  "\<exists>t'. outcome (sc_PrepareDir ex_stats_client (\<lambda>_. Inr (\<lambda>_. True)) 0 [] (\<lambda>_. ex_memory)) 0 = Some (Inr ex_dir, t') \<and>
     on_snapshot (getStatEntries ex_api (\<lambda>_. Inr (\<lambda>_. True)) []) ex_memory = Some (Inr (cd_Entries ex_dir))"
proof -
  obtain t' where o': "outcome (sc_PrepareDir ex_stats_client (\<lambda>_. Inr (\<lambda>_. True)) 0 [] (\<lambda>_. ex_memory)) 0 = Some (Inr ex_dir, t')"
    using ex_prepare by blast
  let ?ss = "\<lparr>seg_base = 4096, seg_len = 4096\<rparr>"
  have "writer_history (v2_epoch ?ss) (v2_busy ?ss) (\<lambda>_. ex_memory)"
    unfolding writer_history_def
    by (intro exI [of _ "\<lambda>_. None"]) (simp add: writer_inv_def v2_busy_def ex_memory_values)
  moreover have "sc_segment ex_stats_client = Some ex_api" by (simp add: ex_stats_client_def)
  ultimately show ?thesis using PrepareDir_consistent [OF _ _ o'] o' by blast
qed

text \<open>
  The check at the end of a read does not notice an update that ends while the header
  is read: when the epoch has not moved yet as it is loaded, and the mark is gone as it is loaded one
  instant later, the check succeeds, although the memory was being changed until then.
\<close>

theorem accessEnd_race:
  assumes "v2_epoch ss (H (t + 2)) = e" "\<not> v2_busy ss (H (t + 3))"
  shows "outcome (accessEnd (statSegmentV2 ss) e H) t = Some (True, t + 6)"
proof -
  have "Suc (t + 2) = t + 3" by simp
  then have "run_state (GetEpoch (statSegmentV2 ss) H) (t, False) =
      ((v2_epoch ss (H (t + 2)), v2_busy ss (H (t + 3))), (t + 6, False))"
    using v2.GetEpoch_run [of ss H t False] by (simp only:)
  with assms show ?thesis by (simp add: accessEnd_def outcome_def)
qed

text \<open>An update that began in epoch 1 and ends between the instants 2 and 3.\<close>

definition ex_segment :: segment where
  "ex_segment = \<lparr>seg_base = 4096, seg_len = 4096\<rparr>"

definition ex_busy :: memory where
  "ex_busy a = (if a = 4112 \<or> a = 4120 then 1 else 0)"

definition ex_rest :: memory where
  "ex_rest a = (if a = 4112 then 2 else 0)"

definition ex_race :: history where
  "ex_race t = (if t \<le> 2 then ex_busy else ex_rest)"

lemma ex_race_values:
  "v2_epoch ex_segment ex_busy = 1" "v2_busy ex_segment ex_busy"
  "v2_epoch ex_segment ex_rest = 2" "\<not> v2_busy ex_segment ex_rest"
  by code_simp+

lemma ex_race_history: "writer_history (v2_epoch ex_segment) (v2_busy ex_segment) ex_race"
proof -
  let ?g = "\<lambda>t :: nat. if t \<le> 2 then Some 1 else None"
  let ?W = "writer_step (v2_epoch ex_segment) (v2_busy ex_segment)"
  have u: "?W (ex_busy, Some 1) (ex_rest, None)"
    by (rule writer_step.unlock) (simp_all add: ex_race_values)
  have "?W\<^sup>*\<^sup>* (ex_race t, ?g t) (ex_race (Suc t), ?g (Suc t))" for t
  proof -
    consider "Suc t \<le> 2" | "t = 2" | "2 < t" by linarith
    then show ?thesis
    proof cases
      case 2
      with u show ?thesis by (simp add: ex_race_def r_into_rtranclp)
    qed (simp_all add: ex_race_def)
  qed
  moreover have "writer_inv (v2_epoch ex_segment) (v2_busy ex_segment) (ex_race 0, ?g 0)"
    by (simp add: writer_inv_def ex_race_def ex_race_values)
  ultimately show ?thesis unfolding writer_history_def by (intro exI [of _ ?g]) blast
qed

theorem accessEnd_race_witness:
  "writer_history (v2_epoch ex_segment) (v2_busy ex_segment) ex_race \<and>
     v2_busy ex_segment (ex_race 2) \<and> v2_epoch ex_segment (ex_race 3) = 2 \<and>
     outcome (accessEnd (statSegmentV2 ex_segment) 1 ex_race) 0 = Some (True, 6)"
  using accessEnd_race [of ex_segment ex_race 0 1] ex_race_history
  by (simp add: ex_race_def ex_race_values)

section \<open>Entries reached through symlinks\<close>

lemma snap_name_scan: "\<exists>r. on_snapshot (name_scan a n k) m = Some r"
proof (induction k arbitrary: n)
  case 0
  show ?case by (simp add: name_scan.simps [abs_def] on_snapshot_return)
next
  case (Suc k)
  show ?case using Suc.IH [of "Suc n"]
    by (auto simp: name_scan.simps [abs_def] on_snapshot_bind local_intros snapshot_simps)
qed

lemma snap_dir_name: "\<exists>nm. on_snapshot (dir_name a) m = Some nm"
  using snap_name_scan [of a 0 128 m]
  by (auto simp: dir_name_def [abs_def] on_snapshot_bind local_intros snapshot_simps)

lemma snap_stat_dir:
  "\<exists>nm. on_snapshot (GetStatDirOnIndex (statSegmentV2 ss) v i) m =
     Some (v + ucast i * 144, nm, type_in ss m (v + ucast i * 144))"
  using snap_dir_name [of "v + ucast i * 144 + 16" m]
  by (auto simp: statSegmentV2_def v2_GetStatDirOnIndex_def [abs_def] Let_def on_snapshot_bind local_intros snapshot_simps)

lemma snap_read_view:
  "on_snapshot (read_view nv) m = Some (map (\<lambda>i. u8_at (nv_addr nv + word_of_nat i) m) [0..<nv_len nv])"
  unfolding read_view_def
  by (subst on_snapshot_traverse [OF local_load]) (rule map_panics_Some, rule on_snapshot_load)

text \<open>
  The entry of a symlink carries the type of the counters it stands for, which is
  not the type its directory entry has: updating it changes nothing and reports no error, whatever
  the counters are now.
\<close>

theorem symlink_never_refreshed:
  assumes "on_snapshot (entries_loop (statSegmentV2 ss) v n [i]) m = Some (Inr [e])"
    and "type_in ss m (v + ucast i * 144) = SymlinkType" "ce_Data e \<noteq> None"
    and "type_in ss m' (v + ucast i * 144) = SymlinkType" "i < ucast (u64_at (v - 8) m')"
  shows "on_snapshot (updateStatOnIndex (statSegmentV2 ss) e v) m' = Some (None, e)"
proof -
  have l: "local_access (GetStatDirOnIndex (statSegmentV2 ss) v i)" "local_access (CopyEntryData (statSegmentV2 ss) p j)" for p j
    by (rule v2.handler_local)+
  have e: "ce_Index e = i \<and> ce_Type e = map_option Stat_Type (ce_Data e)"
    using assms(1)
    by (auto simp: entries_loop.simps [abs_def] on_snapshot_bind local_intros l snapshot_simps
        split: if_splits prod.splits Option.bind_splits)
  obtain nm where "on_snapshot (GetStatDirOnIndex (statSegmentV2 ss) v i) m' = Some (v + ucast i * 144, nm, SymlinkType)"
    using snap_stat_dir [of ss v i m'] assms(4) by auto
  moreover obtain d where "ce_Data e = Some d" using assms(3) by blast
  moreover have "SymlinkType \<noteq> Stat_Type d" by (cases d) simp_all
  ultimately show ?thesis
    using assms(5) e unfolding updateStatOnIndex_def
    by (simp add: on_snapshot_bind local_intros l v2.handler_local v2.local_read_view snapshot_simps snap_read_view not_le)
qed

text \<open>A directory of two entries: a symlink, named x, to item 0 of the second, a scalar of value 7.\<close>

definition link_memory :: memory where
  "link_memory a =
     (if a = 4105 then 16 else if a = 4129 then 32 else if a = 8184 then 2 else if a = 8192 then 6
      else if a = 8200 then 1 else if a = 8208 then 120 else if a = 8336 then 1 else if a = 8344 then 7 else 0)"

lemma link_memory_values:
  "u64_at 4096 link_memory = 0" "u64_at 4104 link_memory = 4096" "u64_at 4112 link_memory = 0" "u64_at 4120 link_memory = 0"
  "u64_at 4128 link_memory = 8192" "u64_at 4136 link_memory = 0" "u64_at 8184 link_memory = 2"
  "u32_at 8192 link_memory = 6" "u64_at 8200 link_memory = 1" "u8_at 8208 link_memory = 120" "u8_at 8209 link_memory = 0"
  "u32_at 8336 link_memory = 1" "u64_at 8344 link_memory = 7"
  by code_simp+

lemma link_types:
  "type_in seg_example link_memory 8192 = SymlinkType" "type_in seg_example link_memory 8336 = ScalarIndex"
  by (simp_all add: type_in_def header_in_def ptr_in_def adjust_ptr_def seg_example_def link_memory_values getStatType_def
      dirTypeMapping_def)

lemma link_name: "on_snapshot (dir_name 8208) link_memory = Some \<lparr>nv_addr = 8208, nv_len = 1\<rparr>"
proof -
  have "on_snapshot (name_scan 8208 0 (Suc (Suc k))) link_memory = Some (Some 1)" for k
    by (simp add: name_scan.simps(2) [abs_def] on_snapshot_bind local_intros snapshot_simps link_memory_values)
  from this [of 126] show ?thesis
    by (simp add: dir_name_def [abs_def] on_snapshot_bind local_intros snapshot_simps)
qed

lemma link_indexes: "on_snapshot (v2_getSymlinkIndexes 8192) link_memory = Some (1, 0)"
proof -
  have "le_bytes 8 (1 :: u64) = [1, 0, 0, 0, 0, 0, 0, 0]" by code_simp
  then show ?thesis
    by (simp add: v2_getSymlinkIndexes_def [abs_def] Let_def on_snapshot_bind local_intros snapshot_simps link_memory_values
        upt_rec)
qed

definition link_entry :: client_entry where
  "link_entry = \<lparr>ce_Index = 0, ce_Name = \<lparr>nv_addr = 8208, nv_len = 1\<rparr>, ce_Type = Some ScalarIndex,
     ce_Data = Some (ScalarStat (u64_to_float 7)), ce_Symlink = True\<rparr>"

lemma link_copy: "on_snapshot (v2_CopyEntryData seg_example 8192 no_index) link_memory = Some (Some (ScalarStat (u64_to_float 7)))"
proof -
  have h: "h2_dirVector (header_in seg_example link_memory) = 8192" "ptr_in seg_example link_memory 8192 = Some 8192"
    by (simp_all add: header_in_def seg_example_def link_memory_values ptr_in_def adjust_ptr_def)
  have "on_snapshot (v2_copy_entry (Suc (Suc k)) seg_example 8192 no_index) link_memory =
      Some (Some (ScalarStat (u64_to_float 7)))" for k
    by (simp add: v2_copy_entry.simps(2) [abs_def] on_snapshot_bind local_intros snapshot_simps link_types link_indexes
        link_memory_values h)
  from this [of 62] show ?thesis by (simp add: v2_CopyEntryData_def [abs_def] symlink_fuel_def)
qed

lemma link_entries: "on_snapshot (entries_loop (statSegmentV2 seg_example) 8192 2 [0]) link_memory = Some (Inr [link_entry])"
  by (simp add: entries_loop.simps [abs_def] statSegmentV2_def v2_GetStatDirOnIndex_def [abs_def] Let_def on_snapshot_bind
      local_intros snapshot_simps link_name link_types link_copy link_entry_def)

lemma symlink_never_refreshed_witness:
  "on_snapshot (entries_loop (statSegmentV2 seg_example) 8192 2 [0]) link_memory = Some (Inr [link_entry]) \<and>
   on_snapshot (updateStatOnIndex (statSegmentV2 seg_example) link_entry 8192) link_memory = Some (None, link_entry)"
  using link_entries symlink_never_refreshed [OF link_entries, of link_memory]
  by (simp add: link_types link_memory_values link_entry_def)

end
