(* ===== verification/SharedRegion.thy ===== *)
theory SharedRegion
  imports GovppPrelude
begin

text \<open>
  The mapped memory regions of a shared-memory interface (\<open>extras/gomemif\<close>): a list of byte arrays,
  seen by both peers. Slice and index expressions on a region panic outside of its bounds.
  \<open>rd\<close> and \<open>wr\<close> are the reads and writes within bounds; every access of the program is one of them.
  Words are little-endian.
\<close>

type_synonym regions = "byte list list"

named_theorems mem_simps "reads after writes"

definition rd :: "regions \<Rightarrow> nat \<Rightarrow> nat \<Rightarrow> nat \<Rightarrow> byte list option" where
  "rd M r a n = (if r < length M \<and> a + n \<le> length (M ! r) then Some (take n (drop a (M ! r))) else None)"

definition wr :: "regions \<Rightarrow> nat \<Rightarrow> nat \<Rightarrow> byte list \<Rightarrow> regions option" where
  "wr M r a bs = (if r < length M \<and> a + length bs \<le> length (M ! r) then Some (M[r := put_at a bs (M ! r)]) else None)"

text \<open>Two stretches of memory that share no byte.\<close>

definition apart :: "nat \<times> nat \<times> nat \<Rightarrow> nat \<times> nat \<times> nat \<Rightarrow> bool" where
  "apart s s' = (case (s, s') of ((r, a, n), (r', a', n')) \<Rightarrow> r \<noteq> r' \<or> a + n \<le> a' \<or> a' + n' \<le> a)"

lemma apart_iff [simp]: "apart (r, a, n) (r', a', n') \<longleftrightarrow> r \<noteq> r' \<or> a + n \<le> a' \<or> a' + n' \<le> a"
  by (simp add: apart_def)

lemma rd_length: "rd M r a n = Some bs \<Longrightarrow> length bs = n"
  by (auto simp: rd_def split: if_splits)

lemma take_drop_put_at_before:
  assumes "b + n \<le> a" "a \<le> length xs"
  shows "take n (drop b (put_at a ys xs)) = take n (drop b xs)"
proof (rule nth_equalityI)
  show "length (take n (drop b (put_at a ys xs))) = length (take n (drop b xs))"
    using assms by (simp add: put_at_def)
  show "take n (drop b (put_at a ys xs)) ! i = take n (drop b xs) ! i" if "i < length (take n (drop b (put_at a ys xs)))" for i
    using that assms by (simp add: put_at_def nth_append)
qed

lemma take_drop_put_at_after:
  "a + length ys \<le> b \<Longrightarrow> a + length ys \<le> length xs \<Longrightarrow> drop b (put_at a ys xs) = drop b xs"
  unfolding put_at_def by simp

lemma rd_wr_same:
  assumes "wr M r a bs = Some M'"
  shows "rd M' r a (length bs) = Some bs"
  using assms by (auto simp: rd_def wr_def split: if_splits)

lemma rd_wr_other:
  assumes "wr M r a bs = Some M'" "apart (r, a, length bs) (r', b, n)"
  shows "rd M' r' b n = rd M r' b n"
  using assms
  by (auto simp: rd_def wr_def nth_list_update take_drop_put_at_before take_drop_put_at_after split: if_splits)

lemma wr_sizes: "wr M r a bs = Some M' \<Longrightarrow> map length M' = map length M"
  by (auto simp: wr_def map_update split: if_splits intro!: list_update_same_conv [THEN iffD2])

text \<open>Whether an access is within bounds depends on the sizes only.\<close>

definition inside :: "nat list \<Rightarrow> nat \<times> nat \<times> nat \<Rightarrow> bool" where
  "inside sizes s = (case s of (r, a, n) \<Rightarrow> r < length sizes \<and> a + n \<le> sizes ! r)"

lemma inside_iff: "inside sizes (r, a, n) \<longleftrightarrow> r < length sizes \<and> a + n \<le> sizes ! r"
  by (simp add: inside_def)

lemma inside_map [simp]: "inside (map length M) (r, a, n) \<longleftrightarrow> r < length M \<and> a + n \<le> length (M ! r)"
  by (auto simp: inside_iff)

lemma rd_inside: "rd M r a n \<noteq> None \<longleftrightarrow> inside (map length M) (r, a, n)"
  by (auto simp: rd_def)

lemma wr_inside: "wr M r a bs \<noteq> None \<longleftrightarrow> inside (map length M) (r, a, length bs)"
  by (auto simp: wr_def)

lemma rdE:
  assumes "inside (map length M) (r, a, n)"
  obtains bs where "rd M r a n = Some bs" "length bs = n"
  using assms rd_inside [of M r a n] rd_length by blast

lemma wrE:
  assumes "inside (map length M) (r, a, length bs)"
  obtains M' where "wr M r a bs = Some M'" "map length M' = map length M" "rd M' r a (length bs) = Some bs"
    "\<And>r' b n. apart (r, a, length bs) (r', b, n) \<Longrightarrow> rd M' r' b n = rd M r' b n"
  using assms wr_inside [of M r a bs] wr_sizes rd_wr_same rd_wr_other by (metis option.exhaust)

text \<open>Parts of a stretch.\<close>

lemma rd_part:
  assumes "rd M r a n = Some bs" "i + k \<le> n"
  shows "rd M r (a + i) k = Some (take k (drop i bs))"
proof -
  have "take k (drop (a + i) xs) = take k (drop i (take n (drop a xs)))" for xs :: "byte list"
    using assms(2) by (simp add: drop_take add.commute)
  with assms show ?thesis by (auto simp: rd_def split: if_splits)
qed

lemma rd_part_put:
  assumes "wr M r (a + i) ys = Some M'" "rd M r a n = Some bs" "i + length ys \<le> n"
  shows "rd M' r a n = Some (put_at i ys bs)"
proof -
  have "take n (drop a (put_at (a + i) ys xs)) = put_at i ys (take n (drop a xs))"
    if "a + n \<le> length xs" for xs :: "byte list"
  proof (rule nth_equalityI)
    show "length (take n (drop a (put_at (a + i) ys xs))) = length (put_at i ys (take n (drop a xs)))"
      using assms(3) that by simp
    show "take n (drop a (put_at (a + i) ys xs)) ! j = put_at i ys (take n (drop a xs)) ! j"
      if "j < length (take n (drop a (put_at (a + i) ys xs)))" for j
      using that assms(3) \<open>a + n \<le> length xs\<close> by (auto simp: put_at_def nth_append)
  qed
  with assms show ?thesis by (auto simp: rd_def wr_def split: if_splits)
qed

end
