(* ===== verification/MemifRing.thy ===== *)
theory MemifRing
  imports SharedRegion
begin

text \<open>
  The packet rings of a shared-memory interface (\<open>extras/gomemif/memif\<close>: memif.go, memif_unsafe.go,
  packet_reader.go, packet_writer.go). A ring lies in a region: a header of 128 bytes with the head
  and tail indices, and an array of descriptors of 16 bytes, each referring to a packet buffer. The
  regions are the shared memory; they are an argument of every operation and returned by those that
  write. Go's \<open>int\<close> is \<open>int\<close>: the positions computed here are far below its bounds. A panic is \<open>None\<close>.
\<close>

section \<open>Descriptors\<close>

text \<open>A descriptor buffer: flags, region, length, offset, metadata.\<close>

type_synonym descBuf = "byte list"

definition descSize :: nat where "descSize = 16"
definition ringSize :: nat where "ringSize = 128"

definition newDescBuf :: descBuf where
  "newDescBuf = replicate descSize 0"

definition le_at :: "nat \<Rightarrow> nat \<Rightarrow> byte list \<Rightarrow> 'a::len word" where
  "le_at off n db = le_word (take n (drop off db))"

definition getFlags :: "descBuf \<Rightarrow> u16" where "getFlags db = le_at 0 2 db"
definition getRegion :: "descBuf \<Rightarrow> u16" where "getRegion db = le_at 2 2 db"
definition getLength :: "descBuf \<Rightarrow> u32" where "getLength db = le_at 4 4 db"
definition getOffset_desc :: "descBuf \<Rightarrow> u32" where "getOffset_desc db = le_at 8 4 db"
definition getMetadata :: "descBuf \<Rightarrow> u32" where "getMetadata db = le_at 12 4 db"

definition setFlags :: "u16 \<Rightarrow> descBuf \<Rightarrow> descBuf" where "setFlags v db = put_at 0 (le_bytes 2 v) db"
definition setRegion :: "u16 \<Rightarrow> descBuf \<Rightarrow> descBuf" where "setRegion v db = put_at 2 (le_bytes 2 v) db"
definition setLength :: "u32 \<Rightarrow> descBuf \<Rightarrow> descBuf" where "setLength v db = put_at 4 (le_bytes 4 v) db"
definition setOffset :: "u32 \<Rightarrow> descBuf \<Rightarrow> descBuf" where "setOffset v db = put_at 8 (le_bytes 4 v) db"
definition setMetadata :: "u32 \<Rightarrow> descBuf \<Rightarrow> descBuf" where "setMetadata v db = put_at 12 (le_bytes 4 v) db"

definition descFlagNext :: u16 where "descFlagNext = 1"

section \<open>Rings and queues\<close>

datatype ringType = ringTypeS2M | ringTypeM2S

record memif_ring =
  rg_type :: ringType
  rg_size :: int
  rg_log2Size :: int
  rg_region :: nat
  rg_rb :: "byte list"
  rg_offset :: int

record Queue =
  q_ring :: memif_ring
  lastHead :: u16
  lastTail :: u16
  interruptFd :: int

text \<open>The ring a master is told about; a shift by 64 or more gives 0.\<close>

definition shift1 :: "nat \<Rightarrow> int" where
  "shift1 k = sint (push_bit k 1 :: u64)"

definition newRing_master :: "nat \<Rightarrow> ringType \<Rightarrow> int \<Rightarrow> nat \<Rightarrow> memif_ring" where
  "newRing_master regionIndex t off log2RingSize =
     \<lparr>rg_type = t, rg_size = shift1 log2RingSize, rg_log2Size = int log2RingSize, rg_region = regionIndex,
      rg_rb = replicate ringSize 0, rg_offset = off\<rparr>"

record MemoryConfig =
  NumQueuePairs :: u16
  Log2RingSize :: byte
  PacketBufferSize :: u32

definition newRing :: "MemoryConfig \<Rightarrow> nat \<Rightarrow> ringType \<Rightarrow> int \<Rightarrow> memif_ring" where
  "newRing run regionIndex t ringIndex =
     (let rsize = shift1 (unat (Log2RingSize run)); rSize = int ringSize + int descSize * rsize;
          off = (if t = ringTypeS2M then 0 else uint (NumQueuePairs run) * rSize) in
      \<lparr>rg_type = t, rg_size = rsize, rg_log2Size = uint (Log2RingSize run), rg_region = regionIndex,
       rg_rb = replicate ringSize 0, rg_offset = off + ringIndex * rSize\<rparr>)"

text \<open>The buffered header of a ring.\<close>

definition getCookie :: "memif_ring \<Rightarrow> int" where "getCookie r = uint (le_at 0 4 (rg_rb r) :: u32)"
definition ring_getFlags :: "memif_ring \<Rightarrow> int" where "ring_getFlags r = uint (le_at 4 2 (rg_rb r) :: u16)"
definition getHead :: "memif_ring \<Rightarrow> int" where "getHead r = uint (le_at 6 2 (rg_rb r) :: u16)"
definition getTail :: "memif_ring \<Rightarrow> int" where "getTail r = uint (le_at 64 2 (rg_rb r) :: u16)"

definition setCookie :: "int \<Rightarrow> memif_ring \<Rightarrow> memif_ring" where
  "setCookie v r = r\<lparr>rg_rb := put_at 0 (le_bytes 4 (word_of_int v :: u32)) (rg_rb r)\<rparr>"
definition ring_setFlags :: "int \<Rightarrow> memif_ring \<Rightarrow> memif_ring" where
  "ring_setFlags v r = r\<lparr>rg_rb := put_at 4 (le_bytes 2 (word_of_int v :: u16)) (rg_rb r)\<rparr>"
definition setHead :: "int \<Rightarrow> memif_ring \<Rightarrow> memif_ring" where
  "setHead v r = r\<lparr>rg_rb := put_at 6 (le_bytes 2 (word_of_int v :: u16)) (rg_rb r)\<rparr>"
definition setTail :: "int \<Rightarrow> memif_ring \<Rightarrow> memif_ring" where
  "setTail v r = r\<lparr>rg_rb := put_at 64 (le_bytes 2 (word_of_int v :: u16)) (rg_rb r)\<rparr>"

section \<open>Access to the shared ring\<close>

text \<open>Copying between a private buffer and \<open>data[p:]\<close>; the shorter side bounds it.\<close>

definition copy_from :: "regions \<Rightarrow> nat \<Rightarrow> int \<Rightarrow> byte list \<Rightarrow> byte list option" where
  "copy_from M r p buf =
     (if r < length M \<and> 0 \<le> p \<and> nat p \<le> length (M ! r) then Some (copy_into buf (drop (nat p) (M ! r))) else None)"

definition copy_to :: "regions \<Rightarrow> nat \<Rightarrow> int \<Rightarrow> byte list \<Rightarrow> regions option" where
  "copy_to M r p bs =
     (if r < length M \<and> 0 \<le> p \<and> nat p \<le> length (M ! r)
      then wr M r (nat p) (take (length (M ! r) - nat p) bs) else None)"

definition desc_pos :: "Queue \<Rightarrow> int \<Rightarrow> int" where
  "desc_pos q slot = rg_offset (q_ring q) + int ringSize + slot * int descSize"

definition getDescBuf :: "regions \<Rightarrow> Queue \<Rightarrow> int \<Rightarrow> descBuf \<Rightarrow> descBuf option" where
  "getDescBuf M q slot db = copy_from M (rg_region (q_ring q)) (desc_pos q slot) db"

definition putDescBuf :: "regions \<Rightarrow> Queue \<Rightarrow> int \<Rightarrow> descBuf \<Rightarrow> regions option" where
  "putDescBuf M q slot db = copy_to M (rg_region (q_ring q)) (desc_pos q slot) db"

definition putRing :: "regions \<Rightarrow> Queue \<Rightarrow> regions option" where
  "putRing M q = copy_to M (rg_region (q_ring q)) (rg_offset (q_ring q)) (rg_rb (q_ring q))"

definition updateRing :: "regions \<Rightarrow> Queue \<Rightarrow> Queue option" where
  "updateRing M q =
     do { rb \<leftarrow> copy_from M (rg_region (q_ring q)) (rg_offset (q_ring q)) (rg_rb (q_ring q));
          Some (q\<lparr>q_ring := (q_ring q)\<lparr>rg_rb := rb\<rparr>\<rparr>) }"

text \<open>
  Two bytes read and written through unsafe pointers. Go checks the index of the first byte only; an
  access that starts at the very last byte of a region leaves the mapping, a fault, and is a panic here.
\<close>

definition peek16 :: "regions \<Rightarrow> Queue \<Rightarrow> int \<Rightarrow> u16 option" where
  "peek16 M q off =
     (let p = rg_offset (q_ring q) + off in
      if 0 \<le> p then map_option le_word (rd M (rg_region (q_ring q)) (nat p) 2) else None)"

definition poke16 :: "regions \<Rightarrow> Queue \<Rightarrow> int \<Rightarrow> int \<Rightarrow> regions option" where
  "poke16 M q off v =
     (let p = rg_offset (q_ring q) + off in
      if 0 \<le> p then wr M (rg_region (q_ring q)) (nat p) (le_bytes 2 (word_of_int v :: u16)) else None)"

definition readHead :: "regions \<Rightarrow> Queue \<Rightarrow> int option" where
  "readHead M q = map_option uint (peek16 M q 6)"

definition readTail :: "regions \<Rightarrow> Queue \<Rightarrow> int option" where
  "readTail M q = map_option uint (peek16 M q 64)"

definition writeHead :: "regions \<Rightarrow> Queue \<Rightarrow> int \<Rightarrow> regions option" where
  "writeHead M q v = poke16 M q 6 v"

definition writeTail :: "regions \<Rightarrow> Queue \<Rightarrow> int \<Rightarrow> regions option" where
  "writeTail M q v = poke16 M q 64 v"

text \<open>Only the low half of the length is written.\<close>

definition setDescLength :: "regions \<Rightarrow> Queue \<Rightarrow> int \<Rightarrow> int \<Rightarrow> regions option" where
  "setDescLength M q slot len = poke16 M q (int ringSize + slot * int descSize + 4) len"

definition queue_getFlags :: "regions \<Rightarrow> Queue \<Rightarrow> int option" where
  "queue_getFlags M q = map_option uint (peek16 M q 4)"

definition isInterrupt :: "regions \<Rightarrow> Queue \<Rightarrow> bool option" where
  "isInterrupt M q = map_option (\<lambda>f. f AND 1 = 0) (queue_getFlags M q)"

text \<open>Whether the peer is woken; that the write to its event descriptor may fail is ignored by all callers.\<close>

definition interrupt :: "regions \<Rightarrow> Queue \<Rightarrow> bool option" where
  "interrupt M q = isInterrupt M q"

text \<open>The part of a region a descriptor refers to; the end wraps at 32 bits.\<close>

definition buf_slice_of :: "regions \<Rightarrow> descBuf \<Rightarrow> u32 \<Rightarrow> byte list option" where
  "buf_slice_of M db len =
     (let r = unat (getRegion db); off = getOffset_desc db in
      if r < length M then slice_of (M ! r) (uint off) (uint (off + len)) else None)"

definition fill_buf :: "regions \<Rightarrow> descBuf \<Rightarrow> u32 \<Rightarrow> byte list \<Rightarrow> (int \<times> regions) option" where
  "fill_buf M db len bs =
     do { dst \<leftarrow> buf_slice_of M db len;
          let src = take (length dst) bs;
          M' \<leftarrow> wr M (unat (getRegion db)) (unat (getOffset_desc db)) src;
          Some (int (length src), M') }"

section \<open>Writing packets\<close>

text \<open>\<open>uint32(size - 1)\<close>, and the slot a position falls on.\<close>

definition ring_mask :: "memif_ring \<Rightarrow> int" where
  "ring_mask r = uint (word_of_int (rg_size r - 1) :: u32)"

text \<open>Where to write, and how many slots are free: the master fills the buffers the slave provides.\<close>

definition tx_start :: "bool \<Rightarrow> regions \<Rightarrow> Queue \<Rightarrow> (int \<times> u16) option" where
  "tx_start isMaster M q =
     (if isMaster then
        do { slot \<leftarrow> readTail M q; h \<leftarrow> readHead M q; Some (slot, word_of_int (h - slot)) }
      else
        do { slot \<leftarrow> readHead M q; t \<leftarrow> readTail M q; Some (slot, word_of_int (rg_size (q_ring q) - slot + t)) })"

text \<open>The next descriptor, and a first part of the packet in its buffer.\<close>

definition tx_fill ::
  "bool \<Rightarrow> u32 \<Rightarrow> regions \<Rightarrow> Queue \<Rightarrow> int \<Rightarrow> descBuf \<Rightarrow> byte list \<Rightarrow> (int \<times> descBuf \<times> regions) option" where
  "tx_fill isMaster bufSize M q slot db pkt =
     do { d0 \<leftarrow> getDescBuf M q (slot AND ring_mask (q_ring q)) db;
          let d1 = setFlags 0 d0;
          let len = (if isMaster then getLength d1 else bufSize);
          let d2 = setLength 0 d1;
          (n, M') \<leftarrow> fill_buf M d2 len pkt;
          Some (n, setLength (word_of_int n) d2, M') }"

text \<open>
  The rest of the packet goes to further buffers; every part is copied from the beginning of the
  packet. The counter of free slots is at least 1 whenever the loop is entered. The result is the
  last slot with its descriptor, not yet put, or nothing when the slots run out.
\<close>

fun tx_chain ::
  "bool \<Rightarrow> u32 \<Rightarrow> Queue \<Rightarrow> byte list \<Rightarrow> nat \<Rightarrow> regions \<Rightarrow> int \<Rightarrow> descBuf \<Rightarrow> int \<Rightarrow>
     ((int \<times> descBuf \<times> int \<times> nat) option \<times> regions) option" where
  "tx_chain isMaster bufSize q pkt nFree M slot db n =
     (if n < int (length pkt) then
        case nFree of
          0 \<Rightarrow> None
        | Suc free \<Rightarrow>
            if free = 0 then Some (None, M)
            else do { M1 \<leftarrow> putDescBuf M q (slot AND ring_mask (q_ring q)) (setFlags descFlagNext db);
                      (k, db', M2) \<leftarrow> tx_fill isMaster bufSize M1 q (slot + 1) (setFlags descFlagNext db) pkt;
                      tx_chain isMaster bufSize q pkt free M2 (slot + 1) db' (n + k) }
      else Some (Some (slot, db, n, nFree), M))"

declare tx_chain.simps [simp del]

definition tx_publish :: "bool \<Rightarrow> regions \<Rightarrow> Queue \<Rightarrow> int \<Rightarrow> regions option" where
  "tx_publish isMaster M q slot = (if isMaster then writeTail M q slot else writeHead M q slot)"

text \<open>The result is the number of bytes, the memory, and whether the peer was woken.\<close>

definition WritePacket ::
  "bool \<Rightarrow> u32 \<Rightarrow> Queue \<Rightarrow> byte list \<Rightarrow> regions \<Rightarrow> (int \<times> regions \<times> bool) option" where
  "WritePacket isMaster bufSize q pkt M =
     do { (slot, nFree) \<leftarrow> tx_start isMaster M q;
          if nFree = 0 then do { w \<leftarrow> interrupt M q; Some (0, M, w) }
          else do { (n, db, M1) \<leftarrow> tx_fill isMaster bufSize M q slot newDescBuf pkt;
                    (r, M2) \<leftarrow> tx_chain isMaster bufSize q pkt (unat nFree) M1 slot db n;
                    case r of None \<Rightarrow> do { w \<leftarrow> interrupt M2 q; Some (0, M2, w) }
                    | Some (slot', db', n', _) \<Rightarrow>
                        do { M3 \<leftarrow> putDescBuf M2 q (slot' AND ring_mask (q_ring q)) db';
                             M4 \<leftarrow> tx_publish isMaster M3 q (slot' + 1);
                             w \<leftarrow> interrupt M4 q;
                             Some (n', M4, w) } } }"

text \<open>
  A burst: the free slots are only counted down by the parts of long packets. The number of bytes is
  that of the last packet.
\<close>

fun tx_burst_loop ::
  "bool \<Rightarrow> u32 \<Rightarrow> Queue \<Rightarrow> byte list list \<Rightarrow> nat \<Rightarrow> regions \<Rightarrow> int \<Rightarrow> int \<Rightarrow> ((int \<times> int) option \<times> regions) option" where
  "tx_burst_loop isMaster bufSize q [] nFree M slot n = Some (Some (slot, n), M)"
| "tx_burst_loop isMaster bufSize q (pkt # pkts) nFree M slot n =
     do { (k, db, M1) \<leftarrow> tx_fill isMaster bufSize M q slot newDescBuf pkt;
          (r, M2) \<leftarrow> tx_chain isMaster bufSize q pkt nFree M1 slot db k;
          case r of None \<Rightarrow> Some (None, M2)
          | Some (slot', db', n', free) \<Rightarrow>
              do { M3 \<leftarrow> putDescBuf M2 q (slot' AND ring_mask (q_ring q)) db';
                   tx_burst_loop isMaster bufSize q pkts free M3 (slot' + 1) n' } }"

definition Tx_burst ::
  "bool \<Rightarrow> u32 \<Rightarrow> Queue \<Rightarrow> byte list list \<Rightarrow> regions \<Rightarrow> (int \<times> regions \<times> bool) option" where
  "Tx_burst isMaster bufSize q pkts M =
     do { (slot, nFree) \<leftarrow> tx_start isMaster M q;
          if nFree = 0 then do { w \<leftarrow> interrupt M q; Some (0, M, w) }
          else do { (r, M1) \<leftarrow> tx_burst_loop isMaster bufSize q pkts (unat nFree) M slot 0;
                    case r of None \<Rightarrow> do { w \<leftarrow> interrupt M1 q; Some (0, M1, w) }
                    | Some (slot', n) \<Rightarrow>
                        do { M2 \<leftarrow> tx_publish isMaster M1 q slot';
                             w \<leftarrow> interrupt M2 q; Some (n, M2, w) } } }"

section \<open>Reading packets\<close>

definition rx_start :: "bool \<Rightarrow> regions \<Rightarrow> Queue \<Rightarrow> (int \<times> int) option" where
  "rx_start isMaster M q =
     (if isMaster then do { h \<leftarrow> readHead M q; Some (uint (lastHead q), h) }
      else do { t \<leftarrow> readTail M q; Some (uint (lastTail q), t) })"

text \<open>Copying one buffer to \<open>pkt[at:]\<close>.\<close>

definition rx_copy :: "regions \<Rightarrow> descBuf \<Rightarrow> byte list \<Rightarrow> u32 \<Rightarrow> byte list option" where
  "rx_copy M db pkt at =
     (if unat at \<le> length pkt then
        do { src \<leftarrow> buf_slice_of M db (getLength db);
             Some (take (unat at) pkt @ copy_into (drop (unat at) pkt) src) }
      else None)"

text \<open>The remaining buffers of a chain; the result is an error when the chain is cut short.\<close>

fun rx_chain ::
  "Queue \<Rightarrow> regions \<Rightarrow> nat \<Rightarrow> int \<Rightarrow> descBuf \<Rightarrow> byte list \<Rightarrow> u32 \<Rightarrow> ((int \<times> u32) option \<times> byte list) option" where
  "rx_chain q M nSlots slot db pkt at =
     (if getFlags db AND descFlagNext = descFlagNext then
        case nSlots of
          0 \<Rightarrow> Some (None, pkt)
        | Suc left \<Rightarrow>
            do { db' \<leftarrow> getDescBuf M q (slot AND ring_mask (q_ring q)) db;
                 pkt' \<leftarrow> rx_copy M db' pkt at;
                 rx_chain q M left (slot + 1) db' pkt' (at + getLength db') }
      else Some (Some (slot, at), pkt))"

declare rx_chain.simps [simp del]

text \<open>The slave gives the buffers it has read back; every slot up to a full ring gets its full length.\<close>

fun refill_loop :: "Queue \<Rightarrow> u32 \<Rightarrow> nat \<Rightarrow> int \<Rightarrow> regions \<Rightarrow> (int \<times> regions) option" where
  "refill_loop q bufSize 0 head M = Some (head, M)"
| "refill_loop q bufSize (Suc k) head M =
     do { M' \<leftarrow> setDescLength M q (head AND ring_mask (q_ring q)) (uint bufSize);
          refill_loop q bufSize k (head + 1) M' }"

definition refill_count :: "Queue \<Rightarrow> int \<Rightarrow> u16" where
  "refill_count q head = word_of_int (rg_size (q_ring q) - head + uint (lastTail q))"

definition rx_release :: "bool \<Rightarrow> u32 \<Rightarrow> regions \<Rightarrow> Queue \<Rightarrow> int \<Rightarrow> (Queue \<times> regions) option" where
  "rx_release isMaster bufSize M q slot =
     (if isMaster then
        do { M' \<leftarrow> writeTail M q slot; Some (q\<lparr>lastHead := word_of_int slot\<rparr>, M') }
      else
        do { let q' = q\<lparr>lastTail := word_of_int slot\<rparr>;
             head \<leftarrow> readHead M q';
             (head', M') \<leftarrow> refill_loop q' bufSize (unat (refill_count q' head)) head M;
             M'' \<leftarrow> writeHead M' q' head';
             Some (q', M'') })"

text \<open>The result: an error or the number of bytes, the packet buffer, the queue and the memory.\<close>

definition ReadPacket ::
  "bool \<Rightarrow> u32 \<Rightarrow> Queue \<Rightarrow> byte list \<Rightarrow> regions \<Rightarrow> ((gerr + u32) \<times> byte list \<times> Queue \<times> regions) option" where
  "ReadPacket isMaster bufSize q pkt M =
     do { (slot, lastSlot) \<leftarrow> rx_start isMaster M q;
          let nSlots = (word_of_int (lastSlot - slot) :: u16);
          if nSlots = 0 then do { (q', M') \<leftarrow> rx_release isMaster bufSize M q slot; Some (Inr 0, pkt, q', M') }
          else do { db \<leftarrow> getDescBuf M q (slot AND ring_mask (q_ring q)) newDescBuf;
                    pkt1 \<leftarrow> rx_copy M db pkt 0;
                    (r, pkt2) \<leftarrow> rx_chain q M (unat nSlots - 1) (slot + 1) db pkt1 (getLength db);
                    case r of None \<Rightarrow> Some (Inl (ErrMsg ''Incomplete chained buffer, may suggest peer error.''), pkt2, q, M)
                    | Some (slot', n) \<Rightarrow>
                        do { (q', M') \<leftarrow> rx_release isMaster bufSize M q slot'; Some (Inr n, pkt2, q', M') } } }"

text \<open>
  A burst takes every descriptor for a packet and leaves the slots to \<open>Refill\<close>. A packet buffer is
  its bytes and its length; the last component tells whether the event descriptor is read.
\<close>

fun rx_burst_loop ::
  "Queue \<Rightarrow> regions \<Rightarrow> nat \<Rightarrow> int \<Rightarrow> descBuf \<Rightarrow> (byte list \<times> int) list \<Rightarrow> (byte list \<times> int) list option" where
  "rx_burst_loop q M 0 slot db pkts = Some pkts"
| "rx_burst_loop q M (Suc k) slot db [] = None"
| "rx_burst_loop q M (Suc k) slot db ((buf, n) # pkts) =
     do { db' \<leftarrow> getDescBuf M q (slot AND ring_mask (q_ring q)) db;
          buf' \<leftarrow> rx_copy M db' buf 0;
          rest \<leftarrow> rx_burst_loop q M k (slot + 1) db' pkts;
          Some ((buf', uint (getLength db')) # rest) }"

definition Rx_burst ::
  "bool \<Rightarrow> Queue \<Rightarrow> (byte list \<times> int) list \<Rightarrow> regions \<Rightarrow> (u16 \<times> (byte list \<times> int) list \<times> Queue \<times> bool) option" where
  "Rx_burst isMaster q pkts M =
     do { (slot, lastSlot) \<leftarrow> rx_start isMaster M q;
          let avail = (word_of_int (lastSlot - slot) :: u16);
          if avail = 0 then Some (0, pkts, q, True)
          else do { let room = (word_of_nat (length pkts) :: u16);
                    let rx = (if room < avail then room else avail);
                    pkts' \<leftarrow> rx_burst_loop q M (unat rx) slot newDescBuf pkts;
                    let q' = (if isMaster then q\<lparr>lastHead := lastHead q + rx\<rparr> else q\<lparr>lastTail := lastTail q + rx\<rparr>);
                    Some (rx, pkts', q', avail \<le> room) } }"

text \<open>
  Giving slots back after bursts. The positions are compared as numbers, not as positions modulo
  \<open>2 ^ 16\<close>; the count only matters to the master.
\<close>

definition Refill :: "bool \<Rightarrow> u32 \<Rightarrow> Queue \<Rightarrow> int \<Rightarrow> regions \<Rightarrow> regions option" where
  "Refill isMaster bufSize q count M =
     do { M1 \<leftarrow> (if isMaster then
                 do { t \<leftarrow> readTail M q;
                      writeTail M q (if t + count \<le> uint (lastHead q) then t + count else uint (lastHead q)) }
               else Some M);
          head \<leftarrow> readHead M1 q;
          (head', M2) \<leftarrow> refill_loop q bufSize (unat (refill_count q head)) head M1;
          if isMaster then Some M2 else writeHead M2 q head' }"

end
