(* ===== verification/MemifMessages.thy ===== *)
theory MemifMessages
  imports MemifRing
begin

text \<open>
  The messages of the control channel between two interfaces (\<open>extras/gomemif/memif/memif.go\<close>), as
  \<open>encoding/binary\<close> writes and reads their structs: the fields in order, little-endian, not padded.
\<close>

section \<open>Messages\<close>

record MsgHello =
  h_Name :: "byte list"
  h_VersionMin :: u16
  h_VersionMax :: u16
  h_MaxRegion :: u16
  h_MaxRingM2S :: u16
  h_MaxRingS2M :: u16
  h_MaxLog2RingSize :: byte

record MsgInit =
  n_Version :: u16
  n_Id :: u32
  n_Mode :: byte
  n_Secret :: "byte list"
  n_Name :: "byte list"

record MsgAddRegion =
  ar_Index :: u16
  ar_Size :: u64

record MsgAddRing =
  ad_Flags :: u16
  ad_Index :: u16
  ad_Region :: u16
  ad_Offset :: u32
  ad_RingSizeLog2 :: byte
  ad_PrivateHdrSize :: u16

record MsgConnect =
  co_Name :: "byte list"

record MsgConnected =
  cd_Name :: "byte list"

record MsgDisconnect =
  dc_Code :: u32
  dc_String :: "byte list"

definition msgTypeAck :: u16 where "msgTypeAck = 1"
definition msgTypeHello :: u16 where "msgTypeHello = 2"
definition msgTypeInit :: u16 where "msgTypeInit = 3"
definition msgTypeAddRegion :: u16 where "msgTypeAddRegion = 4"
definition msgTypeAddRing :: u16 where "msgTypeAddRing = 5"
definition msgTypeConnect :: u16 where "msgTypeConnect = 6"
definition msgTypeConnected :: u16 where "msgTypeConnected = 7"
definition msgTypeDisconnect :: u16 where "msgTypeDisconnect = 8"

lemmas msgTypes = msgTypeAck_def msgTypeHello_def msgTypeInit_def msgTypeAddRegion_def msgTypeAddRing_def
  msgTypeConnect_def msgTypeConnected_def msgTypeDisconnect_def

definition Version :: u16 where "Version = push_bit 8 2 OR 0"
definition msgSize :: nat where "msgSize = 128"
definition msgAddRingFlagS2M :: u16 where "msgAddRingFlagS2M = 1"

definition min16 :: "u16 \<Rightarrow> u16 \<Rightarrow> u16" where "min16 a b = (if a < b then a else b)"
definition min8 :: "byte \<Rightarrow> byte \<Rightarrow> byte" where "min8 a b = (if a < b then a else b)"

section \<open>Writing and reading structs\<close>

text \<open>\<open>binary.Read\<close> reads a struct from the front of the data; the data always suffice here.\<close>

definition field :: "nat \<Rightarrow> nat \<Rightarrow> byte list \<Rightarrow> byte list" where
  "field off n bs = take n (drop off bs)"

definition write_Hello :: "MsgHello \<Rightarrow> byte list" where
  "write_Hello m = h_Name m @ le_bytes 2 (h_VersionMin m) @ le_bytes 2 (h_VersionMax m) @ le_bytes 2 (h_MaxRegion m) @
     le_bytes 2 (h_MaxRingM2S m) @ le_bytes 2 (h_MaxRingS2M m) @ [h_MaxLog2RingSize m]"

definition read_Hello :: "byte list \<Rightarrow> MsgHello" where
  "read_Hello bs =
     \<lparr>h_Name = field 0 32 bs, h_VersionMin = le_at 32 2 bs, h_VersionMax = le_at 34 2 bs, h_MaxRegion = le_at 36 2 bs,
      h_MaxRingM2S = le_at 38 2 bs, h_MaxRingS2M = le_at 40 2 bs, h_MaxLog2RingSize = le_at 42 1 bs\<rparr>"

definition write_Init :: "MsgInit \<Rightarrow> byte list" where
  "write_Init m = le_bytes 2 (n_Version m) @ le_bytes 4 (n_Id m) @ [n_Mode m] @ n_Secret m @ n_Name m"

definition read_Init :: "byte list \<Rightarrow> MsgInit" where
  "read_Init bs =
     \<lparr>n_Version = le_at 0 2 bs, n_Id = le_at 2 4 bs, n_Mode = le_at 6 1 bs, n_Secret = field 7 24 bs, n_Name = field 31 32 bs\<rparr>"

definition write_AddRegion :: "MsgAddRegion \<Rightarrow> byte list" where
  "write_AddRegion m = le_bytes 2 (ar_Index m) @ le_bytes 8 (ar_Size m)"

definition read_AddRegion :: "byte list \<Rightarrow> MsgAddRegion" where
  "read_AddRegion bs = \<lparr>ar_Index = le_at 0 2 bs, ar_Size = le_at 2 8 bs\<rparr>"

definition write_AddRing :: "MsgAddRing \<Rightarrow> byte list" where
  "write_AddRing m = le_bytes 2 (ad_Flags m) @ le_bytes 2 (ad_Index m) @ le_bytes 2 (ad_Region m) @ le_bytes 4 (ad_Offset m) @
     [ad_RingSizeLog2 m] @ le_bytes 2 (ad_PrivateHdrSize m)"

definition read_AddRing :: "byte list \<Rightarrow> MsgAddRing" where
  "read_AddRing bs =
     \<lparr>ad_Flags = le_at 0 2 bs, ad_Index = le_at 2 2 bs, ad_Region = le_at 4 2 bs, ad_Offset = le_at 6 4 bs,
      ad_RingSizeLog2 = le_at 10 1 bs, ad_PrivateHdrSize = le_at 11 2 bs\<rparr>"

definition write_Connect :: "MsgConnect \<Rightarrow> byte list" where "write_Connect m = co_Name m"
definition read_Connect :: "byte list \<Rightarrow> MsgConnect" where "read_Connect bs = \<lparr>co_Name = field 0 32 bs\<rparr>"
definition write_Connected :: "MsgConnected \<Rightarrow> byte list" where "write_Connected m = cd_Name m"
definition read_Connected :: "byte list \<Rightarrow> MsgConnected" where "read_Connected bs = \<lparr>cd_Name = field 0 32 bs\<rparr>"

definition write_Disconnect :: "MsgDisconnect \<Rightarrow> byte list" where
  "write_Disconnect m = le_bytes 4 (dc_Code m) @ dc_String m"

definition read_Disconnect :: "byte list \<Rightarrow> MsgDisconnect" where
  "read_Disconnect bs = \<lparr>dc_Code = le_at 0 4 bs, dc_String = field 4 96 bs\<rparr>"

text \<open>A message is its type and the struct; the type is read first.\<close>

definition with_type :: "u16 \<Rightarrow> byte list \<Rightarrow> byte list" where
  "with_type t body = le_bytes 2 t @ body"

definition msg_type :: "byte list \<Rightarrow> u16" where
  "msg_type bs = le_at 0 2 bs"

definition msg_body :: "byte list \<Rightarrow> byte list" where
  "msg_body bs = drop 2 bs"

text \<open>A name in its field: cut off, or padded with zeros.\<close>

definition fixed :: "nat \<Rightarrow> byte list \<Rightarrow> byte list" where
  "fixed n bs = copy_into (replicate n 0) bs"

lemma length_fixed [simp]: "length (fixed n bs) = n"
  by (simp add: fixed_def)

section \<open>Reading what was written\<close>

lemma le_at_skip: "length xs \<le> off \<Longrightarrow> le_at off n (xs @ ys) = le_at (off - length xs) n ys"
  by (simp add: le_at_def)

lemma le_at_front: "LENGTH('a) \<le> 8 * n \<Longrightarrow> le_at 0 n (le_bytes n (w :: 'a::len word) @ ys) = w"
  by (simp add: le_at_def le_roundtrip)

lemma le_at_byte: "le_at 0 1 ((w :: byte) # ys) = w" "le_at (Suc 0) n (w # ys) = le_at 0 n ys" "le_at 0 (Suc 0) (w # ys) = w"
  by (simp_all add: le_at_def)

lemma field_front: "length xs = n \<Longrightarrow> field 0 n (xs @ ys) = xs"
  by (simp add: field_def)

lemma field_skip: "length xs \<le> off \<Longrightarrow> field off n (xs @ ys) = field (off - length xs) n ys"
  by (simp add: field_def)

lemma cons_skip: "0 < off \<Longrightarrow> le_at off n (b # ys) = le_at (off - 1) n ys" "0 < off \<Longrightarrow> field off n (b # ys) = field (off - 1) n ys"
  by (cases off; simp add: le_at_def field_def)+

lemmas read_simps = le_at_skip le_at_front le_at_byte field_front field_skip cons_skip

lemma msg_with_type [simp]: "msg_type (with_type t body @ rest) = t" "msg_body (with_type t body @ rest) = body @ rest"
  by (simp_all add: msg_type_def msg_body_def with_type_def le_at_front)

lemma read_written [simp]:
  "length (h_Name h) = 32 \<Longrightarrow> read_Hello (write_Hello h @ rest) = h"
  "length (n_Secret n) = 24 \<Longrightarrow> length (n_Name n) = 32 \<Longrightarrow> read_Init (write_Init n @ rest) = n"
  "read_AddRegion (write_AddRegion r @ rest) = r"
  "read_AddRing (write_AddRing d @ rest) = d"
  "length (co_Name c) = 32 \<Longrightarrow> read_Connect (write_Connect c @ rest) = c"
  "length (cd_Name e) = 32 \<Longrightarrow> read_Connected (write_Connected e @ rest) = e"
  "length (dc_String x) = 96 \<Longrightarrow> read_Disconnect (write_Disconnect x @ rest) = x"
  by (simp_all add: read_Hello_def write_Hello_def read_Init_def write_Init_def read_AddRegion_def write_AddRegion_def
      read_AddRing_def write_AddRing_def read_Connect_def write_Connect_def read_Connected_def write_Connected_def
      read_Disconnect_def write_Disconnect_def read_simps)

lemma written_length:
  "length (write_Hello h) = length (h_Name h) + 11" "length (write_Init n) = 7 + length (n_Secret n) + length (n_Name n)"
  "length (write_AddRegion r) = 10" "length (write_AddRing d) = 13" "length (with_type t body) = 2 + length body"
  by (simp_all add: write_Hello_def write_Init_def write_AddRegion_def write_AddRing_def with_type_def)

end
