(* ===== verification/MemifInterface.thy ===== *)
theory MemifInterface
  imports MemifRing
begin

text \<open>
  Interfaces of \<open>extras/gomemif/memif/interface.go\<close>: their memory regions and queues. File
  descriptors are named by the kernel object they stand for, also when they are passed to another
  process; \<open>kernel\<close> holds the contents of the memory files and the messages sent over each socket,
  and says which of the system calls succeed. A callback takes the key of its interface and returns an error or nothing; it may be nil.
\<close>

section \<open>The kernel\<close>

record kernel =
  k_next :: nat
  k_ok :: "nat \<Rightarrow> bool"
  k_mem :: "int \<Rightarrow> byte list"
  k_wire :: "int \<Rightarrow> (byte list \<times> int option) list"
  k_junk :: "nat \<Rightarrow> nat \<Rightarrow> byte"

text \<open>
  \<open>k_junk\<close> is what lies in memory behind a message. A system call may fail; one that creates an
  object returns the next descriptor.
\<close>

definition sys :: "kernel \<Rightarrow> bool \<times> int \<times> kernel" where
  "sys k = (k_ok k (k_next k), int (k_next k) + 1, k\<lparr>k_next := k_next k + 1\<rparr>)"

section \<open>State\<close>

record Arguments =
  a_Id :: u32
  a_IsMaster :: bool
  a_Mode :: byte
  a_Name :: "byte list"
  a_Secret :: "byte list"
  a_MemoryConfig :: MemoryConfig
  a_ConnectedFunc :: "(nat \<Rightarrow> gerr option) option"
  a_DisconnectedFunc :: "(nat \<Rightarrow> gerr option) option"
  a_InterruptFunc :: "(nat \<Rightarrow> int \<Rightarrow> gerr option) option"

record memoryRegion =
  mr_mapped :: bool
  mr_size :: u64
  mr_fd :: int
  mr_packetBufferOffset :: u32

text \<open>The control channel is named by its key in the socket.\<close>

record Interface =
  i_args :: Arguments
  i_run :: MemoryConfig
  i_cc :: "nat option"
  i_remoteName :: "byte list"
  i_peerName :: "byte list"
  i_regions :: "memoryRegion list"
  i_txQueues :: "Queue list"
  i_rxQueues :: "Queue list"

text \<open>What the interface sees through its mappings; nothing when a region is not mapped.\<close>

definition region_data :: "kernel \<Rightarrow> memoryRegion \<Rightarrow> byte list" where
  "region_data k r = (if mr_mapped r then k_mem k (mr_fd r) else [])"

definition shared :: "kernel \<Rightarrow> Interface \<Rightarrow> regions" where
  "shared k i = map (region_data k) (i_regions i)"

fun put_back :: "memoryRegion list \<Rightarrow> regions \<Rightarrow> kernel \<Rightarrow> kernel" where
  "put_back (r # rs) (d # ds) k =
     put_back rs ds (if mr_mapped r then k\<lparr>k_mem := (k_mem k)(mr_fd r := d)\<rparr> else k)"
| "put_back _ _ k = k"

definition GetRxQueue :: "Interface \<Rightarrow> int \<Rightarrow> gerr + Queue" where
  "GetRxQueue i qid =
     (if int (length (i_rxQueues i)) \<le> qid then Inl (ErrMsg ''Invalid Queue index'') else Inr (i_rxQueues i ! nat qid))"

definition GetTxQueue :: "Interface \<Rightarrow> int \<Rightarrow> gerr + Queue" where
  "GetTxQueue i qid =
     (if int (length (i_txQueues i)) \<le> qid then Inl (ErrMsg ''Invalid Queue index'') else Inr (i_txQueues i ! nat qid))"

definition IsConnecting :: "Interface \<Rightarrow> bool" where
  "IsConnecting i \<longleftrightarrow> i_cc i \<noteq> None"

section \<open>Creating the shared memory\<close>

definition u32_shift1 :: "byte \<Rightarrow> u32" where
  "u32_shift1 k = push_bit (unat k) 1"

text \<open>Both sums of queue pairs are computed in 16 bits, the sizes in 32 bits.\<close>

definition packet_buffer_offset :: "MemoryConfig \<Rightarrow> u32" where
  "packet_buffer_offset run =
     ucast (NumQueuePairs run + NumQueuePairs run) *
       (word_of_nat ringSize + word_of_nat descSize * u32_shift1 (Log2RingSize run))"

definition region_size :: "MemoryConfig \<Rightarrow> u32 \<Rightarrow> bool \<Rightarrow> u64" where
  "region_size run off hasPacketBuffers =
     (if hasPacketBuffers
      then ucast (off + PacketBufferSize run * u32_shift1 (Log2RingSize run) *
                  ucast (NumQueuePairs run + NumQueuePairs run))
      else ucast off)"

text \<open>The memory file is created, sealed, given its size and mapped. An empty mapping is an error.\<close>

definition mappable :: "u64 \<Rightarrow> bool" where
  "mappable sz \<longleftrightarrow> 0 < sint sz"

definition addRegion :: "bool \<Rightarrow> bool \<Rightarrow> Interface \<Rightarrow> kernel \<Rightarrow> gerr option \<times> Interface \<times> kernel" where
  "addRegion hasPacketBuffers hasRings i k =
     (let off = (if hasRings then packet_buffer_offset (i_run i) else 0);
          size = region_size (i_run i) off hasPacketBuffers;
          (ok1, fd, k1) = sys k in
      if \<not> ok1 then (Some (ErrMsg ''memfdCreate''), i, k1)
      else let (ok2, _, k2) = sys k1 in
      if \<not> ok2 then (Some (ErrMsg ''memfdCreate: fcntl''), i, k2)
      else let (ok3, _, k3) = sys k2 in
      if \<not> ok3 then (Some (ErrMsg ''memfdCreate''), i, k3)
      else let (ok4, _, k4) = sys (k3\<lparr>k_mem := (k_mem k3)(fd := replicate (unat size) 0)\<rparr>) in
      if \<not> (ok4 \<and> mappable size) then (Some (ErrMsg ''addRegion''), i, k4)
      else (None, i\<lparr>i_regions := i_regions i @
             [\<lparr>mr_mapped = True, mr_size = size, mr_fd = fd, mr_packetBufferOffset = off\<rparr>]\<rparr>, k4))"

definition initializeRegions :: "Interface \<Rightarrow> kernel \<Rightarrow> gerr option \<times> Interface \<times> kernel" where
  "initializeRegions i k =
     (case addRegion True True i k of
        (Some e, i', k') \<Rightarrow> (Some (ErrMsg ''initializeRegions''), i', k')
      | (None, i', k') \<Rightarrow> (None, i', k'))"

text \<open>The descriptors of a ring; \<open>base\<close> is the offset of the buffer of slot \<open>slot\<close>.\<close>

fun init_descs :: "Queue \<Rightarrow> u32 \<Rightarrow> u32 \<Rightarrow> nat \<Rightarrow> nat \<Rightarrow> nat \<Rightarrow> descBuf \<Rightarrow> regions \<Rightarrow> (descBuf \<times> regions) option" where
  "init_descs q bufSize base slot j 0 desc M = Some (desc, M)"
| "init_descs q bufSize base slot j (Suc n) desc M =
     (let desc' = setOffset (base + word_of_nat (slot + j) * bufSize) desc in
      do { M' \<leftarrow> putDescBuf M q (int j) desc'; init_descs q bufSize base slot (Suc j) n desc' M' })"

definition new_queue :: "MemoryConfig \<Rightarrow> ringType \<Rightarrow> nat \<Rightarrow> int \<Rightarrow> Queue" where
  "new_queue run t qid flags =
     \<lparr>q_ring = ring_setFlags flags (setCookie 0x3E31F20 (newRing run 0 t (int qid))), lastHead = 0, lastTail = 0, interruptFd = 0\<rparr>"

text \<open>
  One round of the loops over the queue pairs, for a tx and for an rx queue. Their registration of the
  interrupt's descriptor with the poller of the socket, whose result they ignore, does not touch the
  interface and is left out.
\<close>

definition init_queue ::
  "ringType \<Rightarrow> u32 \<Rightarrow> nat \<Rightarrow> descBuf \<Rightarrow> Interface \<Rightarrow> kernel \<Rightarrow> (gerr option \<times> descBuf \<times> Interface \<times> kernel) option" where
  "init_queue t base qid desc i k =
     (let run = i_run i;
          flags = (if t = ringTypeS2M then 1 else if a_InterruptFunc (i_args i) \<noteq> None then 0 else 1);
          q0 = new_queue run t qid flags;
          (ok, fd, k1) = sys k in
      if \<not> ok then Some (Some (ErrMsg ''eventfd''), desc, i, k1)
      else
        let q = q0\<lparr>interruptFd := fd\<rparr>;
            i1 = (if t = ringTypeS2M then i\<lparr>i_txQueues := i_txQueues i @ [q]\<rparr> else i\<lparr>i_rxQueues := i_rxQueues i @ [q]\<rparr>);
            N = nat (rg_size (q_ring q)) in
        do { M1 \<leftarrow> putRing (shared k1 i) q;
             (desc', M2) \<leftarrow> init_descs q (PacketBufferSize run) base (qid * N) 0 N desc M1;
             Some (None, desc', i1, put_back (i_regions i) M2 k1) })"

fun init_queues ::
  "ringType \<Rightarrow> u32 \<Rightarrow> nat \<Rightarrow> nat \<Rightarrow> descBuf \<Rightarrow> Interface \<Rightarrow> kernel \<Rightarrow> (gerr option \<times> descBuf \<times> Interface \<times> kernel) option" where
  "init_queues t base qid 0 desc i k = Some (None, desc, i, k)"
| "init_queues t base qid (Suc n) desc i k =
     do { (err, desc', i', k') \<leftarrow> init_queue t base qid desc i k;
          case err of Some e \<Rightarrow> Some (Some e, desc', i', k')
          | None \<Rightarrow> init_queues t base (Suc qid) n desc' i' k' }"

text \<open>Slots are numbered over all queues of a direction; region 0 must be there.\<close>

definition initializeQueues :: "Interface \<Rightarrow> kernel \<Rightarrow> (gerr option \<times> Interface \<times> kernel) option" where
  "initializeQueues i k =
     (let run = i_run i; n = unat (NumQueuePairs run);
          desc = setLength (PacketBufferSize run) (setRegion 0 (setFlags 0 newDescBuf));
          txOff = ucast (NumQueuePairs run) * PacketBufferSize run * u32_shift1 (Log2RingSize run) in
      case i_regions i of
        [] \<Rightarrow> if n = 0 then Some (None, i, k) else None
      | r # _ \<Rightarrow>
          do { (err, desc1, i1, k1) \<leftarrow> init_queues ringTypeS2M (mr_packetBufferOffset r) 0 n desc i k;
               case err of Some e \<Rightarrow> Some (Some e, i1, k1)
               | None \<Rightarrow>
                   do { (err2, desc2, i2, k2) \<leftarrow> init_queues ringTypeM2S (mr_packetBufferOffset r + txOff) 0 n desc1 i1 k1;
                        Some (err2, i2, k2) } })"

end
