(* ===== verification/MemifControl.thy ===== *)
theory MemifControl
  imports MemifMessages MemifInterface
begin

text \<open>
  Sockets and control channels (\<open>extras/gomemif/memif\<close>: control_channel.go, control_channel_unsafe.go
  and the parts of interface.go that use them). Objects live in a store and are named by keys; the
  lists of a socket are lists of keys. An action works on the socket and the kernel and returns an
  error or a value; a panic is \<open>None\<close>. Closing a descriptor has no effect that is modelled; a region
  stays recorded when unmapping a later one fails. Texts of system errors are left out.
\<close>

section \<open>State\<close>

record controlMsg =
  m_Buffer :: "byte list"
  m_Fd :: int

text \<open>
  Control data of a received message: whether they can be parsed, and per control message the
  descriptors passed, when it passes descriptors and these can be parsed.
\<close>

datatype cmsg = Rights "int list option" | OtherCmsg

record controlChannel =
  cc_i :: "nat option"
  cc_fd :: int
  cc_data :: "byte list"
  cc_control :: "cmsg list option"
  cc_msgQueue :: "controlMsg list"
  cc_isConnected :: bool

record Socket =
  appName :: "byte list"
  s_listener :: "int option"
  intfQueueEventMap :: "int \<Rightarrow> (nat \<times> u16) option"
  interfaceList :: "nat list"
  ccList :: "nat list"
  wakeFd :: int
  s_if :: "nat \<Rightarrow> Interface"
  s_cc :: "nat \<Rightarrow> controlChannel"
  s_next :: nat

type_synonym 'a act = "Socket \<times> kernel \<Rightarrow> ((gerr + 'a) \<times> Socket \<times> kernel) option"

section \<open>Actions\<close>

definition ret :: "'a \<Rightarrow> 'a act" where "ret x s = Some (Inr x, s)"
definition fail :: "gerr \<Rightarrow> 'a act" where "fail e s = Some (Inl e, s)"
definition panic :: "'a act" where "panic s = None"

text \<open>Go on unless there was an error.\<close>

definition seq :: "'a act \<Rightarrow> ('a \<Rightarrow> 'b act) \<Rightarrow> 'b act" where
  "seq a f s = (case a s of None \<Rightarrow> None | Some (Inl e, s') \<Rightarrow> Some (Inl e, s') | Some (Inr x, s') \<Rightarrow> f x s')"

text \<open>Another error message.\<close>

definition wrap :: "string \<Rightarrow> 'a act \<Rightarrow> 'a act" where
  "wrap text a s = (case a s of Some (Inl e, s') \<Rightarrow> Some (Inl (ErrMsg text), s') | r \<Rightarrow> r)"

fun for_each :: "('b \<Rightarrow> unit act) \<Rightarrow> 'b list \<Rightarrow> unit act" where
  "for_each f [] = ret ()"
| "for_each f (x # xs) = seq (f x) (\<lambda>_. for_each f xs)"

definition with_socket :: "(Socket \<Rightarrow> 'a act) \<Rightarrow> 'a act" where
  "with_socket f s = f (fst s) s"

definition set_socket :: "(Socket \<Rightarrow> Socket) \<Rightarrow> unit act" where
  "set_socket f s = Some (Inr (), f (fst s), snd s)"

definition upd_cc :: "nat \<Rightarrow> (controlChannel \<Rightarrow> controlChannel) \<Rightarrow> unit act" where
  "upd_cc c f = set_socket (\<lambda>S. S\<lparr>s_cc := (s_cc S)(c := f (s_cc S c))\<rparr>)"

definition upd_if :: "nat \<Rightarrow> (Interface \<Rightarrow> Interface) \<Rightarrow> unit act" where
  "upd_if i f = set_socket (\<lambda>S. S\<lparr>s_if := (s_if S)(i := f (s_if S i))\<rparr>)"

text \<open>\<open>cc.i\<close>, when it is dereferenced.\<close>

definition intf_of :: "nat \<Rightarrow> nat act" where
  "intf_of c = with_socket (\<lambda>S. case cc_i (s_cc S c) of None \<Rightarrow> panic | Some i \<Rightarrow> ret i)"

definition syscall :: "string \<Rightarrow> int act" where
  "syscall text s = (let (ok, fd, k') = sys (snd s) in Some (if ok then Inr fd else Inl (ErrMsg text), fst s, k'))"

definition addEvent :: "unit act" where "addEvent = seq (syscall ''EpollCtl'') (\<lambda>_. ret ())"
definition delEvent :: "unit act" where "delEvent = seq (syscall ''EpollCtl'') (\<lambda>_. ret ())"

text \<open>A callback of an interface; calling a nil function panics.\<close>

definition call :: "(nat \<Rightarrow> gerr option) option \<Rightarrow> nat \<Rightarrow> unit act" where
  "call cb i = (case cb of None \<Rightarrow> panic | Some f \<Rightarrow> (case f i of None \<Rightarrow> ret () | Some e \<Rightarrow> fail e))"

text \<open>The operations that create the memory of an interface, on the interface in the store.\<close>

definition if_initializeRegions :: "nat \<Rightarrow> unit act" where
  "if_initializeRegions i s =
     (case s of (S, k) \<Rightarrow> let (e, I, k') = initializeRegions (s_if S i) k in
        Some (case e of None \<Rightarrow> Inr () | Some x \<Rightarrow> Inl x, S\<lparr>s_if := (s_if S)(i := I)\<rparr>, k'))"

definition if_initializeQueues :: "nat \<Rightarrow> unit act" where
  "if_initializeQueues i s =
     (case s of (S, k) \<Rightarrow>
        (case initializeQueues (s_if S i) k of None \<Rightarrow> None
         | Some (e, I, k') \<Rightarrow> Some (case e of None \<Rightarrow> Inr () | Some x \<Rightarrow> Inl x, S\<lparr>s_if := (s_if S)(i := I)\<rparr>, k')))"

section \<open>Sending\<close>

text \<open>
  The first message in the queue is sent, with its descriptor if it has one. The system call is told
  the length of a full message; what follows the buffer in memory is sent along.
\<close>

definition sendMsg :: "nat \<Rightarrow> unit act" where
  "sendMsg c = with_socket (\<lambda>S.
     case cc_msgQueue (s_cc S c) of
       [] \<Rightarrow> ret ()
     | m # ms \<Rightarrow> seq (upd_cc c (\<lambda>C. C\<lparr>cc_msgQueue := ms\<rparr>)) (\<lambda>_ (S', k).
         let (ok, _, k') = sys k; n = length (m_Buffer m);
             frame = take msgSize (m_Buffer m @ map (k_junk k (k_next k)) [n..<msgSize]);
             fd = cc_fd (s_cc S' c) in
         if ok then Some (Inr (), S', k'\<lparr>k_wire := (k_wire k')(fd := k_wire k' fd @ [(frame, if 0 < m_Fd m then Some (m_Fd m) else None)])\<rparr>)
         else Some (Inl (ErrMsg ''SYS_SENDMSG''), S', k')))"

definition enqueue :: "nat \<Rightarrow> byte list \<Rightarrow> int \<Rightarrow> unit act" where
  "enqueue c bs fd = upd_cc c (\<lambda>C. C\<lparr>cc_msgQueue := cc_msgQueue C @ [\<lparr>m_Buffer = bs, m_Fd = fd\<rparr>]\<rparr>)"

definition msgEnqAck :: "nat \<Rightarrow> unit act" where
  "msgEnqAck c = enqueue c (with_type msgTypeAck []) (- 1)"

definition hello_of :: "byte list \<Rightarrow> MsgHello" where
  "hello_of name =
     \<lparr>h_Name = fixed 32 name, h_VersionMin = Version, h_VersionMax = Version, h_MaxRegion = 255, h_MaxRingM2S = 255,
      h_MaxRingS2M = 255, h_MaxLog2RingSize = 14\<rparr>"

definition msgEnqHello :: "nat \<Rightarrow> unit act" where
  "msgEnqHello c = with_socket (\<lambda>S. enqueue c (with_type msgTypeHello (write_Hello (hello_of (appName S)))) (- 1))"

definition init_of :: "byte list \<Rightarrow> Interface \<Rightarrow> MsgInit" where
  "init_of name i =
     \<lparr>n_Version = Version, n_Id = a_Id (i_args i), n_Mode = a_Mode (i_args i), n_Secret = replicate 24 0, n_Name = fixed 32 name\<rparr>"

definition msgEnqInit :: "nat \<Rightarrow> unit act" where
  "msgEnqInit c = seq (intf_of c) (\<lambda>i. with_socket (\<lambda>S.
     enqueue c (with_type msgTypeInit (write_Init (init_of (appName S) (s_if S i)))) (- 1)))"

definition msgEnqAddRegion :: "nat \<Rightarrow> u16 \<Rightarrow> unit act" where
  "msgEnqAddRegion c regionIndex = seq (intf_of c) (\<lambda>i. with_socket (\<lambda>S.
     let rs = i_regions (s_if S i) in
     if length rs \<le> unat regionIndex then fail (ErrMsg ''Invalid region index'')
     else let r = rs ! unat regionIndex in
          enqueue c (with_type msgTypeAddRegion (write_AddRegion \<lparr>ar_Index = regionIndex, ar_Size = mr_size r\<rparr>)) (mr_fd r)))"

definition add_ring_of :: "ringType \<Rightarrow> u16 \<Rightarrow> Queue \<Rightarrow> MsgAddRing" where
  "add_ring_of t ringIndex q =
     \<lparr>ad_Flags = (if t = ringTypeS2M then msgAddRingFlagS2M else 0), ad_Index = ringIndex,
      ad_Region = word_of_nat (rg_region (q_ring q)), ad_Offset = word_of_int (rg_offset (q_ring q)),
      ad_RingSizeLog2 = word_of_int (rg_log2Size (q_ring q)), ad_PrivateHdrSize = 0\<rparr>"

definition msgEnqAddRing :: "nat \<Rightarrow> ringType \<Rightarrow> u16 \<Rightarrow> unit act" where
  "msgEnqAddRing c t ringIndex = seq (intf_of c) (\<lambda>i. with_socket (\<lambda>S.
     let qs = (if t = ringTypeS2M then i_txQueues (s_if S i) else i_rxQueues (s_if S i)) in
     if length qs \<le> unat ringIndex then panic
     else let q = qs ! unat ringIndex in
          enqueue c (with_type msgTypeAddRing (write_AddRing (add_ring_of t ringIndex q))) (interruptFd q)))"

definition msgEnqConnect :: "nat \<Rightarrow> unit act" where
  "msgEnqConnect c = seq (intf_of c) (\<lambda>i. with_socket (\<lambda>S.
     enqueue c (with_type msgTypeConnect (write_Connect \<lparr>co_Name = fixed 32 (a_Name (i_args (s_if S i)))\<rparr>)) (- 1)))"

definition msgEnqConnected :: "nat \<Rightarrow> unit act" where
  "msgEnqConnected c = seq (intf_of c) (\<lambda>i. with_socket (\<lambda>S.
     enqueue c (with_type msgTypeConnected (write_Connected \<lparr>cd_Name = fixed 32 (a_Name (i_args (s_if S i)))\<rparr>)) (- 1)))"

definition msgEnqDisconnect :: "nat \<Rightarrow> byte list \<Rightarrow> unit act" where
  "msgEnqDisconnect c str =
     enqueue c (with_type msgTypeDisconnect (write_Disconnect \<lparr>dc_Code = 0, dc_String = fixed 96 str\<rparr>)) (- 1)"

section \<open>Connecting and disconnecting\<close>

text \<open>Unmapping memory that is not mapped is an error.\<close>

definition munmap :: "memoryRegion \<Rightarrow> unit act" where
  "munmap r = (if mr_mapped r then seq (syscall ''munmap'') (\<lambda>_. ret ()) else fail (ErrMsg ''EINVAL''))"

definition if_disconnect :: "nat \<Rightarrow> unit act" where
  "if_disconnect i = with_socket (\<lambda>S.
     if i_cc (s_if S i) = None then ret ()
     else seq (wrap ''DisconnectedFunc: '' (call (a_DisconnectedFunc (i_args (s_if S i))) i)) (\<lambda>_.
          seq (upd_if i (\<lambda>I. I\<lparr>i_txQueues := [], i_rxQueues := []\<rparr>)) (\<lambda>_.
          seq (for_each (\<lambda>r. seq (munmap r) (\<lambda>_. seq (syscall ''close'') (\<lambda>_. ret ()))) (i_regions (s_if S i))) (\<lambda>_.
          upd_if i (\<lambda>I. I\<lparr>i_regions := [], i_cc := None, i_peerName := [], i_remoteName := []\<rparr>)))))"

definition cc_close :: "nat \<Rightarrow> bool \<Rightarrow> byte list \<Rightarrow> unit act" where
  "cc_close c sendM str =
     seq (if sendM then seq (upd_cc c (\<lambda>C. C\<lparr>cc_msgQueue := []\<rparr>)) (\<lambda>_. seq (msgEnqDisconnect c str) (\<lambda>_. sendMsg c)) else ret ()) (\<lambda>_.
     seq (wrap ''Failed to del event: '' delEvent) (\<lambda>_.
     seq (set_socket (\<lambda>S. S\<lparr>ccList := remove1 c (ccList S)\<rparr>)) (\<lambda>_. with_socket (\<lambda>S.
     case cc_i (s_cc S c) of None \<Rightarrow> ret () | Some i \<Rightarrow> wrap ''Interface Disconnect: '' (if_disconnect i)))))"

definition addControlChannel :: "int \<Rightarrow> nat option \<Rightarrow> nat act" where
  "addControlChannel fd i = with_socket (\<lambda>S.
     let c = s_next S;
         C = \<lparr>cc_i = i, cc_fd = fd, cc_data = replicate msgSize 0, cc_control = Some [], cc_msgQueue = [], cc_isConnected = False\<rparr> in
     seq (set_socket (\<lambda>S. S\<lparr>s_cc := (s_cc S)(c := C), s_next := c + 1\<rparr>)) (\<lambda>_.
     seq (wrap ''Failed to add event: '' addEvent) (\<lambda>_.
     seq (set_socket (\<lambda>S. S\<lparr>ccList := ccList S @ [c]\<rparr>)) (\<lambda>_. ret c))))"

text \<open>Mapping the regions that have no data yet.\<close>

definition map_region :: "nat \<Rightarrow> nat \<Rightarrow> unit act" where
  "map_region i rid = with_socket (\<lambda>S.
     let r = i_regions (s_if S i) ! rid in
     if mr_mapped r then ret ()
     else if \<not> mappable (mr_size r) then fail (ErrMsg ''Mmap'')
     else seq (syscall ''Mmap'') (\<lambda>_.
          upd_if i (\<lambda>I. I\<lparr>i_regions := (i_regions I)[rid := r\<lparr>mr_mapped := True\<rparr>]\<rparr>)))"

definition memif_cookie :: int where "memif_cookie = 0x3E31F20"

text \<open>
  The ring of a queue is read anew and its cookie checked. The positions are reset on a copy of the
  queue only, which has no effect.
\<close>

definition check_ring :: "nat \<Rightarrow> bool \<Rightarrow> nat \<Rightarrow> unit act" where
  "check_ring i tx j s =
     (case s of (S, k) \<Rightarrow>
        let I = s_if S i; qs = (if tx then i_txQueues I else i_rxQueues I) in
        (case updateRing (shared k I) (qs ! j) of
           None \<Rightarrow> None
         | Some q \<Rightarrow>
             let I' = (if tx then I\<lparr>i_txQueues := qs[j := q]\<rparr> else I\<lparr>i_rxQueues := qs[j := q]\<rparr>);
                 s' = (S\<lparr>s_if := (s_if S)(i := I')\<rparr>, k) in
             if getCookie (q_ring q) \<noteq> memif_cookie then fail (ErrMsg ''Wrong cookie'') s' else ret () s'))"

definition map_event :: "nat \<Rightarrow> nat \<Rightarrow> unit act" where
  "map_event i j = with_socket (\<lambda>S.
     if a_InterruptFunc (i_args (s_if S i)) = None then ret ()
     else set_socket (\<lambda>S. S\<lparr>intfQueueEventMap :=
            (intfQueueEventMap S)(interruptFd (i_rxQueues (s_if S i) ! j) \<mapsto> (i, word_of_nat j))\<rparr>))"

definition if_connect :: "nat \<Rightarrow> unit act" where
  "if_connect i = with_socket (\<lambda>S.
     seq (for_each (map_region i) [0..<length (i_regions (s_if S i))]) (\<lambda>_.
     seq (for_each (check_ring i True) [0..<length (i_txQueues (s_if S i))]) (\<lambda>_.
     seq (for_each (\<lambda>j. seq (check_ring i False j) (\<lambda>_. map_event i j)) [0..<length (i_rxQueues (s_if S i))]) (\<lambda>_.
     call (a_ConnectedFunc (i_args (s_if S i))) i))))"

section \<open>Receiving\<close>

definition body_of :: "Socket \<Rightarrow> nat \<Rightarrow> byte list" where
  "body_of S c = msg_body (cc_data (s_cc S c))"

text \<open>The descriptor that came with a message: the first of the last control message that has some.\<close>

fun passed_fd :: "int \<Rightarrow> cmsg list \<Rightarrow> gerr + int" where
  "passed_fd fd [] = Inr fd"
| "passed_fd fd (OtherCmsg # ms) = passed_fd fd ms"
| "passed_fd fd (Rights None # ms) = Inl (ErrMsg ''syscall.ParseUnixRights'')"
| "passed_fd fd (Rights (Some []) # ms) = passed_fd fd ms"
| "passed_fd fd (Rights (Some (x # _)) # ms) = passed_fd x ms"

definition parseControlMsg :: "nat \<Rightarrow> int act" where
  "parseControlMsg c = with_socket (\<lambda>S.
     case cc_control (s_cc S c) of
       None \<Rightarrow> fail (ErrMsg ''syscall.ParseSocketControlMessage'')
     | Some [] \<Rightarrow> fail (ErrMsg ''Missing control message'')
     | Some ms \<Rightarrow> (case passed_fd (- 1) ms of
         Inl e \<Rightarrow> fail e
       | Inr fd \<Rightarrow> if fd = - 1 then fail (ErrMsg ''Missing file descriptor'') else ret fd))"

definition hello_config :: "MsgHello \<Rightarrow> MemoryConfig \<Rightarrow> MemoryConfig" where
  "hello_config h m =
     m\<lparr>NumQueuePairs := min16 (NumQueuePairs m) (h_MaxRingM2S h), Log2RingSize := min8 (Log2RingSize m) (h_MaxLog2RingSize h)\<rparr>"

definition parseHello :: "nat \<Rightarrow> unit act" where
  "parseHello c = with_socket (\<lambda>S. let h = read_Hello (body_of S c) in
     if Version < h_VersionMin h \<or> h_VersionMax h < Version then fail (ErrMsg ''Incompatible memif version'')
     else seq (intf_of c) (\<lambda>i. upd_if i (\<lambda>I.
            I\<lparr>i_run := hello_config h (a_MemoryConfig (i_args I)), i_remoteName := h_Name h\<rparr>)))"

text \<open>The first master with the id that has no control channel yet.\<close>

fun find_master :: "Socket \<Rightarrow> u32 \<Rightarrow> nat list \<Rightarrow> nat option" where
  "find_master S d [] = None"
| "find_master S d (i # is) =
     (if a_Id (i_args (s_if S i)) = d \<and> a_IsMaster (i_args (s_if S i)) \<and> i_cc (s_if S i) = None then Some i
      else find_master S d is)"

definition parseInit :: "nat \<Rightarrow> unit act" where
  "parseInit c = with_socket (\<lambda>S. let n = read_Init (body_of S c) in
     if n_Version n \<noteq> Version then fail (ErrMsg ''Incompatible memif driver version'')
     else case find_master S (n_Id n) (interfaceList S) of
       None \<Rightarrow> fail (ErrMsg ''Invalid interface id'')
     | Some i \<Rightarrow>
         if a_Secret (i_args (s_if S i)) \<noteq> n_Secret n then fail (ErrMsg ''Invalid secret'')
         else seq (upd_if i (\<lambda>I. I\<lparr>i_cc := Some c, i_run := a_MemoryConfig (i_args I), i_remoteName := n_Name n\<rparr>)) (\<lambda>_.
              upd_cc c (\<lambda>C. C\<lparr>cc_i := Some i\<rparr>)))"

definition parseAddRegion :: "nat \<Rightarrow> unit act" where
  "parseAddRegion c = with_socket (\<lambda>S. let r = read_AddRegion (body_of S c) in
     seq (wrap ''parseControlMsg'' (parseControlMsg c)) (\<lambda>fd.
     if 255 < ar_Index r then fail (ErrMsg ''Invalid memory region index'')
     else seq (intf_of c) (\<lambda>i. upd_if i (\<lambda>I. I\<lparr>i_regions := i_regions I @
            [\<lparr>mr_mapped = False, mr_size = ar_Size r, mr_fd = fd, mr_packetBufferOffset = 0\<rparr>]\<rparr>))))"

definition ring_from :: "MsgAddRing \<Rightarrow> int \<Rightarrow> Queue" where
  "ring_from d fd =
     \<lparr>q_ring = newRing_master (unat (ad_Region d)) (if ad_Flags d AND msgAddRingFlagS2M = msgAddRingFlagS2M then ringTypeS2M else ringTypeM2S)
        (uint (ad_Offset d)) (unat (ad_RingSizeLog2 d)),
      lastHead = 0, lastTail = 0, interruptFd = fd\<rparr>"

definition parseAddRing :: "nat \<Rightarrow> unit act" where
  "parseAddRing c = with_socket (\<lambda>S. let d = read_AddRing (body_of S c) in
     seq (parseControlMsg c) (\<lambda>fd. seq (intf_of c) (\<lambda>i.
     if NumQueuePairs (i_run (s_if S i)) \<le> ad_Index d then fail (ErrMsg ''invalid ring index'')
     else upd_if i (\<lambda>I. if ad_Flags d AND msgAddRingFlagS2M = msgAddRingFlagS2M
            then I\<lparr>i_rxQueues := i_rxQueues I @ [ring_from d fd]\<rparr> else I\<lparr>i_txQueues := i_txQueues I @ [ring_from d fd]\<rparr>))))"

definition check_rx :: "nat \<Rightarrow> nat \<Rightarrow> unit act" where
  "check_rx i j = with_socket (\<lambda>S. case GetRxQueue (s_if S i) (int j) of
     Inl e \<Rightarrow> fail e | Inr q \<Rightarrow> wrap ''Failed to add event: '' addEvent)"

definition parseConnect :: "nat \<Rightarrow> unit act" where
  "parseConnect c = seq (intf_of c) (\<lambda>i.
     seq (with_socket (\<lambda>S. upd_if i (\<lambda>I. I\<lparr>i_peerName := co_Name (read_Connect (body_of S c))\<rparr>))) (\<lambda>_.
     seq (if_connect i) (\<lambda>_.
     seq (with_socket (\<lambda>S. for_each (check_rx i) [0..<unat (NumQueuePairs (i_run (s_if S i)))])) (\<lambda>_.
     upd_cc c (\<lambda>C. C\<lparr>cc_isConnected := True\<rparr>)))))"

definition parseConnected :: "nat \<Rightarrow> unit act" where
  "parseConnected c = seq (intf_of c) (\<lambda>i.
     seq (with_socket (\<lambda>S. upd_if i (\<lambda>I. I\<lparr>i_peerName := cd_Name (read_Connected (body_of S c))\<rparr>))) (\<lambda>_.
     seq (if_connect i) (\<lambda>_. upd_cc c (\<lambda>C. C\<lparr>cc_isConnected := True\<rparr>))))"

definition parseDisconnect :: "nat \<Rightarrow> unit act" where
  "parseDisconnect c = with_socket (\<lambda>S.
     wrap ''Failed to disconnect control channel: '' (cc_close c False (dc_String (read_Disconnect (body_of S c)))))"

text \<open>The messages a slave answers a greeting with: itself, its regions, its rings, and the end.\<close>

definition greet :: "nat \<Rightarrow> unit act" where
  "greet c = seq (parseHello c) (\<lambda>_. seq (intf_of c) (\<lambda>i.
     seq (if_initializeRegions i) (\<lambda>_. seq (if_initializeQueues i) (\<lambda>_. seq (msgEnqInit c) (\<lambda>_. with_socket (\<lambda>S.
     seq (for_each (\<lambda>j. msgEnqAddRegion c (word_of_nat j)) [0..<length (i_regions (s_if S i))]) (\<lambda>_.
     seq (for_each (\<lambda>j. msgEnqAddRing c ringTypeS2M (word_of_nat j)) [0..<unat (NumQueuePairs (i_run (s_if S i)))]) (\<lambda>_.
     seq (for_each (\<lambda>j. msgEnqAddRing c ringTypeM2S (word_of_nat j)) [0..<unat (NumQueuePairs (i_run (s_if S i)))]) (\<lambda>_.
     msgEnqConnect c)))))))))"

definition handle_msg :: "nat \<Rightarrow> u16 \<Rightarrow> unit act" where
  "handle_msg c t =
     (if t = msgTypeHello then greet c
      else if t = msgTypeInit then seq (parseInit c) (\<lambda>_. msgEnqAck c)
      else if t = msgTypeAddRegion then seq (parseAddRegion c) (\<lambda>_. msgEnqAck c)
      else if t = msgTypeAddRing then seq (parseAddRing c) (\<lambda>_. msgEnqAck c)
      else if t = msgTypeConnect then seq (parseConnect c) (\<lambda>_. msgEnqConnected c)
      else if t = msgTypeConnected then parseConnected c
      else if t = msgTypeDisconnect then parseDisconnect c
      else fail (ErrMsg ''unknown message''))"

definition err_text :: "gerr \<Rightarrow> byte list" where
  "err_text e = (case e of ErrMsg s \<Rightarrow> map of_char s | _ \<Rightarrow> [])"

text \<open>An error closes the control channel and tells the peer.\<close>

definition parseMsg :: "nat \<Rightarrow> unit act" where
  "parseMsg c s =
     (let t = msg_type (cc_data (s_cc (fst s) c)) in
      if t = msgTypeAck then ret () s
      else case handle_msg c t s of
        Some (Inl e, s') \<Rightarrow> seq (cc_close c True (err_text e)) (\<lambda>_. fail e) s'
      | r \<Rightarrow> r)"

section \<open>Events\<close>

text \<open>What polling reports, with what \<open>recvmsg\<close> or \<open>accept\<close> gives when it is called.\<close>

record event =
  e_Fd :: int
  e_hup :: bool
  e_err :: bool
  e_in :: bool
  e_recv :: "(byte list \<times> cmsg list option) option"
  e_accept :: "int option"

text \<open>Hang-ups and errors are reported with the name of the interface, which must be there.\<close>

definition cc_handleEvent :: "nat \<Rightarrow> event \<Rightarrow> unit act" where
  "cc_handleEvent c ev =
     (if e_hup ev \<or> e_err ev then
        seq (wrap ''Failed to close control channel after event: '' (cc_close c False [])) (\<lambda>_. seq (intf_of c) (\<lambda>i. fail (ErrMsg ''Hang up'')))
      else if e_in ev then
        (case e_recv ev of
           None \<Rightarrow> fail (ErrMsg ''recvmsg'')
         | Some (bs, ctl) \<Rightarrow>
             seq (upd_cc c (\<lambda>C. C\<lparr>cc_data := copy_into (cc_data C) bs, cc_control := ctl\<rparr>)) (\<lambda>_.
             if length bs \<noteq> msgSize then fail (ErrMsg ''invalid message size'')
             else seq (parseMsg c) (\<lambda>_. sendMsg c)))
      else fail (ErrMsg ''Unexpected event: ''))"

definition listener_close :: "unit act" where
  "listener_close = seq (wrap ''Failed to del event: '' delEvent) (\<lambda>_. seq (syscall ''Failed to close socket: '') (\<lambda>_. ret ()))"

definition listener_handleEvent :: "event \<Rightarrow> unit act" where
  "listener_handleEvent ev =
     (if e_hup ev \<or> e_err ev then
        seq (wrap ''Failed to close listener after event: '' listener_close) (\<lambda>_. fail (ErrMsg ''Hang up''))
      else if e_in ev then
        (case e_accept ev of
           None \<Rightarrow> fail (ErrMsg ''Accept'')
         | Some fd \<Rightarrow> seq (wrap ''Failed to add control channel'' (addControlChannel fd None)) (\<lambda>c.
             seq (msgEnqHello c) (\<lambda>_. sendMsg c)))
      else fail (ErrMsg ''Unexpected event: ''))"

fun find_cc :: "Socket \<Rightarrow> int \<Rightarrow> nat list \<Rightarrow> nat option" where
  "find_cc S fd [] = None"
| "find_cc S fd (c # cs) = (if cc_fd (s_cc S c) = fd then Some c else find_cc S fd cs)"

text \<open>The handler of the interface is the one it was created with.\<close>

definition on_interrupt :: "nat \<Rightarrow> int \<Rightarrow> unit act" where
  "on_interrupt i qid = with_socket (\<lambda>S. case a_InterruptFunc (i_args (s_if S i)) of
     None \<Rightarrow> panic | Some f \<Rightarrow> (case f i qid of None \<Rightarrow> ret () | Some e \<Rightarrow> fail e))"

definition Socket_handleEvent :: "event \<Rightarrow> unit act" where
  "Socket_handleEvent ev = with_socket (\<lambda>S.
     if s_listener S = Some (e_Fd ev) then listener_handleEvent ev
     else case intfQueueEventMap S (e_Fd ev) of
       Some (i, qid) \<Rightarrow> on_interrupt i (uint qid)
     | None \<Rightarrow> (case find_cc S (e_Fd ev) (ccList S) of
         Some c \<Rightarrow> cc_handleEvent c ev
       | None \<Rightarrow> fail (ErrMsg ''fd not found'')))"

section \<open>Operations of a client\<close>

definition IsConnected :: "Socket \<Rightarrow> nat \<Rightarrow> bool" where
  "IsConnected S i = (case i_cc (s_if S i) of None \<Rightarrow> False | Some c \<Rightarrow> cc_isConnected (s_cc S c))"

definition AddListener :: "int \<Rightarrow> unit act" where
  "AddListener fd = seq (wrap ''Failed to add event: '' addEvent) (\<lambda>_. set_socket (\<lambda>S. S\<lparr>s_listener := Some fd\<rparr>))"

definition addListener :: "unit act" where
  "addListener = seq (syscall ''Failed to create UNIX domain socket'') (\<lambda>fd.
     seq (syscall ''Failed to set socket option'') (\<lambda>_. seq (syscall ''Failed to bind socket'') (\<lambda>_.
     seq (syscall ''Failed to listen on socket'') (\<lambda>_. AddListener fd))))"

definition with_defaults :: "MemoryConfig \<Rightarrow> MemoryConfig" where
  "with_defaults m =
     \<lparr>NumQueuePairs = (if NumQueuePairs m = 0 then 1 else NumQueuePairs m),
      Log2RingSize = (if Log2RingSize m = 0 then 10 else Log2RingSize m),
      PacketBufferSize = (if PacketBufferSize m = 0 then 2048 else PacketBufferSize m)\<rparr>"

definition new_interface :: "Arguments \<Rightarrow> Interface" where
  "new_interface args =
     \<lparr>i_args = args\<lparr>a_MemoryConfig := with_defaults (a_MemoryConfig args)\<rparr>,
      i_run = \<lparr>NumQueuePairs = 0, Log2RingSize = 0, PacketBufferSize = 0\<rparr>, i_cc = None, i_remoteName = [], i_peerName = [],
      i_regions = [], i_txQueues = [], i_rxQueues = []\<rparr>"

definition NewInterface :: "Arguments \<Rightarrow> nat act" where
  "NewInterface args = with_socket (\<lambda>S.
     if \<exists>i \<in> set (interfaceList S). a_Id (i_args (s_if S i)) = a_Id args \<and> a_IsMaster (i_args (s_if S i)) = a_IsMaster args
     then fail (ErrMsg ''Interface already exists on this socket'')
     else let i = s_next S in
       seq (set_socket (\<lambda>S. S\<lparr>s_if := (s_if S)(i := new_interface args), s_next := i + 1, interfaceList := interfaceList S @ [i]\<rparr>)) (\<lambda>_.
       if a_IsMaster args \<and> s_listener S = None
       then seq (wrap ''Failed to create listener channel'' addListener) (\<lambda>_. ret i) else ret i))"

definition RequestConnection :: "nat \<Rightarrow> unit act" where
  "RequestConnection i = with_socket (\<lambda>S.
     if a_IsMaster (i_args (s_if S i)) then fail (ErrMsg ''Only slave can request connection'')
     else seq (syscall ''Failed to create UNIX domain socket'') (\<lambda>fd. seq (syscall ''Failed to connect socket'') (\<lambda>_ s.
       case addControlChannel fd (Some i) s of
         None \<Rightarrow> None
       | Some (Inl e, s') \<Rightarrow> seq (upd_if i (\<lambda>I. I\<lparr>i_cc := None\<rparr>)) (\<lambda>_. fail (ErrMsg ''Failed to create control channel'')) s'
       | Some (Inr c, s') \<Rightarrow> upd_if i (\<lambda>I. I\<lparr>i_cc := Some c\<rparr>) s')))"

definition if_Disconnect :: "nat \<Rightarrow> unit act" where
  "if_Disconnect i = with_socket (\<lambda>S. case i_cc (s_if S i) of
     None \<Rightarrow> ret () | Some c \<Rightarrow> cc_close c True (map of_char ''Interface disconnected''))"

text \<open>Whether disconnecting failed is ignored.\<close>

definition if_Delete :: "nat \<Rightarrow> unit act" where
  "if_Delete i s =
     (case if_Disconnect i s of
        None \<Rightarrow> None
      | Some (_, s') \<Rightarrow> set_socket (\<lambda>S. S\<lparr>interfaceList := remove1 i (interfaceList S)\<rparr>) s')"

text \<open>
  A list element that was removed has no successor: the loops over the control channels and over the
  interfaces end with the first element, which closing and deleting remove. When closing the control
  channel fails, no error is returned.
\<close>

definition delete_first_cc :: "bool act" where
  "delete_first_cc = with_socket (\<lambda>S. case ccList S of
     [] \<Rightarrow> ret True
   | c # _ \<Rightarrow> (\<lambda>s. case cc_close c True (map of_char ''Socket deleted'') s of
       None \<Rightarrow> None | Some (Inl e, s') \<Rightarrow> ret False s' | Some (Inr _, s') \<Rightarrow> ret True s'))"

definition delete_first_if :: "unit act" where
  "delete_first_if = with_socket (\<lambda>S. case interfaceList S of [] \<Rightarrow> ret () | i # _ \<Rightarrow> if_Delete i)"

text \<open>Removing the file of the listener may fail as well, without an error.\<close>

definition Socket_Delete :: "unit act" where
  "Socket_Delete = seq delete_first_cc (\<lambda>go.
     if \<not> go then ret ()
     else seq delete_first_if (\<lambda>_. with_socket (\<lambda>S.
          if s_listener S = None then wrap ''Failed to delete event: '' delEvent
          else seq listener_close (\<lambda>_ s. let (ok, _, k') = sys (snd s); s' = (fst s, k') in
                 if ok then wrap ''Failed to delete event: '' delEvent s' else ret () s'))))"

text \<open>A new socket; that creating the descriptors fails shows only in the last call.\<close>

definition new_socket :: "byte list \<Rightarrow> int \<Rightarrow> Socket" where
  "new_socket name efd =
     \<lparr>appName = name, s_listener = None, intfQueueEventMap = (\<lambda>_. None), interfaceList = [], ccList = [], wakeFd = efd,
      s_if = (\<lambda>_. undefined), s_cc = (\<lambda>_. undefined), s_next = 0\<rparr>"

definition NewSocket :: "byte list \<Rightarrow> kernel \<Rightarrow> (gerr + Socket) \<times> kernel" where
  "NewSocket name k =
     (let (ok1, epfd, k1) = sys k; (ok2, efd, k2) = sys k1; (ok3, _, k3) = sys k2 in
      (if ok3 then Inr (new_socket name (if ok2 then efd else - 1)) else Inl (ErrMsg ''Failed to add event: ''), k3))"

end
