(* ===== verification/PacketQueue.thy ===== *)
theory PacketQueue
  imports GovppPrelude
begin

text \<open>
  A bounded queue of packets between two parties, as the locale states it: sending a packet accepts
  it or leaves the queue alone, receiving takes the oldest packet. The lemma is about all
  interleavings of the two sides.
\<close>

datatype queue_op = Send "byte list" | Recv

text \<open>The packets accepted and received by a sequence of operations.\<close>

fun run_queue ::
  "(byte list \<Rightarrow> 's \<Rightarrow> (int \<times> 's) option) \<Rightarrow> ('s \<Rightarrow> (byte list \<times> 's) option) \<Rightarrow> queue_op list \<Rightarrow> 's \<Rightarrow>
     (byte list list \<times> byte list list \<times> 's) option" where
  "run_queue snd_op rcv_op [] s = Some ([], [], s)"
| "run_queue snd_op rcv_op (Send p # ops) s =
     do { (n, s') \<leftarrow> snd_op p s;
          (acc, rcv, s'') \<leftarrow> run_queue snd_op rcv_op ops s';
          Some ((if n = 0 then acc else p # acc), rcv, s'') }"
| "run_queue snd_op rcv_op (Recv # ops) s =
     do { (p, s') \<leftarrow> rcv_op s;
          (acc, rcv, s'') \<leftarrow> run_queue snd_op rcv_op ops s';
          Some (acc, (if p = [] then rcv else p # rcv), s'') }"

locale packet_queue =
  fixes snd_op :: "byte list \<Rightarrow> 's \<Rightarrow> (int \<times> 's) option"
    and rcv_op :: "'s \<Rightarrow> (byte list \<times> 's) option"
    and inv :: "'s \<Rightarrow> nat \<Rightarrow> byte list list \<Rightarrow> bool"
    and ok :: "byte list \<Rightarrow> bool"
    and cap :: nat
  assumes snd_op: "inv s c ps \<Longrightarrow> ok p \<Longrightarrow>
      \<exists>s'. snd_op p s = Some (if length ps < c then int (length p) else 0, s') \<and>
        inv s' c (if length ps < c then ps @ [p] else ps)"
    and rcv_op: "inv s c ps \<Longrightarrow>
      \<exists>s'. rcv_op s = Some (case ps of [] \<Rightarrow> [] | p # ps' \<Rightarrow> p, s') \<and> inv s' cap (tl ps)"
    and inv_le: "inv s c ps \<Longrightarrow> length ps \<le> c \<and> c \<le> cap"
    and ok_inv: "inv s c ps \<Longrightarrow> p \<in> set ps \<Longrightarrow> p \<noteq> []"
    and ok_nonempty: "ok p \<Longrightarrow> p \<noteq> []"
begin

text \<open>No operation fails, and what was received and what is left is what was there and accepted.\<close>

lemma fifo:
  assumes "inv s c ps" "\<And>p. Send p \<in> set ops \<Longrightarrow> ok p"
  shows "\<exists>acc rcv s' c' qs. run_queue snd_op rcv_op ops s = Some (acc, rcv, s') \<and> inv s' c' qs \<and>
    ps @ acc = rcv @ qs \<and> length qs \<le> cap"
  using assms
proof (induction ops arbitrary: s c ps)
  case Nil
  then show ?case using inv_le [OF Nil.prems(1)] by (auto intro!: exI [of _ c])
next
  case (Cons oper ops)
  show ?case
  proof (cases oper)
    case (Send p)
    from Cons.prems(2) Send have p: "ok p" by simp
    from snd_op [OF Cons.prems(1) p] obtain s1 where
      s1: "snd_op p s = Some (if length ps < c then int (length p) else 0, s1)"
      "inv s1 c (if length ps < c then ps @ [p] else ps)" by blast
    from Cons.IH [OF s1(2)] Cons.prems(2) obtain acc rcv s' c' qs where
      r: "run_queue snd_op rcv_op ops s1 = Some (acc, rcv, s')" "inv s' c' qs"
      "(if length ps < c then ps @ [p] else ps) @ acc = rcv @ qs" "length qs \<le> cap" by auto
    show ?thesis
      using r s1(1) ok_nonempty [OF p] Send
      by (intro exI [of _ "if length ps < c then p # acc else acc"] exI [of _ rcv] exI [of _ s'] exI [of _ c'] exI [of _ qs]) auto
  next
    case Recv
    from rcv_op [OF Cons.prems(1)] obtain s1 where
      s1: "rcv_op s = Some (case ps of [] \<Rightarrow> [] | p # ps' \<Rightarrow> p, s1)" "inv s1 cap (tl ps)" by blast
    from Cons.IH [OF s1(2)] Cons.prems(2) obtain acc rcv s' c' qs where
      r: "run_queue snd_op rcv_op ops s1 = Some (acc, rcv, s')" "inv s' c' qs" "tl ps @ acc = rcv @ qs" "length qs \<le> cap" by auto
    have ne: "\<And>p ps'. ps = p # ps' \<Longrightarrow> p \<noteq> []" using ok_inv [OF Cons.prems(1)] by auto
    show ?thesis
      using r s1(1) Recv ne
      by (intro exI [of _ acc] exI [of _ "if ps = [] then rcv else hd ps # rcv"] exI [of _ s'] exI [of _ c'] exI [of _ qs])
        (cases ps; simp)
  qed
qed

end

end
