(* ===== verification/MemifRingProps.thy ===== *)
theory MemifRingProps
  imports MemifRing PacketQueue
begin

text \<open>
  A ring is a first-in-first-out queue of packets. The layout of a ring says where its header, its
  descriptors and its packet buffers lie; the positions of the reader and the writer run modulo
  \<open>2 ^ 16\<close> over slots modulo the size of the ring.
\<close>

section \<open>Layouts\<close>

record layout =
  l_region :: nat
  l_base :: nat
  l_log2 :: nat
  l_buf :: "nat \<Rightarrow> nat \<times> nat"
  l_bufSize :: nat

definition ring_area :: "layout \<Rightarrow> nat \<times> nat \<times> nat" where
  "ring_area L = (l_region L, l_base L, 128 + 16 * 2 ^ l_log2 L)"

definition buf_area :: "layout \<Rightarrow> nat \<Rightarrow> nat \<times> nat \<times> nat" where
  "buf_area L j = (fst (l_buf L j), snd (l_buf L j), l_bufSize L)"

definition layout_ok :: "layout \<Rightarrow> nat list \<Rightarrow> bool" where
  "layout_ok L sizes \<longleftrightarrow> l_log2 L \<le> 15 \<and> inside sizes (ring_area L) \<and>
     (\<forall>j < 2 ^ l_log2 L. fst (l_buf L j) < 2 ^ 16 \<and> snd (l_buf L j) + l_bufSize L < 2 ^ 32 \<and>
        inside sizes (buf_area L j) \<and> apart (buf_area L j) (ring_area L)) \<and>
     (\<forall>i < 2 ^ l_log2 L. \<forall>j < 2 ^ l_log2 L. i \<noteq> j \<longrightarrow> apart (buf_area L i) (buf_area L j))"

definition placed :: "layout \<Rightarrow> Queue \<Rightarrow> bool" where
  "placed L q \<longleftrightarrow> rg_region (q_ring q) = l_region L \<and> rg_offset (q_ring q) = int (l_base L) \<and>
     rg_size (q_ring q) = 2 ^ l_log2 L"

definition desc_of :: "layout \<Rightarrow> regions \<Rightarrow> nat \<Rightarrow> byte list option" where
  "desc_of L M j = rd M (l_region L) (l_base L + 128 + 16 * j) 16"

definition pos_of :: "layout \<Rightarrow> regions \<Rightarrow> nat \<Rightarrow> u16 option" where
  "pos_of L M off = map_option le_word (rd M (l_region L) (l_base L + off) 2)"

text \<open>A descriptor refers to the buffer of its slot.\<close>

definition refers :: "layout \<Rightarrow> nat \<Rightarrow> byte list \<Rightarrow> bool" where
  "refers L j d \<longleftrightarrow> unat (getRegion d) = fst (l_buf L j) \<and> unat (getOffset_desc d) = snd (l_buf L j)"

definition slots_ok :: "layout \<Rightarrow> regions \<Rightarrow> bool" where
  "slots_ok L M \<longleftrightarrow> (\<forall>j < 2 ^ l_log2 L. \<exists>d. desc_of L M j = Some d \<and> refers L j d)"

text \<open>A packet in one buffer.\<close>

definition holds :: "layout \<Rightarrow> regions \<Rightarrow> nat \<Rightarrow> byte list \<Rightarrow> bool" where
  "holds L M j p \<longleftrightarrow> (\<exists>d. desc_of L M j = Some d \<and> getFlags d AND descFlagNext \<noteq> descFlagNext \<and>
     unat (getLength d) = length p \<and> length p \<le> l_bufSize L \<and>
     rd M (fst (l_buf L j)) (snd (l_buf L j)) (length p) = Some p)"

definition slot_at :: "layout \<Rightarrow> u16 \<Rightarrow> nat \<Rightarrow> nat" where
  "slot_at L rp i = (unat rp + i) mod 2 ^ l_log2 L"

definition queued :: "layout \<Rightarrow> regions \<Rightarrow> u16 \<Rightarrow> byte list list \<Rightarrow> bool" where
  "queued L M rp ps \<longleftrightarrow> length ps \<le> 2 ^ l_log2 L \<and> (\<forall>i < length ps. holds L M (slot_at L rp i) (ps ! i))"

section \<open>Descriptors\<close>

lemma le_at_put_other:
  "a + n \<le> b \<or> b + length ys \<le> a \<Longrightarrow> b + length ys \<le> length xs \<Longrightarrow> le_at a n (put_at b ys xs) = le_at a n xs"
  unfolding le_at_def by (auto simp: take_drop_put_at_before take_drop_put_at_after)

lemma le_at_put_same:
  fixes w :: "'a::len word"
  assumes "b + n \<le> length xs" "LENGTH('a) \<le> 8 * n"
  shows "le_at b n (put_at b (le_bytes n w) xs) = w"
  unfolding le_at_def using read_put_at [of b "le_bytes n w" xs] assms by (simp add: le_roundtrip)

lemmas desc_defs = getFlags_def getRegion_def getLength_def getOffset_desc_def getMetadata_def
  setFlags_def setRegion_def setLength_def setOffset_def setMetadata_def

lemma desc_lengths [simp]:
  "length d = 16 \<Longrightarrow> length (setFlags v d) = 16" "length d = 16 \<Longrightarrow> length (setRegion v d) = 16"
  "length d = 16 \<Longrightarrow> length (setLength w d) = 16" "length d = 16 \<Longrightarrow> length (setOffset w d) = 16"
  "length d = 16 \<Longrightarrow> length (setMetadata w d) = 16"
  by (simp_all add: desc_defs)

lemma desc_fields [simp]:
  assumes "length d = 16"
  shows "getFlags (setFlags v d) = v" "getRegion (setFlags v d) = getRegion d" "getLength (setFlags v d) = getLength d"
    "getOffset_desc (setFlags v d) = getOffset_desc d" "getFlags (setRegion v d) = getFlags d" "getRegion (setRegion v d) = v"
    "getLength (setRegion v d) = getLength d" "getOffset_desc (setRegion v d) = getOffset_desc d"
    "getFlags (setLength w d) = getFlags d" "getRegion (setLength w d) = getRegion d" "getLength (setLength w d) = w"
    "getOffset_desc (setLength w d) = getOffset_desc d" "getFlags (setOffset w d) = getFlags d"
    "getRegion (setOffset w d) = getRegion d" "getLength (setOffset w d) = getLength d" "getOffset_desc (setOffset w d) = w"
  using assms by (simp_all add: desc_defs le_at_put_same le_at_put_other)

lemma length_newDescBuf [simp]: "length newDescBuf = 16"
  by (simp add: newDescBuf_def descSize_def)

section \<open>Accesses of a placed queue\<close>

lemma ring_mask_pow:
  assumes "placed L q" "l_log2 L \<le> 15" "0 \<le> s"
  shows "s AND ring_mask (q_ring q) = s mod 2 ^ l_log2 L"
proof -
  have "(2::int) ^ l_log2 L \<le> 2 ^ 15" using assms(2) by (intro power_increasing) simp_all
  moreover have "uint (word_of_int (2 ^ l_log2 L - 1) :: u32) = (2 ^ l_log2 L - 1) mod 2 ^ 32"
    using uint_word_of_int [of "2 ^ l_log2 L - 1", where 'a = 32] by simp
  ultimately have "uint (word_of_int (2 ^ l_log2 L - 1) :: u32) = 2 ^ l_log2 L - 1"
    by (simp only:) (rule mod_pos_pos_trivial; simp)
  then have "ring_mask (q_ring q) = 2 ^ l_log2 L - 1"
    using assms(1) unfolding ring_mask_def placed_def by simp
  then show ?thesis by (simp flip: mask_eq_exp_minus_1 take_bit_eq_mask add: take_bit_eq_mod)
qed

lemma ring_slot:
  "placed L q \<Longrightarrow> l_log2 L \<le> 15 \<Longrightarrow> int n AND ring_mask (q_ring q) = int (n mod 2 ^ l_log2 L)"
  by (simp add: ring_mask_pow zmod_int)

text \<open>A position that wraps at 16 bits falls on the same slot.\<close>

lemma slot_at_plus:
  assumes "l_log2 L \<le> 15"
  shows "slot_at L (rp + of_nat i) j = slot_at L rp (i + j)"
proof -
  let ?N = "2 ^ l_log2 L :: nat"
  have d: "?N dvd 2 ^ 16" using assms by (intro le_imp_power_dvd) simp
  have "unat (rp + of_nat i) = (unat rp + i) mod 2 ^ 16" by (simp add: unat_word_ariths unat_of_nat mod_add_right_eq)
  then have "(unat (rp + of_nat i) + j) mod ?N = ((unat rp + i) mod 2 ^ 16 mod ?N + j) mod ?N"
    by (simp only: mod_add_left_eq)
  also have "\<dots> = (unat rp + i + j) mod ?N" by (simp only: mod_mod_cancel [OF d] mod_add_left_eq)
  finally show ?thesis by (simp add: slot_at_def add.assoc)
qed

lemma slot_at_less: "slot_at L rp i < 2 ^ l_log2 L"
  by (simp add: slot_at_def)

lemma slot_at_inj:
  assumes "slot_at L rp i = slot_at L rp j" "i < 2 ^ l_log2 L" "j < 2 ^ l_log2 L"
  shows "i = j"
proof -
  have le: "i = j" if "slot_at L rp i = slot_at L rp j" "i \<le> j" "j < 2 ^ l_log2 L" for i j
  proof -
    from that(1,2) have "2 ^ l_log2 L dvd j - i"
      using mod_eq_dvd_iff_nat [of "unat rp + i" "unat rp + j" "2 ^ l_log2 L"] by (simp add: slot_at_def)
    with that(2,3) show ?thesis using dvd_imp_le [of "2 ^ l_log2 L" "j - i"] by fastforce
  qed
  show ?thesis using le [of i j] le [of j i] assms by (cases "i \<le> j") simp_all
qed

lemma getDescBuf_placed:
  assumes "placed L q" "desc_of L M j = Some d" "length db = 16"
  shows "getDescBuf M q (int j) db = Some d"
proof -
  have p: "desc_pos q (int j) = int (l_base L + 128 + 16 * j)"
    using assms(1) by (simp add: desc_pos_def placed_def ringSize_def descSize_def)
  from assms(2) have r: "l_region L < length M" "l_base L + 128 + 16 * j + 16 \<le> length (M ! l_region L)"
    "d = take 16 (drop (l_base L + 128 + 16 * j) (M ! l_region L))" by (auto simp: desc_of_def rd_def split: if_splits)
  have q: "rg_region (q_ring q) = l_region L" using assms(1) by (simp add: placed_def)
  show ?thesis unfolding getDescBuf_def p q copy_from_def nat_int copy_into_def
    using r assms(3) by simp
qed

lemma putDescBuf_placed:
  assumes "placed L q" "length db = 16"
  shows "putDescBuf M q (int j) db =
    (if inside (map length M) (l_region L, l_base L + 128 + 16 * j, 16)
     then wr M (l_region L) (l_base L + 128 + 16 * j) db else putDescBuf M q (int j) db)"
proof -
  have p: "desc_pos q (int j) = int (l_base L + 128 + 16 * j)"
    using assms(1) by (simp add: desc_pos_def placed_def ringSize_def descSize_def)
  have q: "rg_region (q_ring q) = l_region L" using assms(1) by (simp add: placed_def)
  show ?thesis unfolding putDescBuf_def p q copy_to_def nat_int using assms(2) by auto
qed

lemma peek16_placed:
  assumes "placed L q"
  shows "peek16 M q (int off) = pos_of L M off"
proof -
  have "rg_offset (q_ring q) + int off = int (l_base L + off)" "rg_region (q_ring q) = l_region L"
    using assms by (simp_all add: placed_def)
  then show ?thesis unfolding peek16_def pos_of_def Let_def by (simp only: nat_int of_nat_0_le_iff if_True)
qed

lemma poke16_placed:
  assumes "placed L q"
  shows "poke16 M q (int off) v = wr M (l_region L) (l_base L + off) (le_bytes 2 (word_of_int v :: u16))"
proof -
  have "rg_offset (q_ring q) + int off = int (l_base L + off)" "rg_region (q_ring q) = l_region L"
    using assms by (simp_all add: placed_def)
  then show ?thesis unfolding poke16_def Let_def by (simp only: nat_int of_nat_0_le_iff if_True)
qed

lemma ring_words_placed:
  assumes "placed L q"
  shows "readHead M q = map_option uint (pos_of L M 6)" "readTail M q = map_option uint (pos_of L M 64)"
    "queue_getFlags M q = map_option uint (pos_of L M 4)"
    "writeHead M q v = wr M (l_region L) (l_base L + 6) (le_bytes 2 (word_of_int v :: u16))"
    "writeTail M q v = wr M (l_region L) (l_base L + 64) (le_bytes 2 (word_of_int v :: u16))"
    "setDescLength M q (int j) v = wr M (l_region L) (l_base L + 128 + 16 * j + 4) (le_bytes 2 (word_of_int v :: u16))"
  using peek16_placed [OF assms, of M 6] peek16_placed [OF assms, of M 64] peek16_placed [OF assms, of M 4]
    poke16_placed [OF assms, of M 6 v] poke16_placed [OF assms, of M 64 v]
    poke16_placed [OF assms, of M "128 + 16 * j + 4" v]
  by (simp_all add: readHead_def readTail_def queue_getFlags_def writeHead_def writeTail_def setDescLength_def
      ringSize_def descSize_def add.assoc mult.commute)

lemma pos_of_inside:
  assumes "layout_ok L (map length M)" "off + 2 \<le> 128"
  shows "\<exists>w. pos_of L M off = Some w"
proof -
  have "inside (map length M) (l_region L, l_base L + off, 2)" using assms by (auto simp: layout_ok_def ring_area_def)
  then show ?thesis unfolding pos_of_def using rd_inside by (metis option.map_disc_iff option.exhaust)
qed

lemma interrupt_placed:
  "placed L q \<Longrightarrow> layout_ok L (map length M) \<Longrightarrow> \<exists>w. interrupt M q = Some w"
  using pos_of_inside [of L M 4] by (auto simp: interrupt_def isInterrupt_def ring_words_placed)

lemma buf_slice_of_rd:
  assumes "unat (getOffset_desc d) + unat len < 2 ^ 32"
  shows "buf_slice_of M d len = rd M (unat (getRegion d)) (unat (getOffset_desc d)) (unat len)"
proof -
  have "unat (getOffset_desc d + len) = unat (getOffset_desc d) + unat len"
    using assms by (subst unat_plus_if') simp
  then have A: "uint (getOffset_desc d + len) = int (unat (getOffset_desc d)) + int (unat len)"
    by (simp only: uint_nat of_nat_add)
  have B: "uint (getOffset_desc d) = int (unat (getOffset_desc d))" by (rule uint_nat)
  show ?thesis unfolding buf_slice_of_def rd_def Let_def A B slice_of_nat by simp
qed

lemma fill_buf_wr:
  assumes "unat (getOffset_desc d) + unat len < 2 ^ 32" "length bs \<le> unat len"
    and "inside (map length M) (unat (getRegion d), unat (getOffset_desc d), unat len)"
  shows "fill_buf M d len bs = map_option (\<lambda>M'. (int (length bs), M')) (wr M (unat (getRegion d)) (unat (getOffset_desc d)) bs)"
proof -
  obtain dst where "rd M (unat (getRegion d)) (unat (getOffset_desc d)) (unat len) = Some dst" "length dst = unat len"
    using assms(3) by (rule rdE)
  then show ?thesis using assms(2)
    by (simp add: fill_buf_def buf_slice_of_rd [OF assms(1)] map_option_case split: option.split)
qed

section \<open>Filling one slot\<close>

text \<open>What putting a packet into slot \<open>j\<close> changes.\<close>

definition filled :: "layout \<Rightarrow> regions \<Rightarrow> nat \<Rightarrow> byte list \<Rightarrow> regions \<Rightarrow> bool" where
  "filled L M j p M' \<longleftrightarrow> map length M' = map length M \<and> slots_ok L M' \<and> holds L M' j p \<and>
     (\<forall>i < 2 ^ l_log2 L. i \<noteq> j \<longrightarrow> desc_of L M' i = desc_of L M i) \<and>
     (\<forall>i < 2 ^ l_log2 L. \<forall>p'. i \<noteq> j \<longrightarrow> holds L M i p' \<longrightarrow> holds L M' i p') \<and>
     (\<forall>off. off + 2 \<le> 128 \<longrightarrow> pos_of L M' off = pos_of L M off)"

lemma layout_inside:
  assumes "layout_ok L sizes" "j < 2 ^ l_log2 L"
  shows "inside sizes (l_region L, l_base L + 128 + 16 * j, 16)"
    "inside sizes (fst (l_buf L j), snd (l_buf L j), l_bufSize L)"
    "snd (l_buf L j) + l_bufSize L < 2 ^ 32"
    "apart (fst (l_buf L j), snd (l_buf L j), l_bufSize L) (l_region L, l_base L, 128 + 16 * 2 ^ l_log2 L)"
  using assms by (auto simp: layout_ok_def ring_area_def buf_area_def inside_iff)

lemma layout_bufs_apart:
  assumes "layout_ok L sizes" "i < 2 ^ l_log2 L" "j < 2 ^ l_log2 L" "i \<noteq> j"
  shows "apart (fst (l_buf L i), snd (l_buf L i), l_bufSize L) (fst (l_buf L j), snd (l_buf L j), l_bufSize L)"
  using assms by (auto simp: layout_ok_def buf_area_def)

lemma desc_apart: "(i::nat) \<noteq> j \<Longrightarrow> apart (r, b + 128 + 16 * i, 16) (r, b + 128 + 16 * j, 16)"
  by auto

lemma desc_of_length: "desc_of L M j = Some d \<Longrightarrow> length d = 16"
  by (auto simp: desc_of_def dest: rd_length)

text \<open>
  Writes to the buffer of slot \<open>j\<close> and to its descriptor, seen from everywhere else.
\<close>

lemma buffer_write:
  assumes ok: "layout_ok L (map length M)" and j: "j < 2 ^ l_log2 L" and p: "length p \<le> l_bufSize L"
  obtains M' where "wr M (fst (l_buf L j)) (snd (l_buf L j)) p = Some M'" "map length M' = map length M"
    "\<And>i. i < 2 ^ l_log2 L \<Longrightarrow> desc_of L M' i = desc_of L M i"
    "\<And>off. off + 2 \<le> 128 \<Longrightarrow> pos_of L M' off = pos_of L M off"
    "rd M' (fst (l_buf L j)) (snd (l_buf L j)) (length p) = Some p"
    "\<And>i n. i < 2 ^ l_log2 L \<Longrightarrow> i \<noteq> j \<Longrightarrow> n \<le> l_bufSize L \<Longrightarrow>
       rd M' (fst (l_buf L i)) (snd (l_buf L i)) n = rd M (fst (l_buf L i)) (snd (l_buf L i)) n"
proof -
  have "inside (map length M) (fst (l_buf L j), snd (l_buf L j), length p)"
    using layout_inside(2) [OF ok j] p by auto
  then obtain M' where w: "wr M (fst (l_buf L j)) (snd (l_buf L j)) p = Some M'" "map length M' = map length M"
    "rd M' (fst (l_buf L j)) (snd (l_buf L j)) (length p) = Some p"
    "\<And>r b n. apart (fst (l_buf L j), snd (l_buf L j), length p) (r, b, n) \<Longrightarrow> rd M' r b n = rd M r b n"
    by (rule wrE) (rule that)
  show thesis
  proof (rule that [OF w(1,2) _ _ w(3)])
    show "desc_of L M' i = desc_of L M i" if "i < 2 ^ l_log2 L" for i
      unfolding desc_of_def by (rule w(4)) (use layout_inside(4) [OF ok j] p that in auto)
    show "pos_of L M' off = pos_of L M off" if "off + 2 \<le> 128" for off
    proof -
      have "rd M' (l_region L) (l_base L + off) 2 = rd M (l_region L) (l_base L + off) 2"
        by (rule w(4)) (use layout_inside(4) [OF ok j] p that in auto)
      then show ?thesis by (simp add: pos_of_def)
    qed
    show "rd M' (fst (l_buf L i)) (snd (l_buf L i)) n = rd M (fst (l_buf L i)) (snd (l_buf L i)) n"
      if "i < 2 ^ l_log2 L" "i \<noteq> j" "n \<le> l_bufSize L" for i n
      by (rule w(4)) (use layout_bufs_apart [OF ok that(1) j that(2)] p that(3) in auto)
  qed
qed

lemma desc_write:
  assumes ok: "layout_ok L (map length M)" and j: "j < 2 ^ l_log2 L" and d: "length d = 16"
  obtains M' where "wr M (l_region L) (l_base L + 128 + 16 * j) d = Some M'" "map length M' = map length M"
    "desc_of L M' j = Some d" "\<And>i. i \<noteq> j \<Longrightarrow> desc_of L M' i = desc_of L M i"
    "\<And>off. off + 2 \<le> 128 \<Longrightarrow> pos_of L M' off = pos_of L M off"
    "\<And>i n. i < 2 ^ l_log2 L \<Longrightarrow> n \<le> l_bufSize L \<Longrightarrow>
       rd M' (fst (l_buf L i)) (snd (l_buf L i)) n = rd M (fst (l_buf L i)) (snd (l_buf L i)) n"
proof -
  have "inside (map length M) (l_region L, l_base L + 128 + 16 * j, length d)"
    using layout_inside(1) [OF ok j] d by auto
  then obtain M' where w: "wr M (l_region L) (l_base L + 128 + 16 * j) d = Some M'" "map length M' = map length M"
    "rd M' (l_region L) (l_base L + 128 + 16 * j) (length d) = Some d"
    "\<And>r b n. apart (l_region L, l_base L + 128 + 16 * j, length d) (r, b, n) \<Longrightarrow> rd M' r b n = rd M r b n"
    by (rule wrE) (rule that)
  show thesis
  proof (rule that [OF w(1,2)])
    show "desc_of L M' j = Some d" using w(3) d by (simp add: desc_of_def)
    show "desc_of L M' i = desc_of L M i" if "i \<noteq> j" for i
      unfolding desc_of_def by (rule w(4)) (use desc_apart [of j i] that d in auto)
    show "pos_of L M' off = pos_of L M off" if "off + 2 \<le> 128" for off
    proof -
      have "rd M' (l_region L) (l_base L + off) 2 = rd M (l_region L) (l_base L + off) 2"
        by (rule w(4)) (use that in auto)
      then show ?thesis by (simp add: pos_of_def)
    qed
    show "rd M' (fst (l_buf L i)) (snd (l_buf L i)) n = rd M (fst (l_buf L i)) (snd (l_buf L i)) n"
      if "i < 2 ^ l_log2 L" "n \<le> l_bufSize L" for i n
      by (rule w(4)) (use layout_inside(4) [OF ok that(1)] j that(2) d in auto)
  qed
qed

text \<open>
  The first part of a packet in the buffer of slot \<open>j\<close>, before the descriptor is put: a packet longer
  than the buffer is cut.
\<close>

lemma tx_fill_one:
  assumes ok: "layout_ok L (map length M)" and pl: "placed L q" and sl: "slots_ok L M" and j: "j = s mod 2 ^ l_log2 L"
    and p: "p = take (l_bufSize L) pkt" and db: "length db = 16"
    and size: "isMaster \<Longrightarrow> unat (getLength (the (desc_of L M j))) = l_bufSize L"
    and size': "\<not> isMaster \<Longrightarrow> unat bufSize = l_bufSize L"
  obtains d1 M1 where "tx_fill isMaster bufSize M q (int s) db pkt = Some (int (length p), d1, M1)"
    "length d1 = 16" "refers L j d1" "getFlags d1 = 0" "unat (getLength d1) = length p"
    "map length M1 = map length M"
    "\<And>i. i < 2 ^ l_log2 L \<Longrightarrow> desc_of L M1 i = desc_of L M i" "\<And>off. off + 2 \<le> 128 \<Longrightarrow> pos_of L M1 off = pos_of L M off"
    "rd M1 (fst (l_buf L j)) (snd (l_buf L j)) (length p) = Some p"
    "\<And>i n. i < 2 ^ l_log2 L \<Longrightarrow> i \<noteq> j \<Longrightarrow> n \<le> l_bufSize L \<Longrightarrow>
       rd M1 (fst (l_buf L i)) (snd (l_buf L i)) n = rd M (fst (l_buf L i)) (snd (l_buf L i)) n"
proof -
  from ok have k: "l_log2 L \<le> 15" by (simp add: layout_ok_def)
  have jN: "j < 2 ^ l_log2 L" by (simp add: j)
  have slot: "int s AND ring_mask (q_ring q) = int j" by (simp add: j ring_slot [OF pl k])
  from sl jN obtain d where d: "desc_of L M j = Some d" "refers L j d" by (auto simp: slots_ok_def)
  from desc_of_length [OF d(1)] have ld: "length d = 16" .
  have pP: "length p \<le> l_bufSize L" by (simp add: p)
  let ?d2 = "setLength 0 (setFlags 0 d)" and ?len = "if isMaster then getLength d else bufSize"
  have len: "unat ?len = l_bufSize L" using size size' d(1) by (cases isMaster) auto
  have at: "unat (getRegion ?d2) = fst (l_buf L j)" "unat (getOffset_desc ?d2) = snd (l_buf L j)"
    using d(2) ld by (simp_all add: refers_def)
  obtain M1 where M1: "wr M (fst (l_buf L j)) (snd (l_buf L j)) p = Some M1" "map length M1 = map length M"
    "\<And>i. i < 2 ^ l_log2 L \<Longrightarrow> desc_of L M1 i = desc_of L M i" "\<And>off. off + 2 \<le> 128 \<Longrightarrow> pos_of L M1 off = pos_of L M off"
    "rd M1 (fst (l_buf L j)) (snd (l_buf L j)) (length p) = Some p"
    "\<And>i n. i < 2 ^ l_log2 L \<Longrightarrow> i \<noteq> j \<Longrightarrow> n \<le> l_bufSize L \<Longrightarrow>
       rd M1 (fst (l_buf L i)) (snd (l_buf L i)) n = rd M (fst (l_buf L i)) (snd (l_buf L i)) n"
    by (rule buffer_write [OF ok jN pP]) (rule that)
  have "fill_buf M ?d2 ?len p = Some (int (length p), M1)"
    using fill_buf_wr [of ?d2 ?len p M, unfolded at len] layout_inside(2,3) [OF ok jN] pP M1(1) by simp
  moreover have "fill_buf M ?d2 ?len pkt = fill_buf M ?d2 ?len p"
  proof -
    obtain dst where "rd M (unat (getRegion ?d2)) (unat (getOffset_desc ?d2)) (unat ?len) = Some dst" "length dst = l_bufSize L"
      unfolding at len using layout_inside(2) [OF ok jN] by (rule rdE)
    moreover have "unat (getOffset_desc ?d2) + unat ?len < 2 ^ 32" unfolding at len by (rule layout_inside(3) [OF ok jN])
    ultimately show ?thesis unfolding fill_buf_def by (simp add: buf_slice_of_rd p Let_def)
  qed
  ultimately have fill: "fill_buf M ?d2 ?len pkt = Some (int (length p), M1)" by simp
  let ?d1 = "setLength (word_of_int (int (length p))) ?d2"
  have "length p < 2 ^ 32" using pP layout_inside(3) [OF ok jN] by simp
  then have glen: "unat (getLength ?d1) = length p" using ld by (simp add: unat_of_nat take_bit_nat_eq_self_iff)
  have t: "tx_fill isMaster bufSize M q (int s) db pkt = Some (int (length p), ?d1, M1)"
    using fill ld unfolding tx_fill_def slot
    by (cases isMaster) (simp_all add: getDescBuf_placed [OF pl d(1) db] Let_def)
  show thesis
    by (rule that [OF t _ _ _ glen M1(2-6)]) (use ld d(2) in \<open>simp_all add: refers_def\<close>)
qed

lemma put_desc_at:
  assumes ok: "layout_ok L (map length M)" and pl: "placed L q" and j: "j < 2 ^ l_log2 L" and d: "length d = 16"
  obtains M' where "putDescBuf M q (int j) d = Some M'" "map length M' = map length M"
    "desc_of L M' j = Some d" "\<And>i. i \<noteq> j \<Longrightarrow> desc_of L M' i = desc_of L M i"
    "\<And>off. off + 2 \<le> 128 \<Longrightarrow> pos_of L M' off = pos_of L M off"
    "\<And>i n. i < 2 ^ l_log2 L \<Longrightarrow> n \<le> l_bufSize L \<Longrightarrow>
       rd M' (fst (l_buf L i)) (snd (l_buf L i)) n = rd M (fst (l_buf L i)) (snd (l_buf L i)) n"
proof -
  obtain M' where M': "wr M (l_region L) (l_base L + 128 + 16 * j) d = Some M'" "map length M' = map length M"
    "desc_of L M' j = Some d" "\<And>i. i \<noteq> j \<Longrightarrow> desc_of L M' i = desc_of L M i"
    "\<And>off. off + 2 \<le> 128 \<Longrightarrow> pos_of L M' off = pos_of L M off"
    "\<And>i n. i < 2 ^ l_log2 L \<Longrightarrow> n \<le> l_bufSize L \<Longrightarrow>
       rd M' (fst (l_buf L i)) (snd (l_buf L i)) n = rd M (fst (l_buf L i)) (snd (l_buf L i)) n"
    by (rule desc_write [OF ok j d]) (rule that)
  have "putDescBuf M q (int j) d = Some M'"
    using putDescBuf_placed [OF pl d, of M j] layout_inside(1) [OF ok j] M'(1) by simp
  then show thesis using M'(2-6) by (rule that)
qed

lemma tx_single:
  assumes ok: "layout_ok L (map length M)" and pl: "placed L q" and sl: "slots_ok L M" and j: "j = s mod 2 ^ l_log2 L"
    and p: "length pkt \<le> l_bufSize L"
    and size: "isMaster \<Longrightarrow> unat (getLength (the (desc_of L M j))) = l_bufSize L"
    and size': "\<not> isMaster \<Longrightarrow> unat bufSize = l_bufSize L"
  obtains d1 M1 M2 where "tx_fill isMaster bufSize M q (int s) newDescBuf pkt = Some (int (length pkt), d1, M1)"
    "length d1 = 16" "map length M1 = map length M" "putDescBuf M1 q (int s AND ring_mask (q_ring q)) d1 = Some M2" "filled L M j pkt M2"
proof -
  from ok have k: "l_log2 L \<le> 15" by (simp add: layout_ok_def)
  have jN: "j < 2 ^ l_log2 L" by (simp add: j)
  have slot: "int s AND ring_mask (q_ring q) = int j" by (simp add: j ring_slot [OF pl k])
  have pp: "pkt = take (l_bufSize L) pkt" using p by simp
  obtain d1 M1 where t: "tx_fill isMaster bufSize M q (int s) newDescBuf pkt = Some (int (length pkt), d1, M1)"
    "length d1 = 16" "refers L j d1" "getFlags d1 = 0" "unat (getLength d1) = length pkt"
    "map length M1 = map length M"
    "\<And>i. i < 2 ^ l_log2 L \<Longrightarrow> desc_of L M1 i = desc_of L M i" "\<And>off. off + 2 \<le> 128 \<Longrightarrow> pos_of L M1 off = pos_of L M off"
    "rd M1 (fst (l_buf L j)) (snd (l_buf L j)) (length pkt) = Some pkt"
    "\<And>i n. i < 2 ^ l_log2 L \<Longrightarrow> i \<noteq> j \<Longrightarrow> n \<le> l_bufSize L \<Longrightarrow>
       rd M1 (fst (l_buf L i)) (snd (l_buf L i)) n = rd M (fst (l_buf L i)) (snd (l_buf L i)) n"
    by (rule tx_fill_one [OF ok pl sl j pp length_newDescBuf, where isMaster = isMaster and bufSize = bufSize])
      (erule size, erule size', rule that)
  from ok t(6) have ok1: "layout_ok L (map length M1)" by simp
  obtain M2 where M2: "putDescBuf M1 q (int j) d1 = Some M2" "map length M2 = map length M1"
    "desc_of L M2 j = Some d1" "\<And>i. i \<noteq> j \<Longrightarrow> desc_of L M2 i = desc_of L M1 i"
    "\<And>off. off + 2 \<le> 128 \<Longrightarrow> pos_of L M2 off = pos_of L M1 off"
    "\<And>i n. i < 2 ^ l_log2 L \<Longrightarrow> n \<le> l_bufSize L \<Longrightarrow>
       rd M2 (fst (l_buf L i)) (snd (l_buf L i)) n = rd M1 (fst (l_buf L i)) (snd (l_buf L i)) n"
    by (rule put_desc_at [OF ok1 pl jN t(2)]) (rule that)
  have "\<exists>d. desc_of L M2 i = Some d \<and> refers L i d" if i: "i < 2 ^ l_log2 L" for i
    using M2(3) M2(4) [of i] t(3) t(7) [OF i] sl i by (cases "i = j") (simp_all add: slots_ok_def)
  then have "slots_ok L M2" by (simp add: slots_ok_def)
  moreover have "holds L M2 j pkt"
    unfolding holds_def using M2(3) t(4,5) p M2(6) [OF jN p] t(9)
    by (intro exI [of _ d1]) (simp add: descFlagNext_def)
  moreover have "holds L M2 i p'" if "i < 2 ^ l_log2 L" "i \<noteq> j" "holds L M i p'" for i p'
    using that(3) M2(4) [OF that(2)] t(7) [OF that(1)] M2(6) [OF that(1)] t(10) [OF that(1,2)]
    unfolding holds_def by fastforce
  ultimately have "filled L M j pkt M2"
    unfolding filled_def using t(6-8) M2(2,4,5) by simp
  then show thesis using that t(1,2,6) M2(1) slot by simp
qed

section \<open>Moving an index\<close>

definition moved :: "layout \<Rightarrow> regions \<Rightarrow> nat \<Rightarrow> u16 \<Rightarrow> regions \<Rightarrow> bool" where
  "moved L M off w M' \<longleftrightarrow> map length M' = map length M \<and>
     (\<forall>j < 2 ^ l_log2 L. desc_of L M' j = desc_of L M j) \<and>
     (\<forall>j < 2 ^ l_log2 L. \<forall>n \<le> l_bufSize L.
        rd M' (fst (l_buf L j)) (snd (l_buf L j)) n = rd M (fst (l_buf L j)) (snd (l_buf L j)) n) \<and>
     (\<forall>j < 2 ^ l_log2 L. \<forall>p. holds L M j p \<longrightarrow> holds L M' j p) \<and> (slots_ok L M \<longrightarrow> slots_ok L M') \<and>
     pos_of L M' off = Some w \<and>
     (\<forall>off'. off' + 2 \<le> 128 \<longrightarrow> off' + 2 \<le> off \<or> off + 2 \<le> off' \<longrightarrow> pos_of L M' off' = pos_of L M off')"

lemma pos_write:
  assumes ok: "layout_ok L (map length M)" and off: "off + 2 \<le> 128"
  obtains M' where "wr M (l_region L) (l_base L + off) (le_bytes 2 w) = Some M'" "moved L M off w M'"
proof -
  have "inside (map length M) (l_region L, l_base L + off, length (le_bytes 2 w))"
    using ok off by (auto simp: layout_ok_def ring_area_def)
  then obtain M' where w: "wr M (l_region L) (l_base L + off) (le_bytes 2 w) = Some M'" "map length M' = map length M"
    "rd M' (l_region L) (l_base L + off) (length (le_bytes 2 w)) = Some (le_bytes 2 w)"
    "\<And>r b n. apart (l_region L, l_base L + off, length (le_bytes 2 w)) (r, b, n) \<Longrightarrow> rd M' r b n = rd M r b n"
    by (rule wrE) (rule that)
  have desc: "desc_of L M' j = desc_of L M j" for j
    unfolding desc_of_def by (rule w(4)) (use off in auto)
  have buf: "rd M' (fst (l_buf L j)) (snd (l_buf L j)) n = rd M (fst (l_buf L j)) (snd (l_buf L j)) n"
    if "j < 2 ^ l_log2 L" "n \<le> l_bufSize L" for j n
    by (rule w(4)) (use layout_inside(4) [OF ok that(1)] that(2) off in auto)
  have "pos_of L M' off' = pos_of L M off'" if "off' + 2 \<le> off \<or> off + 2 \<le> off'" for off'
  proof -
    have "rd M' (l_region L) (l_base L + off') 2 = rd M (l_region L) (l_base L + off') 2"
      by (rule w(4)) (use that in auto)
    then show ?thesis by (simp add: pos_of_def)
  qed
  moreover have "pos_of L M' off = Some w" using w(3) by (simp add: pos_of_def le_roundtrip)
  moreover have "holds L M' j p" if "j < 2 ^ l_log2 L" "holds L M j p" for j p
    using that(2) buf [OF that(1)] unfolding holds_def desc by fastforce
  ultimately have "moved L M off w M'"
    unfolding moved_def slots_ok_def desc using w(2) buf by simp
  with w(1) show thesis by (rule that)
qed

lemma queued_moved: "moved L M off w M' \<Longrightarrow> queued L M rp ps \<Longrightarrow> queued L M' rp ps"
  by (simp add: queued_def moved_def slot_at_less)

lemma queued_filled:
  assumes "filled L M (slot_at L rp (length ps)) p M'" "queued L M rp ps" "length ps < 2 ^ l_log2 L"
  shows "queued L M' rp (ps @ [p])"
  unfolding queued_def
proof (intro conjI allI impI)
  show "length (ps @ [p]) \<le> 2 ^ l_log2 L" using assms(3) by simp
  fix i
  assume i: "i < length (ps @ [p])"
  show "holds L M' (slot_at L rp i) ((ps @ [p]) ! i)"
  proof (cases "i = length ps")
    case True
    with assms(1) show ?thesis by (simp add: filled_def)
  next
    case False
    with i have "i < length ps" by simp
    moreover from this have "slot_at L rp i \<noteq> slot_at L rp (length ps)"
      using slot_at_inj [of L rp i "length ps"] assms(3) by auto
    ultimately show ?thesis using assms(1,2) by (simp add: filled_def queued_def slot_at_less nth_append)
  qed
qed

lemma queued_tl:
  assumes "queued L M rp (p # ps)" "l_log2 L \<le> 15"
  shows "queued L M (rp + 1) ps"
  using assms slot_at_plus [OF assms(2), of rp 1] by (fastforce simp: queued_def)

section \<open>Writing one packet\<close>

lemma uint_int_unat: "uint (w :: 'a::len word) = int (unat w)"
  by (rule uint_nat)

lemma next_pos: "word_of_int (int (unat h) + 1) = (h + 1 :: u16)"
  by (simp flip: uint_nat)

lemma write_one:
  assumes ok: "layout_ok L (map length M)" and pl: "placed L q" and sl: "slots_ok L M"
    and st: "tx_start isMaster M q = Some (uint h, f)" "f \<noteq> 0"
    and p: "length pkt \<le> l_bufSize L"
    and size: "isMaster \<Longrightarrow> unat (getLength (the (desc_of L M (slot_at L h 0)))) = l_bufSize L"
    and size': "\<not> isMaster \<Longrightarrow> unat bufSize = l_bufSize L"
  obtains M2 M' w where "WritePacket isMaster bufSize q pkt M = Some (int (length pkt), M', w)"
    "filled L M (slot_at L h 0) pkt M2" "moved L M2 (if isMaster then 64 else 6) (h + 1) M'"
proof -
  obtain d1 M1 M2 where t: "tx_fill isMaster bufSize M q (int (unat h)) newDescBuf pkt = Some (int (length pkt), d1, M1)"
    "putDescBuf M1 q (int (unat h) AND ring_mask (q_ring q)) d1 = Some M2" "filled L M (slot_at L h 0) pkt M2"
    by (rule tx_single [OF ok pl sl, of "slot_at L h 0" "unat h" pkt isMaster bufSize])
      (use p size size' in \<open>simp_all add: slot_at_def\<close>)
  have ok2: "layout_ok L (map length M2)" using ok t(3) by (simp add: filled_def)
  obtain M' where M': "wr M2 (l_region L) (l_base L + (if isMaster then 64 else 6)) (le_bytes 2 (h + 1)) = Some M'"
    "moved L M2 (if isMaster then 64 else 6) (h + 1) M'"
    by (rule pos_write [OF ok2, of "if isMaster then 64 else 6" "h + 1"]) (auto intro: that)
  have pub: "tx_publish isMaster M2 q (int (unat h) + 1) = Some M'"
    unfolding tx_publish_def ring_words_placed [OF pl] next_pos using M'(1) by (cases isMaster) simp_all
  have "layout_ok L (map length M')" using ok2 M'(2) by (simp add: moved_def)
  from interrupt_placed [OF pl this] obtain w where w: "interrupt M' q = Some w" by blast
  have "tx_chain isMaster bufSize q pkt (unat f) M1 (int (unat h)) d1 (int (length pkt)) =
      Some (Some (int (unat h), d1, int (length pkt), unat f), M1)" by (simp add: tx_chain.simps)
  then have "WritePacket isMaster bufSize q pkt M = Some (int (length pkt), M', w)"
    using st(2) t(1,2) pub w unfolding WritePacket_def st(1) uint_nat by simp
  from this t(3) M'(2) show thesis by (rule that)
qed

lemma write_full:
  assumes ok: "layout_ok L (map length M)" and pl: "placed L q" and st: "tx_start isMaster M q = Some (s, 0)"
  obtains w where "WritePacket isMaster bufSize q pkt M = Some (0, M, w)"
  using interrupt_placed [OF pl ok] st by (auto simp: WritePacket_def intro: that)

section \<open>Reading one packet\<close>

lemma holds_copy:
  assumes ok: "layout_ok L (map length M)" and j: "j < 2 ^ l_log2 L" and d: "desc_of L M j = Some d" "refers L j d"
    and h: "holds L M j p" and b: "length p \<le> length buf"
  shows "rx_copy M d buf 0 = Some (p @ drop (length p) buf) \<and> getLength d = word_of_nat (length p) \<and>
    getFlags d AND descFlagNext \<noteq> descFlagNext"
proof -
  from h d(1) have p: "getFlags d AND descFlagNext \<noteq> descFlagNext" "unat (getLength d) = length p" "length p \<le> l_bufSize L"
    "rd M (fst (l_buf L j)) (snd (l_buf L j)) (length p) = Some p" by (auto simp: holds_def)
  have "buf_slice_of M d (getLength d) = Some p"
    using buf_slice_of_rd [of d "getLength d" M] layout_inside(3) [OF ok j] p(2,3,4) d(2) by (simp add: refers_def)
  moreover have "getLength d = word_of_nat (unat (getLength d))" by simp
  then have "getLength d = word_of_nat (length p)" unfolding p(2) .
  ultimately show ?thesis using p(1) b by (simp add: rx_copy_def copy_into_def)
qed

lemma read_one:
  assumes ok: "layout_ok L (map length M)" and pl: "placed L q" and sl: "slots_ok L M"
    and st: "rx_start isMaster M q = Some (uint rp, e)" "(word_of_int (e - uint rp) :: u16) \<noteq> 0"
    and h: "holds L M (slot_at L rp 0) p" and b: "length p \<le> length buf"
    and rel: "rx_release isMaster bufSize M q (int (unat rp) + 1) = Some (q', M')"
  shows "ReadPacket isMaster bufSize q buf M = Some (Inr (word_of_nat (length p)), p @ drop (length p) buf, q', M')"
proof -
  from ok have k: "l_log2 L \<le> 15" by (simp add: layout_ok_def)
  obtain d where d: "desc_of L M (slot_at L rp 0) = Some d" "refers L (slot_at L rp 0) d"
    using sl slot_at_less [of L rp 0] by (auto simp: slots_ok_def)
  from holds_copy [OF ok slot_at_less d h b] have c: "rx_copy M d buf 0 = Some (p @ drop (length p) buf)"
    "getLength d = word_of_nat (length p)" "getFlags d AND descFlagNext \<noteq> descFlagNext" by simp_all
  have slot: "uint rp AND ring_mask (q_ring q) = int (slot_at L rp 0)"
    using ring_slot [OF pl k, of "unat rp"] by (simp only: slot_at_def add_0_right of_nat_unat)
  have g: "getDescBuf M q (int (slot_at L rp 0)) newDescBuf = Some d" by (rule getDescBuf_placed [OF pl d(1)]) simp
  show ?thesis
    using st(2) c rel unfolding ReadPacket_def st(1) uint_nat by (simp add: slot g rx_chain.simps Let_def)
qed

lemma read_none:
  assumes "rx_start isMaster M q = Some (uint rp, uint rp)"
    and "rx_release isMaster bufSize M q (int (unat rp)) = Some (q', M')"
  shows "ReadPacket isMaster bufSize q buf M = Some (Inr 0, buf, q', M')"
  using assms unfolding ReadPacket_def uint_nat by simp

lemma release_master:
  assumes ok: "layout_ok L (map length M)" and pl: "placed L q"
  obtains M' where "rx_release True bufSize M q s = Some (q\<lparr>lastHead := word_of_int s\<rparr>, M')"
    "moved L M 64 (word_of_int s) M'"
proof -
  obtain M' where "wr M (l_region L) (l_base L + 64) (le_bytes 2 (word_of_int s :: u16)) = Some M'"
    "moved L M 64 (word_of_int s) M'"
    by (rule pos_write [OF ok, of 64 "word_of_int s"]) (simp, rule that)
  then show thesis using that by (simp add: rx_release_def ring_words_placed [OF pl])
qed

section \<open>The queue from slave to master\<close>

definition s2m_inv :: "layout \<Rightarrow> u32 \<Rightarrow> regions \<times> Queue \<times> Queue \<Rightarrow> byte list list \<Rightarrow> bool" where
  "s2m_inv L bufSize s ps \<longleftrightarrow>
     (case s of (M, qw, qr) \<Rightarrow>
        layout_ok L (map length M) \<and> placed L qw \<and> placed L qr \<and> slots_ok L M \<and> unat bufSize = l_bufSize L \<and>
        pos_of L M 64 = Some (lastHead qr) \<and> pos_of L M 6 = Some (lastHead qr + of_nat (length ps)) \<and>
        queued L M (lastHead qr) ps)"

definition ring_send :: "bool \<Rightarrow> u32 \<Rightarrow> byte list \<Rightarrow> regions \<times> Queue \<times> Queue \<Rightarrow> (int \<times> regions \<times> Queue \<times> Queue) option" where
  "ring_send isMaster bufSize pkt s =
     (case s of (M, qw, qr) \<Rightarrow> do { (n, M', _) \<leftarrow> WritePacket isMaster bufSize qw pkt M; Some (n, M', qw, qr) })"

definition ring_recv :: "bool \<Rightarrow> u32 \<Rightarrow> byte list \<Rightarrow> regions \<times> Queue \<times> Queue \<Rightarrow> (byte list \<times> regions \<times> Queue \<times> Queue) option" where
  "ring_recv isMaster bufSize buf s =
     (case s of (M, qw, qr) \<Rightarrow>
        do { (r, pkt, qr', M') \<leftarrow> ReadPacket isMaster bufSize qr buf M;
             case r of Inl e \<Rightarrow> None | Inr n \<Rightarrow> Some (take (unat n) pkt, M', qw, qr') })"

lemma free_slots:
  fixes t :: u16
  assumes "n \<le> 2 ^ k" "k \<le> 15"
  shows "(word_of_int (2 ^ k - uint (t + of_nat n) + uint t) :: u16) = of_nat (2 ^ k - n)"
    "(of_nat (2 ^ k - n) :: u16) = 0 \<longleftrightarrow> n = 2 ^ k"
proof -
  have "(2::nat) ^ k \<le> 2 ^ 15" using assms(2) by (intro power_increasing) simp_all
  then have "unat (of_nat (2 ^ k - n) :: u16) = 2 ^ k - n"
    by (simp add: unat_of_nat take_bit_nat_eq_self_iff)
  then show "(of_nat (2 ^ k - n) :: u16) = 0 \<longleftrightarrow> n = 2 ^ k"
    using assms(1) by (metis diff_is_0_eq le_antisym order_refl unat_eq_zero)
  have "(word_of_int (2 ^ k - uint (t + of_nat n) + uint t) :: u16) = 2 ^ k - (t + of_nat n) + t" by simp
  also have "\<dots> = of_nat (2 ^ k - n)" using assms(1) by (simp add: of_nat_diff)
  finally show "(word_of_int (2 ^ k - uint (t + of_nat n) + uint t) :: u16) = of_nat (2 ^ k - n)" .
qed

lemma small_count:
  fixes t :: u16
  assumes "n \<le> 2 ^ k" "k \<le> 15"
  shows "(word_of_int (uint (t + of_nat n) - uint t) :: u16) = of_nat n" "(of_nat n :: u16) = 0 \<longleftrightarrow> n = 0"
proof -
  have "(2::nat) ^ k \<le> 2 ^ 15" using assms(2) by (intro power_increasing) simp_all
  then have "unat (of_nat n :: u16) = n" using assms(1) by (simp add: unat_of_nat take_bit_nat_eq_self_iff)
  with unat_eq_zero [of "of_nat n :: u16"] show "(of_nat n :: u16) = 0 \<longleftrightarrow> n = 0" by metis
  show "(word_of_int (uint (t + of_nat n) - uint t) :: u16) = of_nat n" by simp
qed

lemma s2m_send:
  assumes inv: "s2m_inv L bufSize s ps" and p: "length pkt \<le> l_bufSize L"
  shows "\<exists>s'. ring_send False bufSize pkt s = Some (if length ps < 2 ^ l_log2 L then int (length pkt) else 0, s') \<and>
    s2m_inv L bufSize s' (if length ps < 2 ^ l_log2 L then ps @ [pkt] else ps)"
proof -
  obtain M qw qr where s: "s = (M, qw, qr)" by (cases s)
  let ?t = "lastHead qr"
  from inv have ok: "layout_ok L (map length M)" and pl: "placed L qw" "placed L qr" and sl: "slots_ok L M"
    and bs: "unat bufSize = l_bufSize L" and pos: "pos_of L M 64 = Some ?t" "pos_of L M 6 = Some (?t + of_nat (length ps))"
    and qd: "queued L M ?t ps" by (simp_all add: s2m_inv_def s)
  from ok have k: "l_log2 L \<le> 15" by (simp add: layout_ok_def)
  from qd have n: "length ps \<le> 2 ^ l_log2 L" by (simp add: queued_def)
  have size: "rg_size (q_ring qw) = 2 ^ l_log2 L" using pl(1) by (simp add: placed_def)
  have st: "tx_start False M qw = Some (uint (?t + of_nat (length ps)), of_nat (2 ^ l_log2 L - length ps))"
    unfolding tx_start_def ring_words_placed [OF pl(1)] pos size
    by (simp only: if_False option.map Option.bind.simps free_slots(1) [OF n k])
  have slot: "slot_at L (?t + of_nat (length ps)) 0 = slot_at L ?t (length ps)" using slot_at_plus [OF k, of ?t "length ps" 0] by simp
  show ?thesis
  proof (cases "length ps < 2 ^ l_log2 L")
    case True
    then have f: "(of_nat (2 ^ l_log2 L - length ps) :: u16) \<noteq> 0" using free_slots(2) [OF n k] by simp
    obtain M2 M' w where w: "WritePacket False bufSize qw pkt M = Some (int (length pkt), M', w)"
      "filled L M (slot_at L ?t (length ps)) pkt M2" "moved L M2 6 (?t + of_nat (length ps) + 1) M'"
      by (rule write_one [OF ok pl(1) sl st f p]) (use bs slot that in auto)
    from queued_moved [OF w(3) queued_filled [OF w(2) qd True]] have "queued L M' ?t (ps @ [pkt])" .
    moreover have "pos_of L M' 64 = Some ?t" using w(2,3) pos by (simp add: filled_def moved_def)
    ultimately have "s2m_inv L bufSize (M', qw, qr) (ps @ [pkt])"
      using w(2,3) ok pl bs by (simp add: s2m_inv_def filled_def moved_def add.assoc add.commute)
    with True w(1) show ?thesis by (simp add: s ring_send_def)
  next
    case False
    with n have "(of_nat (2 ^ l_log2 L - length ps) :: u16) = 0" using free_slots(2) [OF n k] by simp
    with st have "tx_start False M qw = Some (uint (?t + of_nat (length ps)), 0)" by simp
    from write_full [OF ok pl(1) this] obtain w where "WritePacket False bufSize qw pkt M = Some (0, M, w)" by blast
    with False inv show ?thesis by (simp add: s ring_send_def)
  qed
qed

lemma queued_hd: "queued L M rp (p # ps) \<Longrightarrow> holds L M (slot_at L rp 0) p"
  by (force simp: queued_def)

lemma queued_length: "queued L M rp ps \<Longrightarrow> p \<in> set ps \<Longrightarrow> length p \<le> l_bufSize L"
  by (force simp: queued_def holds_def in_set_conv_nth)

lemma short_len:
  assumes "layout_ok L sizes" "length p \<le> l_bufSize L"
  shows "unat (word_of_nat (length p) :: u32) = length p"
proof -
  have "length p < 2 ^ 32" using layout_inside(3) [OF assms(1), of 0] assms(2) by simp
  then show ?thesis by (simp add: unat_of_nat take_bit_nat_eq_self_iff)
qed

lemma s2m_recv:
  assumes inv: "s2m_inv L bufSize s ps" and b: "l_bufSize L \<le> length buf"
  shows "\<exists>s'. (case ps of [] \<Rightarrow> ring_recv True x buf s = Some ([], s') \<and> s2m_inv L bufSize s' []
    | p # ps' \<Rightarrow> ring_recv True x buf s = Some (p, s') \<and> s2m_inv L bufSize s' ps')"
proof -
  obtain M qw qr where s: "s = (M, qw, qr)" by (cases s)
  let ?t = "lastHead qr"
  from inv have ok: "layout_ok L (map length M)" and pl: "placed L qw" "placed L qr" and sl: "slots_ok L M"
    and bs: "unat bufSize = l_bufSize L" and pos: "pos_of L M 64 = Some ?t" "pos_of L M 6 = Some (?t + of_nat (length ps))"
    and qd: "queued L M ?t ps" by (simp_all add: s2m_inv_def s)
  from ok have k: "l_log2 L \<le> 15" by (simp add: layout_ok_def)
  from qd have n: "length ps \<le> 2 ^ l_log2 L" by (simp add: queued_def)
  have st: "rx_start True M qr = Some (uint ?t, uint (?t + of_nat (length ps)))"
    unfolding rx_start_def ring_words_placed [OF pl(2)] pos by simp
  have pl': "placed L (qr\<lparr>lastHead := w\<rparr>)" for w using pl(2) by (simp add: placed_def)
  show ?thesis
  proof (cases ps)
    case Nil
    obtain M' where M': "rx_release True x M qr (uint ?t) = Some (qr\<lparr>lastHead := word_of_int (uint ?t)\<rparr>, M')"
      "moved L M 64 (word_of_int (uint ?t)) M'" by (rule release_master [OF ok pl(2)])
    have "rx_release True x M qr (int (unat ?t)) = Some (qr, M')" using M'(1) by simp
    moreover have "rx_start True M qr = Some (uint ?t, uint ?t)" using st Nil by simp
    ultimately have "ReadPacket True x qr buf M = Some (Inr 0, buf, qr, M')" by (rule read_none [rotated])
    moreover have "s2m_inv L bufSize (M', qw, qr) []"
      using M'(2) ok pl sl bs pos Nil qd by (simp add: s2m_inv_def moved_def queued_def)
    ultimately show ?thesis by (simp add: s ring_recv_def Nil)
  next
    case (Cons p ps')
    have p: "length p \<le> l_bufSize L" by (rule queued_length [OF qd]) (simp add: Cons)
    obtain M' where M': "rx_release True x M qr (int (unat ?t) + 1) = Some (qr\<lparr>lastHead := ?t + 1\<rparr>, M')"
      "moved L M 64 (?t + 1) M'"
      by (rule release_master [OF ok pl(2), of x "int (unat ?t) + 1"]) (unfold next_pos, rule that)
    have nz: "(word_of_int (uint (?t + of_nat (length ps)) - uint ?t) :: u16) \<noteq> 0"
      using small_count(1) [OF n k, of ?t] small_count(2) [OF n k] Cons by simp
    have hd: "holds L M (slot_at L ?t 0) p" by (rule queued_hd) (use qd Cons in simp)
    have pb: "length p \<le> length buf" using p b by simp
    from read_one [OF ok pl(2) sl st nz hd pb M'(1)]
    have "ReadPacket True x qr buf M = Some (Inr (word_of_nat (length p)), p @ drop (length p) buf, qr\<lparr>lastHead := ?t + 1\<rparr>, M')"
      by simp
    moreover have "queued L M' (?t + 1) ps'"
      by (rule queued_moved [OF M'(2) queued_tl [OF _ k]]) (use qd Cons in simp)
    then have "s2m_inv L bufSize (M', qw, qr\<lparr>lastHead := ?t + 1\<rparr>) ps'"
      using M'(2) ok pl pl' sl bs pos Cons by (simp add: s2m_inv_def moved_def)
    ultimately show ?thesis by (simp add: s ring_recv_def Cons short_len [OF ok p])
  qed
qed

section \<open>Giving buffers back\<close>

lemma bit_le_word: "bit (le_word bs :: 'a::len word) n \<longleftrightarrow> n < LENGTH('a) \<and> n < 8 * length bs \<and> bit (bs ! (n div 8)) (n mod 8)"
proof (induction bs arbitrary: n)
  case (Cons b bs)
  show ?case
  proof (cases "n < 8")
    case True
    then show ?thesis by (auto simp: bit_or_iff bit_push_bit_iff bit_ucast_iff dest: bit_imp_le_length)
  next
    case False
    then have "n div 8 = Suc ((n - 8) div 8)" "n mod 8 = (n - 8) mod 8" by (simp_all add: le_div_geq le_mod_geq)
    moreover have "\<not> bit b n" using False by (auto dest: bit_imp_le_length)
    ultimately show ?thesis using False Cons.IH [of "n - 8"]
      by (auto simp: bit_or_iff bit_push_bit_iff bit_ucast_iff)
  qed
qed simp

lemma nth_le_bytes: "i < n \<Longrightarrow> le_bytes n w ! i = ucast (drop_bit (8 * i) w)"
proof (induction n arbitrary: i w)
  case (Suc n)
  then show ?case by (cases i) (simp_all add: drop_bit_drop_bit add.commute)
qed simp

text \<open>Writing the low half of a length whose high half is zero sets the length.\<close>

lemma set_half_length:
  fixes v :: u16
  assumes d: "length d = 16" and z: "unat (getLength d) < 2 ^ 16"
  shows "getLength (put_at 4 (le_bytes 2 v) d) = ucast v"
proof (rule bit_word_eqI)
  fix n
  assume "n < LENGTH(32)"
  then have n: "n < 32" by simp
  have len: "length (take 4 (drop 4 xs)) = 4" if "length xs = 16" for xs :: "byte list" using that by simp
  have t16: "take_bit 16 (unat (getLength d)) = unat (getLength d)"
    using z by (simp add: take_bit_nat_eq_self_iff)
  have hi: "\<not> bit (getLength d) n" if "16 \<le> n"
  proof -
    have "bit (getLength d) n = bit (unat (getLength d)) n" by (simp add: bit_unsigned_iff)
    also have "\<dots> = bit (take_bit 16 (unat (getLength d))) n" using t16 by simp
    finally show ?thesis using that by (simp add: bit_take_bit_iff)
  qed
  show "bit (getLength (put_at 4 (le_bytes 2 v) d)) n \<longleftrightarrow> bit (ucast v :: u32) n"
  proof (cases "n < 16")
    case True
    then have "n div 8 < 2" by simp
    then have "take 4 (drop 4 (put_at 4 (le_bytes 2 v) d)) ! (n div 8) = ucast (drop_bit (8 * (n div 8)) v)"
      using nth_put_at_in [of "n div 8" "le_bytes 2 v" 4 d] d by (simp add: nth_le_bytes)
    then show ?thesis unfolding getLength_def le_at_def bit_le_word
      using True n d by (simp add: bit_ucast_iff bit_drop_bit_eq)
  next
    case False
    then have i: "2 \<le> n div 8" "n div 8 < 4" using n by simp_all
    then have "take 4 (drop 4 (put_at 4 (le_bytes 2 v) d)) ! (n div 8) = take 4 (drop 4 d) ! (n div 8)"
      using nth_put_at_after [of 4 "le_bytes 2 v" "4 + n div 8" d] d by simp
    with hi False have "\<not> bit (getLength (put_at 4 (le_bytes 2 v) d)) n"
      unfolding getLength_def le_at_def bit_le_word using d n by simp
    with False show ?thesis by (auto simp: bit_ucast_iff dest: bit_imp_le_length)
  qed
qed

definition full_len :: "layout \<Rightarrow> regions \<Rightarrow> nat \<Rightarrow> bool" where
  "full_len L M j \<longleftrightarrow> unat (getLength (the (desc_of L M j))) = l_bufSize L"

definition shorts :: "layout \<Rightarrow> regions \<Rightarrow> bool" where
  "shorts L M \<longleftrightarrow> (\<forall>j < 2 ^ l_log2 L. unat (getLength (the (desc_of L M j))) < 2 ^ 16)"

text \<open>What giving back the slots of a set changes.\<close>

definition refilled :: "layout \<Rightarrow> regions \<Rightarrow> nat set \<Rightarrow> regions \<Rightarrow> bool" where
  "refilled L M J M' \<longleftrightarrow> map length M' = map length M \<and> slots_ok L M' \<and> shorts L M' \<and>
     (\<forall>off. off + 2 \<le> 128 \<longrightarrow> pos_of L M' off = pos_of L M off) \<and>
     (\<forall>j < 2 ^ l_log2 L. \<forall>p. j \<notin> J \<longrightarrow> holds L M j p \<longrightarrow> holds L M' j p) \<and>
     (\<forall>j < 2 ^ l_log2 L. full_len L M j \<or> j \<in> J \<longrightarrow> full_len L M' j)"

lemma refilled_trans: "refilled L M J M1 \<Longrightarrow> refilled L M1 K M2 \<Longrightarrow> refilled L M (J \<union> K) M2"
  by (simp add: refilled_def)

lemma set_length_one:
  assumes ok: "layout_ok L (map length M)" and pl: "placed L q" and sl: "slots_ok L M" and sh: "shorts L M"
    and b: "unat bufSize = l_bufSize L" "l_bufSize L < 2 ^ 16" and j: "j < 2 ^ l_log2 L"
  obtains M' where "setDescLength M q (int j) (uint bufSize) = Some M'" "refilled L M {j} M'"
proof -
  obtain d where d: "desc_of L M j = Some d" "refers L j d" using sl j by (auto simp: slots_ok_def)
  from desc_of_length [OF d(1)] have ld: "length d = 16" .
  let ?v = "le_bytes 2 (word_of_int (uint bufSize) :: u16)" and ?a = "l_base L + 128 + 16 * j"
  have "inside (map length M) (l_region L, ?a + 4, length ?v)" using layout_inside(1) [OF ok j] by simp
  then obtain M' where w: "wr M (l_region L) (?a + 4) ?v = Some M'" "map length M' = map length M"
    "rd M' (l_region L) (?a + 4) (length ?v) = Some ?v"
    "\<And>r b n. apart (l_region L, ?a + 4, length ?v) (r, b, n) \<Longrightarrow> rd M' r b n = rd M r b n"
    by (rule wrE) (rule that)
  let ?d = "put_at 4 ?v d"
  have dj: "desc_of L M' j = Some ?d" using rd_part_put [OF w(1) d(1) [unfolded desc_of_def]] by (simp add: desc_of_def)
  have di: "desc_of L M' i = desc_of L M i" if "i \<noteq> j" for i
    unfolding desc_of_def by (rule w(4)) (use desc_apart [of j i] that in auto)
  have z: "unat (getLength d) < 2 ^ 16" using sh j d(1) by (auto simp: shorts_def)
  have w16: "(word_of_int (uint bufSize) :: u16) = word_of_nat (l_bufSize L)" by (simp flip: b(1))
  have u16: "unat (ucast (word_of_nat (l_bufSize L) :: u16) :: u32) = l_bufSize L"
    using b(2) by (simp add: unsigned_ucast_eq unat_of_nat take_bit_nat_eq_self_iff)
  have len: "unat (getLength ?d) = l_bufSize L" unfolding set_half_length [OF ld z] w16 by (rule u16)
  have same: "getFlags ?d = getFlags d" "getRegion ?d = getRegion d" "getOffset_desc ?d = getOffset_desc d"
    using ld by (simp_all add: desc_defs le_at_put_other)
  have "holds L M' i p" if "i < 2 ^ l_log2 L" "i \<noteq> j" "holds L M i p" for i p
  proof -
    have "rd M' (fst (l_buf L i)) (snd (l_buf L i)) (length p) = rd M (fst (l_buf L i)) (snd (l_buf L i)) (length p)"
      by (rule w(4)) (use layout_inside(4) [OF ok that(1)] j that(3) in \<open>auto simp: holds_def\<close>)
    then show ?thesis using that(3) di [OF that(2)] by (simp add: holds_def)
  qed
  moreover have "pos_of L M' off = pos_of L M off" if "off + 2 \<le> 128" for off
  proof -
    have "rd M' (l_region L) (l_base L + off) 2 = rd M (l_region L) (l_base L + off) 2"
      by (rule w(4)) (use that in auto)
    then show ?thesis by (simp add: pos_of_def)
  qed
  moreover have "slots_ok L M'"
    unfolding slots_ok_def using sl dj di d(2) same by (metis refers_def slots_ok_def)
  moreover have "shorts L M'" "full_len L M' j" using sh dj di len b(2) by (auto simp: shorts_def full_len_def) (metis option.sel)
  moreover have "full_len L M i \<Longrightarrow> full_len L M' i" for i
    using dj di len by (cases "i = j") (simp_all add: full_len_def)
  ultimately have "refilled L M {j} M'" using w(2) by (simp add: refilled_def)
  moreover have "setDescLength M q (int j) (uint bufSize) = Some M'" using w(1) by (simp add: ring_words_placed [OF pl])
  ultimately show thesis using that by blast
qed

lemma refill_loop_refilled:
  assumes "layout_ok L (map length M)" "placed L q" "slots_ok L M" "shorts L M"
    and b: "unat bufSize = l_bufSize L" "l_bufSize L < 2 ^ 16"
  shows "\<exists>M'. refill_loop q bufSize k (int s) M = Some (int (s + k), M') \<and>
    refilled L M ((\<lambda>i. (s + i) mod 2 ^ l_log2 L) ` {..<k}) M'"
  using assms(1-4)
proof (induction k arbitrary: s M)
  case 0
  then show ?case by (simp add: refilled_def)
next
  case (Suc k)
  from Suc.prems(1) have lg: "l_log2 L \<le> 15" by (simp add: layout_ok_def)
  obtain M1 where M1: "setDescLength M q (int (s mod 2 ^ l_log2 L)) (uint bufSize) = Some M1" "refilled L M {s mod 2 ^ l_log2 L} M1"
    by (rule set_length_one [OF Suc.prems b, of "s mod 2 ^ l_log2 L"]) simp
  have pr: "layout_ok L (map length M1)" "placed L q" "slots_ok L M1" "shorts L M1"
    using M1(2) Suc.prems by (simp_all add: refilled_def)
  from Suc.IH [OF pr, of "Suc s"] obtain M' where
    M': "refill_loop q bufSize k (int (Suc s)) M1 = Some (int (Suc s + k), M')"
    "refilled L M1 ((\<lambda>i. (Suc s + i) mod 2 ^ l_log2 L) ` {..<k}) M'" by blast
  have "(\<lambda>i. (s + i) mod 2 ^ l_log2 L) ` {..<Suc k} = insert (s mod 2 ^ l_log2 L) ((\<lambda>i. (Suc s + i) mod 2 ^ l_log2 L) ` {..<k})"
    by (simp add: lessThan_Suc_eq_insert_0 image_image)
  with refilled_trans [OF M1(2) M'(2)] M1(1) M'(1) show ?case
    by (intro exI [of _ M']) (simp add: ring_slot [OF Suc.prems(2) lg] add.commute)
qed

lemma holds_moved: "moved L M off w M' \<Longrightarrow> full_len L M j \<Longrightarrow> j < 2 ^ l_log2 L \<Longrightarrow> full_len L M' j"
  "moved L M off w M' \<Longrightarrow> shorts L M \<Longrightarrow> shorts L M'"
  by (simp_all add: moved_def full_len_def shorts_def)

lemma release_slave:
  assumes ok: "layout_ok L (map length M)" and pl: "placed L q" and sl: "slots_ok L M" and sh: "shorts L M"
    and b: "unat bufSize = l_bufSize L" "l_bufSize L < 2 ^ 16"
    and pos: "pos_of L M 6 = Some (word_of_int s + of_nat c)" and c: "c \<le> 2 ^ l_log2 L"
  obtains M1 M' where "rx_release False bufSize M q s = Some (q\<lparr>lastTail := word_of_int s\<rparr>, M')"
    "refilled L M (slot_at L (word_of_int s) ` {c..<2 ^ l_log2 L}) M1" "moved L M1 6 (word_of_int s + of_nat (2 ^ l_log2 L)) M'"
proof -
  let ?t = "word_of_int s :: u16" and ?N = "2 ^ l_log2 L :: nat"
  let ?h = "?t + of_nat c" and ?q = "q\<lparr>lastTail := word_of_int s\<rparr>"
  have pl': "placed L ?q" using pl by (simp add: placed_def)
  from ok have k: "l_log2 L \<le> 15" by (simp add: layout_ok_def)
  have cnt: "refill_count ?q (uint ?h) = of_nat (?N - c)"
    using free_slots(1) [OF c k, of ?t] pl by (simp add: refill_count_def placed_def)
  have "?N \<le> 2 ^ 15" using k by (intro power_increasing) simp_all
  then have un: "unat (of_nat (?N - c) :: u16) = ?N - c" by (simp add: unat_of_nat take_bit_nat_eq_self_iff)
  from refill_loop_refilled [OF ok pl' sl sh b, of "?N - c" "unat ?h"] obtain M1 where
    M1: "refill_loop ?q bufSize (?N - c) (int (unat ?h)) M = Some (int (unat ?h + (?N - c)), M1)"
    "refilled L M ((\<lambda>i. (unat ?h + i) mod ?N) ` {..<?N - c}) M1" by blast
  have "(\<lambda>i. (unat ?h + i) mod ?N) ` {..<?N - c} = (\<lambda>i. slot_at L ?t (c + i)) ` {..<?N - c}"
    by (rule image_cong [OF refl]) (metis slot_at_def slot_at_plus [OF k])
  also have "\<dots> = slot_at L ?t ` (\<lambda>i. c + i) ` {..<?N - c}" by (simp add: image_image)
  also have "(\<lambda>i. c + i) ` {..<?N - c} = {c..<?N}" using c by (simp add: lessThan_atLeast0 add.commute)
  finally have J: "refilled L M (slot_at L ?t ` {c..<?N}) M1" using M1(2) by simp
  have ok1: "layout_ok L (map length M1)" using ok J by (simp add: refilled_def)
  have w: "word_of_int (int (unat ?h + (?N - c))) = ?t + of_nat ?N"
  proof -
    have "word_of_int (int (unat ?h + (?N - c))) = ?h + of_nat (?N - c)" by simp
    also have "\<dots> = ?t + of_nat (c + (?N - c))" by (simp only: of_nat_add add.assoc)
    also have "c + (?N - c) = ?N" using c by simp
    finally show ?thesis .
  qed
  obtain M' where M': "wr M1 (l_region L) (l_base L + 6) (le_bytes 2 (?t + of_nat ?N)) = Some M'"
    "moved L M1 6 (?t + of_nat ?N) M'" by (rule pos_write [OF ok1, of 6 "?t + of_nat ?N"]) (simp, rule that)
  have wh: "writeHead M1 ?q (int (unat ?h + (?N - c))) = Some M'"
    unfolding ring_words_placed [OF pl'] w by (rule M'(1))
  have rh: "readHead M ?q = Some (uint ?h)" unfolding ring_words_placed [OF pl'] pos by simp
  have M1': "refill_loop ?q bufSize (?N - c) (uint ?h) M = Some (int (unat ?h + (?N - c)), M1)"
    using M1(1) by (simp only: of_nat_unat)
  have "rx_release False bufSize M q s = Some (?q, M')"
    unfolding rx_release_def Let_def if_False by (simp only: rh Option.bind.simps cnt un M1' prod.case wh)
  from this J M'(2) show thesis by (rule that)
qed

section \<open>The queue from master to slave\<close>

text \<open>
  The slave owns \<open>c\<close> slots of the ring from its position on, given to the master to fill: those with
  packets come first, the others have the full length in their descriptors.
\<close>

definition m2s_inv :: "layout \<Rightarrow> u32 \<Rightarrow> regions \<times> Queue \<times> Queue \<Rightarrow> nat \<Rightarrow> byte list list \<Rightarrow> bool" where
  "m2s_inv L bufSize s c ps \<longleftrightarrow>
     (case s of (M, qw, qr) \<Rightarrow>
        layout_ok L (map length M) \<and> placed L qw \<and> placed L qr \<and> slots_ok L M \<and> shorts L M \<and>
        unat bufSize = l_bufSize L \<and> l_bufSize L < 2 ^ 16 \<and>
        pos_of L M 64 = Some (lastTail qr + of_nat (length ps)) \<and> pos_of L M 6 = Some (lastTail qr + of_nat c) \<and>
        length ps \<le> c \<and> c \<le> 2 ^ l_log2 L \<and> queued L M (lastTail qr) ps \<and>
        (\<forall>i. length ps \<le> i \<longrightarrow> i < c \<longrightarrow> full_len L M (slot_at L (lastTail qr) i)))"

lemma m2s_send:
  assumes inv: "m2s_inv L bufSize s c ps" and p: "length pkt \<le> l_bufSize L"
  shows "\<exists>s'. ring_send True x pkt s = Some (if length ps < c then int (length pkt) else 0, s') \<and>
    m2s_inv L bufSize s' c (if length ps < c then ps @ [pkt] else ps)"
proof -
  obtain M qw qr where s: "s = (M, qw, qr)" by (cases s)
  let ?t = "lastTail qr"
  from inv have ok: "layout_ok L (map length M)" and pl: "placed L qw" "placed L qr" and sl: "slots_ok L M" and sh: "shorts L M"
    and bs: "unat bufSize = l_bufSize L" "l_bufSize L < 2 ^ 16"
    and pos: "pos_of L M 64 = Some (?t + of_nat (length ps))" "pos_of L M 6 = Some (?t + of_nat c)"
    and n: "length ps \<le> c" "c \<le> 2 ^ l_log2 L" and qd: "queued L M ?t ps"
    and fl: "\<And>i. length ps \<le> i \<Longrightarrow> i < c \<Longrightarrow> full_len L M (slot_at L ?t i)" by (simp_all add: m2s_inv_def s)
  from ok have k: "l_log2 L \<le> 15" by (simp add: layout_ok_def)
  have free: "(word_of_int (uint (?t + of_nat c) - uint (?t + of_nat (length ps))) :: u16) = of_nat (c - length ps)"
    using n(1) by (simp add: of_nat_diff)
  have "c - length ps \<le> 2 ^ l_log2 L" using n by simp
  from small_count(2) [OF this k] have z: "(of_nat (c - length ps) :: u16) = 0 \<longleftrightarrow> c \<le> length ps" by simp
  have st: "tx_start True M qw = Some (uint (?t + of_nat (length ps)), of_nat (c - length ps))"
    unfolding tx_start_def ring_words_placed [OF pl(1)] pos
    by (simp only: if_True option.map Option.bind.simps free)
  have slot: "slot_at L (?t + of_nat (length ps)) 0 = slot_at L ?t (length ps)" using slot_at_plus [OF k, of ?t "length ps" 0] by simp
  show ?thesis
  proof (cases "length ps < c")
    case True
    then have lt: "length ps < 2 ^ l_log2 L" using n(2) by simp
    obtain M2 M' w where w: "WritePacket True x qw pkt M = Some (int (length pkt), M', w)"
      "filled L M (slot_at L ?t (length ps)) pkt M2" "moved L M2 64 (?t + of_nat (length ps) + 1) M'"
      by (rule write_one [OF ok pl(1) sl st _ p]) (use z True fl [of "length ps"] slot that in \<open>auto simp: full_len_def\<close>)
    have qd': "queued L M' ?t (ps @ [pkt])" by (rule queued_moved [OF w(3) queued_filled [OF w(2) qd lt]])
    have sh2: "shorts L M2" unfolding shorts_def
    proof (intro allI impI)
      fix j :: nat
      assume j: "j < 2 ^ l_log2 L"
      show "unat (getLength (the (desc_of L M2 j))) < 2 ^ 16"
        using w(2) sh j bs(2) p by (cases "j = slot_at L ?t (length ps)") (auto simp: filled_def shorts_def holds_def)
    qed
    have fl': "full_len L M' (slot_at L ?t i)" if "Suc (length ps) \<le> i" "i < c" for i
    proof -
      have "slot_at L ?t i \<noteq> slot_at L ?t (length ps)" using slot_at_inj [of L ?t i "length ps"] that n(2) lt by auto
      then have "full_len L M2 (slot_at L ?t i)"
        using w(2) fl [of i] that slot_at_less [of L ?t i] by (simp add: filled_def full_len_def)
      then show ?thesis by (rule holds_moved(1) [OF w(3) _ slot_at_less])
    qed
    have "m2s_inv L bufSize (M', qw, qr) c (ps @ [pkt])"
      using w(2,3) ok pl bs pos n True qd' fl' holds_moved(2) [OF w(3) sh2]
      by (simp add: m2s_inv_def filled_def moved_def add.assoc add.commute)
    with True w(1) show ?thesis by (simp add: s ring_send_def)
  next
    case False
    with z st have "tx_start True M qw = Some (uint (?t + of_nat (length ps)), 0)" by simp
    from write_full [OF ok pl(1) this] obtain w where "WritePacket True x qw pkt M = Some (0, M, w)" by blast
    with False inv show ?thesis by (simp add: s ring_send_def)
  qed
qed

lemma m2s_recv:
  assumes inv: "m2s_inv L bufSize s c ps" and b: "l_bufSize L \<le> length buf"
  shows "\<exists>s'. ring_recv False bufSize buf s = Some (case ps of [] \<Rightarrow> [] | p # ps' \<Rightarrow> p, s') \<and>
    m2s_inv L bufSize s' (2 ^ l_log2 L) (tl ps)"
proof -
  obtain M qw qr where s: "s = (M, qw, qr)" by (cases s)
  let ?t = "lastTail qr" and ?N = "2 ^ l_log2 L :: nat"
  from inv have ok: "layout_ok L (map length M)" and pl: "placed L qw" "placed L qr" and sl: "slots_ok L M" and sh: "shorts L M"
    and bs: "unat bufSize = l_bufSize L" "l_bufSize L < 2 ^ 16"
    and pos: "pos_of L M 64 = Some (?t + of_nat (length ps))" "pos_of L M 6 = Some (?t + of_nat c)"
    and n: "length ps \<le> c" "c \<le> ?N" and qd: "queued L M ?t ps"
    and fl: "\<And>i. length ps \<le> i \<Longrightarrow> i < c \<Longrightarrow> full_len L M (slot_at L ?t i)" by (simp_all add: m2s_inv_def s)
  from ok have k: "l_log2 L \<le> 15" by (simp add: layout_ok_def)
  have st: "rx_start False M qr = Some (uint ?t, uint (?t + of_nat (length ps)))"
    unfolding rx_start_def ring_words_placed [OF pl(2)] pos by simp
  have after: "m2s_inv L bufSize (M', qw, qr\<lparr>lastTail := t'\<rparr>) ?N qs"
    if re: "refilled L M (slot_at L t' ` {c'..<?N}) M1" and mv: "moved L M1 6 (t' + of_nat ?N) M'"
      and t: "pos_of L M 64 = Some (t' + of_nat (length qs))" and c': "length qs \<le> c'" "c' \<le> ?N"
      and q: "queued L M t' qs" and f: "\<And>i. length qs \<le> i \<Longrightarrow> i < c' \<Longrightarrow> full_len L M (slot_at L t' i)"
    for M1 M' t' c' qs
  proof -
    have "holds L M1 (slot_at L t' i) (qs ! i)" if "i < length qs" for i
    proof -
      have "slot_at L t' i \<notin> slot_at L t' ` {c'..<?N}" using slot_at_inj [of L t' i] that c' by force
      then show ?thesis using re q that by (simp add: refilled_def queued_def slot_at_less)
    qed
    then have "queued L M1 t' qs" using q by (simp add: queued_def)
    from queued_moved [OF mv this] have q': "queued L M' t' qs" .
    have f': "full_len L M' (slot_at L t' i)" if "length qs \<le> i" "i < ?N" for i
    proof -
      have "full_len L M1 (slot_at L t' i)"
        using re f [OF that(1)] that(2) by (cases "i < c'") (auto simp: refilled_def slot_at_less)
      then show ?thesis by (rule holds_moved(1) [OF mv _ slot_at_less])
    qed
    have "pos_of L M' 64 = Some (t' + of_nat (length qs))" using re mv t by (simp add: refilled_def moved_def)
    then show ?thesis
      using re mv ok pl sl bs c' q' f' holds_moved(2) [OF mv] by (simp add: m2s_inv_def refilled_def moved_def placed_def)
  qed
  show ?thesis
  proof (cases ps)
    case Nil
    have w: "word_of_int (int (unat ?t)) = ?t" by simp
    obtain M1 M' where M': "rx_release False bufSize M qr (int (unat ?t)) = Some (qr\<lparr>lastTail := ?t\<rparr>, M')"
      "refilled L M (slot_at L ?t ` {c..<?N}) M1" "moved L M1 6 (?t + of_nat ?N) M'"
      by (rule release_slave [OF ok pl(2) sl sh bs, of "int (unat ?t)" c]) (use pos n that in \<open>simp_all add: w\<close>)
    have "rx_start False M qr = Some (uint ?t, uint ?t)" using st Nil by simp
    from read_none [OF this M'(1)] have "ReadPacket False bufSize qr buf M = Some (Inr 0, buf, qr\<lparr>lastTail := ?t\<rparr>, M')" .
    moreover have "m2s_inv L bufSize (M', qw, qr\<lparr>lastTail := ?t\<rparr>) ?N []"
      by (rule after [OF M'(2,3)]) (use pos n qd fl Nil in simp_all)
    ultimately show ?thesis by (simp add: s ring_recv_def Nil)
  next
    case (Cons p ps')
    have p: "length p \<le> l_bufSize L" by (rule queued_length [OF qd]) (simp add: Cons)
    have c1: "1 \<le> c" using n(1) Cons by simp
    have pos6: "pos_of L M 6 = Some (?t + 1 + of_nat (c - 1))" using pos(2) c1 by (simp add: of_nat_diff)
    obtain M1 M' where M': "rx_release False bufSize M qr (int (unat ?t) + 1) = Some (qr\<lparr>lastTail := ?t + 1\<rparr>, M')"
      "refilled L M (slot_at L (?t + 1) ` {c - 1..<?N}) M1" "moved L M1 6 (?t + 1 + of_nat ?N) M'"
      by (rule release_slave [OF ok pl(2) sl sh bs, of "int (unat ?t) + 1" "c - 1", unfolded next_pos])
        (rule pos6, use n in simp, rule that)
    have nz: "(word_of_int (uint (?t + of_nat (length ps)) - uint ?t) :: u16) \<noteq> 0"
      using small_count(1) [of "length ps" "l_log2 L" ?t] small_count(2) [of "length ps" "l_log2 L"] n k Cons by simp
    have hd: "holds L M (slot_at L ?t 0) p" by (rule queued_hd) (use qd Cons in simp)
    have pb: "length p \<le> length buf" using p b by simp
    from read_one [OF ok pl(2) sl st nz hd pb M'(1)]
    have "ReadPacket False bufSize qr buf M =
        Some (Inr (word_of_nat (length p)), p @ drop (length p) buf, qr\<lparr>lastTail := ?t + 1\<rparr>, M')" .
    moreover have "m2s_inv L bufSize (M', qw, qr\<lparr>lastTail := ?t + 1\<rparr>) ?N ps'"
    proof (rule after [OF M'(2,3)])
      show "pos_of L M 64 = Some (?t + 1 + of_nat (length ps'))" using pos(1) Cons by (simp add: add.assoc)
      show "queued L M (?t + 1) ps'" by (rule queued_tl [OF _ k]) (use qd Cons in simp)
      show "full_len L M (slot_at L (?t + 1) i)" if "length ps' \<le> i" "i < c - 1" for i
        using fl [of "Suc i"] slot_at_plus [OF k, of ?t 1 i] that Cons by simp
    qed (use n Cons in simp_all)
    ultimately show ?thesis by (simp add: s ring_recv_def Cons short_len [OF ok p])
  qed
qed

section \<open>Both directions are queues\<close>

definition sendable :: "layout \<Rightarrow> byte list \<Rightarrow> bool" where
  "sendable L p \<longleftrightarrow> p \<noteq> [] \<and> length p \<le> l_bufSize L"

interpretation s2m: packet_queue "ring_send False bufSize" "ring_recv True x buf"
  "\<lambda>s c ps. s2m_inv L bufSize s ps \<and> c = 2 ^ l_log2 L \<and> [] \<notin> set ps \<and> l_bufSize L \<le> length buf" "sendable L" "2 ^ l_log2 L"
  for L bufSize x buf
proof unfold_locales
  fix s and c :: nat and ps
  assume i: "s2m_inv L bufSize s ps \<and> c = 2 ^ l_log2 L \<and> [] \<notin> set ps \<and> l_bufSize L \<le> length buf"
  then show "length ps \<le> c \<and> c \<le> 2 ^ l_log2 L" by (auto simp: s2m_inv_def queued_def)
  show "p \<noteq> []" if "p \<in> set ps" for p using i that by auto
  show "\<exists>s'. ring_recv True x buf s = Some (case ps of [] \<Rightarrow> [] | p # ps' \<Rightarrow> p, s') \<and>
      s2m_inv L bufSize s' (tl ps) \<and> 2 ^ l_log2 L = (2::nat) ^ l_log2 L \<and> [] \<notin> set (tl ps) \<and> l_bufSize L \<le> length buf"
    using s2m_recv [of L bufSize s ps buf x] i by (cases ps) auto
  show "\<exists>s'. ring_send False bufSize p s = Some (if length ps < c then int (length p) else 0, s') \<and>
      s2m_inv L bufSize s' (if length ps < c then ps @ [p] else ps) \<and> c = 2 ^ l_log2 L \<and>
      [] \<notin> set (if length ps < c then ps @ [p] else ps) \<and> l_bufSize L \<le> length buf" if "sendable L p" for p
    using s2m_send [of L bufSize s ps p] i that by (auto simp: sendable_def split: if_splits)
qed (simp add: sendable_def)

interpretation m2s: packet_queue "ring_send True x" "ring_recv False bufSize buf"
  "\<lambda>s c ps. m2s_inv L bufSize s c ps \<and> [] \<notin> set ps \<and> l_bufSize L \<le> length buf" "sendable L" "2 ^ l_log2 L"
  for L bufSize x buf
proof unfold_locales
  fix s and c :: nat and ps
  assume i: "m2s_inv L bufSize s c ps \<and> [] \<notin> set ps \<and> l_bufSize L \<le> length buf"
  then show "length ps \<le> c \<and> c \<le> 2 ^ l_log2 L" by (auto simp: m2s_inv_def)
  show "p \<noteq> []" if "p \<in> set ps" for p using i that by auto
  show "\<exists>s'. ring_recv False bufSize buf s = Some (case ps of [] \<Rightarrow> [] | p # ps' \<Rightarrow> p, s') \<and>
      m2s_inv L bufSize s' (2 ^ l_log2 L) (tl ps) \<and> [] \<notin> set (tl ps) \<and> l_bufSize L \<le> length buf"
    using m2s_recv [of L bufSize s c ps buf] i by (cases ps) auto
  show "\<exists>s'. ring_send True x p s = Some (if length ps < c then int (length p) else 0, s') \<and>
      m2s_inv L bufSize s' c (if length ps < c then ps @ [p] else ps) \<and>
      [] \<notin> set (if length ps < c then ps @ [p] else ps) \<and> l_bufSize L \<le> length buf" if "sendable L p" for p
    using m2s_send [of L bufSize s c ps p x] i that by (auto simp: sendable_def split: if_splits)
qed (simp add: sendable_def)

end
