(* ===== verification/MemifInit.thy ===== *)
theory MemifInit
  imports MemifInterface MemifRingProps
begin

text \<open>
  The shared memory a slave creates: where its rings and packet buffers lie, that they fit and do not
  overlap, and that the rings start out as empty queues.
\<close>

section \<open>The layout of a region\<close>

abbreviation pairs :: "MemoryConfig \<Rightarrow> nat" where "pairs run \<equiv> unat (NumQueuePairs run)"
abbreviation slots :: "MemoryConfig \<Rightarrow> nat" where "slots run \<equiv> 2 ^ unat (Log2RingSize run)"
abbreviation bufsize :: "MemoryConfig \<Rightarrow> nat" where "bufsize run \<equiv> unat (PacketBufferSize run)"

definition ring_bytes :: "MemoryConfig \<Rightarrow> nat" where
  "ring_bytes run = 128 + 16 * slots run"

definition buffers_start :: "MemoryConfig \<Rightarrow> nat" where
  "buffers_start run = 2 * pairs run * ring_bytes run"

definition region_bytes :: "MemoryConfig \<Rightarrow> nat" where
  "region_bytes run = buffers_start run + 2 * pairs run * slots run * bufsize run"

text \<open>Configurations whose sizes do not wrap.\<close>

definition config_ok :: "MemoryConfig \<Rightarrow> bool" where
  "config_ok run \<longleftrightarrow> 0 < pairs run \<and> pairs run < 2 ^ 15 \<and> unat (Log2RingSize run) \<le> 15 \<and> region_bytes run < 2 ^ 32"

text \<open>Ring \<open>n\<close>: the rings to the master come first.\<close>

definition ring_layout :: "MemoryConfig \<Rightarrow> nat \<Rightarrow> layout" where
  "ring_layout run n =
     \<lparr>l_region = 0, l_base = n * ring_bytes run, l_log2 = unat (Log2RingSize run),
      l_buf = (\<lambda>j. (0, buffers_start run + (n * slots run + j) * bufsize run)), l_bufSize = bufsize run\<rparr>"

lemma mult_step: "(a :: nat) < b \<Longrightarrow> a * c + c \<le> b * c"
  using mult_le_mono1 [of "Suc a" b c] by simp

lemma buffer_before:
  assumes "n * N + j < (m :: nat)"
  shows "(n * N + j) * P + P \<le> m * (P :: nat)"
  using mult_step [OF assms, of P] by simp

lemma slot_number: "n < m \<Longrightarrow> j < N \<Longrightarrow> n * N + j < m * (N :: nat)"
  using mult_step [of n m N] by simp

lemma ring_layout_ok:
  assumes c: "config_ok run" and n: "n < 2 * pairs run"
  shows "layout_ok (ring_layout run n) [region_bytes run]"
proof -
  let ?N = "slots run" and ?P = "bufsize run" and ?R = "ring_bytes run" and ?Q = "2 * pairs run"
  have ring: "n * ?R + ?R \<le> buffers_start run"
    using mult_step [OF n, of ?R] by (simp add: buffers_start_def)
  have buf: "buffers_start run + (n * ?N + j) * ?P + ?P \<le> region_bytes run" if "j < ?N" for j
    using buffer_before [OF slot_number [OF n that], of ?P] by (simp add: region_bytes_def mult.assoc)
  have apart: "(n * ?N + i) * ?P + ?P \<le> (n * ?N + j) * ?P" if "i < j" for i j
    by (rule buffer_before) (use that in simp)
  have sep: "apart (0, buffers_start run + (n * ?N + i) * ?P, ?P) (0, buffers_start run + (n * ?N + j) * ?P, ?P)" if "i \<noteq> j" for i j
    using apart [of i j] apart [of j i] that by (cases "i < j") auto
  have b32: "buffers_start run + (n * ?N + j) * ?P + ?P < 2 ^ 32" if "j < ?N" for j
    using buf [OF that] c by (simp add: config_ok_def)
  have R: "ring_bytes run = 128 + 16 * ?N" by (simp add: ring_bytes_def)
  have top: "buffers_start run \<le> region_bytes run" by (simp add: region_bytes_def)
  show ?thesis
    unfolding layout_ok_def ring_area_def buf_area_def ring_layout_def
    using c ring buf sep b32 top R by (auto simp: config_ok_def inside_iff)
qed

section \<open>Sizes as the code computes them\<close>

lemma pow_shift32: "n < 32 \<Longrightarrow> unat (push_bit n 1 :: u32) = 2 ^ n"
proof -
  assume n: "n < 32"
  have "push_bit n 1 = (word_of_nat (2 ^ n) :: u32)" by (simp add: push_bit_eq_mult)
  moreover have "(2::nat) ^ n < 2 ^ 32" using n by (intro power_strict_increasing) simp_all
  then have "unat (word_of_nat (2 ^ n) :: u32) = 2 ^ n" unfolding unat_of_nat by (simp add: take_bit_nat_eq_self_iff)
  ultimately show ?thesis by (simp only:)
qed

lemma unat_u32_shift1: "unat (Log2RingSize run) \<le> 15 \<Longrightarrow> unat (u32_shift1 (Log2RingSize run)) = slots run"
  unfolding u32_shift1_def by (rule pow_shift32) simp

lemma unat_sum_small: "unat (a :: 'a::len word) + unat b < 2 ^ LENGTH('a) \<Longrightarrow> unat (a + b) = unat a + unat b"
  by (simp add: unat_word_ariths)

lemma unat_prod_small: "unat (a :: 'a::len word) * unat b < 2 ^ LENGTH('a) \<Longrightarrow> unat (a * b) = unat a * unat b"
  by (simp add: unat_word_ariths)

lemma twice_pairs: "pairs run < 2 ^ 15 \<Longrightarrow> unat (ucast (NumQueuePairs run + NumQueuePairs run) :: u32) = 2 * pairs run"
proof -
  assume "pairs run < 2 ^ 15"
  then have "unat (NumQueuePairs run + NumQueuePairs run) = pairs run + pairs run" by (intro unat_sum_small) simp
  moreover from \<open>pairs run < 2 ^ 15\<close> have "take_bit 32 (pairs run + pairs run) = pairs run + pairs run"
    by (simp add: take_bit_nat_eq_self_iff)
  ultimately show ?thesis by (simp add: unsigned_ucast_eq)
qed

lemma packet_buffer_offset_val:
  assumes c: "config_ok run"
  shows "unat (packet_buffer_offset run) = buffers_start run"
proof -
  let ?f = "word_of_nat ringSize + word_of_nat descSize * u32_shift1 (Log2RingSize run) :: u32"
  have le: "slots run \<le> 2 ^ 15" using c by (intro power_increasing) (simp_all add: config_ok_def)
  have s: "unat (u32_shift1 (Log2RingSize run)) = slots run" by (rule unat_u32_shift1) (use c in \<open>simp add: config_ok_def\<close>)
  have "unat (word_of_nat descSize * u32_shift1 (Log2RingSize run) :: u32) = 16 * slots run"
    using le by (subst unat_prod_small) (simp_all add: descSize_def s)
  then have f: "unat ?f = ring_bytes run"
    using le by (subst unat_sum_small) (simp_all add: ringSize_def ring_bytes_def)
  have "2 * pairs run * ring_bytes run < 2 ^ 32"
    using c unfolding config_ok_def region_bytes_def buffers_start_def by linarith
  then show ?thesis unfolding packet_buffer_offset_def
    using c by (subst unat_prod_small) (simp_all only: f twice_pairs config_ok_def len_num1 buffers_start_def, simp_all)
qed

lemma region_size_val:
  assumes c: "config_ok run"
  shows "unat (region_size run (packet_buffer_offset run) True) = region_bytes run"
proof -
  have s: "unat (u32_shift1 (Log2RingSize run)) = slots run" by (rule unat_u32_shift1) (use c in \<open>simp add: config_ok_def\<close>)
  have q: "unat (ucast (NumQueuePairs run + NumQueuePairs run) :: u32) = 2 * pairs run" using c by (simp only: twice_pairs config_ok_def)
  have T: "buffers_start run + 2 * pairs run * slots run * bufsize run < 2 ^ 32" using c by (simp add: config_ok_def region_bytes_def)
  have total: "bufsize run * slots run * (2 * pairs run) < 2 ^ 32" using T by (simp add: mult.commute mult.left_commute)
  show ?thesis
  proof (cases "pairs run = 0")
    case True
    then have "NumQueuePairs run = 0" by (simp add: unat_eq_0)
    then show ?thesis using True by (simp add: region_size_def packet_buffer_offset_def region_bytes_def buffers_start_def)
  next
    case False
    then have "bufsize run * slots run * 1 \<le> bufsize run * slots run * (2 * pairs run)" by (intro mult_le_mono2) simp
    then have p: "bufsize run * slots run < 2 ^ 32" using total by linarith
    have u: "unat (PacketBufferSize run * u32_shift1 (Log2RingSize run)) = bufsize run * slots run"
      using p by (subst unat_prod_small) (simp_all add: s)
    have v: "unat (PacketBufferSize run * u32_shift1 (Log2RingSize run) * ucast (NumQueuePairs run + NumQueuePairs run)) =
        bufsize run * slots run * (2 * pairs run)"
      using total by (subst unat_prod_small) (simp_all only: u q, simp_all)
    have "unat (packet_buffer_offset run + PacketBufferSize run * u32_shift1 (Log2RingSize run) *
        ucast (NumQueuePairs run + NumQueuePairs run)) = region_bytes run"
      using T by (subst unat_sum_small)
        (simp_all only: v packet_buffer_offset_val [OF c] region_bytes_def, simp_all add: mult.commute mult.left_commute)
    moreover have "region_bytes run < 2 ^ 64" using c by (simp add: config_ok_def)
    ultimately show ?thesis unfolding region_size_def if_True unsigned_ucast_eq by (simp add: take_bit_nat_eq_self_iff)
  qed
qed

section \<open>Initialising one ring\<close>

text \<open>Descriptors with full buffers, the cookie in two halves, and both positions 0.\<close>

definition ring_empty :: "layout \<Rightarrow> regions \<Rightarrow> bool" where
  "ring_empty L M \<longleftrightarrow>
     (\<forall>j < 2 ^ l_log2 L. \<exists>d. desc_of L M j = Some d \<and> refers L j d \<and> getFlags d = 0 \<and> unat (getLength d) = l_bufSize L) \<and>
     pos_of L M 0 = Some 0x1F20 \<and> pos_of L M 2 = Some 0x3E3 \<and> pos_of L M 6 = Some 0 \<and> pos_of L M 64 = Some 0"

lemma rd_sub:
  assumes "rd M' r a n = rd M r a n" "rd M r a n \<noteq> None" "i + k \<le> n"
  shows "rd M' r (a + i) k = rd M r (a + i) k"
  using assms rd_part [of M r a n _ i k] rd_part [of M' r a n _ i k] by fastforce

lemma ring_empty_area:
  assumes same: "rd M' (l_region L) (l_base L) (128 + 16 * 2 ^ l_log2 L) = rd M (l_region L) (l_base L) (128 + 16 * 2 ^ l_log2 L)"
    and ok: "layout_ok L (map length M)" and e: "ring_empty L M"
  shows "ring_empty L M'"
proof -
  have "rd M (l_region L) (l_base L) (128 + 16 * 2 ^ l_log2 L) \<noteq> None"
    unfolding rd_inside using ok by (simp only: layout_ok_def ring_area_def)
  note sub = rd_sub [OF same this]
  have "desc_of L M' j = desc_of L M j" if "j < 2 ^ l_log2 L" for j
    unfolding desc_of_def using sub [of "128 + 16 * j" 16] that by (simp add: add.assoc)
  moreover have "pos_of L M' off = pos_of L M off" if "off + 2 \<le> 128" for off
    unfolding pos_of_def using sub [of off 2] that by simp
  ultimately show ?thesis using e by (simp add: ring_empty_def)
qed

lemma ring_empty_slots: "ring_empty L M \<Longrightarrow> slots_ok L M"
  by (auto simp: ring_empty_def slots_ok_def)

text \<open>A descriptor all of whose fields but the offset are set.\<close>

definition template :: "layout \<Rightarrow> descBuf \<Rightarrow> bool" where
  "template L d \<longleftrightarrow> length d = 16 \<and> getFlags d = 0 \<and> getRegion d = 0 \<and> unat (getLength d) = l_bufSize L"

lemma init_descs_ok:
  assumes "layout_ok L (map length M)" "placed L q" "template L desc" "j + n \<le> 2 ^ l_log2 L"
    and buf: "\<And>i. i < 2 ^ l_log2 L \<Longrightarrow> fst (l_buf L i) = 0 \<and> unat (base + word_of_nat (slot + i) * bufSize) = snd (l_buf L i)"
  shows "\<exists>desc' M'. init_descs q bufSize base slot j n desc M = Some (desc', M') \<and> template L desc' \<and>
    map length M' = map length M \<and> (\<forall>i < j. desc_of L M' i = desc_of L M i) \<and>
    (\<forall>i. j \<le> i \<longrightarrow> i < j + n \<longrightarrow> (\<exists>d. desc_of L M' i = Some d \<and> refers L i d \<and> template L d)) \<and>
    (\<forall>off. off + 2 \<le> 128 \<longrightarrow> pos_of L M' off = pos_of L M off) \<and>
    (\<forall>r b m. apart (ring_area L) (r, b, m) \<longrightarrow> rd M' r b m = rd M r b m)"
  using assms(1-4)
proof (induction n arbitrary: j desc M)
  case 0
  then show ?case by simp
next
  case (Suc n)
  let ?d = "setOffset (base + word_of_nat (slot + j) * bufSize) desc"
  have jN: "j < 2 ^ l_log2 L" using Suc.prems(4) by simp
  have ld: "length ?d = 16" using Suc.prems(3) by (simp add: template_def)
  obtain M1 where M1: "wr M (l_region L) (l_base L + 128 + 16 * j) ?d = Some M1" "map length M1 = map length M"
    "rd M1 (l_region L) (l_base L + 128 + 16 * j) (length ?d) = Some ?d"
    "\<And>r b m. apart (l_region L, l_base L + 128 + 16 * j, length ?d) (r, b, m) \<Longrightarrow> rd M1 r b m = rd M r b m"
    by (rule wrE [of M "l_region L" "l_base L + 128 + 16 * j" ?d])
      (use layout_inside(1) [OF Suc.prems(1) jN] ld in simp, rule that)
  have put: "putDescBuf M q (int j) ?d = Some M1"
    using putDescBuf_placed [OF Suc.prems(2) ld, of M j] layout_inside(1) [OF Suc.prems(1) jN] M1(1) by simp
  have t: "template L ?d" "refers L j ?d" using Suc.prems(3) buf [OF jN] by (simp_all add: template_def refers_def)
  have pr: "layout_ok L (map length M1)" "placed L q" "template L ?d" "Suc j + n \<le> 2 ^ l_log2 L"
    using Suc.prems M1(2) t(1) by simp_all
  from Suc.IH [OF pr] obtain desc' M' where r: "init_descs q bufSize base slot (Suc j) n ?d M1 = Some (desc', M')"
    "template L desc'" "map length M' = map length M1" "\<And>i. i < Suc j \<Longrightarrow> desc_of L M' i = desc_of L M1 i"
    "\<And>i. Suc j \<le> i \<Longrightarrow> i < Suc j + n \<Longrightarrow> \<exists>d. desc_of L M' i = Some d \<and> refers L i d \<and> template L d"
    "\<And>off. off + 2 \<le> 128 \<Longrightarrow> pos_of L M' off = pos_of L M1 off"
    "\<And>r b m. apart (ring_area L) (r, b, m) \<Longrightarrow> rd M' r b m = rd M1 r b m" by blast
  have d1: "desc_of L M1 j = Some ?d" using M1(3) ld by (simp add: desc_of_def)
  have di: "desc_of L M1 i = desc_of L M i" if "i \<noteq> j" for i
    unfolding desc_of_def by (rule M1(4)) (use desc_apart [of j i] that ld in auto)
  have p1: "pos_of L M1 off = pos_of L M off" if "off + 2 \<le> 128" for off
  proof -
    have "rd M1 (l_region L) (l_base L + off) 2 = rd M (l_region L) (l_base L + off) 2" by (rule M1(4)) (use that in auto)
    then show ?thesis by (simp add: pos_of_def)
  qed
  have fr: "rd M1 r b m = rd M r b m" if "apart (ring_area L) (r, b, m)" for r b m
    by (rule M1(4)) (use that jN ld in \<open>auto simp: ring_area_def\<close>)
  have "\<exists>d. desc_of L M' i = Some d \<and> refers L i d \<and> template L d" if "j \<le> i" "i < j + Suc n" for i
    using r(4) [of j] r(5) [of i] d1 t that by (cases "i = j") auto
  then show ?case
    using r(1-3) r(4) r(6,7) di p1 fr put M1(2) by (intro exI [of _ desc'] exI [of _ M']) (simp add: Let_def)
qed

section \<open>Initialising all rings\<close>

lemma shift1_pow: "n \<le> 15 \<Longrightarrow> shift1 n = 2 ^ n"
proof -
  assume n: "n \<le> 15"
  have le: "(2::int) ^ n \<le> 2 ^ 15" using n by (intro power_increasing) simp_all
  have "push_bit n 1 = (word_of_int (2 ^ n) :: u64)" by (simp add: push_bit_eq_mult)
  then have "shift1 n = signed_take_bit 63 (2 ^ n)" unfolding shift1_def by (simp only: sint_sbintrunc') simp
  also have "\<dots> = 2 ^ n" using le order_trans [of "- 9223372036854775808" 0 "(2::int) ^ n"] by (simp add: signed_take_bit_int_eq_self_iff)
  finally show ?thesis .
qed

definition ring_number :: "MemoryConfig \<Rightarrow> ringType \<Rightarrow> nat \<Rightarrow> nat" where
  "ring_number run t qid = (if t = ringTypeS2M then qid else pairs run + qid)"

lemma ring_number_simps: "ring_number run ringTypeS2M qid = qid" "ring_number run ringTypeM2S qid = pairs run + qid"
  by (simp_all add: ring_number_def)

lemma new_ring_placed:
  assumes "config_ok run" "rg_region (q_ring q) = 0" "rg_offset (q_ring q) = rg_offset (newRing run 0 t (int qid))"
    "rg_size (q_ring q) = rg_size (newRing run 0 t (int qid))"
  shows "placed (ring_layout run (ring_number run t qid)) q"
proof -
  have s: "shift1 (unat (Log2RingSize run)) = 2 ^ unat (Log2RingSize run)" using assms(1) by (intro shift1_pow) (simp add: config_ok_def)
  have u: "uint (NumQueuePairs run) = int (pairs run)" by (rule uint_nat)
  have rs: "int ringSize + int descSize * shift1 (unat (Log2RingSize run)) = int (ring_bytes run)"
    by (simp add: s ringSize_def descSize_def ring_bytes_def)
  have "rg_offset (newRing run 0 t (int qid)) = int (ring_number run t qid * ring_bytes run)"
    unfolding newRing_def Let_def rs u by (cases t) (simp_all only: memif_ring.simps ring_number_def ringType.distinct if_True
      if_False simp_thms of_nat_mult of_nat_add distrib_right add_0)
  then show ?thesis using assms(2-4) by (simp add: placed_def ring_layout_def newRing_def Let_def s)
qed

definition ready :: "MemoryConfig \<Rightarrow> memoryRegion \<Rightarrow> Interface \<Rightarrow> kernel \<Rightarrow> bool" where
  "ready run r i k \<longleftrightarrow> i_regions i = [r] \<and> mr_mapped r \<and> 0 < mr_fd r \<and> mappable (mr_size r) \<and> i_run i = run \<and>
     map length (shared k i) = [region_bytes run] \<and> (\<forall>m. k_ok k m)"

lemma ring_number_less: "qid < pairs run \<Longrightarrow> ring_number run t qid < 2 * pairs run"
  by (simp add: ring_number_def)

lemma rings_apart:
  assumes "m \<noteq> n"
  shows "apart (ring_area (ring_layout run n)) (ring_area (ring_layout run m))"
proof -
  have "m * ring_bytes run + ring_bytes run \<le> n * ring_bytes run" if "m < n" for m n using mult_step [OF that] .
  from this [of m n] this [of n m] assms show ?thesis
    by (cases "m < n") (auto simp: ring_area_def ring_layout_def ring_bytes_def)
qed

lemma bufs_apart:
  assumes "m \<noteq> n" "j < slots run" "l < slots run"
  shows "apart (buf_area (ring_layout run n) j) (buf_area (ring_layout run m) l)"
proof -
  have "apart (buf_area (ring_layout run n) j) (buf_area (ring_layout run m) l) \<and>
      apart (buf_area (ring_layout run m) l) (buf_area (ring_layout run n) j)" if "n < m" "j < slots run" for n m j l
  proof -
    have "(n * slots run + j) * bufsize run + bufsize run \<le> (m * slots run + l) * bufsize run"
      by (rule buffer_before [THEN order_trans]) (use slot_number [OF that] in \<open>auto intro: mult_le_mono1\<close>)
    then show ?thesis by (auto simp: buf_area_def ring_layout_def)
  qed
  from this [of n m j l] this [of m n l j] assms show ?thesis by (cases "n < m") auto
qed

lemma shared_single: "i_regions i = [r] \<Longrightarrow> mr_mapped r \<Longrightarrow> shared k i = [k_mem k (mr_fd r)]"
  by (simp add: shared_def region_data_def)

lemma put_back_single:
  "i_regions i = [r] \<Longrightarrow> mr_mapped r \<Longrightarrow> shared (put_back [r] [d] k) i = [d]"
  by (simp add: shared_def region_data_def)

lemma length_new_rb: "length (rg_rb (q_ring (new_queue run t qid f))) = 128"
  by (cases t) (simp_all add: new_queue_def ring_setFlags_def setCookie_def newRing_def Let_def ringSize_def)

lemma le_word_zeros: "le_word (replicate n 0) = 0"
  by (induction n) simp_all

lemma new_rb_zero:
  "le_word (take 2 (drop 6 (rg_rb (q_ring (new_queue run t qid f))))) = (0 :: u16)"
  "le_word (take 2 (drop 64 (rg_rb (q_ring (new_queue run t qid f))))) = (0 :: u16)"
proof -
  have z: "le_at off 2 (replicate ringSize 0) = (0 :: u16)" for off
    by (simp add: le_at_def le_word_zeros)
  show "le_word (take 2 (drop 6 (rg_rb (q_ring (new_queue run t qid f))))) = (0 :: u16)"
    "le_word (take 2 (drop 64 (rg_rb (q_ring (new_queue run t qid f))))) = (0 :: u16)"
    unfolding new_queue_def ring_setFlags_def setCookie_def newRing_def Let_def
    by (simp_all add: le_at_put_other z ringSize_def flip: le_at_def)
      (simp_all add: le_at_put_other z [unfolded ringSize_def])
qed

definition fresh_queue :: "MemoryConfig \<Rightarrow> ringType \<Rightarrow> nat \<Rightarrow> Queue \<Rightarrow> bool" where
  "fresh_queue run t qid q \<longleftrightarrow> placed (ring_layout run (ring_number run t qid)) q \<and> lastHead q = 0 \<and> lastTail q = 0 \<and>
     rg_log2Size (q_ring q) = uint (Log2RingSize run) \<and> 0 < interruptFd q \<and> length (rg_rb (q_ring q)) = 128"

text \<open>The two halves of the cookie.\<close>

lemma new_rb_cookie:
  "le_word (take 2 (drop 0 (rg_rb (q_ring (new_queue run t qid f))))) = (0x1F20 :: u16)"
  "le_word (take 2 (drop 2 (rg_rb (q_ring (new_queue run t qid f))))) = (0x3E3 :: u16)"
proof -
  have b: "le_bytes 4 (0x3E31F20 :: u32) = [0x20, 0x1F, 0xE3, 0x03]" by code_simp
  have w: "le_word [0x20, 0x1F] = (0x1F20 :: u16)" "le_word [0xE3, 0x03] = (0x3E3 :: u16)" by code_simp+
  show "le_word (take 2 (drop 0 (rg_rb (q_ring (new_queue run t qid f))))) = (0x1F20 :: u16)"
    "le_word (take 2 (drop 2 (rg_rb (q_ring (new_queue run t qid f))))) = (0x3E3 :: u16)"
    by (simp_all add: new_queue_def ring_setFlags_def setCookie_def newRing_def Let_def b put_at_def ringSize_def w)
qed

lemma init_queue_ok:
  assumes rdy: "ready run r i k" and c: "config_ok run" and qid: "qid < pairs run"
    and t: "template (ring_layout run (ring_number run t qid)) desc"
    and base: "\<And>j. j < slots run \<Longrightarrow> unat (base + word_of_nat (qid * slots run + j) * PacketBufferSize run) =
        buffers_start run + (ring_number run t qid * slots run + j) * bufsize run"
  shows "\<exists>desc' i' k' q. init_queue t base qid desc i k = Some (None, desc', i', k') \<and> ready run r i' k' \<and>
    template (ring_layout run (ring_number run t qid)) desc' \<and> ring_empty (ring_layout run (ring_number run t qid)) (shared k' i') \<and>
    (\<forall>m < 2 * pairs run. m \<noteq> ring_number run t qid \<longrightarrow> ring_empty (ring_layout run m) (shared k i) \<longrightarrow>
       ring_empty (ring_layout run m) (shared k' i')) \<and>
    fresh_queue run t qid q \<and>
    i' = (if t = ringTypeS2M then i\<lparr>i_txQueues := i_txQueues i @ [q]\<rparr> else i\<lparr>i_rxQueues := i_rxQueues i @ [q]\<rparr>)"
proof -
  let ?n = "ring_number run t qid"
  let ?L = "ring_layout run ?n"
  let ?flags = "(if t = ringTypeS2M then 1 else if a_InterruptFunc (i_args i) \<noteq> None then 0 else 1) :: int"
  define q where "q = (new_queue run t qid ?flags)\<lparr>interruptFd := int (k_next k) + 1\<rparr>"
  let ?k1 = "k\<lparr>k_next := k_next k + 1\<rparr>"
  let ?i' = "if t = ringTypeS2M then i\<lparr>i_txQueues := i_txQueues i @ [q]\<rparr> else i\<lparr>i_rxQueues := i_rxQueues i @ [q]\<rparr>"
  from rdy have reg: "i_regions i = [r]" "mr_mapped r" "i_run i = run" "map length (shared k i) = [region_bytes run]"
    "\<forall>m. k_ok k m" "0 < mr_fd r" "mappable (mr_size r)" by (simp_all add: ready_def)
  have reg': "i_regions ?i' = [r]" "i_run ?i' = run" using reg by simp_all
  have sh1: "shared ?k1 i = shared k i" by (simp add: shared_def region_data_def)
  have nl: "?n < 2 * pairs run" by (rule ring_number_less [OF qid])
  have ok: "layout_ok ?L (map length (shared k i))" unfolding reg(4) by (rule ring_layout_ok [OF c nl])
  have pl: "placed ?L q" by (rule new_ring_placed [OF c]) (simp_all add: q_def new_queue_def ring_setFlags_def setCookie_def newRing_def Let_def)
  have N: "nat (rg_size (q_ring q)) = slots run" using pl by (simp add: placed_def ring_layout_def nat_power_eq)
  have rb: "length (rg_rb (q_ring q)) = 128" by (simp add: q_def length_new_rb)
  have ins: "inside (map length (shared k i)) (l_region ?L, l_base ?L, length (rg_rb (q_ring q)))"
    using ok rb by (auto simp: layout_ok_def ring_area_def inside_iff)
  obtain M1 where M1: "wr (shared k i) (l_region ?L) (l_base ?L) (rg_rb (q_ring q)) = Some M1" "map length M1 = map length (shared k i)"
    "rd M1 (l_region ?L) (l_base ?L) (length (rg_rb (q_ring q))) = Some (rg_rb (q_ring q))"
    "\<And>r' b m. apart (l_region ?L, l_base ?L, length (rg_rb (q_ring q))) (r', b, m) \<Longrightarrow> rd M1 r' b m = rd (shared k i) r' b m"
    using ins by (rule wrE) (rule that)
  have put: "putRing (shared k i) q = Some M1"
    using M1(1) ins rb pl by (auto simp: putRing_def copy_to_def placed_def)
  have pos1: "pos_of ?L M1 off = Some (le_word (take 2 (drop off (rg_rb (q_ring q)))))" if "off + 2 \<le> 128" for off
    using rd_part [OF M1(3), of off 2] that rb by (simp add: pos_of_def)
  have ok1: "layout_ok ?L (map length M1)" using ok M1(2) by simp
  have buf: "fst (l_buf ?L j) = 0 \<and> unat (base + word_of_nat (qid * slots run + j) * PacketBufferSize run) = snd (l_buf ?L j)"
    if "j < 2 ^ l_log2 ?L" for j using base [of j] that by (simp add: ring_layout_def)
  have "0 + slots run \<le> 2 ^ l_log2 ?L" by (simp add: ring_layout_def)
  from init_descs_ok [OF ok1 pl t this buf] obtain desc' M2 where
    M2: "init_descs q (PacketBufferSize run) base (qid * slots run) 0 (slots run) desc M1 = Some (desc', M2)"
    "template ?L desc'" "map length M2 = map length M1"
    "\<And>j. j < slots run \<Longrightarrow> \<exists>d. desc_of ?L M2 j = Some d \<and> refers ?L j d \<and> template ?L d"
    "\<And>off. off + 2 \<le> 128 \<Longrightarrow> pos_of ?L M2 off = pos_of ?L M1 off"
    "\<And>r' b m. apart (ring_area ?L) (r', b, m) \<Longrightarrow> rd M2 r' b m = rd M1 r' b m" by auto
  from M2(3) M1(2) reg(4) obtain d2 where d2: "M2 = [d2]" by (cases M2) auto
  let ?k' = "put_back [r] M2 ?k1"
  have sh': "shared ?k' ?i' = M2" unfolding d2 by (rule put_back_single [OF reg'(1) reg(2)])
  have step: "init_queue t base qid desc i k = Some (None, desc', ?i', ?k')"
    unfolding init_queue_def Let_def sys_def prod.case reg(3) q_def [symmetric] sh1 put
    using reg(5) M2(1) by (simp add: N put reg(1))
  have sizes: "map length M2 = [region_bytes run]" using M2(3) M1(2) reg(4) by simp
  have rdy': "ready run r ?i' ?k'"
    unfolding ready_def sh' using reg reg' sizes by (simp add: d2)
  have e: "ring_empty ?L M2"
    unfolding ring_empty_def using M2(4) M2(5) [of 6] M2(5) [of 64] pos1 [of 6] pos1 [of 64] M2(5) [of 0] M2(5) [of 2] pos1 [of 0] pos1 [of 2]
      new_rb_cookie(1) [of run t qid ?flags]
    by (auto simp: template_def q_def new_rb_zero new_rb_cookie(2) ring_layout_def)
  have others: "ring_empty (ring_layout run m) M2" if m: "m < 2 * pairs run" "m \<noteq> ?n" and em: "ring_empty (ring_layout run m) (shared k i)" for m
  proof -
    let ?K = "ring_layout run m"
    have ap: "apart (ring_area ?L) (ring_area ?K)" by (rule rings_apart [OF m(2)])
    have "rd M2 (l_region ?K) (l_base ?K) (128 + 16 * 2 ^ l_log2 ?K) = rd M1 (l_region ?K) (l_base ?K) (128 + 16 * 2 ^ l_log2 ?K)"
      by (rule M2(6)) (use ap in \<open>simp add: ring_area_def\<close>)
    also have "\<dots> = rd (shared k i) (l_region ?K) (l_base ?K) (128 + 16 * 2 ^ l_log2 ?K)"
      by (rule M1(4)) (use ap rb in \<open>auto simp: ring_area_def\<close>)
    finally show ?thesis
      by (rule ring_empty_area [OF _ _ em]) (unfold reg(4), rule ring_layout_ok [OF c m(1)])
  qed
  show ?thesis
    by (rule exI [of _ desc'], rule exI [of _ ?i'], rule exI [of _ ?k'], rule exI [of _ q])
      (use step rdy' M2(2) e others sh' pl rb in \<open>simp add: fresh_queue_def q_def new_queue_def ring_setFlags_def setCookie_def newRing_def Let_def\<close>)
qed

definition add_queues :: "ringType \<Rightarrow> Queue list \<Rightarrow> Interface \<Rightarrow> Interface" where
  "add_queues t qs i = (if t = ringTypeS2M then i\<lparr>i_txQueues := i_txQueues i @ qs\<rparr> else i\<lparr>i_rxQueues := i_rxQueues i @ qs\<rparr>)"

lemma add_queues_simps [simp]:
  "add_queues t [] i = i" "add_queues t qs (add_queues t ps i) = add_queues t (ps @ qs) i"
  by (simp_all add: add_queues_def)

lemma template_run: "template (ring_layout run n) d \<Longrightarrow> template (ring_layout run m) d"
  by (simp add: template_def ring_layout_def)

lemma init_queues_ok:
  assumes "ready run r i k" and c: "config_ok run" and "qid + n \<le> pairs run" "template (ring_layout run 0) desc"
    and base: "\<And>qid j. qid < pairs run \<Longrightarrow> j < slots run \<Longrightarrow> unat (base + word_of_nat (qid * slots run + j) * PacketBufferSize run) =
        buffers_start run + (ring_number run t qid * slots run + j) * bufsize run"
  shows "\<exists>desc' k' qs. init_queues t base qid n desc i k = Some (None, desc', add_queues t qs i, k') \<and>
    ready run r (add_queues t qs i) k' \<and> template (ring_layout run 0) desc' \<and> length qs = n \<and>
    (\<forall>j < n. fresh_queue run t (qid + j) (qs ! j)) \<and>
    (\<forall>m < 2 * pairs run. ring_empty (ring_layout run m) (shared k i) \<or> (\<exists>j < n. m = ring_number run t (qid + j)) \<longrightarrow>
       ring_empty (ring_layout run m) (shared k' (add_queues t qs i)))"
  using assms(1,3,4)
proof (induction n arbitrary: qid desc i k)
  case 0
  then show ?case by (simp add: exI [of _ desc] exI [of _ k])
next
  case (Suc n)
  have q: "qid < pairs run" using Suc.prems(2) by simp
  from init_queue_ok [OF Suc.prems(1) c q template_run [OF Suc.prems(3)] base [OF q]] obtain desc1 k1 q1 where
    one: "init_queue t base qid desc i k = Some (None, desc1, add_queues t [q1] i, k1)" "ready run r (add_queues t [q1] i) k1"
    "template (ring_layout run (ring_number run t qid)) desc1"
    "ring_empty (ring_layout run (ring_number run t qid)) (shared k1 (add_queues t [q1] i))"
    "\<And>m. m < 2 * pairs run \<Longrightarrow> m \<noteq> ring_number run t qid \<Longrightarrow> ring_empty (ring_layout run m) (shared k i) \<Longrightarrow>
       ring_empty (ring_layout run m) (shared k1 (add_queues t [q1] i))"
    "fresh_queue run t qid q1"
    by (auto simp: add_queues_def)
  have le: "Suc qid + n \<le> pairs run" using Suc.prems(2) by simp
  from Suc.IH [OF one(2) le template_run [OF one(3)]] obtain desc2 k2 qs where
    rest: "init_queues t base (Suc qid) n desc1 (add_queues t [q1] i) k1 = Some (None, desc2, add_queues t (q1 # qs) i, k2)"
    "ready run r (add_queues t (q1 # qs) i) k2" "template (ring_layout run 0) desc2" "length qs = n"
    "\<And>j. j < n \<Longrightarrow> fresh_queue run t (Suc qid + j) (qs ! j)"
    "\<And>m. m < 2 * pairs run \<Longrightarrow> ring_empty (ring_layout run m) (shared k1 (add_queues t [q1] i)) \<or> (\<exists>j < n. m = ring_number run t (Suc qid + j)) \<Longrightarrow>
       ring_empty (ring_layout run m) (shared k2 (add_queues t (q1 # qs) i))"
    unfolding add_queues_simps append.simps by blast
  have f: "fresh_queue run t (qid + j) ((q1 # qs) ! j)" if "j < Suc n" for j
    using that one(6) rest(5) [of "j - 1"] by (cases j) simp_all
  have e: "ring_empty (ring_layout run m) (shared k2 (add_queues t (q1 # qs) i))"
    if m: "m < 2 * pairs run" and or: "ring_empty (ring_layout run m) (shared k i) \<or> (\<exists>j < Suc n. m = ring_number run t (qid + j))" for m
  proof -
    have "ring_empty (ring_layout run m) (shared k1 (add_queues t [q1] i)) \<or> (\<exists>j < n. m = ring_number run t (Suc qid + j))"
    proof (cases "m = ring_number run t qid")
      case True
      then show ?thesis using one(4) by simp
    next
      case False
      show ?thesis
      proof (cases "ring_empty (ring_layout run m) (shared k i)")
        case True
        then show ?thesis using one(5) [OF m False] by simp
      next
        case no: False
        with or obtain j where j: "j < Suc n" "m = ring_number run t (qid + j)" by blast
        with False have "j \<noteq> 0" by (cases "j = 0") auto
        with j show ?thesis by (intro disjI2 exI [of _ "j - 1"]) simp
      qed
    qed
    with rest(6) [OF m] show ?thesis by blast
  qed
  have "init_queues t base qid (Suc n) desc i k = Some (None, desc2, add_queues t (q1 # qs) i, k2)"
    using one(1) rest(1) by simp
  with rest(2,3,4) f e show ?case by (intro exI [of _ desc2] exI [of _ k2] exI [of _ "q1 # qs"]) auto
qed

section \<open>The shared memory of an interface\<close>

text \<open>An interface that has no memory yet, and no failing system calls.\<close>

definition blank :: "Interface \<Rightarrow> kernel \<Rightarrow> bool" where
  "blank i k \<longleftrightarrow> i_regions i = [] \<and> i_txQueues i = [] \<and> i_rxQueues i = [] \<and> (\<forall>n. k_ok k n)"

lemma region_mappable:
  assumes "config_ok run"
  shows "mappable (region_size run (packet_buffer_offset run) True)"
proof -
  let ?s = "region_size run (packet_buffer_offset run) True"
  have "0 < unat ?s" "unat ?s < 2 ^ 32"
    using assms unfolding region_size_val [OF assms] config_ok_def region_bytes_def buffers_start_def ring_bytes_def by simp_all
  then have "uint ?s < 2 ^ 32" by (simp add: uint_nat del: of_nat_unat)
  then have "signed_take_bit 63 (uint ?s) = uint ?s"
    using order_trans [OF _ uint_ge_0 [of ?s], of "- (2 ^ 63)"] by (intro signed_take_bit_int_eq_self) simp_all
  then have "sint ?s = uint ?s" by (simp add: sint_uint)
  with \<open>0 < unat ?s\<close> show ?thesis by (simp add: mappable_def uint_nat del: of_nat_unat)
qed

lemma initializeRegions_ok:
  assumes "blank i k" "config_ok (i_run i)"
  shows "\<exists>r k1. initializeRegions i k = (None, i\<lparr>i_regions := [r]\<rparr>, k1) \<and> ready (i_run i) r (i\<lparr>i_regions := [r]\<rparr>) k1 \<and>
    mr_packetBufferOffset r = packet_buffer_offset (i_run i)"
  using assms region_size_val [OF assms(2)] region_mappable [OF assms(2)]
  by (intro exI [of _ "\<lparr>mr_mapped = True, mr_size = region_size (i_run i) (packet_buffer_offset (i_run i)) True,
      mr_fd = int (k_next k) + 1, mr_packetBufferOffset = packet_buffer_offset (i_run i)\<rparr>"])
    (auto simp: initializeRegions_def addRegion_def sys_def Let_def blank_def ready_def shared_def region_data_def)

lemma slot_offset:
  assumes c: "config_ok run" and n: "n < 2 * pairs run" and j: "j < slots run"
    and b: "unat base = buffers_start run + d" and e: "d + m * bufsize run = (n * slots run + j) * bufsize run"
  shows "unat (base + word_of_nat m * PacketBufferSize run) = buffers_start run + (n * slots run + j) * bufsize run"
proof (cases "bufsize run = 0")
  case True
  then have "PacketBufferSize run = 0" by (simp add: unat_eq_0)
  then show ?thesis using b e True by simp
next
  case False
  have lt: "buffers_start run + (n * slots run + j) * bufsize run < 2 ^ 32"
    using layout_inside(3) [OF ring_layout_ok [OF c n], of j] j by (simp add: ring_layout_def)
  have mb: "d + m * bufsize run < 2 ^ 32" using lt e by linarith
  have "m * 1 \<le> m * bufsize run" using False by (intro mult_le_mono2) simp
  then have m32: "m < 2 ^ 32" using mb by linarith
  then have um: "unat (word_of_nat m :: u32) = m" by (simp add: unat_of_nat take_bit_nat_eq_self_iff)
  have "m * bufsize run < 2 ^ 32" using mb by linarith
  then have p: "unat (word_of_nat m * PacketBufferSize run) = m * bufsize run"
    by (subst unat_prod_small) (simp_all add: um)
  show ?thesis using lt e b by (subst unat_sum_small) (simp_all add: p)
qed

lemma initializeQueues_ok:
  assumes rdy: "ready run r i k" and c: "config_ok run" and r: "mr_packetBufferOffset r = packet_buffer_offset run"
    and e: "i_txQueues i = []" "i_rxQueues i = []"
  shows "\<exists>i' k'. initializeQueues i k = Some (None, i', k') \<and> ready run r i' k' \<and>
    length (i_txQueues i') = pairs run \<and> length (i_rxQueues i') = pairs run \<and>
    (\<forall>qid < pairs run. fresh_queue run ringTypeS2M qid (i_txQueues i' ! qid) \<and> fresh_queue run ringTypeM2S qid (i_rxQueues i' ! qid)) \<and>
    (\<forall>m < 2 * pairs run. ring_empty (ring_layout run m) (shared k' i'))"
proof -
  let ?desc = "setLength (PacketBufferSize run) (setRegion 0 (setFlags 0 newDescBuf))"
  let ?txOff = "ucast (NumQueuePairs run) * PacketBufferSize run * u32_shift1 (Log2RingSize run) :: u32"
  let ?b = "packet_buffer_offset run"
  have reg: "i_regions i = [r]" "i_run i = run" using rdy by (simp_all add: ready_def)
  have t0: "template (ring_layout run 0) ?desc" by (simp add: template_def ring_layout_def)
  have b1: "unat (?b + word_of_nat (qid * slots run + j) * PacketBufferSize run) =
      buffers_start run + (ring_number run ringTypeS2M qid * slots run + j) * bufsize run" if "qid < pairs run" "j < slots run" for qid j
    by (rule slot_offset [OF c _ that(2), where d = 0])
      (use that packet_buffer_offset_val [OF c] in \<open>simp_all add: ring_number_def\<close>)
  have le: "0 + pairs run \<le> pairs run" by simp
  from init_queues_ok [OF rdy c le t0 b1] obtain desc1 k1 txs where
    tx: "init_queues ringTypeS2M ?b 0 (pairs run) ?desc i k = Some (None, desc1, add_queues ringTypeS2M txs i, k1)"
    "ready run r (add_queues ringTypeS2M txs i) k1" "template (ring_layout run 0) desc1" "length txs = pairs run"
    "\<And>j. j < pairs run \<Longrightarrow> fresh_queue run ringTypeS2M j (txs ! j)"
    "\<And>m. m < pairs run \<Longrightarrow> ring_empty (ring_layout run m) (shared k1 (add_queues ringTypeS2M txs i))"
    by (fastforce simp: ring_number_def)
  let ?i1 = "add_queues ringTypeS2M txs i"
  have off: "unat (?b + ?txOff) = buffers_start run + pairs run * slots run * bufsize run" if "0 < pairs run"
  proof -
    let ?Q = "pairs run" and ?N = "slots run" and ?P = "bufsize run"
    have T: "buffers_start run + 2 * (?Q * ?N * ?P) < 2 ^ 32" using c by (simp add: config_ok_def region_bytes_def mult.assoc)
    have s: "unat (u32_shift1 (Log2RingSize run)) = ?N" by (rule unat_u32_shift1) (use c in \<open>simp add: config_ok_def\<close>)
    have q: "unat (ucast (NumQueuePairs run) :: u32) = ?Q"
      using c by (simp add: unsigned_ucast_eq take_bit_nat_eq_self_iff config_ok_def)
    have "?Q * ?P * 1 \<le> ?Q * ?P * ?N" by (intro mult_le_mono2) simp
    also have "\<dots> = ?Q * ?N * ?P" by (simp add: mult.commute mult.left_commute)
    finally have qp: "?Q * ?P < 2 ^ 32" using T by linarith
    have u1: "unat (ucast (NumQueuePairs run) * PacketBufferSize run :: u32) = ?Q * ?P" using qp by (subst unat_prod_small) (simp_all add: q)
    have "?Q * ?P * ?N < 2 ^ 32" using T by (simp add: mult.commute mult.left_commute)
    then have u2: "unat ?txOff = ?Q * ?P * ?N" by (subst unat_prod_small) (simp_all add: u1 s)
    show ?thesis using T by (subst unat_sum_small) (simp_all only: u2 packet_buffer_offset_val [OF c], simp_all add: mult.commute mult.left_commute)
  qed
  have b2: "unat (?b + ?txOff + word_of_nat (qid * slots run + j) * PacketBufferSize run) =
      buffers_start run + (ring_number run ringTypeM2S qid * slots run + j) * bufsize run" if "qid < pairs run" "j < slots run" for qid j
  proof (rule slot_offset [OF c _ that(2) off])
    show "ring_number run ringTypeM2S qid < 2 * pairs run" by (rule ring_number_less [OF that(1)])
    show "pairs run * slots run * bufsize run + (qid * slots run + j) * bufsize run =
        (ring_number run ringTypeM2S qid * slots run + j) * bufsize run"
      by (simp add: ring_number_def algebra_simps)
  qed (use that in simp)
  from init_queues_ok [OF tx(2) c le tx(3) b2] obtain desc2 k2 rxs where
    rx: "init_queues ringTypeM2S (?b + ?txOff) 0 (pairs run) desc1 ?i1 k1 = Some (None, desc2, add_queues ringTypeM2S rxs ?i1, k2)"
    "ready run r (add_queues ringTypeM2S rxs ?i1) k2" "length rxs = pairs run"
    "\<And>j. j < pairs run \<Longrightarrow> fresh_queue run ringTypeM2S j (rxs ! j)"
    "\<And>m. m < 2 * pairs run \<Longrightarrow> ring_empty (ring_layout run m) (shared k1 ?i1) \<or> (\<exists>j < pairs run. m = pairs run + j) \<Longrightarrow>
       ring_empty (ring_layout run m) (shared k2 (add_queues ringTypeM2S rxs ?i1))"
    unfolding ring_number_simps add_0 by blast
  have all: "ring_empty (ring_layout run m) (shared k2 (add_queues ringTypeM2S rxs ?i1))" if m: "m < 2 * pairs run" for m
  proof (cases "m < pairs run")
    case True
    then show ?thesis using rx(5) [OF m] tx(6) by blast
  next
    case False
    then show ?thesis using rx(5) [OF m] m by (metis le_add_diff_inverse less_diff_conv2 mult_2 not_less)
  qed
  have "initializeQueues i k = Some (None, add_queues ringTypeM2S rxs ?i1, k2)"
    unfolding initializeQueues_def Let_def reg list.case r using tx(1) rx(1) by simp
  with rx tx(4,5) all e show ?thesis by (intro exI conjI) (auto simp: add_queues_def)
qed

section \<open>What creating the memory leaves alone\<close>

definition same_wire :: "kernel \<Rightarrow> kernel \<Rightarrow> bool" where
  "same_wire k k' \<longleftrightarrow> k_wire k' = k_wire k \<and> k_next k \<le> k_next k'"

lemma same_wire_simps [simp]: "same_wire k k" "same_wire k k1 \<Longrightarrow> same_wire k1 k2 \<Longrightarrow> same_wire k k2"
  by (simp_all add: same_wire_def)

lemma put_back_wire: "k_wire (put_back rs ds k) = k_wire k \<and> k_next (put_back rs ds k) = k_next k"
  by (induction rs ds k rule: put_back.induct) simp_all

definition only_queues :: "Interface \<Rightarrow> Interface \<Rightarrow> bool" where
  "only_queues i i' \<longleftrightarrow> i' = i\<lparr>i_txQueues := i_txQueues i', i_rxQueues := i_rxQueues i'\<rparr>"

lemma only_queues_refl [simp]: "only_queues i i"
  by (simp add: only_queues_def)

lemma only_queues_trans: "only_queues i i1 \<Longrightarrow> only_queues i1 i2 \<Longrightarrow> only_queues i i2"
  unfolding only_queues_def by (cases i; cases i1; cases i2) simp

lemma only_queues_sel: "only_queues i i' \<Longrightarrow> i_args i' = i_args i \<and> i_cc i' = i_cc i"
  by (cases i; cases i') (simp add: only_queues_def)

lemma init_queue_frame:
  assumes "init_queue t base qid desc i k = Some (e, desc', i', k')"
  shows "same_wire k k' \<and> only_queues i i'"
  using assms put_back_wire
  by (auto simp: init_queue_def Let_def sys_def same_wire_def only_queues_def split: if_splits bind_splits)

lemma init_queues_frame:
  "init_queues t base qid n desc i k = Some (e, desc', i', k') \<Longrightarrow> same_wire k k' \<and> only_queues i i'"
proof (induction t base qid n desc i k rule: init_queues.induct)
  case (2 t base qid n desc i k)
  then show ?case
    by (fastforce split: bind_splits option.splits dest!: init_queue_frame intro: only_queues_trans)
qed simp

lemma initializeQueues_frame:
  "initializeQueues i k = Some (e, i', k') \<Longrightarrow> same_wire k k' \<and> only_queues i i'"
  by (auto simp: initializeQueues_def Let_def split: list.splits if_splits bind_splits option.splits
      dest!: init_queues_frame intro: only_queues_trans)

lemma initializeRegions_frame:
  "initializeRegions i k = (e, i', k') \<Longrightarrow> same_wire k k'"
  by (auto simp: initializeRegions_def addRegion_def Let_def sys_def same_wire_def split: if_splits option.splits prod.splits)

end
