(* ===== verification/MemifProps.thy ===== *)
theory MemifProps
  imports MemifInit
begin

text \<open>
  What the packet interface guarantees, from the creation of its shared memory on: packets that fit
  into one buffer are delivered in order, in both directions. Longer packets are not, and bursts can
  overrun the ring.
\<close>

section \<open>Packets longer than a buffer\<close>

lemma int_Suc_unat: "int (unat h) + 1 = int (Suc (unat h))"
  by simp

lemma slot_Suc: "Suc (unat rp) mod 2 ^ l_log2 L = slot_at L rp 1"
  by (simp add: slot_at_def)

lemma write_two:
  assumes ok: "layout_ok L (map length M)" and pl: "placed L q" and sl: "slots_ok L M"
    and st: "tx_start False M q = Some (uint h, f)" "2 \<le> unat f" and k: "1 \<le> l_log2 L"
    and p: "l_bufSize L < length pkt" "length pkt \<le> 2 * l_bufSize L" and bs: "unat bufSize = l_bufSize L"
  obtains M' w d1 d2 where "WritePacket False bufSize q pkt M = Some (2 * int (l_bufSize L), M', w)"
    "map length M' = map length M"
    "desc_of L M' (slot_at L h 0) = Some d1" "refers L (slot_at L h 0) d1" "getFlags d1 = descFlagNext" "unat (getLength d1) = l_bufSize L"
    "desc_of L M' (slot_at L h 1) = Some d2" "refers L (slot_at L h 1) d2" "getFlags d2 = 0" "unat (getLength d2) = l_bufSize L"
    "\<And>i. i < 2 \<Longrightarrow> rd M' (fst (l_buf L (slot_at L h i))) (snd (l_buf L (slot_at L h i))) (l_bufSize L) = Some (take (l_bufSize L) pkt)"
    "pos_of L M' 6 = Some (h + 2)" "pos_of L M' 64 = pos_of L M 64"
proof -
  let ?P = "l_bufSize L" and ?j0 = "slot_at L h 0" and ?j1 = "slot_at L h 1"
  let ?p = "take ?P pkt"
  have lp: "length ?p = ?P" using p(1) by simp
  from ok have k15: "l_log2 L \<le> 15" by (simp add: layout_ok_def)
  have N2: "2 \<le> (2::nat) ^ l_log2 L" using power_increasing [OF k, of "2::nat"] by simp
  have ne: "?j0 \<noteq> ?j1" using slot_at_inj [of L h 0 1] N2 by auto
  have j0: "?j0 = unat h mod 2 ^ l_log2 L" and j1: "?j1 = Suc (unat h) mod 2 ^ l_log2 L" by (simp_all add: slot_at_def)
  have lt: "?j0 < 2 ^ l_log2 L" "?j1 < 2 ^ l_log2 L" by (rule slot_at_less)+
  have sl0: "int (unat h) AND ring_mask (q_ring q) = int ?j0" using ring_slot [OF pl k15, of "unat h"] by (simp only: slot_at_def add_0_right)
  have sl1: "int (Suc (unat h)) AND ring_mask (q_ring q) = int ?j1" using ring_slot [OF pl k15, of "Suc (unat h)"] by (simp only: slot_Suc)
  obtain d1 M1 where t1: "tx_fill False bufSize M q (int (unat h)) newDescBuf pkt = Some (int (length ?p), d1, M1)"
    "length d1 = 16" "refers L ?j0 d1" "getFlags d1 = 0" "unat (getLength d1) = length ?p" "map length M1 = map length M"
    "\<And>i. i < 2 ^ l_log2 L \<Longrightarrow> desc_of L M1 i = desc_of L M i" "\<And>off. off + 2 \<le> 128 \<Longrightarrow> pos_of L M1 off = pos_of L M off"
    "rd M1 (fst (l_buf L ?j0)) (snd (l_buf L ?j0)) (length ?p) = Some ?p"
    by (rule tx_fill_one [OF ok pl sl j0 refl length_newDescBuf, where isMaster = False and bufSize = bufSize]) (simp, rule bs, rule that)
  let ?d1 = "setFlags descFlagNext d1"
  have ok1: "layout_ok L (map length M1)" using ok t1(6) by simp
  obtain M2 where M2: "putDescBuf M1 q (int ?j0) ?d1 = Some M2" "map length M2 = map length M1"
    "desc_of L M2 ?j0 = Some ?d1" "\<And>i. i \<noteq> ?j0 \<Longrightarrow> desc_of L M2 i = desc_of L M1 i"
    "\<And>off. off + 2 \<le> 128 \<Longrightarrow> pos_of L M2 off = pos_of L M1 off"
    "\<And>i n. i < 2 ^ l_log2 L \<Longrightarrow> n \<le> ?P \<Longrightarrow> rd M2 (fst (l_buf L i)) (snd (l_buf L i)) n = rd M1 (fst (l_buf L i)) (snd (l_buf L i)) n"
    by (rule put_desc_at [OF ok1 pl lt(1), of ?d1]) (simp add: t1(2), rule that)
  have ok2: "layout_ok L (map length M2)" using ok1 M2(2) by simp
  have r1: "refers L ?j0 ?d1" using t1(2,3) by (simp add: refers_def)
  have "\<exists>d. desc_of L M2 i = Some d \<and> refers L i d" if "i < 2 ^ l_log2 L" for i
    using M2(3) M2(4) [of i] t1(7) [OF that] r1 sl that by (cases "i = ?j0") (simp_all add: slots_ok_def)
  then have sl2: "slots_ok L M2" by (simp add: slots_ok_def)
  have ld1: "length ?d1 = 16" using t1(2) by simp
  obtain d2 M3 where t2: "tx_fill False bufSize M2 q (int (Suc (unat h))) ?d1 pkt = Some (int (length ?p), d2, M3)"
    "length d2 = 16" "refers L ?j1 d2" "getFlags d2 = 0" "unat (getLength d2) = length ?p" "map length M3 = map length M2"
    "\<And>i. i < 2 ^ l_log2 L \<Longrightarrow> desc_of L M3 i = desc_of L M2 i" "\<And>off. off + 2 \<le> 128 \<Longrightarrow> pos_of L M3 off = pos_of L M2 off"
    "rd M3 (fst (l_buf L ?j1)) (snd (l_buf L ?j1)) (length ?p) = Some ?p"
    "\<And>i n. i < 2 ^ l_log2 L \<Longrightarrow> i \<noteq> ?j1 \<Longrightarrow> n \<le> ?P \<Longrightarrow> rd M3 (fst (l_buf L i)) (snd (l_buf L i)) n = rd M2 (fst (l_buf L i)) (snd (l_buf L i)) n"
    by (rule tx_fill_one [OF ok2 pl sl2 j1 refl ld1, where isMaster = False and bufSize = bufSize]) (simp, rule bs, rule that)
  have ok3: "layout_ok L (map length M3)" using ok2 t2(6) by simp
  obtain M4 where M4: "putDescBuf M3 q (int ?j1) d2 = Some M4" "map length M4 = map length M3"
    "desc_of L M4 ?j1 = Some d2" "\<And>i. i \<noteq> ?j1 \<Longrightarrow> desc_of L M4 i = desc_of L M3 i"
    "\<And>off. off + 2 \<le> 128 \<Longrightarrow> pos_of L M4 off = pos_of L M3 off"
    "\<And>i n. i < 2 ^ l_log2 L \<Longrightarrow> n \<le> ?P \<Longrightarrow> rd M4 (fst (l_buf L i)) (snd (l_buf L i)) n = rd M3 (fst (l_buf L i)) (snd (l_buf L i)) n"
    by (rule put_desc_at [OF ok3 pl lt(2) t2(2)]) (rule that)
  have ok4: "layout_ok L (map length M4)" using ok3 M4(2) by simp
  obtain M5 where M5: "wr M4 (l_region L) (l_base L + 6) (le_bytes 2 (h + 2)) = Some M5" "moved L M4 6 (h + 2) M5"
    by (rule pos_write [OF ok4, of 6 "h + 2"]) (simp, rule that)
  have w2: "word_of_int (int (Suc (unat h)) + 1) = h + 2" by simp
  have pub: "tx_publish False M4 q (int (Suc (unat h)) + 1) = Some M5"
    unfolding tx_publish_def ring_words_placed [OF pl] w2 using M5(1) by simp
  have "layout_ok L (map length M5)" using ok4 M5(2) by (simp add: moved_def)
  from interrupt_placed [OF pl this] obtain w where w: "interrupt M5 q = Some w" by blast
  obtain fr where fr: "unat f = Suc (Suc fr)" using st(2) by (metis Suc_1 add_2_eq_Suc le_Suc_ex)
  have c2: "tx_chain False bufSize q pkt (Suc fr) M3 (int (Suc (unat h))) d2 (int ?P + int ?P) =
      Some (Some (int (Suc (unat h)), d2, int ?P + int ?P, Suc fr), M3)" using p(2) by (simp add: tx_chain.simps)
  have c1: "tx_chain False bufSize q pkt (unat f) M1 (int (unat h)) d1 (int ?P) =
      Some (Some (int (Suc (unat h)), d2, int ?P + int ?P, Suc fr), M3)"
    unfolding fr tx_chain.simps [of _ _ _ _ "Suc (Suc fr)"] sl0 int_Suc_unat
    using p(1) M2(1) t2(1) c2 lp by simp
  have f0: "f \<noteq> 0" using fr by auto
  have W: "WritePacket False bufSize q pkt M = Some (int ?P + int ?P, M5, w)"
    unfolding WritePacket_def st(1) uint_nat
    by (simp only: Option.bind.simps prod.case f0 if_False t1(1) lp c1 option.case sl1 M4(1) pub w)
  have d: "desc_of L M5 ?j0 = Some ?d1" "desc_of L M5 ?j1 = Some d2"
    using M5(2) M4(3) M4(4) [OF ne] t2(7) [OF lt(1)] M2(3) lt by (simp_all add: moved_def)
  have b0: "rd M5 (fst (l_buf L ?j0)) (snd (l_buf L ?j0)) ?P = Some ?p"
    using M5(2) M4(6) [OF lt(1)] t2(10) [OF lt(1) ne] M2(6) [OF lt(1)] t1(9) lp lt(1) by (simp add: moved_def)
  have b1: "rd M5 (fst (l_buf L ?j1)) (snd (l_buf L ?j1)) ?P = Some ?p"
    using M5(2) M4(6) [OF lt(2)] t2(9) lp lt(2) by (simp add: moved_def)
  show thesis
  proof (rule that [of M5 w ?d1 d2])
    show "WritePacket False bufSize q pkt M = Some (2 * int ?P, M5, w)" using W by simp
    show "map length M5 = map length M" using M5(2) M4(2) t2(6) M2(2) t1(6) by (simp add: moved_def)
    show "rd M5 (fst (l_buf L (slot_at L h i))) (snd (l_buf L (slot_at L h i))) ?P = Some ?p" if "i < 2" for i
      using that b0 b1 by (cases i) (simp_all add: less_Suc_eq numeral_2_eq_2)
    show "pos_of L M5 64 = pos_of L M 64"
      using M5(2) M4(5) [of 64] t2(8) [of 64] M2(5) [of 64] t1(8) [of 64] by (simp add: moved_def)
    show "pos_of L M5 6 = Some (h + 2)" using M5(2) by (simp add: moved_def)
  qed (use d r1 t1 t2 lp in \<open>simp_all\<close>)
qed

text \<open>The state of an empty queue after such a packet was sent, as the receiver meets it.\<close>

lemma long_sent:
  assumes inv: "s2m_inv L bufSize (M, qw, qr) []" and k: "1 \<le> l_log2 L"
    and p: "l_bufSize L < length pkt" "length pkt \<le> 2 * l_bufSize L"
  obtains M' w d1 d2 where "WritePacket False bufSize qw pkt M = Some (2 * int (l_bufSize L), M', w)"
    "layout_ok L (map length M')" "rx_start True M' qr = Some (uint (lastHead qr), uint (lastHead qr + 2))"
    "getDescBuf M' qr (uint (lastHead qr) AND ring_mask (q_ring qr)) newDescBuf = Some d1"
    "getDescBuf M' qr ((uint (lastHead qr) + 1) AND ring_mask (q_ring qr)) d1 = Some d2"
    "getFlags d1 = descFlagNext" "getFlags d2 = 0" "getLength d1 = word_of_nat (l_bufSize L)" "getLength d2 = word_of_nat (l_bufSize L)"
    "buf_slice_of M' d1 (getLength d1) = Some (take (l_bufSize L) pkt)" "buf_slice_of M' d2 (getLength d2) = Some (take (l_bufSize L) pkt)"
proof -
  let ?t = "lastHead qr" and ?P = "l_bufSize L"
  let ?p = "take ?P pkt"
  from inv have ok: "layout_ok L (map length M)" and pl: "placed L qw" "placed L qr" and sl: "slots_ok L M"
    and bs: "unat bufSize = ?P" and pos: "pos_of L M 64 = Some ?t" "pos_of L M 6 = Some ?t" by (simp_all add: s2m_inv_def)
  from ok have k15: "l_log2 L \<le> 15" by (simp add: layout_ok_def)
  have size: "rg_size (q_ring qw) = 2 ^ l_log2 L" using pl(1) by (simp add: placed_def)
  have st: "tx_start False M qw = Some (uint ?t, of_nat (2 ^ l_log2 L))"
    unfolding tx_start_def ring_words_placed [OF pl(1)] pos size by simp
  have "(2::nat) ^ l_log2 L \<le> 2 ^ 15" using k15 by (intro power_increasing) simp_all
  then have "unat (of_nat (2 ^ l_log2 L) :: u16) = 2 ^ l_log2 L" unfolding unat_of_nat by (simp add: take_bit_nat_eq_self_iff)
  then have f2: "2 \<le> unat (of_nat (2 ^ l_log2 L) :: u16)" using power_increasing [OF k, of "2::nat"] by (simp only:) simp
  obtain M' w d1 d2 where W: "WritePacket False bufSize qw pkt M = Some (2 * int ?P, M', w)"
    "map length M' = map length M"
    "desc_of L M' (slot_at L ?t 0) = Some d1" "refers L (slot_at L ?t 0) d1" "getFlags d1 = descFlagNext" "unat (getLength d1) = ?P"
    "desc_of L M' (slot_at L ?t 1) = Some d2" "refers L (slot_at L ?t 1) d2" "getFlags d2 = 0" "unat (getLength d2) = ?P"
    "\<And>i. i < 2 \<Longrightarrow> rd M' (fst (l_buf L (slot_at L ?t i))) (snd (l_buf L (slot_at L ?t i))) ?P = Some ?p"
    "pos_of L M' 6 = Some (?t + 2)" "pos_of L M' 64 = pos_of L M 64"
    by (rule write_two [OF ok pl(1) sl st f2 k p bs]) (rule that)
  have ok': "layout_ok L (map length M')" using ok W(2) by simp
  have rx: "rx_start True M' qr = Some (uint ?t, uint (?t + 2))"
    unfolding rx_start_def ring_words_placed [OF pl(2)] W(12) by simp
  have g: "getLength d1 = word_of_nat ?P" "getLength d2 = word_of_nat ?P"
    using W(6,10) by (metis of_nat_unat word_of_int_uint word_of_nat_eq_iff of_int_of_nat_eq)+
  have sl0: "uint ?t AND ring_mask (q_ring qr) = int (slot_at L ?t 0)"
    using ring_slot [OF pl(2) k15, of "unat ?t"] by (simp only: slot_at_def add_0_right of_nat_unat)
  have sl1: "(uint ?t + 1) AND ring_mask (q_ring qr) = int (slot_at L ?t 1)"
    using ring_slot [OF pl(2) k15, of "Suc (unat ?t)"] by (simp only: slot_Suc int_Suc_unat [symmetric] of_nat_unat)
  have g0: "getDescBuf M' qr (uint ?t AND ring_mask (q_ring qr)) newDescBuf = Some d1"
    unfolding sl0 by (rule getDescBuf_placed [OF pl(2) W(3)]) simp
  have g1: "getDescBuf M' qr ((uint ?t + 1) AND ring_mask (q_ring qr)) d1 = Some d2"
    unfolding sl1 by (rule getDescBuf_placed [OF pl(2) W(7) desc_of_length [OF W(3)]])
  have s: "buf_slice_of M' d1 (getLength d1) = Some ?p" "buf_slice_of M' d2 (getLength d2) = Some ?p"
    using buf_slice_of_rd [of d1 "getLength d1" M'] buf_slice_of_rd [of d2 "getLength d2" M'] W(4,6,8,10) W(11) [of 0] W(11) [of 1]
      layout_inside(3) [OF ok' slot_at_less [of L ?t 0]] layout_inside(3) [OF ok' slot_at_less [of L ?t 1]] by (simp_all add: refers_def)
  show thesis by (rule that [OF W(1) ok' rx g0 g1 W(5,9) g s])
qed

text \<open>
  A packet of more than one and at most two buffers, sent over an empty queue, does
  not arrive: both of its buffers hold the beginning of the packet, and the receiver gets it twice.
\<close>

theorem long_packet_repeated:
  assumes inv: "s2m_inv L bufSize (M, qw, qr) []" and k: "1 \<le> l_log2 L"
    and p: "l_bufSize L < length pkt" "length pkt \<le> 2 * l_bufSize L" "2 * l_bufSize L < 2 ^ 32" "2 * l_bufSize L \<le> length buf"
  shows "\<exists>s' s''. ring_send False bufSize pkt (M, qw, qr) = Some (2 * int (l_bufSize L), s') \<and>
    ring_recv True x buf s' = Some (take (l_bufSize L) pkt @ take (l_bufSize L) pkt, s'')"
proof -
  let ?t = "lastHead qr" and ?P = "l_bufSize L"
  let ?p = "take ?P pkt"
  have lp: "length ?p = ?P" using p(1) by simp
  from inv have pl: "placed L qr" by (simp add: s2m_inv_def)
  obtain M' w d1 d2 where W: "WritePacket False bufSize qw pkt M = Some (2 * int ?P, M', w)"
    "layout_ok L (map length M')" "rx_start True M' qr = Some (uint ?t, uint (?t + 2))"
    "getDescBuf M' qr (uint ?t AND ring_mask (q_ring qr)) newDescBuf = Some d1"
    "getDescBuf M' qr ((uint ?t + 1) AND ring_mask (q_ring qr)) d1 = Some d2"
    "getFlags d1 = descFlagNext" "getFlags d2 = 0" "getLength d1 = word_of_nat ?P" "getLength d2 = word_of_nat ?P"
    "buf_slice_of M' d1 (getLength d1) = Some ?p" "buf_slice_of M' d2 (getLength d2) = Some ?p"
    by (rule long_sent [OF inv k p(1,2)]) (rule that)
  have n2: "(word_of_int (uint (?t + 2) - uint ?t) :: u16) = 2" by simp
  have bl: "?P \<le> length buf" using p(4) by simp
  have c0: "rx_copy M' d1 buf 0 = Some (?p @ drop ?P buf)"
    using W(10) bl lp by (simp add: rx_copy_def copy_into_def)
  have uP: "unat (word_of_nat ?P :: u32) = ?P" using p(3) by (simp add: unat_of_nat take_bit_nat_eq_self_iff)
  have c1: "rx_copy M' d2 (?p @ drop ?P buf) (word_of_nat ?P) = Some (?p @ ?p @ drop (2 * ?P) buf)"
  proof -
    have "copy_into (drop ?P buf) ?p = ?p @ drop (2 * ?P) buf" using p(4) lp by (simp add: copy_into_def mult_2)
    moreover have "take ?P (?p @ drop ?P buf) = ?p" "drop ?P (?p @ drop ?P buf) = drop ?P buf" "?P \<le> length (?p @ drop ?P buf)"
      using lp by simp_all
    ultimately show ?thesis unfolding rx_copy_def uP W(11) by simp
  qed
  have ch: "rx_chain qr M' (Suc 0) (uint ?t + 1) d1 (?p @ drop ?P buf) (getLength d1) =
      Some (Some (uint ?t + 1 + 1, word_of_nat ?P + word_of_nat ?P), ?p @ ?p @ drop (2 * ?P) buf)"
    using W(5-9) c1 by (simp add: rx_chain.simps descFlagNext_def)
  obtain M2 where rel: "rx_release True x M' qr (uint ?t + 1 + 1) = Some (qr\<lparr>lastHead := word_of_int (uint ?t + 1 + 1)\<rparr>, M2)"
    by (rule release_master [OF W(2) pl]) (rule that)
  have u2: "unat (2 * word_of_nat ?P :: u32) = 2 * ?P"
    unfolding mult_2 using p(3) by (subst unat_sum_small) (simp_all add: uP)
  have "\<exists>q'. ReadPacket True x qr buf M' = Some (Inr (word_of_nat ?P + word_of_nat ?P), ?p @ ?p @ drop (2 * ?P) buf, q', M2)"
    unfolding ReadPacket_def W(3) using rel ch by (simp add: Let_def n2 W(4) c0)
  then obtain q' where "ReadPacket True x qr buf M' = Some (Inr (word_of_nat ?P + word_of_nat ?P), ?p @ ?p @ drop (2 * ?P) buf, q', M2)" by blast
  then show ?thesis using W(1) lp by (simp add: ring_send_def ring_recv_def u2)
qed

text \<open>
  A chained packet makes the receiver panic when its packet buffer is smaller than the
  buffers of the ring: the position for the second part lies outside of the packet buffer.
\<close>

theorem chained_packet_panics:
  assumes inv: "s2m_inv L bufSize (M, qw, qr) []" and k: "1 \<le> l_log2 L"
    and p: "l_bufSize L < length pkt" "length pkt \<le> 2 * l_bufSize L" "l_bufSize L < 2 ^ 32" "length buf < l_bufSize L"
  shows "\<exists>n M' w. WritePacket False bufSize qw pkt M = Some (n, M', w) \<and> ReadPacket True x qr buf M' = None"
proof -
  let ?t = "lastHead qr" and ?P = "l_bufSize L"
  obtain M' w d1 d2 where W: "WritePacket False bufSize qw pkt M = Some (2 * int ?P, M', w)"
    "layout_ok L (map length M')" "rx_start True M' qr = Some (uint ?t, uint (?t + 2))"
    "getDescBuf M' qr (uint ?t AND ring_mask (q_ring qr)) newDescBuf = Some d1"
    "getDescBuf M' qr ((uint ?t + 1) AND ring_mask (q_ring qr)) d1 = Some d2"
    "getFlags d1 = descFlagNext" "getFlags d2 = 0" "getLength d1 = word_of_nat ?P" "getLength d2 = word_of_nat ?P"
    "buf_slice_of M' d1 (getLength d1) = Some (take ?P pkt)" "buf_slice_of M' d2 (getLength d2) = Some (take ?P pkt)"
    by (rule long_sent [OF inv k p(1,2)]) (rule that)
  have n2: "(word_of_int (uint (?t + 2) - uint ?t) :: u16) = 2" by simp
  have c0: "rx_copy M' d1 buf 0 = Some (copy_into buf (take ?P pkt))"
    using W(10) by (simp add: rx_copy_def)
  have uP: "unat (word_of_nat ?P :: u32) = ?P" using p(3) by (simp add: unat_of_nat take_bit_nat_eq_self_iff)
  have c1: "rx_copy M' d2 (copy_into buf (take ?P pkt)) (word_of_nat ?P) = None"
    unfolding rx_copy_def uP using p(4) by simp
  have ch: "rx_chain qr M' (Suc 0) (uint ?t + 1) d1 (copy_into buf (take ?P pkt)) (getLength d1) = None"
    using W(5-9) c1 by (simp add: rx_chain.simps descFlagNext_def)
  have "ReadPacket True x qr buf M' = None"
    unfolding ReadPacket_def W(3) using ch by (simp add: Let_def n2 W(4) c0)
  with W(1) show ?thesis by blast
qed

section \<open>Queues from their creation on\<close>

text \<open>The memory of an interface: its regions and its queues.\<close>

definition create_memory :: "Interface \<Rightarrow> kernel \<Rightarrow> (gerr option \<times> Interface \<times> kernel) option" where
  "create_memory i k =
     (case initializeRegions i k of
        (Some e, i', k') \<Rightarrow> Some (Some e, i', k')
      | (None, i', k') \<Rightarrow> initializeQueues i' k')"

text \<open>The queue of the peer, that knows a ring by what it was told.\<close>

definition peer_queue :: "MemoryConfig \<Rightarrow> Queue \<Rightarrow> Queue" where
  "peer_queue run q =
     \<lparr>q_ring = newRing_master 0 (rg_type (q_ring q)) (rg_offset (q_ring q)) (unat (Log2RingSize run)),
      lastHead = 0, lastTail = 0, interruptFd = interruptFd q\<rparr>"

lemma create_memory_ok:
  assumes "blank i k" "config_ok (i_run i)"
  obtains i' k' r where "create_memory i k = Some (None, i', k')" "ready (i_run i) r i' k'"
    "length (i_txQueues i') = pairs (i_run i)" "length (i_rxQueues i') = pairs (i_run i)"
    "\<And>qid. qid < pairs (i_run i) \<Longrightarrow> fresh_queue (i_run i) ringTypeS2M qid (i_txQueues i' ! qid)"
    "\<And>qid. qid < pairs (i_run i) \<Longrightarrow> fresh_queue (i_run i) ringTypeM2S qid (i_rxQueues i' ! qid)"
    "\<And>m. m < 2 * pairs (i_run i) \<Longrightarrow> ring_empty (ring_layout (i_run i) m) (shared k' i')"
proof -
  from initializeRegions_ok [OF assms] obtain r k1 where
    r: "initializeRegions i k = (None, i\<lparr>i_regions := [r]\<rparr>, k1)" "ready (i_run i) r (i\<lparr>i_regions := [r]\<rparr>) k1"
    "mr_packetBufferOffset r = packet_buffer_offset (i_run i)" by blast
  have e: "i_txQueues (i\<lparr>i_regions := [r]\<rparr>) = []" "i_rxQueues (i\<lparr>i_regions := [r]\<rparr>) = []" using assms(1) by (simp_all add: blank_def)
  from initializeQueues_ok [OF r(2) assms(2) r(3) e] obtain i' k' where
    q: "initializeQueues (i\<lparr>i_regions := [r]\<rparr>) k1 = Some (None, i', k')" "ready (i_run i) r i' k'"
    "length (i_txQueues i') = pairs (i_run i)" "length (i_rxQueues i') = pairs (i_run i)"
    "\<forall>qid < pairs (i_run i). fresh_queue (i_run i) ringTypeS2M qid (i_txQueues i' ! qid) \<and> fresh_queue (i_run i) ringTypeM2S qid (i_rxQueues i' ! qid)"
    "\<forall>m < 2 * pairs (i_run i). ring_empty (ring_layout (i_run i) m) (shared k' i')" by blast
  have "create_memory i k = Some (None, i', k')" by (simp add: create_memory_def r(1) q(1))
  with q show thesis using that by blast
qed

lemma peer_placed:
  assumes "fresh_queue run t qid q" "config_ok run"
  shows "placed (ring_layout run (ring_number run t qid)) (peer_queue run q)"
  using assms shift1_pow [of "unat (Log2RingSize run)"]
  by (auto simp: fresh_queue_def placed_def peer_queue_def newRing_master_def ring_layout_def config_ok_def)

lemma empty_queued: "queued L M rp []"
  by (simp add: queued_def)

lemma empty_s2m:
  assumes "layout_ok L (map length M)" "ring_empty L M" "placed L qw" "placed L qr" "unat bufSize = l_bufSize L" "lastHead qr = 0"
  shows "s2m_inv L bufSize (M, qw, qr) []"
  using assms ring_empty_slots [OF assms(2)] by (simp add: s2m_inv_def empty_queued ring_empty_def)

lemma empty_m2s:
  assumes "layout_ok L (map length M)" "ring_empty L M" "placed L qw" "placed L qr" "unat bufSize = l_bufSize L" "lastTail qr = 0"
    "l_bufSize L < 2 ^ 16"
  shows "m2s_inv L bufSize (M, qw, qr) 0 []"
  using assms ring_empty_slots [OF assms(2)] by (auto simp: m2s_inv_def empty_queued ring_empty_def shorts_def)

lemma ready_layout: "ready run r i k \<Longrightarrow> config_ok run \<Longrightarrow> n < 2 * pairs run \<Longrightarrow> layout_ok (ring_layout run n) (map length (shared k i))"
  unfolding ready_def by (simp only: ring_layout_ok)

lemma ring_layout_sel [simp]: "l_log2 (ring_layout run n) = unat (Log2RingSize run)" "l_bufSize (ring_layout run n) = bufsize run"
  by (simp_all add: ring_layout_def)

text \<open>Queues over an empty ring, however they came to it.\<close>

lemma s2m_fifo:
  assumes "layout_ok L (map length M)" "ring_empty L M" "placed L qw" "placed L qr" "unat bufSize = l_bufSize L" "lastHead qr = 0"
    and "l_bufSize L \<le> length buf" "\<And>p. Send p \<in> set ops \<Longrightarrow> p \<noteq> [] \<and> length p \<le> l_bufSize L"
  shows "\<exists>acc rcv rest s'. run_queue (ring_send False bufSize) (ring_recv True x buf) ops (M, qw, qr) = Some (acc, rcv, s') \<and>
    acc = rcv @ rest \<and> length rest \<le> 2 ^ l_log2 L"
  using s2m.fifo [of L bufSize "(M, qw, qr)" "[]" "2 ^ l_log2 L" buf ops x] empty_s2m [OF assms(1-6)] assms(7,8)
  by (fastforce simp: sendable_def)

lemma m2s_fifo:
  assumes "layout_ok L (map length M)" "ring_empty L M" "placed L qw" "placed L qr" "unat bufSize = l_bufSize L" "lastTail qr = 0"
    and "l_bufSize L < 2 ^ 16" "l_bufSize L \<le> length buf" "\<And>p. Send p \<in> set ops \<Longrightarrow> p \<noteq> [] \<and> length p \<le> l_bufSize L"
  shows "\<exists>acc rcv rest s'. run_queue (ring_send True x) (ring_recv False bufSize buf) ops (M, qw, qr) = Some (acc, rcv, s') \<and>
    acc = rcv @ rest \<and> length rest \<le> 2 ^ l_log2 L"
  using m2s.fifo [of L bufSize "(M, qw, qr)" 0 "[]" buf ops x] empty_m2s [OF assms(1-7)] assms(8,9)
  by (fastforce simp: sendable_def)

text \<open>
  What a slave sends over a ring it created arrives at the master: whatever the
  operations, none fails, and the packets accepted are those received, in order, and at most a full
  ring of packets that are still there.
\<close>

theorem slave_to_master_fifo:
  assumes "blank i k" "config_ok (i_run i)" "create_memory i k = Some (None, i', k')" "qid < pairs (i_run i)"
    and "bufsize (i_run i) \<le> length buf"
    and "\<And>p. Send p \<in> set ops \<Longrightarrow> p \<noteq> [] \<and> length p \<le> bufsize (i_run i)"
  shows "\<exists>acc rcv rest s'. run_queue (ring_send False (PacketBufferSize (i_run i))) (ring_recv True x buf) ops
      (shared k' i', i_txQueues i' ! qid, peer_queue (i_run i) (i_txQueues i' ! qid)) = Some (acc, rcv, s') \<and>
    acc = rcv @ rest \<and> length rest \<le> slots (i_run i)"
proof -
  let ?run = "i_run i" and ?q = "i_txQueues i' ! qid"
  let ?L = "ring_layout ?run (ring_number ?run ringTypeS2M qid)"
  obtain r where c: "ready ?run r i' k'" "fresh_queue ?run ringTypeS2M qid ?q" "ring_empty ?L (shared k' i')"
    by (rule create_memory_ok [OF assms(1,2)]) (use assms(3,4) ring_number_less [OF assms(4)] in \<open>simp add: that\<close>)
  show ?thesis
    using s2m_fifo [OF ready_layout [OF c(1) assms(2) ring_number_less [OF assms(4)]] c(3) _ peer_placed [OF c(2) assms(2)],
        of ?q "PacketBufferSize ?run" buf ops x] c(2) assms(5,6)
    by (simp add: fresh_queue_def peer_queue_def)
qed

text \<open>
  In the other direction the slave provides the buffers: what the master sends over
  a ring of the slave arrives in order, too, when buffers are smaller than 64 kB.
\<close>

theorem master_to_slave_fifo:
  assumes "blank i k" "config_ok (i_run i)" "create_memory i k = Some (None, i', k')" "qid < pairs (i_run i)"
    and "bufsize (i_run i) < 2 ^ 16" "bufsize (i_run i) \<le> length buf"
    and "\<And>p. Send p \<in> set ops \<Longrightarrow> p \<noteq> [] \<and> length p \<le> bufsize (i_run i)"
  shows "\<exists>acc rcv rest s'. run_queue (ring_send True x) (ring_recv False (PacketBufferSize (i_run i)) buf) ops
      (shared k' i', peer_queue (i_run i) (i_rxQueues i' ! qid), i_rxQueues i' ! qid) = Some (acc, rcv, s') \<and>
    acc = rcv @ rest \<and> length rest \<le> slots (i_run i)"
proof -
  let ?run = "i_run i" and ?q = "i_rxQueues i' ! qid"
  let ?L = "ring_layout ?run (ring_number ?run ringTypeM2S qid)"
  obtain r where c: "ready ?run r i' k'" "fresh_queue ?run ringTypeM2S qid ?q" "ring_empty ?L (shared k' i')"
    by (rule create_memory_ok [OF assms(1,2)]) (use assms(3,4) ring_number_less [OF assms(4)] in \<open>simp add: that\<close>)
  show ?thesis
    using m2s_fifo [OF ready_layout [OF c(1) assms(2) ring_number_less [OF assms(4)]] c(3) peer_placed [OF c(2) assms(2)],
        of ?q "PacketBufferSize ?run" buf ops x] c(2) assms(5-7)
    by (simp add: fresh_queue_def)
qed

text \<open>
  C16 (bounds). Creating the memory of an interface succeeds when no system call fails and the
  sizes fit into 32 bits. All rings and packet buffers then lie inside the one region, no two share a
  byte, and every ring is empty.
\<close>

theorem region_layout:
  assumes "blank i k" "config_ok (i_run i)"
  shows "\<exists>i' k'. create_memory i k = Some (None, i', k') \<and> map length (shared k' i') = [region_bytes (i_run i)] \<and>
    (\<forall>n < 2 * pairs (i_run i). layout_ok (ring_layout (i_run i) n) [region_bytes (i_run i)] \<and>
       ring_empty (ring_layout (i_run i) n) (shared k' i') \<and>
       (\<forall>m < 2 * pairs (i_run i). m \<noteq> n \<longrightarrow> apart (ring_area (ring_layout (i_run i) n)) (ring_area (ring_layout (i_run i) m)) \<and>
          (\<forall>j < slots (i_run i). \<forall>l < slots (i_run i).
             apart (buf_area (ring_layout (i_run i) n) j) (buf_area (ring_layout (i_run i) m) l))))"
proof -
  obtain i' k' r where c: "create_memory i k = Some (None, i', k')" "ready (i_run i) r i' k'"
    "\<And>m. m < 2 * pairs (i_run i) \<Longrightarrow> ring_empty (ring_layout (i_run i) m) (shared k' i')"
    by (rule create_memory_ok [OF assms]) (use that in blast)
  have "map length (shared k' i') = [region_bytes (i_run i)]" using c(2) by (simp add: ready_def)
  then show ?thesis
    using c rings_apart bufs_apart ring_layout_ok [OF assms(2)] by (intro exI [of _ i'] exI [of _ k']) auto
qed

section \<open>Bursts\<close>

text \<open>A burst of packets that fit fills one slot after the other, whatever is in them.\<close>

definition burst_filled :: "layout \<Rightarrow> regions \<Rightarrow> nat \<Rightarrow> byte list list \<Rightarrow> regions \<Rightarrow> bool" where
  "burst_filled L M s pkts M' \<longleftrightarrow> map length M' = map length M \<and> slots_ok L M' \<and>
     (\<forall>off. off + 2 \<le> 128 \<longrightarrow> pos_of L M' off = pos_of L M off) \<and>
     (\<forall>i < length pkts. (\<forall>k < length pkts. i < k \<longrightarrow> (s + k) mod 2 ^ l_log2 L \<noteq> (s + i) mod 2 ^ l_log2 L) \<longrightarrow>
        holds L M' ((s + i) mod 2 ^ l_log2 L) (pkts ! i)) \<and>
     (\<forall>j < 2 ^ l_log2 L. \<forall>p. holds L M j p \<longrightarrow> (\<forall>k < length pkts. (s + k) mod 2 ^ l_log2 L \<noteq> j) \<longrightarrow> holds L M' j p)"

lemma burst_filled_Cons:
  assumes f: "filled L M (s mod 2 ^ l_log2 L) pkt M1" and b: "burst_filled L M1 (Suc s) pkts M2"
  shows "burst_filled L M s (pkt # pkts) M2"
  unfolding burst_filled_def
proof (intro conjI allI impI)
  let ?N = "(2::nat) ^ l_log2 L"
  show "map length M2 = map length M" "slots_ok L M2" using f b by (simp_all add: filled_def burst_filled_def)
  show "pos_of L M2 off = pos_of L M off" if "off + 2 \<le> 128" for off
    using f b that by (simp add: filled_def burst_filled_def)
  show "holds L M2 ((s + i) mod ?N) ((pkt # pkts) ! i)" if i: "i < length (pkt # pkts)"
    and last: "\<forall>k < length (pkt # pkts). i < k \<longrightarrow> (s + k) mod ?N \<noteq> (s + i) mod ?N" for i
  proof (cases i)
    case 0
    have "holds L M1 (s mod ?N) pkt" using f by (simp add: filled_def)
    moreover have "(Suc s + k) mod ?N \<noteq> s mod ?N" if "k < length pkts" for k
      using last [rule_format, of "Suc k"] that 0 by simp
    ultimately show ?thesis using b 0 by (simp add: burst_filled_def)
  next
    case (Suc i')
    have "\<forall>k < length pkts. i' < k \<longrightarrow> (Suc s + k) mod ?N \<noteq> (Suc s + i') mod ?N"
      using last Suc by (metis Suc_less_eq add_Suc add_Suc_right length_Cons)
    then have "holds L M2 ((Suc s + i') mod ?N) (pkts ! i')" using b i Suc by (simp add: burst_filled_def)
    then show ?thesis using Suc by simp
  qed
  show "holds L M2 j p" if "j < ?N" "holds L M j p" "\<forall>k < length (pkt # pkts). (s + k) mod ?N \<noteq> j" for j p
  proof -
    have "s mod ?N \<noteq> j" using that(3) [rule_format, of 0] by simp
    then have "holds L M1 j p" using f that(1,2) by (auto simp: filled_def)
    moreover have "(Suc s + k) mod ?N \<noteq> j" if "k < length pkts" for k
      using \<open>\<forall>k < length (pkt # pkts). _\<close> [rule_format, of "Suc k"] that by simp
    ultimately show ?thesis using b that(1) by (simp add: burst_filled_def)
  qed
qed

lemma tx_burst_loop_filled:
  assumes pl: "placed L q" and bs: "unat bufSize = l_bufSize L"
  shows "layout_ok L (map length M) \<Longrightarrow> slots_ok L M \<Longrightarrow> \<forall>p \<in> set pkts. length p \<le> l_bufSize L \<Longrightarrow>
    \<exists>n' M'. tx_burst_loop False bufSize q pkts f M (int s) n = Some (Some (int (s + length pkts), n'), M') \<and>
      burst_filled L M s pkts M'"
proof (induction pkts arbitrary: M s n)
  case Nil
  then show ?case by (auto simp: burst_filled_def)
next
  case (Cons pkt pkts)
  have p: "length pkt \<le> l_bufSize L" using Cons.prems(3) by simp
  obtain d1 M1 M2 where t: "tx_fill False bufSize M q (int s) newDescBuf pkt = Some (int (length pkt), d1, M1)"
    "putDescBuf M1 q (int s AND ring_mask (q_ring q)) d1 = Some M2" "filled L M (s mod 2 ^ l_log2 L) pkt M2"
    by (rule tx_single [where s = s and isMaster = False and bufSize = bufSize, OF Cons.prems(1) pl Cons.prems(2) refl p])
      (use bs in \<open>simp_all add: that\<close>)
  have c: "tx_chain False bufSize q pkt f M1 (int s) d1 (int (length pkt)) = Some (Some (int s, d1, int (length pkt), f), M1)"
    by (simp add: tx_chain.simps)
  have ok2: "layout_ok L (map length M2)" "slots_ok L M2" using t(3) Cons.prems(1) by (simp_all add: filled_def)
  from Cons.IH [OF ok2, of "Suc s" "int (length pkt)"] Cons.prems(3) obtain n' M' where
    r: "tx_burst_loop False bufSize q pkts f M2 (int (Suc s)) (int (length pkt)) = Some (Some (int (Suc s + length pkts), n'), M')"
    "burst_filled L M2 (Suc s) pkts M'" by auto
  have "tx_burst_loop False bufSize q (pkt # pkts) f M (int s) n = Some (Some (int (s + length (pkt # pkts)), n'), M')"
    using t c r(1) by (simp add: add.commute)
  then show ?case using burst_filled_Cons [OF t(3) r(2)] by blast
qed

text \<open>
  C39 (safety). A burst does not stop at a full ring: with more packets than free slots, but at most
  two rings, the burst overwrites the oldest packets, and the next packet received is a later one.
\<close>

theorem Tx_burst_overruns:
  assumes inv: "s2m_inv L bufSize (M, qw, qr) ps" and k: "l_log2 L \<le> 14"
    and n: "length ps < 2 ^ l_log2 L" "2 ^ l_log2 L < length (ps @ pkts)" "length (ps @ pkts) \<le> 2 * 2 ^ l_log2 L"
    and p: "\<forall>p \<in> set pkts. length p \<le> l_bufSize L" and buf: "l_bufSize L \<le> length buf"
  shows "\<exists>sent M' w s'. Tx_burst False bufSize qw pkts M = Some (sent, M', w) \<and>
    ring_recv True x buf (M', qw, qr) = Some ((ps @ pkts) ! (2 ^ l_log2 L), s')"
proof -
  let ?t = "lastHead qr" and ?N = "(2::nat) ^ l_log2 L"
  let ?h = "?t + of_nat (length ps)"
  from inv have ok: "layout_ok L (map length M)" and pl: "placed L qw" "placed L qr" and sl: "slots_ok L M"
    and bs: "unat bufSize = l_bufSize L" and pos: "pos_of L M 64 = Some ?t" "pos_of L M 6 = Some ?h" by (simp_all add: s2m_inv_def)
  from ok have k15: "l_log2 L \<le> 15" by (simp add: layout_ok_def)
  have le: "length ps \<le> ?N" using n(1) by simp
  have size: "rg_size (q_ring qw) = 2 ^ l_log2 L" using pl(1) by (simp add: placed_def)
  have st: "tx_start False M qw = Some (int (unat ?h), of_nat (?N - length ps))"
    unfolding tx_start_def ring_words_placed [OF pl(1)] pos size uint_int_unat [symmetric]
    by (simp only: if_False option.map Option.bind.simps free_slots(1) [OF le k15])
  have f: "(of_nat (?N - length ps) :: u16) \<noteq> 0" using free_slots(2) [OF le k15] n(1) by simp
  from tx_burst_loop_filled [OF pl(1) bs ok sl p, of "unat (of_nat (?N - length ps) :: u16)" "unat ?h" 0] obtain n' M1 where
    b: "tx_burst_loop False bufSize qw pkts (unat (of_nat (?N - length ps) :: u16)) M (int (unat ?h)) 0 =
      Some (Some (int (unat ?h + length pkts), n'), M1)" "burst_filled L M (unat ?h) pkts M1" by blast
  have ok1: "layout_ok L (map length M1)" "slots_ok L M1" using b(2) ok by (simp_all add: burst_filled_def)
  let ?h' = "?t + of_nat (length (ps @ pkts))"
  obtain M' where M': "wr M1 (l_region L) (l_base L + 6) (le_bytes 2 ?h') = Some M'" "moved L M1 6 ?h' M'"
    by (rule pos_write [OF ok1(1), of 6 ?h']) (simp, rule that)
  have hw: "word_of_int (int (unat ?h + length pkts)) = ?h'" by simp
  have pub: "tx_publish False M1 qw (int (unat ?h + length pkts)) = Some M'"
    unfolding tx_publish_def ring_words_placed [OF pl(1)] hw using M'(1) by simp
  have ok2: "layout_ok L (map length M')" "slots_ok L M'" using ok1 M'(2) by (simp_all add: moved_def)
  from interrupt_placed [OF pl(1) ok2(1)] obtain w where w: "interrupt M' qw = Some w" by blast
  have W: "Tx_burst False bufSize qw pkts M = Some (n', M', w)"
    unfolding Tx_burst_def st using f b(1) pub w by simp
  let ?i = "?N - length ps"
  have i: "?i < length pkts" using n by simp
  have s0: "(unat ?h + m) mod ?N = slot_at L ?t (length ps + m)" for m
    using slot_at_plus [OF k15, of ?t "length ps" m] by (simp add: slot_at_def)
  have e: "length ps + ?i = ?N" using n(1) by simp
  have slot: "(unat ?h + ?i) mod ?N = slot_at L ?t 0" unfolding s0 e by (simp add: slot_at_def)
  have last: "(unat ?h + m) mod ?N \<noteq> (unat ?h + ?i) mod ?N" if "m < length pkts" "?i < m" for m
  proof -
    have m: "m = ?i + (m - ?i)" "m - ?i < ?N" "0 < m - ?i" using that n by simp_all
    have A: "(unat ?h + m) mod ?N = slot_at L (?h + of_nat ?i) (m - ?i)"
      by (simp only: slot_at_plus [OF k15] s0 m(1) [symmetric])
    have B: "(unat ?h + ?i) mod ?N = slot_at L (?h + of_nat ?i) 0"
      by (simp only: slot_at_plus [OF k15] s0 add_0_right)
    show ?thesis
      using slot_at_inj [OF _ m(2), of "?h + of_nat ?i" 0] m(3) unfolding A B by (metis less_irrefl zero_less_numeral zero_less_power)
  qed
  have "holds L M1 (slot_at L ?t 0) (pkts ! ?i)"
    using b(2) i last unfolding burst_filled_def slot [symmetric] by blast
  then have h: "holds L M' (slot_at L ?t 0) (pkts ! ?i)" using M'(2) slot_at_less by (simp add: moved_def)
  have pn: "(ps @ pkts) ! (?N) = pkts ! ?i" using n(1) by (simp add: nth_append)
  have rs: "rx_start True M' qr = Some (uint ?t, uint ?h')"
    unfolding rx_start_def ring_words_placed [OF pl(2)] using M'(2) by (simp add: moved_def)
  have "(2::nat) * ?N \<le> 2 * 2 ^ 14" using k by (intro mult_le_mono2 power_increasing) simp_all
  then have n15: "length (ps @ pkts) \<le> 2 ^ 15" using n(3) by simp
  have nz: "(word_of_int (uint ?h' - uint ?t) :: u16) \<noteq> 0"
    unfolding small_count(1) [OF n15 order_refl] small_count(2) [OF n15 order_refl] using n(2) by auto
  have lp: "length (pkts ! ?i) \<le> l_bufSize L" using p i by simp
  obtain M2 where M2: "rx_release True x M' qr (int (unat ?t) + 1) = Some (qr\<lparr>lastHead := ?t + 1\<rparr>, M2)"
    by (rule release_master [OF ok2(1) pl(2), of x "int (unat ?t) + 1"]) (unfold next_pos, rule that)
  have lb: "length (pkts ! ?i) \<le> length buf" using lp buf by simp
  from read_one [OF ok2(1) pl(2) ok2(2) rs nz h lb M2]
  have "ring_recv True x buf (M', qw, qr) = Some (pkts ! ?i, M2, qw, qr\<lparr>lastHead := ?t + 1\<rparr>)"
    by (simp add: ring_recv_def short_len [OF ok2(1) lp])
  with W pn show ?thesis by auto
qed

section \<open>Examples\<close>

text \<open>One queue pair, rings of two slots, packet buffers of four bytes.\<close>

definition tiny_config :: MemoryConfig where
  "tiny_config = \<lparr>NumQueuePairs = 1, Log2RingSize = 1, PacketBufferSize = 4\<rparr>"

definition tiny_interface :: Interface where
  "tiny_interface =
     \<lparr>i_args = \<lparr>a_Id = 1, a_IsMaster = False, a_Mode = 0, a_Name = [], a_Secret = replicate 24 0,
        a_MemoryConfig = tiny_config, a_ConnectedFunc = Some (\<lambda>_. None),
        a_DisconnectedFunc = Some (\<lambda>_. None), a_InterruptFunc = None\<rparr>,
      i_run = tiny_config, i_cc = None, i_remoteName = [], i_peerName = [], i_regions = [], i_txQueues = [], i_rxQueues = []\<rparr>"

definition good_kernel :: kernel where
  "good_kernel = \<lparr>k_next = 10, k_ok = (\<lambda>_. True), k_mem = (\<lambda>_. []), k_wire = (\<lambda>_. []), k_junk = (\<lambda>_ _. 0)\<rparr>"

lemma tiny_ok: "blank tiny_interface good_kernel" "config_ok (i_run tiny_interface)"
  by (simp_all add: blank_def tiny_interface_def good_kernel_def tiny_config_def config_ok_def region_bytes_def
      buffers_start_def ring_bytes_def)

lemma tiny_sizes: "pairs (i_run tiny_interface) = 1" "slots (i_run tiny_interface) = 2" "bufsize (i_run tiny_interface) = 4"
  by (simp_all add: tiny_interface_def tiny_config_def)

lemma tiny_memory:
  obtains i k where "create_memory tiny_interface good_kernel = Some (None, i, k)"
  by (rule create_memory_ok [OF tiny_ok]) (rule that)

lemma tiny_ring:
  obtains L M qw qr where "s2m_inv L 4 (M, qw, qr) []" "l_log2 L = 1" "l_bufSize L = 4"
proof -
  let ?run = "i_run tiny_interface" and ?L = "ring_layout (i_run tiny_interface) 0"
  have z: "0 < pairs ?run" "0 < 2 * pairs ?run" by (simp_all add: tiny_sizes)
  obtain i k r where c: "ready ?run r i k" "fresh_queue ?run ringTypeS2M 0 (i_txQueues i ! 0)" "ring_empty ?L (shared k i)"
    by (rule create_memory_ok [OF tiny_ok]) (use z in \<open>simp add: that\<close>)
  have f: "placed ?L (i_txQueues i ! 0)" "placed ?L (peer_queue ?run (i_txQueues i ! 0))"
    using c(2) peer_placed [OF c(2) tiny_ok(2)] by (simp_all add: fresh_queue_def ring_number_def)
  have "s2m_inv ?L 4 (shared k i, i_txQueues i ! 0, peer_queue ?run (i_txQueues i ! 0)) []"
    by (rule empty_s2m [OF ready_layout [OF c(1) tiny_ok(2) z(2)] c(3) f])
      (simp_all add: peer_queue_def tiny_sizes ring_layout_def)
  then show thesis by (rule that) (simp_all add: tiny_interface_def tiny_config_def)
qed

lemma long_packet_repeated_witness:
  "\<exists>s s' s''. ring_send False 4 [1, 2, 3, 4, 5] s = Some (8, s') \<and>
    ring_recv True 0 (replicate 8 0) s' = Some ([1, 2, 3, 4, 1, 2, 3, 4], s'')"
proof -
  obtain L M qw qr where L: "s2m_inv L 4 (M, qw, qr) []" "l_log2 L = 1" "l_bufSize L = 4" by (rule tiny_ring)
  from long_packet_repeated [OF L(1), of "[1, 2, 3, 4, 5]" "replicate 8 0" 0] L(2,3) show ?thesis by fastforce
qed

lemma chained_packet_panics_witness:
  "\<exists>M M' qw qr n w. WritePacket False 4 qw [1, 2, 3, 4, 5] M = Some (n, M', w) \<and> ReadPacket True 0 qr [0, 0, 0] M' = None"
proof -
  obtain L M qw qr where L: "s2m_inv L 4 (M, qw, qr) []" "l_log2 L = 1" "l_bufSize L = 4" by (rule tiny_ring)
  have "\<exists>n M' w. WritePacket False 4 qw [1, 2, 3, 4, 5] M = Some (n, M', w) \<and> ReadPacket True 0 qr [0, 0, 0] M' = None"
    by (rule chained_packet_panics [OF L(1)]) (simp_all add: L(2,3))
  then show ?thesis by blast
qed

lemma Tx_burst_overruns_witness:
  "\<exists>M qw qr sent M' w s'. Tx_burst False 4 qw [[1], [2], [3]] M = Some (sent, M', w) \<and>
    ring_recv True 0 (replicate 4 0) (M', qw, qr) = Some ([3], s')"
proof -
  obtain L M qw qr where L: "s2m_inv L 4 (M, qw, qr) []" "l_log2 L = 1" "l_bufSize L = 4" by (rule tiny_ring)
  from Tx_burst_overruns [OF L(1), of "[[1], [2], [3]]" "replicate 4 0" 0] L(2,3)
  have "\<exists>sent M' w s'. Tx_burst False 4 qw [[1], [2], [3]] M = Some (sent, M', w) \<and>
    ring_recv True 0 (replicate 4 0) (M', qw, qr) = Some ([3], s')" by simp
  then show ?thesis by blast
qed

lemma slave_to_master_fifo_witness:
  "\<exists>i k acc rcv rest s. create_memory tiny_interface good_kernel = Some (None, i, k) \<and>
    run_queue (ring_send False (PacketBufferSize (i_run tiny_interface))) (ring_recv True 0 (replicate 4 0))
      [Send [1, 2], Send [3], Send [4], Recv] (shared k i, i_txQueues i ! 0, peer_queue (i_run tiny_interface) (i_txQueues i ! 0)) =
      Some (acc, rcv, s) \<and> acc = rcv @ rest"
proof -
  obtain i k where c: "create_memory tiny_interface good_kernel = Some (None, i, k)" by (rule tiny_memory)
  have "\<exists>acc rcv rest s. run_queue (ring_send False (PacketBufferSize (i_run tiny_interface))) (ring_recv True 0 (replicate 4 0))
      [Send [1, 2], Send [3], Send [4], Recv] (shared k i, i_txQueues i ! 0, peer_queue (i_run tiny_interface) (i_txQueues i ! 0)) =
      Some (acc, rcv, s) \<and> acc = rcv @ rest \<and> length rest \<le> slots (i_run tiny_interface)"
    by (rule slave_to_master_fifo [OF tiny_ok c]) (auto simp: tiny_sizes)
  with c show ?thesis by blast
qed

lemma master_to_slave_fifo_witness:
  "\<exists>i k acc rcv rest s. create_memory tiny_interface good_kernel = Some (None, i, k) \<and>
    run_queue (ring_send True 0) (ring_recv False (PacketBufferSize (i_run tiny_interface)) (replicate 4 0))
      [Send [1, 2], Recv, Send [3], Recv] (shared k i, peer_queue (i_run tiny_interface) (i_rxQueues i ! 0), i_rxQueues i ! 0) =
      Some (acc, rcv, s) \<and> acc = rcv @ rest"
proof -
  obtain i k where c: "create_memory tiny_interface good_kernel = Some (None, i, k)" by (rule tiny_memory)
  have "\<exists>acc rcv rest s. run_queue (ring_send True 0) (ring_recv False (PacketBufferSize (i_run tiny_interface)) (replicate 4 0))
      [Send [1, 2], Recv, Send [3], Recv] (shared k i, peer_queue (i_run tiny_interface) (i_rxQueues i ! 0), i_rxQueues i ! 0) =
      Some (acc, rcv, s) \<and> acc = rcv @ rest \<and> length rest \<le> slots (i_run tiny_interface)"
    by (rule master_to_slave_fifo [OF tiny_ok c]) (auto simp: tiny_sizes)
  with c show ?thesis by blast
qed

lemma region_layout_witness:
  "\<exists>i k. create_memory tiny_interface good_kernel = Some (None, i, k) \<and>
    map length (shared k i) = [region_bytes (i_run tiny_interface)]"
  using region_layout [OF tiny_ok] by (elim exE conjE) (intro exI conjI)

end
