(* ===== verification/MemifHandshake.thy ===== *)
theory MemifHandshake
  imports MemifControl MemifProps
begin

text \<open>
  Two sockets and the connection between them: a slave and a master exchange control messages until
  both are connected. The network delivers the messages of each side in order. An error of a handler
  is reported and polling goes on, as in \<open>Socket.StartPolling\<close>.
\<close>

section \<open>The network\<close>

definition incoming :: "int \<Rightarrow> byte list \<Rightarrow> int option \<Rightarrow> event" where
  "incoming fd bs x =
     \<lparr>e_Fd = fd, e_hup = False, e_err = False, e_in = True,
      e_recv = Some (bs, Some (case x of None \<Rightarrow> [] | Some f \<Rightarrow> [Rights (Some [f])])), e_accept = None\<rparr>"

text \<open>The next message sent over descriptor \<open>a\<close> arrives at descriptor \<open>b\<close>.\<close>

definition deliver :: "int \<Rightarrow> int \<Rightarrow> Socket \<times> kernel \<Rightarrow> (Socket \<times> kernel) option" where
  "deliver a b s =
     (case k_wire (snd s) a of
        [] \<Rightarrow> Some s
      | (bs, x) # ws \<Rightarrow>
          do { (_, S', k') \<leftarrow> Socket_handleEvent (incoming b bs x) (fst s, (snd s)\<lparr>k_wire := (k_wire (snd s))(a := ws)\<rparr>);
               Some (S', k') })"

fun rounds :: "nat \<Rightarrow> int \<Rightarrow> int \<Rightarrow> Socket \<times> Socket \<times> kernel \<Rightarrow> (Socket \<times> Socket \<times> kernel) option" where
  "rounds 0 a b s = Some s"
| "rounds (Suc n) a b (S, T, k) =
     do { (S1, k1) \<leftarrow> deliver b a (S, k);
          (T1, k2) \<leftarrow> deliver a b (T, k1);
          rounds n a b (S1, T1, k2) }"

lemma rounds_add:
  "rounds m a b s = Some s' \<Longrightarrow> rounds (m + n) a b s = rounds n a b s'"
proof (induction m a b s rule: rounds.induct)
  case (2 m a b S T k)
  then show ?case by (fastforce split: Option.bind_splits)
qed simp

section \<open>Running actions\<close>

named_theorems act_simps "execution of actions"

lemmas [act_simps] = seq_def ret_def fail_def wrap_def with_socket_def set_socket_def upd_cc_def upd_if_def intf_of_def
  syscall_def sys_def addEvent_def delEvent_def call_def enqueue_def Let_def

definition good :: "kernel \<Rightarrow> bool" where
  "good k \<longleftrightarrow> (\<forall>n. k_ok k n)"

lemma goodD [simp]: "good k \<Longrightarrow> k_ok k n"
  by (simp add: good_def)

lemma good_upd [simp]:
  "good (k\<lparr>k_next := n\<rparr>) = good k" "good (k\<lparr>k_wire := w\<rparr>) = good k" "good (k\<lparr>k_mem := m\<rparr>) = good k"
  by (simp_all add: good_def)

text \<open>A loop over numbers with an invariant.\<close>

lemma for_each_upt:
  assumes "\<And>j s. m \<le> j \<Longrightarrow> j < n \<Longrightarrow> P j s \<Longrightarrow> \<exists>s'. f j s = Some (Inr (), s') \<and> P (Suc j) s'"
    and "P m s" "m \<le> n"
  shows "\<exists>s'. for_each f [m..<n] s = Some (Inr (), s') \<and> P n s'"
  using assms
proof (induction "n - m" arbitrary: m s)
  case 0
  then show ?case by (simp add: ret_def)
next
  case (Suc d)
  from Suc.hyps(2) have mn: "m < n" by simp
  with Suc.prems(1) [of m s] Suc.prems(2) obtain s1 where s1: "f m s = Some (Inr (), s1)" "P (Suc m) s1" by auto
  from mn Suc.hyps(2) have d: "d = n - Suc m" by simp
  from Suc.hyps(1) [OF d, of s1] Suc.prems(1) s1(2) mn obtain s' where
    "for_each f [Suc m..<n] s1 = Some (Inr (), s') \<and> P n s'" by (metis Suc_leD Suc_leI)
  with s1(1) mn show ?case by (simp add: upt_conv_Cons seq_def)
qed

section \<open>The end of a connection\<close>

lemma find_cc_cong:
  "(\<And>c. cc_fd (s_cc S' c) = cc_fd (s_cc S c)) \<Longrightarrow> find_cc S' fd cs = find_cc S fd cs"
  by (induction cs) simp_all

definition endpoint :: "Socket \<Rightarrow> nat \<Rightarrow> int \<Rightarrow> bool" where
  "endpoint S c fd \<longleftrightarrow> find_cc S fd (ccList S) = Some c \<and> cc_fd (s_cc S c) = fd \<and> length (cc_data (s_cc S c)) = msgSize \<and>
     s_listener S \<noteq> Some fd \<and> intfQueueEventMap S fd = None"

definition set_cc :: "nat \<Rightarrow> controlChannel \<Rightarrow> Socket \<Rightarrow> Socket" where
  "set_cc c C S = S\<lparr>s_cc := (s_cc S)(c := C)\<rparr>"

definition set_if :: "nat \<Rightarrow> Interface \<Rightarrow> Socket \<Rightarrow> Socket" where
  "set_if i I S = S\<lparr>s_if := (s_if S)(i := I)\<rparr>"

lemma set_cc_sel [simp]:
  "s_cc (set_cc c C S) = (s_cc S)(c := C)" "s_if (set_cc c C S) = s_if S" "ccList (set_cc c C S) = ccList S"
  "s_listener (set_cc c C S) = s_listener S" "intfQueueEventMap (set_cc c C S) = intfQueueEventMap S"
  "interfaceList (set_cc c C S) = interfaceList S" "appName (set_cc c C S) = appName S" "s_next (set_cc c C S) = s_next S"
  by (simp_all add: set_cc_def)

lemma set_if_sel [simp]:
  "s_if (set_if i I S) = (s_if S)(i := I)" "s_cc (set_if i I S) = s_cc S" "ccList (set_if i I S) = ccList S"
  "s_listener (set_if i I S) = s_listener S" "intfQueueEventMap (set_if i I S) = intfQueueEventMap S"
  "interfaceList (set_if i I S) = interfaceList S" "appName (set_if i I S) = appName S" "s_next (set_if i I S) = s_next S"
  by (simp_all add: set_if_def)

lemma endpoint_upd [simp]:
  "endpoint S c fd \<Longrightarrow> cc_fd C = fd \<Longrightarrow> length (cc_data C) = msgSize \<Longrightarrow> endpoint (set_cc c C S) c fd"
  "endpoint S c fd \<Longrightarrow> endpoint (set_if i I S) c fd"
  using find_cc_cong [of "set_cc c C S" S fd "ccList S"] find_cc_cong [of "set_if i I S" S fd "ccList S"]
  by (auto simp: endpoint_def)

definition control_data :: "int option \<Rightarrow> cmsg list option" where
  "control_data x = Some (case x of None \<Rightarrow> [] | Some f \<Rightarrow> [Rights (Some [f])])"

lemma receive:
  assumes "endpoint S c fd" "length bs = msgSize"
  shows "Socket_handleEvent (incoming fd bs x) (S, k) =
    seq (parseMsg c) (\<lambda>_. sendMsg c) (set_cc c ((s_cc S c)\<lparr>cc_data := bs, cc_control := control_data x\<rparr>) S, k)"
  using assms by (simp add: Socket_handleEvent_def with_socket_def endpoint_def incoming_def cc_handleEvent_def seq_def
      upd_cc_def set_socket_def set_cc_def copy_into_full control_data_def)

text \<open>What is sent for a message, and whether bytes begin with a message.\<close>

definition frame_of :: "kernel \<Rightarrow> controlMsg \<Rightarrow> byte list" where
  "frame_of k m = take msgSize (m_Buffer m @ map (k_junk k (k_next k)) [length (m_Buffer m)..<msgSize])"

definition passed :: "controlMsg \<Rightarrow> int option" where
  "passed m = (if 0 < m_Fd m then Some (m_Fd m) else None)"

definition carries :: "byte list \<Rightarrow> byte list \<Rightarrow> bool" where
  "carries bs m \<longleftrightarrow> length bs = msgSize \<and> (\<exists>rest. bs = m @ rest)"

lemma frame_carries: "length (m_Buffer m) \<le> msgSize \<Longrightarrow> carries (frame_of k m) (m_Buffer m)"
  by (auto simp: carries_def frame_of_def)

definition on_wire :: "kernel \<Rightarrow> int \<Rightarrow> controlMsg \<Rightarrow> kernel" where
  "on_wire k fd m = k\<lparr>k_next := k_next k + 1, k_wire := (k_wire k)(fd := k_wire k fd @ [(frame_of k m, passed m)])\<rparr>"

lemma send:
  assumes "cc_msgQueue (s_cc S c) = m # ms" "good k"
  shows "sendMsg c (S, k) = Some (Inr (), set_cc c ((s_cc S c)\<lparr>cc_msgQueue := ms\<rparr>) S, on_wire k (cc_fd (s_cc S c)) m)"
  using assms by (simp add: sendMsg_def with_socket_def seq_def upd_cc_def set_socket_def sys_def Let_def set_cc_def on_wire_def
      frame_of_def passed_def)

lemma send_nothing: "cc_msgQueue (s_cc S c) = [] \<Longrightarrow> sendMsg c (S, k) = Some (Inr (), S, k)"
  by (simp add: sendMsg_def with_socket_def ret_def)

lemma on_wire_sel [simp]:
  "good (on_wire k fd m) = good k" "k_mem (on_wire k fd m) = k_mem k"
  "k_wire (on_wire k fd m) = (k_wire k)(fd := k_wire k fd @ [(frame_of k m, passed m)])" "k_next (on_wire k fd m) = k_next k + 1"
  by (simp_all add: on_wire_def)

section \<open>Announcing regions and rings\<close>

definition add_region :: "MsgAddRegion \<Rightarrow> int \<Rightarrow> Interface \<Rightarrow> Interface" where
  "add_region r fd J = J\<lparr>i_regions := i_regions J @
     [\<lparr>mr_mapped = False, mr_size = ar_Size r, mr_fd = fd, mr_packetBufferOffset = 0\<rparr>]\<rparr>"

definition add_ring :: "MsgAddRing \<Rightarrow> int \<Rightarrow> Interface \<Rightarrow> Interface" where
  "add_ring d fd J =
     (if ad_Flags d AND msgAddRingFlagS2M = msgAddRingFlagS2M
      then J\<lparr>i_rxQueues := i_rxQueues J @ [ring_from d fd]\<rparr> else J\<lparr>i_txQueues := i_txQueues J @ [ring_from d fd]\<rparr>)"

text \<open>What a master makes of the messages with regions and rings.\<close>

inductive accepts :: "Interface \<Rightarrow> controlMsg \<Rightarrow> Interface \<Rightarrow> bool" where
  region: "ar_Index r \<le> 255 \<Longrightarrow> 0 < fd \<Longrightarrow>
    accepts J \<lparr>m_Buffer = with_type msgTypeAddRegion (write_AddRegion r), m_Fd = fd\<rparr> (add_region r fd J)"
| ring: "ad_Index d < NumQueuePairs (i_run J) \<Longrightarrow> 0 < fd \<Longrightarrow>
    accepts J \<lparr>m_Buffer = with_type msgTypeAddRing (write_AddRing d), m_Fd = fd\<rparr> (add_ring d fd J)"

inductive accepts_all :: "Interface \<Rightarrow> controlMsg list \<Rightarrow> Interface \<Rightarrow> bool" where
  none: "accepts_all J [] J"
| more: "accepts J m J1 \<Longrightarrow> accepts_all J1 ms J2 \<Longrightarrow> accepts_all J (m # ms) J2"

inductive_cases accepts_allE: "accepts_all J (m # ms) J'"

definition ack :: controlMsg where
  "ack = \<lparr>m_Buffer = with_type msgTypeAck [], m_Fd = - 1\<rparr>"

lemma ack_sel [simp]: "m_Buffer ack = with_type msgTypeAck []" "m_Fd ack = - 1" "passed ack = None"
  "length (with_type t []) \<le> msgSize"
  by (simp_all add: ack_def passed_def with_type_def msgSize_def)

lemma accepts_short: "accepts J m J' \<Longrightarrow> length (m_Buffer m) \<le> msgSize \<and> passed m = Some (m_Fd m)"
  by (auto elim!: accepts.cases simp: written_length msgSize_def passed_def)

lemma one_ack [act_simps]: "msgEnqAck c (S, k) = Some (Inr (), set_cc c ((s_cc S c)\<lparr>cc_msgQueue := cc_msgQueue (s_cc S c) @ [ack]\<rparr>) S, k)"
  by (simp add: msgEnqAck_def enqueue_def upd_cc_def set_socket_def set_cc_def ack_def)

lemma master_accepts:
  assumes "accepts J m J'" "cc_data (s_cc T d) = m_Buffer m @ rest" "cc_control (s_cc T d) = control_data (passed m)"
    "cc_i (s_cc T d) = Some i" "s_if T i = J"
  shows "parseMsg d (T, k) = Some (Inr (), set_cc d ((s_cc T d)\<lparr>cc_msgQueue := cc_msgQueue (s_cc T d) @ [ack]\<rparr>) (set_if i J' T), k)"
  using assms(1)
proof cases
  case (region r fd)
  then show ?thesis using assms(2-)
    by (simp add: parseMsg_def handle_msg_def msgTypes parseAddRegion_def parseControlMsg_def control_data_def passed_def body_of_def
        act_simps set_if_def add_region_def flip: not_less)
next
  case (ring a fd)
  then show ?thesis using assms(2-)
    by (simp add: parseMsg_def handle_msg_def msgTypes parseAddRing_def parseControlMsg_def control_data_def passed_def body_of_def
        act_simps set_if_def add_ring_def flip: not_le)
qed

lemma ack_ignored: "cc_data (s_cc S c) = with_type msgTypeAck [] @ rest \<Longrightarrow> parseMsg c (S, k) = Some (Inr (), S, k)"
  by (simp add: parseMsg_def ret_def Let_def)

section \<open>Rounds\<close>

record ends =
  fd_s :: int
  fd_m :: int
  cc_s :: nat
  cc_m :: nat
  if_s :: nat
  if_m :: nat

definition linked :: "ends \<Rightarrow> Socket \<Rightarrow> Socket \<Rightarrow> kernel \<Rightarrow> Interface \<Rightarrow> Interface \<Rightarrow> bool" where
  "linked E S T k I J \<longleftrightarrow> endpoint S (cc_s E) (fd_s E) \<and> endpoint T (cc_m E) (fd_m E) \<and> fd_s E \<noteq> fd_m E \<and> good k \<and>
     cc_i (s_cc S (cc_s E)) = Some (if_s E) \<and> s_if S (if_s E) = I \<and> s_if T (if_m E) = J \<and> cc_msgQueue (s_cc T (cc_m E)) = []"

text \<open>The slave is about to get an answer and has messages to send.\<close>

definition sending :: "ends \<Rightarrow> Socket \<Rightarrow> Socket \<Rightarrow> kernel \<Rightarrow> controlMsg list \<Rightarrow> Interface \<Rightarrow> Interface \<Rightarrow> bool" where
  "sending E S T k ms I J \<longleftrightarrow> linked E S T k I J \<and> cc_i (s_cc T (cc_m E)) = Some (if_m E) \<and>
     cc_msgQueue (s_cc S (cc_s E)) = ms \<and> k_wire k (fd_s E) = [] \<and>
     (\<exists>bs. k_wire k (fd_m E) = [(bs, None)] \<and> carries bs (with_type msgTypeAck []))"

lemma deliver_next:
  assumes "k_wire k a = (bs, x) # ws" "endpoint S c b" "length bs = msgSize"
    and "seq (parseMsg c) (\<lambda>_. sendMsg c) (set_cc c ((s_cc S c)\<lparr>cc_data := bs, cc_control := control_data x\<rparr>) S,
      k\<lparr>k_wire := (k_wire k)(a := ws)\<rparr>) = Some (r, S', k')"
  shows "deliver a b (S, k) = Some (S', k')"
  using assms by (simp add: deliver_def receive)

lemma slave_sends:
  assumes s: "sending E S T k (m # ms) I J" and m: "length (m_Buffer m) \<le> msgSize"
  shows "\<exists>S' k' bs. deliver (fd_m E) (fd_s E) (S, k) = Some (S', k') \<and> linked E S' T k' I J \<and> cc_i (s_cc T (cc_m E)) = Some (if_m E) \<and>
    cc_msgQueue (s_cc S' (cc_s E)) = ms \<and> k_wire k' (fd_m E) = [] \<and> k_wire k' (fd_s E) = [(bs, passed m)] \<and>
    carries bs (m_Buffer m) \<and> k_mem k' = k_mem k"
proof -
  let ?a = "fd_s E" and ?b = "fd_m E" and ?c = "cc_s E"
  from s obtain bs rest where w: "k_wire k ?b = [(bs, None)]" "bs = with_type msgTypeAck [] @ rest" "length bs = msgSize"
    by (auto simp: sending_def carries_def)
  from s have l: "linked E S T k I J" "cc_i (s_cc T (cc_m E)) = Some (if_m E)" "k_wire k ?a = []" "cc_msgQueue (s_cc S ?c) = m # ms"
    by (simp_all add: sending_def)
  from l(1) have e: "endpoint S ?c ?a" "good k" "?a \<noteq> ?b" "cc_fd (s_cc S ?c) = ?a" by (simp_all add: linked_def endpoint_def)
  let ?S1 = "set_cc ?c ((s_cc S ?c)\<lparr>cc_data := bs, cc_control := control_data None\<rparr>) S"
  let ?k1 = "k\<lparr>k_wire := (k_wire k)(?b := [])\<rparr>"
  let ?S2 = "set_cc ?c ((s_cc ?S1 ?c)\<lparr>cc_msgQueue := ms\<rparr>) ?S1"
  have "parseMsg ?c (?S1, ?k1) = Some (Inr (), ?S1, ?k1)" by (rule ack_ignored) (simp add: w(2))
  then have "seq (parseMsg ?c) (\<lambda>_. sendMsg ?c) (?S1, ?k1) = Some (Inr (), ?S2, on_wire ?k1 ?a m)"
    using e l(4) by (simp add: seq_def send)
  with w(1) e(1) w(3) have d: "deliver ?b ?a (S, k) = Some (?S2, on_wire ?k1 ?a m)" by (rule deliver_next)
  have "endpoint ?S2 ?c ?a" using e w(3) by simp
  then have "linked E ?S2 T (on_wire ?k1 ?a m) I J" using l(1) by (simp add: linked_def)
  with d show ?thesis using l e frame_carries [OF m, of ?k1]
    by (intro exI [of _ ?S2] exI [of _ "on_wire ?k1 ?a m"] exI [of _ "frame_of ?k1 m"]) simp
qed

text \<open>An answer of the master to the message it has got.\<close>

lemma master_answers:
  assumes l: "linked E S T k I J" and w: "k_wire k (fd_m E) = []" "k_wire k (fd_s E) = [(bs, x)]" "length bs = msgSize"
    and p: "parseMsg (cc_m E) (set_cc (cc_m E) ((s_cc T (cc_m E))\<lparr>cc_data := bs, cc_control := control_data x\<rparr>) T,
        k\<lparr>k_wire := (k_wire k)(fd_s E := [])\<rparr>) = Some (Inr (), T', k')"
    and t: "endpoint T' (cc_m E) (fd_m E)" "cc_msgQueue (s_cc T' (cc_m E)) = [m]" "s_if T' (if_m E) = J'"
    and k: "good k'" "k_wire k' = (k_wire k)(fd_s E := [])" "k_mem k' = k_mem k" and m: "length (m_Buffer m) \<le> msgSize"
  shows "\<exists>T'' k'' bs'. deliver (fd_s E) (fd_m E) (T, k) = Some (T'', k'') \<and> linked E S T'' k'' I J' \<and>
    (s_cc T'') = (s_cc T')(cc_m E := (s_cc T' (cc_m E))\<lparr>cc_msgQueue := []\<rparr>) \<and> k_wire k'' (fd_s E) = [] \<and>
    k_wire k'' (fd_m E) = [(bs', passed m)] \<and> carries bs' (m_Buffer m) \<and> k_mem k'' = k_mem k"
proof -
  let ?d = "cc_m E" and ?b = "fd_m E"
  let ?T = "set_cc ?d ((s_cc T' ?d)\<lparr>cc_msgQueue := []\<rparr>) T'"
  from l t(1) have e: "endpoint T ?d ?b" "fd_s E \<noteq> ?b" "cc_fd (s_cc T' ?d) = ?b" "length (cc_data (s_cc T' ?d)) = msgSize"
    by (simp_all add: linked_def endpoint_def)
  have "seq (parseMsg ?d) (\<lambda>_. sendMsg ?d) (set_cc ?d ((s_cc T ?d)\<lparr>cc_data := bs, cc_control := control_data x\<rparr>) T,
      k\<lparr>k_wire := (k_wire k)(fd_s E := [])\<rparr>) = Some (Inr (), ?T, on_wire k' ?b m)"
    using p send [OF t(2) k(1)] e(3) by (simp add: seq_def)
  with w(2) e(1) w(3) have "deliver (fd_s E) ?b (T, k) = Some (?T, on_wire k' ?b m)" by (rule deliver_next)
  moreover have "linked E S ?T (on_wire k' ?b m) I J'" using l t e k(1) by (simp add: linked_def)
  ultimately show ?thesis using k w(1) e(2) frame_carries [OF m, of k']
    by (intro exI [of _ ?T] exI [of _ "on_wire k' ?b m"] exI [of _ "frame_of k' m"]) simp
qed

lemma one_round: "deliver b a (S, k) = Some (S1, k1) \<Longrightarrow> deliver a b (T, k1) = Some (T1, k2) \<Longrightarrow>
    rounds (Suc n) a b (S, T, k) = rounds n a b (S1, T1, k2)"
  by simp

lemma sending_round:
  assumes s: "sending E S T k (m # ms) I J" and a: "accepts J m J'"
  shows "\<exists>S' T' k'. rounds (Suc n) (fd_s E) (fd_m E) (S, T, k) = rounds n (fd_s E) (fd_m E) (S', T', k') \<and>
    sending E S' T' k' ms I J' \<and> k_mem k' = k_mem k"
proof -
  from accepts_short [OF a] have short: "length (m_Buffer m) \<le> msgSize" by simp
  from slave_sends [OF s short] obtain S1 k1 bs where
    S1: "deliver (fd_m E) (fd_s E) (S, k) = Some (S1, k1)" "linked E S1 T k1 I J" "cc_i (s_cc T (cc_m E)) = Some (if_m E)"
    "cc_msgQueue (s_cc S1 (cc_s E)) = ms" "k_wire k1 (fd_m E) = []" "k_wire k1 (fd_s E) = [(bs, passed m)]"
    "carries bs (m_Buffer m)" "k_mem k1 = k_mem k" by blast
  let ?d = "cc_m E" and ?k1 = "k1\<lparr>k_wire := (k_wire k1)(fd_s E := [])\<rparr>"
  let ?T1 = "set_cc ?d ((s_cc T ?d)\<lparr>cc_data := bs, cc_control := control_data (passed m)\<rparr>) T"
  let ?T2 = "set_cc ?d ((s_cc ?T1 ?d)\<lparr>cc_msgQueue := cc_msgQueue (s_cc ?T1 ?d) @ [ack]\<rparr>) (set_if (if_m E) J' ?T1)"
  from S1(7) obtain rest where bs: "bs = m_Buffer m @ rest" "length bs = msgSize" by (auto simp: carries_def)
  from S1(2) have T: "endpoint T ?d (fd_m E)" "s_if T (if_m E) = J" "cc_msgQueue (s_cc T ?d) = []" "good k1" "cc_fd (s_cc T ?d) = fd_m E"
    by (simp_all add: linked_def endpoint_def)
  have p: "parseMsg ?d (?T1, ?k1) = Some (Inr (), ?T2, ?k1)"
    by (rule master_accepts [OF a]) (simp_all add: bs(1) S1(3) T(2))
  have "endpoint ?T2 ?d (fd_m E)" using T bs(2) by simp
  from master_answers [OF S1(2,5,6) bs(2) p this, of ack J'] T S1 obtain T3 k3 bs' where
    T3: "deliver (fd_s E) (fd_m E) (T, k1) = Some (T3, k3)" "linked E S1 T3 k3 I J'"
    "s_cc T3 = (s_cc ?T2)(?d := (s_cc ?T2 ?d)\<lparr>cc_msgQueue := []\<rparr>)" "k_wire k3 (fd_s E) = []"
    "k_wire k3 (fd_m E) = [(bs', None)]" "carries bs' (with_type msgTypeAck [])" "k_mem k3 = k_mem k1" by auto
  have "sending E S1 T3 k3 ms I J'" using T3 S1(3,4) by (auto simp: sending_def)
  with one_round [OF S1(1) T3(1)] T3(7) S1(8) show ?thesis by (intro exI [of _ S1] exI [of _ T3] exI [of _ k3]) simp
qed

lemma sending_all:
  "accepts_all J ms J' \<Longrightarrow> sending E S T k (ms @ ms') I J \<Longrightarrow>
    \<exists>S' T' k'. rounds (length ms + n) (fd_s E) (fd_m E) (S, T, k) = rounds n (fd_s E) (fd_m E) (S', T', k') \<and>
      sending E S' T' k' ms' I J' \<and> k_mem k' = k_mem k"
proof (induction arbitrary: S T k rule: accepts_all.induct)
  case (none J)
  then show ?case by auto
next
  case (more J m J1 ms J2)
  from more.prems have "sending E S T k (m # (ms @ ms')) I J" by simp
  from sending_round [OF this more.hyps(1), of "length ms + n"] obtain S1 T1 k1 where
    r: "rounds (Suc (length ms + n)) (fd_s E) (fd_m E) (S, T, k) = rounds (length ms + n) (fd_s E) (fd_m E) (S1, T1, k1)"
    "sending E S1 T1 k1 (ms @ ms') I J1" "k_mem k1 = k_mem k" by blast
  from more.IH [OF r(2)] r(1,3) show ?case by (simp del: rounds.simps)
qed

section \<open>Connecting an interface\<close>

definition ring_checked :: "regions \<Rightarrow> Queue \<Rightarrow> bool" where
  "ring_checked M q \<longleftrightarrow> (\<exists>q'. updateRing M q = Some q' \<and> getCookie (q_ring q') = memif_cookie)"

definition refreshed :: "regions \<Rightarrow> Queue \<Rightarrow> Queue" where
  "refreshed M q = the (updateRing M q)"

lemma list_step:
  assumes "j < length qs"
  shows "(map f (take j qs) @ drop j qs) ! j = qs ! j"
    "(map f (take j qs) @ drop j qs)[j := f (qs ! j)] = map f (take (Suc j) qs) @ drop (Suc j) qs"
proof -
  have "drop j qs = qs ! j # drop (Suc j) qs" using assms by (simp add: Cons_nth_drop_Suc)
  then show "(map f (take j qs) @ drop j qs) ! j = qs ! j"
    "(map f (take j qs) @ drop j qs)[j := f (qs ! j)] = map f (take (Suc j) qs) @ drop (Suc j) qs"
    using assms by (simp_all add: nth_append list_update_append take_Suc_conv_app_nth)
qed

lemma check_ring_ok:
  assumes "ring_checked (shared k (s_if S i)) ((if tx then i_txQueues (s_if S i) else i_rxQueues (s_if S i)) ! j)"
  shows "check_ring i tx j (S, k) = Some (Inr (), set_if i
    (if tx then (s_if S i)\<lparr>i_txQueues := (i_txQueues (s_if S i))[j := refreshed (shared k (s_if S i)) (i_txQueues (s_if S i) ! j)]\<rparr>
     else (s_if S i)\<lparr>i_rxQueues := (i_rxQueues (s_if S i))[j := refreshed (shared k (s_if S i)) (i_rxQueues (s_if S i) ! j)]\<rparr>) S, k)"
  using assms by (auto simp: check_ring_def ring_checked_def refreshed_def Let_def ret_def set_if_def)

lemma map_event_ok:
  "\<exists>ev. map_event i j (S, k) = Some (Inr (), S\<lparr>intfQueueEventMap := ev\<rparr>, k)"
proof (cases "a_InterruptFunc (i_args (s_if S i)) = None")
  case True
  then show ?thesis by (intro exI [of _ "intfQueueEventMap S"]) (simp add: map_event_def act_simps)
qed (auto simp: map_event_def act_simps)

lemma connect_ok:
  assumes k: "good k" and I: "s_if S i = I" "i_regions I = [r]" "mr_mapped r \<or> mappable (mr_size r)"
    and q: "\<And>q. q \<in> set (i_txQueues I) \<union> set (i_rxQueues I) \<Longrightarrow> ring_checked [k_mem k (mr_fd r)] q"
    and f: "a_ConnectedFunc (i_args I) = Some f" "f i = None"
  shows "\<exists>ev k'. if_connect i (S, k) = Some (Inr (), (set_if i (I\<lparr>i_regions := [r\<lparr>mr_mapped := True\<rparr>],
      i_txQueues := map (refreshed [k_mem k (mr_fd r)]) (i_txQueues I),
      i_rxQueues := map (refreshed [k_mem k (mr_fd r)]) (i_rxQueues I)\<rparr>) S)\<lparr>intfQueueEventMap := ev\<rparr>, k') \<and>
    good k' \<and> k_wire k' = k_wire k \<and> k_mem k' = k_mem k"
proof -
  let ?M = "[k_mem k (mr_fd r)]" and ?tx = "i_txQueues I" and ?rx = "i_rxQueues I"
  let ?R = "refreshed ?M" and ?I1 = "I\<lparr>i_regions := [r\<lparr>mr_mapped := True\<rparr>]\<rparr>"
  have "\<exists>k1. for_each (map_region i) [0..<length (i_regions I)] (S, k) = Some (Inr (), set_if i ?I1 S, k1) \<and>
      good k1 \<and> k_wire k1 = k_wire k \<and> k_mem k1 = k_mem k"
  proof (cases "mr_mapped r")
    case True
    then have "r\<lparr>mr_mapped := True\<rparr> = r" by (cases r) simp
    then have "set_if i ?I1 S = S" using I by (cases S; cases I) (simp add: set_if_def fun_upd_idem)
    then show ?thesis using I True k by (simp add: map_region_def act_simps)
  next
    case False
    then show ?thesis using I k by (simp add: map_region_def act_simps set_if_def)
  qed
  then obtain k1 where k1: "for_each (map_region i) [0..<length (i_regions I)] (S, k) = Some (Inr (), set_if i ?I1 S, k1)"
    "good k1" "k_wire k1 = k_wire k" "k_mem k1 = k_mem k" by blast
  have sh: "shared k1 I' = ?M" if "i_regions I' = [r\<lparr>mr_mapped := True\<rparr>]" for I'
    using that by (simp add: shared_def region_data_def k1(4))
  define P1 where "P1 j s \<longleftrightarrow> s = (set_if i (?I1\<lparr>i_txQueues := map ?R (take j ?tx) @ drop j ?tx\<rparr>) S, k1)" for j s
  have "\<exists>s'. for_each (check_ring i True) [0..<length ?tx] (set_if i ?I1 S, k1) = Some (Inr (), s') \<and> P1 (length ?tx) s'"
  proof (rule for_each_upt)
    show "P1 0 (set_if i ?I1 S, k1)" unfolding P1_def by (cases I) simp
    show "\<exists>s'. check_ring i True j s = Some (Inr (), s') \<and> P1 (Suc j) s'" if "j < length ?tx" "P1 j s" for j s
    proof -
      have "ring_checked ?M (?tx ! j)" using q that(1) by simp
      then show ?thesis using that list_step [OF that(1), of ?R]
        by (simp add: P1_def check_ring_ok sh) (simp add: set_if_def)
    qed
  qed simp
  then obtain s1 where s1: "for_each (check_ring i True) [0..<length ?tx] (set_if i ?I1 S, k1) = Some (Inr (), s1)" "P1 (length ?tx) s1" by blast
  let ?I2 = "?I1\<lparr>i_txQueues := map ?R ?tx\<rparr>"
  have s1': "s1 = (set_if i ?I2 S, k1)" using s1(2) by (simp add: P1_def)
  define P2 where "P2 j s \<longleftrightarrow> (\<exists>ev. s = ((set_if i (?I2\<lparr>i_rxQueues := map ?R (take j ?rx) @ drop j ?rx\<rparr>) S)\<lparr>intfQueueEventMap := ev\<rparr>, k1))" for j s
  have "\<exists>s'. for_each (\<lambda>j. seq (check_ring i False j) (\<lambda>_. map_event i j)) [0..<length ?rx] s1 = Some (Inr (), s') \<and> P2 (length ?rx) s'"
  proof (rule for_each_upt)
    show "P2 0 s1" unfolding P2_def s1' by (intro exI [of _ "intfQueueEventMap S"]) (cases I; cases S; simp add: set_if_def)
    show "\<exists>s'. seq (check_ring i False j) (\<lambda>_. map_event i j) s = Some (Inr (), s') \<and> P2 (Suc j) s'" if "j < length ?rx" "P2 j s" for j s
    proof -
      have c: "ring_checked ?M (?rx ! j)" using q that(1) by simp
      from that(2) obtain ev where s: "s = ((set_if i (?I2\<lparr>i_rxQueues := map ?R (take j ?rx) @ drop j ?rx\<rparr>) S)\<lparr>intfQueueEventMap := ev\<rparr>, k1)"
        by (auto simp: P2_def)
      let ?S3 = "(set_if i (?I2\<lparr>i_rxQueues := map ?R (take (Suc j) ?rx) @ drop (Suc j) ?rx\<rparr>) S)\<lparr>intfQueueEventMap := ev\<rparr>"
      have "check_ring i False j s = Some (Inr (), ?S3, k1)"
        unfolding s using c list_step [OF that(1), of ?R] by (simp add: check_ring_ok sh) (simp add: set_if_def)
      with map_event_ok [of i j ?S3 k1] show ?thesis by (auto simp: seq_def P2_def)
    qed
  qed simp
  then obtain s2 ev where s2: "for_each (\<lambda>j. seq (check_ring i False j) (\<lambda>_. map_event i j)) [0..<length ?rx] s1 = Some (Inr (), s2)"
    "s2 = ((set_if i (?I2\<lparr>i_rxQueues := map ?R ?rx\<rparr>) S)\<lparr>intfQueueEventMap := ev\<rparr>, k1)" by (auto simp: P2_def)
  have "if_connect i (S, k) = Some (Inr (), s2)"
    unfolding if_connect_def using I(1) k1(1) s1(1) s2(1) f by (simp add: with_socket_def seq_def call_def ret_def del: for_each.simps)
  with s2(2) k1(2-4) show ?thesis by auto
qed

lemma check_rx_ok:
  assumes "good k" "n \<le> length (i_rxQueues (s_if S i))"
  shows "\<exists>k'. for_each (check_rx i) [0..<n] (S, k) = Some (Inr (), S, k') \<and> good k' \<and> k_wire k' = k_wire k \<and> k_mem k' = k_mem k"
proof -
  define P where "P (j::nat) s \<longleftrightarrow> (\<exists>k'. s = (S, k') \<and> good k' \<and> k_wire k' = k_wire k \<and> k_mem k' = k_mem k)" for j s
  have "\<exists>s'. for_each (check_rx i) [0..<n] (S, k) = Some (Inr (), s') \<and> P n s'"
  proof (rule for_each_upt)
    show "P 0 (S, k)" using assms(1) by (simp add: P_def)
    show "\<exists>s'. check_rx i j s = Some (Inr (), s') \<and> P (Suc j) s'" if "j < n" "P j s" for j s
      using that assms(2) by (auto simp: P_def check_rx_def GetRxQueue_def act_simps)
  qed simp
  then show ?thesis by (auto simp: P_def)
qed

definition connected_if :: "kernel \<Rightarrow> byte list \<Rightarrow> Interface \<Rightarrow> Interface" where
  "connected_if k name I =
     (let M = map (\<lambda>r. k_mem k (mr_fd r)) (i_regions I) in
      I\<lparr>i_peerName := name, i_regions := map (\<lambda>r. r\<lparr>mr_mapped := True\<rparr>) (i_regions I),
        i_txQueues := map (refreshed M) (i_txQueues I), i_rxQueues := map (refreshed M) (i_rxQueues I)\<rparr>)"

text \<open>An interface with one region, that can be mapped, and rings with the cookie.\<close>

definition connectable :: "kernel \<Rightarrow> nat \<Rightarrow> Interface \<Rightarrow> bool" where
  "connectable k i I \<longleftrightarrow> (\<exists>r. i_regions I = [r] \<and> (mr_mapped r \<or> mappable (mr_size r)) \<and>
     (\<forall>q \<in> set (i_txQueues I) \<union> set (i_rxQueues I). ring_checked [k_mem k (mr_fd r)] q)) \<and>
     (\<exists>f. a_ConnectedFunc (i_args I) = Some f \<and> f i = None)"

lemma connectable_ok:
  assumes "connectable k i I" "good k" "s_if S i = I\<lparr>i_peerName := name\<rparr>"
  shows "\<exists>ev k'. if_connect i (S, k) = Some (Inr (), (set_if i (connected_if k name I) S)\<lparr>intfQueueEventMap := ev\<rparr>, k') \<and>
    good k' \<and> k_wire k' = k_wire k \<and> k_mem k' = k_mem k"
proof -
  from assms(1) obtain r f where r: "i_regions I = [r]" "mr_mapped r \<or> mappable (mr_size r)"
    "\<And>q. q \<in> set (i_txQueues I) \<union> set (i_rxQueues I) \<Longrightarrow> ring_checked [k_mem k (mr_fd r)] q"
    "a_ConnectedFunc (i_args I) = Some f" "f i = None" by (auto simp: connectable_def)
  have "(I\<lparr>i_peerName := name\<rparr>)\<lparr>i_regions := [r\<lparr>mr_mapped := True\<rparr>],
      i_txQueues := map (refreshed [k_mem k (mr_fd r)]) (i_txQueues I),
      i_rxQueues := map (refreshed [k_mem k (mr_fd r)]) (i_rxQueues I)\<rparr> = connected_if k name I"
    by (simp add: connected_if_def r(1) Let_def)
  with connect_ok [OF assms(2,3), of r f] r show ?thesis by simp
qed

definition connected_msg :: "Interface \<Rightarrow> controlMsg" where
  "connected_msg I = \<lparr>m_Buffer = with_type msgTypeConnected (write_Connected \<lparr>cd_Name = fixed 32 (a_Name (i_args I))\<rparr>), m_Fd = - 1\<rparr>"

definition connect_msg :: "Interface \<Rightarrow> controlMsg" where
  "connect_msg I = \<lparr>m_Buffer = with_type msgTypeConnect (write_Connect \<lparr>co_Name = fixed 32 (a_Name (i_args I))\<rparr>), m_Fd = - 1\<rparr>"

lemma msg_sel [simp]:
  "passed (connected_msg I) = None" "passed (connect_msg I) = None"
  "length (m_Buffer (connected_msg I)) \<le> msgSize" "length (m_Buffer (connect_msg I)) \<le> msgSize"
  by (simp_all add: passed_def connected_msg_def connect_msg_def with_type_def write_Connect_def write_Connected_def msgSize_def)

lemma connected_if_sel [simp]:
  "i_run (connected_if k name I) = i_run I" "i_args (connected_if k name I) = i_args I" "i_cc (connected_if k name I) = i_cc I"
  "length (i_rxQueues (connected_if k name I)) = length (i_rxQueues I)"
  by (simp_all add: connected_if_def Let_def)

lemma parse_connect:
  assumes d: "cc_data (s_cc T d) = with_type msgTypeConnect (write_Connect \<lparr>co_Name = name\<rparr>) @ rest" "length name = 32"
    and i: "cc_i (s_cc T d) = Some i" "s_if T i = J" and c: "connectable k i J" "good k"
    and n: "unat (NumQueuePairs (i_run J)) \<le> length (i_rxQueues J)"
  shows "\<exists>ev k'. parseMsg d (T, k) = Some (Inr (), set_cc d ((s_cc T d)\<lparr>cc_isConnected := True,
      cc_msgQueue := cc_msgQueue (s_cc T d) @ [connected_msg J]\<rparr>) ((set_if i (connected_if k name J) T)\<lparr>intfQueueEventMap := ev\<rparr>), k') \<and>
    good k' \<and> k_wire k' = k_wire k \<and> k_mem k' = k_mem k"
proof -
  let ?T1 = "set_if i (J\<lparr>i_peerName := name\<rparr>) T"
  have "s_if ?T1 i = J\<lparr>i_peerName := name\<rparr>" by simp
  from connectable_ok [OF c this] obtain ev k1 where
    k1: "if_connect i (?T1, k) = Some (Inr (), (set_if i (connected_if k name J) ?T1)\<lparr>intfQueueEventMap := ev\<rparr>, k1)"
    "good k1" "k_wire k1 = k_wire k" "k_mem k1 = k_mem k" by blast
  let ?T2 = "(set_if i (connected_if k name J) T)\<lparr>intfQueueEventMap := ev\<rparr>"
  have T2: "(set_if i (connected_if k name J) ?T1)\<lparr>intfQueueEventMap := ev\<rparr> = ?T2" by (simp add: set_if_def)
  from check_rx_ok [OF k1(2), of "unat (NumQueuePairs (i_run J))" ?T2 i] n obtain k2 where
    k2: "for_each (check_rx i) [0..<unat (NumQueuePairs (i_run J))] (?T2, k1) = Some (Inr (), ?T2, k2)"
    "good k2" "k_wire k2 = k_wire k1" "k_mem k2 = k_mem k1" by auto
  have b: "read_Connect (body_of T d) = \<lparr>co_Name = name\<rparr>" using d by (simp add: body_of_def)
  have p1: "seq (intf_of d) f (T, k) = f i (T, k)" for f :: "nat \<Rightarrow> unit act"
    using i by (simp add: seq_def intf_of_def with_socket_def ret_def)
  have "parseConnect d (T, k) = Some (Inr (), set_cc d ((s_cc T d)\<lparr>cc_isConnected := True\<rparr>) ?T2, k2)"
    unfolding parseConnect_def p1 using i b k1(1) k2(1)
    by (simp add: seq_def with_socket_def upd_if_def upd_cc_def set_socket_def flip: set_if_def) (simp add: T2 set_cc_def set_if_def set_socket_def)
  then have "parseMsg d (T, k) = Some (Inr (), set_cc d ((s_cc T d)\<lparr>cc_isConnected := True,
      cc_msgQueue := cc_msgQueue (s_cc T d) @ [connected_msg J]\<rparr>) ?T2, k2)"
    using d i by (simp add: parseMsg_def handle_msg_def msgTypes msgEnqConnected_def act_simps connected_msg_def set_cc_def)
  with k1 k2 show ?thesis by auto
qed

lemma parse_connected:
  assumes d: "cc_data (s_cc S c) = with_type msgTypeConnected (write_Connected \<lparr>cd_Name = name\<rparr>) @ rest" "length name = 32"
    and i: "cc_i (s_cc S c) = Some i" "s_if S i = I" and c: "connectable k i I" "good k"
  shows "\<exists>ev k'. parseMsg c (S, k) = Some (Inr (), set_cc c ((s_cc S c)\<lparr>cc_isConnected := True\<rparr>)
      ((set_if i (connected_if k name I) S)\<lparr>intfQueueEventMap := ev\<rparr>), k') \<and>
    good k' \<and> k_wire k' = k_wire k \<and> k_mem k' = k_mem k"
proof -
  let ?S1 = "set_if i (I\<lparr>i_peerName := name\<rparr>) S"
  have "s_if ?S1 i = I\<lparr>i_peerName := name\<rparr>" by simp
  from connectable_ok [OF c this] obtain ev k1 where
    k1: "if_connect i (?S1, k) = Some (Inr (), (set_if i (connected_if k name I) ?S1)\<lparr>intfQueueEventMap := ev\<rparr>, k1)"
    "good k1" "k_wire k1 = k_wire k" "k_mem k1 = k_mem k" by blast
  have b: "read_Connected (body_of S c) = \<lparr>cd_Name = name\<rparr>" using d by (simp add: body_of_def)
  have p1: "seq (intf_of c) f (S, k) = f i (S, k)" for f :: "nat \<Rightarrow> unit act"
    using i by (simp add: seq_def intf_of_def with_socket_def ret_def)
  have "parseConnected c (S, k) = Some (Inr (), set_cc c ((s_cc S c)\<lparr>cc_isConnected := True\<rparr>)
      ((set_if i (connected_if k name I) S)\<lparr>intfQueueEventMap := ev\<rparr>), k1)"
    unfolding parseConnected_def p1 using i b k1(1)
    by (simp add: seq_def with_socket_def upd_if_def upd_cc_def set_socket_def flip: set_if_def) (simp add: set_cc_def set_if_def)
  then have "parseMsg c (S, k) = Some (Inr (), set_cc c ((s_cc S c)\<lparr>cc_isConnected := True\<rparr>)
      ((set_if i (connected_if k name I) S)\<lparr>intfQueueEventMap := ev\<rparr>), k1)"
    using d by (simp add: parseMsg_def handle_msg_def msgTypes Let_def)
  with k1 show ?thesis by auto
qed

text \<open>Both interfaces are connected, over the same memory, and no message is left.\<close>

definition both_connected :: "ends \<Rightarrow> Socket \<Rightarrow> Socket \<Rightarrow> kernel \<Rightarrow> bool" where
  "both_connected E S T k \<longleftrightarrow> IsConnected S (if_s E) \<and> IsConnected T (if_m E) \<and> k_wire k (fd_s E) = [] \<and> k_wire k (fd_m E) = [] \<and>
     shared k (s_if T (if_m E)) = shared k (s_if S (if_s E))"

lemma finish:
  assumes s: "sending E S T k [connect_msg I] I J" and cc: "i_cc I = Some (cc_s E)" "i_cc J = Some (cc_m E)"
    and c: "connectable k (if_s E) I" "connectable k (if_m E) J" and n: "pairs (i_run J) \<le> length (i_rxQueues J)"
    and fd: "map mr_fd (i_regions J) = map mr_fd (i_regions I)"
  shows "\<exists>S' T' k'. rounds 2 (fd_s E) (fd_m E) (S, T, k) = Some (S', T', k') \<and> both_connected E S' T' k' \<and>
    s_if S' (if_s E) = connected_if k (fixed 32 (a_Name (i_args J))) I \<and>
    s_if T' (if_m E) = connected_if k (fixed 32 (a_Name (i_args I))) J \<and> k_mem k' = k_mem k"
proof -
  let ?a = "fd_s E" and ?b = "fd_m E" and ?d = "cc_m E" and ?c = "cc_s E"
  from slave_sends [OF s] obtain S1 k1 bs where
    S1: "deliver ?b ?a (S, k) = Some (S1, k1)" "linked E S1 T k1 I J" "cc_i (s_cc T ?d) = Some (if_m E)"
    "cc_msgQueue (s_cc S1 ?c) = []" "k_wire k1 ?b = []" "k_wire k1 ?a = [(bs, None)]" "carries bs (m_Buffer (connect_msg I))"
    "k_mem k1 = k_mem k" by auto
  from S1(7) obtain rest where bs: "bs = m_Buffer (connect_msg I) @ rest" "length bs = msgSize" by (auto simp: carries_def)
  from S1(2) have T: "endpoint T ?d ?b" "s_if T (if_m E) = J" "cc_msgQueue (s_cc T ?d) = []" "good k1" "cc_fd (s_cc T ?d) = ?b" "?a \<noteq> ?b"
    and S: "endpoint S1 ?c ?a" "s_if S1 (if_s E) = I" "cc_i (s_cc S1 ?c) = Some (if_s E)"
    by (simp_all add: linked_def endpoint_def)
  have cable: "connectable k' i J' = connectable k i J'" if "k_mem k' = k_mem k" for k' i J' using that by (simp add: connectable_def)
  have cif: "connected_if k' x J' = connected_if k x J'" if "k_mem k' = k_mem k" for k' x J' using that by (simp add: connected_if_def)
  let ?k1 = "k1\<lparr>k_wire := (k_wire k1)(?a := [])\<rparr>"
  let ?T1 = "set_cc ?d ((s_cc T ?d)\<lparr>cc_data := bs, cc_control := control_data None\<rparr>) T"
  have m1: "k_mem ?k1 = k_mem k" using S1(8) by simp
  have d1: "cc_data (s_cc ?T1 ?d) = with_type msgTypeConnect (write_Connect \<lparr>co_Name = fixed 32 (a_Name (i_args I))\<rparr>) @ rest"
    by (simp add: bs(1) connect_msg_def)
  obtain ev k2 where k2: "parseMsg ?d (?T1, ?k1) = Some (Inr (), set_cc ?d ((s_cc ?T1 ?d)\<lparr>cc_isConnected := True,
      cc_msgQueue := cc_msgQueue (s_cc ?T1 ?d) @ [connected_msg J]\<rparr>)
      ((set_if (if_m E) (connected_if k (fixed 32 (a_Name (i_args I))) J) ?T1)\<lparr>intfQueueEventMap := ev\<rparr>), k2)"
    "good k2" "k_wire k2 = k_wire ?k1" "k_mem k2 = k_mem k"
    using parse_connect [OF d1, of "if_m E" J ?k1] S1(3) T(2,4) c(2) n cable [OF m1] cif [OF m1] m1 by auto
  let ?T2 = "set_cc ?d ((s_cc ?T1 ?d)\<lparr>cc_isConnected := True, cc_msgQueue := cc_msgQueue (s_cc ?T1 ?d) @ [connected_msg J]\<rparr>)
      ((set_if (if_m E) (connected_if k (fixed 32 (a_Name (i_args I))) J) ?T1)\<lparr>intfQueueEventMap := ev\<rparr>)"
  let ?T3 = "set_cc ?d ((s_cc ?T2 ?d)\<lparr>cc_msgQueue := []\<rparr>) ?T2" and ?k3 = "on_wire k2 ?b (connected_msg J)"
  have "cc_msgQueue (s_cc ?T2 ?d) = [connected_msg J]" using T(3) by simp
  from send [OF this k2(2)] have "sendMsg ?d (?T2, k2) = Some (Inr (), ?T3, ?k3)" using T(5) by simp
  then have "seq (parseMsg ?d) (\<lambda>_. sendMsg ?d) (?T1, ?k1) = Some (Inr (), ?T3, ?k3)"
    using k2(1) by (simp only: seq_def option.case prod.case sum.case)
  with S1(6) T(1) bs(2) have D1: "deliver ?a ?b (T, k1) = Some (?T3, ?k3)" by (rule deliver_next)
  have k3: "good ?k3" "k_wire ?k3 ?a = []" "k_wire ?k3 ?b = [(frame_of k2 (connected_msg J), None)]" "k_mem ?k3 = k_mem k"
    using k2 T(6) S1(5) by simp_all
  obtain rest' where bs': "frame_of k2 (connected_msg J) = m_Buffer (connected_msg J) @ rest'" "length (frame_of k2 (connected_msg J)) = msgSize"
    using frame_carries [of "connected_msg J" k2] by (auto simp: carries_def)
  let ?bs' = "frame_of k2 (connected_msg J)" and ?k4 = "?k3\<lparr>k_wire := (k_wire ?k3)(?b := [])\<rparr>"
  let ?S2 = "set_cc ?c ((s_cc S1 ?c)\<lparr>cc_data := ?bs', cc_control := control_data None\<rparr>) S1"
  have d2: "cc_data (s_cc ?S2 ?c) = with_type msgTypeConnected (write_Connected \<lparr>cd_Name = fixed 32 (a_Name (i_args J))\<rparr>) @ rest'"
    by (simp add: bs'(1)) (simp add: connected_msg_def)
  have m4: "k_mem ?k4 = k_mem k" using k3(4) by simp
  obtain ev' k5 where k5: "parseMsg ?c (?S2, ?k4) = Some (Inr (), set_cc ?c ((s_cc ?S2 ?c)\<lparr>cc_isConnected := True\<rparr>)
      ((set_if (if_s E) (connected_if k (fixed 32 (a_Name (i_args J))) I) ?S2)\<lparr>intfQueueEventMap := ev'\<rparr>), k5)"
    "good k5" "k_wire k5 = k_wire ?k4" "k_mem k5 = k_mem k"
    using parse_connected [OF d2, of "if_s E" I ?k4] S(2,3) k3(1) c(1) cable [OF m4] cif [OF m4] m4 by auto
  let ?S3 = "set_cc ?c ((s_cc ?S2 ?c)\<lparr>cc_isConnected := True\<rparr>)
      ((set_if (if_s E) (connected_if k (fixed 32 (a_Name (i_args J))) I) ?S2)\<lparr>intfQueueEventMap := ev'\<rparr>)"
  have "cc_msgQueue (s_cc ?S3 ?c) = []" using S1(4) by simp
  from send_nothing [OF this] k5(1) have "seq (parseMsg ?c) (\<lambda>_. sendMsg ?c) (?S2, ?k4) = Some (Inr (), ?S3, k5)"
    by (simp only: seq_def option.case prod.case sum.case)
  with k3(3) S(1) bs'(2) have D2: "deliver ?b ?a (S1, ?k3) = Some (?S3, k5)" by (rule deliver_next)
  have w5: "k_wire k5 ?a = []" "k_wire k5 ?b = []" using k5(3) k3(2) T(6) by simp_all
  then have D3: "deliver ?a ?b (?T3, k5) = Some (?T3, k5)" by (simp add: deliver_def)
  have R: "rounds 2 ?a ?b (S, T, k) = Some (?S3, ?T3, k5)"
    unfolding numeral_2_eq_2 one_round [OF S1(1) D1] one_round [OF D2 D3] by simp
  have SI: "s_if ?S3 (if_s E) = connected_if k (fixed 32 (a_Name (i_args J))) I" by simp
  have TI: "s_if ?T3 (if_m E) = connected_if k (fixed 32 (a_Name (i_args I))) J" by simp
  have "shared k5 (s_if ?T3 (if_m E)) = shared k5 (s_if ?S3 (if_s E))"
    unfolding SI TI using arg_cong [OF fd, of "map (k_mem k5)"]
    by (simp add: shared_def region_data_def connected_if_def Let_def comp_def)
  moreover have "IsConnected ?S3 (if_s E)" "IsConnected ?T3 (if_m E)" using cc by (simp_all add: IsConnected_def)
  ultimately show ?thesis using R SI TI w5 k5(4) by (intro exI conjI) (assumption | simp add: both_connected_def)+
qed

section \<open>The greeting\<close>

lemma shared_mem: "k_mem k = k_mem k' \<Longrightarrow> shared k I = shared k' I"
proof -
  assume "k_mem k = k_mem k'"
  then have "region_data k = region_data k'" by (intro ext) (simp add: region_data_def)
  then show ?thesis by (simp add: shared_def)
qed

lemma seq_step: "a s = Some (Inr x, s') \<Longrightarrow> seq a f s = f x s'"
  by (simp add: seq_def)

lemma handled: "parseMsg c s = Some (Inr (), s1) \<Longrightarrow> sendMsg c s1 = Some (Inr (), s2) \<Longrightarrow>
    seq (parseMsg c) (\<lambda>_. sendMsg c) s = Some (Inr (), s2)"
  by (cases s1) (simp add: seq_def)

definition queue_up :: "nat \<Rightarrow> controlMsg list \<Rightarrow> Socket \<Rightarrow> Socket" where
  "queue_up c ms S = set_cc c ((s_cc S c)\<lparr>cc_msgQueue := cc_msgQueue (s_cc S c) @ ms\<rparr>) S"

lemma queue_up_simps [simp]:
  "queue_up c [] S = S" "queue_up c ms' (queue_up c ms S) = queue_up c (ms @ ms') S"
  "s_if (queue_up c ms S) = s_if S" "cc_i (s_cc (queue_up c ms S) c) = cc_i (s_cc S c)" "appName (queue_up c ms S) = appName S"
  "cc_msgQueue (s_cc (queue_up c ms S) c) = cc_msgQueue (s_cc S c) @ ms" "cc_data (s_cc (queue_up c ms S) c) = cc_data (s_cc S c)"
  "cc_fd (s_cc (queue_up c ms S) c) = cc_fd (s_cc S c)" "endpoint S c fd \<Longrightarrow> endpoint (queue_up c ms S) c fd"
  by (simp_all add: queue_up_def endpoint_upd(1) endpoint_def [THEN iffD1]) (simp_all add: set_cc_def)

lemma enqueue_one: "enqueue c bs fd (S, k) = Some (Inr (), queue_up c [\<lparr>m_Buffer = bs, m_Fd = fd\<rparr>] S, k)"
  by (simp add: enqueue_def upd_cc_def set_socket_def queue_up_def set_cc_def)

lemma intf_of_ok: "cc_i (s_cc S c) = Some i \<Longrightarrow> intf_of c (S, k) = Some (Inr i, S, k)"
  by (simp add: intf_of_def with_socket_def ret_def)

lemma seq_intf: "cc_i (s_cc S c) = Some i \<Longrightarrow> seq (intf_of c) f (S, k) = f i (S, k)"
  by (simp add: seq_def intf_of_ok)

lemma for_each_enqueue:
  assumes "\<And>j S. j \<in> set js \<Longrightarrow> cc_i (s_cc S c) = Some i \<Longrightarrow> s_if S i = I \<Longrightarrow> f j (S, k) = Some (Inr (), queue_up c [g j] S, k)"
  shows "cc_i (s_cc S c) = Some i \<Longrightarrow> s_if S i = I \<Longrightarrow> for_each f js (S, k) = Some (Inr (), queue_up c (map g js) S, k)"
  using assms
proof (induction js arbitrary: S)
  case Nil
  then show ?case by (simp add: ret_def)
next
  case (Cons j js)
  have "f j (S, k) = Some (Inr (), queue_up c [g j] S, k)" by (rule Cons.prems(3)) (simp_all add: Cons.prems(1,2))
  moreover have "for_each f js (queue_up c [g j] S, k) = Some (Inr (), queue_up c (map g js) (queue_up c [g j] S), k)"
    by (rule Cons.IH) (simp_all add: Cons.prems)
  ultimately show ?case by (simp add: seq_step)
qed

definition init_msg :: "byte list \<Rightarrow> Interface \<Rightarrow> controlMsg" where
  "init_msg name I = \<lparr>m_Buffer = with_type msgTypeInit (write_Init (init_of name I)), m_Fd = - 1\<rparr>"

definition region_msg :: "memoryRegion \<Rightarrow> controlMsg" where
  "region_msg r = \<lparr>m_Buffer = with_type msgTypeAddRegion (write_AddRegion \<lparr>ar_Index = 0, ar_Size = mr_size r\<rparr>), m_Fd = mr_fd r\<rparr>"

definition ring_msg :: "ringType \<Rightarrow> Queue list \<Rightarrow> nat \<Rightarrow> controlMsg" where
  "ring_msg t qs j = \<lparr>m_Buffer = with_type msgTypeAddRing (write_AddRing (add_ring_of t (word_of_nat j) (qs ! j))), m_Fd = interruptFd (qs ! j)\<rparr>"

definition ring_msgs :: "Interface \<Rightarrow> controlMsg list" where
  "ring_msgs I = map (ring_msg ringTypeS2M (i_txQueues I)) [0..<pairs (i_run I)] @ map (ring_msg ringTypeM2S (i_rxQueues I)) [0..<pairs (i_run I)]"

lemma small_nat16: "j < 2 ^ 16 \<Longrightarrow> unat (word_of_nat j :: u16) = j"
  by (simp add: unat_of_nat take_bit_nat_eq_self_iff)

text \<open>What a slave has made of a greeting.\<close>

definition created :: "byte list \<Rightarrow> Interface \<Rightarrow> kernel \<Rightarrow> Interface \<Rightarrow> kernel \<Rightarrow> bool" where
  "created name I0 k I k' \<longleftrightarrow>
     (let run = hello_config (hello_of name) (a_MemoryConfig (i_args I0)) in
      (\<exists>r. ready run r I k') \<and> i_args I = i_args I0 \<and> i_cc I = i_cc I0 \<and> k_wire k' = k_wire k \<and>
      length (i_txQueues I) = pairs run \<and> length (i_rxQueues I) = pairs run \<and>
      (\<forall>j < pairs run. fresh_queue run ringTypeS2M j (i_txQueues I ! j) \<and> fresh_queue run ringTypeM2S j (i_rxQueues I ! j)) \<and>
      (\<forall>m < 2 * pairs run. ring_empty (ring_layout run m) (shared k' I)))"

lemma greet_ok:
  assumes d: "cc_data (s_cc S c) = with_type msgTypeHello (write_Hello (hello_of name)) @ rest"
    and i: "cc_i (s_cc S c) = Some i" "s_if S i = I0" "cc_msgQueue (s_cc S c) = []" and k: "good k"
    and I0: "i_regions I0 = []" "i_txQueues I0 = []" "i_rxQueues I0 = []"
    and ok: "config_ok (hello_config (hello_of name) (a_MemoryConfig (i_args I0)))"
  shows "\<exists>I r k'. parseMsg c (S, k) = Some (Inr (), queue_up c (init_msg (appName S) I # region_msg r # ring_msgs I @ [connect_msg I])
      (set_if i I S), k') \<and> created name I0 k I k' \<and> i_regions I = [r]"
proof -
  let ?run = "hello_config (hello_of name) (a_MemoryConfig (i_args I0))"
  let ?I1 = "I0\<lparr>i_run := ?run, i_remoteName := fixed 32 name\<rparr>"
  have bl: "blank ?I1 k" using I0 k by (simp add: blank_def good_def)
  have ok1: "config_ok (i_run ?I1)" using ok by simp
  from initializeRegions_ok [OF bl ok1] obtain r k1 where r: "initializeRegions ?I1 k = (None, ?I1\<lparr>i_regions := [r]\<rparr>, k1)"
    "ready ?run r (?I1\<lparr>i_regions := [r]\<rparr>) k1" "mr_packetBufferOffset r = packet_buffer_offset ?run" by auto
  have e: "i_txQueues (?I1\<lparr>i_regions := [r]\<rparr>) = []" "i_rxQueues (?I1\<lparr>i_regions := [r]\<rparr>) = []" using I0 by simp_all
  from initializeQueues_ok [OF r(2) ok r(3) e] obtain I k2 where
    q: "initializeQueues (?I1\<lparr>i_regions := [r]\<rparr>) k1 = Some (None, I, k2)" "ready ?run r I k2"
    "length (i_txQueues I) = pairs ?run" "length (i_rxQueues I) = pairs ?run"
    "\<forall>j < pairs ?run. fresh_queue ?run ringTypeS2M j (i_txQueues I ! j) \<and> fresh_queue ?run ringTypeM2S j (i_rxQueues I ! j)"
    "\<forall>m < 2 * pairs ?run. ring_empty (ring_layout ?run m) (shared k2 I)" by blast
  from initializeQueues_frame [OF q(1)] have oq: "only_queues (?I1\<lparr>i_regions := [r]\<rparr>) I" "same_wire k1 k2" by simp_all
  from only_queues_sel [OF oq(1)] have args: "i_args I = i_args I0" "i_cc I = i_cc I0" by simp_all
  have cr: "created name I0 k I k2"
    using q args oq(2) initializeRegions_frame [OF r(1)] by (auto simp: created_def Let_def same_wire_def)
  from q(2) have reg: "i_regions I = [r]" "i_run I = ?run" by (simp_all add: ready_def)
  have n16: "pairs ?run < 2 ^ 15" using ok by (simp add: config_ok_def)
  have h: "read_Hello (body_of S c) = hello_of name" using d by (simp add: body_of_def hello_of_def)
  let ?S1 = "set_if i ?I1 S" and ?S2 = "set_if i I S"
  have ps: "parseHello c (S, k) = Some (Inr (), ?S1, k)"
    using i h by (simp add: parseHello_def act_simps set_if_def) (simp add: hello_of_def)
  have i1: "cc_i (s_cc ?S1 c) = Some i" "cc_i (s_cc ?S2 c) = Some i" using i by simp_all
  have ir: "if_initializeRegions i (?S1, k) = Some (Inr (), set_if i (?I1\<lparr>i_regions := [r]\<rparr>) S, k1)"
    by (simp add: if_initializeRegions_def r(1)) (simp add: set_if_def)
  have iq: "if_initializeQueues i (set_if i (?I1\<lparr>i_regions := [r]\<rparr>) S, k1) = Some (Inr (), ?S2, k2)"
    by (simp add: if_initializeQueues_def q(1)) (simp add: set_if_def)
  have m1: "msgEnqInit c (?S2, k2) = Some (Inr (), queue_up c [init_msg (appName S) I] ?S2, k2)"
    unfolding msgEnqInit_def seq_intf [OF i1(2)]
    by (simp add: with_socket_def enqueue_one init_msg_def)
  have loop1: "for_each (\<lambda>j. msgEnqAddRegion c (word_of_nat j)) [0..<length (i_regions I)] (S', k2) = Some (Inr (), queue_up c [region_msg r] S', k2)"
    if "cc_i (s_cc S' c) = Some i" "s_if S' i = I" for S'
    using that by (simp add: reg msgEnqAddRegion_def act_simps) (simp add: queue_up_def set_cc_def region_msg_def)
  have loop2: "for_each (\<lambda>j. msgEnqAddRing c t (word_of_nat j)) [0..<pairs ?run] (S', k2) =
      Some (Inr (), queue_up c (map (ring_msg t (if t = ringTypeS2M then i_txQueues I else i_rxQueues I)) [0..<pairs ?run]) S', k2)"
    if "cc_i (s_cc S' c) = Some i" "s_if S' i = I" for S' t
  proof (rule for_each_enqueue [OF _ that])
    fix j and S' :: Socket
    assume j: "j \<in> set [0..<pairs ?run]" "cc_i (s_cc S' c) = Some i" "s_if S' i = I"
    then have "unat (word_of_nat j :: u16) = j" using n16 by (intro small_nat16) simp
    with j q(3,4) show "msgEnqAddRing c t (word_of_nat j) (S', k2) =
        Some (Inr (), queue_up c [ring_msg t (if t = ringTypeS2M then i_txQueues I else i_rxQueues I) j] S', k2)"
      unfolding msgEnqAddRing_def seq_intf [OF j(2)]
      by (cases t) (simp_all add: with_socket_def enqueue_one Let_def ring_msg_def)
  qed
  have last: "msgEnqConnect c (S', k2) = Some (Inr (), queue_up c [connect_msg I] S', k2)"
    if "cc_i (s_cc S' c) = Some i" "s_if S' i = I" for S'
    unfolding msgEnqConnect_def seq_intf [OF that(1)]
    using that by (simp add: with_socket_def enqueue_one connect_msg_def)
  have "greet c (S, k) = Some (Inr (), queue_up c (init_msg (appName S) I # region_msg r # ring_msgs I @ [connect_msg I]) ?S2, k2)"
    unfolding greet_def
    by (simp add: seq_def with_socket_def ps intf_of_ok i(1) ir iq m1 loop1 loop2 last reg(2) ring_msgs_def del: for_each.simps)
  then have "parseMsg c (S, k) = Some (Inr (), queue_up c (init_msg (appName S) I # region_msg r # ring_msgs I @ [connect_msg I]) ?S2, k2)"
    using d by (simp add: parseMsg_def handle_msg_def msgTypes Let_def)
  with cr reg(1) show ?thesis by blast
qed

section \<open>The rings of the master\<close>

definition announced :: "ringType \<Rightarrow> Queue list \<Rightarrow> nat \<Rightarrow> Queue" where
  "announced t qs j = ring_from (add_ring_of t (word_of_nat j) (qs ! j)) (interruptFd (qs ! j))"

lemma accepts_all_append: "accepts_all J ms J1 \<Longrightarrow> accepts_all J1 ms' J2 \<Longrightarrow> accepts_all J (ms @ ms') J2"
  by (induction rule: accepts_all.induct) (auto intro: accepts_all.intros)

lemma rings_accepted:
  assumes "\<And>j. j \<in> set js \<Longrightarrow> j < pairs (i_run J) \<and> 0 < interruptFd (qs ! j)"
  shows "accepts_all J (map (ring_msg t qs) js)
    (if t = ringTypeS2M then J\<lparr>i_rxQueues := i_rxQueues J @ map (announced t qs) js\<rparr>
     else J\<lparr>i_txQueues := i_txQueues J @ map (announced t qs) js\<rparr>)"
  using assms
proof (induction js arbitrary: J)
  case Nil
  then show ?case by (auto intro: accepts_all.none)
next
  case (Cons j js)
  let ?d = "add_ring_of t (word_of_nat j) (qs ! j)"
  have j: "j < pairs (i_run J)" "0 < interruptFd (qs ! j)" using Cons.prems by simp_all
  have "pairs (i_run J) < 2 ^ LENGTH(16)" by (rule unsigned_less)
  then have "j < 2 ^ 16" using j(1) by simp
  then have "ad_Index ?d < NumQueuePairs (i_run J)" using j(1) by (simp add: add_ring_of_def word_less_nat_alt small_nat16)
  from accepts.ring [OF this j(2)] have a: "accepts J (ring_msg t qs j) (add_ring ?d (interruptFd (qs ! j)) J)" by (simp add: ring_msg_def)
  have e: "add_ring ?d (interruptFd (qs ! j)) J = (if t = ringTypeS2M then J\<lparr>i_rxQueues := i_rxQueues J @ [announced t qs j]\<rparr>
      else J\<lparr>i_txQueues := i_txQueues J @ [announced t qs j]\<rparr>)"
    by (simp add: add_ring_def announced_def add_ring_of_def msgAddRingFlagS2M_def)
  have "\<And>j'. j' \<in> set js \<Longrightarrow> j' < pairs (i_run (add_ring ?d (interruptFd (qs ! j)) J)) \<and> 0 < interruptFd (qs ! j')"
    using Cons.prems by (simp add: e)
  from Cons.IH [OF this] have "accepts_all (add_ring ?d (interruptFd (qs ! j)) J) (map (ring_msg t qs) js)
    (if t = ringTypeS2M then J\<lparr>i_rxQueues := i_rxQueues J @ map (announced t qs) (j # js)\<rparr>
     else J\<lparr>i_txQueues := i_txQueues J @ map (announced t qs) (j # js)\<rparr>)"
    unfolding e by (cases t) simp_all
  with a show ?case by (simp add: accepts_all.more)
qed

lemma announced_ok:
  assumes f: "fresh_queue run t j (qs ! j)" and c: "config_ok run" and j: "j < pairs run"
  shows "placed (ring_layout run (ring_number run t j)) (announced t qs j)" "lastHead (announced t qs j) = 0" "lastTail (announced t qs j) = 0"
    "length (rg_rb (q_ring (announced t qs j))) = 128"
proof -
  let ?L = "ring_layout run (ring_number run t j)" and ?q = "qs ! j"
  from f have q: "rg_region (q_ring ?q) = 0" "rg_offset (q_ring ?q) = int (l_base ?L)" "rg_log2Size (q_ring ?q) = uint (Log2RingSize run)"
    by (simp_all add: fresh_queue_def placed_def ring_layout_def)
  have "inside [region_bytes run] (ring_area ?L)"
    using ring_layout_ok [OF c ring_number_less [OF j]] by (simp only: layout_ok_def)
  then have "l_base ?L \<le> region_bytes run" by (simp add: ring_area_def inside_iff ring_layout_def)
  then have "l_base ?L < 2 ^ 32" using c by (simp add: config_ok_def)
  then have u: "uint (word_of_int (int (l_base ?L)) :: u32) = int (l_base ?L)"
    by (simp add: unsigned_of_nat take_bit_nat_eq_self_iff)
  have s: "unat (word_of_int (uint (Log2RingSize run)) :: byte) = unat (Log2RingSize run)" by simp
  have k: "unat (Log2RingSize run) \<le> 15" using c by (simp add: config_ok_def)
  show "placed ?L (announced t qs j)"
    unfolding announced_def ring_from_def add_ring_of_def placed_def
    by (simp add: q newRing_master_def u shift1_pow [OF k] ring_layout_def del: of_nat_mult) (use u in \<open>simp add: ring_layout_def\<close>)
  show "lastHead (announced t qs j) = 0" "lastTail (announced t qs j) = 0" "length (rg_rb (q_ring (announced t qs j))) = 128"
    by (simp_all add: announced_def ring_from_def newRing_master_def ringSize_def)
qed

section \<open>Reading the ring header\<close>

lemma halves_word:
  fixes xs :: "byte list"
  assumes "length xs = 4" "le_word (take 2 xs) = (lo :: u16)" "le_word (drop 2 xs) = (hi :: u16)"
  shows "le_word xs = (ucast lo OR push_bit 16 (ucast hi) :: u32)"
proof -
  from assms(1) obtain a b c d where xs: "xs = [a, b, c, d]"
    by (auto simp: numeral_eq_Suc length_Suc_conv)
  show ?thesis unfolding assms(2,3) [symmetric] xs
    by (rule bit_word_eqI) (auto simp: bit_or_iff bit_push_bit_iff bit_ucast_iff dest: bit_imp_le_length)
qed

lemma placed_checked:
  assumes pl: "placed L q" and ok: "layout_ok L (map length M)" and e: "ring_empty L M" and rb: "length (rg_rb (q_ring q)) = 128"
  shows "ring_checked M q" "placed L (refreshed M q)" "lastHead (refreshed M q) = lastHead q" "lastTail (refreshed M q) = lastTail q"
proof -
  have ins: "inside (map length M) (l_region L, l_base L, 128)" using ok by (auto simp: layout_ok_def ring_area_def inside_iff)
  let ?d = "drop (l_base L) (M ! l_region L)"
  let ?rb = "take 128 ?d"
  have z: "drop (length (M ! l_region L) - l_base L) (rg_rb (q_ring q)) = []" using ins rb by auto
  have u: "updateRing M q = Some (q\<lparr>q_ring := (q_ring q)\<lparr>rg_rb := ?rb\<rparr>\<rparr>)"
    using ins pl rb z by (simp add: updateRing_def copy_from_def placed_def copy_into_def)
  have h: "le_word (take 2 (take 4 ?rb)) = (0x1F20 :: u16)" "le_word (drop 2 (take 4 ?rb)) = (0x3E3 :: u16)" "length (take 4 ?rb) = 4"
  proof -
    have "pos_of L M 0 = Some 0x1F20" "pos_of L M 2 = Some 0x3E3" using e by (simp_all add: ring_empty_def)
    then have "le_word (take 2 ?d) = (0x1F20 :: u16)" "le_word (take 2 (drop (l_base L + 2) (M ! l_region L))) = (0x3E3 :: u16)"
      by (auto simp: pos_of_def rd_def split: if_splits)
    moreover have "take 2 (take 4 ?rb) = take 2 ?d" by simp
    moreover have "drop 2 (take 4 ?rb) = take 2 (drop (l_base L + 2) (M ! l_region L))" by (simp add: drop_take add.commute)
    moreover have "length (take 4 ?rb) = 4" using ins by (simp, linarith)
    ultimately show "le_word (take 2 (take 4 ?rb)) = (0x1F20 :: u16)" "le_word (drop 2 (take 4 ?rb)) = (0x3E3 :: u16)" "length (take 4 ?rb) = 4"
      by (simp_all only:)
  qed
  have "getCookie ((q_ring q)\<lparr>rg_rb := ?rb\<rparr>) = memif_cookie"
    using halves_word [OF h(3,1,2)] by (simp add: getCookie_def le_at_def memif_cookie_def)
  with u show "ring_checked M q" by (simp add: ring_checked_def)
  show "placed L (refreshed M q)" "lastHead (refreshed M q) = lastHead q" "lastTail (refreshed M q) = lastTail q"
    using pl by (simp_all add: refreshed_def u placed_def)
qed

section \<open>Opening the connection\<close>

definition accepted :: "int \<Rightarrow> int \<Rightarrow> event" where
  "accepted l fd = \<lparr>e_Fd = l, e_hup = False, e_err = False, e_in = True, e_recv = None, e_accept = Some fd\<rparr>"

text \<open>
  The slave asks for a connection and the listener of the master accepts it. The result holds the
  descriptors of both ends.
\<close>

definition open_connection :: "nat \<Rightarrow> Socket \<times> Socket \<times> kernel \<Rightarrow> (int \<times> int \<times> Socket \<times> Socket \<times> kernel) option" where
  "open_connection i s =
     (case s of (S, T, k) \<Rightarrow>
        (case RequestConnection i (S, k) of
           Some (Inr _, S', k1) \<Rightarrow>
             (let (_, b, k2) = sys k1 in
              do { c \<leftarrow> i_cc (s_if S' i);
                   l \<leftarrow> s_listener T;
                   (_, T', k3) \<leftarrow> Socket_handleEvent (accepted l b) (T, k2);
                   Some (cc_fd (s_cc S' c), b, S', T', k3) })
         | _ \<Rightarrow> None))"

text \<open>The configuration both sides use: the one of the slave within the limits of the greeting.\<close>

definition agreed :: "MemoryConfig \<Rightarrow> MemoryConfig" where
  "agreed m = hello_config (hello_of []) m"

lemma agreed_hello: "hello_config (hello_of name) m = agreed m"
  by (simp add: agreed_def hello_config_def hello_of_def)

text \<open>Descriptors from \<open>k\<close> on are unused at a socket.\<close>

definition unused_fds :: "Socket \<Rightarrow> kernel \<Rightarrow> bool" where
  "unused_fds S k \<longleftrightarrow> (\<forall>fd > int (k_next k). s_listener S \<noteq> Some fd \<and> intfQueueEventMap S fd = None) \<and>
     (\<forall>c \<in> set (ccList S). cc_fd (s_cc S c) \<le> int (k_next k) \<and> c < s_next S)"

definition idle :: "Interface \<Rightarrow> bool" where
  "idle I \<longleftrightarrow> i_regions I = [] \<and> i_txQueues I = [] \<and> i_rxQueues I = []"

definition calls_back :: "Interface \<Rightarrow> nat \<Rightarrow> bool" where
  "calls_back I i \<longleftrightarrow> (\<exists>f. a_ConnectedFunc (i_args I) = Some f \<and> f i = None)"

text \<open>A slave and a master that fit: same id, no secret, as many queue pairs.\<close>

definition can_connect :: "Socket \<Rightarrow> nat \<Rightarrow> Socket \<Rightarrow> nat \<Rightarrow> kernel \<Rightarrow> bool" where
  "can_connect S i T m k \<longleftrightarrow>
     (let I = s_if S i; J = s_if T m; run = agreed (a_MemoryConfig (i_args I)) in
      good k \<and> (\<forall>fd > int (k_next k). k_wire k fd = []) \<and> unused_fds S k \<and> unused_fds T k \<and>
      \<not> a_IsMaster (i_args I) \<and> idle I \<and> idle J \<and> calls_back I i \<and> calls_back J m \<and>
      (\<exists>l. s_listener T = Some l) \<and> find_master T (a_Id (i_args I)) (interfaceList T) = Some m \<and>
      a_Secret (i_args J) = replicate 24 0 \<and> config_ok run \<and> NumQueuePairs (a_MemoryConfig (i_args J)) = NumQueuePairs run)"

lemma find_cc_new:
  "(\<And>c'. c' \<in> set cs \<Longrightarrow> cc_fd (s_cc S c') \<noteq> fd) \<Longrightarrow> cc_fd (s_cc S c) = fd \<Longrightarrow> find_cc S fd (cs @ [c]) = Some c"
  by (induction cs) auto

definition fresh_cc :: "int \<Rightarrow> nat option \<Rightarrow> controlChannel" where
  "fresh_cc fd i = \<lparr>cc_i = i, cc_fd = fd, cc_data = replicate msgSize 0, cc_control = Some [], cc_msgQueue = [], cc_isConnected = False\<rparr>"

lemma fresh_cc_sel [simp]:
  "cc_i (fresh_cc fd i) = i" "cc_fd (fresh_cc fd i) = fd" "cc_msgQueue (fresh_cc fd i) = []" "length (cc_data (fresh_cc fd i)) = msgSize"
  by (simp_all add: fresh_cc_def)

definition new_cc :: "int \<Rightarrow> nat option \<Rightarrow> Socket \<Rightarrow> Socket" where
  "new_cc fd i S = S\<lparr>s_cc := (s_cc S)(s_next S := fresh_cc fd i), s_next := s_next S + 1, ccList := ccList S @ [s_next S]\<rparr>"

lemma addControlChannel_ok:
  "good k \<Longrightarrow> addControlChannel fd i (S, k) = Some (Inr (s_next S), new_cc fd i S, k\<lparr>k_next := k_next k + 1\<rparr>)"
  by (simp add: addControlChannel_def act_simps new_cc_def fresh_cc_def)

lemma new_cc_endpoint:
  assumes "unused_fds S k" "int (k_next k) < fd"
  shows "endpoint (new_cc fd i S) (s_next S) fd"
proof -
  have "find_cc (new_cc fd i S) fd (ccList S @ [s_next S]) = Some (s_next S)"
    by (rule find_cc_new) (use assms in \<open>auto simp: unused_fds_def new_cc_def\<close>)
  then show ?thesis using assms by (simp add: endpoint_def unused_fds_def new_cc_def)
qed

lemma opened:
  assumes c: "can_connect S i T m k"
  shows "\<exists>S' T' k' a b bs. open_connection i (S, T, k) = Some (a, b, S', T', k') \<and> a \<noteq> b \<and> good k' \<and>
    endpoint S' (s_next S) a \<and> cc_i (s_cc S' (s_next S)) = Some i \<and> cc_msgQueue (s_cc S' (s_next S)) = [] \<and>
    s_if S' i = (s_if S i)\<lparr>i_cc := Some (s_next S)\<rparr> \<and> endpoint T' (s_next T) b \<and> cc_i (s_cc T' (s_next T)) = None \<and>
    cc_msgQueue (s_cc T' (s_next T)) = [] \<and> s_if T' = s_if T \<and> interfaceList T' = interfaceList T \<and> k_wire k' a = [] \<and>
    k_wire k' b = [(bs, None)] \<and> carries bs (with_type msgTypeHello (write_Hello (hello_of (appName T))))"
proof -
  let ?a = "int (k_next k) + 1" and ?b = "int (k_next k) + 4" and ?c = "s_next S" and ?d = "s_next T"
  let ?k1 = "k\<lparr>k_next := k_next k + 3\<rparr>" and ?k2 = "k\<lparr>k_next := k_next k + 4\<rparr>" and ?k3 = "k\<lparr>k_next := k_next k + 5\<rparr>"
  from c obtain l where g: "good k" "\<And>fd. int (k_next k) < fd \<Longrightarrow> k_wire k fd = []" "unused_fds S k" "unused_fds T k"
    "\<not> a_IsMaster (i_args (s_if S i))" "s_listener T = Some l" by (auto simp: can_connect_def Let_def)
  let ?S' = "set_if i ((s_if S i)\<lparr>i_cc := Some ?c\<rparr>) (new_cc ?a (Some i) S)"
  let ?h = "\<lparr>m_Buffer = with_type msgTypeHello (write_Hello (hello_of (appName T))), m_Fd = - 1\<rparr>"
  have R: "RequestConnection i (S, k) = Some (Inr (), ?S', ?k1)"
    using g by (simp add: RequestConnection_def act_simps addControlChannel_ok) (simp add: set_if_def new_cc_def)
  let ?T1 = "new_cc ?b None T"
  let ?T2 = "queue_up ?d [?h] ?T1"
  let ?T' = "set_cc ?d ((s_cc ?T2 ?d)\<lparr>cc_msgQueue := []\<rparr>) ?T2"
  have T1: "endpoint ?T1 ?d ?b" by (rule new_cc_endpoint [OF g(4)]) simp
  have q: "cc_msgQueue (s_cc ?T1 ?d) = []" "cc_fd (s_cc ?T1 ?d) = ?b" "length (cc_data (s_cc ?T1 ?d)) = msgSize" "cc_i (s_cc ?T1 ?d) = None"
    "appName ?T1 = appName T" by (simp_all add: new_cc_def)
  have en: "msgEnqHello ?d (?T1, ?k3) = Some (Inr (), ?T2, ?k3)"
    by (simp add: msgEnqHello_def with_socket_def enqueue_one q)
  have "cc_msgQueue (s_cc ?T2 ?d) = [?h]" "good ?k3" using q g(1) by simp_all
  from send [OF this] have sn: "sendMsg ?d (?T2, ?k3) = Some (Inr (), ?T', on_wire ?k3 ?b ?h)" using q by simp
  have ac: "addControlChannel ?b None (T, ?k2) = Some (Inr ?d, ?T1, ?k3)" using g(1) by (simp add: addControlChannel_ok)
  have "listener_handleEvent (accepted l ?b) (T, ?k2) = Some (Inr (), ?T', on_wire ?k3 ?b ?h)"
    using ac en sn by (simp add: listener_handleEvent_def accepted_def seq_def wrap_def)
  then have L: "Socket_handleEvent (accepted l ?b) (T, ?k2) = Some (Inr (), ?T', on_wire ?k3 ?b ?h)"
    using g(6) by (simp add: Socket_handleEvent_def with_socket_def accepted_def)
  have fd: "cc_fd (s_cc ?S' ?c) = ?a" by (simp add: new_cc_def)
  have sy: "sys ?k1 = (True, ?b, ?k2)" using g(1) by (simp add: sys_def)
  have O: "open_connection i (S, T, k) = Some (?a, ?b, ?S', ?T', on_wire ?k3 ?b ?h)"
    using R L g(6) fd sy by (simp add: open_connection_def)
  have e: "endpoint ?S' ?c ?a" by (rule endpoint_upd(2), rule new_cc_endpoint [OF g(3)]) simp
  have e2: "endpoint ?T' ?d ?b" using T1 q by (intro endpoint_upd(1)) simp_all
  have h: "length (m_Buffer ?h) \<le> msgSize" by (simp add: written_length hello_of_def msgSize_def)
  have w: "k_wire (on_wire ?k3 ?b ?h) ?a = []" "k_wire (on_wire ?k3 ?b ?h) ?b = [(frame_of ?k3 ?h, None)]" "good (on_wire ?k3 ?b ?h)"
    using g(1) g(2) [of ?a] g(2) [of ?b] by (simp_all add: passed_def)
  have s: "cc_i (s_cc ?S' ?c) = Some i" "cc_msgQueue (s_cc ?S' ?c) = []" "s_if ?S' i = (s_if S i)\<lparr>i_cc := Some ?c\<rparr>"
    "cc_i (s_cc ?T' ?d) = None" "cc_msgQueue (s_cc ?T' ?d) = []" "s_if ?T' = s_if T" "interfaceList ?T' = interfaceList T"
    using q by (simp_all add: new_cc_def) (simp add: queue_up_def)
  show ?thesis
    by (intro exI conjI) (rule O, simp, rule w(3), rule e, rule s(1), rule s(2), rule s(3), rule e2, rule s(4), rule s(5), rule s(6),
      rule s(7), rule w(1), rule w(2), rule frame_carries [OF h, simplified])
qed

section \<open>The first round\<close>

lemma find_master_cong: "s_if T' = s_if T \<Longrightarrow> find_master T' d is = find_master T d is"
  by (induction "is") simp_all

definition assigned :: "Interface \<Rightarrow> nat \<Rightarrow> byte list \<Rightarrow> Interface" where
  "assigned J d name = J\<lparr>i_cc := Some d, i_run := a_MemoryConfig (i_args J), i_remoteName := fixed 32 name\<rparr>"

lemma parse_init:
  assumes "cc_data (s_cc T d) = with_type msgTypeInit (write_Init (init_of name I)) @ rest"
    and "find_master T (a_Id (i_args I)) (interfaceList T) = Some m" "s_if T m = J" "a_Secret (i_args J) = replicate 24 0"
  shows "parseMsg d (T, k) = Some (Inr (), queue_up d [ack] (set_cc d ((s_cc T d)\<lparr>cc_i := Some m\<rparr>) (set_if m (assigned J d name) T)), k)"
proof -
  have "length (n_Secret (init_of name I)) = 24" "length (n_Name (init_of name I)) = 32" by (simp_all add: init_of_def)
  then have r: "read_Init (body_of T d) = init_of name I" using assms(1) by (simp add: body_of_def)
  have "parseInit d (T, k) = Some (Inr (), set_cc d ((s_cc T d)\<lparr>cc_i := Some m\<rparr>) (set_if m (assigned J d name) T), k)"
    unfolding parseInit_def with_socket_def fst_conv r using assms
    by (simp add: init_of_def act_simps set_cc_def set_if_def assigned_def)
  then show ?thesis using assms(1)
    by (simp add: parseMsg_def handle_msg_def msgTypes seq_def one_ack queue_up_def Let_def)
qed

lemma first_round:
  fixes S T :: Socket
  assumes S: "endpoint S c a" "cc_i (s_cc S c) = Some i" "cc_msgQueue (s_cc S c) = []" "s_if S i = I0" "idle I0"
    and T: "endpoint T d b" "cc_msgQueue (s_cc T d) = []" "s_if T m = J"
    and f: "find_master T (a_Id (i_args I0)) (interfaceList T) = Some m" "a_Secret (i_args J) = replicate 24 0"
    and w: "k_wire k a = []" "k_wire k b = [(bs, None)]" "carries bs (with_type msgTypeHello (write_Hello (hello_of name)))"
    and k: "good k" "a \<noteq> b" and ok: "config_ok (agreed (a_MemoryConfig (i_args I0)))"
  shows "\<exists>S1 T1 k1 k' I r. rounds (Suc n) a b (S, T, k) = rounds n a b (S1, T1, k1) \<and>
    sending \<lparr>fd_s = a, fd_m = b, cc_s = c, cc_m = d, if_s = i, if_m = m\<rparr> S1 T1 k1 (region_msg r # ring_msgs I @ [connect_msg I]) I
      (assigned J d (appName S)) \<and>
    created name I0 k I k' \<and> k_mem k1 = k_mem k' \<and> i_regions I = [r]"
proof -
  from w(3) obtain rest where bs: "bs = with_type msgTypeHello (write_Hello (hello_of name)) @ rest" "length bs = msgSize"
    by (auto simp: carries_def)
  let ?k0 = "k\<lparr>k_wire := (k_wire k)(b := [])\<rparr>"
  let ?S0 = "set_cc c ((s_cc S c)\<lparr>cc_data := bs, cc_control := control_data None\<rparr>) S"
  have d0: "cc_data (s_cc ?S0 c) = with_type msgTypeHello (write_Hello (hello_of name)) @ rest" by (simp add: bs(1))
  obtain I r k2 where G: "parseMsg c (?S0, ?k0) = Some (Inr (), queue_up c (init_msg (appName S) I # region_msg r # ring_msgs I @ [connect_msg I])
      (set_if i I ?S0), k2)" "created name I0 ?k0 I k2" "i_regions I = [r]"
    using greet_ok [OF d0, of i I0 ?k0] S k ok by (auto simp: idle_def agreed_hello)
  let ?ms = "region_msg r # ring_msgs I @ [connect_msg I]"
  let ?S1 = "queue_up c (init_msg (appName S) I # ?ms) (set_if i I ?S0)"
  let ?S2 = "set_cc c ((s_cc ?S1 c)\<lparr>cc_msgQueue := ?ms\<rparr>) ?S1" and ?k3 = "on_wire k2 a (init_msg (appName S) I)"
  from G(2) have k2: "good k2" "k_wire k2 = k_wire ?k0" and aI: "i_args I = i_args I0" by (auto simp: created_def Let_def ready_def good_def)
  have fa: "cc_fd (s_cc S c) = a" using S(1) by (simp add: endpoint_def)
  have "cc_msgQueue (s_cc ?S1 c) = init_msg (appName S) I # ?ms" using S(3) by simp
  from send [OF this k2(1)] have "sendMsg c (?S1, k2) = Some (Inr (), ?S2, ?k3)" using fa by simp
  with G(1) have "seq (parseMsg c) (\<lambda>_. sendMsg c) (?S0, ?k0) = Some (Inr (), ?S2, ?k3)" by (rule handled)
  with w(2) S(1) bs(2) have D1: "deliver b a (S, k) = Some (?S2, ?k3)" by (rule deliver_next)
  have eS: "endpoint ?S2 c a" using S(1) fa bs(2) by (intro endpoint_upd(1)) simp_all
  have short: "length (m_Buffer (init_msg (appName S) I)) \<le> msgSize"
    by (simp add: init_msg_def written_length init_of_def msgSize_def)
  let ?bs = "frame_of k2 (init_msg (appName S) I)"
  have w3: "k_wire ?k3 a = [(?bs, None)]" "k_wire ?k3 b = []" using k2(2) w(1) k(2) by (simp_all add: passed_def init_msg_def)
  from frame_carries [OF short, of k2] obtain rest' where bs': "?bs = m_Buffer (init_msg (appName S) I) @ rest'" "length ?bs = msgSize"
    by (auto simp: carries_def)
  let ?k4 = "?k3\<lparr>k_wire := (k_wire ?k3)(a := [])\<rparr>"
  let ?T0 = "set_cc d ((s_cc T d)\<lparr>cc_data := ?bs, cc_control := control_data None\<rparr>) T"
  have dT: "cc_data (s_cc ?T0 d) = with_type msgTypeInit (write_Init (init_of (appName S) I)) @ rest'"
    by (simp add: bs'(1)) (simp add: init_msg_def)
  let ?T1 = "queue_up d [ack] (set_cc d ((s_cc ?T0 d)\<lparr>cc_i := Some m\<rparr>) (set_if m (assigned J d (appName S)) ?T0))"
  let ?T2 = "set_cc d ((s_cc ?T1 d)\<lparr>cc_msgQueue := []\<rparr>) ?T1" and ?k5 = "on_wire ?k4 b ack"
  have P: "parseMsg d (?T0, ?k4) = Some (Inr (), ?T1, ?k4)"
    by (rule parse_init [OF dT]) (use f T(3) find_master_cong [of ?T0 T] in \<open>simp_all add: aI\<close>)
  have fb: "cc_fd (s_cc T d) = b" using T(1) by (simp add: endpoint_def)
  have "cc_msgQueue (s_cc ?T1 d) = [ack]" "good ?k4" using T(2) k2(1) by simp_all
  from send [OF this] have "sendMsg d (?T1, ?k4) = Some (Inr (), ?T2, ?k5)" using fb by simp
  with P have "seq (parseMsg d) (\<lambda>_. sendMsg d) (?T0, ?k4) = Some (Inr (), ?T2, ?k5)" by (rule handled)
  with w3(1) T(1) bs'(2) have D2: "deliver a b (T, ?k3) = Some (?T2, ?k5)" by (rule deliver_next)
  have eT: "endpoint ?T2 d b" using T(1) fb bs'(2) by (intro endpoint_upd(1)) simp_all
  have "sending \<lparr>fd_s = a, fd_m = b, cc_s = c, cc_m = d, if_s = i, if_m = m\<rparr> ?S2 ?T2 ?k5 ?ms I (assigned J d (appName S))"
    unfolding sending_def linked_def
    using eS eT k k2 S(2) w3 frame_carries [of ack ?k4] by (auto simp: ack_sel)
  moreover have "created name I0 k I (k2\<lparr>k_wire := k_wire k\<rparr>)"
    using G(2) shared_mem [of "k2\<lparr>k_wire := k_wire k\<rparr>" k2] by (simp add: created_def Let_def ready_def)
  ultimately show ?thesis using one_round [OF D1 D2, of n] G(3)
    by (intro exI [of _ ?S2] exI [of _ ?T2] exI [of _ ?k5] exI [of _ "k2\<lparr>k_wire := k_wire k\<rparr>"] exI [of _ I] exI [of _ r]) simp
qed

end
