(* ===== verification/MemifConnected.thy ===== *)
theory MemifConnected
  imports MemifHandshake
begin

text \<open>
  The control channel and the rings together: a slave and a master that fit exchange messages until
  both are connected, and then packets flow in both directions over every queue pair.
\<close>

section \<open>The handshake\<close>

definition run_of :: "Socket \<Rightarrow> nat \<Rightarrow> MemoryConfig" where
  "run_of S i = agreed (a_MemoryConfig (i_args (s_if S i)))"

text \<open>The two queues of a pair at both ends, over the shared memory.\<close>

definition ends_of :: "MemoryConfig \<Rightarrow> ringType \<Rightarrow> nat \<Rightarrow> regions \<Rightarrow> Queue \<Rightarrow> Queue \<Rightarrow> bool" where
  "ends_of run t j M q q' \<longleftrightarrow>
     (let L = ring_layout run (ring_number run t j) in
      layout_ok L (map length M) \<and> ring_empty L M \<and> placed L q \<and> placed L q' \<and>
      lastHead q = 0 \<and> lastTail q = 0 \<and> lastHead q' = 0 \<and> lastTail q' = 0)"

definition rings_shared :: "MemoryConfig \<Rightarrow> Interface \<Rightarrow> Interface \<Rightarrow> regions \<Rightarrow> bool" where
  "rings_shared run I J M \<longleftrightarrow>
     length (i_txQueues I) = pairs run \<and> length (i_rxQueues I) = pairs run \<and>
     length (i_txQueues J) = pairs run \<and> length (i_rxQueues J) = pairs run \<and>
     (\<forall>j < pairs run. ends_of run ringTypeS2M j M (i_txQueues I ! j) (i_rxQueues J ! j) \<and>
        ends_of run ringTypeM2S j M (i_rxQueues I ! j) (i_txQueues J ! j))"

lemma refreshed_ends:
  assumes f: "fresh_queue run t j (qs ! j)" and c: "config_ok run" and j: "j < pairs run"
    and ok: "map length M = [region_bytes run]" and e: "ring_empty (ring_layout run (ring_number run t j)) M"
  shows "ring_checked M (qs ! j)" "ring_checked M (announced t qs j)"
    "ends_of run t j M (refreshed M (qs ! j)) (refreshed M (announced t qs j))"
proof -
  let ?L = "ring_layout run (ring_number run t j)"
  have lo: "layout_ok ?L (map length M)" unfolding ok by (rule ring_layout_ok [OF c ring_number_less [OF j]])
  note a = announced_ok [where qs = qs, OF f c j]
  have f': "placed ?L (qs ! j)" "length (rg_rb (q_ring (qs ! j))) = 128" "lastHead (qs ! j) = 0" "lastTail (qs ! j) = 0"
    using f by (simp_all add: fresh_queue_def)
  note p = placed_checked [OF f'(1) lo e f'(2)] and q = placed_checked [OF a(1) lo e a(4)]
  show "ring_checked M (qs ! j)" "ring_checked M (announced t qs j)" by (rule p(1), rule q(1))
  show "ends_of run t j M (refreshed M (qs ! j)) (refreshed M (announced t qs j))"
    using lo e p q a f' by (simp add: ends_of_def Let_def)
qed

text \<open>The interface of the master when all has been announced.\<close>

definition told :: "memoryRegion \<Rightarrow> Interface \<Rightarrow> nat \<Rightarrow> byte list \<Rightarrow> Interface \<Rightarrow> Interface" where
  "told r I d name J = (assigned J d name)
     \<lparr>i_regions := [\<lparr>mr_mapped = False, mr_size = mr_size r, mr_fd = mr_fd r, mr_packetBufferOffset = 0\<rparr>],
      i_rxQueues := map (announced ringTypeS2M (i_txQueues I)) [0..<pairs (i_run I)],
      i_txQueues := map (announced ringTypeM2S (i_rxQueues I)) [0..<pairs (i_run I)]\<rparr>"

lemma told_accepted:
  assumes "idle J" "0 < mr_fd r" "pairs (a_MemoryConfig (i_args J)) = pairs (i_run I)"
    and "\<And>j. j < pairs (i_run I) \<Longrightarrow> 0 < interruptFd (i_txQueues I ! j) \<and> 0 < interruptFd (i_rxQueues I ! j)"
  shows "accepts_all (assigned J d name) (region_msg r # ring_msgs I) (told r I d name J)"
proof -
  let ?r = "\<lparr>ar_Index = 0, ar_Size = mr_size r\<rparr>" and ?J = "assigned J d name"
  let ?J1 = "add_region ?r (mr_fd r) ?J" and ?Q = "[0..<pairs (i_run I)]"
  let ?J2 = "?J1\<lparr>i_rxQueues := map (announced ringTypeS2M (i_txQueues I)) ?Q\<rparr>"
  have run: "pairs (i_run ?J1) = pairs (i_run I)" "i_rxQueues ?J1 = []" "i_txQueues ?J1 = []" "i_regions ?J = []"
    using assms(1,3) by (simp_all add: add_region_def assigned_def idle_def)
  have "accepts ?J (region_msg r) ?J1" unfolding region_msg_def by (rule accepts.region) (simp_all add: assms(2))
  moreover have "accepts_all ?J1 (map (ring_msg ringTypeS2M (i_txQueues I)) ?Q) ?J2"
    using rings_accepted [of ?Q ?J1 "i_txQueues I" ringTypeS2M] assms(4) run by simp
  moreover have "accepts_all ?J2 (map (ring_msg ringTypeM2S (i_rxQueues I)) ?Q) (told r I d name J)"
    using rings_accepted [of ?Q ?J2 "i_rxQueues I" ringTypeM2S] assms(4) run by (simp add: told_def add_region_def)
  ultimately show ?thesis unfolding ring_msgs_def by (auto intro: accepts_all.more accepts_all_append)
qed

lemma handshake:
  fixes S T :: Socket
  assumes c: "can_connect S i T m k"
  shows "\<exists>a b S1 T1 k1 S' T' k'. open_connection i (S, T, k) = Some (a, b, S1, T1, k1) \<and>
    rounds (2 * pairs (run_of S i) + 4) a b (S1, T1, k1) = Some (S', T', k') \<and>
    IsConnected S' i \<and> IsConnected T' m \<and> k_wire k' a = [] \<and> k_wire k' b = [] \<and>
    shared k' (s_if T' m) = shared k' (s_if S' i) \<and>
    rings_shared (run_of S i) (s_if S' i) (s_if T' m) (shared k' (s_if S' i))"
proof -
  let ?run = "run_of S i" and ?N = "s_if T m"
  from c have h: "idle (s_if S i)" "idle ?N" "calls_back (s_if S i) i" "calls_back ?N m" "a_Secret (i_args ?N) = replicate 24 0"
    "find_master T (a_Id (i_args (s_if S i))) (interfaceList T) = Some m" "config_ok ?run"
    "NumQueuePairs (a_MemoryConfig (i_args ?N)) = NumQueuePairs ?run" by (simp_all add: can_connect_def Let_def run_of_def)
  from opened [OF c] obtain S1 T1 k1 a b bs where
    O: "open_connection i (S, T, k) = Some (a, b, S1, T1, k1)" "a \<noteq> b" "good k1"
    "endpoint S1 (s_next S) a" "cc_i (s_cc S1 (s_next S)) = Some i" "cc_msgQueue (s_cc S1 (s_next S)) = []"
    "s_if S1 i = (s_if S i)\<lparr>i_cc := Some (s_next S)\<rparr>" "endpoint T1 (s_next T) b" "cc_msgQueue (s_cc T1 (s_next T)) = []"
    "s_if T1 = s_if T" "interfaceList T1 = interfaceList T" "k_wire k1 a = []" "k_wire k1 b = [(bs, None)]"
    "carries bs (with_type msgTypeHello (write_Hello (hello_of (appName T))))" by blast
  let ?I0 = "(s_if S i)\<lparr>i_cc := Some (s_next S)\<rparr>" and ?c = "s_next S" and ?d = "s_next T"
  have h1: "idle ?I0" "config_ok (agreed (a_MemoryConfig (i_args ?I0)))" "find_master T1 (a_Id (i_args ?I0)) (interfaceList T1) = Some m"
    "s_if T1 m = ?N" using h O(10,11) find_master_cong [OF O(10)] by (simp_all add: idle_def run_of_def)
  let ?E = "\<lparr>fd_s = a, fd_m = b, cc_s = ?c, cc_m = ?d, if_s = i, if_m = m\<rparr>"
  obtain S2 T2 k2 k3 I r where F: "rounds (Suc (2 * pairs ?run + 1 + 2)) a b (S1, T1, k1) = rounds (2 * pairs ?run + 1 + 2) a b (S2, T2, k2)"
    "sending ?E S2 T2 k2 (region_msg r # ring_msgs I @ [connect_msg I]) I (assigned ?N ?d (appName S1))"
    "created (appName T) ?I0 k1 I k3" "k_mem k2 = k_mem k3" "i_regions I = [r]"
    using first_round [OF O(4-7) h1(1) O(8,9) h1(4,3) h(5) O(12-14) O(3,2) h1(2)] by blast
  let ?J = "told r I ?d (appName S1) ?N" and ?M = "[k_mem k2 (mr_fd r)]"
  have run: "hello_config (hello_of (appName T)) (a_MemoryConfig (i_args ?I0)) = ?run" by (simp add: agreed_hello run_of_def)
  from F(3) have cr: "i_args I = i_args ?I0" "i_cc I = Some ?c" "length (i_txQueues I) = pairs ?run" "length (i_rxQueues I) = pairs ?run"
    "\<And>j. j < pairs ?run \<Longrightarrow> fresh_queue ?run ringTypeS2M j (i_txQueues I ! j)"
    "\<And>j. j < pairs ?run \<Longrightarrow> fresh_queue ?run ringTypeM2S j (i_rxQueues I ! j)"
    "\<And>n. n < 2 * pairs ?run \<Longrightarrow> ring_empty (ring_layout ?run n) (shared k3 I)" and "\<exists>r. ready ?run r I k3"
    unfolding created_def Let_def run by simp_all
  then have r: "ready ?run r I k3" using F(5) by (auto simp: ready_def)
  then have rI: "mr_mapped r" "0 < mr_fd r" "mappable (mr_size r)" "i_run I = ?run" "map length (shared k3 I) = [region_bytes ?run]"
    by (simp_all add: ready_def)
  have M: "shared k3 I = ?M" using F(4,5) rI(1) by (simp add: shared_def region_data_def)
  have fds: "0 < interruptFd (i_txQueues I ! j) \<and> 0 < interruptFd (i_rxQueues I ! j)" if "j < pairs (i_run I)" for j
    using cr(5,6) that rI(4) by (simp add: fresh_queue_def)
  have "pairs (a_MemoryConfig (i_args ?N)) = pairs (i_run I)" using h(8) rI(4) by simp
  from told_accepted [OF h(2) rI(2) this fds, of ?d "appName S1"]
  have acc: "accepts_all (assigned ?N ?d (appName S1)) (region_msg r # ring_msgs I) ?J" by simp
  have len: "length (region_msg r # ring_msgs I) = 2 * pairs ?run + 1" by (simp add: ring_msgs_def rI(4))
  from sending_all [OF acc, of ?E S2 T2 k2 "[connect_msg I]" I 2] F(2) obtain S3 T3 k4 where
    G: "rounds (2 * pairs ?run + 1 + 2) a b (S2, T2, k2) = rounds 2 a b (S3, T3, k4)" "sending ?E S3 T3 k4 [connect_msg I] I ?J"
    "k_mem k4 = k_mem k2" unfolding len by auto
  have ends: "ring_checked ?M (i_txQueues I ! j)" "ring_checked ?M (i_rxQueues I ! j)"
    "ring_checked ?M (announced ringTypeS2M (i_txQueues I) j)" "ring_checked ?M (announced ringTypeM2S (i_rxQueues I) j)"
    "ends_of ?run ringTypeS2M j ?M (refreshed ?M (i_txQueues I ! j)) (refreshed ?M (announced ringTypeS2M (i_txQueues I) j))"
    "ends_of ?run ringTypeM2S j ?M (refreshed ?M (i_rxQueues I ! j)) (refreshed ?M (announced ringTypeM2S (i_rxQueues I) j))"
    if "j < pairs ?run" for j
    using refreshed_ends [OF cr(5) h(7) _ rI(5) cr(7)] refreshed_ends [OF cr(6) h(7) _ rI(5) cr(7)] that ring_number_less [OF that]
    unfolding M by blast+
  have cI: "connectable k4 i I"
    unfolding connectable_def using F(5) rI(1) cr(1,3,4) ends(1,2) h(3) G(3) by (auto simp: in_set_conv_nth calls_back_def)
  have cJ: "connectable k4 m ?J"
    unfolding connectable_def using rI(3,4) ends(3,4) h(4) G(3) by (auto simp: told_def assigned_def calls_back_def)
  have nJ: "pairs (i_run ?J) \<le> length (i_rxQueues ?J)" using h(8) rI(4) by (simp add: told_def assigned_def)
  have ccs: "i_cc I = Some (cc_s ?E)" "i_cc ?J = Some (cc_m ?E)" "map mr_fd (i_regions ?J) = map mr_fd (i_regions I)"
    using cr(2) F(5) by (simp_all add: told_def assigned_def)
  obtain S' T' k' where R: "rounds 2 a b (S3, T3, k4) = Some (S', T', k')" "both_connected ?E S' T' k'"
    "s_if S' i = connected_if k4 (fixed 32 (a_Name (i_args ?J))) I" "s_if T' m = connected_if k4 (fixed 32 (a_Name (i_args I))) ?J"
    "k_mem k' = k_mem k4"
    using finish [OF G(2) ccs(1,2) _ _ nJ ccs(3)] cI cJ by auto
  have "shared k' (s_if S' i) = ?M"
    unfolding R(3) using F(5) R(5) G(3) by (simp add: connected_if_def Let_def shared_def region_data_def)
  moreover have "rings_shared ?run (s_if S' i) (s_if T' m) ?M"
    unfolding R(3,4) rings_shared_def using ends(5,6) cr(3,4) F(5) G(3) rI(4)
    by (simp add: connected_if_def Let_def told_def)
  moreover have "rounds (2 * pairs ?run + 4) a b (S1, T1, k1) = Some (S', T', k')"
    using F(1) G(1) R(1) by (simp add: numeral_eq_Suc del: rounds.simps)
  ultimately show ?thesis using O(1) R(2) by (auto simp: both_connected_def)
qed

section \<open>Connection and delivery\<close>

text \<open>
  C11 (liveness). A slave and a master with the same id and number of queue pairs and without a secret
  get connected: after one round of messages per region, per ring and for each of the four other steps, both
  interfaces are connected, no message is left, and both see the same memory.
\<close>

theorem memif_connects:
  fixes S T :: Socket
  assumes "can_connect S i T m k"
  shows "\<exists>a b S1 T1 k1 S' T' k'. open_connection i (S, T, k) = Some (a, b, S1, T1, k1) \<and>
    rounds (2 * pairs (run_of S i) + 4) a b (S1, T1, k1) = Some (S', T', k') \<and>
    IsConnected S' i \<and> IsConnected T' m \<and> k_wire k' a = [] \<and> k_wire k' b = [] \<and>
    shared k' (s_if T' m) = shared k' (s_if S' i)"
  using handshake [OF assms] by (elim exE conjE) (intro exI conjI)

text \<open>
  C3 (refinement). Over every queue pair of interfaces that have connected, packets that fit into a
  buffer of less than 64 kB are delivered in order in both directions, whatever the order of sends
  and receives; at most a full ring of them is on the way, and no operation fails.
\<close>

theorem memif_delivers:
  fixes S T :: Socket
  assumes "can_connect S i T m k" and "P = bufsize (run_of S i)" "P < 2 ^ 16" "P \<le> length buf"
    and "\<And>p. Send p \<in> set ops \<Longrightarrow> p \<noteq> [] \<and> length p \<le> P"
  shows "\<exists>a b S1 T1 k1 S' T' k'. open_connection i (S, T, k) = Some (a, b, S1, T1, k1) \<and>
    rounds (2 * pairs (run_of S i) + 4) a b (S1, T1, k1) = Some (S', T', k') \<and>
    (\<forall>j < pairs (run_of S i).
       (\<exists>acc rcv rest s. run_queue (ring_send False (PacketBufferSize (run_of S i))) (ring_recv True x buf) ops
          (shared k' (s_if S' i), i_txQueues (s_if S' i) ! j, i_rxQueues (s_if T' m) ! j) = Some (acc, rcv, s) \<and>
          acc = rcv @ rest \<and> length rest \<le> slots (run_of S i)) \<and>
       (\<exists>acc rcv rest s. run_queue (ring_send True x) (ring_recv False (PacketBufferSize (run_of S i)) buf) ops
          (shared k' (s_if T' m), i_txQueues (s_if T' m) ! j, i_rxQueues (s_if S' i) ! j) = Some (acc, rcv, s) \<and>
          acc = rcv @ rest \<and> length rest \<le> slots (run_of S i)))"
proof -
  let ?run = "run_of S i"
  from handshake [OF assms(1)] obtain a b S1 T1 k1 S' T' k' where
    h: "open_connection i (S, T, k) = Some (a, b, S1, T1, k1)" "rounds (2 * pairs ?run + 4) a b (S1, T1, k1) = Some (S', T', k')"
    "shared k' (s_if T' m) = shared k' (s_if S' i)" "rings_shared ?run (s_if S' i) (s_if T' m) (shared k' (s_if S' i))" by blast
  let ?M = "shared k' (s_if S' i)"
  have "(\<exists>acc rcv rest s. run_queue (ring_send False (PacketBufferSize ?run)) (ring_recv True x buf) ops
          (?M, i_txQueues (s_if S' i) ! j, i_rxQueues (s_if T' m) ! j) = Some (acc, rcv, s) \<and>
          acc = rcv @ rest \<and> length rest \<le> slots ?run) \<and>
       (\<exists>acc rcv rest s. run_queue (ring_send True x) (ring_recv False (PacketBufferSize ?run) buf) ops
          (?M, i_txQueues (s_if T' m) ! j, i_rxQueues (s_if S' i) ! j) = Some (acc, rcv, s) \<and>
          acc = rcv @ rest \<and> length rest \<le> slots ?run)" if "j < pairs ?run" for j
  proof -
    from h(4) that have e: "ends_of ?run ringTypeS2M j ?M (i_txQueues (s_if S' i) ! j) (i_rxQueues (s_if T' m) ! j)"
      "ends_of ?run ringTypeM2S j ?M (i_rxQueues (s_if S' i) ! j) (i_txQueues (s_if T' m) ! j)" by (simp_all add: rings_shared_def)
    show ?thesis
      using s2m_fifo [of "ring_layout ?run (ring_number ?run ringTypeS2M j)" ?M "i_txQueues (s_if S' i) ! j" "i_rxQueues (s_if T' m) ! j"
          "PacketBufferSize ?run" buf ops x]
        m2s_fifo [of "ring_layout ?run (ring_number ?run ringTypeM2S j)" ?M "i_txQueues (s_if T' m) ! j" "i_rxQueues (s_if S' i) ! j"
          "PacketBufferSize ?run" buf ops x] e assms(2-5)
      by (simp add: ends_of_def Let_def)
  qed
  then show ?thesis using h(1-3) by (intro exI [of _ a] exI [of _ b] exI [of _ S1] exI [of _ T1] exI [of _ k1] exI [of _ S'] exI [of _ T'] exI [of _ k']) simp
qed

section \<open>An example\<close>

definition tiny_args :: "bool \<Rightarrow> Arguments" where
  "tiny_args isMaster = (i_args tiny_interface)\<lparr>a_IsMaster := isMaster\<rparr>"

definition tiny_slave :: Socket where
  "tiny_slave = (new_socket [] 2)\<lparr>interfaceList := [0], s_if := (\<lambda>_. new_interface (tiny_args False)), s_next := 1\<rparr>"

definition tiny_master :: Socket where
  "tiny_master = (new_socket [] 4)\<lparr>interfaceList := [0], s_if := (\<lambda>_. new_interface (tiny_args True)), s_next := 1, s_listener := Some 5\<rparr>"

lemma tiny_run: "run_of tiny_slave 0 = tiny_config"
  by (simp add: run_of_def tiny_slave_def new_interface_def tiny_args_def tiny_interface_def tiny_config_def with_defaults_def agreed_def
      hello_config_def hello_of_def min16_def min8_def)

lemma tiny_can_connect: "can_connect tiny_slave 0 tiny_master 0 good_kernel"
proof -
  have "config_ok tiny_config" using tiny_ok(2) by (simp add: tiny_interface_def)
  then show ?thesis unfolding can_connect_def Let_def run_of_def [symmetric] tiny_run
    by (simp add: good_def good_kernel_def unused_fds_def tiny_slave_def tiny_master_def new_socket_def new_interface_def tiny_args_def
        tiny_interface_def tiny_config_def with_defaults_def idle_def calls_back_def)
qed

lemma memif_connects_witness:
  "\<exists>a b S1 T1 k1 S' T' k'. open_connection 0 (tiny_slave, tiny_master, good_kernel) = Some (a, b, S1, T1, k1) \<and>
    rounds 6 a b (S1, T1, k1) = Some (S', T', k') \<and> IsConnected S' 0 \<and> IsConnected T' 0"
  using memif_connects [OF tiny_can_connect] by (elim exE conjE) (intro exI conjI; simp add: tiny_run tiny_config_def)

lemma memif_delivers_witness:
  "\<exists>(k' :: kernel) (S' :: Socket) (T' :: Socket) acc rcv rest s. run_queue (ring_send False 4) (ring_recv True 0 (replicate 4 0)) [Send [1], Recv]
     (shared k' (s_if S' 0), i_txQueues (s_if S' 0) ! 0, i_rxQueues (s_if T' 0) ! 0) = Some (acc, rcv, s) \<and> acc = rcv @ rest"
proof -
  have P: "(4::nat) = bufsize (run_of tiny_slave 0)" "PacketBufferSize (run_of tiny_slave 0) = 4" "0 < pairs (run_of tiny_slave 0)"
    by (simp_all add: tiny_run tiny_config_def)
  obtain S' T' :: Socket and k' where d: "\<forall>j < pairs (run_of tiny_slave 0).
       (\<exists>acc rcv rest s. run_queue (ring_send False (PacketBufferSize (run_of tiny_slave 0))) (ring_recv True 0 (replicate 4 0)) [Send [1], Recv]
          (shared k' (s_if S' 0), i_txQueues (s_if S' 0) ! j, i_rxQueues (s_if T' 0) ! j) = Some (acc, rcv, s) \<and>
          acc = rcv @ rest \<and> length rest \<le> slots (run_of tiny_slave 0))"
    using memif_delivers [OF tiny_can_connect P(1), of "replicate 4 0" "[Send [1], Recv]" 0] by (simp, blast)
  from d [rule_format, OF P(3)] show ?thesis unfolding P(2) by blast
qed

end
