(* ===== verification/MemifControlProps.thy ===== *)
theory MemifControlProps
  imports MemifConnected
begin

text \<open>
  What every operation keeps of a socket, and what goes wrong on the control channel: events of a
  peer that has not introduced itself, secrets, different numbers of queue pairs, and deletion.
\<close>

section \<open>Preservation\<close>

definition keeps :: "(Socket \<Rightarrow> bool) \<Rightarrow> 'a act \<Rightarrow> bool" where
  "keeps P a \<longleftrightarrow> (\<forall>S k r S' k'. P S \<longrightarrow> a (S, k) = Some (r, S', k') \<longrightarrow> P S')"

lemma keepsD: "keeps P a \<Longrightarrow> P S \<Longrightarrow> a (S, k) = Some (r, S', k') \<Longrightarrow> P S'"
  unfolding keeps_def by blast

lemma keeps_basic [inv_intros]: "keeps P (ret x)" "keeps P (fail e)" "keeps P panic" "keeps P (syscall t)"
  by (auto simp: keeps_def ret_def fail_def panic_def syscall_def sys_def Let_def)

lemma keeps_seq [inv_intros]:
  assumes "keeps P a" "\<And>x. keeps P (f x)"
  shows "keeps P (seq a f)"
  unfolding keeps_def
proof (intro allI impI)
  fix S k r S' k'
  assume P: "P S" and e: "seq a f (S, k) = Some (r, S', k')"
  then obtain x S1 k1 where a: "a (S, k) = Some (x, S1, k1)" by (auto simp: seq_def split: option.splits)
  have "P S1" by (rule keepsD [OF assms(1) P a])
  then show "P S'" using e a keepsD [OF assms(2)] by (cases x) (auto simp: seq_def)
qed

lemma keeps_wrap [inv_intros]: "keeps P a \<Longrightarrow> keeps P (wrap t a)"
  by (fastforce simp: keeps_def wrap_def split: option.splits sum.splits)

lemma keeps_with_socket [inv_intros]: "(\<And>S. keeps P (f S)) \<Longrightarrow> keeps P (with_socket f)"
  by (auto simp: keeps_def with_socket_def)

lemma keeps_for_each [inv_intros]: "(\<And>x. keeps P (f x)) \<Longrightarrow> keeps P (for_each f xs)"
  by (induction xs) (auto intro: inv_intros)

text \<open>An error can be handled.\<close>

lemma keeps_handle [inv_intros]:
  assumes "keeps P a" "\<And>e. keeps P (f e)" "\<And>x. keeps P (g x)"
  shows "keeps P (\<lambda>s. case a s of None \<Rightarrow> None | Some (Inl e, s') \<Rightarrow> f e s' | Some (Inr x, s') \<Rightarrow> g x s')"
  unfolding keeps_def
proof (intro allI impI)
  fix S k r S' k'
  assume P: "P S" and e: "(case a (S, k) of None \<Rightarrow> None | Some (Inl e, s') \<Rightarrow> f e s' | Some (Inr x, s') \<Rightarrow> g x s') = Some (r, S', k')"
  then obtain x S1 k1 where a: "a (S, k) = Some (x, S1, k1)" by (auto split: option.splits)
  have S1: "P S1" by (rule keepsD [OF assms(1) P a])
  show "P S'"
  proof (cases x)
    case (Inl x')
    then show ?thesis using e a keepsD [OF assms(2) S1] by simp
  next
    case (Inr x')
    then show ?thesis using e a keepsD [OF assms(3) S1] by simp
  qed
qed

lemma keeps_set_socket: "(\<And>S. P S \<Longrightarrow> P (f S)) \<Longrightarrow> keeps P (set_socket f)"
  by (auto simp: keeps_def set_socket_def)

lemma keeps_cases [inv_intros]:
  "keeps P a \<Longrightarrow> keeps P b \<Longrightarrow> keeps P (if c then a else b)"
  "keeps P a \<Longrightarrow> (\<And>x. keeps P (f x)) \<Longrightarrow> keeps P (case x of None \<Rightarrow> a | Some y \<Rightarrow> f y)"
  "keeps P a \<Longrightarrow> (\<And>x xs. keeps P (g x xs)) \<Longrightarrow> keeps P (case l of [] \<Rightarrow> a | x # xs \<Rightarrow> g x xs)"
  "(\<And>e. keeps P (l' e)) \<Longrightarrow> (\<And>y. keeps P (r' y)) \<Longrightarrow> keeps P (case s of Inl e \<Rightarrow> l' e | Inr y \<Rightarrow> r' y)"
  "(\<And>y z. keeps P (p y z)) \<Longrightarrow> keeps P (case pr of (y, z) \<Rightarrow> p y z)"
  by (auto split: option.split list.split sum.split prod.split)

text \<open>Predicates that do not look at what most operations change.\<close>

definition stable :: "(Socket \<Rightarrow> bool) \<Rightarrow> bool" where
  "stable P \<longleftrightarrow>
     (\<forall>S c C. P S \<longrightarrow> length (cc_data C) = length (cc_data (s_cc S c)) \<longrightarrow> P (set_cc c C S)) \<and>
     (\<forall>S i I. P S \<longrightarrow> i_args I = i_args (s_if S i) \<longrightarrow> P (set_if i I S)) \<and>
     (\<forall>S ev. P S \<longrightarrow> P (S\<lparr>intfQueueEventMap := ev\<rparr>)) \<and> (\<forall>S l. P S \<longrightarrow> P (S\<lparr>s_listener := l\<rparr>))"

lemma keeps_upd:
  assumes "stable P"
  shows "(\<And>C. length (cc_data (f C)) = length (cc_data C)) \<Longrightarrow> keeps P (upd_cc c f)"
    "(\<And>I. i_args (g I) = i_args I) \<Longrightarrow> keeps P (upd_if i g)"
  using assms by (auto simp: stable_def upd_cc_def upd_if_def set_cc_def set_if_def intro!: keeps_set_socket)

lemma initializeRegions_args: "initializeRegions i k = (e, i', k') \<Longrightarrow> i_args i' = i_args i"
  by (auto simp: initializeRegions_def addRegion_def Let_def sys_def split: if_splits option.splits prod.splits)

lemma keeps_init:
  assumes "stable P"
  shows "keeps P (if_initializeRegions i)" "keeps P (if_initializeQueues i)"
  using assms
  by (auto simp: keeps_def stable_def if_initializeRegions_def if_initializeQueues_def set_if_def [symmetric] split: prod.splits option.splits
      dest!: initializeRegions_args initializeQueues_frame only_queues_sel)

lemma keeps_send:
  assumes "stable P"
  shows "keeps P (sendMsg c)"
  using assms
  by (auto simp: keeps_def stable_def sendMsg_def with_socket_def seq_def upd_cc_def set_socket_def ret_def Let_def sys_def set_cc_def [symmetric]
      split: list.splits if_splits)

lemma keeps_events:
  assumes "stable P"
  shows "keeps P (map_event i j)" "keeps P (check_ring i tx j)" "keeps P (AddListener fd)"
proof -
  show "keeps P (map_event i j)" "keeps P (AddListener fd)"
    using assms unfolding map_event_def AddListener_def addEvent_def
    by (auto simp: stable_def intro!: inv_intros keeps_set_socket)
  show "keeps P (check_ring i tx j)"
    using assms by (auto simp: keeps_def stable_def check_ring_def Let_def fail_def ret_def set_if_def [symmetric] split: option.splits if_splits)
qed

lemmas keeps_stable = keeps_upd keeps_init keeps_send keeps_events

lemma keeps_queue:
  assumes "stable P"
  shows "keeps P (enqueue c bs fd)" "keeps P (intf_of c)" "keeps P (msgEnqAck c)" "keeps P (msgEnqHello c)" "keeps P (msgEnqInit c)"
    "keeps P (msgEnqAddRegion c n)" "keeps P (msgEnqAddRing c t n)" "keeps P (msgEnqConnect c)" "keeps P (msgEnqConnected c)"
    "keeps P (msgEnqDisconnect c str)" "keeps P (call cb i)" "keeps P addEvent" "keeps P delEvent"
  unfolding msgEnqAck_def msgEnqHello_def msgEnqInit_def msgEnqAddRegion_def msgEnqAddRing_def msgEnqConnect_def msgEnqConnected_def
    msgEnqDisconnect_def enqueue_def intf_of_def call_def addEvent_def delEvent_def Let_def
  by (intro inv_intros keeps_stable [OF assms]; simp)+

lemma keeps_connect:
  assumes "stable P"
  shows "keeps P (if_connect i)" "keeps P (if_disconnect i)"
  unfolding if_connect_def if_disconnect_def map_region_def munmap_def Let_def
  by (intro inv_intros keeps_stable [OF assms] keeps_queue [OF assms]; simp)+

lemma keeps_parse:
  assumes "stable P"
  shows "keeps P (parseHello c)" "keeps P (parseInit c)" "keeps P (parseAddRegion c)" "keeps P (parseAddRing c)"
    "keeps P (parseConnect c)" "keeps P (parseConnected c)"
  unfolding parseHello_def parseInit_def parseAddRegion_def parseAddRing_def parseConnect_def parseConnected_def parseControlMsg_def check_rx_def Let_def
  by (intro inv_intros keeps_stable [OF assms] keeps_queue [OF assms] keeps_connect [OF assms]; simp)+

text \<open>Predicates that allow a control channel to be dropped from the list.\<close>

definition prunable :: "(Socket \<Rightarrow> bool) \<Rightarrow> bool" where
  "prunable P \<longleftrightarrow> stable P \<and> (\<forall>S c. P S \<longrightarrow> P (S\<lparr>ccList := remove1 c (ccList S)\<rparr>))"

lemma prunable_stable: "prunable P \<Longrightarrow> stable P"
  by (simp add: prunable_def)

lemma keeps_close:
  assumes "prunable P"
  shows "keeps P (cc_close c b str)"
  unfolding cc_close_def using assms
  by (intro inv_intros keeps_stable [OF prunable_stable] keeps_queue [OF prunable_stable] keeps_connect [OF prunable_stable] keeps_set_socket)
    (simp_all add: prunable_def)

lemma keeps_parseMsg:
  assumes "prunable P"
  shows "keeps P (parseMsg c)"
proof -
  note st = prunable_stable [OF assms]
  have "keeps P (greet c)" "keeps P (parseDisconnect c)"
    unfolding greet_def parseDisconnect_def
    by (intro inv_intros keeps_stable [OF st] keeps_queue [OF st] keeps_parse [OF st] keeps_close [OF assms])+
  then have h: "keeps P (handle_msg c t)" for t
    unfolding handle_msg_def by (intro inv_intros keeps_queue [OF st] keeps_parse [OF st])
  have shut: "keeps P (seq (cc_close c True (err_text e)) (\<lambda>_. fail e :: unit act))" for e :: gerr
    by (intro inv_intros keeps_close [OF assms])
  have "keeps P (\<lambda>s. case handle_msg c t s of None \<Rightarrow> None
      | Some (Inl e, s') \<Rightarrow> seq (cc_close c True (err_text e)) (\<lambda>_. fail e) s' | Some (Inr x, s') \<Rightarrow> ret x s')" for t
    by (intro inv_intros h shut)
  then show ?thesis
    unfolding keeps_def parseMsg_def Let_def ret_def by (fastforce split: if_splits option.splits sum.splits prod.splits)
qed

lemma keeps_event:
  assumes P: "prunable P" and add: "\<And>fd i. keeps P (addControlChannel fd i)"
  shows "keeps P (Socket_handleEvent ev)"
proof -
  note st = prunable_stable [OF P]
  have d: "keeps P (upd_cc c (\<lambda>C. C\<lparr>cc_data := copy_into (cc_data C) bs, cc_control := ctl\<rparr>))" for c bs ctl
    by (rule keeps_stable [OF st]) simp
  have "keeps P (cc_handleEvent c ev)" for c
    unfolding cc_handleEvent_def
    by (intro inv_intros d keeps_stable [OF st] keeps_queue [OF st] keeps_close [OF P] keeps_parseMsg [OF P])
  moreover have "keeps P (listener_handleEvent ev)"
    unfolding listener_handleEvent_def listener_close_def
    by (intro inv_intros add keeps_stable [OF st] keeps_queue [OF st])
  ultimately show ?thesis
    unfolding Socket_handleEvent_def on_interrupt_def by (intro inv_intros)
qed

lemma keeps_if_Delete:
  assumes P: "prunable P" and del: "\<And>S. P S \<Longrightarrow> P (S\<lparr>interfaceList := remove1 i (interfaceList S)\<rparr>)"
  shows "keeps P (if_Disconnect i)" "keeps P (if_Delete i)"
proof -
  show d: "keeps P (if_Disconnect i)"
    unfolding if_Disconnect_def by (intro inv_intros keeps_close [OF P])
  show "keeps P (if_Delete i)"
    unfolding keeps_def
  proof (intro allI impI)
    fix S k r S' k'
    assume S: "P S" and e: "if_Delete i (S, k) = Some (r, S', k')"
    from e obtain x S1 k1 where a: "if_Disconnect i (S, k) = Some (x, S1, k1)" by (auto simp: if_Delete_def split: option.splits)
    have "P S1" by (rule keepsD [OF d S a])
    then show "P S'" using e a del by (auto simp: if_Delete_def set_socket_def)
  qed
qed

section \<open>Sockets stay well formed\<close>

text \<open>
  The lists of a socket hold keys of objects that were created, each once; control channels have a
  buffer of the size of a message; no two interfaces have the same id and role.
\<close>

definition same_role :: "Socket \<Rightarrow> nat \<Rightarrow> nat \<Rightarrow> bool" where
  "same_role S i j \<longleftrightarrow> a_Id (i_args (s_if S i)) = a_Id (i_args (s_if S j)) \<and>
     a_IsMaster (i_args (s_if S i)) = a_IsMaster (i_args (s_if S j))"

definition socket_ok :: "Socket \<Rightarrow> bool" where
  "socket_ok S \<longleftrightarrow> distinct (ccList S) \<and> distinct (interfaceList S) \<and>
     (\<forall>c \<in> set (ccList S). c < s_next S \<and> length (cc_data (s_cc S c)) = msgSize) \<and>
     (\<forall>i \<in> set (interfaceList S). i < s_next S) \<and>
     (\<forall>i \<in> set (interfaceList S). \<forall>j \<in> set (interfaceList S). same_role S i j \<longrightarrow> i = j)"

lemma socket_ok_prunable: "prunable socket_ok"
  unfolding prunable_def stable_def
proof (intro conjI allI impI)
  fix S :: Socket and c and C :: controlChannel
  assume "socket_ok S" "length (cc_data C) = length (cc_data (s_cc S c))"
  then show "socket_ok (set_cc c C S)" by (auto simp: socket_ok_def same_role_def)
next
  fix S :: Socket and i and I :: Interface
  assume "socket_ok S" "i_args I = i_args (s_if S i)"
  moreover from this have "same_role (set_if i I S) = same_role S"
    by (intro ext) (simp add: same_role_def set_if_def)
  ultimately show "socket_ok (set_if i I S)" by (simp add: socket_ok_def set_if_def)
next
  fix S :: Socket and c
  assume "socket_ok S"
  moreover have "same_role (S\<lparr>ccList := remove1 c (ccList S)\<rparr>) = same_role S" by (intro ext) (simp add: same_role_def)
  ultimately show "socket_ok (S\<lparr>ccList := remove1 c (ccList S)\<rparr>)" by (auto simp: socket_ok_def dest: notin_set_remove1)
qed (simp_all add: socket_ok_def same_role_def)

lemma addControlChannel_cases:
  "addControlChannel fd i (S, k) = Some (r, S', k') \<Longrightarrow>
    S' = new_cc fd i S \<or> S' = S\<lparr>s_cc := (s_cc S)(s_next S := fresh_cc fd i), s_next := s_next S + 1\<rparr>"
  by (auto simp: addControlChannel_def act_simps new_cc_def fresh_cc_def split: if_splits)

text \<open>The key of a new object is not the key of an object that exists.\<close>

lemma socket_ok_new_cc:
  assumes "socket_ok S" and n: "length (cc_data C) = msgSize"
  shows "socket_ok (S\<lparr>s_cc := (s_cc S)(s_next S := C), s_next := s_next S + 1\<rparr>)"
    "socket_ok (S\<lparr>s_cc := (s_cc S)(s_next S := C), s_next := s_next S + 1, ccList := ccList S @ [s_next S]\<rparr>)"
proof -
  have "s_next S \<notin> set (ccList S)" using assms by (auto simp: socket_ok_def)
  moreover have "same_role (S\<lparr>s_cc := x, s_next := y\<rparr>) i j = same_role S i j"
    "same_role (S\<lparr>s_cc := x, s_next := y, ccList := l\<rparr>) i j = same_role S i j" for x y l i j by (simp_all add: same_role_def)
  ultimately show "socket_ok (S\<lparr>s_cc := (s_cc S)(s_next S := C), s_next := s_next S + 1\<rparr>)"
    "socket_ok (S\<lparr>s_cc := (s_cc S)(s_next S := C), s_next := s_next S + 1, ccList := ccList S @ [s_next S]\<rparr>)"
    using assms unfolding socket_ok_def by (simp_all add: less_SucI)
qed

lemma socket_ok_add: "keeps socket_ok (addControlChannel fd i)"
  unfolding keeps_def
proof (intro allI impI)
  fix S k r S' k'
  assume "socket_ok S" "addControlChannel fd i (S, k) = Some (r, S', k')"
  then show "socket_ok S'"
    using socket_ok_new_cc [of S "fresh_cc fd i"] by (auto dest!: addControlChannel_cases simp: new_cc_def fresh_cc_def)
qed

lemma socket_ok_new_if:
  assumes ok: "socket_ok S"
    and new: "\<not> (\<exists>i \<in> set (interfaceList S). a_Id (i_args (s_if S i)) = a_Id args \<and> a_IsMaster (i_args (s_if S i)) = a_IsMaster args)"
  shows "socket_ok (S\<lparr>s_if := (s_if S)(s_next S := new_interface args), s_next := s_next S + 1,
    interfaceList := interfaceList S @ [s_next S]\<rparr>)" (is "socket_ok ?S")
proof -
  have fresh: "s_next S \<notin> set (interfaceList S)" using ok by (auto simp: socket_ok_def)
  have old: "s_if ?S i = s_if S i" if "i \<in> set (interfaceList S)" for i using that fresh by auto
  have args: "a_Id (i_args (s_if ?S (s_next S))) = a_Id args" "a_IsMaster (i_args (s_if ?S (s_next S))) = a_IsMaster args"
    by (simp_all add: new_interface_def)
  have same: "same_role ?S i j \<Longrightarrow> i = j" if "i \<in> set (interfaceList ?S)" "j \<in> set (interfaceList ?S)" for i j
  proof -
    assume same: "same_role ?S i j"
    from that consider "i \<in> set (interfaceList S)" "j \<in> set (interfaceList S)" | "i \<in> set (interfaceList S)" "j = s_next S"
      | "i = s_next S" "j \<in> set (interfaceList S)" | "i = s_next S" "j = s_next S" by auto
    then show "i = j"
    proof cases
      case 1
      then show ?thesis using same ok by (simp only: same_role_def old) (simp add: socket_ok_def same_role_def)
    next
      case 2
      then show ?thesis using same new by (simp only: same_role_def old args) blast
    next
      case 3
      then show ?thesis using same new by (simp only: same_role_def old args) metis
    qed simp
  qed
  have "i < s_next ?S" if "i \<in> set (interfaceList ?S)" for i
    using that ok by (auto simp: socket_ok_def dest: less_SucI)
  moreover have "\<forall>c \<in> set (ccList ?S). c < s_next ?S \<and> length (cc_data (s_cc ?S c)) = msgSize"
    using ok by (auto simp: socket_ok_def dest: less_SucI)
  moreover have "distinct (ccList ?S)" "distinct (interfaceList ?S)" using ok fresh by (simp_all add: socket_ok_def)
  ultimately show ?thesis unfolding socket_ok_def using same by blast
qed

lemma socket_ok_new: "keeps socket_ok (NewInterface args)"
  unfolding keeps_def
proof (intro allI impI)
  fix S k r S' k'
  assume ok: "socket_ok S" and e: "NewInterface args (S, k) = Some (r, S', k')"
  let ?i = "s_next S"
  let ?S = "S\<lparr>s_if := (s_if S)(?i := new_interface args), s_next := ?i + 1, interfaceList := interfaceList S @ [?i]\<rparr>"
  let ?rest = "if a_IsMaster args \<and> s_listener S = None then seq (wrap ''Failed to create listener channel'' addListener) (\<lambda>_. ret ?i)
    else ret ?i"
  have step: "keeps socket_ok ?rest"
    unfolding addListener_def by (intro inv_intros keeps_stable [OF prunable_stable [OF socket_ok_prunable]])
  show "socket_ok S'"
  proof (cases "\<exists>i \<in> set (interfaceList S). a_Id (i_args (s_if S i)) = a_Id args \<and> a_IsMaster (i_args (s_if S i)) = a_IsMaster args")
    case True
    then show ?thesis using ok e by (simp add: NewInterface_def with_socket_def fail_def)
  next
    case False
    have "?rest (?S, k) = Some (r, S', k')"
      using e False by (simp add: NewInterface_def with_socket_def Let_def seq_def set_socket_def)
    then show ?thesis by (rule keepsD [OF step socket_ok_new_if [OF ok False]])
  qed
qed

lemma keeps_remove_file:
  assumes "stable P"
  shows "keeps P (\<lambda>s. let (ok, _, k') = sys (snd s); s' = (fst s, k') in
    if ok then wrap ''Failed to delete event: '' delEvent s' else ret () s')"
  using keepsD [OF keeps_wrap [OF keeps_queue(13) [OF assms]]] by (auto simp: keeps_def ret_def sys_def Let_def split: if_splits)

lemma keeps_delete:
  assumes P: "prunable P" and del: "\<And>S i. P S \<Longrightarrow> P (S\<lparr>interfaceList := remove1 i (interfaceList S)\<rparr>)"
  shows "keeps P Socket_Delete"
proof -
  note st = prunable_stable [OF P]
  have close: "keeps P (cc_close c True str)" for c str by (rule keeps_close [OF P])
  have first: "keeps P delete_first_cc"
    unfolding delete_first_cc_def by (intro inv_intros close)
  show ?thesis
    unfolding Socket_Delete_def delete_first_if_def listener_close_def
    by (intro inv_intros first keeps_remove_file [OF st] keeps_queue [OF st] keeps_if_Delete [OF P] del)
qed

lemma keeps_request:
  assumes P: "stable P" and add: "\<And>fd i. keeps P (addControlChannel fd i)"
  shows "keeps P (RequestConnection i)"
proof -
  have upd: "keeps P (upd_if i (\<lambda>I. I\<lparr>i_cc := x\<rparr>))" for x by (rule keeps_stable [OF P]) simp
  show ?thesis unfolding RequestConnection_def by (intro inv_intros add upd)
qed

section \<open>The operations of a program\<close>

text \<open>Other processes use the kernel between two operations.\<close>

inductive socket_reached :: "Socket \<Rightarrow> bool" where
  created: "NewSocket name k = (Inr S, k') \<Longrightarrow> socket_reached S"
| interface: "socket_reached S \<Longrightarrow> NewInterface args (S, k) = Some (r, S', k') \<Longrightarrow> socket_reached S'"
| request: "socket_reached S \<Longrightarrow> RequestConnection i (S, k) = Some (u, S', k') \<Longrightarrow> socket_reached S'"
| event: "socket_reached S \<Longrightarrow> Socket_handleEvent ev (S, k) = Some (u, S', k') \<Longrightarrow> socket_reached S'"
| disconnect: "socket_reached S \<Longrightarrow> if_Disconnect i (S, k) = Some (u, S', k') \<Longrightarrow> socket_reached S'"
| delete: "socket_reached S \<Longrightarrow> if_Delete i (S, k) = Some (u, S', k') \<Longrightarrow> socket_reached S'"
| deleted: "socket_reached S \<Longrightarrow> Socket_Delete (S, k) = Some (u, S', k') \<Longrightarrow> socket_reached S'"

lemma socket_reached_invariant:
  assumes P: "prunable P" and new: "\<And>name efd. P (new_socket name efd)"
    and add: "\<And>fd i. keeps P (addControlChannel fd i)" "\<And>args. keeps P (NewInterface args)"
    and del: "\<And>S i. P S \<Longrightarrow> P (S\<lparr>interfaceList := remove1 i (interfaceList S)\<rparr>)"
    and S: "socket_reached S"
  shows "P S"
  using S
proof induction
  case (created name k S k')
  then show ?case using new by (auto simp: NewSocket_def Let_def sys_def split: if_splits)
next
  case (interface S args k r S' k')
  then show ?case using keepsD [OF add(2)] by blast
next
  case (request S i k u S' k')
  then show ?case using keepsD [OF keeps_request [OF prunable_stable [OF P] add(1)]] by blast
next
  case (event S ev k u S' k')
  then show ?case using keepsD [OF keeps_event [OF P add(1)]] by blast
next
  case (disconnect S i k u S' k')
  then show ?case using keepsD [OF keeps_if_Delete(1) [OF P del]] by blast
next
  case (delete S i k u S' k')
  then show ?case using keepsD [OF keeps_if_Delete(2) [OF P del]] by blast
next
  case (deleted S k u S' k')
  then show ?case using keepsD [OF keeps_delete [OF P del]] by blast
qed

text \<open>
  C22 (type). Whatever a program and its peers do with a socket, its lists hold keys of objects that
  were created, each once; the receive buffers of its control channels keep the size of a message;
  and no two of its interfaces have the same id and role.
\<close>

theorem sockets_well_formed: "socket_reached S \<Longrightarrow> socket_ok S"
proof (rule socket_reached_invariant [OF socket_ok_prunable _ socket_ok_add socket_ok_new])
  show "socket_ok (new_socket name efd)" for name efd by (simp add: socket_ok_def new_socket_def)
  show "socket_ok (S\<lparr>interfaceList := remove1 i (interfaceList S)\<rparr>)" if "socket_ok S" for S :: Socket and i
  proof -
    have "same_role (S\<lparr>interfaceList := remove1 i (interfaceList S)\<rparr>) = same_role S" by (intro ext) (simp add: same_role_def)
    then show ?thesis using that by (auto simp: socket_ok_def dest: notin_set_remove1)
  qed
qed

lemma sockets_well_formed_witness:
  "\<exists>S. socket_reached S \<and> interfaceList S = [0] \<and> socket_ok S"
proof -
  let ?S = "new_socket [] 12" and ?args = "i_args tiny_interface"
  have n: "NewSocket [] good_kernel = (Inr ?S, good_kernel\<lparr>k_next := 13\<rparr>)"
    by (simp add: NewSocket_def sys_def good_kernel_def)
  let ?S' = "?S\<lparr>s_if := (s_if ?S)(0 := new_interface ?args), s_next := 1, interfaceList := [0]\<rparr>"
  have "\<not> a_IsMaster ?args" by (simp add: tiny_interface_def)
  then have "NewInterface ?args (?S, good_kernel) = Some (Inr 0, ?S', good_kernel)"
    unfolding NewInterface_def with_socket_def fst_conv by (simp add: new_socket_def act_simps)
  then obtain S' where S': "NewInterface ?args (?S, good_kernel) = Some (Inr 0, S', good_kernel)" "interfaceList S' = [0]" by simp
  have "socket_reached S'" by (rule interface [OF created [OF n] S'(1)])
  with S'(2) sockets_well_formed [OF this] show ?thesis by blast
qed

section \<open>Peers that do not introduce themselves\<close>

definition hang_up :: "int \<Rightarrow> event" where
  "hang_up fd = \<lparr>e_Fd = fd, e_hup = True, e_err = False, e_in = False, e_recv = None, e_accept = None\<rparr>"

text \<open>
  C38 (error). Once a master has accepted a connection, a peer that hangs up before its Init message,
  or that sends Connect or Connected first, makes the master dereference a nil interface: the process
  panics.
\<close>

theorem early_events_panic:
  assumes "can_connect S i T m k" and "length bs = msgSize" "msg_type bs \<in> {msgTypeConnect, msgTypeConnected}"
  shows "\<exists>a b S1 T1 k1. open_connection i (S, T, k) = Some (a, b, S1, T1, k1) \<and>
    Socket_handleEvent (hang_up b) (T1, k1) = None \<and> Socket_handleEvent (incoming b bs x) (T1, k1) = None"
proof -
  from opened [OF assms(1)] obtain S1 T1 k1 a b where o: "open_connection i (S, T, k) = Some (a, b, S1, T1, k1)" "good k1"
    "endpoint T1 (s_next T) b" "cc_i (s_cc T1 (s_next T)) = None" by blast
  let ?d = "s_next T"
  have "cc_handleEvent ?d (hang_up b) (T1, k1) = None"
    using o(2,4) by (simp add: cc_handleEvent_def hang_up_def cc_close_def act_simps panic_def)
  then have 1: "Socket_handleEvent (hang_up b) (T1, k1) = None"
    using o(3) by (simp add: Socket_handleEvent_def with_socket_def endpoint_def hang_up_def)
  let ?T = "set_cc ?d ((s_cc T1 ?d)\<lparr>cc_data := bs, cc_control := control_data x\<rparr>) T1"
  have "parseMsg ?d (?T, k1) = None"
    using assms(3) o(4) by (auto simp: parseMsg_def handle_msg_def msgTypes parseConnect_def parseConnected_def act_simps panic_def)
  then have "Socket_handleEvent (incoming b bs x) (T1, k1) = None"
    by (simp add: receive [OF o(3) assms(2)] seq_def)
  with 1 o(1) show ?thesis by blast
qed

lemma early_events_panic_witness:
  "\<exists>a b S1 T1 k1. open_connection 0 (tiny_slave, tiny_master, good_kernel) = Some (a, b, S1, T1, k1) \<and>
    Socket_handleEvent (hang_up b) (T1, k1) = None \<and> Socket_handleEvent (incoming b ([6, 0] @ replicate 126 0) None) (T1, k1) = None"
  by (rule early_events_panic [OF tiny_can_connect]) (simp_all add: msgSize_def msgTypes msg_type_def le_at_def)

section \<open>Secrets\<close>

text \<open>
  An Init message carries no secret, whatever secret the slave has: a master with a
  secret answers every Init that asks for it with an error, the same secret or not.
\<close>

theorem secret_refused:
  assumes "cc_data (s_cc T d) = with_type msgTypeInit (write_Init (init_of name I)) @ rest"
    and "find_master T (a_Id (i_args I)) (interfaceList T) = Some m" "a_Secret (i_args (s_if T m)) \<noteq> replicate 24 0"
  shows "handle_msg d msgTypeInit (T, k) = Some (Inl (ErrMsg ''Invalid secret''), T, k)"
proof -
  have "length (n_Secret (init_of name I)) = 24" "length (n_Name (init_of name I)) = 32" by (simp_all add: init_of_def)
  then have r: "read_Init (body_of T d) = init_of name I" using assms(1) by (simp add: body_of_def)
  have "parseInit d (T, k) = Some (Inl (ErrMsg ''Invalid secret''), T, k)"
    unfolding parseInit_def with_socket_def fst_conv r using assms by (simp add: init_of_def act_simps)
  then show ?thesis by (simp add: handle_msg_def msgTypes seq_def)
qed

definition secret_args :: "bool \<Rightarrow> Arguments" where
  "secret_args isMaster = (tiny_args isMaster)\<lparr>a_Secret := replicate 24 7\<rparr>"

definition secret_master :: Socket where
  "secret_master = (new_socket [] 4)\<lparr>interfaceList := [0], s_if := (\<lambda>_. new_interface (secret_args True)), s_next := 2, ccList := [1],
     s_cc := (\<lambda>_. \<lparr>cc_i = None, cc_fd = 7, cc_data = with_type msgTypeInit (write_Init (init_of [] (new_interface (secret_args False)))),
       cc_control = Some [], cc_msgQueue = [], cc_isConnected = False\<rparr>)\<rparr>"

lemma secret_refused_witness:
  "handle_msg 1 msgTypeInit (secret_master, good_kernel) = Some (Inl (ErrMsg ''Invalid secret''), secret_master, good_kernel)"
  by (rule secret_refused [of secret_master 1 "[]" "new_interface (secret_args False)" "[]" 0])
    (simp_all add: secret_master_def new_interface_def secret_args_def tiny_args_def tiny_interface_def)

section \<open>A handshake that fails\<close>

lemma disconnect_unmapped:
  assumes "i_cc (s_if S i) = Some c" "a_DisconnectedFunc (i_args (s_if S i)) = Some f" "f i = None" "i_regions (s_if S i) = r # rs" "\<not> mr_mapped r"
  shows "if_disconnect i (S, k) = Some (Inl (ErrMsg ''EINVAL''), set_if i ((s_if S i)\<lparr>i_txQueues := [], i_rxQueues := []\<rparr>) S, k)"
proof -
  from assms(2,3) have "wrap ''DisconnectedFunc: '' (call (a_DisconnectedFunc (i_args (s_if S i))) i) (S, k) = Some (Inr (), S, k)"
    by (simp add: wrap_def call_def ret_def)
  then show ?thesis using assms by (simp add: if_disconnect_def munmap_def seq_def with_socket_def upd_if_def set_socket_def fail_def set_if_def)
qed

text \<open>
  When a master refuses a ring because the slave has more queue pairs, while the regions
  are not mapped yet, closing the channel fails on the first region: the channel is gone, but the
  interface still refers to it, and no later Init message finds an interface with that id.
\<close>

theorem refused_ring_strands_interface:
  assumes S: "socket_ok S" "i \<in> set (interfaceList S)" "a_IsMaster (i_args (s_if S i))"
    and c: "cc_i (s_cc S c) = Some i" "i_cc (s_if S i) = Some c" "a_DisconnectedFunc (i_args (s_if S i)) = Some f" "f i = None"
    and r: "i_regions (s_if S i) = r # rs" "\<not> mr_mapped r"
    and msg: "msg_type (cc_data (s_cc S c)) = msgTypeAddRing" "NumQueuePairs (i_run (s_if S i)) \<le> ad_Index (read_AddRing (body_of S c))"
    and k: "good k"
  shows "\<exists>S' k'. parseMsg c (S, k) = Some (Inl (ErrMsg ''Interface Disconnect: ''), S', k') \<and> c \<notin> set (ccList S') \<and>
    i_cc (s_if S' i) = Some c \<and> find_master S' (a_Id (i_args (s_if S i))) (interfaceList S') = None"
proof -
  have "\<exists>e. parseAddRing c (S, k) = Some (Inl e, S, k)"
    using c(1) msg(2) by (auto simp: parseAddRing_def parseControlMsg_def act_simps body_of_def split: option.split list.split sum.split)
  then obtain e where h: "handle_msg c msgTypeAddRing (S, k) = Some (Inl e, S, k)" by (auto simp: handle_msg_def msgTypes seq_def)
  let ?m = "\<lparr>m_Buffer = with_type msgTypeDisconnect (write_Disconnect \<lparr>dc_Code = 0, dc_String = fixed 96 (err_text e)\<rparr>), m_Fd = - 1\<rparr>"
  let ?C = "(s_cc S c)\<lparr>cc_msgQueue := []\<rparr>" and ?I = "(s_if S i)\<lparr>i_txQueues := [], i_rxQueues := []\<rparr>"
  let ?S = "set_if i ?I ((set_cc c ?C S)\<lparr>ccList := remove1 c (ccList S)\<rparr>)"
  obtain k1 where k1: "k1 = on_wire k (cc_fd (s_cc S c)) ?m" "good k1" using k by (simp add: on_wire_def)
  have s: "sendMsg c (set_cc c ((s_cc S c)\<lparr>cc_msgQueue := [?m]\<rparr>) S, k) = Some (Inr (), set_cc c ?C S, k1)"
    using send [of "set_cc c ((s_cc S c)\<lparr>cc_msgQueue := [?m]\<rparr>) S" c ?m "[]" k] k by (simp add: set_cc_def k1(1))
  let ?S1 = "(set_cc c ?C S)\<lparr>ccList := remove1 c (ccList S)\<rparr>" and ?k2 = "k1\<lparr>k_next := k_next k1 + 1\<rparr>"
  have d: "if_disconnect i (?S1, ?k2) = Some (Inl (ErrMsg ''EINVAL''), ?S, ?k2)"
    using disconnect_unmapped [of ?S1 i c f r rs ?k2] c r by simp
  have "msgEnqDisconnect c (err_text e) (set_cc c ?C S, k) = Some (Inr (), set_cc c ((s_cc S c)\<lparr>cc_msgQueue := [?m]\<rparr>) S, k)"
    by (simp add: msgEnqDisconnect_def enqueue_def upd_cc_def set_socket_def set_cc_def)
  then have cl: "cc_close c True (err_text e) (S, k) = Some (Inl (ErrMsg ''Interface Disconnect: ''), ?S, ?k2)"
    using s k1(2) d c(1)
    by (simp add: cc_close_def seq_def wrap_def delEvent_def syscall_def sys_def ret_def with_socket_def set_socket_def upd_cc_def set_cc_def)
  have p: "parseMsg c (S, k) = Some (Inl (ErrMsg ''Interface Disconnect: ''), ?S, k1\<lparr>k_next := k_next k1 + 1\<rparr>)"
    using h cl msg(1) by (simp add: parseMsg_def msgTypes seq_def)
  have none: "find_master ?S (a_Id (i_args (s_if S i))) is = None" if "set is \<subseteq> set (interfaceList S)" for "is"
    using that
  proof (induction "is")
    case (Cons j js)
    then have "j \<in> set (interfaceList S)" by simp
    with S have "a_Id (i_args (s_if S j)) = a_Id (i_args (s_if S i)) \<Longrightarrow> a_IsMaster (i_args (s_if S j)) \<Longrightarrow> j = i"
      by (auto simp: socket_ok_def same_role_def)
    then show ?case using Cons c(2) by auto
  qed simp
  have "c \<notin> set (ccList ?S)" using S(1) by (auto simp: socket_ok_def)
  then show ?thesis using p none [of "interfaceList S"] c(2) by (intro exI [of _ ?S] exI conjI) auto
qed

definition stranded :: Socket where
  "stranded = (new_socket [] 4)\<lparr>interfaceList := [0], s_next := 2, ccList := [1],
     s_if := (\<lambda>_. (new_interface (tiny_args True))\<lparr>i_run := tiny_config, i_cc := Some 1,
       i_regions := [\<lparr>mr_mapped = False, mr_size = 64, mr_fd = 5, mr_packetBufferOffset = 0\<rparr>]\<rparr>),
     s_cc := (\<lambda>_. \<lparr>cc_i = Some 0, cc_fd = 7, cc_data = with_type msgTypeAddRing (write_AddRing \<lparr>ad_Flags = 1, ad_Index = 1, ad_Region = 0,
       ad_Offset = 0, ad_RingSizeLog2 = 1, ad_PrivateHdrSize = 0\<rparr>),
       cc_control = Some [Rights (Some [9])], cc_msgQueue = [], cc_isConnected = False\<rparr>)\<rparr>"

lemma refused_ring_strands_interface_witness:
  "\<exists>S' k'. parseMsg 1 (stranded\<lparr>s_cc := (s_cc stranded)(1 := (s_cc stranded 1)\<lparr>cc_data := cc_data (s_cc stranded 1) @ replicate 113 0\<rparr>)\<rparr>, good_kernel) =
      Some (Inl (ErrMsg ''Interface Disconnect: ''), S', k') \<and>
    1 \<notin> set (ccList S') \<and> i_cc (s_if S' 0) = Some 1 \<and> find_master S' 1 (interfaceList S') = None"
    (is "\<exists>S' k'. parseMsg 1 (?S, _) = _ \<and> _")
proof -
  have ok: "socket_ok ?S"
    by (simp add: stranded_def new_socket_def socket_ok_def msgSize_def written_length)
  have "a_Id (i_args (s_if ?S 0)) = 1" by (simp add: stranded_def new_interface_def tiny_args_def tiny_interface_def)
  then show ?thesis
    using refused_ring_strands_interface [of ?S 0 1 "\<lambda>_. None" _ "[]" good_kernel] ok
    by (simp add: stranded_def new_socket_def new_interface_def tiny_args_def tiny_interface_def tiny_config_def body_of_def good_def good_kernel_def)
qed

section \<open>Deleting a socket\<close>

lemma keeps_interfaceList: "prunable (\<lambda>S. interfaceList S = L)"
  by (simp add: prunable_def stable_def)

text \<open>
  Deleting a socket deletes at most the first of its interfaces, without reporting the
  others: the loop over the list ends with the element it removes.
\<close>

theorem Socket_Delete_first_only:
  assumes "Socket_Delete (S, k) = Some (r, S', k')"
  shows "interfaceList S' = interfaceList S \<or> interfaceList S' = tl (interfaceList S)"
proof -
  let ?P = "\<lambda>S'. interfaceList S' = interfaceList S" and ?Q = "\<lambda>S'. interfaceList S' = tl (interfaceList S)"
  let ?R = "\<lambda>S'. ?P S' \<or> ?Q S'"
  have PR: "prunable ?R" by (simp add: prunable_def stable_def)
  have first: "keeps ?P delete_first_cc"
    unfolding delete_first_cc_def by (intro inv_intros keeps_close [OF keeps_interfaceList])
  have del: "interfaceList S2 = tl (interfaceList S1)" if "delete_first_if (S1, k1) = Some (x, S2, k2)" for S1 k1 x S2 k2
  proof (cases "interfaceList S1")
    case Nil
    then show ?thesis using that by (simp add: delete_first_if_def with_socket_def ret_def)
  next
    case (Cons i js)
    with that obtain y S3 k3 where d: "if_Disconnect i (S1, k1) = Some (y, S3, k3)" and S2: "S2 = S3\<lparr>interfaceList := remove1 i (interfaceList S3)\<rparr>"
      by (auto simp: delete_first_if_def with_socket_def if_Delete_def set_socket_def split: option.splits)
    have "keeps (\<lambda>S. interfaceList S = i # js) (if_Disconnect i)"
      unfolding if_Disconnect_def by (intro inv_intros keeps_close [OF keeps_interfaceList])
    from keepsD [OF this Cons d] S2 show ?thesis using Cons by simp
  qed
  have rest: "keeps ?R (with_socket (\<lambda>S. if s_listener S = None then wrap ''Failed to delete event: '' delEvent
          else seq listener_close (\<lambda>_ s. let (ok, _, k') = sys (snd s); s' = (fst s, k') in
                 if ok then wrap ''Failed to delete event: '' delEvent s' else ret () s')))"
    unfolding listener_close_def by (intro inv_intros keeps_remove_file [OF prunable_stable [OF PR]] keeps_queue [OF prunable_stable [OF PR]])
  from assms obtain go S1 k1 where c: "delete_first_cc (S, k) = Some (go, S1, k1)"
    by (auto simp: Socket_Delete_def seq_def split: option.splits)
  have S1: "interfaceList S1 = interfaceList S" by (rule keepsD [OF first refl c])
  show ?thesis
  proof (cases "\<exists>b. go = Inr b \<and> b")
    case False
    then show ?thesis using assms c S1 by (cases go) (auto simp: Socket_Delete_def seq_def ret_def)
  next
    case True
    with assms c obtain x S2 k2 where d: "delete_first_if (S1, k1) = Some (x, S2, k2)"
      by (auto simp: Socket_Delete_def seq_def split: option.splits)
    have S2: "?R S2" using del [OF d] S1 by simp
    show ?thesis
    proof (cases x)
      case (Inl e)
      then show ?thesis using assms c d True S2 by (auto simp: Socket_Delete_def seq_def)
    next
      case (Inr u)
      then show ?thesis using assms c d True keepsD [OF rest S2, of k2 r S' k'] by (auto simp: Socket_Delete_def seq_def)
    qed
  qed
qed

lemma Socket_Delete_first_only_witness:
  "\<exists>r S' k'. Socket_Delete (tiny_slave\<lparr>interfaceList := [0, 1]\<rparr>, good_kernel) = Some (r, S', k') \<and>
    (interfaceList S' = [0, 1] \<or> interfaceList S' = [1])"
proof -
  have "\<exists>r S' k'. Socket_Delete (tiny_slave\<lparr>interfaceList := [0, 1]\<rparr>, good_kernel) = Some (r, S', k')"
    by (simp add: Socket_Delete_def delete_first_cc_def delete_first_if_def if_Delete_def if_Disconnect_def act_simps tiny_slave_def
        new_socket_def new_interface_def good_kernel_def)
  then obtain r S' k' where d: "Socket_Delete (tiny_slave\<lparr>interfaceList := [0, 1]\<rparr>, good_kernel) = Some (r, S', k')" by blast
  with Socket_Delete_first_only [OF d] show ?thesis by auto
qed

end
