(* ===== verification/GenTypes.thy ===== *)
theory GenTypes
  imports CodecBuffer
begin

text \<open>
  The types of the binary API as the code generator keeps them (\<open>binapigen/binapigen.go\<close>,
  \<open>binapigen/types.go\<close>), after their references were resolved. The pointers from a field to its
  type form a tree, which \<open>Field\<close> holds; of a referenced field only its Go name is used. Names of
  types matter only in printed code and are left out, as are defaults and comments.
\<close>

section \<open>Base types\<close>

definition BaseTypeSizes :: "string \<Rightarrow> int" where
  "BaseTypeSizes t =
     (case map_of [(''u8'', 1), (''i8'', 1), (''u16'', 2), (''i16'', 2), (''u32'', 4), (''i32'', 4), (''u64'', 8), (''i64'', 8),
        (''f64'', 8), (''bool'', 1), (''string'', 1)] t of
        None \<Rightarrow> 0 | Some n \<Rightarrow> n)"

definition BaseTypesGo :: "string \<Rightarrow> string option" where
  "BaseTypesGo =
     map_of [(''u8'', ''uint8''), (''i8'', ''int8''), (''u16'', ''uint16''), (''i16'', ''int16''), (''u32'', ''uint32''), (''i32'', ''int32''),
       (''u64'', ''uint64''), (''i64'', ''int64''), (''f64'', ''float64''), (''bool'', ''bool''), (''string'', ''string'')]"

definition is_base :: "string \<Rightarrow> bool" where
  "is_base t \<longleftrightarrow> BaseTypesGo t \<noteq> None"

definition int_types :: "string set" where
  "int_types = {''u8'', ''i8'', ''u16'', ''i16'', ''u32'', ''i32'', ''u64'', ''i64''}"

definition scalar_types :: "string set" where
  "scalar_types = insert ''f64'' (insert ''bool'' int_types)"

section \<open>Fields and types\<close>

record ApiField =
  f_Name :: string
  f_Type :: string
  f_Length :: int
  f_Array :: bool
  f_SizeFrom :: string

datatype Field = Field (fd_api: ApiField) (fd_GoName: string) (fd_ref: TypeRef) (FieldSizeOf: "string option") (FieldSizeFrom: "string option")
and TypeRef = NoRef | TypeEnum string | TypeAlias string int "Field list option" | TypeStruct "Field list" | TypeUnion "Field list"

section \<open>Sizes\<close>

text \<open>The size of a base type times the length; length 0 is one element.\<close>

definition getSizeOfBinapiBaseType :: "string \<Rightarrow> int \<Rightarrow> int" where
  "getSizeOfBinapiBaseType typ len =
     (let n = BaseTypeSizes typ in if 0 < n then if 1 < len then n * len else n else 0)"

text \<open>The flag says that the field has a base type. A union with such a field panics.\<close>

fun getSizeOfField :: "Field \<Rightarrow> (int \<times> bool) option"
  and getSizeOfStruct :: "Field list \<Rightarrow> int option"
  and getUnionSize_from :: "int \<Rightarrow> Field list \<Rightarrow> int option" where
  "getSizeOfField (Field a g (TypeAlias t n st) so sf) = Some (getSizeOfBinapiBaseType t n, False)"
| "getSizeOfField (Field a g (TypeEnum t) so sf) = Some (getSizeOfBinapiBaseType t (f_Length a), False)"
| "getSizeOfField (Field a g (TypeStruct fs) so sf) = map_option (\<lambda>n. (n, False)) (getSizeOfStruct fs)"
| "getSizeOfField (Field a g (TypeUnion fs) so sf) = map_option (\<lambda>n. (n, False)) (getUnionSize_from 0 fs)"
| "getSizeOfField (Field a g NoRef so sf) = Some (0, True)"
| "getSizeOfStruct [] = Some 0"
| "getSizeOfStruct (f # fs) =
     (case getSizeOfField f of None \<Rightarrow> None
      | Some (n, isBase) \<Rightarrow>
          map_option (\<lambda>rest. (if isBase then getSizeOfBinapiBaseType (f_Type (fd_api f)) (f_Length (fd_api f)) else n) + rest)
            (getSizeOfStruct fs))"
| "getUnionSize_from m [] = Some m"
| "getUnionSize_from m (f # fs) =
     (case getSizeOfField f of None \<Rightarrow> None
      | Some (n, isBase) \<Rightarrow> if isBase then None else getUnionSize_from (if m < n then n else m) fs)"

definition getUnionSize :: "Field list \<Rightarrow> int option" where
  "getUnionSize = getUnionSize_from 0"

section \<open>Go types\<close>

text \<open>The Go types of the generated declarations; instead of its name, a declared type has what it stands for.\<close>

datatype gotype = TBase string | TNamed gotype | TArr nat gotype | TSlice gotype | TStruct "(string \<times> gotype) list"

definition fieldUnionData :: string where "fieldUnionData = ''XXX_UnionData''"

text \<open>
  The type of the elements of a field, and of the field. Only a base type prints as \<open>uint8\<close> or
  \<open>string\<close>. The fields of a struct are those of its declaration.
\<close>

fun fieldGoType :: "Field \<Rightarrow> gotype option"
  and getFieldType :: "Field \<Rightarrow> gotype option"
  and structGoType :: "Field list \<Rightarrow> (string \<times> gotype) list option" where
  "fieldGoType (Field a g (TypeAlias t n st) so sf) =
     (case (case st of Some fs \<Rightarrow> map_option (TNamed \<circ> TStruct) (structGoType fs) | None \<Rightarrow> if is_base t then Some (TBase t) else None) of
        None \<Rightarrow> None | Some ty \<Rightarrow> Some (TNamed (if 0 < n then TArr (nat n) ty else ty)))"
| "fieldGoType (Field a g (TypeEnum t) so sf) = (if is_base t then Some (TNamed (TBase t)) else None)"
| "fieldGoType (Field a g (TypeStruct fs) so sf) = map_option (TNamed \<circ> TStruct) (structGoType fs)"
| "fieldGoType (Field a g (TypeUnion fs) so sf) =
     map_option (\<lambda>n. TNamed (TStruct [(fieldUnionData, TArr (nat n) (TBase ''u8''))])) (getUnionSize fs)"
| "fieldGoType (Field a g NoRef so sf) = (if is_base (f_Type a) then Some (TBase (f_Type a)) else None)"
| "getFieldType (Field a g r so sf) =
     (case fieldGoType (Field a g r so sf) of None \<Rightarrow> None
      | Some ty \<Rightarrow>
          Some (if f_Array a
            then if ty = TBase ''u8'' then TSlice ty
                 else if ty = TBase ''string'' then ty
                 else if \<not> is_base (f_Type a) \<and> 0 < f_Length a then TArr (nat (f_Length a)) ty
                 else TSlice ty
            else ty))"
| "structGoType [] = Some []"
| "structGoType (f # fs) =
     (case getFieldType f of None \<Rightarrow> None | Some ty \<Rightarrow> map_option (\<lambda>tys. (fd_GoName f, ty) # tys) (structGoType fs))"

end
