(* ===== verification/GenNames.thy ===== *)
theory GenNames
  imports GovppPrelude
begin

text \<open>
  Strings of the generator: Go names of fields, messages and types (\<open>binapigen/strings.go\<close>), names of
  types and imports, and comments (\<open>binapigen/types.go\<close>, \<open>binapigen/vppapi.go\<close>). Names are
  ASCII. Title-casing is a function of a package that is not part of the repository; it is the argument
  \<open>title\<close>.
\<close>

section \<open>Strings\<close>

text \<open>More functions of the packages \<open>strings\<close> and \<open>unicode\<close>.\<close>

definition is_lower :: "char \<Rightarrow> bool" where
  "is_lower c \<longleftrightarrow> (let n = of_char c :: nat in 97 \<le> n \<and> n \<le> 122)"

definition is_upper :: "char \<Rightarrow> bool" where
  "is_upper c \<longleftrightarrow> (let n = of_char c :: nat in 65 \<le> n \<and> n \<le> 90)"

definition is_digit :: "char \<Rightarrow> bool" where
  "is_digit c \<longleftrightarrow> (let n = of_char c :: nat in 48 \<le> n \<and> n \<le> 57)"

definition to_upper :: "char \<Rightarrow> char" where
  "to_upper c = (if is_lower c then char_of (of_char c - 32 :: nat) else c)"

definition to_lower :: "char \<Rightarrow> char" where
  "to_lower c = (if is_upper c then char_of (of_char c + 32 :: nat) else c)"

text \<open>\<open>ReplaceAll s p r\<close> for a non-empty \<open>p\<close>.\<close>

function ReplaceAll :: "string \<Rightarrow> string \<Rightarrow> string \<Rightarrow> string" where
  "ReplaceAll s p r =
     (if s = [] then [] else if p \<noteq> [] \<and> take (length p) s = p then r @ ReplaceAll (drop (length p) s) p r else hd s # ReplaceAll (tl s) p r)"
  by pat_completeness auto
termination by (relation "measure (length \<circ> fst)") (auto simp: diff_less)

declare ReplaceAll.simps [simp del]

definition is_space :: "char \<Rightarrow> bool" where
  "is_space c \<longleftrightarrow> (let n = of_char c :: nat in n = 32 \<or> 9 \<le> n \<and> n \<le> 13)"

definition TrimSpace :: "string \<Rightarrow> string" where
  "TrimSpace s = rev (dropWhile is_space (rev (dropWhile is_space s)))"

text \<open>\<open>Split s sep\<close> for a separator of one character.\<close>

fun Split :: "string \<Rightarrow> char \<Rightarrow> string list" where
  "Split [] sep = [[]]"
| "Split (c # s) sep = (if c = sep then [] # Split s sep else case Split s sep of w # ws \<Rightarrow> (c # w) # ws | [] \<Rightarrow> [[c]])"

definition newline :: string where "newline = [char_of (10 :: nat)]"

section \<open>Go names\<close>

definition commonInitialisms :: "string list" where
  "commonInitialisms =
     [''ACL'', ''API'', ''CPU'', ''CSS'', ''DNS'', ''DHCP'', ''EOF'', ''GUID'', ''HTML'', ''HTTP'', ''HTTPS'', ''ID'', ''IP'', ''ICMP'',
      ''JSON'', ''LHS'', ''QPS'', ''PID'', ''RAM'', ''RHS'', ''RPC'', ''SLA'', ''SMTP'', ''SQL'', ''SSH'', ''TCP'', ''TLS'', ''TTL'', ''UDP'',
      ''UI'', ''UID'', ''UUID'', ''URI'', ''URL'', ''UTF8'', ''VM'', ''VPN'', ''XML'', ''XMPP'', ''XSRF'', ''XSS'']"

definition usesInitialism :: "string \<Rightarrow> string" where
  "usesInitialism s =
     (let u = map to_upper s in if u \<in> set commonInitialisms then u else if u = ''IPV'' then ''IPv'' else [])"

text \<open>The length of the run of underscores behind position \<open>i\<close>; \<open>n\<close> of them are known.\<close>

function underscores :: "string \<Rightarrow> nat \<Rightarrow> nat \<Rightarrow> nat" where
  "underscores runes i n = (if i + n + 1 < length runes \<and> runes ! (i + n + 1) = CHR ''_'' then underscores runes i (n + 1) else n)"
  by pat_completeness auto
termination by (relation "measure (\<lambda>(runes, i, n). length runes - n)") auto

declare underscores.simps [simp del]

text \<open>One round of the scan at position \<open>i\<close>: the runes without the underscores, and if a word ends here.\<close>

definition end_of_word :: "string \<Rightarrow> nat \<Rightarrow> string \<times> bool" where
  "end_of_word runes i =
     (if i + 1 = length runes then (runes, True)
      else if runes ! (i + 1) = CHR ''_'' then
        (let n = underscores runes i 1;
             n' = (if i + n + 1 < length runes \<and> is_digit (runes ! i) \<and> is_digit (runes ! (i + n + 1)) then n - 1 else n) in
         (take (i + 1) runes @ drop (i + n' + 1) runes, True))
      else (runes, is_lower (runes ! i) \<and> \<not> is_lower (runes ! (i + 1))))"

text \<open>The word from \<open>w\<close> up to \<open>i\<close> in its final case.\<close>

definition word_case :: "string \<Rightarrow> nat \<Rightarrow> nat \<Rightarrow> string" where
  "word_case runes w i =
     (let word = take (i - w) (drop w runes); u = usesInitialism word in
      if u \<noteq> [] then put_at w (if w = 0 \<and> is_lower (runes ! w) then map to_lower u else u) runes
      else if 0 < w \<and> map to_lower word = word then runes[w := to_upper (runes ! w)]
      else runes)"

lemma length_end_of_word: "i < length runes \<Longrightarrow> length (fst (end_of_word runes i)) \<le> length runes"
  by (auto simp: end_of_word_def Let_def)

lemma length_usesInitialism: "usesInitialism s \<noteq> [] \<Longrightarrow> length (usesInitialism s) = length s"
  by (auto simp: usesInitialism_def Let_def split: if_splits dest: arg_cong [of _ _ length])

lemma length_word_case: "w \<le> i \<Longrightarrow> i \<le> length runes \<Longrightarrow> length (word_case runes w i) = length runes"
  by (auto simp: word_case_def Let_def put_at_def length_usesInitialism)

text \<open>A word never gets longer, so the scan ends.\<close>

lemma length_word_case_le: "length (word_case runes w i) \<le> max (length runes) i"
proof (cases "w \<le> length runes")
  case True
  then show ?thesis by (cases "i \<le> length runes") (auto simp: word_case_def Let_def put_at_def length_usesInitialism)
next
  case False
  then show ?thesis by (auto simp: word_case_def Let_def put_at_def usesInitialism_def commonInitialisms_def)
qed

lemma end_of_word_le: "end_of_word runes i = (runes', eow) \<Longrightarrow> i < length runes \<Longrightarrow> length runes' \<le> length runes"
  using length_end_of_word [of i runes] by simp

lemma word_case_end:
  assumes "end_of_word runes i = (runes', eow)" "i < length runes"
  shows "length (word_case runes' w (Suc i)) - Suc i < length runes - i"
  using end_of_word_le [OF assms] length_word_case_le [of runes' w "Suc i"] assms(2) by linarith

function camel_loop :: "string \<Rightarrow> nat \<Rightarrow> nat \<Rightarrow> string" where
  "camel_loop runes w i =
     (if i + 1 \<le> length runes then
        (case end_of_word runes i of (runes', eow) \<Rightarrow>
           if eow then camel_loop (word_case runes' w (i + 1)) (i + 1) (i + 1) else camel_loop runes' w (i + 1))
      else runes)"
  by pat_completeness auto

termination
proof (relation "measure (\<lambda>(runes, w, i). length runes - i)")
  fix runes runes' :: string and w i eow
  assume "i + 1 \<le> length runes" "(runes', eow) = end_of_word runes i"
  then have e: "end_of_word runes i = (runes', eow)" "i < length runes" by auto
  show "((word_case runes' w (i + 1), i + 1, i + 1), runes, w, i) \<in> measure (\<lambda>(runes, w, i). length runes - i)"
    using word_case_end [OF e] by simp
  show "((runes', w, i + 1), runes, w, i) \<in> measure (\<lambda>(runes, w, i). length runes - i)"
    using end_of_word_le [OF e] e(2) by simp
qed simp

declare camel_loop.simps [simp del]

definition camelCaseName :: "(string \<Rightarrow> string) \<Rightarrow> string \<Rightarrow> string" where
  "camelCaseName title name =
     (let name = title name in
      if name = ''_'' then name else if list_all is_lower name then name else camel_loop name 0 0)"

section \<open>Names of types and imports\<close>

definition fromApiType :: "string \<Rightarrow> string" where
  "fromApiType typ = TrimSuffix (TrimPrefix typ ''vl_api_'') ''_t''"

definition normalizeCRC :: "string \<Rightarrow> string" where
  "normalizeCRC crc = TrimPrefix crc ''0x''"

text \<open>\<open>path.Base\<close>: the part behind the last slash, trailing slashes aside.\<close>

definition path_Base :: "string \<Rightarrow> string" where
  "path_Base p =
     (if p = [] then ''.''
      else let q = rev (dropWhile (\<lambda>c. c = CHR ''/'') (rev p)) in
        if q = [] then ''/'' else rev (takeWhile (\<lambda>c. c \<noteq> CHR ''/'') (rev q)))"

text \<open>
  Names of packages; bytes beyond ASCII are taken for letters. They matter for message names only that
  begin with the name of their package and a dot.
\<close>

definition go_keywords :: "string list" where
  "go_keywords =
     [''break'', ''case'', ''chan'', ''const'', ''continue'', ''default'', ''defer'', ''else'', ''fallthrough'', ''for'', ''func'', ''go'',
      ''goto'', ''if'', ''import'', ''interface'', ''map'', ''package'', ''range'', ''return'', ''select'', ''struct'', ''switch'', ''type'', ''var'']"

definition starts_with_letter :: "string \<Rightarrow> bool" where
  "starts_with_letter s = (case s of [] \<Rightarrow> False | c # _ \<Rightarrow> is_lower c \<or> is_upper c \<or> 128 \<le> (of_char c :: nat))"

definition sanitizedName :: "string \<Rightarrow> string" where
  "sanitizedName s = (if s \<in> set go_keywords \<or> \<not> starts_with_letter s then s @ ''s'' else s)"

definition cleanPackageName :: "string \<Rightarrow> string" where
  "cleanPackageName name = sanitizedName name"

definition newGoIdent :: "(string \<Rightarrow> string) \<Rightarrow> string \<Rightarrow> string \<Rightarrow> string" where
  "newGoIdent title packageName fullName = camelCaseName title (TrimPrefix fullName (packageName @ ''.''))"

definition normalizeImport :: "string \<Rightarrow> string" where
  "normalizeImport imp = takeWhile (\<lambda>c. c \<noteq> CHR ''.'') (path_Base imp)"

section \<open>Comments\<close>

definition CleanMessageComment :: "string \<Rightarrow> string" where
  "CleanMessageComment comment =
     TrimSpace (ReplaceAll (ReplaceAll (ReplaceAll (TrimSuffix (TrimSuffix (TrimPrefix comment ''/**'') '' */'') ''*/'')
       [CHR 0x5C, CHR 0x5C, CHR ''b'', CHR ''r'', CHR ''i'', CHR ''e'', CHR ''f''] [])
       [CHR 0x5C, CHR ''b'', CHR ''r'', CHR ''i'', CHR ''e'', CHR ''f''] []) ''@param'' ''-'')"

definition StripMessageCommentFields :: "string \<Rightarrow> string list \<Rightarrow> string" where
  "StripMessageCommentFields comment dropped =
     TrimSuffix
       (concat (map (\<lambda>line. line @ newline)
          (filter (\<lambda>line. TrimSpace line \<noteq> [] \<and> \<not> list_ex (\<lambda>f. Contains line ('' - '' @ f)) dropped) (Split comment (char_of (10 :: nat))))))
       newline"

end
