(* ===== verification/GenSchema.thy ===== *)
theory GenSchema
  imports GenTypes GenNames
begin

text \<open>
  API files as they are parsed (\<open>binapigen/vppapi/api_schema.go\<close>) and their objects in the generator
  (\<open>binapigen/binapigen.go\<close>): enums, aliases, structs, unions and messages live in a store of the
  \<open>Generator\<close>, one list per kind, and are found by name through its maps; a pointer to an object is its
  position. \<open>newFile\<close> adds the objects of a file and then resolves the references of its fields. Options
  of fields and comments of files are left out, as are import paths, which matter in
  printed code only.
\<close>

section \<open>API files\<close>

record AliasType =
  al_Name :: string
  al_Type :: string
  al_Length :: int

record EnumType =
  en_Name :: string
  en_Type :: string
  en_Entries :: "(string \<times> u32) list"

text \<open>The type \<open>UnionType\<close> has the same fields.\<close>

record StructType =
  ty_Name :: string
  ty_Fields :: "ApiField list"

record ApiMessage =
  m_Name :: string
  m_Fields :: "ApiField list"
  m_CRC :: string
  m_Options :: "string \<rightharpoonup> string"
  m_Comment :: string

record ApiRPC =
  rpc_Request :: string
  rpc_Reply :: string
  rpc_Stream :: bool
  rpc_StreamMsg :: string
  rpc_Events :: "string list"

record ApiFile =
  af_Name :: string
  af_Path :: string
  af_CRC :: string
  af_Options :: "(string \<rightharpoonup> string) option"
  af_Imports :: "string list"
  af_AliasTypes :: "AliasType list"
  af_EnumTypes :: "EnumType list"
  af_EnumflagTypes :: "EnumType list"
  af_StructTypes :: "StructType list"
  af_UnionTypes :: "StructType list"
  af_Messages :: "ApiMessage list"
  af_Service :: "ApiRPC list option"

text \<open>Looking up a key of a Go map that may be nil; an absent key gives the empty string.\<close>

definition option_value :: "(string \<rightharpoonup> string) option \<Rightarrow> string \<Rightarrow> string" where
  "option_value opts k = (case opts of None \<Rightarrow> [] | Some m \<Rightarrow> (case m k of None \<Rightarrow> [] | Some v \<Rightarrow> v))"

section \<open>Objects of the generator\<close>

text \<open>The type of a field is at most one of four pointers; fields of the same parent are their positions.\<close>

datatype type_ptr = PEnum nat | PAlias nat | PStruct nat | PUnion nat

record FieldObj =
  o_api :: ApiField
  o_GoName :: string
  o_Type :: "type_ptr option"
  o_SizeOf :: "nat option"
  o_SizeFrom :: "nat option"

record Enum =
  e_Type :: EnumType
  e_GoName :: string
  e_IsFlag :: bool

record Alias =
  a_Type :: AliasType
  a_GoName :: string
  a_Struct :: "nat option"
  a_Union :: "nat option"

text \<open>Structs and unions.\<close>

record Struct =
  s_Type :: StructType
  s_GoName :: string
  s_Fields :: "FieldObj list"

datatype msgType = msgTypeBase | msgTypeRequest | msgTypeReply | msgTypeEvent

record Message =
  msg_api :: ApiMessage
  msg_CRC :: string
  msg_Comment :: string
  msg_GoName :: string
  msg_Fields :: "FieldObj list"
  msg_msgType :: msgType

record RPC =
  rpc_VPP :: ApiRPC
  rpc_GoName :: string
  rpc_MsgRequest :: "nat option"
  rpc_MsgReply :: "nat option"
  rpc_MsgStream :: "nat option"

record File =
  file_Desc :: ApiFile
  file_Generate :: bool
  file_Version :: string
  file_Imports :: "string list"
  file_Enums :: "nat list"
  file_Unions :: "nat list"
  file_Structs :: "nat list"
  file_Aliases :: "nat list"
  file_Messages :: "nat list"
  file_Service :: "RPC list option"

record Generator =
  g_enums :: "Enum list"
  g_aliases :: "Alias list"
  g_structs :: "Struct list"
  g_unions :: "Struct list"
  g_messages :: "Message list"
  enumsByName :: "string \<rightharpoonup> nat"
  aliasesByName :: "string \<rightharpoonup> nat"
  structsByName :: "string \<rightharpoonup> nat"
  unionsByName :: "string \<rightharpoonup> nat"
  messagesByName :: "string \<rightharpoonup> nat"
  g_Files :: "File list"
  FilesByName :: "string \<rightharpoonup> nat"
  FilesByPath :: "string \<rightharpoonup> nat"

section \<open>New objects\<close>

definition newField :: "(string \<Rightarrow> string) \<Rightarrow> ApiField \<Rightarrow> FieldObj" where
  "newField title f = \<lparr>o_api = f, o_GoName = camelCaseName title (f_Name f), o_Type = None, o_SizeOf = None, o_SizeFrom = None\<rparr>"

definition newEnum :: "(string \<Rightarrow> string) \<Rightarrow> bool \<Rightarrow> EnumType \<Rightarrow> Generator \<Rightarrow> nat \<times> Generator" where
  "newEnum title isFlag t g =
     (let i = length (g_enums g) in
      (i, g\<lparr>g_enums := g_enums g @ [\<lparr>e_Type = t, e_GoName = camelCaseName title (en_Name t), e_IsFlag = isFlag\<rparr>],
            enumsByName := (enumsByName g)(en_Name t \<mapsto> i)\<rparr>))"

definition newAlias :: "(string \<Rightarrow> string) \<Rightarrow> AliasType \<Rightarrow> Generator \<Rightarrow> nat \<times> Generator" where
  "newAlias title t g =
     (let i = length (g_aliases g) in
      (i, g\<lparr>g_aliases := g_aliases g @ [\<lparr>a_Type = t, a_GoName = camelCaseName title (al_Name t), a_Struct = None, a_Union = None\<rparr>],
            aliasesByName := (aliasesByName g)(al_Name t \<mapsto> i)\<rparr>))"

definition newStruct :: "(string \<Rightarrow> string) \<Rightarrow> StructType \<Rightarrow> Generator \<Rightarrow> nat \<times> Generator" where
  "newStruct title t g =
     (let i = length (g_structs g) in
      (i, g\<lparr>g_structs := g_structs g @
              [\<lparr>s_Type = t, s_GoName = camelCaseName title (ty_Name t), s_Fields = map (newField title) (ty_Fields t)\<rparr>],
            structsByName := (structsByName g)(ty_Name t \<mapsto> i)\<rparr>))"

definition withSuffix :: "string \<Rightarrow> string \<Rightarrow> string" where
  "withSuffix s suffix = (if HasSuffix s suffix then s else s @ suffix)"

definition newUnion :: "(string \<Rightarrow> string) \<Rightarrow> StructType \<Rightarrow> Generator \<Rightarrow> nat \<times> Generator" where
  "newUnion title t g =
     (let i = length (g_unions g) in
      (i, g\<lparr>g_unions := g_unions g @
              [\<lparr>s_Type = t, s_GoName = withSuffix (camelCaseName title (ty_Name t)) ''Union'',
                s_Fields = map (newField title) (ty_Fields t)\<rparr>],
            unionsByName := (unionsByName g)(ty_Name t \<mapsto> i)\<rparr>))"

text \<open>The fields of a message without the header fields it begins with.\<close>

definition is_header :: "ApiField \<Rightarrow> bool" where
  "is_header f \<longleftrightarrow> map to_lower (f_Name f) \<in> {''_vl_msg_id'', ''client_index'', ''context''}"

definition newMessage :: "(string \<Rightarrow> string) \<Rightarrow> string \<Rightarrow> ApiMessage \<Rightarrow> Generator \<Rightarrow> nat \<times> Generator" where
  "newMessage title packageName t g =
     (let i = length (g_messages g) in
      (i, g\<lparr>g_messages := g_messages g @
              [\<lparr>msg_api = t, msg_CRC = normalizeCRC (m_CRC t),
                msg_Comment = StripMessageCommentFields (CleanMessageComment (m_Comment t)) [''context'', ''client_index''],
                msg_GoName = newGoIdent title packageName (m_Name t),
                msg_Fields = map (newField title) (dropWhile is_header (m_Fields t)), msg_msgType = msgTypeBase\<rparr>],
            messagesByName := (messagesByName g)(m_Name t \<mapsto> i)\<rparr>))"

fun new_all :: "('a \<Rightarrow> Generator \<Rightarrow> nat \<times> Generator) \<Rightarrow> 'a list \<Rightarrow> Generator \<Rightarrow> nat list \<times> Generator" where
  "new_all f [] g = ([], g)"
| "new_all f (x # xs) g = (let (i, g) = f x g; (is, g) = new_all f xs g in (i # is, g))"

section \<open>Resolving references\<close>

text \<open>The first error of a list of steps, or all results.\<close>

fun all_or_error :: "('a \<Rightarrow> gerr + 'b) \<Rightarrow> 'a list \<Rightarrow> gerr + 'b list" where
  "all_or_error f [] = Inr []"
| "all_or_error f (x # xs) =
     (case f x of Inl e \<Rightarrow> Inl e | Inr y \<Rightarrow> (case all_or_error f xs of Inl e \<Rightarrow> Inl e | Inr ys \<Rightarrow> Inr (y # ys)))"

definition find_type :: "Generator \<Rightarrow> string \<Rightarrow> type_ptr option" where
  "find_type g n =
     (case structsByName g n of Some i \<Rightarrow> Some (PStruct i)
      | None \<Rightarrow> (case enumsByName g n of Some i \<Rightarrow> Some (PEnum i)
      | None \<Rightarrow> (case aliasesByName g n of Some i \<Rightarrow> Some (PAlias i)
      | None \<Rightarrow> map_option PUnion (unionsByName g n))))"

definition resolveType :: "Generator \<Rightarrow> string \<Rightarrow> gerr + type_ptr option" where
  "resolveType g t =
     (if is_base t then Inr None
      else case find_type g (fromApiType t) of Some p \<Rightarrow> Inr (Some p) | None \<Rightarrow> Inl (ErrMsg ''unknown type: ''))"

text \<open>The first field that satisfies a condition.\<close>

fun find_index :: "('a \<Rightarrow> bool) \<Rightarrow> 'a list \<Rightarrow> nat option" where
  "find_index P [] = None"
| "find_index P (x # xs) = (if P x then Some 0 else map_option Suc (find_index P xs))"

definition resolveFields :: "FieldObj list \<Rightarrow> FieldObj \<Rightarrow> FieldObj" where
  "resolveFields fs f =
     (if f_SizeFrom (o_api f) \<noteq> '''' then f\<lparr>o_SizeFrom := find_index (\<lambda>x. f_Name (o_api x) = f_SizeFrom (o_api f)) fs\<rparr>
      else f\<lparr>o_SizeOf := find_index (\<lambda>x. f_SizeFrom (o_api x) = f_Name (o_api f)) fs\<rparr>)"

text \<open>For a field of a union, there are no fields to look among.\<close>

definition field_resolveDependencies :: "Generator \<Rightarrow> FieldObj list \<Rightarrow> FieldObj \<Rightarrow> gerr + FieldObj" where
  "field_resolveDependencies g fs f =
     (case resolveType g (f_Type (o_api f)) of
        Inl e \<Rightarrow> Inl (ErrWrap ''unable to resolve field type: '' e)
      | Inr p \<Rightarrow> Inr (resolveFields fs (f\<lparr>o_Type := p\<rparr>)))"

definition alias_resolveType :: "Generator \<Rightarrow> Alias \<Rightarrow> gerr + Alias" where
  "alias_resolveType g a =
     (if is_base (al_Type (a_Type a)) then Inr a
      else let n = fromApiType (al_Type (a_Type a)) in
        case structsByName g n of Some i \<Rightarrow> Inr (a\<lparr>a_Struct := Some i\<rparr>)
        | None \<Rightarrow> (case unionsByName g n of Some i \<Rightarrow> Inr (a\<lparr>a_Union := Some i\<rparr>) | None \<Rightarrow> Inl (ErrMsg ''unknown type: '')))"

definition alias_resolve :: "Generator \<Rightarrow> nat \<Rightarrow> gerr + Generator" where
  "alias_resolve g i =
     (case alias_resolveType g (g_aliases g ! i) of
        Inl e \<Rightarrow> Inl (ErrWrap ''unable to resolve field: '' e) | Inr a \<Rightarrow> Inr (g\<lparr>g_aliases := (g_aliases g)[i := a]\<rparr>))"

definition struct_resolve :: "Generator \<Rightarrow> nat \<Rightarrow> gerr + Generator" where
  "struct_resolve g i =
     (let s = g_structs g ! i in
      case all_or_error (field_resolveDependencies g (s_Fields s)) (s_Fields s) of
        Inl e \<Rightarrow> Inl (ErrWrap ''unable to resolve for struct '' e)
      | Inr fs \<Rightarrow> Inr (g\<lparr>g_structs := (g_structs g)[i := s\<lparr>s_Fields := fs\<rparr>]\<rparr>))"

definition union_resolve :: "Generator \<Rightarrow> nat \<Rightarrow> gerr + Generator" where
  "union_resolve g i =
     (let u = g_unions g ! i in
      case all_or_error (field_resolveDependencies g []) (s_Fields u) of
        Inl e \<Rightarrow> Inl e
      | Inr fs \<Rightarrow> Inr (g\<lparr>g_unions := (g_unions g)[i := u\<lparr>s_Fields := fs\<rparr>]\<rparr>))"

text \<open>The kind of a message, by its first three fields.\<close>

definition getMsgType :: "ApiField list \<Rightarrow> gerr + msgType" where
  "getMsgType fs =
     (if fs = [] then Inl (ErrMsg ''message has no fields'')
      else if f_Name (fs ! 0) \<noteq> ''_vl_msg_id'' then Inl (ErrMsg ''message is missing ID field'')
      else if length fs \<le> 1 then Inr msgTypeBase
      else if f_Name (fs ! 1) = ''client_index'' then
        Inr (if 2 < length fs \<and> f_Name (fs ! 2) = ''context'' then msgTypeRequest else msgTypeEvent)
      else if f_Name (fs ! 1) = ''context'' then Inr msgTypeReply
      else Inr msgTypeBase)"

definition message_resolve :: "Generator \<Rightarrow> nat \<Rightarrow> gerr + Generator" where
  "message_resolve g i =
     (let m = g_messages g ! i in
      case getMsgType (m_Fields (msg_api m)) of
        Inl e \<Rightarrow> Inl e
      | Inr typ \<Rightarrow>
          (case all_or_error (field_resolveDependencies g (msg_Fields m)) (msg_Fields m) of
             Inl e \<Rightarrow> Inl e
           | Inr fs \<Rightarrow> Inr (g\<lparr>g_messages := (g_messages g)[i := m\<lparr>msg_Fields := fs, msg_msgType := typ\<rparr>]\<rparr>)))"

fun resolve_all :: "(Generator \<Rightarrow> nat \<Rightarrow> gerr + Generator) \<Rightarrow> Generator \<Rightarrow> nat list \<Rightarrow> gerr + Generator" where
  "resolve_all f g [] = Inr g"
| "resolve_all f g (i # is) = (case f g i of Inl e \<Rightarrow> Inl e | Inr g \<Rightarrow> resolve_all f g is)"

section \<open>Services\<close>

definition newRpc :: "(string \<Rightarrow> string) \<Rightarrow> ApiRPC \<Rightarrow> RPC" where
  "newRpc title r =
     \<lparr>rpc_VPP = r, rpc_GoName = camelCaseName title (rpc_Request r), rpc_MsgRequest = None, rpc_MsgReply = None, rpc_MsgStream = None\<rparr>"

definition resolveMessages :: "Generator \<Rightarrow> RPC \<Rightarrow> gerr + RPC" where
  "resolveMessages g r =
     (let v = rpc_VPP r;
          reply = (if rpc_Reply v \<noteq> '''' \<and> rpc_Reply v \<noteq> ''null'' then Some (rpc_Reply v) else None);
          stream = (if rpc_StreamMsg v \<noteq> '''' then Some (rpc_StreamMsg v) else None) in
      case messagesByName g (rpc_Request v) of
        None \<Rightarrow> Inl (ErrMsg ''no message for request type'')
      | Some req \<Rightarrow>
          if (case reply of None \<Rightarrow> False | Some n \<Rightarrow> messagesByName g n = None) then Inl (ErrMsg ''no message for reply type'')
          else if (case stream of None \<Rightarrow> False | Some n \<Rightarrow> messagesByName g n = None) then Inl (ErrMsg ''no message for stream type'')
          else Inr (r\<lparr>rpc_MsgRequest := Some req, rpc_MsgReply := Option.bind reply (messagesByName g),
                     rpc_MsgStream := Option.bind stream (messagesByName g)\<rparr>))"

section \<open>Files\<close>

text \<open>Registering the objects of a file.\<close>

definition add_objects :: "(string \<Rightarrow> string) \<Rightarrow> string \<Rightarrow> ApiFile \<Rightarrow> Generator \<Rightarrow> File \<times> Generator" where
  "add_objects title packageName af g =
     (let (es, g) = new_all (newEnum title False) (af_EnumTypes af) g;
          (fs, g) = new_all (newEnum title True) (af_EnumflagTypes af) g;
          (as, g) = new_all (newAlias title) (af_AliasTypes af) g;
          (ss, g) = new_all (newStruct title) (af_StructTypes af) g;
          (us, g) = new_all (newUnion title) (af_UnionTypes af) g;
          (ms, g) = new_all (newMessage title packageName) (af_Messages af) g in
      (\<lparr>file_Desc = af, file_Generate = False, file_Version = option_value (af_Options af) ''version'',
        file_Imports = map normalizeImport (af_Imports af), file_Enums = es @ fs, file_Unions = us, file_Structs = ss,
        file_Aliases = as, file_Messages = ms, file_Service = map_option (map (newRpc title)) (af_Service af)\<rparr>, g))"

text \<open>Resolving its references, in the order of the code; the first error ends it.\<close>

definition resolve_objects :: "File \<Rightarrow> Generator \<Rightarrow> gerr + Generator" where
  "resolve_objects file g =
     (case resolve_all alias_resolve g (file_Aliases file) of Inl e \<Rightarrow> Inl e | Inr g \<Rightarrow>
     (case resolve_all struct_resolve g (file_Structs file) of Inl e \<Rightarrow> Inl e | Inr g \<Rightarrow>
     (case resolve_all union_resolve g (file_Unions file) of Inl e \<Rightarrow> Inl e | Inr g \<Rightarrow>
      resolve_all message_resolve g (file_Messages file))))"

definition newFile :: "(string \<Rightarrow> string) \<Rightarrow> string \<Rightarrow> Generator \<Rightarrow> ApiFile \<Rightarrow> gerr + File \<times> Generator" where
  "newFile title packageName g af =
     (case add_objects title packageName af g of (file, g) \<Rightarrow>
      case resolve_objects file g of Inl e \<Rightarrow> Inl e
      | Inr g \<Rightarrow>
          (case file_Service file of None \<Rightarrow> Inr (file, g)
           | Some rpcs \<Rightarrow>
               (case all_or_error (resolveMessages g) rpcs of Inl e \<Rightarrow> Inl e
                | Inr rpcs \<Rightarrow> Inr (file\<lparr>file_Service := Some rpcs\<rparr>, g))))"

definition IsStable :: "File \<Rightarrow> bool" where
  "IsStable f \<longleftrightarrow> 1 < length (file_Version f) \<and> take 2 (file_Version f) \<noteq> ''0.''"

section \<open>The fields the code generators see\<close>

text \<open>
  The store unfolded from a pointer, as a tree; the number bounds its depth. Without such a bound the
  recursion of the generators over the types does not end.
\<close>

definition field_of :: "(type_ptr \<Rightarrow> TypeRef option) \<Rightarrow> FieldObj list \<Rightarrow> FieldObj \<Rightarrow> Field option" where
  "field_of tree fs f =
     map_option (\<lambda>r. Field (o_api f) (o_GoName f) r (map_option (\<lambda>i. o_GoName (fs ! i)) (o_SizeOf f))
         (map_option (\<lambda>i. o_GoName (fs ! i)) (o_SizeFrom f)))
       (case o_Type f of None \<Rightarrow> Some NoRef | Some p \<Rightarrow> tree p)"

definition fields_of :: "(type_ptr \<Rightarrow> TypeRef option) \<Rightarrow> FieldObj list \<Rightarrow> Field list option" where
  "fields_of tree fs = those (map (field_of tree fs) fs)"

fun tree_of :: "Generator \<Rightarrow> nat \<Rightarrow> type_ptr \<Rightarrow> TypeRef option" where
  "tree_of g 0 p = None"
| "tree_of g (Suc n) (PEnum i) = Some (TypeEnum (en_Type (e_Type (g_enums g ! i))))"
| "tree_of g (Suc n) (PAlias i) =
     (let a = g_aliases g ! i; alias = TypeAlias (al_Type (a_Type a)) (al_Length (a_Type a)) in
      case a_Struct a of None \<Rightarrow> Some (alias None)
      | Some s \<Rightarrow> map_option (\<lambda>fs. alias (Some fs)) (fields_of (tree_of g n) (s_Fields (g_structs g ! s))))"
| "tree_of g (Suc n) (PStruct i) = map_option TypeStruct (fields_of (tree_of g n) (s_Fields (g_structs g ! i)))"
| "tree_of g (Suc n) (PUnion i) = map_option TypeUnion (fields_of (tree_of g n) (s_Fields (g_unions g ! i)))"

definition message_fields :: "Generator \<Rightarrow> nat \<Rightarrow> nat \<Rightarrow> Field list option" where
  "message_fields g n i = fields_of (tree_of g n) (msg_Fields (g_messages g ! i))"

end
