(* ===== verification/GenCode.thy ===== *)
theory GenCode
  imports GenTypes
begin

text \<open>
  The statements of the methods the generator prints (\<open>binapigen/generate_encoding.go\<close>) and what they
  do when they run: a statement adds to the size of a message, writes to the buffer of the codec or
  reads from it. Conversions between integer types of the same width are left out. A run that
  panics, and code that does not compile, are \<open>None\<close>.
\<close>

section \<open>Statements\<close>

text \<open>Loop variables \<open>i\<close>, \<open>j0\<close>, ..., and the variables \<open>x\<close>, \<open>v0\<close>, ... (\<open>s1\<close>, ... in \<open>Size\<close>).\<close>

datatype ivar = I | J nat
datatype lvar = X | V nat
datatype gexpr = M | Loc lvar | Dot gexpr string | At gexpr ivar

text \<open>A constant, the length of a value, or a number.\<close>

datatype count = Const int | Len gexpr | Val gexpr

text \<open>
  \<open>Pick\<close> declares a variable with an element of a list, or the zero value of the type when the list
  is too short. \<open>Unopened\<close> is a block whose loop head is missing.
\<close>

datatype gstmt =
    SizeConst int
  | SizeStr gexpr
  | SizeLen int gexpr
  | SizeMul int int
  | For ivar count "gstmt list"
  | Unopened "gstmt list"
  | Pick lvar gotype gexpr ivar "gstmt list"
  | EncodeVal string gexpr
  | EncodeLen string gexpr
  | EncodeBlob gexpr int
  | EncodeText gexpr int
  | MakeOf gexpr gotype count
  | DecodeVal gexpr string
  | DecodeBlob gexpr count
  | DecodeText gexpr int

section \<open>Values\<close>

text \<open>Slices and arrays of bytes are kept as bytes, other ones as lists.\<close>

datatype gval = GNum int | GBool bool | GFloat float64 | GStr "byte list" | GBytes "byte list" | GList "gval list" | GRec "(string \<times> gval) list"

fun zero_val :: "gotype \<Rightarrow> gval" where
  "zero_val (TBase t) =
     (if t = ''string'' then GStr [] else if t = ''bool'' then GBool False else if t = ''f64'' then GFloat 0 else GNum 0)"
| "zero_val (TNamed ty) = zero_val ty"
| "zero_val (TArr n ty) = (if ty = TBase ''u8'' then GBytes (replicate n 0) else GList (replicate n (zero_val ty)))"
| "zero_val (TSlice ty) = (if ty = TBase ''u8'' then GBytes [] else GList [])"
| "zero_val (TStruct fs) = GRec (map (\<lambda>(n, ty). (n, zero_val ty)) fs)"

fun glen :: "gval \<Rightarrow> nat option" where
  "glen (GStr s) = Some (length s)"
| "glen (GBytes bs) = Some (length bs)"
| "glen (GList vs) = Some (length vs)"
| "glen _ = None"

text \<open>The visible loop variables and locals.\<close>

record genv =
  ix :: "ivar \<Rightarrow> nat"
  lv :: "lvar \<Rightarrow> gval option"

fun eval :: "genv \<Rightarrow> gval \<Rightarrow> gexpr \<Rightarrow> gval option" where
  "eval \<rho> m M = Some m"
| "eval \<rho> m (Loc v) = lv \<rho> v"
| "eval \<rho> m (Dot e f) = (case eval \<rho> m e of Some (GRec r) \<Rightarrow> map_of r f | _ \<Rightarrow> None)"
| "eval \<rho> m (At e i) =
     (case eval \<rho> m e of
        Some (GList vs) \<Rightarrow> if ix \<rho> i < length vs then Some (vs ! ix \<rho> i) else None
      | Some (GBytes bs) \<Rightarrow> if ix \<rho> i < length bs then Some (GNum (uint (bs ! ix \<rho> i))) else None
      | _ \<Rightarrow> None)"

fun set_field :: "string \<Rightarrow> gval \<Rightarrow> (string \<times> gval) list \<Rightarrow> (string \<times> gval) list" where
  "set_field f v [] = []"
| "set_field f v ((g, w) # r) = (if g = f then (g, v) # r else (g, w) # set_field f v r)"

text \<open>The message after an assignment. The generated code assigns to parts of the message only.\<close>

fun assign :: "genv \<Rightarrow> gexpr \<Rightarrow> gval \<Rightarrow> gval \<Rightarrow> gval option" where
  "assign \<rho> M v m = Some v"
| "assign \<rho> (Loc x) v m = None"
| "assign \<rho> (Dot e f) v m =
     (case eval \<rho> m e of Some (GRec r) \<Rightarrow> if f \<in> fst ` set r then assign \<rho> e (GRec (set_field f v r)) m else None | _ \<Rightarrow> None)"
| "assign \<rho> (At e i) v m =
     (case eval \<rho> m e of Some (GList vs) \<Rightarrow> if ix \<rho> i < length vs then assign \<rho> e (GList (vs[ix \<rho> i := v])) m else None | _ \<Rightarrow> None)"

section \<open>Running\<close>

text \<open>The encoders and decoders of the codec by type.\<close>

definition enc_num :: "string \<Rightarrow> int \<Rightarrow> buffer \<Rightarrow> buffer option" where
  "enc_num t n b =
     (if t = ''u8'' then EncodeUint8 (word_of_int n) b else if t = ''i8'' then EncodeInt8 (word_of_int n) b
      else if t = ''u16'' then EncodeUint16 (word_of_int n) b else if t = ''i16'' then EncodeInt16 (word_of_int n) b
      else if t = ''u32'' then EncodeUint32 (word_of_int n) b else if t = ''i32'' then EncodeInt32 (word_of_int n) b
      else if t = ''u64'' then EncodeUint64 (word_of_int n) b else if t = ''i64'' then EncodeInt64 (word_of_int n) b
      else None)"

definition dec_num :: "string \<Rightarrow> buffer \<Rightarrow> (int \<times> buffer) option" where
  "dec_num t b =
     (if t = ''u8'' then map_option (map_prod uint id) (DecodeUint8 b) else if t = ''i8'' then map_option (map_prod sint id) (DecodeInt8 b)
      else if t = ''u16'' then map_option (map_prod uint id) (DecodeUint16 b) else if t = ''i16'' then map_option (map_prod sint id) (DecodeInt16 b)
      else if t = ''u32'' then map_option (map_prod uint id) (DecodeUint32 b) else if t = ''i32'' then map_option (map_prod sint id) (DecodeInt32 b)
      else if t = ''u64'' then map_option (map_prod uint id) (DecodeUint64 b) else if t = ''i64'' then map_option (map_prod sint id) (DecodeInt64 b)
      else None)"

definition enc_val :: "string \<Rightarrow> gval \<Rightarrow> buffer \<Rightarrow> buffer option" where
  "enc_val t v b =
     (case v of GNum n \<Rightarrow> enc_num t n b
      | GBool x \<Rightarrow> if t = ''bool'' then EncodeBool x b else None
      | GFloat x \<Rightarrow> if t = ''f64'' then EncodeFloat64 x b else None
      | _ \<Rightarrow> None)"

definition dec_val :: "string \<Rightarrow> buffer \<Rightarrow> (gval \<times> buffer) option" where
  "dec_val t b =
     (if t = ''bool'' then map_option (map_prod GBool id) (DecodeBool b)
      else if t = ''f64'' then map_option (map_prod GFloat id) (DecodeFloat64 b)
      else map_option (map_prod GNum id) (dec_num t b))"

record gstate =
  st_msg :: gval
  st_buf :: buffer
  st_size :: int

definition count_of :: "genv \<Rightarrow> gval \<Rightarrow> count \<Rightarrow> int option" where
  "count_of \<rho> m c =
     (case c of Const n \<Rightarrow> Some n
      | Len e \<Rightarrow> (case eval \<rho> m e of None \<Rightarrow> None | Some v \<Rightarrow> map_option int (glen v))
      | Val e \<Rightarrow> (case eval \<rho> m e of Some (GNum n) \<Rightarrow> Some n | _ \<Rightarrow> None))"

text \<open>\<open>n\<close> rounds of a loop from \<open>k\<close> on.\<close>

fun loop :: "nat \<Rightarrow> nat \<Rightarrow> (nat \<Rightarrow> 's \<Rightarrow> 's option) \<Rightarrow> 's \<Rightarrow> 's option" where
  "loop k 0 f s = Some s"
| "loop k (Suc n) f s = (case f k s of None \<Rightarrow> None | Some s' \<Rightarrow> loop (Suc k) n f s')"

definition picked :: "genv \<Rightarrow> gval \<Rightarrow> gotype \<Rightarrow> gexpr \<Rightarrow> ivar \<Rightarrow> gval option" where
  "picked \<rho> m ty e i =
     (case eval \<rho> m e of None \<Rightarrow> None
      | Some v \<Rightarrow> (case glen v of None \<Rightarrow> None | Some n \<Rightarrow> if ix \<rho> i < n then eval \<rho> m (At e i) else Some (zero_val ty)))"

definition set_buf :: "gstate \<Rightarrow> buffer option \<Rightarrow> gstate option" where
  "set_buf s = map_option (\<lambda>b. s\<lparr>st_buf := b\<rparr>)"

definition store :: "genv \<Rightarrow> gexpr \<Rightarrow> gstate \<Rightarrow> (gval \<times> buffer) option \<Rightarrow> gstate option" where
  "store \<rho> e s r =
     (case r of None \<Rightarrow> None | Some (v, b) \<Rightarrow> map_option (\<lambda>m. s\<lparr>st_msg := m, st_buf := b\<rparr>) (assign \<rho> e v (st_msg s)))"

fun run :: "genv \<Rightarrow> gstmt \<Rightarrow> gstate \<Rightarrow> gstate option"
  and runs :: "genv \<Rightarrow> gstmt list \<Rightarrow> gstate \<Rightarrow> gstate option" where
  "run \<rho> (SizeConst n) s = Some (s\<lparr>st_size := st_size s + n\<rparr>)"
| "run \<rho> (SizeStr e) s =
     (case eval \<rho> (st_msg s) e of Some (GStr v) \<Rightarrow> Some (s\<lparr>st_size := st_size s + 4 + int (length v)\<rparr>) | _ \<Rightarrow> None)"
| "run \<rho> (SizeLen n e) s = map_option (\<lambda>k. s\<lparr>st_size := st_size s + n * k\<rparr>) (count_of \<rho> (st_msg s) (Len e))"
| "run \<rho> (SizeMul n k) s = Some (s\<lparr>st_size := st_size s + n * k\<rparr>)"
| "run \<rho> (For i c body) s =
     (case count_of \<rho> (st_msg s) c of None \<Rightarrow> None
      | Some n \<Rightarrow> loop 0 (nat n) (\<lambda>k. runs (\<rho>\<lparr>ix := (ix \<rho>)(i := k)\<rparr>) body) s)"
| "run \<rho> (Unopened body) s = None"
| "run \<rho> (Pick x ty e i body) s =
     (case picked \<rho> (st_msg s) ty e i of None \<Rightarrow> None | Some v \<Rightarrow> runs (\<rho>\<lparr>lv := (lv \<rho>)(x \<mapsto> v)\<rparr>) body s)"
| "run \<rho> (EncodeVal t e) s = set_buf s (case eval \<rho> (st_msg s) e of None \<Rightarrow> None | Some v \<Rightarrow> enc_val t v (st_buf s))"
| "run \<rho> (EncodeLen t e) s = set_buf s (case count_of \<rho> (st_msg s) (Len e) of None \<Rightarrow> None | Some n \<Rightarrow> enc_num t n (st_buf s))"
| "run \<rho> (EncodeBlob e n) s = set_buf s (case eval \<rho> (st_msg s) e of Some (GBytes bs) \<Rightarrow> EncodeBytes bs n (st_buf s) | _ \<Rightarrow> None)"
| "run \<rho> (EncodeText e n) s = set_buf s (case eval \<rho> (st_msg s) e of Some (GStr v) \<Rightarrow> EncodeString v n (st_buf s) | _ \<Rightarrow> None)"
| "run \<rho> (MakeOf e ty c) s =
     (case count_of \<rho> (st_msg s) c of None \<Rightarrow> None
      | Some n \<Rightarrow> if n < 0 then None else store \<rho> e s (Some (zero_val (TArr (nat n) ty), st_buf s)))"
| "run \<rho> (DecodeVal e t) s = store \<rho> e s (dec_val t (st_buf s))"
| "run \<rho> (DecodeBlob e c) s =
     (case (eval \<rho> (st_msg s) e, count_of \<rho> (st_msg s) c) of
        (Some (GBytes old), Some n) \<Rightarrow> store \<rho> e s (map_option (map_prod (\<lambda>bs. GBytes (copy_into old bs)) id) (DecodeBytes n (st_buf s)))
      | _ \<Rightarrow> None)"
| "run \<rho> (DecodeText e n) s = store \<rho> e s (map_option (map_prod GStr id) (DecodeString n (st_buf s)))"
| "runs \<rho> [] s = Some s"
| "runs \<rho> (c # cs) s = (case run \<rho> c s of None \<Rightarrow> None | Some s' \<Rightarrow> runs \<rho> cs s')"

text \<open>The methods of a message.\<close>

definition no_vars :: genv where "no_vars = \<lparr>ix = (\<lambda>_. 0), lv = (\<lambda>_. None)\<rparr>"

definition call_Size :: "gstmt list \<Rightarrow> gval \<Rightarrow> int option" where
  "call_Size code m = map_option st_size (runs no_vars code \<lparr>st_msg = m, st_buf = NewBuffer [] [], st_size = 0\<rparr>)"

text \<open>\<open>Marshal(nil)\<close>: the buffer has the size of the message.\<close>

definition call_Marshal :: "gstmt list \<Rightarrow> gstmt list \<Rightarrow> gval \<Rightarrow> byte list option" where
  "call_Marshal sizeCode code m =
     (case call_Size sizeCode m of None \<Rightarrow> None
      | Some n \<Rightarrow>
          if n < 0 then None
          else case runs no_vars code \<lparr>st_msg = m, st_buf = NewBuffer (replicate (nat n) 0) [], st_size = 0\<rparr> of
            None \<Rightarrow> None | Some s \<Rightarrow> Bytes (st_buf s))"

definition call_Unmarshal :: "gstmt list \<Rightarrow> byte list \<Rightarrow> gval \<Rightarrow> gval option" where
  "call_Unmarshal code data m =
     map_option st_msg (runs no_vars code \<lparr>st_msg = m, st_buf = NewBuffer data [], st_size = 0\<rparr>)"

end
