(* ===== verification/GenEncoding.thy ===== *)
theory GenEncoding
  imports GenCode
begin

text \<open>
  The generator of the methods \<open>Size\<close>, \<open>Marshal\<close> and \<open>Unmarshal\<close> of a message
  (\<open>binapigen/generate_encoding.go\<close>). \<open>None\<close> is a panic of the generator. The names of loop
  variables and locals have the level of nesting.
\<close>

section \<open>Size\<close>

definition sizeBaseType :: "string \<Rightarrow> gexpr \<Rightarrow> int \<Rightarrow> gexpr option \<Rightarrow> gstmt" where
  "sizeBaseType typ name len sizefrom =
     (if typ = ''string'' then if 0 < len then SizeConst len else SizeStr name
      else if sizefrom \<noteq> None then SizeLen (BaseTypeSizes typ) name
      else if 0 < len then SizeMul (BaseTypeSizes typ) len else SizeConst (BaseTypeSizes typ))"

text \<open>
  The loop over the elements of an array, with a body for the element. When the length is not
  constant the element is copied to a variable, or a zero value is used.
\<close>

definition over_elements ::
  "bool \<Rightarrow> nat \<Rightarrow> Field \<Rightarrow> gexpr \<Rightarrow> (gexpr \<Rightarrow> gstmt list option) \<Rightarrow> gstmt list option" where
  "over_elements sized lvl f name body =
     (let a = fd_api f; direct = \<not> (f_Length a = 0 \<or> f_SizeFrom a \<noteq> '''') in
      case (if direct then body (At name (J lvl))
            else case (fieldGoType f, body (Loc (V lvl))) of (Some ty, Some b) \<Rightarrow> Some [Pick (V lvl) ty name (J lvl) b] | _ \<Rightarrow> None) of
        None \<Rightarrow> None
      | Some b \<Rightarrow>
          Some [if 0 < f_Length a then For (J lvl) (Const (f_Length a)) b
                else if sized then For (J lvl) (Len name) b else Unopened b])"

fun sizeFields :: "nat \<Rightarrow> gexpr \<Rightarrow> Field list \<Rightarrow> gstmt list option"
  and sizeField :: "nat \<Rightarrow> gexpr \<Rightarrow> Field \<Rightarrow> gstmt list option"
  and sizeRef :: "nat \<Rightarrow> gexpr \<Rightarrow> TypeRef \<Rightarrow> gstmt list option" where
  "sizeFields lvl parent [] = Some []"
| "sizeFields lvl parent (f # fs) =
     (case (sizeField lvl parent f, sizeFields lvl parent fs) of (Some c, Some cs) \<Rightarrow> Some (c @ cs) | _ \<Rightarrow> None)"
| "sizeField lvl parent (Field a g r so sf) =
     (let name = Dot parent g in
      if is_base (f_Type a) then Some [sizeBaseType (f_Type a) name (f_Length a) (map_option (Dot parent) sf)]
      else if f_Array a then over_elements (sf \<noteq> None) lvl (Field a g r so sf) name (\<lambda>elem. sizeRef lvl elem r)
      else sizeRef lvl name r)"
| "sizeRef lvl name (TypeEnum t) = (if is_base t then Some [sizeBaseType t name 0 None] else None)"
| "sizeRef lvl name (TypeAlias t n st) =
     (case st of Some fs \<Rightarrow> sizeFields (lvl + 1) name fs | None \<Rightarrow> Some [sizeBaseType t name n None])"
| "sizeRef lvl name (TypeStruct fs) = sizeFields (lvl + 1) name fs"
| "sizeRef lvl name (TypeUnion fs) = map_option (\<lambda>n. [sizeBaseType ''u8'' name n None]) (getUnionSize fs)"
| "sizeRef lvl name NoRef = None"

definition genMessageMethodSize :: "Field list \<Rightarrow> gstmt list option" where
  "genMessageMethodSize fs = sizeFields 1 M fs"

section \<open>Marshal\<close>

definition encodeBaseType :: "string \<Rightarrow> gexpr \<Rightarrow> int \<Rightarrow> gexpr option \<Rightarrow> bool \<Rightarrow> gstmt list option" where
  "encodeBaseType typ name len sizefrom alloc =
     (let isArray = (0 < len \<or> sizefrom \<noteq> None) in
      if isArray \<and> typ = ''u8'' then Some [EncodeBlob name len]
      else if isArray \<and> typ \<in> scalar_types then
        Some [For I (if len \<noteq> 0 then Const len else Len name)
                (if alloc then [Pick X (TBase typ) name I [EncodeVal typ (Loc X)]] else [EncodeVal typ name])]
      else if typ \<in> scalar_types then Some [EncodeVal typ name]
      else if typ = ''string'' then Some [EncodeText name len]
      else None)"

text \<open>A field that counts the elements of another one is written with the length of that field.\<close>

fun encodeFields :: "nat \<Rightarrow> gexpr \<Rightarrow> Field list \<Rightarrow> gstmt list option"
  and encodeField :: "nat \<Rightarrow> gexpr \<Rightarrow> gexpr \<Rightarrow> Field \<Rightarrow> gstmt list option"
  and encodeRef :: "nat \<Rightarrow> gexpr \<Rightarrow> TypeRef \<Rightarrow> gstmt list option" where
  "encodeFields lvl parent [] = Some []"
| "encodeFields lvl parent (f # fs) =
     (case (encodeField lvl parent (Dot parent (fd_GoName f)) f, encodeFields lvl parent fs) of
        (Some c, Some cs) \<Rightarrow> Some (c @ cs) | _ \<Rightarrow> None)"
| "encodeField lvl parent name (Field a g r so sf) =
     (case so of
        Some counted \<Rightarrow>
          if is_base (f_Type a) then Some [EncodeLen (f_Type a) (Dot parent counted)] else None
      | None \<Rightarrow>
          if is_base (f_Type a) then encodeBaseType (f_Type a) name (f_Length a) (map_option (Dot parent) sf) True
          else if f_Array a then over_elements (f_SizeFrom a \<noteq> '''') lvl (Field a g r so sf) name (\<lambda>elem. encodeRef lvl elem r)
          else encodeRef lvl name r)"
| "encodeRef lvl name (TypeEnum t) = encodeBaseType t name 0 None False"
| "encodeRef lvl name (TypeAlias t n st) =
     (case st of Some fs \<Rightarrow> encodeFields (lvl + 1) name fs
      | None \<Rightarrow> encodeBaseType t name (if 0 < n then n else 0) None False)"
| "encodeRef lvl name (TypeStruct fs) = encodeFields (lvl + 1) name fs"
| "encodeRef lvl name (TypeUnion fs) = map_option (\<lambda>n. [EncodeBlob (Dot name fieldUnionData) n]) (getUnionSize fs)"
| "encodeRef lvl name NoRef = None"

definition genMessageMethodMarshal :: "Field list \<Rightarrow> gstmt list option" where
  "genMessageMethodMarshal fs = encodeFields 0 M fs"

section \<open>Unmarshal\<close>

definition decodeBaseType :: "string \<Rightarrow> gexpr \<Rightarrow> int \<Rightarrow> gexpr option \<Rightarrow> bool \<Rightarrow> gstmt list option" where
  "decodeBaseType typ name len sizefrom alloc =
     (let isArray = (0 < len \<or> sizefrom \<noteq> None);
          n = (if 0 < len then Const len else case sizefrom of Some e \<Rightarrow> Val e | None \<Rightarrow> Const 0) in
      if isArray \<and> typ = ''u8'' then
        Some (if alloc then [MakeOf name (TBase typ) n, DecodeBlob name (Len name)] else [DecodeBlob name n])
      else if isArray \<and> typ \<in> scalar_types then
        Some ((if alloc then [MakeOf name (TBase typ) n] else []) @ [For I (Len name) [DecodeVal (At name I) typ]])
      else if typ \<in> scalar_types then Some [DecodeVal name typ]
      else if typ = ''string'' then Some [DecodeText name len]
      else None)"

fun decodeFields :: "nat \<Rightarrow> gexpr \<Rightarrow> Field list \<Rightarrow> gstmt list option"
  and decodeField :: "nat \<Rightarrow> gexpr \<Rightarrow> gexpr \<Rightarrow> Field \<Rightarrow> gstmt list option"
  and decodeRef :: "nat \<Rightarrow> gexpr \<Rightarrow> TypeRef \<Rightarrow> gstmt list option" where
  "decodeFields lvl parent [] = Some []"
| "decodeFields lvl parent (f # fs) =
     (case (decodeField lvl parent (Dot parent (fd_GoName f)) f, decodeFields lvl parent fs) of
        (Some c, Some cs) \<Rightarrow> Some (c @ cs) | _ \<Rightarrow> None)"
| "decodeField lvl parent name (Field a g r so sf) =
     (if is_base (f_Type a) then decodeBaseType (f_Type a) name (f_Length a) (map_option (Dot parent) sf) True
      else if f_Array a then
        (case (decodeRef lvl (At name (J lvl)) r, fieldGoType (Field a g r so sf)) of
           (Some b, Some ty) \<Rightarrow>
             Some (if 0 < f_Length a then [For (J lvl) (Const (f_Length a)) b]
                   else if f_SizeFrom a \<noteq> '''' then
                     [MakeOf name ty (case sf of Some s \<Rightarrow> Val (Dot parent s) | None \<Rightarrow> Const (- 1)), For (J lvl) (Len name) b]
                   else [Unopened b])
         | _ \<Rightarrow> None)
      else decodeRef lvl name r)"
| "decodeRef lvl name (TypeEnum t) = (if is_base t then decodeBaseType t name 0 None False else None)"
| "decodeRef lvl name (TypeAlias t n st) =
     (case st of Some fs \<Rightarrow> decodeFields (lvl + 1) name fs
      | None \<Rightarrow> decodeBaseType t name (if 0 < n then n else 0) None False)"
| "decodeRef lvl name (TypeStruct fs) = decodeFields (lvl + 1) name fs"
| "decodeRef lvl name (TypeUnion fs) = map_option (\<lambda>n. [DecodeBlob (Dot name fieldUnionData) (Const n)]) (getUnionSize fs)"
| "decodeRef lvl name NoRef = None"

definition genMessageMethodUnmarshal :: "Field list \<Rightarrow> gstmt list option" where
  "genMessageMethodUnmarshal fs = decodeFields 0 M fs"

end
