(* ===== verification/GenWire.thy ===== *)
theory GenWire
  imports GenEncoding
begin

text \<open>
  The wire format of a message, the descriptions for which the generator makes working code, and the
  proof that \<open>Size\<close> and \<open>Marshal\<close> follow the format.
\<close>

section \<open>The wire format\<close>

definition bits_of :: "string \<Rightarrow> nat" where
  "bits_of t = 8 * nat (BaseTypeSizes t)"

definition in_range :: "string \<Rightarrow> int \<Rightarrow> bool" where
  "in_range t n \<longleftrightarrow>
     (if t \<in> {''u8'', ''u16'', ''u32'', ''u64''} then 0 \<le> n \<and> n < 2 ^ bits_of t
      else - (2 ^ (bits_of t - 1)) \<le> n \<and> n < 2 ^ (bits_of t - 1))"

definition ser_num :: "string \<Rightarrow> int \<Rightarrow> byte list" where
  "ser_num t n =
     (if t = ''u8'' \<or> t = ''i8'' then [word_of_int n]
      else if t = ''u16'' \<or> t = ''i16'' then be_bytes 2 (word_of_int n :: u16)
      else if t = ''u32'' \<or> t = ''i32'' then be_bytes 4 (word_of_int n :: u32)
      else be_bytes 8 (word_of_int n :: u64))"

definition ser_scalar :: "string \<Rightarrow> gval \<Rightarrow> byte list" where
  "ser_scalar t v =
     (case v of GNum n \<Rightarrow> ser_num t n | GBool x \<Rightarrow> [if x then 1 else 0] | GFloat x \<Rightarrow> le_bytes 8 x | _ \<Rightarrow> [])"

definition scalar_ok :: "string \<Rightarrow> gval \<Rightarrow> bool" where
  "scalar_ok t v =
     (case v of GNum n \<Rightarrow> t \<in> int_types \<and> in_range t n | GBool _ \<Rightarrow> t = ''bool'' | GFloat _ \<Rightarrow> t = ''f64'' | _ \<Rightarrow> False)"

definition items :: "gval \<Rightarrow> gval list" where
  "items v = (case v of GList vs \<Rightarrow> vs | _ \<Rightarrow> [])"

definition ser_base :: "string \<Rightarrow> int \<Rightarrow> gval \<Rightarrow> byte list" where
  "ser_base t len v =
     (case v of
        GStr s \<Rightarrow> if 0 < len then s @ replicate (nat len - length s) 0 else be_bytes 4 (word_of_nat (length s) :: u32) @ s
      | GBytes bs \<Rightarrow> bs
      | GList vs \<Rightarrow> concat (map (ser_scalar t) vs)
      | _ \<Rightarrow> ser_scalar t v)"

definition typed_base :: "string \<Rightarrow> int \<Rightarrow> bool \<Rightarrow> gval \<Rightarrow> bool" where
  "typed_base t len sized v =
     (if t = ''string'' then (case v of GStr s \<Rightarrow> if 0 < len then length s \<le> nat len \<and> 0 \<notin> set s else length s < 2 ^ 32 | _ \<Rightarrow> False)
      else if 0 < len \<or> sized then
        if t = ''u8'' then (case v of GBytes bs \<Rightarrow> 0 < len \<longrightarrow> length bs = nat len | _ \<Rightarrow> False)
        else (case v of GList vs \<Rightarrow> (0 < len \<longrightarrow> length vs = nat len) \<and> list_all (scalar_ok t) vs | _ \<Rightarrow> False)
      else scalar_ok t v)"

text \<open>A field is looked up by its Go name. The data of a union are sent as they are.\<close>

fun ser_all :: "Field list \<Rightarrow> (string \<times> gval) list \<Rightarrow> byte list"
  and ser_field :: "Field \<Rightarrow> gval \<Rightarrow> byte list"
  and ser_ref :: "TypeRef \<Rightarrow> gval \<Rightarrow> byte list" where
  "ser_all [] r = []"
| "ser_all (f # fs) r = ser_field f (the (map_of r (fd_GoName f))) @ ser_all fs r"
| "ser_field (Field a g rf so sf) v =
     (if is_base (f_Type a) then ser_base (f_Type a) (f_Length a) v
      else if f_Array a then concat (map (ser_ref rf) (items v)) else ser_ref rf v)"
| "ser_ref (TypeEnum t) v = ser_scalar t v"
| "ser_ref (TypeAlias t n st) v =
     (case st of Some fs \<Rightarrow> (case v of GRec r \<Rightarrow> ser_all fs r | _ \<Rightarrow> [])
      | None \<Rightarrow> ser_base t 0 v)"
| "ser_ref (TypeStruct fs) v = (case v of GRec r \<Rightarrow> ser_all fs r | _ \<Rightarrow> [])"
| "ser_ref (TypeUnion fs) v = (case v of GRec [(n, GBytes bs)] \<Rightarrow> bs | _ \<Rightarrow> [])"
| "ser_ref NoRef v = []"

text \<open>
  Values of the type: arrays have their length, a field that counts another one is its length, strings
  in fixed fields fit and have no zero byte.
\<close>

fun typed_all :: "Field list \<Rightarrow> (string \<times> gval) list \<Rightarrow> bool"
  and typed_field :: "(string \<times> gval) list \<Rightarrow> Field \<Rightarrow> gval \<Rightarrow> bool"
  and typed_ref :: "TypeRef \<Rightarrow> gval \<Rightarrow> bool" where
  "typed_all [] r \<longleftrightarrow> True"
| "typed_all (f # fs) r \<longleftrightarrow>
     (case map_of r (fd_GoName f) of None \<Rightarrow> False | Some v \<Rightarrow> typed_field r f v) \<and> typed_all fs r"
| "typed_field r (Field a g rf so sf) v \<longleftrightarrow>
     (case so of None \<Rightarrow> True | Some c \<Rightarrow>
        (case map_of r c of None \<Rightarrow> False | Some w \<Rightarrow> (case glen w of None \<Rightarrow> False | Some k \<Rightarrow> v = GNum (int k)))) \<and>
     (case sf of None \<Rightarrow> True | Some c \<Rightarrow> (case glen v of None \<Rightarrow> False | Some k \<Rightarrow> map_of r c = Some (GNum (int k)))) \<and>
     (if is_base (f_Type a) then typed_base (f_Type a) (f_Length a) (sf \<noteq> None) v
      else if f_Array a then
        (case v of GList vs \<Rightarrow> (0 < f_Length a \<longrightarrow> length vs = nat (f_Length a)) \<and> list_all (typed_ref rf) vs | _ \<Rightarrow> False)
      else typed_ref rf v)"
| "typed_ref (TypeEnum t) v \<longleftrightarrow> scalar_ok t v"
| "typed_ref (TypeAlias t n st) v \<longleftrightarrow>
     (case st of Some fs \<Rightarrow> (case v of GRec r \<Rightarrow> map fst r = map fd_GoName fs \<and> typed_all fs r | _ \<Rightarrow> False)
      | None \<Rightarrow> typed_base t n False v)"
| "typed_ref (TypeStruct fs) v \<longleftrightarrow> (case v of GRec r \<Rightarrow> map fst r = map fd_GoName fs \<and> typed_all fs r | _ \<Rightarrow> False)"
| "typed_ref (TypeUnion fs) v \<longleftrightarrow>
     (case v of GRec [(n, GBytes bs)] \<Rightarrow> n = fieldUnionData \<and> getUnionSize fs = Some (int (length bs)) | _ \<Rightarrow> False)"
| "typed_ref NoRef v \<longleftrightarrow> False"

text \<open>
  The descriptions that are supported. A length and a counting field exclude each other; the counting
  field comes first; aliases for arrays are arrays of bytes; unions are not empty.
\<close>

fun ok_fields :: "string list \<Rightarrow> Field list \<Rightarrow> bool"
  and ok_field :: "string list \<Rightarrow> Field \<Rightarrow> bool"
  and ok_ref :: "TypeRef \<Rightarrow> bool" where
  "ok_fields seen [] \<longleftrightarrow> True"
| "ok_fields seen (f # fs) \<longleftrightarrow> ok_field seen f \<and> fd_GoName f \<notin> set seen \<and> ok_fields (fd_GoName f # seen) fs"
| "ok_field seen (Field a g rf so sf) \<longleftrightarrow>
     0 \<le> f_Length a \<and> (f_SizeFrom a = '''' \<longleftrightarrow> sf = None) \<and>
     (case sf of None \<Rightarrow> True | Some c \<Rightarrow> c \<in> set seen \<and> f_Length a = 0 \<and> f_Array a) \<and>
     (if is_base (f_Type a)
      then rf = NoRef \<and> (so \<noteq> None \<longrightarrow> f_Type a \<in> int_types \<and> f_Length a = 0 \<and> sf = None) \<and>
        (f_Type a \<noteq> ''string'' \<longrightarrow> (f_Array a \<longleftrightarrow> 0 < f_Length a \<or> sf \<noteq> None))
      else so = None \<and> (f_Array a \<longrightarrow> 0 < f_Length a \<or> sf \<noteq> None) \<and> ok_ref rf)"
| "ok_ref (TypeEnum t) \<longleftrightarrow> t \<in> scalar_types"
| "ok_ref (TypeAlias t n st) \<longleftrightarrow>
     (case st of Some fs \<Rightarrow> n = 0 \<and> ok_fields [] fs | None \<Rightarrow> 0 \<le> n \<and> (if 0 < n then t = ''u8'' else t \<in> scalar_types))"
| "ok_ref (TypeStruct fs) \<longleftrightarrow> ok_fields [] fs"
| "ok_ref (TypeUnion fs) \<longleftrightarrow> (case getUnionSize fs of None \<Rightarrow> False | Some n \<Rightarrow> 0 < n)"
| "ok_ref NoRef \<longleftrightarrow> False"

definition message_ok :: "Field list \<Rightarrow> bool" where "message_ok fs \<longleftrightarrow> ok_fields [] fs"
definition message_typed :: "Field list \<Rightarrow> gval \<Rightarrow> bool" where "message_typed fs v \<longleftrightarrow> typed_ref (TypeStruct fs) v"
definition message_bytes :: "Field list \<Rightarrow> gval \<Rightarrow> byte list" where "message_bytes fs v = ser_ref (TypeStruct fs) v"

lemma ser_all_concat: "ser_all fs r = concat (map (\<lambda>f. ser_field f (the (map_of r (fd_GoName f)))) fs)"
  by (induction fs) simp_all

section \<open>Scalars\<close>

lemma base_types: "is_base t \<longleftrightarrow> t = ''string'' \<or> t \<in> scalar_types"
  by (auto simp: is_base_def BaseTypesGo_def scalar_types_def int_types_def)

text \<open>A codec for values that are converted first.\<close>

lemma wire_codec_via:
  assumes "wire_codec e d s P" and "\<And>n. Q n \<Longrightarrow> P (f n) \<and> g (f n) = n"
  shows "wire_codec (\<lambda>n. e (f n)) (\<lambda>b. map_option (map_prod g id) (d b)) (\<lambda>n. s (f n)) Q"
proof
  fix b v
  assume b: "wf_buffer b" and Q: "Q v" and room: "pos b + length (s (f v)) \<le> blen b"
  show "e (f v) b = Some (buf_fill b (s (f v)))" using wire_codec.enc_ser [OF assms(1) b] Q room assms(2) by blast
  assume "holds_at b (s (f v))"
  then have "d b = Some (f v, b\<lparr>pos := pos b + length (s (f v))\<rparr>)" using wire_codec.dec_ser [OF assms(1) b] Q room assms(2) by blast
  then show "map_option (map_prod g id) (d b) = Some (v, b\<lparr>pos := pos b + length (s (f v))\<rparr>)" using assms(2) [OF Q] by simp
qed

lemma uint_range: "0 \<le> n \<Longrightarrow> n < 2 ^ LENGTH('a) \<Longrightarrow> uint (word_of_int n :: 'a::len word) = n"
  by (simp add: unsigned_of_int take_bit_int_eq_self)

lemma sint_range: "- (2 ^ (LENGTH('a) - 1)) \<le> n \<Longrightarrow> n < 2 ^ (LENGTH('a) - 1) \<Longrightarrow> sint (word_of_int n :: 'a::len word) = n"
  by (simp add: signed_of_int signed_take_bit_int_eq_self)

lemma num_codec: "wire_codec (enc_num t) (dec_num t) (ser_num t) (\<lambda>n. t \<in> int_types \<and> in_range t n)"
proof -
  note sizes = in_range_def [abs_def] bits_of_def BaseTypeSizes_def enc_num_def [abs_def] dec_num_def [abs_def] ser_num_def [abs_def] int_types_def
  consider "t = ''u8''" | "t = ''i8''" | "t = ''u16''" | "t = ''i16''" | "t = ''u32''" | "t = ''i32''" | "t = ''u64''" | "t = ''i64''" | "t \<notin> int_types"
    by (auto simp: int_types_def)
  then show ?thesis
  proof cases
    case 1
    then show ?thesis using wire_codec_via [OF w_u8.wire_codec_axioms, where Q = "in_range t" and f = word_of_int and g = uint] uint_range [where ?'a = 8] by (simp add: sizes)
  next
    case 2
    then show ?thesis using wire_codec_via [OF w_i8.wire_codec_axioms, where Q = "in_range t" and f = word_of_int and g = sint] sint_range [where ?'a = 8] by (simp add: sizes)
  next
    case 3
    then show ?thesis using wire_codec_via [OF w_u16.wire_codec_axioms, where Q = "in_range t" and f = word_of_int and g = uint] uint_range [where ?'a = 16] by (simp add: sizes)
  next
    case 4
    then show ?thesis using wire_codec_via [OF w_i16.wire_codec_axioms, where Q = "in_range t" and f = word_of_int and g = sint] sint_range [where ?'a = 16] by (simp add: sizes)
  next
    case 5
    then show ?thesis using wire_codec_via [OF w_u32.wire_codec_axioms, where Q = "in_range t" and f = word_of_int and g = uint] uint_range [where ?'a = 32] by (simp add: sizes)
  next
    case 6
    then show ?thesis using wire_codec_via [OF w_i32.wire_codec_axioms, where Q = "in_range t" and f = word_of_int and g = sint] sint_range [where ?'a = 32] by (simp add: sizes)
  next
    case 7
    then show ?thesis using wire_codec_via [OF w_u64.wire_codec_axioms, where Q = "in_range t" and f = word_of_int and g = uint] uint_range [where ?'a = 64] by (simp add: sizes)
  next
    case 8
    then show ?thesis using wire_codec_via [OF w_i64.wire_codec_axioms, where Q = "in_range t" and f = word_of_int and g = sint] sint_range [where ?'a = 64] by (simp add: sizes)
  next
    case 9
    then show ?thesis by unfold_locales auto
  qed
qed

interpretation scalar: wire_codec "enc_val t" "dec_val t" "ser_scalar t" "scalar_ok t" for t
proof
  note num = wire_codec.enc_ser [OF num_codec [of t]] wire_codec.dec_ser [OF num_codec [of t]]
  have other: "t \<in> int_types \<Longrightarrow> t \<noteq> ''bool'' \<and> t \<noteq> ''f64''" by (auto simp: int_types_def)
  fix b v
  assume b: "wf_buffer b" and ok: "scalar_ok t v" and room: "pos b + length (ser_scalar t v) \<le> blen b"
  show "enc_val t v b = Some (buf_fill b (ser_scalar t v))"
    using ok room num(1) [OF b] w_bool.enc_ser [OF b] w_f64.enc_ser [OF b] by (cases v) (simp_all add: scalar_ok_def enc_val_def ser_scalar_def)
  assume "holds_at b (ser_scalar t v)"
  then show "dec_val t b = Some (v, b\<lparr>pos := pos b + length (ser_scalar t v)\<rparr>)"
    using ok room num(2) [OF b] w_bool.dec_ser [OF b] w_f64.dec_ser [OF b] other
    by (cases v) (simp_all add: scalar_ok_def dec_val_def ser_scalar_def)
qed

lemma length_ser_scalar: "scalar_ok t v \<Longrightarrow> length (ser_scalar t v) = nat (BaseTypeSizes t)"
  by (cases v) (auto simp: scalar_ok_def ser_scalar_def ser_num_def int_types_def BaseTypeSizes_def)

lemma BaseTypeSizes_nonneg [simp]: "0 \<le> BaseTypeSizes t"
  by (simp add: BaseTypeSizes_def split: option.split)

section \<open>Expressions that a loop does not change\<close>

fun below :: "nat \<Rightarrow> gexpr \<Rightarrow> bool" where
  "below n M \<longleftrightarrow> True"
| "below n (Loc x) \<longleftrightarrow> (case x of V k \<Rightarrow> k < n | X \<Rightarrow> False)"
| "below n (Dot e f) \<longleftrightarrow> below n e"
| "below n (At e i) \<longleftrightarrow> below n e \<and> (case i of J k \<Rightarrow> k < n | I \<Rightarrow> False)"

lemma below_mono: "below n e \<Longrightarrow> n \<le> n' \<Longrightarrow> below n' e"
  by (induction e) (auto split: lvar.splits ivar.splits)

lemma eval_below:
  "below n e \<Longrightarrow> (\<And>k. k < n \<Longrightarrow> ix \<rho>' (J k) = ix \<rho> (J k) \<and> lv \<rho>' (V k) = lv \<rho> (V k)) \<Longrightarrow> eval \<rho>' m e = eval \<rho> m e"
  by (induction e) (auto split: lvar.splits ivar.splits gval.splits option.splits)

lemma eval_loop [simp]:
  "below n e \<Longrightarrow> eval (\<rho>\<lparr>ix := (ix \<rho>)(J n := k)\<rparr>) m e = eval \<rho> m e"
  "below n e \<Longrightarrow> eval (\<rho>\<lparr>ix := (ix \<rho>)(I := k)\<rparr>) m e = eval \<rho> m e"
  "below n e \<Longrightarrow> eval (\<rho>\<lparr>lv := (lv \<rho>)(V n \<mapsto> v)\<rparr>) m e = eval \<rho> m e"
  "below n e \<Longrightarrow> eval (\<rho>\<lparr>lv := (lv \<rho>)(X \<mapsto> v)\<rparr>) m e = eval \<rho> m e"
  by (auto intro!: eval_below)

section \<open>Code that writes\<close>

text \<open>
  The effect of the code of \<open>Size\<close> and of \<open>Marshal\<close> is given by the bytes of the format: their number is
  added to the size, or they are written. \<open>emits\<close> says that code has the effect of the bytes,
  \<open>code_for\<close> that the code made for an expression has the effect of the bytes of its value.
\<close>

definition emits :: "(byte list \<Rightarrow> gstate \<Rightarrow> gstate) \<Rightarrow> (gstate \<Rightarrow> byte list \<Rightarrow> bool) \<Rightarrow> genv \<Rightarrow> gstmt list \<Rightarrow> gval \<Rightarrow> byte list \<Rightarrow> bool" where
  "emits eff fits \<rho> c m bs \<longleftrightarrow> (\<forall>s. st_msg s = m \<longrightarrow> fits s bs \<longrightarrow> runs \<rho> c s = Some (eff bs s))"

definition code_for ::
  "(byte list \<Rightarrow> gstate \<Rightarrow> gstate) \<Rightarrow> (gstate \<Rightarrow> byte list \<Rightarrow> bool) \<Rightarrow> gstmt list option \<Rightarrow> gexpr \<Rightarrow> (gval \<Rightarrow> bool) \<Rightarrow> (gval \<Rightarrow> byte list) \<Rightarrow> bool" where
  "code_for eff fits code e ok ser \<longleftrightarrow>
     (\<exists>c. code = Some c \<and> (\<forall>\<rho> m v. ok v \<longrightarrow> eval \<rho> m e = Some v \<longrightarrow> emits eff fits \<rho> c m (ser v)))"

definition field_code ::
  "(byte list \<Rightarrow> gstate \<Rightarrow> gstate) \<Rightarrow> (gstate \<Rightarrow> byte list \<Rightarrow> bool) \<Rightarrow> gstmt list option \<Rightarrow> gexpr \<Rightarrow> Field \<Rightarrow> bool" where
  "field_code eff fits code parent f \<longleftrightarrow>
     (\<exists>c. code = Some c \<and> (\<forall>\<rho> m r v. eval \<rho> m parent = Some (GRec r) \<longrightarrow> map_of r (fd_GoName f) = Some v \<longrightarrow> typed_field r f v \<longrightarrow>
        emits eff fits \<rho> c m (ser_field f v)))"

definition record_code ::
  "(byte list \<Rightarrow> gstate \<Rightarrow> gstate) \<Rightarrow> (gstate \<Rightarrow> byte list \<Rightarrow> bool) \<Rightarrow> gstmt list option \<Rightarrow> gexpr \<Rightarrow> Field list \<Rightarrow> bool" where
  "record_code eff fits code parent fs \<longleftrightarrow>
     code_for eff fits code parent (\<lambda>v. case v of GRec r \<Rightarrow> typed_all fs r | _ \<Rightarrow> False) (\<lambda>v. case v of GRec r \<Rightarrow> ser_all fs r | _ \<Rightarrow> [])"

lemma code_forI:
  "code = Some c \<Longrightarrow> (\<And>\<rho> m v. ok v \<Longrightarrow> eval \<rho> m e = Some v \<Longrightarrow> emits eff fits \<rho> c m (ser v)) \<Longrightarrow> code_for eff fits code e ok ser"
  by (auto simp: code_for_def)

lemma code_for_cong:
  "code_for eff fits code e ok ser \<Longrightarrow> (\<And>v. ok' v \<Longrightarrow> ok v \<and> ser' v = ser v) \<Longrightarrow> code_for eff fits code e ok' ser'"
  unfolding code_for_def by metis

lemma struct_code:
  assumes "record_code eff fits code e fs"
  shows "code_for eff fits code e (typed_ref (TypeStruct fs)) (ser_ref (TypeStruct fs))"
    "code_for eff fits code e (typed_ref (TypeAlias t n (Some fs))) (ser_ref (TypeAlias t n (Some fs)))"
  using assms unfolding record_code_def by (rule code_for_cong; simp split: gval.splits)+

lemma typed_union:
  assumes "typed_ref (TypeUnion fs) v"
  obtains bs where "v = GRec [(fieldUnionData, GBytes bs)]" "getUnionSize fs = Some (int (length bs))"
proof -
  from assms obtain x where x: "v = GRec x" by (cases v) auto
  with assms obtain n w rest where y: "x = (n, w) # rest" by (cases x) auto
  with assms x obtain bs where z: "w = GBytes bs" by (cases w) auto
  have "rest = []" using assms x y z by (cases rest) auto
  with assms x y z that show thesis by simp
qed

lemma runs_append: "runs \<rho> (c @ d) s = (case runs \<rho> c s of None \<Rightarrow> None | Some s' \<Rightarrow> runs \<rho> d s')"
  by (induction c arbitrary: s) (auto split: option.splits)

locale writer =
  fixes eff :: "byte list \<Rightarrow> gstate \<Rightarrow> gstate" and fits :: "gstate \<Rightarrow> byte list \<Rightarrow> bool"
  assumes eff_msg [simp]: "st_msg (eff bs s) = st_msg s"
    and eff_nil: "eff [] s = s"
    and fits_append: "fits s (xs @ ys) \<Longrightarrow> fits s xs \<and> fits (eff xs s) ys"
    and eff_append: "fits s (xs @ ys) \<Longrightarrow> eff ys (eff xs s) = eff (xs @ ys) s"

begin

lemma emits_nil: "emits eff fits \<rho> [] m []"
  by (simp add: emits_def eff_nil)

lemma emits_append: "emits eff fits \<rho> c m xs \<Longrightarrow> emits eff fits \<rho> d m ys \<Longrightarrow> emits eff fits \<rho> (c @ d) m (xs @ ys)"
  unfolding emits_def by (metis (no_types, lifting) eff_append eff_msg fits_append option.case(2) runs_append)

lemma record_code_nil: "record_code eff fits (Some []) parent []"
  unfolding record_code_def by (rule code_forI [OF refl]) (auto simp: emits_nil split: gval.splits)

lemma record_code_cons:
  assumes "field_code eff fits c parent f" "record_code eff fits d parent fs"
  shows "record_code eff fits (case (c, d) of (Some c, Some cs) \<Rightarrow> Some (c @ cs) | _ \<Rightarrow> None) parent (f # fs)"
proof -
  from assms obtain c' d' where cd: "c = Some c'" "d = Some d'" unfolding field_code_def record_code_def code_for_def by blast
  show ?thesis unfolding record_code_def
  proof (rule code_forI)
    show "(case (c, d) of (Some c, Some cs) \<Rightarrow> Some (c @ cs) | _ \<Rightarrow> None) = Some (c' @ d')" by (simp add: cd)
    fix \<rho> m v
    assume "case v of GRec r \<Rightarrow> typed_all (f # fs) r | _ \<Rightarrow> False" and e: "eval \<rho> m parent = Some v"
    then obtain r w where r: "v = GRec r" "map_of r (fd_GoName f) = Some w" "typed_field r f w" "typed_all fs r"
      by (auto split: gval.splits option.splits)
    from assms(1) e r have "emits eff fits \<rho> c' m (ser_field f w)" by (auto simp: field_code_def cd)
    moreover have "\<forall>v. (case v of GRec r \<Rightarrow> typed_all fs r | _ \<Rightarrow> False) \<longrightarrow> eval \<rho> m parent = Some v \<longrightarrow>
        emits eff fits \<rho> d' m (case v of GRec r \<Rightarrow> ser_all fs r | _ \<Rightarrow> [])"
      using assms(2) by (simp add: record_code_def code_for_def cd)
    from this [rule_format, of "GRec r"] e r have "emits eff fits \<rho> d' m (ser_all fs r)" by simp
    ultimately show "emits eff fits \<rho> (c' @ d') m (case v of GRec r \<Rightarrow> ser_all (f # fs) r | _ \<Rightarrow> [])"
      using r by (simp add: emits_append)
  qed
qed

lemma loop_emits:
  assumes "\<And>k s. k < length vs \<Longrightarrow> st_msg s = m \<Longrightarrow> fits s (ser (vs ! k)) \<Longrightarrow> f (j + k) s = Some (eff (ser (vs ! k)) s)"
  shows "st_msg s = m \<Longrightarrow> fits s (concat (map ser vs)) \<Longrightarrow> loop j (length vs) f s = Some (eff (concat (map ser vs)) s)"
  using assms
proof (induction vs arbitrary: j s)
  case Nil
  then show ?case by (simp add: eff_nil)
next
  case (Cons v vs)
  then have fits: "fits s (ser v)" "fits (eff (ser v) s) (concat (map ser vs))" using fits_append [of s "ser v"] by auto
  from Cons.prems(3) [of 0 s] fits Cons.prems(1) have "f j s = Some (eff (ser v) s)" by simp
  moreover have "loop (Suc j) (length vs) f (eff (ser v) s) = Some (eff (concat (map ser vs)) (eff (ser v) s))"
    using Cons.prems(1) fits(2) Cons.prems(3) [of "Suc _"] by (intro Cons.IH) auto
  ultimately show ?case using eff_append Cons.prems(2) by simp
qed

lemma emits_for:
  assumes "count_of \<rho> m c = Some (int (length vs))"
    and "\<And>k. k < length vs \<Longrightarrow> emits eff fits (\<rho>\<lparr>ix := (ix \<rho>)(i := k)\<rparr>) b m (ser (vs ! k))"
  shows "emits eff fits \<rho> [For i c b] m (concat (map ser vs))"
  unfolding emits_def
proof (intro allI impI)
  fix s
  assume s: "st_msg s = m" "fits s (concat (map ser vs))"
  have "loop 0 (length vs) (\<lambda>k. runs (\<rho>\<lparr>ix := (ix \<rho>)(i := k)\<rparr>) b) s = Some (eff (concat (map ser vs)) s)"
    by (rule loop_emits [OF _ s]) (use assms(2) in \<open>auto simp: emits_def\<close>)
  then show "runs \<rho> [For i c b] s = Some (eff (concat (map ser vs)) s)" using assms(1) s(1) by simp
qed

lemma emits_pick:
  "picked \<rho> m ty e i = Some v \<Longrightarrow> emits eff fits (\<rho>\<lparr>lv := (lv \<rho>)(x \<mapsto> v)\<rparr>) b m bs \<Longrightarrow> emits eff fits \<rho> [Pick x ty e i b] m bs"
  by (simp add: emits_def)

lemma over_code:
  assumes name: "below lvl name" and len: "0 \<le> f_Length (fd_api f)" "0 < f_Length (fd_api f) \<or> sized"
    and ty: "fieldGoType f \<noteq> None" and body: "\<And>elem. below (Suc lvl) elem \<Longrightarrow> code_for eff fits (body elem) elem ok ser"
  shows "code_for eff fits (over_elements sized lvl f name body) name
    (\<lambda>v. case v of GList vs \<Rightarrow> (0 < f_Length (fd_api f) \<longrightarrow> length vs = nat (f_Length (fd_api f))) \<and> list_all ok vs | _ \<Rightarrow> False)
    (\<lambda>v. concat (map ser (items v)))"
proof -
  let ?n = "f_Length (fd_api f)" and ?J = "J lvl"
  let ?direct = "\<not> (?n = 0 \<or> f_SizeFrom (fd_api f) \<noteq> '''')"
  from ty obtain T where T: "fieldGoType f = Some T" by blast
  have "below (Suc lvl) (At name ?J)" "below (Suc lvl) (Loc (V lvl))" using below_mono [OF name] by simp_all
  from this [THEN body] obtain c1 c2 where c1: "body (At name ?J) = Some c1"
      "\<And>\<rho> m v. ok v \<Longrightarrow> eval \<rho> m (At name ?J) = Some v \<Longrightarrow> emits eff fits \<rho> c1 m (ser v)"
    and c2: "body (Loc (V lvl)) = Some c2" "\<And>\<rho> m v. ok v \<Longrightarrow> eval \<rho> m (Loc (V lvl)) = Some v \<Longrightarrow> emits eff fits \<rho> c2 m (ser v)"
    unfolding code_for_def by blast
  define b where "b = (if ?direct then c1 else [Pick (V lvl) T name ?J c2])"
  define c where "c = (if 0 < ?n then Const ?n else Len name)"
  have code: "over_elements sized lvl f name body = Some [For ?J c b]"
    using len(2) T c1(1) c2(1) by (auto simp: over_elements_def b_def c_def Let_def)
  show ?thesis
  proof (rule code_forI [OF code])
    fix \<rho> m v
    assume "case v of GList vs \<Rightarrow> (0 < ?n \<longrightarrow> length vs = nat ?n) \<and> list_all ok vs | _ \<Rightarrow> False" and e: "eval \<rho> m name = Some v"
    then obtain vs where vs: "v = GList vs" "0 < ?n \<longrightarrow> length vs = nat ?n" "list_all ok vs" by (cases v) auto
    have "emits eff fits \<rho> [For ?J c b] m (concat (map ser vs))"
    proof (rule emits_for)
      show "count_of \<rho> m c = Some (int (length vs))" using vs e by (auto simp: c_def count_of_def)
      fix k
      assume k: "k < length vs"
      let ?\<rho> = "\<rho>\<lparr>ix := (ix \<rho>)(?J := k)\<rparr>"
      have ev: "eval ?\<rho> m name = Some (GList vs)" and ok: "ok (vs ! k)" using e vs k name by (simp_all add: list_all_length)
      have p: "picked ?\<rho> m T name ?J = Some (vs ! k)" using ev k by (simp add: picked_def)
      have "emits eff fits ?\<rho> c1 m (ser (vs ! k))" using c1(2) [OF ok] ev k by simp
      moreover have "emits eff fits ?\<rho> [Pick (V lvl) T name ?J c2] m (ser (vs ! k))"
        by (rule emits_pick [OF p]) (use c2(2) [OF ok] in simp)
      ultimately show "emits eff fits ?\<rho> b m (ser (vs ! k))" by (simp add: b_def)
    qed
    then show "emits eff fits \<rho> [For ?J c b] m (concat (map ser (items v)))" using vs(1) by (simp add: items_def)
  qed
qed

lemma elements_code:
  assumes "below lvl name" "0 \<le> f_Length (fd_api f)" "f_Array (fd_api f) \<Longrightarrow> 0 < f_Length (fd_api f) \<or> sized" "fieldGoType f \<noteq> None"
    and body: "\<And>elem. below (Suc lvl) elem \<Longrightarrow> code_for eff fits (body elem) elem ok ser"
  shows "code_for eff fits (if f_Array (fd_api f) then over_elements sized lvl f name body else body name) name
    (\<lambda>v. if f_Array (fd_api f)
       then (case v of GList vs \<Rightarrow> (0 < f_Length (fd_api f) \<longrightarrow> length vs = nat (f_Length (fd_api f))) \<and> list_all ok vs | _ \<Rightarrow> False) else ok v)
    (\<lambda>v. if f_Array (fd_api f) then concat (map ser (items v)) else ser v)"
proof (cases "f_Array (fd_api f)")
  case True
  from over_code [OF assms(1,2) assms(3) [OF True] assms(4) body] show ?thesis unfolding if_P [OF True] by blast
next
  case False
  from body [OF below_mono [OF assms(1)]] show ?thesis unfolding if_not_P [OF False] by simp
qed

end

section \<open>The size of a message\<close>

definition add_size :: "byte list \<Rightarrow> gstate \<Rightarrow> gstate" where
  "add_size bs s = s\<lparr>st_size := st_size s + int (length bs)\<rparr>"

definition any_size :: "gstate \<Rightarrow> byte list \<Rightarrow> bool" where
  "any_size s bs \<longleftrightarrow> True"

interpretation sizes: writer add_size any_size
  by unfold_locales (simp_all add: add_size_def any_size_def)

lemma emits_size: "emits add_size any_size \<rho> [c] m bs \<longleftrightarrow> (\<forall>s. st_msg s = m \<longrightarrow> run \<rho> c s = Some (s\<lparr>st_size := st_size s + int (length bs)\<rparr>))"
  by (auto simp: emits_def add_size_def any_size_def split: option.splits)

lemma length_concat_scalars:
  "list_all (scalar_ok t) vs \<Longrightarrow> int (length (concat (map (ser_scalar t) vs))) = BaseTypeSizes t * int (length vs)"
  by (induction vs) (auto simp: length_ser_scalar algebra_simps)

lemma scalar_not_string: "t \<in> scalar_types \<Longrightarrow> t \<noteq> ''string''"
  by (auto simp: scalar_types_def int_types_def)

lemma u8_size [simp]: "BaseTypeSizes ''u8'' = 1"
  by (simp add: BaseTypeSizes_def)

lemma u8_types [simp]: "''u8'' \<in> scalar_types" "''u8'' \<in> int_types"
  by (simp_all add: scalar_types_def int_types_def)

lemma ser_base_scalar: "scalar_ok t v \<Longrightarrow> ser_base t len v = ser_scalar t v"
  by (cases v) (simp_all add: scalar_ok_def ser_base_def)

lemma size_base:
  assumes "is_base t" "0 \<le> len" "0 < len \<Longrightarrow> szf = None"
  shows "code_for add_size any_size (Some [sizeBaseType t name len szf]) name (typed_base t len (szf \<noteq> None)) (ser_base t len)"
proof (rule code_forI [OF refl])
  fix \<rho> m v
  assume ok: "typed_base t len (szf \<noteq> None) v" and e: "eval \<rho> m name = Some v"
  show "emits add_size any_size \<rho> [sizeBaseType t name len szf] m (ser_base t len v)"
  proof (cases "t = ''string''")
    case True
    with ok obtain w where "v = GStr w" "0 < len \<longrightarrow> length w \<le> nat len" by (cases v) (auto simp: typed_base_def split: if_splits)
    then show ?thesis using True e assms(2) by (auto simp: emits_size sizeBaseType_def ser_base_def)
  next
    case False
    show ?thesis
    proof (cases "0 < len \<or> szf \<noteq> None")
      case True
      show ?thesis
      proof (cases "t = ''u8''")
        case u8: True
        with ok True obtain bs where "v = GBytes bs" "0 < len \<longrightarrow> length bs = nat len" by (cases v) (auto simp: typed_base_def split: if_splits)
        then show ?thesis using u8 True e assms(3) by (auto simp: emits_size sizeBaseType_def ser_base_def count_of_def)
      next
        case not8: False
        with ok True False obtain vs where vs: "v = GList vs" "0 < len \<longrightarrow> length vs = nat len" "list_all (scalar_ok t) vs"
          by (cases v) (auto simp: typed_base_def split: if_splits)
        have "emits add_size any_size \<rho> [sizeBaseType t name len szf] m (concat (map (ser_scalar t) vs))"
          using False True e assms(3) vs unfolding emits_size length_concat_scalars [OF vs(3)] by (auto simp: sizeBaseType_def count_of_def)
        then show ?thesis using vs(1) by (simp add: ser_base_def)
      qed
    next
      case scalar: False
      with ok False have "scalar_ok t v" by (simp add: typed_base_def)
      then show ?thesis using False scalar by (simp add: emits_size sizeBaseType_def ser_base_scalar length_ser_scalar)
    qed
  qed
qed

lemma ok_ref_go_type:
  "ok_fields seen fs \<Longrightarrow> structGoType fs \<noteq> None"
  "ok_field seen f \<Longrightarrow> fieldGoType f \<noteq> None"
  "ok_ref rf \<Longrightarrow> \<not> is_base (f_Type a) \<Longrightarrow> fieldGoType (Field a g rf so sf) \<noteq> None"
proof (induction seen fs and seen f and rf arbitrary: and and a g so sf rule: ok_fields_ok_field_ok_ref.induct)
  case (2 seen f fs)
  then show ?case by (cases f) (auto split: option.splits)
next
  case (3 seen a g rf so sf)
  then show ?case by (cases "is_base (f_Type a)") auto
next
  case (5 t n st)
  then show ?case by (cases st) (auto simp: base_types split: if_splits)
qed (auto simp: base_types split: option.splits)

lemma size_code:
  "ok_fields seen fs \<Longrightarrow> below lvl parent \<Longrightarrow> record_code add_size any_size (sizeFields lvl parent fs) parent fs"
  "ok_field seen f \<Longrightarrow> below lvl parent \<Longrightarrow> field_code add_size any_size (sizeField lvl parent f) parent f"
  "ok_ref rf \<Longrightarrow> below (Suc lvl) name \<Longrightarrow> code_for add_size any_size (sizeRef lvl name rf) name (typed_ref rf) (ser_ref rf)"
proof (induction seen fs and seen f and rf arbitrary: lvl parent and lvl parent and lvl name rule: ok_fields_ok_field_ok_ref.induct)
  case (1 seen)
  then show ?case by (simp add: sizes.record_code_nil)
next
  case (2 seen f fs)
  then show ?case unfolding sizeFields.simps by (intro sizes.record_code_cons) simp_all
next
  case (3 seen a g rf so sf)
  let ?f = "Field a g rf so sf" and ?n = "Dot parent g"
  have len: "0 \<le> f_Length a" "0 < f_Length a \<Longrightarrow> sf = None" using 3(2) by (auto split: option.splits)
  have b: "below lvl ?n" using 3(3) by simp
  show ?case
  proof (cases "is_base (f_Type a)")
    case True
    have "code_for add_size any_size (sizeField lvl parent ?f) ?n (typed_base (f_Type a) (f_Length a) (sf \<noteq> None)) (ser_base (f_Type a) (f_Length a))"
      using size_base [OF True len(1), of "map_option (Dot parent) sf"] len(2) True by simp
    then show ?thesis using True by (auto simp: field_code_def code_for_def)
  next
    case False
    with 3(2) have ok: "ok_ref rf" "f_Array a \<longrightarrow> 0 < f_Length a \<or> sf \<noteq> None" by auto
    have ref: "below (Suc lvl) e \<Longrightarrow> code_for add_size any_size (sizeRef lvl e rf) e (typed_ref rf) (ser_ref rf)" for e
      using 3(1) False ok(1) by blast
    have "code_for add_size any_size (if f_Array a then over_elements (sf \<noteq> None) lvl ?f ?n (\<lambda>e. sizeRef lvl e rf) else sizeRef lvl ?n rf) ?n
        (\<lambda>v. if f_Array a then case v of GList vs \<Rightarrow> (0 < f_Length a \<longrightarrow> length vs = nat (f_Length a)) \<and> list_all (typed_ref rf) vs | _ \<Rightarrow> False
          else typed_ref rf v)
        (\<lambda>v. if f_Array a then concat (map (ser_ref rf) (items v)) else ser_ref rf v)"
      using sizes.elements_code [of lvl ?n ?f "sf \<noteq> None" "\<lambda>e. sizeRef lvl e rf", OF b _ _ ok_ref_go_type(2) [OF 3(2)] ref] ok(2) len(1)
      unfolding Field.sel by blast
    then show ?thesis using False by (auto simp: field_code_def code_for_def Let_def)
  qed
next
  case (4 t)
  then have t: "is_base t" "t \<noteq> ''string''" by (auto simp: base_types scalar_not_string)
  from size_base [OF t(1), of 0 None name] show ?case
    unfolding sizeRef.simps if_P [OF t(1)] by (rule code_for_cong) (use t(2) in \<open>auto simp: typed_base_def ser_base_scalar\<close>)
next
  case (5 t n st)
  show ?case
  proof (cases st)
    case None
    with 5 have n: "0 \<le> n" "is_base t" by (auto simp: base_types split: if_splits)
    from size_base [OF n(2,1), of None name] show ?thesis
      using None 5(2) by (auto elim!: code_for_cong simp: typed_base_def ser_base_def dest: scalar_not_string split: gval.splits if_splits)
  next
    case (Some fs)
    show ?thesis unfolding Some sizeRef.simps option.case by (rule struct_code(2)) (use 5 Some in \<open>simp\<close>)
  qed
next
  case (6 fs)
  show ?case unfolding sizeRef.simps by (rule struct_code(1)) (use 6 in \<open>simp\<close>)
next
  case (7 fs)
  then obtain n where n: "getUnionSize fs = Some n" "0 < n" by (auto split: option.splits)
  show ?case
  proof (rule code_forI)
    show "sizeRef lvl name (TypeUnion fs) = Some [SizeMul 1 n]" using n by (simp add: sizeBaseType_def)
    fix \<rho> m v
    assume "typed_ref (TypeUnion fs) v"
    then obtain bs where "v = GRec [(fieldUnionData, GBytes bs)]" "n = int (length bs)"
      using n by (elim typed_union) simp
    then show "emits add_size any_size \<rho> [SizeMul 1 n] m (ser_ref (TypeUnion fs) v)" by (simp add: emits_size)
  qed
qed simp_all

section \<open>The bytes of a message\<close>

definition write_bytes :: "byte list \<Rightarrow> gstate \<Rightarrow> gstate" where
  "write_bytes bs s = s\<lparr>st_buf := buf_fill (st_buf s) bs\<rparr>"

text \<open>There is room, and it holds zeros.\<close>

definition has_room :: "gstate \<Rightarrow> byte list \<Rightarrow> bool" where
  "has_room s bs \<longleftrightarrow> wf_buffer (st_buf s) \<and> zeros_at (st_buf s) (length bs) \<and> pos (st_buf s) + length bs \<le> blen (st_buf s)"

interpretation bytes: writer write_bytes has_room
proof
  fix s xs ys
  assume fits: "has_room s (xs @ ys)"
  then have room: "pos (st_buf s) + length xs + length ys \<le> length (mem (st_buf s))" by (simp add: has_room_def wf_buffer_def)
  show "write_bytes ys (write_bytes xs s) = write_bytes (xs @ ys) s" using room by (simp add: write_bytes_def buf_fill_buf_fill)
  show "has_room s xs \<and> has_room (write_bytes xs s) ys"
    using fits room zeros_at_after_fill [of "st_buf s" xs "length ys"] wf_buf_fill [of "st_buf s" xs]
    by (auto simp: has_room_def write_bytes_def zeros_at_add)
qed (simp_all add: write_bytes_def)

lemma emits_bytes:
  "emits write_bytes has_room \<rho> [c] m bs \<longleftrightarrow> (\<forall>s. st_msg s = m \<longrightarrow> has_room s bs \<longrightarrow> run \<rho> c s = Some (write_bytes bs s))"
  by (auto simp: emits_def split: option.splits)

text \<open>A statement that runs an encoder of the codec.\<close>

lemma emits_codec:
  assumes "zeroed_codec enc dec ser valid" "valid v" "\<And>s. st_msg s = m \<Longrightarrow> run \<rho> c s = set_buf s (enc v (st_buf s))"
  shows "emits write_bytes has_room \<rho> [c] m (ser v)"
  unfolding emits_bytes
proof (intro allI impI)
  fix s
  assume s: "st_msg s = m" "has_room s (ser v)"
  then have "enc v (st_buf s) = Some (buf_fill (st_buf s) (ser v))"
    by (intro zeroed_codec.zenc_ser [OF assms(1)] assms(2)) (simp_all add: has_room_def)
  then show "run \<rho> c s = Some (write_bytes (ser v) s)" using assms(3) [OF s(1)] by (simp add: set_buf_def write_bytes_def)
qed

lemma emits_scalar: "scalar_ok t v \<Longrightarrow> eval \<rho> m e = Some v \<Longrightarrow> emits write_bytes has_room \<rho> [EncodeVal t e] m (ser_scalar t v)"
  by (rule emits_codec [OF scalar.zeroed_codec_axioms]) simp_all

lemma emits_blob:
  assumes "eval \<rho> m e = Some (GBytes bs)" "n = int (length bs) \<or> n = 0"
  shows "emits write_bytes has_room \<rho> [EncodeBlob e n] m bs"
  using assms emits_codec [OF w_bytes.zeroed_codec_axioms [of "length bs"], of bs m \<rho> "EncodeBlob e n"] by (auto simp: EncodeBytes_def)

lemma emits_text:
  assumes "eval \<rho> m e = Some (GStr v)" "if 0 < len then length v \<le> nat len \<and> 0 \<notin> set v else length v < 2 ^ 32" "0 \<le> len"
  shows "emits write_bytes has_room \<rho> [EncodeText e len] m (ser_base t len (GStr v))"
proof (cases "0 < len")
  case True
  then obtain n where n: "len = int n" "0 < n" by (metis pos_int_cases)
  show ?thesis using assms n emits_codec [OF zeroed_fixed_string [OF n(2)], of v m \<rho> "EncodeText e len"] by (simp add: ser_base_def)
next
  case False
  then show ?thesis using assms emits_codec [OF w_string.zeroed_codec_axioms, of v m \<rho> "EncodeText e 0"] by (simp add: ser_base_def)
qed

lemma encode_base:
  assumes "is_base t" "0 \<le> len" "0 < len \<Longrightarrow> sf = None" "alloc \<or> t = ''u8'' \<or> \<not> (0 < len \<or> sf \<noteq> None)" "below lvl name"
  shows "code_for write_bytes has_room (encodeBaseType t name len sf alloc) name (typed_base t len (sf \<noteq> None)) (ser_base t len)"
proof (cases "t = ''string''")
  case True
  then have "encodeBaseType t name len sf alloc = Some [EncodeText name len]" by (simp add: encodeBaseType_def scalar_types_def int_types_def)
  then show ?thesis using True assms(2)
    by (elim code_forI) (auto simp: typed_base_def split: gval.splits if_splits intro!: emits_text)
next
  case str: False
  with assms(1) have t: "t \<in> scalar_types" by (simp add: base_types)
  show ?thesis
  proof (cases "0 < len \<or> sf \<noteq> None")
    case False
    then have "encodeBaseType t name len sf alloc = Some [EncodeVal t name]" using t by (auto simp: encodeBaseType_def)
    then show ?thesis using False str by (elim code_forI) (auto simp: typed_base_def ser_base_scalar intro!: emits_scalar)
  next
    case arr: True
    show ?thesis
    proof (cases "t = ''u8''")
      case True
      then have "encodeBaseType t name len sf alloc = Some [EncodeBlob name len]" using arr by (auto simp: encodeBaseType_def)
      then show ?thesis using True arr assms(2)
        by (elim code_forI) (auto simp: typed_base_def ser_base_def split: gval.splits intro!: emits_blob)
    next
      case False
      let ?c = "if len \<noteq> 0 then Const len else Len name" and ?b = "[Pick X (TBase t) name I [EncodeVal t (Loc X)]]"
      have "encodeBaseType t name len sf alloc = Some [For I ?c ?b]" using arr t False assms(4) by (auto simp: encodeBaseType_def)
      then show ?thesis
      proof (rule code_forI)
        fix \<rho> m v
        assume "typed_base t len (sf \<noteq> None) v" and e: "eval \<rho> m name = Some v"
        then obtain vs where vs: "v = GList vs" "0 < len \<longrightarrow> length vs = nat len" "list_all (scalar_ok t) vs"
          using str False arr by (cases v) (auto simp: typed_base_def split: if_splits)
        have "emits write_bytes has_room \<rho> [For I ?c ?b] m (concat (map (ser_scalar t) vs))"
        proof (rule bytes.emits_for)
          show "count_of \<rho> m ?c = Some (int (length vs))" using vs e assms(2) by (auto simp: count_of_def)
          fix k
          assume k: "k < length vs"
          let ?\<rho> = "\<rho>\<lparr>ix := (ix \<rho>)(I := k)\<rparr>"
          have "picked ?\<rho> m (TBase t) name I = Some (vs ! k)" using e k vs(1) assms(5) by (simp add: picked_def)
          then show "emits write_bytes has_room ?\<rho> ?b m (ser_scalar t (vs ! k))"
            by (rule bytes.emits_pick) (use vs(3) k in \<open>auto intro!: emits_scalar simp: list_all_length\<close>)
        qed
        then show "emits write_bytes has_room \<rho> [For I ?c ?b] m (ser_base t len v)" using vs(1) by (simp add: ser_base_def)
      qed
    qed
  qed
qed

lemma emits_count:
  assumes "eval \<rho> m e = Some w" "glen w = Some k" "scalar_ok t (GNum (int k))"
  shows "emits write_bytes has_room \<rho> [EncodeLen t e] m (ser_scalar t (GNum (int k)))"
  by (rule emits_codec [OF scalar.zeroed_codec_axioms assms(3)]) (use assms in \<open>simp add: count_of_def enc_val_def\<close>)

lemma encode_code:
  "ok_fields seen fs \<Longrightarrow> below lvl parent \<Longrightarrow> record_code write_bytes has_room (encodeFields lvl parent fs) parent fs"
  "ok_field seen f \<Longrightarrow> below lvl parent \<Longrightarrow>
     field_code write_bytes has_room (encodeField lvl parent (Dot parent (fd_GoName f)) f) parent f"
  "ok_ref rf \<Longrightarrow> below (Suc lvl) name \<Longrightarrow> code_for write_bytes has_room (encodeRef lvl name rf) name (typed_ref rf) (ser_ref rf)"
proof (induction seen fs and seen f and rf arbitrary: lvl parent and lvl parent and lvl name rule: ok_fields_ok_field_ok_ref.induct)
  case (1 seen)
  then show ?case by (simp add: bytes.record_code_nil)
next
  case (2 seen f fs)
  then show ?case unfolding encodeFields.simps by (intro bytes.record_code_cons) simp_all
next
  case (3 seen a g rf so sf)
  let ?f = "Field a g rf so sf" and ?n = "Dot parent g"
  have len: "0 \<le> f_Length a" "0 < f_Length a \<Longrightarrow> sf = None" using 3(2) by (auto split: option.splits)
  have b: "below lvl ?n" using 3(3) by simp
  show ?case
  proof (cases "is_base (f_Type a)")
    case True
    show ?thesis
    proof (cases so)
      case None
      have "code_for write_bytes has_room (encodeField lvl parent ?n ?f) ?n (typed_base (f_Type a) (f_Length a) (sf \<noteq> None)) (ser_base (f_Type a) (f_Length a))"
        using encode_base [OF True len(1), of "map_option (Dot parent) sf" True lvl ?n] len(2) True None b by simp
      then show ?thesis using True None by (auto simp: field_code_def code_for_def)
    next
      case (Some c)
      with 3(2) True have t: "f_Type a \<in> int_types" "f_Length a = 0" "sf = None" by auto
      have "encodeField lvl parent ?n ?f = Some [EncodeLen (f_Type a) (Dot parent c)]" using Some True by simp
      moreover have "emits write_bytes has_room \<rho> [EncodeLen (f_Type a) (Dot parent c)] m (ser_field ?f v)"
        if e: "eval \<rho> m parent = Some (GRec r)" and ty: "typed_field r ?f v" for \<rho> m r v
      proof -
        from ty Some obtain w k where w: "map_of r c = Some w" "glen w = Some k" "v = GNum (int k)" by (auto split: option.splits)
        have "scalar_ok (f_Type a) v" using ty True t w(3) by (auto simp: typed_base_def int_types_def split: if_splits)
        then show ?thesis using emits_count [of \<rho> m "Dot parent c" w k "f_Type a"] e w True by (simp add: ser_base_scalar)
      qed
      ultimately show ?thesis by (auto simp: field_code_def)
    qed
  next
    case False
    with 3(2) have ok: "ok_ref rf" "f_Array a \<longrightarrow> 0 < f_Length a \<or> sf \<noteq> None" "so = None" "f_SizeFrom a \<noteq> '''' \<longleftrightarrow> sf \<noteq> None" by auto
    have ref: "below (Suc lvl) e \<Longrightarrow> code_for write_bytes has_room (encodeRef lvl e rf) e (typed_ref rf) (ser_ref rf)" for e
      using 3(1) False ok(1) by blast
    have "code_for write_bytes has_room
        (if f_Array a then over_elements (f_SizeFrom a \<noteq> '''') lvl ?f ?n (\<lambda>e. encodeRef lvl e rf) else encodeRef lvl ?n rf) ?n
        (\<lambda>v. if f_Array a then case v of GList vs \<Rightarrow> (0 < f_Length a \<longrightarrow> length vs = nat (f_Length a)) \<and> list_all (typed_ref rf) vs | _ \<Rightarrow> False
          else typed_ref rf v)
        (\<lambda>v. if f_Array a then concat (map (ser_ref rf) (items v)) else ser_ref rf v)"
      using bytes.elements_code [of lvl ?n ?f "f_SizeFrom a \<noteq> ''''" "\<lambda>e. encodeRef lvl e rf", OF b _ _ ok_ref_go_type(2) [OF 3(2)] ref] ok(2,4) len(1)
      unfolding Field.sel by blast
    then show ?thesis using False ok(3) by (auto simp: field_code_def code_for_def Let_def)
  qed
next
  case (4 t)
  then have t: "is_base t" "t \<noteq> ''string''" by (auto simp: base_types scalar_not_string)
  have "code_for write_bytes has_room (encodeBaseType t name 0 None False) name (typed_base t 0 False) (ser_base t 0)"
    using encode_base [OF t(1), of 0 None False "Suc lvl" name] 4(2) by simp
  then show ?case
    unfolding encodeRef.simps by (rule code_for_cong) (use t(2) in \<open>auto simp: typed_base_def ser_base_scalar\<close>)
next
  case (5 t n st)
  show ?case
  proof (cases st)
    case None
    with 5 have n: "0 \<le> n" "is_base t" "0 < n \<Longrightarrow> t = ''u8''" "t \<noteq> ''string''" by (auto simp: base_types dest: scalar_not_string split: if_splits)
    have "code_for write_bytes has_room (encodeBaseType t name n None False) name (typed_base t n False) (ser_base t n)"
      using encode_base [OF n(2,1), of None False "Suc lvl" name] n(3) 5(3) None by auto
    then have "code_for write_bytes has_room (encodeBaseType t name n None False) name (typed_base t n False) (ser_base t 0)"
      by (rule code_for_cong) (use n(4) in \<open>auto simp: typed_base_def ser_base_def split: gval.splits if_splits\<close>)
    moreover have "(if 0 < n then n else 0) = n" using n(1) by simp
    ultimately show ?thesis using None by simp
  next
    case (Some fs)
    show ?thesis unfolding Some encodeRef.simps option.case by (rule struct_code(2)) (use 5 Some in \<open>simp\<close>)
  qed
next
  case (6 fs)
  show ?case unfolding encodeRef.simps by (rule struct_code(1)) (use 6 in \<open>simp\<close>)
next
  case (7 fs)
  then obtain n where n: "getUnionSize fs = Some n" "0 < n" by (auto split: option.splits)
  show ?case
  proof (rule code_forI)
    show "encodeRef lvl name (TypeUnion fs) = Some [EncodeBlob (Dot name fieldUnionData) n]" using n by simp
    fix \<rho> m v
    assume "typed_ref (TypeUnion fs) v" and e: "eval \<rho> m name = Some v"
    then obtain bs where "v = GRec [(fieldUnionData, GBytes bs)]" "n = int (length bs)"
      using n by (elim typed_union) simp
    then show "emits write_bytes has_room \<rho> [EncodeBlob (Dot name fieldUnionData) n] m (ser_ref (TypeUnion fs) v)"
      using e by (simp add: emits_blob)
  qed
qed simp_all

end
