(* ===== verification/GenDecode.thy ===== *)
theory GenDecode
  imports GenWire
begin

text \<open>
  The code of \<open>Unmarshal\<close> reads back what the code of \<open>Marshal\<close> wrote, into any message of the right
  shape.
\<close>

section \<open>Assignments\<close>

lemma set_field_names [simp]: "map fst (set_field f v r) = map fst r"
  by (induction r) auto

lemma set_field_dom [simp]: "fst ` set (set_field f v r) = fst ` set r"
  by (metis list.set_map set_field_names)

lemma set_field_get: "map_of (set_field f v r) g = (if g = f \<and> f \<in> fst ` set r then Some v else map_of r g)"
  by (induction r) (fastforce split: if_splits)+

lemma set_field_twice [simp]: "set_field f v (set_field f w r) = set_field f v r"
  by (induction r) auto

lemma set_field_same: "map_of r f = Some v \<Longrightarrow> set_field f v r = r"
  by (induction r) (auto split: if_splits)

text \<open>An expression that can be assigned to.\<close>

fun place :: "genv \<Rightarrow> gval \<Rightarrow> gexpr \<Rightarrow> bool" where
  "place \<rho> m M \<longleftrightarrow> True"
| "place \<rho> m (Loc x) \<longleftrightarrow> False"
| "place \<rho> m (Dot e f) \<longleftrightarrow> place \<rho> m e \<and> (case eval \<rho> m e of Some (GRec r) \<Rightarrow> f \<in> fst ` set r | _ \<Rightarrow> False)"
| "place \<rho> m (At e i) \<longleftrightarrow> place \<rho> m e \<and> (case eval \<rho> m e of Some (GList vs) \<Rightarrow> ix \<rho> i < length vs | _ \<Rightarrow> False)"

lemma assign_total: "place \<rho> m p \<Longrightarrow> \<exists>m'. assign \<rho> p v m = Some m'"
  by (induction p arbitrary: v) (auto split: option.splits gval.splits)

lemma assign_eval: "assign \<rho> p v m = Some m' \<Longrightarrow> eval \<rho> m' p = Some v"
  by (induction p arbitrary: v) (auto simp: set_field_get split: option.splits gval.splits if_splits)

lemma assign_Dot:
  assumes "assign \<rho> (Dot e f) v m = Some m1"
  obtains r where "eval \<rho> m e = Some (GRec r)" "f \<in> fst ` set r" "assign \<rho> e (GRec (set_field f v r)) m = Some m1"
    "eval \<rho> m1 e = Some (GRec (set_field f v r))"
proof -
  from assms obtain r where r: "eval \<rho> m e = Some (GRec r)" by (auto split: option.splits gval.splits)
  with assms have "f \<in> fst ` set r" "assign \<rho> e (GRec (set_field f v r)) m = Some m1" by (auto split: if_splits)
  with r that show thesis using assign_eval by blast
qed

lemma assign_At:
  assumes "assign \<rho> (At e i) v m = Some m1"
  obtains vs where "eval \<rho> m e = Some (GList vs)" "ix \<rho> i < length vs" "assign \<rho> e (GList (vs[ix \<rho> i := v])) m = Some m1"
    "eval \<rho> m1 e = Some (GList (vs[ix \<rho> i := v]))"
proof -
  from assms obtain vs where vs: "eval \<rho> m e = Some (GList vs)" by (auto split: option.splits gval.splits)
  with assms have "ix \<rho> i < length vs" "assign \<rho> e (GList (vs[ix \<rho> i := v])) m = Some m1" by (auto split: if_splits)
  with vs that show thesis using assign_eval by blast
qed

lemma assign_assign: "assign \<rho> p v m = Some m1 \<Longrightarrow> assign \<rho> p w m1 = assign \<rho> p w m"
proof (induction p arbitrary: v w)
  case (Dot e f)
  from Dot.prems show ?case by (rule assign_Dot) (simp add: Dot.IH)
next
  case (At e i)
  from At.prems show ?case by (rule assign_At) (simp add: At.IH)
qed auto

lemma assign_place: "assign \<rho> p v m = Some m1 \<Longrightarrow> place \<rho> m p \<Longrightarrow> place \<rho> m1 p"
proof (induction p arbitrary: v)
  case (Dot e f)
  from Dot.prems(1) show ?case by (rule assign_Dot) (use Dot in \<open>simp\<close>)
next
  case (At e i)
  from At.prems(1) show ?case by (rule assign_At) (use At in \<open>simp\<close>)
qed auto

lemma assign_same: "place \<rho> m p \<Longrightarrow> eval \<rho> m p = Some v \<Longrightarrow> assign \<rho> p v m = Some m"
  by (induction p arbitrary: v) (auto split: option.splits gval.splits if_splits simp: set_field_same)

lemma assign_below:
  "below n e \<Longrightarrow> (\<And>k. k < n \<Longrightarrow> ix \<rho>' (J k) = ix \<rho> (J k) \<and> lv \<rho>' (V k) = lv \<rho> (V k)) \<Longrightarrow> assign \<rho>' e v m = assign \<rho> e v m"
  by (induction e arbitrary: v) (auto split: ivar.splits gval.splits option.splits simp: eval_below [of n _ \<rho>' \<rho>])

lemma place_below:
  "below n e \<Longrightarrow> (\<And>k. k < n \<Longrightarrow> ix \<rho>' (J k) = ix \<rho> (J k) \<and> lv \<rho>' (V k) = lv \<rho> (V k)) \<Longrightarrow> place \<rho>' m e = place \<rho> m e"
  by (induction e) (auto split: ivar.splits gval.splits option.splits simp: eval_below [of n _ \<rho>' \<rho>])

lemma assign_loop [simp]:
  "below n e \<Longrightarrow> assign (\<rho>\<lparr>ix := (ix \<rho>)(J n := k)\<rparr>) e v m = assign \<rho> e v m"
  "below n e \<Longrightarrow> assign (\<rho>\<lparr>ix := (ix \<rho>)(I := k)\<rparr>) e v m = assign \<rho> e v m"
  "below n e \<Longrightarrow> place (\<rho>\<lparr>ix := (ix \<rho>)(J n := k)\<rparr>) m e = place \<rho> m e"
  "below n e \<Longrightarrow> place (\<rho>\<lparr>ix := (ix \<rho>)(I := k)\<rparr>) m e = place \<rho> m e"
  by (auto intro!: assign_below place_below)

section \<open>Code that reads\<close>

definition at_hand :: "gstate \<Rightarrow> byte list \<Rightarrow> bool" where
  "at_hand s bs \<longleftrightarrow> wf_buffer (st_buf s) \<and> holds_at (st_buf s) bs \<and> pos (st_buf s) + length bs \<le> blen (st_buf s)"

definition after :: "gstate \<Rightarrow> gval \<Rightarrow> byte list \<Rightarrow> gstate" where
  "after s m bs = s\<lparr>st_msg := m, st_buf := (st_buf s)\<lparr>pos := pos (st_buf s) + length bs\<rparr>\<rparr>"

text \<open>The code reads the bytes and assigns the value.\<close>

definition reads :: "genv \<Rightarrow> gstmt list \<Rightarrow> gexpr \<Rightarrow> gval \<Rightarrow> gval \<Rightarrow> byte list \<Rightarrow> bool" where
  "reads \<rho> c p m v bs \<longleftrightarrow>
     (\<forall>s. st_msg s = m \<longrightarrow> at_hand s bs \<longrightarrow> (\<exists>m'. assign \<rho> p v m = Some m' \<and> runs \<rho> c s = Some (after s m' bs)))"

lemma after_msg [simp]: "st_msg (after s m bs) = m"
  by (simp add: after_def)

lemma after_after [simp]: "after (after s m xs) m' ys = after s m' (xs @ ys)"
  by (simp add: after_def add.assoc)

lemma after_nil: "st_msg s = m \<Longrightarrow> after s m [] = s"
  by (simp add: after_def)

lemma at_hand_append: "at_hand s (xs @ ys) \<Longrightarrow> at_hand s xs \<and> at_hand (after s m xs) ys"
  by (auto simp: at_hand_def after_def holds_at_append wf_buffer_def)

lemma reads_codec:
  assumes "zeroed_codec enc dec ser valid" "valid v" "place \<rho> m p"
    and "\<And>s. st_msg s = m \<Longrightarrow> run \<rho> c s = store \<rho> p s (map_option (map_prod g id) (dec (st_buf s)))"
  shows "reads \<rho> [c] p m (g v) (ser v)"
  unfolding reads_def
proof (intro allI impI)
  fix s
  assume s: "st_msg s = m" "at_hand s (ser v)"
  from assign_total [OF assms(3)] obtain m' where m': "assign \<rho> p (g v) m = Some m'" by blast
  have "dec (st_buf s) = Some (v, (st_buf s)\<lparr>pos := pos (st_buf s) + length (ser v)\<rparr>)"
    using s(2) by (intro zeroed_codec.zdec_ser [OF assms(1)] assms(2)) (simp_all add: at_hand_def)
  then show "\<exists>m'. assign \<rho> p (g v) m = Some m' \<and> runs \<rho> [c] s = Some (after s m' (ser v))"
    using assms(4) [OF s(1)] s(1) m' by (simp add: store_def after_def)
qed

lemma reads_scalar: "scalar_ok t v \<Longrightarrow> place \<rho> m p \<Longrightarrow> reads \<rho> [DecodeVal p t] p m v (ser_scalar t v)"
  using reads_codec [OF scalar.zeroed_codec_axioms, of t v \<rho> m p "DecodeVal p t" id] by (simp add: prod.map_id0 option.map_id)

lemma reads_text:
  assumes "if 0 < len then length v \<le> nat len \<and> 0 \<notin> set v else length v < 2 ^ 32" "0 \<le> len" "place \<rho> m p"
  shows "reads \<rho> [DecodeText p len] p m (GStr v) (ser_base t len (GStr v))"
proof (cases "0 < len")
  case True
  then obtain n where n: "len = int n" "0 < n" by (metis pos_int_cases)
  show ?thesis using assms n reads_codec [OF zeroed_fixed_string [OF n(2)], of v \<rho> m p "DecodeText p len" GStr] by (simp add: ser_base_def)
next
  case False
  then show ?thesis using assms reads_codec [OF w_string.zeroed_codec_axioms, of v \<rho> m p "DecodeText p 0" GStr] by (simp add: ser_base_def)
qed

lemma reads_blob:
  assumes "place \<rho> m p" "eval \<rho> m p = Some (GBytes old)" "length old = length bs" "count_of \<rho> m c = Some (int (length bs))"
  shows "reads \<rho> [DecodeBlob p c] p m (GBytes bs) bs"
  unfolding reads_def
proof (intro allI impI)
  fix s
  assume s: "st_msg s = m" "at_hand s bs"
  from assign_total [OF assms(1)] obtain m' where m': "assign \<rho> p (GBytes bs) m = Some m'" by blast
  have "DecodeBytes (int (length bs)) (st_buf s) = Some (bs, (st_buf s)\<lparr>pos := pos (st_buf s) + length bs\<rparr>)"
    using s(2) by (intro w_bytes.dec_ser) (simp_all add: at_hand_def)
  then show "\<exists>m'. assign \<rho> p (GBytes bs) m = Some m' \<and> runs \<rho> [DecodeBlob p c] s = Some (after s m' bs)"
    using assms s(1) m' by (simp add: store_def after_def copy_into_full)
qed

text \<open>A new slice and what is then read into it.\<close>

lemma reads_make:
  assumes "place \<rho> m p" "count_of \<rho> m n = Some (int k)"
    and "\<And>m1. assign \<rho> p (zero_val (TArr k ty)) m = Some m1 \<Longrightarrow> reads \<rho> c p m1 v bs"
  shows "reads \<rho> (MakeOf p ty n # c) p m v bs"
  unfolding reads_def
proof (intro allI impI)
  fix s
  assume s: "st_msg s = m" "at_hand s bs"
  from assign_total [OF assms(1)] obtain m1 where m1: "assign \<rho> p (zero_val (TArr k ty)) m = Some m1" by blast
  let ?s = "s\<lparr>st_msg := m1\<rparr>"
  have "run \<rho> (MakeOf p ty n) s = Some ?s" using m1 assms(2) s(1) by (simp add: store_def)
  moreover have "at_hand ?s bs" using s(2) by (simp add: at_hand_def)
  then obtain m' where "assign \<rho> p v m1 = Some m'" "runs \<rho> c ?s = Some (after ?s m' bs)"
    using assms(3) [OF m1] unfolding reads_def by (metis gstate.select_convs(1) gstate.update_convs(1) gstate.surjective)
  ultimately show "\<exists>m'. assign \<rho> p v m = Some m' \<and> runs \<rho> (MakeOf p ty n # c) s = Some (after s m' bs)"
    using assign_assign [OF m1] by (simp add: after_def)
qed

section \<open>Loops\<close>

lemma loop_reads:
  assumes p: "below lvl p" "i = I \<or> i = J lvl"
    and body: "\<And>k m ws. k < length vs \<Longrightarrow> eval \<rho> m p = Some (GList ws) \<Longrightarrow> length ws = length vs \<Longrightarrow> ws ! k = olds ! k \<Longrightarrow> place \<rho> m p \<Longrightarrow>
      reads (\<rho>\<lparr>ix := (ix \<rho>)(i := k)\<rparr>) b (At p i) m (vs ! k) (ser (vs ! k))"
    and n: "length olds = length vs"
  shows "j \<le> length vs \<Longrightarrow> eval \<rho> (st_msg s) p = Some (GList ws) \<Longrightarrow> length ws = length vs \<Longrightarrow> drop j ws = drop j olds \<Longrightarrow>
    place \<rho> (st_msg s) p \<Longrightarrow> at_hand s (concat (map ser (drop j vs))) \<Longrightarrow>
    \<exists>m'. assign \<rho> p (GList (take j ws @ drop j vs)) (st_msg s) = Some m' \<and>
      loop j (length vs - j) (\<lambda>k. runs (\<rho>\<lparr>ix := (ix \<rho>)(i := k)\<rparr>) b) s = Some (after s m' (concat (map ser (drop j vs))))"
proof (induction "length vs - j" arbitrary: j s ws)
  case 0
  then have "take j ws @ drop j vs = ws" "length vs - j = 0" "j = length vs" by simp_all
  then show ?case using assign_same [OF 0(6,3)] by (simp add: after_nil)
next
  case (Suc d)
  from Suc.hyps(2) have j: "j < length vs" "d = length vs - Suc j" by simp_all
  let ?v = "vs ! j" and ?rest = "drop (Suc j) vs"
  let ?\<rho> = "\<rho>\<lparr>ix := (ix \<rho>)(i := j)\<rparr>"
  have vs: "drop j vs = ?v # ?rest" using j(1) by (simp add: Cons_nth_drop_Suc)
  have hand: "at_hand s (ser ?v)" "\<And>m. at_hand (after s m (ser ?v)) (concat (map ser ?rest))"
    using Suc.prems(6) at_hand_append [of s "ser ?v" "concat (map ser ?rest)"] unfolding vs by auto
  have "ws ! j = olds ! j" using Suc.prems(3,4) j(1) n by (metis nth_via_drop drop_eq_Nil2 linorder_not_le Cons_nth_drop_Suc)
  from body [OF j(1) Suc.prems(2,3) this Suc.prems(5)] hand(1) obtain m1 where
    m1: "assign ?\<rho> (At p i) ?v (st_msg s) = Some m1" "runs ?\<rho> b s = Some (after s m1 (ser ?v))" unfolding reads_def by blast
  have env: "eval ?\<rho> m p = eval \<rho> m p" "assign ?\<rho> p w m = assign \<rho> p w m" for m w using p by auto
  from m1(1) Suc.prems(2,3) j(1) have a: "assign \<rho> p (GList (ws[j := ?v])) (st_msg s) = Some m1" by (simp add: env)
  have drops: "drop (Suc j) (ws[j := ?v]) = drop (Suc j) olds" using Suc.prems(4) by (metis Suc_n_not_le_n drop_Suc drop_update_cancel lessI tl_drop)
  from Suc.hyps(1) [OF j(2), of "after s m1 (ser ?v)" "ws[j := ?v]"] obtain m' where
    m': "assign \<rho> p (GList (take (Suc j) (ws[j := ?v]) @ ?rest)) m1 = Some m'"
      "loop (Suc j) (length vs - Suc j) (\<lambda>k. runs (\<rho>\<lparr>ix := (ix \<rho>)(i := k)\<rparr>) b) (after s m1 (ser ?v)) =
       Some (after (after s m1 (ser ?v)) m' (concat (map ser ?rest)))"
    using j(1) assign_eval [OF a] assign_place [OF a Suc.prems(5)] hand(2) drops Suc.prems(3) by auto
  have "take (Suc j) (ws[j := ?v]) @ ?rest = take j ws @ drop j vs"
    using j(1) Suc.prems(3) vs by (simp add: take_Suc_conv_app_nth)
  then have "assign \<rho> p (GList (take j ws @ drop j vs)) (st_msg s) = Some m'" using m'(1) assign_assign [OF a] by simp
  moreover have "length vs - j = Suc (length vs - Suc j)" using j(1) by simp
  ultimately show ?case using m1(2) m'(2) vs by auto
qed

lemma reads_for:
  assumes "below lvl p" "i = I \<or> i = J lvl"
    and "\<And>k m ws. k < length vs \<Longrightarrow> eval \<rho> m p = Some (GList ws) \<Longrightarrow> length ws = length vs \<Longrightarrow> ws ! k = olds ! k \<Longrightarrow> place \<rho> m p \<Longrightarrow>
      reads (\<rho>\<lparr>ix := (ix \<rho>)(i := k)\<rparr>) b (At p i) m (vs ! k) (ser (vs ! k))"
    and "length olds = length vs" "eval \<rho> m p = Some (GList olds)" "place \<rho> m p" "count_of \<rho> m c = Some (int (length vs))"
  shows "reads \<rho> [For i c b] p m (GList vs) (concat (map ser vs))"
  unfolding reads_def
proof (intro allI impI)
  fix s
  assume s: "st_msg s = m" "at_hand s (concat (map ser vs))"
  have "\<exists>m'. assign \<rho> p (GList (take 0 olds @ drop 0 vs)) (st_msg s) = Some m' \<and>
      loop 0 (length vs - 0) (\<lambda>k. runs (\<rho>\<lparr>ix := (ix \<rho>)(i := k)\<rparr>) b) s = Some (after s m' (concat (map ser (drop 0 vs))))"
    by (rule loop_reads [OF assms(1,2)]) (use s assms(3-6) in \<open>simp_all\<close>)
  then show "\<exists>m'. assign \<rho> p (GList vs) m = Some m' \<and> runs \<rho> [For i c b] s = Some (after s m' (concat (map ser vs)))"
    using s(1) assms(7) by auto
qed

section \<open>Base types\<close>

lemma decode_base:
  assumes t: "is_base t" and len: "0 \<le> len" "0 < len \<Longrightarrow> sf = None" and b: "below lvl name"
  shows "\<exists>c. decodeBaseType t name len sf True = Some c \<and>
    (\<forall>\<rho> m v. typed_base t len (sf \<noteq> None) v \<longrightarrow> place \<rho> m name \<longrightarrow>
       (\<forall>e k. sf = Some e \<longrightarrow> glen v = Some k \<longrightarrow> eval \<rho> m e = Some (GNum (int k))) \<longrightarrow> reads \<rho> c name m v (ser_base t len v))"
proof (cases "t = ''string''")
  case True
  then have "decodeBaseType t name len sf True = Some [DecodeText name len]" by (simp add: decodeBaseType_def scalar_types_def int_types_def)
  then show ?thesis using True len(1)
    by (auto simp: typed_base_def split: gval.splits if_splits intro!: reads_text)
next
  case str: False
  with t have t: "t \<in> scalar_types" by (simp add: base_types)
  show ?thesis
  proof (cases "0 < len \<or> sf \<noteq> None")
    case False
    then have "decodeBaseType t name len sf True = Some [DecodeVal name t]" using t by (auto simp: decodeBaseType_def)
    then show ?thesis using False str by (auto simp: typed_base_def ser_base_scalar intro!: reads_scalar)
  next
    case arr: True
    define n where "n = (if 0 < len then Const len else case sf of Some e \<Rightarrow> Val e | None \<Rightarrow> Const 0)"
    have count: "count_of \<rho> m n = Some (int k)"
      if "\<forall>e k. sf = Some e \<longrightarrow> glen v = Some k \<longrightarrow> eval \<rho> m e = Some (GNum (int k))" "glen v = Some k" "0 < len \<longrightarrow> k = nat len" for \<rho> m v k
      using that arr len by (auto simp: n_def count_of_def split: option.splits)
    show ?thesis
    proof (cases "t = ''u8''")
      case True
      have "decodeBaseType t name len sf True = Some [MakeOf name (TBase t) n, DecodeBlob name (Len name)]"
        using True arr by (simp add: decodeBaseType_def n_def)
      moreover have "reads \<rho> [MakeOf name (TBase t) n, DecodeBlob name (Len name)] name m v (ser_base t len v)"
        if v: "typed_base t len (sf \<noteq> None) v" and p: "place \<rho> m name"
          and e: "\<forall>e k. sf = Some e \<longrightarrow> glen v = Some k \<longrightarrow> eval \<rho> m e = Some (GNum (int k))" for \<rho> m v
      proof -
        from v True arr obtain bs where bs: "v = GBytes bs" "0 < len \<longrightarrow> length bs = nat len"
          by (cases v) (auto simp: typed_base_def split: if_splits)
        have "reads \<rho> [MakeOf name (TBase t) n, DecodeBlob name (Len name)] name m (GBytes bs) bs"
        proof (rule reads_make [OF p])
          show "count_of \<rho> m n = Some (int (length bs))" using count [OF e] bs by simp
          fix m1
          assume a: "assign \<rho> name (zero_val (TArr (length bs) (TBase t))) m = Some m1"
          then have "eval \<rho> m1 name = Some (GBytes (replicate (length bs) 0))" using assign_eval True by fastforce
          then show "reads \<rho> [DecodeBlob name (Len name)] name m1 (GBytes bs) bs"
            using assign_place [OF a p] reads_blob [of \<rho> m1 name "replicate (length bs) 0" bs] by (simp add: count_of_def)
        qed
        then show ?thesis using bs(1) by (simp add: ser_base_def)
      qed
      ultimately show ?thesis by blast
    next
      case False
      let ?c = "[MakeOf name (TBase t) n, For I (Len name) [DecodeVal (At name I) t]]"
      have "decodeBaseType t name len sf True = Some ?c" using t arr False by (simp add: decodeBaseType_def n_def)
      moreover have "reads \<rho> ?c name m v (ser_base t len v)"
        if v: "typed_base t len (sf \<noteq> None) v" and p: "place \<rho> m name"
          and e: "\<forall>e k. sf = Some e \<longrightarrow> glen v = Some k \<longrightarrow> eval \<rho> m e = Some (GNum (int k))" for \<rho> m v
      proof -
        from v str False arr obtain vs where vs: "v = GList vs" "0 < len \<longrightarrow> length vs = nat len" "list_all (scalar_ok t) vs"
          by (cases v) (auto simp: typed_base_def split: if_splits)
        have "reads \<rho> ?c name m (GList vs) (concat (map (ser_scalar t) vs))"
        proof (rule reads_make [OF p])
          show "count_of \<rho> m n = Some (int (length vs))" using count [OF e] vs by simp
          fix m1
          assume a: "assign \<rho> name (zero_val (TArr (length vs) (TBase t))) m = Some m1"
          then have ev: "eval \<rho> m1 name = Some (GList (replicate (length vs) (zero_val (TBase t))))" using assign_eval False by fastforce
          show "reads \<rho> [For I (Len name) [DecodeVal (At name I) t]] name m1 (GList vs) (concat (map (ser_scalar t) vs))"
          proof (rule reads_for [OF b _ _ _ ev assign_place [OF a p]])
            fix k m ws
            assume "k < length vs" "eval \<rho> m name = Some (GList ws)" "length ws = length vs" "place \<rho> m name"
            then show "reads (\<rho>\<lparr>ix := (ix \<rho>)(I := k)\<rparr>) [DecodeVal (At name I) t] (At name I) m (vs ! k) (ser_scalar t (vs ! k))"
              using vs(3) b by (intro reads_scalar) (auto simp: list_all_length)
          qed (simp_all add: count_of_def ev)
        qed
        then show ?thesis using vs(1) by (simp add: ser_base_def)
      qed
      ultimately show ?thesis by blast
    qed
  qed
qed

section \<open>Messages of the right shape\<close>

text \<open>What the Go type of a variable says of its value: the lengths of arrays and the fields of structs.\<close>

fun shaped_all :: "Field list \<Rightarrow> (string \<times> gval) list \<Rightarrow> bool"
  and shaped_field :: "Field \<Rightarrow> gval \<Rightarrow> bool"
  and shaped_ref :: "TypeRef \<Rightarrow> gval \<Rightarrow> bool" where
  "shaped_all [] r \<longleftrightarrow> True"
| "shaped_all (f # fs) r \<longleftrightarrow>
     (case map_of r (fd_GoName f) of None \<Rightarrow> False | Some v \<Rightarrow> shaped_field f v) \<and> shaped_all fs r"
| "shaped_field (Field a g rf so sf) v \<longleftrightarrow>
     (if is_base (f_Type a) then True
      else if f_Array a then
        0 < f_Length a \<longrightarrow> (case v of GList vs \<Rightarrow> length vs = nat (f_Length a) \<and> list_all (shaped_ref rf) vs | _ \<Rightarrow> False)
      else shaped_ref rf v)"
| "shaped_ref (TypeEnum t) v \<longleftrightarrow> True"
| "shaped_ref (TypeAlias t n st) v \<longleftrightarrow>
     (case st of Some fs \<Rightarrow> (case v of GRec r \<Rightarrow> map fst r = map fd_GoName fs \<and> shaped_all fs r | _ \<Rightarrow> False)
      | None \<Rightarrow> 0 < n \<longrightarrow> (case v of GBytes bs \<Rightarrow> length bs = nat n | _ \<Rightarrow> False))"
| "shaped_ref (TypeStruct fs) v \<longleftrightarrow> (case v of GRec r \<Rightarrow> map fst r = map fd_GoName fs \<and> shaped_all fs r | _ \<Rightarrow> False)"
| "shaped_ref (TypeUnion fs) v \<longleftrightarrow>
     (case v of GRec [(n, GBytes bs)] \<Rightarrow> n = fieldUnionData \<and> getUnionSize fs = Some (int (length bs)) | _ \<Rightarrow> False)"
| "shaped_ref NoRef v \<longleftrightarrow> False"

definition message_shaped :: "Field list \<Rightarrow> gval \<Rightarrow> bool" where "message_shaped fs v \<longleftrightarrow> shaped_ref (TypeStruct fs) v"

lemma shaped_union:
  assumes "shaped_ref (TypeUnion fs) v"
  obtains bs where "v = GRec [(fieldUnionData, GBytes bs)]" "getUnionSize fs = Some (int (length bs))"
proof (rule typed_union [of fs v])
  show "typed_ref (TypeUnion fs) v" using assms by simp
qed (rule that)

lemma ok_fields_fresh: "ok_fields seen fs \<Longrightarrow> f \<in> set fs \<Longrightarrow> fd_GoName f \<notin> set seen"
  by (induction fs arbitrary: seen) fastforce+

lemma ok_fields_distinct: "ok_fields seen fs \<Longrightarrow> distinct (map fd_GoName fs)"
  by (induction fs arbitrary: seen) (auto dest: ok_fields_fresh)

lemma ok_fields_each: "ok_fields seen fs \<Longrightarrow> f \<in> set fs \<Longrightarrow> \<exists>seen. ok_field seen f"
  by (induction fs arbitrary: seen) auto

text \<open>A message is made with zero values.\<close>

lemma shaped_all_iff: "shaped_all fs r \<longleftrightarrow> (\<forall>f \<in> set fs. \<exists>v. map_of r (fd_GoName f) = Some v \<and> shaped_field f v)"
  by (induction fs) (auto split: option.splits)

lemma struct_zero:
  assumes "structGoType fs = Some tys" "distinct (map fd_GoName fs)"
    and "\<And>f ty. f \<in> set fs \<Longrightarrow> getFieldType f = Some ty \<Longrightarrow> shaped_field f (zero_val ty)"
  shows "shaped_ref (TypeStruct fs) (zero_val (TStruct tys))"
proof -
  let ?z = "map (\<lambda>(n, ty). (n, zero_val ty))"
  from assms(1) have t: "map fst tys = map fd_GoName fs \<and> (\<forall>k < length fs. getFieldType (fs ! k) = Some (snd (tys ! k)))"
  proof (induction fs arbitrary: tys)
    case (Cons f fs)
    then obtain ty tys' where "getFieldType f = Some ty" "structGoType fs = Some tys'" "tys = (fd_GoName f, ty) # tys'"
      by (auto split: option.splits)
    with Cons.IH show ?case by (auto simp: nth_Cons split: nat.splits)
  qed simp
  then have len: "length tys = length fs" by (metis length_map)
  have names: "map fst (?z tys) = map fd_GoName fs" using t by (simp add: comp_def case_prod_beta)
  have "\<exists>v. map_of (?z tys) (fd_GoName f) = Some v \<and> shaped_field f v" if "f \<in> set fs" for f
  proof -
    from that obtain k where k: "k < length fs" "f = fs ! k" by (auto simp: in_set_conv_nth)
    have e: "?z tys ! k = (fd_GoName f, zero_val (snd (tys ! k)))"
      using k t len by (metis (no_types, lifting) case_prod_beta length_map nth_map)
    then have "(fd_GoName f, zero_val (snd (tys ! k))) \<in> set (?z tys)" using k(1) len by (metis length_map nth_mem)
    moreover have "distinct (map fst (?z tys))" using assms(2) names by simp
    ultimately have "map_of (?z tys) (fd_GoName f) = Some (zero_val (snd (tys ! k)))" by (rule map_of_is_SomeI [rotated])
    then show ?thesis using assms(3) [OF that] t k by blast
  qed
  then show ?thesis using names by (simp add: shaped_all_iff)
qed

lemma zero_shaped:
  "ok_fields seen fs \<Longrightarrow> \<forall>f \<in> set fs. \<forall>ty. getFieldType f = Some ty \<longrightarrow> shaped_field f (zero_val ty)"
  "ok_field seen f \<Longrightarrow> getFieldType f = Some ty \<Longrightarrow> shaped_field f (zero_val ty)"
  "ok_ref rf \<Longrightarrow> \<not> is_base (f_Type a) \<Longrightarrow> fieldGoType (Field a g rf so sf) = Some ty \<Longrightarrow> shaped_ref rf (zero_val ty)"
proof (induction seen fs and seen f and rf arbitrary: and ty and a g so sf ty rule: ok_fields_ok_field_ok_ref.induct)
  case (3 seen a g rf so sf)
  show ?case
  proof (cases "is_base (f_Type a)")
    case False
    with 3(2) have ok: "ok_ref rf" "rf \<noteq> NoRef" by auto
    from 3(3) obtain ty' where ty': "fieldGoType (Field a g rf so sf) = Some ty'"
      "ty = (if f_Array a then if ty' = TBase ''u8'' then TSlice ty' else if ty' = TBase ''string'' then ty'
          else if 0 < f_Length a then TArr (nat (f_Length a)) ty' else TSlice ty' else ty')"
      using False by (auto split: option.splits)
    have z: "shaped_ref rf (zero_val ty')" using 3(1) False ok(1) ty'(1) by blast
    have "ty' \<noteq> TBase ''u8''" "ty' \<noteq> TBase ''string''" using ok(2) ty'(1) by (cases rf; auto split: option.splits if_splits)+
    then show ?thesis using False ty'(2) z by (auto simp: list_all_iff)
  qed simp
next
  case (5 t n st)
  then show ?case by (cases st) (auto split: if_splits option.splits dest!: struct_zero [OF _ ok_fields_distinct])
next
  case (6 fs)
  then show ?case by (auto split: option.splits dest!: struct_zero [OF _ ok_fields_distinct])
next
  case (7 fs)
  then show ?case by (auto split: option.splits)
qed (auto split: option.splits)

section \<open>Reading messages\<close>

fun set_all :: "Field list \<Rightarrow> (string \<times> gval) list \<Rightarrow> (string \<times> gval) list \<Rightarrow> (string \<times> gval) list" where
  "set_all [] rv r = r"
| "set_all (f # fs) rv r = set_all fs rv (set_field (fd_GoName f) (the (map_of rv (fd_GoName f))) r)"

lemma set_all_names [simp]: "map fst (set_all fs rv r) = map fst r"
  by (induction fs arbitrary: r) auto

lemma set_all_get:
  "fd_GoName ` set fs \<subseteq> fst ` set r \<Longrightarrow> map_of (set_all fs rv r) x = (if x \<in> fd_GoName ` set fs then Some (the (map_of rv x)) else map_of r x)"
  by (induction fs arbitrary: r) (auto simp: set_field_get)

lemma same_record: "map fst r = map fst r' \<Longrightarrow> distinct (map fst r) \<Longrightarrow> (\<And>x. map_of r x = map_of r' x) \<Longrightarrow> r = r'"
proof (induction r arbitrary: r')
  case (Cons y r)
  then obtain y' s where r': "r' = y' # s" "fst y' = fst y" "map fst r = map fst s" by (cases r') auto
  have "snd y = snd y'" using Cons.prems(3) [of "fst y"] r' by (cases y; cases y') simp
  moreover have "map_of r x = map_of s x" for x
  proof (cases "x = fst y")
    case True
    then have x: "x \<notin> fst ` set r" using Cons.prems(2) by simp
    moreover have "fst ` set r = fst ` set s" using r'(3) by (metis list.set_map)
    ultimately show ?thesis by (metis map_of_eq_None_iff)
  next
    case False
    then show ?thesis using Cons.prems(3) [of x] r' by (cases y; cases y') simp
  qed
  ultimately show ?case using Cons.IH [of s] Cons.prems(2) r' by (simp add: prod_eq_iff)
qed simp

lemma set_all_complete:
  assumes "map fst r = map fd_GoName fs" "map fst rv = map fd_GoName fs" "distinct (map fd_GoName fs)"
  shows "set_all fs rv r = rv"
proof (rule same_record)
  show "map fst (set_all fs rv r) = map fst rv" "distinct (map fst (set_all fs rv r))" using assms by simp_all
  fix x
  have keys: "fst ` set r = fd_GoName ` set fs" "fst ` set rv = fd_GoName ` set fs" using assms by (metis list.set_map)+
  show "map_of (set_all fs rv r) x = map_of rv x"
  proof (cases "x \<in> fd_GoName ` set fs")
    case True
    then have "map_of rv x \<noteq> None" using keys(2) by (simp add: map_of_eq_None_iff)
    then show ?thesis using True keys(1) by (auto simp: set_all_get)
  next
    case False
    then have "map_of rv x = None" "map_of r x = None" using keys by (simp_all add: map_of_eq_None_iff)
    then show ?thesis using False keys(1) by (simp add: set_all_get)
  qed
qed

definition code_reads :: "gstmt list option \<Rightarrow> gexpr \<Rightarrow> TypeRef \<Rightarrow> bool" where
  "code_reads code p rf \<longleftrightarrow>
     (\<exists>c. code = Some c \<and> (\<forall>\<rho> m v old. typed_ref rf v \<longrightarrow> place \<rho> m p \<longrightarrow> eval \<rho> m p = Some old \<longrightarrow> shaped_ref rf old \<longrightarrow>
        reads \<rho> c p m v (ser_ref rf v)))"

text \<open>The counting field of a field is already there.\<close>

definition field_reads :: "gstmt list option \<Rightarrow> gexpr \<Rightarrow> Field \<Rightarrow> bool" where
  "field_reads code parent f \<longleftrightarrow>
     (\<exists>c. code = Some c \<and> (\<forall>\<rho> m r rv v old. eval \<rho> m parent = Some (GRec r) \<longrightarrow> place \<rho> m parent \<longrightarrow>
        map_of r (fd_GoName f) = Some old \<longrightarrow> shaped_field f old \<longrightarrow> typed_field rv f v \<longrightarrow>
        (\<forall>x. FieldSizeFrom f = Some x \<longrightarrow> map_of r x = map_of rv x) \<longrightarrow>
        reads \<rho> c (Dot parent (fd_GoName f)) m v (ser_field f v)))"

definition fields_read :: "gstmt list option \<Rightarrow> string list \<Rightarrow> gexpr \<Rightarrow> Field list \<Rightarrow> bool" where
  "fields_read code seen parent fs \<longleftrightarrow>
     (\<exists>c. code = Some c \<and> (\<forall>\<rho> m r rv. eval \<rho> m parent = Some (GRec r) \<longrightarrow> place \<rho> m parent \<longrightarrow>
        typed_all fs rv \<longrightarrow> shaped_all fs r \<longrightarrow> (\<forall>x \<in> set seen. map_of r x = map_of rv x) \<longrightarrow>
        reads \<rho> c parent m (GRec (set_all fs rv r)) (ser_all fs rv)))"

lemma reads_nil: "place \<rho> m p \<Longrightarrow> eval \<rho> m p = Some v \<Longrightarrow> reads \<rho> [] p m v []"
  by (auto simp: reads_def assign_same after_nil)

lemma fields_read_cons:
  assumes f: "field_reads c parent f" and fs: "fields_read d (fd_GoName f # seen) parent fs"
    and ok: "ok_field seen f" "fd_GoName f \<notin> set seen" "\<And>g. g \<in> set fs \<Longrightarrow> fd_GoName g \<noteq> fd_GoName f"
  shows "fields_read (case (c, d) of (Some c, Some cs) \<Rightarrow> Some (c @ cs) | _ \<Rightarrow> None) seen parent (f # fs)"
proof -
  from f fs obtain c' d' where cd: "c = Some c'" "d = Some d'" unfolding field_reads_def fields_read_def by blast
  let ?g = "fd_GoName f"
  have "reads \<rho> (c' @ d') parent m (GRec (set_all (f # fs) rv r)) (ser_all (f # fs) rv)"
    if e: "eval \<rho> m parent = Some (GRec r)" and p: "place \<rho> m parent" and ty: "typed_all (f # fs) rv"
      and sh: "shaped_all (f # fs) r" and sn: "\<forall>x \<in> set seen. map_of r x = map_of rv x" for \<rho> m r rv
    unfolding reads_def
  proof (intro allI impI)
    from ty obtain v where v: "map_of rv ?g = Some v" "typed_field rv f v" "typed_all fs rv" by (auto split: option.splits)
    from sh obtain old where old: "map_of r ?g = Some old" "shaped_field f old" "shaped_all fs r" by (auto split: option.splits)
    have g: "?g \<in> fst ` set r" using old(1) by (metis map_of_eq_None_iff option.distinct(1))
    have size: "FieldSizeFrom f = Some x \<Longrightarrow> x \<in> set seen" for x using ok(1) by (cases f) auto
    have F: "reads \<rho> c' (Dot parent ?g) m v (ser_field f v)"
      using f e p old(1,2) v(2) sn size unfolding field_reads_def cd by blast
    let ?r = "set_field ?g v r"
    fix s
    assume s: "st_msg s = m" "at_hand s (ser_all (f # fs) rv)"
    then have hand: "at_hand s (ser_field f v)" "\<And>m1. at_hand (after s m1 (ser_field f v)) (ser_all fs rv)"
      using v(1) at_hand_append [of s "ser_field f v" "ser_all fs rv"] by auto
    from F s(1) hand(1) obtain m1 where m1: "assign \<rho> (Dot parent ?g) v m = Some m1" "runs \<rho> c' s = Some (after s m1 (ser_field f v))"
      unfolding reads_def by blast
    have a: "assign \<rho> parent (GRec ?r) m = Some m1" using m1(1) e by (auto split: if_splits)
    have "\<forall>x \<in> set (?g # seen). map_of ?r x = map_of rv x" using sn ok(2) v(1) g by (auto simp: set_field_get)
    moreover have "shaped_all fs ?r" using old(3) ok(3) by (auto simp: shaped_all_iff set_field_get)
    ultimately have "reads \<rho> d' parent m1 (GRec (set_all fs rv ?r)) (ser_all fs rv)"
      using fs assign_eval [OF a] assign_place [OF a p] v(3) unfolding fields_read_def cd by blast
    then obtain m2 where "assign \<rho> parent (GRec (set_all fs rv ?r)) m1 = Some m2"
      "runs \<rho> d' (after s m1 (ser_field f v)) = Some (after (after s m1 (ser_field f v)) m2 (ser_all fs rv))"
      using hand(2) unfolding reads_def by (metis after_msg)
    then show "\<exists>m'. assign \<rho> parent (GRec (set_all (f # fs) rv r)) m = Some m' \<and>
        runs \<rho> (c' @ d') s = Some (after s m' (ser_all (f # fs) rv))"
      using m1(2) v(1) assign_assign [OF a] by (simp add: runs_append)
  qed
  then show ?thesis unfolding fields_read_def cd by auto
qed

lemma struct_reads:
  assumes "fields_read code [] p fs" "distinct (map fd_GoName fs)"
  shows "code_reads code p (TypeStruct fs)" "code_reads code p (TypeAlias t n (Some fs))"
proof -
  from assms(1) obtain c where c: "code = Some c" and R: "\<And>\<rho> m r rv. eval \<rho> m p = Some (GRec r) \<Longrightarrow> place \<rho> m p \<Longrightarrow>
        typed_all fs rv \<Longrightarrow> shaped_all fs r \<Longrightarrow> reads \<rho> c p m (GRec (set_all fs rv r)) (ser_all fs rv)"
    unfolding fields_read_def by auto
  have "reads \<rho> c p m v (ser_ref (TypeStruct fs) v)"
    if "typed_ref (TypeStruct fs) v" "place \<rho> m p" "eval \<rho> m p = Some old" "shaped_ref (TypeStruct fs) old" for \<rho> m v old
  proof -
    from that(1) obtain rv where rv: "v = GRec rv" "map fst rv = map fd_GoName fs" "typed_all fs rv" by (cases v) auto
    from that(4) obtain r where r: "old = GRec r" "map fst r = map fd_GoName fs" "shaped_all fs r" by (cases old) auto
    from R [of \<rho> m r rv] that(2,3) rv r show ?thesis using set_all_complete [OF r(2) rv(2) assms(2)] by simp
  qed
  then show "code_reads code p (TypeStruct fs)" "code_reads code p (TypeAlias t n (Some fs))"
    unfolding code_reads_def c by auto
qed

lemma named_type: "rf \<noteq> NoRef \<Longrightarrow> fieldGoType (Field a g rf so sf) = Some ty \<Longrightarrow> ty \<noteq> TBase t"
  by (cases rf) (auto split: option.splits if_splits)

lemma place_field: "place \<rho> m p \<Longrightarrow> eval \<rho> m p = Some (GRec r) \<Longrightarrow> map_of r g = Some old \<Longrightarrow> place \<rho> m (Dot p g)"
  using map_of_eq_None_iff [of r g] by auto

lemma reads_elements:
  assumes b: "below lvl name" and c: "code_reads (Some c) (At name (J lvl)) rf"
    and vs: "list_all (typed_ref rf) vs" and olds: "list_all (shaped_ref rf) olds" "length olds = length vs" "eval \<rho> m name = Some (GList olds)"
    and p: "place \<rho> m name" and n: "count_of \<rho> m n = Some (int (length vs))"
  shows "reads \<rho> [For (J lvl) n c] name m (GList vs) (concat (map (ser_ref rf) vs))"
proof (rule reads_for [OF b _ _ olds(2,3) p n])
  fix k m ws
  assume k: "k < length vs" "eval \<rho> m name = Some (GList ws)" "length ws = length vs" "ws ! k = olds ! k" "place \<rho> m name"
  let ?\<rho> = "\<rho>\<lparr>ix := (ix \<rho>)(J lvl := k)\<rparr>"
  have "place ?\<rho> m (At name (J lvl))" "eval ?\<rho> m (At name (J lvl)) = Some (olds ! k)" using k b by simp_all
  then show "reads ?\<rho> c (At name (J lvl)) m (vs ! k) (ser_ref rf (vs ! k))"
    using c k vs olds by (auto simp: code_reads_def list_all_length)
qed simp

lemma decode_code:
  "ok_fields seen fs \<Longrightarrow> below lvl parent \<Longrightarrow> fields_read (decodeFields lvl parent fs) seen parent fs"
  "ok_field seen f \<Longrightarrow> below lvl parent \<Longrightarrow> field_reads (decodeField lvl parent (Dot parent (fd_GoName f)) f) parent f"
  "ok_ref rf \<Longrightarrow> below (Suc lvl) p \<Longrightarrow> code_reads (decodeRef lvl p rf) p rf"
proof (induction seen fs and seen f and rf arbitrary: lvl parent and lvl parent and lvl p rule: ok_fields_ok_field_ok_ref.induct)
  case (1 seen)
  then show ?case by (auto simp: fields_read_def reads_nil)
next
  case (2 seen f fs)
  then show ?case unfolding decodeFields.simps by (intro fields_read_cons) (auto dest: ok_fields_fresh)
next
  case (3 seen a g rf so sf)
  let ?f = "Field a g rf so sf" and ?n = "Dot parent g"
  have len: "0 \<le> f_Length a" "0 < f_Length a \<Longrightarrow> sf = None" using 3(2) by (auto split: option.splits)
  have b: "below lvl ?n" using 3(3) by simp
  show ?case
  proof (cases "is_base (f_Type a)")
    case True
    from decode_base [OF True len(1) _ b, of "map_option (Dot parent) sf"] len(2) obtain c where
      c: "decodeBaseType (f_Type a) ?n (f_Length a) (map_option (Dot parent) sf) True = Some c"
      and R: "\<And>\<rho> m v. typed_base (f_Type a) (f_Length a) (sf \<noteq> None) v \<Longrightarrow> place \<rho> m ?n \<Longrightarrow>
        (\<forall>e k. map_option (Dot parent) sf = Some e \<longrightarrow> glen v = Some k \<longrightarrow> eval \<rho> m e = Some (GNum (int k))) \<Longrightarrow>
        reads \<rho> c ?n m v (ser_base (f_Type a) (f_Length a) v)"
      by auto
    have "decodeField lvl parent ?n ?f = Some c" using c True by simp
    moreover have "reads \<rho> c ?n m v (ser_field ?f v)"
      if e: "eval \<rho> m parent = Some (GRec r)" "place \<rho> m parent" "map_of r g = Some old" and ty: "typed_field rv ?f v"
        and sz: "\<forall>x. sf = Some x \<longrightarrow> map_of r x = map_of rv x" for \<rho> m r rv v old
    proof -
      have "\<forall>e k. map_option (Dot parent) sf = Some e \<longrightarrow> glen v = Some k \<longrightarrow> eval \<rho> m e = Some (GNum (int k))"
        using ty sz e(1) by (auto split: option.splits)
      then show ?thesis using R [OF _ place_field [OF e(2,1,3)]] ty True by auto
    qed
    ultimately show ?thesis by (auto simp: field_reads_def)
  next
    case False
    with 3(2) have ok: "ok_ref rf" "rf \<noteq> NoRef" "f_Array a \<Longrightarrow> 0 < f_Length a \<or> sf \<noteq> None" "f_SizeFrom a \<noteq> '''' \<longleftrightarrow> sf \<noteq> None" by auto
    have ref: "below (Suc lvl) e \<Longrightarrow> code_reads (decodeRef lvl e rf) e rf" for e using 3(1) False ok(1) by blast
    show ?thesis
    proof (cases "f_Array a")
      case arr: True
      obtain ty where ty: "fieldGoType ?f = Some ty" using ok_ref_go_type(2) [OF 3(2)] by blast
      let ?e = "At ?n (J lvl)"
      have "below (Suc lvl) ?e" using below_mono [OF b] by simp
      from ref [OF this] obtain c where c: "decodeRef lvl ?e rf = Some c" unfolding code_reads_def by blast
      with ref [OF \<open>below (Suc lvl) ?e\<close>] have cr: "code_reads (Some c) ?e rf" by simp
      define code where "code = (if 0 < f_Length a then [For (J lvl) (Const (f_Length a)) c]
        else [MakeOf ?n ty (case sf of Some s \<Rightarrow> Val (Dot parent s) | None \<Rightarrow> Const (- 1)), For (J lvl) (Len ?n) c])"
      have "decodeField lvl parent ?n ?f = Some code" using False arr c ty ok(3,4) by (auto simp: code_def)
      moreover have "reads \<rho> code ?n m v (ser_field ?f v)"
        if e: "eval \<rho> m parent = Some (GRec r)" "place \<rho> m parent" "map_of r g = Some old" and sh: "shaped_field ?f old"
          and tyv: "typed_field rv ?f v" and sz: "\<forall>x. sf = Some x \<longrightarrow> map_of r x = map_of rv x" for \<rho> m r rv v old
      proof -
        from tyv False arr obtain vs where vs: "v = GList vs" "0 < f_Length a \<longrightarrow> length vs = nat (f_Length a)" "list_all (typed_ref rf) vs"
          by (cases v) auto
        have p: "place \<rho> m ?n" by (rule place_field [OF e(2,1,3)])
        have "reads \<rho> code ?n m (GList vs) (concat (map (ser_ref rf) vs))"
        proof (cases "0 < f_Length a")
          case True
          with sh False arr obtain olds where olds: "old = GList olds" "length olds = nat (f_Length a)" "list_all (shaped_ref rf) olds"
            by (cases old) auto
          have "reads \<rho> [For (J lvl) (Const (f_Length a)) c] ?n m (GList vs) (concat (map (ser_ref rf) vs))"
            by (rule reads_elements [OF b cr vs(3) olds(3) _ _ p]) (use True olds e vs(2) in \<open>simp_all add: count_of_def\<close>)
          then show ?thesis using True by (simp add: code_def)
        next
          case sized: False
          then obtain x where x: "sf = Some x" using ok(3) arr by auto
          have k: "eval \<rho> m (Dot parent x) = Some (GNum (int (length vs)))" using tyv sz x vs(1) e(1) by auto
          have "reads \<rho> (MakeOf ?n ty (Val (Dot parent x)) # [For (J lvl) (Len ?n) c]) ?n m (GList vs) (concat (map (ser_ref rf) vs))"
          proof (rule reads_make [OF p])
            show "count_of \<rho> m (Val (Dot parent x)) = Some (int (length vs))" using k by (simp add: count_of_def)
            fix m1
            assume as: "assign \<rho> ?n (zero_val (TArr (length vs) ty)) m = Some m1"
            let ?z = "replicate (length vs) (zero_val ty)"
            have ev: "eval \<rho> m1 ?n = Some (GList ?z)" using assign_eval [OF as] named_type [OF ok(2) ty] by simp
            have "list_all (shaped_ref rf) ?z" using zero_shaped(3) [OF ok(1) False ty] by (simp add: list_all_iff)
            then show "reads \<rho> [For (J lvl) (Len ?n) c] ?n m1 (GList vs) (concat (map (ser_ref rf) vs))"
              using ev assign_place [OF as p] vs(3) by (intro reads_elements [OF b cr]) (simp_all add: count_of_def)
          qed
          then show ?thesis using sized x by (simp add: code_def)
        qed
        then show ?thesis using False arr vs(1) by (simp add: items_def)
      qed
      ultimately show ?thesis by (auto simp: field_reads_def)
    next
      case single: False
      from ref [OF below_mono [OF b]] obtain c where c: "decodeRef lvl ?n rf = Some c"
        and R: "\<And>\<rho> m v old. typed_ref rf v \<Longrightarrow> place \<rho> m ?n \<Longrightarrow> eval \<rho> m ?n = Some old \<Longrightarrow> shaped_ref rf old \<Longrightarrow> reads \<rho> c ?n m v (ser_ref rf v)"
        unfolding code_reads_def by auto
      have "decodeField lvl parent ?n ?f = Some c" using False single c by simp
      moreover have "reads \<rho> c ?n m v (ser_field ?f v)"
        if "eval \<rho> m parent = Some (GRec r)" "place \<rho> m parent" "map_of r g = Some old" "shaped_field ?f old" "typed_field rv ?f v" for \<rho> m r rv v old
        using R [OF _ place_field [OF that(2,1,3)], of v old] that False single by simp
      ultimately show ?thesis by (auto simp: field_reads_def)
    qed
  qed
next
  case (4 t)
  then have t: "t \<in> scalar_types" "is_base t" by (auto simp: base_types)
  then have "decodeRef lvl p (TypeEnum t) = Some [DecodeVal p t]" by (simp add: decodeBaseType_def)
  then show ?case by (auto simp: code_reads_def intro!: reads_scalar)
next
  case (5 t n st)
  show ?case
  proof (cases st)
    case None
    show ?thesis
    proof (cases "0 < n")
      case True
      with 5 None have t: "t = ''u8''" by simp
      have code: "decodeRef lvl p (TypeAlias t n st) = Some [DecodeBlob p (Const n)]" using None True t by (simp add: decodeBaseType_def)
      have "reads \<rho> [DecodeBlob p (Const n)] p m v (ser_ref (TypeAlias t n st) v)"
        if ty: "typed_ref (TypeAlias t n st) v" and sh: "shaped_ref (TypeAlias t n st) old" and e: "eval \<rho> m p = Some old" "place \<rho> m p" for \<rho> m v old
      proof -
        from ty None True t obtain bs where bs: "v = GBytes bs" "length bs = nat n" by (cases v) (auto simp: typed_base_def)
        from sh None True obtain bs' where "old = GBytes bs'" "length bs' = nat n" by (cases old) auto
        then show ?thesis using bs e None True reads_blob [of \<rho> m p bs' bs "Const n"] by (simp add: ser_base_def count_of_def)
      qed
      then show ?thesis unfolding code_reads_def code by auto
    next
      case False
      with 5 None have t: "t \<in> scalar_types" "n = 0" by auto
      have code: "decodeRef lvl p (TypeAlias t n st) = Some [DecodeVal p t]" using None t by (simp add: decodeBaseType_def)
      have ty: "typed_ref (TypeAlias t n st) v \<Longrightarrow> scalar_ok t v" for v using None t scalar_not_string [OF t(1)] by (simp add: typed_base_def)
      then show ?thesis unfolding code_reads_def code using None reads_scalar by (auto simp: ser_base_scalar)
    qed
  next
    case (Some fs)
    with 5(2) have "distinct (map fd_GoName fs)" by (auto dest: ok_fields_distinct)
    then show ?thesis unfolding Some decodeRef.simps option.case by (intro struct_reads(2)) (use 5 Some in \<open>simp_all\<close>)
  qed
next
  case (6 fs)
  then have "distinct (map fd_GoName fs)" by (auto dest: ok_fields_distinct)
  then show ?case unfolding decodeRef.simps by (intro struct_reads(1)) (use 6 in \<open>simp_all\<close>)
next
  case (7 fs)
  then obtain n where n: "getUnionSize fs = Some n" "0 < n" by (auto split: option.splits)
  have code: "decodeRef lvl p (TypeUnion fs) = Some [DecodeBlob (Dot p fieldUnionData) (Const n)]" using n by simp
  have "reads \<rho> [DecodeBlob (Dot p fieldUnionData) (Const n)] p m v (ser_ref (TypeUnion fs) v)"
    if ty: "typed_ref (TypeUnion fs) v" and sh: "shaped_ref (TypeUnion fs) old" and e: "eval \<rho> m p = Some old" "place \<rho> m p" for \<rho> m v old
  proof -
    from ty n obtain bs where bs: "v = GRec [(fieldUnionData, GBytes bs)]" "n = int (length bs)" by (elim typed_union) simp
    from sh n obtain bs' where bs': "old = GRec [(fieldUnionData, GBytes bs')]" "n = int (length bs')" by (elim shaped_union) simp
    have "reads \<rho> [DecodeBlob (Dot p fieldUnionData) (Const n)] (Dot p fieldUnionData) m (GBytes bs) bs"
      by (rule reads_blob [of _ _ _ bs']) (use e bs bs' in \<open>simp_all add: count_of_def\<close>)
    then show ?thesis using e bs(1) bs'(1) by (simp add: reads_def)
  qed
  then show ?case unfolding code_reads_def code by auto
qed simp_all

end
