(* ===== verification/GenProps.thy ===== *)
theory GenProps
  imports GenDecode
begin

text \<open>
  What the generator guarantees: marshalling fills the buffer exactly, unmarshalling gives the message
  back, the data of a union suffice for flat members; and what it gets wrong.
\<close>

section \<open>Messages\<close>

lemma size_runs:
  assumes "message_ok fs" "message_typed fs v"
  obtains c where "genMessageMethodSize fs = Some c" "call_Size c v = Some (int (length (message_bytes fs v)))"
proof -
  have "record_code add_size any_size (genMessageMethodSize fs) M fs"
    using size_code(1) [of "[]" fs 1 M] assms(1) by (simp add: genMessageMethodSize_def message_ok_def)
  from struct_code(1) [OF this] obtain c where c: "genMessageMethodSize fs = Some c"
    "emits add_size any_size no_vars c v (message_bytes fs v)"
    using assms(2) unfolding code_for_def message_typed_def message_bytes_def by auto
  moreover have "call_Size c v = Some (int (length (message_bytes fs v)))"
    using c(2) by (simp add: emits_def any_size_def call_Size_def add_size_def)
  ultimately show thesis using that by blast
qed

lemma marshal_runs:
  assumes "message_ok fs" "message_typed fs v"
  obtains c where "genMessageMethodMarshal fs = Some c"
    "runs no_vars c \<lparr>st_msg = v, st_buf = NewBuffer (replicate (length (message_bytes fs v)) 0) [], st_size = 0\<rparr> =
     Some \<lparr>st_msg = v, st_buf = \<lparr>mem = message_bytes fs v, blen = length (message_bytes fs v), pos = length (message_bytes fs v)\<rparr>, st_size = 0\<rparr>"
proof -
  let ?bs = "message_bytes fs v"
  let ?s = "\<lparr>st_msg = v, st_buf = NewBuffer (replicate (length ?bs) 0) [], st_size = 0\<rparr>"
  have "record_code write_bytes has_room (genMessageMethodMarshal fs) M fs"
    using encode_code(1) [of "[]" fs 0 M] assms(1) by (simp add: genMessageMethodMarshal_def message_ok_def)
  from struct_code(1) [OF this] obtain c where c: "genMessageMethodMarshal fs = Some c"
    "emits write_bytes has_room no_vars c v ?bs"
    using assms(2) unfolding code_for_def message_typed_def message_bytes_def by auto
  have "has_room ?s ?bs" by (simp add: has_room_def zeros_at_def holds_at_def NewBuffer_def wf_buffer_def)
  with c(2) have "runs no_vars c ?s = Some (write_bytes ?bs ?s)" by (simp add: emits_def)
  then show thesis using that [OF c(1)] by (simp add: write_bytes_def NewBuffer_def buf_fill_def put_at_def)
qed

lemma generated_marshal_code:
  assumes "message_ok fs" "message_typed fs v"
  shows "\<exists>sc ec. genMessageMethodSize fs = Some sc \<and> genMessageMethodMarshal fs = Some ec \<and>
    call_Size sc v = Some (int (length (message_bytes fs v))) \<and> call_Marshal sc ec v = Some (message_bytes fs v)"
proof -
  obtain sc where sc: "genMessageMethodSize fs = Some sc" "call_Size sc v = Some (int (length (message_bytes fs v)))"
    by (rule size_runs [OF assms])
  obtain ec where ec: "genMessageMethodMarshal fs = Some ec"
    "runs no_vars ec \<lparr>st_msg = v, st_buf = NewBuffer (replicate (length (message_bytes fs v)) 0) [], st_size = 0\<rparr> =
     Some \<lparr>st_msg = v, st_buf = \<lparr>mem = message_bytes fs v, blen = length (message_bytes fs v), pos = length (message_bytes fs v)\<rparr>, st_size = 0\<rparr>"
    by (rule marshal_runs [OF assms])
  have "Bytes \<lparr>mem = message_bytes fs v, blen = length (message_bytes fs v), pos = length (message_bytes fs v)\<rparr> = Some (message_bytes fs v)"
    using slice_of_nat [of "message_bytes fs v" 0 "length (message_bytes fs v)"] by (simp add: Bytes_def)
  then show ?thesis using sc ec by (simp add: call_Marshal_def)
qed

text \<open>
  C10 (refinement). For every supported message description and every value of it, the generator makes
  methods \<open>Size\<close> and \<open>Marshal\<close>; the size is the number of bytes of the wire format, and marshalling into
  a buffer of that size does not panic and gives exactly these bytes.
\<close>

theorem generated_marshal:
  assumes "message_ok fs" "message_typed fs v"
  shows "\<exists>sc ec. genMessageMethodSize fs = Some sc \<and> genMessageMethodMarshal fs = Some ec \<and>
    call_Size sc v = Some (int (length (message_bytes fs v))) \<and> call_Marshal sc ec v = Some (message_bytes fs v)"
  by (rule generated_marshal_code [OF assms])

lemma unmarshal_code:
  assumes "message_ok fs" "message_typed fs v" "message_shaped fs old"
  obtains c where "genMessageMethodUnmarshal fs = Some c" "reads no_vars c M old v (message_bytes fs v)"
proof -
  have "fields_read (genMessageMethodUnmarshal fs) [] M fs" "distinct (map fd_GoName fs)"
    using decode_code(1) [of "[]" fs 0 M] ok_fields_distinct assms(1) by (auto simp: genMessageMethodUnmarshal_def message_ok_def)
  from struct_reads(1) [OF this] show thesis
    using assms(2,3) that unfolding code_reads_def message_typed_def message_shaped_def message_bytes_def by auto
qed

lemma unmarshal_runs:
  assumes "message_ok fs" "message_typed fs v" "message_shaped fs old"
  obtains c where "genMessageMethodUnmarshal fs = Some c" "call_Unmarshal c (message_bytes fs v) old = Some v"
proof -
  let ?bs = "message_bytes fs v"
  let ?s = "\<lparr>st_msg = old, st_buf = NewBuffer ?bs [], st_size = 0\<rparr>"
  obtain c where c: "genMessageMethodUnmarshal fs = Some c" "reads no_vars c M old v ?bs" by (rule unmarshal_code [OF assms])
  have "at_hand ?s ?bs" by (simp add: at_hand_def holds_at_def NewBuffer_def wf_buffer_def)
  with c(2) have "runs no_vars c ?s = Some (after ?s v ?bs)" by (auto simp: reads_def)
  with c(1) that show thesis by (simp add: call_Unmarshal_def after_def)
qed

text \<open>The three methods are always generated.\<close>

lemma code_generated:
  assumes "message_ok fs"
  shows "\<exists>sc ec dc. genMessageMethodSize fs = Some sc \<and> genMessageMethodMarshal fs = Some ec \<and> genMessageMethodUnmarshal fs = Some dc"
proof -
  have ok: "ok_fields [] fs" using assms by (simp add: message_ok_def)
  show ?thesis
    using size_code(1) [OF ok, of 1 M] encode_code(1) [OF ok, of 0 M] decode_code(1) [OF ok, of 0 M]
    unfolding genMessageMethodSize_def genMessageMethodMarshal_def genMessageMethodUnmarshal_def record_code_def code_for_def fields_read_def
    by auto
qed

lemma code_roundtrip:
  assumes "message_ok fs" "message_typed fs v" "message_shaped fs old"
  shows "\<exists>sc ec dc data. genMessageMethodSize fs = Some sc \<and> genMessageMethodMarshal fs = Some ec \<and>
    genMessageMethodUnmarshal fs = Some dc \<and> call_Marshal sc ec v = Some data \<and> call_Unmarshal dc data old = Some v"
proof -
  obtain dc where "genMessageMethodUnmarshal fs = Some dc" "call_Unmarshal dc (message_bytes fs v) old = Some v"
    by (rule unmarshal_runs [OF assms])
  then show ?thesis using generated_marshal_code [OF assms(1,2)] by blast
qed

text \<open>
  Whatever supported message description is given, unmarshalling what was marshalled
  gives the message back, into a fresh message as well as into any other one of its type.
\<close>

theorem generated_roundtrip:
  assumes "message_ok fs" "message_typed fs v" "message_shaped fs old"
  shows "\<exists>sc ec dc data. genMessageMethodSize fs = Some sc \<and> genMessageMethodMarshal fs = Some ec \<and>
    genMessageMethodUnmarshal fs = Some dc \<and> call_Marshal sc ec v = Some data \<and> call_Unmarshal dc data old = Some v"
  by (rule code_roundtrip [OF assms])

section \<open>An example\<close>

text \<open>A counted array of structs, a fixed array of structs, an enum, an alias for bytes and a string.\<close>

definition plain :: "string \<Rightarrow> string \<Rightarrow> int \<Rightarrow> Field" where
  "plain name t len =
     Field \<lparr>f_Name = name, f_Type = t, f_Length = len, f_Array = (0 < len \<and> t \<noteq> ''string''), f_SizeFrom = ''''\<rparr> name NoRef None None"

definition refers :: "string \<Rightarrow> int \<Rightarrow> TypeRef \<Rightarrow> Field" where
  "refers name len rf = Field \<lparr>f_Name = name, f_Type = ''vl_api_x_t'', f_Length = len, f_Array = 0 < len, f_SizeFrom = ''''\<rparr> name rf None None"

definition entry_fields :: "Field list" where
  "entry_fields = [plain ''a'' ''u16'' 0, plain ''b'' ''u8'' 3, plain ''c'' ''i32'' 2]"

definition sample_fields :: "Field list" where
  "sample_fields =
     [Field \<lparr>f_Name = ''n'', f_Type = ''u8'', f_Length = 0, f_Array = False, f_SizeFrom = ''''\<rparr> ''n'' NoRef (Some ''xs'') None,
      refers ''e'' 0 (TypeEnum ''u32''), refers ''m'' 0 (TypeAlias ''u8'' 2 None),
      Field \<lparr>f_Name = ''xs'', f_Type = ''vl_api_entry_t'', f_Length = 0, f_Array = True, f_SizeFrom = ''n''\<rparr> ''xs'' (TypeStruct entry_fields)
        None (Some ''n''),
      refers ''ys'' 2 (TypeStruct entry_fields), plain ''s'' ''string'' 0]"

definition sample_entry :: gval where
  "sample_entry = GRec [(''a'', GNum 513), (''b'', GBytes [1, 2, 3]), (''c'', GList [GNum (- 1), GNum 5])]"

definition sample_value :: gval where
  "sample_value =
     GRec [(''n'', GNum 1), (''e'', GNum 7), (''m'', GBytes [8, 9]), (''xs'', GList [sample_entry]), (''ys'', GList [sample_entry, sample_entry]),
       (''s'', GStr [71, 79])]"

definition fresh :: "Field list \<Rightarrow> gval" where
  "fresh fs = (case structGoType fs of Some tys \<Rightarrow> zero_val (TStruct tys) | None \<Rightarrow> GRec [])"

lemma fresh_shaped:
  assumes "message_ok fs"
  shows "message_shaped fs (fresh fs)"
proof -
  have ok: "ok_fields [] fs" using assms by (simp add: message_ok_def)
  from ok_ref_go_type(1) [OF ok] obtain tys where tys: "structGoType fs = Some tys" by blast
  show ?thesis
    using struct_zero [OF tys ok_fields_distinct [OF ok]] zero_shaped(1) [OF ok] tys by (simp add: message_shaped_def fresh_def)
qed

lemma sample_ok: "message_ok sample_fields"
  by (simp add: message_ok_def sample_fields_def entry_fields_def plain_def refers_def is_base_def BaseTypesGo_def int_types_def scalar_types_def)

lemma sample_typed: "message_typed sample_fields sample_value"
  by (simp add: message_typed_def sample_fields_def sample_value_def sample_entry_def entry_fields_def plain_def refers_def is_base_def
      BaseTypesGo_def typed_base_def scalar_ok_def int_types_def in_range_def bits_of_def BaseTypeSizes_def)

lemma generated_marshal_witness:
  "\<exists>sc ec. genMessageMethodSize sample_fields = Some sc \<and> genMessageMethodMarshal sample_fields = Some ec \<and>
    call_Size sc sample_value = Some (int (length (message_bytes sample_fields sample_value))) \<and>
    call_Marshal sc ec sample_value = Some (message_bytes sample_fields sample_value)"
  by (rule generated_marshal [OF sample_ok sample_typed])

lemma generated_roundtrip_witness:
  "\<exists>sc ec dc data. genMessageMethodSize sample_fields = Some sc \<and> genMessageMethodMarshal sample_fields = Some ec \<and>
    genMessageMethodUnmarshal sample_fields = Some dc \<and> call_Marshal sc ec sample_value = Some data \<and>
    call_Unmarshal dc data (fresh sample_fields) = Some sample_value"
  by (rule generated_roundtrip [OF sample_ok sample_typed fresh_shaped [OF sample_ok]])

section \<open>Unions\<close>

text \<open>The methods that set and get a member of a union (\<open>genUnionFieldMethods\<close>), run on the data of the union.\<close>

definition genUnionSetter :: "Field \<Rightarrow> gstmt list option" where "genUnionSetter f = encodeField 0 M M f"
definition genUnionGetter :: "Field \<Rightarrow> gstmt list option" where "genUnionGetter f = decodeField 0 M M f"

definition call_Set :: "gstmt list \<Rightarrow> gval \<Rightarrow> byte list \<Rightarrow> byte list option" where
  "call_Set code a data = map_option (\<lambda>s. mem (st_buf s)) (runs no_vars code \<lparr>st_msg = a, st_buf = NewBuffer data [], st_size = 0\<rparr>)"

definition call_Get :: "gstmt list \<Rightarrow> byte list \<Rightarrow> gval \<Rightarrow> gval option" where
  "call_Get code data zero = map_option st_msg (runs no_vars code \<lparr>st_msg = zero, st_buf = NewBuffer data [], st_size = 0\<rparr>)"

text \<open>Members whose size does not depend on the value and that hold no arrays of declared types.\<close>

fun flat_fields :: "Field list \<Rightarrow> bool"
  and flat_field :: "Field \<Rightarrow> bool"
  and flat_ref :: "TypeRef \<Rightarrow> bool" where
  "flat_fields [] \<longleftrightarrow> True"
| "flat_fields (f # fs) \<longleftrightarrow> flat_field f \<and> flat_fields fs"
| "flat_field (Field a g rf so sf) \<longleftrightarrow> sf = None \<and>
     (if is_base (f_Type a) then f_Type a = ''string'' \<longrightarrow> 0 < f_Length a
      else \<not> f_Array a \<and> f_Length a = 0 \<and> flat_ref rf)"
| "flat_ref (TypeEnum t) \<longleftrightarrow> True"
| "flat_ref (TypeAlias t n st) \<longleftrightarrow> st = None"
| "flat_ref (TypeStruct fs) \<longleftrightarrow> flat_fields fs"
| "flat_ref (TypeUnion fs) \<longleftrightarrow> True"
| "flat_ref NoRef \<longleftrightarrow> False"

lemma base_size_pos: "is_base t \<Longrightarrow> 0 < BaseTypeSizes t"
  by (auto simp: is_base_def BaseTypesGo_def BaseTypeSizes_def split: if_splits)

lemma size_of_base:
  assumes "is_base t" "0 \<le> len" "typed_base t len False v" "t = ''string'' \<longrightarrow> 0 < len"
  shows "getSizeOfBinapiBaseType t len = int (length (ser_base t len v))"
proof (cases "t = ''string''")
  case True
  with assms(3,4) obtain s where "v = GStr s" "length s \<le> nat len" by (cases v) (auto simp: typed_base_def)
  then show ?thesis using True assms(4) by (auto simp: getSizeOfBinapiBaseType_def ser_base_def BaseTypeSizes_def)
next
  case str: False
  show ?thesis
  proof (cases "0 < len")
    case True
    show ?thesis
    proof (cases "t = ''u8''")
      case u8: True
      with assms(3) True obtain bs where "v = GBytes bs" "length bs = nat len" by (cases v) (auto simp: typed_base_def)
      then show ?thesis using u8 True by (auto simp: getSizeOfBinapiBaseType_def ser_base_def)
    next
      case False
      with assms(3) str True obtain vs where vs: "v = GList vs" "length vs = nat len" "list_all (scalar_ok t) vs"
        by (cases v) (auto simp: typed_base_def)
      then have "int (length (ser_base t len v)) = BaseTypeSizes t * len" using length_concat_scalars [OF vs(3)] True by (simp add: ser_base_def)
      then show ?thesis using base_size_pos [OF assms(1)] True by (auto simp: getSizeOfBinapiBaseType_def Let_def)
    qed
  next
    case False
    with assms(3) str have "scalar_ok t v" by (simp add: typed_base_def)
    then show ?thesis using False base_size_pos [OF assms(1)]
      by (simp add: getSizeOfBinapiBaseType_def ser_base_scalar length_ser_scalar Let_def)
  qed
qed

lemma flat_size:
  "ok_fields seen fs \<Longrightarrow> flat_fields fs \<Longrightarrow> typed_all fs r \<Longrightarrow> getSizeOfStruct fs = Some (int (length (ser_all fs r)))"
  "ok_field seen f \<Longrightarrow> flat_field f \<Longrightarrow> typed_field r f v \<Longrightarrow>
     \<exists>n b. getSizeOfField f = Some (n, b) \<and>
       (if b then getSizeOfBinapiBaseType (f_Type (fd_api f)) (f_Length (fd_api f)) else n) = int (length (ser_field f v))"
  "ok_ref rf \<Longrightarrow> flat_ref rf \<Longrightarrow> typed_ref rf v \<Longrightarrow> f_Length a = 0 \<Longrightarrow>
     getSizeOfField (Field a g rf so sf) = Some (int (length (ser_ref rf v)), False)"
proof (induction seen fs and seen f and rf arbitrary: r and r v and a g so sf v rule: ok_fields_ok_field_ok_ref.induct)
  case (2 seen f fs)
  then obtain v where v: "map_of r (fd_GoName f) = Some v" "typed_field r f v" "typed_all fs r" by (auto split: option.splits)
  from 2 v obtain n b where "getSizeOfField f = Some (n, b)"
    "(if b then getSizeOfBinapiBaseType (f_Type (fd_api f)) (f_Length (fd_api f)) else n) = int (length (ser_field f v))" by fastforce
  moreover have "getSizeOfStruct fs = Some (int (length (ser_all fs r)))" using 2 v(3) by simp
  ultimately show ?case using v(1) by simp
next
  case (3 seen a g rf so sf)
  show ?case
  proof (cases "is_base (f_Type a)")
    case True
    then have "rf = NoRef" "sf = None" "f_Type a = ''string'' \<longrightarrow> 0 < f_Length a" "typed_base (f_Type a) (f_Length a) False v" "0 \<le> f_Length a"
      using 3 by simp_all
    then show ?thesis using True size_of_base [OF True, of "f_Length a" v] by (intro exI [of _ 0] exI [of _ True]) simp
  next
    case False
    then show ?thesis using 3 by auto
  qed
next
  case (4 t)
  then have "is_base t" "t \<noteq> ''string''" by (auto simp: base_types scalar_not_string)
  then show ?case using 4 size_of_base [of t 0 v] by (simp add: typed_base_def ser_base_scalar)
next
  case (5 t n st)
  then have t: "is_base t" "t \<noteq> ''string''" "0 \<le> n" by (auto simp: base_types dest: scalar_not_string split: if_splits)
  have "ser_base t 0 v = ser_base t n v" using 5 t by (auto simp: typed_base_def ser_base_def split: gval.splits if_splits)
  then show ?case using 5 size_of_base [OF t(1,3), of v] t(2) by simp
next
  case (6 fs)
  then obtain r where "v = GRec r" "typed_all fs r" by (cases v) auto
  then show ?case using 6 by simp
next
  case (7 fs)
  then obtain bs where "v = GRec [(fieldUnionData, GBytes bs)]" "getUnionSize fs = Some (int (length bs))" by (elim typed_union)
  then show ?case by (simp add: getUnionSize_def)
qed simp_all

lemma union_size_bound:
  "getUnionSize_from m fs = Some n \<Longrightarrow> f \<in> set fs \<Longrightarrow> getSizeOfField f = Some (k, b) \<Longrightarrow> k \<le> n \<and> m \<le> n"
  "getUnionSize_from m fs = Some n \<Longrightarrow> m \<le> n"
proof (induction fs arbitrary: m)
  case (Cons f' fs)
  {
    case 1
    then show ?case using Cons.IH by (fastforce split: option.splits prod.splits if_splits)
  next
    case 2
    then show ?case using Cons.IH(2) by (fastforce split: option.splits prod.splits if_splits)
  }
qed simp_all

text \<open>
  C25 (roundtrip). A flat member fits into the data of its union: setting it in a new union does not
  panic, and getting it gives the value that was set.
\<close>

theorem union_member_roundtrip:
  assumes n: "getUnionSize fs = Some n" and f: "Field a g rf None None \<in> set fs"
    and a: "\<not> is_base (f_Type a)" "\<not> f_Array a" "f_Length a = 0" and ok: "ok_ref rf" "flat_ref rf" and v: "typed_ref rf v" "shaped_ref rf zero"
  shows "\<exists>sc gc data. genUnionSetter (Field a g rf None None) = Some sc \<and> genUnionGetter (Field a g rf None None) = Some gc \<and>
    call_Set sc v (replicate (nat n) 0) = Some data \<and> length data = nat n \<and> call_Get gc data zero = Some v"
proof -
  let ?f = "Field a g rf None None" and ?bs = "ser_ref rf v"
  have "getSizeOfField ?f = Some (int (length ?bs), False)" by (rule flat_size(3) [OF ok v(1) a(3)])
  then have fits: "length ?bs \<le> nat n" using union_size_bound(1) [OF _ f] n by (fastforce simp: getUnionSize_def)
  have "code_for write_bytes has_room (encodeRef 0 M rf) M (typed_ref rf) (ser_ref rf)" "code_reads (decodeRef 0 M rf) M rf"
    using encode_code(3) [OF ok(1), of 0 M] decode_code(3) [OF ok(1), of 0 M] by simp_all
  then obtain sc gc where sc: "encodeRef 0 M rf = Some sc" "emits write_bytes has_room no_vars sc v ?bs"
    and gc: "decodeRef 0 M rf = Some gc" "reads no_vars gc M zero v ?bs"
    using v unfolding code_for_def code_reads_def by auto
  let ?s = "\<lparr>st_msg = v, st_buf = NewBuffer (replicate (nat n) 0) [], st_size = 0\<rparr>"
  let ?data = "?bs @ replicate (nat n - length ?bs) 0"
  have "has_room ?s ?bs" using fits by (simp add: has_room_def zeros_at_def holds_at_def NewBuffer_def wf_buffer_def)
  with sc(2) have "runs no_vars sc ?s = Some (write_bytes ?bs ?s)" by (simp add: emits_def)
  then have set: "call_Set sc v (replicate (nat n) 0) = Some ?data" by (simp add: call_Set_def write_bytes_def NewBuffer_def put_at_def)
  let ?t = "\<lparr>st_msg = zero, st_buf = NewBuffer ?data [], st_size = 0\<rparr>"
  have "at_hand ?t ?bs" by (simp add: at_hand_def holds_at_def NewBuffer_def wf_buffer_def)
  with gc(2) have "runs no_vars gc ?t = Some (after ?t v ?bs)" by (auto simp: reads_def)
  then have "call_Get gc ?data zero = Some v" by (simp add: call_Get_def)
  with set sc(1) gc(1) a(1,2) fits show ?thesis by (simp add: genUnionSetter_def genUnionGetter_def)
qed

definition address_union :: "Field list" where
  "address_union = [refers ''Ip4'' 0 (TypeAlias ''u8'' 4 None), refers ''Ip6'' 0 (TypeAlias ''u8'' 16 None)]"

lemma union_member_roundtrip_witness:
  "\<exists>sc gc data. genUnionSetter (refers ''Ip4'' 0 (TypeAlias ''u8'' 4 None)) = Some sc \<and>
    genUnionGetter (refers ''Ip4'' 0 (TypeAlias ''u8'' 4 None)) = Some gc \<and>
    call_Set sc (GBytes [10, 0, 0, 1]) (replicate 16 0) = Some data \<and> length data = 16 \<and>
    call_Get gc data (GBytes [0, 0, 0, 0]) = Some (GBytes [10, 0, 0, 1])"
proof -
  have "getUnionSize address_union = Some 16"
    by (simp add: address_union_def refers_def getUnionSize_def getSizeOfBinapiBaseType_def)
  from union_member_roundtrip [OF this, of "fd_api (refers ''Ip4'' 0 NoRef)" "''Ip4''" "TypeAlias ''u8'' 4 None" "GBytes [10, 0, 0, 1]" "GBytes [0, 0, 0, 0]"]
  show ?thesis by (simp add: address_union_def refers_def is_base_def BaseTypesGo_def typed_base_def)
qed

definition small_union :: "Field list" where
  "small_union = [refers ''Many'' 0 (TypeStruct [refers ''xs'' 3 (TypeStruct [plain ''a'' ''u16'' 0])])]"

text \<open>
  The size of a union does not count the elements of an array of structs inside a member:
  here the union has 2 bytes of data, but setting its member writes 6 and panics.
\<close>

theorem union_too_small:
  "getUnionSize small_union = Some 2 \<and>
   (\<exists>sc. genUnionSetter (small_union ! 0) = Some sc \<and>
      call_Set sc (GRec [(''xs'', GList [GRec [(''a'', GNum 1)], GRec [(''a'', GNum 2)], GRec [(''a'', GNum 3)]])]) [0, 0] = None)"
proof -
  have size: "getUnionSize small_union = Some 2"
    by (simp add: small_union_def refers_def plain_def getUnionSize_def getSizeOfBinapiBaseType_def BaseTypeSizes_def)
  have code: "genUnionSetter (small_union ! 0) = Some [For (J 1) (Const 3) [EncodeVal ''u16'' (Dot (At (Dot M ''xs'') (J 1)) ''a'')]]"
    by (simp add: small_union_def refers_def plain_def genUnionSetter_def encodeBaseType_def over_elements_def is_base_def BaseTypesGo_def
        scalar_types_def int_types_def)
  show ?thesis
    unfolding size code
    by (simp add: call_Set_def count_of_def NewBuffer_def numeral_3_eq_3 set_buf_def enc_val_def enc_num_def EncodeUint16_def
        buf_slice_def slice_of_def buf_fill_def put_at_def)
qed

text \<open>
  For an alias of an array that is not of bytes, \<open>Marshal\<close> passes the whole array to the
  encoder of one element: whatever the value, the method does not work (it does not compile), while
  \<open>Size\<close> and \<open>Unmarshal\<close> are right.
\<close>

theorem alias_array_broken:
  assumes "t \<in> scalar_types" "t \<noteq> ''u8''" "0 < n" "\<not> is_base (f_Type a)" "\<not> f_Array a"
  shows "\<exists>ec. genMessageMethodMarshal [Field a g (TypeAlias t n None) None None] = Some ec \<and>
    (\<forall>sc vs. call_Marshal sc ec (GRec [(g, GList vs)]) = None)"
proof -
  have code: "genMessageMethodMarshal [Field a g (TypeAlias t n None) None None] = Some [For I (Const n) [EncodeVal t (Dot M g)]]"
    using assms by (simp add: genMessageMethodMarshal_def encodeBaseType_def)
  obtain k where k: "nat n = Suc k" using assms(3) by (metis gr0_implies_Suc zero_less_nat_eq)
  have "runs no_vars [For I (Const n) [EncodeVal t (Dot M g)]] \<lparr>st_msg = GRec [(g, GList vs)], st_buf = b, st_size = z\<rparr> = None" for vs b z
    using k by (simp add: count_of_def set_buf_def enc_val_def)
  then have "call_Marshal sc [For I (Const n) [EncodeVal t (Dot M g)]] (GRec [(g, GList vs)]) = None" for sc vs
    by (simp add: call_Marshal_def split: option.split)
  with code show ?thesis by blast
qed

lemma alias_array_broken_witness:
  "\<exists>ec. genMessageMethodMarshal [refers ''x'' 0 (TypeAlias ''u16'' 2 None)] = Some ec \<and>
    (\<forall>sc vs. call_Marshal sc ec (GRec [(''x'', GList vs)]) = None)"
  using alias_array_broken [of "''u16''" 2 "fd_api (refers ''x'' 0 NoRef)" "''x''"]
  by (simp add: refers_def is_base_def BaseTypesGo_def scalar_types_def int_types_def)

end
