(* ===== verification/GenResolve.thy ===== *)
theory GenResolve
  imports GenSchema GenProps
begin

text \<open>
  Resolving the references of API files: every reference of the store of the generator points to an
  object with the name that was asked for, and the fields the code generators see are supported ones
  whenever the descriptions in the files are.
\<close>

section \<open>Supported descriptions\<close>

text \<open>
  A list of fields: different names, also in Go; a field that counts another one comes first and is an
  integer; arrays have a length or are counted. Types refer to types of lower rank.
\<close>

definition counted_by :: "ApiField list \<Rightarrow> ApiField \<Rightarrow> bool" where
  "counted_by fs a \<longleftrightarrow> (\<exists>b \<in> set fs. f_SizeFrom b = f_Name a)"

definition api_field_ok :: "ApiField list \<Rightarrow> string set \<Rightarrow> ApiField \<Rightarrow> bool" where
  "api_field_ok fs seen a \<longleftrightarrow>
     0 \<le> f_Length a \<and> (f_SizeFrom a \<noteq> '''' \<longrightarrow> f_SizeFrom a \<in> seen \<and> f_Length a = 0 \<and> f_Array a) \<and>
     (if is_base (f_Type a)
      then (counted_by fs a \<longrightarrow> f_Type a \<in> int_types \<and> f_Length a = 0 \<and> f_SizeFrom a = '''') \<and>
        (f_Type a \<noteq> ''string'' \<longrightarrow> (f_Array a \<longleftrightarrow> 0 < f_Length a \<or> f_SizeFrom a \<noteq> ''''))
      else \<not> counted_by fs a \<and> (f_Array a \<longrightarrow> 0 < f_Length a \<or> f_SizeFrom a \<noteq> ''''))"

definition refs_below :: "(string \<Rightarrow> nat) \<Rightarrow> nat \<Rightarrow> ApiField list \<Rightarrow> bool" where
  "refs_below rank n fs \<longleftrightarrow> (\<forall>a \<in> set fs. \<not> is_base (f_Type a) \<longrightarrow> rank (fromApiType (f_Type a)) < n)"

definition api_fields_ok :: "(string \<Rightarrow> string) \<Rightarrow> ApiField list \<Rightarrow> bool" where
  "api_fields_ok title fs \<longleftrightarrow>
     distinct (map f_Name fs) \<and> '''' \<notin> set (map f_Name fs) \<and> distinct (map (\<lambda>a. camelCaseName title (f_Name a)) fs) \<and>
     (\<forall>i < length fs. api_field_ok fs (set (map f_Name (take i fs))) (fs ! i))"

definition enum_ok :: "EnumType \<Rightarrow> bool" where
  "enum_ok t \<longleftrightarrow> en_Type t \<in> scalar_types"

definition alias_ok :: "(string \<Rightarrow> nat) \<Rightarrow> AliasType \<Rightarrow> bool" where
  "alias_ok rank t \<longleftrightarrow>
     (if is_base (al_Type t) then 0 \<le> al_Length t \<and> (if 0 < al_Length t then al_Type t = ''u8'' else al_Type t \<in> scalar_types)
      else al_Length t = 0 \<and> rank (fromApiType (al_Type t)) < rank (al_Name t))"

definition struct_ok :: "(string \<Rightarrow> string) \<Rightarrow> (string \<Rightarrow> nat) \<Rightarrow> StructType \<Rightarrow> bool" where
  "struct_ok title rank t \<longleftrightarrow> api_fields_ok title (ty_Fields t) \<and> refs_below rank (rank (ty_Name t)) (ty_Fields t)"

definition union_ok :: "(string \<Rightarrow> nat) \<Rightarrow> StructType \<Rightarrow> bool" where
  "union_ok rank t \<longleftrightarrow> refs_below rank (rank (ty_Name t)) (ty_Fields t)"

definition api_message_ok :: "(string \<Rightarrow> string) \<Rightarrow> (string \<Rightarrow> nat) \<Rightarrow> nat \<Rightarrow> ApiMessage \<Rightarrow> bool" where
  "api_message_ok title rank n t \<longleftrightarrow>
     api_fields_ok title (dropWhile is_header (m_Fields t)) \<and> refs_below rank n (dropWhile is_header (m_Fields t))"

definition file_ok :: "(string \<Rightarrow> string) \<Rightarrow> (string \<Rightarrow> nat) \<Rightarrow> nat \<Rightarrow> ApiFile \<Rightarrow> bool" where
  "file_ok title rank n af \<longleftrightarrow>
     list_all enum_ok (af_EnumTypes af) \<and> list_all enum_ok (af_EnumflagTypes af) \<and> list_all (alias_ok rank) (af_AliasTypes af) \<and>
     list_all (struct_ok title rank) (af_StructTypes af) \<and> list_all (union_ok rank) (af_UnionTypes af) \<and>
     list_all (api_message_ok title rank n) (af_Messages af)"

section \<open>The store\<close>

fun object_name :: "Generator \<Rightarrow> type_ptr \<Rightarrow> string option" where
  "object_name g (PEnum i) = (if i < length (g_enums g) then Some (en_Name (e_Type (g_enums g ! i))) else None)"
| "object_name g (PAlias i) = (if i < length (g_aliases g) then Some (al_Name (a_Type (g_aliases g ! i))) else None)"
| "object_name g (PStruct i) = (if i < length (g_structs g) then Some (ty_Name (s_Type (g_structs g ! i))) else None)"
| "object_name g (PUnion i) = (if i < length (g_unions g) then Some (ty_Name (s_Type (g_unions g ! i))) else None)"

definition extends :: "Generator \<Rightarrow> Generator \<Rightarrow> bool" where
  "extends g g' \<longleftrightarrow> (\<forall>p n. object_name g p = Some n \<longrightarrow> object_name g' p = Some n)"

lemma extends_refl [simp, intro]: "extends g g" by (simp add: extends_def)
lemma extends_trans: "extends g g' \<Longrightarrow> extends g' g'' \<Longrightarrow> extends g g''" by (simp add: extends_def)

text \<open>A resolved field, by the fields of its parent and its description.\<close>

definition field_done :: "(string \<Rightarrow> string) \<Rightarrow> Generator \<Rightarrow> ApiField list \<Rightarrow> ApiField \<Rightarrow> FieldObj \<Rightarrow> bool" where
  "field_done title g parent a f \<longleftrightarrow>
     (\<exists>ty. f = resolveFields (map (newField title) parent) (newField title a\<lparr>o_Type := ty\<rparr>) \<and>
       (if is_base (f_Type a) then ty = None else \<exists>p. ty = Some p \<and> object_name g p = Some (fromApiType (f_Type a))))"

definition fields_done :: "(string \<Rightarrow> string) \<Rightarrow> Generator \<Rightarrow> ApiField list \<Rightarrow> ApiField list \<Rightarrow> FieldObj list \<Rightarrow> bool" where
  "fields_done title g parent = list_all2 (field_done title g parent)"

definition alias_done :: "Generator \<Rightarrow> Alias \<Rightarrow> bool" where
  "alias_done g a \<longleftrightarrow>
     (let t = al_Type (a_Type a) in
      if is_base t then a_Struct a = None
      else (\<exists>i. a_Struct a = Some i \<and> object_name g (PStruct i) = Some (fromApiType t)) \<or>
        (\<exists>i. a_Struct a = None \<and> a_Union a = Some i \<and> object_name g (PUnion i) = Some (fromApiType t)))"

text \<open>Objects of a list: those at the given positions wait to be resolved.\<close>

definition all_at :: "('a \<Rightarrow> bool) \<Rightarrow> ('a \<Rightarrow> bool) \<Rightarrow> nat set \<Rightarrow> 'a list \<Rightarrow> bool" where
  "all_at ready pend P xs \<longleftrightarrow> P \<subseteq> {..<length xs} \<and> (\<forall>i < length xs. if i \<in> P then pend (xs ! i) else ready (xs ! i))"

lemma all_at_empty [simp]: "all_at ready pend {} xs \<longleftrightarrow> list_all ready xs"
  by (simp add: all_at_def list_all_length)

lemma all_at_add: "all_at ready pend P xs \<Longrightarrow> pend x \<Longrightarrow> all_at ready pend (insert (length xs) P) (xs @ [x])"
  by (auto simp: all_at_def nth_append)

lemma all_at_update: "all_at ready pend P xs \<Longrightarrow> ready y \<Longrightarrow> all_at ready pend (P - {i}) (xs[i := y])"
  by (cases "i < length xs") (auto simp: all_at_def nth_list_update)

lemma all_at_mono: "all_at ready pend P xs \<Longrightarrow> (\<And>x. ready x \<Longrightarrow> ready' x) \<Longrightarrow> all_at ready' pend P xs"
  unfolding all_at_def by (meson lessI)

lemma all_at_new: "all_at ready pend P xs \<Longrightarrow> length xs \<notin> P"
  by (auto simp: all_at_def)

lemma all_at_fresh: "all_at ready pend P xs \<Longrightarrow> i \<in> P \<Longrightarrow> i < length xs \<and> pend (xs ! i)"
  by (auto simp: all_at_def)

definition struct_ready :: "(string \<Rightarrow> string) \<Rightarrow> (string \<Rightarrow> nat) \<Rightarrow> Generator \<Rightarrow> Struct \<Rightarrow> bool" where
  "struct_ready title rank g s \<longleftrightarrow>
     struct_ok title rank (s_Type s) \<and> fields_done title g (ty_Fields (s_Type s)) (ty_Fields (s_Type s)) (s_Fields s)"

definition union_ready :: "(string \<Rightarrow> string) \<Rightarrow> (string \<Rightarrow> nat) \<Rightarrow> Generator \<Rightarrow> Struct \<Rightarrow> bool" where
  "union_ready title rank g u \<longleftrightarrow> union_ok rank (s_Type u) \<and> fields_done title g [] (ty_Fields (s_Type u)) (s_Fields u)"

definition alias_ready :: "(string \<Rightarrow> nat) \<Rightarrow> Generator \<Rightarrow> Alias \<Rightarrow> bool" where
  "alias_ready rank g a \<longleftrightarrow> alias_ok rank (a_Type a) \<and> alias_done g a"

definition own_fields :: "Message \<Rightarrow> ApiField list" where
  "own_fields m = dropWhile is_header (m_Fields (msg_api m))"

definition message_ready :: "(string \<Rightarrow> string) \<Rightarrow> (string \<Rightarrow> nat) \<Rightarrow> nat \<Rightarrow> Generator \<Rightarrow> Message \<Rightarrow> bool" where
  "message_ready title rank n g m \<longleftrightarrow>
     api_message_ok title rank n (msg_api m) \<and> fields_done title g (own_fields m) (own_fields m) (msg_Fields m) \<and>
     getMsgType (m_Fields (msg_api m)) = Inr (msg_msgType m)"

definition fresh_fields :: "(string \<Rightarrow> string) \<Rightarrow> StructType \<Rightarrow> FieldObj list \<Rightarrow> bool" where
  "fresh_fields title t fs \<longleftrightarrow> fs = map (newField title) (ty_Fields t)"

definition alias_fresh :: "(string \<Rightarrow> nat) \<Rightarrow> Alias \<Rightarrow> bool" where
  "alias_fresh rank a \<longleftrightarrow> alias_ok rank (a_Type a) \<and> a_Struct a = None \<and> a_Union a = None"

definition message_fresh :: "(string \<Rightarrow> string) \<Rightarrow> (string \<Rightarrow> nat) \<Rightarrow> nat \<Rightarrow> Message \<Rightarrow> bool" where
  "message_fresh title rank n m \<longleftrightarrow> api_message_ok title rank n (msg_api m) \<and> msg_Fields m = map (newField title) (own_fields m)"

definition names_ok :: "Generator \<Rightarrow> bool" where
  "names_ok g \<longleftrightarrow>
     (\<forall>n i. enumsByName g n = Some i \<longrightarrow> object_name g (PEnum i) = Some n) \<and>
     (\<forall>n i. aliasesByName g n = Some i \<longrightarrow> object_name g (PAlias i) = Some n) \<and>
     (\<forall>n i. structsByName g n = Some i \<longrightarrow> object_name g (PStruct i) = Some n) \<and>
     (\<forall>n i. unionsByName g n = Some i \<longrightarrow> object_name g (PUnion i) = Some n)"

text \<open>The invariant of the store; aliases, structs, unions and messages at the given positions wait.\<close>

definition store_ok ::
  "(string \<Rightarrow> string) \<Rightarrow> (string \<Rightarrow> nat) \<Rightarrow> nat \<Rightarrow> Generator \<Rightarrow> nat set \<Rightarrow> nat set \<Rightarrow> nat set \<Rightarrow> nat set \<Rightarrow> bool" where
  "store_ok title rank n g As Ss Us Ms \<longleftrightarrow>
     names_ok g \<and> list_all (\<lambda>e. enum_ok (e_Type e)) (g_enums g) \<and>
     all_at (alias_ready rank g) (alias_fresh rank) As (g_aliases g) \<and>
     all_at (struct_ready title rank g) (\<lambda>s. struct_ok title rank (s_Type s) \<and> fresh_fields title (s_Type s) (s_Fields s)) Ss (g_structs g) \<and>
     all_at (union_ready title rank g) (\<lambda>u. union_ok rank (s_Type u) \<and> fresh_fields title (s_Type u) (s_Fields u)) Us (g_unions g) \<and>
     all_at (message_ready title rank n g) (message_fresh title rank n) Ms (g_messages g)"

text \<open>When the store grows, what is resolved stays resolved.\<close>

lemma field_done_mono: "extends g g' \<Longrightarrow> field_done title g p a f \<Longrightarrow> field_done title g' p a f"
  unfolding field_done_def extends_def by (metis (full_types))

lemma fields_done_mono: "extends g g' \<Longrightarrow> fields_done title g p as fs \<Longrightarrow> fields_done title g' p as fs"
  unfolding fields_done_def by (auto elim: list_all2_mono dest: field_done_mono)

lemma alias_ready_mono: "extends g g' \<Longrightarrow> alias_ready rank g a \<Longrightarrow> alias_ready rank g' a"
  by (auto simp: alias_ready_def alias_done_def Let_def extends_def simp del: object_name.simps)

lemma struct_ready_mono: "extends g g' \<Longrightarrow> struct_ready title rank g s \<Longrightarrow> struct_ready title rank g' s"
  using fields_done_mono by (auto simp: struct_ready_def)

lemma union_ready_mono: "extends g g' \<Longrightarrow> union_ready title rank g s \<Longrightarrow> union_ready title rank g' s"
  using fields_done_mono by (auto simp: union_ready_def)

lemma message_ready_mono: "extends g g' \<Longrightarrow> message_ready title rank n g m \<Longrightarrow> message_ready title rank n g' m"
  using fields_done_mono by (auto simp: message_ready_def)

lemmas ready_mono = alias_ready_mono struct_ready_mono union_ready_mono message_ready_mono

section \<open>New objects\<close>

lemma extends_append [simp]:
  "extends g (g\<lparr>g_enums := g_enums g @ es, enumsByName := f\<rparr>)"
  "extends g (g\<lparr>g_aliases := g_aliases g @ as, aliasesByName := f\<rparr>)"
  "extends g (g\<lparr>g_structs := g_structs g @ ss, structsByName := f\<rparr>)"
  "extends g (g\<lparr>g_unions := g_unions g @ us, unionsByName := f\<rparr>)"
  "extends g (g\<lparr>g_messages := g_messages g @ ms, messagesByName := f\<rparr>)"
proof -
  have "object_name (g\<lparr>g_enums := g_enums g @ es, enumsByName := f\<rparr>) p = Some n" if "object_name g p = Some n" for p n
    using that by (cases p) (auto simp: nth_append split: if_splits)
  then show "extends g (g\<lparr>g_enums := g_enums g @ es, enumsByName := f\<rparr>)" by (simp add: extends_def)
  have "object_name (g\<lparr>g_aliases := g_aliases g @ as, aliasesByName := f\<rparr>) p = Some n" if "object_name g p = Some n" for p n
    using that by (cases p) (auto simp: nth_append split: if_splits)
  then show "extends g (g\<lparr>g_aliases := g_aliases g @ as, aliasesByName := f\<rparr>)" by (simp add: extends_def)
  have "object_name (g\<lparr>g_structs := g_structs g @ ss, structsByName := f\<rparr>) p = Some n" if "object_name g p = Some n" for p n
    using that by (cases p) (auto simp: nth_append split: if_splits)
  then show "extends g (g\<lparr>g_structs := g_structs g @ ss, structsByName := f\<rparr>)" by (simp add: extends_def)
  have "object_name (g\<lparr>g_unions := g_unions g @ us, unionsByName := f\<rparr>) p = Some n" if "object_name g p = Some n" for p n
    using that by (cases p) (auto simp: nth_append split: if_splits)
  then show "extends g (g\<lparr>g_unions := g_unions g @ us, unionsByName := f\<rparr>)" by (simp add: extends_def)
  have "object_name (g\<lparr>g_messages := g_messages g @ ms, messagesByName := f\<rparr>) p = Some n" if "object_name g p = Some n" for p n
    using that by (cases p) (auto simp: nth_append split: if_splits)
  then show "extends g (g\<lparr>g_messages := g_messages g @ ms, messagesByName := f\<rparr>)" by (simp add: extends_def)
qed

text \<open>The lists of the store that a step leaves alone keep their part of the invariant.\<close>

lemma store_ok_parts:
  assumes "store_ok title rank n g As Ss Us Ms" "extends g g'"
  shows "all_at (alias_ready rank g') (alias_fresh rank) As (g_aliases g)"
    "all_at (struct_ready title rank g') (\<lambda>s. struct_ok title rank (s_Type s) \<and> fresh_fields title (s_Type s) (s_Fields s)) Ss (g_structs g)"
    "all_at (union_ready title rank g') (\<lambda>u. union_ok rank (s_Type u) \<and> fresh_fields title (s_Type u) (s_Fields u)) Us (g_unions g)"
    "all_at (message_ready title rank n g') (message_fresh title rank n) Ms (g_messages g)"
    "list_all (\<lambda>e. enum_ok (e_Type e)) (g_enums g)"
  using assms ready_mono [OF assms(2)] by (auto simp: store_ok_def intro: all_at_mono)

lemma names_ok_lookup:
  assumes "names_ok g" "extends g g'"
  shows "enumsByName g n = Some i \<Longrightarrow> object_name g' (PEnum i) = Some n"
    "aliasesByName g n = Some i \<Longrightarrow> object_name g' (PAlias i) = Some n"
    "structsByName g n = Some i \<Longrightarrow> object_name g' (PStruct i) = Some n"
    "unionsByName g n = Some i \<Longrightarrow> object_name g' (PUnion i) = Some n"
  using assms unfolding names_ok_def extends_def by blast+

lemma names_ok_intro:
  assumes "names_ok g" "extends g g'"
    and "\<And>n i. enumsByName g' n = Some i \<Longrightarrow> enumsByName g n = Some i \<or> object_name g' (PEnum i) = Some n"
    and "\<And>n i. aliasesByName g' n = Some i \<Longrightarrow> aliasesByName g n = Some i \<or> object_name g' (PAlias i) = Some n"
    and "\<And>n i. structsByName g' n = Some i \<Longrightarrow> structsByName g n = Some i \<or> object_name g' (PStruct i) = Some n"
    and "\<And>n i. unionsByName g' n = Some i \<Longrightarrow> unionsByName g n = Some i \<or> object_name g' (PUnion i) = Some n"
  shows "names_ok g'"
  using assms(3-6) names_ok_lookup [OF assms(1,2)] unfolding names_ok_def by blast

lemma newEnum_ok:
  assumes "enum_ok t" "store_ok title rank n g As Ss Us Ms" "newEnum title b t g = (i, g')"
  shows "store_ok title rank n g' As Ss Us Ms"
proof -
  let ?e = "\<lparr>e_Type = t, e_GoName = camelCaseName title (en_Name t), e_IsFlag = b\<rparr>"
  have g': "g' = g\<lparr>g_enums := g_enums g @ [?e], enumsByName := (enumsByName g)(en_Name t \<mapsto> length (g_enums g))\<rparr>"
    using assms(3) by (auto simp: newEnum_def Let_def)
  have ext: "extends g g'" by (simp add: g')
  have "names_ok g'" using assms(2) by (intro names_ok_intro [OF _ ext]) (auto simp: store_ok_def g' split: if_splits)
  with store_ok_parts [OF assms(2) ext] assms(1) show ?thesis by (simp add: store_ok_def g')
qed

lemma newAlias_ok:
  assumes "alias_ok rank t" "store_ok title rank n g As Ss Us Ms" "newAlias title t g = (i, g')"
  shows "store_ok title rank n g' (insert i As) Ss Us Ms" "i \<notin> As"
proof -
  let ?a = "\<lparr>a_Type = t, a_GoName = camelCaseName title (al_Name t), a_Struct = None, a_Union = None\<rparr>"
  have i: "i = length (g_aliases g)"
    and g': "g' = g\<lparr>g_aliases := g_aliases g @ [?a], aliasesByName := (aliasesByName g)(al_Name t \<mapsto> length (g_aliases g))\<rparr>"
    using assms(3) by (auto simp: newAlias_def Let_def)
  have ext: "extends g g'" by (simp add: g')
  have "names_ok g'" using assms(2) by (intro names_ok_intro [OF _ ext]) (auto simp: store_ok_def g' split: if_splits)
  moreover have "alias_fresh rank ?a" using assms(1) by (simp add: alias_fresh_def)
  ultimately show "store_ok title rank n g' (insert i As) Ss Us Ms"
    using store_ok_parts [OF assms(2) ext] by (simp add: store_ok_def g' i all_at_add)
  show "i \<notin> As" using assms(2) all_at_new by (auto simp: store_ok_def i)
qed

lemma newStruct_ok:
  assumes "struct_ok title rank t" "store_ok title rank n g As Ss Us Ms" "newStruct title t g = (i, g')"
  shows "store_ok title rank n g' As (insert i Ss) Us Ms" "i \<notin> Ss"
proof -
  let ?s = "\<lparr>s_Type = t, s_GoName = camelCaseName title (ty_Name t), s_Fields = map (newField title) (ty_Fields t)\<rparr>"
  have i: "i = length (g_structs g)"
    and g': "g' = g\<lparr>g_structs := g_structs g @ [?s], structsByName := (structsByName g)(ty_Name t \<mapsto> length (g_structs g))\<rparr>"
    using assms(3) by (auto simp: newStruct_def Let_def)
  have ext: "extends g g'" by (simp add: g')
  have "names_ok g'" using assms(2) by (intro names_ok_intro [OF _ ext]) (auto simp: store_ok_def g' split: if_splits)
  moreover have "fresh_fields title t (s_Fields ?s)" by (simp add: fresh_fields_def)
  ultimately show "store_ok title rank n g' As (insert i Ss) Us Ms"
    using store_ok_parts [OF assms(2) ext] assms(1) by (simp add: store_ok_def g' i all_at_add)
  show "i \<notin> Ss" using assms(2) all_at_new by (auto simp: store_ok_def i)
qed

lemma newUnion_ok:
  assumes "union_ok rank t" "store_ok title rank n g As Ss Us Ms" "newUnion title t g = (i, g')"
  shows "store_ok title rank n g' As Ss (insert i Us) Ms" "i \<notin> Us"
proof -
  let ?u = "\<lparr>s_Type = t, s_GoName = withSuffix (camelCaseName title (ty_Name t)) ''Union'', s_Fields = map (newField title) (ty_Fields t)\<rparr>"
  have i: "i = length (g_unions g)"
    and g': "g' = g\<lparr>g_unions := g_unions g @ [?u], unionsByName := (unionsByName g)(ty_Name t \<mapsto> length (g_unions g))\<rparr>"
    using assms(3) by (auto simp: newUnion_def Let_def)
  have ext: "extends g g'" by (simp add: g')
  have "names_ok g'" using assms(2) by (intro names_ok_intro [OF _ ext]) (auto simp: store_ok_def g' split: if_splits)
  moreover have "fresh_fields title t (s_Fields ?u)" by (simp add: fresh_fields_def)
  ultimately show "store_ok title rank n g' As Ss (insert i Us) Ms"
    using store_ok_parts [OF assms(2) ext] assms(1) by (simp add: store_ok_def g' i all_at_add)
  show "i \<notin> Us" using assms(2) all_at_new by (auto simp: store_ok_def i)
qed

lemma newMessage_ok:
  assumes "api_message_ok title rank n t" "store_ok title rank n g As Ss Us Ms" "newMessage title packageName t g = (i, g')"
  shows "store_ok title rank n g' As Ss Us (insert i Ms)" "i \<notin> Ms"
proof -
  let ?m = "\<lparr>msg_api = t, msg_CRC = normalizeCRC (m_CRC t),
      msg_Comment = StripMessageCommentFields (CleanMessageComment (m_Comment t)) [''context'', ''client_index''],
      msg_GoName = newGoIdent title packageName (m_Name t), msg_Fields = map (newField title) (dropWhile is_header (m_Fields t)),
      msg_msgType = msgTypeBase\<rparr>"
  have i: "i = length (g_messages g)"
    and g': "g' = g\<lparr>g_messages := g_messages g @ [?m], messagesByName := (messagesByName g)(m_Name t \<mapsto> length (g_messages g))\<rparr>"
    using assms(3) by (auto simp: newMessage_def Let_def)
  have ext: "extends g g'" by (simp add: g')
  have "names_ok g'" using assms(2) by (intro names_ok_intro [OF _ ext]) (auto simp: store_ok_def g' split: if_splits)
  moreover have "message_fresh title rank n ?m" using assms(1) by (simp add: message_fresh_def own_fields_def)
  ultimately show "store_ok title rank n g' As Ss Us (insert i Ms)"
    using store_ok_parts [OF assms(2) ext] by (simp add: store_ok_def g' i all_at_add)
  show "i \<notin> Ms" using assms(2) all_at_new by (auto simp: store_ok_def i)
qed

text \<open>All objects of a kind: they wait, and are different ones.\<close>

lemma new_all_ok:
  assumes "\<And>x g g' i P. Q x \<Longrightarrow> Inv g P \<Longrightarrow> f x g = (i, g') \<Longrightarrow> Inv g' (insert i P) \<and> i \<notin> P"
  shows "list_all Q xs \<Longrightarrow> Inv g P \<Longrightarrow> new_all f xs g = (is, g') \<Longrightarrow> Inv g' (P \<union> set is) \<and> distinct is \<and> set is \<inter> P = {}"
proof (induction xs arbitrary: g P "is")
  case (Cons x xs)
  obtain i g1 js where step: "f x g = (i, g1)" "new_all f xs g1 = (js, g')" "is = i # js"
    using Cons.prems(3) by (auto split: prod.splits)
  have "Inv g1 (insert i P)" "i \<notin> P" using assms [of x g P i g1] Cons.prems(1,2) step(1) by auto
  then show ?case using Cons.IH [of g1 "insert i P" js] Cons.prems(1) step(2,3) by auto
qed simp

lemma new_all_from_none:
  assumes "\<And>x g g' i P. Q x \<Longrightarrow> Inv g P \<Longrightarrow> f x g = (i, g') \<Longrightarrow> Inv g' (insert i P) \<and> i \<notin> P"
    and "list_all Q xs" "Inv g {}" "new_all f xs g = (is, g')"
  shows "Inv g' (set is)" "distinct is"
  using new_all_ok [of Q Inv f, OF assms(1) assms(2-4)] by simp_all

lemma new_enums_ok:
  "list_all enum_ok ts \<Longrightarrow> store_ok title rank n g As Ss Us Ms \<Longrightarrow> new_all (newEnum title b) ts g = (is, g') \<Longrightarrow>
   store_ok title rank n g' As Ss Us Ms"
proof (induction ts arbitrary: g "is")
  case (Cons t ts)
  then show ?case using newEnum_ok [of t title rank n g As Ss Us Ms b] by (auto split: prod.splits)
qed simp

lemma add_objects_ok:
  assumes "file_ok title rank n af" "store_ok title rank n g {} {} {} {}" "add_objects title packageName af g = (file, g')"
  shows "store_ok title rank n g' (set (file_Aliases file)) (set (file_Structs file)) (set (file_Unions file)) (set (file_Messages file))"
    "distinct (file_Aliases file)" "distinct (file_Structs file)" "distinct (file_Unions file)" "distinct (file_Messages file)"
proof -
  obtain es g1 fs g2 as g3 ss g4 us g5 ms where
    s: "new_all (newEnum title False) (af_EnumTypes af) g = (es, g1)" "new_all (newEnum title True) (af_EnumflagTypes af) g1 = (fs, g2)"
      "new_all (newAlias title) (af_AliasTypes af) g2 = (as, g3)" "new_all (newStruct title) (af_StructTypes af) g3 = (ss, g4)"
      "new_all (newUnion title) (af_UnionTypes af) g4 = (us, g5)" "new_all (newMessage title packageName) (af_Messages af) g5 = (ms, g')"
    and objs: "file_Aliases file = as" "file_Structs file = ss" "file_Unions file = us" "file_Messages file = ms"
    using assms(3) by (auto simp: add_objects_def Let_def split: prod.splits)
  have ok: "list_all enum_ok (af_EnumTypes af)" "list_all enum_ok (af_EnumflagTypes af)" "list_all (alias_ok rank) (af_AliasTypes af)"
    "list_all (struct_ok title rank) (af_StructTypes af)" "list_all (union_ok rank) (af_UnionTypes af)"
    "list_all (api_message_ok title rank n) (af_Messages af)"
    using assms(1) by (simp_all add: file_ok_def)
  have "store_ok title rank n g2 {} {} {} {}" by (rule new_enums_ok [OF ok(2) new_enums_ok [OF ok(1) assms(2) s(1)] s(2)])
  note 3 = new_all_from_none [of "alias_ok rank" "\<lambda>g P. store_ok title rank n g P {} {} {}", OF conjI [OF newAlias_ok] ok(3) this s(3)]
  note 4 = new_all_from_none [of "struct_ok title rank" "\<lambda>g P. store_ok title rank n g (set as) P {} {}",
      OF conjI [OF newStruct_ok] ok(4) 3(1) s(4)]
  note 5 = new_all_from_none [of "union_ok rank" "\<lambda>g P. store_ok title rank n g (set as) (set ss) P {}",
      OF conjI [OF newUnion_ok] ok(5) 4(1) s(5)]
  note 6 = new_all_from_none [of "api_message_ok title rank n" "\<lambda>g P. store_ok title rank n g (set as) (set ss) (set us) P",
      OF conjI [OF newMessage_ok] ok(6) 5(1) s(6)]
  show "store_ok title rank n g' (set (file_Aliases file)) (set (file_Structs file)) (set (file_Unions file)) (set (file_Messages file))"
    "distinct (file_Aliases file)" "distinct (file_Structs file)" "distinct (file_Unions file)" "distinct (file_Messages file)"
    using 3 4 5 6 by (simp_all add: objs)
qed

section \<open>Resolving\<close>

lemma all_or_error_iff: "all_or_error f xs = Inr ys \<longleftrightarrow> list_all2 (\<lambda>x y. f x = Inr y) xs ys"
proof (induction xs arbitrary: ys)
  case (Cons x xs)
  show ?case by (cases "f x"; cases "all_or_error f xs"; cases ys) (auto simp flip: Cons.IH)
qed (auto simp: eq_commute)

lemma find_type_name:
  assumes "names_ok g" "find_type g n = Some p"
  shows "object_name g p = Some n"
  using assms(2) names_ok_lookup [OF assms(1) extends_refl] by (auto simp: find_type_def simp del: object_name.simps split: option.splits)

lemma resolve_field:
  assumes "names_ok g" "field_resolveDependencies g (map (newField title) parent) (newField title a) = Inr f"
  shows "field_done title g parent a f"
proof (cases "is_base (f_Type a)")
  case True
  then show ?thesis using assms(2) by (auto simp: field_resolveDependencies_def resolveType_def field_done_def newField_def)
next
  case False
  then obtain p where "find_type g (fromApiType (f_Type a)) = Some p" "f = resolveFields (map (newField title) parent) (newField title a\<lparr>o_Type := Some p\<rparr>)"
    using assms(2) by (auto simp: field_resolveDependencies_def resolveType_def newField_def split: option.splits)
  then show ?thesis using False find_type_name [OF assms(1)] by (auto simp: field_done_def)
qed

lemma resolve_fields:
  assumes "names_ok g" "all_or_error (field_resolveDependencies g (map (newField title) parent)) (map (newField title) as) = Inr fs"
  shows "fields_done title g parent as fs"
  using assms resolve_field [OF assms(1)] by (auto simp: all_or_error_iff fields_done_def list_all2_map1 elim: list_all2_mono)

lemma store_ok_update:
  assumes "store_ok title rank n g As Ss Us Ms" "extends g g'"
    and "enumsByName g' = enumsByName g" "aliasesByName g' = aliasesByName g" "structsByName g' = structsByName g" "unionsByName g' = unionsByName g"
  shows "names_ok g'"
  using assms by (intro names_ok_intro [OF _ assms(2)]) (auto simp: store_ok_def)

lemma extends_update [simp]:
  "a_Type a = a_Type (g_aliases g ! i) \<Longrightarrow> extends g (g\<lparr>g_aliases := (g_aliases g)[i := a]\<rparr>)"
  "s_Type s = s_Type (g_structs g ! i) \<Longrightarrow> extends g (g\<lparr>g_structs := (g_structs g)[i := s]\<rparr>)"
  "s_Type s = s_Type (g_unions g ! i) \<Longrightarrow> extends g (g\<lparr>g_unions := (g_unions g)[i := s]\<rparr>)"
  "extends g (g\<lparr>g_messages := (g_messages g)[i := m]\<rparr>)"
proof -
  assume a: "a_Type a = a_Type (g_aliases g ! i)"
  have "object_name (g\<lparr>g_aliases := (g_aliases g)[i := a]\<rparr>) p = object_name g p" for p
    using a by (cases p; cases "i < length (g_aliases g)") (auto simp: nth_list_update)
  then show "extends g (g\<lparr>g_aliases := (g_aliases g)[i := a]\<rparr>)" by (simp add: extends_def)
next
  assume a: "s_Type s = s_Type (g_structs g ! i)"
  have "object_name (g\<lparr>g_structs := (g_structs g)[i := s]\<rparr>) p = object_name g p" for p
    using a by (cases p; cases "i < length (g_structs g)") (auto simp: nth_list_update)
  then show "extends g (g\<lparr>g_structs := (g_structs g)[i := s]\<rparr>)" by (simp add: extends_def)
next
  assume a: "s_Type s = s_Type (g_unions g ! i)"
  have "object_name (g\<lparr>g_unions := (g_unions g)[i := s]\<rparr>) p = object_name g p" for p
    using a by (cases p; cases "i < length (g_unions g)") (auto simp: nth_list_update)
  then show "extends g (g\<lparr>g_unions := (g_unions g)[i := s]\<rparr>)" by (simp add: extends_def)
next
  have "object_name (g\<lparr>g_messages := (g_messages g)[i := m]\<rparr>) p = object_name g p" for p by (cases p) auto
  then show "extends g (g\<lparr>g_messages := (g_messages g)[i := m]\<rparr>)" by (simp add: extends_def)
qed

lemma alias_resolve_ok:
  assumes inv: "store_ok title rank n g As Ss Us Ms" and "i \<in> As" "alias_resolve g i = Inr g'"
  shows "store_ok title rank n g' (As - {i}) Ss Us Ms"
proof -
  let ?a = "g_aliases g ! i"
  obtain a where a: "alias_resolveType g ?a = Inr a" and g': "g' = g\<lparr>g_aliases := (g_aliases g)[i := a]\<rparr>"
    using assms(3) by (auto simp: alias_resolve_def split: sum.splits)
  have ty: "a_Type a = a_Type ?a" using a by (auto simp: alias_resolveType_def Let_def split: if_splits option.splits)
  then have ext: "extends g g'" by (simp add: g')
  have names: "names_ok g" and pend: "alias_fresh rank ?a"
    using inv all_at_fresh [OF _ assms(2)] by (auto simp: store_ok_def)
  have "alias_ready rank g a"
    using a pend names_ok_lookup(3,4) [OF names extends_refl]
    by (auto simp: alias_resolveType_def alias_ready_def alias_done_def alias_fresh_def Let_def simp del: object_name.simps split: if_splits option.splits)
  then have "alias_ready rank g' a" by (rule alias_ready_mono [OF ext])
  moreover have "names_ok g'" by (rule store_ok_update [OF inv ext]) (simp_all add: g')
  ultimately show ?thesis using store_ok_parts [OF inv ext] by (simp add: store_ok_def g' all_at_update)
qed

lemma struct_resolve_ok:
  assumes inv: "store_ok title rank n g As Ss Us Ms" and "i \<in> Ss" "struct_resolve g i = Inr g'"
  shows "store_ok title rank n g' As (Ss - {i}) Us Ms"
proof -
  let ?s = "g_structs g ! i"
  obtain fs where fs: "all_or_error (field_resolveDependencies g (s_Fields ?s)) (s_Fields ?s) = Inr fs"
    and g': "g' = g\<lparr>g_structs := (g_structs g)[i := ?s\<lparr>s_Fields := fs\<rparr>]\<rparr>"
    using assms(3) by (auto simp: struct_resolve_def Let_def split: sum.splits)
  have ext: "extends g g'" by (simp add: g')
  have names: "names_ok g" and pend: "struct_ok title rank (s_Type ?s)" "fresh_fields title (s_Type ?s) (s_Fields ?s)"
    using inv all_at_fresh [OF _ assms(2)] by (auto simp: store_ok_def)
  have "fields_done title g (ty_Fields (s_Type ?s)) (ty_Fields (s_Type ?s)) fs"
    using fs pend(2) by (intro resolve_fields [OF names]) (simp add: fresh_fields_def)
  then have "struct_ready title rank g (?s\<lparr>s_Fields := fs\<rparr>)" using pend(1) by (simp add: struct_ready_def)
  then have "struct_ready title rank g' (?s\<lparr>s_Fields := fs\<rparr>)" by (rule struct_ready_mono [OF ext])
  moreover have "names_ok g'" by (rule store_ok_update [OF inv ext]) (simp_all add: g')
  ultimately show ?thesis using store_ok_parts [OF inv ext] by (simp add: store_ok_def g' all_at_update)
qed

lemma union_resolve_ok:
  assumes inv: "store_ok title rank n g As Ss Us Ms" and "i \<in> Us" "union_resolve g i = Inr g'"
  shows "store_ok title rank n g' As Ss (Us - {i}) Ms"
proof -
  let ?s = "g_unions g ! i"
  obtain fs where fs: "all_or_error (field_resolveDependencies g []) (s_Fields ?s) = Inr fs"
    and g': "g' = g\<lparr>g_unions := (g_unions g)[i := ?s\<lparr>s_Fields := fs\<rparr>]\<rparr>"
    using assms(3) by (auto simp: union_resolve_def Let_def split: sum.splits)
  have ext: "extends g g'" by (simp add: g')
  have names: "names_ok g" and pend: "union_ok rank (s_Type ?s)" "fresh_fields title (s_Type ?s) (s_Fields ?s)"
    using inv all_at_fresh [OF _ assms(2)] by (auto simp: store_ok_def)
  have "fields_done title g [] (ty_Fields (s_Type ?s)) fs"
    using fs pend(2) by (intro resolve_fields [OF names]) (simp add: fresh_fields_def)
  then have "union_ready title rank g (?s\<lparr>s_Fields := fs\<rparr>)" using pend(1) by (simp add: union_ready_def)
  then have "union_ready title rank g' (?s\<lparr>s_Fields := fs\<rparr>)" by (rule union_ready_mono [OF ext])
  moreover have "names_ok g'" by (rule store_ok_update [OF inv ext]) (simp_all add: g')
  ultimately show ?thesis using store_ok_parts [OF inv ext] by (simp add: store_ok_def g' all_at_update)
qed

lemma message_resolve_ok:
  assumes inv: "store_ok title rank n g As Ss Us Ms" and "i \<in> Ms" "message_resolve g i = Inr g'"
  shows "store_ok title rank n g' As Ss Us (Ms - {i})"
proof -
  let ?m = "g_messages g ! i"
  obtain kind fs where kind: "getMsgType (m_Fields (msg_api ?m)) = Inr kind"
    and fs: "all_or_error (field_resolveDependencies g (msg_Fields ?m)) (msg_Fields ?m) = Inr fs"
    and g': "g' = g\<lparr>g_messages := (g_messages g)[i := ?m\<lparr>msg_Fields := fs, msg_msgType := kind\<rparr>]\<rparr>"
    using assms(3) by (auto simp: message_resolve_def Let_def split: sum.splits)
  have ext: "extends g g'" by (simp add: g')
  have names: "names_ok g" and pend: "message_fresh title rank n ?m"
    using inv all_at_fresh [OF _ assms(2)] by (auto simp: store_ok_def)
  have "fields_done title g (own_fields ?m) (own_fields ?m) fs"
    using fs pend by (intro resolve_fields [OF names]) (simp add: message_fresh_def)
  then have "message_ready title rank n g (?m\<lparr>msg_Fields := fs, msg_msgType := kind\<rparr>)"
    using pend kind by (simp add: message_ready_def message_fresh_def own_fields_def)
  then have "message_ready title rank n g' (?m\<lparr>msg_Fields := fs, msg_msgType := kind\<rparr>)" by (rule message_ready_mono [OF ext])
  moreover have "names_ok g'" by (rule store_ok_update [OF inv ext]) (simp_all add: g')
  ultimately show ?thesis using store_ok_parts [OF inv ext] by (simp add: store_ok_def g' all_at_update)
qed

text \<open>Resolving all waiting objects of a kind.\<close>

lemma resolve_all_ok:
  assumes "\<And>g g' i P. Inv g P \<Longrightarrow> i \<in> P \<Longrightarrow> f g i = Inr g' \<Longrightarrow> Inv g' (P - {i})"
  shows "resolve_all f g is = Inr g' \<Longrightarrow> Inv g (set is) \<Longrightarrow> distinct is \<Longrightarrow> Inv g' {}"
proof (induction "is" arbitrary: g)
  case (Cons i "is")
  then obtain g1 where g1: "f g i = Inr g1" "resolve_all f g1 is = Inr g'" by (auto split: sum.splits)
  moreover have "Inv g1 (set is)" using assms [of g "set (i # is)" i g1] Cons.prems(2,3) g1(1) by simp
  ultimately show ?case using Cons.IH Cons.prems(3) by simp
qed simp

lemma resolve_objects_ok:
  assumes "store_ok title rank n g (set (file_Aliases file)) (set (file_Structs file)) (set (file_Unions file)) (set (file_Messages file))"
    and d: "distinct (file_Aliases file)" "distinct (file_Structs file)" "distinct (file_Unions file)" "distinct (file_Messages file)"
    and "resolve_objects file g = Inr g'"
  shows "store_ok title rank n g' {} {} {} {}"
proof -
  obtain g1 g2 g3 where s: "resolve_all alias_resolve g (file_Aliases file) = Inr g1"
    "resolve_all struct_resolve g1 (file_Structs file) = Inr g2" "resolve_all union_resolve g2 (file_Unions file) = Inr g3"
    "resolve_all message_resolve g3 (file_Messages file) = Inr g'"
    using assms(6) by (auto simp: resolve_objects_def split: sum.splits)
  note 1 = resolve_all_ok [of "\<lambda>g P. store_ok title rank n g P (set (file_Structs file)) (set (file_Unions file)) (set (file_Messages file))",
      OF alias_resolve_ok s(1) assms(1) d(1)]
  note 2 = resolve_all_ok [of "\<lambda>g P. store_ok title rank n g {} P (set (file_Unions file)) (set (file_Messages file))",
      OF struct_resolve_ok s(2) 1 d(2)]
  note 3 = resolve_all_ok [of "\<lambda>g P. store_ok title rank n g {} {} P (set (file_Messages file))", OF union_resolve_ok s(3) 2 d(3)]
  show ?thesis by (rule resolve_all_ok [of "\<lambda>g P. store_ok title rank n g {} {} {} P", OF message_resolve_ok s(4) 3 d(4)])
qed

lemma newFile_ok:
  assumes "file_ok title rank n af" "store_ok title rank n g {} {} {} {}" "newFile title packageName g af = Inr (file, g')"
  shows "store_ok title rank n g' {} {} {} {}"
proof -
  obtain file' g1 where s: "add_objects title packageName af g = (file', g1)" "resolve_objects file' g1 = Inr g'"
    using assms(3) by (auto simp: newFile_def split: prod.splits sum.splits option.splits)
  show ?thesis by (rule resolve_objects_ok [OF add_objects_ok [OF assms(1,2) s(1)] s(2)])
qed

section \<open>Trees\<close>

lemma those_Some: "those xs = Some ys \<longleftrightarrow> xs = map Some ys"
  by (induction xs arbitrary: ys) (auto split: option.splits)

lemma fields_of_iff: "fields_of tree fs = Some ts \<longleftrightarrow> list_all2 (\<lambda>f t. field_of tree fs f = Some t) fs ts"
  unfolding fields_of_def those_Some by (auto simp: list_all2_conv_all_nth list_eq_iff_nth_eq)

lemma fields_of_mono:
  assumes "\<And>p t. tree p = Some t \<Longrightarrow> tree' p = Some t" "fields_of tree fs = Some ts"
  shows "fields_of tree' fs = Some ts"
proof -
  have "field_of tree fs f = Some t \<Longrightarrow> field_of tree' fs f = Some t" for f t
    using assms(1) by (auto simp: field_of_def split: option.splits)
  then show ?thesis using assms(2) by (auto simp: fields_of_iff elim: list_all2_mono)
qed

text \<open>A larger bound on the depth gives the same tree.\<close>

lemma tree_of_Suc: "tree_of g n p = Some t \<Longrightarrow> tree_of g (Suc n) p = Some t"
proof (induction g n p arbitrary: t rule: tree_of.induct)
  case (3 g n i)
  then show ?case by (auto simp: Let_def split: option.splits elim!: fields_of_mono [rotated])
next
  case (4 g n i)
  then show ?case by (auto elim!: fields_of_mono [rotated])
next
  case (5 g n i)
  then show ?case by (auto elim!: fields_of_mono [rotated])
qed simp_all

lemma tree_of_mono: "n \<le> k \<Longrightarrow> tree_of g n p = Some t \<Longrightarrow> tree_of g k p = Some t"
  by (induction k rule: dec_induct) (auto dest: tree_of_Suc simp del: tree_of.simps)

lemma find_index_Some: "find_index P xs = Some j \<Longrightarrow> j < length xs \<and> P (xs ! j) \<and> (\<forall>k < j. \<not> P (xs ! k))"
proof (induction xs arbitrary: j)
  case (Cons x xs)
  show ?case
  proof (cases "P x")
    case False
    then obtain i where i: "find_index P xs = Some i" "j = Suc i" using Cons.prems by auto
    then show ?thesis using Cons.IH [OF i(1)] False by (auto simp: less_Suc_eq_0_disj nth_Cons')
  qed (use Cons.prems in auto)
qed simp

lemma find_index_None: "find_index P xs = None \<longleftrightarrow> (\<forall>x \<in> set xs. \<not> P x)"
  by (induction xs) auto

lemma ok_fields_nth:
  assumes "\<And>i. i < length fs \<Longrightarrow> ok_field (rev (map fd_GoName (take i fs)) @ seen) (fs ! i)"
    and "distinct (map fd_GoName fs)" "set (map fd_GoName fs) \<inter> set seen = {}"
  shows "ok_fields seen fs"
  using assms
proof (induction fs arbitrary: seen)
  case (Cons f fs)
  have "ok_field (rev (map fd_GoName (take i fs)) @ fd_GoName f # seen) (fs ! i)" if "i < length fs" for i
    using Cons.prems(1) [of "Suc i"] that by simp
  then have "ok_fields (fd_GoName f # seen) fs" using Cons.prems(2,3) by (intro Cons.IH) auto
  then show ?case using Cons.prems(1) [of 0] Cons.prems(3) by auto
qed simp

lemma resolveFields_simps [simp]:
  "o_api (resolveFields fs f) = o_api f" "o_GoName (resolveFields fs f) = o_GoName f" "o_Type (resolveFields fs f) = o_Type f"
  by (simp_all add: resolveFields_def)

lemma newField_simps [simp]: "o_api (newField title a) = a" "o_GoName (newField title a) = camelCaseName title (f_Name a)"
  "o_SizeOf (newField title a) = None" "o_SizeFrom (newField title a) = None"
  by (simp_all add: newField_def)

lemma field_tree:
  assumes ok: "api_fields_ok title as" and objs: "fields_done title g as as fs" and i: "i < length as"
    and tree: "\<And>p nm. object_name g p = Some nm \<Longrightarrow> rank nm < k \<Longrightarrow> \<exists>t. tree p = Some t \<and> ok_ref t" and below: "refs_below rank k as"
  shows "\<exists>t. field_of tree fs (fs ! i) = Some t \<and> fd_GoName t = camelCaseName title (f_Name (as ! i)) \<and>
    ok_field (rev (map (\<lambda>a. camelCaseName title (f_Name a)) (take i as))) t"
proof -
  let ?go = "\<lambda>a. camelCaseName title (f_Name a)" and ?a = "as ! i"
  have go: "o_GoName (fs ! j) = ?go (as ! j)" and len: "length fs = length as" if "j < length as" for j
    using objs that by (auto simp: fields_done_def list_all2_conv_all_nth field_done_def)
  have nm: "api_field_ok as (set (map f_Name (take i as))) ?a" using ok i by (simp add: api_fields_ok_def)
  obtain ty where f: "fs ! i = resolveFields (map (newField title) as) (newField title ?a\<lparr>o_Type := ty\<rparr>)"
    and ty: "if is_base (f_Type ?a) then ty = None else \<exists>p. ty = Some p \<and> object_name g p = Some (fromApiType (f_Type ?a))"
    using objs i by (auto simp: fields_done_def list_all2_conv_all_nth field_done_def)
  have "\<exists>r. (case ty of None \<Rightarrow> Some NoRef | Some p \<Rightarrow> tree p) = Some r \<and> (if is_base (f_Type ?a) then r = NoRef else ok_ref r)"
  proof (cases "is_base (f_Type ?a)")
    case False
    then obtain p where p: "ty = Some p" "object_name g p = Some (fromApiType (f_Type ?a))" using ty by auto
    have "rank (fromApiType (f_Type ?a)) < k" using below False nth_mem [OF i] by (simp add: refs_below_def)
    from tree [OF p(2) this] show ?thesis using False p(1) by simp
  qed (use ty in simp)
  then obtain r where r: "(case ty of None \<Rightarrow> Some NoRef | Some p \<Rightarrow> tree p) = Some r" "if is_base (f_Type ?a) then r = NoRef else ok_ref r"
    by blast
  let ?sf = "map_option (\<lambda>i. o_GoName (fs ! i)) (o_SizeFrom (fs ! i))" and ?so = "map_option (\<lambda>i. o_GoName (fs ! i)) (o_SizeOf (fs ! i))"
  have t: "field_of tree fs (fs ! i) = Some (Field ?a (?go ?a) r ?so ?sf)" using r(1) by (simp add: field_of_def f)
  have sf: "(f_SizeFrom ?a = '''' \<longleftrightarrow> ?sf = None) \<and> (\<forall>c. ?sf = Some c \<longrightarrow> c \<in> ?go ` set (take i as))"
  proof (cases "f_SizeFrom ?a = ''''")
    case True
    then show ?thesis by (simp add: f resolveFields_def)
  next
    case False
    let ?j = "find_index (\<lambda>x. f_Name (o_api x) = f_SizeFrom ?a) (map (newField title) as)"
    from False nm obtain b where "b \<in> set (take i as)" "f_Name b = f_SizeFrom ?a" by (auto simp: api_field_ok_def)
    then obtain l where l: "l < i" "f_Name (as ! l) = f_SizeFrom ?a" using i by (auto simp: in_set_conv_nth)
    then have "?j \<noteq> None" using i by (auto simp: find_index_None)
    then obtain j where j: "?j = Some j" by blast
    from find_index_Some [OF this] have at: "j < length as" "\<forall>k < j. f_Name (as ! k) \<noteq> f_SizeFrom ?a" by auto
    with l have "j < i" by (metis le_less_trans not_le)
    then have "?go (as ! j) \<in> ?go ` set (take i as)" using at(1) by (auto simp: in_set_conv_nth intro!: imageI exI [of _ j])
    then show ?thesis using False j go at(1) by (simp add: f resolveFields_def)
  qed
  have so: "?so = None \<or> counted_by as ?a \<and> f_SizeFrom ?a = ''''"
    by (auto simp: f resolveFields_def counted_by_def find_index_None)
  have fit: "ok_field (rev (map ?go (take i as))) (Field ?a (?go ?a) r so' sf')" if "so' = ?so" "sf' = ?sf" for so' sf'
    using nm sf so r(2) unfolding that [symmetric] by (auto simp: api_field_ok_def split: option.splits if_splits)
  show ?thesis by (intro exI conjI) (rule t, simp, rule fit [OF refl refl])
qed

lemma fields_tree:
  assumes ok: "api_fields_ok title as" and objs: "fields_done title g as as fs"
    and tree: "\<And>p nm. object_name g p = Some nm \<Longrightarrow> rank nm < k \<Longrightarrow> \<exists>t. tree p = Some t \<and> ok_ref t" and below: "refs_below rank k as"
  shows "\<exists>ts. fields_of tree fs = Some ts \<and> ok_fields [] ts"
proof -
  let ?go = "\<lambda>a. camelCaseName title (f_Name a)"
  have len: "length fs = length as" using objs by (auto simp: fields_done_def dest: list_all2_lengthD)
  have "\<exists>t. field_of tree fs (fs ! i) = Some t \<and> fd_GoName t = ?go (as ! i) \<and> ok_field (rev (map ?go (take i as))) t" if "i < length as" for i
    by (rule field_tree [OF ok objs that tree below])
  then obtain t where t: "\<And>i. i < length as \<Longrightarrow> field_of tree fs (fs ! i) = Some (t i) \<and> fd_GoName (t i) = ?go (as ! i) \<and>
      ok_field (rev (map ?go (take i as))) (t i)" by metis
  let ?ts = "map t [0..<length as]"
  have names: "map fd_GoName ?ts = map ?go as" by (rule nth_equalityI) (use t in auto)
  have "fields_of tree fs = Some ?ts" using t len by (auto simp: fields_of_iff list_all2_conv_all_nth)
  moreover have "ok_fields [] ?ts"
  proof (rule ok_fields_nth)
    fix i assume i: "i < length ?ts"
    have "map fd_GoName (take i ?ts) = map ?go (take i as)" using names by (metis take_map)
    then show "ok_field (rev (map fd_GoName (take i ?ts)) @ []) (?ts ! i)" using t i by simp
  qed (use ok names in \<open>auto simp: api_fields_ok_def simp del: map_map\<close>)
  ultimately show ?thesis by blast
qed

text \<open>
  What the generators need of the resolved types: every union has a size that is not zero (they panic on
  members of base types), and no alias stands for a union.
\<close>

definition types_supported :: "Generator \<Rightarrow> nat \<Rightarrow> bool" where
  "types_supported g n \<longleftrightarrow>
     list_all (\<lambda>u. case fields_of (tree_of g n) (s_Fields u) of None \<Rightarrow> False
       | Some fs \<Rightarrow> (case getUnionSize fs of None \<Rightarrow> False | Some k \<Rightarrow> 0 < k)) (g_unions g) \<and>
     list_all (\<lambda>a. a_Union a = None) (g_aliases g)"

lemma refs_below_mono: "refs_below rank n as \<Longrightarrow> n \<le> k \<Longrightarrow> refs_below rank k as"
  by (auto simp: refs_below_def)

lemma member_trees:
  assumes "fields_done title g parent as fs" "refs_below rank k as"
    and tree: "\<And>p nm. object_name g p = Some nm \<Longrightarrow> rank nm < k \<Longrightarrow> \<exists>t. tree p = Some t"
  shows "\<exists>ts. fields_of tree fs = Some ts"
proof -
  have "\<exists>t. field_of tree fs (fs ! i) = Some t" if i: "i < length fs" for i
  proof -
    have len: "i < length as" using assms(1) i by (auto simp: fields_done_def dest: list_all2_lengthD)
    let ?a = "as ! i"
    obtain ty where ty: "o_Type (fs ! i) = ty" "if is_base (f_Type ?a) then ty = None else \<exists>p. ty = Some p \<and> object_name g p = Some (fromApiType (f_Type ?a))"
      using assms(1) len by (auto simp: fields_done_def list_all2_conv_all_nth field_done_def)
    show ?thesis
    proof (cases "is_base (f_Type ?a)")
      case True
      then show ?thesis using ty by (simp add: field_of_def)
    next
      case False
      then obtain p where p: "ty = Some p" "object_name g p = Some (fromApiType (f_Type ?a))" using ty by auto
      have "rank (fromApiType (f_Type ?a)) < k" using assms(2) False nth_mem [OF len] by (simp add: refs_below_def)
      from tree [OF p(2) this] show ?thesis using ty(1) p(1) by (auto simp: field_of_def)
    qed
  qed
  then obtain t where "\<And>i. i < length fs \<Longrightarrow> field_of tree fs (fs ! i) = Some (t i)" by metis
  then have "fields_of tree fs = Some (map t [0..<length fs])" by (auto simp: fields_of_iff list_all2_conv_all_nth)
  then show ?thesis by blast
qed

lemma store_ok_at:
  assumes "store_ok title rank n g {} {} {} {}"
  shows "i < length (g_enums g) \<Longrightarrow> enum_ok (e_Type (g_enums g ! i))"
    "i < length (g_aliases g) \<Longrightarrow> alias_ready rank g (g_aliases g ! i)"
    "i < length (g_structs g) \<Longrightarrow> struct_ready title rank g (g_structs g ! i)"
    "i < length (g_unions g) \<Longrightarrow> union_ready title rank g (g_unions g ! i)"
    "i < length (g_messages g) \<Longrightarrow> message_ready title rank n g (g_messages g ! i)"
  using assms by (auto simp: store_ok_def list_all_length)

text \<open>Every pointer of the store has a supported tree.\<close>

lemma pointer_tree:
  assumes ok: "store_ok title rank n g {} {} {} {}" and sup: "types_supported g N"
  shows "k \<le> N \<Longrightarrow> object_name g p = Some nm \<Longrightarrow> rank nm < k \<Longrightarrow> \<exists>t. tree_of g k p = Some t \<and> ok_ref t"
proof (induction k arbitrary: p nm)
  case (Suc k)
  have IH: "\<exists>t. tree_of g k p = Some t \<and> ok_ref t" if "object_name g p = Some nm" "rank nm < k" for p nm
    using Suc.IH [OF _ that] Suc.prems(1) by simp
  have struct: "\<exists>ts. fields_of (tree_of g k) (s_Fields (g_structs g ! i)) = Some ts \<and> ok_fields [] ts"
    if i: "object_name g (PStruct i) = Some nm'" "rank nm' \<le> k" for i nm'
  proof -
    have r: "struct_ready title rank g (g_structs g ! i)" and nm': "nm' = ty_Name (s_Type (g_structs g ! i))"
      using i(1) store_ok_at(3) [OF ok] by (auto split: if_splits)
    have "refs_below rank k (ty_Fields (s_Type (g_structs g ! i)))"
      using r refs_below_mono i(2) nm' by (auto simp: struct_ready_def struct_ok_def)
    then show ?thesis using r IH by (intro fields_tree) (auto simp: struct_ready_def struct_ok_def)
  qed
  show ?case
  proof (cases p)
    case (PEnum i)
    then show ?thesis using Suc.prems(2) store_ok_at(1) [OF ok] by (auto simp: enum_ok_def split: if_splits)
  next
    case (PAlias i)
    let ?a = "g_aliases g ! i"
    have i: "i < length (g_aliases g)" "nm = al_Name (a_Type ?a)" using PAlias Suc.prems(2) by (auto split: if_splits)
    have a: "alias_ok rank (a_Type ?a)" "alias_done g ?a" using store_ok_at(2) [OF ok i(1)] by (simp_all add: alias_ready_def)
    have none: "a_Union ?a = None" using sup i(1) by (simp add: types_supported_def list_all_length)
    show ?thesis
    proof (cases "is_base (al_Type (a_Type ?a))")
      case True
      then show ?thesis using PAlias a by (simp add: alias_done_def alias_ok_def Let_def)
    next
      case False
      then obtain j where j: "a_Struct ?a = Some j" "object_name g (PStruct j) = Some (fromApiType (al_Type (a_Type ?a)))"
        using a(2) none by (auto simp: alias_done_def Let_def)
      have "rank (fromApiType (al_Type (a_Type ?a))) \<le> k" using False a(1) Suc.prems(3) i(2) by (simp add: alias_ok_def)
      from struct [OF j(2) this] show ?thesis using PAlias False j(1) a(1) by (auto simp: alias_ok_def Let_def)
    qed
  next
    case (PStruct i)
    then show ?thesis using struct [of i nm] Suc.prems(2,3) by auto
  next
    case (PUnion i)
    let ?u = "g_unions g ! i"
    have i: "i < length (g_unions g)" "nm = ty_Name (s_Type ?u)" using PUnion Suc.prems(2) by (auto split: if_splits)
    have u: "union_ready title rank g ?u" by (rule store_ok_at(4) [OF ok i(1)])
    have "refs_below rank k (ty_Fields (s_Type ?u))" using u refs_below_mono Suc.prems(3) i(2) by (auto simp: union_ready_def union_ok_def)
    moreover have "\<exists>t. tree_of g k p = Some t" if "object_name g p = Some nm" "rank nm < k" for p nm using IH [OF that] by blast
    ultimately have "\<exists>ts. fields_of (tree_of g k) (s_Fields ?u) = Some ts"
      using member_trees [of title g "[]" "ty_Fields (s_Type ?u)" "s_Fields ?u" rank k "tree_of g k"] u by (simp add: union_ready_def)
    then obtain ts where ts: "fields_of (tree_of g k) (s_Fields ?u) = Some ts" by blast
    have "k \<le> N" using Suc.prems(1) by simp
    then have "fields_of (tree_of g N) (s_Fields ?u) = Some ts"
      by (intro fields_of_mono [OF _ ts]) (rule tree_of_mono)
    then obtain m where "getUnionSize ts = Some m" "0 < m"
      using sup i(1) by (auto simp: types_supported_def list_all_length split: option.splits dest!: spec [of _ i])
    then show ?thesis using PUnion ts by simp
  qed
qed simp

text \<open>So have the fields of every message.\<close>

lemma message_tree:
  assumes ok: "store_ok title rank n g {} {} {} {}" and "types_supported g n" "i < length (g_messages g)"
  shows "\<exists>fs. message_fields g n i = Some fs \<and> message_ok fs"
proof -
  have m: "message_ready title rank n g (g_messages g ! i)" by (rule store_ok_at(5) [OF ok assms(3)])
  show ?thesis
    unfolding message_fields_def message_ok_def
    by (rule fields_tree [where k = n and rank = rank, OF _ _ pointer_tree [OF ok assms(2) order_refl]])
      (use m in \<open>auto simp: message_ready_def api_message_ok_def own_fields_def\<close>)
qed

text \<open>The fields of a loaded message are those of its declaration, with the types they name.\<close>

lemma fields_of_nth:
  assumes "fields_of tree fos = Some fs"
  shows "length fs = length fos \<and> (\<forall>j < length fos. field_of tree fos (fos ! j) = Some (fs ! j))"
proof -
  have those: "those xs = Some ys \<Longrightarrow> xs = map Some ys" for xs :: "Field option list" and ys
    by (induction xs arbitrary: ys) (auto split: option.splits)
  from those [OF assms [unfolded fields_of_def]] show ?thesis by (metis length_map nth_map)
qed

lemma message_fields_declared:
  assumes ok: "store_ok title rank n g {} {} {} {}" and i: "i < length (g_messages g)" and fs: "message_fields g N i = Some fs"
  defines "own \<equiv> own_fields (g_messages g ! i)"
  shows "length fs = length own \<and> (\<forall>j < length own. fd_api (fs ! j) = own ! j \<and>
    (if is_base (f_Type (own ! j)) then fd_ref (fs ! j) = NoRef
     else \<exists>p. object_name g p = Some (fromApiType (f_Type (own ! j))) \<and> tree_of g N p = Some (fd_ref (fs ! j))))"
proof -
  let ?fos = "msg_Fields (g_messages g ! i)"
  have done_all: "list_all2 (field_done title g own) own ?fos"
    using store_ok_at(5) [OF ok i] by (simp add: message_ready_def fields_done_def own_def)
  note f = fields_of_nth [OF fs [unfolded message_fields_def]]
  have "fd_api (fs ! j) = own ! j \<and> (if is_base (f_Type (own ! j)) then fd_ref (fs ! j) = NoRef
      else \<exists>p. object_name g p = Some (fromApiType (f_Type (own ! j))) \<and> tree_of g N p = Some (fd_ref (fs ! j)))"
    if j: "j < length own" for j
  proof -
    have len: "length own = length ?fos" using done_all by (rule list_all2_lengthD)
    obtain ty where ty: "?fos ! j = resolveFields (map (newField title) own) (newField title (own ! j)\<lparr>o_Type := ty\<rparr>)"
      "if is_base (f_Type (own ! j)) then ty = None else \<exists>p. ty = Some p \<and> object_name g p = Some (fromApiType (f_Type (own ! j)))"
      using list_all2_nthD [OF done_all j] by (auto simp: field_done_def)
    obtain y where y: "fs ! j = y" by blast
    have "field_of (tree_of g N) ?fos (?fos ! j) = Some y" using f j len y by simp
    then show ?thesis unfolding y using ty by (auto simp: field_of_def resolveFields_def split: if_splits option.splits)
  qed
  then show ?thesis using f list_all2_lengthD [OF done_all] by simp
qed

section \<open>What adding and resolving leave alone\<close>

lemma new_all_keeps:
  assumes "new_all f xs g = (is, g')" "\<And>x g. h (snd (f x g)) = h g"
  shows "h g' = h g"
  using assms(1)
proof (induction xs arbitrary: g "is")
  case (Cons x xs)
  obtain i g1 where x: "f x g = (i, g1)" by fastforce
  obtain js where "new_all f xs g1 = (js, g')" using Cons.prems x by (auto split: prod.splits)
  then show ?case using Cons.IH assms(2) [of x g] x by fastforce
qed simp

lemma resolve_all_keeps:
  assumes "resolve_all f g is = Inr g'" "\<And>g g' i. f g i = Inr g' \<Longrightarrow> P g \<Longrightarrow> P g'" "P g"
  shows "P g'"
  using assms(1,3) by (induction "is" arbitrary: g) (auto split: sum.splits intro: assms(2))

end
