(* ===== verification/GoSort.thy ===== *)
theory GoSort
  imports Main "HOL-Library.Multiset"
begin

text \<open>
  Go's \<open>sort.SliceStable\<close>, for comparisons that need not be an order: insertion sort of blocks of 20
  elements, which are then merged pairwise in place by \<open>symMerge\<close>. The comparison gets the elements
  at the two positions. Whatever it answers, the sort ends and keeps the elements.
\<close>

definition swap :: "'a list \<Rightarrow> nat \<Rightarrow> nat \<Rightarrow> 'a list" where
  "swap xs i j = xs[i := xs ! j, j := xs ! i]"

lemma mset_swap_at [simp]: "i < length xs \<Longrightarrow> j < length xs \<Longrightarrow> mset (swap xs i j) = mset xs"
  by (simp add: swap_def mset_swap)

lemma length_swap [simp]: "length (swap xs i j) = length xs"
  by (simp add: swap_def)

fun sift :: "('a \<Rightarrow> 'a \<Rightarrow> bool) \<Rightarrow> nat \<Rightarrow> 'a list \<Rightarrow> nat \<Rightarrow> 'a list" where
  "sift lt a xs 0 = xs"
| "sift lt a xs (Suc j) =
     (if a < Suc j \<and> lt (xs ! Suc j) (xs ! j) then sift lt a (swap xs (Suc j) j) j else xs)"

definition insertionSort :: "('a \<Rightarrow> 'a \<Rightarrow> bool) \<Rightarrow> 'a list \<Rightarrow> nat \<Rightarrow> nat \<Rightarrow> 'a list" where
  "insertionSort lt xs a b = fold (\<lambda>i xs. sift lt a xs i) [a + 1..<b] xs"

text \<open>The first position from \<open>i\<close> up to \<open>j\<close> where the test fails, by halving.\<close>

function search :: "(nat \<Rightarrow> bool) \<Rightarrow> nat \<Rightarrow> nat \<Rightarrow> nat" where
  "search P i j = (if i < j then let h = (i + j) div 2 in if P h then search P (h + 1) j else search P i h else i)"
  by pat_completeness auto
termination by (relation "measure (\<lambda>(P, i, j). j - i)") (auto simp: Let_def)

declare search.simps [simp del]

lemma search_bounds: "i \<le> j \<Longrightarrow> i \<le> search P i j \<and> search P i j \<le> j"
proof (induction P i j rule: search.induct)
  case (1 P i j)
  show ?case
  proof (cases "i < j")
    case True
    let ?h = "(i + j) div 2"
    have h: "i \<le> ?h" "?h < j" using True by auto
    show ?thesis
      using 1(1) [OF True refl] 1(2) [OF True refl] h unfolding search.simps [of P i j] by (cases "P ?h") (auto simp: True Let_def)
  qed (simp add: search.simps "1.prems")
qed

text \<open>Exchange of two neighbouring blocks.\<close>

definition rotate_blocks :: "'a list \<Rightarrow> nat \<Rightarrow> nat \<Rightarrow> nat \<Rightarrow> 'a list" where
  "rotate_blocks xs a m b = take a xs @ take (b - m) (drop m xs) @ take (m - a) (drop a xs) @ drop b xs"

lemma mset_rotate_blocks:
  assumes "a \<le> m" "m \<le> b" "b \<le> length xs"
  shows "mset (rotate_blocks xs a m b) = mset xs"
proof -
  have "xs = take a xs @ take (m - a) (drop a xs) @ take (b - m) (drop m xs) @ drop b xs"
    using assms by (metis append_take_drop_id drop_drop le_add_diff_inverse2)
  then have "mset xs = mset (take a xs) + mset (take (m - a) (drop a xs)) + mset (take (b - m) (drop m xs)) + mset (drop b xs)"
    by (metis mset_append add.assoc)
  then show ?thesis by (simp add: rotate_blocks_def)
qed

text \<open>\<open>symMerge\<close> of the sorted parts from \<open>a\<close> to \<open>m\<close> and from \<open>m\<close> to \<open>b\<close>.\<close>

function symMerge :: "('a \<Rightarrow> 'a \<Rightarrow> bool) \<Rightarrow> 'a list \<Rightarrow> nat \<Rightarrow> nat \<Rightarrow> nat \<Rightarrow> 'a list" where
  "symMerge lt xs a m b =
     (if m - a = 1 then
        (let i = search (\<lambda>h. lt (xs ! h) (xs ! a)) m b in fold (\<lambda>k xs. swap xs k (k + 1)) [a..<i - 1] xs)
      else if b - m = 1 then
        (let i = search (\<lambda>h. \<not> lt (xs ! m) (xs ! h)) a m in fold (\<lambda>k xs. swap xs k (k - 1)) (rev [i + 1..<m + 1]) xs)
      else
        (let mid = (a + b) div 2; n = mid + m;
             start = (if mid < m then search (\<lambda>c. \<not> lt (xs ! (n - 1 - c)) (xs ! c)) (n - b) mid
                      else search (\<lambda>c. \<not> lt (xs ! (n - 1 - c)) (xs ! c)) a m);
             last = n - start;
             xs1 = (if start < m \<and> m < last then rotate_blocks xs start m last else xs);
             xs2 = (if a < start \<and> start < mid then symMerge lt xs1 a start mid else xs1) in
         if mid < last \<and> last < b then symMerge lt xs2 mid last b else xs2))"
  by pat_completeness auto
termination
proof (relation "measure (\<lambda>(lt, xs, a, m, b). b - a)", goal_cases)
  case (2 lt xs a m b mid n start last xs1)
  have "mid = (a + b) div 2" "a < start \<and> start < mid" by (rule 2)+
  then have "mid - a < b - a" by linarith
  then show ?case by simp
next
  case (3 lt xs a m b mid n start last xs1 xs2)
  have "mid = (a + b) div 2" "mid < last \<and> last < b" by (rule 3)+
  then have "b - mid < b - a" by linarith
  then show ?case by simp
qed simp

declare symMerge.simps [simp del]

function merge_pass :: "('a \<Rightarrow> 'a \<Rightarrow> bool) \<Rightarrow> nat \<Rightarrow> nat \<Rightarrow> nat \<Rightarrow> 'a list \<Rightarrow> 'a list" where
  "merge_pass lt n bs a xs =
     (if 0 < bs \<and> a + 2 * bs \<le> n then merge_pass lt n bs (a + 2 * bs) (symMerge lt xs a (a + bs) (a + 2 * bs))
      else if a + bs < n then symMerge lt xs a (a + bs) n else xs)"
  by pat_completeness auto
termination by (relation "measure (\<lambda>(lt, n, bs, a, xs). n - a)") auto

declare merge_pass.simps [simp del]

function merge_rounds :: "('a \<Rightarrow> 'a \<Rightarrow> bool) \<Rightarrow> nat \<Rightarrow> nat \<Rightarrow> 'a list \<Rightarrow> 'a list" where
  "merge_rounds lt n bs xs = (if 0 < bs \<and> bs < n then merge_rounds lt n (2 * bs) (merge_pass lt n bs 0 xs) else xs)"
  by pat_completeness auto
termination by (relation "measure (\<lambda>(lt, n, bs, xs). n - bs)") auto

declare merge_rounds.simps [simp del]

definition SliceStable :: "('a \<Rightarrow> 'a \<Rightarrow> bool) \<Rightarrow> 'a list \<Rightarrow> 'a list" where
  "SliceStable lt xs =
     (let n = length xs;
          ys = fold (\<lambda>k xs. insertionSort lt xs (k * 20) (min (k * 20 + 20) n)) [0..<n div 20 + 1] xs in
      merge_rounds lt n 20 ys)"

section \<open>The elements are kept\<close>

lemma mset_sift: "j < length xs \<Longrightarrow> mset (sift lt a xs j) = mset xs"
  by (induction lt a xs j rule: sift.induct) auto

lemma mset_fold:
  assumes "\<And>x ys. x \<in> set ks \<Longrightarrow> length ys = length xs \<Longrightarrow> mset (f x ys) = mset ys"
  shows "mset (fold f ks xs) = mset xs"
  using assms
proof (induction ks arbitrary: xs)
  case (Cons k ks)
  then have k: "mset (f k xs) = mset xs" by simp
  then have "length (f k xs) = length xs" by (metis size_mset)
  then have "mset (fold f ks (f k xs)) = mset (f k xs)" using Cons by (intro Cons.IH) auto
  then show ?case using k by simp
qed simp

lemma mset_insertionSort: "b \<le> length xs \<Longrightarrow> mset (insertionSort lt xs a b) = mset xs"
  unfolding insertionSort_def by (intro mset_fold mset_sift) auto

lemma mset_symMerge: "a \<le> m \<Longrightarrow> m \<le> b \<Longrightarrow> b \<le> length xs \<Longrightarrow> mset (symMerge lt xs a m b) = mset xs"
proof (induction lt xs a m b rule: symMerge.induct)
  case (1 lt xs a m b)
  consider "m - a = 1" | "m - a \<noteq> 1" "b - m = 1" | "m - a \<noteq> 1" "b - m \<noteq> 1" by blast
  then show ?case
  proof cases
    case 1
    let ?i = "search (\<lambda>h. lt (xs ! h) (xs ! a)) m b"
    have "?i \<le> b" using search_bounds [of m b] "1.prems"(2) by blast
    then have "mset (fold (\<lambda>k xs. swap xs k (k + 1)) [a..<?i - 1] xs) = mset xs" using "1.prems"(3) by (intro mset_fold) auto
    then show ?thesis using 1 by (simp add: symMerge.simps [of lt xs a m b] Let_def)
  next
    case 2
    let ?i = "search (\<lambda>h. \<not> lt (xs ! m) (xs ! h)) a m"
    have "mset (fold (\<lambda>k xs. swap xs k (k - 1)) (rev [?i + 1..<m + 1]) xs) = mset xs" using 2(2) "1.prems"(3) by (intro mset_fold) auto
    then show ?thesis using 2 by (simp add: symMerge.simps [of lt xs a m b] Let_def)
  next
    case 3
    define mid n where "mid = (a + b) div 2" and "n = mid + m"
    define start where "start = (if mid < m then search (\<lambda>c. \<not> lt (xs ! (n - 1 - c)) (xs ! c)) (n - b) mid
        else search (\<lambda>c. \<not> lt (xs ! (n - 1 - c)) (xs ! c)) a m)"
    define last where "last = n - start"
    define xs1 where "xs1 = (if start < m \<and> m < last then rotate_blocks xs start m last else xs)"
    define xs2 where "xs2 = (if a < start \<and> start < mid then symMerge lt xs1 a start mid else xs1)"
    have le: "mid \<le> b" "a \<le> mid" "2 * mid \<le> a + b" using "1.prems" by (auto simp: mid_def)
    have start: "n - b \<le> start"
    proof (cases "mid < m")
      case True
      then show ?thesis using search_bounds [of "n - b" mid] "1.prems" le by (simp add: start_def n_def)
    next
      case False
      then have "n - b \<le> a" using le by (simp add: n_def)
      then show ?thesis using False search_bounds [of a m] "1.prems"(1) by (auto simp: start_def intro: order_trans)
    qed
    have last: "last \<le> b" using start by (simp add: last_def)
    have m1: "mset xs1 = mset xs" using mset_rotate_blocks [of start m last xs] last "1.prems"(3) by (simp add: xs1_def)
    then have l1: "length xs1 = length xs" by (metis size_mset)
    note IH = "1.IH" [OF 3 mid_def n_def start_def last_def xs1_def]
    have m2: "mset xs2 = mset xs" using IH(1) m1 l1 le "1.prems"(3) by (auto simp: xs2_def)
    then have l2: "length xs2 = length xs" by (metis size_mset)
    have "mset (if mid < last \<and> last < b then symMerge lt xs2 mid last b else xs2) = mset xs"
      using IH(2) [OF xs2_def] m2 l2 "1.prems"(3) by auto
    then show ?thesis
      unfolding symMerge.simps [of lt xs a m b] Let_def if_not_P [OF 3(1)] if_not_P [OF 3(2)] xs2_def xs1_def last_def start_def n_def mid_def .
  qed
qed

lemma mset_merge_pass: "n \<le> length xs \<Longrightarrow> mset (merge_pass lt n bs a xs) = mset xs"
proof (induction lt n bs a xs rule: merge_pass.induct)
  case (1 lt n bs a xs)
  show ?case
  proof (cases "0 < bs \<and> a + 2 * bs \<le> n")
    case True
    then have m: "mset (symMerge lt xs a (a + bs) (a + 2 * bs)) = mset xs" using 1(2) by (intro mset_symMerge) auto
    then have "length (symMerge lt xs a (a + bs) (a + 2 * bs)) = length xs" by (metis size_mset)
    then show ?thesis using 1(1) [OF True] 1(2) True m by (simp add: merge_pass.simps [of lt n bs a xs])
  next
    case False
    then show ?thesis using mset_symMerge [of a "a + bs" n xs lt] 1(2)
      by (simp only: merge_pass.simps [of lt n bs a xs] if_False) (auto split: if_split)
  qed
qed

lemma mset_merge_rounds: "n \<le> length xs \<Longrightarrow> mset (merge_rounds lt n bs xs) = mset xs"
proof (induction lt n bs xs rule: merge_rounds.induct)
  case (1 lt n bs xs)
  have m: "mset (merge_pass lt n bs 0 xs) = mset xs" by (rule mset_merge_pass [OF 1(2)])
  then have "length (merge_pass lt n bs 0 xs) = length xs" by (metis size_mset)
  then show ?case using 1 m by (subst merge_rounds.simps) simp
qed

lemma mset_SliceStable [simp]:
  fixes xs :: "'a list"
  shows "mset (SliceStable lt xs) = mset xs"
proof -
  let ?n = "length xs"
  let ?ys = "fold (\<lambda>k xs. insertionSort lt xs (k * 20) (min (k * 20 + 20) ?n)) [0..<?n div 20 + 1] xs"
  have m: "mset ?ys = mset xs"
  proof (rule mset_fold)
    fix k and ys :: "'a list"
    assume "length ys = ?n"
    then have "min (k * 20 + 20) ?n \<le> length ys" by simp
    then show "mset (insertionSort lt ys (k * 20) (min (k * 20 + 20) ?n)) = mset ys" by (rule mset_insertionSort)
  qed
  then have "?n \<le> length ?ys" by (rule eq_refl [OF mset_eq_length [OF sym]])
  then have "mset (merge_rounds lt ?n 20 ?ys) = mset ?ys" by (rule mset_merge_rounds)
  then show ?thesis using m unfolding SliceStable_def Let_def by (rule trans)
qed

lemma set_SliceStable [simp]: "set (SliceStable lt xs) = set xs"
  by (metis mset_SliceStable mset_eq_setD)

section \<open>Lists without inverted neighbours\<close>

text \<open>Up to 20 elements are sorted by insertion only, which looks at neighbours: it keeps such a list.\<close>

definition neighbours_ok :: "('a \<Rightarrow> 'a \<Rightarrow> bool) \<Rightarrow> 'a list \<Rightarrow> bool" where
  "neighbours_ok lt xs \<longleftrightarrow> (\<forall>i. Suc i < length xs \<longrightarrow> \<not> lt (xs ! Suc i) (xs ! i))"

lemma sift_neighbours: "neighbours_ok lt xs \<Longrightarrow> i < length xs \<Longrightarrow> sift lt a xs i = xs"
  by (cases i) (simp_all add: neighbours_ok_def)

lemma insertionSort_neighbours: "neighbours_ok lt xs \<Longrightarrow> b \<le> length xs \<Longrightarrow> insertionSort lt xs a b = xs"
proof -
  assume xs: "neighbours_ok lt xs" "b \<le> length xs"
  have "fold (\<lambda>i xs. sift lt a xs i) is xs = xs" if "\<forall>i \<in> set is. i < length xs" for "is"
    using that by (induction "is") (simp_all add: sift_neighbours [OF xs(1)])
  then show ?thesis using xs(2) by (simp add: insertionSort_def)
qed

lemma SliceStable_neighbours:
  assumes "neighbours_ok lt xs" "length xs \<le> 20"
  shows "SliceStable lt xs = xs"
proof -
  have "fold (\<lambda>k ys. insertionSort lt ys (k * 20) (min (k * 20 + 20) (length xs))) ks xs = xs" for ks
    using insertionSort_neighbours [OF assms(1)] by (induction ks) simp_all
  moreover have "merge_rounds lt (length xs) 20 xs = xs" using assms(2) by (simp add: merge_rounds.simps [of lt "length xs" 20])
  ultimately show ?thesis unfolding SliceStable_def Let_def by (simp only:)
qed

end
