(* ===== verification/GenNew.thy ===== *)
theory GenNew
  imports GenResolve GoSort "HOL-Library.Char_ord" "HOL-Library.List_Lexorder"
begin

text \<open>
  The generator from the parsed files on (\<open>binapigen/vppapi.go\<close>, \<open>binapigen/generator.go\<close>): files are put in
  the order of their imports, lose the types they import, have their objects sorted by name, and are then
  added one after the other. \<open>None\<close> stands for \<open>log.Fatalf\<close> on a missing import and for a recursion
  that does not end; the bound on the depth is one more than the number of files.
\<close>

section \<open>Imports\<close>

definition byName :: "ApiFile list \<Rightarrow> string \<Rightarrow> ApiFile option" where
  "byName files s = find (\<lambda>f. af_Name f = s) files"

text \<open>Adding a file unless one with its name was added.\<close>

definition add_new :: "ApiFile \<Rightarrow> ApiFile list \<Rightarrow> ApiFile list" where
  "add_new f list = (if af_Name f \<in> set (map af_Name list) then list else list @ [f])"

fun add_imports :: "(ApiFile \<Rightarrow> ApiFile list option) \<Rightarrow> ApiFile list \<Rightarrow> string list \<Rightarrow> ApiFile list \<Rightarrow> ApiFile list option" where
  "add_imports nested files [] list = Some list"
| "add_imports nested files (imp # imps) list =
     (case byName files (normalizeImport imp) of None \<Rightarrow> None
      | Some f \<Rightarrow>
          (case nested f of None \<Rightarrow> None
           | Some fs \<Rightarrow> add_imports nested files imps (add_new f (fold add_new fs list))))"

fun ListImportedFiles :: "nat \<Rightarrow> ApiFile list \<Rightarrow> ApiFile \<Rightarrow> ApiFile list option" where
  "ListImportedFiles 0 files f = None"
| "ListImportedFiles (Suc n) files f = add_imports (ListImportedFiles n files) files (af_Imports f) []"

text \<open>
  The order of \<open>SortFilesByImports\<close>. When a list of imports is not \<open>Some\<close>, the program has ended here;
  \<open>New\<close>, which asks for the list of every file again, does so in the model.
\<close>

definition dependsOn :: "ApiFile list \<Rightarrow> ApiFile \<Rightarrow> string \<Rightarrow> bool" where
  "dependsOn files f dep = (case ListImportedFiles (Suc (length files)) files f of None \<Rightarrow> False | Some l \<Rightarrow> dep \<in> set (map af_Name l))"

definition imports_less :: "ApiFile list \<Rightarrow> ApiFile \<Rightarrow> ApiFile \<Rightarrow> bool" where
  "imports_less files a b =
     (if dependsOn files a (af_Name b) then False
      else if dependsOn files b (af_Name a) then True
      else length (af_Imports a) < length (af_Imports b))"

definition SortFilesByImports :: "ApiFile list \<Rightarrow> ApiFile list" where
  "SortFilesByImports files = SliceStable (imports_less files) files"

definition SortFilesByName :: "ApiFile list \<Rightarrow> ApiFile list" where
  "SortFilesByName files = sort_key af_Name files"

section \<open>Normalizing a file\<close>

text \<open>The names of the types of a file that an imported file declares as well, kind by kind.\<close>

definition declared_in :: "('t \<Rightarrow> string) \<Rightarrow> (ApiFile \<Rightarrow> 't list) \<Rightarrow> ApiFile list \<Rightarrow> ApiFile \<Rightarrow> string list" where
  "declared_in name types imported f = filter (\<lambda>n. list_ex (\<lambda>imp. n \<in> set (map name (types imp))) imported) (map name (types f))"

definition ListImportedTypes :: "ApiFile list \<Rightarrow> ApiFile \<Rightarrow> string list option" where
  "ListImportedTypes files f =
     map_option (\<lambda>imported.
         declared_in ty_Name af_StructTypes imported f @ declared_in al_Name af_AliasTypes imported f @
         declared_in en_Name af_EnumTypes imported f @ declared_in en_Name af_EnumflagTypes imported f @
         declared_in ty_Name af_UnionTypes imported f)
       (ListImportedFiles (Suc (length files)) files f)"

definition RemoveImportedTypes :: "ApiFile list \<Rightarrow> ApiFile \<Rightarrow> ApiFile option" where
  "RemoveImportedTypes files f =
     map_option (\<lambda>ns. f\<lparr>af_EnumTypes := filter (\<lambda>t. en_Name t \<notin> set ns) (af_EnumTypes f),
         af_EnumflagTypes := filter (\<lambda>t. en_Name t \<notin> set ns) (af_EnumflagTypes f),
         af_AliasTypes := filter (\<lambda>t. al_Name t \<notin> set ns) (af_AliasTypes f),
         af_StructTypes := filter (\<lambda>t. ty_Name t \<notin> set ns) (af_StructTypes f),
         af_UnionTypes := filter (\<lambda>t. ty_Name t \<notin> set ns) (af_UnionTypes f)\<rparr>)
       (ListImportedTypes files f)"

text \<open>Two of these sorts are not stable, which shows only among objects with the same name.\<close>

definition SortFileObjectsByName :: "ApiFile \<Rightarrow> ApiFile" where
  "SortFileObjectsByName f =
     f\<lparr>af_Imports := sort (af_Imports f), af_EnumTypes := sort_key en_Name (af_EnumTypes f),
       af_EnumflagTypes := sort_key en_Name (af_EnumflagTypes f), af_AliasTypes := sort_key al_Name (af_AliasTypes f),
       af_StructTypes := sort_key ty_Name (af_StructTypes f), af_UnionTypes := sort_key ty_Name (af_UnionTypes f),
       af_Messages := sort_key m_Name (af_Messages f), af_Service := map_option (sort_key rpc_Request) (af_Service f)\<rparr>"

text \<open>One file after the other, in place.\<close>

fun normalize_files :: "nat list \<Rightarrow> ApiFile list \<Rightarrow> ApiFile list option" where
  "normalize_files [] files = Some files"
| "normalize_files (i # is) files =
     (case RemoveImportedTypes files (files ! i) of None \<Rightarrow> None
      | Some f \<Rightarrow> normalize_files is (files[i := SortFileObjectsByName f]))"

section \<open>The generator\<close>

definition empty_generator :: Generator where
  "empty_generator =
     \<lparr>g_enums = [], g_aliases = [], g_structs = [], g_unions = [], g_messages = [], enumsByName = Map.empty,
      aliasesByName = Map.empty, structsByName = Map.empty, unionsByName = Map.empty, messagesByName = Map.empty,
      g_Files = [], FilesByName = Map.empty, FilesByPath = Map.empty\<rparr>"

fun load_files :: "(string \<Rightarrow> string) \<Rightarrow> ApiFile list \<Rightarrow> Generator \<Rightarrow> gerr + Generator" where
  "load_files title [] g = Inr g"
| "load_files title (af # afs) g =
     (if FilesByName g (af_Name af) \<noteq> None then Inl (ErrMsg ''duplicate file: '')
      else case newFile title (cleanPackageName (af_Name af)) g af of
        Inl e \<Rightarrow> Inl (ErrWrap ''loading file failed: '' e)
      | Inr (file, g) \<Rightarrow>
          (let i = length (g_Files g) in
           load_files title afs (g\<lparr>g_Files := g_Files g @ [file], FilesByName := (FilesByName g)(af_Name af \<mapsto> i),
             FilesByPath := (FilesByPath g)(af_Path af \<mapsto> i)\<rparr>)))"

text \<open>Marking a file for generation, and the files it imports.\<close>

definition mark :: "nat \<Rightarrow> Generator \<Rightarrow> Generator" where
  "mark i g = g\<lparr>g_Files := (g_Files g)[i := (g_Files g ! i)\<lparr>file_Generate := True\<rparr>]\<rparr>"

definition importedFiles :: "Generator \<Rightarrow> File \<Rightarrow> nat list" where
  "importedFiles g file = List.map_filter (FilesByName g) (file_Imports file)"

definition markGen :: "nat \<Rightarrow> Generator \<Rightarrow> Generator" where
  "markGen i g = fold mark (importedFiles g (g_Files g ! i)) (mark i g)"

fun mark_files :: "string list \<Rightarrow> Generator \<Rightarrow> gerr + Generator" where
  "mark_files [] g = Inr g"
| "mark_files (n # ns) g =
     (case FilesByName g n of Some i \<Rightarrow> mark_files ns (markGen i g)
      | None \<Rightarrow> (case FilesByPath g n of Some i \<Rightarrow> mark_files ns (markGen i g) | None \<Rightarrow> Inl (ErrMsg ''no API file found for: '')))"

text \<open>\<open>New\<close> with the names of the files to generate; none means all.\<close>

definition New :: "(string \<Rightarrow> string) \<Rightarrow> string list \<Rightarrow> ApiFile list \<Rightarrow> (gerr + Generator) option" where
  "New title generateFiles files =
     (case normalize_files [0..<length files] (SortFilesByImports files) of None \<Rightarrow> None
      | Some files \<Rightarrow>
          Some (case load_files title files empty_generator of
              Inl e \<Rightarrow> Inl e
            | Inr g \<Rightarrow>
                if generateFiles \<noteq> [] then mark_files generateFiles g else Inr (fold mark [0..<length (g_Files g)] g)))"

section \<open>The files a file imports\<close>

text \<open>Every file stands behind the files it imports.\<close>

definition imports_first :: "ApiFile list \<Rightarrow> bool" where
  "imports_first l \<longleftrightarrow>
     (\<forall>i < length l. \<forall>imp \<in> set (af_Imports (l ! i)). normalizeImport imp \<in> set (map af_Name (take i l)))"

lemma imports_first_snoc:
  "imports_first (l @ [f]) \<longleftrightarrow> imports_first l \<and> (\<forall>imp \<in> set (af_Imports f). normalizeImport imp \<in> set (map af_Name l))"
  by (auto simp: imports_first_def nth_append less_Suc_eq)

lemma imports_first_Nil [simp]: "imports_first []" by (simp add: imports_first_def)

lemma names_add_new [simp]: "set (map af_Name (add_new f l)) = insert (af_Name f) (set (map af_Name l))"
  by (auto simp: add_new_def)

lemma names_fold_add_new [simp]: "set (map af_Name (fold add_new fs l)) = set (map af_Name fs) \<union> set (map af_Name l)"
  by (induction fs arbitrary: l) (auto simp: add_new_def)

lemma add_new_ok:
  assumes "imports_first l" "distinct (map af_Name l)" "\<forall>imp \<in> set (af_Imports f). normalizeImport imp \<in> set (map af_Name l)"
  shows "imports_first (add_new f l) \<and> distinct (map af_Name (add_new f l))"
  using assms by (auto simp: add_new_def imports_first_snoc)

lemma fold_add_new_ok:
  "imports_first fs \<Longrightarrow> imports_first l \<Longrightarrow> distinct (map af_Name l) \<Longrightarrow>
   imports_first (fold add_new fs l) \<and> distinct (map af_Name (fold add_new fs l))"
proof (induction fs rule: rev_induct)
  case (snoc f fs)
  then have "imports_first (fold add_new fs l)" "distinct (map af_Name (fold add_new fs l))" by (simp_all add: imports_first_snoc)
  moreover have "\<forall>imp \<in> set (af_Imports f). normalizeImport imp \<in> set (map af_Name (fold add_new fs l))"
    using snoc.prems(1) unfolding names_fold_add_new imports_first_snoc by blast
  ultimately show ?case using add_new_ok by simp
qed simp

lemma find_Some_name: "byName files n = Some f \<Longrightarrow> af_Name f = n \<and> f \<in> set files"
  by (auto simp: byName_def find_Some_iff)

lemma add_imports_ok:
  assumes "\<And>f fs. nested f = Some fs \<Longrightarrow> imports_first fs \<and> (\<forall>imp \<in> set (af_Imports f). normalizeImport imp \<in> set (map af_Name fs))"
  shows "add_imports nested files imps l = Some r \<Longrightarrow> imports_first l \<Longrightarrow> distinct (map af_Name l) \<Longrightarrow>
    imports_first r \<and> distinct (map af_Name r) \<and> set (map af_Name l) \<subseteq> set (map af_Name r) \<and>
    (\<forall>imp \<in> set imps. normalizeImport imp \<in> set (map af_Name r))"
proof (induction imps arbitrary: l)
  case (Cons imp imps)
  then obtain f fs where f: "byName files (normalizeImport imp) = Some f" "nested f = Some fs"
    "add_imports nested files imps (add_new f (fold add_new fs l)) = Some r"
    by (auto split: option.splits)
  let ?l = "fold add_new fs l"
  have l: "imports_first ?l \<and> distinct (map af_Name ?l)" using fold_add_new_ok assms [OF f(2)] Cons.prems(2,3) by blast
  have "\<forall>imp \<in> set (af_Imports f). normalizeImport imp \<in> set (map af_Name ?l)"
    using assms [OF f(2)] unfolding names_fold_add_new by blast
  from add_new_ok [OF conjunct1 [OF l] conjunct2 [OF l] this] have "imports_first (add_new f ?l)" "distinct (map af_Name (add_new f ?l))" by simp_all
  from Cons.IH [OF f(3) this] show ?case
    using find_Some_name [OF f(1)] unfolding names_add_new names_fold_add_new by auto
qed simp

lemma imported_files_ordered:
  "ListImportedFiles n files f = Some l \<Longrightarrow>
   imports_first l \<and> distinct (map af_Name l) \<and> (\<forall>imp \<in> set (af_Imports f). normalizeImport imp \<in> set (map af_Name l))"
proof (induction n arbitrary: f l)
  case (Suc n)
  have "imports_first fs \<and> (\<forall>imp \<in> set (af_Imports f). normalizeImport imp \<in> set (map af_Name fs))"
    if "ListImportedFiles n files f = Some fs" for f fs using Suc.IH [OF that] by blast
  then show ?case using add_imports_ok [where nested = "ListImportedFiles n files" and files = files and l = "[]" and r = l] Suc.prems by auto
qed simp

text \<open>When all imports are there and do not go round in circles, the list is found.\<close>

definition imports_rank :: "ApiFile list \<Rightarrow> (string \<Rightarrow> nat) \<Rightarrow> bool" where
  "imports_rank files depth \<longleftrightarrow>
     (\<forall>f \<in> set files. \<forall>imp \<in> set (af_Imports f). \<exists>f'. byName files (normalizeImport imp) = Some f' \<and> depth (af_Name f') < depth (af_Name f))"

lemma add_imports_found:
  "\<forall>imp \<in> set imps. \<exists>f fs. byName files (normalizeImport imp) = Some f \<and> nested f = Some fs \<Longrightarrow>
   \<exists>r. add_imports nested files imps l = Some r"
  by (induction imps arbitrary: l) auto

lemma imported_files_found:
  assumes "imports_rank files depth"
  shows "f \<in> set files \<Longrightarrow> depth (af_Name f) < n \<Longrightarrow> \<exists>l. ListImportedFiles n files f = Some l"
proof (induction n arbitrary: f)
  case (Suc n)
  have "\<exists>f' fs. byName files (normalizeImport imp) = Some f' \<and> ListImportedFiles n files f' = Some fs"
    if "imp \<in> set (af_Imports f)" for imp
  proof -
    from assms Suc.prems(1) that obtain f' where f': "byName files (normalizeImport imp) = Some f'" "depth (af_Name f') < depth (af_Name f)"
      by (auto simp: imports_rank_def)
    then show ?thesis using Suc.IH [of f'] find_Some_name [OF f'(1)] Suc.prems(2) by auto
  qed
  then show ?case by (auto intro!: add_imports_found)
qed simp

end
