(* ===== verification/GenLoad.thy ===== *)
theory GenLoad
  imports GenNew
begin

text \<open>
  From API files to working code: what the generator makes of supported files, and an order of files it
  gets wrong.
\<close>

section \<open>Normalizing keeps supported files\<close>

lemma RemoveImportedTypes_ok:
  assumes "file_ok title rank n f" "RemoveImportedTypes files f = Some f'"
  shows "file_ok title rank n f'"
  using assms by (auto simp: RemoveImportedTypes_def file_ok_def list_all_iff)

lemma SortFileObjects_ok [simp]: "file_ok title rank n (SortFileObjectsByName f) = file_ok title rank n f"
  by (simp add: SortFileObjectsByName_def file_ok_def list_all_iff)

lemma normalize_files_ok:
  "normalize_files is files = Some files' \<Longrightarrow> set is \<subseteq> {..<length files} \<Longrightarrow> list_all (file_ok title rank n) files \<Longrightarrow>
   list_all (file_ok title rank n) files'"
proof (induction "is" arbitrary: files)
  case (Cons i "is")
  then obtain f where f: "RemoveImportedTypes files (files ! i) = Some f" "normalize_files is (files[i := SortFileObjectsByName f]) = Some files'"
    by (auto split: option.splits)
  have "file_ok title rank n (files ! i)" using Cons.prems(2,3) by (simp add: list_all_length)
  then have "file_ok title rank n f" using f(1) by (rule RemoveImportedTypes_ok)
  then have "list_all (file_ok title rank n) (files[i := SortFileObjectsByName f])"
    using Cons.prems(3) by (auto simp: list_all_iff dest!: set_update_subset_insert [THEN subsetD])
  then show ?case using Cons.IH f(2) Cons.prems(2) by simp
qed simp

section \<open>Loading\<close>

text \<open>Files of the generator are not part of its store.\<close>

lemma object_name_files [simp]: "object_name (g\<lparr>g_Files := fs\<rparr>) p = object_name g p"
  "object_name (g\<lparr>FilesByName := m\<rparr>) p = object_name g p" "object_name (g\<lparr>FilesByPath := m\<rparr>) p = object_name g p"
  by (cases p; simp)+

lemma store_ok_cong:
  assumes "store_ok title rank n g {} {} {} {}" "\<And>p. object_name g' p = object_name g p"
    and "g_enums g' = g_enums g" "g_aliases g' = g_aliases g" "g_structs g' = g_structs g" "g_unions g' = g_unions g" "g_messages g' = g_messages g"
    and "enumsByName g' = enumsByName g" "aliasesByName g' = aliasesByName g" "structsByName g' = structsByName g" "unionsByName g' = unionsByName g"
  shows "store_ok title rank n g' {} {} {} {}"
proof -
  have ext: "extends g g'" using assms(2) by (simp add: extends_def)
  have "names_ok g'" by (rule store_ok_update [OF assms(1) ext]) (simp_all add: assms)
  then show ?thesis using store_ok_parts [OF assms(1) ext] by (simp add: store_ok_def assms(3-7))
qed

lemma store_ok_empty: "store_ok title rank n empty_generator {} {} {} {}"
  by (simp add: store_ok_def names_ok_def empty_generator_def)

lemma load_files_ok:
  "load_files title files g = Inr g' \<Longrightarrow> list_all (file_ok title rank n) files \<Longrightarrow> store_ok title rank n g {} {} {} {} \<Longrightarrow>
   store_ok title rank n g' {} {} {} {}"
proof (induction files arbitrary: g)
  case (Cons af files)
  then obtain fl g1 where s: "newFile title (cleanPackageName (af_Name af)) g af = Inr (fl, g1)"
    and l: "load_files title files (g1\<lparr>g_Files := g_Files g1 @ [fl], FilesByName := (FilesByName g1)(af_Name af \<mapsto> length (g_Files g1)),
        FilesByPath := (FilesByPath g1)(af_Path af \<mapsto> length (g_Files g1))\<rparr>) = Inr g'"
    by (auto simp: Let_def split: if_splits sum.splits prod.splits)
  have "store_ok title rank n g1 {} {} {} {}" using newFile_ok [OF _ Cons.prems(3) s] Cons.prems(2) by simp
  then have "store_ok title rank n (g1\<lparr>g_Files := g_Files g1 @ [fl], FilesByName := (FilesByName g1)(af_Name af \<mapsto> length (g_Files g1)),
      FilesByPath := (FilesByPath g1)(af_Path af \<mapsto> length (g_Files g1))\<rparr>) {} {} {} {}"
    by (rule store_ok_cong) simp_all
  then show ?case using Cons.IH [OF l] Cons.prems(2) by simp
qed simp

lemma mark_simps [simp]:
  "g_enums (mark i g) = g_enums g" "g_aliases (mark i g) = g_aliases g" "g_structs (mark i g) = g_structs g"
  "g_unions (mark i g) = g_unions g" "g_messages (mark i g) = g_messages g" "enumsByName (mark i g) = enumsByName g"
  "aliasesByName (mark i g) = aliasesByName g" "structsByName (mark i g) = structsByName g" "unionsByName (mark i g) = unionsByName g"
  "object_name (mark i g) p = object_name g p"
  by (simp_all add: mark_def)

lemma store_ok_mark: "store_ok title rank n g {} {} {} {} \<Longrightarrow> store_ok title rank n (mark i g) {} {} {} {}"
  by (rule store_ok_cong) simp_all

lemma store_ok_marks: "store_ok title rank n g {} {} {} {} \<Longrightarrow> store_ok title rank n (fold mark is g) {} {} {} {}"
  by (induction "is" arbitrary: g) (auto simp: store_ok_mark)

lemma mark_files_ok:
  "mark_files ns g = Inr g' \<Longrightarrow> store_ok title rank n g {} {} {} {} \<Longrightarrow> store_ok title rank n g' {} {} {} {}"
  by (induction ns arbitrary: g) (auto simp: markGen_def store_ok_mark store_ok_marks split: option.splits)

lemma New_store_ok:
  assumes "New title sel files = Some (Inr g)" "list_all (file_ok title rank n) files"
  shows "store_ok title rank n g {} {} {} {}"
proof -
  obtain fs g1 where s: "normalize_files [0..<length files] (SortFilesByImports files) = Some fs" "load_files title fs empty_generator = Inr g1"
    and m: "(if sel \<noteq> [] then mark_files sel g1 else Inr (fold mark [0..<length (g_Files g1)] g1)) = Inr g"
    using assms(1) by (auto simp: New_def split: option.splits sum.splits)
  have "list_all (file_ok title rank n) (SortFilesByImports files)" using assms(2) by (simp add: SortFilesByImports_def list_all_iff)
  moreover have "length (SortFilesByImports files) = length files" unfolding SortFilesByImports_def by (metis mset_SliceStable size_mset)
  ultimately have "list_all (file_ok title rank n) fs" using s(1) by (auto intro: normalize_files_ok)
  from load_files_ok [OF s(2) this store_ok_empty] have "store_ok title rank n g1 {} {} {} {}" .
  then show ?thesis using m by (auto simp: store_ok_marks intro: mark_files_ok split: if_splits)
qed

text \<open>The messages of the store are the messages the files declare.\<close>

definition declared_messages :: "Generator \<Rightarrow> ApiMessage list" where
  "declared_messages g = map msg_api (g_messages g)"

lemma declared_messages_new:
  "new_all (newMessage title packageName) ms g = (is, g') \<Longrightarrow> declared_messages g' = declared_messages g @ ms"
  by (induction ms arbitrary: g "is") (fastforce simp: newMessage_def declared_messages_def Let_def split: prod.splits)+

lemma declared_messages_add:
  assumes "add_objects title packageName af g = (fl, g')"
  shows "declared_messages g' = declared_messages g @ af_Messages af"
proof -
  obtain es fs as ss us ms g1 g2 g3 g4 g5 where s:
      "new_all (newEnum title False) (af_EnumTypes af) g = (es, g1)" "new_all (newEnum title True) (af_EnumflagTypes af) g1 = (fs, g2)"
      "new_all (newAlias title) (af_AliasTypes af) g2 = (as, g3)" "new_all (newStruct title) (af_StructTypes af) g3 = (ss, g4)"
      "new_all (newUnion title) (af_UnionTypes af) g4 = (us, g5)" "new_all (newMessage title packageName) (af_Messages af) g5 = (ms, g')"
    using assms by (auto simp: add_objects_def Let_def split: prod.splits)
  have "declared_messages g1 = declared_messages g"
    by (rule new_all_keeps [OF s(1)]) (simp add: newEnum_def declared_messages_def Let_def)
  moreover have "declared_messages g2 = declared_messages g1"
    by (rule new_all_keeps [OF s(2)]) (simp add: newEnum_def declared_messages_def Let_def)
  moreover have "declared_messages g3 = declared_messages g2"
    by (rule new_all_keeps [OF s(3)]) (simp add: newAlias_def declared_messages_def Let_def)
  moreover have "declared_messages g4 = declared_messages g3"
    by (rule new_all_keeps [OF s(4)]) (simp add: newStruct_def declared_messages_def Let_def)
  moreover have "declared_messages g5 = declared_messages g4"
    by (rule new_all_keeps [OF s(5)]) (simp add: newUnion_def declared_messages_def Let_def)
  ultimately show ?thesis using declared_messages_new [OF s(6)] by simp
qed

lemma declared_messages_resolve:
  "alias_resolve g i = Inr g' \<Longrightarrow> declared_messages g' = declared_messages g"
  "struct_resolve g i = Inr g' \<Longrightarrow> declared_messages g' = declared_messages g"
  "union_resolve g i = Inr g' \<Longrightarrow> declared_messages g' = declared_messages g"
  "message_resolve g i = Inr g' \<Longrightarrow> declared_messages g' = declared_messages g"
  by (auto simp: alias_resolve_def struct_resolve_def union_resolve_def message_resolve_def declared_messages_def Let_def map_update
      split: sum.splits) (metis list_update_id map_update)

lemma declared_messages_objects: "resolve_objects fl g = Inr g' \<Longrightarrow> declared_messages g' = declared_messages g"
proof -
  assume "resolve_objects fl g = Inr g'"
  then obtain g1 g2 g3 where s: "resolve_all alias_resolve g (file_Aliases fl) = Inr g1" "resolve_all struct_resolve g1 (file_Structs fl) = Inr g2"
    "resolve_all union_resolve g2 (file_Unions fl) = Inr g3" "resolve_all message_resolve g3 (file_Messages fl) = Inr g'"
    by (auto simp: resolve_objects_def split: sum.splits)
  let ?P = "\<lambda>x. declared_messages x = declared_messages g"
  have "?P g1" by (rule resolve_all_keeps [OF s(1)]) (auto dest: declared_messages_resolve)
  then have "?P g2" by (rule resolve_all_keeps [OF s(2), rotated]) (auto dest: declared_messages_resolve)
  then have "?P g3" by (rule resolve_all_keeps [OF s(3), rotated]) (auto dest: declared_messages_resolve)
  then show "?P g'" by (rule resolve_all_keeps [OF s(4), rotated]) (auto dest: declared_messages_resolve)
qed

lemma declared_messages_load:
  "load_files title files g = Inr g' \<Longrightarrow> declared_messages g' = declared_messages g @ concat (map af_Messages files)"
proof (induction files arbitrary: g)
  case (Cons af files)
  then obtain fl g1 where s: "newFile title (cleanPackageName (af_Name af)) g af = Inr (fl, g1)"
    and l: "load_files title files (g1\<lparr>g_Files := g_Files g1 @ [fl], FilesByName := (FilesByName g1)(af_Name af \<mapsto> length (g_Files g1)),
        FilesByPath := (FilesByPath g1)(af_Path af \<mapsto> length (g_Files g1))\<rparr>) = Inr g'"
    by (auto simp: Let_def split: if_splits sum.splits)
  have "declared_messages g1 = declared_messages g @ af_Messages af"
    using s declared_messages_add declared_messages_objects by (fastforce simp: newFile_def split: prod.splits sum.splits option.splits)
  then show ?case using Cons.IH [OF l] by (simp add: declared_messages_def)
qed simp

lemma normalize_files_messages:
  "normalize_files is files = Some fs \<Longrightarrow> list_all2 (\<lambda>f f'. set (af_Messages f') = set (af_Messages f)) files fs"
proof (induction "is" arbitrary: files)
  case (Cons i js)
  then obtain f where f: "RemoveImportedTypes files (files ! i) = Some f" "normalize_files js (files[i := SortFileObjectsByName f]) = Some fs"
    by (auto split: option.splits)
  have "set (af_Messages (SortFileObjectsByName f)) = set (af_Messages (files ! i))"
    using f(1) by (auto simp: RemoveImportedTypes_def SortFileObjectsByName_def)
  then have "list_all2 (\<lambda>f f'. set (af_Messages f') = set (af_Messages f)) files (files[i := SortFileObjectsByName f])"
    by (simp add: list_all2_conv_all_nth) (metis nth_list_update_eq nth_list_update_neq)
  from list_all2_trans [OF _ this Cons.IH [OF f(2)]] show ?case by simp
qed (simp add: list_all2_same)

lemma declared_messages_mark: "declared_messages (fold mark is g) = declared_messages g"
  by (induction "is" arbitrary: g) (simp_all add: mark_def declared_messages_def)

lemma declared_messages_mark_files: "mark_files ns g = Inr g' \<Longrightarrow> declared_messages g' = declared_messages g"
proof (induction ns arbitrary: g)
  case (Cons n ns)
  have one: "declared_messages (mark i g) = declared_messages g" for i by (simp add: mark_def declared_messages_def)
  show ?case using Cons by (auto simp: markGen_def declared_messages_mark one split: option.splits)
qed simp

lemma New_messages:
  assumes "New title sel files = Some (Inr g)" "i < length (g_messages g)"
  shows "\<exists>af \<in> set files. msg_api (g_messages g ! i) \<in> set (af_Messages af)"
proof -
  obtain fs g1 where s: "normalize_files [0..<length files] (SortFilesByImports files) = Some fs" "load_files title fs empty_generator = Inr g1"
    and m: "(if sel \<noteq> [] then mark_files sel g1 else Inr (fold mark [0..<length (g_Files g1)] g1)) = Inr g"
    using assms(1) by (auto simp: New_def split: option.splits sum.splits)
  have "declared_messages g = declared_messages g1" using m by (auto simp: declared_messages_mark declared_messages_mark_files split: if_splits)
  also have "\<dots> = concat (map af_Messages fs)" using declared_messages_load [OF s(2)] by (simp add: declared_messages_def empty_generator_def)
  finally have "msg_api (g_messages g ! i) \<in> set (concat (map af_Messages fs))"
    using assms(2) by (metis declared_messages_def length_map nth_map nth_mem)
  then obtain f where "f \<in> set fs" "msg_api (g_messages g ! i) \<in> set (af_Messages f)" by auto
  then obtain j where j: "j < length fs" "msg_api (g_messages g ! i) \<in> set (af_Messages (fs ! j))" by (metis in_set_conv_nth)
  then have "j < length (SortFilesByImports files)" "msg_api (g_messages g ! i) \<in> set (af_Messages (SortFilesByImports files ! j))"
    using normalize_files_messages [OF s(1)] by (auto simp: list_all2_conv_all_nth)
  moreover have "set (SortFilesByImports files) = set files" unfolding SortFilesByImports_def by (metis mset_SliceStable set_mset_mset)
  ultimately show ?thesis by (metis nth_mem)
qed

section \<open>Properties\<close>

text \<open>
  C6 (type). Whatever files of supported descriptions \<open>New\<close> accepts: every reference of the loaded store
  points to an object of the name asked for, the fields of every message unfold to a finite tree of
  supported fields, and the code generated for them marshals and unmarshals every value of the message.
\<close>

theorem loaded_messages_work:
  assumes "New title sel files = Some (Inr g)" "list_all (file_ok title rank n) files" "types_supported g n" "i < length (g_messages g)"
  shows "\<exists>fs sc ec dc. message_fields g n i = Some fs \<and>
    genMessageMethodSize fs = Some sc \<and> genMessageMethodMarshal fs = Some ec \<and> genMessageMethodUnmarshal fs = Some dc \<and>
    (\<forall>v old. message_typed fs v \<longrightarrow> message_shaped fs old \<longrightarrow>
       (\<exists>data. call_Marshal sc ec v = Some data \<and> call_Unmarshal dc data old = Some v))"
proof -
  from message_tree [OF New_store_ok [OF assms(1,2)] assms(3,4)] obtain fs where fs: "message_fields g n i = Some fs" "message_ok fs" by blast
  obtain sc ec dc where "genMessageMethodSize fs = Some sc" "genMessageMethodMarshal fs = Some ec" "genMessageMethodUnmarshal fs = Some dc"
    using code_generated [OF fs(2)] by blast
  then show ?thesis using fs code_roundtrip [OF fs(2)] by fastforce
qed

section \<open>Examples\<close>

definition api_file :: "string \<Rightarrow> string list \<Rightarrow> StructType list \<Rightarrow> ApiMessage list \<Rightarrow> ApiFile" where
  "api_file name imps ss ms =
     \<lparr>af_Name = name, af_Path = name @ ''.api.json'', af_CRC = ''0x1'', af_Options = None, af_Imports = imps, af_AliasTypes = [], af_EnumTypes = [],
      af_EnumflagTypes = [], af_StructTypes = ss, af_UnionTypes = [], af_Messages = ms, af_Service = None\<rparr>"

definition api_field :: "string \<Rightarrow> string \<Rightarrow> ApiField" where
  "api_field name t = \<lparr>f_Name = name, f_Type = t, f_Length = 0, f_Array = False, f_SizeFrom = ''''\<rparr>"

definition pair_type :: StructType where
  "pair_type = \<lparr>ty_Name = ''pair'', ty_Fields = [api_field ''a'' ''u8'', api_field ''b'' ''u32'']\<rparr>"

definition set_pairs :: ApiMessage where
  "set_pairs =
     \<lparr>m_Name = ''set_pairs'', m_Fields = [api_field ''_vl_msg_id'' ''u16'', api_field ''client_index'' ''u32'', api_field ''context'' ''u32'',
        api_field ''n'' ''u8'', \<lparr>f_Name = ''ps'', f_Type = ''vl_api_pair_t'', f_Length = 0, f_Array = True, f_SizeFrom = ''n''\<rparr>],
      m_CRC = ''0x2'', m_Options = Map.empty, m_Comment = ''''\<rparr>"

definition pair_files :: "ApiFile list" where "pair_files = [api_file ''pairs'' [] [pair_type] [set_pairs]]"

lemma pair_files_ok: "list_all (file_ok (\<lambda>s. s) (\<lambda>_. 0) 1) pair_files"
  by code_simp

lemma pair_files_load:
  "case New (\<lambda>s. s) [] pair_files of Some (Inr g) \<Rightarrow> types_supported g 1 \<and> 0 < length (g_messages g) | _ \<Rightarrow> False"
  by code_simp

lemma loaded_messages_work_witness:
  "\<exists>g fs sc ec dc. New (\<lambda>s. s) [] pair_files = Some (Inr g) \<and> message_fields g 1 0 = Some fs \<and>
    genMessageMethodSize fs = Some sc \<and> genMessageMethodMarshal fs = Some ec \<and> genMessageMethodUnmarshal fs = Some dc \<and>
    (\<forall>v old. message_typed fs v \<longrightarrow> message_shaped fs old \<longrightarrow>
       (\<exists>data. call_Marshal sc ec v = Some data \<and> call_Unmarshal dc data old = Some v))"
proof -
  obtain g where "New (\<lambda>s. s) [] pair_files = Some (Inr g)" "types_supported g 1" "0 < length (g_messages g)"
    using pair_files_load by (auto split: option.splits sum.splits)
  then show ?thesis using loaded_messages_work [OF _ pair_files_ok] by blast
qed

section \<open>Orders of files\<close>

text \<open>
  C26 (termination). When the imports of the files are all there and do not go round in circles, the
  list of imported files is found, within the bound of the model; every file of it stands once, behind
  the files it imports itself, and every import is in it.
\<close>

theorem ListImportedFiles_ordered:
  assumes "imports_rank files depth" "f \<in> set files" "depth (af_Name f) \<le> length files"
  shows "\<exists>l. ListImportedFiles (Suc (length files)) files f = Some l \<and> imports_first l \<and> distinct (map af_Name l) \<and>
    (\<forall>imp \<in> set (af_Imports f). normalizeImport imp \<in> set (map af_Name l))"
  using imported_files_found [OF assms(1,2), of "Suc (length files)"] assms(3) imported_files_ordered by (metis less_Suc_eq_le)

text \<open>
  A file that uses a type of the one file it imports, that file with three imports, and an unrelated one
  with two: the comparisons go round in a circle.
\<close>

definition user_type :: StructType where
  "user_type = \<lparr>ty_Name = ''user'', ty_Fields = [api_field ''p'' ''vl_api_pair_t'']\<rparr>"

definition circle_files :: "ApiFile list" where
  "circle_files =
     [api_file ''p'' [] [] [], api_file ''q'' [] [] [], api_file ''r'' [] [] [], api_file ''user'' [''pairs.api''] [pair_type, user_type] [],
      api_file ''other'' [''p.api'', ''q.api''] [] [], api_file ''pairs'' [''p.api'', ''q.api'', ''r.api''] [pair_type] []]"

lemma ListImportedFiles_ordered_witness:
  "\<exists>l. ListImportedFiles 7 circle_files (circle_files ! 3) = Some l \<and> imports_first l \<and> distinct (map af_Name l) \<and>
    (\<forall>imp \<in> set (af_Imports (circle_files ! 3)). normalizeImport imp \<in> set (map af_Name l))"
proof -
  let ?depth = "\<lambda>s. if s = ''user'' then 2 else if s \<in> {''other'', ''pairs''} then 1 else 0 :: nat"
  have rank: "imports_rank circle_files ?depth" by (simp add: imports_rank_def circle_files_def api_file_def byName_def normalizeImport_def path_Base_def)
  have user: "circle_files ! 3 \<in> set circle_files" "?depth (af_Name (circle_files ! 3)) \<le> length circle_files" "Suc (length circle_files) = 7"
    by (simp_all add: circle_files_def api_file_def)
  from ListImportedFiles_ordered [OF rank user(1,2)] show ?thesis unfolding user(3) .
qed

end
