(* ===== verification/GenOrder.thy ===== *)
theory GenOrder
  imports GenLoad
begin

text \<open>
  What goes wrong with the order of files in \<open>New\<close>: the comparison of \<open>SortFilesByImports\<close> can go round in a
  circle, so a file may be loaded before the file whose types it uses, which \<open>newFile\<close> refuses.
\<close>

section \<open>Types that are not known yet\<close>














section \<open>The order of the files\<close>












end
