(* ===== verification/GenCodec.thy ===== *)
theory GenCodec
  imports GenLoad CoreFlow
begin

text \<open>
  Generated messages in the client: the methods the generator prints (\<open>genMessageMethods\<close>,
  \<open>genMessageEncodingMethods\<close>) as the message interface of the codec, the codec's contract for them, and
  what is sent for a message compared with its declaration in the API file. The functions of the package
  struc, which the codec does not call for messages that marshal themselves, come from an interface that
  is given.
\<close>

section \<open>Generated messages\<close>

text \<open>\<open>msgType2apiMessageType\<close>\<close>

definition msgType2apiMessageType :: "msgType \<Rightarrow> message_type" where
  "msgType2apiMessageType t =
     (case t of msgTypeRequest \<Rightarrow> RequestMessage | msgTypeReply \<Rightarrow> ReplyMessage | msgTypeEvent \<Rightarrow> EventMessage | msgTypeBase \<Rightarrow> OtherMessage)"

record gen_msg =
  gm_name :: string
  gm_crc :: string
  gm_kind :: message_type
  gm_fields :: "Field list"
  gm_val :: gval

definition generated_message :: "Message \<Rightarrow> Field list \<Rightarrow> gval \<Rightarrow> gen_msg" where
  "generated_message m fs v =
     \<lparr>gm_name = m_Name (msg_api m), gm_crc = msg_CRC m, gm_kind = msgType2apiMessageType (msg_msgType m), gm_fields = fs, gm_val = v\<rparr>"

definition gen_Size :: "gen_msg \<Rightarrow> int" where
  "gen_Size m = (case Option.bind (genMessageMethodSize (gm_fields m)) (\<lambda>c. call_Size c (gm_val m)) of Some n \<Rightarrow> n | None \<Rightarrow> 0)"

definition run_marshal :: "gen_msg \<Rightarrow> byte list \<Rightarrow> ((gerr + byte list) \<times> byte list) option" where
  "run_marshal m b =
     do { code \<leftarrow> genMessageMethodMarshal (gm_fields m);
          s \<leftarrow> runs no_vars code \<lparr>st_msg = gm_val m, st_buf = NewBuffer b [], st_size = 0\<rparr>;
          bs \<leftarrow> Bytes (st_buf s);
          Some (Inr bs, mem (st_buf s)) }"

definition gen_Marshal :: "gen_msg \<Rightarrow> byte list option \<Rightarrow> ((gerr + byte list) \<times> byte list) option" where
  "gen_Marshal m b =
     (case b of Some b \<Rightarrow> run_marshal m b
      | None \<Rightarrow> if 0 \<le> gen_Size m then run_marshal m (replicate (nat (gen_Size m)) 0) else None)"

definition gen_Unmarshal :: "gen_msg \<Rightarrow> byte list \<Rightarrow> byte list \<Rightarrow> (gerr + gen_msg) option" where
  "gen_Unmarshal m data spare =
     do { code \<leftarrow> genMessageMethodUnmarshal (gm_fields m);
          s \<leftarrow> runs no_vars code \<lparr>st_msg = gm_val m, st_buf = NewBuffer data spare, st_size = 0\<rparr>;
          Some (Inr (m\<lparr>gm_val := st_msg s\<rparr>)) }"

text \<open>The field \<open>Retval\<close>, if there is one, by the kind of its type.\<close>

definition gen_Retval :: "gen_msg \<Rightarrow> reflect_field" where
  "gen_Retval m =
     (case find (\<lambda>f. fd_GoName f = ''Retval'') (gm_fields m) of None \<Rightarrow> NoField
      | Some f \<Rightarrow>
          (case (gm_val m) of GRec r \<Rightarrow>
             (case map_of r ''Retval'' of Some (GNum k) \<Rightarrow>
                if f_Type (fd_api f) \<in> {''i8'', ''i16'', ''i32'', ''i64''} then IntField (word_of_int k) else UintField (word_of_int k)
              | _ \<Rightarrow> OtherField)
           | _ \<Rightarrow> OtherField))"

definition generated :: "gen_msg msg_iface \<Rightarrow> gen_msg msg_iface" where
  "generated lib =
     lib\<lparr>GetMessageName := gm_name, GetCrcString := gm_crc, GetMessageType := gm_kind, is_Marshaler := (\<lambda>_. True),
         is_Unmarshaler := (\<lambda>_. True), msg_Size := gen_Size, msg_Marshal := gen_Marshal, msg_Unmarshal := gen_Unmarshal,
         NumField := (\<lambda>m. length (gm_fields m)), msg_New := (\<lambda>m. m\<lparr>gm_val := fresh (gm_fields m)\<rparr>), msg_Retval := gen_Retval\<rparr>"

section \<open>They meet the codec's contract\<close>

definition gm_body :: "gen_msg \<Rightarrow> byte list" where "gm_body m = message_bytes (gm_fields m) (gm_val m)"
definition gm_valid :: "gen_msg \<Rightarrow> bool" where "gm_valid m \<longleftrightarrow> message_ok (gm_fields m) \<and> message_typed (gm_fields m) (gm_val m)"

definition gm_same_type :: "gen_msg \<Rightarrow> gen_msg \<Rightarrow> bool" where
  "gm_same_type m t \<longleftrightarrow> t\<lparr>gm_val := gm_val m\<rparr> = m \<and> message_shaped (gm_fields m) (gm_val t)"

lemma gm_same_type_fields: "gm_same_type m t \<Longrightarrow> gm_fields t = gm_fields m \<and> gm_kind t = gm_kind m"
  by (cases m; cases t) (simp add: gm_same_type_def)

lemma unmarshal_runs_spare:
  assumes "message_ok fs" "message_typed fs v" "message_shaped fs old"
  obtains c s where "genMessageMethodUnmarshal fs = Some c"
    "runs no_vars c \<lparr>st_msg = old, st_buf = NewBuffer (message_bytes fs v) spare, st_size = 0\<rparr> = Some s" "st_msg s = v"
proof -
  let ?bs = "message_bytes fs v"
  let ?s = "\<lparr>st_msg = old, st_buf = NewBuffer ?bs spare, st_size = 0\<rparr>"
  obtain c where c: "genMessageMethodUnmarshal fs = Some c" "reads no_vars c M old v ?bs" by (rule unmarshal_code [OF assms])
  have "at_hand ?s ?bs" by (simp add: at_hand_def holds_at_def NewBuffer_def wf_buffer_def)
  with c(2) have "runs no_vars c ?s = Some (after ?s v ?bs)" by (auto simp: reads_def)
  with c(1) that show thesis by (simp add: after_def)
qed

interpretation gen: message_codec "generated lib" gm_body gm_valid gm_same_type for lib
proof (unfold_locales, goal_cases)
  case (3 m)
  then obtain c where "genMessageMethodSize (gm_fields m) = Some c" "call_Size c (gm_val m) = Some (int (length (gm_body m)))"
    unfolding gm_valid_def gm_body_def by (auto elim: size_runs)
  then show ?case by (simp add: generated_def gen_Size_def)
next
  case (4 m)
  let ?bs = "gm_body m"
  from 4 obtain c where "genMessageMethodMarshal (gm_fields m) = Some c"
    "runs no_vars c \<lparr>st_msg = gm_val m, st_buf = NewBuffer (replicate (length ?bs) 0) [], st_size = 0\<rparr> =
     Some \<lparr>st_msg = gm_val m, st_buf = \<lparr>mem = ?bs, blen = length ?bs, pos = length ?bs\<rparr>, st_size = 0\<rparr>"
    unfolding gm_valid_def gm_body_def by (auto elim: marshal_runs)
  moreover have "Bytes \<lparr>mem = ?bs, blen = length ?bs, pos = length ?bs\<rparr> = Some ?bs"
    using slice_of_nat [of ?bs 0 "length ?bs"] by (simp add: Bytes_def)
  ultimately show ?case by (simp add: generated_def gen_Marshal_def run_marshal_def)
next
  case (5 m t spare)
  note t = gm_same_type_fields [OF 5(2)]
  obtain c s where "genMessageMethodUnmarshal (gm_fields m) = Some c"
    "runs no_vars c \<lparr>st_msg = gm_val t, st_buf = NewBuffer (gm_body m) spare, st_size = 0\<rparr> = Some s" "st_msg s = gm_val m"
    using 5 unmarshal_runs_spare [of "gm_fields m" "gm_val m" "gm_val t" spare] by (auto simp: gm_valid_def gm_same_type_def gm_body_def)
  then show ?case using 5(2) t by (simp add: generated_def gen_Unmarshal_def gm_same_type_def)
next
  case (6 m t)
  then show ?case using gm_same_type_fields by (simp add: generated_def)
qed (simp_all add: generated_def)

lemma getOffset_generated: "getOffset (generated lib) m = (case gm_kind m of RequestMessage \<Rightarrow> 10 | ReplyMessage \<Rightarrow> 6 | EventMessage \<Rightarrow> 6 | OtherMessage \<Rightarrow> 2)"
  by (simp add: getOffset_def generated_def)

section \<open>The header\<close>

text \<open>
  The header fields a declaration begins with, by the kind of the message, and what the transport writes
  into the header: the client index and the context, as far as the kind has them.
\<close>

definition header_fields :: "msgType \<Rightarrow> ApiField list" where
  "header_fields kind =
     api_field ''_vl_msg_id'' ''u16'' #
     (case kind of msgTypeRequest \<Rightarrow> [api_field ''client_index'' ''u32'', api_field ''context'' ''u32'']
      | msgTypeReply \<Rightarrow> [api_field ''context'' ''u32''] | msgTypeEvent \<Rightarrow> [api_field ''client_index'' ''u32''] | msgTypeBase \<Rightarrow> [])"

definition header_words :: "msgType \<Rightarrow> u32 \<Rightarrow> u32 \<Rightarrow> u32 list" where
  "header_words kind index ctx =
     (case kind of msgTypeRequest \<Rightarrow> [index, ctx] | msgTypeReply \<Rightarrow> [ctx] | msgTypeEvent \<Rightarrow> [index] | msgTypeBase \<Rightarrow> [])"

definition header_tree :: "msgType \<Rightarrow> Field list" where
  "header_tree kind = map (\<lambda>a. Field a (f_Name a) NoRef None None) (header_fields kind)"

definition header_record :: "u16 \<Rightarrow> u32 \<Rightarrow> u32 \<Rightarrow> (string \<times> gval) list" where
  "header_record mid index ctx = [(''_vl_msg_id'', GNum (uint mid)), (''client_index'', GNum (uint index)), (''context'', GNum (uint ctx))]"

lemma is_header_fields [simp]: "list_all is_header (header_fields kind)"
  by (cases kind) (simp_all add: header_fields_def api_field_def is_header_def to_lower_def is_upper_def Let_def)

lemma dropWhile_header: "own = [] \<or> \<not> is_header (hd own) \<Longrightarrow> dropWhile is_header (header_fields kind @ own) = own"
  using is_header_fields [of kind] by (cases own) (auto simp: dropWhile_append list_all_iff dropWhile_eq_Nil_conv)

lemma not_header_names: "\<not> is_header f \<Longrightarrow> f_Name f \<noteq> ''client_index'' \<and> f_Name f \<noteq> ''context''"
  by (auto simp: is_header_def to_lower_def is_upper_def Let_def)

lemma getMsgType_header:
  assumes "own = [] \<or> \<not> is_header (hd own)"
  shows "getMsgType (header_fields kind @ own) = Inr kind"
proof (cases own)
  case Nil
  then show ?thesis by (cases kind) (simp_all add: getMsgType_def header_fields_def api_field_def)
next
  case (Cons f fs)
  then show ?thesis using assms not_header_names [of f]
    by (cases kind) (auto simp: getMsgType_def header_fields_def api_field_def)
qed

lemma ser_header:
  "ser_all (header_tree kind) (header_record mid index ctx) = be_bytes 2 mid @ concat (map (be_bytes 4) (header_words kind index ctx))"
  by (cases kind) (simp_all add: header_tree_def header_fields_def api_field_def header_record_def header_words_def is_base_def BaseTypesGo_def
      ser_base_def ser_scalar_def ser_num_def)

lemma header_offset: "getOffset (generated lib) (generated_message m fs v) = 2 + 4 * length (header_words (msg_msgType m) index ctx)"
  by (cases "msg_msgType m") (simp_all add: getOffset_generated generated_message_def msgType2apiMessageType_def header_words_def)

lemma length_words [simp]: "length (concat (map (be_bytes 4) (ws :: u32 list))) = 4 * length ws"
  by (induction ws) auto

text \<open>An interface whose own functions, which are not called here, all fail.\<close>

definition no_library :: "gen_msg msg_iface" where
  "no_library =
     \<lparr>GetMessageName = (\<lambda>_. ''''), GetCrcString = (\<lambda>_. ''''), GetMessageType = (\<lambda>_. OtherMessage), is_Marshaler = (\<lambda>_. False),
      is_Unmarshaler = (\<lambda>_. False), msg_Size = (\<lambda>_. 0), msg_Marshal = (\<lambda>_ _. None), msg_Unmarshal = (\<lambda>_ _ _. None),
      NumField = (\<lambda>_. 0), struc_Sizeof = (\<lambda>_. Inl (ErrMsg ''no library'')), struc_Pack = (\<lambda>_. None), struc_Unpack = (\<lambda>_ _. None),
      msg_New = (\<lambda>m. m), msg_PkgPath = (\<lambda>_. ''''), msg_Retval = (\<lambda>_. NoField)\<rparr>"

text \<open>
  A declaration with the two header fields the other way round is a reply for the generator, which still
  leaves both of them out: four of the declared bytes are never sent.
\<close>

lemma swapped_header_short:
  assumes "m_Fields (msg_api m) = [api_field ''_vl_msg_id'' ''u16'', api_field ''context'' ''u32'', api_field ''client_index'' ''u32'']"
    and "getMsgType (m_Fields (msg_api m)) = Inr (msg_msgType m)"
  shows "dropWhile is_header (m_Fields (msg_api m)) = [] \<and> getOffset (generated lib) (generated_message m [] v) = 6"
proof -
  have "msg_msgType m = msgTypeReply" using assms by (simp add: getMsgType_def api_field_def)
  then show ?thesis using assms(1)
    by (simp add: getOffset_generated generated_message_def msgType2apiMessageType_def is_header_def api_field_def to_lower_def is_upper_def Let_def)
qed

section \<open>From an API file through the codec\<close>

text \<open>
  C2 (roundtrip). Every value of every message of a supported schema that \<open>New\<close> loaded, encoded by
  \<open>EncodeMsg\<close> and with the words of its header rewritten on the way, is decoded by \<open>DecodeMsg\<close> into any
  message of its type, whatever follows the received bytes in memory.
\<close>

theorem schema_through_codec:
  assumes "New title sel files = Some (Inr g)" "list_all (file_ok title rank n) files" "types_supported g n" "i < length (g_messages g)"
    and "message_fields g n i = Some fs" "message_typed fs v" "message_shaped fs old"
  shows "\<exists>data. EncodeMsg (generated lib) (Some (generated_message (g_messages g ! i) fs v)) mid = Inr data \<and>
    DecodeMsg (generated lib) (put_at 2 (concat (map (be_bytes 4) (header_words (msg_msgType (g_messages g ! i)) index ctx))) data) spare
      (Some (generated_message (g_messages g ! i) fs old)) = Inr (generated_message (g_messages g ! i) fs v)"
proof -
  let ?m = "g_messages g ! i"
  let ?ws = "concat (map (be_bytes 4) (header_words (msg_msgType ?m) index ctx))"
  have "message_ok fs" using message_tree [OF New_store_ok [OF assms(1,2)] assms(3,4)] assms(5) by simp
  then have "gm_valid (generated_message ?m fs v)" "gm_same_type (generated_message ?m fs v) (generated_message ?m fs old)"
    using assms(6,7) by (simp_all add: gm_valid_def gm_same_type_def generated_message_def)
  moreover have off: "getOffset (generated lib) (generated_message ?m fs v) = 2 + length ?ws" by (simp add: header_offset [of lib ?m fs v index ctx])
  ultimately show ?thesis using gen.transport_roundtrip [of "generated_message ?m fs v" "generated_message ?m fs old" ?ws lib mid spare] by simp
qed

definition pairs_value :: gval where
  "pairs_value = GRec [(''n'', GNum 1), (''ps'', GList [GRec [(''a'', GNum 5), (''b'', GNum 70000)]])]"

definition pairs_fields :: "Field list" where
  "pairs_fields =
     [Field (api_field ''n'' ''u8'') ''n'' NoRef (Some ''ps'') None,
      Field \<lparr>f_Name = ''ps'', f_Type = ''vl_api_pair_t'', f_Length = 0, f_Array = True, f_SizeFrom = ''n''\<rparr> ''ps''
        (TypeStruct [Field (api_field ''a'' ''u8'') ''a'' NoRef None None, Field (api_field ''b'' ''u32'') ''b'' NoRef None None]) None (Some ''n'')]"

lemma pair_files_fields:
  "case New (\<lambda>s. s) [] pair_files of Some (Inr g) \<Rightarrow> message_fields g 1 0 = Some pairs_fields | _ \<Rightarrow> False"
  by code_simp

lemma pairs_typed: "message_typed pairs_fields pairs_value"
  by (simp add: message_typed_def pairs_fields_def pairs_value_def api_field_def is_base_def BaseTypesGo_def typed_base_def scalar_ok_def
      int_types_def in_range_def bits_of_def BaseTypeSizes_def)

lemma pairs_ok: "message_ok pairs_fields"
  by (simp add: message_ok_def pairs_fields_def api_field_def is_base_def BaseTypesGo_def int_types_def scalar_types_def)

lemma schema_through_codec_witness:
  "\<exists>g data. New (\<lambda>s. s) [] pair_files = Some (Inr g) \<and>
    EncodeMsg (generated no_library) (Some (generated_message (g_messages g ! 0) pairs_fields pairs_value)) 7 = Inr data \<and>
    DecodeMsg (generated no_library) (put_at 2 (concat (map (be_bytes 4) (header_words (msg_msgType (g_messages g ! 0)) 3 9))) data) [255]
      (Some (generated_message (g_messages g ! 0) pairs_fields (fresh pairs_fields))) =
    Inr (generated_message (g_messages g ! 0) pairs_fields pairs_value)"
proof -
  obtain g where g: "New (\<lambda>s. s) [] pair_files = Some (Inr g)" "types_supported g 1" "0 < length (g_messages g)"
    using pair_files_load by (auto split: option.splits sum.splits)
  moreover have "message_fields g 1 0 = Some pairs_fields" using pair_files_fields g(1) by simp
  ultimately show ?thesis
    using schema_through_codec [OF _ pair_files_ok _ _ _ pairs_typed fresh_shaped [OF pairs_ok], of "[]" g 0 no_library 7 3 9 "[255]"] by blast
qed

section \<open>The declaration on the wire\<close>

text \<open>
  C17 (refinement). Every message that \<open>New\<close> loaded is declared in a file. If its declaration begins with the
  header fields of a kind, in the order the client expects, the fields the generated code works on are
  exactly the other declared fields in their order, each with the type it names; and what goes to VPP for
  a value, after the transport wrote client index and context, are the bytes of the header fields
  followed by the bytes of each of these fields.
\<close>

theorem wire_layout:
  assumes "New title sel files = Some (Inr g)" "list_all (file_ok title rank n) files" "types_supported g n" "i < length (g_messages g)"
    and "m_Fields (msg_api (g_messages g ! i)) = header_fields kind @ own" "own = [] \<or> \<not> is_header (hd own)"
  shows "(\<exists>af \<in> set files. msg_api (g_messages g ! i) \<in> set (af_Messages af)) \<and>
    (\<exists>fs. message_fields g n i = Some fs \<and> length fs = length own \<and>
      (\<forall>j < length own. fd_api (fs ! j) = own ! j \<and>
         (if is_base (f_Type (own ! j)) then fd_ref (fs ! j) = NoRef
          else \<exists>p. object_name g p = Some (fromApiType (f_Type (own ! j))) \<and> tree_of g n p = Some (fd_ref (fs ! j)))) \<and>
      (\<forall>v. message_typed fs v \<longrightarrow>
         (\<exists>data r. v = GRec r \<and> EncodeMsg (generated lib) (Some (generated_message (g_messages g ! i) fs v)) mid = Inr data \<and>
            put_at 2 (concat (map (be_bytes 4) (header_words kind index ctx))) data =
            ser_all (header_tree kind) (header_record mid index ctx) @
            concat (map (\<lambda>f. ser_field f (the (map_of r (fd_GoName f)))) fs))))"
proof -
  let ?m = "g_messages g ! i" and ?ws = "concat (map (be_bytes 4) (header_words kind index ctx))"
  have store: "store_ok title rank n g {} {} {} {}" by (rule New_store_ok [OF assms(1,2)])
  obtain fs where fs: "message_fields g n i = Some fs" "message_ok fs" using message_tree [OF store assms(3,4)] by blast
  have own: "own_fields ?m = own" using dropWhile_header [OF assms(6), of kind] assms(5) by (simp add: own_fields_def)
  have kind: "msg_msgType ?m = kind"
    using store_ok_at(5) [OF store assms(4)] getMsgType_header [OF assms(6), of kind] assms(5) by (simp add: message_ready_def)
  have "\<exists>data r. v = GRec r \<and> EncodeMsg (generated lib) (Some (generated_message ?m fs v)) mid = Inr data \<and>
      put_at 2 ?ws data = ser_all (header_tree kind) (header_record mid index ctx) @
      concat (map (\<lambda>f. ser_field f (the (map_of r (fd_GoName f)))) fs)" if v: "message_typed fs v" for v
  proof -
    let ?g = "generated_message ?m fs v"
    obtain r where r: "v = GRec r" using v by (cases v) (simp_all add: message_typed_def)
    have "gm_valid ?g" "gm_body ?g = message_bytes fs v" using fs(2) v by (simp_all add: gm_valid_def generated_message_def gm_body_def)
    then have "EncodeMsg (generated lib) (Some ?g) mid = Inr (be_bytes 2 mid @ replicate (length ?ws) 0 @ message_bytes fs v)"
      using gen.encode [of ?g lib mid] header_offset [of lib ?m fs v index ctx] kind by simp
    moreover have "put_at 2 ?ws (be_bytes 2 mid @ replicate (length ?ws) 0 @ message_bytes fs v) = be_bytes 2 mid @ ?ws @ message_bytes fs v"
      by (simp add: put_at_def)
    moreover have "message_bytes fs v = concat (map (\<lambda>f. ser_field f (the (map_of r (fd_GoName f)))) fs)"
      by (simp add: message_bytes_def r ser_all_concat)
    ultimately show ?thesis using r by (simp add: ser_header)
  qed
  then show ?thesis using New_messages [OF assms(1,4)] fs(1) message_fields_declared [OF store assms(4) fs(1)] own by blast
qed

text \<open>Five declared fields, one of them an array of structs, go out as 16 bytes.\<close>

lemma wire_layout_witness:
  "\<exists>g data. New (\<lambda>s. s) [] pair_files = Some (Inr g) \<and> msg_api (g_messages g ! 0) = set_pairs \<and>
    EncodeMsg (generated no_library) (Some (generated_message (g_messages g ! 0) pairs_fields pairs_value)) 7 = Inr data \<and>
    put_at 2 (be_bytes 4 (3 :: u32) @ be_bytes 4 (9 :: u32)) data = [0, 7, 0, 0, 0, 3, 0, 0, 0, 9, 1, 5, 0, 1, 17, 112]"
proof -
  obtain g where g: "New (\<lambda>s. s) [] pair_files = Some (Inr g)" "types_supported g 1" "0 < length (g_messages g)"
    using pair_files_load by (auto split: option.splits sum.splits)
  have fs: "message_fields g 1 0 = Some pairs_fields" using pair_files_fields g(1) by simp
  have api: "msg_api (g_messages g ! 0) = set_pairs" using New_messages [OF g(1,3)] by (simp add: pair_files_def api_file_def)
  have decl: "m_Fields (msg_api (g_messages g ! 0)) = header_fields msgTypeRequest @ drop 3 (m_Fields set_pairs)"
    unfolding api by (simp add: set_pairs_def header_fields_def)
  have hd: "drop 3 (m_Fields set_pairs) = [] \<or> \<not> is_header (hd (drop 3 (m_Fields set_pairs)))"
    by (simp add: set_pairs_def api_field_def is_header_def to_lower_def is_upper_def Let_def)
  let ?r = "[(''n'', GNum 1), (''ps'', GList [GRec [(''a'', GNum 5), (''b'', GNum 70000)]])]"
  obtain fs' where "message_fields g 1 0 = Some fs'"
    and enc: "\<forall>v. message_typed fs' v \<longrightarrow> (\<exists>data r. v = GRec r \<and>
      EncodeMsg (generated no_library) (Some (generated_message (g_messages g ! 0) fs' v)) 7 = Inr data \<and>
      put_at 2 (concat (map (be_bytes 4) (header_words msgTypeRequest 3 9))) data =
      ser_all (header_tree msgTypeRequest) (header_record 7 3 9) @ concat (map (\<lambda>f. ser_field f (the (map_of r (fd_GoName f)))) fs'))"
    using wire_layout [OF g(1) pair_files_ok g(2,3) decl hd, where lib = no_library and mid = 7 and index = 3 and ctx = 9] by blast
  then have "fs' = pairs_fields" using fs by simp
  with enc pairs_typed obtain data r where "pairs_value = GRec r"
      "EncodeMsg (generated no_library) (Some (generated_message (g_messages g ! 0) pairs_fields pairs_value)) 7 = Inr data"
      "put_at 2 (concat (map (be_bytes 4) (header_words msgTypeRequest 3 9))) data =
       ser_all (header_tree msgTypeRequest) (header_record 7 3 9) @ concat (map (\<lambda>f. ser_field f (the (map_of r (fd_GoName f)))) pairs_fields)"
    by blast
  moreover from this(1) have "r = ?r" by (simp add: pairs_value_def)
  moreover have "ser_all (header_tree msgTypeRequest) (header_record 7 3 9) @
       concat (map (\<lambda>f. ser_field f (the (map_of ?r (fd_GoName f)))) pairs_fields) =
      [0, 7, 0, 0, 0, 3, 0, 0, 0, 9, 1, 5, 0, 1, 17, 112]" by code_simp
  ultimately have "put_at 2 (be_bytes 4 (3 :: u32) @ be_bytes 4 (9 :: u32)) data = [0, 7, 0, 0, 0, 3, 0, 0, 0, 9, 1, 5, 0, 1, 17, 112]"
    and "EncodeMsg (generated no_library) (Some (generated_message (g_messages g ! 0) pairs_fields pairs_value)) 7 = Inr data"
    by (simp_all add: header_words_def)
  then show ?thesis using g(1) api by blast
qed

end
