(* ===== verification/ProxyStats.thy ===== *)
theory ProxyStats
  imports CoreStats
begin

text \<open>
  The stats part of the proxy (\<open>proxy/server.go\<close>, \<open>proxy/client.go\<close>): a server that keeps a statistics
  connection, watches it in a goroutine, and answers requests that come in over \<open>net/rpc\<close>; and the client
  that sends them. Goroutines take turns at the points where they synchronise: the watcher is a phase with
  a step for each of its actions, and a request is two steps, the test whether the service is available and
  the rest under the lock. \<open>None\<close> is a panic, which ends the process: \<open>net/rpc\<close> does not recover from
  panics of handlers.
\<close>

section \<open>Requests\<close>

record StatsResponse =
  SysStats :: "SystemStats option"
  NodeStats :: "NodeCounters list option"
  IfaceStats :: "InterfaceCounters list option"
  ErrStats :: "ErrorCounter list option"
  BufStats :: "(string \<rightharpoonup> BufferPool) option"
  MemStats :: "MemoryStats option"

definition no_response :: StatsResponse where
  "no_response = \<lparr>SysStats = None, NodeStats = None, IfaceStats = None, ErrStats = None, BufStats = None, MemStats = None\<rparr>"

definition zero_system :: SystemStats where
  "zero_system =
     \<lparr>VectorRate = 0, NumWorkerThreads = 0, VectorRatePerWorker = [], InputRate = 0, LastUpdate = 0, LastStatsClear = 0, Heartbeat = 0\<rparr>"

definition zero_memory :: MemoryStats where
  "zero_memory = \<lparr>ms_Total = 0, ms_Used = 0, ms_Stat = Map.empty, ms_Main = Map.empty\<rparr>"

definition stats_types :: "string list" where
  "stats_types = [''system'', ''node'', ''interface'', ''error'', ''buffer'', ''memory'']"

text \<open>The answer to a request on a connection: the error, if any, the response, and the connection.\<close>

definition answer ::
  "'s stats_api \<Rightarrow> (float64 \<Rightarrow> u64) \<Rightarrow> string \<Rightarrow> StatsResponse \<Rightarrow> 's StatsConnection \<Rightarrow>
     (gerr option \<times> StatsResponse \<times> 's StatsConnection) option" where
  "answer sa platform t resp c =
     (if t = ''system'' then
        map_option (\<lambda>(e, st, c). (e, resp\<lparr>SysStats := Some st\<rparr>, c)) (GetSystemStats sa platform c zero_system)
      else if t = ''node'' then map_option (\<lambda>(e, st, c). (e, resp\<lparr>NodeStats := Some st\<rparr>, c)) (GetNodeStats sa c [])
      else if t = ''interface'' then map_option (\<lambda>(e, st, c). (e, resp\<lparr>IfaceStats := Some st\<rparr>, c)) (GetInterfaceStats sa c [])
      else if t = ''error'' then (case GetErrorStats sa c [] of (e, st, c) \<Rightarrow> Some (e, resp\<lparr>ErrStats := Some st\<rparr>, c))
      else if t = ''buffer'' then (case GetBufferStats sa c Map.empty of (e, st, c) \<Rightarrow> Some (e, resp\<lparr>BufStats := Some st\<rparr>, c))
      else (case GetMemoryStats sa c zero_memory of (e, st, c) \<Rightarrow> Some (e, resp\<lparr>MemStats := Some st\<rparr>, c)))"

section \<open>The server\<close>

text \<open>
  The watcher. In \<open>Selecting\<close> it waits for its ticker or for the \<open>done\<close> channel it found when it began to
  wait; it keeps the number of heartbeats that did not advance and the last stats.
\<close>

datatype watcher =
    Starting
  | FirstRead
  | Selecting nat nat SystemStats
  | Reading nat SystemStats
  | Reconnecting SystemStats
  | Ended

text \<open>
  The server; \<open>done\<close> channels are numbered, and the stats client that the connection shares with the
  server has its state in the connection, if there is one. Requests that passed the test are pending.
\<close>

record 's StatsRPC =
  rpc_statsConn :: "'s StatsConnection option"
  rpc_stats :: 's
  rpc_done :: nat
  rpc_closed :: "nat list"
  rpc_available :: bool
  rpc_isConnected :: bool
  rpc_watchers :: "watcher list"
  rpc_pending :: "string list"

definition newStatsRPC :: "'s \<Rightarrow> 's StatsRPC" where
  "newStatsRPC s =
     \<lparr>rpc_statsConn = None, rpc_stats = s, rpc_done = 0, rpc_closed = [], rpc_available = False, rpc_isConnected = False,
      rpc_watchers = [], rpc_pending = []\<rparr>"

definition stats_state :: "'s StatsRPC \<Rightarrow> 's" where
  "stats_state r = (case rpc_statsConn r of Some c \<Rightarrow> statsClient c | None \<Rightarrow> rpc_stats r)"

text \<open>\<open>core.ConnectStats\<close> assigned to the field: an error leaves nil there.\<close>

definition reconnect_stats :: "'s stats_api \<Rightarrow> 's StatsRPC \<Rightarrow> gerr option \<times> 's StatsRPC" where
  "reconnect_stats sa r =
     (case ConnectStats sa (stats_state r) of
        Inr c \<Rightarrow> (None, r\<lparr>rpc_statsConn := Some c\<rparr>)
      | Inl e \<Rightarrow> (Some e, r\<lparr>rpc_statsConn := None, rpc_stats := snd (sa_Connect sa (stats_state r))\<rparr>))"

definition StatsRPC_connect :: "'s stats_api \<Rightarrow> 's StatsRPC \<Rightarrow> gerr option \<times> 's StatsRPC" where
  "StatsRPC_connect sa r =
     (if rpc_isConnected r then (Some (ErrMsg ''connection already exists''), r)
      else case reconnect_stats sa r of
        (Some e, r) \<Rightarrow> (Some e, r)
      | (None, r) \<Rightarrow> (None, r\<lparr>rpc_done := Suc (rpc_done r), rpc_isConnected := True, rpc_watchers := rpc_watchers r @ [Starting]\<rparr>))"

definition StatsRPC_disconnect :: "'s stats_api \<Rightarrow> 's StatsRPC \<Rightarrow> 's StatsRPC option" where
  "StatsRPC_disconnect sa r =
     (if rpc_isConnected r then
        do { c \<leftarrow> rpc_statsConn r;
             c' \<leftarrow> stats_Disconnect sa c;
             Some (r\<lparr>rpc_isConnected := False, rpc_closed := rpc_done r # rpc_closed r, rpc_statsConn := None, rpc_stats := statsClient c'\<rparr>) }
      else Some r)"

text \<open>The two parts of \<open>GetStats\<close>.\<close>

definition serviceAvailable :: "'s StatsRPC \<Rightarrow> bool" where
  "serviceAvailable r = rpc_available r"

definition GetStats_rest ::
  "'s stats_api \<Rightarrow> (float64 \<Rightarrow> u64) \<Rightarrow> string \<Rightarrow> StatsResponse \<Rightarrow> 's StatsRPC \<Rightarrow> (gerr option \<times> StatsResponse \<times> 's StatsRPC) option" where
  "GetStats_rest sa platform t resp r =
     (if t \<notin> set stats_types then Some (Some (ErrMsg ''unknown stats type''), resp, r)
      else do { c \<leftarrow> rpc_statsConn r;
                (e, resp, c') \<leftarrow> answer sa platform t resp c;
                Some (e, resp, r\<lparr>rpc_statsConn := Some c'\<rparr>) })"

definition GetStats ::
  "'s stats_api \<Rightarrow> (float64 \<Rightarrow> u64) \<Rightarrow> string \<Rightarrow> StatsResponse \<Rightarrow> 's StatsRPC \<Rightarrow> (gerr option \<times> StatsResponse \<times> 's StatsRPC) option" where
  "GetStats sa platform t resp r =
     (if \<not> serviceAvailable r then Some (Some (ErrMsg ''server does not support get stats at this time, try again later''), resp, r)
      else GetStats_rest sa platform t resp r)"

section \<open>The watcher\<close>

definition set_watcher :: "nat \<Rightarrow> watcher \<Rightarrow> 's StatsRPC \<Rightarrow> 's StatsRPC" where
  "set_watcher i w r = r\<lparr>rpc_watchers := (rpc_watchers r)[i := w]\<rparr>"

text \<open>
  \<open>GetSystemStats\<close> into a zero value: an error turns the service off, and the stats stay zero. The
  result is what was read.
\<close>

definition watcher_read :: "'s stats_api \<Rightarrow> (float64 \<Rightarrow> u64) \<Rightarrow> 's StatsRPC \<Rightarrow> (SystemStats \<times> 's StatsRPC) option" where
  "watcher_read sa platform r =
     do { c \<leftarrow> rpc_statsConn r;
          (e, st, c') \<leftarrow> GetSystemStats sa platform c zero_system;
          Some (st, r\<lparr>rpc_statsConn := Some c', rpc_available := rpc_available r \<and> e = None\<rparr>) }"

definition watcher_compare :: "'s stats_api \<Rightarrow> nat \<Rightarrow> nat \<Rightarrow> SystemStats \<Rightarrow> SystemStats \<Rightarrow> 's StatsRPC \<Rightarrow> 's StatsRPC option" where
  "watcher_compare sa i cnt prev cur r =
     (if Heartbeat cur \<le> Heartbeat prev then
        if cnt + 1 = 5 then
          do { c \<leftarrow> rpc_statsConn r;
               c' \<leftarrow> stats_Disconnect sa c;
               Some (set_watcher i (Reconnecting cur) (r\<lparr>rpc_available := False, rpc_statsConn := Some c'\<rparr>)) }
        else Some (set_watcher i (Selecting (rpc_done r) (cnt + 1) cur) r)
      else Some (set_watcher i (Selecting (rpc_done r) 0 cur) r))"

text \<open>The next action of a watcher that is not waiting.\<close>

definition watcher_step :: "'s stats_api \<Rightarrow> (float64 \<Rightarrow> u64) \<Rightarrow> nat \<Rightarrow> watcher \<Rightarrow> 's StatsRPC \<Rightarrow> 's StatsRPC option" where
  "watcher_step sa platform i w r =
     (case w of
        Starting \<Rightarrow> Some (set_watcher i FirstRead (r\<lparr>rpc_available := True\<rparr>))
      | FirstRead \<Rightarrow> map_option (\<lambda>(st, r). set_watcher i (Selecting (rpc_done r) 0 st) r) (watcher_read sa platform r)
      | Reading cnt prev \<Rightarrow> Option.bind (watcher_read sa platform r) (\<lambda>(cur, r). watcher_compare sa i cnt prev cur r)
      | Reconnecting cur \<Rightarrow>
          (case reconnect_stats sa r of
             (None, r) \<Rightarrow> Some (set_watcher i (Selecting (rpc_done r) 0 cur) (r\<lparr>rpc_available := True\<rparr>))
           | (Some e, r) \<Rightarrow> Some r)
      | _ \<Rightarrow> Some r)"

text \<open>The ticker fires: the watcher ends when \<open>disconnect\<close> was called.\<close>

definition watcher_tick :: "nat \<Rightarrow> watcher \<Rightarrow> 's StatsRPC \<Rightarrow> 's StatsRPC" where
  "watcher_tick i w r =
     (case w of
        Selecting d cnt prev \<Rightarrow>
          if rpc_isConnected r then set_watcher i (Reading cnt prev) r else set_watcher i Ended (r\<lparr>rpc_available := False\<rparr>)
      | _ \<Rightarrow> r)"

definition watcher_done :: "nat \<Rightarrow> watcher \<Rightarrow> 's StatsRPC \<Rightarrow> 's StatsRPC" where
  "watcher_done i w r =
     (case w of Selecting d cnt prev \<Rightarrow> if d \<in> set (rpc_closed r) then set_watcher i Ended r else r | _ \<Rightarrow> r)"

section \<open>Runs\<close>

text \<open>What can happen to a server; an event that is not possible changes nothing.\<close>

datatype stats_event =
    ConnectStatsCall
  | DisconnectStatsCall
  | Request string
  | Handle
  | Watch nat
  | Tick nat
  | DoneSeen nat

fun stats_step :: "'s stats_api \<Rightarrow> (float64 \<Rightarrow> u64) \<Rightarrow> stats_event \<Rightarrow> 's StatsRPC \<Rightarrow> 's StatsRPC option" where
  "stats_step sa platform ConnectStatsCall r = Some (snd (StatsRPC_connect sa r))"
| "stats_step sa platform DisconnectStatsCall r = StatsRPC_disconnect sa r"
| "stats_step sa platform (Request t) r = Some (if serviceAvailable r then r\<lparr>rpc_pending := rpc_pending r @ [t]\<rparr> else r)"
| "stats_step sa platform Handle r =
     (case rpc_pending r of [] \<Rightarrow> Some r
      | t # ts \<Rightarrow> map_option (\<lambda>(_, _, r). r\<lparr>rpc_pending := ts\<rparr>) (GetStats_rest sa platform t no_response r))"
| "stats_step sa platform (Watch i) r = (if i < length (rpc_watchers r) then watcher_step sa platform i (rpc_watchers r ! i) r else Some r)"
| "stats_step sa platform (Tick i) r = Some (if i < length (rpc_watchers r) then watcher_tick i (rpc_watchers r ! i) r else r)"
| "stats_step sa platform (DoneSeen i) r = Some (if i < length (rpc_watchers r) then watcher_done i (rpc_watchers r ! i) r else r)"

fun stats_run :: "'s stats_api \<Rightarrow> (float64 \<Rightarrow> u64) \<Rightarrow> stats_event list \<Rightarrow> 's StatsRPC \<Rightarrow> 's StatsRPC option" where
  "stats_run sa platform [] r = Some r"
| "stats_run sa platform (e # es) r = Option.bind (stats_step sa platform e r) (stats_run sa platform es)"

section \<open>The client\<close>

text \<open>
  A call over \<open>net/rpc\<close>: what the handler put into the response replaces what the client had there, an
  error arrives as its text, and the response stays as it was. \<open>etext\<close> is the method \<open>Error\<close> of the
  standard library's and the adapters' errors.
\<close>

definition merge_response :: "StatsResponse \<Rightarrow> StatsResponse \<Rightarrow> StatsResponse" where
  "merge_response old new =
     \<lparr>SysStats = (case SysStats new of Some x \<Rightarrow> Some x | None \<Rightarrow> SysStats old),
       NodeStats = (case NodeStats new of Some x \<Rightarrow> Some x | None \<Rightarrow> NodeStats old),
       IfaceStats = (case IfaceStats new of Some x \<Rightarrow> Some x | None \<Rightarrow> IfaceStats old),
       ErrStats = (case ErrStats new of Some x \<Rightarrow> Some x | None \<Rightarrow> ErrStats old),
       BufStats = (case BufStats new of Some x \<Rightarrow> Some x | None \<Rightarrow> BufStats old),
       MemStats = (case MemStats new of Some x \<Rightarrow> Some x | None \<Rightarrow> MemStats old)\<rparr>"

definition call_GetStats ::
  "'s stats_api \<Rightarrow> (float64 \<Rightarrow> u64) \<Rightarrow> (gerr \<Rightarrow> string) \<Rightarrow> string \<Rightarrow> StatsResponse \<Rightarrow> 's StatsRPC \<Rightarrow> (gerr option \<times> StatsResponse \<times> 's StatsRPC) option" where
  "call_GetStats sa platform etext t resp r =
     map_option (\<lambda>(e, out, r). case e of Some e \<Rightarrow> (Some (ErrMsg (etext e)), resp, r) | None \<Rightarrow> (None, merge_response resp out, r))
       (GetStats sa platform t no_response r)"

text \<open>A getter of the client: the field of the response it asks for, with a zero value in it.\<close>

definition client_get ::
  "'s stats_api \<Rightarrow> (float64 \<Rightarrow> u64) \<Rightarrow> (gerr \<Rightarrow> string) \<Rightarrow> string \<Rightarrow> StatsResponse \<Rightarrow> (StatsResponse \<Rightarrow> 't option) \<Rightarrow> 's StatsRPC \<Rightarrow> 't \<Rightarrow>
     (gerr option \<times> 't \<times> 's StatsRPC) option" where
  "client_get sa platform etext t resp field r st =
     do { (e, resp, r) \<leftarrow> call_GetStats sa platform etext t resp r;
          (case e of Some e \<Rightarrow> Some (Some e, st, r) | None \<Rightarrow> map_option (\<lambda>st. (None, st, r)) (field resp)) }"

definition client_GetSystemStats where
  "client_GetSystemStats sa platform etext = client_get sa platform etext ''system'' (no_response\<lparr>SysStats := Some zero_system\<rparr>) SysStats"

definition client_GetNodeStats where
  "client_GetNodeStats sa platform etext = client_get sa platform etext ''node'' (no_response\<lparr>NodeStats := Some []\<rparr>) NodeStats"

definition client_GetInterfaceStats where
  "client_GetInterfaceStats sa platform etext = client_get sa platform etext ''interface'' (no_response\<lparr>IfaceStats := Some []\<rparr>) IfaceStats"

definition client_GetErrorStats where
  "client_GetErrorStats sa platform etext = client_get sa platform etext ''error'' (no_response\<lparr>ErrStats := Some []\<rparr>) ErrStats"

definition client_GetBufferStats where
  "client_GetBufferStats sa platform etext = client_get sa platform etext ''buffer'' (no_response\<lparr>BufStats := Some Map.empty\<rparr>) BufStats"

definition client_GetMemoryStats where
  "client_GetMemoryStats sa platform etext = client_get sa platform etext ''memory'' (no_response\<lparr>MemStats := Some zero_memory\<rparr>) MemStats"

end
