(* ===== verification/ProxyStatsProps.thy ===== *)
theory ProxyStatsProps
  imports ProxyStats
begin

text \<open>
  What the stats part of the proxy guarantees, and where it does not: requests are answered as the
  connection would; a server whose watcher runs has a connection whenever it says that it is available;
  one failed read turns the service off for as long as VPP lives; reconnecting; and disconnecting at the
  wrong moment.
\<close>

section \<open>Requests\<close>

lemma merge_no_response [simp]:
  "SysStats (merge_response a b) = (case SysStats b of Some x \<Rightarrow> Some x | None \<Rightarrow> SysStats a)"
  "NodeStats (merge_response a b) = (case NodeStats b of Some x \<Rightarrow> Some x | None \<Rightarrow> NodeStats a)"
  "IfaceStats (merge_response a b) = (case IfaceStats b of Some x \<Rightarrow> Some x | None \<Rightarrow> IfaceStats a)"
  "ErrStats (merge_response a b) = (case ErrStats b of Some x \<Rightarrow> Some x | None \<Rightarrow> ErrStats a)"
  "BufStats (merge_response a b) = (case BufStats b of Some x \<Rightarrow> Some x | None \<Rightarrow> BufStats a)"
  "MemStats (merge_response a b) = (case MemStats b of Some x \<Rightarrow> Some x | None \<Rightarrow> MemStats a)"
  by (simp_all add: merge_response_def)

text \<open>What a getter of the client gives, from the result of the connection's getter on a zero value.\<close>

definition delivered :: "(gerr \<Rightarrow> string) \<Rightarrow> 't \<Rightarrow> 's StatsRPC \<Rightarrow> gerr option \<times> 't \<times> 's StatsConnection \<Rightarrow> gerr option \<times> 't \<times> 's StatsRPC" where
  "delivered etext st r = (\<lambda>(e, st', c). (map_option (\<lambda>e. ErrMsg (etext e)) e, if e = None then st' else st, r\<lparr>rpc_statsConn := Some c\<rparr>))"

lemmas client_defs = client_GetSystemStats_def client_GetNodeStats_def client_GetInterfaceStats_def client_GetErrorStats_def
  client_GetBufferStats_def client_GetMemoryStats_def client_get_def call_GetStats_def GetStats_def GetStats_rest_def answer_def
  serviceAvailable_def stats_types_def no_response_def delivered_def

text \<open>
  While the service is available, every getter of the client returns what the getter
  of the server's connection returns for a zero value, with an error as its text; after an error the
  caller's value is left alone.
\<close>

theorem proxied_stats:
  assumes "rpc_available r" "rpc_statsConn r = Some c"
  shows "client_GetSystemStats sa platform etext r sys = map_option (delivered etext sys r) (GetSystemStats sa platform c zero_system) \<and>
    client_GetNodeStats sa platform etext r nodes = map_option (delivered etext nodes r) (GetNodeStats sa c []) \<and>
    client_GetInterfaceStats sa platform etext r ifaces = map_option (delivered etext ifaces r) (GetInterfaceStats sa c []) \<and>
    client_GetErrorStats sa platform etext r errs = Some (delivered etext errs r (GetErrorStats sa c [])) \<and>
    client_GetBufferStats sa platform etext r bufs = Some (delivered etext bufs r (GetBufferStats sa c Map.empty)) \<and>
    client_GetMemoryStats sa platform etext r ms = Some (delivered etext ms r (GetMemoryStats sa c zero_memory))"
proof (intro conjI)
  show "client_GetSystemStats sa platform etext r sys = map_option (delivered etext sys r) (GetSystemStats sa platform c zero_system)"
    using assms by (cases "GetSystemStats sa platform c zero_system") (auto simp: client_defs split: option.splits)
  show "client_GetNodeStats sa platform etext r nodes = map_option (delivered etext nodes r) (GetNodeStats sa c [])"
    using assms by (cases "GetNodeStats sa c []") (auto simp: client_defs split: option.splits)
  show "client_GetInterfaceStats sa platform etext r ifaces = map_option (delivered etext ifaces r) (GetInterfaceStats sa c [])"
    using assms by (cases "GetInterfaceStats sa c []") (auto simp: client_defs split: option.splits)
  show "client_GetErrorStats sa platform etext r errs = Some (delivered etext errs r (GetErrorStats sa c []))"
    using assms by (cases "GetErrorStats sa c []") (auto simp: client_defs split: option.splits)
  show "client_GetBufferStats sa platform etext r bufs = Some (delivered etext bufs r (GetBufferStats sa c Map.empty))"
    using assms by (cases "GetBufferStats sa c Map.empty") (auto simp: client_defs split: option.splits)
  show "client_GetMemoryStats sa platform etext r ms = Some (delivered etext ms r (GetMemoryStats sa c zero_memory))"
    using assms by (cases "GetMemoryStats sa c zero_memory") (auto simp: client_defs split: option.splits)
qed

section \<open>The connection while the watcher runs\<close>

definition live :: "'s StatsConnection \<Rightarrow> bool" where
  "live c \<longleftrightarrow> \<not> gc_closed (sc_connChan c) \<and> \<not> sc_done c"

definition watched :: "'s StatsRPC \<Rightarrow> watcher \<Rightarrow> bool" where
  "watched r w \<longleftrightarrow>
     (case w of
        Reconnecting _ \<Rightarrow> \<not> rpc_available r \<and> (\<forall>c. rpc_statsConn r = Some c \<longrightarrow> \<not> live c)
      | Ended \<Rightarrow> False
      | _ \<Rightarrow> (\<exists>c. rpc_statsConn r = Some c \<and> live c))"

definition stats_inv :: "'s StatsRPC \<Rightarrow> bool" where
  "stats_inv r \<longleftrightarrow> rpc_closed r = [] \<and>
     (if rpc_isConnected r then (\<exists>w. rpc_watchers r = [w] \<and> watched r w)
      else rpc_watchers r = [] \<and> rpc_statsConn r = None \<and> \<not> rpc_available r)"

text \<open>Reading keeps a connection as open as it is.\<close>

lemma getters_keep_live:
  "GetSystemStats sa platform c st = Some (e, st', c') \<Longrightarrow> live c' = live c"
  "GetNodeStats sa c ns = Some (e, ns', c') \<Longrightarrow> live c' = live c"
  "GetInterfaceStats sa c is = Some (e, is', c') \<Longrightarrow> live c' = live c"
  "GetErrorStats sa c es = (e, es', c') \<Longrightarrow> live c' = live c"
  "GetBufferStats sa c bs = (e, bs', c') \<Longrightarrow> live c' = live c"
  "GetMemoryStats sa c m = (e, m', c') \<Longrightarrow> live c' = live c"
  by (auto simp: live_def GetSystemStats_def GetNodeStats_def GetInterfaceStats_def GetErrorStats_def GetBufferStats_def GetMemoryStats_def
      Let_def split: prod.splits option.splits)

lemma answer_live: "answer sa platform t resp c = Some (e, resp', c') \<Longrightarrow> live c' = live c"
  by (auto simp: answer_def split: if_splits prod.splits dest: getters_keep_live)

lemma ConnectStats_live: "ConnectStats sa s = Inr c \<Longrightarrow> live c"
  by (auto simp: ConnectStats_def newStatsConnection_def live_def Let_def split: prod.splits option.splits)

lemma Disconnect_live: "stats_Disconnect sa c = Some c' \<Longrightarrow> live c \<and> \<not> live c'"
  by (auto simp: stats_Disconnect_def live_def Let_def split: prod.splits if_splits)

lemma Disconnect_panics: "\<not> live c \<Longrightarrow> stats_Disconnect sa c = None"
  by (auto simp: stats_Disconnect_def live_def Let_def split: prod.splits)

text \<open>What a step of the service does to connection, availability and watchers, one lemma per kind of step.\<close>

lemma request_handled:
  assumes "GetStats_rest sa platform t resp r = Some (e, resp', r')"
  shows "\<exists>conn. r' = r\<lparr>rpc_statsConn := conn\<rparr> \<and> map_option live conn = map_option live (rpc_statsConn r)"
proof (cases "t \<in> set stats_types")
  case True
  then obtain c where c: "rpc_statsConn r = Some c" using assms by (cases "rpc_statsConn r") (auto simp: GetStats_rest_def)
  then obtain e1 resp1 c1 where "answer sa platform t resp c = Some (e1, resp1, c1)"
    using assms True by (cases "answer sa platform t resp c") (auto simp: GetStats_rest_def)
  then show ?thesis using assms True c answer_live by (fastforce simp: GetStats_rest_def)
next
  case False
  then show ?thesis using assms by (intro exI [of _ "rpc_statsConn r"]) (simp add: GetStats_rest_def)
qed

lemma was_read:
  assumes "watcher_read sa platform r = Some (st, r')"
  shows "\<exists>c c' e. rpc_statsConn r = Some c \<and> GetSystemStats sa platform c zero_system = Some (e, st, c') \<and> live c' = live c \<and>
    r' = r\<lparr>rpc_statsConn := Some c', rpc_available := rpc_available r \<and> e = None\<rparr>"
proof -
  obtain c where c: "rpc_statsConn r = Some c" using assms by (cases "rpc_statsConn r") (simp_all add: watcher_read_def)
  then obtain e st1 c' where g: "GetSystemStats sa platform c zero_system = Some (e, st1, c')"
    using assms by (cases "GetSystemStats sa platform c zero_system") (auto simp: watcher_read_def)
  then have "st1 = st" "r' = r\<lparr>rpc_statsConn := Some c', rpc_available := rpc_available r \<and> e = None\<rparr>"
    using assms c by (simp_all add: watcher_read_def)
  then show ?thesis using c g getters_keep_live(1) [OF g] by blast
qed

lemma reconnected:
  assumes "reconnect_stats sa r = (e, r')"
  shows "(if e = None then (\<exists>c. live c \<and> r' = r\<lparr>rpc_statsConn := Some c\<rparr>) else (\<exists>s. r' = r\<lparr>rpc_statsConn := None, rpc_stats := s\<rparr>))"
proof (cases "ConnectStats sa (stats_state r)")
  case (Inl e1)
  then show ?thesis using assms by (simp add: reconnect_stats_def) blast
next
  case (Inr c)
  then show ?thesis using assms ConnectStats_live [OF Inr] by (simp add: reconnect_stats_def) blast
qed

lemma stats_inv_watch:
  assumes w: "watched r w" "rpc_watchers r = [w]" and step: "watcher_step sa platform 0 w r = Some r'"
  shows "\<exists>w'. rpc_watchers r' = [w'] \<and> watched r' w' \<and> rpc_closed r' = rpc_closed r \<and> rpc_isConnected r' = rpc_isConnected r"
proof (cases w)
  case FirstRead
  then obtain st r1 where "watcher_read sa platform r = Some (st, r1)" "r' = set_watcher 0 (Selecting (rpc_done r1) 0 st) r1"
    using step by (auto simp: watcher_step_def)
  with was_read [OF this(1)] show ?thesis using w FirstRead by (auto simp: watched_def set_watcher_def)
next
  case (Reading n prev)
  then obtain st r1 where r1: "watcher_read sa platform r = Some (st, r1)" "watcher_compare sa 0 n prev st r1 = Some r'"
    using step by (cases "watcher_read sa platform r") (auto simp: watcher_step_def)
  from was_read [OF r1(1)] obtain c0 c and e :: "gerr option" where c0: "rpc_statsConn r = Some c0" "live c = live c0"
      and c: "r1 = r\<lparr>rpc_statsConn := Some c, rpc_available := rpc_available r \<and> e = None\<rparr>" by blast
  have live: "live c" using w(1) Reading c0 by (simp add: watched_def)
  show ?thesis
  proof (cases "Heartbeat st \<le> Heartbeat prev \<and> n + 1 = 5")
    case True
    then obtain c' where "stats_Disconnect sa c = Some c'"
        "r' = set_watcher 0 (Reconnecting st) (r1\<lparr>rpc_available := False, rpc_statsConn := Some c'\<rparr>)"
      using r1(2) c by (cases "stats_Disconnect sa c") (simp_all add: watcher_compare_def)
    then show ?thesis using w(2) c Disconnect_live [of sa c c'] by (simp add: set_watcher_def watched_def)
  next
    case False
    then obtain k where "r' = set_watcher 0 (Selecting (rpc_done r1) k st) r1"
      using r1(2) by (auto simp: watcher_compare_def split: if_splits)
    then show ?thesis using w(2) c live by (simp add: set_watcher_def watched_def)
  qed
next
  case (Reconnecting cur)
  obtain e r1 where r1: "reconnect_stats sa r = (e, r1)" by (cases "reconnect_stats sa r")
  show ?thesis
  proof (cases e)
    case None
    then show ?thesis using reconnected [OF r1] r1 step Reconnecting w(2) by (auto simp: watcher_step_def set_watcher_def watched_def)
  next
    case (Some e1)
    then show ?thesis using reconnected [OF r1] r1 step Reconnecting w by (auto simp: watcher_step_def watched_def)
  qed
qed (use w step in \<open>auto simp: watcher_step_def watched_def set_watcher_def\<close>)

lemma stats_inv_step:
  assumes "stats_inv r" "stats_step sa platform ev r = Some r'" "ev \<noteq> DisconnectStatsCall"
  shows "stats_inv r'"
proof (cases ev)
  case ConnectStatsCall
  obtain e r1 where r1: "reconnect_stats sa r = (e, r1)" by (cases "reconnect_stats sa r")
  with reconnected [OF r1] show ?thesis using assms(1,2) ConnectStatsCall
    by (cases e) (auto simp: stats_inv_def StatsRPC_connect_def watched_def split: if_splits)
next
  case (Request t)
  then show ?thesis using assms by (auto simp: stats_inv_def watched_def split: watcher.splits if_splits)
next
  case Handle
  show ?thesis
  proof (cases "rpc_pending r")
    case (Cons t ts)
    then obtain e resp r1 where r1: "GetStats_rest sa platform t no_response r = Some (e, resp, r1)" "r' = r1\<lparr>rpc_pending := ts\<rparr>"
      using assms(2) Handle by auto
    from request_handled [OF r1(1)] obtain conn where conn: "r1 = r\<lparr>rpc_statsConn := conn\<rparr>" "map_option live conn = map_option live (rpc_statsConn r)" by blast
    have "watched r' w" if "watched r w" for w
      using that conn r1(2) by (cases conn; cases "rpc_statsConn r") (auto simp: watched_def split: watcher.splits)
    then show ?thesis using assms(1) conn r1(2) by (auto simp: stats_inv_def split: if_splits)
  qed (use assms Handle in simp)
next
  case (Watch i)
  show ?thesis
  proof (cases "i < length (rpc_watchers r)")
    case True
    then obtain w where w: "rpc_isConnected r" "rpc_watchers r = [w]" "watched r w" "i = 0" using assms(1) by (auto simp: stats_inv_def split: if_splits)
    then have "watcher_step sa platform 0 w r = Some r'" using assms(2) Watch by simp
    from stats_inv_watch [OF w(3,2) this] show ?thesis using assms(1) w(1) by (auto simp: stats_inv_def)
  qed (use assms Watch in simp)
next
  case (Tick i)
  then show ?thesis using assms(1,2) by (auto simp: stats_inv_def watched_def watcher_tick_def set_watcher_def split: if_splits watcher.splits)
next
  case (DoneSeen i)
  then show ?thesis using assms(1,2) by (auto simp: stats_inv_def watched_def watcher_done_def split: if_splits watcher.splits)
qed (use assms(3) in simp)

lemma stats_inv_run: "stats_inv r \<Longrightarrow> DisconnectStatsCall \<notin> set es \<Longrightarrow> stats_run sa platform es r = Some r' \<Longrightarrow> stats_inv r'"
proof (induction es arbitrary: r)
  case (Cons ev es)
  then obtain r1 where "stats_step sa platform ev r = Some r1" "stats_run sa platform es r1 = Some r'" by (auto split: bind_splits)
  then show ?case using Cons.IH [of r1] stats_inv_step [OF Cons.prems(1)] Cons.prems(2) by auto
qed simp

lemma stats_inv_new: "stats_inv (newStatsRPC s)"
  by (simp add: stats_inv_def newStatsRPC_def)


section \<open>Properties of a server that was not disconnected\<close>

text \<open>
  C14 (invariant). As long as nobody disconnects the server, whatever requests, reads and reconnections
  happen: when the service is available, there is an open connection, and a request is answered on it.
\<close>

theorem available_means_connected:
  assumes "stats_run sa platform es (newStatsRPC s) = Some r" "DisconnectStatsCall \<notin> set es" "rpc_available r"
  shows "\<exists>c. rpc_statsConn r = Some c \<and> stats_Disconnect sa c \<noteq> None \<and>
    (\<forall>t \<in> set stats_types. GetStats sa platform t no_response r =
       map_option (\<lambda>(e, resp, c'). (e, resp, r\<lparr>rpc_statsConn := Some c'\<rparr>)) (answer sa platform t no_response c))"
proof -
  have "stats_inv r" using stats_inv_run [OF stats_inv_new assms(2,1)] .
  then obtain w where "watched r w" using assms(3) by (auto simp: stats_inv_def split: if_splits)
  then obtain c where c: "rpc_statsConn r = Some c" "live c" using assms(3) by (cases w) (auto simp: watched_def)
  have "GetStats sa platform t no_response r =
      map_option (\<lambda>(e, resp, c'). (e, resp, r\<lparr>rpc_statsConn := Some c'\<rparr>)) (answer sa platform t no_response c)" if "t \<in> set stats_types" for t
    using that c(1) assms(3) by (cases "answer sa platform t no_response c") (auto simp: GetStats_def serviceAvailable_def GetStats_rest_def)
  moreover have "stats_Disconnect sa c \<noteq> None" using c(2) by (simp add: stats_Disconnect_def live_def Let_def split: prod.splits)
  ultimately show ?thesis using c(1) by blast
qed

text \<open>
  C35 (safety). Disconnecting a connected server panics exactly when its watcher is reconnecting: the
  connection was then disconnected before, or is nil since an attempt failed.
\<close>

theorem disconnect_while_reconnecting:
  assumes "stats_run sa platform es (newStatsRPC s) = Some r" "DisconnectStatsCall \<notin> set es" "rpc_isConnected r"
  shows "StatsRPC_disconnect sa r = None \<longleftrightarrow> (\<exists>cur. rpc_watchers r = [Reconnecting cur])"
proof -
  have "stats_inv r" using stats_inv_run [OF stats_inv_new assms(2,1)] .
  then obtain w where w: "rpc_watchers r = [w]" "watched r w" using assms(3) by (auto simp: stats_inv_def)
  show ?thesis
  proof (cases "\<exists>cur. w = Reconnecting cur")
    case True
    then show ?thesis using w assms(3)
      by (cases "rpc_statsConn r") (auto simp: watched_def StatsRPC_disconnect_def Disconnect_panics)
  next
    case False
    then obtain c where "rpc_statsConn r = Some c" "live c" using w(2) by (cases w) (auto simp: watched_def)
    then have "StatsRPC_disconnect sa r \<noteq> None"
      using assms(3) by (auto simp: StatsRPC_disconnect_def stats_Disconnect_def live_def Let_def split: prod.splits)
    then show ?thesis using w(1) False by auto
  qed
qed

text \<open>
  When the watcher of a disconnected server learns of it from the \<open>done\<close> channel, the
  service stays available without a connection, and the next request panics; when it learns of it from
  its ticker, the service is off.
\<close>

theorem disconnect_leaves_available:
  assumes "rpc_isConnected r" "rpc_available r" "rpc_pending r = []" "rpc_statsConn r = Some c" "stats_Disconnect sa c = Some c'"
    and "i < length (rpc_watchers r)" "rpc_watchers r ! i = Selecting (rpc_done r) n prev" "t \<in> set stats_types"
  shows "stats_run sa platform [DisconnectStatsCall, DoneSeen i, Request t, Handle] r = None \<and>
    (\<exists>r'. stats_run sa platform [DisconnectStatsCall, Tick i, Request t, Handle] r = Some r' \<and> \<not> rpc_available r')"
  using assms by (simp add: StatsRPC_disconnect_def watcher_done_def watcher_tick_def set_watcher_def serviceAvailable_def GetStats_rest_def)

section \<open>Reads of the watcher\<close>

text \<open>A round of the watcher, and the reads of several rounds in a row.\<close>

definition round :: "nat \<Rightarrow> stats_event list" where "round i = [Tick i, Watch i]"

fun advancing :: "'s stats_api \<Rightarrow> (float64 \<Rightarrow> u64) \<Rightarrow> nat \<Rightarrow> SystemStats \<Rightarrow> 's StatsConnection \<Rightarrow> bool" where
  "advancing sa platform 0 prev c = True"
| "advancing sa platform (Suc k) prev c =
     (case GetSystemStats sa platform c zero_system of
        Some (None, st, c') \<Rightarrow> Heartbeat prev < Heartbeat st \<and> advancing sa platform k st c'
      | _ \<Rightarrow> False)"

fun stale_reads :: "'s stats_api \<Rightarrow> (float64 \<Rightarrow> u64) \<Rightarrow> nat \<Rightarrow> SystemStats \<Rightarrow> 's StatsConnection \<Rightarrow> 's StatsConnection option" where
  "stale_reads sa platform 0 prev c = Some c"
| "stale_reads sa platform (Suc k) prev c =
     (case GetSystemStats sa platform c zero_system of
        Some (e, st, c') \<Rightarrow> if Heartbeat st \<le> Heartbeat prev then stale_reads sa platform k st c' else None
      | None \<Rightarrow> None)"

text \<open>\<open>m\<close> attempts to connect fail, and the next one does not.\<close>

fun connects_after :: "'s stats_api \<Rightarrow> nat \<Rightarrow> 's \<Rightarrow> bool" where
  "connects_after sa 0 s \<longleftrightarrow> fst (sa_Connect sa s) = None"
| "connects_after sa (Suc m) s \<longleftrightarrow> fst (sa_Connect sa s) \<noteq> None \<and> connects_after sa m (snd (sa_Connect sa s))"

lemma run_append: "stats_run sa platform (es @ es') r = Option.bind (stats_run sa platform es r) (stats_run sa platform es')"
  by (induction es arbitrary: r) (auto split: bind_splits)

definition waiting :: "'s StatsRPC \<Rightarrow> nat \<Rightarrow> nat \<Rightarrow> SystemStats \<Rightarrow> 's StatsConnection \<Rightarrow> bool" where
  "waiting r i n prev c \<longleftrightarrow> rpc_isConnected r \<and> i < length (rpc_watchers r) \<and> rpc_watchers r ! i = Selecting (rpc_done r) n prev \<and> rpc_statsConn r = Some c"

text \<open>One round that does not reconnect.\<close>

lemma run_round:
  assumes "waiting r i n prev c" "GetSystemStats sa platform c zero_system = Some (e, st, c')" "Heartbeat st \<le> Heartbeat prev \<Longrightarrow> n + 1 \<noteq> 5"
  shows "\<exists>r'. stats_run sa platform (round i) r = Some r' \<and> rpc_available r' = (rpc_available r \<and> e = None) \<and>
    waiting r' i (if Heartbeat st \<le> Heartbeat prev then n + 1 else 0) st c'"
  using assms by (auto simp: waiting_def round_def watcher_tick_def watcher_step_def watcher_read_def watcher_compare_def set_watcher_def)

lemma advancing_rounds:
  "waiting r i n prev c \<Longrightarrow> \<not> rpc_available r \<Longrightarrow> advancing sa platform k prev c \<Longrightarrow>
   \<exists>r' n' prev' c'. stats_run sa platform (concat (replicate k (round i))) r = Some r' \<and> \<not> rpc_available r' \<and> waiting r' i n' prev' c'"
proof (induction k arbitrary: r n prev c)
  case (Suc k)
  then obtain st c' where st: "GetSystemStats sa platform c zero_system = Some (None, st, c')" "Heartbeat prev < Heartbeat st" "advancing sa platform k st c'"
    by (auto split: option.splits prod.splits)
  then have "\<not> Heartbeat st \<le> Heartbeat prev" by simp
  with run_round [OF Suc.prems(1) st(1)] obtain r1 where "stats_run sa platform (round i) r = Some r1" "\<not> rpc_available r1" "waiting r1 i 0 st c'"
    using Suc.prems(2) by auto
  then show ?case using Suc.IH [of r1 0 st c'] st(3) by (simp add: run_append)
qed auto

text \<open>
  C33 (liveness). One failed read of the watcher turns the service off for good: as long as VPP lives, so
  that the reads that follow succeed and its heartbeat advances, every request is refused, although the
  connection works.
\<close>

theorem failed_read_disables:
  assumes "waiting r i n prev c" "n < 4" "GetSystemStats sa platform c zero_system = Some (Some e, st, c')"
    and "advancing sa platform k st c'"
  shows "\<exists>r' c'' n' prev'. stats_run sa platform (round i @ concat (replicate k (round i))) r = Some r' \<and> waiting r' i n' prev' c'' \<and>
    (\<forall>t resp. GetStats sa platform t resp r' = Some (Some (ErrMsg ''server does not support get stats at this time, try again later''), resp, r'))"
proof -
  from run_round [OF assms(1,3)] obtain r1 n1 where "stats_run sa platform (round i) r = Some r1" "\<not> rpc_available r1" "waiting r1 i n1 st c'"
    using assms(2) by (auto split: if_splits)
  moreover from this advancing_rounds [OF this(3,2) assms(4)] show ?thesis
    by (auto simp: run_append GetStats_def serviceAvailable_def)
qed

lemma stale_rounds:
  "waiting r i n prev c \<Longrightarrow> stale_reads sa platform (Suc k) prev c = Some c' \<Longrightarrow> n + Suc k = 5 \<Longrightarrow> stats_Disconnect sa c' = Some c'' \<Longrightarrow>
   \<exists>r' cur. stats_run sa platform (concat (replicate (Suc k) (round i))) r = Some r' \<and> i < length (rpc_watchers r') \<and>
     rpc_watchers r' ! i = Reconnecting cur \<and> rpc_statsConn r' = Some c''"
proof (induction k arbitrary: r n prev c)
  case 0
  then obtain e st where "GetSystemStats sa platform c zero_system = Some (e, st, c')" "Heartbeat st \<le> Heartbeat prev"
    by (auto split: option.splits prod.splits if_splits)
  then show ?case using 0
    by (auto simp: waiting_def round_def watcher_tick_def watcher_step_def watcher_read_def watcher_compare_def set_watcher_def)
next
  case (Suc k)
  then obtain e st c1 where st: "GetSystemStats sa platform c zero_system = Some (e, st, c1)" "Heartbeat st \<le> Heartbeat prev"
      "stale_reads sa platform (Suc k) st c1 = Some c'"
    by (cases "GetSystemStats sa platform c zero_system") (auto split: if_splits)
  from run_round [OF Suc.prems(1) st(1)] obtain r1 where "stats_run sa platform (round i) r = Some r1" "waiting r1 i (n + 1) st c1"
    using Suc.prems(3) st(2) by auto
  then show ?case using Suc.IH [of r1 "n + 1" st c1] st(3) Suc.prems(3,4) by (simp add: run_append)
qed

lemma run_reconnect:
  assumes "rpc_watchers r ! i = Reconnecting cur" "i < length (rpc_watchers r)" "connects_after sa m (stats_state r)"
  shows "\<exists>r' c'. stats_run sa platform (replicate (Suc m) (Watch i)) r = Some r' \<and> rpc_available r' \<and> rpc_statsConn r' = Some c' \<and>
    live c' \<and> rpc_watchers r' ! i = Selecting (rpc_done r') 0 cur"
  using assms
proof (induction m arbitrary: r)
  case 0
  then have "ConnectStats sa (stats_state r) = Inr ((newStatsConnection (stats_state r) DefaultMaxReconnectAttempts DefaultReconnectInterval)
      \<lparr>statsClient := snd (sa_Connect sa (stats_state r))\<rparr>)"
    by (auto simp: ConnectStats_def newStatsConnection_def Let_def split: prod.splits)
  then show ?case using 0 ConnectStats_live by (fastforce simp: watcher_step_def reconnect_stats_def set_watcher_def)
next
  case (Suc m)
  let ?s = "stats_state r"
  obtain e where "ConnectStats sa ?s = Inl e"
    using Suc.prems(3) by (cases "sa_Connect sa ?s") (auto simp: ConnectStats_def newStatsConnection_def Let_def)
  then have "stats_step sa platform (Watch i) r = Some (r\<lparr>rpc_statsConn := None, rpc_stats := snd (sa_Connect sa ?s)\<rparr>)" (is "_ = Some ?r")
    using Suc.prems(1,2) by (simp add: watcher_step_def reconnect_stats_def)
  moreover have "stats_state ?r = snd (sa_Connect sa ?s)" by (simp add: stats_state_def)
  ultimately show ?case using Suc.IH [of ?r] Suc.prems by simp
qed

text \<open>
  C34 (liveness). After five heartbeats in a row that do not advance, the watcher gives up the connection
  and tries to connect until it succeeds; then the service is available, on a new connection.
\<close>

theorem stale_reconnects:
  assumes "waiting r i 0 prev c" "stale_reads sa platform 5 prev c = Some c5" "stats_Disconnect sa c5 = Some c6"
    and "connects_after sa m (statsClient c6)"
  shows "\<exists>r' c'. stats_run sa platform (concat (replicate 5 (round i)) @ replicate (Suc m) (Watch i)) r = Some r' \<and>
    rpc_available r' \<and> rpc_statsConn r' = Some c' \<and> live c' \<and> (\<exists>st. rpc_watchers r' ! i = Selecting (rpc_done r') 0 st)"
proof -
  from stale_rounds [OF assms(1), of sa platform 4 c5 c6] assms(2,3) obtain r1 cur where
    r1: "stats_run sa platform (concat (replicate 5 (round i))) r = Some r1" "i < length (rpc_watchers r1)" "rpc_watchers r1 ! i = Reconnecting cur"
      "rpc_statsConn r1 = Some c6" by (auto simp del: stale_reads.simps stats_run.simps)
  from run_reconnect [OF r1(3,2), of sa m platform] assms(4) r1(4) show ?thesis
    by (auto simp: run_append r1(1) stats_state_def simp del: stats_run.simps replicate.simps)
qed


section \<open>Examples\<close>

text \<open>
  Stats that follow a script: whether attempts to connect fail, and the heartbeats (floats), where \<open>None\<close>
  is a failed read.
\<close>

definition beat_dir :: "float64 \<Rightarrow> StatDir" where
  "beat_dir f =
     \<lparr>sd_Epoch = 1, sd_Entries = [\<lparr>se_Index = 0, se_Name = ''/sys/heartbeat'', se_Type = ScalarIndex, se_Data = Some (ScalarStat f), se_Symlink = False\<rparr>]\<rparr>"

definition next_beat :: "bool list \<times> float64 option list \<Rightarrow> (gerr + StatDir) \<times> bool list \<times> float64 option list" where
  "next_beat s =
     (case s of
        (cs, Some f # fs) \<Rightarrow> (Inr (beat_dir f), cs, fs)
      | (cs, None # fs) \<Rightarrow> (Inl ErrStatsDisconnected, cs, fs)
      | (cs, []) \<Rightarrow> (Inr (beat_dir 0), cs, []))"

definition scripted :: "(bool list \<times> float64 option list) stats_api" where
  "scripted =
     \<lparr>sa_Connect = (\<lambda>s. case s of (True # cs, fs) \<Rightarrow> (Some (ErrMsg ''no socket''), cs, fs) | (False # cs, fs) \<Rightarrow> (None, cs, fs) | _ \<Rightarrow> (None, s)),
      sa_Disconnect = Pair None, sa_ListStats = (\<lambda>s _. (None, s)), sa_PrepareDir = (\<lambda>s _. next_beat s), sa_UpdateDir = (\<lambda>s _. next_beat s)\<rparr>"

definition one_beat :: SystemStats where "one_beat = zero_system\<lparr>Heartbeat := 1\<rparr>"

abbreviation (input) beats :: "float64 \<Rightarrow> u64" where "beats \<equiv> \<lambda>_. 0"

lemma updateStats_10: "updateStats sa patterns dir s =
    (case try_update sa patterns dir s of
       (None, dir', s') \<Rightarrow> (None, dir', s')
     | (Some e, dir', s') \<Rightarrow> if retryable e then updateStats_loop sa patterns 9 (Some e) dir' s' else (Some e, dir', s'))"
  unfolding updateStats_def RetryUpdateCount_def using updateStats_loop.simps(2) [of sa patterns 9 None dir s] by (simp add: eval_nat_numeral)

lemma read_script:
  "statsClient c = (cs, Some f # fs) \<Longrightarrow> GetSystemStats scripted beats c zero_system =
     Some (None, zero_system\<lparr>Heartbeat := float_to_u64 beats f\<rparr>, c\<lparr>sysStatsData := Some (beat_dir f), statsClient := (cs, fs)\<rparr>)"
  "statsClient c = (cs, None # fs) \<Longrightarrow> GetSystemStats scripted beats c zero_system =
     Some (Some ErrStatsDisconnected, zero_system, c\<lparr>sysStatsData := None, statsClient := (cs, fs)\<rparr>)"
  by (cases "sysStatsData c"; simp add: GetSystemStats_def updateStats_10 try_update_def retryable_def scripted_def next_beat_def
      dir_entries_def beat_dir_def system_entry_def scalar_u64_def Let_def)+

lemma floats:
  "float_to_u64 beats 0x3FF0000000000000 = 1" "float_to_u64 beats 0x4000000000000000 = 2" "float_to_u64 beats 0x4008000000000000 = 3"
  by code_simp+

text \<open>A server that has read its first heartbeat, 1.\<close>

definition started :: "bool list \<Rightarrow> float64 option list \<Rightarrow> (bool list \<times> float64 option list) StatsRPC option" where
  "started cs fs = stats_run scripted beats [ConnectStatsCall, Watch 0, Watch 0] (newStatsRPC (False # cs, Some 0x3FF0000000000000 # fs))"

lemma started_ok:
  "\<exists>r c. started cs fs = Some r \<and> rpc_available r \<and> rpc_pending r = [] \<and> waiting r 0 0 one_beat c \<and> statsClient c = (cs, fs) \<and> live c"
proof -
  let ?c = "(newStatsConnection (False # cs, Some 0x3FF0000000000000 # fs) DefaultMaxReconnectAttempts DefaultReconnectInterval)
      \<lparr>statsClient := (cs, Some 0x3FF0000000000000 # fs)\<rparr>"
  have c: "ConnectStats scripted (False # cs, Some 0x3FF0000000000000 # fs) = Inr ?c"
    by (simp add: ConnectStats_def newStatsConnection_def scripted_def Let_def)
  have "live ?c" by (simp add: live_def newStatsConnection_def)
  then show ?thesis using read_script(1) [of ?c cs "0x3FF0000000000000" fs] c
    by (auto simp: started_def StatsRPC_connect_def newStatsRPC_def stats_state_def reconnect_stats_def watcher_step_def set_watcher_def
        watcher_read_def waiting_def one_beat_def floats live_def)
qed

lemma proxied_stats_witness:
  "\<exists>r c. started [] [Some 0x4000000000000000] = Some r \<and> rpc_available r \<and> rpc_statsConn r = Some c \<and>
    client_GetSystemStats scripted beats (\<lambda>_. ''busy'') r one_beat = map_option (delivered (\<lambda>_. ''busy'') one_beat r) (GetSystemStats scripted beats c zero_system) \<and>
    map_option (\<lambda>(e, st, c'). (e, Heartbeat st)) (GetSystemStats scripted beats c zero_system) = Some (None, 2)"
proof -
  obtain r c where r: "started [] [Some 0x4000000000000000] = Some r" "rpc_available r" "waiting r 0 0 one_beat c" "statsClient c = ([], [Some 0x4000000000000000])"
    using started_ok by blast
  then have "rpc_statsConn r = Some c" by (simp add: waiting_def)
  then show ?thesis using r proxied_stats [OF r(2), of c scripted beats "\<lambda>_. ''busy''" one_beat] by (simp add: read_script floats)
qed

lemma available_means_connected_witness:
  "\<exists>r c. started [] [] = Some r \<and> rpc_statsConn r = Some c \<and> stats_Disconnect scripted c \<noteq> None \<and>
    GetStats scripted beats ''node'' no_response r =
      map_option (\<lambda>(e, resp, c'). (e, resp, r\<lparr>rpc_statsConn := Some c'\<rparr>)) (answer scripted beats ''node'' no_response c)"
proof -
  obtain r where r: "started [] [] = Some r" "rpc_available r" using started_ok by blast
  show ?thesis using available_means_connected [OF r(1) [unfolded started_def] _ r(2)] r(1) by (auto simp: stats_types_def)
qed

lemma gives_up:
  "\<exists>r c5 c6. started cs (replicate 5 (Some 0x3FF0000000000000)) = Some r \<and> (\<exists>c. waiting r 0 0 one_beat c \<and> stale_reads scripted beats 5 one_beat c = Some c5) \<and>
    stats_Disconnect scripted c5 = Some c6 \<and> statsClient c6 = (cs, [])"
proof -
  obtain r c where r: "started cs (replicate 5 (Some 0x3FF0000000000000)) = Some r" "waiting r 0 0 one_beat c"
      "statsClient c = (cs, replicate 5 (Some 0x3FF0000000000000))" "live c"
    using started_ok by blast
  let ?c5 = "c\<lparr>sysStatsData := Some (beat_dir 0x3FF0000000000000), statsClient := (cs, [])\<rparr>"
  have "stale_reads scripted beats 5 one_beat c = Some ?c5"
    using r(3) by (simp add: eval_nat_numeral read_script floats [simplified] one_beat_def)
  moreover have "\<exists>c6. stats_Disconnect scripted ?c5 = Some c6 \<and> statsClient c6 = (cs, [])"
    using r(4) by (simp add: stats_Disconnect_def scripted_def live_def Let_def)
  ultimately show ?thesis using r(1,2) by blast
qed

lemma stale_reconnects_witness:
  "\<exists>r r' c'. started [True, True, False] (replicate 5 (Some 0x3FF0000000000000)) = Some r \<and>
    stats_run scripted beats (concat (replicate 5 (round 0)) @ replicate 3 (Watch 0)) r = Some r' \<and>
    rpc_available r' \<and> rpc_statsConn r' = Some c' \<and> live c' \<and> (\<exists>st. rpc_watchers r' ! 0 = Selecting (rpc_done r') 0 st)"
proof -
  obtain r c c5 c6 where r: "started [True, True, False] (replicate 5 (Some 0x3FF0000000000000)) = Some r" "waiting r 0 0 one_beat c"
      "stale_reads scripted beats 5 one_beat c = Some c5" "stats_Disconnect scripted c5 = Some c6" "statsClient c6 = ([True, True, False], [])"
    using gives_up by blast
  have "connects_after scripted 2 (statsClient c6)" by (simp add: r(5) scripted_def eval_nat_numeral)
  from stale_reconnects [OF r(2-4) this] r(1) show ?thesis by (simp add: eval_nat_numeral del: stats_run.simps)
qed

lemma disconnect_while_reconnecting_witness:
  "\<exists>r. stats_run scripted beats ([ConnectStatsCall, Watch 0, Watch 0] @ concat (replicate 5 (round 0)))
      (newStatsRPC ([False, True], replicate 6 (Some 0x3FF0000000000000))) = Some r \<and> rpc_isConnected r \<and> StatsRPC_disconnect scripted r = None"
proof -
  let ?s = "newStatsRPC ([False, True], replicate 6 (Some (0x3FF0000000000000 :: float64)))"
  obtain r c c5 c6 where r: "started [True] (replicate 5 (Some 0x3FF0000000000000)) = Some r" "waiting r 0 0 one_beat c"
      "stale_reads scripted beats 5 one_beat c = Some c5" "stats_Disconnect scripted c5 = Some c6"
    using gives_up by blast
  from stale_rounds [OF r(2), of scripted beats 4 c5 c6] r(3,4) obtain r' cur where
    r': "stats_run scripted beats (concat (replicate 5 (round 0))) r = Some r'" "0 < length (rpc_watchers r')" "rpc_watchers r' ! 0 = Reconnecting cur"
    by (auto simp del: stale_reads.simps stats_run.simps)
  have run: "stats_run scripted beats ([ConnectStatsCall, Watch 0, Watch 0] @ concat (replicate 5 (round 0))) ?s = Some r'"
    using r(1) r'(1) unfolding started_def run_append by (simp add: eval_nat_numeral del: stats_run.simps)
  have "DisconnectStatsCall \<notin> set ([ConnectStatsCall, Watch 0, Watch 0] @ concat (replicate 5 (round 0)))" by (simp add: round_def)
  from stats_inv_run [OF stats_inv_new this run] r'(2,3) have conn: "rpc_isConnected r'" "rpc_watchers r' = [Reconnecting cur]"
    by (auto simp: stats_inv_def split: if_splits)
  have "StatsRPC_disconnect scripted r' = None"
    using disconnect_while_reconnecting [OF run _ conn(1)] conn(2) by (simp add: round_def)
  with run conn(1) show ?thesis by blast
qed

lemma disconnect_leaves_available_witness:
  "\<exists>r. started [] [] = Some r \<and> stats_run scripted beats [DisconnectStatsCall, DoneSeen 0, Request ''system'', Handle] r = None \<and>
    (\<exists>r'. stats_run scripted beats [DisconnectStatsCall, Tick 0, Request ''system'', Handle] r = Some r' \<and> \<not> rpc_available r')"
proof -
  obtain r c where r: "started [] [] = Some r" "rpc_available r" "rpc_pending r = []" "waiting r 0 0 one_beat c" "live c"
    using started_ok by blast
  obtain c' where "stats_Disconnect scripted c = Some c'" using r(5) by (simp add: stats_Disconnect_def scripted_def live_def Let_def)
  then show ?thesis using disconnect_leaves_available [of r c scripted c' 0 0 one_beat "''system''" beats] r by (simp add: waiting_def stats_types_def)
qed

lemma failed_read_disables_witness:
  "\<exists>r r' c' n' prev'. started [] [None, Some 0x3FF0000000000000, Some 0x4000000000000000, Some 0x4008000000000000] = Some r \<and>
    stats_run scripted beats (round 0 @ concat (replicate 3 (round 0))) r = Some r' \<and> waiting r' 0 n' prev' c' \<and>
    GetStats scripted beats ''system'' no_response r' =
      Some (Some (ErrMsg ''server does not support get stats at this time, try again later''), no_response, r')"
proof -
  let ?fs = "[Some 0x3FF0000000000000, Some 0x4000000000000000, Some (0x4008000000000000 :: float64)]"
  obtain r c where r: "started [] (None # ?fs) = Some r" "waiting r 0 0 one_beat c" "statsClient c = ([], None # ?fs)"
    using started_ok by blast
  have zero: "Heartbeat zero_system = 0" by (simp add: zero_system_def)
  have adv: "advancing scripted beats 3 zero_system (c\<lparr>sysStatsData := None, statsClient := ([], ?fs)\<rparr>)"
    by (simp add: numeral_3_eq_3 read_script floats [simplified] zero)
  from failed_read_disables [OF r(2) _ read_script(2) [OF r(3)] adv] r(1) show ?thesis by (simp del: stats_run.simps) blast
qed

end
