(* ===== verification/ProxyBinapi.thy ===== *)
theory ProxyBinapi
  imports CoreStream
begin

text \<open>
  The binary-API part of the proxy (\<open>proxy/server.go\<close>, \<open>proxy/client.go\<close>): a server that keeps an
  asynchronous connection to VPP, follows its events, and serves requests, streams and compatibility
  checks over \<open>net/rpc\<close>; and the client with the interfaces of the core. Messages travel inside of
  calls unchanged, errors as their text. A stream belongs to the connection it was made on, which a
  later reconnection replaces for new streams only, so the server has all connections there were.
\<close>

section \<open>The server\<close>

record ('m, 'a) BinapiRPC =
  bp_conns :: "('m, 'a) Connection list"
  bp_conn :: "nat option"
  bp_maxStreamID :: u32
  bp_streams :: "(u32 \<rightharpoonup> nat \<times> Stream) option"
  bp_available :: bool
  bp_isConnected :: bool
  bp_watching :: bool

definition newBinapiRPC :: "('m, 'a) BinapiRPC" where
  "newBinapiRPC =
     \<lparr>bp_conns = [], bp_conn = None, bp_maxStreamID = 0, bp_streams = None, bp_available = False, bp_isConnected = False, bp_watching = False\<rparr>"

text \<open>
  \<open>core.AsyncConnect\<close> makes the connection and returns it, always with a nil error; its background loop is a
  matter of the connection.
\<close>

definition AsyncConnect :: "'m \<Rightarrow> 'm \<Rightarrow> 'a \<Rightarrow> int \<Rightarrow> int \<Rightarrow> ('m, 'a) Connection" where
  "AsyncConnect ping pingReply binapi attempts interval =
     (newConnection ping pingReply binapi attempts interval True)\<lparr>backgroundLoopActive := True\<rparr>"

definition add_conn :: "('m, 'a) Connection \<Rightarrow> ('m, 'a) BinapiRPC \<Rightarrow> ('m, 'a) BinapiRPC" where
  "add_conn c r = r\<lparr>bp_conns := bp_conns r @ [c], bp_conn := Some (length (bp_conns r))\<rparr>"

definition set_conn :: "nat \<Rightarrow> ('m, 'a) Connection \<Rightarrow> ('m, 'a) BinapiRPC \<Rightarrow> ('m, 'a) BinapiRPC" where
  "set_conn k c r = r\<lparr>bp_conns := (bp_conns r)[k := c]\<rparr>"

text \<open>The connection of the server, if there is one.\<close>

definition conn_of :: "('m, 'a) BinapiRPC \<Rightarrow> ('m, 'a) Connection option" where
  "conn_of r = map_option (\<lambda>k. bp_conns r ! k) (bp_conn r)"

definition BinapiRPC_connect :: "'m \<Rightarrow> 'm \<Rightarrow> 'a \<Rightarrow> ('m, 'a) BinapiRPC \<Rightarrow> gerr option \<times> ('m, 'a) BinapiRPC" where
  "BinapiRPC_connect ping pingReply binapi r =
     (if bp_isConnected r then (Some (ErrMsg ''connection already exists''), r)
      else (None, add_conn (AsyncConnect ping pingReply binapi 3 1000000000) r\<lparr>bp_isConnected := True, bp_watching := True\<rparr>))"

text \<open>\<open>Disconnect\<close> of a nil connection does nothing.\<close>

definition disconnect_current :: "'a vpp_api \<Rightarrow> ('m, 'a) BinapiRPC \<Rightarrow> ('m, 'a) BinapiRPC" where
  "disconnect_current api r = (case bp_conn r of None \<Rightarrow> r | Some k \<Rightarrow> set_conn k (Disconnect api (bp_conns r ! k)) r)"

definition BinapiRPC_disconnect :: "'a vpp_api \<Rightarrow> ('m, 'a) BinapiRPC \<Rightarrow> ('m, 'a) BinapiRPC" where
  "BinapiRPC_disconnect api r =
     (if bp_isConnected r then disconnect_current api (r\<lparr>bp_isConnected := False\<rparr>)\<lparr>bp_conn := None\<rparr> else r)"

text \<open>
  The watcher takes an event of the connection; \<open>watch_done\<close> is its end through the \<open>done\<close> channel, which
  leaves the availability as it is. A reconnection goes on with the adapter of the last connection.
\<close>

definition bp_event :: "'a vpp_api \<Rightarrow> 'm \<Rightarrow> 'm \<Rightarrow> ConnectionState \<Rightarrow> ('m, 'a) BinapiRPC \<Rightarrow> ('m, 'a) BinapiRPC" where
  "bp_event api ping pingReply st r =
     (if \<not> bp_watching r then r
      else if \<not> bp_isConnected r then r\<lparr>bp_available := False, bp_watching := False\<rparr>
      else case st of
        Connected \<Rightarrow> r\<lparr>bp_available := True\<rparr>
      | Disconnected \<Rightarrow> r\<lparr>bp_available := False\<rparr>
      | Failed \<Rightarrow>
          (let r1 = disconnect_current api (r\<lparr>bp_available := False\<rparr>) in
           case conn_of r1 of None \<Rightarrow> r1
           | Some c \<Rightarrow> add_conn (AsyncConnect ping pingReply (vppClient c) 3 5000000000) r1)
      | NotResponding \<Rightarrow> r)"

definition bp_watch_done :: "('m, 'a) BinapiRPC \<Rightarrow> ('m, 'a) BinapiRPC" where
  "bp_watch_done r = (if bp_watching r \<and> \<not> bp_isConnected r then r\<lparr>bp_watching := False\<rparr> else r)"

section \<open>Streams\<close>

definition unavailable :: gerr where
  "unavailable = ErrMsg ''server does not support RPC calls at this time, try again later''"

text \<open>
  \<open>NewAPIStream\<close> in its three parts: making the stream and looking whether there is a map of streams;
  making the map if there was none; and adding the stream to it, the only part that holds the lock.
\<close>

definition NewAPIStream_open ::
  "nat option \<Rightarrow> ('m, 'a) BinapiRPC \<Rightarrow> (gerr + (nat \<times> Stream) \<times> bool) \<times> ('m, 'a) BinapiRPC" where
  "NewAPIStream_open pick r =
     (if \<not> bp_available r then (Inl unavailable, r)
      else case bp_conn r of
        None \<Rightarrow> (Inl (ErrMsg ''nil connection passed in''), r)
      | Some k \<Rightarrow>
          (case NewStream pick [] (Some (bp_conns r ! k)) of
             (Inl e, Some c) \<Rightarrow> (Inl e, set_conn k c r)
           | (Inr s, Some c) \<Rightarrow> (Inr ((k, s), bp_streams r = None), set_conn k c r)
           | (_, None) \<Rightarrow> (Inl (ErrMsg ''nil connection passed in''), r)))"

definition NewAPIStream_make :: "bool \<Rightarrow> ('m, 'a) BinapiRPC \<Rightarrow> ('m, 'a) BinapiRPC" where
  "NewAPIStream_make was_nil r = (if was_nil then r\<lparr>bp_streams := Some Map.empty\<rparr> else r)"

definition NewAPIStream_add :: "nat \<times> Stream \<Rightarrow> ('m, 'a) BinapiRPC \<Rightarrow> u32 \<times> ('m, 'a) BinapiRPC" where
  "NewAPIStream_add s r =
     (let i = bp_maxStreamID r + 1 in
      (i, r\<lparr>bp_maxStreamID := i, bp_streams := map_option (\<lambda>m. m(i \<mapsto> s)) (bp_streams r)\<rparr>))"

definition NewAPIStream :: "nat option \<Rightarrow> ('m, 'a) BinapiRPC \<Rightarrow> (gerr + u32) \<times> ('m, 'a) BinapiRPC" where
  "NewAPIStream pick r =
     (case NewAPIStream_open pick r of
        (Inl e, r) \<Rightarrow> (Inl e, r)
      | (Inr (s, was_nil), r) \<Rightarrow> (case NewAPIStream_add s (NewAPIStream_make was_nil r) of (i, r) \<Rightarrow> (Inr i, r)))"

definition delete_stream :: "u32 \<Rightarrow> ('m, 'a) BinapiRPC \<Rightarrow> ('m, 'a) BinapiRPC" where
  "delete_stream i r = r\<lparr>bp_streams := map_option (\<lambda>m. m(i := None)) (bp_streams r)\<rparr>"

definition getStream :: "u32 \<Rightarrow> ('m, 'a) BinapiRPC \<Rightarrow> (gerr + nat \<times> Stream) \<times> ('m, 'a) BinapiRPC" where
  "getStream i r =
     (case Option.bind (bp_streams r) (\<lambda>m. m i) of
        None \<Rightarrow> (Inl (ErrMsg ''BinapiRPC stream closed''), delete_stream i r)
      | Some s \<Rightarrow> (Inr s, r))"

text \<open>A stream that changed, where the map still has it.\<close>

definition put_stream :: "u32 \<Rightarrow> nat \<times> Stream \<Rightarrow> ('m, 'a) BinapiRPC \<Rightarrow> ('m, 'a) BinapiRPC" where
  "put_stream i s r = r\<lparr>bp_streams := map_option (\<lambda>m. m(i := map_option (\<lambda>_. s) (m i))) (bp_streams r)\<rparr>"

definition SendMessage ::
  "'m msg_iface \<Rightarrow> 'a vpp_api \<Rightarrow> int \<Rightarrow> u32 \<Rightarrow> 'm \<Rightarrow> ('m, 'a) BinapiRPC \<Rightarrow> gerr option \<times> ('m, 'a) BinapiRPC" where
  "SendMessage mi api now i msg r =
     (if \<not> bp_available r then (Some unavailable, r)
      else case getStream i r of
        (Inl e, r) \<Rightarrow> (Some e, r)
      | (Inr (k, s), r) \<Rightarrow>
          (case Stream_SendMsg mi api now msg s (bp_conns r ! k) of (err, s, c) \<Rightarrow> (err, put_stream i (k, s) (set_conn k c r))))"

text \<open>\<open>None\<close>: the call blocks.\<close>

definition ReceiveMessage ::
  "'m msg_iface \<Rightarrow> recv_choice \<Rightarrow> u32 \<Rightarrow> ('m, 'a) BinapiRPC \<Rightarrow> ((gerr + 'm) \<times> ('m, 'a) BinapiRPC) option" where
  "ReceiveMessage mi choice i r =
     (if \<not> bp_available r then Some (Inl unavailable, r)
      else case getStream i r of
        (Inl e, r) \<Rightarrow> Some (Inl e, r)
      | (Inr (k, s), r) \<Rightarrow> map_option (\<lambda>(res, c). (res, set_conn k c r)) (Stream_RecvMsg mi choice s (bp_conns r ! k)))"

definition CloseStream :: "u32 \<Rightarrow> ('m, 'a) BinapiRPC \<Rightarrow> gerr option \<times> ('m, 'a) BinapiRPC" where
  "CloseStream i r =
     (if \<not> bp_available r then (Some unavailable, r)
      else case getStream i r of
        (Inl e, r) \<Rightarrow> (Some e, r)
      | (Inr (k, s), r) \<Rightarrow>
          (case Stream_Close s (bp_conns r ! k) of (err, s, c) \<Rightarrow> (err, set_conn k c (delete_stream i r))))"

section \<open>Requests\<close>

text \<open>
  \<open>Invoke\<close> on a channel of its own. Between sending and receiving, \<open>env\<close> is what the watcher of the channel and
  the callback do to the connection; \<open>evs\<close> is what the channel receives after that, replies in its buffer
  first. A request that cannot be written to the channel blocks, and so does a list of events that ends
  too early. The loop over the replies of a multipart request takes one event in each round, or the
  reply that was delayed by the round before, so there are at most two rounds more than events.
\<close>

fun collect_replies ::
  "'m msg_iface \<Rightarrow> 'm msgIdentifier \<Rightarrow> u16 \<Rightarrow> 'm \<Rightarrow> nat \<Rightarrow> 'm Channel \<Rightarrow> recv_event list \<Rightarrow> ((gerr option \<times> 'm list) \<times> 'm Channel) option" where
  "collect_replies mi mid n t 0 ch evs = None"
| "collect_replies mi mid n t (Suc k) ch evs =
     (case multiRequestCtx_ReceiveReply mi mid (Some (ch, n)) (Some t) evs of
        Some ((l, None, Some m), Some ch, evs) \<Rightarrow>
          if l then Some ((None, []), ch)
          else map_option (\<lambda>((err, ms), ch). ((err, if err = None then m # ms else []), ch)) (collect_replies mi mid n t k ch evs)
      | Some ((_, Some err, _), Some ch, _) \<Rightarrow> Some ((Some err, []), ch)
      | _ \<Rightarrow> None)"

definition invoke_channel ::
  "'m msg_iface \<Rightarrow> 'm msgIdentifier \<Rightarrow> (('m, 'a) Connection \<Rightarrow> ('m, 'a) Connection) \<Rightarrow> recv_event list \<Rightarrow> ref \<Rightarrow>
     'm \<Rightarrow> bool \<Rightarrow> 'm \<Rightarrow> ('m, 'a) Connection \<Rightarrow> ((gerr option \<times> 'm list) \<times> ('m, 'a) Connection) option" where
  "invoke_channel mi mid env evs q msg isMulti reply c =
     do { ch \<leftarrow> chan_store c q;
          (case sendReq ch msg isMulti of
             (ReqSent, n, ch) \<Rightarrow>
               (let c = env (c\<lparr>chan_store := (chan_store c)(q \<mapsto> ch)\<rparr>) in
                do { ch \<leftarrow> chan_store c q;
                     (res, ch) \<leftarrow>
                       (if isMulti then collect_replies mi mid n (msg_New mi reply) (length evs + 2) ch evs
                        else (case requestCtx_ReceiveReply mi mid (Some (ch, n)) (Some (msg_New mi reply)) evs of
                                Some (err, Some m, Some ch, _) \<Rightarrow> Some ((err, if err = None then [m] else []), ch)
                              | _ \<Rightarrow> None));
                     Some (res, c\<lparr>chan_store := (chan_store c)(q \<mapsto> ch)\<rparr>) })
           | _ \<Rightarrow> None) }"

text \<open>The channel is closed however \<open>Invoke\<close> returns.\<close>

definition close_channel :: "ref \<Rightarrow> ('m, 'a) Connection \<Rightarrow> ('m, 'a) Connection option" where
  "close_channel q c = do { ch \<leftarrow> chan_store c q; ch \<leftarrow> Channel_Close ch; Some (c\<lparr>chan_store := (chan_store c)(q \<mapsto> ch)\<rparr>) }"

definition BinapiRPC_Invoke ::
  "'m msg_iface \<Rightarrow> 'm msgIdentifier \<Rightarrow> nat option \<Rightarrow> (('m, 'a) Connection \<Rightarrow> ('m, 'a) Connection) \<Rightarrow> recv_event list \<Rightarrow> int \<Rightarrow>
     'm \<Rightarrow> bool \<Rightarrow> 'm \<Rightarrow> ('m, 'a) BinapiRPC \<Rightarrow> ((gerr option \<times> 'm list) \<times> ('m, 'a) BinapiRPC) option" where
  "BinapiRPC_Invoke mi mid pick env evs timeout msg isMulti reply r =
     (if \<not> bp_available r then Some ((Some unavailable, []), r)
      else case bp_conn r of
        None \<Rightarrow> Some ((Some (ErrMsg ''nil connection passed in''), []), r)
      | Some k \<Rightarrow>
          (case newChannel pick RequestChanBufSize ReplyChanBufSize (bp_conns r ! k) of
             (Inl e, c) \<Rightarrow> Some ((Some e, []), set_conn k c r)
           | (Inr q, c) \<Rightarrow>
               do { (res, c) \<leftarrow> invoke_channel mi mid env evs q msg isMulti reply
                      (c\<lparr>chan_store := (chan_store c)(q := map_option (SetReplyTimeout timeout) (chan_store c q))\<rparr>);
                    c \<leftarrow> close_channel q c;
                    Some (res, set_conn k c r) }))"

section \<open>Compatibility\<close>

text \<open>
  The messages registered under each path, by name and checksum, and the lists of the requested names
  that are compatible and incompatible there. A channel checks one message by looking for its id.
\<close>

definition compatible_at :: "'m msgIdentifier \<Rightarrow> (string \<rightharpoonup> 'm) \<Rightarrow> 'm msg_iface \<Rightarrow> string \<Rightarrow> bool" where
  "compatible_at mid messages mi name =
     (case messages name of None \<Rightarrow> False | Some m \<Rightarrow> CheckCompatiblity mi mid [m] = None)"

definition Compatibility ::
  "'m msg_iface \<Rightarrow> 'm msgIdentifier \<Rightarrow> (string \<times> (string \<rightharpoonup> 'm)) list \<Rightarrow> nat option \<Rightarrow> string list \<Rightarrow> ('m, 'a) BinapiRPC \<Rightarrow>
     ((gerr option \<times> (string \<times> string list) list \<times> (string \<times> string list) list) \<times> ('m, 'a) BinapiRPC) option" where
  "Compatibility mi mid regs pick names r =
     (if \<not> bp_available r then Some ((Some unavailable, [], []), r)
      else case bp_conn r of
        None \<Rightarrow> Some ((Some (ErrMsg ''nil connection passed in''), [], []), r)
      | Some k \<Rightarrow>
          (case newChannel pick RequestChanBufSize ReplyChanBufSize (bp_conns r ! k) of
             (Inl e, c) \<Rightarrow> Some ((Some e, [], []), set_conn k c r)
           | (Inr q, c) \<Rightarrow>
               (let good = map (\<lambda>(path, messages). (path, filter (compatible_at mid messages mi) names)) regs;
                    bad = map (\<lambda>(path, messages). (path, filter (\<lambda>n. \<not> compatible_at mid messages mi n) names)) regs;
                    err = (if list_ex (\<lambda>(path, ns). ns = []) bad then None else Some (ErrMsg ''compatibility check failed'')) in
                map_option (\<lambda>c. ((err, good, bad), set_conn k c r)) (close_channel q c))))"

section \<open>The client\<close>

text \<open>\<open>etext\<close> gives the text of an error, which is all that comes back of it.\<close>

definition rpc_failed :: "(gerr \<Rightarrow> string) \<Rightarrow> string \<Rightarrow> gerr \<Rightarrow> gerr" where
  "rpc_failed etext what e = ErrMsg (what @ etext e)"

definition client_NewStream :: "(gerr \<Rightarrow> string) \<Rightarrow> nat option \<Rightarrow> ('m, 'a) BinapiRPC \<Rightarrow> (gerr + u32) \<times> ('m, 'a) BinapiRPC" where
  "client_NewStream etext pick r =
     (case NewAPIStream pick r of (Inl e, r) \<Rightarrow> (Inl (rpc_failed etext ''RPC NewAPIStream call failed: '' e), r) | (Inr i, r) \<Rightarrow> (Inr i, r))"

definition RPCStream_SendMsg ::
  "(gerr \<Rightarrow> string) \<Rightarrow> 'm msg_iface \<Rightarrow> 'a vpp_api \<Rightarrow> int \<Rightarrow> u32 \<Rightarrow> 'm \<Rightarrow> ('m, 'a) BinapiRPC \<Rightarrow> gerr option \<times> ('m, 'a) BinapiRPC" where
  "RPCStream_SendMsg etext mi api now i msg r =
     (case SendMessage mi api now i msg r of (err, r) \<Rightarrow> (map_option (rpc_failed etext ''RPC SendMessage call failed: '') err, r))"

definition RPCStream_RecvMsg ::
  "(gerr \<Rightarrow> string) \<Rightarrow> 'm msg_iface \<Rightarrow> recv_choice \<Rightarrow> u32 \<Rightarrow> ('m, 'a) BinapiRPC \<Rightarrow> ((gerr + 'm) \<times> ('m, 'a) BinapiRPC) option" where
  "RPCStream_RecvMsg etext mi choice i r =
     map_option (\<lambda>(res, r). (case res of Inl e \<Rightarrow> Inl (rpc_failed etext ''RPC ReceiveMessage call failed: '' e) | Inr m \<Rightarrow> Inr m, r))
       (ReceiveMessage mi choice i r)"

definition RPCStream_Close :: "(gerr \<Rightarrow> string) \<Rightarrow> u32 \<Rightarrow> ('m, 'a) BinapiRPC \<Rightarrow> gerr option \<times> ('m, 'a) BinapiRPC" where
  "RPCStream_Close etext i r = (case CloseStream i r of (err, r) \<Rightarrow> (map_option (rpc_failed etext ''RPC CloseStream call failed: '') err, r))"

text \<open>
  A call of \<open>BinapiRPC.Invoke\<close> on a server in some state: \<open>invoke msg isMulti reply\<close>, for any server. The
  client's request context holds the request and, for several replies, what was read so far.
\<close>

definition invokeInternal ::
  "(gerr \<Rightarrow> string) \<Rightarrow> ('m \<Rightarrow> bool \<Rightarrow> 'm \<Rightarrow> 'r \<Rightarrow> ((gerr option \<times> 'm list) \<times> 'r) option) \<Rightarrow> 'm \<Rightarrow> 'm \<Rightarrow> 'r \<Rightarrow> ((gerr option \<times> 'm) \<times> 'r) option" where
  "invokeInternal etext invoke msg reply r =
     (case invoke msg False reply r of
        None \<Rightarrow> None
      | Some ((Some e, _), r) \<Rightarrow> Some ((Some (rpc_failed etext ''RPC call failed: '' e), reply), r)
      | Some ((None, m # _), r) \<Rightarrow> Some ((None, m), r)
      | Some ((None, []), r) \<Rightarrow> None)"

record 'm multi_ctx =
  mx_req :: 'm
  mx_index :: nat
  mx_replies :: "'m list"

definition client_SendMultiRequest :: "'m \<Rightarrow> 'm multi_ctx" where
  "client_SendMultiRequest msg = \<lparr>mx_req = msg, mx_index = 0, mx_replies = []\<rparr>"

definition client_multi_ReceiveReply ::
  "(gerr \<Rightarrow> string) \<Rightarrow> ('m \<Rightarrow> bool \<Rightarrow> 'm \<Rightarrow> 'r \<Rightarrow> ((gerr option \<times> 'm list) \<times> 'r) option) \<Rightarrow> 'm multi_ctx \<Rightarrow> 'm \<Rightarrow> 'r \<Rightarrow>
     ((bool \<times> gerr option \<times> 'm) \<times> 'm multi_ctx \<times> 'r) option" where
  "client_multi_ReceiveReply etext invoke x msg r =
     do { (err, x, r) \<leftarrow>
            (if mx_index x = 0 then
               map_option (\<lambda>((err, ms), r). (err, if err = None then x\<lparr>mx_replies := ms\<rparr> else x, r)) (invoke (mx_req x) True msg r)
             else Some (None, x, r));
          Some (case err of
              Some e \<Rightarrow> ((False, Some (rpc_failed etext ''RPC call failed: '' e), msg), x, r)
            | None \<Rightarrow>
                if mx_index x \<ge> length (mx_replies x) then ((True, None, msg), x, r)
                else ((False, None, mx_replies x ! mx_index x), x\<lparr>mx_index := mx_index x + 1\<rparr>, r)) }"

definition client_CheckCompatiblity ::
  "(gerr \<Rightarrow> string) \<Rightarrow> 'm msg_iface \<Rightarrow> 'm msgIdentifier \<Rightarrow> (string \<times> (string \<rightharpoonup> 'm)) list \<Rightarrow> nat option \<Rightarrow> 'm list \<Rightarrow> ('m, 'a) BinapiRPC \<Rightarrow>
     (gerr option \<times> ('m, 'a) BinapiRPC) option" where
  "client_CheckCompatiblity etext mi mid regs pick msgs r =
     map_option (\<lambda>((err, _, _), r). (map_option (\<lambda>e. ErrMsg (etext e)) err, r))
       (Compatibility mi mid regs pick (map (getMsgNameWithCrc mi) msgs) r)"

end
