(* ===== verification/ProxyBinapiProps.thy ===== *)
theory ProxyBinapiProps
  imports ProxyBinapi
begin

text \<open>
  What the binary-API part of the proxy guarantees: the streams in its table stay apart whatever happens to
  the connections; replies come back in order; compatibility. And what it does not: two first streams
  opened at the same time, and multipart requests without replies.
\<close>

section \<open>The table of streams\<close>

definition entry_ok :: "('m, 'a) Connection list \<Rightarrow> nat \<times> Stream \<Rightarrow> bool" where
  "entry_ok cs e \<longleftrightarrow> (case e of (k, s) \<Rightarrow> k < length cs \<and> st_open s \<and> (\<exists>j. channels (cs ! k) j = Some (st_channel s)))"

definition key :: "nat \<times> Stream \<Rightarrow> nat \<times> ref" where
  "key e = (case e of (k, s) \<Rightarrow> (k, st_channel s))"

definition table_ok :: "('m, 'a) Connection list \<Rightarrow> u32 \<Rightarrow> (u32 \<rightharpoonup> nat \<times> Stream) \<Rightarrow> bool" where
  "table_ok cs n m \<longleftrightarrow>
     (\<forall>i e. m i = Some e \<longrightarrow> 0 < i \<and> i \<le> n \<and> entry_ok cs e) \<and>
     (\<forall>i j e e'. m i = Some e \<longrightarrow> m j = Some e' \<longrightarrow> key e = key e' \<longrightarrow> i = j)"

definition bp_inv :: "('m, 'a) BinapiRPC \<Rightarrow> bool" where
  "bp_inv r \<longleftrightarrow> list_all conn_inv (bp_conns r) \<and> (\<forall>k. bp_conn r = Some k \<longrightarrow> k < length (bp_conns r)) \<and>
     (\<forall>m. bp_streams r = Some m \<longrightarrow> table_ok (bp_conns r) (bp_maxStreamID r) m)"

text \<open>
  What can happen to a server: its own calls and events, which run one after the other here, until
  \<open>2 ^ 32 - 1\<close> streams were opened (the code starts again with the first ids then). \<open>other\<close> is any step of a
  connection that leaves the channels of the streams alone: requests and replies, other channels, the callback.
\<close>

inductive bp_call :: "'m msg_iface \<Rightarrow> 'a vpp_api \<Rightarrow> ('m, 'a) BinapiRPC \<Rightarrow> ('m, 'a) BinapiRPC \<Rightarrow> bool" for mi api where
  bp_connect: "bp_call mi api r (snd (BinapiRPC_connect ping pingReply a r))"
| bp_disconnect: "bp_call mi api r (BinapiRPC_disconnect api r)"
| bp_event: "bp_call mi api r (bp_event api ping pingReply st r)"
| bp_done: "bp_call mi api r (bp_watch_done r)"
| bp_new: "bp_maxStreamID r < - 1 \<Longrightarrow> bp_call mi api r (snd (NewAPIStream pick r))"
| bp_send: "bp_call mi api r (snd (SendMessage mi api now i m r))"
| bp_receive: "ReceiveMessage mi choice i r = Some (res, r') \<Longrightarrow> bp_call mi api r r'"
| bp_close: "bp_call mi api r (snd (CloseStream i r))"

inductive bp_step :: "'m msg_iface \<Rightarrow> 'a vpp_api \<Rightarrow> ('m, 'a) BinapiRPC \<Rightarrow> ('m, 'a) BinapiRPC \<Rightarrow> bool" for mi api where
  call: "bp_call mi api r r' \<Longrightarrow> bp_step mi api r r'"
| bp_other: "k < length (bp_conns r) \<Longrightarrow> conn_step mi api (bp_conns r ! k) c \<Longrightarrow>
    (\<And>m i s j. bp_streams r = Some m \<Longrightarrow> m i = Some (k, s) \<Longrightarrow> channels (bp_conns r ! k) j = Some (st_channel s) \<Longrightarrow>
       channels c j = Some (st_channel s)) \<Longrightarrow> bp_step mi api r (set_conn k c r)"

inductive bp_reached :: "'m msg_iface \<Rightarrow> 'a vpp_api \<Rightarrow> ('m, 'a) BinapiRPC \<Rightarrow> bool" for mi api where
  start: "bp_reached mi api newBinapiRPC"
| step: "bp_reached mi api r \<Longrightarrow> bp_step mi api r r' \<Longrightarrow> bp_reached mi api r'"

text \<open>A connection is replaced by one that still has the channels of the streams.\<close>

definition keeps_channels :: "(nat \<times> Stream) set \<Rightarrow> nat \<Rightarrow> ('m, 'a) Connection \<Rightarrow> ('m, 'a) Connection \<Rightarrow> bool" where
  "keeps_channels es k c c' \<longleftrightarrow> (\<forall>s j. (k, s) \<in> es \<longrightarrow> channels c j = Some (st_channel s) \<longrightarrow> channels c' j = Some (st_channel s))"

lemma entry_ok_set:
  assumes "entry_ok cs (k', s)" "keeps_channels es k (cs ! k) c" "(k', s) \<in> es"
  shows "entry_ok (cs[k := c]) (k', s)"
proof (cases "k' = k")
  case True
  then show ?thesis using assms by (auto simp: entry_ok_def keeps_channels_def)
next
  case False
  then show ?thesis using assms(1) by (simp add: entry_ok_def)
qed

lemma table_ok_set:
  assumes "table_ok cs n m" "keeps_channels (ran m) k (cs ! k) c"
  shows "table_ok (cs[k := c]) n m"
  using assms entry_ok_set [of cs _ _ "ran m" k c] unfolding table_ok_def by (metis ranI surj_pair)

lemma table_ok_append: "table_ok cs n m \<Longrightarrow> table_ok (cs @ cs') n m"
  by (fastforce simp: table_ok_def entry_ok_def nth_append split: prod.splits)

lemma conns_set: "list_all conn_inv cs \<Longrightarrow> conn_inv c \<Longrightarrow> list_all conn_inv (cs[k := c])"
  by (auto simp: list_all_iff dest: set_update_subset_insert [THEN subsetD])

lemma bp_inv_set:
  assumes "bp_inv r" "conn_inv c" "\<And>m. bp_streams r = Some m \<Longrightarrow> keeps_channels (ran m) k (bp_conns r ! k) c"
  shows "bp_inv (set_conn k c r)"
  using assms by (auto simp: bp_inv_def set_conn_def conns_set table_ok_set)

lemma bp_inv_fields:
  "bp_inv r \<Longrightarrow> bp_inv (r\<lparr>bp_available := a\<rparr>)" "bp_inv r \<Longrightarrow> bp_inv (r\<lparr>bp_isConnected := b\<rparr>)"
  "bp_inv r \<Longrightarrow> bp_inv (r\<lparr>bp_watching := w\<rparr>)" "bp_inv r \<Longrightarrow> bp_inv (r\<lparr>bp_conn := None\<rparr>)"
  by (simp_all add: bp_inv_def)

lemma bp_inv_delete: "bp_inv r \<Longrightarrow> bp_inv (delete_stream i r)"
  by (cases "bp_streams r") (auto simp: bp_inv_def delete_stream_def table_ok_def)

lemma conn_inv_Disconnect: "conn_inv c \<Longrightarrow> conn_inv (Disconnect api c) \<and> channels (Disconnect api c) = channels c"
  by (auto simp: Disconnect_def disconnectVPP_def conn_inv_def Let_def split: prod.splits)

lemma bp_inv_conn: "bp_inv r \<Longrightarrow> bp_conn r = Some k \<Longrightarrow> k < length (bp_conns r) \<and> conn_inv (bp_conns r ! k)"
  by (simp add: bp_inv_def list_all_length)

lemma bp_inv_disconnect: "bp_inv r \<Longrightarrow> bp_inv (disconnect_current api r)"
proof (cases "bp_conn r")
  case (Some k)
  assume r: "bp_inv r"
  have "conn_inv (bp_conns r ! k)" using bp_inv_conn [OF r Some] by simp
  then have "bp_inv (set_conn k (Disconnect api (bp_conns r ! k)) r)"
    using bp_inv_set [OF r, of "Disconnect api (bp_conns r ! k)" k] conn_inv_Disconnect [of "bp_conns r ! k" api] by (simp add: keeps_channels_def)
  then show ?thesis using Some by (simp add: disconnect_current_def)
qed (simp add: disconnect_current_def)

lemma conn_inv_Async: "conn_inv (AsyncConnect ping pingReply a n t)"
  using conn_inv_new [of ping pingReply a n t True] by (simp add: AsyncConnect_def conn_inv_def)

lemma bp_inv_add: "bp_inv r \<Longrightarrow> conn_inv c \<Longrightarrow> bp_inv (add_conn c r)"
  by (auto simp: bp_inv_def add_conn_def table_ok_append)

lemmas bp_inv_intros = bp_inv_fields bp_inv_disconnect bp_inv_add conn_inv_Async bp_inv_delete

lemma bp_inv_BinapiRPC_connect: "bp_inv r \<Longrightarrow> bp_inv (snd (BinapiRPC_connect ping pingReply a r))"
  by (auto simp: BinapiRPC_connect_def intro!: bp_inv_intros)

lemma bp_inv_BinapiRPC_disconnect: "bp_inv r \<Longrightarrow> bp_inv (BinapiRPC_disconnect api r)"
  by (auto simp: BinapiRPC_disconnect_def intro!: bp_inv_intros)

lemma bp_inv_event: "bp_inv r \<Longrightarrow> bp_inv (bp_event api ping pingReply st r)"
  by (auto simp: bp_event_def Let_def intro!: bp_inv_intros split: ConnectionState.splits option.splits)

lemma bp_inv_done: "bp_inv r \<Longrightarrow> bp_inv (bp_watch_done r)"
  by (auto simp: bp_watch_done_def intro!: bp_inv_intros)

subsection \<open>Calls on streams\<close>

lemma getStream_cases:
  "getStream i r = (res, r') \<Longrightarrow> (case res of Inl e \<Rightarrow> r' = delete_stream i r | Inr e \<Rightarrow> r' = r \<and> (\<exists>m. bp_streams r = Some m \<and> m i = Some e))"
  by (auto simp: getStream_def split: option.splits bind_splits)

lemma table_entry:
  assumes "bp_inv r" "bp_streams r = Some m" "m i = Some (k, s)"
  shows "k < length (bp_conns r) \<and> st_open s \<and> (\<exists>j. owns (bp_conns r ! k) j (st_channel s))"
  using assms by (fastforce simp: bp_inv_def table_ok_def entry_ok_def owns_def list_all_length)

lemma owner_unique: "owns c i q \<Longrightarrow> channels c j = Some q \<Longrightarrow> j = i"
  unfolding owns_def conn_inv_def using chan_inv_ref_unique by blast

lemma table_ok_unique: "table_ok cs n m \<Longrightarrow> m i = Some e \<Longrightarrow> m j = Some e' \<Longrightarrow> key e = key e' \<Longrightarrow> i = j"
  unfolding table_ok_def by blast

lemma table_ok_range: "table_ok cs n m \<Longrightarrow> m i = Some e \<Longrightarrow> 0 < i \<and> i \<le> n \<and> entry_ok cs e"
  unfolding table_ok_def by blast

lemma table_okI:
  "(\<And>i e. m i = Some e \<Longrightarrow> 0 < i \<and> i \<le> n \<and> entry_ok cs e) \<Longrightarrow>
   (\<And>i j e e'. m i = Some e \<Longrightarrow> m j = Some e' \<Longrightarrow> key e = key e' \<Longrightarrow> i = j) \<Longrightarrow> table_ok cs n m"
  unfolding table_ok_def by blast

lemma table_ok_put:
  assumes "table_ok cs n m" "m i = Some (k, s)" "st_channel s' = st_channel s" "st_open s'"
  shows "table_ok cs n (m(i \<mapsto> (k, s')))"
proof -
  have s: "entry_ok cs (k, s)" "0 < i" "i \<le> n" using assms(1,2) unfolding table_ok_def by blast+
  have "entry_ok cs (k, s')" "key (k, s') = key (k, s)" using s(1) assms(3,4) by (simp_all add: entry_ok_def key_def)
  note s' = this
  show ?thesis
  proof (rule table_okI)
    fix x e
    assume "(m(i \<mapsto> (k, s'))) x = Some e"
    then show "0 < x \<and> x \<le> n \<and> entry_ok cs e" using s s'(1) table_ok_range [OF assms(1), of x e] by (auto split: if_splits)
  next
    fix x y e e'
    assume xy: "(m(i \<mapsto> (k, s'))) x = Some e" "(m(i \<mapsto> (k, s'))) y = Some e'" "key e = key e'"
    define old where "old z = (if z = i then (k, s) else the (m z))" for z
    have "m x = Some (old x)" "m y = Some (old y)" "key (old x) = key e" "key (old y) = key e'"
      using xy(1,2) assms(2) s'(2) by (auto simp: old_def split: if_splits)
    then show "x = y" using table_ok_unique [OF assms(1), of x "old x" y "old y"] xy(3) by simp
  qed
qed

lemma bp_inv_put:
  assumes "bp_inv r" "bp_streams r = Some m" "m i = Some (k, s)" "st_channel s' = st_channel s" "st_open s'"
  shows "bp_inv (put_stream i (k, s') r)"
  using assms table_ok_put [of "bp_conns r" "bp_maxStreamID r" m i k s s'] by (auto simp: bp_inv_def put_stream_def)

lemma bp_inv_send: "bp_inv r \<Longrightarrow> bp_inv (snd (SendMessage mi api now i msg r))"
proof -
  assume r: "bp_inv r"
  obtain res r1 where g: "getStream i r = (res, r1)" by (cases "getStream i r")
  show ?thesis
  proof (cases res)
    case (Inl e)
    then show ?thesis using getStream_cases [OF g] g r by (simp add: SendMessage_def bp_inv_delete)
  next
    case (Inr e)
    obtain k s where e: "e = (k, s)" by (cases e)
    then obtain m where m: "r1 = r" "bp_streams r = Some m" "m i = Some (k, s)" using getStream_cases [OF g] Inr by auto
    obtain j where s: "st_open s" "owns (bp_conns r ! k) j (st_channel s)" using table_entry [OF r m(2,3)] by blast
    obtain err s' c where send: "Stream_SendMsg mi api now msg s (bp_conns r ! k) = (err, s', c)"
      by (cases "Stream_SendMsg mi api now msg s (bp_conns r ! k)")
    note o = Stream_SendMsg_owns [OF s(2) send]
    have "bp_inv (set_conn k c r)" using bp_inv_set [OF r, of c k] o by (simp add: keeps_channels_def owns_def)
    moreover have "bp_streams (set_conn k c r) = Some m" using m(2) by (simp add: set_conn_def)
    ultimately have "bp_inv (put_stream i (k, s') (set_conn k c r))" using bp_inv_put [of "set_conn k c r" m i k s s'] m(3) o s(1) by simp
    then show ?thesis using r g Inr e m(1) send by (simp add: SendMessage_def)
  qed
qed

lemma bp_inv_receive:
  assumes r: "bp_inv r" and rec: "ReceiveMessage mi choice i r = Some (res, r')"
  shows "bp_inv r'"
proof -
  obtain g r1 where g: "getStream i r = (g, r1)" by (cases "getStream i r")
  show ?thesis
  proof (cases g)
    case (Inl e)
    then show ?thesis using getStream_cases [OF g] g r rec by (auto simp: ReceiveMessage_def bp_inv_delete split: if_splits)
  next
    case (Inr e)
    obtain k s where e: "e = (k, s)" by (cases e)
    then obtain m where m: "r1 = r" "bp_streams r = Some m" "m i = Some (k, s)" using getStream_cases [OF g] Inr by auto
    obtain j where s: "owns (bp_conns r ! k) j (st_channel s)" using table_entry [OF r m(2,3)] by blast
    have "conn_inv c \<and> channels c = channels (bp_conns r ! k)" if "Stream_RecvMsg mi choice s (bp_conns r ! k) = Some (x, c)" for x c
      using that recvReply_owns [OF s] by (auto simp: Stream_RecvMsg_def owns_def split: option.splits sum.splits prod.splits)
    then have "bp_inv (set_conn k c r)" if "Stream_RecvMsg mi choice s (bp_conns r ! k) = Some (x, c)" for x c
      using that bp_inv_set [OF r, of c k] by (simp add: keeps_channels_def)
    then show ?thesis using rec r g Inr e m(1) by (auto simp: ReceiveMessage_def split: if_splits)
  qed
qed

lemma bp_inv_close: "bp_inv r \<Longrightarrow> bp_inv (snd (CloseStream i r))"
proof -
  assume r: "bp_inv r"
  obtain g r1 where g: "getStream i r = (g, r1)" by (cases "getStream i r")
  show ?thesis
  proof (cases g)
    case (Inl e)
    then show ?thesis using getStream_cases [OF g] g r by (simp add: CloseStream_def bp_inv_delete)
  next
    case (Inr e)
    obtain k s where e: "e = (k, s)" by (cases e)
    then obtain m where m: "r1 = r" "bp_streams r = Some m" "m i = Some (k, s)" using getStream_cases [OF g] Inr by auto
    obtain j where s: "st_open s" "owns (bp_conns r ! k) j (st_channel s)" using table_entry [OF r m(2,3)] by blast
    obtain err s' c where close: "Stream_Close s (bp_conns r ! k) = (err, s', c)" by (cases "Stream_Close s (bp_conns r ! k)")
    then have c: "conn_inv c" "channels c = (channels (bp_conns r ! k))(j := None)" using Stream_Close_owns [OF s(2,1)] by simp_all
    have streams: "bp_streams (delete_stream i r) = Some (m(i := None))" using m(2) by (simp add: delete_stream_def)
    have others: "st_channel s2 \<noteq> st_channel s" if "(k, s2) \<in> ran (m(i := None))" for s2
      using that r m(2,3) by (fastforce simp: bp_inv_def table_ok_def key_def ran_def split: if_splits)
    have "keeps_channels (ran (m(i := None))) k (bp_conns (delete_stream i r) ! k) c"
      unfolding keeps_channels_def
    proof (intro allI impI)
      fix s2 j2
      assume "(k, s2) \<in> ran (m(i := None))" "channels (bp_conns (delete_stream i r) ! k) j2 = Some (st_channel s2)"
      then show "channels c j2 = Some (st_channel s2)"
        using others [of s2] s(2) c(2) by (auto simp: delete_stream_def owns_def)
    qed
    then have "bp_inv (set_conn k c (delete_stream i r))"
      using bp_inv_set [OF bp_inv_delete [OF r, of i] c(1), of k] streams by simp
    then show ?thesis using r g Inr e m(1) close by (simp add: CloseStream_def)
  qed
qed

lemma next_id: "n < n + 1 \<and> 0 < n + 1" if "n < - 1" for n :: u32
proof -
  have "1 + n \<noteq> 0" using that by (metis add.commute add_eq_0_iff less_irrefl)
  then have "unat (1 + n) = Suc (unat n)" by (rule unatSuc)
  then show ?thesis by (simp add: word_less_nat_alt add.commute)
qed

lemma table_ok_add:
  assumes t: "table_ok cs n m" and n: "n \<le> n'" "0 < i0" "i0 \<le> n'" "m i0 = None" and e: "entry_ok cs e" "key e \<notin> key ` ran m"
  shows "table_ok cs n' (m(i0 \<mapsto> e))"
proof (rule table_okI)
  fix i e1
  assume "(m(i0 \<mapsto> e)) i = Some e1"
  then show "0 < i \<and> i \<le> n' \<and> entry_ok cs e1"
    using e(1) table_ok_range [OF t, of i e1] n by (cases "i = i0") auto
next
  have fresh: "key e1 \<noteq> key e" if "m i = Some e1" for i e1 using e(2) ranI [of m i e1] that by (metis image_eqI)
  fix i j e1 e2
  assume ij: "(m(i0 \<mapsto> e)) i = Some e1" "(m(i0 \<mapsto> e)) j = Some e2" "key e1 = key e2"
  consider "i = i0" "j = i0" | "i = i0" "m j = Some e2" "e1 = e" | "j = i0" "m i = Some e1" "e2 = e" | "m i = Some e1" "m j = Some e2"
    using ij(1,2) by (cases "i = i0"; cases "j = i0") auto
  then show "i = j"
  proof cases
    case 2
    then show ?thesis using fresh [of j e2] ij(3) by simp
  next
    case 3
    then show ?thesis using fresh [of i e1] ij(3) by simp
  next
    case 4
    then show ?thesis using table_ok_unique [OF t _ _ ij(3)] by blast
  qed simp
qed

lemma table_ok_new:
  assumes t: "table_ok cs n m" and n: "n < - 1" and e: "entry_ok cs e" "key e \<notin> key ` ran m"
  shows "table_ok cs (n + 1) (m(n + 1 \<mapsto> e))"
proof -
  have "m (n + 1) = None" using table_ok_range [OF t, of "n + 1"] next_id [OF n] by (cases "m (n + 1)") auto
  then show ?thesis using table_ok_add [OF t _ _ _ _ e, of "n + 1" "n + 1"] next_id [OF n] by (simp add: less_imp_le)
qed

lemma NewStream_Some: "\<exists>x c'. NewStream pick opts (Some c) = (x, Some c')"
proof (cases "newChannel pick (so_requestSize (fold apply_option opts \<lparr>so_requestSize = RequestChanBufSize, so_replySize = ReplyChanBufSize,
      so_replyTimeout = DefaultReplyTimeout\<rparr>)) (so_replySize (fold apply_option opts \<lparr>so_requestSize = RequestChanBufSize,
      so_replySize = ReplyChanBufSize, so_replyTimeout = DefaultReplyTimeout\<rparr>)) c")
  case (Pair x c1)
  then show ?thesis by (cases x) (simp_all add: NewStream_def Let_def)
qed

lemma NewAPIStream_cases:
  assumes r: "bp_inv r" and new: "NewAPIStream pick r = (res, r')" and max: "bp_maxStreamID r < - 1"
  shows "bp_inv r'"
proof (cases "bp_available r \<and> bp_conn r \<noteq> None")
  case True
  then obtain k where k: "bp_available r" "bp_conn r = Some k" by blast
  then have c: "k < length (bp_conns r)" "conn_inv (bp_conns r ! k)" using bp_inv_conn [OF r] by auto
  obtain x co where ns: "NewStream pick [] (Some (bp_conns r ! k)) = (x, Some co)" using NewStream_Some by blast
  show ?thesis
  proof (cases x)
    case (Inl e)
    then have "newChannel pick RequestChanBufSize ReplyChanBufSize (bp_conns r ! k) = (Inl e, co)"
      using ns by (auto simp: NewStream_def Let_def split: sum.splits prod.splits)
    then have "conn_inv co" "channels co = channels (bp_conns r ! k)"
      using conn_inv_newChannel [OF c(2)] by (auto simp: newChannel_def split: sum.splits prod.splits)
    then have "bp_inv (set_conn k co r)" using bp_inv_set [OF r, of co k] by (simp add: keeps_channels_def)
    then show ?thesis using new k ns Inl by (simp add: NewAPIStream_def NewAPIStream_open_def)
  next
    case (Inr s)
    then obtain j where j: "st_open s" "channels (bp_conns r ! k) j = None" "channels co = (channels (bp_conns r ! k))(j \<mapsto> st_channel s)"
        "owns co j (st_channel s)"
      using NewStream_owns [OF c(2)] ns by blast
    let ?m = "case bp_streams r of None \<Rightarrow> Map.empty | Some m \<Rightarrow> m"
    have keeps: "keeps_channels es k (bp_conns r ! k) co" for es using j(2,3) by (auto simp: keeps_channels_def)
    have "bp_inv (set_conn k co r)" using bp_inv_set [OF r, of co k] keeps j(4) by (simp add: owns_def)
    then have inv: "list_all conn_inv ((bp_conns r)[k := co])" "table_ok ((bp_conns r)[k := co]) (bp_maxStreamID r) ?m"
      by (auto simp: bp_inv_def set_conn_def table_ok_def split: option.splits)
    have "key (k, s) \<notin> key ` ran ?m"
    proof
      assume "key (k, s) \<in> key ` ran ?m"
      then obtain i s2 where s2: "?m i = Some (k, s2)" "st_channel s2 = st_channel s" by (auto simp: key_def ran_def)
      then obtain m where "bp_streams r = Some m" "m i = Some (k, s2)" by (cases "bp_streams r") auto
      then obtain j2 where "channels (bp_conns r ! k) j2 = Some (st_channel s)" using table_entry [OF r] s2(2) by (fastforce simp: owns_def)
      then show False using owner_unique [OF j(4), of j2] j(2,3) by (metis fun_upd_other option.distinct(1))
    qed
    moreover have "entry_ok ((bp_conns r)[k := co]) (k, s)" using c(1) j(1,3) by (auto simp: entry_ok_def)
    ultimately have "table_ok ((bp_conns r)[k := co]) (bp_maxStreamID r + 1) (?m(bp_maxStreamID r + 1 \<mapsto> (k, s)))"
      using table_ok_new [OF inv(2) max] by blast
    moreover have "r' = r\<lparr>bp_conns := (bp_conns r)[k := co], bp_maxStreamID := bp_maxStreamID r + 1,
        bp_streams := Some (?m(bp_maxStreamID r + 1 \<mapsto> (k, s)))\<rparr>"
      using new k ns Inr
      by (cases "bp_streams r") (auto simp: NewAPIStream_def NewAPIStream_open_def NewAPIStream_make_def NewAPIStream_add_def set_conn_def Let_def)
    ultimately show ?thesis using inv(1) r k(2) by (simp add: bp_inv_def)
  qed
next
  case False
  then show ?thesis using new r by (cases "bp_conn r") (auto simp: NewAPIStream_def NewAPIStream_open_def split: if_splits)
qed

lemma bp_inv_call: "bp_call mi api r r' \<Longrightarrow> bp_inv r \<Longrightarrow> bp_inv r'"
proof (induction rule: bp_call.induct)
  case (bp_new r pick)
  then show ?case using NewAPIStream_cases [of r pick] by (metis prod.collapse)
qed (auto intro: bp_inv_BinapiRPC_connect bp_inv_BinapiRPC_disconnect bp_inv_event bp_inv_done bp_inv_send bp_inv_receive bp_inv_close)

lemma bp_inv_step: "bp_step mi api r r' \<Longrightarrow> bp_inv r \<Longrightarrow> bp_inv r'"
proof (induction rule: bp_step.induct)
  case (bp_other k r c)
  have "conn_inv (bp_conns r ! k)" using bp_other by (simp add: bp_inv_def list_all_length)
  then have "conn_inv c" using bp_other(2) conn_step_inv by blast
  then show ?case using bp_inv_set [OF bp_other(4)] bp_other(3) by (fastforce simp: keeps_channels_def ran_def)
qed (rule bp_inv_call)

lemma bp_inv_new: "bp_inv newBinapiRPC"
  by (simp add: newBinapiRPC_def bp_inv_def)

lemma bp_inv_reached: "bp_reached mi api r \<Longrightarrow> bp_inv r"
  by (induction rule: bp_reached.induct) (auto intro: bp_inv_step simp: bp_inv_new)

text \<open>
  C9 (invariant). In every state of the server the streams in its table are open, each has a channel of its
  connection, and different ids stand for different channels, however often the server reconnected and
  whatever else the connections do; the ids are those given out so far.
\<close>

theorem streams_separate:
  assumes "bp_reached mi api r" "bp_streams r = Some m" "m i = Some (k, s)" "m j = Some (k', s')"
  shows "0 < i \<and> i \<le> bp_maxStreamID r \<and> k < length (bp_conns r) \<and> st_open s \<and>
    (\<exists>q. channels (bp_conns r ! k) q = Some (st_channel s)) \<and> (i \<noteq> j \<longrightarrow> k \<noteq> k' \<or> st_channel s \<noteq> st_channel s')"
proof -
  have t: "table_ok (bp_conns r) (bp_maxStreamID r) m" using bp_inv_reached [OF assms(1)] assms(2) by (simp add: bp_inv_def)
  have "i = j" if "k = k'" "st_channel s = st_channel s'" using table_ok_unique [OF t assms(3,4)] that by (simp add: key_def)
  then show ?thesis using table_ok_range [OF t assms(3)] by (auto simp: entry_ok_def)
qed

text \<open>
  C21 (roundtrip). A stream opened, used and closed through the server is a stream of the core: sending on
  it gives the error, if any, that the core's stream gives, closing it succeeds, and the connection is left
  with the channels it had.
\<close>

theorem stream_lifecycle:
  assumes "bp_reached mi api r" "bp_maxStreamID r < - 1" "NewAPIStream pick r = (Inr i, r1)"
    and "SendMessage mi api now i msg r1 = (err, r2)" "CloseStream i r2 = (err', r3)"
  shows "\<exists>k s c s' c'. bp_conn r = Some k \<and> NewStream pick [] (Some (bp_conns r ! k)) = (Inr s, Some c) \<and>
    Stream_SendMsg mi api now msg s c = (err, s', c') \<and> err' = None \<and>
    channels (bp_conns r3 ! k) = channels (bp_conns r ! k) \<and> (\<exists>e. fst (getStream i r3) = Inl e)"
proof -
  have inv: "bp_inv r" using bp_inv_reached [OF assms(1)] .
  obtain x r0 where o: "NewAPIStream_open pick r = (x, r0)" by (cases "NewAPIStream_open pick r")
  then obtain e nil where x: "x = Inr (e, nil)" using assms(3) by (cases x) (auto simp: NewAPIStream_def)
  then obtain k s c where k: "bp_available r" "bp_conn r = Some k" "NewStream pick [] (Some (bp_conns r ! k)) = (Inr s, Some c)"
      "e = (k, s)" "nil = (bp_streams r = None)" "r0 = set_conn k c r"
    using o by (auto simp: NewAPIStream_open_def split: if_splits option.splits sum.splits prod.splits)
  have kc: "k < length (bp_conns r)" "conn_inv (bp_conns r ! k)" using bp_inv_conn [OF inv k(2)] by auto
  obtain q where q: "st_open s" "channels (bp_conns r ! k) q = None" "channels c = (channels (bp_conns r ! k))(q \<mapsto> st_channel s)" "owns c q (st_channel s)"
    using NewStream_owns [OF kc(2) k(3)] by blast
  let ?m = "case bp_streams r of None \<Rightarrow> Map.empty | Some m \<Rightarrow> m"
  have r1: "i = bp_maxStreamID r + 1" "r1 = (set_conn k c r)\<lparr>bp_maxStreamID := i, bp_streams := Some (?m(i \<mapsto> (k, s)))\<rparr>"
    using assms(3) o x k(4-6)
    by (cases "bp_streams r"; auto simp: NewAPIStream_def NewAPIStream_make_def NewAPIStream_add_def set_conn_def Let_def)+
  have c1: "bp_conns r1 ! k = c" "bp_available r1" "k < length (bp_conns r1)" "getStream i r1 = (Inr (k, s), r1)"
    using r1(2) kc(1) k(1) by (simp_all add: set_conn_def getStream_def)
  obtain e1 s' c' where send: "Stream_SendMsg mi api now msg s c = (e1, s', c')" by (cases "Stream_SendMsg mi api now msg s c")
  note os = Stream_SendMsg_owns [OF q(4) send]
  have r2: "e1 = err" "r2 = put_stream i (k, s') (set_conn k c' r1)" using assms(4) c1 send by (auto simp: SendMessage_def)
  have c2: "bp_conns r2 ! k = c'" "bp_available r2" "k < length (bp_conns r2)" "getStream i r2 = (Inr (k, s'), r2)"
    using r2(2) c1 r1(2) by (simp_all add: put_stream_def set_conn_def getStream_def)
  obtain s'' c'' where close: "Stream_Close s' c' = (None, s'', c'')" using os q(1) by (simp add: Stream_Close_def)
  have "channels (snd (snd (Stream_Close s' c'))) = (channels c')(q := None)" using Stream_Close_owns [of c' q s'] os q(1) by blast
  then have "channels c'' = (channels c')(q := None)" by (simp add: close)
  then have chans: "channels c'' = channels (bp_conns r ! k)" using os q(2,3) by auto
  have "err' = None" "r3 = set_conn k c'' (delete_stream i r2)" using assms(5) c2 close by (auto simp: CloseStream_def)
  moreover from this have "bp_conns r3 ! k = c''" using c2(3) by (simp add: set_conn_def delete_stream_def)
  moreover have "fst (getStream i (set_conn k c'' (delete_stream i r2))) = Inl (ErrMsg ''BinapiRPC stream closed'')"
    by (cases "bp_streams r2") (simp_all add: getStream_def delete_stream_def set_conn_def)
  ultimately show ?thesis using k(2,3) send r2(1) chans by auto
qed

section \<open>Streams opened at the same time\<close>

text \<open>
  What happens to a server afterwards, as above, except that nobody else releases the channel \<open>q\<close> of the
  connection \<open>k\<close>: other parts of the program do not have it.
\<close>

inductive bp_later :: "'m msg_iface \<Rightarrow> 'a vpp_api \<Rightarrow> nat \<Rightarrow> ref \<Rightarrow> ('m, 'a) BinapiRPC \<Rightarrow> ('m, 'a) BinapiRPC \<Rightarrow> bool" for mi api k q where
  now: "bp_later mi api k q r r"
| call: "bp_later mi api k q r r' \<Longrightarrow> bp_call mi api r' r'' \<Longrightarrow> bp_later mi api k q r r''"
| other: "bp_later mi api k q r r' \<Longrightarrow> k' < length (bp_conns r') \<Longrightarrow> conn_step mi api (bp_conns r' ! k') c \<Longrightarrow>
    (\<And>m i s j. bp_streams r' = Some m \<Longrightarrow> m i = Some (k', s) \<Longrightarrow> channels (bp_conns r' ! k') j = Some (st_channel s) \<Longrightarrow>
       channels c j = Some (st_channel s)) \<Longrightarrow>
    (\<And>j. k' = k \<Longrightarrow> channels (bp_conns r' ! k) j = Some q \<Longrightarrow> channels c j = Some q) \<Longrightarrow> bp_later mi api k q r (set_conn k' c r')"

text \<open>The server that would still have the lost stream \<open>e\<close> under its id \<open>i\<close>.\<close>

definition with_stream :: "u32 \<Rightarrow> nat \<times> Stream \<Rightarrow> ('m, 'a) BinapiRPC \<Rightarrow> ('m, 'a) BinapiRPC" where
  "with_stream i e r = r\<lparr>bp_streams := map_option (\<lambda>m. m(i \<mapsto> e)) (bp_streams r)\<rparr>"

definition lost :: "u32 \<Rightarrow> nat \<times> Stream \<Rightarrow> ('m, 'a) BinapiRPC \<Rightarrow> bool" where
  "lost i e r \<longleftrightarrow> (\<exists>m. bp_streams r = Some m \<and> m i = None) \<and> i \<le> bp_maxStreamID r \<and> bp_inv (with_stream i e r)"

lemma with_stream_simps [simp]:
  "bp_conns (with_stream i e r) = bp_conns r" "bp_conn (with_stream i e r) = bp_conn r" "bp_available (with_stream i e r) = bp_available r"
  "bp_maxStreamID (with_stream i e r) = bp_maxStreamID r" "bp_isConnected (with_stream i e r) = bp_isConnected r"
  "bp_watching (with_stream i e r) = bp_watching r"
  by (simp_all add: with_stream_def)

lemma lost_getStream:
  assumes "lost i e r"
  shows "getStream i r = (Inl (ErrMsg ''BinapiRPC stream closed''), r)"
    and "j \<noteq> i \<Longrightarrow> getStream j (with_stream i e r) = (fst (getStream j r), with_stream i e (snd (getStream j r)))"
    and "lost i e (snd (getStream j r))"
proof -
  obtain m where m: "bp_streams r = Some m" "m i = None" using assms by (auto simp: lost_def)
  show "getStream i r = (Inl (ErrMsg ''BinapiRPC stream closed''), r)" using m by (simp add: getStream_def delete_stream_def fun_upd_idem)
  show "getStream j (with_stream i e r) = (fst (getStream j r), with_stream i e (snd (getStream j r)))" if "j \<noteq> i"
    using m that by (auto simp: getStream_def delete_stream_def with_stream_def fun_upd_twist split: option.splits)
  have "bp_inv (with_stream i e (delete_stream j r))" if "j \<noteq> i"
  proof -
    have "with_stream i e (delete_stream j r) = delete_stream j (with_stream i e r)"
      using m that by (simp add: with_stream_def delete_stream_def fun_upd_twist)
    then show ?thesis using assms bp_inv_delete [of "with_stream i e r" j] by (simp add: lost_def)
  qed
  moreover have "delete_stream i r = r" using m by (simp add: delete_stream_def fun_upd_idem)
  ultimately show "lost i e (snd (getStream j r))"
    using assms m by (cases "j = i") (auto simp: getStream_def lost_def delete_stream_def split: option.splits)
qed

lemma lostI: "bp_streams r = Some m \<Longrightarrow> m i = None \<Longrightarrow> i \<le> bp_maxStreamID r \<Longrightarrow> bp_inv (with_stream i e r) \<Longrightarrow> lost i e r"
  by (simp add: lost_def)

text \<open>A call that does the same to the server with the stream keeps it lost.\<close>

lemma lost_same:
  assumes "lost i e r" "bp_inv (with_stream i e r')" "bp_streams r' = bp_streams r" "bp_maxStreamID r' = bp_maxStreamID r"
  shows "lost i e r'"
  using assms by (auto simp: lost_def)

lemma lost_set_conn:
  assumes "lost i e r" "conn_inv c" "\<And>m. bp_streams r = Some m \<Longrightarrow> keeps_channels (ran (m(i \<mapsto> e))) k (bp_conns r ! k) c"
  shows "lost i e (set_conn k c r)"
proof -
  have "with_stream i e (set_conn k c r) = set_conn k c (with_stream i e r)" by (simp add: with_stream_def set_conn_def)
  moreover have "bp_inv (set_conn k c (with_stream i e r))"
    by (rule bp_inv_set) (use assms in \<open>auto simp: lost_def with_stream_def\<close>)
  ultimately show ?thesis using assms(1) by (auto simp: lost_def set_conn_def)
qed

lemma lost_fails:
  assumes "lost i e r"
  defines "closed \<equiv> if bp_available r then ErrMsg ''BinapiRPC stream closed'' else unavailable"
  shows "SendMessage mi api now i msg r = (Some closed, r)" "ReceiveMessage mi choice i r = Some (Inl closed, r)" "CloseStream i r = (Some closed, r)"
  using lost_getStream(1) [OF assms(1)] by (simp_all add: SendMessage_def ReceiveMessage_def CloseStream_def closed_def)

lemma lost_call:
  assumes "bp_call mi api r r'" "lost i e r"
  shows "lost i e r'"
  using assms
proof (induction rule: bp_call.induct)
  case (bp_connect r ping pingReply a)
  have "with_stream i e (snd (BinapiRPC_connect ping pingReply a r)) = snd (BinapiRPC_connect ping pingReply a (with_stream i e r))"
    by (simp add: BinapiRPC_connect_def with_stream_def add_conn_def)
  then show ?case using bp_connect bp_inv_BinapiRPC_connect [of "with_stream i e r"]
    by (intro lost_same [OF bp_connect]) (auto simp: lost_def BinapiRPC_connect_def add_conn_def)
next
  case (bp_disconnect r)
  have "with_stream i e (BinapiRPC_disconnect api r) = BinapiRPC_disconnect api (with_stream i e r)"
    by (auto simp: BinapiRPC_disconnect_def disconnect_current_def with_stream_def set_conn_def split: option.splits)
  then show ?case using bp_disconnect bp_inv_BinapiRPC_disconnect [of "with_stream i e r"]
    by (intro lost_same [OF bp_disconnect]) (auto simp: lost_def BinapiRPC_disconnect_def disconnect_current_def set_conn_def split: option.splits)
next
  case (bp_event r ping pingReply st)
  have "with_stream i e (bp_event api ping pingReply st r) = bp_event api ping pingReply st (with_stream i e r)"
    by (auto simp: bp_event_def disconnect_current_def with_stream_def set_conn_def add_conn_def conn_of_def Let_def split: option.splits ConnectionState.splits)
  then show ?case using bp_event bp_inv_event [of "with_stream i e r"]
    by (intro lost_same [OF bp_event])
      (auto simp: lost_def bp_event_def disconnect_current_def set_conn_def add_conn_def conn_of_def Let_def split: option.splits ConnectionState.splits)
next
  case (bp_done r)
  have "with_stream i e (bp_watch_done r) = bp_watch_done (with_stream i e r)" by (simp add: bp_watch_done_def with_stream_def)
  then show ?case using bp_done bp_inv_done [of "with_stream i e r"]
    by (intro lost_same [OF bp_done]) (auto simp: lost_def bp_watch_done_def)
next
  case (bp_new r pick)
  then obtain m where m: "bp_streams r = Some m" "m i = None" "i \<le> bp_maxStreamID r" by (auto simp: lost_def)
  have ne: "bp_maxStreamID r + 1 \<noteq> i" using m(3) next_id [OF bp_new(1)] by auto
  obtain res r' where new: "NewAPIStream pick r = (res, r')" by fastforce
  have "with_stream i e r' = snd (NewAPIStream pick (with_stream i e r)) \<and> bp_streams r' \<noteq> None \<and>
      (\<forall>m'. bp_streams r' = Some m' \<longrightarrow> m' i = None) \<and> i \<le> bp_maxStreamID r'"
  proof (cases "NewAPIStream_open pick r")
    case (Pair x r0)
    have o: "NewAPIStream_open pick (with_stream i e r) = (x, with_stream i e r0)" "bp_streams r0 = Some m" "bp_maxStreamID r0 = bp_maxStreamID r"
      "\<And>s b. x = Inr (s, b) \<Longrightarrow> \<not> b"
      using Pair m(1)
      by (auto simp: NewAPIStream_open_def with_stream_def set_conn_def split: if_splits option.splits sum.splits prod.splits)
    show ?thesis
    proof (cases x)
      case (Inl err)
      then show ?thesis using new Pair o m by (simp add: NewAPIStream_def)
    next
      case (Inr y)
      then obtain s where s: "x = Inr (s, False)" using o(4) by (cases y) auto
      have "r' = r0\<lparr>bp_maxStreamID := bp_maxStreamID r + 1, bp_streams := Some (m(bp_maxStreamID r + 1 \<mapsto> s))\<rparr>"
        using new Pair s o by (simp add: NewAPIStream_def NewAPIStream_make_def NewAPIStream_add_def Let_def)
      moreover have "i \<le> bp_maxStreamID r + 1" using m(3) next_id [OF bp_new(1)] by (meson less_imp_le order_trans)
      ultimately show ?thesis using s o ne m
        by (simp add: NewAPIStream_def NewAPIStream_make_def NewAPIStream_add_def Let_def with_stream_def fun_upd_twist)
    qed
  qed
  moreover have "bp_inv (snd (NewAPIStream pick (with_stream i e r)))"
    using NewAPIStream_cases [of "with_stream i e r" pick] bp_new by (metis lost_def prod.collapse with_stream_simps(4))
  ultimately show ?case using new by (auto simp: lost_def)
next
  case (bp_send r now j msg)
  show ?case
  proof (cases "j = i")
    case False
    have "with_stream i e (snd (SendMessage mi api now j msg r)) = snd (SendMessage mi api now j msg (with_stream i e r))"
    proof -
      obtain res r1 where g: "getStream j r = (res, r1)" by fastforce
      note lost_getStream(2) [OF bp_send False]
      moreover have "with_stream i e (put_stream j e' (set_conn k c r1)) = put_stream j e' (set_conn k c (with_stream i e r1))" for e' k c
        using False by (cases "bp_streams r1") (auto simp: with_stream_def put_stream_def set_conn_def fun_upd_twist)
      ultimately show ?thesis using g by (auto simp: SendMessage_def split: sum.splits prod.splits)
    qed
    moreover have "\<exists>m. bp_streams (snd (SendMessage mi api now j msg r)) = Some m \<and> m i = None" "i \<le> bp_maxStreamID (snd (SendMessage mi api now j msg r))"
      using lost_getStream(3) [OF bp_send, of j] bp_send False
      by (auto simp: SendMessage_def lost_def put_stream_def set_conn_def split: sum.splits prod.splits)
    ultimately show ?thesis using bp_inv_send [of "with_stream i e r"] bp_send by (auto simp: lost_def)
  qed (use lost_fails(1) [OF bp_send] bp_send in simp)
next
  case (bp_receive choice j r res r')
  show ?case
  proof (cases "j = i")
    case False
    obtain x r1 where g: "getStream j r = (x, r1)" by fastforce
    have "ReceiveMessage mi choice j (with_stream i e r) = Some (res, with_stream i e r')"
    proof -
      have "with_stream i e (set_conn k c r1) = set_conn k c (with_stream i e r1)" for k c by (simp add: with_stream_def set_conn_def)
      moreover have "bp_conns r1 = bp_conns r" using g by (auto simp: getStream_def delete_stream_def split: option.splits)
      ultimately show ?thesis
        using lost_getStream(2) [OF bp_receive(2) False] g bp_receive(1) by (auto simp: ReceiveMessage_def split: sum.splits prod.splits)
    qed
    then have "bp_inv (with_stream i e r')" using bp_inv_receive [of "with_stream i e r"] bp_receive(2) by (auto simp: lost_def)
    moreover have "lost i e r1" using lost_getStream(3) [OF bp_receive(2), of j] g by simp
    moreover have "r' = r1 \<or> r' = r \<or> (\<exists>k c. r' = set_conn k c r1)" using bp_receive(1) g by (auto simp: ReceiveMessage_def split: if_splits sum.splits prod.splits)
    ultimately show ?thesis using bp_receive(2) by (auto simp: lost_def set_conn_def)
  qed (use lost_fails(2) [OF bp_receive(2)] bp_receive in simp)
next
  case (bp_close r j)
  show ?case
  proof (cases "j = i")
    case False
    obtain x r1 where g: "getStream j r = (x, r1)" by fastforce
    have l1: "lost i e r1" using lost_getStream(3) [OF bp_close, of j] g by simp
    have "with_stream i e (set_conn k c (delete_stream j r1)) = set_conn k c (delete_stream j (with_stream i e r1))" for k c
      using False by (cases "bp_streams r1") (auto simp: with_stream_def delete_stream_def set_conn_def fun_upd_twist)
    then have "with_stream i e (snd (CloseStream j r)) = snd (CloseStream j (with_stream i e r))"
      using lost_getStream(2) [OF bp_close False] g by (auto simp: CloseStream_def split: sum.splits prod.splits)
    then have "bp_inv (with_stream i e (snd (CloseStream j r)))" using bp_inv_close [of "with_stream i e r"] bp_close by (simp add: lost_def)
    then show ?thesis using l1 bp_close g
      by (auto simp: lost_def CloseStream_def set_conn_def delete_stream_def split: sum.splits prod.splits if_splits)
  qed (use lost_fails(3) [OF bp_close] bp_close in simp)
qed

lemma lost_later: "bp_later mi api k (st_channel s) r r' \<Longrightarrow> lost i (k, s) r \<Longrightarrow> lost i (k, s) r'"
proof (induction rule: bp_later.induct)
  case (other r r' k' c)
  then have l: "lost i (k, s) r'" by blast
  have "conn_inv (bp_conns r' ! k')" using l other(2) by (auto simp: lost_def bp_inv_def list_all_length)
  then have "conn_inv c" using other(3) conn_step_inv by blast
  then show ?case using l other(4,5) by (intro lost_set_conn) (fastforce simp: keeps_channels_def ran_def split: if_splits)+
qed (auto intro: lost_call)

text \<open>
  C36 (safety). Two clients that open the first streams of a server at the same time both see no table, and the
  one that makes it later throws away what the other added. Whatever happens to the server from then on, every
  call of the first client fails - it can neither send, nor receive, nor close the stream - and the channel
  of its stream stays open: it is never released.
\<close>

theorem first_stream_lost:
  assumes "bp_reached mi api r" "bp_available r" "bp_streams r = None" "bp_maxStreamID r < - 2"
    and "NewAPIStream_open pick r = (Inr ((k, s), nil1), r1)" "NewAPIStream_open pick' r1 = (Inr (s2, nil2), r2)"
    and "NewAPIStream_add (k, s) (NewAPIStream_make nil1 r2) = (i1, r3)" "NewAPIStream_add s2 (NewAPIStream_make nil2 r3) = (i2, r4)"
    and "bp_later mi api k (st_channel s) r4 r'"
    and "closed = (if bp_available r' then ErrMsg ''BinapiRPC stream closed'' else unavailable)"
  shows "nil1 \<and> nil2 \<and> i1 \<noteq> i2 \<and> bp_streams r4 = Some [i2 \<mapsto> s2] \<and>
    SendMessage mi api now i1 msg r' = (Some closed, r') \<and> ReceiveMessage mi choice i1 r' = Some (Inl closed, r') \<and>
    CloseStream i1 r' = (Some closed, r') \<and> (\<exists>q. channels (bp_conns r' ! k) q = Some (st_channel s))"
proof -
  have open1: "nil1" "bp_available r1" "bp_streams r1 = None" "bp_maxStreamID r1 = bp_maxStreamID r"
    using assms(2,3,5) by (auto simp: NewAPIStream_open_def set_conn_def split: if_splits option.splits sum.splits prod.splits)
  have open2: "nil2" "bp_streams r2 = None" "bp_maxStreamID r2 = bp_maxStreamID r"
    using open1 assms(6) by (auto simp: NewAPIStream_open_def set_conn_def split: if_splits option.splits sum.splits prod.splits)
  let ?i = "bp_maxStreamID r + 1"
  have i: "i1 = ?i" "i2 = i1 + 1" "r4 = r2\<lparr>bp_maxStreamID := i2, bp_streams := Some [i2 \<mapsto> s2]\<rparr>"
    using assms(7,8) open1 open2 by (auto simp: NewAPIStream_add_def NewAPIStream_make_def Let_def)
  have max: "bp_maxStreamID r < - 1" "?i < - 1"
  proof -
    have big: "unat (- 1 :: u32) = 4294967295" "unat (- 2 :: u32) = 4294967294" by (simp_all add: unsigned_minus_1_eq_mask mask_eq_exp_minus_1)
    have "unat (bp_maxStreamID r) < 4294967294" using assms(4) big by (simp add: word_less_nat_alt)
    then show "bp_maxStreamID r < - 1" "?i < - 1" by (simp_all add: word_less_nat_alt unat_word_ariths big)
  qed
  note next1 = next_id [OF max(1)] and next2 = next_id [OF max(2)]
  text \<open>One after the other, the two calls lead to the server with both streams.\<close>
  let ?r1 = "r1\<lparr>bp_maxStreamID := i1, bp_streams := Some [i1 \<mapsto> (k, s)]\<rparr>"
  have "NewAPIStream pick r = (Inr i1, ?r1)"
    using assms(5) open1 i(1) by (simp add: NewAPIStream_def NewAPIStream_make_def NewAPIStream_add_def Let_def)
  then have inv1: "bp_inv ?r1" using NewAPIStream_cases [OF bp_inv_reached [OF assms(1)] _ max(1)] by blast
  have "NewAPIStream_open pick' ?r1 = (Inr (s2, False), r2\<lparr>bp_maxStreamID := i1, bp_streams := Some [i1 \<mapsto> (k, s)]\<rparr>)"
    using assms(6) open1 by (auto simp: NewAPIStream_open_def set_conn_def split: if_splits option.splits sum.splits prod.splits)
  then have "snd (NewAPIStream pick' ?r1) = r2\<lparr>bp_maxStreamID := i2, bp_streams := Some [i1 \<mapsto> (k, s), i2 \<mapsto> s2]\<rparr>"
    using i by (simp add: NewAPIStream_def NewAPIStream_make_def NewAPIStream_add_def Let_def)
  moreover have "with_stream i1 (k, s) r4 = r2\<lparr>bp_maxStreamID := i2, bp_streams := Some [i1 \<mapsto> (k, s), i2 \<mapsto> s2]\<rparr>"
    using i next2 by (simp add: with_stream_def fun_upd_twist)
  moreover have "bp_inv (snd (NewAPIStream pick' ?r1))"
    using max(2) i(1) by (intro NewAPIStream_cases [OF inv1 prod.collapse [symmetric]]) simp
  ultimately have "bp_inv (with_stream i1 (k, s) r4)" by simp
  moreover have ne: "i1 \<noteq> i2" "i1 \<le> i2" using i(1,2) next2 by auto
  ultimately have "lost i1 (k, s) r4" using i(3) by (intro lostI [where m = "[i2 \<mapsto> s2]"]) simp_all
  then have l: "lost i1 (k, s) r'" using lost_later [OF assms(9)] by blast
  then obtain m where "bp_streams (with_stream i1 (k, s) r') = Some m" "m i1 = Some (k, s)" by (auto simp: lost_def with_stream_def)
  then have "\<exists>q. channels (bp_conns r' ! k) q = Some (st_channel s)"
    using table_entry [of "with_stream i1 (k, s) r'" m i1 k s] l by (auto simp: lost_def owns_def)
  then show ?thesis using lost_fails [OF l] assms(10) open1(1) open2(1) i(3) ne by auto
qed

section \<open>Several replies\<close>

text \<open>The client's calls of \<open>ReceiveReply\<close>, \<open>n\<close> in a row, each into a message like \<open>t\<close>.\<close>

fun client_calls ::
  "(gerr \<Rightarrow> string) \<Rightarrow> ('m \<Rightarrow> bool \<Rightarrow> 'm \<Rightarrow> 'r \<Rightarrow> ((gerr option \<times> 'm list) \<times> 'r) option) \<Rightarrow> 'm \<Rightarrow> nat \<Rightarrow> 'm multi_ctx \<Rightarrow> 'r \<Rightarrow>
     ((bool \<times> gerr option \<times> 'm) list \<times> 'm multi_ctx \<times> 'r) option" where
  "client_calls etext invoke t 0 x r = Some ([], x, r)"
| "client_calls etext invoke t (Suc n) x r =
     (case client_multi_ReceiveReply etext invoke x t r of
        None \<Rightarrow> None
      | Some (res, x, r) \<Rightarrow> map_option (\<lambda>(rs, s). (res # rs, s)) (client_calls etext invoke t n x r))"

lemma client_calls_read:
  "mx_replies x = pre @ ms \<Longrightarrow> mx_index x = length pre \<Longrightarrow> pre \<noteq> [] \<Longrightarrow> \<exists>x'.
   client_calls etext invoke t (length ms + j) x r = Some (map (\<lambda>m. (False, None, m)) ms @ replicate j (True, None, t), x', r)"
proof (induction ms arbitrary: x pre)
  case Nil
  then have "client_calls etext invoke t j x r = Some (replicate j (True, None, t), x, r)"
    by (induction j) (simp_all add: client_multi_ReceiveReply_def)
  then show ?case by simp
next
  case (Cons m ms)
  have "client_multi_ReceiveReply etext invoke x t r = Some ((False, None, m), x\<lparr>mx_index := mx_index x + 1\<rparr>, r)"
    using Cons.prems by (simp add: client_multi_ReceiveReply_def nth_append)
  then show ?case using Cons.IH [of "x\<lparr>mx_index := mx_index x + 1\<rparr>" "pre @ [m]"] Cons.prems by auto
qed

lemma client_calls_all:
  assumes "invoke req True t r = Some ((None, m # ms), r')"
  shows "\<exists>x. client_calls etext invoke t (Suc (length ms) + j) (client_SendMultiRequest req) r =
    Some (map (\<lambda>m. (False, None, m)) (m # ms) @ replicate j (True, None, t), x, r')"
proof -
  have "client_multi_ReceiveReply etext invoke (client_SendMultiRequest req) t r =
      Some ((False, None, m), \<lparr>mx_req = req, mx_index = 1, mx_replies = m # ms\<rparr>, r')"
    using assms by (simp add: client_multi_ReceiveReply_def client_SendMultiRequest_def)
  then show ?thesis
    using client_calls_read [of "\<lparr>mx_req = req, mx_index = 1, mx_replies = m # ms\<rparr>" "[m]" ms etext invoke t j r'] by auto
qed

text \<open>
  When the server has collected replies, the client's \<open>ReceiveReply\<close> gives them in their
  order and then the end, with one call of the server. When there are none, each \<open>ReceiveReply\<close> sends the
  request to VPP again.
\<close>

theorem multi_replies:
  "(\<forall>m ms r'. invoke req True t r = Some ((None, m # ms), r') \<longrightarrow>
      (\<exists>x. client_calls etext invoke t (Suc (length ms) + j) (client_SendMultiRequest req) r =
         Some (map (\<lambda>m. (False, None, m)) (m # ms) @ replicate j (True, None, t), x, r'))) \<and>
   ((\<forall>i < j. invoke req True t (rs i) = Some ((None, []), rs (Suc i))) \<longrightarrow>
      client_calls etext invoke t j (client_SendMultiRequest req) (rs 0) = Some (replicate j (True, None, t), client_SendMultiRequest req, rs j))"
proof (intro conjI allI impI)
  fix m ms r'
  assume "invoke req True t r = Some ((None, m # ms), r')"
  from client_calls_all [of invoke req t r m ms r' etext j, OF this] show "\<exists>x. client_calls etext invoke t (Suc (length ms) + j) (client_SendMultiRequest req) r =
      Some (map (\<lambda>m. (False, None, m)) (m # ms) @ replicate j (True, None, t), x, r')" .
next
  assume empty: "\<forall>i < j. invoke req True t (rs i) = Some ((None, []), rs (Suc i))"
  have "k \<le> j \<Longrightarrow> client_calls etext invoke t k (client_SendMultiRequest req) (rs (j - k)) =
      Some (replicate k (True, None, t), client_SendMultiRequest req, rs j)" for k
  proof (induction k)
    case (Suc k)
    then have "invoke req True t (rs (j - Suc k)) = Some ((None, []), rs (j - k))" using empty by (simp add: Suc_diff_Suc)
    then have "client_multi_ReceiveReply etext invoke (client_SendMultiRequest req) t (rs (j - Suc k)) =
        Some ((True, None, t), client_SendMultiRequest req, rs (j - k))"
      by (simp add: client_multi_ReceiveReply_def client_SendMultiRequest_def)
    then show ?case using Suc by simp
  qed simp
  from this [of j] show "client_calls etext invoke t j (client_SendMultiRequest req) (rs 0) =
      Some (replicate j (True, None, t), client_SendMultiRequest req, rs j)" by simp
qed

text \<open>The server's loop over the replies.\<close>

lemma part_received:
  assumes "rep_seqNum p = n" "carries mi mid p t m" "reply_error mi m = None" "delayedReply ch = None"
  shows "multiRequestCtx_ReceiveReply mi mid (Some (ch, n)) (Some t) (ReplyArrives p # evs) = Some ((False, None, Some m), Some ch, evs)"
  using assms processReply_carries [OF assms(1,2), of ch] by (simp add: multiRequestCtx_ReceiveReply_def receiveReplyInternal_no_delay)

lemma collect_parts:
  assumes "list_all2 (\<lambda>p m. rep_seqNum p = n \<and> carries mi mid p t m \<and> reply_error mi m = None) parts ms" "delayedReply ch = None"
    and "rep_seqNum ping = n" "rep_err ping = None" "rep_lastReceived ping" "length ms < k"
  shows "collect_replies mi mid n t k ch (map ReplyArrives parts @ ReplyArrives ping # rest) = Some ((None, ms), ch)"
  using assms
proof (induction parts ms arbitrary: k rule: list_all2_induct)
  case Nil
  then show ?case by (cases k) (simp_all add: multiRequestCtx_ReceiveReply_def receiveReplyInternal_no_delay processReply_end)
next
  case (Cons p parts m ms)
  then obtain k' where k: "k = Suc k'" "length ms < k'" by (cases k) auto
  have "collect_replies mi mid n t k' ch (map ReplyArrives parts @ ReplyArrives ping # rest) = Some ((None, ms), ch)"
    using Cons k(2) by simp
  then show ?case using part_received [of p n mi mid t m ch "map ReplyArrives parts @ ReplyArrives ping # rest"] Cons.hyps(1) Cons.prems(1)
    by (simp add: k(1))
qed

text \<open>
  C12 (refinement). A multipart request through the proxy, end to end: the parts VPP sends, decoded by the
  server, are what the client's calls of \<open>ReceiveReply\<close> return, in order, and then the end; the channel the
  server used for it is closed.
\<close>

theorem proxied_multipart:
  assumes "bp_reached mi api r" "bp_available r" "bp_conn r = Some k"
    and "newChannel pick RequestChanBufSize ReplyChanBufSize (bp_conns r ! k) = (Inr q, c1)" "chan_store c1 q = Some ch"
    and "\<And>c ch. chan_store c q = Some ch \<Longrightarrow> \<exists>ch'. chan_store (env c) q = Some ch' \<and> delayedReply ch' = delayedReply ch \<and> reqChan ch' = Some g"
    and "\<not> gc_closed g" "delayedReply ch = None"
    and "list_all2 (\<lambda>p m. rep_seqNum p = lastSeqNum ch + 1 \<and> carries mi mid p (msg_New mi t) m \<and> reply_error mi m = None) parts (m # ms)"
    and "rep_seqNum ping = lastSeqNum ch + 1" "rep_err ping = None" "rep_lastReceived ping"
  shows "\<exists>x r'. client_calls etext (\<lambda>msg multi reply. BinapiRPC_Invoke mi mid pick env (map ReplyArrives (parts @ [ping])) timeout msg multi reply)
      t (Suc (length ms) + j) (client_SendMultiRequest req) r =
    Some (map (\<lambda>m. (False, None, m)) (m # ms) @ replicate j (True, None, t), x, r')"
proof -
  let ?c = "bp_conns r ! k" and ?n = "lastSeqNum ch + 1" and ?evs = "map ReplyArrives (parts @ [ping])"
  have kc: "k < length (bp_conns r)" "conn_inv ?c" using bp_inv_conn [OF bp_inv_reached [OF assms(1)] assms(3)] by auto
  have "open_chan RequestChanBufSize (reqChan ch)"
    using newChannel_opens [OF kc(2), where n = RequestChanBufSize and pick = pick and k = ReplyChanBufSize] assms(4,5) by (auto simp: RequestChanBufSize_def)
  then obtain ch1 where send: "sendReq (SetReplyTimeout timeout ch) req True = (ReqSent, ?n, ch1)" "delayedReply ch1 = None"
    using assms(8) by (simp add: sendReq_def newRequest_def nextSeqNum_def SetReplyTimeout_def open_chan_def chan_send_def RequestChanBufSize_def Let_def)
  define c2 where "c2 = c1\<lparr>chan_store := (chan_store c1)(q \<mapsto> ch1)\<rparr>"
  obtain ch2 where ch2: "chan_store (env c2) q = Some ch2" "delayedReply ch2 = None" "reqChan ch2 = Some g"
    using assms(6) [of c2 ch1] send(2) by (auto simp: c2_def)
  have collect: "collect_replies mi mid ?n (msg_New mi t) (length ?evs + 2) ch2 ?evs = Some ((None, m # ms), ch2)"
    using collect_parts [OF assms(9) ch2(2) assms(10-12), of "length ?evs + 2" "[]"] list_all2_lengthD [OF assms(9)] by simp
  have inv: "invoke_channel mi mid env ?evs q req True t (c1\<lparr>chan_store := (chan_store c1)(q := map_option (SetReplyTimeout timeout) (chan_store c1 q))\<rparr>) =
      Some ((None, m # ms), env c2\<lparr>chan_store := (chan_store (env c2))(q \<mapsto> ch2)\<rparr>)"
    using assms(5) send(1) ch2(1) collect unfolding invoke_channel_def c2_def by (simp add: Let_def del: collect_replies.simps)
  have "\<exists>c3. close_channel q (env c2\<lparr>chan_store := (chan_store (env c2))(q \<mapsto> ch2)\<rparr>) = Some c3"
    using ch2(3) assms(7) by (simp add: close_channel_def Channel_Close_def chan_close_def)
  then have "\<exists>r'. BinapiRPC_Invoke mi mid pick env ?evs timeout req True t r = Some ((None, m # ms), r')"
    using assms(2-4) inv by (auto simp: BinapiRPC_Invoke_def)
  then show ?thesis using client_calls_all [of "\<lambda>msg multi reply. BinapiRPC_Invoke mi mid pick env ?evs timeout msg multi reply"] by blast
qed


section \<open>Compatibility\<close>

lemma CheckCompatiblity_one: "CheckCompatiblity mi mid [m] = None \<longleftrightarrow> known mid m"
  by (auto simp: CheckCompatiblity_def known_def split: sum.splits gerr.splits)

text \<open>
  C32 (functional). The client's compatibility check succeeds exactly when the server has a path under which
  all the messages are registered, with their checksums, and VPP knows all of them.
\<close>

theorem proxied_compatibility:
  assumes "bp_reached mi api r" "bp_available r" "bp_conn r = Some k"
    and "newChannel pick RequestChanBufSize ReplyChanBufSize (bp_conns r ! k) = (Inr q, c1)"
  shows "\<exists>c2. client_CheckCompatiblity etext mi mid regs pick msgs r =
    Some (if list_ex (\<lambda>(path, messages). list_all (\<lambda>m. \<exists>m'. messages (getMsgNameWithCrc mi m) = Some m' \<and> known mid m') msgs) regs then None
          else Some (ErrMsg (etext (ErrMsg ''compatibility check failed''))), set_conn k c2 r)"
proof -
  have kc: "conn_inv (bp_conns r ! k)" using bp_inv_conn [OF bp_inv_reached [OF assms(1)] assms(3)] by simp
  obtain ch where ch: "chan_store c1 q = Some ch" "open_chan RequestChanBufSize (reqChan ch)"
    using newChannel_opens [OF kc, where n = RequestChanBufSize and pick = pick and k = ReplyChanBufSize] assms(4) by (auto simp: RequestChanBufSize_def)
  then obtain c2 where c2: "close_channel q c1 = Some c2" by (simp add: close_channel_def Channel_Close_def chan_close_def open_chan_def)
  have at: "compatible_at mid messages mi nm \<longleftrightarrow> (\<exists>m'. messages nm = Some m' \<and> known mid m')" for messages nm
    by (auto simp: compatible_at_def CheckCompatiblity_one split: option.splits)
  have "list_ex (\<lambda>(path, ns). ns = []) (map (\<lambda>(path, messages). (path, filter (\<lambda>n. \<not> compatible_at mid messages mi n) (map (getMsgNameWithCrc mi) msgs))) regs) =
      list_ex (\<lambda>(path, messages). list_all (\<lambda>m. \<exists>m'. messages (getMsgNameWithCrc mi m) = Some m' \<and> known mid m') msgs) regs"
    by (induction regs) (auto simp: at filter_empty_conv list_all_iff)
  then show ?thesis using assms(2-4) c2 by (simp add: client_CheckCompatiblity_def Compatibility_def Let_def) blast
qed

section \<open>Examples\<close>

text \<open>A server that was connected, with nothing else done to it.\<close>

definition ex_server :: "(memclnt_msg, unit) BinapiRPC" where
  "ex_server = bp_event idle_api ControlPing (ControlPingReply 0 0 0) Connected
     (snd (BinapiRPC_connect ControlPing (ControlPingReply 0 0 0) () newBinapiRPC))"

lemma ex_server_reached: "bp_reached memclnt idle_api ex_server"
  unfolding ex_server_def by (rule bp_reached.step [OF bp_reached.step [OF bp_reached.start bp_step.call [OF bp_call.bp_connect]] bp_step.call [OF bp_call.bp_event]])

lemma ex_server [simp]:
  "bp_available ex_server" "bp_conn ex_server = Some 0" "bp_streams ex_server = None" "bp_maxStreamID ex_server = 0"
  "bp_conns ex_server = [AsyncConnect ControlPing (ControlPingReply 0 0 0) () 3 1000000000]"
  by (simp_all add: ex_server_def bp_event_def BinapiRPC_connect_def newBinapiRPC_def add_conn_def)

lemma ex_channel:
  "newChannel None RequestChanBufSize ReplyChanBufSize (AsyncConnect ControlPing (ControlPingReply 0 0 0) () 3 1000000000) = (Inr q, c) \<Longrightarrow>
   q = 0 \<and> chan_store c 0 = Some (prepare_channel 1 RequestChanBufSize ReplyChanBufSize fresh_channel)"
  "\<exists>c. newChannel None RequestChanBufSize ReplyChanBufSize (AsyncConnect ControlPing (ControlPingReply 0 0 0) () 3 1000000000) = (Inr 0, c)"
  by (auto simp: AsyncConnect_def newConnection_def newChannel_def newIDPool_first pool_get_def)

lemma ex_stream: "\<exists>s c. NewStream None [] (Some (AsyncConnect ControlPing (ControlPingReply 0 0 0) () 3 1000000000)) = (Inr s, Some c)"
  using ex_channel(2) by (auto simp: NewStream_def Let_def)

lemma ex_opened_stream: "\<exists>s r. NewAPIStream None ex_server = (Inr 1, r) \<and> bp_streams r = Some [1 \<mapsto> (0, s)]"
  using ex_stream by (auto simp: NewAPIStream_def NewAPIStream_open_def NewAPIStream_make_def NewAPIStream_add_def set_conn_def)

lemma streams_separate_witness:
  "\<exists>s r. NewAPIStream None ex_server = (Inr 1, r) \<and> bp_streams r = Some [1 \<mapsto> (0, s)] \<and> st_open s \<and>
     (\<exists>q. channels (bp_conns r ! 0) q = Some (st_channel s))"
proof -
  obtain s r where r: "NewAPIStream None ex_server = (Inr 1, r)" "bp_streams r = Some [1 \<mapsto> (0, s)]" using ex_opened_stream by blast
  have "bp_step memclnt idle_api ex_server (snd (NewAPIStream None ex_server))" by (rule bp_step.call [OF bp_call.bp_new]) (simp add: word_greater_zero_iff)
  then have "bp_reached memclnt idle_api r" using ex_server_reached r(1) bp_reached.step by fastforce
  from streams_separate [OF this r(2), of 1 0 s 1 0 s] have "st_open s \<and> (\<exists>q. channels (bp_conns r ! 0) q = Some (st_channel s))" by simp
  with r show ?thesis by blast
qed

lemma stream_lifecycle_witness:
  "\<exists>r1 err r2 r3. NewAPIStream None ex_server = (Inr 1, r1) \<and> SendMessage memclnt idle_api 0 1 ControlPing r1 = (err, r2) \<and>
     CloseStream 1 r2 = (None, r3) \<and> channels (bp_conns r3 ! 0) = channels (bp_conns ex_server ! 0) \<and> (\<exists>e. fst (getStream 1 r3) = Inl e)"
proof -
  obtain r1 where r1: "NewAPIStream None ex_server = (Inr 1, r1)" using ex_opened_stream by blast
  obtain err r2 where r2: "SendMessage memclnt idle_api 0 1 ControlPing r1 = (err, r2)" by (cases "SendMessage memclnt idle_api 0 1 ControlPing r1")
  obtain err' r3 where r3: "CloseStream 1 r2 = (err', r3)" by (cases "CloseStream 1 r2")
  have "bp_maxStreamID ex_server < - 1" by (simp add: word_greater_zero_iff)
  from stream_lifecycle [OF ex_server_reached this r1 r2 r3] show ?thesis using r1 r2 r3 by auto
qed

lemma NewStream_succeeds:
  assumes "conn_inv c" "dom (channels c) \<noteq> {1..0x7fff}"
  shows "\<exists>s c'. NewStream pick [] (Some c) = (Inr s, Some c')"
proof (cases "newChannel pick RequestChanBufSize ReplyChanBufSize c")
  case (Pair x c1)
  then show ?thesis
    using newChannel_opens [OF assms(1), where n = RequestChanBufSize and pick = pick and k = ReplyChanBufSize] assms(2)
    by (cases x) (auto simp: NewStream_def Let_def RequestChanBufSize_def)
qed

lemma first_stream_lost_witness:
  "\<exists>s s2 r1 r2 i1 i2 r3 r4 q. NewAPIStream_open None ex_server = (Inr ((0, s), True), r1) \<and> NewAPIStream_open None r1 = (Inr (s2, True), r2) \<and>
     NewAPIStream_add (0, s) (NewAPIStream_make True r2) = (i1, r3) \<and> NewAPIStream_add s2 (NewAPIStream_make True r3) = (i2, r4) \<and>
     SendMessage memclnt idle_api 0 i1 ControlPing r4 = (Some (ErrMsg ''BinapiRPC stream closed''), r4) \<and>
     CloseStream i1 r4 = (Some (ErrMsg ''BinapiRPC stream closed''), r4) \<and> channels (bp_conns r4 ! 0) q = Some (st_channel s)"
proof -
  let ?c = "AsyncConnect ControlPing (ControlPingReply 0 0 0) () 3 1000000000"
  have c: "conn_inv ?c" "channels ?c = Map.empty" by (simp add: conn_inv_Async) (simp add: AsyncConnect_def newConnection_def)
  obtain s c1 where s: "NewStream None [] (Some ?c) = (Inr s, Some c1)" using ex_stream by blast
  obtain j where j: "channels c1 = [j \<mapsto> st_channel s]" "conn_inv c1" using NewStream_owns [OF c(1) s] c(2) by (auto simp: owns_def)
  have "(1 :: u16) \<in> {1..0x7fff}" "(2 :: u16) \<in> {1..0x7fff}" "(1 :: u16) \<noteq> 2" by simp_all
  then have "dom (channels c1) \<noteq> {1..0x7fff}" using j(1) by (metis dom_empty dom_fun_upd option.distinct(1) singletonD)
  then obtain s' c2 where s': "NewStream None [] (Some c1) = (Inr s', Some c2)" using NewStream_succeeds [OF j(2)] by blast
  let ?r1 = "ex_server\<lparr>bp_conns := [c1]\<rparr>" and ?r2 = "ex_server\<lparr>bp_conns := [c2]\<rparr>"
  have o1: "NewAPIStream_open None ex_server = (Inr ((0, s), True), ?r1)" using s by (simp add: NewAPIStream_open_def set_conn_def)
  have o2: "NewAPIStream_open None ?r1 = (Inr ((0, s'), True), ?r2)" using s' by (simp add: NewAPIStream_open_def set_conn_def)
  obtain i1 r3 i2 r4 where a: "NewAPIStream_add (0, s) (NewAPIStream_make True ?r2) = (i1, r3)" "NewAPIStream_add (0, s') (NewAPIStream_make True r3) = (i2, r4)"
    by (metis surj_pair)
  have "bp_available r4" using a by (auto simp: NewAPIStream_add_def NewAPIStream_make_def Let_def)
  moreover have "bp_maxStreamID ex_server < - 2" by (simp add: word_less_nat_alt)
  note first_stream_lost [OF ex_server_reached ex_server(1,3) this o1 o2 a bp_later.now refl, where now = 0 and msg = ControlPing]
  ultimately show ?thesis using o1 o2 a by auto
qed

lemma multi_replies_witness:
  "\<exists>x. client_calls (\<lambda>_. ''e'') (\<lambda>msg multi reply n. Some ((None, if n = 0 then [7, 8] else []), Suc n)) (0 :: nat) 3 (client_SendMultiRequest 5) 0 =
     Some ([(False, None, 7), (False, None, 8), (True, None, 0)], x, Suc 0) \<and>
   client_calls (\<lambda>_. ''e'') (\<lambda>msg multi reply n. Some ((None, if n = 0 then [7, 8] else []), Suc n)) (0 :: nat) 2 (client_SendMultiRequest 5) 1 =
     Some ([(True, None, 0), (True, None, 0)], client_SendMultiRequest 5, 3)"
proof -
  let ?call = "\<lambda>msg multi reply n. Some ((None, if n = 0 then [7, 8] else []), Suc n)"
  have "\<exists>x. client_calls (\<lambda>_. ''e'') ?call (0 :: nat) (Suc (length [8 :: nat]) + 1) (client_SendMultiRequest 5) 0 =
      Some (map (\<lambda>m. (False, None, m)) (7 # [8]) @ replicate 1 (True, None, 0), x, Suc 0)"
    by (rule conjunct1 [OF multi_replies, rule_format]) simp
  moreover have "client_calls (\<lambda>_. ''e'') ?call (0 :: nat) 2 (client_SendMultiRequest 5) (Suc 0) =
      Some (replicate 2 (True, None, 0), client_SendMultiRequest 5, Suc 2)"
    by (rule conjunct2 [OF multi_replies, rule_format]) simp
  ultimately show ?thesis by (simp add: numeral_2_eq_2 numeral_3_eq_3 del: client_calls.simps)
qed

lemma proxied_multipart_witness:
  "\<exists>env x r'. client_calls (\<lambda>_. ''e'') (\<lambda>msg multi reply. BinapiRPC_Invoke memclnt ex_ids None env
        (map ReplyArrives ([ex_reply 1, ex_reply 1] @ [(ex_reply 1)\<lparr>rep_lastReceived := True\<rparr>])) 5 msg multi reply)
      (ControlPingReply 0 0 0) 3 (client_SendMultiRequest ControlPing) ex_server =
    Some ([(False, None, ControlPingReply 0 7 9), (False, None, ControlPingReply 0 7 9), (True, None, ControlPingReply 0 0 0)], x, r')"
proof -
  let ?g = "\<lparr>gc_cap = 100, gc_queue = [], gc_closed = False\<rparr>"
  let ?env = "\<lambda>c. c\<lparr>chan_store := \<lambda>q. map_option (\<lambda>ch. ch\<lparr>reqChan := Some ?g\<rparr>) (chan_store c q)\<rparr>"
  obtain c where c: "newChannel None RequestChanBufSize ReplyChanBufSize (bp_conns ex_server ! 0) = (Inr 0, c)" using ex_channel(2) by auto
  then have ch: "chan_store c 0 = Some (prepare_channel 1 RequestChanBufSize ReplyChanBufSize fresh_channel)" using ex_channel(1) by simp
  have fresh: "delayedReply (prepare_channel 1 RequestChanBufSize ReplyChanBufSize fresh_channel) = None"
    "lastSeqNum (prepare_channel 1 RequestChanBufSize ReplyChanBufSize fresh_channel) = 0"
    by (simp_all add: prepare_channel_def fresh_channel_def Let_def)
  have "\<exists>x r'. client_calls (\<lambda>_. ''e'') (\<lambda>msg multi reply. BinapiRPC_Invoke memclnt ex_ids None ?env
        (map ReplyArrives ([ex_reply 1, ex_reply 1] @ [(ex_reply 1)\<lparr>rep_lastReceived := True\<rparr>])) 5 msg multi reply)
      (ControlPingReply 0 0 0) (Suc (length [ControlPingReply 0 7 9]) + 1) (client_SendMultiRequest ControlPing) ex_server =
    Some (map (\<lambda>m. (False, None, m)) [ControlPingReply 0 7 9, ControlPingReply 0 7 9] @ replicate 1 (True, None, ControlPingReply 0 0 0), x, r')"
    by (rule proxied_multipart [OF ex_server_reached _ _ c ch, of ?env ?g ex_ids "ControlPingReply 0 0 0" "[ex_reply 1, ex_reply 1]"
      "ControlPingReply 0 7 9" "[ControlPingReply 0 7 9]" "(ex_reply 1)\<lparr>rep_lastReceived := True\<rparr>"]) (use fresh ex_carries [of 1] ex_no_error in \<open>auto simp: ex_reply_def [of 1, THEN arg_cong [of _ _ rep_err]]\<close>)
  then show ?thesis by (simp add: numeral_3_eq_3 del: client_calls.simps) blast
qed

lemma proxied_compatibility_witness:
  "\<exists>c2. client_CheckCompatiblity (\<lambda>_. ''e'') memclnt ex_ids [(''binapi'', [getMsgNameWithCrc memclnt ControlPing \<mapsto> ControlPing])] None [ControlPing] ex_server =
     Some (None, set_conn 0 c2 ex_server)"
proof -
  obtain c where "newChannel None RequestChanBufSize ReplyChanBufSize (bp_conns ex_server ! 0) = (Inr 0, c)" using ex_channel(2) by auto
  from proxied_compatibility [OF ex_server_reached _ _ this, where etext = "\<lambda>_. ''e''" and mid = ex_ids and msgs = "[ControlPing]"
      and regs = "[(''binapi'', [getMsgNameWithCrc memclnt ControlPing \<mapsto> ControlPing])]"]
  show ?thesis by (simp add: known_def ex_ids_def)
qed

end
