(* ===== verification/Spec2Isabelle.thy ===== *)
theory Spec2Isabelle
  imports CoreFlow CoreLoops CoreStream CoreStatsProps TcpClient StatsClientProps MemifControlProps GenOrder GenCodec ProxyStatsProps ProxyBinapiProps
begin

text \<open>
  GoVPP is a Go library for programs that control the VPP dataplane. This development models its own
  logic, part by part, and proves what makes the parts and their compositions correct; where the code
  goes wrong, a theorem says how.

  \<^bold>\<open>Conventions.\<close> Go integers are words of their width (\<open>u8\<close> to \<open>u64\<close>, \<open>i8\<close> to \<open>i64\<close>), \<open>int\<close> and lengths
  are HOL integers and naturals. A run-time panic is \<open>None\<close>, a Go error is a value of \<open>gerr\<close>, an
  operation that returns a value or an error is a sum with the error on the left. State that methods
  change through a pointer is passed in and returned. Slices are lists; where the capacity matters, as in
  the wire buffer, bytes behind the length are kept. Goroutines are steps of relations or arguments that
  say what the others did in between; clocks, tickers and sockets are lists of events. Logging is left
  out throughout. Each theory says at its top which files of the repository it models, and the
  definitions bear the names of the code.

  \<^bold>\<open>Foundations.\<close> \<open>GovppPrelude\<close> has integers, errors, byte orders and strings; \<open>GoChan\<close> Go channels with
  their blocking and panicking operations; \<open>GoSort\<close> the stable sort of the standard library for
  comparisons that need not be orders; \<open>MessageStream\<close> and \<open>PacketQueue\<close> the contracts of a transport
  and of a ring, as locales; \<open>SharedRead\<close> reading from memory that another process writes.

  \<^bold>\<open>The codec\<close> (codec/). \<open>CodecBuffer\<close> has the wire buffer. Its locale \<open>wire_codec\<close> says what an encoder
  and its decoder promise each other and what they leave alone, and every pair of the buffer is an
  instance. \<open>MsgCodec\<close> has \<open>EncodeMsg\<close> and \<open>DecodeMsg\<close> with the panics they recover from; the locale
  \<open>message_codec\<close> is the contract for a family of message types, with a lemma that a message survives the
  rewriting of its header by the transport. \<open>MemClnt\<close> instantiates it with the messages the client sends
  itself, \<open>GenCodec\<close> with every message the generator can make code for.

  \<^bold>\<open>The core\<close> (core/). \<open>ReqContext\<close>: contexts of requests, distinct over any window of sequence numbers.
  \<open>IdPool\<close>: the pool of channel ids, with its locale and its invariant. \<open>CoreChannel\<close>: an API channel and
  its receive loop, over the list of events (replies, timeouts) that reach it; a list that ends without
  a result means that the call still blocks, and it is a theorem when that happens. \<open>CoreTrace\<close>: the API
  trace. \<open>CoreConn\<close> and \<open>CoreHandler\<close>: the connection, requests to the adapter, the callback for
  messages from VPP, subscriptions. \<open>CoreLifecycle\<close>: the life of channels as a step relation with its
  invariant. \<open>CoreProps\<close> and \<open>CoreFlow\<close>: what follows for whole requests; the reply VPP encodes for a
  request is what the caller of \<open>ReceiveReply\<close> gets. \<open>CoreLoops\<close>: connecting with bounded attempts and the
  health check. \<open>CoreStream\<close>: streams and watchers. \<open>CoreStats\<close>, \<open>CoreStatsProps\<close>: the statistics
  connection over the interface of a stats provider; an update makes at most ten tries.

  \<^bold>\<open>Adapters\<close> (adapter/). \<open>SocketClient\<close>, \<open>SocketProps\<close> and \<open>TcpClient\<close>: framing, registration and the
  reader loops; both adapters are instances of \<open>message_stream\<close>, for all ways a stream can be cut into
  reads. \<open>StatTypes\<close>, \<open>StatSegment\<close>, \<open>StatSegmentV1\<close>, \<open>StatSegmentProps\<close>, \<open>StatsClient\<close> and
  \<open>StatsClientProps\<close>: the stats segment, which VPP writes while the client reads. A history gives the
  memory at each instant; the locale \<open>stat_segment\<close> says what a version of the layout promises, and both
  versions are instances. Symlinks in the directory are followed at most 64 times in the model: VPP has
  no chains of them, the code would follow a circle until its stack is exhausted, and both are \<open>None\<close>.

  \<^bold>\<open>The shared-memory packet interface\<close> (extras/gomemif/memif). \<open>SharedRegion\<close>, \<open>MemifRing\<close> and
  \<open>MemifRingProps\<close>: rings with their free-running 16-bit positions as first-in-first-out queues, in both
  directions instances of \<open>packet_queue\<close>. \<open>MemifInterface\<close>, \<open>MemifInit\<close>, \<open>MemifProps\<close>: interfaces and the
  layout of the memory they create. \<open>MemifMessages\<close>, \<open>MemifControl\<close>, \<open>MemifHandshake\<close>, \<open>MemifConnected\<close>
  and \<open>MemifControlProps\<close>: the control channel, from the bytes of its messages to two connected
  interfaces, with the number of messages that takes, and then packets over every queue pair.

  \<^bold>\<open>The binary API generator\<close> (binapigen/). \<open>GenNames\<close>, \<open>GenTypes\<close>, \<open>GenSchema\<close> and \<open>GenNew\<close>: names, the
  parsed API files, the objects made of them, with their references as positions in the store, and \<open>New\<close>.
  Following imports recurses at most once more than there are files, which is enough whenever the
  imports do not go round in circles; otherwise the code does not return. \<open>GenResolve\<close>: the
  invariant of the store, and the tree of a message's fields, unfolded to a depth that the ranks of the
  types bound. \<open>GenCode\<close>, \<open>GenEncoding\<close>: the statements of the generated methods with what they do when
  they run, and the functions that print them. \<open>GenWire\<close>, \<open>GenDecode\<close>, \<open>GenProps\<close>: the wire format as a
  function of its own, and the generated code as an implementation of it. \<open>GenLoad\<close> and \<open>GenCodec\<close>: from
  API files through the loaded schema and the generated methods to the codec of the client.
  \<open>GenOrder\<close>: the order in which \<open>New\<close> visits the files is not transitive, and what it does to three files.

  \<^bold>\<open>The proxy\<close> (proxy/). \<open>ProxyStats\<close> and \<open>ProxyBinapi\<close>: the two servers with their watchers, every call they
  serve, and the clients that call them. A watcher's round and a call are steps; several of them are a
  sequence or a relation, and where two calls interleave they are cut where the code holds no lock.
  A server makes a new connection to VPP when the old one failed; it keeps them all, and a stream belongs
  to the connection it was opened on. Values pass through net/rpc unchanged, and errors as their text.
  \<open>ProxyStatsProps\<close> and \<open>ProxyBinapiProps\<close>: when the servers are available, that streams of different ids
  never share a channel, and that what a client gets through the proxy is what the core returns. The ids
  of streams are 32 bits wide and the steps stop before they wrap around. Left out are dialling,
  HTTP, the registration with net/rpc and its encoding, and subscriptions, which the client panics on.

  \<^bold>\<open>Not modelled.\<close> The command line tools, examples, integration tests, version and logging are flag
  parsing, printing and process control. Parsing of API files runs on the trees of a JSON package that is
  not in the repository; finding and downloading them calls external programs. The generated messages
  under binapi/ repeat one shape that \<open>GenEncoding\<close> models in general and \<open>MemClnt\<close> in particular. The binding
  of libmemif wraps a C library that is not in the repository. Of the modelled parts, dialling and
  waiting for socket files, starting of goroutines and the printing of declarations are left out.
\<close>

end
